(* ===== verification/Prelude.thy ===== *)
theory Prelude
  imports Main "HOL-Library.Word" "HOL-Library.Multiset" "HOL-Library.Monad_Syntax"
begin

text \<open>
  Vocabulary shared by every component of the development: the C integer types as
  fixed-width words, the errno values the sources return, bounds-checked array access,
  and the generic lemmas on words and lists.

  A function of the model that touches memory returns an option. \<open>None\<close> stands for
  an execution the C language gives no meaning to (an access outside the array or object
  it is aimed at) or for a wait that no other thread of the model can end. A theorem that
  says \<open>= Some ...\<close> therefore also says that no such access happens.
\<close>

unbundle bit_operations_syntax

section \<open>C types and constants\<close>

type_synonym u8 = "8 word"
type_synonym u16 = "16 word"
type_synonym u32 = "32 word"
type_synonym u64 = "64 word"

text \<open>An address of the process; \<open>0\<close> is the null pointer.\<close>

type_synonym addr = "64 word"

abbreviation NULL :: addr where "NULL \<equiv> 0"

abbreviation ENOENT :: int where "ENOENT \<equiv> 2"
abbreviation EIO :: int where "EIO \<equiv> 5"
abbreviation ENOMEM :: int where "ENOMEM \<equiv> 12"
abbreviation EBUSY :: int where "EBUSY \<equiv> 16"
abbreviation EEXIST :: int where "EEXIST \<equiv> 17"
abbreviation ENODEV :: int where "ENODEV \<equiv> 19"
abbreviation EINVAL :: int where "EINVAL \<equiv> 22"
abbreviation ENOSPC :: int where "ENOSPC \<equiv> 28"
abbreviation ENAMETOOLONG :: int where "ENAMETOOLONG \<equiv> 36"
abbreviation EOVERFLOW :: int where "EOVERFLOW \<equiv> 75"
abbreviation ENOTSUP :: int where "ENOTSUP \<equiv> 95"
abbreviation ENOBUFS :: int where "ENOBUFS \<equiv> 105"

section \<open>Proof hint collections\<close>

named_theorems word_nat "from fixed-width arithmetic to natural numbers"
named_theorems unfold_ops "definitions of operations, for symbolic execution"

section \<open>Bounds-checked arrays\<close>

definition ld :: "'a list \<Rightarrow> u32 \<Rightarrow> 'a option" where
  "ld xs i = (if unat i < length xs then Some (xs ! unat i) else None)"

definition st :: "'a list \<Rightarrow> u32 \<Rightarrow> 'a \<Rightarrow> 'a list option" where
  "st xs i v = (if unat i < length xs then Some (xs[unat i := v]) else None)"

lemma ld_Some [simp]: "unat i < length xs \<Longrightarrow> ld xs i = Some (xs ! unat i)"
  by (simp add: ld_def)

lemma st_Some [simp]: "unat i < length xs \<Longrightarrow> st xs i v = Some (xs[unat i := v])"
  by (simp add: st_def)

lemma st_length: "st xs i v = Some ys \<Longrightarrow> length ys = length xs"
  by (auto simp: st_def split: if_splits)

section \<open>Words\<close>

lemma unat_add_nowrap [word_nat]:
  fixes a b :: "'n::len word"
  assumes "unat a + unat b < 2 ^ LENGTH('n)"
  shows "unat (a + b) = unat a + unat b"
  using assms by (simp add: unat_word_ariths)

lemma unat_sub_nowrap [word_nat]:
  fixes a b :: "'n::len word"
  assumes "unat b \<le> unat a"
  shows "unat (a - b) = unat a - unat b"
  using assms by (simp add: unat_sub word_le_nat_alt)

lemma unat_and_mask [word_nat]:
  fixes x :: "'n::len word"
  shows "unat (x AND mask k) = unat x mod 2 ^ k"
  by (simp flip: take_bit_eq_mask add: unsigned_take_bit_eq take_bit_nat_def)

lemma unat_pow2_word:
  assumes "k < LENGTH('n)"
  shows "unat (2 ^ k :: 'n::len word) = 2 ^ k"
proof -
  have "unat (of_nat (2 ^ k) :: 'n word) = 2 ^ k mod 2 ^ LENGTH('n)"
    by (simp only: unat_of_nat)
  with assms show ?thesis by simp
qed

lemma pow2_minus_1_mask: "(2 ^ k - 1 :: 'n::len word) = mask k"
  by (simp add: mask_eq_exp_minus_1)

lemma unat32_bound [simp]: "unat (x :: u32) < 4294967296"
  using unsigned_less [of x, where ?'a = nat] by simp

lemma unat_suc_word:
  fixes x :: "'n::len word"
  assumes "x < y"
  shows "unat (x + 1) = Suc (unat x)"
proof -
  have "Suc (unat x) \<le> unat y" using assms by (simp add: word_less_nat_alt)
  also have "unat y < 2 ^ LENGTH('n)" by (rule unsigned_less)
  finally show ?thesis by (simp add: unat_word_ariths unat_1)
qed

lemma sint_small:
  fixes w :: "'n::len word"
  assumes "unat w < 2 ^ (LENGTH('n) - 1)"
  shows "sint w = int (unat w)"
proof -
  have u: "int (unat w) = uint w" by simp
  have lt: "uint w < 2 ^ (LENGTH('n) - 1)"
    unfolding u [symmetric] using assms by (metis of_nat_less_iff of_nat_numeral of_nat_power)
  have "- (2 ^ (LENGTH('n) - 1)) \<le> (0 :: int)" by simp
  then have ge: "- (2 ^ (LENGTH('n) - 1)) \<le> uint w" using uint_ge_0 order_trans by blast
  show ?thesis unfolding u sint_uint using signed_take_bit_int_eq_self [OF ge lt] by simp
qed

text \<open>
  The difference of two free-running counters: if the true distance is below \<open>2 ^ 32\<close>,
  the 32-bit subtraction gives it, whatever the number of wrap-arounds.
\<close>

lemma counter_distance:
  fixes a :: u32
  assumes "d < 2 ^ 32"
  shows "unat (a + of_nat d - a) = d"
  using assms by (simp add: unat_of_nat)

lemma mod_add_pow2_dvd:
  fixes a b :: nat
  assumes "k \<le> n"
  shows "((a + b) mod 2 ^ n) mod 2 ^ k = (a + b) mod 2 ^ k"
  using assms by (simp add: le_imp_power_dvd mod_mod_cancel)

section \<open>Lists\<close>

lemma map_nth_drop_upt:
  assumes "s + n \<le> length xs"
  shows "map (\<lambda>i. xs ! (s + i)) [0..<n] = take n (drop s xs)"
  using assms by (auto intro!: nth_equalityI)

lemma mset_take_drop: "mset (take n xs) + mset (drop n xs) = mset xs"
  by (metis append_take_drop_id mset_append)

end
