(* ===== verification/Eal_Bits.thy ===== *)
theory Eal_Bits
  imports Prelude
begin

text \<open>
  The arithmetic helpers of \<open>lib/eal/include/rte_common.h\<close> the rings and pools size
  themselves with: the power-of-two test, rounding up to a power of two and rounding up to
  an alignment. The lemmas relate the bit tricks to powers of two of natural numbers.
\<close>

section \<open>Powers of two\<close>

text \<open>\<open>POWEROF2\<close> of \<open>lib/ring/rte_ring.c\<close>. It holds of zero.\<close>

definition POWEROF2 :: "u32 \<Rightarrow> bool" where
  "POWEROF2 x \<longleftrightarrow> (x - 1) AND x = 0"

lemma nat_pow2_and:
  fixes n :: nat
  shows "0 < n \<Longrightarrow> (n - 1) AND n = 0 \<Longrightarrow> \<exists>k. n = 2 ^ k"
proof (induction n rule: less_induct)
  case (less n)
  show ?case
  proof (cases "even n")
    case True
    then obtain m where m: "n = 2 * m" by (elim evenE)
    with less.prems have pos: "0 < m" by simp
    have "(2 * m - 1) AND (2 * m) = 2 * ((m - 1) AND m)"
      using pos by (subst and_rec) (auto simp: gr0_conv_Suc)
    with m less.prems(2) have "(m - 1) AND m = 0" by simp
    with less.IH [of m] m pos obtain k where "m = 2 ^ k" by auto
    with m show ?thesis by (metis power_Suc)
  next
    case False
    then obtain m where m: "n = 2 * m + 1" by (elim oddE)
    have "(2 * m) AND (2 * m + 1) = 2 * (m AND m)"
      by (subst and_rec) simp
    with m less.prems(2) have "m = 0" by simp
    with m have "n = 2 ^ 0" by simp
    then show ?thesis by blast
  qed
qed

lemma POWEROF2_pow2:
  assumes "POWEROF2 x" "x \<noteq> 0"
  obtains k where "k < 32" "unat x = 2 ^ k"
proof -
  have x: "0 < unat x" using assms(2) by (simp add: unat_gt_0)
  have "unat (x - 1) = unat x - 1" using x by (simp add: unat_minus_one assms(2))
  moreover have "unat ((x - 1) AND x) = 0" using assms(1) by (simp add: POWEROF2_def)
  ultimately have "(unat x - 1) AND unat x = 0" by (simp add: unsigned_and_eq)
  then obtain k where k: "unat x = 2 ^ k" using nat_pow2_and x by blast
  moreover have "k < 32"
  proof (rule ccontr)
    assume "\<not> k < 32"
    then have "(2::nat) ^ 32 \<le> 2 ^ k" by (intro power_increasing) auto
    then show False using unat32_bound [of x] k by simp
  qed
  ultimately show ?thesis using that by blast
qed

lemma pow2_POWEROF2: "k < 32 \<Longrightarrow> POWEROF2 (2 ^ k)"
  unfolding POWEROF2_def pow2_minus_1_mask
  by (rule bit_word_eqI) (simp add: bit_simps)

section \<open>Rounding up to a power of two\<close>

definition rte_combine32ms1b :: "u32 \<Rightarrow> u32" where
  "rte_combine32ms1b x =
     (let x = x OR drop_bit 1 x;
          x = x OR drop_bit 2 x;
          x = x OR drop_bit 4 x;
          x = x OR drop_bit 8 x;
          x = x OR drop_bit 16 x
      in x)"

definition rte_align32pow2 :: "u32 \<Rightarrow> u32" where
  "rte_align32pow2 x = (let x = x - 1; x = rte_combine32ms1b x in x + 1)"

lemma bit_or_drop: "bit (x OR drop_bit k x) n \<longleftrightarrow> bit x n \<or> bit (x :: u32) (k + n)"
  by (simp add: bit_simps)

definition covers :: "nat \<Rightarrow> u32 \<Rightarrow> u32 \<Rightarrow> bool" where
  "covers w x y \<longleftrightarrow> (\<forall>n. bit y n \<longleftrightarrow> (\<exists>m<w. bit x (n + m)))"

lemma covers_double: "covers w x y \<Longrightarrow> covers (w + w) x (y OR drop_bit w y)"
proof -
  assume c: "covers w x y"
  have "(\<exists>m<w. P (n + m)) \<or> (\<exists>m<w. P (w + n + m)) \<longleftrightarrow> (\<exists>m<w + w. P (n + m))" for n and P :: "nat \<Rightarrow> bool"
  proof
    assume "(\<exists>m<w. P (n + m)) \<or> (\<exists>m<w. P (w + n + m))"
    then show "\<exists>m<w + w. P (n + m)"
    proof
      assume "\<exists>m<w. P (w + n + m)"
      then obtain m where "m < w" "P (n + (w + m))" by (auto simp: ac_simps)
      then show ?thesis by (intro exI [of _ "w + m"]) simp
    qed (auto intro: trans_less_add1)
  next
    assume "\<exists>m<w + w. P (n + m)"
    then obtain m where m: "m < w + w" "P (n + m)" by blast
    then show "(\<exists>m<w. P (n + m)) \<or> (\<exists>m<w. P (w + n + m))"
    proof (cases "m < w")
      case False
      then have "m - w < w" "P (w + n + (m - w))" using m by (auto simp: ac_simps)
      then show ?thesis by blast
    qed (use m in blast)
  qed
  with c show ?thesis by (simp add: covers_def bit_or_drop)
qed

lemma combine_covers: "covers 32 x (rte_combine32ms1b x)"
proof -
  define x1 where "x1 = x OR drop_bit 1 x"
  define x2 where "x2 = x1 OR drop_bit 2 x1"
  define x4 where "x4 = x2 OR drop_bit 4 x2"
  define x8 where "x8 = x4 OR drop_bit 8 x4"
  have "covers 1 x x" by (simp add: covers_def)
  from covers_double [OF this] have "covers 2 x x1" by (simp add: x1_def numeral_2_eq_2)
  from covers_double [OF this] have "covers 4 x x2" by (simp add: x2_def)
  from covers_double [OF this] have "covers 8 x x4" by (simp add: x4_def)
  from covers_double [OF this] have "covers 16 x x8" by (simp add: x8_def)
  from covers_double [OF this] have "covers 32 x (x8 OR drop_bit 16 x8)" by simp
  then show ?thesis
    by (simp only: rte_combine32ms1b_def Let_def x1_def x2_def x4_def x8_def)
qed

lemma bit_unat: "bit x n \<longleftrightarrow> odd (unat (x :: 'n::len word) div 2 ^ n)"
  by (simp add: bit_unsigned_iff flip: bit_iff_odd)

lemma unat_pow2_lt_32:
  fixes x :: u32
  assumes "2 ^ k \<le> unat x"
  shows "k < 32"
proof (rule ccontr)
  assume "\<not> k < 32"
  then have "(2::nat) ^ 32 \<le> 2 ^ k" by (intro power_increasing) auto
  also note assms
  finally show False using unat32_bound [of x] by simp
qed

lemma combine_mask:
  assumes "2 ^ k \<le> unat x" "unat x < 2 ^ Suc k"
  shows "rte_combine32ms1b x = mask (Suc k)"
proof (rule bit_word_eqI)
  fix n assume n: "n < LENGTH(32)"
  have k: "k < 32" using assms(1) by (rule unat_pow2_lt_32)
  have "unat x div 2 ^ k = 1" using assms by (intro div_nat_eqI) auto
  then have bk: "bit x k" by (simp add: bit_unat)
  have hi: "\<not> bit x m" if "k < m" for m
  proof -
    have "unat x < 2 ^ m"
      using assms(2) that by (meson Suc_leI le_less_trans less_le_trans one_le_numeral power_increasing)
    then show ?thesis by (simp add: bit_unat)
  qed
  show "bit (rte_combine32ms1b x) n \<longleftrightarrow> bit (mask (Suc k) :: u32) n"
  proof (cases "n \<le> k")
    case True
    then have "\<exists>m<32. bit x (n + m)" using bk k by (intro exI [of _ "k - n"]) auto
    then show ?thesis using combine_covers [of x] True n by (simp add: covers_def bit_mask_iff)
  next
    case False
    then have "\<not> (\<exists>m<32. bit x (n + m))" using hi by simp
    then show ?thesis using combine_covers [of x] False by (simp add: covers_def bit_mask_iff)
  qed
qed

text \<open>The least power of two that is not below \<open>x\<close>.\<close>

lemma align32pow2_correct:
  assumes "x \<noteq> 0" "unat x \<le> 2 ^ 31"
  shows "\<exists>k. unat (rte_align32pow2 x) = 2 ^ k \<and> k \<le> 31 \<and> unat x \<le> 2 ^ k \<and> (k = 0 \<or> 2 ^ (k - 1) < unat x)"
proof (cases "x = 1")
  case True
  then have "unat (rte_align32pow2 x) = 2 ^ 0"
    by (simp add: rte_align32pow2_def rte_combine32ms1b_def)
  then show ?thesis using True by (intro exI [of _ 0]) simp
next
  case False
  with assms(1) have x: "1 < unat x"
    by (metis One_nat_def Suc_lessI unat_1 unat_gt_0 word_unat_eq_iff)
  then have y: "unat (x - 1) = unat x - 1" by (simp add: unat_minus_one assms(1))
  have "0 < unat (x - 1)" using x y by simp
  then obtain k where k: "2 ^ k \<le> unat (x - 1)" "unat (x - 1) < 2 ^ Suc k"
    using ex_power_ivl1 [of 2 "unat (x - 1)"] by auto
  have "k < 31"
  proof (rule ccontr)
    assume "\<not> k < 31"
    then have "(2::nat) ^ 31 \<le> 2 ^ k" by (intro power_increasing) auto
    with k(1) y assms(2) x show False by simp
  qed
  have "rte_align32pow2 x = mask (Suc k) + 1"
    using combine_mask [OF k] by (simp add: rte_align32pow2_def Let_def)
  also have "\<dots> = 2 ^ Suc k" by (simp add: mask_eq_exp_minus_1)
  finally have "unat (rte_align32pow2 x) = 2 ^ Suc k"
    using \<open>k < 31\<close> unat_pow2_word [of "Suc k", where 'n = 32] by simp
  moreover have "unat x \<le> 2 ^ Suc k" "2 ^ k < unat x" using k y x by auto
  ultimately show ?thesis using \<open>k < 31\<close> by (intro exI [of _ "Suc k"]) simp
qed
section \<open>Rounding up to an alignment\<close>

definition RTE_ALIGN_FLOOR :: "'n::len word \<Rightarrow> 'n word \<Rightarrow> 'n word" where
  "RTE_ALIGN_FLOOR val align = val AND NOT (align - 1)"

definition RTE_ALIGN_CEIL :: "'n::len word \<Rightarrow> 'n word \<Rightarrow> 'n word" where
  "RTE_ALIGN_CEIL val align = RTE_ALIGN_FLOOR (val + (align - 1)) align"

lemma align_floor_pow2:
  fixes x :: "'n::len word"
  assumes "k < LENGTH('n)"
  shows "unat (RTE_ALIGN_FLOOR x (2 ^ k)) = unat x - unat x mod 2 ^ k"
proof -
  have "(x AND NOT (mask k)) AND (x AND mask k) = 0"
    by (rule bit_word_eqI) (simp add: bit_simps)
  then have "(x AND NOT (mask k)) + (x AND mask k) = (x AND NOT (mask k)) OR (x AND mask k)"
    by (rule disjunctive_add_eq_or)
  also have "\<dots> = x" by (rule bit_word_eqI) (auto simp: bit_simps)
  finally have "x AND NOT (mask k) = x - (x AND mask k)"
    by (metis add_diff_cancel_right')
  moreover have "unat (x AND mask k) \<le> unat x" by (simp add: unat_and_mask)
  ultimately show ?thesis
    by (simp add: RTE_ALIGN_FLOOR_def pow2_minus_1_mask unat_sub_nowrap unat_and_mask)
qed

lemma align_ceil_pow2:
  fixes x :: "'n::len word"
  assumes "k < LENGTH('n)" "unat x + 2 ^ k \<le> 2 ^ LENGTH('n)"
  shows "unat (RTE_ALIGN_CEIL x (2 ^ k)) = (unat x + 2 ^ k - 1) div 2 ^ k * 2 ^ k"
proof -
  have one: "unat (2 ^ k - 1 :: 'n word) = 2 ^ k - 1"
    using assms(1) by (simp add: unat_pow2_word unat_sub_nowrap unat_1)
  have "(0::nat) < 2 ^ k" by simp
  then have "unat x + (2 ^ k - 1) < 2 ^ LENGTH('n)" using assms(2) by linarith
  then have "unat (x + (2 ^ k - 1)) = unat x + 2 ^ k - 1"
    using one by (simp add: unat_add_nowrap)
  then show ?thesis
    using assms(1) by (simp add: RTE_ALIGN_CEIL_def align_floor_pow2 minus_mod_eq_div_mult)
qed

lemma align_ceil_ge:
  fixes x :: "'n::len word"
  assumes "k < LENGTH('n)" "unat x + 2 ^ k \<le> 2 ^ LENGTH('n)"
  shows "unat x \<le> unat (RTE_ALIGN_CEIL x (2 ^ k))"
    and "unat (RTE_ALIGN_CEIL x (2 ^ k)) < unat x + 2 ^ k"
    and "2 ^ k dvd unat (RTE_ALIGN_CEIL x (2 ^ k))"
proof -
  let ?m = "(unat x + 2 ^ k - 1) mod 2 ^ k"
  have d: "(unat x + 2 ^ k - 1) div 2 ^ k * 2 ^ k = unat x + 2 ^ k - 1 - ?m"
    by (simp add: minus_mod_eq_div_mult)
  have m: "?m < 2 ^ k" by simp
  note c = align_ceil_pow2 [OF assms] d
  show "unat x \<le> unat (RTE_ALIGN_CEIL x (2 ^ k))" using c m by linarith
  show "unat (RTE_ALIGN_CEIL x (2 ^ k)) < unat x + 2 ^ k"
  proof -
    have "(0::nat) < 2 ^ k" by simp
    then show ?thesis using c m by linarith
  qed
  show "2 ^ k dvd unat (RTE_ALIGN_CEIL x (2 ^ k))" by (simp add: align_ceil_pow2 [OF assms])
qed

end
