(* ===== verification/Ring_Core.thy ===== *)
theory Ring_Core
  imports Eal_Bits
begin

text \<open>
  The ring object of \<open>lib/ring\<close>: its layout (\<open>rte_ring_core.h\<close>), sizing,
  initialisation, creation, lookup and release (\<open>rte_ring.c\<close>) and the counters
  (\<open>rte_ring.h\<close>). The invariant of an idle ring and the list of elements it holds
  are defined here; \<open>Ring_Queue\<close> proves the queue operations against them.
\<close>

section \<open>Layout\<close>

datatype rte_ring_queue_behavior = RTE_RING_QUEUE_FIXED | RTE_RING_QUEUE_VARIABLE

datatype rte_ring_sync_type =
  RTE_RING_SYNC_MT | RTE_RING_SYNC_ST | RTE_RING_SYNC_MT_RTS | RTE_RING_SYNC_MT_HTS

text \<open>
  The union of \<open>rte_ring_headtail\<close>, \<open>rte_ring_hts_headtail\<close> and
  \<open>rte_ring_rts_headtail\<close>, by its memory words:
  \<^item> \<open>ht_head\<close> (offset 0): \<open>head\<close>; \<open>ht.pos.head\<close> of HTS; \<open>tail.val.cnt\<close> of RTS;
  \<^item> \<open>ht_tail\<close> (offset 4): \<open>tail\<close>; \<open>ht.pos.tail\<close> of HTS; \<open>tail.val.pos\<close> of RTS;
  \<^item> \<open>ht_sync_type\<close> (offset 8);
  \<^item> \<open>ht_htd_max\<close> (offset 12), \<open>ht_rts_cnt\<close> and \<open>ht_rts_pos\<close> (offset 16,
    the words of \<open>head.val\<close>): RTS only.
\<close>

record rte_ring_headtail =
  ht_head :: u32
  ht_tail :: u32
  ht_sync_type :: rte_ring_sync_type
  ht_htd_max :: u32
  ht_rts_cnt :: u32
  ht_rts_pos :: u32

text \<open>\<open>r_slots\<close> is the table of elements that follows the structure (\<open>&r[1]\<close>).\<close>

record 'a rte_ring =
  r_name :: string
  r_flags :: u32
  r_memzone :: "addr option"
  r_size :: u32
  r_mask :: u32
  r_capacity :: u32
  r_prod :: rte_ring_headtail
  r_cons :: rte_ring_headtail
  r_slots :: "'a list"

definition RING_F_SP_ENQ :: u32 where "RING_F_SP_ENQ = 0x01"
definition RING_F_SC_DEQ :: u32 where "RING_F_SC_DEQ = 0x02"
definition RING_F_EXACT_SZ :: u32 where "RING_F_EXACT_SZ = 0x04"
definition RING_F_MP_RTS_ENQ :: u32 where "RING_F_MP_RTS_ENQ = 0x08"
definition RING_F_MC_RTS_DEQ :: u32 where "RING_F_MC_RTS_DEQ = 0x10"
definition RING_F_MP_HTS_ENQ :: u32 where "RING_F_MP_HTS_ENQ = 0x20"
definition RING_F_MC_HTS_DEQ :: u32 where "RING_F_MC_HTS_DEQ = 0x40"
definition RTE_RING_SZ_MASK :: u32 where "RTE_RING_SZ_MASK = 0x7fffffff"
definition RTE_RING_NAMESIZE :: nat where "RTE_RING_NAMESIZE = 29"

definition RING_F_MASK :: u32 where
  "RING_F_MASK = RING_F_SP_ENQ OR RING_F_SC_DEQ OR RING_F_EXACT_SZ OR
     RING_F_MP_RTS_ENQ OR RING_F_MC_RTS_DEQ OR RING_F_MP_HTS_ENQ OR RING_F_MC_HTS_DEQ"

lemmas ring_flag_defs =
  RING_F_SP_ENQ_def RING_F_SC_DEQ_def RING_F_EXACT_SZ_def RING_F_MP_RTS_ENQ_def
  RING_F_MC_RTS_DEQ_def RING_F_MP_HTS_ENQ_def RING_F_MC_HTS_DEQ_def RING_F_MASK_def

section \<open>Size of a ring in memory\<close>

text \<open>\<open>sizeof(struct rte_ring)\<close> with cache lines of 64 bytes.\<close>

definition sizeof_rte_ring :: u64 where "sizeof_rte_ring = 384"
definition RTE_CACHE_LINE_SIZE :: u64 where "RTE_CACHE_LINE_SIZE = 64"

text \<open>
  The product \<open>count * esize\<close> has two \<open>unsigned int\<close> operands: it is computed in
  32 bits, and only its result is widened for the addition.
\<close>

definition rte_ring_get_memsize_elem :: "u32 \<Rightarrow> u32 \<Rightarrow> int" where
  "rte_ring_get_memsize_elem esize cnt =
     (if esize mod 4 \<noteq> 0 then - EINVAL
      else if \<not> POWEROF2 cnt \<or> RTE_RING_SZ_MASK < cnt then - EINVAL
      else let sz = sizeof_rte_ring + ucast (cnt * esize)
           in sint (RTE_ALIGN_CEIL sz RTE_CACHE_LINE_SIZE))"

definition rte_ring_get_memsize :: "u32 \<Rightarrow> int" where
  "rte_ring_get_memsize cnt = rte_ring_get_memsize_elem 8 cnt"

section \<open>Reset and initialisation\<close>

definition reset_headtail :: "rte_ring_headtail \<Rightarrow> rte_ring_headtail" where
  "reset_headtail ht =
     (case ht_sync_type ht of
        RTE_RING_SYNC_MT \<Rightarrow> ht\<lparr>ht_head := 0, ht_tail := 0\<rparr>
      | RTE_RING_SYNC_ST \<Rightarrow> ht\<lparr>ht_head := 0, ht_tail := 0\<rparr>
      | RTE_RING_SYNC_MT_RTS \<Rightarrow>
          ht\<lparr>ht_rts_cnt := 0, ht_rts_pos := 0, ht_head := 0, ht_tail := 0\<rparr>
      | RTE_RING_SYNC_MT_HTS \<Rightarrow> ht\<lparr>ht_head := 0, ht_tail := 0\<rparr>)"

definition rte_ring_reset :: "'a rte_ring \<Rightarrow> 'a rte_ring" where
  "rte_ring_reset r =
     r\<lparr>r_prod := reset_headtail (r_prod r), r_cons := reset_headtail (r_cons r)\<rparr>"

text \<open>
  The two results of \<open>get_sync_type\<close> are written through pointers: the old values come
  in, and an error leaves the ones not reached as they were.
\<close>

definition get_sync_type ::
  "u32 \<Rightarrow> rte_ring_sync_type \<Rightarrow> rte_ring_sync_type \<Rightarrow>
     int \<times> rte_ring_sync_type \<times> rte_ring_sync_type" where
  "get_sync_type flags prod_st cons_st =
     (let prod_st_flags = RING_F_SP_ENQ OR RING_F_MP_RTS_ENQ OR RING_F_MP_HTS_ENQ;
          cons_st_flags = RING_F_SC_DEQ OR RING_F_MC_RTS_DEQ OR RING_F_MC_HTS_DEQ;
          pf = flags AND prod_st_flags;
          cf = flags AND cons_st_flags;
          prod = (if pf = 0 then Some RTE_RING_SYNC_MT
                  else if pf = RING_F_SP_ENQ then Some RTE_RING_SYNC_ST
                  else if pf = RING_F_MP_RTS_ENQ then Some RTE_RING_SYNC_MT_RTS
                  else if pf = RING_F_MP_HTS_ENQ then Some RTE_RING_SYNC_MT_HTS
                  else None);
          cons = (if cf = 0 then Some RTE_RING_SYNC_MT
                  else if cf = RING_F_SC_DEQ then Some RTE_RING_SYNC_ST
                  else if cf = RING_F_MC_RTS_DEQ then Some RTE_RING_SYNC_MT_RTS
                  else if cf = RING_F_MC_HTS_DEQ then Some RTE_RING_SYNC_MT_HTS
                  else None)
      in case prod of
           None \<Rightarrow> (- EINVAL, prod_st, cons_st)
         | Some p \<Rightarrow>
             (case cons of
                None \<Rightarrow> (- EINVAL, p, cons_st)
              | Some c \<Rightarrow> (0, p, c)))"

definition zero_headtail :: rte_ring_headtail where
  "zero_headtail = \<lparr>ht_head = 0, ht_tail = 0, ht_sync_type = RTE_RING_SYNC_MT,
     ht_htd_max = 0, ht_rts_cnt = 0, ht_rts_pos = 0\<rparr>"

definition rte_ring_set_prod_htd_max :: "'a rte_ring \<Rightarrow> u32 \<Rightarrow> int \<times> 'a rte_ring" where
  "rte_ring_set_prod_htd_max r v =
     (if ht_sync_type (r_prod r) \<noteq> RTE_RING_SYNC_MT_RTS then (- ENOTSUP, r)
      else (0, r\<lparr>r_prod := (r_prod r)\<lparr>ht_htd_max := v\<rparr>\<rparr>))"

definition rte_ring_set_cons_htd_max :: "'a rte_ring \<Rightarrow> u32 \<Rightarrow> int \<times> 'a rte_ring" where
  "rte_ring_set_cons_htd_max r v =
     (if ht_sync_type (r_cons r) \<noteq> RTE_RING_SYNC_MT_RTS then (- ENOTSUP, r)
      else (0, r\<lparr>r_cons := (r_cons r)\<lparr>ht_htd_max := v\<rparr>\<rparr>))"

definition HTD_MAX_DEF :: u32 where "HTD_MAX_DEF = 8"

text \<open>
  \<open>rte_ring_init\<close> returns the error code and the structure as it is left. The table of
  elements is not touched. A name longer than 28 characters is truncated by
  \<open>strlcpy\<close> and refused.
\<close>

definition rte_ring_init :: "'a rte_ring \<Rightarrow> string \<Rightarrow> u32 \<Rightarrow> u32 \<Rightarrow> int \<times> 'a rte_ring" where
  "rte_ring_init r name cnt flags =
     (if flags AND NOT RING_F_MASK \<noteq> 0 then (- EINVAL, r)
      else
        let r = \<lparr>r_name = take (RTE_RING_NAMESIZE - 1) name, r_flags = 0, r_memzone = None,
                 r_size = 0, r_mask = 0, r_capacity = 0,
                 r_prod = zero_headtail, r_cons = zero_headtail, r_slots = r_slots r\<rparr>
        in if RTE_RING_NAMESIZE \<le> length name then (- ENAMETOOLONG, r)
        else
          let r = r\<lparr>r_flags := flags\<rparr>;
              (ret, p, c) = get_sync_type flags (ht_sync_type (r_prod r)) (ht_sync_type (r_cons r));
              r = r\<lparr>r_prod := (r_prod r)\<lparr>ht_sync_type := p\<rparr>,
                    r_cons := (r_cons r)\<lparr>ht_sync_type := c\<rparr>\<rparr>
          in if ret \<noteq> 0 then (ret, r)
          else if flags AND RING_F_EXACT_SZ = 0 \<and> (\<not> POWEROF2 cnt \<or> RTE_RING_SZ_MASK < cnt)
          then (- EINVAL, r)
          else
            let r = (if flags AND RING_F_EXACT_SZ \<noteq> 0
                     then let sz = rte_align32pow2 (cnt + 1)
                          in r\<lparr>r_size := sz, r_mask := sz - 1, r_capacity := cnt\<rparr>
                     else r\<lparr>r_size := cnt, r_mask := cnt - 1, r_capacity := cnt - 1\<rparr>);
                r = (if flags AND RING_F_MP_RTS_ENQ \<noteq> 0
                     then snd (rte_ring_set_prod_htd_max r (r_capacity r div HTD_MAX_DEF)) else r);
                r = (if flags AND RING_F_MC_RTS_DEQ \<noteq> 0
                     then snd (rte_ring_set_cons_htd_max r (r_capacity r div HTD_MAX_DEF)) else r)
            in (0, r))"

section \<open>Counters\<close>

definition rte_ring_count :: "'a rte_ring \<Rightarrow> u32" where
  "rte_ring_count r =
     (let prod_tail = ht_tail (r_prod r);
          cons_tail = ht_tail (r_cons r);
          cnt = (prod_tail - cons_tail) AND r_mask r
      in if r_capacity r < cnt then r_capacity r else cnt)"

definition rte_ring_free_count :: "'a rte_ring \<Rightarrow> u32" where
  "rte_ring_free_count r = r_capacity r - rte_ring_count r"

definition rte_ring_full :: "'a rte_ring \<Rightarrow> bool" where
  "rte_ring_full r \<longleftrightarrow> rte_ring_free_count r = 0"

definition rte_ring_empty :: "'a rte_ring \<Rightarrow> bool" where
  "rte_ring_empty r \<longleftrightarrow> ht_tail (r_cons r) = ht_tail (r_prod r)"

section \<open>Well-formed idle rings\<close>

text \<open>
  The geometry \<open>rte_ring_init\<close> sets up: a size that is a power of two, the mask and a
  capacity below it, and a table of at least that many elements.
\<close>

definition ring_geom :: "'a rte_ring \<Rightarrow> bool" where
  "ring_geom r \<longleftrightarrow>
     r_size r \<noteq> 0 \<and> POWEROF2 (r_size r) \<and> r_mask r = r_size r - 1 \<and>
     r_capacity r < r_size r \<and> unat (r_size r) \<le> length (r_slots r)"

text \<open>No operation is in progress: every started operation has moved the tail.\<close>

definition quiescent :: "rte_ring_headtail \<Rightarrow> bool" where
  "quiescent ht \<longleftrightarrow>
     (case ht_sync_type ht of
        RTE_RING_SYNC_MT_RTS \<Rightarrow> ht_rts_cnt ht = ht_head ht \<and> ht_rts_pos ht = ht_tail ht
      | _ \<Rightarrow> ht_head ht = ht_tail ht)"

definition ring_used :: "'a rte_ring \<Rightarrow> nat" where
  "ring_used r = unat (ht_tail (r_prod r) - ht_tail (r_cons r))"

definition ring_inv :: "'a rte_ring \<Rightarrow> bool" where
  "ring_inv r \<longleftrightarrow> ring_geom r \<and> quiescent (r_prod r) \<and> quiescent (r_cons r) \<and>
     ring_used r \<le> unat (r_capacity r)"

text \<open>The elements in the ring, oldest first.\<close>

definition ring_list :: "'a rte_ring \<Rightarrow> 'a list" where
  "ring_list r =
     map (\<lambda>i. r_slots r ! ((unat (ht_tail (r_cons r)) + i) mod unat (r_size r))) [0..<ring_used r]"

lemma length_ring_list [simp]: "length (ring_list r) = ring_used r"
  by (simp add: ring_list_def)

lemma ring_geomE:
  assumes "ring_geom r"
  obtains k where "k < 32" "unat (r_size r) = 2 ^ k" "r_mask r = mask k"
    "unat (r_capacity r) < 2 ^ k" "2 ^ k \<le> length (r_slots r)"
proof -
  from assms obtain k where k: "k < 32" "unat (r_size r) = 2 ^ k"
    by (auto simp: ring_geom_def elim: POWEROF2_pow2)
  then have "r_size r = 2 ^ k"
    by (simp add: word_unat_eq_iff unat_pow2_word)
  with assms k that show ?thesis
    by (auto simp: ring_geom_def pow2_minus_1_mask word_less_nat_alt)
qed

lemma ring_index:
  assumes "ring_geom r"
  shows "unat (x AND r_mask r) = unat x mod unat (r_size r)"
proof -
  from assms obtain k where "unat (r_size r) = 2 ^ k" "r_mask r = mask k"
    by (rule ring_geomE)
  then show ?thesis by (simp add: unat_and_mask)
qed

lemma rte_ring_count_used:
  assumes "ring_inv r"
  shows "unat (rte_ring_count r) = ring_used r"
proof -
  from assms obtain k where k: "unat (r_size r) = 2 ^ k" "unat (r_capacity r) < 2 ^ k"
    by (auto simp: ring_inv_def elim: ring_geomE)
  have "ring_used r \<le> unat (r_capacity r)" using assms by (simp add: ring_inv_def)
  moreover from this k have "ring_used r mod unat (r_size r) = ring_used r" by simp
  ultimately show ?thesis
    using assms ring_index [of r "ht_tail (r_prod r) - ht_tail (r_cons r)"]
    by (simp add: rte_ring_count_def Let_def word_less_nat_alt ring_used_def ring_inv_def)
qed

lemma rte_ring_free_count_used:
  assumes "ring_inv r"
  shows "unat (rte_ring_free_count r) = unat (r_capacity r) - ring_used r"
  using assms rte_ring_count_used [OF assms]
  by (simp add: rte_ring_free_count_def unat_sub_nowrap ring_inv_def)

lemma rte_ring_empty_iff: "rte_ring_empty r \<longleftrightarrow> ring_list r = []"
proof -
  have "ring_list r = [] \<longleftrightarrow> ring_used r = 0" by (simp add: ring_list_def)
  also have "\<dots> \<longleftrightarrow> ht_tail (r_prod r) = ht_tail (r_cons r)"
    by (simp add: ring_used_def unat_0_iff)
  finally show ?thesis by (auto simp: rte_ring_empty_def)
qed

lemma rte_ring_full_iff: "ring_inv r \<Longrightarrow> rte_ring_full r \<longleftrightarrow> ring_used r = unat (r_capacity r)"
  using rte_ring_free_count_used [of r]
  by (auto simp: rte_ring_full_def ring_inv_def simp flip: unat_0_iff)

section \<open>Correctness of initialisation\<close>

lemma quiescent_zero [simp]: "quiescent (zero_headtail\<lparr>ht_sync_type := s\<rparr>)"
  by (simp add: quiescent_def zero_headtail_def split: rte_ring_sync_type.split)

lemma quiescent_htd [simp]: "quiescent (h\<lparr>ht_htd_max := v\<rparr>) = quiescent h"
  by (simp add: quiescent_def split: rte_ring_sync_type.split)

lemma set_htd_max_frame:
  "r_prod (snd (rte_ring_set_prod_htd_max r v)) \<in> {r_prod r, (r_prod r)\<lparr>ht_htd_max := v\<rparr>}"
  "r_cons (snd (rte_ring_set_cons_htd_max r v)) \<in> {r_cons r, (r_cons r)\<lparr>ht_htd_max := v\<rparr>}"
  "r_cons (snd (rte_ring_set_prod_htd_max r v)) = r_cons r"
  "r_prod (snd (rte_ring_set_cons_htd_max r v)) = r_prod r"
  "r_size (snd (rte_ring_set_prod_htd_max r v)) = r_size r"
  "r_size (snd (rte_ring_set_cons_htd_max r v)) = r_size r"
  "r_mask (snd (rte_ring_set_prod_htd_max r v)) = r_mask r"
  "r_mask (snd (rte_ring_set_cons_htd_max r v)) = r_mask r"
  "r_capacity (snd (rte_ring_set_prod_htd_max r v)) = r_capacity r"
  "r_capacity (snd (rte_ring_set_cons_htd_max r v)) = r_capacity r"
  "r_slots (snd (rte_ring_set_prod_htd_max r v)) = r_slots r"
  "r_slots (snd (rte_ring_set_cons_htd_max r v)) = r_slots r"
  by (auto simp: rte_ring_set_prod_htd_max_def rte_ring_set_cons_htd_max_def)

lemma set_htd_max_inv:
  "ring_inv (snd (rte_ring_set_prod_htd_max r v)) = ring_inv r"
  "ring_inv (snd (rte_ring_set_cons_htd_max r v)) = ring_inv r"
  "ring_list (snd (rte_ring_set_prod_htd_max r v)) = ring_list r"
  "ring_list (snd (rte_ring_set_cons_htd_max r v)) = ring_list r"
  by (auto simp: rte_ring_set_prod_htd_max_def rte_ring_set_cons_htd_max_def
      ring_inv_def ring_geom_def ring_used_def ring_list_def quiescent_def
      split: rte_ring_sync_type.split)

text \<open>
  What a successful initialisation sets up, for every combination of flags: an empty
  well-formed ring of the requested capacity. Without \<open>RING_F_EXACT_SZ\<close> the request
  counts one slot that is never filled.
\<close>

lemma rte_ring_init_inv:
  assumes "rte_ring_init r name cnt flags = (0, r')"
    and "flags AND RING_F_EXACT_SZ \<noteq> 0 \<Longrightarrow> unat cnt < 2 ^ 31"
    and "flags AND RING_F_EXACT_SZ = 0 \<Longrightarrow> cnt \<noteq> 0"
    and "unat (r_size r') \<le> length (r_slots r)"
  shows "ring_inv r'" "ring_list r' = []"
    "r_capacity r' = (if flags AND RING_F_EXACT_SZ \<noteq> 0 then cnt else cnt - 1)"
    "r_slots r' = r_slots r"
proof -
  obtain ret p c where st: "get_sync_type flags RTE_RING_SYNC_MT RTE_RING_SYNC_MT = (ret, p, c)"
    by (cases "get_sync_type flags RTE_RING_SYNC_MT RTE_RING_SYNC_MT") auto
  define sz cap where
    "sz = (if flags AND RING_F_EXACT_SZ \<noteq> 0 then rte_align32pow2 (cnt + 1) else cnt)" and
    "cap = (if flags AND RING_F_EXACT_SZ \<noteq> 0 then cnt else cnt - 1)"
  define r0 where
    "r0 = \<lparr>r_name = take (RTE_RING_NAMESIZE - 1) name, r_flags = flags, r_memzone = None,
       r_size = sz, r_mask = sz - 1, r_capacity = cap,
       r_prod = zero_headtail\<lparr>ht_sync_type := p\<rparr>, r_cons = zero_headtail\<lparr>ht_sync_type := c\<rparr>,
       r_slots = r_slots r\<rparr>"
  define r1 where "r1 = (if flags AND RING_F_MP_RTS_ENQ \<noteq> 0
     then snd (rte_ring_set_prod_htd_max r0 (cap div HTD_MAX_DEF)) else r0)"
  have "r_capacity r1 = cap" by (simp add: r1_def r0_def set_htd_max_frame)
  have zt: "ht_sync_type zero_headtail = RTE_RING_SYNC_MT" by (simp add: zero_headtail_def)
  have ok: "r' = (if flags AND RING_F_MC_RTS_DEQ \<noteq> 0
     then snd (rte_ring_set_cons_htd_max r1 (cap div HTD_MAX_DEF)) else r1)"
    and pow: "flags AND RING_F_EXACT_SZ = 0 \<longrightarrow> POWEROF2 cnt"
    using assms(1) \<open>r_capacity r1 = cap\<close>
    by (auto simp: rte_ring_init_def Let_def st zt r1_def r0_def sz_def cap_def split: if_splits)
  have fr: "r_size r' = sz" "r_capacity r' = cap" "r_slots r' = r_slots r"
    by (simp_all add: ok r1_def set_htd_max_frame r0_def)
  have "ring_geom r0"
  proof (cases "flags AND RING_F_EXACT_SZ = 0")
    case True
    with pow assms(3,4) fr show ?thesis
      by (simp add: ring_geom_def r0_def sz_def cap_def word_less_nat_alt unat_minus_one)
         (simp add: unat_gt_0)
  next
    case False
    with assms(2) have c: "unat (cnt + 1) = unat cnt + 1" "unat (cnt + 1) \<le> 2 ^ 31"
      by (simp_all add: unat_add_nowrap)
    then have "cnt + 1 \<noteq> 0" by (metis add_is_0 one_neq_zero unat_0)
    from align32pow2_correct [OF this c(2)] obtain k where
      k: "unat (rte_align32pow2 (cnt + 1)) = 2 ^ k" "k \<le> 31" "unat (cnt + 1) \<le> 2 ^ k" by blast
    then have "rte_align32pow2 (cnt + 1) = 2 ^ k"
      by (simp add: word_unat_eq_iff unat_pow2_word)
    with False k c assms(4) fr show ?thesis
      by (simp add: ring_geom_def r0_def sz_def cap_def word_less_nat_alt pow2_POWEROF2)
  qed
  then have "ring_inv r0"
    by (simp add: ring_inv_def r0_def ring_used_def zero_headtail_def quiescent_def
        split: rte_ring_sync_type.split)
  then show "ring_inv r'" by (simp add: ok r1_def set_htd_max_inv)
  have "ring_list r0 = []"
    by (simp add: ring_list_def ring_used_def r0_def zero_headtail_def)
  then show "ring_list r' = []" by (simp add: ok r1_def set_htd_max_inv)
  show "r_capacity r' = (if flags AND RING_F_EXACT_SZ \<noteq> 0 then cnt else cnt - 1)"
    using fr by (simp add: cap_def)
  show "r_slots r' = r_slots r" by (rule fr(3))
qed

end
