(* ===== verification/Ring_Elems.thy ===== *)
theory Ring_Elems
  imports Ring_Core
begin

text \<open>
  The copy loops of \<open>lib/ring/rte_ring_elem_pvt.h\<close>: unrolled by eight, four and two
  elements for rings of 4-, 8- and 16-byte units, with a two-part copy where the request
  reaches the end of the table. Every access is bounds-checked. The lemmas show that the
  loops stay inside the ring and the object table and agree with the element-by-element
  reference \<open>ring_put\<close> and \<open>ring_get\<close>.
\<close>

section \<open>Copying single elements\<close>

text \<open>\<open>dst[di] = src[si]\<close>; the enqueue and the dequeue loops differ in which is the ring.\<close>

definition cp :: "'a list \<Rightarrow> u32 \<Rightarrow> 'a list \<Rightarrow> u32 \<Rightarrow> 'a list option" where
  "cp dst di src si = do { v \<leftarrow> ld src si; st dst di v }"

text \<open>One case of the fall-through switch: \<open>dst[di++] = src[si++]\<close> if the switch has been entered.\<close>

definition cp_case :: "bool \<Rightarrow> 'a list \<Rightarrow> 'a list \<times> u32 \<times> u32 \<Rightarrow> ('a list \<times> u32 \<times> u32) option" where
  "cp_case entered src s =
     (case s of (dst, di, si) \<Rightarrow>
        if entered then do { dst \<leftarrow> cp dst di src si; Some (dst, di + 1, si + 1) }
        else Some (dst, di, si))"

text \<open>A run of \<open>k\<close> single copies, the reference for the unrolled loops.\<close>

primrec copy_run :: "nat \<Rightarrow> 'a list \<Rightarrow> u32 \<Rightarrow> 'a list \<Rightarrow> u32 \<Rightarrow> 'a list option" where
  "copy_run 0 dst di src si = Some dst"
| "copy_run (Suc k) dst di src si =
     do { dst \<leftarrow> cp dst di src si; copy_run k dst (di + 1) src (si + 1) }"

lemma copy_run_add:
  "copy_run (j + k) dst di src si =
     do { dst \<leftarrow> copy_run j dst di src si; copy_run k dst (di + of_nat j) src (si + of_nat j) }"
  by (induction j arbitrary: dst di si) (simp_all add: ac_simps bind_assoc)

lemma copy_run_Some:
  assumes "unat di + k \<le> length dst" "unat si + k \<le> length src"
    "unat di + k \<le> 2 ^ 32" "unat si + k \<le> 2 ^ 32"
  shows "copy_run k dst di src si =
     Some (take (unat di) dst @ take k (drop (unat si) src) @ drop (unat di + k) dst)"
  using assms
proof (induction k arbitrary: dst di si)
  case 0
  then show ?case by simp
next
  case (Suc k)
  let ?dst = "dst[unat di := src ! unat si]"
  have c: "cp dst di src si = Some ?dst" using Suc.prems by (simp add: cp_def)
  show ?case
  proof (cases k)
    case 0
    then show ?thesis
      using Suc.prems c by (simp add: upd_conv_take_nth_drop take_Suc_conv_app_nth)
  next
    case (Suc k')
    have i: "unat (di + 1) = Suc (unat di)" "unat (si + 1) = Suc (unat si)"
      using Suc.prems \<open>k = Suc k'\<close> by (simp_all add: unat_add_nowrap unat_1)
    have "copy_run k ?dst (di + 1) src (si + 1) =
        Some (take (Suc (unat di)) ?dst @ take k (drop (Suc (unat si)) src) @ drop (Suc (unat di) + k) ?dst)"
      using Suc.IH [of "di + 1" ?dst "si + 1"] Suc.prems i by simp
    moreover have "take (Suc (unat di)) ?dst = take (unat di) dst @ [src ! unat si]"
      using Suc.prems by (simp add: take_Suc_conv_app_nth)
    moreover have "take (Suc k) (drop (unat si) src) = src ! unat si # take k (drop (Suc (unat si)) src)"
      using Suc.prems by (metis Cons_nth_drop_Suc Suc_le_lessD add_leD1 add_Suc_right less_le_trans take_Suc_Cons le_add1 le_less_trans not_less_eq_eq less_eq_Suc_le)
    ultimately show ?thesis using c by simp
  qed
qed

section \<open>The loops\<close>

text \<open>
  \<open>for (; si < (n & ~0x7); si += 8, di += 8)\<close> with eight copies per round (and the
  same with four and two). The bound is a multiple of the step, so the counter cannot step
  over it by wrapping around.
\<close>

definition block8 where
  "block8 dst di src si =
     do { dst \<leftarrow> cp dst di src si; dst \<leftarrow> cp dst (di + 1) src (si + 1);
          dst \<leftarrow> cp dst (di + 2) src (si + 2); dst \<leftarrow> cp dst (di + 3) src (si + 3);
          dst \<leftarrow> cp dst (di + 4) src (si + 4); dst \<leftarrow> cp dst (di + 5) src (si + 5);
          dst \<leftarrow> cp dst (di + 6) src (si + 6); cp dst (di + 7) src (si + 7) }"

definition block4 where
  "block4 dst di src si =
     do { dst \<leftarrow> cp dst di src si; dst \<leftarrow> cp dst (di + 1) src (si + 1);
          dst \<leftarrow> cp dst (di + 2) src (si + 2); cp dst (di + 3) src (si + 3) }"

definition block2 where
  "block2 dst di src si = do { dst \<leftarrow> cp dst di src si; cp dst (di + 1) src (si + 1) }"

lemma loop_step_nat:
  fixes i n :: u32
  assumes "i < n AND NOT (mask b)" "b < 32"
  shows "unat (i + 2 ^ b) = unat i + 2 ^ b"
    and "unat (n AND NOT (mask b)) - unat (i + 2 ^ b) < unat (n AND NOT (mask b)) - unat i"
proof -
  let ?m = "n AND NOT (mask b)"
  have lt: "unat i < unat ?m" using assms(1) by (simp add: word_less_nat_alt)
  have m: "unat ?m = unat n - unat n mod 2 ^ b"
    using align_floor_pow2 [of b n] assms(2) by (simp add: RTE_ALIGN_FLOOR_def pow2_minus_1_mask)
  have p: "unat (2 ^ b :: u32) = 2 ^ b" using assms(2) by (simp add: unat_pow2_word)
  have le: "unat ?m \<le> 2 ^ 32 - 2 ^ b"
  proof -
    have "unat n div 2 ^ b < 2 ^ (32 - b)"
      using assms(2) unat32_bound [of n]
      by (simp add: div_less_iff_less_mult flip: power_add)
    then have "(unat n div 2 ^ b) * 2 ^ b \<le> (2 ^ (32 - b) - 1) * 2 ^ b"
      by (intro mult_right_mono) simp_all
    also have "\<dots> = 2 ^ 32 - 2 ^ b"
      using assms(2) by (simp add: diff_mult_distrib flip: power_add)
    finally show ?thesis by (simp add: m minus_mod_eq_div_mult)
  qed
  have pb: "(2::nat) ^ b < 2 ^ 32" using assms(2) by (intro power_strict_increasing) auto
  show a: "unat (i + 2 ^ b) = unat i + 2 ^ b"
    using lt le p pb by (subst unat_add_nowrap) auto
  have "(0::nat) < 2 ^ b" by simp
  then show "unat ?m - unat (i + 2 ^ b) < unat ?m - unat i"
    using lt a by linarith
qed

text \<open>
  \<open>enq\<close> says which of the two tables is the object table, whose index \<open>i\<close> the
  sources test: the source of the copy in an enqueue, its destination in a dequeue.
\<close>

abbreviation obj_ix :: "bool \<Rightarrow> u32 \<Rightarrow> u32 \<Rightarrow> u32" where
  "obj_ix enq di si \<equiv> (if enq then si else di)"

abbreviation ring_ix :: "bool \<Rightarrow> u32 \<Rightarrow> u32 \<Rightarrow> u32" where
  "ring_ix enq di si \<equiv> (if enq then di else si)"

text \<open>
  The unrolled loop with \<open>2 ^ b\<close> copies per round: \<open>b\<close> is 3 for
  \<open>n & ~0x7\<close>, 2 for \<open>n & ~0x3\<close>, 1 for \<open>n & ~0x1\<close>.
\<close>

function unrolled ::
  "nat \<Rightarrow> ('a list \<Rightarrow> u32 \<Rightarrow> 'a list \<Rightarrow> u32 \<Rightarrow> 'a list option) \<Rightarrow>
     bool \<Rightarrow> u32 \<Rightarrow> 'a list \<Rightarrow> u32 \<Rightarrow> 'a list \<Rightarrow> u32 \<Rightarrow> ('a list \<times> u32 \<times> u32) option" where
  "unrolled b block enq n dst di src si =
     (if obj_ix enq di si < n AND NOT (mask b)
      then do { dst \<leftarrow> block dst di src si;
                unrolled b block enq n dst (di + 2 ^ b) src (si + 2 ^ b) }
      else Some (dst, di, si))"
  by pat_completeness auto

lemma not_mask_lt_32: "(i :: u32) < n AND NOT (mask b) \<Longrightarrow> b < 32"
proof (rule ccontr)
  assume i: "i < n AND NOT (mask b)" and b: "\<not> b < 32"
  have "NOT (mask b :: u32) = 0" using b by (intro bit_word_eqI) (simp add: bit_simps)
  with i show False by simp
qed

termination unrolled
  using loop_step_nat(2) not_mask_lt_32
  by (relation "measure (\<lambda>(b, block, enq, n, dst, di, src, si).
        unat (n AND NOT (mask b)) - unat (obj_ix enq di si))")
     (auto split: if_splits)

declare unrolled.simps [simp del]

text \<open>\<open>for (; idx < size; i++, idx++)\<close> and \<open>for (; i < n; i++, idx++)\<close>.\<close>

function copy_while :: "bool \<Rightarrow> u32 \<Rightarrow> 'a list \<Rightarrow> u32 \<Rightarrow> 'a list \<Rightarrow> u32 \<Rightarrow> ('a list \<times> u32 \<times> u32) option" where
  "copy_while on_src lim dst di src si =
     (if (if on_src then si else di) < lim
      then do { dst \<leftarrow> cp dst di src si; copy_while on_src lim dst (di + 1) src (si + 1) }
      else Some (dst, di, si))"
  by pat_completeness auto

termination copy_while
  by (relation "measure (\<lambda>(on_src, lim, dst, di, src, si). unat lim - unat (if on_src then si else di))")
     (auto simp: unat_suc_word word_less_nat_alt split: if_splits)

declare copy_while.simps [simp del]

section \<open>Enqueue and dequeue of elements\<close>

text \<open>The part that reaches the end of the table: up to \<open>size\<close>, then from its start.\<close>

definition enqueue_split :: "u32 \<Rightarrow> 'a list \<Rightarrow> u32 \<Rightarrow> 'a list \<Rightarrow> u32 \<Rightarrow> 'a list option" where
  "enqueue_split sz ring idx obj n =
     do { (ring, idx, i) \<leftarrow> copy_while False sz ring idx obj 0;
          (ring, idx, i) \<leftarrow> copy_while True n ring 0 obj i;
          Some ring }"

definition dequeue_split :: "u32 \<Rightarrow> 'a list \<Rightarrow> u32 \<Rightarrow> 'a list \<Rightarrow> u32 \<Rightarrow> 'a list option" where
  "dequeue_split sz ring idx obj n =
     do { (obj, i, idx) \<leftarrow> copy_while True sz obj 0 ring idx;
          (obj, i, idx) \<leftarrow> copy_while False n obj i ring 0;
          Some obj }"

definition rte_ring_enqueue_elems_32 :: "'a rte_ring \<Rightarrow> u32 \<Rightarrow> u32 \<Rightarrow> 'a list \<Rightarrow> u32 \<Rightarrow> 'a rte_ring option" where
  "rte_ring_enqueue_elems_32 r sz idx obj n =
     do { slots \<leftarrow>
            (if idx + n < sz then
               do { s \<leftarrow> unrolled 3 block8 True n (r_slots r) idx obj 0;
                    s \<leftarrow> cp_case (7 \<le> n AND 7) obj s; s \<leftarrow> cp_case (6 \<le> n AND 7) obj s;
                    s \<leftarrow> cp_case (5 \<le> n AND 7) obj s; s \<leftarrow> cp_case (4 \<le> n AND 7) obj s;
                    s \<leftarrow> cp_case (3 \<le> n AND 7) obj s; s \<leftarrow> cp_case (2 \<le> n AND 7) obj s;
                    s \<leftarrow> cp_case (1 \<le> n AND 7) obj s;
                    Some (fst s) }
             else enqueue_split sz (r_slots r) idx obj n);
          Some (r\<lparr>r_slots := slots\<rparr>) }"

definition rte_ring_enqueue_elems_64 :: "'a rte_ring \<Rightarrow> u32 \<Rightarrow> 'a list \<Rightarrow> u32 \<Rightarrow> 'a rte_ring option" where
  "rte_ring_enqueue_elems_64 r prod_head obj n =
     do { let sz = r_size r;
          let idx = prod_head AND r_mask r;
          slots \<leftarrow>
            (if idx + n < sz then
               do { s \<leftarrow> unrolled 2 block4 True n (r_slots r) idx obj 0;
                    s \<leftarrow> cp_case (3 \<le> n AND 3) obj s; s \<leftarrow> cp_case (2 \<le> n AND 3) obj s;
                    s \<leftarrow> cp_case (1 \<le> n AND 3) obj s;
                    Some (fst s) }
             else enqueue_split sz (r_slots r) idx obj n);
          Some (r\<lparr>r_slots := slots\<rparr>) }"

definition rte_ring_enqueue_elems_128 :: "'a rte_ring \<Rightarrow> u32 \<Rightarrow> 'a list \<Rightarrow> u32 \<Rightarrow> 'a rte_ring option" where
  "rte_ring_enqueue_elems_128 r prod_head obj n =
     do { let sz = r_size r;
          let idx = prod_head AND r_mask r;
          slots \<leftarrow>
            (if idx + n < sz then
               do { s \<leftarrow> unrolled 1 block2 True n (r_slots r) idx obj 0;
                    s \<leftarrow> cp_case (1 \<le> n AND 1) obj s;
                    Some (fst s) }
             else enqueue_split sz (r_slots r) idx obj n);
          Some (r\<lparr>r_slots := slots\<rparr>) }"

definition rte_ring_dequeue_elems_32 :: "'a rte_ring \<Rightarrow> u32 \<Rightarrow> u32 \<Rightarrow> 'a list \<Rightarrow> u32 \<Rightarrow> 'a list option" where
  "rte_ring_dequeue_elems_32 r sz idx obj n =
     (let ring = r_slots r in
      if idx + n < sz then
        do { s \<leftarrow> unrolled 3 block8 False n obj 0 ring idx;
             s \<leftarrow> cp_case (7 \<le> n AND 7) ring s; s \<leftarrow> cp_case (6 \<le> n AND 7) ring s;
             s \<leftarrow> cp_case (5 \<le> n AND 7) ring s; s \<leftarrow> cp_case (4 \<le> n AND 7) ring s;
             s \<leftarrow> cp_case (3 \<le> n AND 7) ring s; s \<leftarrow> cp_case (2 \<le> n AND 7) ring s;
             s \<leftarrow> cp_case (1 \<le> n AND 7) ring s;
             Some (fst s) }
      else dequeue_split sz ring idx obj n)"

definition rte_ring_dequeue_elems_64 :: "'a rte_ring \<Rightarrow> u32 \<Rightarrow> 'a list \<Rightarrow> u32 \<Rightarrow> 'a list option" where
  "rte_ring_dequeue_elems_64 r cons_head obj n =
     (let sz = r_size r; idx = cons_head AND r_mask r; ring = r_slots r in
      if idx + n < sz then
        do { s \<leftarrow> unrolled 2 block4 False n obj 0 ring idx;
             s \<leftarrow> cp_case (3 \<le> n AND 3) ring s; s \<leftarrow> cp_case (2 \<le> n AND 3) ring s;
             s \<leftarrow> cp_case (1 \<le> n AND 3) ring s;
             Some (fst s) }
      else dequeue_split sz ring idx obj n)"

definition rte_ring_dequeue_elems_128 :: "'a rte_ring \<Rightarrow> u32 \<Rightarrow> 'a list \<Rightarrow> u32 \<Rightarrow> 'a list option" where
  "rte_ring_dequeue_elems_128 r cons_head obj n =
     (let sz = r_size r; idx = cons_head AND r_mask r; ring = r_slots r in
      if idx + n < sz then
        do { s \<leftarrow> unrolled 1 block2 False n obj 0 ring idx;
             s \<leftarrow> cp_case (1 \<le> n AND 1) ring s;
             Some (fst s) }
      else dequeue_split sz ring idx obj n)"

section \<open>The loops as runs of single copies\<close>

lemma block_runs:
  "block8 dst di src si = copy_run 8 dst di src si"
  "block4 dst di src si = copy_run 4 dst di src si"
  "block2 dst di src si = copy_run 2 dst di src si"
  by (simp_all add: block8_def block4_def block2_def eval_nat_numeral add.assoc)

lemma cp_case_run:
  "cp_case c src (dst, di, si) =
     do { dst \<leftarrow> copy_run (of_bool c) dst di src si; Some (dst, di + of_bool c, si + of_bool c) }"
  by (auto simp: cp_case_def)

text \<open>\<open>runs k s\<close>: \<open>k\<close> single copies from the state \<open>(table, di, si)\<close> of a loop.\<close>

definition runs :: "nat \<Rightarrow> 'a list \<Rightarrow> 'a list \<times> u32 \<times> u32 \<Rightarrow> ('a list \<times> u32 \<times> u32) option" where
  "runs k src s = (case s of (dst, di, si) \<Rightarrow>
     do { dst \<leftarrow> copy_run k dst di src si; Some (dst, di + of_nat k, si + of_nat k) })"

lemma runs_0 [simp]: "runs 0 src s = Some s"
  by (simp add: runs_def split: prod.split)

lemma runs_add: "runs (j + k) src s = do { s \<leftarrow> runs j src s; runs k src s }"
  by (cases s) (simp add: runs_def copy_run_add bind_assoc ac_simps)

lemma cp_case_runs: "cp_case c src s = runs (of_bool c) src s"
  by (cases s) (simp add: cp_case_run runs_def)

lemma unrolled_runs:
  assumes "b < 32" "\<And>dst di src si. block dst di src si = copy_run (2 ^ b) dst di src si"
    "unat (n AND NOT (mask b)) = unat (obj_ix enq di si) + m * 2 ^ b"
  shows "unrolled b block enq n dst di src si = runs (m * 2 ^ b) src (dst, di, si)"
  using assms(3)
proof (induction m arbitrary: dst di si)
  case 0
  then show ?case by (subst unrolled.simps) (simp add: word_less_nat_alt)
next
  case (Suc m)
  have lt: "obj_ix enq di si < n AND NOT (mask b)"
    using Suc.prems by (simp add: word_less_nat_alt)
  have s: "unat (obj_ix enq di si + 2 ^ b) = unat (obj_ix enq di si) + 2 ^ b"
    by (rule loop_step_nat(1) [OF lt assms(1)])
  have o: "obj_ix enq (di + 2 ^ b) (si + 2 ^ b) = obj_ix enq di si + 2 ^ b" by simp
  have "unat (n AND NOT (mask b)) = unat (obj_ix enq (di + 2 ^ b) (si + 2 ^ b)) + m * 2 ^ b"
    unfolding o s using Suc.prems by simp
  note ih = Suc.IH [OF this]
  have "unrolled b block enq n dst di src si =
      do { dst \<leftarrow> copy_run (2 ^ b) dst di src si;
           unrolled b block enq n dst (di + 2 ^ b) src (si + 2 ^ b) }"
    using lt by (subst unrolled.simps) (simp add: assms(2))
  also have "\<dots> = do { s \<leftarrow> runs (2 ^ b) src (dst, di, si); runs (m * 2 ^ b) src s }"
    by (simp add: ih runs_def [of "2 ^ b"] bind_assoc)
  finally show ?case by (simp flip: runs_add)
qed

lemma copy_while_runs:
  assumes "unat lim = unat (if on_src then si else di) + m"
  shows "copy_while on_src lim dst di src si = runs m src (dst, di, si)"
  using assms
proof (induction m arbitrary: dst di si)
  case 0
  then show ?case by (subst copy_while.simps) (simp add: word_less_nat_alt)
next
  case (Suc m)
  have lt: "(if on_src then si else di) < lim"
    using Suc.prems by (simp add: word_less_nat_alt)
  have "unat lim = unat (if on_src then si + 1 else di + 1) + m"
    using Suc.prems unat_suc_word [OF lt] by (simp split: if_splits)
  note ih = Suc.IH [OF this]
  show ?case
    using lt ih by (subst copy_while.simps) (simp add: runs_def bind_assoc ac_simps)
qed

lemma floor_rounds:
  fixes n :: u32
  assumes "b < 32"
  shows "unat (n AND NOT (mask b)) = (unat n div 2 ^ b) * 2 ^ b"
  using align_floor_pow2 [of b n] assms by (simp add: RTE_ALIGN_FLOOR_def pow2_minus_1_mask minus_mod_eq_div_mult)

lemma and_small: "unat (n AND 7) = unat n mod 8" "unat (n AND 3) = unat n mod 4" "unat (n AND 1) = unat n mod 2" for n :: u32
  using unat_and_mask [of n 3] unat_and_mask [of n 2] unat_and_mask [of n 1]
  by (simp_all add: mask_eq_exp_minus_1)

lemma switch_runs:
  fixes n :: u32
  shows "do { s \<leftarrow> cp_case (7 \<le> n AND 7) src s; s \<leftarrow> cp_case (6 \<le> n AND 7) src s;
        s \<leftarrow> cp_case (5 \<le> n AND 7) src s; s \<leftarrow> cp_case (4 \<le> n AND 7) src s;
        s \<leftarrow> cp_case (3 \<le> n AND 7) src s; s \<leftarrow> cp_case (2 \<le> n AND 7) src s;
        s \<leftarrow> cp_case (1 \<le> n AND 7) src s; f s } = do { s \<leftarrow> runs (unat n mod 8) src s; f s }" (is ?A)
  "do { s \<leftarrow> cp_case (3 \<le> n AND 3) src s; s \<leftarrow> cp_case (2 \<le> n AND 3) src s;
        s \<leftarrow> cp_case (1 \<le> n AND 3) src s; f s } = do { s \<leftarrow> runs (unat n mod 4) src s; f s }" (is ?B)
  "do { s \<leftarrow> cp_case (1 \<le> n AND 1) src s; f s } = do { s \<leftarrow> runs (unat n mod 2) src s; f s }" (is ?C)
proof -
  have sum: "do { s \<leftarrow> runs j src s; s \<leftarrow> runs k src s; g s } = do { s \<leftarrow> runs (j + k) src s; g s }" for j k s g
    by (simp add: runs_add bind_assoc)
  show ?A
    unfolding cp_case_runs sum
    by (rule arg_cong [where f = "\<lambda>k. do { s \<leftarrow> runs k src s; f s }"])
       (use and_small(1) [of n] mod_less_divisor [of 8 "unat n"] in \<open>auto simp: word_le_nat_alt of_bool_def\<close>)
  show ?B
    unfolding cp_case_runs sum
    by (rule arg_cong [where f = "\<lambda>k. do { s \<leftarrow> runs k src s; f s }"])
       (use and_small(2) [of n] mod_less_divisor [of 4 "unat n"] in \<open>auto simp: word_le_nat_alt of_bool_def\<close>)
  show ?C
    unfolding cp_case_runs sum
    by (rule arg_cong [where f = "\<lambda>k. do { s \<leftarrow> runs k src s; f s }"])
       (use and_small(3) [of n] mod_less_divisor [of 2 "unat n"] in \<open>auto simp: word_le_nat_alt of_bool_def\<close>)
qed

lemma loops_runs:
  fixes dst src :: "'a list"
  assumes "obj_ix enq di si = 0"
  shows "do { s \<leftarrow> unrolled 3 block8 enq n dst di src si; s \<leftarrow> runs (unat n mod 8) src s; f s } =
     do { s \<leftarrow> runs (unat n) src (dst, di, si); f s }"
   "do { s \<leftarrow> unrolled 2 block4 enq n dst di src si; s \<leftarrow> runs (unat n mod 4) src s; f s } =
     do { s \<leftarrow> runs (unat n) src (dst, di, si); f s }"
   "do { s \<leftarrow> unrolled 1 block2 enq n dst di src si; s \<leftarrow> runs (unat n mod 2) src s; f s } =
     do { s \<leftarrow> runs (unat n) src (dst, di, si); f s }"
proof -
  have u: "do { s \<leftarrow> unrolled b block enq n dst di src si; s \<leftarrow> runs (unat n mod 2 ^ b) src s; f s } =
     do { s \<leftarrow> runs (unat n) src (dst, di, si); f s }"
    if "b < 32" "\<And>dst di src si. block dst di src si = copy_run (2 ^ b) dst di src si"
    for b and block :: "'a list \<Rightarrow> u32 \<Rightarrow> 'a list \<Rightarrow> u32 \<Rightarrow> 'a list option"
  proof -
    have "unrolled b block enq n dst di src si = runs (unat n div 2 ^ b * 2 ^ b) src (dst, di, si)"
      by (rule unrolled_runs [OF that]) (simp add: floor_rounds [OF that(1)] assms)
    then have "do { s \<leftarrow> unrolled b block enq n dst di src si; s \<leftarrow> runs (unat n mod 2 ^ b) src s; f s } =
      do { s \<leftarrow> runs (unat n div 2 ^ b * 2 ^ b + unat n mod 2 ^ b) src (dst, di, si); f s }"
      by (simp only: runs_add bind_assoc)
    then show ?thesis by (simp only: div_mult_mod_eq)
  qed
  show "do { s \<leftarrow> unrolled 3 block8 enq n dst di src si; s \<leftarrow> runs (unat n mod 8) src s; f s } =
     do { s \<leftarrow> runs (unat n) src (dst, di, si); f s }"
    using u [of 3 block8] by (simp add: block_runs)
  show "do { s \<leftarrow> unrolled 2 block4 enq n dst di src si; s \<leftarrow> runs (unat n mod 4) src s; f s } =
     do { s \<leftarrow> runs (unat n) src (dst, di, si); f s }"
    using u [of 2 block4] by (simp add: block_runs)
  show "do { s \<leftarrow> unrolled 1 block2 enq n dst di src si; s \<leftarrow> runs (unat n mod 2) src s; f s } =
     do { s \<leftarrow> runs (unat n) src (dst, di, si); f s }"
    using u [of 1 block2] by (simp add: block_runs)
qed

section \<open>Reference\<close>

text \<open>Element \<open>i\<close> of a request that starts at the free-running index \<open>h\<close> has slot \<open>(h + i) mod sz\<close>.\<close>

primrec ring_put :: "'a list \<Rightarrow> nat \<Rightarrow> nat \<Rightarrow> 'a list \<Rightarrow> 'a list" where
  "ring_put slots sz h [] = slots"
| "ring_put slots sz h (x # xs) = ring_put (slots[h mod sz := x]) sz (Suc h) xs"

definition ring_get :: "'a list \<Rightarrow> nat \<Rightarrow> nat \<Rightarrow> nat \<Rightarrow> 'a list" where
  "ring_get slots sz h n = map (\<lambda>i. slots ! ((h + i) mod sz)) [0..<n]"

lemma length_ring_put [simp]: "length (ring_put slots sz h xs) = length slots"
  by (induction xs arbitrary: slots h) auto

lemma length_ring_get [simp]: "length (ring_get slots sz h n) = n"
  by (simp add: ring_get_def)

lemma ring_put_append:
  "ring_put slots sz h (xs @ ys) = ring_put (ring_put slots sz h xs) sz (h + length xs) ys"
  by (induction xs arbitrary: slots h) simp_all

lemma ring_put_mod: "ring_put slots sz (h mod sz) xs = ring_put slots sz h xs"
proof (induction xs arbitrary: slots h)
  case (Cons x xs)
  have "ring_put s sz (Suc (h mod sz)) xs = ring_put s sz (Suc h) xs" for s
    by (metis Cons.IH mod_Suc_eq)
  then show ?case by simp
qed simp

lemma ring_get_mod: "ring_get slots sz (h mod sz) n = ring_get slots sz h n"
  by (simp add: ring_get_def mod_add_left_eq)

lemma ring_get_add: "ring_get slots sz h (m + n) = ring_get slots sz h m @ ring_get slots sz (h + m) n"
  unfolding ring_get_def by (rule nth_equalityI) (auto simp: nth_append ac_simps)

lemma ring_get_linear: "h + n \<le> sz \<Longrightarrow> sz \<le> length slots \<Longrightarrow> ring_get slots sz h n = take n (drop h slots)"
  unfolding ring_get_def by (rule nth_equalityI) auto

lemma copy_run_put:
  assumes "unat di + k \<le> sz" "sz \<le> length dst" "unat si + k \<le> length src" "sz \<le> 2 ^ 32" "unat si + k \<le> 2 ^ 32"
  shows "copy_run k dst di src si = Some (ring_put dst sz (unat di) (take k (drop (unat si) src)))"
  using assms
proof (induction k arbitrary: dst di si)
  case 0
  then show ?case by simp
next
  case (Suc k)
  let ?dst = "dst[unat di := src ! unat si]"
  have c: "cp dst di src si = Some ?dst" using Suc.prems by (simp add: cp_def)
  have d: "drop (unat si) src = src ! unat si # drop (Suc (unat si)) src"
    using Suc.prems by (simp add: Cons_nth_drop_Suc)
  show ?case
  proof (cases "k = 0")
    case True
    then show ?thesis using Suc.prems c d by simp
  next
    case False
    with Suc.prems have i: "unat (di + 1) = Suc (unat di)" "unat (si + 1) = Suc (unat si)"
      by (simp_all add: unat_add_nowrap unat_1)
    show ?thesis
      using Suc.IH [of "di + 1" ?dst "si + 1"] Suc.prems i c d by simp
  qed
qed

lemma mod_shift_inj:
  fixes h :: nat
  assumes "(h + i) mod sz = (h + j) mod sz" "i < sz" "j < sz"
  shows "i = j"
  using assms
proof (induction i j rule: linorder_wlog)
  case (le i j)
  then have "sz dvd (h + j) - (h + i)"
    by (metis mod_eq_dvd_iff_nat nat_add_left_cancel_le)
  then have "sz dvd j - i" by simp
  show ?case
  proof (rule ccontr)
    assume "i \<noteq> j"
    with le have "0 < j - i" by simp
    from dvd_imp_le [OF \<open>sz dvd j - i\<close> this] le show False by linarith
  qed
next
  case (sym i j)
  then show ?case by metis
qed

lemma ring_put_nth_other:
  assumes "j < sz" "\<And>i. i < length xs \<Longrightarrow> (h + i) mod sz \<noteq> j"
  shows "ring_put slots sz h xs ! j = slots ! j"
  using assms(2)
proof (induction xs arbitrary: slots h)
  case (Cons x xs)
  have "ring_put (slots[h mod sz := x]) sz (Suc h) xs ! j = slots[h mod sz := x] ! j"
    using Cons.prems by (intro Cons.IH) (metis Suc_less_eq add_Suc_shift length_Cons)
  then show ?case using Cons.prems [of 0] by simp
qed simp

lemma ring_put_nth:
  assumes "i < length xs" "length xs \<le> sz" "sz \<le> length slots"
  shows "ring_put slots sz h xs ! ((h + i) mod sz) = xs ! i"
  using assms
proof (induction xs arbitrary: slots h i)
  case (Cons x xs)
  show ?case
  proof (cases i)
    case 0
    have "(Suc h + j) mod sz \<noteq> h mod sz" if "j < length xs" for j
      using mod_shift_inj [of h "Suc j" sz 0] that Cons.prems by auto
    then have "ring_put (slots[h mod sz := x]) sz (Suc h) xs ! (h mod sz) = slots[h mod sz := x] ! (h mod sz)"
      using Cons.prems by (intro ring_put_nth_other) auto
    with 0 Cons.prems show ?thesis by simp (meson le_less_trans less_le_trans mod_less_divisor not_less_eq zero_less_Suc Suc_le_lessD nth_list_update_eq)
  next
    case (Suc j)
    with Cons.prems Cons.IH [of j "slots[h mod sz := x]" "Suc h"] show ?thesis by simp
  qed
qed simp


lemma ring_put_get_same:
  assumes "length xs \<le> sz" "sz \<le> length slots"
  shows "ring_get (ring_put slots sz h xs) sz h (length xs) = xs"
  using assms by (auto simp: ring_get_def ring_put_nth intro!: nth_equalityI)

section \<open>The copy routines agree with the reference\<close>

lemma enqueue_table:
  fixes idx n sz :: u32
  assumes "unat idx < unat sz" "unat n \<le> unat sz" "unat sz \<le> 2 ^ 31"
    "unat sz \<le> length slots" "unat n \<le> length obj"
  shows "(if idx + n < sz then do { s \<leftarrow> runs (unat n) obj (slots, idx, 0); Some (fst s) }
          else enqueue_split sz slots idx obj n) =
         Some (ring_put slots (unat sz) (unat idx) (take (unat n) obj))"
proof -
  have w: "unat (idx + n) = unat idx + unat n" using assms by (simp add: unat_add_nowrap)
  show ?thesis
  proof (cases "idx + n < sz")
    case True
    then have "unat idx + unat n \<le> unat sz" using w by (simp add: word_less_nat_alt)
    with True assms show ?thesis
      using copy_run_put [of idx "unat n" "unat sz" slots 0 obj] by (simp add: runs_def)
  next
    case False
    define j where "j = unat sz - unat idx"
    have j: "unat sz = unat idx + j" "j \<le> unat n"
      using assms False w by (simp_all add: j_def word_less_nat_alt)
    have uj: "unat (of_nat j :: u32) = j" using j assms by (simp add: unat_of_nat)
    have a: "copy_while False sz slots idx obj 0 = runs j obj (slots, idx, 0)"
      by (rule copy_while_runs) (simp add: j)
    have p: "copy_run j slots idx obj 0 = Some (ring_put slots (unat sz) (unat idx) (take j obj))"
      using copy_run_put [of idx j "unat sz" slots 0 obj] assms j by simp
    let ?s1 = "ring_put slots (unat sz) (unat idx) (take j obj)"
    have b: "copy_while True n ?s1 0 obj (of_nat j) = runs (unat n - j) obj (?s1, 0, of_nat j)"
      by (rule copy_while_runs) (use j uj in simp)
    have q: "copy_run (unat n - j) ?s1 0 obj (of_nat j) =
        Some (ring_put ?s1 (unat sz) 0 (take (unat n - j) (drop j obj)))"
      using copy_run_put [of 0 "unat n - j" "unat sz" ?s1 "of_nat j" obj] assms j uj by simp
    have "ring_put ?s1 (unat sz) 0 (take (unat n - j) (drop j obj)) =
        ring_put ?s1 (unat sz) (unat idx + j) (take (unat n - j) (drop j obj))"
      using ring_put_mod [of ?s1 "unat sz" "unat idx + j"] j by simp
    also have "\<dots> = ring_put slots (unat sz) (unat idx) (take j obj @ take (unat n - j) (drop j obj))"
      using assms j by (simp add: ring_put_append)
    also have "take j obj @ take (unat n - j) (drop j obj) = take (unat n) obj"
      using j by (metis le_add_diff_inverse take_add)
    finally show ?thesis
      using False by (simp add: enqueue_split_def a runs_def p b q)
  qed
qed

lemma dequeue_table:
  fixes idx n sz :: u32
  assumes "unat idx < unat sz" "unat n \<le> unat sz" "unat sz \<le> 2 ^ 31"
    "unat sz \<le> length slots" "unat n \<le> length obj"
  shows "(if idx + n < sz then do { s \<leftarrow> runs (unat n) slots (obj, 0, idx); Some (fst s) }
          else dequeue_split sz slots idx obj n) =
         Some (ring_get slots (unat sz) (unat idx) (unat n) @ drop (unat n) obj)"
proof -
  have w: "unat (idx + n) = unat idx + unat n" using assms by (simp add: unat_add_nowrap)
  show ?thesis
  proof (cases "idx + n < sz")
    case True
    then have "unat idx + unat n \<le> unat sz" using w by (simp add: word_less_nat_alt)
    with True assms show ?thesis
      using copy_run_Some [of 0 "unat n" obj idx slots] ring_get_linear [of "unat idx" "unat n" "unat sz" slots]
      by (simp add: runs_def)
  next
    case False
    define j where "j = unat sz - unat idx"
    have j: "unat sz = unat idx + j" "j \<le> unat n"
      using assms False w by (simp_all add: j_def word_less_nat_alt)
    have uj: "unat (of_nat j :: u32) = j" using j assms by (simp add: unat_of_nat)
    let ?o1 = "ring_get slots (unat sz) (unat idx) j @ drop j obj"
    let ?o2 = "ring_get slots (unat sz) 0 (unat n - j)"
    have a: "copy_while True sz obj 0 slots idx = runs j slots (obj, 0, idx)"
      by (rule copy_while_runs) (simp add: j)
    have p: "copy_run j obj 0 slots idx = Some ?o1"
      using copy_run_Some [of 0 j obj idx slots] ring_get_linear [of "unat idx" j "unat sz" slots] assms j by simp
    have b: "copy_while False n ?o1 (of_nat j) slots 0 = runs (unat n - j) slots (?o1, of_nat j, 0)"
      by (rule copy_while_runs) (use j uj in simp)
    have q: "copy_run (unat n - j) ?o1 (of_nat j) slots 0 =
        Some (ring_get slots (unat sz) (unat idx) j @ ?o2 @ drop (unat n) obj)"
      using copy_run_Some [of "of_nat j" "unat n - j" ?o1 0 slots] assms j uj
        ring_get_linear [of 0 "unat n - j" "unat sz" slots] by simp
    have "?o2 = ring_get slots (unat sz) (unat idx + j) (unat n - j)"
      using ring_get_mod [of slots "unat sz" "unat idx + j"] j by simp
    then have "ring_get slots (unat sz) (unat idx) j @ ?o2 = ring_get slots (unat sz) (unat idx) (unat n)"
      using j ring_get_add [of slots "unat sz" "unat idx" j "unat n - j"] by simp
    then show ?thesis
      using False by (simp add: dequeue_split_def a runs_def p b q flip: append_assoc)
  qed
qed

lemma ring_geom_index:
  assumes "ring_geom r"
  shows "unat (h AND r_mask r) = unat h mod unat (r_size r)"
    "unat (h AND r_mask r) < unat (r_size r)" "unat (r_size r) \<le> 2 ^ 31"
proof -
  from assms obtain k where k: "k < 32" "unat (r_size r) = 2 ^ k" by (rule ring_geomE)
  show "unat (h AND r_mask r) = unat h mod unat (r_size r)" using assms by (rule ring_index)
  then show "unat (h AND r_mask r) < unat (r_size r)" using k by simp
  have "k \<le> 31" using k by simp
  then show "unat (r_size r) \<le> 2 ^ 31" unfolding k by (rule power_increasing) simp
qed

lemma ring_geom_slots: "ring_geom r \<Longrightarrow> unat (r_size r) \<le> length (r_slots r)"
  by (simp add: ring_geom_def)

lemmas enqueue_loops = loops_runs [where enq = True and si = 0, OF if_True]
lemmas dequeue_loops = loops_runs [where enq = False and di = 0, OF if_False]

lemma rte_ring_enqueue_elems_32_put:
  assumes "unat idx < unat sz" "unat n \<le> unat sz" "unat sz \<le> 2 ^ 31"
    "unat sz \<le> length (r_slots r)" "unat n \<le> length obj"
  shows "rte_ring_enqueue_elems_32 r sz idx obj n =
    Some (r\<lparr>r_slots := ring_put (r_slots r) (unat sz) (unat idx) (take (unat n) obj)\<rparr>)"
  unfolding rte_ring_enqueue_elems_32_def switch_runs enqueue_loops
  by (subst enqueue_table) (use assms in simp_all)

lemma rte_ring_dequeue_elems_32_get:
  assumes "unat idx < unat sz" "unat n \<le> unat sz" "unat sz \<le> 2 ^ 31"
    "unat sz \<le> length (r_slots r)" "unat n \<le> length obj"
  shows "rte_ring_dequeue_elems_32 r sz idx obj n =
    Some (ring_get (r_slots r) (unat sz) (unat idx) (unat n) @ drop (unat n) obj)"
  unfolding rte_ring_dequeue_elems_32_def switch_runs dequeue_loops Let_def
  by (subst dequeue_table) (use assms in simp_all)

lemma rte_ring_enqueue_elems_64_put:
  assumes "ring_geom r" "unat n \<le> unat (r_size r)" "unat n \<le> length obj"
  shows "rte_ring_enqueue_elems_64 r h obj n =
    Some (r\<lparr>r_slots := ring_put (r_slots r) (unat (r_size r)) (unat h) (take (unat n) obj)\<rparr>)"
  unfolding rte_ring_enqueue_elems_64_def switch_runs enqueue_loops Let_def
  by (subst enqueue_table)
     (use assms ring_geom_index(1,2) [OF assms(1), of h] ring_geom_index(3) [OF assms(1)] ring_geom_slots [OF assms(1)]
       in \<open>simp_all add: ring_put_mod\<close>)

lemma rte_ring_dequeue_elems_64_get:
  assumes "ring_geom r" "unat n \<le> unat (r_size r)" "unat n \<le> length obj"
  shows "rte_ring_dequeue_elems_64 r h obj n =
    Some (ring_get (r_slots r) (unat (r_size r)) (unat h) (unat n) @ drop (unat n) obj)"
  unfolding rte_ring_dequeue_elems_64_def switch_runs dequeue_loops Let_def
  by (subst dequeue_table)
     (use assms ring_geom_index(1,2) [OF assms(1), of h] ring_geom_index(3) [OF assms(1)] ring_geom_slots [OF assms(1)]
       in \<open>simp_all add: ring_get_mod\<close>)

lemma rte_ring_enqueue_elems_128_put:
  assumes "ring_geom r" "unat n \<le> unat (r_size r)" "unat n \<le> length obj"
  shows "rte_ring_enqueue_elems_128 r h obj n =
    Some (r\<lparr>r_slots := ring_put (r_slots r) (unat (r_size r)) (unat h) (take (unat n) obj)\<rparr>)"
  unfolding rte_ring_enqueue_elems_128_def switch_runs enqueue_loops Let_def
  by (subst enqueue_table)
     (use assms ring_geom_index(1,2) [OF assms(1), of h] ring_geom_index(3) [OF assms(1)] ring_geom_slots [OF assms(1)]
       in \<open>simp_all add: ring_put_mod\<close>)

lemma rte_ring_dequeue_elems_128_get:
  assumes "ring_geom r" "unat n \<le> unat (r_size r)" "unat n \<le> length obj"
  shows "rte_ring_dequeue_elems_128 r h obj n =
    Some (ring_get (r_slots r) (unat (r_size r)) (unat h) (unat n) @ drop (unat n) obj)"
  unfolding rte_ring_dequeue_elems_128_def switch_runs dequeue_loops Let_def
  by (subst dequeue_table)
     (use assms ring_geom_index(1,2) [OF assms(1), of h] ring_geom_index(3) [OF assms(1)] ring_geom_slots [OF assms(1)]
       in \<open>simp_all add: ring_get_mod\<close>)

section \<open>Dispatch on the element size\<close>

text \<open>
  A ring is read in units of 8 bytes if its elements have 8, of 16 bytes if they have 16,
  and of 4 bytes otherwise: \<open>'a\<close> is that unit, and an element has \<open>esize / 4\<close> units in the
  last case.
\<close>

definition rte_ring_enqueue_elems :: "'a rte_ring \<Rightarrow> u32 \<Rightarrow> 'a list \<Rightarrow> u32 \<Rightarrow> u32 \<Rightarrow> 'a rte_ring option" where
  "rte_ring_enqueue_elems r prod_head obj esize num =
     (if esize = 8 then rte_ring_enqueue_elems_64 r prod_head obj num
      else if esize = 16 then rte_ring_enqueue_elems_128 r prod_head obj num
      else let scale = esize div 4;
               nr_num = num * scale;
               idx = prod_head AND r_mask r;
               nr_idx = idx * scale;
               nr_size = r_size r * scale
           in rte_ring_enqueue_elems_32 r nr_size nr_idx obj nr_num)"

definition rte_ring_dequeue_elems :: "'a rte_ring \<Rightarrow> u32 \<Rightarrow> 'a list \<Rightarrow> u32 \<Rightarrow> u32 \<Rightarrow> 'a list option" where
  "rte_ring_dequeue_elems r cons_head obj esize num =
     (if esize = 8 then rte_ring_dequeue_elems_64 r cons_head obj num
      else if esize = 16 then rte_ring_dequeue_elems_128 r cons_head obj num
      else let scale = esize div 4;
               nr_num = num * scale;
               idx = cons_head AND r_mask r;
               nr_idx = idx * scale;
               nr_size = r_size r * scale
           in rte_ring_dequeue_elems_32 r nr_size nr_idx obj nr_num)"

text \<open>The element sizes with one unit per element: 4, 8 and 16 bytes.\<close>

definition unit_esize :: "u32 \<Rightarrow> bool" where
  "unit_esize esize \<longleftrightarrow> esize = 4 \<or> esize = 8 \<or> esize = 16"

lemma rte_ring_enqueue_elems_put:
  assumes "unit_esize esize" "ring_geom r" "unat n \<le> unat (r_size r)" "unat n \<le> length obj"
  shows "rte_ring_enqueue_elems r h obj esize n =
    Some (r\<lparr>r_slots := ring_put (r_slots r) (unat (r_size r)) (unat h) (take (unat n) obj)\<rparr>)"
  using assms rte_ring_enqueue_elems_64_put [OF assms(2-4)] rte_ring_enqueue_elems_128_put [OF assms(2-4)]
    rte_ring_enqueue_elems_32_put [of "h AND r_mask r" "r_size r" n r obj] ring_geom_index(1,2) [OF assms(2), of h] ring_geom_index(3) [OF assms(2)]
  by (auto simp: unit_esize_def rte_ring_enqueue_elems_def ring_put_mod ring_geom_def)

lemma rte_ring_dequeue_elems_get:
  assumes "unit_esize esize" "ring_geom r" "unat n \<le> unat (r_size r)" "unat n \<le> length obj"
  shows "rte_ring_dequeue_elems r h obj esize n =
    Some (ring_get (r_slots r) (unat (r_size r)) (unat h) (unat n) @ drop (unat n) obj)"
  using assms rte_ring_dequeue_elems_64_get [OF assms(2-4)] rte_ring_dequeue_elems_128_get [OF assms(2-4)]
    rte_ring_dequeue_elems_32_get [of "h AND r_mask r" "r_size r" n r obj] ring_geom_index(1,2) [OF assms(2), of h] ring_geom_index(3) [OF assms(2)]
  by (auto simp: unit_esize_def rte_ring_dequeue_elems_def ring_get_mod ring_geom_def)

text \<open>Any other size: an element is a group of \<open>esize / 4\<close> words, kept together.\<close>

lemma scaled_bounds:
  fixes sz idx n scale :: u32
  assumes "unat sz * unat scale \<le> 2 ^ 31" "unat idx < unat sz" "unat n \<le> unat sz" "scale \<noteq> 0"
  shows "unat (sz * scale) = unat sz * unat scale" "unat (idx * scale) = unat idx * unat scale"
    "unat (n * scale) = unat n * unat scale" "unat idx * unat scale < unat sz * unat scale"
    "unat n * unat scale \<le> unat sz * unat scale"
proof -
  show i: "unat idx * unat scale < unat sz * unat scale" using assms by (simp add: unat_gt_0)
  show n: "unat n * unat scale \<le> unat sz * unat scale" using assms by simp
  show "unat (sz * scale) = unat sz * unat scale" "unat (idx * scale) = unat idx * unat scale"
    "unat (n * scale) = unat n * unat scale"
    using assms(1) less_le_trans [OF i assms(1)] le_trans [OF n assms(1)]
    by (simp_all add: unat_word_ariths)
qed

lemma rte_ring_scaled_put_get:
  assumes "ring_geom r" "esize \<noteq> 8" "esize \<noteq> 16" "esize div 4 \<noteq> 0"
    "unat (r_size r) * unat (esize div 4) \<le> 2 ^ 31"
    "unat (r_size r) * unat (esize div 4) \<le> length (r_slots r)"
    "unat n \<le> unat (r_size r)" "unat n * unat (esize div 4) \<le> length obj"
  shows "rte_ring_enqueue_elems r h obj esize n =
      Some (r\<lparr>r_slots := ring_put (r_slots r) (unat (r_size r) * unat (esize div 4))
        (unat h mod unat (r_size r) * unat (esize div 4)) (take (unat n * unat (esize div 4)) obj)\<rparr>)"
    and "rte_ring_dequeue_elems r h obj esize n =
      Some (ring_get (r_slots r) (unat (r_size r) * unat (esize div 4))
        (unat h mod unat (r_size r) * unat (esize div 4)) (unat n * unat (esize div 4))
        @ drop (unat n * unat (esize div 4)) obj)"
proof -
  let ?i = "h AND r_mask r"
  note b = scaled_bounds [OF assms(5) ring_geom_index(2) [OF assms(1), of h] assms(7,4)]
  note ix = ring_geom_index(1) [OF assms(1), of h]
  show "rte_ring_enqueue_elems r h obj esize n =
      Some (r\<lparr>r_slots := ring_put (r_slots r) (unat (r_size r) * unat (esize div 4))
        (unat h mod unat (r_size r) * unat (esize div 4)) (take (unat n * unat (esize div 4)) obj)\<rparr>)"
    unfolding rte_ring_enqueue_elems_def Let_def
    using rte_ring_enqueue_elems_32_put [of "?i * (esize div 4)" "r_size r * (esize div 4)" "n * (esize div 4)" r obj]
      b ix assms(2-8) by simp
  show "rte_ring_dequeue_elems r h obj esize n =
      Some (ring_get (r_slots r) (unat (r_size r) * unat (esize div 4))
        (unat h mod unat (r_size r) * unat (esize div 4)) (unat n * unat (esize div 4))
        @ drop (unat n * unat (esize div 4)) obj)"
    unfolding rte_ring_dequeue_elems_def Let_def
    using rte_ring_dequeue_elems_32_get [of "?i * (esize div 4)" "r_size r * (esize div 4)" "n * (esize div 4)" r obj]
      b ix assms(2-8) by simp
qed

end
