(* ===== verification/Ring_Queue.thy ===== *)
theory Ring_Queue
  imports Ring_Elems
begin

text \<open>
  The queue operations of \<open>lib/ring\<close> in the four synchronisation modes: single and
  multiple threads (\<open>rte_ring_generic_pvt.h\<close>, \<open>rte_ring_elem_pvt.h\<close>), head/tail sync
  (\<open>rte_ring_hts_elem_pvt.h\<close>) and relaxed tail sync (\<open>rte_ring_rts_elem_pvt.h\<close>).

  The definitions run one operation with nothing beside it. A compare-and-set or a wait that
  fails then fails for ever, and the operation is \<open>None\<close>; on a well-formed idle ring the
  lemmas show this does not happen. \<open>Ring_Concurrent\<close> interleaves the steps of several
  threads.
\<close>

section \<open>How many elements a request moves\<close>

text \<open>
  \<open>if (n > avail) n = (behavior == RTE_RING_QUEUE_FIXED) ? 0 : avail\<close>.
\<close>

definition admit :: "rte_ring_queue_behavior \<Rightarrow> u32 \<Rightarrow> u32 \<Rightarrow> u32" where
  "admit behavior n avail =
     (if avail < n then (if behavior = RTE_RING_QUEUE_FIXED then 0 else avail) else n)"

text \<open>\<open>rte_atomic32_cmpset\<close> and \<open>__atomic_compare_exchange_n\<close> on a value \<open>cur\<close>.\<close>

definition cmpset :: "'w \<Rightarrow> 'w \<Rightarrow> 'w \<Rightarrow> 'w option" where
  "cmpset cur old_val new_val = (if cur = old_val then Some new_val else None)"

section \<open>Single- and multi-thread modes\<close>

definition rte_ring_update_tail ::
  "rte_ring_headtail \<Rightarrow> u32 \<Rightarrow> u32 \<Rightarrow> bool \<Rightarrow> rte_ring_headtail option" where
  "rte_ring_update_tail ht old_val new_val single =
     (if \<not> single \<and> ht_tail ht \<noteq> old_val then None
      else Some (ht\<lparr>ht_tail := new_val\<rparr>))"

text \<open>
  Results: the number of elements, the old head, the new head, the free entries before the
  move, and the ring.
\<close>

definition rte_ring_move_prod_head ::
  "'a rte_ring \<Rightarrow> bool \<Rightarrow> u32 \<Rightarrow> rte_ring_queue_behavior \<Rightarrow>
     (u32 \<times> u32 \<times> u32 \<times> u32 \<times> 'a rte_ring) option" where
  "rte_ring_move_prod_head r is_sp n behavior =
     (let old_head = ht_head (r_prod r);
          free_entries = r_capacity r + ht_tail (r_cons r) - old_head;
          n = admit behavior n free_entries;
          new_head = old_head + n
      in if n = 0 then Some (0, old_head, new_head, free_entries, r)
      else if is_sp then
        Some (n, old_head, new_head, free_entries, r\<lparr>r_prod := (r_prod r)\<lparr>ht_head := new_head\<rparr>\<rparr>)
      else do {
        h \<leftarrow> cmpset (ht_head (r_prod r)) old_head new_head;
        Some (n, old_head, new_head, free_entries, r\<lparr>r_prod := (r_prod r)\<lparr>ht_head := h\<rparr>\<rparr>) })"

definition rte_ring_move_cons_head ::
  "'a rte_ring \<Rightarrow> bool \<Rightarrow> u32 \<Rightarrow> rte_ring_queue_behavior \<Rightarrow>
     (u32 \<times> u32 \<times> u32 \<times> u32 \<times> 'a rte_ring) option" where
  "rte_ring_move_cons_head r is_sc n behavior =
     (let old_head = ht_head (r_cons r);
          entries = ht_tail (r_prod r) - old_head;
          n = admit behavior n entries;
          new_head = old_head + n
      in if n = 0 then Some (0, old_head, new_head, entries, r)
      else if is_sc then
        Some (n, old_head, new_head, entries, r\<lparr>r_cons := (r_cons r)\<lparr>ht_head := new_head\<rparr>\<rparr>)
      else do {
        h \<leftarrow> cmpset (ht_head (r_cons r)) old_head new_head;
        Some (n, old_head, new_head, entries, r\<lparr>r_cons := (r_cons r)\<lparr>ht_head := h\<rparr>\<rparr>) })"

text \<open>An enqueue returns the count, the free space left and the ring.\<close>

definition rte_ring_do_enqueue_elem ::
  "'a rte_ring \<Rightarrow> 'a list \<Rightarrow> u32 \<Rightarrow> u32 \<Rightarrow> rte_ring_queue_behavior \<Rightarrow> bool \<Rightarrow>
     (u32 \<times> u32 \<times> 'a rte_ring) option" where
  "rte_ring_do_enqueue_elem r obj_table esize n behavior is_sp =
     do { (n, prod_head, prod_next, free_entries, r) \<leftarrow> rte_ring_move_prod_head r is_sp n behavior;
          r \<leftarrow> (if n = 0 then Some r
                else do { r \<leftarrow> rte_ring_enqueue_elems r prod_head obj_table esize n;
                          ht \<leftarrow> rte_ring_update_tail (r_prod r) prod_head prod_next is_sp;
                          Some (r\<lparr>r_prod := ht\<rparr>) });
          Some (n, free_entries - n, r) }"

text \<open>A dequeue returns the count, the object table it filled, the entries left and the ring.\<close>

definition rte_ring_do_dequeue_elem ::
  "'a rte_ring \<Rightarrow> 'a list \<Rightarrow> u32 \<Rightarrow> u32 \<Rightarrow> rte_ring_queue_behavior \<Rightarrow> bool \<Rightarrow>
     (u32 \<times> 'a list \<times> u32 \<times> 'a rte_ring) option" where
  "rte_ring_do_dequeue_elem r obj_table esize n behavior is_sc =
     do { (n, cons_head, cons_next, entries, r) \<leftarrow> rte_ring_move_cons_head r is_sc n behavior;
          (obj_table, r) \<leftarrow>
            (if n = 0 then Some (obj_table, r)
             else do { obj_table \<leftarrow> rte_ring_dequeue_elems r cons_head obj_table esize n;
                       ht \<leftarrow> rte_ring_update_tail (r_cons r) cons_head cons_next is_sc;
                       Some (obj_table, r\<lparr>r_cons := ht\<rparr>) });
          Some (n, obj_table, entries - n, r) }"

section \<open>Head/tail sync mode\<close>

definition rte_ring_hts_update_tail :: "rte_ring_headtail \<Rightarrow> u32 \<Rightarrow> u32 \<Rightarrow> rte_ring_headtail" where
  "rte_ring_hts_update_tail ht old_tail num = ht\<lparr>ht_tail := old_tail + num\<rparr>"

definition rte_ring_hts_head_wait :: "rte_ring_headtail \<Rightarrow> u32 \<times> u32 \<Rightarrow> (u32 \<times> u32) option" where
  "rte_ring_hts_head_wait ht p =
     (if fst p \<noteq> snd p
      then let p = (ht_head ht, ht_tail ht) in if fst p \<noteq> snd p then None else Some p
      else Some p)"

definition rte_ring_hts_move_prod_head ::
  "'a rte_ring \<Rightarrow> u32 \<Rightarrow> rte_ring_queue_behavior \<Rightarrow> (u32 \<times> u32 \<times> u32 \<times> 'a rte_ring) option" where
  "rte_ring_hts_move_prod_head r num behavior =
     do { op \<leftarrow> rte_ring_hts_head_wait (r_prod r) (ht_head (r_prod r), ht_tail (r_prod r));
          let free_entries = r_capacity r + ht_tail (r_cons r) - fst op;
          let n = admit behavior num free_entries;
          if n = 0 then Some (n, fst op, free_entries, r)
          else do {
            np \<leftarrow> cmpset (ht_head (r_prod r), ht_tail (r_prod r)) op (fst op + n, snd op);
            Some (n, fst op, free_entries,
              r\<lparr>r_prod := (r_prod r)\<lparr>ht_head := fst np, ht_tail := snd np\<rparr>\<rparr>) } }"

definition rte_ring_hts_move_cons_head ::
  "'a rte_ring \<Rightarrow> u32 \<Rightarrow> rte_ring_queue_behavior \<Rightarrow> (u32 \<times> u32 \<times> u32 \<times> 'a rte_ring) option" where
  "rte_ring_hts_move_cons_head r num behavior =
     do { op \<leftarrow> rte_ring_hts_head_wait (r_cons r) (ht_head (r_cons r), ht_tail (r_cons r));
          let entries = ht_tail (r_prod r) - fst op;
          let n = admit behavior num entries;
          if n = 0 then Some (n, fst op, entries, r)
          else do {
            np \<leftarrow> cmpset (ht_head (r_cons r), ht_tail (r_cons r)) op (fst op + n, snd op);
            Some (n, fst op, entries,
              r\<lparr>r_cons := (r_cons r)\<lparr>ht_head := fst np, ht_tail := snd np\<rparr>\<rparr>) } }"

definition rte_ring_do_hts_enqueue_elem ::
  "'a rte_ring \<Rightarrow> 'a list \<Rightarrow> u32 \<Rightarrow> u32 \<Rightarrow> rte_ring_queue_behavior \<Rightarrow> (u32 \<times> u32 \<times> 'a rte_ring) option" where
  "rte_ring_do_hts_enqueue_elem r obj_table esize n behavior =
     do { (n, head, free, r) \<leftarrow> rte_ring_hts_move_prod_head r n behavior;
          r \<leftarrow> (if n \<noteq> 0
                then do { r \<leftarrow> rte_ring_enqueue_elems r head obj_table esize n;
                          Some (r\<lparr>r_prod := rte_ring_hts_update_tail (r_prod r) head n\<rparr>) }
                else Some r);
          Some (n, free - n, r) }"

definition rte_ring_do_hts_dequeue_elem ::
  "'a rte_ring \<Rightarrow> 'a list \<Rightarrow> u32 \<Rightarrow> u32 \<Rightarrow> rte_ring_queue_behavior \<Rightarrow>
     (u32 \<times> 'a list \<times> u32 \<times> 'a rte_ring) option" where
  "rte_ring_do_hts_dequeue_elem r obj_table esize n behavior =
     do { (n, head, entries, r) \<leftarrow> rte_ring_hts_move_cons_head r n behavior;
          (obj_table, r) \<leftarrow>
            (if n \<noteq> 0
             then do { obj_table \<leftarrow> rte_ring_dequeue_elems r head obj_table esize n;
                       Some (obj_table, r\<lparr>r_cons := rte_ring_hts_update_tail (r_cons r) head n\<rparr>) }
             else Some (obj_table, r));
          Some (n, obj_table, entries - n, r) }"

section \<open>Relaxed tail sync mode\<close>

text \<open>
  The pairs are \<open>(cnt, pos)\<close>. The tail position moves only when the operation that
  completes is the last one started: \<open>++nt.val.cnt == h.val.cnt\<close>.
\<close>

definition rte_ring_rts_update_tail :: "rte_ring_headtail \<Rightarrow> rte_ring_headtail option" where
  "rte_ring_rts_update_tail ht =
     do { let ot = (ht_head ht, ht_tail ht);
          let h = (ht_rts_cnt ht, ht_rts_pos ht);
          let cnt = fst ot + 1;
          nt \<leftarrow> cmpset (ht_head ht, ht_tail ht) ot (cnt, if cnt = fst h then snd h else snd ot);
          Some (ht\<lparr>ht_head := fst nt, ht_tail := snd nt\<rparr>) }"

definition rte_ring_rts_head_wait :: "rte_ring_headtail \<Rightarrow> u32 \<times> u32 \<Rightarrow> (u32 \<times> u32) option" where
  "rte_ring_rts_head_wait ht h =
     (if ht_htd_max ht < snd h - ht_tail ht
      then let h = (ht_rts_cnt ht, ht_rts_pos ht)
           in if ht_htd_max ht < snd h - ht_tail ht then None else Some h
      else Some h)"

definition rte_ring_rts_move_prod_head ::
  "'a rte_ring \<Rightarrow> u32 \<Rightarrow> rte_ring_queue_behavior \<Rightarrow> (u32 \<times> u32 \<times> u32 \<times> 'a rte_ring) option" where
  "rte_ring_rts_move_prod_head r num behavior =
     do { oh \<leftarrow> rte_ring_rts_head_wait (r_prod r) (ht_rts_cnt (r_prod r), ht_rts_pos (r_prod r));
          let free_entries = r_capacity r + ht_tail (r_cons r) - snd oh;
          let n = admit behavior num free_entries;
          if n = 0 then Some (n, snd oh, free_entries, r)
          else do {
            nh \<leftarrow> cmpset (ht_rts_cnt (r_prod r), ht_rts_pos (r_prod r)) oh (fst oh + 1, snd oh + n);
            Some (n, snd oh, free_entries,
              r\<lparr>r_prod := (r_prod r)\<lparr>ht_rts_cnt := fst nh, ht_rts_pos := snd nh\<rparr>\<rparr>) } }"

definition rte_ring_rts_move_cons_head ::
  "'a rte_ring \<Rightarrow> u32 \<Rightarrow> rte_ring_queue_behavior \<Rightarrow> (u32 \<times> u32 \<times> u32 \<times> 'a rte_ring) option" where
  "rte_ring_rts_move_cons_head r num behavior =
     do { oh \<leftarrow> rte_ring_rts_head_wait (r_cons r) (ht_rts_cnt (r_cons r), ht_rts_pos (r_cons r));
          let entries = ht_tail (r_prod r) - snd oh;
          let n = admit behavior num entries;
          if n = 0 then Some (n, snd oh, entries, r)
          else do {
            nh \<leftarrow> cmpset (ht_rts_cnt (r_cons r), ht_rts_pos (r_cons r)) oh (fst oh + 1, snd oh + n);
            Some (n, snd oh, entries,
              r\<lparr>r_cons := (r_cons r)\<lparr>ht_rts_cnt := fst nh, ht_rts_pos := snd nh\<rparr>\<rparr>) } }"

definition rte_ring_do_rts_enqueue_elem ::
  "'a rte_ring \<Rightarrow> 'a list \<Rightarrow> u32 \<Rightarrow> u32 \<Rightarrow> rte_ring_queue_behavior \<Rightarrow> (u32 \<times> u32 \<times> 'a rte_ring) option" where
  "rte_ring_do_rts_enqueue_elem r obj_table esize n behavior =
     do { (n, head, free, r) \<leftarrow> rte_ring_rts_move_prod_head r n behavior;
          r \<leftarrow> (if n \<noteq> 0
                then do { r \<leftarrow> rte_ring_enqueue_elems r head obj_table esize n;
                          ht \<leftarrow> rte_ring_rts_update_tail (r_prod r);
                          Some (r\<lparr>r_prod := ht\<rparr>) }
                else Some r);
          Some (n, free - n, r) }"

definition rte_ring_do_rts_dequeue_elem ::
  "'a rte_ring \<Rightarrow> 'a list \<Rightarrow> u32 \<Rightarrow> u32 \<Rightarrow> rte_ring_queue_behavior \<Rightarrow>
     (u32 \<times> 'a list \<times> u32 \<times> 'a rte_ring) option" where
  "rte_ring_do_rts_dequeue_elem r obj_table esize n behavior =
     do { (n, head, entries, r) \<leftarrow> rte_ring_rts_move_cons_head r n behavior;
          (obj_table, r) \<leftarrow>
            (if n \<noteq> 0
             then do { obj_table \<leftarrow> rte_ring_dequeue_elems r head obj_table esize n;
                       ht \<leftarrow> rte_ring_rts_update_tail (r_cons r);
                       Some (obj_table, r\<lparr>r_cons := ht\<rparr>) }
             else Some (obj_table, r));
          Some (n, obj_table, entries - n, r) }"

section \<open>Moving the tails\<close>

lemma ring_list_get: "ring_list r = ring_get (r_slots r) (unat (r_size r)) (unat (ht_tail (r_cons r))) (ring_used r)"
  by (simp add: ring_list_def ring_get_def)

lemma rte_ring_count_diff: "ring_inv r \<Longrightarrow> ht_tail (r_prod r) - ht_tail (r_cons r) = rte_ring_count r"
  using rte_ring_count_used [of r] by (simp add: word_unat_eq_iff ring_used_def)

lemma rte_ring_free_diff:
  "ring_inv r \<Longrightarrow> r_capacity r + ht_tail (r_cons r) - ht_tail (r_prod r) = rte_ring_free_count r"
  using rte_ring_count_diff [of r] by (simp add: rte_ring_free_count_def algebra_simps)

text \<open>Free-running indices read modulo the size: the distance survives the 32-bit wrap.\<close>

lemma ring_index_add:
  fixes c :: u32
  assumes "ring_geom r"
  shows "unat (c + d) mod unat (r_size r) = (unat c + unat d) mod unat (r_size r)"
proof -
  from assms obtain k where k: "k < 32" "unat (r_size r) = 2 ^ k" by (rule ring_geomE)
  then show ?thesis using mod_add_pow2_dvd [of k 32 "unat c" "unat d"] by (simp add: unat_word_ariths)
qed

lemma prod_tail_index:
  assumes "ring_geom r"
  shows "unat (ht_tail (r_prod r)) mod unat (r_size r) =
    (unat (ht_tail (r_cons r)) + ring_used r) mod unat (r_size r)"
  using ring_index_add [OF assms, of "ht_tail (r_cons r)" "ht_tail (r_prod r) - ht_tail (r_cons r)"]
  by (simp add: ring_used_def)

lemma ring_capacity_size: "ring_geom r \<Longrightarrow> unat (r_capacity r) < unat (r_size r)"
  by (simp add: ring_geom_def word_less_nat_alt)

lemma enqueue_advance:
  assumes inv: "ring_inv r" and m: "unat m \<le> unat (rte_ring_free_count r)" "unat m \<le> length obj"
    and ht: "quiescent ht" "ht_tail ht = ht_tail (r_prod r) + m"
    and r': "r' = r\<lparr>r_slots := ring_put (r_slots r) (unat (r_size r)) (unat (ht_tail (r_prod r)))
               (take (unat m) obj), r_prod := ht\<rparr>"
  shows "ring_inv r'" "ring_list r' = ring_list r @ take (unat m) obj"
    "rte_ring_free_count r' = rte_ring_free_count r - m"
proof -
  have g: "ring_geom r" and cap: "ring_used r \<le> unat (r_capacity r)"
    using inv by (simp_all add: ring_inv_def)
  have fit: "ring_used r + unat m \<le> unat (r_capacity r)"
    using m(1) rte_ring_free_count_used [OF inv] cap by simp
  have sum: "ht_tail ht - ht_tail (r_cons r) = (ht_tail (r_prod r) - ht_tail (r_cons r)) + m"
    by (simp add: ht)
  have used: "ring_used r' = ring_used r + unat m"
    unfolding ring_used_def r' using le_less_trans [OF fit unat32_bound]
    by (simp add: sum) (subst unat_add_nowrap, simp_all add: ring_used_def)
  show "ring_inv r'" using inv ht fit used by (simp add: ring_inv_def ring_geom_def r')
  let ?sz = "unat (r_size r)" and ?c = "unat (ht_tail (r_cons r))"
  let ?s' = "ring_put (r_slots r) ?sz (unat (ht_tail (r_prod r))) (take (unat m) obj)"
  have s': "?s' = ring_put (r_slots r) ?sz (?c + ring_used r) (take (unat m) obj)"
    by (metis ring_put_mod prod_tail_index [OF g])
  have lt: "ring_used r + unat m < ?sz" using fit ring_capacity_size [OF g] by simp
  have old: "ring_get ?s' ?sz ?c (ring_used r) = ring_list r"
    unfolding ring_list_get ring_get_def
  proof (rule map_cong [OF refl])
    fix i assume i: "i \<in> set [0..<ring_used r]"
    have "(?c + ring_used r + j) mod ?sz \<noteq> (?c + i) mod ?sz" if "j < length (take (unat m) obj)" for j
      using mod_shift_inj [of ?c "ring_used r + j" ?sz i] that i lt by (auto simp: add.assoc)
    then show "?s' ! ((?c + i) mod ?sz) = r_slots r ! ((?c + i) mod ?sz)"
      unfolding s' using lt by (intro ring_put_nth_other) auto
  qed
  have len: "length (take (unat m) obj) = unat m" using m(2) by simp
  have new: "ring_get ?s' ?sz (?c + ring_used r) (unat m) = take (unat m) obj"
    unfolding s' using ring_put_get_same [of "take (unat m) obj" ?sz "r_slots r" "?c + ring_used r"]
      lt ring_geom_slots [OF g] by (simp only: len)
  show "ring_list r' = ring_list r @ take (unat m) obj"
    unfolding ring_list_get [of r'] used using old new by (simp add: r' ring_get_add)
  have "unat (rte_ring_free_count r') = unat (rte_ring_free_count r - m)"
    using rte_ring_free_count_used [OF \<open>ring_inv r'\<close>] rte_ring_free_count_used [OF inv] used m
    by (simp add: unat_sub_nowrap r')
  then show "rte_ring_free_count r' = rte_ring_free_count r - m" by (simp add: word_unat_eq_iff)
qed

lemma dequeue_advance:
  assumes inv: "ring_inv r" and m: "unat m \<le> unat (rte_ring_count r)"
    and ht: "quiescent ht" "ht_tail ht = ht_tail (r_cons r) + m"
    and r': "r' = r\<lparr>r_cons := ht\<rparr>"
  shows "ring_inv r'" "ring_list r' = drop (unat m) (ring_list r)"
    "ring_get (r_slots r) (unat (r_size r)) (unat (ht_tail (r_cons r))) (unat m) = take (unat m) (ring_list r)"
    "rte_ring_count r' = rte_ring_count r - m"
proof -
  have g: "ring_geom r" using inv by (simp add: ring_inv_def)
  have le: "unat m \<le> ring_used r" using m rte_ring_count_used [OF inv] by simp
  have used: "ring_used r = unat m + ring_used r'"
    using le by (simp add: ring_used_def r' ht diff_diff_eq2 flip: diff_diff_eq) (simp add: unat_sub_nowrap)
  show inv': "ring_inv r'" using inv ht used by (simp add: ring_inv_def ring_geom_def r')
  let ?sz = "unat (r_size r)" and ?c = "unat (ht_tail (r_cons r))"
  have split: "ring_list r = ring_get (r_slots r) ?sz ?c (unat m) @ ring_get (r_slots r) ?sz (?c + unat m) (ring_used r')"
    unfolding ring_list_get used by (rule ring_get_add)
  have tail: "ring_list r' = ring_get (r_slots r) ?sz (?c + unat m) (ring_used r')"
    unfolding ring_list_get [of r'] using ring_index_add [OF g, of "ht_tail (r_cons r)" m]
    by (metis (no_types, lifting) ring_get_mod ht(2) r' rte_ring.select_convs(4,8,9) rte_ring.update_convs(8)
        rte_ring.surjective)
  show "ring_list r' = drop (unat m) (ring_list r)"
    and "ring_get (r_slots r) ?sz ?c (unat m) = take (unat m) (ring_list r)"
    using split tail by simp_all
  have "unat (rte_ring_count r') = unat (rte_ring_count r - m)"
    using rte_ring_count_used [OF inv'] rte_ring_count_used [OF inv] used m by (simp add: unat_sub_nowrap)
  then show "rte_ring_count r' = rte_ring_count r - m" by (simp add: word_unat_eq_iff)
qed


section \<open>Every mode moves the same elements\<close>

lemma admit_le [simp]: "admit b n avail \<le> avail" "admit b n avail \<le> n"
  by (auto simp: admit_def)

lemma unat_admit_le: "unat (admit b n avail) \<le> unat avail" "unat (admit b n avail) \<le> unat n"
  by (simp_all flip: word_le_nat_alt)

text \<open>What no queue operation changes.\<close>

definition same_ring :: "'a rte_ring \<Rightarrow> 'a rte_ring \<Rightarrow> bool" where
  "same_ring r r' \<longleftrightarrow>
     r_name r' = r_name r \<and> r_flags r' = r_flags r \<and> r_memzone r' = r_memzone r \<and>
     r_size r' = r_size r \<and> r_mask r' = r_mask r \<and> r_capacity r' = r_capacity r \<and>
     ht_sync_type (r_prod r') = ht_sync_type (r_prod r) \<and>
     ht_sync_type (r_cons r') = ht_sync_type (r_cons r)"

definition enqueued :: "'a rte_ring \<Rightarrow> 'a list \<Rightarrow> u32 \<Rightarrow> 'a rte_ring \<Rightarrow> bool" where
  "enqueued r obj m r' \<longleftrightarrow>
     ring_inv r' \<and> ring_list r' = ring_list r @ take (unat m) obj \<and> same_ring r r' \<and>
     rte_ring_free_count r' = rte_ring_free_count r - m"

definition dequeued :: "'a rte_ring \<Rightarrow> 'a list \<Rightarrow> u32 \<Rightarrow> 'a list \<Rightarrow> 'a rte_ring \<Rightarrow> bool" where
  "dequeued r obj m obj' r' \<longleftrightarrow>
     ring_inv r' \<and> ring_list r' = drop (unat m) (ring_list r) \<and> same_ring r r' \<and>
     obj' = take (unat m) (ring_list r) @ drop (unat m) obj \<and>
     rte_ring_count r' = rte_ring_count r - m"

lemma same_ring_refl [simp]: "same_ring r r"
  by (simp add: same_ring_def)

lemma enqueued_0 [simp]: "ring_inv r \<Longrightarrow> enqueued r obj 0 r"
  by (simp add: enqueued_def)

lemma dequeued_0 [simp]: "ring_inv r \<Longrightarrow> dequeued r obj 0 obj r"
  by (simp add: dequeued_def)

lemma enqueuedI:
  assumes "ring_inv r" "unat m \<le> unat (rte_ring_free_count r)" "unat m \<le> length obj"
    "quiescent ht" "ht_tail ht = ht_tail (r_prod r) + m" "ht_sync_type ht = ht_sync_type (r_prod r)"
  shows "enqueued r obj m (r\<lparr>r_slots := ring_put (r_slots r) (unat (r_size r))
    (unat (ht_tail (r_prod r))) (take (unat m) obj), r_prod := ht\<rparr>)"
  using enqueue_advance [OF assms(1-5) refl] assms(6) by (simp add: enqueued_def same_ring_def)

lemma dequeuedI:
  assumes "ring_inv r" "unat m \<le> unat (rte_ring_count r)"
    "quiescent ht" "ht_tail ht = ht_tail (r_cons r) + m" "ht_sync_type ht = ht_sync_type (r_cons r)"
  shows "dequeued r obj m (ring_get (r_slots r) (unat (r_size r)) (unat (ht_tail (r_cons r))) (unat m)
    @ drop (unat m) obj) (r\<lparr>r_cons := ht\<rparr>)"
  using dequeue_advance [OF assms(1-4) refl] assms(5) by (simp add: dequeued_def same_ring_def)

text \<open>Copying into and out of the table with the head already moved.\<close>

lemma put_elems:
  assumes "ring_inv r" "unit_esize esize" "unat m \<le> unat (rte_ring_free_count r)" "unat m \<le> length obj"
  shows "rte_ring_enqueue_elems (r\<lparr>r_prod := ht\<rparr>) h obj esize m =
    Some (r\<lparr>r_slots := ring_put (r_slots r) (unat (r_size r)) (unat h) (take (unat m) obj), r_prod := ht\<rparr>)"
proof -
  have "unat m \<le> unat (r_size r)"
    using assms rte_ring_free_count_used [OF assms(1)] ring_capacity_size [of r]
    by (simp add: ring_inv_def)
  with assms show ?thesis
    using rte_ring_enqueue_elems_put [of esize "r\<lparr>r_prod := ht\<rparr>" m obj h]
    by (simp add: ring_inv_def ring_geom_def)
qed

lemma get_elems:
  assumes "ring_inv r" "unit_esize esize" "unat m \<le> unat (rte_ring_count r)" "unat m \<le> length obj"
  shows "rte_ring_dequeue_elems (r\<lparr>r_cons := ht\<rparr>) h obj esize m =
    Some (ring_get (r_slots r) (unat (r_size r)) (unat h) (unat m) @ drop (unat m) obj)"
proof -
  have "unat m \<le> unat (r_size r)"
    using assms rte_ring_count_used [OF assms(1)] ring_capacity_size [of r]
    by (simp add: ring_inv_def)
  with assms show ?thesis
    using rte_ring_dequeue_elems_get [of esize "r\<lparr>r_cons := ht\<rparr>" m obj h]
    by (simp add: ring_inv_def ring_geom_def)
qed

lemma quiescent_head: "quiescent ht \<Longrightarrow> ht_sync_type ht \<noteq> RTE_RING_SYNC_MT_RTS \<Longrightarrow> ht_head ht = ht_tail ht"
  by (auto simp: quiescent_def split: rte_ring_sync_type.splits)

lemma quiescent_rts:
  "quiescent ht \<Longrightarrow> ht_sync_type ht = RTE_RING_SYNC_MT_RTS \<Longrightarrow>
     ht_rts_cnt ht = ht_head ht \<and> ht_rts_pos ht = ht_tail ht"
  by (simp add: quiescent_def)

lemma quiescent_upd:
  "ht_sync_type ht \<noteq> RTE_RING_SYNC_MT_RTS \<Longrightarrow> quiescent (ht\<lparr>ht_head := x, ht_tail := x\<rparr>)"
  "ht_sync_type ht = RTE_RING_SYNC_MT_RTS \<Longrightarrow>
     quiescent (ht\<lparr>ht_rts_cnt := c, ht_rts_pos := p, ht_head := c, ht_tail := p\<rparr>)"
  by (auto simp: quiescent_def split: rte_ring_sync_type.splits)

lemma ring_inv_quiescent: "ring_inv r \<Longrightarrow> quiescent (r_prod r)" "ring_inv r \<Longrightarrow> quiescent (r_cons r)"
  by (simp_all add: ring_inv_def)

lemma rte_ring_do_enqueue_elem_ok:
  assumes "ring_inv r" "unit_esize esize" "ht_sync_type (r_prod r) \<noteq> RTE_RING_SYNC_MT_RTS"
    and m: "m = admit b n (rte_ring_free_count r)" "unat m \<le> length obj"
  shows "\<exists>r'. rte_ring_do_enqueue_elem r obj esize n b sp = Some (m, rte_ring_free_count r - m, r') \<and>
    enqueued r obj m r'"
proof (cases "m = 0")
  case True
  with assms show ?thesis
    by (simp add: rte_ring_do_enqueue_elem_def rte_ring_move_prod_head_def Let_def
        quiescent_head ring_inv_quiescent rte_ring_free_diff)
next
  case False
  let ?h = "ht_tail (r_prod r)"
  have le: "unat m \<le> unat (rte_ring_free_count r)" using m unat_admit_le by simp
  note q = ring_inv_quiescent(1) [OF assms(1)]
  note put = put_elems [OF assms(1,2) le m(2), of "(r_prod r)\<lparr>ht_head := ?h + m\<rparr>" ?h]
  have "rte_ring_do_enqueue_elem r obj esize n b sp =
    Some (m, rte_ring_free_count r - m,
      r\<lparr>r_slots := ring_put (r_slots r) (unat (r_size r)) (unat ?h) (take (unat m) obj),
        r_prod := (r_prod r)\<lparr>ht_head := ?h + m, ht_tail := ?h + m\<rparr>\<rparr>)"
    using False put
    by (simp add: rte_ring_do_enqueue_elem_def rte_ring_move_prod_head_def Let_def cmpset_def
        quiescent_head [OF q assms(3)] rte_ring_free_diff [OF assms(1)] rte_ring_update_tail_def flip: m(1))
  with enqueuedI [OF assms(1) le m(2) quiescent_upd(1) [OF assms(3)]] show ?thesis by simp
qed

lemma rte_ring_do_dequeue_elem_ok:
  assumes "ring_inv r" "unit_esize esize" "ht_sync_type (r_cons r) \<noteq> RTE_RING_SYNC_MT_RTS"
    and m: "m = admit b n (rte_ring_count r)" "unat m \<le> length obj"
  shows "\<exists>obj' r'. rte_ring_do_dequeue_elem r obj esize n b sc = Some (m, obj', rte_ring_count r - m, r') \<and>
    dequeued r obj m obj' r'"
proof (cases "m = 0")
  case True
  with assms show ?thesis
    by (simp add: rte_ring_do_dequeue_elem_def rte_ring_move_cons_head_def Let_def
        quiescent_head ring_inv_quiescent rte_ring_count_diff)
next
  case False
  let ?h = "ht_tail (r_cons r)"
  have le: "unat m \<le> unat (rte_ring_count r)" using m unat_admit_le by simp
  note q = ring_inv_quiescent(2) [OF assms(1)]
  note get = get_elems [OF assms(1,2) le m(2), of "(r_cons r)\<lparr>ht_head := ?h + m\<rparr>" ?h]
  have "rte_ring_do_dequeue_elem r obj esize n b sc =
    Some (m, ring_get (r_slots r) (unat (r_size r)) (unat ?h) (unat m) @ drop (unat m) obj,
      rte_ring_count r - m, r\<lparr>r_cons := (r_cons r)\<lparr>ht_head := ?h + m, ht_tail := ?h + m\<rparr>\<rparr>)"
    using False get
    by (simp add: rte_ring_do_dequeue_elem_def rte_ring_move_cons_head_def Let_def cmpset_def
        quiescent_head [OF q assms(3)] rte_ring_count_diff [OF assms(1)] rte_ring_update_tail_def flip: m(1))
  with dequeuedI [OF assms(1) le quiescent_upd(1) [OF assms(3)]] show ?thesis by simp
qed

lemma rte_ring_do_hts_enqueue_elem_ok:
  assumes "ring_inv r" "unit_esize esize" "ht_sync_type (r_prod r) \<noteq> RTE_RING_SYNC_MT_RTS"
    and m: "m = admit b n (rte_ring_free_count r)" "unat m \<le> length obj"
  shows "\<exists>r'. rte_ring_do_hts_enqueue_elem r obj esize n b = Some (m, rte_ring_free_count r - m, r') \<and>
    enqueued r obj m r'"
proof -
  let ?h = "ht_tail (r_prod r)"
  have le: "unat m \<le> unat (rte_ring_free_count r)" using m unat_admit_le by simp
  note q = quiescent_head [OF ring_inv_quiescent(1) [OF assms(1)] assms(3)]
  note put = put_elems [OF assms(1,2) le m(2), of "(r_prod r)\<lparr>ht_head := ?h + m, ht_tail := ?h\<rparr>" ?h]
  have "rte_ring_do_hts_enqueue_elem r obj esize n b =
    (if m = 0 then Some (m, rte_ring_free_count r - m, r) else
     Some (m, rte_ring_free_count r - m,
      r\<lparr>r_slots := ring_put (r_slots r) (unat (r_size r)) (unat ?h) (take (unat m) obj),
        r_prod := (r_prod r)\<lparr>ht_head := ?h + m, ht_tail := ?h + m\<rparr>\<rparr>))"
    using put
    by (simp add: rte_ring_do_hts_enqueue_elem_def rte_ring_hts_move_prod_head_def rte_ring_hts_head_wait_def
        Let_def cmpset_def q rte_ring_free_diff [OF assms(1)] rte_ring_hts_update_tail_def flip: m(1))
  with enqueuedI [OF assms(1) le m(2) quiescent_upd(1) [OF assms(3)]] assms(1) show ?thesis by auto
qed

lemma rte_ring_do_hts_dequeue_elem_ok:
  assumes "ring_inv r" "unit_esize esize" "ht_sync_type (r_cons r) \<noteq> RTE_RING_SYNC_MT_RTS"
    and m: "m = admit b n (rte_ring_count r)" "unat m \<le> length obj"
  shows "\<exists>obj' r'. rte_ring_do_hts_dequeue_elem r obj esize n b = Some (m, obj', rte_ring_count r - m, r') \<and>
    dequeued r obj m obj' r'"
proof -
  let ?h = "ht_tail (r_cons r)"
  have le: "unat m \<le> unat (rte_ring_count r)" using m unat_admit_le by simp
  note q = quiescent_head [OF ring_inv_quiescent(2) [OF assms(1)] assms(3)]
  note get = get_elems [OF assms(1,2) le m(2), of "(r_cons r)\<lparr>ht_head := ?h + m, ht_tail := ?h\<rparr>" ?h]
  have "rte_ring_do_hts_dequeue_elem r obj esize n b =
    (if m = 0 then Some (m, obj, rte_ring_count r - m, r) else
     Some (m, ring_get (r_slots r) (unat (r_size r)) (unat ?h) (unat m) @ drop (unat m) obj,
      rte_ring_count r - m, r\<lparr>r_cons := (r_cons r)\<lparr>ht_head := ?h + m, ht_tail := ?h + m\<rparr>\<rparr>))"
    using get
    by (simp add: rte_ring_do_hts_dequeue_elem_def rte_ring_hts_move_cons_head_def rte_ring_hts_head_wait_def
        Let_def cmpset_def q rte_ring_count_diff [OF assms(1)] rte_ring_hts_update_tail_def flip: m(1))
  with dequeuedI [OF assms(1) le quiescent_upd(1) [OF assms(3)]] assms(1) show ?thesis by auto
qed

lemma rte_ring_do_rts_enqueue_elem_ok:
  assumes "ring_inv r" "unit_esize esize" "ht_sync_type (r_prod r) = RTE_RING_SYNC_MT_RTS"
    and m: "m = admit b n (rte_ring_free_count r)" "unat m \<le> length obj"
  shows "\<exists>r'. rte_ring_do_rts_enqueue_elem r obj esize n b = Some (m, rte_ring_free_count r - m, r') \<and>
    enqueued r obj m r'"
proof -
  let ?h = "ht_tail (r_prod r)" and ?c = "ht_head (r_prod r)"
  have le: "unat m \<le> unat (rte_ring_free_count r)" using m unat_admit_le by simp
  note q = quiescent_rts [OF ring_inv_quiescent(1) [OF assms(1)] assms(3)]
  note put = put_elems [OF assms(1,2) le m(2), of "(r_prod r)\<lparr>ht_rts_cnt := ?c + 1, ht_rts_pos := ?h + m\<rparr>" ?h]
  have "rte_ring_do_rts_enqueue_elem r obj esize n b =
    (if m = 0 then Some (m, rte_ring_free_count r - m, r) else
     Some (m, rte_ring_free_count r - m,
      r\<lparr>r_slots := ring_put (r_slots r) (unat (r_size r)) (unat ?h) (take (unat m) obj),
        r_prod := (r_prod r)\<lparr>ht_rts_cnt := ?c + 1, ht_rts_pos := ?h + m, ht_head := ?c + 1, ht_tail := ?h + m\<rparr>\<rparr>))"
    using put
    by (simp add: rte_ring_do_rts_enqueue_elem_def rte_ring_rts_move_prod_head_def rte_ring_rts_head_wait_def
        Let_def cmpset_def q rte_ring_free_diff [OF assms(1)] rte_ring_rts_update_tail_def flip: m(1))
  with enqueuedI [OF assms(1) le m(2) quiescent_upd(2) [OF assms(3)]] assms(1) show ?thesis by auto
qed

lemma rte_ring_do_rts_dequeue_elem_ok:
  assumes "ring_inv r" "unit_esize esize" "ht_sync_type (r_cons r) = RTE_RING_SYNC_MT_RTS"
    and m: "m = admit b n (rte_ring_count r)" "unat m \<le> length obj"
  shows "\<exists>obj' r'. rte_ring_do_rts_dequeue_elem r obj esize n b = Some (m, obj', rte_ring_count r - m, r') \<and>
    dequeued r obj m obj' r'"
proof -
  let ?h = "ht_tail (r_cons r)" and ?c = "ht_head (r_cons r)"
  have le: "unat m \<le> unat (rte_ring_count r)" using m unat_admit_le by simp
  note q = quiescent_rts [OF ring_inv_quiescent(2) [OF assms(1)] assms(3)]
  note get = get_elems [OF assms(1,2) le m(2), of "(r_cons r)\<lparr>ht_rts_cnt := ?c + 1, ht_rts_pos := ?h + m\<rparr>" ?h]
  have "rte_ring_do_rts_dequeue_elem r obj esize n b =
    (if m = 0 then Some (m, obj, rte_ring_count r - m, r) else
     Some (m, ring_get (r_slots r) (unat (r_size r)) (unat ?h) (unat m) @ drop (unat m) obj,
      rte_ring_count r - m,
      r\<lparr>r_cons := (r_cons r)\<lparr>ht_rts_cnt := ?c + 1, ht_rts_pos := ?h + m, ht_head := ?c + 1, ht_tail := ?h + m\<rparr>\<rparr>))"
    using get
    by (simp add: rte_ring_do_rts_dequeue_elem_def rte_ring_rts_move_cons_head_def rte_ring_rts_head_wait_def
        Let_def cmpset_def q rte_ring_count_diff [OF assms(1)] rte_ring_rts_update_tail_def flip: m(1))
  with dequeuedI [OF assms(1) le quiescent_upd(2) [OF assms(3)]] assms(1) show ?thesis by auto
qed

end
