(* ===== verification/Ring_Concurrent.thy ===== *)
theory Ring_Concurrent
  imports Ring_Queue
begin

text \<open>
  The multi-producer, multi-consumer mode of a ring with several threads in it
  (\<open>rte_ring_generic_pvt.h\<close>, \<open>rte_ring_elem_pvt.h\<close>): each load of an index, compare-and-set,
  copy of one element and store of a tail is a step of its own, and the steps of all threads
  interleave in any order. The elements are of a size with one unit per element; memory is
  sequentially consistent, which the barriers of the source (none is needed on x86) provide.
\<close>

section \<open>A thread\<close>

text \<open>
  Where a thread is in an enqueue of the first \<open>n\<close> of \<open>objs\<close> or a dequeue of \<open>n\<close> into
  \<open>tbl\<close>, with its local variables; in the code the number \<open>n\<close> that is moved overwrites the
  request, here it is \<open>m\<close>. \<open>E_Ret\<close> and \<open>D_Ret\<close> hold the results.
\<close>

datatype 'a ring_pc =
    R_Idle
  | E_Head "'a list" u32 rte_ring_queue_behavior
  | E_Tail "'a list" u32 rte_ring_queue_behavior u32
  | E_Cas "'a list" u32 rte_ring_queue_behavior u32 u32 u32
  | E_Copy "'a list" u32 u32 u32 u32
  | E_Wait "'a list" u32 u32 u32
  | E_Ret u32 u32
  | D_Head "'a list" u32 rte_ring_queue_behavior
  | D_Tail "'a list" u32 rte_ring_queue_behavior u32
  | D_Cas "'a list" u32 rte_ring_queue_behavior u32 u32 u32
  | D_Copy "'a list" u32 u32 u32 u32
  | D_Wait "'a list" u32 u32 u32
  | D_Ret "'a list" u32 u32

text \<open>
  The next step of a thread; \<open>None\<close> if it is outside an operation, has to wait for the tail,
  or would leave the arrays.
\<close>

definition ring_next :: "'a rte_ring \<Rightarrow> 'a ring_pc \<Rightarrow> ('a rte_ring \<times> 'a ring_pc) option" where
  "ring_next r pc =
     (case pc of
        E_Head objs n beh \<Rightarrow> Some (r, E_Tail objs n beh (ht_head (r_prod r)))
      | E_Tail objs n beh old_head \<Rightarrow>
          let free_entries = r_capacity r + ht_tail (r_cons r) - old_head; m = admit beh n free_entries
          in Some (r, if m = 0 then E_Ret 0 free_entries else E_Cas objs n beh old_head free_entries m)
      | E_Cas objs n beh old_head free_entries m \<Rightarrow>
          (case cmpset (ht_head (r_prod r)) old_head (old_head + m) of
             None \<Rightarrow> Some (r, E_Head objs n beh)
           | Some h \<Rightarrow> Some (r\<lparr>r_prod := (r_prod r)\<lparr>ht_head := h\<rparr>\<rparr>, E_Copy objs old_head free_entries m 0))
      | E_Copy objs old_head free_entries m i \<Rightarrow>
          do { slots \<leftarrow> cp (r_slots r) ((old_head + i) AND r_mask r) objs i;
               Some (r\<lparr>r_slots := slots\<rparr>,
                 if i + 1 = m then E_Wait objs old_head free_entries m else E_Copy objs old_head free_entries m (i + 1)) }
      | E_Wait objs old_head free_entries m \<Rightarrow>
          do { ht \<leftarrow> rte_ring_update_tail (r_prod r) old_head (old_head + m) False;
               Some (r\<lparr>r_prod := ht\<rparr>, E_Ret m (free_entries - m)) }
      | D_Head tbl n beh \<Rightarrow> Some (r, D_Tail tbl n beh (ht_head (r_cons r)))
      | D_Tail tbl n beh old_head \<Rightarrow>
          let entries = ht_tail (r_prod r) - old_head; m = admit beh n entries
          in Some (r, if m = 0 then D_Ret tbl 0 entries else D_Cas tbl n beh old_head entries m)
      | D_Cas tbl n beh old_head entries m \<Rightarrow>
          (case cmpset (ht_head (r_cons r)) old_head (old_head + m) of
             None \<Rightarrow> Some (r, D_Head tbl n beh)
           | Some h \<Rightarrow> Some (r\<lparr>r_cons := (r_cons r)\<lparr>ht_head := h\<rparr>\<rparr>, D_Copy tbl old_head entries m 0))
      | D_Copy tbl old_head entries m i \<Rightarrow>
          do { tbl \<leftarrow> cp tbl i (r_slots r) ((old_head + i) AND r_mask r);
               Some (r, if i + 1 = m then D_Wait tbl old_head entries m else D_Copy tbl old_head entries m (i + 1)) }
      | D_Wait tbl old_head entries m \<Rightarrow>
          do { ht \<leftarrow> rte_ring_update_tail (r_cons r) old_head (old_head + m) False;
               Some (r\<lparr>r_cons := ht\<rparr>, D_Ret tbl m (entries - m)) }
      | _ \<Rightarrow> None)"

section \<open>All threads\<close>

text \<open>
  Beside the ring and the threads, a state has the history of the run: what the tails have
  made visible (\<open>rs_put\<close>) and handed out (\<open>rs_got\<close>), how many elements the heads have been
  moved by since the start (\<open>rs_ph\<close>, \<open>rs_ch\<close>), and this number when a thread last loaded a head
  (\<open>rs_seen\<close>).
\<close>

record 'a ring_sys =
  rs_ring :: "'a rte_ring"
  rs_pc :: "nat \<Rightarrow> 'a ring_pc"
  rs_put :: "'a list"
  rs_got :: "'a list"
  rs_ph :: nat
  rs_ch :: nat
  rs_seen :: "nat \<Rightarrow> nat"

definition note_step :: "nat \<Rightarrow> 'a ring_pc \<Rightarrow> 'a ring_pc \<Rightarrow> 'a ring_sys \<Rightarrow> 'a ring_sys" where
  "note_step t pc pc' s =
     (case pc of
        E_Head _ _ _ \<Rightarrow> s\<lparr>rs_seen := (rs_seen s)(t := rs_ph s)\<rparr>
      | D_Head _ _ _ \<Rightarrow> s\<lparr>rs_seen := (rs_seen s)(t := rs_ch s)\<rparr>
      | E_Cas _ _ _ _ _ m \<Rightarrow> (case pc' of E_Copy _ _ _ _ _ \<Rightarrow> s\<lparr>rs_ph := rs_ph s + unat m\<rparr> | _ \<Rightarrow> s)
      | D_Cas _ _ _ _ _ m \<Rightarrow> (case pc' of D_Copy _ _ _ _ _ \<Rightarrow> s\<lparr>rs_ch := rs_ch s + unat m\<rparr> | _ \<Rightarrow> s)
      | E_Wait objs _ _ m \<Rightarrow> s\<lparr>rs_put := rs_put s @ take (unat m) objs\<rparr>
      | D_Wait tbl _ _ m \<Rightarrow> s\<lparr>rs_got := rs_got s @ take (unat m) tbl\<rparr>
      | _ \<Rightarrow> s)"

text \<open>A thread outside an operation may call one, with arrays of the size it says.\<close>

definition is_outside :: "'a ring_pc \<Rightarrow> bool" where
  "is_outside pc \<longleftrightarrow> (case pc of R_Idle \<Rightarrow> True | E_Ret _ _ \<Rightarrow> True | D_Ret _ _ _ \<Rightarrow> True | _ \<Rightarrow> False)"

definition is_call :: "'a ring_pc \<Rightarrow> bool" where
  "is_call pc \<longleftrightarrow>
     (case pc of E_Head objs n _ \<Rightarrow> unat n \<le> length objs | D_Head tbl n _ \<Rightarrow> unat n \<le> length tbl | _ \<Rightarrow> False)"

inductive ring_step :: "'a ring_sys \<Rightarrow> 'a ring_sys \<Rightarrow> bool" where
  call: "is_outside (rs_pc s t) \<Longrightarrow> is_call pc \<Longrightarrow> ring_step s (s\<lparr>rs_pc := (rs_pc s)(t := pc)\<rparr>)"
| step: "ring_next (rs_ring s) (rs_pc s t) = Some (r, pc) \<Longrightarrow>
    ring_step s ((note_step t (rs_pc s t) pc s)\<lparr>rs_ring := r, rs_pc := (rs_pc s)(t := pc)\<rparr>)"

inductive_cases ring_stepE: "ring_step s s'"

text \<open>
  A head is a 32-bit counter, and the compare-and-set cannot tell a head from the one
  \<open>2 ^ 32\<close> elements later. No thread sleeps for so long between loading a head and moving it.
\<close>

definition no_stall :: "'a ring_sys \<Rightarrow> bool" where
  "no_stall s \<longleftrightarrow> (\<forall>t. case rs_pc s t of
      E_Cas _ _ _ _ _ _ \<Rightarrow> rs_ph s - rs_seen s t < 2 ^ 32
    | D_Cas _ _ _ _ _ _ \<Rightarrow> rs_ch s - rs_seen s t < 2 ^ 32
    | _ \<Rightarrow> True)"

inductive ring_run :: "'a ring_sys \<Rightarrow> 'a ring_sys \<Rightarrow> bool" where
  start: "ring_run s s"
| more: "ring_run s s' \<Longrightarrow> no_stall s' \<Longrightarrow> ring_step s' s'' \<Longrightarrow> ring_run s s''"

text \<open>All threads outside, on a ring that need not be empty.\<close>

definition ring_sys_init :: "'a rte_ring \<Rightarrow> 'a ring_sys" where
  "ring_sys_init r = \<lparr>rs_ring = r, rs_pc = (\<lambda>_. R_Idle), rs_put = [], rs_got = [],
     rs_ph = ring_used r, rs_ch = 0, rs_seen = (\<lambda>_. 0)\<rparr>"

section \<open>Ranges owned by threads\<close>

text \<open>
  The elements between a tail and the head belong to the threads that have reserved them,
  each to exactly one.
\<close>

definition owned :: "nat \<Rightarrow> nat \<Rightarrow> ('t \<Rightarrow> nat set) \<Rightarrow> bool" where
  "owned lo hi R \<longleftrightarrow> (\<forall>t. R t \<subseteq> {lo..<hi}) \<and> (\<forall>i \<in> {lo..<hi}. \<exists>!t. i \<in> R t)"

lemma owned_subset: "owned lo hi R \<Longrightarrow> R t \<subseteq> {lo..<hi}"
  by (simp add: owned_def)

lemma owned_unique: "owned lo hi R \<Longrightarrow> i \<in> R t \<Longrightarrow> i \<in> R u \<Longrightarrow> t = u"
  unfolding owned_def by blast

lemma ownedI:
  assumes "\<And>t. R t \<subseteq> {lo..<hi}" "\<And>i. lo \<le> i \<Longrightarrow> i < hi \<Longrightarrow> \<exists>t. i \<in> R t"
    and "\<And>i t u. i \<in> R t \<Longrightarrow> i \<in> R u \<Longrightarrow> t = u"
  shows "owned lo hi R"
  unfolding owned_def using assms by (intro conjI allI ballI) (simp, metis atLeastLessThan_iff)

lemma owned_some: "owned lo hi R \<Longrightarrow> lo \<le> i \<Longrightarrow> i < hi \<Longrightarrow> \<exists>t. i \<in> R t"
  unfolding owned_def by (meson atLeastLessThan_iff)

lemma owned_bounds: "owned lo hi R \<Longrightarrow> i \<in> R t \<Longrightarrow> lo \<le> i \<and> i < hi"
  using owned_subset [of lo hi R t] by auto

lemma owned_new:
  assumes "owned lo hi R" "R t = {}" "lo \<le> hi"
  shows "owned lo (hi + n) (R(t := {hi..<hi + n}))"
proof (rule ownedI)
  let ?R = "R(t := {hi..<hi + n})"
  have R: "i \<in> ?R u \<longleftrightarrow> (if u = t then hi \<le> i \<and> i < hi + n else i \<in> R u)" for i u by simp
  show "?R u \<subseteq> {lo..<hi + n}" for u
    using owned_subset [OF assms(1), of u] assms(3) by (cases "u = t") auto
  show "\<exists>u. i \<in> ?R u" if "lo \<le> i" "i < hi + n" for i
  proof (cases "i < hi")
    case True
    with owned_some [OF assms(1) that(1)] obtain u where "i \<in> R u" by blast
    with assms(2) show ?thesis by (metis R empty_iff)
  next
    case False
    with that R [of i t] show ?thesis by (intro exI [of _ t]) simp
  qed
  show "u = v" if "i \<in> ?R u" "i \<in> ?R v" for i u v
  proof (cases "i < hi")
    case True
    with that R have "i \<in> R u" "i \<in> R v" by (metis leD)+
    with owned_unique [OF assms(1)] show ?thesis by blast
  next
    case False
    with owned_bounds [OF assms(1)] have "i \<notin> R w" for w by blast
    with that R show ?thesis by metis
  qed
qed

lemma owned_drop:
  assumes "owned lo hi R" "R t = {lo..<lo + n}"
  shows "owned (lo + n) hi (R(t := {}))"
proof (rule ownedI)
  have R: "i \<in> (R(t := {})) u \<longleftrightarrow> u \<noteq> t \<and> i \<in> R u" for i u by simp
  show "(R(t := {})) u \<subseteq> {lo + n..<hi}" for u
  proof
    fix i assume "i \<in> (R(t := {})) u"
    then have "u \<noteq> t \<and> i \<in> R u" by (rule R [THEN iffD1])
    then have i: "u \<noteq> t" "i \<in> R u" by simp_all
    then have "i \<notin> R t" using owned_unique [OF assms(1)] by blast
    with assms(2) owned_bounds [OF assms(1) i(2)] show "i \<in> {lo + n..<hi}" by auto
  qed
  show "\<exists>u. i \<in> (R(t := {})) u" if i: "lo + n \<le> i" "i < hi" for i
  proof -
    have "i \<notin> R t" using assms(2) i by simp
    moreover obtain u where "i \<in> R u" using owned_some [OF assms(1), of i] i by auto
    ultimately show ?thesis by (metis R)
  qed
  show "u = v" if "i \<in> (R(t := {})) u" "i \<in> (R(t := {})) v" for i u v
    using that owned_unique [OF assms(1)] by (simp only: R) blast
qed

lemma owned_same: "owned lo hi R \<Longrightarrow> (\<And>t. R' t = R t) \<Longrightarrow> owned lo hi R'"
  by (simp add: owned_def)

section \<open>One thread alone\<close>

text \<open>
  With no other thread in the ring the steps of a thread are the operation of
  \<open>Ring_Queue\<close>.
\<close>

primrec ring_solo :: "nat \<Rightarrow> 'a rte_ring \<times> 'a ring_pc \<Rightarrow> ('a rte_ring \<times> 'a ring_pc) option" where
  "ring_solo 0 x = Some x"
| "ring_solo (Suc k) x = Option.bind (ring_next (fst x) (snd x)) (ring_solo k)"

lemma ring_solo_add: "ring_solo (j + k) x = Option.bind (ring_solo j x) (ring_solo k)"
proof (induction j arbitrary: x)
  case (Suc j)
  then show ?case by (cases "ring_next (fst x) (snd x)") simp_all
qed simp

end
