(* ===== verification/Ring_Interleaving.thy ===== *)
theory Ring_Interleaving
  imports Ring_Concurrent
begin

text \<open>
  What holds of a ring under every interleaving of its threads: the invariant that relates
  the 32-bit indices to the numbers of elements moved since the start, the reservations of
  the threads and the contents of the table, and its preservation by each step.
\<close>

section \<open>Indices\<close>

text \<open>The index of element \<open>i\<close>, counted from the start, and its place in the table.\<close>

abbreviation pos :: "u32 \<Rightarrow> nat \<Rightarrow> u32" where "pos b i \<equiv> b + of_nat i"

definition place :: "'a rte_ring \<Rightarrow> u32 \<Rightarrow> nat \<Rightarrow> nat" where
  "place r b i = (unat b + i) mod unat (r_size r)"

lemma pos_add: "pos b i + of_nat j = pos b (i + j)"
  by (simp add: ac_simps)

lemma pos_plus_word: "pos b i + m = pos b (i + unat m)" for m :: u32
  by (simp add: ac_simps)

lemma pos_diff: "i \<le> j \<Longrightarrow> pos b j - pos b i = of_nat (j - i)"
  by (simp add: of_nat_diff)

lemma LENGTH_u32: "LENGTH(32) = 32" by simp

lemma pos_eq:
  assumes "pos b i = pos b j" "i \<le> j" "j - i < 2 ^ 32"
  shows "i = j"
proof -
  have "(of_nat (j - i) :: u32) = 0" using pos_diff [OF assms(2), of b] assms(1) by simp
  then have "(j - i) mod 2 ^ 32 = 0" by (metis unat_0 unat_of_nat LENGTH_u32)
  with assms(2,3) show ?thesis by simp
qed

lemma unat_pos_mask:
  assumes "ring_geom r"
  shows "unat (pos b i AND r_mask r) = place r b i"
proof -
  from assms obtain k where k: "k < 32" "unat (r_size r) = 2 ^ k" by (rule ring_geomE)
  have "pos b i = of_nat (unat b + i)" by simp
  then have "unat (pos b i) = (unat b + i) mod 2 ^ 32" by (metis unat_of_nat LENGTH_u32)
  then have "unat (pos b i) mod 2 ^ k = (unat b + i) mod 2 ^ k"
    using k(1) by (simp add: mod_add_pow2_dvd [of k 32, simplified])
  then show ?thesis using k ring_index [OF assms] by (simp add: place_def)
qed

lemma place_less: "ring_geom r \<Longrightarrow> place r b i < length (r_slots r)"
  by (metis ring_geom_slots place_def mod_less_divisor order_less_le_trans ring_geom_def unat_gt_0)

lemma place_inj:
  assumes "place r b i = place r b j" "i \<le> j" "j - i < unat (r_size r)"
  shows "i = j"
  using mod_shift_inj [of "unat b + i" 0 "unat (r_size r)" "j - i"] assms
  by (simp add: place_def)

section \<open>The invariant of the ring\<close>

text \<open>
  \<open>A\<close> are the elements made visible since the start, those at the start included; \<open>ph\<close>,
  \<open>ch\<close> and \<open>ct\<close> count the elements up to the producers' head, the consumers' head and the
  consumers' tail. The first part of the invariant is about the ring, the second one about
  a thread that has loaded a head when it stood at \<open>k\<close>.
\<close>

definition ring_ok :: "u32 \<Rightarrow> nat \<Rightarrow> 'a list \<Rightarrow> nat \<Rightarrow> nat \<Rightarrow> 'a rte_ring \<Rightarrow> bool" where
  "ring_ok b ph A ch ct r \<longleftrightarrow> ring_geom r
     \<and> ht_head (r_prod r) = pos b ph \<and> ht_tail (r_prod r) = pos b (length A)
     \<and> ht_head (r_cons r) = pos b ch \<and> ht_tail (r_cons r) = pos b ct
     \<and> ct \<le> ch \<and> ch \<le> length A \<and> length A \<le> ph \<and> ph \<le> ct + unat (r_capacity r)
     \<and> (\<forall>i. ct \<le> i \<longrightarrow> i < length A \<longrightarrow> r_slots r ! place r b i = A ! i)"

definition reserved_put :: "u32 \<Rightarrow> nat \<Rightarrow> nat \<Rightarrow> 'a rte_ring \<Rightarrow> nat \<Rightarrow> 'a list \<Rightarrow> u32 \<Rightarrow> u32 \<Rightarrow> u32 \<Rightarrow> bool" where
  "reserved_put b pt ph r k objs old_head m i \<longleftrightarrow>
     old_head = pos b k \<and> pt \<le> k \<and> k + unat m \<le> ph \<and> m \<noteq> 0 \<and> unat m \<le> length objs
     \<and> (\<forall>j < unat i. r_slots r ! place r b (k + j) = objs ! j)"

definition reserved_get :: "u32 \<Rightarrow> nat \<Rightarrow> nat \<Rightarrow> 'a list \<Rightarrow> nat \<Rightarrow> 'a list \<Rightarrow> u32 \<Rightarrow> u32 \<Rightarrow> u32 \<Rightarrow> bool" where
  "reserved_get b ct ch A k tbl old_head m i \<longleftrightarrow>
     old_head = pos b k \<and> ct \<le> k \<and> k + unat m \<le> ch \<and> m \<noteq> 0 \<and> unat m \<le> length tbl
     \<and> (\<forall>j < unat i. tbl ! j = A ! (k + j))"

definition thread_ok :: "u32 \<Rightarrow> nat \<Rightarrow> 'a list \<Rightarrow> nat \<Rightarrow> nat \<Rightarrow> 'a rte_ring \<Rightarrow> 'a ring_pc \<Rightarrow> nat \<Rightarrow> bool" where
  "thread_ok b ph A ch ct r pc k \<longleftrightarrow>
     (case pc of
        E_Head objs n beh \<Rightarrow> unat n \<le> length objs
      | E_Tail objs n beh old_head \<Rightarrow> unat n \<le> length objs \<and> old_head = pos b k \<and> k \<le> ph
      | E_Cas objs n beh old_head free_entries m \<Rightarrow>
          unat n \<le> length objs \<and> m \<noteq> 0 \<and> m \<le> n \<and> m \<le> free_entries \<and> old_head = pos b k \<and> k \<le> ph
          \<and> (\<exists>c \<le> ct. k \<le> c + unat (r_capacity r) \<and> free_entries = r_capacity r + pos b c - old_head)
      | E_Copy objs old_head free_entries m i \<Rightarrow> i < m \<and> reserved_put b (length A) ph r k objs old_head m i
      | E_Wait objs old_head free_entries m \<Rightarrow> reserved_put b (length A) ph r k objs old_head m m
      | D_Head tbl n beh \<Rightarrow> unat n \<le> length tbl
      | D_Tail tbl n beh old_head \<Rightarrow> unat n \<le> length tbl \<and> old_head = pos b k \<and> k \<le> ch
      | D_Cas tbl n beh old_head entries m \<Rightarrow>
          unat n \<le> length tbl \<and> m \<noteq> 0 \<and> m \<le> n \<and> m \<le> entries \<and> old_head = pos b k \<and> k \<le> ch
          \<and> (\<exists>p \<le> length A. k \<le> p \<and> entries = pos b p - old_head)
      | D_Copy tbl old_head entries m i \<Rightarrow> i < m \<and> reserved_get b ct ch A k tbl old_head m i
      | D_Wait tbl old_head entries m \<Rightarrow> reserved_get b ct ch A k tbl old_head m m
      | _ \<Rightarrow> True)"

text \<open>The elements a thread has reserved.\<close>

definition put_range :: "'a ring_pc \<Rightarrow> nat \<Rightarrow> nat set" where
  "put_range pc k = (case pc of E_Copy _ _ _ m _ \<Rightarrow> {k..<k + unat m} | E_Wait _ _ _ m \<Rightarrow> {k..<k + unat m} | _ \<Rightarrow> {})"

definition get_range :: "'a ring_pc \<Rightarrow> nat \<Rightarrow> nat set" where
  "get_range pc k = (case pc of D_Copy _ _ _ m _ \<Rightarrow> {k..<k + unat m} | D_Wait _ _ _ m \<Rightarrow> {k..<k + unat m} | _ \<Rightarrow> {})"

definition visible :: "'a list \<Rightarrow> 'a ring_sys \<Rightarrow> 'a list" where "visible A0 s = A0 @ rs_put s"

definition sys_ok :: "u32 \<Rightarrow> 'a list \<Rightarrow> 'a ring_sys \<Rightarrow> bool" where
  "sys_ok b A0 s \<longleftrightarrow>
     (let A = visible A0 s; ct = length (rs_got s)
      in ring_ok b (rs_ph s) A (rs_ch s) ct (rs_ring s) \<and> rs_got s = take ct A
         \<and> (\<forall>t. thread_ok b (rs_ph s) A (rs_ch s) ct (rs_ring s) (rs_pc s t) (rs_seen s t))
         \<and> owned (length A) (rs_ph s) (\<lambda>t. put_range (rs_pc s t) (rs_seen s t))
         \<and> owned ct (rs_ch s) (\<lambda>t. get_range (rs_pc s t) (rs_seen s t)))"

text \<open>A thread is not disturbed by others as long as they do not pass its reservation.\<close>

lemma thread_ok_mono:
  assumes "thread_ok b ph A ch ct r pc k"
    and "ph \<le> ph'" "ch \<le> ch'" "ct \<le> ct'"  "\<exists>B. A' = A @ B" "r_capacity r' = r_capacity r" "r_size r' = r_size r"
    and "\<And>i. i \<in> put_range pc k \<Longrightarrow> r_slots r' ! place r b i = r_slots r ! place r b i"
    and "\<And>i. i \<in> put_range pc k \<Longrightarrow> length A' \<le> i" "\<And>i. i \<in> get_range pc k \<Longrightarrow> ct' \<le> i"
    and "ch \<le> length A"
  shows "thread_ok b ph' A' ch' ct' r' pc k"
proof -
  have A: "length A \<le> length A'" using assms(5) by auto
  have nth: "A' ! i = A ! i" if "i < length A" for i using assms(5) that by (auto simp: nth_append)
  have place: "place r' b i = place r b i" for i by (simp add: place_def assms(7))
  have pos: "0 < unat m" if "m \<noteq> 0" for m :: u32 using that by (simp add: unat_gt_0)
  have put: "reserved_put b (length A') ph' r' k objs old_head m i"
    if p: "reserved_put b (length A) ph r k objs old_head m i" and i: "i \<le> m" and R: "put_range pc k = {k..<k + unat m}"
    for objs old_head m i
  proof -
    from p pos have "k \<in> put_range pc k" by (auto simp: R reserved_put_def)
    then have "length A' \<le> k" by (rule assms(9))
    moreover have "r_slots r' ! place r' b (k + j) = r_slots r ! place r b (k + j)" if "j < unat i" for j
      unfolding place by (rule assms(8)) (use that i in \<open>simp add: R word_le_nat_alt\<close>)
    ultimately show ?thesis using p assms(2) by (simp add: reserved_put_def)
  qed
  have get: "reserved_get b ct' ch' A' k tbl old_head m i"
    if p: "reserved_get b ct ch A k tbl old_head m i" and i: "i \<le> m" and R: "get_range pc k = {k..<k + unat m}"
    for tbl old_head m i
  proof -
    from p pos have "k \<in> get_range pc k" by (auto simp: R reserved_get_def)
    then have "ct' \<le> k" by (rule assms(10))
    moreover have "A' ! (k + j) = A ! (k + j)" if "j < unat i" for j
      by (rule nth) (use that i p assms(11) in \<open>simp add: reserved_get_def word_le_nat_alt\<close>)
    ultimately show ?thesis using p assms(3) by (simp add: reserved_get_def)
  qed
  show ?thesis
  proof (cases pc)
    case (E_Cas objs n beh old_head free_entries m)
    with assms(1) obtain c where "c \<le> ct" "k \<le> c + unat (r_capacity r)" "free_entries = r_capacity r + pos b c - old_head"
      by (auto simp: thread_ok_def)
    moreover from this(1) assms(4) have "c \<le> ct'" by linarith
    ultimately show ?thesis using assms(1,2,6) E_Cas by (auto simp: thread_ok_def)
  next
    case (D_Cas tbl n beh old_head entries m)
    with assms(1) obtain p where "p \<le> length A" "k \<le> p" "entries = pos b p - old_head"
      by (auto simp: thread_ok_def)
    moreover from this(1) A have "p \<le> length A'" by linarith
    ultimately show ?thesis using assms(1,3) D_Cas by (auto simp: thread_ok_def)
  next
    case (E_Copy objs old_head free_entries m i)
    with assms(1) put [of objs old_head m i] show ?thesis
      by (simp add: thread_ok_def put_range_def order.strict_implies_order)
  next
    case (E_Wait objs old_head free_entries m)
    with assms(1) put [of objs old_head m m] show ?thesis by (simp add: thread_ok_def put_range_def)
  next
    case (D_Copy objs old_head free_entries m i)
    with assms(1) get [of objs old_head m i] show ?thesis
      by (simp add: thread_ok_def get_range_def order.strict_implies_order)
  next
    case (D_Wait objs old_head free_entries m)
    with assms(1) get [of objs old_head m m] show ?thesis by (simp add: thread_ok_def get_range_def)
  next
    case (E_Tail objs n beh old_head)
    with assms(1,2) show ?thesis by (simp add: thread_ok_def)
  next
    case (D_Tail tbl n beh old_head)
    with assms(1,3) show ?thesis by (simp add: thread_ok_def)
  qed (use assms(1) in \<open>simp_all add: thread_ok_def\<close>)
qed

section \<open>Preservation\<close>

abbreviation thread_inv :: "u32 \<Rightarrow> 'a list \<Rightarrow> 'a ring_sys \<Rightarrow> nat \<Rightarrow> bool" where
  "thread_inv b A0 s t \<equiv>
     thread_ok b (rs_ph s) (visible A0 s) (rs_ch s) (length (rs_got s)) (rs_ring s) (rs_pc s t) (rs_seen s t)"

abbreviation ring_inv_at :: "u32 \<Rightarrow> 'a list \<Rightarrow> 'a ring_sys \<Rightarrow> bool" where
  "ring_inv_at b A0 s \<equiv>
     ring_ok b (rs_ph s) (visible A0 s) (rs_ch s) (length (rs_got s)) (rs_ring s)
     \<and> rs_got s = take (length (rs_got s)) (visible A0 s)"

abbreviation puts :: "'a ring_sys \<Rightarrow> nat \<Rightarrow> nat set" where "puts s \<equiv> \<lambda>t. put_range (rs_pc s t) (rs_seen s t)"
abbreviation gets :: "'a ring_sys \<Rightarrow> nat \<Rightarrow> nat set" where "gets s \<equiv> \<lambda>t. get_range (rs_pc s t) (rs_seen s t)"

lemma sys_okD:
  assumes "sys_ok b A0 s"
  shows "ring_inv_at b A0 s" "thread_inv b A0 s t"
    "owned (length (visible A0 s)) (rs_ph s) (puts s)" "owned (length (rs_got s)) (rs_ch s) (gets s)"
  using assms by (simp_all add: sys_ok_def Let_def)

text \<open>
  A step of thread \<open>t\<close> keeps the invariant if it keeps the invariant of the ring and its own,
  passes no reservation and writes to no element another thread has reserved.
\<close>

lemma sys_ok_step:
  assumes ok: "sys_ok b A0 s"
    and other: "\<And>u. u \<noteq> t \<Longrightarrow> rs_pc s' u = rs_pc s u \<and> rs_seen s' u = rs_seen s u"
    and hist: "\<exists>B. rs_put s' = rs_put s @ B" "length (rs_got s) \<le> length (rs_got s')" "rs_ph s \<le> rs_ph s'" "rs_ch s \<le> rs_ch s'"
    and geo: "r_capacity (rs_ring s') = r_capacity (rs_ring s)" "r_size (rs_ring s') = r_size (rs_ring s)"
    and slots: "\<And>u i. u \<noteq> t \<Longrightarrow> i \<in> puts s u \<Longrightarrow>
      r_slots (rs_ring s') ! place (rs_ring s) b i = r_slots (rs_ring s) ! place (rs_ring s) b i"
    and ring: "ring_inv_at b A0 s'" and thread: "thread_inv b A0 s' t"
    and puts: "owned (length (visible A0 s')) (rs_ph s') ((puts s)(t := puts s' t))"
    and gets: "owned (length (rs_got s')) (rs_ch s') ((gets s)(t := gets s' t))"
  shows "sys_ok b A0 s'"
proof -
  have p: "(puts s)(t := puts s' t) = puts s'" and g: "(gets s)(t := gets s' t) = gets s'"
    using other by (auto simp: fun_eq_iff)
  from sys_okD(1) [OF ok] have ch: "rs_ch s \<le> length (visible A0 s)" by (simp add: ring_ok_def)
  have "thread_inv b A0 s' u" for u
  proof (cases "u = t")
    case True
    with thread show ?thesis by simp
  next
    case False
    have "thread_ok b (rs_ph s') (visible A0 s') (rs_ch s') (length (rs_got s')) (rs_ring s') (rs_pc s u) (rs_seen s u)"
    proof (rule thread_ok_mono [OF sys_okD(2) [OF ok] hist(3,4,2) _ geo _ _ _ ch])
      show "\<exists>B. visible A0 s' = visible A0 s @ B" using hist(1) by (auto simp: visible_def)
      show "r_slots (rs_ring s') ! place (rs_ring s) b i = r_slots (rs_ring s) ! place (rs_ring s) b i"
        if "i \<in> puts s u" for i by (rule slots [OF False that])
      show "length (visible A0 s') \<le> i" if "i \<in> puts s u" for i
        using owned_bounds [OF puts, of i u] that False by simp
      show "length (rs_got s') \<le> i" if "i \<in> gets s u" for i
        using owned_bounds [OF gets, of i u] that False by simp
    qed
    with other [OF False] show ?thesis by simp
  qed
  with ring puts gets show ?thesis by (simp add: sys_ok_def p g Let_def)
qed

text \<open>Most steps only change the thread's own variables.\<close>

lemma sys_ok_local:
  assumes ok: "sys_ok b A0 s"
    and other: "\<And>u. u \<noteq> t \<Longrightarrow> rs_pc s' u = rs_pc s u \<and> rs_seen s' u = rs_seen s u"
    and same: "rs_put s' = rs_put s" "rs_got s' = rs_got s" "rs_ph s' = rs_ph s" "rs_ch s' = rs_ch s" "rs_ring s' = rs_ring s"
    and ranges: "puts s' t = puts s t" "gets s' t = gets s t"
    and thread: "thread_inv b A0 s' t"
  shows "sys_ok b A0 s'"
proof -
  have u: "(puts s)(t := puts s' t) = puts s" "(gets s)(t := gets s' t) = gets s"
    by (simp_all only: ranges) auto
  have v: "visible A0 s' = visible A0 s" by (simp add: visible_def same)
  have "owned (length (visible A0 s')) (rs_ph s') ((puts s)(t := puts s' t))"
    "owned (length (rs_got s')) (rs_ch s') ((gets s)(t := gets s' t))"
    unfolding u using sys_okD [OF ok] by (simp_all only: v same)
  with sys_okD(1) [OF ok] thread show ?thesis by (intro sys_ok_step [OF ok other]) (simp_all only: v same, auto)
qed

section \<open>Each step\<close>

abbreviation after :: "nat \<Rightarrow> 'a rte_ring \<Rightarrow> 'a ring_pc \<Rightarrow> 'a ring_sys \<Rightarrow> 'a ring_sys" where
  "after t r pc s \<equiv> (note_step t (rs_pc s t) pc s)\<lparr>rs_ring := r, rs_pc := (rs_pc s)(t := pc)\<rparr>"

lemma note_step_other [simp]: "u \<noteq> t \<Longrightarrow> rs_seen (note_step t pc pc' s) u = rs_seen s u"
  by (simp add: note_step_def split: ring_pc.split)

lemma cmpset_cases: "cmpset cur old v = Some h \<longleftrightarrow> cur = old \<and> h = v" "cmpset cur old v = None \<longleftrightarrow> cur \<noteq> old"
  by (auto simp: cmpset_def)

lemmas range_defs = put_range_def get_range_def

text \<open>Loads of indices, and compare-and-sets that fail.\<close>

lemma ok_E_Head:
  assumes ok: "sys_ok b A0 s" and pc: "rs_pc s t = E_Head objs n beh"
    and n: "ring_next (rs_ring s) (rs_pc s t) = Some (r, pc')"
  shows "sys_ok b A0 (after t r pc' s)"
  using n sys_okD(1) [OF ok] sys_okD(2) [OF ok, of t]
  by (intro sys_ok_local [OF ok, of t])
    (auto simp: ring_next_def note_step_def pc thread_ok_def visible_def ring_ok_def range_defs)

lemma ok_E_Tail:
  assumes ok: "sys_ok b A0 s" and pc: "rs_pc s t = E_Tail objs n beh old_head"
    and n: "ring_next (rs_ring s) (rs_pc s t) = Some (r, pc')"
  shows "sys_ok b A0 (after t r pc' s)"
proof -
  have "thread_inv b A0 (after t r pc' s) t"
    using n sys_okD(1) [OF ok] sys_okD(2) [OF ok, of t]
    by (auto simp: ring_next_def note_step_def pc thread_ok_def visible_def ring_ok_def Let_def admit_le
        intro: order_trans intro!: exI [of _ "length (rs_got s)"] split: if_splits)
  with n show ?thesis
    by (intro sys_ok_local [OF ok, of t])
      (auto simp: ring_next_def note_step_def pc range_defs Let_def split: if_splits)
qed

lemma ok_D_Head:
  assumes ok: "sys_ok b A0 s" and pc: "rs_pc s t = D_Head tbl n beh"
    and n: "ring_next (rs_ring s) (rs_pc s t) = Some (r, pc')"
  shows "sys_ok b A0 (after t r pc' s)"
  using n sys_okD(1) [OF ok] sys_okD(2) [OF ok, of t]
  by (intro sys_ok_local [OF ok, of t])
    (auto simp: ring_next_def note_step_def pc thread_ok_def visible_def ring_ok_def range_defs)

lemma ok_D_Tail:
  assumes ok: "sys_ok b A0 s" and pc: "rs_pc s t = D_Tail tbl n beh old_head"
    and n: "ring_next (rs_ring s) (rs_pc s t) = Some (r, pc')"
  shows "sys_ok b A0 (after t r pc' s)"
proof -
  have "thread_inv b A0 (after t r pc' s) t"
    using n sys_okD(1) [OF ok] sys_okD(2) [OF ok, of t]
    by (auto simp: ring_next_def note_step_def pc thread_ok_def visible_def ring_ok_def Let_def admit_le
        intro: order_trans intro!: exI [of _ "length A0 + length (rs_put s)"] split: if_splits)
  with n show ?thesis
    by (intro sys_ok_local [OF ok, of t])
      (auto simp: ring_next_def note_step_def pc range_defs Let_def split: if_splits)
qed

lemma owned_keep: "owned lo hi R \<Longrightarrow> R t = X \<Longrightarrow> owned lo hi (R(t := X))"
  by (simp add: fun_upd_idem)

text \<open>Compare-and-sets: what a thread has computed from a head that is still there is right.\<close>

lemma unat_of_nat_small: "n < 4294967296 \<Longrightarrow> unat (of_nat n :: u32) = n"
  by (simp add: unat_of_nat)

lemma free_entries_exact:
  assumes "ring_ok b ph A ch ct r" "c \<le> ct" "ph \<le> c + unat (r_capacity r)"
  shows "unat (r_capacity r + pos b c - pos b ph) = c + unat (r_capacity r) - ph"
proof -
  have "c \<le> ph" using assms(1,2) by (simp add: ring_ok_def)
  have "r_capacity r + pos b c - pos b ph = of_nat (c + unat (r_capacity r) - ph)"
    using assms(3) by (simp add: of_nat_diff)
  moreover have "c + unat (r_capacity r) - ph < 4294967296"
    using \<open>c \<le> ph\<close> unat32_bound [of "r_capacity r"] by linarith
  ultimately show ?thesis by (metis unat_of_nat_small)
qed

lemma entries_exact:
  assumes "ring_ok b ph A ch ct r" "ch \<le> p" "p \<le> length A"
  shows "unat (pos b p - pos b ch) = p - ch"
proof -
  have "p - ch < 4294967296"
    using assms unat32_bound [of "r_capacity r"] unfolding ring_ok_def by linarith
  with pos_diff [OF assms(2), of b] show ?thesis by (metis unat_of_nat_small)
qed

lemma no_stallD:
  "no_stall s \<Longrightarrow> rs_pc s t = E_Cas objs n beh old_head free_entries m \<Longrightarrow> rs_ph s - rs_seen s t < 2 ^ 32"
  "no_stall s \<Longrightarrow> rs_pc s t = D_Cas objs n beh old_head free_entries m \<Longrightarrow> rs_ch s - rs_seen s t < 2 ^ 32"
  unfolding no_stall_def by (auto dest!: spec [of _ t])

lemma ok_E_Cas:
  assumes ok: "sys_ok b A0 s" and pc: "rs_pc s t = E_Cas objs n beh old_head free_entries m" and ns: "no_stall s"
    and n: "ring_next (rs_ring s) (rs_pc s t) = Some (r, pc')"
  shows "sys_ok b A0 (after t r pc' s)"
proof (cases "ht_head (r_prod (rs_ring s)) = old_head")
  case False
  with n show ?thesis using sys_okD(2) [OF ok, of t]
    by (intro sys_ok_local [OF ok, of t])
      (auto simp: ring_next_def note_step_def pc thread_ok_def range_defs visible_def cmpset_def)
next
  case True
  note th = sys_okD(2) [OF ok, of t]
  let ?s' = "after t r pc' s"
  from sys_okD(1) [OF ok] have ring: "ring_ok b (rs_ph s) (visible A0 s) (rs_ch s) (length (rs_got s)) (rs_ring s)" by simp
  from th pc have k: "old_head = pos b (rs_seen s t)" "rs_seen s t \<le> rs_ph s" by (auto simp: thread_ok_def)
  from no_stallD(1) [OF ns pc] k True ring have seen: "rs_seen s t = rs_ph s"
    by (intro pos_eq [of b]) (simp_all add: ring_ok_def)
  from th pc obtain c where c: "c \<le> length (rs_got s)" "rs_ph s \<le> c + unat (r_capacity (rs_ring s))"
    "free_entries = r_capacity (rs_ring s) + pos b c - pos b (rs_ph s)" "m \<le> free_entries" "m \<noteq> 0" "m \<le> n" "unat n \<le> length objs"
    by (auto simp: thread_ok_def seen)
  then have m: "unat m \<le> c + unat (r_capacity (rs_ring s)) - rs_ph s" "unat m \<le> length objs"
    using free_entries_exact [OF ring c(1,2)] by (simp_all add: word_le_nat_alt)
  from n True have r: "r = rs_ring s\<lparr>r_prod := (r_prod (rs_ring s))\<lparr>ht_head := old_head + m\<rparr>\<rparr>"
    "pc' = E_Copy objs old_head free_entries m 0" by (simp_all add: ring_next_def pc cmpset_def)
  have s': "rs_ring ?s' = r" "rs_put ?s' = rs_put s" "rs_got ?s' = rs_got s" "rs_ph ?s' = rs_ph s + unat m"
    "rs_ch ?s' = rs_ch s" "rs_seen ?s' = rs_seen s" "rs_pc ?s' t = E_Copy objs old_head free_entries m 0"
    by (simp_all add: note_step_def pc r(2))
  have v: "visible A0 ?s' = visible A0 s" by (simp add: visible_def s'(2))
  have e: "puts s t = {}" "gets s t = {}" "gets ?s' t = {}" "puts ?s' t = {rs_ph s..<rs_ph s + unat m}"
    by (simp_all add: range_defs pc note_step_def r(2) seen)
  have pt: "length (visible A0 s) \<le> rs_ph s" using ring by (simp add: ring_ok_def)
  have "owned (length (visible A0 s)) (rs_ph s + unat m) ((puts s)(t := puts ?s' t))"
    using sys_okD(3) [OF ok] e(1) pt unfolding e(4) by (rule owned_new)
  moreover have "owned (length (rs_got s)) (rs_ch s) ((gets s)(t := gets ?s' t))"
    using sys_okD(4) [OF ok] e(2) unfolding e(3) by (rule owned_keep)
  moreover have "ring_ok b (rs_ph s + unat m) (visible A0 s) (rs_ch s) (length (rs_got s)) r"
    using ring m(1) c(1,2) k(1) seen by (auto simp: r(1) ring_ok_def place_def ring_geom_def)
  then have "ring_inv_at b A0 ?s'" using sys_okD(1) [OF ok] unfolding s' v by simp
  moreover have "thread_inv b A0 ?s' t"
    using m(2) c(5) k(1) pt unfolding s' v
    by (auto simp: thread_ok_def reserved_put_def seen word_less_nat_alt unat_gt_0)
  moreover have "r_slots r = r_slots (rs_ring s)" "r_capacity r = r_capacity (rs_ring s)" "r_size r = r_size (rs_ring s)"
    by (simp_all add: r(1))
  ultimately show ?thesis
    by (intro sys_ok_step [OF ok, of t]) (simp_all only: s' v, auto)
qed

lemma ok_D_Cas:
  assumes ok: "sys_ok b A0 s" and pc: "rs_pc s t = D_Cas tbl n beh old_head entries m" and ns: "no_stall s"
    and n: "ring_next (rs_ring s) (rs_pc s t) = Some (r, pc')"
  shows "sys_ok b A0 (after t r pc' s)"
proof (cases "ht_head (r_cons (rs_ring s)) = old_head")
  case False
  with n show ?thesis using sys_okD(2) [OF ok, of t]
    by (intro sys_ok_local [OF ok, of t])
      (auto simp: ring_next_def note_step_def pc thread_ok_def range_defs visible_def cmpset_def)
next
  case True
  note th = sys_okD(2) [OF ok, of t]
  let ?s' = "after t r pc' s"
  from sys_okD(1) [OF ok] have ring: "ring_ok b (rs_ph s) (visible A0 s) (rs_ch s) (length (rs_got s)) (rs_ring s)" by simp
  from th pc have k: "old_head = pos b (rs_seen s t)" "rs_seen s t \<le> rs_ch s" by (auto simp: thread_ok_def)
  from no_stallD(2) [OF ns pc] k True ring have seen: "rs_seen s t = rs_ch s"
    by (intro pos_eq [of b]) (simp_all add: ring_ok_def)
  from th pc obtain p where p: "rs_ch s \<le> p" "p \<le> length (visible A0 s)"
    "entries = pos b p - pos b (rs_ch s)" "m \<le> entries" "m \<noteq> 0" "m \<le> n" "unat n \<le> length tbl"
    by (auto simp: thread_ok_def seen)
  then have m: "unat m \<le> p - rs_ch s" "unat m \<le> length tbl"
    using entries_exact [OF ring p(1,2)] by (simp_all add: word_le_nat_alt)
  from n True have r: "r = rs_ring s\<lparr>r_cons := (r_cons (rs_ring s))\<lparr>ht_head := old_head + m\<rparr>\<rparr>"
    "pc' = D_Copy tbl old_head entries m 0" by (simp_all add: ring_next_def pc cmpset_def)
  have s': "rs_ring ?s' = r" "rs_put ?s' = rs_put s" "rs_got ?s' = rs_got s" "rs_ph ?s' = rs_ph s"
    "rs_ch ?s' = rs_ch s + unat m" "rs_seen ?s' = rs_seen s" "rs_pc ?s' t = D_Copy tbl old_head entries m 0"
    by (simp_all add: note_step_def pc r(2))
  have v: "visible A0 ?s' = visible A0 s" by (simp add: visible_def s'(2))
  have e: "puts s t = {}" "gets s t = {}" "puts ?s' t = {}" "gets ?s' t = {rs_ch s..<rs_ch s + unat m}"
    by (simp_all add: range_defs pc note_step_def r(2) seen)
  have ct: "length (rs_got s) \<le> rs_ch s" using ring by (simp add: ring_ok_def)
  have "owned (length (rs_got s)) (rs_ch s + unat m) ((gets s)(t := gets ?s' t))"
    using sys_okD(4) [OF ok] e(2) ct unfolding e(4) by (rule owned_new)
  moreover have "owned (length (visible A0 s)) (rs_ph s) ((puts s)(t := puts ?s' t))"
    using sys_okD(3) [OF ok] e(1) unfolding e(3) by (rule owned_keep)
  moreover have "ring_ok b (rs_ph s) (visible A0 s) (rs_ch s + unat m) (length (rs_got s)) r"
    using ring m(1) p(1,2) k(1) seen by (auto simp: r(1) ring_ok_def place_def ring_geom_def)
  then have "ring_inv_at b A0 ?s'" using sys_okD(1) [OF ok] unfolding s' v by simp
  moreover have "thread_inv b A0 ?s' t"
    using m(2) p(5) k(1) ct unfolding s' v
    by (auto simp: thread_ok_def reserved_get_def seen word_less_nat_alt unat_gt_0)
  moreover have "r_slots r = r_slots (rs_ring s)" "r_capacity r = r_capacity (rs_ring s)" "r_size r = r_size (rs_ring s)"
    by (simp_all add: r(1))
  ultimately show ?thesis
    by (intro sys_ok_step [OF ok, of t]) (simp_all only: s' v, auto)
qed

text \<open>Copies: the places of the elements between the consumers' tail and the producers' head differ.\<close>

lemma place_neq:
  assumes "ring_ok b ph A ch ct r" "ct \<le> i" "i < ph" "ct \<le> j" "j < ph" "i \<noteq> j"
  shows "place r b i \<noteq> place r b j"
proof -
  have "ph - ct < unat (r_size r)"
    using assms(1) by (auto simp: ring_ok_def ring_geom_def word_less_nat_alt)
  then have "j - i < unat (r_size r)" "i - j < unat (r_size r)" using assms(2-5) by linarith+
  then show ?thesis
    using assms(6) place_inj [of r b i j] place_inj [of r b j i] by (cases "i \<le> j") auto
qed

lemma next_less:
  fixes i m :: u32
  assumes "i < m"
  shows "unat (i + 1) = Suc (unat i)" "i + 1 \<noteq> m \<Longrightarrow> i + 1 < m"
  using unat_suc_word [OF assms] assms by (simp_all add: word_less_nat_alt) (metis Suc_lessI word_unat_eq_iff)

lemma ok_E_Copy:
  assumes ok: "sys_ok b A0 s" and pc: "rs_pc s t = E_Copy objs old_head free_entries m i"
    and n: "ring_next (rs_ring s) (rs_pc s t) = Some (r, pc')"
  shows "sys_ok b A0 (after t r pc' s)"
proof -
  let ?s' = "after t r pc' s" and ?R = "rs_ring s" and ?k = "rs_seen s t"
  from sys_okD(1) [OF ok] have ring: "ring_ok b (rs_ph s) (visible A0 s) (rs_ch s) (length (rs_got s)) ?R" by simp
  then have geom: "ring_geom ?R" and le: "length (rs_got s) \<le> length (visible A0 s)" by (auto simp: ring_ok_def)
  from sys_okD(2) [OF ok, of t] have i: "i < m"
    and res: "reserved_put b (length (visible A0 s)) (rs_ph s) ?R ?k objs old_head m i" by (simp_all add: pc thread_ok_def)
  have ix: "unat ((old_head + i) AND r_mask ?R) = place ?R b (?k + unat i)"
    using res unat_pos_mask [OF geom] pos_plus_word [of b ?k i] by (simp only: reserved_put_def)
  have io: "unat i < length objs" "unat i < unat m" using i res by (simp_all add: reserved_put_def word_less_nat_alt)
  define slots where "slots = (r_slots ?R)[place ?R b (?k + unat i) := objs ! unat i]"
  have "cp (r_slots ?R) ((old_head + i) AND r_mask ?R) objs i = Some slots"
    using io(1) place_less [OF geom] by (simp add: cp_def ix slots_def)
  with n have r: "r = ?R\<lparr>r_slots := slots\<rparr>"
    "pc' = (if i + 1 = m then E_Wait objs old_head free_entries m else E_Copy objs old_head free_entries m (i + 1))"
    by (simp_all add: ring_next_def pc)
  have s': "rs_ring ?s' = r" "rs_put ?s' = rs_put s" "rs_got ?s' = rs_got s" "rs_ph ?s' = rs_ph s"
    "rs_ch ?s' = rs_ch s" "rs_seen ?s' = rs_seen s" "rs_pc ?s' t = pc'"
    by (simp_all add: note_step_def pc)
  have v: "visible A0 ?s' = visible A0 s" by (simp add: visible_def s'(2))
  have e: "puts s t = {?k..<?k + unat m}" "gets s t = {}" "gets ?s' t = {}" "puts ?s' t = {?k..<?k + unat m}"
    by (simp_all add: range_defs pc note_step_def r(2))
  have in_range: "length (visible A0 s) \<le> j \<and> j < rs_ph s" if "j \<in> puts s u" for j u
    using owned_bounds [OF sys_okD(3) [OF ok] that] .
  have mine: "?k + j \<in> puts s t" if "j < unat m" for j using that by (simp add: e(1))
  have other: "slots ! place ?R b j = r_slots ?R ! place ?R b j" if "length (rs_got s) \<le> j" "j < rs_ph s" "j \<noteq> ?k + unat i" for j
    using place_neq [OF ring that(1,2) _ _ that(3)] in_range [OF mine [OF io(2)]] le by (simp add: slots_def)
  have self: "slots ! place ?R b (?k + unat i) = objs ! unat i"
    using place_less [OF geom] by (simp add: slots_def)
  have "owned (length (visible A0 s)) (rs_ph s) ((puts s)(t := puts ?s' t))"
    using sys_okD(3) [OF ok] e(1) unfolding e(4) by (rule owned_keep)
  moreover have "owned (length (rs_got s)) (rs_ch s) ((gets s)(t := gets ?s' t))"
    using sys_okD(4) [OF ok] e(2) unfolding e(3) by (rule owned_keep)
  moreover have "slots ! place ?R b j = visible A0 s ! j" if "length (rs_got s) \<le> j" "j < length (visible A0 s)" for j
    using other [of j] that ring in_range [OF mine [OF io(2)]] by (simp add: ring_ok_def)
  then have "ring_ok b (rs_ph s) (visible A0 s) (rs_ch s) (length (rs_got s)) r"
    using ring by (simp add: r(1) ring_ok_def place_def ring_geom_def slots_def)
  then have "ring_inv_at b A0 ?s'" using sys_okD(1) [OF ok] unfolding s' v by simp
  moreover have "slots ! place ?R b (?k + j) = objs ! j" if "j < unat (i + 1)" for j
  proof (cases "j = unat i")
    case False
    with that next_less(1) [OF i] have j: "j < unat i" by simp
    with io(2) in_range [OF mine [of j]] le have "slots ! place ?R b (?k + j) = r_slots ?R ! place ?R b (?k + j)"
      by (intro other) auto
    with j res show ?thesis by (simp add: reserved_put_def)
  qed (simp add: self)
  then have "reserved_put b (length (visible A0 s)) (rs_ph s) r ?k objs old_head m (i + 1)"
    using res by (simp add: reserved_put_def r(1) place_def)
  then have "thread_inv b A0 ?s' t"
    unfolding s' v by (auto simp: r(2) thread_ok_def next_less(2) [OF i])
  moreover have "slots ! place ?R b j = r_slots ?R ! place ?R b j" if "u \<noteq> t" "j \<in> puts s u" for u j
  proof (rule other)
    show "j \<noteq> ?k + unat i" using owned_unique [OF sys_okD(3) [OF ok], of j u t] that mine [OF io(2)] by auto
  qed (use in_range [OF that(2)] le in auto)
  moreover have "r_slots r = slots" "r_capacity r = r_capacity (rs_ring s)" "r_size r = r_size (rs_ring s)"
    by (simp_all add: r(1))
  ultimately show ?thesis
    by (intro sys_ok_step [OF ok, of t]) (simp_all only: s' v, auto)
qed

lemma ok_D_Copy:
  assumes ok: "sys_ok b A0 s" and pc: "rs_pc s t = D_Copy tbl old_head entries m i"
    and n: "ring_next (rs_ring s) (rs_pc s t) = Some (r, pc')"
  shows "sys_ok b A0 (after t r pc' s)"
proof -
  let ?s' = "after t r pc' s" and ?R = "rs_ring s" and ?k = "rs_seen s t" and ?A = "visible A0 s"
  from sys_okD(1) [OF ok] have ring: "ring_ok b (rs_ph s) ?A (rs_ch s) (length (rs_got s)) ?R" by simp
  then have geom: "ring_geom ?R" by (simp add: ring_ok_def)
  from sys_okD(2) [OF ok, of t] have i: "i < m"
    and res: "reserved_get b (length (rs_got s)) (rs_ch s) ?A ?k tbl old_head m i" by (simp_all add: pc thread_ok_def)
  have ix: "unat ((old_head + i) AND r_mask ?R) = place ?R b (?k + unat i)"
    using res unat_pos_mask [OF geom] pos_plus_word [of b ?k i] by (simp only: reserved_get_def)
  have io: "unat i < length tbl" "unat i < unat m" using i res by (simp_all add: reserved_get_def word_less_nat_alt)
  have "r_slots ?R ! place ?R b (?k + unat i) = ?A ! (?k + unat i)"
    using ring res io(2) by (auto simp: ring_ok_def reserved_get_def)
  then have "cp tbl i (r_slots ?R) ((old_head + i) AND r_mask ?R) = Some (tbl[unat i := ?A ! (?k + unat i)])"
    using io(1) place_less [OF geom] by (simp add: cp_def ix)
  with n obtain tbl' where r: "r = ?R" "tbl' = tbl[unat i := ?A ! (?k + unat i)]"
    "pc' = (if i + 1 = m then D_Wait tbl' old_head entries m else D_Copy tbl' old_head entries m (i + 1))"
    by (simp add: ring_next_def pc)
  have "tbl' ! j = ?A ! (?k + j)" if "j < unat (i + 1)" for j
    using that res io(1) next_less(1) [OF i] by (cases "j = unat i") (simp_all add: r(2) reserved_get_def)
  then have "reserved_get b (length (rs_got s)) (rs_ch s) ?A ?k tbl' old_head m (i + 1)"
    using res by (simp add: reserved_get_def r(2))
  then have "thread_inv b A0 ?s' t"
    by (auto simp: note_step_def pc visible_def r(1,3) thread_ok_def next_less(2) [OF i])
  then show ?thesis
    by (intro sys_ok_local [OF ok, of t]) (simp_all add: note_step_def pc r(1,3) range_defs)
qed

text \<open>The stores of the tails.\<close>

lemma ok_E_Wait:
  assumes ok: "sys_ok b A0 s" and pc: "rs_pc s t = E_Wait objs old_head free_entries m"
    and n: "ring_next (rs_ring s) (rs_pc s t) = Some (r, pc')"
  shows "sys_ok b A0 (after t r pc' s)"
proof -
  let ?s' = "after t r pc' s" and ?R = "rs_ring s" and ?k = "rs_seen s t" and ?A = "visible A0 s"
  from sys_okD(1) [OF ok] have ring: "ring_ok b (rs_ph s) ?A (rs_ch s) (length (rs_got s)) ?R" by simp
  from sys_okD(2) [OF ok, of t] have res: "reserved_put b (length ?A) (rs_ph s) ?R ?k objs old_head m m"
    by (simp add: pc thread_ok_def)
  from n have tail: "ht_tail (r_prod ?R) = old_head"
    and r: "r = ?R\<lparr>r_prod := (r_prod ?R)\<lparr>ht_tail := old_head + m\<rparr>\<rparr>" "pc' = E_Ret m (free_entries - m)"
    by (auto simp: ring_next_def pc rte_ring_update_tail_def split: if_splits)
  have "length ?A \<le> ?k" "?k \<le> length ?A + unat (r_capacity ?R)"
    using ring res by (auto simp: ring_ok_def reserved_put_def)
  then have d: "?k - length ?A < 4294967296" using unat32_bound [of "r_capacity ?R"] by linarith
  have k: "?k = length ?A"
    using tail res ring d by (intro pos_eq [of b, symmetric]) (auto simp: ring_ok_def reserved_put_def)
  have s': "rs_ring ?s' = r" "rs_put ?s' = rs_put s @ take (unat m) objs" "rs_got ?s' = rs_got s" "rs_ph ?s' = rs_ph s"
    "rs_ch ?s' = rs_ch s" "rs_seen ?s' = rs_seen s" "rs_pc ?s' t = pc'"
    by (simp_all add: note_step_def pc)
  have v: "visible A0 ?s' = ?A @ take (unat m) objs" by (simp add: visible_def s'(2))
  have m: "unat m \<le> length objs" using res by (simp add: reserved_put_def)
  have e: "puts s t = {length ?A..<length ?A + unat m}" "gets s t = {}" "gets ?s' t = {}" "puts ?s' t = {}"
    by (simp_all add: range_defs pc note_step_def r(2) k)
  have "owned (length ?A + unat m) (rs_ph s) ((puts s)(t := puts ?s' t))"
    using sys_okD(3) [OF ok] e(1) unfolding e(4) by (rule owned_drop)
  moreover have "owned (length (rs_got s)) (rs_ch s) ((gets s)(t := gets ?s' t))"
    using sys_okD(4) [OF ok] e(2) unfolding e(3) by (rule owned_keep)
  moreover have "r_slots ?R ! place ?R b j = (?A @ take (unat m) objs) ! j"
    if "length (rs_got s) \<le> j" "j < length ?A + unat m" for j
  proof (cases "j < length ?A")
    case True
    with that ring show ?thesis by (simp add: ring_ok_def nth_append)
  next
    case False
    then obtain d where d: "j = length ?A + d" by (metis le_Suc_ex not_less)
    with that have "d < unat m" by simp
    with res show ?thesis by (simp add: reserved_put_def k d nth_append)
  qed
  then have "ring_ok b (rs_ph s) (?A @ take (unat m) objs) (rs_ch s) (length (rs_got s)) r"
    using ring res m k by (auto simp: r(1) ring_ok_def place_def ring_geom_def reserved_put_def ac_simps)
  moreover have "rs_got s = take (length (rs_got s)) (?A @ take (unat m) objs)"
    using sys_okD(1) [OF ok] ring by (simp add: ring_ok_def)
  moreover have l: "length (?A @ take (unat m) objs) = length ?A + unat m" using m by simp
  ultimately show ?thesis
    by (intro sys_ok_step [OF ok, of t]) (simp_all only: s' v l, auto simp: r thread_ok_def)
qed

lemma ok_D_Wait:
  assumes ok: "sys_ok b A0 s" and pc: "rs_pc s t = D_Wait tbl old_head entries m"
    and n: "ring_next (rs_ring s) (rs_pc s t) = Some (r, pc')"
  shows "sys_ok b A0 (after t r pc' s)"
proof -
  let ?s' = "after t r pc' s" and ?R = "rs_ring s" and ?k = "rs_seen s t" and ?A = "visible A0 s"
  let ?ct = "length (rs_got s)"
  from sys_okD(1) [OF ok] have ring: "ring_ok b (rs_ph s) ?A (rs_ch s) ?ct ?R" by simp
  from sys_okD(2) [OF ok, of t] have res: "reserved_get b ?ct (rs_ch s) ?A ?k tbl old_head m m"
    by (simp add: pc thread_ok_def)
  from n have tail: "ht_tail (r_cons ?R) = old_head"
    and r: "r = ?R\<lparr>r_cons := (r_cons ?R)\<lparr>ht_tail := old_head + m\<rparr>\<rparr>" "pc' = D_Ret tbl m (entries - m)"
    by (auto simp: ring_next_def pc rte_ring_update_tail_def split: if_splits)
  have "?ct \<le> ?k" "?k \<le> ?ct + unat (r_capacity ?R)"
    using ring res by (auto simp: ring_ok_def reserved_get_def)
  then have d: "?k - ?ct < 4294967296" using unat32_bound [of "r_capacity ?R"] by linarith
  have k: "?k = ?ct"
    using tail res ring d by (intro pos_eq [of b, symmetric]) (auto simp: ring_ok_def reserved_get_def)
  have s': "rs_ring ?s' = r" "rs_put ?s' = rs_put s" "rs_got ?s' = rs_got s @ take (unat m) tbl" "rs_ph ?s' = rs_ph s"
    "rs_ch ?s' = rs_ch s" "rs_seen ?s' = rs_seen s" "rs_pc ?s' t = pc'"
    by (simp_all add: note_step_def pc)
  have v: "visible A0 ?s' = ?A" by (simp add: visible_def s'(2))
  have m: "unat m \<le> length tbl" "?ct + unat m \<le> rs_ch s" using res by (simp_all add: reserved_get_def k)
  have e: "puts s t = {}" "gets s t = {?ct..<?ct + unat m}" "gets ?s' t = {}" "puts ?s' t = {}"
    by (simp_all add: range_defs pc note_step_def r(2) k)
  have "owned (?ct + unat m) (rs_ch s) ((gets s)(t := gets ?s' t))"
    using sys_okD(4) [OF ok] e(2) unfolding e(3) by (rule owned_drop)
  moreover have "owned (length ?A) (rs_ph s) ((puts s)(t := puts ?s' t))"
    using sys_okD(3) [OF ok] e(1) unfolding e(4) by (rule owned_keep)
  moreover have "ring_ok b (rs_ph s) ?A (rs_ch s) (?ct + unat m) r"
    using ring res m k by (auto simp: r(1) ring_ok_def place_def ring_geom_def reserved_get_def ac_simps)
  moreover have "rs_got s @ take (unat m) tbl = take (?ct + unat m) ?A"
  proof -
    have "?ct + unat m \<le> length ?A" using ring m(2) by (simp add: ring_ok_def)
    moreover have "tbl ! j = ?A ! (?ct + j)" if "j < unat m" for j using that res by (simp add: reserved_get_def k)
    ultimately have "take (unat m) tbl = take (unat m) (drop ?ct ?A)" using m(1) by (auto intro: nth_equalityI)
    with sys_okD(1) [OF ok] show ?thesis by (metis take_add)
  qed
  moreover have l: "length (rs_got s @ take (unat m) tbl) = ?ct + unat m" using m by simp
  ultimately show ?thesis
    by (intro sys_ok_step [OF ok, of t]) (simp_all only: s' v l, auto simp: r thread_ok_def)
qed

lemma ok_step:
  assumes "sys_ok b A0 s" "no_stall s" "ring_step s s'"
  shows "sys_ok b A0 s'"
  using assms(3)
proof cases
  case (call t pc)
  with sys_okD(2) [OF assms(1), of t] show ?thesis
    by (intro sys_ok_local [OF assms(1), of t])
      (auto simp: is_call_def is_outside_def visible_def range_defs thread_ok_def split: ring_pc.splits)
next
  case (step t r pc)
  show ?thesis unfolding step(1)
  proof (cases "rs_pc s t")
    case E_Head
    show "sys_ok b A0 (after t r pc s)" by (rule ok_E_Head [OF assms(1) E_Head step(2)])
  next
    case E_Tail
    show "sys_ok b A0 (after t r pc s)" by (rule ok_E_Tail [OF assms(1) E_Tail step(2)])
  next
    case E_Cas
    show "sys_ok b A0 (after t r pc s)" by (rule ok_E_Cas [OF assms(1) E_Cas assms(2) step(2)])
  next
    case E_Copy
    show "sys_ok b A0 (after t r pc s)" by (rule ok_E_Copy [OF assms(1) E_Copy step(2)])
  next
    case E_Wait
    show "sys_ok b A0 (after t r pc s)" by (rule ok_E_Wait [OF assms(1) E_Wait step(2)])
  next
    case D_Head
    show "sys_ok b A0 (after t r pc s)" by (rule ok_D_Head [OF assms(1) D_Head step(2)])
  next
    case D_Tail
    show "sys_ok b A0 (after t r pc s)" by (rule ok_D_Tail [OF assms(1) D_Tail step(2)])
  next
    case D_Cas
    show "sys_ok b A0 (after t r pc s)" by (rule ok_D_Cas [OF assms(1) D_Cas assms(2) step(2)])
  next
    case D_Copy
    show "sys_ok b A0 (after t r pc s)" by (rule ok_D_Copy [OF assms(1) D_Copy step(2)])
  next
    case D_Wait
    show "sys_ok b A0 (after t r pc s)" by (rule ok_D_Wait [OF assms(1) D_Wait step(2)])
  qed (use step(2) in \<open>simp_all add: ring_next_def\<close>)
qed

section \<open>One thread alone\<close>

lemma slot_index: "ring_geom r \<Longrightarrow> unat ((old_head + i) AND r_mask r) = (unat old_head + unat i) mod unat (r_size r)"
  using unat_pos_mask [of r old_head "unat i"] by (simp add: place_def)

lemma solo_put:
  assumes "ring_geom r" "unat i + Suc d = unat m" "unat m \<le> length objs"
  shows "ring_solo (Suc d) (r, E_Copy objs old_head f m i) =
    Some (r\<lparr>r_slots := ring_put (r_slots r) (unat (r_size r)) (unat old_head + unat i) (take (Suc d) (drop (unat i) objs))\<rparr>,
      E_Wait objs old_head f m)"
  using assms
proof (induction d arbitrary: i r)
  case 0
  let ?j = "(unat old_head + unat i) mod unat (r_size r)"
  have im: "i < m" using "0.prems" by (simp add: word_less_nat_alt)
  have "i + 1 = m" using "0.prems" next_less(1) [OF im] by (metis One_nat_def add.commute plus_1_eq_Suc word_unat_eq_iff)
  moreover have "cp (r_slots r) ((old_head + i) AND r_mask r) objs i = Some ((r_slots r)[?j := objs ! unat i])"
    using "0.prems" place_less [of r old_head "unat i"] slot_index [of r old_head i] by (simp add: cp_def place_def)
  moreover have "take (Suc 0) (drop (unat i) objs) = [objs ! unat i]"
    using "0.prems" by (simp add: take_Suc_conv_app_nth)
  ultimately show ?case by (simp add: ring_next_def)
next
  case (Suc d)
  let ?j = "(unat old_head + unat i) mod unat (r_size r)" and ?x = "objs ! unat i"
  let ?r = "r\<lparr>r_slots := (r_slots r)[?j := ?x]\<rparr>"
  have im: "i < m" using Suc.prems by (simp add: word_less_nat_alt)
  note i = next_less(1) [OF im]
  have ne: "i + 1 \<noteq> m" using i Suc.prems by auto
  have c: "cp (r_slots r) ((old_head + i) AND r_mask r) objs i = Some ((r_slots r)[?j := ?x])"
    using Suc.prems place_less [of r old_head "unat i"] slot_index [of r old_head i] by (simp add: cp_def place_def)
  have d: "drop (unat i) objs = ?x # drop (Suc (unat i)) objs" using Suc.prems by (simp add: Cons_nth_drop_Suc)
  have "ring_solo (Suc (Suc d)) (r, E_Copy objs old_head f m i) = ring_solo (Suc d) (?r, E_Copy objs old_head f m (i + 1))"
    using c ne by (subst ring_solo.simps(2)) (simp add: ring_next_def del: ring_solo.simps(2))
  also have "\<dots> = Some (?r\<lparr>r_slots := ring_put (r_slots ?r) (unat (r_size ?r)) (unat old_head + unat (i + 1))
      (take (Suc d) (drop (unat (i + 1)) objs))\<rparr>, E_Wait objs old_head f m)"
    using Suc.prems i by (intro Suc.IH) (simp_all add: ring_geom_def)
  finally show ?case by (simp add: d i del: ring_solo.simps(2))
qed

lemma solo_get:
  assumes "ring_geom r" "unat i + Suc d = unat m" "unat m \<le> length tbl"
  shows "ring_solo (Suc d) (r, D_Copy tbl old_head f m i) =
    Some (r, D_Wait (take (unat i) tbl @ ring_get (r_slots r) (unat (r_size r)) (unat old_head + unat i) (Suc d) @ drop (unat m) tbl)
      old_head f m)"
  using assms
proof (induction d arbitrary: i tbl)
  case 0
  let ?x = "r_slots r ! ((unat old_head + unat i) mod unat (r_size r))"
  have im: "i < m" using "0.prems" by (simp add: word_less_nat_alt)
  have "i + 1 = m" using "0.prems" next_less(1) [OF im] by (metis One_nat_def add.commute plus_1_eq_Suc word_unat_eq_iff)
  moreover have "cp tbl i (r_slots r) ((old_head + i) AND r_mask r) = Some (tbl[unat i := ?x])"
    using "0.prems" place_less [of r old_head "unat i"] slot_index [of r old_head i] by (simp add: cp_def place_def)
  moreover have "tbl[unat i := ?x] = take (unat i) tbl @ ring_get (r_slots r) (unat (r_size r)) (unat old_head + unat i) (Suc 0) @ drop (unat m) tbl"
    using "0.prems" by (simp add: ring_get_def upd_conv_take_nth_drop)
  ultimately show ?case by (simp add: ring_next_def)
next
  case (Suc d)
  let ?x = "r_slots r ! ((unat old_head + unat i) mod unat (r_size r))"
  let ?t = "tbl[unat i := ?x]"
  have im: "i < m" using Suc.prems by (simp add: word_less_nat_alt)
  note i = next_less(1) [OF im]
  have ne: "i + 1 \<noteq> m" using i Suc.prems by auto
  have c: "cp tbl i (r_slots r) ((old_head + i) AND r_mask r) = Some ?t"
    using Suc.prems place_less [of r old_head "unat i"] slot_index [of r old_head i] by (simp add: cp_def place_def)
  have "ring_solo (Suc (Suc d)) (r, D_Copy tbl old_head f m i) = ring_solo (Suc d) (r, D_Copy ?t old_head f m (i + 1))"
    using c ne by (subst ring_solo.simps(2)) (simp add: ring_next_def del: ring_solo.simps(2))
  also have "\<dots> = Some (r, D_Wait (take (unat (i + 1)) ?t @
      ring_get (r_slots r) (unat (r_size r)) (unat old_head + unat (i + 1)) (Suc d) @ drop (unat m) ?t) old_head f m)"
    using Suc.prems i by (intro Suc.IH) simp_all
  also have "take (unat (i + 1)) ?t = take (unat i) tbl @ [?x]"
    using Suc.prems by (simp add: i take_Suc_conv_app_nth)
  also have "drop (unat m) ?t = drop (unat m) tbl" using Suc.prems by simp
  finally show ?case using ring_get_add [of "r_slots r" "unat (r_size r)" "unat old_head + unat i" 1 "Suc d"]
    by (simp add: i ring_get_def [of _ _ _ "Suc 0"] del: ring_solo.simps(2))
qed

text \<open>
  The steps of a thread that is alone, and the operation of \<open>Ring_Queue\<close>, end with the same
  ring and the same results.
\<close>

lemma solo_enqueue:
  assumes inv: "ring_inv r" and q: "ht_sync_type (r_prod r) = RTE_RING_SYNC_MT" and u: "unit_esize es" and n: "unat n \<le> length objs"
  shows "\<exists>k m f r'. rte_ring_do_enqueue_elem r objs es n beh False = Some (m, f, r') \<and>
    ring_solo k (r, E_Head objs n beh) = Some (r', E_Ret m f)"
proof -
  from inv have g: "ring_geom r" by (simp add: ring_inv_def)
  from inv q have eq: "ht_head (r_prod r) = ht_tail (r_prod r)" by (simp add: ring_inv_def quiescent_def)
  let ?old = "ht_head (r_prod r)"
  define free where "free = r_capacity r + ht_tail (r_cons r) - ?old"
  define m where "m = admit beh n free"
  have head: "ring_solo 2 (r, E_Head objs n beh) = Some (r, if m = 0 then E_Ret 0 free else E_Cas objs n beh ?old free m)"
    by (simp add: numeral_2_eq_2 ring_next_def free_def m_def Let_def)
  have move: "rte_ring_move_prod_head r False n beh = Some (m, ?old, ?old + m, free,
      if m = 0 then r else r\<lparr>r_prod := (r_prod r)\<lparr>ht_head := ?old + m\<rparr>\<rparr>)"
    by (simp add: rte_ring_move_prod_head_def free_def m_def Let_def cmpset_def)
  show ?thesis
  proof (cases "m = 0")
    case True
    with head move have "rte_ring_do_enqueue_elem r objs es n beh False = Some (0, free, r)"
      "ring_solo 2 (r, E_Head objs n beh) = Some (r, E_Ret 0 free)" by (simp_all add: rte_ring_do_enqueue_elem_def)
    then show ?thesis by blast
  next
    case False
    let ?r = "r\<lparr>r_prod := (r_prod r)\<lparr>ht_head := ?old + m\<rparr>\<rparr>"
    have "unat free = unat (r_capacity r) - ring_used r" "ring_used r \<le> unat (r_capacity r)"
      using rte_ring_free_count_used [OF inv] inv by (simp_all add: free_def eq rte_ring_free_diff [OF inv] ring_inv_def)
    then have m: "unat m \<le> length objs" "unat m \<le> unat (r_size r)"
      using admit_le [of beh n free] n g by (auto simp: m_def word_le_nat_alt ring_geom_def word_less_nat_alt)
    from False obtain d where d: "unat m = Suc d" by (metis not0_implies_Suc unat_0_iff)
    let ?slots = "ring_put (r_slots r) (unat (r_size r)) (unat ?old) (take (unat m) objs)"
    have gr: "ring_geom ?r" using g by (simp add: ring_geom_def)
    have copy: "ring_solo (unat m) (?r, E_Copy objs ?old free m 0) = Some (?r\<lparr>r_slots := ?slots\<rparr>, E_Wait objs ?old free m)"
      using solo_put [OF gr, of 0 d m objs ?old free] m(1) unfolding d by (simp del: ring_solo.simps(2))
    have last: "ring_solo 1 (?r\<lparr>r_slots := ?slots\<rparr>, E_Wait objs ?old free m) =
      Some (?r\<lparr>r_slots := ?slots, r_prod := (r_prod r)\<lparr>ht_head := ?old + m, ht_tail := ?old + m\<rparr>\<rparr>, E_Ret m (free - m))"
      by (simp add: ring_next_def rte_ring_update_tail_def eq)
    have "ring_solo 1 (r, E_Cas objs n beh ?old free m) = Some (?r, E_Copy objs ?old free m 0)"
      by (simp add: ring_next_def cmpset_def)
    then have "ring_solo (2 + (1 + (unat m + 1))) (r, E_Head objs n beh) =
      Some (?r\<lparr>r_slots := ?slots, r_prod := (r_prod r)\<lparr>ht_head := ?old + m, ht_tail := ?old + m\<rparr>\<rparr>, E_Ret m (free - m))"
      using head False copy last by (simp only: ring_solo_add bind.bind_lunit if_False)
    moreover have "rte_ring_do_enqueue_elem r objs es n beh False =
      Some (m, free - m, ?r\<lparr>r_slots := ?slots, r_prod := (r_prod r)\<lparr>ht_head := ?old + m, ht_tail := ?old + m\<rparr>\<rparr>)"
      using False m rte_ring_enqueue_elems_put [OF u gr, of m objs ?old]
      by (simp add: rte_ring_do_enqueue_elem_def move rte_ring_update_tail_def eq)
    ultimately show ?thesis by blast
  qed
qed

lemma solo_dequeue:
  assumes inv: "ring_inv r" and q: "ht_sync_type (r_cons r) = RTE_RING_SYNC_MT" and u: "unit_esize es" and n: "unat n \<le> length tbl"
  shows "\<exists>k m f r' tbl'. rte_ring_do_dequeue_elem r tbl es n beh False = Some (m, tbl', f, r') \<and>
    ring_solo k (r, D_Head tbl n beh) = Some (r', D_Ret tbl' m f)"
proof -
  from inv have g: "ring_geom r" by (simp add: ring_inv_def)
  from inv q have eq: "ht_head (r_cons r) = ht_tail (r_cons r)" by (simp add: ring_inv_def quiescent_def)
  let ?old = "ht_head (r_cons r)"
  define entries where "entries = ht_tail (r_prod r) - ?old"
  define m where "m = admit beh n entries"
  have head: "ring_solo 2 (r, D_Head tbl n beh) = Some (r, if m = 0 then D_Ret tbl 0 entries else D_Cas tbl n beh ?old entries m)"
    by (simp add: numeral_2_eq_2 ring_next_def entries_def m_def Let_def)
  have move: "rte_ring_move_cons_head r False n beh = Some (m, ?old, ?old + m, entries,
      if m = 0 then r else r\<lparr>r_cons := (r_cons r)\<lparr>ht_head := ?old + m\<rparr>\<rparr>)"
    by (simp add: rte_ring_move_cons_head_def entries_def m_def Let_def cmpset_def)
  show ?thesis
  proof (cases "m = 0")
    case True
    with head move have "rte_ring_do_dequeue_elem r tbl es n beh False = Some (0, tbl, entries, r)"
      "ring_solo 2 (r, D_Head tbl n beh) = Some (r, D_Ret tbl 0 entries)" by (simp_all add: rte_ring_do_dequeue_elem_def)
    then show ?thesis by blast
  next
    case False
    let ?r = "r\<lparr>r_cons := (r_cons r)\<lparr>ht_head := ?old + m\<rparr>\<rparr>"
    have "unat entries = ring_used r" "ring_used r \<le> unat (r_capacity r)"
      using eq inv by (simp_all add: entries_def ring_inv_def ring_used_def)
    then have m: "unat m \<le> length tbl" "unat m \<le> unat (r_size r)"
      using admit_le [of beh n entries] n g by (auto simp: m_def word_le_nat_alt ring_geom_def word_less_nat_alt)
    from False obtain d where d: "unat m = Suc d" by (metis not0_implies_Suc unat_0_iff)
    let ?tbl = "ring_get (r_slots r) (unat (r_size r)) (unat ?old) (unat m) @ drop (unat m) tbl"
    have gr: "ring_geom ?r" using g by (simp add: ring_geom_def)
    have copy: "ring_solo (unat m) (?r, D_Copy tbl ?old entries m 0) = Some (?r, D_Wait ?tbl ?old entries m)"
      using solo_get [OF gr, of 0 d m tbl ?old entries] m(1) unfolding d by (simp del: ring_solo.simps(2))
    have last: "ring_solo 1 (?r, D_Wait ?tbl ?old entries m) =
      Some (?r\<lparr>r_cons := (r_cons r)\<lparr>ht_head := ?old + m, ht_tail := ?old + m\<rparr>\<rparr>, D_Ret ?tbl m (entries - m))"
      by (simp add: ring_next_def rte_ring_update_tail_def eq)
    have "ring_solo 1 (r, D_Cas tbl n beh ?old entries m) = Some (?r, D_Copy tbl ?old entries m 0)"
      by (simp add: ring_next_def cmpset_def)
    then have "ring_solo (2 + (1 + (unat m + 1))) (r, D_Head tbl n beh) =
      Some (?r\<lparr>r_cons := (r_cons r)\<lparr>ht_head := ?old + m, ht_tail := ?old + m\<rparr>\<rparr>, D_Ret ?tbl m (entries - m))"
      using head False copy last by (simp only: ring_solo_add bind.bind_lunit if_False)
    moreover have "rte_ring_do_dequeue_elem r tbl es n beh False =
      Some (m, ?tbl, entries - m, ?r\<lparr>r_cons := (r_cons r)\<lparr>ht_head := ?old + m, ht_tail := ?old + m\<rparr>\<rparr>)"
      using False m rte_ring_dequeue_elems_get [OF u gr, of m tbl ?old]
      by (simp add: rte_ring_do_dequeue_elem_def move rte_ring_update_tail_def eq)
    ultimately show ?thesis by blast
  qed
qed

end
