(* ===== verification/Fifo_Spec.thy ===== *)
theory Fifo_Spec
  imports Prelude
begin

text \<open>
  The contract of a bounded queue with burst and bulk operations, and what it gives a client:
  over any sequence of operations, no element is lost, duplicated or reordered. The rings of
  \<open>lib/ring\<close> and the shared queues of \<open>lib/kni\<close> are interpretations.
\<close>

section \<open>Sequences of operations\<close>

datatype 'a fifo_op = Put "'a list" | Get nat

text \<open>The run collects the elements the queue has accepted and those it has handed out.\<close>

primrec fifo_run ::
  "('s \<Rightarrow> 'a list \<Rightarrow> (nat \<times> 's) option) \<Rightarrow> ('s \<Rightarrow> nat \<Rightarrow> ('a list \<times> 's) option) \<Rightarrow>
     'a fifo_op list \<Rightarrow> 's \<Rightarrow> ('a list \<times> 'a list \<times> 's) option" where
  "fifo_run put get [] s = Some ([], [], s)"
| "fifo_run put get (op # ops) s =
     (case op of
        Put xs \<Rightarrow> do { (m, s) \<leftarrow> put s xs;
                      (acc, out, s) \<leftarrow> fifo_run put get ops s;
                      Some (take m xs @ acc, out, s) }
      | Get n \<Rightarrow> do { (ys, s) \<leftarrow> get s n;
                     (acc, out, s) \<leftarrow> fifo_run put get ops s;
                     Some (acc, ys @ out, s) })"

text \<open>Counts are C \<open>unsigned int\<close>s.\<close>

definition op_fits :: "'a fifo_op \<Rightarrow> bool" where
  "op_fits op \<longleftrightarrow> (case op of Put xs \<Rightarrow> length xs < 2 ^ 32 | Get n \<Rightarrow> n < 2 ^ 32)"

section \<open>Burst operations\<close>

locale bounded_fifo =
  fixes inv :: "'s \<Rightarrow> bool"
    and contents :: "'s \<Rightarrow> 'a list"
    and room :: "'s \<Rightarrow> nat"
    and put :: "'s \<Rightarrow> 'a list \<Rightarrow> (nat \<times> 's) option"
    and get :: "'s \<Rightarrow> nat \<Rightarrow> ('a list \<times> 's) option"
  assumes put_ok: "inv s \<Longrightarrow> length xs < 2 ^ 32 \<Longrightarrow>
      \<exists>s'. put s xs = Some (min (length xs) (room s), s') \<and> inv s' \<and>
        contents s' = contents s @ take (room s) xs \<and> room s' = room s - length xs"
    and get_ok: "inv s \<Longrightarrow> n < 2 ^ 32 \<Longrightarrow>
      \<exists>s'. get s n = Some (take n (contents s), s') \<and> inv s' \<and>
        contents s' = drop n (contents s) \<and> room s' = room s + min n (length (contents s))"
begin

lemma put_get:
  assumes "inv s" "contents s = []" "length xs \<le> room s" "length xs < 2 ^ 32"
  shows "\<exists>s' s''. put s xs = Some (length xs, s') \<and> get s' (length xs) = Some (xs, s'') \<and>
    inv s'' \<and> contents s'' = []"
  using put_ok [OF assms(1,4)] get_ok assms by (metis append_Nil drop_all min.absorb1 order_refl take_all)

text \<open>
  Everything accepted is, in order, what came out followed by what is still inside; and the
  capacity does not change.
\<close>

theorem fifo_run_ok:
  assumes "inv s" "list_all op_fits ops"
  shows "\<exists>acc out s'. fifo_run put get ops s = Some (acc, out, s') \<and> inv s' \<and>
    contents s @ acc = out @ contents s' \<and>
    room s' + length (contents s') = room s + length (contents s)"
  using assms
proof (induction ops arbitrary: s)
  case Nil
  then show ?case by simp
next
  case (Cons op ops)
  show ?case
  proof (cases op)
    case (Put xs)
    with Cons.prems have f: "length xs < 2 ^ 32" by (simp add: op_fits_def)
    from put_ok [OF Cons.prems(1) f] obtain s1 where
      s1: "put s xs = Some (min (length xs) (room s), s1)" "inv s1"
        "contents s1 = contents s @ take (room s) xs" "room s1 = room s - length xs" by blast
    from Cons.IH [OF s1(2)] Cons.prems obtain acc out s' where
      s': "fifo_run put get ops s1 = Some (acc, out, s')" "inv s'"
        "contents s1 @ acc = out @ contents s'"
        "room s' + length (contents s') = room s1 + length (contents s1)" by auto
    have "take (min (length xs) (room s)) xs = take (room s) xs"
      by (simp add: min_def)
    with Put s1 s' show ?thesis by auto
  next
    case (Get n)
    with Cons.prems have f: "n < 2 ^ 32" by (simp add: op_fits_def)
    from get_ok [OF Cons.prems(1) f] obtain s1 where
      s1: "get s n = Some (take n (contents s), s1)" "inv s1"
        "contents s1 = drop n (contents s)" "room s1 = room s + min n (length (contents s))" by blast
    from Cons.IH [OF s1(2)] Cons.prems obtain acc out s' where
      s': "fifo_run put get ops s1 = Some (acc, out, s')" "inv s'"
        "contents s1 @ acc = out @ contents s'"
        "room s' + length (contents s') = room s1 + length (contents s1)" by auto
    have "contents s @ acc = (take n (contents s) @ out) @ contents s'"
      using s'(3) unfolding s1(3) by (metis append.assoc append_take_drop_id)
    with Get s1 s' show ?thesis by auto
  qed
qed

end

section \<open>All-or-nothing operations\<close>

locale bulk_fifo = bounded_fifo inv contents room put get
  for inv :: "'s \<Rightarrow> bool" and contents :: "'s \<Rightarrow> 'a list" and room :: "'s \<Rightarrow> nat"
    and put :: "'s \<Rightarrow> 'a list \<Rightarrow> (nat \<times> 's) option"
    and get :: "'s \<Rightarrow> nat \<Rightarrow> ('a list \<times> 's) option" +
  fixes put_all :: "'s \<Rightarrow> 'a list \<Rightarrow> (bool \<times> 's) option"
    and get_all :: "'s \<Rightarrow> nat \<Rightarrow> ('a list option \<times> 's) option"
  assumes put_all_ok: "inv s \<Longrightarrow> length xs < 2 ^ 32 \<Longrightarrow>
      put_all s xs = (if length xs \<le> room s then map_option (\<lambda>(m, s'). (xs \<noteq> [], s')) (put s xs)
        else Some (False, s))"
    and get_all_ok: "inv s \<Longrightarrow> n < 2 ^ 32 \<Longrightarrow>
      get_all s n = (if n \<le> length (contents s)
        then map_option (\<lambda>(ys, s'). (if n = 0 then None else Some ys, s')) (get s n)
        else Some (None, s))"
begin

lemma put_all_success:
  assumes "inv s" "length xs < 2 ^ 32" "xs \<noteq> []"
  shows "\<exists>s'. put_all s xs = Some (length xs \<le> room s, s') \<and> inv s' \<and>
    contents s' = contents s @ (if length xs \<le> room s then xs else [])"
  using put_ok [OF assms(1,2)] put_all_ok [OF assms(1,2)] assms by auto

lemma get_all_success:
  assumes "inv s" "n < 2 ^ 32" "n \<noteq> 0"
  shows "\<exists>s'. inv s' \<and>
    (if n \<le> length (contents s)
     then get_all s n = Some (Some (take n (contents s)), s') \<and> contents s' = drop n (contents s)
     else get_all s n = Some (None, s') \<and> s' = s)"
  using get_ok [OF assms(1,2)] get_all_ok [OF assms(1,2)] assms by auto

end

end
