(* ===== verification/Ring_API.thy ===== *)
theory Ring_API
  imports Ring_Queue Fifo_Spec
begin

text \<open>
  The calls a client of \<open>lib/ring\<close> makes (\<open>rte_ring_elem.h\<close>, \<open>rte_ring_hts.h\<close>,
  \<open>rte_ring_rts.h\<close>, \<open>rte_ring.h\<close>): bulk and burst forms per synchronisation mode, the
  dispatch on the mode of the ring, and the forms for tables of pointers. A ring of pointers
  is an interpretation of the queue contracts of \<open>Fifo_Spec\<close>, whatever its mode.
\<close>

section \<open>Operations of a fixed mode\<close>

definition rte_ring_mp_enqueue_bulk_elem :: "'a rte_ring \<Rightarrow> 'a list \<Rightarrow> u32 \<Rightarrow> u32 \<Rightarrow> (u32 \<times> u32 \<times> 'a rte_ring) option" where
  "rte_ring_mp_enqueue_bulk_elem r obj_table esize n =
     rte_ring_do_enqueue_elem r obj_table esize n RTE_RING_QUEUE_FIXED False"

definition rte_ring_sp_enqueue_bulk_elem :: "'a rte_ring \<Rightarrow> 'a list \<Rightarrow> u32 \<Rightarrow> u32 \<Rightarrow> (u32 \<times> u32 \<times> 'a rte_ring) option" where
  "rte_ring_sp_enqueue_bulk_elem r obj_table esize n =
     rte_ring_do_enqueue_elem r obj_table esize n RTE_RING_QUEUE_FIXED True"

definition rte_ring_mp_rts_enqueue_bulk_elem :: "'a rte_ring \<Rightarrow> 'a list \<Rightarrow> u32 \<Rightarrow> u32 \<Rightarrow> (u32 \<times> u32 \<times> 'a rte_ring) option" where
  "rte_ring_mp_rts_enqueue_bulk_elem r obj_table esize n =
     rte_ring_do_rts_enqueue_elem r obj_table esize n RTE_RING_QUEUE_FIXED"

definition rte_ring_mp_hts_enqueue_bulk_elem :: "'a rte_ring \<Rightarrow> 'a list \<Rightarrow> u32 \<Rightarrow> u32 \<Rightarrow> (u32 \<times> u32 \<times> 'a rte_ring) option" where
  "rte_ring_mp_hts_enqueue_bulk_elem r obj_table esize n =
     rte_ring_do_hts_enqueue_elem r obj_table esize n RTE_RING_QUEUE_FIXED"

definition rte_ring_mc_dequeue_bulk_elem :: "'a rte_ring \<Rightarrow> 'a list \<Rightarrow> u32 \<Rightarrow> u32 \<Rightarrow> (u32 \<times> 'a list \<times> u32 \<times> 'a rte_ring) option" where
  "rte_ring_mc_dequeue_bulk_elem r obj_table esize n =
     rte_ring_do_dequeue_elem r obj_table esize n RTE_RING_QUEUE_FIXED False"

definition rte_ring_sc_dequeue_bulk_elem :: "'a rte_ring \<Rightarrow> 'a list \<Rightarrow> u32 \<Rightarrow> u32 \<Rightarrow> (u32 \<times> 'a list \<times> u32 \<times> 'a rte_ring) option" where
  "rte_ring_sc_dequeue_bulk_elem r obj_table esize n =
     rte_ring_do_dequeue_elem r obj_table esize n RTE_RING_QUEUE_FIXED True"

definition rte_ring_mc_rts_dequeue_bulk_elem :: "'a rte_ring \<Rightarrow> 'a list \<Rightarrow> u32 \<Rightarrow> u32 \<Rightarrow> (u32 \<times> 'a list \<times> u32 \<times> 'a rte_ring) option" where
  "rte_ring_mc_rts_dequeue_bulk_elem r obj_table esize n =
     rte_ring_do_rts_dequeue_elem r obj_table esize n RTE_RING_QUEUE_FIXED"

definition rte_ring_mc_hts_dequeue_bulk_elem :: "'a rte_ring \<Rightarrow> 'a list \<Rightarrow> u32 \<Rightarrow> u32 \<Rightarrow> (u32 \<times> 'a list \<times> u32 \<times> 'a rte_ring) option" where
  "rte_ring_mc_hts_dequeue_bulk_elem r obj_table esize n =
     rte_ring_do_hts_dequeue_elem r obj_table esize n RTE_RING_QUEUE_FIXED"

definition rte_ring_mp_enqueue_burst_elem :: "'a rte_ring \<Rightarrow> 'a list \<Rightarrow> u32 \<Rightarrow> u32 \<Rightarrow> (u32 \<times> u32 \<times> 'a rte_ring) option" where
  "rte_ring_mp_enqueue_burst_elem r obj_table esize n =
     rte_ring_do_enqueue_elem r obj_table esize n RTE_RING_QUEUE_VARIABLE False"

definition rte_ring_sp_enqueue_burst_elem :: "'a rte_ring \<Rightarrow> 'a list \<Rightarrow> u32 \<Rightarrow> u32 \<Rightarrow> (u32 \<times> u32 \<times> 'a rte_ring) option" where
  "rte_ring_sp_enqueue_burst_elem r obj_table esize n =
     rte_ring_do_enqueue_elem r obj_table esize n RTE_RING_QUEUE_VARIABLE True"

definition rte_ring_mp_rts_enqueue_burst_elem :: "'a rte_ring \<Rightarrow> 'a list \<Rightarrow> u32 \<Rightarrow> u32 \<Rightarrow> (u32 \<times> u32 \<times> 'a rte_ring) option" where
  "rte_ring_mp_rts_enqueue_burst_elem r obj_table esize n =
     rte_ring_do_rts_enqueue_elem r obj_table esize n RTE_RING_QUEUE_VARIABLE"

definition rte_ring_mp_hts_enqueue_burst_elem :: "'a rte_ring \<Rightarrow> 'a list \<Rightarrow> u32 \<Rightarrow> u32 \<Rightarrow> (u32 \<times> u32 \<times> 'a rte_ring) option" where
  "rte_ring_mp_hts_enqueue_burst_elem r obj_table esize n =
     rte_ring_do_hts_enqueue_elem r obj_table esize n RTE_RING_QUEUE_VARIABLE"

definition rte_ring_mc_dequeue_burst_elem :: "'a rte_ring \<Rightarrow> 'a list \<Rightarrow> u32 \<Rightarrow> u32 \<Rightarrow> (u32 \<times> 'a list \<times> u32 \<times> 'a rte_ring) option" where
  "rte_ring_mc_dequeue_burst_elem r obj_table esize n =
     rte_ring_do_dequeue_elem r obj_table esize n RTE_RING_QUEUE_VARIABLE False"

definition rte_ring_sc_dequeue_burst_elem :: "'a rte_ring \<Rightarrow> 'a list \<Rightarrow> u32 \<Rightarrow> u32 \<Rightarrow> (u32 \<times> 'a list \<times> u32 \<times> 'a rte_ring) option" where
  "rte_ring_sc_dequeue_burst_elem r obj_table esize n =
     rte_ring_do_dequeue_elem r obj_table esize n RTE_RING_QUEUE_VARIABLE True"

definition rte_ring_mc_rts_dequeue_burst_elem :: "'a rte_ring \<Rightarrow> 'a list \<Rightarrow> u32 \<Rightarrow> u32 \<Rightarrow> (u32 \<times> 'a list \<times> u32 \<times> 'a rte_ring) option" where
  "rte_ring_mc_rts_dequeue_burst_elem r obj_table esize n =
     rte_ring_do_rts_dequeue_elem r obj_table esize n RTE_RING_QUEUE_VARIABLE"

definition rte_ring_mc_hts_dequeue_burst_elem :: "'a rte_ring \<Rightarrow> 'a list \<Rightarrow> u32 \<Rightarrow> u32 \<Rightarrow> (u32 \<times> 'a list \<times> u32 \<times> 'a rte_ring) option" where
  "rte_ring_mc_hts_dequeue_burst_elem r obj_table esize n =
     rte_ring_do_hts_dequeue_elem r obj_table esize n RTE_RING_QUEUE_VARIABLE"

section \<open>Dispatch on the mode of the ring\<close>

definition rte_ring_enqueue_bulk_elem :: "'a rte_ring \<Rightarrow> 'a list \<Rightarrow> u32 \<Rightarrow> u32 \<Rightarrow> (u32 \<times> u32 \<times> 'a rte_ring) option" where
  "rte_ring_enqueue_bulk_elem r obj_table esize n =
     (case ht_sync_type (r_prod r) of
        RTE_RING_SYNC_MT \<Rightarrow> rte_ring_mp_enqueue_bulk_elem r obj_table esize n
      | RTE_RING_SYNC_ST \<Rightarrow> rte_ring_sp_enqueue_bulk_elem r obj_table esize n
      | RTE_RING_SYNC_MT_RTS \<Rightarrow> rte_ring_mp_rts_enqueue_bulk_elem r obj_table esize n
      | RTE_RING_SYNC_MT_HTS \<Rightarrow> rte_ring_mp_hts_enqueue_bulk_elem r obj_table esize n)"

definition rte_ring_dequeue_bulk_elem :: "'a rte_ring \<Rightarrow> 'a list \<Rightarrow> u32 \<Rightarrow> u32 \<Rightarrow> (u32 \<times> 'a list \<times> u32 \<times> 'a rte_ring) option" where
  "rte_ring_dequeue_bulk_elem r obj_table esize n =
     (case ht_sync_type (r_cons r) of
        RTE_RING_SYNC_MT \<Rightarrow> rte_ring_mc_dequeue_bulk_elem r obj_table esize n
      | RTE_RING_SYNC_ST \<Rightarrow> rte_ring_sc_dequeue_bulk_elem r obj_table esize n
      | RTE_RING_SYNC_MT_RTS \<Rightarrow> rte_ring_mc_rts_dequeue_bulk_elem r obj_table esize n
      | RTE_RING_SYNC_MT_HTS \<Rightarrow> rte_ring_mc_hts_dequeue_bulk_elem r obj_table esize n)"

definition rte_ring_enqueue_burst_elem :: "'a rte_ring \<Rightarrow> 'a list \<Rightarrow> u32 \<Rightarrow> u32 \<Rightarrow> (u32 \<times> u32 \<times> 'a rte_ring) option" where
  "rte_ring_enqueue_burst_elem r obj_table esize n =
     (case ht_sync_type (r_prod r) of
        RTE_RING_SYNC_MT \<Rightarrow> rte_ring_mp_enqueue_burst_elem r obj_table esize n
      | RTE_RING_SYNC_ST \<Rightarrow> rte_ring_sp_enqueue_burst_elem r obj_table esize n
      | RTE_RING_SYNC_MT_RTS \<Rightarrow> rte_ring_mp_rts_enqueue_burst_elem r obj_table esize n
      | RTE_RING_SYNC_MT_HTS \<Rightarrow> rte_ring_mp_hts_enqueue_burst_elem r obj_table esize n)"

definition rte_ring_dequeue_burst_elem :: "'a rte_ring \<Rightarrow> 'a list \<Rightarrow> u32 \<Rightarrow> u32 \<Rightarrow> (u32 \<times> 'a list \<times> u32 \<times> 'a rte_ring) option" where
  "rte_ring_dequeue_burst_elem r obj_table esize n =
     (case ht_sync_type (r_cons r) of
        RTE_RING_SYNC_MT \<Rightarrow> rte_ring_mc_dequeue_burst_elem r obj_table esize n
      | RTE_RING_SYNC_ST \<Rightarrow> rte_ring_sc_dequeue_burst_elem r obj_table esize n
      | RTE_RING_SYNC_MT_RTS \<Rightarrow> rte_ring_mc_rts_dequeue_burst_elem r obj_table esize n
      | RTE_RING_SYNC_MT_HTS \<Rightarrow> rte_ring_mc_hts_dequeue_burst_elem r obj_table esize n)"

section \<open>Single elements\<close>

text \<open>\<open>obj\<close> is the table of units of one element.\<close>

definition rte_ring_mp_enqueue_elem :: "'a rte_ring \<Rightarrow> 'a list \<Rightarrow> u32 \<Rightarrow> (int \<times> 'a rte_ring) option" where
  "rte_ring_mp_enqueue_elem r obj esize =
     do { (n, _, r) \<leftarrow> rte_ring_mp_enqueue_bulk_elem r obj esize 1;
          Some (if n \<noteq> 0 then 0 else - ENOBUFS, r) }"

definition rte_ring_sp_enqueue_elem :: "'a rte_ring \<Rightarrow> 'a list \<Rightarrow> u32 \<Rightarrow> (int \<times> 'a rte_ring) option" where
  "rte_ring_sp_enqueue_elem r obj esize =
     do { (n, _, r) \<leftarrow> rte_ring_sp_enqueue_bulk_elem r obj esize 1;
          Some (if n \<noteq> 0 then 0 else - ENOBUFS, r) }"

definition rte_ring_enqueue_elem :: "'a rte_ring \<Rightarrow> 'a list \<Rightarrow> u32 \<Rightarrow> (int \<times> 'a rte_ring) option" where
  "rte_ring_enqueue_elem r obj esize =
     do { (n, _, r) \<leftarrow> rte_ring_enqueue_bulk_elem r obj esize 1;
          Some (if n \<noteq> 0 then 0 else - ENOBUFS, r) }"

definition rte_ring_mc_dequeue_elem :: "'a rte_ring \<Rightarrow> 'a list \<Rightarrow> u32 \<Rightarrow> (int \<times> 'a list \<times> 'a rte_ring) option" where
  "rte_ring_mc_dequeue_elem r obj_p esize =
     do { (n, obj_p, _, r) \<leftarrow> rte_ring_mc_dequeue_bulk_elem r obj_p esize 1;
          Some (if n \<noteq> 0 then 0 else - ENOENT, obj_p, r) }"

definition rte_ring_sc_dequeue_elem :: "'a rte_ring \<Rightarrow> 'a list \<Rightarrow> u32 \<Rightarrow> (int \<times> 'a list \<times> 'a rte_ring) option" where
  "rte_ring_sc_dequeue_elem r obj_p esize =
     do { (n, obj_p, _, r) \<leftarrow> rte_ring_sc_dequeue_bulk_elem r obj_p esize 1;
          Some (if n \<noteq> 0 then 0 else - ENOENT, obj_p, r) }"

definition rte_ring_dequeue_elem :: "'a rte_ring \<Rightarrow> 'a list \<Rightarrow> u32 \<Rightarrow> (int \<times> 'a list \<times> 'a rte_ring) option" where
  "rte_ring_dequeue_elem r obj_p esize =
     do { (n, obj_p, _, r) \<leftarrow> rte_ring_dequeue_bulk_elem r obj_p esize 1;
          Some (if n \<noteq> 0 then 0 else - ENOENT, obj_p, r) }"

section \<open>Tables of pointers\<close>

text \<open>\<open>sizeof(void *)\<close> is 8: one unit per element.\<close>

definition rte_ring_mp_enqueue_bulk :: "addr rte_ring \<Rightarrow> addr list \<Rightarrow> u32 \<Rightarrow> (u32 \<times> u32 \<times> addr rte_ring) option" where
  "rte_ring_mp_enqueue_bulk r obj_table n = rte_ring_mp_enqueue_bulk_elem r obj_table 8 n"

definition rte_ring_sp_enqueue_bulk :: "addr rte_ring \<Rightarrow> addr list \<Rightarrow> u32 \<Rightarrow> (u32 \<times> u32 \<times> addr rte_ring) option" where
  "rte_ring_sp_enqueue_bulk r obj_table n = rte_ring_sp_enqueue_bulk_elem r obj_table 8 n"

definition rte_ring_mp_rts_enqueue_bulk :: "addr rte_ring \<Rightarrow> addr list \<Rightarrow> u32 \<Rightarrow> (u32 \<times> u32 \<times> addr rte_ring) option" where
  "rte_ring_mp_rts_enqueue_bulk r obj_table n = rte_ring_mp_rts_enqueue_bulk_elem r obj_table 8 n"

definition rte_ring_mp_hts_enqueue_bulk :: "addr rte_ring \<Rightarrow> addr list \<Rightarrow> u32 \<Rightarrow> (u32 \<times> u32 \<times> addr rte_ring) option" where
  "rte_ring_mp_hts_enqueue_bulk r obj_table n = rte_ring_mp_hts_enqueue_bulk_elem r obj_table 8 n"

definition rte_ring_enqueue_bulk :: "addr rte_ring \<Rightarrow> addr list \<Rightarrow> u32 \<Rightarrow> (u32 \<times> u32 \<times> addr rte_ring) option" where
  "rte_ring_enqueue_bulk r obj_table n = rte_ring_enqueue_bulk_elem r obj_table 8 n"

definition rte_ring_mc_dequeue_bulk :: "addr rte_ring \<Rightarrow> addr list \<Rightarrow> u32 \<Rightarrow> (u32 \<times> addr list \<times> u32 \<times> addr rte_ring) option" where
  "rte_ring_mc_dequeue_bulk r obj_table n = rte_ring_mc_dequeue_bulk_elem r obj_table 8 n"

definition rte_ring_sc_dequeue_bulk :: "addr rte_ring \<Rightarrow> addr list \<Rightarrow> u32 \<Rightarrow> (u32 \<times> addr list \<times> u32 \<times> addr rte_ring) option" where
  "rte_ring_sc_dequeue_bulk r obj_table n = rte_ring_sc_dequeue_bulk_elem r obj_table 8 n"

definition rte_ring_mc_rts_dequeue_bulk :: "addr rte_ring \<Rightarrow> addr list \<Rightarrow> u32 \<Rightarrow> (u32 \<times> addr list \<times> u32 \<times> addr rte_ring) option" where
  "rte_ring_mc_rts_dequeue_bulk r obj_table n = rte_ring_mc_rts_dequeue_bulk_elem r obj_table 8 n"

definition rte_ring_mc_hts_dequeue_bulk :: "addr rte_ring \<Rightarrow> addr list \<Rightarrow> u32 \<Rightarrow> (u32 \<times> addr list \<times> u32 \<times> addr rte_ring) option" where
  "rte_ring_mc_hts_dequeue_bulk r obj_table n = rte_ring_mc_hts_dequeue_bulk_elem r obj_table 8 n"

definition rte_ring_dequeue_bulk :: "addr rte_ring \<Rightarrow> addr list \<Rightarrow> u32 \<Rightarrow> (u32 \<times> addr list \<times> u32 \<times> addr rte_ring) option" where
  "rte_ring_dequeue_bulk r obj_table n = rte_ring_dequeue_bulk_elem r obj_table 8 n"

definition rte_ring_mp_enqueue_burst :: "addr rte_ring \<Rightarrow> addr list \<Rightarrow> u32 \<Rightarrow> (u32 \<times> u32 \<times> addr rte_ring) option" where
  "rte_ring_mp_enqueue_burst r obj_table n = rte_ring_mp_enqueue_burst_elem r obj_table 8 n"

definition rte_ring_sp_enqueue_burst :: "addr rte_ring \<Rightarrow> addr list \<Rightarrow> u32 \<Rightarrow> (u32 \<times> u32 \<times> addr rte_ring) option" where
  "rte_ring_sp_enqueue_burst r obj_table n = rte_ring_sp_enqueue_burst_elem r obj_table 8 n"

definition rte_ring_mp_rts_enqueue_burst :: "addr rte_ring \<Rightarrow> addr list \<Rightarrow> u32 \<Rightarrow> (u32 \<times> u32 \<times> addr rte_ring) option" where
  "rte_ring_mp_rts_enqueue_burst r obj_table n = rte_ring_mp_rts_enqueue_burst_elem r obj_table 8 n"

definition rte_ring_mp_hts_enqueue_burst :: "addr rte_ring \<Rightarrow> addr list \<Rightarrow> u32 \<Rightarrow> (u32 \<times> u32 \<times> addr rte_ring) option" where
  "rte_ring_mp_hts_enqueue_burst r obj_table n = rte_ring_mp_hts_enqueue_burst_elem r obj_table 8 n"

definition rte_ring_enqueue_burst :: "addr rte_ring \<Rightarrow> addr list \<Rightarrow> u32 \<Rightarrow> (u32 \<times> u32 \<times> addr rte_ring) option" where
  "rte_ring_enqueue_burst r obj_table n = rte_ring_enqueue_burst_elem r obj_table 8 n"

definition rte_ring_mc_dequeue_burst :: "addr rte_ring \<Rightarrow> addr list \<Rightarrow> u32 \<Rightarrow> (u32 \<times> addr list \<times> u32 \<times> addr rte_ring) option" where
  "rte_ring_mc_dequeue_burst r obj_table n = rte_ring_mc_dequeue_burst_elem r obj_table 8 n"

definition rte_ring_sc_dequeue_burst :: "addr rte_ring \<Rightarrow> addr list \<Rightarrow> u32 \<Rightarrow> (u32 \<times> addr list \<times> u32 \<times> addr rte_ring) option" where
  "rte_ring_sc_dequeue_burst r obj_table n = rte_ring_sc_dequeue_burst_elem r obj_table 8 n"

definition rte_ring_mc_rts_dequeue_burst :: "addr rte_ring \<Rightarrow> addr list \<Rightarrow> u32 \<Rightarrow> (u32 \<times> addr list \<times> u32 \<times> addr rte_ring) option" where
  "rte_ring_mc_rts_dequeue_burst r obj_table n = rte_ring_mc_rts_dequeue_burst_elem r obj_table 8 n"

definition rte_ring_mc_hts_dequeue_burst :: "addr rte_ring \<Rightarrow> addr list \<Rightarrow> u32 \<Rightarrow> (u32 \<times> addr list \<times> u32 \<times> addr rte_ring) option" where
  "rte_ring_mc_hts_dequeue_burst r obj_table n = rte_ring_mc_hts_dequeue_burst_elem r obj_table 8 n"

definition rte_ring_dequeue_burst :: "addr rte_ring \<Rightarrow> addr list \<Rightarrow> u32 \<Rightarrow> (u32 \<times> addr list \<times> u32 \<times> addr rte_ring) option" where
  "rte_ring_dequeue_burst r obj_table n = rte_ring_dequeue_burst_elem r obj_table 8 n"

definition rte_ring_mp_enqueue :: "addr rte_ring \<Rightarrow> addr \<Rightarrow> (int \<times> addr rte_ring) option" where
  "rte_ring_mp_enqueue r obj = rte_ring_mp_enqueue_elem r [obj] 8"

definition rte_ring_sp_enqueue :: "addr rte_ring \<Rightarrow> addr \<Rightarrow> (int \<times> addr rte_ring) option" where
  "rte_ring_sp_enqueue r obj = rte_ring_sp_enqueue_elem r [obj] 8"

definition rte_ring_enqueue :: "addr rte_ring \<Rightarrow> addr \<Rightarrow> (int \<times> addr rte_ring) option" where
  "rte_ring_enqueue r obj = rte_ring_enqueue_elem r [obj] 8"

definition rte_ring_mc_dequeue :: "addr rte_ring \<Rightarrow> addr \<Rightarrow> (int \<times> addr \<times> addr rte_ring) option" where
  "rte_ring_mc_dequeue r obj_p =
     do { (ret, obj_p, r) \<leftarrow> rte_ring_mc_dequeue_elem r [obj_p] 8; Some (ret, hd obj_p, r) }"

definition rte_ring_sc_dequeue :: "addr rte_ring \<Rightarrow> addr \<Rightarrow> (int \<times> addr \<times> addr rte_ring) option" where
  "rte_ring_sc_dequeue r obj_p =
     do { (ret, obj_p, r) \<leftarrow> rte_ring_sc_dequeue_elem r [obj_p] 8; Some (ret, hd obj_p, r) }"

definition rte_ring_dequeue :: "addr rte_ring \<Rightarrow> addr \<Rightarrow> (int \<times> addr \<times> addr rte_ring) option" where
  "rte_ring_dequeue r obj_p =
     do { (ret, obj_p, r) \<leftarrow> rte_ring_dequeue_elem r [obj_p] 8; Some (ret, hd obj_p, r) }"

section \<open>Accessors\<close>

definition rte_ring_get_size :: "'a rte_ring \<Rightarrow> u32" where
  "rte_ring_get_size r = r_size r"

definition rte_ring_get_capacity :: "'a rte_ring \<Rightarrow> u32" where
  "rte_ring_get_capacity r = r_capacity r"

definition rte_ring_get_prod_sync_type :: "'a rte_ring \<Rightarrow> rte_ring_sync_type" where
  "rte_ring_get_prod_sync_type r = ht_sync_type (r_prod r)"

definition rte_ring_is_prod_single :: "'a rte_ring \<Rightarrow> bool" where
  "rte_ring_is_prod_single r \<longleftrightarrow> rte_ring_get_prod_sync_type r = RTE_RING_SYNC_ST"

definition rte_ring_get_cons_sync_type :: "'a rte_ring \<Rightarrow> rte_ring_sync_type" where
  "rte_ring_get_cons_sync_type r = ht_sync_type (r_cons r)"

definition rte_ring_is_cons_single :: "'a rte_ring \<Rightarrow> bool" where
  "rte_ring_is_cons_single r \<longleftrightarrow> rte_ring_get_cons_sync_type r = RTE_RING_SYNC_ST"

definition rte_ring_get_prod_htd_max :: "'a rte_ring \<Rightarrow> u32" where
  "rte_ring_get_prod_htd_max r =
     (if ht_sync_type (r_prod r) = RTE_RING_SYNC_MT_RTS then ht_htd_max (r_prod r) else 0xffffffff)"

definition rte_ring_get_cons_htd_max :: "'a rte_ring \<Rightarrow> u32" where
  "rte_ring_get_cons_htd_max r =
     (if ht_sync_type (r_cons r) = RTE_RING_SYNC_MT_RTS then ht_htd_max (r_cons r) else 0xffffffff)"

section \<open>Correctness of the dispatch\<close>

lemmas ring_mode_defs =
  rte_ring_mp_enqueue_bulk_elem_def
  rte_ring_sp_enqueue_bulk_elem_def
  rte_ring_mp_rts_enqueue_bulk_elem_def
  rte_ring_mp_hts_enqueue_bulk_elem_def
  rte_ring_mc_dequeue_bulk_elem_def
  rte_ring_sc_dequeue_bulk_elem_def
  rte_ring_mc_rts_dequeue_bulk_elem_def
  rte_ring_mc_hts_dequeue_bulk_elem_def
  rte_ring_mp_enqueue_burst_elem_def
  rte_ring_sp_enqueue_burst_elem_def
  rte_ring_mp_rts_enqueue_burst_elem_def
  rte_ring_mp_hts_enqueue_burst_elem_def
  rte_ring_mc_dequeue_burst_elem_def
  rte_ring_sc_dequeue_burst_elem_def
  rte_ring_mc_rts_dequeue_burst_elem_def
  rte_ring_mc_hts_dequeue_burst_elem_def

text \<open>
  Whatever the mode of the ring, an enqueue appends the elements it admits, and a dequeue
  removes the oldest ones.
\<close>

lemma rte_ring_enqueue_elem_ok:
  assumes "ring_inv r" "unit_esize esize" "unat (admit b n (rte_ring_free_count r)) \<le> length obj"
    and enq: "(b, enq) = (RTE_RING_QUEUE_FIXED, rte_ring_enqueue_bulk_elem) \<or>
      (b, enq) = (RTE_RING_QUEUE_VARIABLE, rte_ring_enqueue_burst_elem)"
  shows "\<exists>r'. enq r obj esize n =
      Some (admit b n (rte_ring_free_count r), rte_ring_free_count r - admit b n (rte_ring_free_count r), r') \<and>
    enqueued r obj (admit b n (rte_ring_free_count r)) r'"
  using enq rte_ring_do_enqueue_elem_ok [OF assms(1,2) _ refl assms(3)]
    rte_ring_do_hts_enqueue_elem_ok [OF assms(1,2) _ refl assms(3)]
    rte_ring_do_rts_enqueue_elem_ok [OF assms(1,2) _ refl assms(3)]
  by (auto simp: rte_ring_enqueue_bulk_elem_def rte_ring_enqueue_burst_elem_def ring_mode_defs
      split: rte_ring_sync_type.split)

lemma rte_ring_dequeue_elem_ok:
  assumes "ring_inv r" "unit_esize esize" "unat (admit b n (rte_ring_count r)) \<le> length obj"
    and deq: "(b, deq) = (RTE_RING_QUEUE_FIXED, rte_ring_dequeue_bulk_elem) \<or>
      (b, deq) = (RTE_RING_QUEUE_VARIABLE, rte_ring_dequeue_burst_elem)"
  shows "\<exists>obj' r'. deq r obj esize n =
      Some (admit b n (rte_ring_count r), obj', rte_ring_count r - admit b n (rte_ring_count r), r') \<and>
    dequeued r obj (admit b n (rte_ring_count r)) obj' r'"
  using deq rte_ring_do_dequeue_elem_ok [OF assms(1,2) _ refl assms(3)]
    rte_ring_do_hts_dequeue_elem_ok [OF assms(1,2) _ refl assms(3)]
    rte_ring_do_rts_dequeue_elem_ok [OF assms(1,2) _ refl assms(3)]
  by (auto simp: rte_ring_dequeue_bulk_elem_def rte_ring_dequeue_burst_elem_def ring_mode_defs
      split: rte_ring_sync_type.split)

lemmas rte_ring_enqueue_bulk_elem_ok = rte_ring_enqueue_elem_ok [OF _ _ _ disjI1 [OF refl]]
lemmas rte_ring_enqueue_burst_elem_ok = rte_ring_enqueue_elem_ok [OF _ _ _ disjI2 [OF refl]]
lemmas rte_ring_dequeue_bulk_elem_ok = rte_ring_dequeue_elem_ok [OF _ _ _ disjI1 [OF refl]]
lemmas rte_ring_dequeue_burst_elem_ok = rte_ring_dequeue_elem_ok [OF _ _ _ disjI2 [OF refl]]

section \<open>Bulk and burst\<close>

text \<open>
  If there is enough room (or there are enough elements) the two behaviours do the same;
  if not, a bulk request leaves the ring as it is.
\<close>

lemma move_head_prod:
  assumes "ring_inv r"
  shows "ht_sync_type (r_prod r) \<noteq> RTE_RING_SYNC_MT_RTS \<Longrightarrow>
      r_capacity r + ht_tail (r_cons r) - ht_head (r_prod r) = rte_ring_free_count r"
    "ht_sync_type (r_prod r) = RTE_RING_SYNC_MT_RTS \<Longrightarrow>
      r_capacity r + ht_tail (r_cons r) - ht_rts_pos (r_prod r) = rte_ring_free_count r"
  using quiescent_head [OF ring_inv_quiescent(1) [OF assms]] quiescent_rts [OF ring_inv_quiescent(1) [OF assms]]
    rte_ring_free_diff [OF assms] by simp_all

lemma move_head_cons:
  assumes "ring_inv r"
  shows "ht_sync_type (r_cons r) \<noteq> RTE_RING_SYNC_MT_RTS \<Longrightarrow>
      ht_tail (r_prod r) - ht_head (r_cons r) = rte_ring_count r"
    "ht_sync_type (r_cons r) = RTE_RING_SYNC_MT_RTS \<Longrightarrow>
      ht_tail (r_prod r) - ht_rts_pos (r_cons r) = rte_ring_count r"
  using quiescent_head [OF ring_inv_quiescent(2) [OF assms]] quiescent_rts [OF ring_inv_quiescent(2) [OF assms]]
    rte_ring_count_diff [OF assms] by simp_all

lemma admit_enough: "n \<le> avail \<Longrightarrow> admit b n avail = n"
  by (simp add: admit_def leD)

lemma enqueue_bulk_enough:
  assumes "ring_inv r" "n \<le> rte_ring_free_count r"
  shows "rte_ring_enqueue_bulk_elem r obj esize n = rte_ring_enqueue_burst_elem r obj esize n"
  using assms(2) move_head_prod [OF assms(1)] quiescent_head [OF ring_inv_quiescent(1) [OF assms(1)]]
    quiescent_rts [OF ring_inv_quiescent(1) [OF assms(1)]]
  by (cases "ht_sync_type (r_prod r)")
     (simp_all add: rte_ring_enqueue_bulk_elem_def rte_ring_enqueue_burst_elem_def ring_mode_defs
      rte_ring_do_enqueue_elem_def rte_ring_move_prod_head_def
      rte_ring_do_hts_enqueue_elem_def rte_ring_hts_move_prod_head_def rte_ring_hts_head_wait_def
      rte_ring_do_rts_enqueue_elem_def rte_ring_rts_move_prod_head_def rte_ring_rts_head_wait_def
      admit_enough)

lemma enqueue_bulk_refused:
  assumes "ring_inv r" "rte_ring_free_count r < n"
  shows "rte_ring_enqueue_bulk_elem r obj esize n = Some (0, rte_ring_free_count r, r)"
  using assms(2) move_head_prod [OF assms(1)] quiescent_head [OF ring_inv_quiescent(1) [OF assms(1)]]
    quiescent_rts [OF ring_inv_quiescent(1) [OF assms(1)]]
  by (cases "ht_sync_type (r_prod r)")
     (simp_all add: rte_ring_enqueue_bulk_elem_def ring_mode_defs
      rte_ring_do_enqueue_elem_def rte_ring_move_prod_head_def
      rte_ring_do_hts_enqueue_elem_def rte_ring_hts_move_prod_head_def rte_ring_hts_head_wait_def
      rte_ring_do_rts_enqueue_elem_def rte_ring_rts_move_prod_head_def rte_ring_rts_head_wait_def
      admit_def Let_def)

lemma dequeue_bulk_enough:
  assumes "ring_inv r" "n \<le> rte_ring_count r"
  shows "rte_ring_dequeue_bulk_elem r obj esize n = rte_ring_dequeue_burst_elem r obj esize n"
  using assms(2) move_head_cons [OF assms(1)] quiescent_head [OF ring_inv_quiescent(2) [OF assms(1)]]
    quiescent_rts [OF ring_inv_quiescent(2) [OF assms(1)]]
  by (cases "ht_sync_type (r_cons r)")
     (simp_all add: rte_ring_dequeue_bulk_elem_def rte_ring_dequeue_burst_elem_def ring_mode_defs
      rte_ring_do_dequeue_elem_def rte_ring_move_cons_head_def
      rte_ring_do_hts_dequeue_elem_def rte_ring_hts_move_cons_head_def rte_ring_hts_head_wait_def
      rte_ring_do_rts_dequeue_elem_def rte_ring_rts_move_cons_head_def rte_ring_rts_head_wait_def
      admit_enough)

lemma dequeue_bulk_refused:
  assumes "ring_inv r" "rte_ring_count r < n"
  shows "rte_ring_dequeue_bulk_elem r obj esize n = Some (0, obj, rte_ring_count r, r)"
  using assms(2) move_head_cons [OF assms(1)] quiescent_head [OF ring_inv_quiescent(2) [OF assms(1)]]
    quiescent_rts [OF ring_inv_quiescent(2) [OF assms(1)]]
  by (cases "ht_sync_type (r_cons r)")
     (simp_all add: rte_ring_dequeue_bulk_elem_def ring_mode_defs
      rte_ring_do_dequeue_elem_def rte_ring_move_cons_head_def
      rte_ring_do_hts_dequeue_elem_def rte_ring_hts_move_cons_head_def rte_ring_hts_head_wait_def
      rte_ring_do_rts_dequeue_elem_def rte_ring_rts_move_cons_head_def rte_ring_rts_head_wait_def
      admit_def Let_def)

section \<open>A ring of pointers is a bounded queue\<close>

definition ring_room :: "'a rte_ring \<Rightarrow> nat" where
  "ring_room r = unat (rte_ring_free_count r)"

text \<open>A call with a table of exactly the elements, and one with a fresh table of \<open>n\<close> entries.\<close>

definition ring_put_burst :: "addr rte_ring \<Rightarrow> addr list \<Rightarrow> (nat \<times> addr rte_ring) option" where
  "ring_put_burst r xs =
     do { (m, _, r) \<leftarrow> rte_ring_enqueue_burst r xs (of_nat (length xs)); Some (unat m, r) }"

definition ring_get_burst :: "addr rte_ring \<Rightarrow> nat \<Rightarrow> (addr list \<times> addr rte_ring) option" where
  "ring_get_burst r n =
     do { (m, t, _, r) \<leftarrow> rte_ring_dequeue_burst r (replicate n NULL) (of_nat n); Some (take (unat m) t, r) }"

definition ring_put_bulk :: "addr rte_ring \<Rightarrow> addr list \<Rightarrow> (bool \<times> addr rte_ring) option" where
  "ring_put_bulk r xs =
     do { (m, _, r) \<leftarrow> rte_ring_enqueue_bulk r xs (of_nat (length xs)); Some (m \<noteq> 0, r) }"

definition ring_get_bulk :: "addr rte_ring \<Rightarrow> nat \<Rightarrow> (addr list option \<times> addr rte_ring) option" where
  "ring_get_bulk r n =
     do { (m, t, _, r) \<leftarrow> rte_ring_dequeue_bulk r (replicate n NULL) (of_nat n);
          Some (if m = 0 then None else Some (take (unat m) t), r) }"

lemma unat_of_len: "k < 2 ^ 32 \<Longrightarrow> unat (of_nat k :: u32) = k"
  by (simp add: unat_of_nat)

lemma of_nat_0_len: "k < 2 ^ 32 \<Longrightarrow> of_nat k = (0 :: u32) \<longleftrightarrow> k = 0"
  using unat_of_len [of k] by (auto simp flip: unat_0_iff)

lemma unat_admit_burst:
  "k < 2 ^ 32 \<Longrightarrow> unat (admit RTE_RING_QUEUE_VARIABLE (of_nat k) avail) = min k (unat avail)"
  by (auto simp: admit_def word_less_nat_alt unat_of_len min_def)

lemma ring_put_burst_ok:
  assumes "ring_inv r" "length xs < 2 ^ 32"
  shows "\<exists>r'. ring_put_burst r xs = Some (min (length xs) (ring_room r), r') \<and> ring_inv r' \<and>
    ring_list r' = ring_list r @ take (ring_room r) xs \<and> ring_room r' = ring_room r - length xs"
proof -
  let ?m = "admit RTE_RING_QUEUE_VARIABLE (of_nat (length xs)) (rte_ring_free_count r)"
  have m: "unat ?m = min (length xs) (ring_room r)"
    using assms(2) by (simp add: unat_admit_burst ring_room_def)
  from rte_ring_enqueue_burst_elem_ok [OF assms(1), of 8 "of_nat (length xs)" xs] m obtain r' where
    r': "rte_ring_enqueue_burst_elem r xs 8 (of_nat (length xs)) = Some (?m, rte_ring_free_count r - ?m, r')"
      "enqueued r xs ?m r'" by (auto simp: unit_esize_def)
  have "unat (rte_ring_free_count r - ?m) = ring_room r - length xs"
    using m by (subst unat_sub_nowrap) (auto simp: ring_room_def)
  moreover have "take (min (length xs) (ring_room r)) xs = take (ring_room r) xs" by (simp add: min_def)
  ultimately show ?thesis
    using r' m by (auto simp: ring_put_burst_def rte_ring_enqueue_burst_def enqueued_def ring_room_def)
qed

lemma ring_get_burst_ok:
  assumes "ring_inv r" "n < 2 ^ 32"
  shows "\<exists>r'. ring_get_burst r n = Some (take n (ring_list r), r') \<and> ring_inv r' \<and>
    ring_list r' = drop n (ring_list r) \<and> ring_room r' = ring_room r + min n (length (ring_list r))"
proof -
  let ?m = "admit RTE_RING_QUEUE_VARIABLE (of_nat n) (rte_ring_count r)"
  have m: "unat ?m = min n (ring_used r)"
    using assms rte_ring_count_used [OF assms(1)] by (simp add: unat_admit_burst)
  from rte_ring_dequeue_burst_elem_ok [OF assms(1), of 8 "of_nat n" "replicate n NULL"] m obtain obj' r' where
    r': "rte_ring_dequeue_burst_elem r (replicate n NULL) 8 (of_nat n) = Some (?m, obj', rte_ring_count r - ?m, r')"
      "dequeued r (replicate n NULL) ?m obj' r'" by (auto simp: unit_esize_def)
  have l: "ring_list r' = drop n (ring_list r)" "take (unat ?m) obj' = take n (ring_list r)"
    using r'(2) m by (auto simp: dequeued_def min_def)
  moreover have "ring_room r' = ring_room r + min n (length (ring_list r))"
  proof -
    have "ring_used r' = ring_used r - n" using arg_cong [OF l(1), of length] by simp
    moreover have "ring_inv r'" "r_capacity r' = r_capacity r"
      using r'(2) by (simp_all add: dequeued_def same_ring_def)
    ultimately show ?thesis
      using rte_ring_free_count_used [of r'] rte_ring_free_count_used [OF assms(1)] assms(1)
      by (auto simp: ring_room_def ring_inv_def)
  qed
  ultimately show ?thesis
    using r' by (auto simp: ring_get_burst_def rte_ring_dequeue_burst_def dequeued_def)
qed

interpretation ring_q: bounded_fifo ring_inv ring_list ring_room ring_put_burst ring_get_burst
  by unfold_locales (rule ring_put_burst_ok ring_get_burst_ok; assumption)+

interpretation ring_q: bulk_fifo ring_inv ring_list ring_room ring_put_burst ring_get_burst
  ring_put_bulk ring_get_bulk
proof unfold_locales
  fix r :: "addr rte_ring" and xs :: "addr list"
  assume r: "ring_inv r" and xs: "length xs < 2 ^ 32"
  show "ring_put_bulk r xs = (if length xs \<le> ring_room r
      then map_option (\<lambda>(m, s'). (xs \<noteq> [], s')) (ring_put_burst r xs) else Some (False, r))"
  proof (cases "length xs \<le> ring_room r")
    case True
    then have le: "of_nat (length xs) \<le> rte_ring_free_count r"
      using xs by (simp add: word_le_nat_alt unat_of_len ring_room_def)
    from rte_ring_enqueue_burst_elem_ok [OF r, of 8 "of_nat (length xs)" xs] xs
    obtain r' where
      "rte_ring_enqueue_burst_elem r xs 8 (of_nat (length xs)) =
        Some (of_nat (length xs), rte_ring_free_count r - of_nat (length xs), r')"
      by (auto simp: unit_esize_def admit_enough [OF le] unat_of_len)
    moreover have "(of_nat (length xs) = (0 :: u32)) = (xs = [])"
      using of_nat_0_len [OF xs] by simp
    ultimately show ?thesis
      using True enqueue_bulk_enough [OF r le]
      by (simp add: ring_put_bulk_def ring_put_burst_def rte_ring_enqueue_bulk_def rte_ring_enqueue_burst_def)
  next
    case False
    then have "rte_ring_free_count r < of_nat (length xs)"
      using xs by (simp add: word_less_nat_alt unat_of_len ring_room_def)
    with False show ?thesis
      by (simp add: ring_put_bulk_def rte_ring_enqueue_bulk_def enqueue_bulk_refused [OF r])
  qed
next
  fix r :: "addr rte_ring" and n :: nat
  assume r: "ring_inv r" and n: "n < 2 ^ 32"
  show "ring_get_bulk r n = (if n \<le> length (ring_list r)
      then map_option (\<lambda>(ys, s'). (if n = 0 then None else Some ys, s')) (ring_get_burst r n)
      else Some (None, r))"
  proof (cases "n \<le> length (ring_list r)")
    case True
    then have le: "of_nat n \<le> rte_ring_count r"
      using n rte_ring_count_used [OF r] by (simp add: word_le_nat_alt unat_of_len)
    from rte_ring_dequeue_burst_elem_ok [OF r, of 8 "of_nat n" "replicate n NULL"] n
    obtain obj' r' where
      "rte_ring_dequeue_burst_elem r (replicate n NULL) 8 (of_nat n) =
        Some (of_nat n, obj', rte_ring_count r - of_nat n, r')"
      by (auto simp: unit_esize_def admit_enough [OF le] unat_of_len)
    moreover have "(of_nat n = (0 :: u32)) = (n = 0)" by (rule of_nat_0_len [OF n])
    ultimately show ?thesis
      using True dequeue_bulk_enough [OF r le]
      by (simp add: ring_get_bulk_def ring_get_burst_def rte_ring_dequeue_bulk_def rte_ring_dequeue_burst_def)
  next
    case False
    then have "rte_ring_count r < of_nat n"
      using n rte_ring_count_used [OF r] by (simp add: word_less_nat_alt unat_of_len)
    with False show ?thesis
      by (simp add: ring_get_bulk_def rte_ring_dequeue_bulk_def dequeue_bulk_refused [OF r])
  qed
qed

end
