(* ===== verification/Ring_Registry.thy ===== *)
theory Ring_Registry
  imports Ring_API
begin

text \<open>
  Creation, lookup and release of named rings (\<open>lib/ring/rte_ring.c\<close>). The memory zones
  come from \<open>lib/eal\<close>, which is not modelled: a reservation is a parameter that gives the
  address of the zone and the memory in it, or an errno.
\<close>

section \<open>Creation\<close>

definition RTE_MEMZONE_NAMESIZE :: nat where "RTE_MEMZONE_NAMESIZE = 32"
definition RTE_RING_MZ_PREFIX :: string where "RTE_RING_MZ_PREFIX = ''RG_''"

text \<open>\<open>rte_ring_list\<close>: the address and the name of each ring, oldest first.\<close>

type_synonym ring_registry = "(addr \<times> string) list"

text \<open>
  \<open>Inl\<close> is the value of \<open>rte_errno\<close> with a NULL result. \<open>te_ok\<close> is whether the list
  entry could be allocated; \<open>reserve\<close> is \<open>rte_memzone_reserve_aligned\<close>, which returns the
  address of a zone of the given length with whatever the memory holds. The result of
  \<open>rte_ring_init\<close> is not looked at.
\<close>

definition rte_ring_create_elem ::
  "(string \<Rightarrow> int \<Rightarrow> int + addr \<times> 'a rte_ring) \<Rightarrow> bool \<Rightarrow> ring_registry \<Rightarrow>
     string \<Rightarrow> u32 \<Rightarrow> u32 \<Rightarrow> u32 \<Rightarrow> (int + addr \<times> 'a rte_ring) \<times> ring_registry" where
  "rte_ring_create_elem reserve te_ok reg name esize cnt flags =
     (let requested_count = cnt;
          cnt = (if flags AND RING_F_EXACT_SZ \<noteq> 0 then rte_align32pow2 (cnt + 1) else cnt);
          ring_size = rte_ring_get_memsize_elem esize cnt
      in if ring_size < 0 then (Inl ring_size, reg)
      else let mz_name = RTE_RING_MZ_PREFIX @ name
      in if RTE_MEMZONE_NAMESIZE \<le> length mz_name then (Inl ENAMETOOLONG, reg)
      else if \<not> te_ok then (Inl ENOMEM, reg)
      else case reserve mz_name ring_size of
             Inl e \<Rightarrow> (Inl e, reg)
           | Inr (mz, r) \<Rightarrow>
               let (_, r) = rte_ring_init r name requested_count flags;
                   r = r\<lparr>r_memzone := Some mz\<rparr>
               in (Inr (mz, r), reg @ [(mz, r_name r)]))"

definition rte_ring_create ::
  "(string \<Rightarrow> int \<Rightarrow> int + addr \<times> addr rte_ring) \<Rightarrow> bool \<Rightarrow> ring_registry \<Rightarrow>
     string \<Rightarrow> u32 \<Rightarrow> u32 \<Rightarrow> (int + addr \<times> addr rte_ring) \<times> ring_registry" where
  "rte_ring_create reserve te_ok reg name cnt flags = rte_ring_create_elem reserve te_ok reg name 8 cnt flags"

section \<open>Release and lookup\<close>

text \<open>\<open>mz_free\<close> is the result of \<open>rte_memzone_free\<close>; the first entry with the address goes.\<close>

primrec tailq_remove :: "addr \<Rightarrow> ring_registry \<Rightarrow> ring_registry" where
  "tailq_remove a [] = []"
| "tailq_remove a (e # es) = (if fst e = a then es else e # tailq_remove a es)"

definition rte_ring_free :: "int \<Rightarrow> ring_registry \<Rightarrow> (addr \<times> 'a rte_ring) option \<Rightarrow> ring_registry" where
  "rte_ring_free mz_free reg ptr =
     (case ptr of
        None \<Rightarrow> reg
      | Some (a, r) \<Rightarrow>
          if r_memzone r = None then reg
          else if mz_free \<noteq> 0 then reg
          else tailq_remove a reg)"

definition rte_ring_lookup :: "ring_registry \<Rightarrow> string \<Rightarrow> int + addr" where
  "rte_ring_lookup reg name =
     (case find (\<lambda>(_, n). take RTE_RING_NAMESIZE n = take RTE_RING_NAMESIZE name) reg of
        None \<Rightarrow> Inl ENOENT
      | Some (a, _) \<Rightarrow> Inr a)"

section \<open>Lemmas\<close>

text \<open>
  What the reservation gives the ring: room for the table, if its size has not wrapped
  around in 32 bits.
\<close>

definition reserve_ok :: "(string \<Rightarrow> int \<Rightarrow> int + addr \<times> 'a rte_ring) \<Rightarrow> bool" where
  "reserve_ok reserve \<longleftrightarrow>
     (\<forall>name len mz r. reserve name len = Inr (mz, r) \<longrightarrow>
        len \<le> 384 + 8 * int (length (r_slots r)))"

lemma memsize_8_exact:
  assumes "POWEROF2 cnt" "unat cnt \<le> 2 ^ 28"
  shows "rte_ring_get_memsize cnt = int ((384 + 8 * unat cnt + 63) div 64 * 64)"
proof -
  let ?sz = "sizeof_rte_ring + ucast (cnt * 8) :: u64"
  have m: "unat (cnt * 8) = 8 * unat cnt" using assms(2) by (simp add: unat_word_ariths)
  have u: "unat (ucast (cnt * 8) :: u64) = 8 * unat cnt"
    using assms(2) by (simp add: unsigned_ucast_eq m take_bit_nat_eq_self)
  have s: "unat ?sz = 384 + 8 * unat cnt"
    using assms(2) u by (subst unat_add_nowrap) (simp_all add: sizeof_rte_ring_def)
  have ac: "unat (RTE_ALIGN_CEIL ?sz RTE_CACHE_LINE_SIZE) = (unat ?sz + 63) div 64 * 64"
    using align_ceil_pow2 [of 6 ?sz] s assms(2) by (simp add: RTE_CACHE_LINE_SIZE_def)
  then have b: "unat (RTE_ALIGN_CEIL ?sz RTE_CACHE_LINE_SIZE) \<le> 2 ^ 32" using s assms(2) by simp
  have "\<not> RTE_RING_SZ_MASK < cnt" using assms(2) by (simp add: RTE_RING_SZ_MASK_def word_less_nat_alt)
  with assms(1) have "rte_ring_get_memsize cnt = sint (RTE_ALIGN_CEIL ?sz RTE_CACHE_LINE_SIZE)"
    by (simp add: rte_ring_get_memsize_def rte_ring_get_memsize_elem_def Let_def)
  also have "\<dots> = int (unat (RTE_ALIGN_CEIL ?sz RTE_CACHE_LINE_SIZE))"
    using b by (intro sint_small) simp
  finally show ?thesis using ac s by simp
qed

lemma memsize_8:
  assumes "rte_ring_get_memsize cnt = len" "0 \<le> len" "unat cnt \<le> 2 ^ 28"
  shows "POWEROF2 cnt" "384 + 8 * int (unat cnt) \<le> len"
proof -
  from assms(1,2) show pow: "POWEROF2 cnt"
    by (auto simp: rte_ring_get_memsize_def rte_ring_get_memsize_elem_def split: if_splits)
  show "384 + 8 * int (unat cnt) \<le> len"
    using memsize_8_exact [OF pow assms(3)] assms(1) by linarith
qed

definition valid_ring_flags :: "u32 \<Rightarrow> bool" where
  "valid_ring_flags flags \<longleftrightarrow>
     flags AND NOT RING_F_MASK = 0 \<and> fst (get_sync_type flags RTE_RING_SYNC_MT RTE_RING_SYNC_MT) = 0"

lemma rte_ring_init_returns:
  assumes "valid_ring_flags flags" "length name < RTE_RING_NAMESIZE"
    and "flags AND RING_F_EXACT_SZ = 0 \<Longrightarrow> POWEROF2 cnt \<and> cnt \<le> RTE_RING_SZ_MASK"
  shows "\<exists>r'. rte_ring_init r name cnt flags = (0, r') \<and>
    r_size r' = (if flags AND RING_F_EXACT_SZ \<noteq> 0 then rte_align32pow2 (cnt + 1) else cnt)"
proof -
  obtain p c where st: "get_sync_type flags RTE_RING_SYNC_MT RTE_RING_SYNC_MT = (0, p, c)"
    using assms(1) by (cases "get_sync_type flags RTE_RING_SYNC_MT RTE_RING_SYNC_MT") (auto simp: valid_ring_flags_def)
  have "ht_sync_type zero_headtail = RTE_RING_SYNC_MT" by (simp add: zero_headtail_def)
  moreover have "flags AND RING_F_EXACT_SZ = 0 \<Longrightarrow> POWEROF2 cnt \<and> \<not> RTE_RING_SZ_MASK < cnt"
    using assms(3) by auto
  ultimately show ?thesis using assms(1,2) st
    by (simp add: rte_ring_init_def Let_def valid_ring_flags_def leD set_htd_max_frame)
qed

text \<open>What \<open>rte_ring_create\<close> returns is an empty ring of the requested capacity.\<close>

lemma rte_ring_create_inv:
  assumes c: "rte_ring_create reserve te_ok reg name cnt flags = (Inr (mz, r), reg')"
    and "reserve_ok reserve" "valid_ring_flags flags" "cnt \<noteq> 0" "unat cnt < 2 ^ 28"
  shows "ring_inv r" "ring_list r = []"
    "r_capacity r = (if flags AND RING_F_EXACT_SZ \<noteq> 0 then cnt else cnt - 1)"
    "r_memzone r = Some mz" "reg' = reg @ [(mz, r_name r)]"
proof -
  define sz where "sz = (if flags AND RING_F_EXACT_SZ \<noteq> 0 then rte_align32pow2 (cnt + 1) else cnt)"
  have c1: "unat (cnt + 1) = unat cnt + 1" using assms(5) by (simp add: unat_add_nowrap)
  have "unat (rte_align32pow2 (cnt + 1)) \<le> 2 ^ 28"
  proof -
    from c1 have "cnt + 1 \<noteq> 0" by (metis add_is_0 one_neq_zero unat_0)
    from align32pow2_correct [OF this] c1 assms(5) obtain k where
      k: "unat (rte_align32pow2 (cnt + 1)) = 2 ^ k" "k = 0 \<or> 2 ^ (k - 1) < unat (cnt + 1)" by auto
    have "(2::nat) ^ k < 2 * unat (cnt + 1)"
      using k(2) c1 by (cases k) auto
    moreover have "2 * unat (cnt + 1) \<le> 2 ^ 29" using c1 assms(5) by simp
    ultimately have "(2::nat) ^ k < 2 ^ 29" by (rule less_le_trans)
    then have "k < 29" by (rule power_less_imp_less_exp [rotated]) simp
    then have "(2::nat) ^ k \<le> 2 ^ 28" by (intro power_increasing) auto
    with k show ?thesis by simp
  qed
  then have sz28: "unat sz \<le> 2 ^ 28" using assms(5) by (simp add: sz_def)
  from c obtain raw where raw: "reserve (RTE_RING_MZ_PREFIX @ name) (rte_ring_get_memsize_elem 8 sz) = Inr (mz, raw)"
    and r: "r = (snd (rte_ring_init raw name cnt flags))\<lparr>r_memzone := Some mz\<rparr>"
    and reg: "reg' = reg @ [(mz, r_name r)]"
    and len: "\<not> rte_ring_get_memsize_elem 8 sz < 0" and nm: "\<not> RTE_MEMZONE_NAMESIZE \<le> length (RTE_RING_MZ_PREFIX @ name)"
    by (auto simp: rte_ring_create_def rte_ring_create_elem_def Let_def sz_def [symmetric]
        split: if_splits sum.splits prod.splits)
  have ms: "POWEROF2 sz" "384 + 8 * int (unat sz) \<le> rte_ring_get_memsize_elem 8 sz"
    using memsize_8 [of sz "rte_ring_get_memsize_elem 8 sz"] len sz28 by (simp_all add: rte_ring_get_memsize_def)
  have slots: "unat sz \<le> length (r_slots raw)"
  proof -
    have "rte_ring_get_memsize_elem 8 sz \<le> 384 + 8 * int (length (r_slots raw))"
      using assms(2) raw unfolding reserve_ok_def by blast
    with ms(2) show ?thesis by linarith
  qed
  have le: "cnt \<le> RTE_RING_SZ_MASK" using assms(5) by (simp add: RTE_RING_SZ_MASK_def word_le_nat_alt)
  have "length name < RTE_RING_NAMESIZE"
    using nm by (simp add: RTE_MEMZONE_NAMESIZE_def RTE_RING_MZ_PREFIX_def RTE_RING_NAMESIZE_def)
  from rte_ring_init_returns [OF assms(3) this, of cnt raw] ms(1) le obtain r0 where
    r0: "rte_ring_init raw name cnt flags = (0, r0)" "r_size r0 = sz" by (auto simp: sz_def split: if_splits)
  note i = rte_ring_init_inv [OF r0(1)]
  have "ring_inv r0" "ring_list r0 = []" "r_capacity r0 = (if flags AND RING_F_EXACT_SZ \<noteq> 0 then cnt else cnt - 1)"
    using i assms(4,5) slots r0(2) by simp_all
  moreover have "r = r0\<lparr>r_memzone := Some mz\<rparr>" using r r0 by simp
  ultimately show "ring_inv r" "ring_list r = []" "r_memzone r = Some mz" "reg' = reg @ [(mz, r_name r)]"
    "r_capacity r = (if flags AND RING_F_EXACT_SZ \<noteq> 0 then cnt else cnt - 1)"
    using reg by (simp_all add: ring_inv_def ring_geom_def ring_used_def ring_list_def)
qed

end
