(* ===== verification/Ring_Properties.thy ===== *)
theory Ring_Properties
  imports Ring_Registry
begin

text \<open>
  The properties of the ring library (\<open>Eal_Bits\<close> to \<open>Ring_Registry\<close>) with their
  witnesses. \<open>ring4\<close> is a ring of four slots set up by \<open>rte_ring_init\<close> over memory with
  arbitrary contents; \<open>ring4_rts\<close> is one whose two ends use the RTS mode.
\<close>

section \<open>Concrete rings\<close>

definition raw_ring :: "nat \<Rightarrow> addr rte_ring" where
  "raw_ring n = \<lparr>r_name = ''junk'', r_flags = 7, r_memzone = None, r_size = 99, r_mask = 5, r_capacity = 3,
     r_prod = zero_headtail\<lparr>ht_head := 17\<rparr>, r_cons = zero_headtail\<lparr>ht_tail := 4\<rparr>,
     r_slots = replicate n 77\<rparr>"

definition ring4 :: "addr rte_ring" where
  "ring4 = snd (rte_ring_init (raw_ring 4) ''r'' 4 0)"

definition ring4_rts :: "addr rte_ring" where
  "ring4_rts = snd (rte_ring_init (raw_ring 4) ''r'' 4 (RING_F_MP_RTS_ENQ OR RING_F_MC_HTS_DEQ))"

lemma ring4_inv: "ring_inv ring4" by code_simp
lemma ring4_rts_inv: "ring_inv ring4_rts" by code_simp

section \<open>Queue operations\<close>

text \<open>
  C7: over any sequence of burst enqueues and dequeues, of any sizes and in whatever
  synchronisation mode the ring has, no pointer is lost, duplicated or reordered: what the
  ring held and accepted is, in order, what it handed out followed by what it still holds,
  and free slots plus elements stay the same.
\<close>

theorem ring_fifo_run:
  assumes "ring_inv r" "list_all op_fits ops"
  shows "\<exists>acc out r'. fifo_run ring_put_burst ring_get_burst ops r = Some (acc, out, r') \<and> ring_inv r' \<and>
    ring_list r @ acc = out @ ring_list r' \<and>
    ring_room r' + length (ring_list r') = ring_room r + length (ring_list r)"
  using ring_q.fifo_run_ok [OF assms] .

theorem ring_fifo_run_witness:
  "\<exists>acc out r'. fifo_run ring_put_burst ring_get_burst [Put [1, 2], Get 1, Put [3, 4, 5], Get 9] ring4_rts =
      Some (acc, out, r') \<and> ring_inv r' \<and> ring_list ring4_rts @ acc = out @ ring_list r' \<and>
    ring_room r' + length (ring_list r') = ring_room ring4_rts + length (ring_list ring4_rts)"
  by (rule ring_fifo_run [OF ring4_rts_inv]) (simp add: op_fits_def)

text \<open>
  A bulk enqueue of pointers is all or nothing. With room for all of them it appends
  them in order and returns their number; otherwise it returns 0 and the ring is untouched.
  The free space reported is the one after the call.
\<close>

theorem ring_enqueue_bulk_all_or_nothing:
  assumes "ring_inv r" "unat n \<le> length obj"
  shows "\<exists>r'. ring_inv r' \<and>
    (if n \<le> rte_ring_free_count r
     then rte_ring_enqueue_bulk r obj n = Some (n, rte_ring_free_count r - n, r') \<and>
       ring_list r' = ring_list r @ take (unat n) obj
     else rte_ring_enqueue_bulk r obj n = Some (0, rte_ring_free_count r, r') \<and> r' = r)"
proof (cases "n \<le> rte_ring_free_count r")
  case True
  with rte_ring_enqueue_bulk_elem_ok [OF assms(1), of 8 n obj] assms(2) show ?thesis
    by (auto simp: unit_esize_def admit_enough rte_ring_enqueue_bulk_def enqueued_def)
next
  case False
  with enqueue_bulk_refused [OF assms(1), of n obj 8] assms(1) show ?thesis
    by (simp add: rte_ring_enqueue_bulk_def)
qed

theorem ring_enqueue_bulk_all_or_nothing_witness:
  "\<exists>r'. ring_inv r' \<and>
    (if (2 :: u32) \<le> rte_ring_free_count ring4
     then rte_ring_enqueue_bulk ring4 [8, 9] 2 = Some (2, rte_ring_free_count ring4 - 2, r') \<and>
       ring_list r' = ring_list ring4 @ take (unat (2 :: u32)) [8, 9]
     else rte_ring_enqueue_bulk ring4 [8, 9] 2 = Some (0, rte_ring_free_count ring4, r') \<and> r' = ring4)"
  by (rule ring_enqueue_bulk_all_or_nothing [OF ring4_inv]) simp

text \<open>
  A bulk dequeue removes the \<open>n\<close> oldest pointers and writes them to the head of the
  caller's table, or, if the ring holds fewer, returns 0 and changes neither.
\<close>

theorem ring_dequeue_bulk_all_or_nothing:
  assumes "ring_inv r" "unat n \<le> length obj"
  shows "\<exists>r'. ring_inv r' \<and>
    (if n \<le> rte_ring_count r
     then rte_ring_dequeue_bulk r obj n =
         Some (n, take (unat n) (ring_list r) @ drop (unat n) obj, rte_ring_count r - n, r') \<and>
       ring_list r' = drop (unat n) (ring_list r)
     else rte_ring_dequeue_bulk r obj n = Some (0, obj, rte_ring_count r, r') \<and> r' = r)"
proof (cases "n \<le> rte_ring_count r")
  case True
  with rte_ring_dequeue_bulk_elem_ok [OF assms(1), of 8 n obj] assms(2) show ?thesis
    by (auto simp: unit_esize_def admit_enough rte_ring_dequeue_bulk_def dequeued_def)
next
  case False
  with dequeue_bulk_refused [OF assms(1), of n obj 8] assms(1) show ?thesis
    by (simp add: rte_ring_dequeue_bulk_def)
qed

theorem ring_dequeue_bulk_all_or_nothing_witness:
  "\<exists>r'. ring_inv r' \<and>
    (if (1 :: u32) \<le> rte_ring_count ring4
     then rte_ring_dequeue_bulk ring4 [6] 1 =
         Some (1, take (unat (1 :: u32)) (ring_list ring4) @ drop (unat (1 :: u32)) [6], rte_ring_count ring4 - 1, r') \<and>
       ring_list r' = drop (unat (1 :: u32)) (ring_list ring4)
     else rte_ring_dequeue_bulk ring4 [6] 1 = Some (0, [6], rte_ring_count ring4, r') \<and> r' = ring4)"
  by (rule ring_dequeue_bulk_all_or_nothing [OF ring4_inv]) simp

text \<open>
  The counters are exact on every well-formed ring, whatever number of times the 32-bit
  indexes have wrapped around: \<open>rte_ring_count\<close> is the number of elements,
  \<open>rte_ring_free_count\<close> what is left of the capacity, and the empty and full tests agree.
\<close>

theorem ring_counters_exact:
  assumes "ring_inv r"
  shows "unat (rte_ring_count r) = length (ring_list r) \<and>
    unat (rte_ring_free_count r) + length (ring_list r) = unat (r_capacity r) \<and>
    rte_ring_empty r = (ring_list r = []) \<and>
    rte_ring_full r = (length (ring_list r) = unat (r_capacity r))"
proof -
  have "ring_used r \<le> unat (r_capacity r)" using assms by (simp add: ring_inv_def)
  with assms show ?thesis
    by (simp add: rte_ring_count_used rte_ring_free_count_used rte_ring_empty_iff rte_ring_full_iff)
qed

theorem ring_counters_exact_witness:
  "unat (rte_ring_count ring4) = length (ring_list ring4) \<and>
    unat (rte_ring_free_count ring4) + length (ring_list ring4) = unat (r_capacity ring4) \<and>
    rte_ring_empty ring4 = (ring_list ring4 = []) \<and>
    rte_ring_full ring4 = (length (ring_list ring4) = unat (r_capacity ring4))"
  by (rule ring_counters_exact [OF ring4_inv])

section \<open>Copy routines\<close>

text \<open>
  The copy routines unrolled by eight, four and two, with their fall-through tails and
  their wrap-around branches, put element \<open>i\<close> of the request into slot
  \<open>(head + i) mod size\<close> and nothing else, for element sizes 4, 8 and 16 and every head.
\<close>

theorem ring_copy_in_equivalence:
  assumes "unit_esize esize" "ring_geom r" "unat n \<le> unat (r_size r)" "unat n \<le> length obj"
  shows "rte_ring_enqueue_elems r h obj esize n =
    Some (r\<lparr>r_slots := ring_put (r_slots r) (unat (r_size r)) (unat h) (take (unat n) obj)\<rparr>)"
  using rte_ring_enqueue_elems_put [OF assms] .

theorem ring_copy_in_equivalence_witness:
  "rte_ring_enqueue_elems ring4 0xffffffff [1, 2, 3] 8 3 =
    Some (ring4\<lparr>r_slots := ring_put (r_slots ring4) (unat (r_size ring4)) (unat (0xffffffff :: u32))
      (take (unat (3 :: u32)) [1, 2, 3])\<rparr>)"
  by (rule ring_copy_in_equivalence) (use ring4_inv in \<open>simp_all add: unit_esize_def ring_inv_def\<close>, code_simp)

text \<open>
  An element of any other size that is a multiple of four bytes comes back whole: what
  a copy into the ring stores from a head, the copy out from the same head reads back.
\<close>

theorem ring_scaled_roundtrip:
  assumes "ring_geom r" "esize \<noteq> 8" "esize \<noteq> 16" "esize div 4 \<noteq> 0"
    "unat (r_size r) * unat (esize div 4) \<le> 2 ^ 31"
    "unat (r_size r) * unat (esize div 4) \<le> length (r_slots r)"
    "unat n \<le> unat (r_size r)" "length obj = unat n * unat (esize div 4)" "length buf = length obj"
  shows "\<exists>r'. rte_ring_enqueue_elems r h obj esize n = Some r' \<and>
    rte_ring_dequeue_elems r' h buf esize n = Some obj"
proof -
  let ?r' = "r\<lparr>r_slots := ring_put (r_slots r) (unat (r_size r) * unat (esize div 4))
        (unat h mod unat (r_size r) * unat (esize div 4)) (take (unat n * unat (esize div 4)) obj)\<rparr>"
  have n: "unat n * unat (esize div 4) \<le> unat (r_size r) * unat (esize div 4)" using assms(7) by simp
  have g: "ring_geom ?r'" using assms(1) by (simp add: ring_geom_def)
  have "ring_get (r_slots ?r') (unat (r_size r) * unat (esize div 4))
      (unat h mod unat (r_size r) * unat (esize div 4)) (length obj) = obj"
    using ring_put_get_same [of obj "unat (r_size r) * unat (esize div 4)" "r_slots r"
        "unat h mod unat (r_size r) * unat (esize div 4)"] assms(6,8) n by simp
  moreover have "rte_ring_enqueue_elems r h obj esize n = Some ?r'"
    by (rule rte_ring_scaled_put_get(1)) (use assms in auto)
  moreover have "rte_ring_dequeue_elems ?r' h buf esize n = Some obj"
    using rte_ring_scaled_put_get(2) [OF g assms(2-4), of n buf h] assms(5-9) n calculation(1) by simp
  ultimately show ?thesis by blast
qed

text \<open>\<open>ring4w\<close>: four elements of 12 bytes, 12 words of memory.\<close>

definition ring4w :: "addr rte_ring" where
  "ring4w = snd (rte_ring_init (raw_ring 12) ''w'' 4 0)"

lemma ring4w_geom: "ring_geom ring4w" "unat (r_size ring4w) = 4" "length (r_slots ring4w) = 12"
  by code_simp+

theorem ring_scaled_roundtrip_witness:
  "\<exists>r'. rte_ring_enqueue_elems ring4w 3 [1, 2, 3, 4, 5, 6] 12 2 = Some r' \<and>
    rte_ring_dequeue_elems r' 3 [0, 0, 0, 0, 0, 0] 12 2 = Some [1, 2, 3, 4, 5, 6]"
  by (rule ring_scaled_roundtrip [OF ring4w_geom(1)]) (simp_all add: ring4w_geom(2,3))

section \<open>Initialisation and creation\<close>

text \<open>
  Whenever \<open>rte_ring_init\<close> returns 0 for a positive count (below \<open>2 ^ 31\<close> with
  \<open>RING_F_EXACT_SZ\<close>) over a large enough table, whatever the memory held before, the result
  is a well-formed empty ring of capacity \<open>count\<close> with \<open>RING_F_EXACT_SZ\<close> and
  \<open>count - 1\<close> without.
\<close>

theorem ring_init_establishes_invariant:
  assumes "rte_ring_init r name cnt flags = (0, r')"
    and "flags AND RING_F_EXACT_SZ \<noteq> 0 \<Longrightarrow> unat cnt < 2 ^ 31"
    and "flags AND RING_F_EXACT_SZ = 0 \<Longrightarrow> cnt \<noteq> 0"
    and "unat (r_size r') \<le> length (r_slots r)"
  shows "ring_inv r' \<and> ring_list r' = [] \<and>
    r_capacity r' = (if flags AND RING_F_EXACT_SZ \<noteq> 0 then cnt else cnt - 1)"
  using rte_ring_init_inv [OF assms] by simp

theorem ring_init_establishes_invariant_witness:
  "ring_inv ring4_rts \<and> ring_list ring4_rts = [] \<and>
    r_capacity ring4_rts = (if (RING_F_MP_RTS_ENQ OR RING_F_MC_HTS_DEQ) AND RING_F_EXACT_SZ \<noteq> 0 then 4 else 4 - 1)"
proof (rule ring_init_establishes_invariant [where name = "''r''"])
  show "rte_ring_init (raw_ring 4) ''r'' 4 (RING_F_MP_RTS_ENQ OR RING_F_MC_HTS_DEQ) = (0, ring4_rts)"
    by code_simp
  show "unat (r_size ring4_rts) \<le> length (r_slots (raw_ring 4))" by code_simp
qed (simp_all add: ring_flag_defs)

text \<open>
  \<open>rte_align32pow2\<close>, which sizes exact rings and the rings of memory pools, gives the
  least power of two that is at least its argument, for every argument from 1 to \<open>2 ^ 31\<close>.
\<close>

lemma align32pow2_least:
  assumes "x \<noteq> 0" "unat x \<le> 2 ^ 31"
  shows "\<exists>k \<le> 31. unat (rte_align32pow2 x) = 2 ^ k \<and> unat x \<le> 2 ^ k \<and> (\<forall>j. unat x \<le> 2 ^ j \<longrightarrow> k \<le> j)"
proof -
  from align32pow2_correct [OF assms] obtain k where
    k: "unat (rte_align32pow2 x) = 2 ^ k" "k \<le> 31" "unat x \<le> 2 ^ k" "k = 0 \<or> 2 ^ (k - 1) < unat x" by blast
  have "k \<le> j" if "unat x \<le> 2 ^ j" for j
  proof (cases k)
    case (Suc i)
    with k(4) have "(2 :: nat) ^ i < unat x" by simp
    then have "(2 :: nat) ^ i < 2 ^ j" using that by (rule less_le_trans)
    then have "i < j" by (rule power_less_imp_less_exp [rotated]) simp
    with Suc show ?thesis by simp
  qed simp
  with k show ?thesis by blast
qed

lemma align32pow2_least_example:
  "\<exists>k \<le> 31. unat (rte_align32pow2 1025) = 2 ^ k \<and> unat (1025 :: u32) \<le> 2 ^ k \<and>
    (\<forall>j. unat (1025 :: u32) \<le> 2 ^ j \<longrightarrow> k \<le> j)"
  by (rule align32pow2_least) simp_all

text \<open>
  A ring \<open>rte_ring_create\<close> returns for valid flags and a count from 1 to \<open>2 ^ 28 - 1\<close>
  is empty and well-formed, knows its memory zone and is appended to the list of rings. The
  memory zone is as long as requested.
\<close>

theorem ring_create_well_formed:
  assumes "rte_ring_create reserve te_ok reg name cnt flags = (Inr (mz, r), reg')"
    and "reserve_ok reserve" "valid_ring_flags flags" "cnt \<noteq> 0" "unat cnt < 2 ^ 28"
  shows "ring_inv r \<and> ring_list r = [] \<and> r_memzone r = Some mz \<and> reg' = reg @ [(mz, r_name r)] \<and>
    r_capacity r = (if flags AND RING_F_EXACT_SZ \<noteq> 0 then cnt else cnt - 1)"
  using rte_ring_create_inv [OF assms] by simp

text \<open>An allocator that clears a table of the length asked for.\<close>

definition reserve_at :: "addr \<Rightarrow> string \<Rightarrow> int \<Rightarrow> int + addr \<times> addr rte_ring" where
  "reserve_at a name len = Inr (a, raw_ring (nat len))"

lemma reserve_at_ok: "reserve_ok (reserve_at a)"
  by (simp add: reserve_ok_def reserve_at_def raw_ring_def)

definition created8 :: "addr rte_ring" where
  "created8 = snd (projr (fst (rte_ring_create (reserve_at 0x1000) True [] ''tx'' 8 RING_F_SP_ENQ)))"

theorem ring_create_well_formed_witness:
  "ring_inv created8 \<and> ring_list created8 = [] \<and> r_memzone created8 = Some 0x1000 \<and>
    [(0x1000 :: addr, ''tx'')] = [] @ [(0x1000, r_name created8)] \<and>
    r_capacity created8 = (if RING_F_SP_ENQ AND RING_F_EXACT_SZ \<noteq> 0 then 8 else 8 - 1)"
proof (rule ring_create_well_formed [OF _ reserve_at_ok])
  show "rte_ring_create (reserve_at 0x1000) True [] ''tx'' 8 RING_F_SP_ENQ = (Inr (0x1000, created8), [(0x1000, ''tx'')])"
    by code_simp
  show "valid_ring_flags RING_F_SP_ENQ" by code_simp
qed simp_all

section \<open>Edge cases of sizing and creation\<close>

text \<open>
  The size of a ring is exact (rounded up to a cache line) for every power of two up to
  \<open>2 ^ 28\<close> pointers, but the product is taken in 32 bits: for the counts \<open>2 ^ 29\<close> and
  \<open>2 ^ 30\<close>, which pass the check, the size reported is that of the header alone.
\<close>

theorem ring_memsize_wraps:
  "(\<forall>k \<le> 28. rte_ring_get_memsize (2 ^ k) = int ((384 + 8 * 2 ^ k + 63) div 64 * 64)) \<and>
   rte_ring_get_memsize (2 ^ 29) = 384 \<and> rte_ring_get_memsize (2 ^ 30) = 384"
proof (intro conjI allI impI)
  fix k :: nat
  assume k: "k \<le> 28"
  then have u: "unat (2 ^ k :: u32) = 2 ^ k" by (simp add: unat_pow2_word)
  have "(2 :: nat) ^ k \<le> 2 ^ 28" using k by (intro power_increasing) auto
  with memsize_8_exact [OF pow2_POWEROF2, of k] u k
  show "rte_ring_get_memsize (2 ^ k) = int ((384 + 8 * 2 ^ k + 63) div 64 * 64)" by simp
next
  show "rte_ring_get_memsize (2 ^ 29) = 384" by code_simp
  show "rte_ring_get_memsize (2 ^ 30) = 384" by code_simp
qed

theorem ring_memsize_wraps_witness:
  "rte_ring_get_memsize (2 ^ 10) = int ((384 + 8 * 2 ^ 10 + 63) div 64 * 64)"
  by (rule ring_memsize_wraps [THEN conjunct1, THEN spec, THEN mp]) simp

text \<open>
  \<open>rte_ring_create\<close> does not look at the result of \<open>rte_ring_init\<close>: for a flag that
  \<open>rte_ring_init\<close> refuses as unknown, it returns the memory of the zone as a ring without
  having initialised any field but the pointer to the zone.
\<close>

theorem ring_create_unknown_flags_uninitialised:
  assumes "flags AND NOT RING_F_MASK \<noteq> 0" "flags AND RING_F_EXACT_SZ = 0"
    and "reserve (RTE_RING_MZ_PREFIX @ name) (rte_ring_get_memsize cnt) = Inr (mz, r)"
    and "0 \<le> rte_ring_get_memsize cnt" "length name < 29"
  shows "rte_ring_init r name cnt flags = (- EINVAL, r) \<and>
    rte_ring_create reserve True reg name cnt flags =
      (Inr (mz, r\<lparr>r_memzone := Some mz\<rparr>), reg @ [(mz, r_name r)])"
  using assms
  by (simp add: rte_ring_create_def rte_ring_create_elem_def rte_ring_init_def rte_ring_get_memsize_def
      RTE_RING_MZ_PREFIX_def RTE_MEMZONE_NAMESIZE_def Let_def)

theorem ring_create_unknown_flags_uninitialised_witness:
  "rte_ring_init (raw_ring 448) ''tx'' 8 0x80 = (- EINVAL, raw_ring 448) \<and>
    rte_ring_create (reserve_at 0x1000) True [] ''tx'' 8 0x80 =
      (Inr (0x1000, (raw_ring 448)\<lparr>r_memzone := Some 0x1000\<rparr>), [] @ [(0x1000, r_name (raw_ring 448))])"
proof (rule ring_create_unknown_flags_uninitialised)
  have "rte_ring_get_memsize 8 = 448" by code_simp
  then show "reserve_at 0x1000 (RTE_RING_MZ_PREFIX @ ''tx'') (rte_ring_get_memsize 8) = Inr (0x1000, raw_ring 448)"
    "0 \<le> rte_ring_get_memsize 8" by (simp_all add: reserve_at_def)
qed (simp_all add: ring_flag_defs)

end
