(* ===== verification/Ring_Concurrent_Properties.thy ===== *)
theory Ring_Concurrent_Properties
  imports Ring_Interleaving Ring_Properties
begin

text \<open>
  The properties of a ring that several threads use at the same time, with schedules that
  run them.
\<close>

section \<open>The invariant along a run\<close>

lemma used_exact:
  assumes "ring_ok b ph A ch ct r"
  shows "ring_used r = length A - ct"
proof -
  have le: "ct \<le> length A" "length A - ct \<le> unat (r_capacity r)" using assms by (auto simp: ring_ok_def)
  have "ring_used r = unat (pos b (length A) - pos b ct)" using assms by (simp add: ring_used_def ring_ok_def)
  also have "\<dots> = unat (of_nat (length A - ct) :: u32)" by (simp only: pos_diff [OF le(1)])
  also have "\<dots> = length A - ct"
    by (rule unat_of_nat_small) (use le(2) unat32_bound [of "r_capacity r"] in linarith)
  finally show ?thesis .
qed

lemma place_unat: "ring_geom r \<Longrightarrow> (unat (pos b i) + j) mod unat (r_size r) = place r b (i + j)"
  using unat_pos_mask [of r "pos b i" j] unat_pos_mask [of r b "i + j"] by (simp add: place_def ac_simps)

lemma list_exact:
  assumes "ring_ok b ph A ch ct r"
  shows "ring_list r = drop ct A"
proof (rule nth_equalityI)
  show "length (ring_list r) = length (drop ct A)" by (simp add: used_exact [OF assms])
  fix i assume "i < length (ring_list r)"
  then have i: "ct + i < length A" "i < ring_used r" by (simp_all add: used_exact [OF assms])
  from assms have "(unat (ht_tail (r_cons r)) + i) mod unat (r_size r) = place r b (ct + i)"
    by (simp only: ring_ok_def place_unat)
  with i assms show "ring_list r ! i = drop ct A ! i" by (simp add: ring_list_def ring_ok_def)
qed

definition mt_ring :: "'a rte_ring \<Rightarrow> bool" where
  "mt_ring r \<longleftrightarrow> ht_sync_type (r_prod r) = RTE_RING_SYNC_MT \<and> ht_sync_type (r_cons r) = RTE_RING_SYNC_MT"

lemma init_ok:
  assumes "ring_inv r" "mt_ring r"
  shows "sys_ok (ht_tail (r_cons r)) (ring_list r) (ring_sys_init r)"
proof -
  have g: "ring_geom r" using assms(1) by (simp add: ring_inv_def)
  have q: "ht_head (r_prod r) = ht_tail (r_prod r)" "ht_head (r_cons r) = ht_tail (r_cons r)"
    using assms by (simp_all add: ring_inv_def mt_ring_def quiescent_def)
  have p: "pos (ht_tail (r_cons r)) (ring_used r) = ht_tail (r_prod r)" by (simp add: ring_used_def)
  have "ring_list r ! i = r_slots r ! place r (ht_tail (r_cons r)) i" if "i < ring_used r" for i
    using that by (simp add: ring_list_def place_def)
  with g q p assms show ?thesis
    by (simp add: sys_ok_def ring_sys_init_def Let_def ring_ok_def visible_def ring_inv_def thread_ok_def range_defs owned_def) auto
qed

lemma run_ok: "ring_run s s' \<Longrightarrow> sys_ok b A0 s \<Longrightarrow> sys_ok b A0 s'"
  by (induction rule: ring_run.induct) (auto intro: ok_step)

section \<open>Schedules\<close>

text \<open>A run given by its steps: calls, and steps of a thread.\<close>

datatype 'a sched_event = Call nat "'a ring_pc" | Step nat

fun sched_one :: "'a sched_event \<Rightarrow> 'a ring_sys \<Rightarrow> 'a ring_sys option" where
  "sched_one (Call t pc) s = (if is_outside (rs_pc s t) \<and> is_call pc then Some (s\<lparr>rs_pc := (rs_pc s)(t := pc)\<rparr>) else None)"
| "sched_one (Step t) s =
     map_option (\<lambda>(r, pc). (note_step t (rs_pc s t) pc s)\<lparr>rs_ring := r, rs_pc := (rs_pc s)(t := pc)\<rparr>) (ring_next (rs_ring s) (rs_pc s t))"

primrec sched_run :: "'a sched_event list \<Rightarrow> 'a ring_sys \<Rightarrow> 'a ring_sys option" where
  "sched_run [] s = Some s"
| "sched_run (e # es) s =
     (if int (rs_ph s) < 2 ^ 32 \<and> int (rs_ch s) < 2 ^ 32 then Option.bind (sched_one e s) (sched_run es) else None)"

lemma sched_one_step: "sched_one e s = Some s' \<Longrightarrow> ring_step s s'"
  by (cases e) (auto split: if_splits intro: ring_step.intros)

lemma no_stall_small: "rs_ph s < 4294967296 \<Longrightarrow> rs_ch s < 4294967296 \<Longrightarrow> no_stall s"
  unfolding no_stall_def by (auto split: ring_pc.split)

lemma sched_run_sound: "ring_run s0 s \<Longrightarrow> sched_run es s = Some s' \<Longrightarrow> ring_run s0 s'"
proof (induction es arbitrary: s)
  case (Cons e es)
  then obtain s1 where s1: "sched_one e s = Some s1" "sched_run es s1 = Some s'"
    and small: "rs_ph s < 4294967296" "rs_ch s < 4294967296" by (auto simp: bind_eq_Some_conv split: if_splits)
  from Cons.prems(1) no_stall_small [OF small] sched_one_step [OF s1(1)] have "ring_run s0 s1" by (rule ring_run.more)
  then show ?case using s1(2) by (rule Cons.IH)
qed simp

text \<open>
  Two producers whose copies overtake each other, and a consumer that takes two of the three
  elements from the full ring. The indices start one below the wrap-around.
\<close>

definition ring4_edge :: "addr rte_ring" where
  "ring4_edge = ring4\<lparr>r_prod := (r_prod ring4)\<lparr>ht_head := 0xFFFFFFFF, ht_tail := 0xFFFFFFFF\<rparr>,
     r_cons := (r_cons ring4)\<lparr>ht_head := 0xFFFFFFFF, ht_tail := 0xFFFFFFFF\<rparr>\<rparr>"

definition sched0 :: "addr sched_event list" where
  "sched0 = [Call 0 (E_Head [1, 2] 2 RTE_RING_QUEUE_FIXED), Step 0, Step 0, Call 1 (E_Head [3] 1 RTE_RING_QUEUE_FIXED), Step 1,
     Step 0, Step 1, Step 1, Step 1, Step 1, Step 1, Step 1, Step 0, Step 0, Step 0, Step 1,
     Call 2 (D_Head [0, 0] 2 RTE_RING_QUEUE_VARIABLE), Step 2, Step 2, Step 2, Step 2, Step 2, Step 2]"

lemma ring4_edge_ok: "ring_inv ring4_edge" "mt_ring ring4_edge" "ring_list ring4_edge = []"
proof -
  have "mt_ring ring4" by code_simp
  then show "ring_inv ring4_edge"
    using ring4_inv unfolding mt_ring_def by (auto simp: ring4_edge_def ring_inv_def ring_geom_def quiescent_def ring_used_def split: rte_ring_sync_type.splits)
  show "mt_ring ring4_edge" by code_simp
  show "ring_list ring4_edge = []" by (simp add: ring_list_def ring_used_def ring4_edge_def)
qed

lemma sched0_result:
  "map_option (\<lambda>s. (rs_put s, rs_got s)) (sched_run sched0 (ring_sys_init ring4_edge)) = Some ([1, 2, 3], [1, 2])"
  by code_simp

lemma sched0_run:
  obtains s where "ring_run (ring_sys_init ring4_edge) s" "rs_put s = [1, 2, 3]" "rs_got s = [1, 2]"
  using sched0_result sched_run_sound [OF ring_run.start] by auto

section \<open>The properties\<close>

text \<open>
  C3: Whatever the number of threads and the interleaving of their steps, at every moment the
  elements the ring held at the start and those enqueued since are, in order, those that have
  been dequeued followed by the contents of the ring, which never exceed its capacity: no
  element is lost, duplicated, reordered or overwritten. (No thread sleeps while
  \<open>2 ^ 32\<close> elements pass.)
\<close>

theorem ring_interleaving_fifo:
  assumes "ring_inv r" "mt_ring r" "ring_run (ring_sys_init r) s"
  shows "ring_list r @ rs_put s = rs_got s @ ring_list (rs_ring s)
    \<and> length (ring_list (rs_ring s)) \<le> unat (r_capacity (rs_ring s))"
proof -
  from run_ok [OF assms(3) init_ok [OF assms(1,2)]] have s: "sys_ok (ht_tail (r_cons r)) (ring_list r) s" .
  from sys_okD(1) [OF s] have ok: "ring_ok (ht_tail (r_cons r)) (rs_ph s) (ring_list r @ rs_put s) (rs_ch s) (length (rs_got s)) (rs_ring s)"
    and got: "rs_got s = take (length (rs_got s)) (ring_list r @ rs_put s)" by (simp_all only: visible_def)
  from got list_exact [OF ok] have "ring_list r @ rs_put s = rs_got s @ ring_list (rs_ring s)"
    by (metis append_take_drop_id)
  with used_exact [OF ok] ok show ?thesis by (auto simp: ring_ok_def)
qed

theorem ring_interleaving_fifo_witness:
  "\<exists>s. ring_run (ring_sys_init ring4_edge) s \<and> rs_got s = [1, 2] \<and> ring_list (rs_ring s) = [3]"
proof -
  obtain s where s: "ring_run (ring_sys_init ring4_edge) s" "rs_put s = [1, 2, 3]" "rs_got s = [1, 2]" by (rule sched0_run)
  from ring_interleaving_fifo [OF ring4_edge_ok(1,2) s(1)] s show ?thesis by (auto simp: ring4_edge_ok(3))
qed

text \<open>A thread that cannot take a step is outside an operation or waits for its turn.\<close>

lemma blocked_thread:
  assumes "sys_ok b A0 s" "ring_next (rs_ring s) (rs_pc s t) = None" "\<not> is_outside (rs_pc s t)"
  shows "(\<exists>objs old f m. rs_pc s t = E_Wait objs old f m \<and> rs_seen s t \<noteq> length (visible A0 s)) \<or>
    (\<exists>tbl old f m. rs_pc s t = D_Wait tbl old f m \<and> rs_seen s t \<noteq> length (rs_got s))"
proof -
  from sys_okD(1) [OF assms(1)] have ok: "ring_ok b (rs_ph s) (visible A0 s) (rs_ch s) (length (rs_got s)) (rs_ring s)" ..
  then have g: "ring_geom (rs_ring s)" by (simp add: ring_ok_def)
  have ix: "unat (x AND r_mask (rs_ring s)) < length (r_slots (rs_ring s))" for x
    using ring_geom_index(2) [OF g, of x] ring_geom_slots [OF g] by simp
  note th = sys_okD(2) [OF assms(1), of t]
  show ?thesis
  proof (cases "rs_pc s t")
    case (E_Copy objs old f m i)
    with th have "unat i < length objs" by (auto simp: thread_ok_def reserved_put_def word_less_nat_alt)
    with E_Copy assms(2) ix show ?thesis by (simp add: ring_next_def cp_def)
  next
    case (D_Copy tbl old f m i)
    with th have "unat i < length tbl" by (auto simp: thread_ok_def reserved_get_def word_less_nat_alt)
    with D_Copy assms(2) ix show ?thesis by (simp add: ring_next_def cp_def)
  next
    case (E_Wait objs old f m)
    with th ok assms(2) show ?thesis
      by (auto simp: ring_next_def rte_ring_update_tail_def thread_ok_def reserved_put_def ring_ok_def)
  next
    case (D_Wait tbl old f m)
    with th ok assms(2) show ?thesis
      by (auto simp: ring_next_def rte_ring_update_tail_def thread_ok_def reserved_get_def ring_ok_def)
  qed (use assms(2,3) in \<open>simp_all add: ring_next_def is_outside_def Let_def split: option.splits\<close>)
qed

text \<open>
  C13: Threads in a ring never block each other for good and never leave its table or their own
  arrays: as long as a thread is inside an operation, some thread inside one can take a step.
\<close>

theorem ring_never_deadlocks:
  assumes "ring_inv r" "mt_ring r" "ring_run (ring_sys_init r) s" "\<not> is_outside (rs_pc s t)"
  shows "\<exists>u. \<not> is_outside (rs_pc s u) \<and> ring_next (rs_ring s) (rs_pc s u) \<noteq> None"
proof (rule ccontr)
  assume no: "\<nexists>u. \<not> is_outside (rs_pc s u) \<and> ring_next (rs_ring s) (rs_pc s u) \<noteq> None"
  define b A0 where "b = ht_tail (r_cons r)" and "A0 = ring_list r"
  from run_ok [OF assms(3) init_ok [OF assms(1,2)]] have s: "sys_ok b A0 s" by (simp add: b_def A0_def)
  have stuck: "(\<exists>objs old f m. rs_pc s u = E_Wait objs old f m \<and> rs_seen s u \<noteq> length (visible A0 s)) \<or>
    (\<exists>tbl old f m. rs_pc s u = D_Wait tbl old f m \<and> rs_seen s u \<noteq> length (rs_got s))" if "\<not> is_outside (rs_pc s u)" for u
    using blocked_thread [OF s, of u] no that by blast
  have put: "\<not> length (visible A0 s) < rs_ph s"
  proof
    assume "length (visible A0 s) < rs_ph s"
    with owned_some [OF sys_okD(3) [OF s] order_refl] obtain u where u: "length (visible A0 s) \<in> puts s u" by blast
    then have "\<not> is_outside (rs_pc s u)" by (auto simp: put_range_def is_outside_def split: ring_pc.splits)
    from stuck [OF this] u owned_bounds [OF sys_okD(3) [OF s], of "rs_seen s u" u] show False
      by (auto simp: put_range_def)
  qed
  have get: "\<not> length (rs_got s) < rs_ch s"
  proof
    assume "length (rs_got s) < rs_ch s"
    with owned_some [OF sys_okD(4) [OF s] order_refl] obtain u where u: "length (rs_got s) \<in> gets s u" by blast
    then have "\<not> is_outside (rs_pc s u)" by (auto simp: get_range_def is_outside_def split: ring_pc.splits)
    from stuck [OF this] u owned_bounds [OF sys_okD(4) [OF s], of "rs_seen s u" u] show False
      by (auto simp: get_range_def)
  qed
  from stuck [OF assms(4)] sys_okD(2) [OF s, of t] put get show False
    by (auto simp: thread_ok_def reserved_put_def reserved_get_def unat_gt_0)
qed

text \<open>Some thread is always able to go on in the run above after its first four steps.\<close>

lemma sched0_middle:
  obtains s where "ring_run (ring_sys_init ring4_edge) s" "\<not> is_outside (rs_pc s 0)"
proof -
  have "map_option (\<lambda>s. is_outside (rs_pc s 0)) (sched_run (take 8 sched0) (ring_sys_init ring4_edge)) = Some False"
    by code_simp
  then show ?thesis using that sched_run_sound [OF ring_run.start] by auto
qed

theorem ring_never_deadlocks_witness:
  "\<exists>s u. ring_run (ring_sys_init ring4_edge) s \<and> \<not> is_outside (rs_pc s 0)
    \<and> \<not> is_outside (rs_pc s u) \<and> ring_next (rs_ring s) (rs_pc s u) \<noteq> None"
proof -
  obtain s where s: "ring_run (ring_sys_init ring4_edge) s" "\<not> is_outside (rs_pc s 0)" by (rule sched0_middle)
  from ring_never_deadlocks [OF ring4_edge_ok(1,2) s] s show ?thesis by blast
qed

text \<open>
  C8: The steps of a thread that is alone in the ring end in the ring and with the results that
  the enqueue and the dequeue of the multi-thread mode give, for any element size that is
  copied as one unit.
\<close>

theorem ring_steps_implement_operations:
  assumes "ring_inv r" "mt_ring r" "unit_esize es" "unat n \<le> length objs"
  shows "(\<exists>k m f r'. rte_ring_do_enqueue_elem r objs es n beh False = Some (m, f, r') \<and>
      ring_solo k (r, E_Head objs n beh) = Some (r', E_Ret m f))
    \<and> (\<exists>k m f r' tbl. rte_ring_do_dequeue_elem r objs es n beh False = Some (m, tbl, f, r') \<and>
      ring_solo k (r, D_Head objs n beh) = Some (r', D_Ret tbl m f))"
  using assms solo_enqueue [of r es n objs beh] solo_dequeue [of r es n objs beh] by (simp add: mt_ring_def)

theorem ring_steps_implement_operations_witness:
  "(\<exists>k m f r'. rte_ring_do_enqueue_elem ring4_edge [7, 8] 8 2 RTE_RING_QUEUE_FIXED False = Some (m, f, r') \<and>
      ring_solo k (ring4_edge, E_Head [7, 8] 2 RTE_RING_QUEUE_FIXED) = Some (r', E_Ret m f))"
  using ring_steps_implement_operations [OF ring4_edge_ok(1,2), of 8 2 "[7, 8]" RTE_RING_QUEUE_FIXED]
  by (simp add: unit_esize_def)

end
