(* ===== verification/Kni_Fifo.thy ===== *)
theory Kni_Fifo
  imports Ring_Elems Fifo_Spec
begin

text \<open>
  The queues shared with the kernel (\<open>lib/kni/rte_kni_fifo.h\<close>): a circular buffer that keeps
  one slot free, with indexes below its length. It meets the contract \<open>bounded_fifo\<close>.
\<close>

section \<open>The queue\<close>

record rte_kni_fifo =
  kf_write :: u32
  kf_read :: u32
  kf_len :: u32
  kf_elem_size :: u32
  kf_buffer :: "addr list"

text \<open>\<open>None\<close> is \<open>rte_panic\<close>.\<close>

definition kni_fifo_init :: "rte_kni_fifo \<Rightarrow> u32 \<Rightarrow> rte_kni_fifo option" where
  "kni_fifo_init fifo sz =
     (if sz AND (sz - 1) \<noteq> 0 then None
      else Some (fifo\<lparr>kf_write := 0, kf_read := 0, kf_len := sz, kf_elem_size := 8\<rparr>))"

text \<open>The loop of \<open>kni_fifo_put\<close> with \<open>k\<close> rounds to go: rounds done, write index, buffer.\<close>

primrec kni_put_loop ::
  "nat \<Rightarrow> u32 \<Rightarrow> u32 \<Rightarrow> addr list \<Rightarrow> u32 \<Rightarrow> u32 \<Rightarrow> u32 \<Rightarrow> addr list \<Rightarrow> (u32 \<times> u32 \<times> addr list) option" where
  "kni_put_loop 0 len fifo_read data i new_write fifo_write buffer = Some (i, fifo_write, buffer)"
| "kni_put_loop (Suc k) len fifo_read data i new_write fifo_write buffer =
     (let new_write = (new_write + 1) AND (len - 1)
      in if new_write = fifo_read then Some (i, fifo_write, buffer)
         else do { v \<leftarrow> ld data i;
                   buffer \<leftarrow> st buffer fifo_write v;
                   let fifo_write = new_write;
                   kni_put_loop k len fifo_read data (i + 1) new_write fifo_write buffer })"

definition kni_fifo_put :: "rte_kni_fifo \<Rightarrow> addr list \<Rightarrow> u32 \<Rightarrow> (u32 \<times> rte_kni_fifo) option" where
  "kni_fifo_put fifo data num =
     (let fifo_write = kf_write fifo;
          new_write = fifo_write;
          fifo_read = kf_read fifo
      in do { (i, fifo_write, buffer) \<leftarrow>
                kni_put_loop (unat num) (kf_len fifo) fifo_read data 0 new_write fifo_write (kf_buffer fifo);
              Some (i, fifo\<lparr>kf_write := fifo_write, kf_buffer := buffer\<rparr>) })"

primrec kni_get_loop ::
  "nat \<Rightarrow> u32 \<Rightarrow> u32 \<Rightarrow> addr list \<Rightarrow> u32 \<Rightarrow> u32 \<Rightarrow> addr list \<Rightarrow> (u32 \<times> u32 \<times> addr list) option" where
  "kni_get_loop 0 len fifo_write buffer i new_read data = Some (i, new_read, data)"
| "kni_get_loop (Suc k) len fifo_write buffer i new_read data =
     (if new_read = fifo_write then Some (i, new_read, data)
      else do { v \<leftarrow> ld buffer new_read;
                data \<leftarrow> st data i v;
                kni_get_loop k len fifo_write buffer (i + 1) ((new_read + 1) AND (len - 1)) data })"

definition kni_fifo_get :: "rte_kni_fifo \<Rightarrow> addr list \<Rightarrow> u32 \<Rightarrow> (u32 \<times> addr list \<times> rte_kni_fifo) option" where
  "kni_fifo_get fifo data num =
     do { (i, new_read, data) \<leftarrow>
            kni_get_loop (unat num) (kf_len fifo) (kf_write fifo) (kf_buffer fifo) 0 (kf_read fifo) data;
          Some (i, data, fifo\<lparr>kf_read := new_read\<rparr>) }"

definition kni_fifo_count :: "rte_kni_fifo \<Rightarrow> u32" where
  "kni_fifo_count fifo = (kf_len fifo + kf_write fifo - kf_read fifo) AND (kf_len fifo - 1)"

definition kni_fifo_free_count :: "rte_kni_fifo \<Rightarrow> u32" where
  "kni_fifo_free_count fifo = (kf_read fifo - kf_write fifo - 1) AND (kf_len fifo - 1)"

section \<open>Well-formed queues\<close>

definition kni_fifo_inv :: "rte_kni_fifo \<Rightarrow> bool" where
  "kni_fifo_inv f \<longleftrightarrow> kf_len f \<noteq> 0 \<and> POWEROF2 (kf_len f) \<and> kf_write f < kf_len f \<and> kf_read f < kf_len f \<and>
     unat (kf_len f) \<le> length (kf_buffer f)"

definition kni_fifo_used :: "rte_kni_fifo \<Rightarrow> nat" where
  "kni_fifo_used f = unat (kni_fifo_count f)"

definition kni_fifo_list :: "rte_kni_fifo \<Rightarrow> addr list" where
  "kni_fifo_list f = ring_get (kf_buffer f) (unat (kf_len f)) (unat (kf_read f)) (kni_fifo_used f)"

definition kni_fifo_room :: "rte_kni_fifo \<Rightarrow> nat" where
  "kni_fifo_room f = unat (kni_fifo_free_count f)"

text \<open>The three numbers that describe a queue: \<open>sz\<close> slots, \<open>u\<close> of them in use from \<open>r\<close> on.\<close>

definition fifo_at :: "nat \<Rightarrow> u32 \<Rightarrow> u32 \<Rightarrow> u32 \<Rightarrow> nat \<Rightarrow> bool" where
  "fifo_at sz len r w u \<longleftrightarrow>
     (\<exists>k < 32. sz = 2 ^ k \<and> len = 2 ^ k) \<and> unat r < sz \<and> unat w = (unat r + u) mod sz \<and> u < sz"

lemma fifo_at_index:
  assumes "fifo_at sz len r w u"
  shows "unat len = sz" "unat (x AND (len - 1)) = unat x mod sz" "0 < sz" "sz \<le> 2 ^ 31"
proof -
  from assms obtain k where k: "k < 32" "sz = 2 ^ k" "len = 2 ^ k" by (auto simp: fifo_at_def)
  then show "unat len = sz" by (simp add: unat_pow2_word)
  show "unat (x AND (len - 1)) = unat x mod sz" using k by (simp add: pow2_minus_1_mask unat_and_mask)
  show "0 < sz" using k by simp
  have "(2 :: nat) ^ k \<le> 2 ^ 31" using k by (intro power_increasing) auto
  with k show "sz \<le> 2 ^ 31" by simp
qed

lemma fifo_at_bounds:
  assumes "fifo_at sz len r w u"
  shows "unat r < sz" "unat w < sz" "u < sz"
  using assms fifo_at_index(3) [OF assms] by (auto simp: fifo_at_def)

lemma unat_inc_mod:
  assumes "fifo_at sz len r w u" "unat x < sz"
  shows "unat ((x + 1) AND (len - 1)) = (unat x + 1) mod sz"
proof -
  have "unat (x + 1) = unat x + 1"
    using assms(2) fifo_at_index(4) [OF assms(1)] by (subst unat_add_nowrap) (simp_all add: unat_1)
  then show ?thesis using fifo_at_index(2) [OF assms(1), of "x + 1"] by simp
qed

text \<open>The write index runs into the read index exactly when one slot is left.\<close>

lemma fifo_at_full:
  assumes "fifo_at sz len r w u"
  shows "(w + 1) AND (len - 1) = r \<longleftrightarrow> Suc u = sz"
proof -
  have w: "unat w = (unat r + u) mod sz" using assms by (simp add: fifo_at_def)
  have "unat ((w + 1) AND (len - 1)) = (unat r + Suc u) mod sz"
    using unat_inc_mod [OF assms fifo_at_bounds(2) [OF assms]] w by (simp add: mod_Suc_eq)
  moreover have "(unat r + Suc u) mod sz = unat r \<longleftrightarrow> Suc u = sz"
  proof
    assume "Suc u = sz"
    then show "(unat r + Suc u) mod sz = unat r" using fifo_at_bounds(1) [OF assms] by simp
  next
    assume eq: "(unat r + Suc u) mod sz = unat r"
    show "Suc u = sz"
    proof (rule ccontr)
      assume "Suc u \<noteq> sz"
      with fifo_at_bounds(3) [OF assms] have "Suc u < sz" by simp
      moreover have "(unat r + Suc u) mod sz = (unat r + 0) mod sz"
        using eq fifo_at_bounds(1) [OF assms] by simp
      ultimately show False using mod_shift_inj [of "unat r" "Suc u" sz 0] by simp
    qed
  qed
  ultimately show ?thesis by (simp add: word_unat_eq_iff)
qed

lemma fifo_at_empty:
  assumes "fifo_at sz len r w u"
  shows "r = w \<longleftrightarrow> u = 0"
proof -
  have "(unat r + u) mod sz = unat r \<longleftrightarrow> u = 0"
  proof
    assume "(unat r + u) mod sz = unat r"
    then have "(unat r + u) mod sz = (unat r + 0) mod sz" using fifo_at_bounds(1) [OF assms] by simp
    then show "u = 0" using mod_shift_inj [of "unat r" u sz 0] fifo_at_bounds(3) [OF assms] by simp
  qed (use fifo_at_bounds(1) [OF assms] in simp)
  then show ?thesis using assms by (auto simp: fifo_at_def word_unat_eq_iff)
qed

lemma fifo_at_push:
  assumes "fifo_at sz len r w u" "Suc u < sz"
  shows "fifo_at sz len r ((w + 1) AND (len - 1)) (Suc u)"
  using assms unat_inc_mod [OF assms(1) fifo_at_bounds(2) [OF assms(1)]]
  by (simp add: fifo_at_def mod_Suc_eq)

lemma fifo_at_pop:
  assumes "fifo_at sz len r w (Suc u)"
  shows "fifo_at sz len ((r + 1) AND (len - 1)) w u"
proof -
  have "unat ((r + 1) AND (len - 1)) = Suc (unat r) mod sz"
    using unat_inc_mod [OF assms fifo_at_bounds(1) [OF assms]] by simp
  then show ?thesis using assms fifo_at_index(3) [OF assms] by (auto simp: fifo_at_def mod_add_left_eq)
qed

lemma ring_get_Suc: "ring_get buf sz h (Suc n) = ring_get buf sz h n @ [buf ! ((h + n) mod sz)]"
  by (simp add: ring_get_def)

lemma ring_get_Cons: "ring_get buf sz h (Suc n) = buf ! (h mod sz) # ring_get buf sz (Suc h) n"
  by (simp add: ring_get_def upt_conv_Cons map_Suc_upt [symmetric] comp_def del: upt_Suc)

lemma ring_get_push:
  assumes "u < sz" "sz \<le> length buf"
  shows "ring_get (buf[(h + u) mod sz := v]) sz h (Suc u) = ring_get buf sz h u @ [v]"
proof -
  have "(h + u) mod sz < sz" using assms(1) by simp
  with assms(2) have "(h + u) mod sz < length buf" by simp
  moreover have "(h + i) mod sz \<noteq> (h + u) mod sz" if "i < u" for i
    using mod_shift_inj [of h i sz u] that assms by auto
  then have "ring_get (buf[(h + u) mod sz := v]) sz h u = ring_get buf sz h u"
    unfolding ring_get_def by (intro map_cong refl) (metis atLeastLessThan_iff nth_list_update_neq set_upt)
  ultimately show ?thesis by (simp add: ring_get_Suc)
qed

section \<open>The loops\<close>

lemma kni_put_loop_ok:
  assumes "fifo_at sz len r w u" "sz \<le> length buf" "unat i + k \<le> length data" "unat i + k < 2 ^ 32"
  shows "\<exists>w' buf'. kni_put_loop k len r data i w w buf = Some (i + of_nat (min k (sz - 1 - u)), w', buf') \<and>
    fifo_at sz len r w' (u + min k (sz - 1 - u)) \<and> length buf' = length buf \<and>
    ring_get buf' sz (unat r) (u + min k (sz - 1 - u)) =
      ring_get buf sz (unat r) u @ take (min k (sz - 1 - u)) (drop (unat i) data)"
  using assms
proof (induction k arbitrary: i w u buf)
  case 0
  then show ?case by simp
next
  case (Suc k)
  let ?w = "(w + 1) AND (len - 1)"
  show ?case
  proof (cases "Suc u = sz")
    case True
    with fifo_at_full [OF Suc.prems(1)] Suc.prems(1) show ?thesis by (auto simp: Let_def)
  next
    case False
    with fifo_at_bounds(3) [OF Suc.prems(1)] have u: "Suc u < sz" by simp
    let ?buf = "buf[unat w := data ! unat i]"
    have wi: "unat w = (unat r + u) mod sz" using Suc.prems(1) by (simp add: fifo_at_def)
    have b: "unat w < length buf" using fifo_at_bounds(2) [OF Suc.prems(1)] Suc.prems(2) by simp
    have i: "unat (i + 1) = Suc (unat i)" using Suc.prems(4) by (simp add: unat_add_nowrap unat_1)
    have step: "kni_put_loop (Suc k) len r data i w w buf = kni_put_loop k len r data (i + 1) ?w ?w ?buf"
      using fifo_at_full [OF Suc.prems(1)] u b Suc.prems(3) by (simp add: Let_def)
    from Suc.IH [OF fifo_at_push [OF Suc.prems(1) u], of ?buf "i + 1"] Suc.prems i
    obtain w' buf' where
      r: "kni_put_loop k len r data (i + 1) ?w ?w ?buf = Some (i + 1 + of_nat (min k (sz - 1 - Suc u)), w', buf')"
        "fifo_at sz len r w' (Suc u + min k (sz - 1 - Suc u))" "length buf' = length ?buf"
        "ring_get buf' sz (unat r) (Suc u + min k (sz - 1 - Suc u)) =
          ring_get ?buf sz (unat r) (Suc u) @ take (min k (sz - 1 - Suc u)) (drop (Suc (unat i)) data)"
      by auto
    have m: "min (Suc k) (sz - 1 - u) = Suc (min k (sz - 1 - Suc u))" using u by linarith
    have "ring_get ?buf sz (unat r) (Suc u) = ring_get buf sz (unat r) u @ [data ! unat i]"
      unfolding wi using u Suc.prems(2) by (intro ring_get_push) auto
    moreover have "drop (unat i) data = data ! unat i # drop (Suc (unat i)) data"
      using Suc.prems(3) by (simp add: Cons_nth_drop_Suc)
    ultimately show ?thesis unfolding step m using r by (auto simp: ac_simps)
  qed
qed

lemma kni_get_loop_ok:
  assumes "fifo_at sz len r w u" "sz \<le> length buf" "unat i + k \<le> length data" "unat i + k < 2 ^ 32"
  shows "\<exists>r'. kni_get_loop k len w buf i r data = Some (i + of_nat (min k u), r',
      take (unat i) data @ ring_get buf sz (unat r) (min k u) @ drop (unat i + min k u) data) \<and>
    fifo_at sz len r' w (u - min k u) \<and>
    ring_get buf sz (unat r') (u - min k u) = drop (min k u) (ring_get buf sz (unat r) u)"
  using assms
proof (induction k arbitrary: i r u data)
  case 0
  then show ?case by (simp add: ring_get_def)
next
  case (Suc k)
  let ?r = "(r + 1) AND (len - 1)"
  show ?case
  proof (cases u)
    case 0
    with fifo_at_empty [OF Suc.prems(1)] Suc.prems show ?thesis by (auto simp: ring_get_def)
  next
    case (Suc u')
    have b: "unat r < length buf" using fifo_at_bounds(1) [OF Suc.prems(1)] Suc.prems(2) by simp
    have i: "unat (i + 1) = Suc (unat i)" using Suc.prems(4) by (simp add: unat_add_nowrap unat_1)
    let ?data = "data[unat i := buf ! unat r]"
    have step: "kni_get_loop (Suc k) len w buf i r data = kni_get_loop k len w buf (i + 1) ?r ?data"
      using fifo_at_empty [OF Suc.prems(1)] Suc b Suc.prems(3) by simp
    have at: "fifo_at sz len ?r w u'" using fifo_at_pop Suc.prems(1) Suc by simp
    from Suc.IH [OF at, of "i + 1" ?data] Suc.prems i obtain r' where
      r': "kni_get_loop k len w buf (i + 1) ?r ?data = Some (i + 1 + of_nat (min k u'), r',
          take (Suc (unat i)) ?data @ ring_get buf sz (unat ?r) (min k u') @ drop (Suc (unat i) + min k u') ?data)"
        "fifo_at sz len r' w (u' - min k u')"
        "ring_get buf sz (unat r') (u' - min k u') = drop (min k u') (ring_get buf sz (unat ?r) u')"
      by auto
    have "unat ?r = Suc (unat r) mod sz"
      using unat_inc_mod [OF Suc.prems(1) fifo_at_bounds(1) [OF Suc.prems(1)]] by simp
    then have c: "ring_get buf sz (unat r) (Suc n) = buf ! unat r # ring_get buf sz (unat ?r) n" for n
      using fifo_at_bounds(1) [OF Suc.prems(1)] by (simp add: ring_get_Cons ring_get_mod)
    have t: "take (Suc (unat i)) ?data = take (unat i) data @ [buf ! unat r]"
      using Suc.prems(3) by (simp add: take_Suc_conv_app_nth)
    show ?thesis unfolding step Suc
      using r' by (auto simp: c t ac_simps)
  qed
qed

section \<open>The contract\<close>

lemma kni_fifo_at:
  assumes "kni_fifo_inv f"
  shows "fifo_at (unat (kf_len f)) (kf_len f) (kf_read f) (kf_write f) (kni_fifo_used f)"
proof -
  from assms obtain k where k: "k < 32" "unat (kf_len f) = 2 ^ k"
    by (auto simp: kni_fifo_inv_def elim: POWEROF2_pow2)
  then have l: "kf_len f = 2 ^ k" by (simp add: word_unat_eq_iff unat_pow2_word)
  have r: "unat (kf_read f) < 2 ^ k" and w: "unat (kf_write f) < 2 ^ k"
    using assms k by (simp_all add: kni_fifo_inv_def word_less_nat_alt)
  have b: "(2 :: nat) ^ k \<le> 2 ^ 31" using k(1) by (intro power_increasing) auto
  have s: "unat (kf_len f + kf_write f) = 2 ^ k + unat (kf_write f)"
    using k(2) b w by (simp add: unat_add_nowrap)
  have "unat (kf_len f + kf_write f - kf_read f) = 2 ^ k + unat (kf_write f) - unat (kf_read f)"
    using s r by (subst unat_sub_nowrap) simp_all
  then have u: "kni_fifo_used f = (2 ^ k + unat (kf_write f) - unat (kf_read f)) mod 2 ^ k"
    unfolding kni_fifo_used_def kni_fifo_count_def l pow2_minus_1_mask unat_and_mask by (simp add: l)
  have "(unat (kf_read f) + kni_fifo_used f) mod 2 ^ k = (2 ^ k + unat (kf_write f)) mod 2 ^ k"
    unfolding u mod_add_right_eq using r by simp
  then have "unat (kf_write f) = (unat (kf_read f) + kni_fifo_used f) mod 2 ^ k" using w by simp
  then show ?thesis using k l r by (auto simp: fifo_at_def u)
qed

lemma fifo_at_inv:
  assumes "fifo_at sz len r w u" "sz \<le> length buf"
  shows "kni_fifo_inv \<lparr>kf_write = w, kf_read = r, kf_len = len, kf_elem_size = e, kf_buffer = buf\<rparr>" (is "kni_fifo_inv ?f")
    and "kni_fifo_used \<lparr>kf_write = w, kf_read = r, kf_len = len, kf_elem_size = e, kf_buffer = buf\<rparr> = u"
proof -
  from assms(1) obtain k where k: "k < 32" "len = 2 ^ k" by (auto simp: fifo_at_def)
  have "POWEROF2 len" using pow2_POWEROF2 [OF k(1)] k(2) by simp
  moreover have "len \<noteq> 0" using fifo_at_index(1,3) [OF assms(1)] by auto
  ultimately show i: "kni_fifo_inv ?f"
    using assms(2) fifo_at_bounds [OF assms(1)] fifo_at_index(1) [OF assms(1)]
    by (simp add: kni_fifo_inv_def word_less_nat_alt)
  have "unat w = (unat r + kni_fifo_used ?f) mod sz" "kni_fifo_used ?f < sz"
    using kni_fifo_at [OF i] fifo_at_index(1) [OF assms(1)] by (auto simp: fifo_at_def)
  moreover have "unat w = (unat r + u) mod sz" "u < sz" using assms(1) by (auto simp: fifo_at_def)
  ultimately show "kni_fifo_used ?f = u" using mod_shift_inj [of "unat r"] by metis
qed

lemma kni_fifo_room_used:
  assumes "kni_fifo_inv f"
  shows "kni_fifo_room f = unat (kf_len f) - 1 - kni_fifo_used f"
proof -
  note at = kni_fifo_at [OF assms]
  note b = fifo_at_bounds [OF at] and ix = fifo_at_index [OF at]
  let ?sz = "unat (kf_len f)" and ?r = "unat (kf_read f)" and ?w = "unat (kf_write f)"
  have "kni_fifo_free_count f = (kf_len f + kf_read f - (kf_write f + 1)) AND (kf_len f - 1)"
  proof -
    obtain k where k: "k < 32" "kf_len f = 2 ^ k" using at by (auto simp: fifo_at_def)
    have "(kf_len f + x) AND (kf_len f - 1) = x AND (kf_len f - 1)" for x
      unfolding k(2) pow2_minus_1_mask
      using mod_add_pow2_dvd [of k 32 "2 ^ k" "unat x"] k(1)
      by (simp add: word_unat_eq_iff unat_and_mask unat_word_ariths unat_pow2_word)
    from this [of "kf_read f - kf_write f - 1"] show ?thesis
      by (simp add: kni_fifo_free_count_def algebra_simps)
  qed
  moreover have "unat (kf_len f + kf_read f - (kf_write f + 1)) = ?sz + ?r - (?w + 1)"
  proof -
    have "unat (kf_write f + 1) = ?w + 1" "unat (kf_len f + kf_read f) = ?sz + ?r"
      using b ix(4) by (simp_all add: unat_add_nowrap unat_1)
    with b show ?thesis by (subst unat_sub_nowrap) simp_all
  qed
  ultimately have room: "kni_fifo_room f = (?sz + ?r - (?w + 1)) mod ?sz"
    using ix(2) by (simp add: kni_fifo_room_def)
  have w: "?w = (?r + kni_fifo_used f) mod ?sz" using at by (simp add: fifo_at_def)
  show ?thesis
  proof (cases "?r + kni_fifo_used f < ?sz")
    case True
    then have "?sz + ?r - (?w + 1) = ?sz - 1 - kni_fifo_used f" "?sz - 1 - kni_fifo_used f < ?sz"
      using w b by simp_all
    then show ?thesis using room by simp
  next
    case False
    then have "(?r + kni_fifo_used f) mod ?sz = ?r + kni_fifo_used f - ?sz"
      using b by (subst le_mod_geq) simp_all
    then have "?sz + ?r - (?w + 1) = ?sz + (?sz - 1 - kni_fifo_used f)" "?sz - 1 - kni_fifo_used f < ?sz"
      using w b False by simp_all
    then show ?thesis using room by simp
  qed
qed

lemma length_kni_fifo_list [simp]: "length (kni_fifo_list f) = kni_fifo_used f"
  by (simp add: kni_fifo_list_def)

lemma kni_fifo_put_ok:
  assumes "kni_fifo_inv f" "unat n \<le> length data"
  shows "\<exists>f'. kni_fifo_put f data n = Some (of_nat (min (unat n) (kni_fifo_room f)), f') \<and> kni_fifo_inv f' \<and>
    kni_fifo_list f' = kni_fifo_list f @ take (min (unat n) (kni_fifo_room f)) data \<and>
    kni_fifo_room f' = kni_fifo_room f - unat n \<and> kf_len f' = kf_len f"
proof -
  let ?sz = "unat (kf_len f)" and ?m = "min (unat n) (kni_fifo_room f)"
  note at = kni_fifo_at [OF assms(1)] and room = kni_fifo_room_used [OF assms(1)]
  have len: "?sz \<le> length (kf_buffer f)" using assms(1) by (simp add: kni_fifo_inv_def)
  from kni_put_loop_ok [OF at len, of 0 "unat n" data] assms(2) obtain w' buf' where
    l: "kni_put_loop (unat n) (kf_len f) (kf_read f) data 0 (kf_write f) (kf_write f) (kf_buffer f) =
        Some (of_nat ?m, w', buf')"
      "fifo_at ?sz (kf_len f) (kf_read f) w' (kni_fifo_used f + ?m)" "length buf' = length (kf_buffer f)"
      "ring_get buf' ?sz (unat (kf_read f)) (kni_fifo_used f + ?m) =
        ring_get (kf_buffer f) ?sz (unat (kf_read f)) (kni_fifo_used f) @ take ?m data"
    by (auto simp: room)
  let ?f = "f\<lparr>kf_write := w', kf_buffer := buf'\<rparr>"
  have eta: "?f = \<lparr>kf_write = w', kf_read = kf_read f, kf_len = kf_len f, kf_elem_size = kf_elem_size f, kf_buffer = buf'\<rparr>"
    by (cases f) simp
  have i: "kni_fifo_inv ?f" and u: "kni_fifo_used ?f = kni_fifo_used f + ?m"
    unfolding eta using fifo_at_inv [OF l(2)] l(3) len by auto
  have "kni_fifo_room ?f = kni_fifo_room f - unat n"
    using kni_fifo_room_used [OF i] room u by (auto simp: min_def)
  then show ?thesis using l i u
    by (intro exI [of _ ?f]) (simp add: kni_fifo_put_def Let_def kni_fifo_list_def)
qed

lemma kni_fifo_get_ok:
  assumes "kni_fifo_inv f" "unat n \<le> length data"
  shows "\<exists>f'. kni_fifo_get f data n = Some (of_nat (min (unat n) (kni_fifo_used f)),
      take (min (unat n) (kni_fifo_used f)) (kni_fifo_list f) @ drop (min (unat n) (kni_fifo_used f)) data, f') \<and>
    kni_fifo_inv f' \<and> kni_fifo_list f' = drop (unat n) (kni_fifo_list f) \<and>
    kni_fifo_room f' = kni_fifo_room f + min (unat n) (kni_fifo_used f) \<and> kf_len f' = kf_len f"
proof -
  let ?sz = "unat (kf_len f)" and ?m = "min (unat n) (kni_fifo_used f)"
  note at = kni_fifo_at [OF assms(1)] and room = kni_fifo_room_used [OF assms(1)]
  have len: "?sz \<le> length (kf_buffer f)" using assms(1) by (simp add: kni_fifo_inv_def)
  have tk: "ring_get (kf_buffer f) ?sz (unat (kf_read f)) ?m = take ?m (kni_fifo_list f)"
    by (simp add: kni_fifo_list_def ring_get_def take_map min_def)
  from kni_get_loop_ok [OF at len, of 0 "unat n" data] assms(2) obtain r' where
    l: "kni_get_loop (unat n) (kf_len f) (kf_write f) (kf_buffer f) 0 (kf_read f) data =
        Some (of_nat ?m, r', take ?m (kni_fifo_list f) @ drop ?m data)"
      "fifo_at ?sz (kf_len f) r' (kf_write f) (kni_fifo_used f - ?m)"
      "ring_get (kf_buffer f) ?sz (unat r') (kni_fifo_used f - ?m) = drop ?m (kni_fifo_list f)"
    by (auto simp: tk) (auto simp: kni_fifo_list_def)
  let ?f = "f\<lparr>kf_read := r'\<rparr>"
  have eta: "?f = \<lparr>kf_write = kf_write f, kf_read = r', kf_len = kf_len f, kf_elem_size = kf_elem_size f, kf_buffer = kf_buffer f\<rparr>"
    by (cases f) simp
  have i: "kni_fifo_inv ?f" and u: "kni_fifo_used ?f = kni_fifo_used f - ?m"
    unfolding eta using fifo_at_inv [OF l(2) len] by auto
  have "kni_fifo_room ?f = kni_fifo_room f + ?m"
    using kni_fifo_room_used [OF i] room u fifo_at_bounds(3) [OF at] by simp
  moreover have "kni_fifo_list ?f = drop (unat n) (kni_fifo_list f)"
    using l(3) u by (simp add: kni_fifo_list_def) (simp add: min_def ring_get_def)
  ultimately show ?thesis using l i
    by (intro exI [of _ ?f]) (simp add: kni_fifo_get_def)
qed

text \<open>A put with exactly the elements, and a get into a fresh table.\<close>

definition kni_put :: "rte_kni_fifo \<Rightarrow> addr list \<Rightarrow> (nat \<times> rte_kni_fifo) option" where
  "kni_put f xs = map_option (\<lambda>(i, f). (unat i, f)) (kni_fifo_put f xs (of_nat (length xs)))"

definition kni_get :: "rte_kni_fifo \<Rightarrow> nat \<Rightarrow> (addr list \<times> rte_kni_fifo) option" where
  "kni_get f n = map_option (\<lambda>(i, data, f). (take (unat i) data, f)) (kni_fifo_get f (replicate n NULL) (of_nat n))"

lemma unat_of_min: "k < 2 ^ 32 \<Longrightarrow> unat (of_nat (min k j) :: u32) = min k j"
  by (simp add: unat_of_nat min_def)

interpretation kni_q: bounded_fifo kni_fifo_inv kni_fifo_list kni_fifo_room kni_put kni_get
proof unfold_locales
  fix f :: rte_kni_fifo and xs :: "addr list"
  assume "kni_fifo_inv f" "length xs < 2 ^ 32"
  then have u: "unat (of_nat (length xs) :: u32) = length xs" by (simp add: unat_of_nat)
  have "take (min (length xs) (kni_fifo_room f)) xs = take (kni_fifo_room f) xs" by (simp add: min_def)
  with kni_fifo_put_ok [OF \<open>kni_fifo_inv f\<close>, of "of_nat (length xs)" xs] u unat_of_min [OF \<open>length xs < 2 ^ 32\<close>]
  show "\<exists>f'. kni_put f xs = Some (min (length xs) (kni_fifo_room f), f') \<and> kni_fifo_inv f' \<and>
      kni_fifo_list f' = kni_fifo_list f @ take (kni_fifo_room f) xs \<and> kni_fifo_room f' = kni_fifo_room f - length xs"
    by (auto simp: kni_put_def)
next
  fix f :: rte_kni_fifo and n :: nat
  assume "kni_fifo_inv f" "n < 2 ^ 32"
  then have u: "unat (of_nat n :: u32) = n" by (simp add: unat_of_nat)
  have "take (min n (kni_fifo_used f)) (kni_fifo_list f) = take n (kni_fifo_list f)" by (simp add: min_def)
  with kni_fifo_get_ok [OF \<open>kni_fifo_inv f\<close>, of "of_nat n" "replicate n NULL"] u unat_of_min [OF \<open>n < 2 ^ 32\<close>]
  show "\<exists>f'. kni_get f n = Some (take n (kni_fifo_list f), f') \<and> kni_fifo_inv f' \<and>
      kni_fifo_list f' = drop n (kni_fifo_list f) \<and> kni_fifo_room f' = kni_fifo_room f + min n (length (kni_fifo_list f))"
    by (auto simp: kni_get_def)
qed

end
