(* ===== verification/Mempool.thy ===== *)
theory Mempool
  imports Prelude
begin

text \<open>
  The data path of \<open>lib/mempool\<close> (\<open>rte_mempool.h\<close>): per-lcore caches in front of a
  common pool that a driver keeps. The driver's callbacks are the fields of a record, and
  what the pool relies on is the locale \<open>mempool_driver\<close>, which \<open>Mempool_Ring\<close>
  interprets on the ring driver. The lemmas show that no object is lost or handed out
  twice and that the caches stay inside their arrays.
\<close>

section \<open>Data\<close>

definition RTE_MAX_LCORE :: nat where "RTE_MAX_LCORE = 128"
definition RTE_MEMPOOL_CACHE_MAX_SIZE :: u32 where "RTE_MEMPOOL_CACHE_MAX_SIZE = 512"

text \<open>\<open>void *objs[RTE_MEMPOOL_CACHE_MAX_SIZE * 3]\<close>\<close>

record rte_mempool_cache =
  mc_size :: u32
  mc_flushthresh :: u32
  mc_len :: u32
  mc_objs :: "addr list"

definition cache_objs_max :: nat where "cache_objs_max = 1536"

text \<open>
  \<open>'p\<close> is what \<open>pool_data\<close> points to; \<open>mp_elt_list\<close> holds the addresses of the objects
  of the pool and \<open>mp_nb_mem_chunks\<close> counts the memory they lie in.
\<close>

record 'p rte_mempool =
  mp_name :: string
  mp_pool_data :: "'p option"
  mp_flags :: u32
  mp_socket_id :: int
  mp_size :: u32
  mp_cache_size :: u32
  mp_elt_size :: u32
  mp_header_size :: u32
  mp_trailer_size :: u32
  mp_private_data_size :: u32
  mp_ops_index :: nat
  mp_local_cache :: "rte_mempool_cache list"
  mp_populated_size :: u32
  mp_elt_list :: "addr list"
  mp_nb_mem_chunks :: u32

text \<open>
  The callbacks use the pool only for its \<open>pool_data\<close>, save \<open>alloc\<close>, which sets it.
  \<open>dequeue\<close> fills the table it is given.
\<close>

record 'p rte_mempool_ops =
  ops_name :: string
  ops_alloc :: "'p rte_mempool \<Rightarrow> int \<times> 'p rte_mempool"
  ops_enqueue :: "'p \<Rightarrow> addr list \<Rightarrow> u32 \<Rightarrow> (int \<times> 'p) option"
  ops_dequeue :: "'p \<Rightarrow> addr list \<Rightarrow> u32 \<Rightarrow> (int \<times> addr list \<times> 'p) option"
  ops_get_count :: "'p \<Rightarrow> u32"

text \<open>The registered drivers: \<open>rte_mempool_ops_table\<close> up to \<open>num_ops\<close>.\<close>

type_synonym 'p ops_table = "'p rte_mempool_ops list"

section \<open>The common pool\<close>

definition rte_mempool_get_ops :: "'p ops_table \<Rightarrow> nat \<Rightarrow> 'p rte_mempool_ops option" where
  "rte_mempool_get_ops ot ops_index = (if ops_index < length ot then Some (ot ! ops_index) else None)"

definition rte_mempool_ops_enqueue_bulk ::
  "'p ops_table \<Rightarrow> 'p rte_mempool \<Rightarrow> addr list \<Rightarrow> u32 \<Rightarrow> (int \<times> 'p rte_mempool) option" where
  "rte_mempool_ops_enqueue_bulk ot mp obj_table n =
     do { ops \<leftarrow> rte_mempool_get_ops ot (mp_ops_index mp);
          p \<leftarrow> mp_pool_data mp;
          (ret, p) \<leftarrow> ops_enqueue ops p obj_table n;
          Some (ret, mp\<lparr>mp_pool_data := Some p\<rparr>) }"

definition rte_mempool_ops_dequeue_bulk ::
  "'p ops_table \<Rightarrow> 'p rte_mempool \<Rightarrow> addr list \<Rightarrow> u32 \<Rightarrow> (int \<times> addr list \<times> 'p rte_mempool) option" where
  "rte_mempool_ops_dequeue_bulk ot mp obj_table n =
     do { ops \<leftarrow> rte_mempool_get_ops ot (mp_ops_index mp);
          p \<leftarrow> mp_pool_data mp;
          (ret, obj_table, p) \<leftarrow> ops_dequeue ops p obj_table n;
          Some (ret, obj_table, mp\<lparr>mp_pool_data := Some p\<rparr>) }"

definition rte_mempool_ops_get_count :: "'p ops_table \<Rightarrow> 'p rte_mempool \<Rightarrow> u32 option" where
  "rte_mempool_ops_get_count ot mp =
     do { ops \<leftarrow> rte_mempool_get_ops ot (mp_ops_index mp);
          p \<leftarrow> mp_pool_data mp;
          Some (ops_get_count ops p) }"

section \<open>Caches\<close>

text \<open>\<open>(typeof(c))((c) * 1.5)\<close>: exact in a \<open>double\<close>, then cut to an integer.\<close>

definition CALC_CACHE_FLUSHTHRESH :: "u32 \<Rightarrow> u32" where
  "CALC_CACHE_FLUSHTHRESH c = of_nat (unat c * 3 div 2)"

definition mempool_cache_init :: "rte_mempool_cache \<Rightarrow> u32 \<Rightarrow> rte_mempool_cache" where
  "mempool_cache_init cache sz =
     cache\<lparr>mc_size := sz, mc_flushthresh := CALC_CACHE_FLUSHTHRESH sz, mc_len := 0\<rparr>"

text \<open>A zeroed cache: \<open>rte_zmalloc_socket\<close> and the \<open>memset\<close> of a new pool.\<close>

definition zero_cache :: rte_mempool_cache where
  "zero_cache = \<lparr>mc_size = 0, mc_flushthresh = 0, mc_len = 0, mc_objs = replicate cache_objs_max NULL\<rparr>"

text \<open>\<open>Inl\<close> is \<open>rte_errno\<close>; \<open>alloc\<close> is whether the allocation succeeds.\<close>

definition rte_mempool_cache_create :: "bool \<Rightarrow> u32 \<Rightarrow> int + rte_mempool_cache" where
  "rte_mempool_cache_create alloc sz =
     (if sz = 0 \<or> RTE_MEMPOOL_CACHE_MAX_SIZE < sz then Inl EINVAL
      else if \<not> alloc then Inl ENOMEM
      else Inr (mempool_cache_init zero_cache sz))"

text \<open>The index of the cache of an lcore.\<close>

definition rte_mempool_default_cache :: "'p rte_mempool \<Rightarrow> u32 \<Rightarrow> nat option" where
  "rte_mempool_default_cache mp lcore_id =
     (if mp_cache_size mp = 0 then None
      else if of_nat RTE_MAX_LCORE \<le> lcore_id then None
      else Some (unat lcore_id))"

text \<open>\<open>memcpy\<close> of \<open>n\<close> pointers into a table.\<close>

definition blit :: "'a list \<Rightarrow> nat \<Rightarrow> 'a list \<Rightarrow> nat \<Rightarrow> 'a list option" where
  "blit dst off src n =
     (if off + n \<le> length dst \<and> n \<le> length src
      then Some (take off dst @ take n src @ drop (off + n) dst) else None)"

section \<open>Put\<close>

text \<open>
  A negative result of the common pool is not looked at (statistics and cookies are off).
  \<open>&cache->objs[cache->size]\<close> is the rest of the array from there.
\<close>

definition rte_mempool_do_generic_put ::
  "'p ops_table \<Rightarrow> 'p rte_mempool \<Rightarrow> addr list \<Rightarrow> u32 \<Rightarrow> rte_mempool_cache option \<Rightarrow>
     ('p rte_mempool \<times> rte_mempool_cache option) option" where
  "rte_mempool_do_generic_put ot mp obj_table n cache =
     (case cache of
        None \<Rightarrow> do { (_, mp) \<leftarrow> rte_mempool_ops_enqueue_bulk ot mp obj_table n; Some (mp, None) }
      | Some c \<Rightarrow>
          if RTE_MEMPOOL_CACHE_MAX_SIZE < n then
            do { (_, mp) \<leftarrow> rte_mempool_ops_enqueue_bulk ot mp obj_table n; Some (mp, Some c) }
          else
            do { objs \<leftarrow> blit (mc_objs c) (unat (mc_len c)) obj_table (unat n);
                 let c = c\<lparr>mc_objs := objs, mc_len := mc_len c + n\<rparr>;
                 if mc_flushthresh c \<le> mc_len c then
                   do { (_, mp) \<leftarrow> rte_mempool_ops_enqueue_bulk ot mp (drop (unat (mc_size c)) (mc_objs c))
                          (mc_len c - mc_size c);
                        Some (mp, Some (c\<lparr>mc_len := mc_size c\<rparr>)) }
                 else Some (mp, Some c) })"

text \<open>The cookie checks and traces of \<open>rte_mempool_generic_put\<close> are compiled out.\<close>

definition rte_mempool_generic_put ::
  "'p ops_table \<Rightarrow> 'p rte_mempool \<Rightarrow> addr list \<Rightarrow> u32 \<Rightarrow> rte_mempool_cache option \<Rightarrow>
     ('p rte_mempool \<times> rte_mempool_cache option) option" where
  "rte_mempool_generic_put ot mp obj_table n cache = rte_mempool_do_generic_put ot mp obj_table n cache"

text \<open>Storing a cache back into the array of the pool it is part of.\<close>

definition local_cache_upd :: "'p rte_mempool \<Rightarrow> nat \<Rightarrow> rte_mempool_cache \<Rightarrow> 'p rte_mempool" where
  "local_cache_upd mp i c = mp\<lparr>mp_local_cache := (mp_local_cache mp)[i := c]\<rparr>"

definition local_cache_at :: "'p rte_mempool \<Rightarrow> nat \<Rightarrow> rte_mempool_cache option" where
  "local_cache_at mp i = (if i < length (mp_local_cache mp) then Some (mp_local_cache mp ! i) else None)"

definition rte_mempool_put_bulk ::
  "'p ops_table \<Rightarrow> u32 \<Rightarrow> 'p rte_mempool \<Rightarrow> addr list \<Rightarrow> u32 \<Rightarrow> 'p rte_mempool option" where
  "rte_mempool_put_bulk ot lcore mp obj_table n =
     (case rte_mempool_default_cache mp lcore of
        None \<Rightarrow> map_option fst (rte_mempool_generic_put ot mp obj_table n None)
      | Some i \<Rightarrow>
          do { c \<leftarrow> local_cache_at mp i;
               (mp, c) \<leftarrow> rte_mempool_generic_put ot mp obj_table n (Some c);
               c \<leftarrow> c;
               Some (local_cache_upd mp i c) })"

definition rte_mempool_put :: "'p ops_table \<Rightarrow> u32 \<Rightarrow> 'p rte_mempool \<Rightarrow> addr \<Rightarrow> 'p rte_mempool option" where
  "rte_mempool_put ot lcore mp obj = rte_mempool_put_bulk ot lcore mp [obj] 1"

text \<open>A flush of a cache the caller owns, and of the one of its lcore (\<open>cache == NULL\<close>).\<close>

definition cache_flush :: "'p ops_table \<Rightarrow> rte_mempool_cache \<Rightarrow> 'p rte_mempool \<Rightarrow>
    ('p rte_mempool \<times> rte_mempool_cache) option" where
  "cache_flush ot c mp =
     (if mc_len c = 0 then Some (mp, c)
      else do { (_, mp) \<leftarrow> rte_mempool_ops_enqueue_bulk ot mp (mc_objs c) (mc_len c);
                Some (mp, c\<lparr>mc_len := 0\<rparr>) })"

definition rte_mempool_cache_flush ::
  "'p ops_table \<Rightarrow> u32 \<Rightarrow> rte_mempool_cache option \<Rightarrow> 'p rte_mempool \<Rightarrow>
     ('p rte_mempool \<times> rte_mempool_cache option) option" where
  "rte_mempool_cache_flush ot lcore cache mp =
     (case cache of
        Some c \<Rightarrow> do { (mp, c) \<leftarrow> cache_flush ot c mp; Some (mp, Some c) }
      | None \<Rightarrow>
          (case rte_mempool_default_cache mp lcore of
             None \<Rightarrow> Some (mp, None)
           | Some i \<Rightarrow> do { c \<leftarrow> local_cache_at mp i;
                            (mp, c) \<leftarrow> cache_flush ot c mp;
                            Some (local_cache_upd mp i c, None) }))"

section \<open>Get\<close>

text \<open>
  \<open>for (index = 0, len = cache->len - 1; index < n; ++index, len--, obj_table++)
  *obj_table = cache_objs[len];\<close> with \<open>k\<close> rounds to go.
\<close>

primrec fill_from_cache :: "nat \<Rightarrow> addr list \<Rightarrow> u32 \<Rightarrow> u32 \<Rightarrow> addr list \<Rightarrow> addr list option" where
  "fill_from_cache 0 objs len index obj_table = Some obj_table"
| "fill_from_cache (Suc k) objs len index obj_table =
     do { x \<leftarrow> ld objs len; obj_table \<leftarrow> st obj_table index x;
          fill_from_cache k objs (len - 1) (index + 1) obj_table }"

text \<open>Result, object table, pool, cache. A failed refill of the cache falls back to the common pool.\<close>

definition ring_dequeue ::
  "'p ops_table \<Rightarrow> 'p rte_mempool \<Rightarrow> addr list \<Rightarrow> u32 \<Rightarrow> rte_mempool_cache option \<Rightarrow>
     (int \<times> addr list \<times> 'p rte_mempool \<times> rte_mempool_cache option) option" where
  "ring_dequeue ot mp obj_table n cache =
     do { (ret, obj_table, mp) \<leftarrow> rte_mempool_ops_dequeue_bulk ot mp obj_table n;
          Some (ret, obj_table, mp, cache) }"

definition rte_mempool_do_generic_get ::
  "'p ops_table \<Rightarrow> 'p rte_mempool \<Rightarrow> addr list \<Rightarrow> u32 \<Rightarrow> rte_mempool_cache option \<Rightarrow>
     (int \<times> addr list \<times> 'p rte_mempool \<times> rte_mempool_cache option) option" where
  "rte_mempool_do_generic_get ot mp obj_table n cache =
     (case cache of
        None \<Rightarrow> ring_dequeue ot mp obj_table n None
      | Some c \<Rightarrow>
          if mc_size c \<le> n then ring_dequeue ot mp obj_table n (Some c)
          else
            let respond = (\<lambda>mp c. do {
                  obj_table \<leftarrow> fill_from_cache (unat n) (mc_objs c) (mc_len c - 1) 0 obj_table;
                  Some (0, obj_table, mp, Some (c\<lparr>mc_len := mc_len c - n\<rparr>)) })
            in if mc_len c < n then
                 do { let req = n + (mc_size c - mc_len c);
                      (ret, rest, mp') \<leftarrow> rte_mempool_ops_dequeue_bulk ot mp (drop (unat (mc_len c)) (mc_objs c)) req;
                      let c' = c\<lparr>mc_objs := take (unat (mc_len c)) (mc_objs c) @ rest\<rparr>;
                      if ret < 0 then ring_dequeue ot mp' obj_table n (Some c')
                      else respond mp' (c'\<lparr>mc_len := mc_len c + req\<rparr>) }
               else respond mp c)"

definition rte_mempool_generic_get ::
  "'p ops_table \<Rightarrow> 'p rte_mempool \<Rightarrow> addr list \<Rightarrow> u32 \<Rightarrow> rte_mempool_cache option \<Rightarrow>
     (int \<times> addr list \<times> 'p rte_mempool \<times> rte_mempool_cache option) option" where
  "rte_mempool_generic_get ot mp obj_table n cache = rte_mempool_do_generic_get ot mp obj_table n cache"

definition rte_mempool_get_bulk ::
  "'p ops_table \<Rightarrow> u32 \<Rightarrow> 'p rte_mempool \<Rightarrow> addr list \<Rightarrow> u32 \<Rightarrow> (int \<times> addr list \<times> 'p rte_mempool) option" where
  "rte_mempool_get_bulk ot lcore mp obj_table n =
     (case rte_mempool_default_cache mp lcore of
        None \<Rightarrow> do { (ret, obj_table, mp, _) \<leftarrow> rte_mempool_generic_get ot mp obj_table n None;
                     Some (ret, obj_table, mp) }
      | Some i \<Rightarrow>
          do { c \<leftarrow> local_cache_at mp i;
               (ret, obj_table, mp, c) \<leftarrow> rte_mempool_generic_get ot mp obj_table n (Some c);
               c \<leftarrow> c;
               Some (ret, obj_table, local_cache_upd mp i c) })"

definition rte_mempool_get :: "'p ops_table \<Rightarrow> u32 \<Rightarrow> 'p rte_mempool \<Rightarrow> (int \<times> addr \<times> 'p rte_mempool) option" where
  "rte_mempool_get ot lcore mp =
     do { (ret, t, mp) \<leftarrow> rte_mempool_get_bulk ot lcore mp [NULL] 1; Some (ret, hd t, mp) }"

section \<open>Counts\<close>

definition rte_mempool_avail_count :: "'p ops_table \<Rightarrow> 'p rte_mempool \<Rightarrow> u32 option" where
  "rte_mempool_avail_count ot mp =
     do { cnt \<leftarrow> rte_mempool_ops_get_count ot mp;
          Some (if mp_cache_size mp = 0 then cnt
                else let cnt = fold (\<lambda>c cnt. cnt + mc_len c) (mp_local_cache mp) cnt
                     in if mp_size mp < cnt then mp_size mp else cnt) }"

definition rte_mempool_in_use_count :: "'p ops_table \<Rightarrow> 'p rte_mempool \<Rightarrow> u32 option" where
  "rte_mempool_in_use_count ot mp = map_option (\<lambda>cnt. mp_size mp - cnt) (rte_mempool_avail_count ot mp)"

definition rte_mempool_full :: "'p ops_table \<Rightarrow> 'p rte_mempool \<Rightarrow> bool option" where
  "rte_mempool_full ot mp = map_option (\<lambda>cnt. cnt = mp_size mp) (rte_mempool_avail_count ot mp)"

definition rte_mempool_empty :: "'p ops_table \<Rightarrow> 'p rte_mempool \<Rightarrow> bool option" where
  "rte_mempool_empty ot mp = map_option (\<lambda>cnt. cnt = 0) (rte_mempool_avail_count ot mp)"

section \<open>What is in a cache\<close>

definition cached :: "rte_mempool_cache \<Rightarrow> addr list" where
  "cached c = take (unat (mc_len c)) (mc_objs c)"

definition cache_ok :: "rte_mempool_cache \<Rightarrow> bool" where
  "cache_ok c \<longleftrightarrow> mc_size c \<le> RTE_MEMPOOL_CACHE_MAX_SIZE \<and>
     mc_flushthresh c = CALC_CACHE_FLUSHTHRESH (mc_size c) \<and>
     length (mc_objs c) = cache_objs_max \<and> mc_len c \<le> mc_flushthresh c"

definition copt_ok :: "rte_mempool_cache option \<Rightarrow> bool" where
  "copt_ok c \<longleftrightarrow> (case c of None \<Rightarrow> True | Some c \<Rightarrow> cache_ok c)"

definition copt_bag :: "rte_mempool_cache option \<Rightarrow> addr multiset" where
  "copt_bag c = (case c of None \<Rightarrow> {#} | Some c \<Rightarrow> mset (cached c))"

lemma copt_simps [simp]:
  "copt_ok None" "copt_ok (Some c) = cache_ok c" "copt_bag None = {#}" "copt_bag (Some c) = mset (cached c)"
  by (simp_all add: copt_ok_def copt_bag_def)

lemma flushthresh_bounds:
  assumes "sz \<le> RTE_MEMPOOL_CACHE_MAX_SIZE"
  shows "unat (CALC_CACHE_FLUSHTHRESH sz) = unat sz * 3 div 2" "unat sz \<le> 512"
    "unat sz \<le> unat (CALC_CACHE_FLUSHTHRESH sz)" "unat (CALC_CACHE_FLUSHTHRESH sz) \<le> 768"
proof -
  show sz: "unat sz \<le> 512" using assms by (simp add: RTE_MEMPOOL_CACHE_MAX_SIZE_def word_le_nat_alt)
  then show f: "unat (CALC_CACHE_FLUSHTHRESH sz) = unat sz * 3 div 2"
    by (simp add: CALC_CACHE_FLUSHTHRESH_def unat_of_nat)
  show "unat sz \<le> unat (CALC_CACHE_FLUSHTHRESH sz)" "unat (CALC_CACHE_FLUSHTHRESH sz) \<le> 768"
    using sz unfolding f by auto
qed

lemma cache_okD:
  assumes "cache_ok c"
  shows "unat (mc_size c) \<le> 512" "unat (mc_size c) \<le> unat (mc_flushthresh c)"
    "unat (mc_len c) \<le> unat (mc_flushthresh c)" "unat (mc_flushthresh c) \<le> 768" "length (mc_objs c) = 1536"
proof -
  have f: "mc_flushthresh c = CALC_CACHE_FLUSHTHRESH (mc_size c)" "mc_size c \<le> RTE_MEMPOOL_CACHE_MAX_SIZE"
    using assms by (simp_all add: cache_ok_def)
  show "unat (mc_size c) \<le> 512" "unat (mc_size c) \<le> unat (mc_flushthresh c)" "unat (mc_flushthresh c) \<le> 768"
    unfolding f(1) by (fact flushthresh_bounds(2-4) [OF f(2)])+
  have "mc_len c \<le> mc_flushthresh c" "length (mc_objs c) = cache_objs_max"
    using assms unfolding cache_ok_def by blast+
  then show "unat (mc_len c) \<le> unat (mc_flushthresh c)" "length (mc_objs c) = 1536"
    by (simp_all only: word_le_nat_alt cache_objs_max_def)
qed

lemma cache_ok_upd:
  "cache_ok c \<Longrightarrow> len \<le> mc_flushthresh c \<Longrightarrow> cache_ok (c\<lparr>mc_len := len\<rparr>)"
  "cache_ok c \<Longrightarrow> length objs = 1536 \<Longrightarrow> len \<le> mc_flushthresh c \<Longrightarrow>
     cache_ok (c\<lparr>mc_objs := objs, mc_len := len\<rparr>)"
  by (simp_all add: cache_ok_def cache_objs_max_def)

lemma length_cached: "cache_ok c \<Longrightarrow> length (cached c) = unat (mc_len c)"
  using cache_okD [of c] by (simp add: cached_def)

lemma cache_init_ok:
  "sz \<le> RTE_MEMPOOL_CACHE_MAX_SIZE \<Longrightarrow> length (mc_objs c) = cache_objs_max \<Longrightarrow> cache_ok (mempool_cache_init c sz)"
  by (simp add: cache_ok_def mempool_cache_init_def)

lemma cached_init [simp]: "cached (mempool_cache_init c sz) = []"
  by (simp add: cached_def mempool_cache_init_def)

text \<open>The response is read from the end of the cache: last in, first out.\<close>

lemma fill_from_cache_Some:
  "k \<le> Suc (unat l) \<Longrightarrow> unat l < length objs \<Longrightarrow> unat i + k \<le> length t \<Longrightarrow> unat i + k < 2 ^ 32 \<Longrightarrow>
     fill_from_cache k objs l i t =
       Some (take (unat i) t @ map (\<lambda>j. objs ! (unat l - j)) [0..<k] @ drop (unat i + k) t)"
proof (induction k arbitrary: l i t)
  case 0
  then show ?case by simp
next
  case (Suc k)
  have i: "unat (i + 1) = Suc (unat i)" using Suc.prems by (simp add: unat_add_nowrap unat_1)
  show ?case
  proof (cases k)
    case 0
    with Suc.prems show ?thesis by (simp add: upd_conv_take_nth_drop)
  next
    case (Suc k')
    with Suc.prems have "1 \<le> unat l" by simp
    then have l: "unat (l - 1) = unat l - 1" by (subst unat_sub_nowrap) (simp_all add: unat_1)
    have m: "map (\<lambda>j. objs ! (unat l - j)) [0..<Suc k] =
        objs ! unat l # map (\<lambda>j. objs ! (unat l - 1 - j)) [0..<k]"
      by (simp add: upt_conv_Cons map_Suc_upt [symmetric] o_def del: upt_Suc)
    show ?thesis
      using Suc.prems Suc.IH [of "l - 1" "i + 1" "t[unat i := objs ! unat l]"] i l \<open>k = Suc k'\<close>
      unfolding m by (simp add: take_Suc_conv_app_nth)
  qed
qed

lemma take_last_rev:
  assumes "k \<le> len" "len \<le> length objs"
  shows "map (\<lambda>j. objs ! (len - 1 - j)) [0..<k] = rev (drop (len - k) (take len objs))"
  using assms by (intro nth_equalityI) (auto simp: rev_nth min_def)

section \<open>The driver's contract\<close>

text \<open>
  What the pool relies on: a bag of objects with a capacity. A request for zero objects
  changes nothing, whatever it returns; one that cannot be met fails and changes nothing.
\<close>

locale mempool_driver =
  fixes drv :: "'p rte_mempool_ops"
    and inv :: "'p \<Rightarrow> bool"
    and bag :: "'p \<Rightarrow> addr multiset"
    and room :: "'p \<Rightarrow> nat"
  assumes enq_room: "inv p \<Longrightarrow> n \<noteq> 0 \<Longrightarrow> unat n \<le> length t \<Longrightarrow> unat n \<le> room p \<Longrightarrow>
      \<exists>p'. ops_enqueue drv p t n = Some (0, p') \<and> inv p' \<and>
        bag p' = bag p + mset (take (unat n) t) \<and> room p' = room p - unat n"
    and enq_zero: "inv p \<Longrightarrow> \<exists>e. ops_enqueue drv p t 0 = Some (e, p)"
    and deq_enough: "inv p \<Longrightarrow> n \<noteq> 0 \<Longrightarrow> unat n \<le> length t \<Longrightarrow> unat n \<le> size (bag p) \<Longrightarrow>
      \<exists>xs p'. ops_dequeue drv p t n = Some (0, xs @ drop (unat n) t, p') \<and> inv p' \<and>
        length xs = unat n \<and> bag p = mset xs + bag p' \<and> room p' = room p + unat n"
    and deq_short: "inv p \<Longrightarrow> unat n \<le> length t \<Longrightarrow> size (bag p) < unat n \<Longrightarrow>
      \<exists>e<0. ops_dequeue drv p t n = Some (e, t, p)"
    and cnt_ok: "inv p \<Longrightarrow> unat (ops_get_count drv p) = size (bag p)"
begin

text \<open>An enqueue of the pool, including the empty one of a cache of size 1.\<close>

lemma enqueue_bulk_ok:
  assumes "rte_mempool_get_ops ot (mp_ops_index mp) = Some drv" "mp_pool_data mp = Some p" "inv p"
    and "unat n \<le> length t" "unat n \<le> room p"
  shows "\<exists>ret p'. rte_mempool_ops_enqueue_bulk ot mp t n = Some (ret, mp\<lparr>mp_pool_data := Some p'\<rparr>) \<and>
    inv p' \<and> bag p' = bag p + mset (take (unat n) t) \<and> room p' + size (bag p') = room p + size (bag p)"
proof (cases "n = 0")
  case True
  with enq_zero [OF assms(3), of t] assms show ?thesis
    by (auto simp: rte_mempool_ops_enqueue_bulk_def)
next
  case False
  from enq_room [OF assms(3) False assms(4,5)] obtain p' where
    "ops_enqueue drv p t n = Some (0, p')" "inv p'" "bag p' = bag p + mset (take (unat n) t)"
    "room p' = room p - unat n" by blast
  with assms show ?thesis
    by (intro exI [of _ 0] exI [of _ p']) (simp add: rte_mempool_ops_enqueue_bulk_def)
qed

lemma dequeue_bulk_ok:
  assumes "rte_mempool_get_ops ot (mp_ops_index mp) = Some drv" "mp_pool_data mp = Some p" "inv p"
    and "unat n \<le> length t" "n \<noteq> 0"
  shows "if unat n \<le> size (bag p)
    then \<exists>xs p'. rte_mempool_ops_dequeue_bulk ot mp t n =
        Some (0, xs @ drop (unat n) t, mp\<lparr>mp_pool_data := Some p'\<rparr>) \<and>
      inv p' \<and> length xs = unat n \<and> bag p = mset xs + bag p' \<and>
      room p' + size (bag p') = room p + size (bag p)
    else \<exists>e<0. rte_mempool_ops_dequeue_bulk ot mp t n = Some (e, t, mp)"
proof (cases "unat n \<le> size (bag p)")
  case True
  with deq_enough [OF assms(3,5,4)] obtain xs p' where
    "ops_dequeue drv p t n = Some (0, xs @ drop (unat n) t, p')" "inv p'"
    "length xs = unat n" "bag p = mset xs + bag p'" "room p' = room p + unat n" by blast
  with assms True show ?thesis by (auto simp: rte_mempool_ops_dequeue_bulk_def)
next
  case False
  with deq_short [OF assms(3,4)] obtain e where "e < 0" "ops_dequeue drv p t n = Some (e, t, p)" by auto
  with assms False show ?thesis by (auto simp: rte_mempool_ops_dequeue_bulk_def)
qed

lemma generic_put_ok:
  assumes mp: "rte_mempool_get_ops ot (mp_ops_index mp) = Some drv" "mp_pool_data mp = Some p" "inv p"
    and c: "copt_ok c" and n: "unat n \<le> length t" "unat n + size (copt_bag c) \<le> room p"
  shows "\<exists>p' c'. rte_mempool_generic_put ot mp t n c = Some (mp\<lparr>mp_pool_data := Some p'\<rparr>, c') \<and>
    inv p' \<and> copt_ok c' \<and> (c' = None \<longleftrightarrow> c = None) \<and>
    bag p' + copt_bag c' = bag p + copt_bag c + mset (take (unat n) t) \<and>
    room p' + size (bag p') = room p + size (bag p)"
proof -
  have direct: "\<exists>ret p'. rte_mempool_ops_enqueue_bulk ot mp t n = Some (ret, mp\<lparr>mp_pool_data := Some p'\<rparr>) \<and>
      inv p' \<and> bag p' = bag p + mset (take (unat n) t) \<and> room p' + size (bag p') = room p + size (bag p)"
    using enqueue_bulk_ok [OF mp n(1)] n(2) by simp
  show ?thesis
  proof (cases c)
    case None
    with direct show ?thesis by (auto simp: rte_mempool_generic_put_def rte_mempool_do_generic_put_def)
  next
    case (Some k)
    show ?thesis
    proof (cases "RTE_MEMPOOL_CACHE_MAX_SIZE < n")
      case True
      from direct obtain ret p' where "rte_mempool_ops_enqueue_bulk ot mp t n = Some (ret, mp\<lparr>mp_pool_data := Some p'\<rparr>)"
        "inv p'" "bag p' = bag p + mset (take (unat n) t)" "room p' + size (bag p') = room p + size (bag p)" by blast
      with True Some c show ?thesis
        by (intro exI [of _ p'] exI [of _ c]) (simp add: rte_mempool_generic_put_def rte_mempool_do_generic_put_def)
    next
      case False
      note k = cache_okD [OF c [unfolded Some copt_simps]]
      let ?l = "unat (mc_len k)" and ?n = "unat n"
      from False have n512: "?n \<le> 512" by (simp add: RTE_MEMPOOL_CACHE_MAX_SIZE_def word_less_nat_alt)
      let ?objs = "take ?l (mc_objs k) @ take ?n t @ drop (?l + ?n) (mc_objs k)"
      have blit: "blit (mc_objs k) ?l t ?n = Some ?objs" using k n512 n(1) by (simp add: blit_def)
      have len: "unat (mc_len k + n) = ?l + ?n" using k n512 by (subst unat_add_nowrap) auto
      have all: "take (?l + ?n) ?objs = cached k @ take ?n t" using k n512 n(1) by (simp add: cached_def)
      have lobjs: "length ?objs = 1536" using k n512 n(1) by simp
      show ?thesis
      proof (cases "mc_flushthresh k \<le> mc_len k + n")
        case False
        let ?c' = "k\<lparr>mc_objs := ?objs, mc_len := mc_len k + n\<rparr>"
        have "cache_ok ?c'"
          by (rule cache_ok_upd(2) [OF c [unfolded Some copt_simps] lobjs]) (use False in simp)
        moreover have "cached ?c' = cached k @ take ?n t"
          unfolding all [symmetric] by (simp add: cached_def len)
        moreover have "rte_mempool_generic_put ot mp t n c = Some (mp\<lparr>mp_pool_data := Some p\<rparr>, Some ?c')"
          using Some False \<open>\<not> RTE_MEMPOOL_CACHE_MAX_SIZE < n\<close> blit mp(2)
          by (simp add: rte_mempool_generic_put_def rte_mempool_do_generic_put_def)
        ultimately show ?thesis using Some mp(3)
          by (intro exI [of _ p] exI [of _ "Some ?c'"]) simp
      next
        case True
        let ?s = "unat (mc_size k)"
        from True len have le: "?s \<le> ?l + ?n" using k by (simp add: word_le_nat_alt)
        have cnt: "unat (mc_len k + n - mc_size k) = ?l + ?n - ?s"
          using le len by (subst unat_sub_nowrap) auto
        have out: "take (?l + ?n - ?s) (drop ?s ?objs) = drop ?s (cached k @ take ?n t)"
          unfolding all [symmetric] by (simp only: drop_take)
        have "?l + ?n - ?s \<le> room p" using n(2) Some length_cached [OF c [unfolded Some copt_simps]] by simp
        then have r1: "unat (mc_len k + n - mc_size k) \<le> room p" by (simp only: cnt)
        have r2: "unat (mc_len k + n - mc_size k) \<le> length (drop ?s ?objs)"
          using k n512 unfolding cnt length_drop lobjs by auto
        from enqueue_bulk_ok [OF mp r2 r1, unfolded cnt out] obtain ret p' where
          p': "rte_mempool_ops_enqueue_bulk ot mp (drop ?s ?objs) (mc_len k + n - mc_size k)
              = Some (ret, mp\<lparr>mp_pool_data := Some p'\<rparr>)"
            "inv p'" "bag p' = bag p + mset (drop ?s (cached k @ take ?n t))"
            "room p' + size (bag p') = room p + size (bag p)"
          by blast
        let ?c' = "k\<lparr>mc_objs := ?objs, mc_len := mc_size k\<rparr>"
        have "cached ?c' = take ?s (cached k @ take ?n t)"
          unfolding cached_def [of ?c'] all [symmetric] using le by (simp add: min_absorb1 del: take_append)
        then have bag: "bag p' + mset (cached ?c') = bag p + mset (cached k) + mset (take ?n t)"
          using p'(3) mset_take_drop [of ?s "cached k @ take ?n t"] by (simp add: ac_simps)
        have "cache_ok ?c'"
          by (rule cache_ok_upd(2) [OF c [unfolded Some copt_simps] lobjs]) (use k in \<open>simp add: word_le_nat_alt\<close>)
        moreover have "rte_mempool_generic_put ot mp t n c = Some (mp\<lparr>mp_pool_data := Some p'\<rparr>, Some ?c')"
          using Some True \<open>\<not> RTE_MEMPOOL_CACHE_MAX_SIZE < n\<close> blit p'(1)
          by (simp add: rte_mempool_generic_put_def rte_mempool_do_generic_put_def)
        ultimately show ?thesis using Some p'(2,4) bag
          by (intro exI [of _ p'] exI [of _ "Some ?c'"]) (simp only: copt_simps option.distinct simp_thms)
      qed
    qed
  qed
qed


lemma ring_dequeue_ok:
  assumes mp: "rte_mempool_get_ops ot (mp_ops_index mp) = Some drv" "mp_pool_data mp = Some p" "inv p"
    and n: "unat n \<le> length t" "n \<noteq> 0"
  shows "if unat n \<le> size (bag p)
    then \<exists>xs p'. ring_dequeue ot mp t n c = Some (0, xs @ drop (unat n) t, mp\<lparr>mp_pool_data := Some p'\<rparr>, c) \<and>
      inv p' \<and> length xs = unat n \<and> bag p = mset xs + bag p' \<and> room p' + size (bag p') = room p + size (bag p)
    else \<exists>e<0. ring_dequeue ot mp t n c = Some (e, t, mp, c)"
  using dequeue_bulk_ok [OF mp n] by (fastforce simp: ring_dequeue_def split: if_splits)

text \<open>A response from the cache takes its last \<open>n\<close> objects.\<close>

lemma respond_from_cache:
  assumes "cache_ok c \<or> length (mc_objs c) = 1536 \<and> unat (mc_len c) \<le> 1536"
    "n \<noteq> 0" "unat n \<le> unat (mc_len c)" "unat n \<le> length t"
  shows "\<exists>xs. fill_from_cache (unat n) (mc_objs c) (mc_len c - 1) 0 t = Some (xs @ drop (unat n) t) \<and>
    length xs = unat n \<and> mset (cached c) = mset xs + mset (cached (c\<lparr>mc_len := mc_len c - n\<rparr>))"
proof -
  let ?l = "unat (mc_len c)" and ?n = "unat n"
  have b: "length (mc_objs c) = 1536" "?l \<le> 1536" using assms(1) cache_okD [of c] by auto
  have n: "0 < ?n" using assms(2) by (simp add: unat_gt_0)
  have l1: "unat (mc_len c - 1) = ?l - 1" using n assms(3) by (subst unat_sub_nowrap) (simp_all add: unat_1)
  have ln: "unat (mc_len c - n) = ?l - ?n" using assms(3) by (subst unat_sub_nowrap) auto
  let ?xs = "rev (drop (?l - ?n) (take ?l (mc_objs c)))"
  have "fill_from_cache ?n (mc_objs c) (mc_len c - 1) 0 t = Some (?xs @ drop ?n t)"
    using fill_from_cache_Some [of ?n "mc_len c - 1" "mc_objs c" 0 t] take_last_rev [of ?n ?l "mc_objs c"]
      n assms(3,4) b l1 by simp
  moreover have "mset (cached c) = mset ?xs + mset (cached (c\<lparr>mc_len := mc_len c - n\<rparr>))"
    using mset_take_drop [of "?l - ?n" "take ?l (mc_objs c)"] assms(3)
    by (simp add: cached_def ln min_def ac_simps)
  moreover have "length ?xs = ?n" using b assms(3) by simp
  ultimately show ?thesis by blast
qed

lemma generic_get_ok:
  assumes mp: "rte_mempool_get_ops ot (mp_ops_index mp) = Some drv" "mp_pool_data mp = Some p" "inv p"
    and c: "copt_ok c" and n: "unat n \<le> length t" "n \<noteq> 0"
  shows "(\<exists>xs p' c'. rte_mempool_generic_get ot mp t n c =
        Some (0, xs @ drop (unat n) t, mp\<lparr>mp_pool_data := Some p'\<rparr>, c') \<and>
      length xs = unat n \<and> inv p' \<and> copt_ok c' \<and> (c' = None \<longleftrightarrow> c = None) \<and>
      bag p + copt_bag c = mset xs + bag p' + copt_bag c' \<and>
      room p' + size (bag p') = room p + size (bag p)) \<or>
    (\<exists>e<0. rte_mempool_generic_get ot mp t n c = Some (e, t, mp, c) \<and> size (bag p) < unat n \<and>
      (\<forall>k. c = Some k \<longrightarrow> mc_size k \<le> n \<or> mc_len k < n))"
proof -
  note ring = ring_dequeue_ok [OF mp n]
  have direct: ?thesis
    if g: "rte_mempool_generic_get ot mp t n c = ring_dequeue ot mp t n c"
      and k: "\<forall>k. c = Some k \<longrightarrow> mc_size k \<le> n \<or> mc_len k < n"
  proof (cases "unat n \<le> size (bag p)")
    case True
    with ring [of c] obtain xs p' where
      "ring_dequeue ot mp t n c = Some (0, xs @ drop (unat n) t, mp\<lparr>mp_pool_data := Some p'\<rparr>, c)"
      "inv p'" "length xs = unat n" "bag p = mset xs + bag p'"
      "room p' + size (bag p') = room p + size (bag p)" by auto
    with g c show ?thesis by (intro disjI1 exI [of _ xs] exI [of _ p'] exI [of _ c]) simp
  next
    case False
    with ring [of c] obtain e where "e < 0" "ring_dequeue ot mp t n c = Some (e, t, mp, c)" by auto
    with g k False show ?thesis by (intro disjI2 exI [of _ e]) (simp add: not_le)
  qed
  show ?thesis
  proof (cases c)
    case None
    then show ?thesis by (intro direct) (simp_all add: rte_mempool_generic_get_def rte_mempool_do_generic_get_def)
  next
    case (Some k)
    have ck: "cache_ok k" using c Some by simp
    note kb = cache_okD [OF ck]
    let ?l = "unat (mc_len k)" and ?s = "unat (mc_size k)" and ?n = "unat n"
    consider "mc_size k \<le> n" | "n < mc_size k" "n \<le> mc_len k" | "n < mc_size k" "mc_len k < n" by force
    then show ?thesis
    proof cases
      case 1
      with Some show ?thesis
        by (intro direct) (simp_all add: rte_mempool_generic_get_def rte_mempool_do_generic_get_def)
    next
      case 2
      then have le: "?n \<le> ?l" by (simp add: word_le_nat_alt)
      from respond_from_cache [OF disjI1 [OF ck] n(2) le n(1)] obtain xs where
        xs: "fill_from_cache ?n (mc_objs k) (mc_len k - 1) 0 t = Some (xs @ drop ?n t)" "length xs = ?n"
          "mset (cached k) = mset xs + mset (cached (k\<lparr>mc_len := mc_len k - n\<rparr>))" by blast
      have "cache_ok (k\<lparr>mc_len := mc_len k - n\<rparr>)"
        by (rule cache_ok_upd [OF ck]) (use kb le in \<open>simp add: word_le_nat_alt unat_sub_nowrap\<close>)
      moreover have "mp\<lparr>mp_pool_data := Some p\<rparr> = mp" using mp(2) by simp
      moreover have "\<not> mc_size k \<le> n" "\<not> mc_len k < n" using 2 by auto
      ultimately show ?thesis
        using Some xs mp(3)
        by (intro disjI1 exI [of _ xs] exI [of _ p] exI [of _ "Some (k\<lparr>mc_len := mc_len k - n\<rparr>)"])
           (simp add: rte_mempool_generic_get_def rte_mempool_do_generic_get_def Let_def ac_simps)
    next
      case 3
      then have ls: "?l < ?n" "?n < ?s" by (simp_all add: word_less_nat_alt)
      let ?req = "n + (mc_size k - mc_len k)"
      have req: "unat ?req = ?n + (?s - ?l)" using ls kb
        by (subst unat_add_nowrap) (auto simp: unat_sub_nowrap)
      have rq0: "?req \<noteq> 0" using req ls by (auto simp flip: unat_0_iff)
      have room: "unat ?req \<le> length (drop ?l (mc_objs k))" using req ls kb by simp
      show ?thesis
      proof (cases "unat ?req \<le> size (bag p)")
        case False
        have "\<not> mc_size k \<le> n" using 3 by simp
        moreover from False dequeue_bulk_ok [OF mp room rq0] obtain e where
          "e < 0" "rte_mempool_ops_dequeue_bulk ot mp (drop ?l (mc_objs k)) ?req = Some (e, drop ?l (mc_objs k), mp)"
          by auto
        ultimately show ?thesis using 3 Some
          by (intro direct) (simp_all add: rte_mempool_generic_get_def rte_mempool_do_generic_get_def Let_def)
      next
        case True
        with dequeue_bulk_ok [OF mp room rq0] obtain ys p' where
          ys: "rte_mempool_ops_dequeue_bulk ot mp (drop ?l (mc_objs k)) ?req =
              Some (0, ys @ drop (unat ?req) (drop ?l (mc_objs k)), mp\<lparr>mp_pool_data := Some p'\<rparr>)"
            "inv p'" "length ys = unat ?req" "bag p = mset ys + bag p'"
            "room p' + size (bag p') = room p + size (bag p)" by auto
        define k' where "k' = k\<lparr>mc_objs := take ?l (mc_objs k) @ ys @ drop (unat ?req) (drop ?l (mc_objs k)),
          mc_len := mc_len k + ?req\<rparr>"
        have l': "unat (mc_len k') = ?n + ?s"
          unfolding k'_def using req ls kb by simp (subst unat_add_nowrap, auto)
        have ck': "cached k' = cached k @ ys"
          using l' req ls kb ys(3) by (simp add: cached_def) (simp add: k'_def)
        have len': "length (mc_objs k') = 1536" using kb ys(3) req ls by (simp add: k'_def)
        have ok': "length (mc_objs k') = 1536 \<and> unat (mc_len k') \<le> 1536" using len' l' ls kb by simp
        have le': "?n \<le> unat (mc_len k')" using l' by simp
        from respond_from_cache [OF disjI2 [OF ok'] n(2) le' n(1)] obtain xs where
          xs: "fill_from_cache ?n (mc_objs k') (mc_len k' - 1) 0 t = Some (xs @ drop ?n t)" "length xs = ?n"
            "mset (cached k') = mset xs + mset (cached (k'\<lparr>mc_len := mc_len k' - n\<rparr>))" by blast
        have "unat (mc_len k' - n) = ?s" using l' by (simp add: unat_sub_nowrap)
        then have len_le: "mc_len k' - n \<le> mc_flushthresh k" using kb by (simp add: word_le_nat_alt)
        from cache_ok_upd(2) [OF ck len' len_le] have okc: "cache_ok (k'\<lparr>mc_len := mc_len k' - n\<rparr>)"
          by (simp add: k'_def)
        have "\<not> mc_size k \<le> n" using 3 by simp
        then have "rte_mempool_generic_get ot mp t n c =
            Some (0, xs @ drop ?n t, mp\<lparr>mp_pool_data := Some p'\<rparr>, Some (k'\<lparr>mc_len := mc_len k' - n\<rparr>))"
          using 3 Some ys(1) xs(1)
          by (simp add: rte_mempool_generic_get_def rte_mempool_do_generic_get_def Let_def k'_def)
        with Some ys xs ck' okc show ?thesis
          by (intro disjI1 exI [of _ xs] exI [of _ p'] exI [of _ "Some (k'\<lparr>mc_len := mc_len k' - n\<rparr>)"])
             (simp add: ac_simps)
      qed
    qed
  qed
qed

end

section \<open>The pool with its caches\<close>

definition pool_ok :: "'p rte_mempool_ops \<Rightarrow> ('p \<Rightarrow> bool) \<Rightarrow> 'p ops_table \<Rightarrow> 'p rte_mempool \<Rightarrow> bool" where
  "pool_ok drv pinv ot mp \<longleftrightarrow>
     rte_mempool_get_ops ot (mp_ops_index mp) = Some drv \<and>
     (case mp_pool_data mp of None \<Rightarrow> False | Some p \<Rightarrow> pinv p) \<and>
     length (mp_local_cache mp) = RTE_MAX_LCORE \<and> list_all cache_ok (mp_local_cache mp)"

definition caches_bag :: "rte_mempool_cache list \<Rightarrow> addr multiset" where
  "caches_bag cs = sum_list (map (\<lambda>c. mset (cached c)) cs)"

text \<open>The objects that can be taken from the pool: those of the driver and of every cache.\<close>

definition pool_bag :: "('p \<Rightarrow> addr multiset) \<Rightarrow> 'p rte_mempool \<Rightarrow> addr multiset" where
  "pool_bag bag mp = bag (the (mp_pool_data mp)) + caches_bag (mp_local_cache mp)"

definition pool_cap :: "('p \<Rightarrow> addr multiset) \<Rightarrow> ('p \<Rightarrow> nat) \<Rightarrow> 'p rte_mempool \<Rightarrow> nat" where
  "pool_cap bag room mp = room (the (mp_pool_data mp)) + size (bag (the (mp_pool_data mp)))"

text \<open>What a put or a get does not touch.\<close>

definition same_pool :: "'p rte_mempool \<Rightarrow> 'p rte_mempool \<Rightarrow> bool" where
  "same_pool mp mp' \<longleftrightarrow>
     mp' = mp\<lparr>mp_pool_data := mp_pool_data mp', mp_local_cache := mp_local_cache mp'\<rparr>"

lemma caches_bag_update:
  "i < length cs \<Longrightarrow> caches_bag (cs[i := c]) + mset (cached (cs ! i)) = caches_bag cs + mset (cached c)"
proof (induction cs arbitrary: i)
  case (Cons d cs)
  show ?case
  proof (cases i)
    case 0
    then show ?thesis by (simp add: caches_bag_def ac_simps)
  next
    case (Suc j)
    with Cons show ?thesis by (simp add: caches_bag_def ac_simps)
  qed
qed simp

lemma caches_bag_ge: "i < length cs \<Longrightarrow> mset (cached (cs ! i)) \<subseteq># caches_bag cs"
  by (induction cs arbitrary: i)
     (auto simp: caches_bag_def nth_Cons' intro: subset_mset.add_increasing)

lemma default_cache_at:
  assumes "rte_mempool_default_cache mp lcore = Some i" "length (mp_local_cache mp) = RTE_MAX_LCORE"
  shows "i < length (mp_local_cache mp)" "local_cache_at mp i = Some (mp_local_cache mp ! i)"
proof -
  from assms(1) have "lcore < of_nat RTE_MAX_LCORE" "i = unat lcore"
    by (auto simp: rte_mempool_default_cache_def split: if_splits)
  then show "i < length (mp_local_cache mp)" using assms(2) by (simp add: word_less_nat_alt RTE_MAX_LCORE_def)
  then show "local_cache_at mp i = Some (mp_local_cache mp ! i)" by (simp add: local_cache_at_def)
qed

context mempool_driver
begin

lemma put_bulk_ok:
  assumes ok: "pool_ok drv inv ot mp"
    and n: "unat n \<le> length t" "size (pool_bag bag mp) + unat n \<le> pool_cap bag room mp"
  shows "\<exists>mp'. rte_mempool_put_bulk ot lcore mp t n = Some mp' \<and> pool_ok drv inv ot mp' \<and>
    pool_bag bag mp' = pool_bag bag mp + mset (take (unat n) t) \<and>
    pool_cap bag room mp' = pool_cap bag room mp \<and> same_pool mp mp'"
proof -
  from ok obtain p where p: "rte_mempool_get_ops ot (mp_ops_index mp) = Some drv" "mp_pool_data mp = Some p" "inv p"
    by (auto simp: pool_ok_def split: option.splits)
  have cap: "size (caches_bag (mp_local_cache mp)) + unat n \<le> room p"
    using n(2) p(2) by (simp add: pool_bag_def pool_cap_def)
  show ?thesis
  proof (cases "rte_mempool_default_cache mp lcore")
    case None
    from generic_put_ok [OF p, of None, OF _ n(1)] cap obtain p' where
      "rte_mempool_generic_put ot mp t n None = Some (mp\<lparr>mp_pool_data := Some p'\<rparr>, None)" "inv p'"
      "bag p' = bag p + mset (take (unat n) t)" "room p' + size (bag p') = room p + size (bag p)"
      by auto
    with None ok p show ?thesis
      by (intro exI [of _ "mp\<lparr>mp_pool_data := Some p'\<rparr>"])
         (simp add: rte_mempool_put_bulk_def pool_ok_def pool_bag_def pool_cap_def same_pool_def ac_simps)
  next
    case (Some i)
    let ?cs = "mp_local_cache mp"
    have len: "length ?cs = RTE_MAX_LCORE" "list_all cache_ok ?cs" using ok by (simp_all add: pool_ok_def)
    note i = default_cache_at [OF Some len(1)]
    have ci: "cache_ok (?cs ! i)" using len(2) i(1) by (simp add: list_all_length)
    have "size (mset (cached (?cs ! i))) \<le> size (caches_bag ?cs)"
      by (rule size_mset_mono [OF caches_bag_ge [OF i(1)]])
    with cap have r: "unat n + size (copt_bag (Some (?cs ! i))) \<le> room p" by simp
    from generic_put_ok [OF p _ n(1) r] ci obtain p' c' where
      g: "rte_mempool_generic_put ot mp t n (Some (?cs ! i)) = Some (mp\<lparr>mp_pool_data := Some p'\<rparr>, Some c')"
      "inv p'" "cache_ok c'" "bag p' + mset (cached c') = bag p + mset (cached (?cs ! i)) + mset (take (unat n) t)"
      "room p' + size (bag p') = room p + size (bag p)" by (auto simp del: size_mset)
    have "bag p' + caches_bag (?cs[i := c']) + mset (cached (?cs ! i)) =
        (bag p + caches_bag ?cs + mset (take (unat n) t)) + mset (cached (?cs ! i))"
      using caches_bag_update [OF i(1), of c'] g(4) by (metis (no_types, lifting) add.assoc add.commute)
    then have "bag p' + caches_bag (?cs[i := c']) = bag p + caches_bag ?cs + mset (take (unat n) t)"
      by (rule add_right_imp_eq)
    moreover have "list_all cache_ok (?cs[i := c'])"
      using len(2) g(3) by (auto simp: list_all_iff dest!: subsetD [OF set_update_subset_insert])
    moreover have "rte_mempool_put_bulk ot lcore mp t n =
        Some (mp\<lparr>mp_pool_data := Some p', mp_local_cache := ?cs[i := c']\<rparr>)"
      using Some i g(1) by (simp add: rte_mempool_put_bulk_def local_cache_upd_def)
    ultimately show ?thesis using ok p g(2,5)
      by (intro exI [of _ "mp\<lparr>mp_pool_data := Some p', mp_local_cache := ?cs[i := c']\<rparr>"])
         (simp add: pool_ok_def pool_bag_def pool_cap_def same_pool_def)
  qed
qed

lemma get_bulk_ok:
  assumes ok: "pool_ok drv inv ot mp" and n: "unat n \<le> length t" "n \<noteq> 0"
  shows "(\<exists>xs mp'. rte_mempool_get_bulk ot lcore mp t n = Some (0, xs @ drop (unat n) t, mp') \<and>
      length xs = unat n \<and> pool_ok drv inv ot mp' \<and> pool_bag bag mp = mset xs + pool_bag bag mp' \<and>
      pool_cap bag room mp' = pool_cap bag room mp \<and> same_pool mp mp') \<or>
    (\<exists>e<0. rte_mempool_get_bulk ot lcore mp t n = Some (e, t, mp) \<and>
      size (bag (the (mp_pool_data mp))) < unat n)"
proof -
  from ok obtain p where p: "rte_mempool_get_ops ot (mp_ops_index mp) = Some drv" "mp_pool_data mp = Some p" "inv p"
    by (auto simp: pool_ok_def split: option.splits)
  show ?thesis
  proof (cases "rte_mempool_default_cache mp lcore")
    case None
    from generic_get_ok [OF p, of None, OF _ n] consider
      xs p' where "rte_mempool_generic_get ot mp t n None = Some (0, xs @ drop (unat n) t, mp\<lparr>mp_pool_data := Some p'\<rparr>, None)"
        "length xs = unat n" "inv p'" "bag p = mset xs + bag p'" "room p' + size (bag p') = room p + size (bag p)"
      | e where "e < 0" "rte_mempool_generic_get ot mp t n None = Some (e, t, mp, None)" "size (bag p) < unat n"
      by auto
    then show ?thesis
    proof cases
      case 1
      with None ok p show ?thesis
        by (intro disjI1 exI [of _ xs] exI [of _ "mp\<lparr>mp_pool_data := Some p'\<rparr>"])
           (simp add: rte_mempool_get_bulk_def pool_ok_def pool_bag_def pool_cap_def same_pool_def ac_simps)
    next
      case 2
      with None p show ?thesis by (intro disjI2 exI [of _ e]) (simp add: rte_mempool_get_bulk_def)
    qed
  next
    case (Some i)
    let ?cs = "mp_local_cache mp"
    have len: "length ?cs = RTE_MAX_LCORE" "list_all cache_ok ?cs" using ok by (simp_all add: pool_ok_def)
    note i = default_cache_at [OF Some len(1)]
    have ci: "cache_ok (?cs ! i)" using len(2) i(1) by (simp add: list_all_length)
    from generic_get_ok [OF p, of "Some (?cs ! i)", OF _ n] ci consider
      xs p' c' where "rte_mempool_generic_get ot mp t n (Some (?cs ! i)) =
          Some (0, xs @ drop (unat n) t, mp\<lparr>mp_pool_data := Some p'\<rparr>, Some c')"
        "length xs = unat n" "inv p'" "cache_ok c'"
        "bag p + mset (cached (?cs ! i)) = mset xs + bag p' + mset (cached c')"
        "room p' + size (bag p') = room p + size (bag p)"
      | e where "e < 0" "rte_mempool_generic_get ot mp t n (Some (?cs ! i)) = Some (e, t, mp, Some (?cs ! i))"
        "size (bag p) < unat n"
      by (auto simp del: size_mset)
    then show ?thesis
    proof cases
      case 1
      have "bag p + caches_bag ?cs + mset (cached c') = (mset xs + (bag p' + caches_bag (?cs[i := c']))) + mset (cached c')"
        using caches_bag_update [OF i(1), of c'] 1(5) by (metis (no_types, lifting) add.assoc add.commute)
      then have "bag p + caches_bag ?cs = mset xs + (bag p' + caches_bag (?cs[i := c']))"
        by (rule add_right_imp_eq)
      moreover have "list_all cache_ok (?cs[i := c'])"
        using len(2) 1(4) by (auto simp: list_all_iff dest!: subsetD [OF set_update_subset_insert])
      moreover have "rte_mempool_get_bulk ot lcore mp t n =
          Some (0, xs @ drop (unat n) t, mp\<lparr>mp_pool_data := Some p', mp_local_cache := ?cs[i := c']\<rparr>)"
        using Some i 1(1) by (simp add: rte_mempool_get_bulk_def local_cache_upd_def)
      ultimately show ?thesis using ok p 1(2,3,6)
        by (intro disjI1 exI [of _ xs] exI [of _ "mp\<lparr>mp_pool_data := Some p', mp_local_cache := ?cs[i := c']\<rparr>"])
           (simp add: pool_ok_def pool_bag_def pool_cap_def same_pool_def)
    next
      case 2
      with Some i p show ?thesis
        by (intro disjI2 exI [of _ e]) (simp add: rte_mempool_get_bulk_def local_cache_upd_def)
    qed
  qed
qed

end

end
