(* ===== verification/Mbuf.thy ===== *)
theory Mbuf
  imports Mempool
begin

text \<open>
  Packet buffers of \<open>lib/mbuf\<close> (\<open>rte_mbuf.h\<close>, \<open>rte_mbuf.c\<close>): the structure, reference
  counts, allocation, attachment to a shared buffer, and release. The state \<open>mbuf_world\<close>
  holds the structures, the pools and the shared-buffer records by address, and the bytes of
  each buffer under the address of its first byte.
\<close>

section \<open>Data\<close>

record rte_mbuf =
  m_buf_addr :: addr
  m_buf_iova :: u64
  m_data_off :: u16
  m_refcnt :: u16
  m_nb_segs :: u16
  m_port :: u16
  m_ol_flags :: u64
  m_packet_type :: u32
  m_pkt_len :: u32
  m_data_len :: u16
  m_vlan_tci :: u16
  m_hash :: u64
  m_vlan_tci_outer :: u16
  m_buf_len :: u16
  m_pool :: addr
  m_next :: addr
  m_tx_offload :: u64
  m_shinfo :: addr
  m_priv_size :: u16
  m_dynfield1 :: "u32 list"

record rte_pktmbuf_pool_private =
  pp_mbuf_data_room_size :: u16
  pp_mbuf_priv_size :: u16
  pp_flags :: u32

text \<open>
  \<open>free_cb\<close> is either the callback of pools with pinned external buffers or one of the
  user's, whose calls the model records in \<open>mw_freed\<close>.
\<close>

datatype extbuf_free_cb = Free_Pinned_Extmem | User_Free_Cb nat

record rte_mbuf_ext_shared_info =
  si_free_cb :: extbuf_free_cb
  si_fcb_opaque :: addr
  si_refcnt :: u16

text \<open>
  \<open>mw_iova\<close> is the IO address kept in the header of a pool object; \<open>mw_lcore\<close> is the lcore
  that runs.
\<close>

record 'p mbuf_world =
  mw_ops :: "'p ops_table"
  mw_lcore :: u32
  mw_mbufs :: "addr \<Rightarrow> rte_mbuf option"
  mw_pools :: "addr \<Rightarrow> 'p rte_mempool option"
  mw_priv :: "addr \<Rightarrow> rte_pktmbuf_pool_private option"
  mw_shinfo :: "addr \<Rightarrow> rte_mbuf_ext_shared_info option"
  mw_bytes :: "addr \<Rightarrow> u8 list option"
  mw_iova :: "addr \<Rightarrow> u64"
  mw_freed :: "(nat \<times> addr \<times> addr) list"

definition sizeof_rte_mbuf :: u32 where "sizeof_rte_mbuf = 128"
definition RTE_PKTMBUF_HEADROOM :: u16 where "RTE_PKTMBUF_HEADROOM = 128"
definition RTE_MBUF_PORT_INVALID :: u16 where "RTE_MBUF_PORT_INVALID = 0xffff"
definition RTE_MBUF_F_EXTERNAL :: u64 where "RTE_MBUF_F_EXTERNAL = push_bit 61 1"
definition RTE_MBUF_F_INDIRECT :: u64 where "RTE_MBUF_F_INDIRECT = push_bit 62 1"
definition RTE_PKTMBUF_POOL_F_PINNED_EXT_BUF :: u32 where "RTE_PKTMBUF_POOL_F_PINNED_EXT_BUF = 1"

definition RTE_MBUF_CLONED :: "rte_mbuf \<Rightarrow> bool" where
  "RTE_MBUF_CLONED m \<longleftrightarrow> m_ol_flags m AND RTE_MBUF_F_INDIRECT \<noteq> 0"

definition RTE_MBUF_HAS_EXTBUF :: "rte_mbuf \<Rightarrow> bool" where
  "RTE_MBUF_HAS_EXTBUF m \<longleftrightarrow> m_ol_flags m AND RTE_MBUF_F_EXTERNAL \<noteq> 0"

definition RTE_MBUF_DIRECT :: "rte_mbuf \<Rightarrow> bool" where
  "RTE_MBUF_DIRECT m \<longleftrightarrow> m_ol_flags m AND (RTE_MBUF_F_INDIRECT OR RTE_MBUF_F_EXTERNAL) = 0"

section \<open>Access\<close>

text \<open>\<open>None\<close>: the pointer is NULL or points to no structure.\<close>

definition mbuf_at :: "'p mbuf_world \<Rightarrow> addr \<Rightarrow> rte_mbuf option" where
  "mbuf_at w a = (if a = NULL then None else mw_mbufs w a)"

definition set_mbuf :: "'p mbuf_world \<Rightarrow> addr \<Rightarrow> rte_mbuf \<Rightarrow> 'p mbuf_world" where
  "set_mbuf w a m = w\<lparr>mw_mbufs := (mw_mbufs w)(a \<mapsto> m)\<rparr>"

definition upd_mbuf :: "'p mbuf_world \<Rightarrow> addr \<Rightarrow> (rte_mbuf \<Rightarrow> rte_mbuf) \<Rightarrow> 'p mbuf_world option" where
  "upd_mbuf w a f = do { m \<leftarrow> mbuf_at w a; Some (set_mbuf w a (f m)) }"

definition set_shinfo :: "'p mbuf_world \<Rightarrow> addr \<Rightarrow> rte_mbuf_ext_shared_info \<Rightarrow> 'p mbuf_world" where
  "set_shinfo w a s = w\<lparr>mw_shinfo := (mw_shinfo w)(a \<mapsto> s)\<rparr>"

definition set_pool :: "'p mbuf_world \<Rightarrow> addr \<Rightarrow> 'p rte_mempool \<Rightarrow> 'p mbuf_world" where
  "set_pool w a mp = w\<lparr>mw_pools := (mw_pools w)(a \<mapsto> mp)\<rparr>"

definition rte_pktmbuf_priv_flags :: "'p mbuf_world \<Rightarrow> addr \<Rightarrow> u32 option" where
  "rte_pktmbuf_priv_flags w mp = map_option pp_flags (mw_priv w mp)"

definition rte_pktmbuf_data_room_size :: "'p mbuf_world \<Rightarrow> addr \<Rightarrow> u16 option" where
  "rte_pktmbuf_data_room_size w mp = map_option pp_mbuf_data_room_size (mw_priv w mp)"

definition rte_pktmbuf_priv_size :: "'p mbuf_world \<Rightarrow> addr \<Rightarrow> u16 option" where
  "rte_pktmbuf_priv_size w mp = map_option pp_mbuf_priv_size (mw_priv w mp)"

definition RTE_MBUF_HAS_PINNED_EXTBUF :: "'p mbuf_world \<Rightarrow> rte_mbuf \<Rightarrow> bool option" where
  "RTE_MBUF_HAS_PINNED_EXTBUF w m =
     map_option (\<lambda>fl. fl AND RTE_PKTMBUF_POOL_F_PINNED_EXT_BUF \<noteq> 0) (rte_pktmbuf_priv_flags w (m_pool m))"

text \<open>\<open>(char *)mi->buf_addr - (sizeof(*mi) + mi->priv_size)\<close>: the mbuf that embeds the buffer.\<close>

definition rte_mbuf_from_indirect :: "rte_mbuf \<Rightarrow> addr" where
  "rte_mbuf_from_indirect mi = m_buf_addr mi - (ucast sizeof_rte_mbuf + ucast (m_priv_size mi))"

section \<open>Bytes of a packet\<close>

text \<open>
  \<open>rte_pktmbuf_mtod_offset(m, t, off)\<close> is \<open>buf_addr + data_off + off\<close>. The length of the data
  is not looked at: a byte is there if the buffer reaches that far.
\<close>

definition rd_bytes :: "'p mbuf_world \<Rightarrow> addr \<Rightarrow> nat \<Rightarrow> nat \<Rightarrow> u8 list option" where
  "rd_bytes w a off n =
     do { m \<leftarrow> mbuf_at w a;
          bs \<leftarrow> mw_bytes w (m_buf_addr m);
          let start = unat (m_data_off m) + off;
          if start + n \<le> length bs then Some (take n (drop start bs)) else None }"

definition wr_bytes :: "'p mbuf_world \<Rightarrow> addr \<Rightarrow> nat \<Rightarrow> u8 list \<Rightarrow> 'p mbuf_world option" where
  "wr_bytes w a off bs =
     do { m \<leftarrow> mbuf_at w a;
          buf \<leftarrow> mw_bytes w (m_buf_addr m);
          let start = unat (m_data_off m) + off;
          if start + length bs \<le> length buf
          then Some (w\<lparr>mw_bytes := (mw_bytes w)(m_buf_addr m \<mapsto> take start buf @ bs @ drop (start + length bs) buf)\<rparr>)
          else None }"

section \<open>Reference counts\<close>

definition rte_mbuf_refcnt_read :: "'p mbuf_world \<Rightarrow> addr \<Rightarrow> u16 option" where
  "rte_mbuf_refcnt_read w a = map_option m_refcnt (mbuf_at w a)"

definition rte_mbuf_refcnt_set :: "'p mbuf_world \<Rightarrow> addr \<Rightarrow> u16 \<Rightarrow> 'p mbuf_world option" where
  "rte_mbuf_refcnt_set w a v = upd_mbuf w a (\<lambda>m. m\<lparr>m_refcnt := v\<rparr>)"

text \<open>The slow path with the atomic addition, and the function that avoids it for a sole owner.\<close>

definition refcnt_add_fetch :: "'p mbuf_world \<Rightarrow> addr \<Rightarrow> u16 \<Rightarrow> (u16 \<times> 'p mbuf_world) option" where
  "refcnt_add_fetch w a val =
     do { m \<leftarrow> mbuf_at w a;
          let v = m_refcnt m + val;
          Some (v, set_mbuf w a (m\<lparr>m_refcnt := v\<rparr>)) }"

definition rte_mbuf_refcnt_update :: "'p mbuf_world \<Rightarrow> addr \<Rightarrow> u16 \<Rightarrow> (u16 \<times> 'p mbuf_world) option" where
  "rte_mbuf_refcnt_update w a val =
     do { c \<leftarrow> rte_mbuf_refcnt_read w a;
          if c = 1 then
            do { let v = val + 1; w \<leftarrow> rte_mbuf_refcnt_set w a v; Some (v, w) }
          else refcnt_add_fetch w a val }"

definition rte_mbuf_ext_refcnt_set :: "'p mbuf_world \<Rightarrow> addr \<Rightarrow> u16 \<Rightarrow> 'p mbuf_world option" where
  "rte_mbuf_ext_refcnt_set w s v =
     do { si \<leftarrow> mw_shinfo w s; Some (set_shinfo w s (si\<lparr>si_refcnt := v\<rparr>)) }"

definition rte_mbuf_ext_refcnt_update :: "'p mbuf_world \<Rightarrow> addr \<Rightarrow> u16 \<Rightarrow> (u16 \<times> 'p mbuf_world) option" where
  "rte_mbuf_ext_refcnt_update w s val =
     do { si \<leftarrow> mw_shinfo w s;
          if si_refcnt si = 1 then
            do { let v = val + 1; w \<leftarrow> rte_mbuf_ext_refcnt_set w s v; Some (v, w) }
          else
            do { let v = si_refcnt si + val; Some (v, set_shinfo w s (si\<lparr>si_refcnt := v\<rparr>)) } }"

section \<open>Allocation\<close>

text \<open>A NULL result is the address 0.\<close>

definition rte_mbuf_raw_alloc :: "'p mbuf_world \<Rightarrow> addr \<Rightarrow> (addr \<times> 'p mbuf_world) option" where
  "rte_mbuf_raw_alloc w mp =
     do { pool \<leftarrow> mw_pools w mp;
          (ret, m, pool) \<leftarrow> rte_mempool_get (mw_ops w) (mw_lcore w) pool;
          let w = set_pool w mp pool;
          Some (if ret < 0 then NULL else m, w) }"

definition rte_mbuf_raw_free :: "'p mbuf_world \<Rightarrow> addr \<Rightarrow> 'p mbuf_world option" where
  "rte_mbuf_raw_free w a =
     do { m \<leftarrow> mbuf_at w a;
          pool \<leftarrow> mw_pools w (m_pool m);
          pool \<leftarrow> rte_mempool_put (mw_ops w) (mw_lcore w) pool a;
          Some (set_pool w (m_pool m) pool) }"

definition reset_headroom :: "rte_mbuf \<Rightarrow> rte_mbuf" where
  "reset_headroom m = m\<lparr>m_data_off := min RTE_PKTMBUF_HEADROOM (m_buf_len m)\<rparr>"

definition reset_fields :: "rte_mbuf \<Rightarrow> rte_mbuf" where
  "reset_fields m =
     (let m = m\<lparr>m_next := NULL, m_pkt_len := 0, m_tx_offload := 0, m_vlan_tci := 0, m_vlan_tci_outer := 0,
                m_nb_segs := 1, m_port := RTE_MBUF_PORT_INVALID,
                m_ol_flags := m_ol_flags m AND RTE_MBUF_F_EXTERNAL, m_packet_type := 0\<rparr>;
          m = reset_headroom m
      in m\<lparr>m_data_len := 0\<rparr>)"

definition rte_pktmbuf_reset :: "'p mbuf_world \<Rightarrow> addr \<Rightarrow> 'p mbuf_world option" where
  "rte_pktmbuf_reset w a = upd_mbuf w a reset_fields"

definition rte_pktmbuf_alloc :: "'p mbuf_world \<Rightarrow> addr \<Rightarrow> (addr \<times> 'p mbuf_world) option" where
  "rte_pktmbuf_alloc w mp =
     do { (m, w) \<leftarrow> rte_mbuf_raw_alloc w mp;
          if m \<noteq> NULL then do { w \<leftarrow> rte_pktmbuf_reset w m; Some (m, w) } else Some (m, w) }"

text \<open>
  \<open>rte_pktmbuf_alloc_bulk\<close> resets the buffers with an unrolled loop that is entered in its
  middle (\<open>switch (count % 4)\<close>): \<open>reset_run k\<close> are \<open>k\<close> of its blocks in a row from \<open>idx\<close>,
  and the loop condition is looked at only after the last one.
\<close>

primrec reset_run :: "nat \<Rightarrow> addr list \<Rightarrow> u32 \<Rightarrow> 'p mbuf_world \<Rightarrow> (u32 \<times> 'p mbuf_world) option" where
  "reset_run 0 mbufs idx w = Some (idx, w)"
| "reset_run (Suc k) mbufs idx w =
     do { m \<leftarrow> ld mbufs idx; w \<leftarrow> rte_pktmbuf_reset w m; reset_run k mbufs (idx + 1) w }"

partial_function (option) reset_while ::
  "addr list \<Rightarrow> u32 \<Rightarrow> u32 \<Rightarrow> 'p mbuf_world \<Rightarrow> 'p mbuf_world option" where
  "reset_while mbufs cnt idx w =
     (if idx \<noteq> cnt then Option.bind (reset_run 4 mbufs idx w) (\<lambda>(idx, w). reset_while mbufs cnt idx w)
      else Some w)"

definition rte_pktmbuf_alloc_bulk ::
  "'p mbuf_world \<Rightarrow> addr \<Rightarrow> addr list \<Rightarrow> u32 \<Rightarrow> (int \<times> addr list \<times> 'p mbuf_world) option" where
  "rte_pktmbuf_alloc_bulk w mp mbufs cnt =
     do { pool \<leftarrow> mw_pools w mp;
          (rc, mbufs, pool) \<leftarrow> rte_mempool_get_bulk (mw_ops w) (mw_lcore w) pool mbufs cnt;
          let w = set_pool w mp pool;
          if rc \<noteq> 0 then Some (rc, mbufs, w)
          else do { (idx, w) \<leftarrow> reset_run (unat (cnt mod 4)) mbufs 0 w;
                    w \<leftarrow> reset_while mbufs cnt idx w;
                    Some (0, mbufs, w) } }"

section \<open>Attachment\<close>

definition rte_pktmbuf_attach_extbuf ::
  "'p mbuf_world \<Rightarrow> addr \<Rightarrow> addr \<Rightarrow> u64 \<Rightarrow> u16 \<Rightarrow> addr \<Rightarrow> 'p mbuf_world option" where
  "rte_pktmbuf_attach_extbuf w a buf_addr buf_iova buf_len shinfo =
     upd_mbuf w a (\<lambda>m. m\<lparr>m_buf_addr := buf_addr, m_buf_iova := buf_iova, m_buf_len := buf_len,
       m_data_len := 0, m_data_off := 0, m_ol_flags := m_ol_flags m OR RTE_MBUF_F_EXTERNAL,
       m_shinfo := shinfo\<rparr>)"

definition pktmbuf_copy_hdr :: "rte_mbuf \<Rightarrow> rte_mbuf \<Rightarrow> rte_mbuf" where
  "pktmbuf_copy_hdr mdst msrc =
     mdst\<lparr>m_port := m_port msrc, m_vlan_tci := m_vlan_tci msrc, m_vlan_tci_outer := m_vlan_tci_outer msrc,
       m_tx_offload := m_tx_offload msrc, m_hash := m_hash msrc, m_packet_type := m_packet_type msrc,
       m_dynfield1 := m_dynfield1 msrc\<rparr>"

definition rte_pktmbuf_attach :: "'p mbuf_world \<Rightarrow> addr \<Rightarrow> addr \<Rightarrow> 'p mbuf_world option" where
  "rte_pktmbuf_attach w mi m =
     do { s \<leftarrow> mbuf_at w m;
          w \<leftarrow> (if RTE_MBUF_HAS_EXTBUF s then
                  do { (_, w) \<leftarrow> rte_mbuf_ext_refcnt_update w (m_shinfo s) 1;
                       upd_mbuf w mi (\<lambda>i. i\<lparr>m_ol_flags := m_ol_flags s, m_shinfo := m_shinfo s\<rparr>) }
                else
                  do { (_, w) \<leftarrow> rte_mbuf_refcnt_update w (rte_mbuf_from_indirect s) 1;
                       s \<leftarrow> mbuf_at w m;
                       upd_mbuf w mi (\<lambda>i. i\<lparr>m_priv_size := m_priv_size s,
                         m_ol_flags := m_ol_flags s OR RTE_MBUF_F_INDIRECT\<rparr>) });
          s \<leftarrow> mbuf_at w m;
          upd_mbuf w mi (\<lambda>i.
            let i = pktmbuf_copy_hdr i s;
                i = i\<lparr>m_data_off := m_data_off s, m_data_len := m_data_len s, m_buf_iova := m_buf_iova s,
                      m_buf_addr := m_buf_addr s, m_buf_len := m_buf_len s, m_next := NULL\<rparr>
            in i\<lparr>m_pkt_len := ucast (m_data_len i), m_nb_segs := 1\<rparr>) }"

section \<open>Detachment and release\<close>

text \<open>\<open>rte_pktmbuf_free_pinned_extmem\<close>\<close>

definition rte_pktmbuf_free_pinned_extmem :: "'p mbuf_world \<Rightarrow> addr \<Rightarrow> 'p mbuf_world option" where
  "rte_pktmbuf_free_pinned_extmem w opaque =
     do { m \<leftarrow> mbuf_at w opaque;
          w \<leftarrow> rte_mbuf_ext_refcnt_set w (m_shinfo m) 1;
          w \<leftarrow> upd_mbuf w opaque (\<lambda>m. m\<lparr>m_ol_flags := RTE_MBUF_F_EXTERNAL, m_next := NULL, m_nb_segs := 1\<rparr>);
          rte_mbuf_raw_free w opaque }"

definition pktmbuf_free_extbuf :: "'p mbuf_world \<Rightarrow> addr \<Rightarrow> 'p mbuf_world option" where
  "pktmbuf_free_extbuf w a =
     do { m \<leftarrow> mbuf_at w a;
          (v, w) \<leftarrow> rte_mbuf_ext_refcnt_update w (m_shinfo m) (- 1);
          if v = 0 then
            do { si \<leftarrow> mw_shinfo w (m_shinfo m);
                 case si_free_cb si of
                   Free_Pinned_Extmem \<Rightarrow> rte_pktmbuf_free_pinned_extmem w (si_fcb_opaque si)
                 | User_Free_Cb cb \<Rightarrow> Some (w\<lparr>mw_freed := mw_freed w @ [(cb, m_buf_addr m, si_fcb_opaque si)]\<rparr>) }
          else Some w }"

definition pktmbuf_free_direct :: "'p mbuf_world \<Rightarrow> addr \<Rightarrow> 'p mbuf_world option" where
  "pktmbuf_free_direct w a =
     do { m \<leftarrow> mbuf_at w a;
          let md = rte_mbuf_from_indirect m;
          (v, w) \<leftarrow> rte_mbuf_refcnt_update w md (- 1);
          if v = 0 then
            do { w \<leftarrow> upd_mbuf w md (\<lambda>m. m\<lparr>m_next := NULL, m_nb_segs := 1\<rparr>);
                 w \<leftarrow> rte_mbuf_refcnt_set w md 1;
                 rte_mbuf_raw_free w md }
          else Some w }"

definition rte_pktmbuf_detach :: "'p mbuf_world \<Rightarrow> addr \<Rightarrow> 'p mbuf_world option" where
  "rte_pktmbuf_detach w a =
     do { m \<leftarrow> mbuf_at w a;
          let mp = m_pool m;
          pinned \<leftarrow> (if RTE_MBUF_HAS_EXTBUF m then RTE_MBUF_HAS_PINNED_EXTBUF w m else Some False);
          if pinned then Some w
          else do {
            w \<leftarrow> (if RTE_MBUF_HAS_EXTBUF m then pktmbuf_free_extbuf w a else pktmbuf_free_direct w a);
            priv_size \<leftarrow> rte_pktmbuf_priv_size w mp;
            let mbuf_size = sizeof_rte_mbuf + ucast priv_size;
            buf_len \<leftarrow> rte_pktmbuf_data_room_size w mp;
            upd_mbuf w a (\<lambda>m.
              let m = m\<lparr>m_priv_size := priv_size, m_buf_addr := a + ucast mbuf_size,
                        m_buf_iova := mw_iova w a + ucast mbuf_size, m_buf_len := buf_len\<rparr>;
                  m = reset_headroom m
              in m\<lparr>m_data_len := 0, m_ol_flags := 0\<rparr>) } }"

text \<open>The result 1 means that the mbuf must not be freed.\<close>

definition pktmbuf_pinned_extbuf_decref :: "'p mbuf_world \<Rightarrow> addr \<Rightarrow> (bool \<times> 'p mbuf_world) option" where
  "pktmbuf_pinned_extbuf_decref w a =
     do { w \<leftarrow> upd_mbuf w a (\<lambda>m. m\<lparr>m_ol_flags := RTE_MBUF_F_EXTERNAL\<rparr>);
          m \<leftarrow> mbuf_at w a;
          si \<leftarrow> mw_shinfo w (m_shinfo m);
          if si_refcnt si = 1 then Some (False, w)
          else
            do { let v = si_refcnt si - 1;
                 let w = set_shinfo w (m_shinfo m) (si\<lparr>si_refcnt := v\<rparr>);
                 if v \<noteq> 0 then Some (True, w)
                 else do { w \<leftarrow> rte_mbuf_ext_refcnt_set w (m_shinfo m) 1; Some (False, w) } } }"

text \<open>The common part of the two branches of \<open>rte_pktmbuf_prefree_seg\<close>: \<open>True\<close> is an early NULL.\<close>

definition prefree_detach :: "'p mbuf_world \<Rightarrow> addr \<Rightarrow> (bool \<times> 'p mbuf_world) option" where
  "prefree_detach w a =
     do { m \<leftarrow> mbuf_at w a;
          (early, w) \<leftarrow>
            (if RTE_MBUF_DIRECT m then Some (False, w)
             else do { w \<leftarrow> rte_pktmbuf_detach w a;
                       m \<leftarrow> mbuf_at w a;
                       pinned \<leftarrow> (if RTE_MBUF_HAS_EXTBUF m then RTE_MBUF_HAS_PINNED_EXTBUF w m else Some False);
                       if pinned then pktmbuf_pinned_extbuf_decref w a else Some (False, w) });
          if early then Some (True, w)
          else do { w \<leftarrow> upd_mbuf w a (\<lambda>m. m\<lparr>m_next := NULL, m_nb_segs := 1\<rparr>); Some (False, w) } }"

definition rte_pktmbuf_prefree_seg :: "'p mbuf_world \<Rightarrow> addr \<Rightarrow> (addr \<times> 'p mbuf_world) option" where
  "rte_pktmbuf_prefree_seg w a =
     do { c \<leftarrow> rte_mbuf_refcnt_read w a;
          if c = 1 then
            do { (early, w) \<leftarrow> prefree_detach w a; Some (if early then NULL else a, w) }
          else
            do { (v, w) \<leftarrow> refcnt_add_fetch w a (- 1);
                 if v = 0 then
                   do { (early, w) \<leftarrow> prefree_detach w a;
                        if early then Some (NULL, w)
                        else do { w \<leftarrow> rte_mbuf_refcnt_set w a 1; Some (a, w) } }
                 else Some (NULL, w) } }"

definition rte_pktmbuf_free_seg :: "'p mbuf_world \<Rightarrow> addr \<Rightarrow> 'p mbuf_world option" where
  "rte_pktmbuf_free_seg w a =
     do { (m, w) \<leftarrow> rte_pktmbuf_prefree_seg w a;
          if m \<noteq> NULL then rte_mbuf_raw_free w m else Some w }"

partial_function (option) rte_pktmbuf_free :: "'p mbuf_world \<Rightarrow> addr \<Rightarrow> 'p mbuf_world option" where
  "rte_pktmbuf_free w a =
     (if a = NULL then Some w
      else Option.bind (mbuf_at w a) (\<lambda>m.
             Option.bind (rte_pktmbuf_free_seg w a) (\<lambda>w. rte_pktmbuf_free w (m_next m))))"

section \<open>Initialisation\<close>

text \<open>\<open>memset\<close> and the default fields of \<open>rte_pktmbuf_init\<close>.\<close>

definition zero_mbuf :: rte_mbuf where
  "zero_mbuf = \<lparr>m_buf_addr = 0, m_buf_iova = 0, m_data_off = 0, m_refcnt = 0, m_nb_segs = 0, m_port = 0,
     m_ol_flags = 0, m_packet_type = 0, m_pkt_len = 0, m_data_len = 0, m_vlan_tci = 0, m_hash = 0,
     m_vlan_tci_outer = 0, m_buf_len = 0, m_pool = NULL, m_next = NULL, m_tx_offload = 0, m_shinfo = NULL,
     m_priv_size = 0, m_dynfield1 = replicate 9 0\<rparr>"

definition rte_pktmbuf_init :: "'p mbuf_world \<Rightarrow> addr \<Rightarrow> addr \<Rightarrow> 'p mbuf_world option" where
  "rte_pktmbuf_init w mp a =
     do { priv_size \<leftarrow> rte_pktmbuf_priv_size w mp;
          let mbuf_size = sizeof_rte_mbuf + ucast priv_size;
          buf_len \<leftarrow> rte_pktmbuf_data_room_size w mp;
          Some (set_mbuf w a (zero_mbuf\<lparr>m_priv_size := priv_size, m_buf_addr := a + ucast mbuf_size,
            m_buf_iova := mw_iova w a + ucast mbuf_size, m_buf_len := buf_len,
            m_data_off := min RTE_PKTMBUF_HEADROOM buf_len, m_pool := mp, m_nb_segs := 1,
            m_port := RTE_MBUF_PORT_INVALID, m_refcnt := 1, m_next := NULL\<rparr>)) }"

definition rte_pktmbuf_pool_init ::
  "'p mbuf_world \<Rightarrow> addr \<Rightarrow> rte_pktmbuf_pool_private option \<Rightarrow> 'p mbuf_world option" where
  "rte_pktmbuf_pool_init w mp opaque =
     do { pool \<leftarrow> mw_pools w mp;
          let priv = (case opaque of
            Some p \<Rightarrow> p
          | None \<Rightarrow> \<lparr>pp_mbuf_data_room_size =
                (if sizeof_rte_mbuf < mp_elt_size pool then ucast (mp_elt_size pool - sizeof_rte_mbuf) else 0),
              pp_mbuf_priv_size = 0, pp_flags = 0\<rparr>);
          Some (w\<lparr>mw_priv := (mw_priv w)(mp \<mapsto> priv)\<rparr>) }"

end
