(* ===== verification/Mbuf_Release.thy ===== *)
theory Mbuf_Release
  imports Mbuf
begin

text \<open>
  Where packet buffers go: allocation takes an object out of its pool, release of a chain of
  segments puts every one of them back, and a buffer that others are attached to goes back
  with the last reference. Stated for any driver that meets \<open>mempool_driver\<close>.
\<close>

section \<open>The store\<close>

lemma mbuf_at_set [simp]:
  "mbuf_at (set_mbuf w a m) b = (if b = a \<and> a \<noteq> NULL then Some m else mbuf_at w b)"
  by (simp add: mbuf_at_def set_mbuf_def)

lemma set_mbuf_frame [simp]:
  "mw_pools (set_mbuf w a m) = mw_pools w" "mw_ops (set_mbuf w a m) = mw_ops w"
  "mw_lcore (set_mbuf w a m) = mw_lcore w" "mw_priv (set_mbuf w a m) = mw_priv w"
  "mw_shinfo (set_mbuf w a m) = mw_shinfo w" "mw_bytes (set_mbuf w a m) = mw_bytes w"
  "mw_iova (set_mbuf w a m) = mw_iova w" "mw_freed (set_mbuf w a m) = mw_freed w"
  by (simp_all add: set_mbuf_def)

lemma set_pool_frame [simp]:
  "mbuf_at (set_pool w P mp) = mbuf_at w" "mw_pools (set_pool w P mp) = (mw_pools w)(P \<mapsto> mp)"
  "mw_ops (set_pool w P mp) = mw_ops w" "mw_lcore (set_pool w P mp) = mw_lcore w"
  "mw_priv (set_pool w P mp) = mw_priv w" "mw_shinfo (set_pool w P mp) = mw_shinfo w"
  "mw_bytes (set_pool w P mp) = mw_bytes w" "mw_iova (set_pool w P mp) = mw_iova w"
  "mw_freed (set_pool w P mp) = mw_freed w"
  by (simp_all add: set_pool_def mbuf_at_def fun_eq_iff)

lemma mbuf_at_NULL [simp]: "mbuf_at w NULL = None"
  by (simp add: mbuf_at_def)

lemma mbuf_at_not_NULL: "mbuf_at w a = Some m \<Longrightarrow> a \<noteq> NULL"
  by (auto simp: mbuf_at_def)

text \<open>What releasing and allocating leave alone.\<close>

definition same_store :: "'p mbuf_world \<Rightarrow> 'p mbuf_world \<Rightarrow> bool" where
  "same_store w w' \<longleftrightarrow>
     mw_ops w' = mw_ops w \<and> mw_lcore w' = mw_lcore w \<and> mw_priv w' = mw_priv w \<and>
     mw_shinfo w' = mw_shinfo w \<and> mw_bytes w' = mw_bytes w \<and> mw_iova w' = mw_iova w \<and>
     mw_freed w' = mw_freed w"

lemma same_store_simps [simp]:
  "same_store w w" "same_store w (set_mbuf v a m) = same_store w v" "same_store w (set_pool v P mp) = same_store w v"
  by (simp_all add: same_store_def)

lemma same_store_trans: "same_store w v \<Longrightarrow> same_store v u \<Longrightarrow> same_store w u"
  by (simp add: same_store_def)

section \<open>Chains of segments\<close>

fun seg_chain :: "(addr \<Rightarrow> rte_mbuf option) \<Rightarrow> addr \<Rightarrow> addr list \<Rightarrow> bool" where
  "seg_chain h a [] = (a = NULL)"
| "seg_chain h a (x # xs) =
     (a = x \<and> a \<noteq> NULL \<and> (case h a of None \<Rightarrow> False | Some m \<Rightarrow> seg_chain h (m_next m) xs))"

lemma seg_chain_cong:
  "(\<And>b. b \<in> set xs \<Longrightarrow> h' b = h b) \<Longrightarrow> seg_chain h' a xs = seg_chain h a xs"
  by (induction xs arbitrary: a) (auto split: option.split)

text \<open>A segment nobody else refers to, with its own buffer, from the pool \<open>P\<close>.\<close>

definition sole_direct :: "'p mbuf_world \<Rightarrow> addr \<Rightarrow> addr \<Rightarrow> bool" where
  "sole_direct w P a \<longleftrightarrow>
     (case mbuf_at w a of None \<Rightarrow> False
      | Some m \<Rightarrow> m_refcnt m = 1 \<and> RTE_MBUF_DIRECT m \<and> m_pool m = P)"

lemma and_or_zero: "(x AND (a OR b) = 0) = (x AND a = 0 \<and> x AND b = (0 :: u64))"
  by (auto simp: bit_eq_iff bit_simps)

lemma or_and_zero: "((x OR y) AND a = 0) = (x AND a = 0 \<and> y AND a = (0 :: u64))"
  by (auto simp: bit_eq_iff bit_simps)

lemma direct_flags:
  assumes "RTE_MBUF_DIRECT s"
  shows "\<not> RTE_MBUF_HAS_EXTBUF s" "\<not> RTE_MBUF_CLONED s"
    "m_ol_flags i = m_ol_flags s OR RTE_MBUF_F_INDIRECT \<Longrightarrow> \<not> RTE_MBUF_DIRECT i \<and> \<not> RTE_MBUF_HAS_EXTBUF i"
proof -
  have z: "m_ol_flags s AND (RTE_MBUF_F_INDIRECT OR RTE_MBUF_F_EXTERNAL) = 0" using assms by (simp add: RTE_MBUF_DIRECT_def)
  have ne: "RTE_MBUF_F_INDIRECT \<noteq> 0" "RTE_MBUF_F_INDIRECT AND RTE_MBUF_F_EXTERNAL = 0"
    by (simp_all add: RTE_MBUF_F_INDIRECT_def RTE_MBUF_F_EXTERNAL_def)
  have s: "m_ol_flags s AND RTE_MBUF_F_EXTERNAL = 0" "m_ol_flags s AND RTE_MBUF_F_INDIRECT = 0"
    using z by (simp_all add: and_or_zero)
  show "\<not> RTE_MBUF_HAS_EXTBUF s" "\<not> RTE_MBUF_CLONED s" using s by (simp_all add: RTE_MBUF_HAS_EXTBUF_def RTE_MBUF_CLONED_def)
  show "\<not> RTE_MBUF_DIRECT i \<and> \<not> RTE_MBUF_HAS_EXTBUF i" if "m_ol_flags i = m_ol_flags s OR RTE_MBUF_F_INDIRECT"
    using s ne that by (simp add: RTE_MBUF_DIRECT_def RTE_MBUF_HAS_EXTBUF_def and_or_zero or_and_zero)
qed

lemma prefree_sole:
  assumes "sole_direct w P a" "mbuf_at w a = Some m"
  shows "rte_pktmbuf_prefree_seg w a = Some (a, set_mbuf w a (m\<lparr>m_next := NULL, m_nb_segs := 1\<rparr>))"
  using assms by (simp add: sole_direct_def rte_pktmbuf_prefree_seg_def rte_mbuf_refcnt_read_def
      prefree_detach_def upd_mbuf_def)

context mempool_driver
begin

lemma raw_free_ok:
  assumes "mbuf_at w a = Some m" "mw_pools w (m_pool m) = Some mp" "pool_ok drv inv (mw_ops w) mp"
    and "size (pool_bag bag mp) < pool_cap bag room mp"
  shows "\<exists>mp'. rte_mbuf_raw_free w a = Some (set_pool w (m_pool m) mp') \<and>
    pool_ok drv inv (mw_ops w) mp' \<and> pool_bag bag mp' = pool_bag bag mp + {#a#} \<and>
    pool_cap bag room mp' = pool_cap bag room mp"
proof -
  from put_bulk_ok [OF assms(3), of 1 "[a]" "mw_lcore w"] assms(4) obtain mp' where
    "rte_mempool_put_bulk (mw_ops w) (mw_lcore w) mp [a] 1 = Some mp'" "pool_ok drv inv (mw_ops w) mp'"
    "pool_bag bag mp' = pool_bag bag mp + {#a#}" "pool_cap bag room mp' = pool_cap bag room mp"
    by (auto simp: unat_1)
  with assms show ?thesis
    by (intro exI [of _ mp']) (simp add: rte_mbuf_raw_free_def rte_mempool_put_def)
qed

text \<open>
  An allocation takes an object out of the pool, or the pool's driver has none left and
  nothing changes.
\<close>

lemma raw_alloc_ok:
  assumes "mw_pools w P = Some mp" "pool_ok drv inv (mw_ops w) mp"
  shows "(\<exists>a mp'. rte_mbuf_raw_alloc w P = Some (a, set_pool w P mp') \<and>
      pool_ok drv inv (mw_ops w) mp' \<and> pool_bag bag mp = pool_bag bag mp' + {#a#} \<and>
      pool_cap bag room mp' = pool_cap bag room mp) \<or>
    (rte_mbuf_raw_alloc w P = Some (NULL, set_pool w P mp) \<and> size (bag (the (mp_pool_data mp))) = 0)"
proof -
  from get_bulk_ok [OF assms(2), of 1 "[NULL]" "mw_lcore w"] consider
    x mp' where "rte_mempool_get_bulk (mw_ops w) (mw_lcore w) mp [NULL] 1 = Some (0, [x], mp')"
      "pool_ok drv inv (mw_ops w) mp'" "pool_bag bag mp = mset [x] + pool_bag bag mp'"
      "pool_cap bag room mp' = pool_cap bag room mp"
    | e where "e < 0" "rte_mempool_get_bulk (mw_ops w) (mw_lcore w) mp [NULL] 1 = Some (e, [NULL], mp)"
      "size (bag (the (mp_pool_data mp))) < 1"
    by (auto simp: unat_1 length_Suc_conv)
  then show ?thesis
  proof cases
    case 1
    with assms(1) show ?thesis
      by (intro disjI1 exI [of _ x] exI [of _ mp']) (simp add: rte_mbuf_raw_alloc_def rte_mempool_get_def)
  next
    case 2
    with assms(1) show ?thesis
      by (intro disjI2) (simp add: rte_mbuf_raw_alloc_def rte_mempool_get_def)
  qed
qed

lemma free_seg_sole:
  assumes "sole_direct w P a" "mw_pools w P = Some mp" "pool_ok drv inv (mw_ops w) mp"
    and "size (pool_bag bag mp) < pool_cap bag room mp"
  shows "\<exists>m mp'. mbuf_at w a = Some m \<and>
    rte_pktmbuf_free_seg w a = Some (set_pool (set_mbuf w a (m\<lparr>m_next := NULL, m_nb_segs := 1\<rparr>)) P mp') \<and>
    pool_ok drv inv (mw_ops w) mp' \<and> pool_bag bag mp' = pool_bag bag mp + {#a#} \<and>
    pool_cap bag room mp' = pool_cap bag room mp"
proof -
  from assms(1) obtain m where m: "mbuf_at w a = Some m" "m_pool m = P"
    by (auto simp: sole_direct_def split: option.splits)
  then have a: "a \<noteq> NULL" by (auto dest: mbuf_at_not_NULL)
  let ?w = "set_mbuf w a (m\<lparr>m_next := NULL, m_nb_segs := 1\<rparr>)"
  from raw_free_ok [of ?w a "m\<lparr>m_next := NULL, m_nb_segs := 1\<rparr>" mp] assms m a obtain mp' where
    "rte_mbuf_raw_free ?w a = Some (set_pool ?w P mp')" "pool_ok drv inv (mw_ops w) mp'"
    "pool_bag bag mp' = pool_bag bag mp + {#a#}" "pool_cap bag room mp' = pool_cap bag room mp"
    by auto
  with prefree_sole [OF assms(1) m(1)] m a show ?thesis
    by (intro exI [of _ m] exI [of _ mp']) (simp add: rte_pktmbuf_free_seg_def)
qed

text \<open>\<open>rte_pktmbuf_free\<close> gives every segment of the chain back to the pool, once.\<close>

lemma pktmbuf_free_chain:
  assumes "seg_chain (mbuf_at w) a xs" "distinct xs" "\<And>x. x \<in> set xs \<Longrightarrow> sole_direct w P x"
    and "mw_pools w P = Some mp" "pool_ok drv inv (mw_ops w) mp"
    and "size (pool_bag bag mp) + length xs \<le> pool_cap bag room mp"
  shows "\<exists>w' mp'. rte_pktmbuf_free w a = Some w' \<and> mw_pools w' = (mw_pools w)(P \<mapsto> mp') \<and>
    pool_ok drv inv (mw_ops w) mp' \<and> pool_bag bag mp' = pool_bag bag mp + mset xs \<and>
    pool_cap bag room mp' = pool_cap bag room mp \<and> same_store w w' \<and>
    (\<forall>b. b \<notin> set xs \<longrightarrow> mbuf_at w' b = mbuf_at w b)"
  using assms
proof (induction xs arbitrary: w a mp)
  case Nil
  then have "mw_pools w = (mw_pools w)(P \<mapsto> mp)" by auto
  with Nil show ?case by (intro exI [of _ w] exI [of _ mp]) (simp add: rte_pktmbuf_free.simps)
next
  case (Cons x xs)
  from Cons.prems(1) obtain m where x: "a = x" "a \<noteq> NULL" "mbuf_at w a = Some m"
    "seg_chain (mbuf_at w) (m_next m) xs" by (auto split: option.splits)
  have sole: "sole_direct w P a" using Cons.prems(3) x(1) by simp
  from free_seg_sole [OF sole Cons.prems(4,5)] Cons.prems(6) x(3) obtain mp1 where
    fs: "rte_pktmbuf_free_seg w a = Some (set_pool (set_mbuf w a (m\<lparr>m_next := NULL, m_nb_segs := 1\<rparr>)) P mp1)"
    "pool_ok drv inv (mw_ops w) mp1" "pool_bag bag mp1 = pool_bag bag mp + {#a#}"
    "pool_cap bag room mp1 = pool_cap bag room mp" by auto
  define w1 where "w1 = set_pool (set_mbuf w a (m\<lparr>m_next := NULL, m_nb_segs := 1\<rparr>)) P mp1"
  have same: "mbuf_at w1 b = mbuf_at w b" if "b \<in> set xs" for b
    using that Cons.prems(2) x(1) by (auto simp: w1_def)
  have c1: "seg_chain (mbuf_at w1) (m_next m) xs" using x(4) seg_chain_cong [OF same] by simp
  have s1: "sole_direct w1 P b" if "b \<in> set xs" for b
    using same [OF that] Cons.prems(3) [of b] that by (simp add: sole_direct_def)
  have "\<exists>w' mp'. rte_pktmbuf_free w1 (m_next m) = Some w' \<and> mw_pools w' = (mw_pools w1)(P \<mapsto> mp') \<and>
      pool_ok drv inv (mw_ops w1) mp' \<and> pool_bag bag mp' = pool_bag bag mp1 + mset xs \<and>
      pool_cap bag room mp' = pool_cap bag room mp1 \<and> same_store w1 w' \<and>
      (\<forall>b. b \<notin> set xs \<longrightarrow> mbuf_at w' b = mbuf_at w1 b)"
    using Cons.prems(2,6) fs by (intro Cons.IH c1 s1) (auto simp: w1_def)
  then obtain w' mp' where w':
    "rte_pktmbuf_free w1 (m_next m) = Some w'" "mw_pools w' = (mw_pools w1)(P \<mapsto> mp')"
    "pool_ok drv inv (mw_ops w1) mp'" "pool_bag bag mp' = pool_bag bag mp1 + mset xs"
    "pool_cap bag room mp' = pool_cap bag room mp1" "same_store w1 w'"
    "\<And>b. b \<notin> set xs \<Longrightarrow> mbuf_at w' b = mbuf_at w1 b" by blast
  have "rte_pktmbuf_free w a = Some w'"
    using x(2,3) fs(1) w'(1) by (subst rte_pktmbuf_free.simps) (simp add: w1_def)
  moreover have "same_store w w'" using w'(6) by (simp add: same_store_def w1_def)
  ultimately show ?case
    using w' fs x(1) by (intro exI [of _ w'] exI [of _ mp']) (auto simp: w1_def)
qed

end

section \<open>Bulk allocation\<close>

text \<open>The reference for the unrolled loop: the buffers are reset one after the other.\<close>

primrec reset_each :: "addr list \<Rightarrow> 'p mbuf_world \<Rightarrow> 'p mbuf_world option" where
  "reset_each [] w = Some w"
| "reset_each (m # ms) w = do { w \<leftarrow> rte_pktmbuf_reset w m; reset_each ms w }"

lemma reset_each_append: "reset_each (xs @ ys) w = do { w \<leftarrow> reset_each xs w; reset_each ys w }"
  by (induction xs arbitrary: w) (simp_all add: bind_assoc)

lemma reset_run_each:
  fixes w :: "'p mbuf_world"
  shows "unat idx + k \<le> length ms \<Longrightarrow> unat idx + k < 2 ^ 32 \<Longrightarrow>
     reset_run k ms idx w = do { w \<leftarrow> reset_each (take k (drop (unat idx) ms)) w; Some (idx + of_nat k, w) }"
proof (induction k arbitrary: idx w)
  case 0
  then show ?case by simp
next
  case (Suc k)
  have i: "unat (idx + 1) = Suc (unat idx)" using Suc.prems by (simp add: unat_add_nowrap unat_1)
  have d: "drop (unat idx) ms = ms ! unat idx # drop (Suc (unat idx)) ms"
    using Suc.prems by (simp add: Cons_nth_drop_Suc)
  show ?case
    using Suc.prems Suc.IH [of "idx + 1"] i by (simp add: d bind_assoc ac_simps)
qed

lemma reset_while_each:
  fixes w :: "'p mbuf_world"
  assumes "unat cnt = unat idx + 4 * k" "unat cnt \<le> length ms"
  shows "reset_while ms cnt idx w = reset_each (take (4 * k) (drop (unat idx) ms)) w"
  using assms
proof (induction k arbitrary: idx w)
  case 0
  then have "idx = cnt" by (simp add: word_unat_eq_iff)
  then show ?case by (subst reset_while.simps) simp
next
  case (Suc k)
  have b: "unat cnt < 2 ^ 32" by simp
  have i: "unat (idx + 4) = unat idx + 4" using Suc.prems b by (subst unat_add_nowrap) simp_all
  have ne: "idx \<noteq> cnt" using Suc.prems by auto
  have run: "reset_run 4 ms idx w = do { w \<leftarrow> reset_each (take 4 (drop (unat idx) ms)) w; Some (idx + 4, w) }"
    using reset_run_each [of idx 4 ms w] Suc.prems b by simp
  have ih: "reset_while ms cnt (idx + 4) v = reset_each (take (4 * k) (drop (unat idx + 4) ms)) v" for v :: "'p mbuf_world"
    using Suc.IH [of "idx + 4" v] Suc.prems i by simp
  have "take (4 * Suc k) (drop (unat idx) ms) =
      take 4 (drop (unat idx) ms) @ take (4 * k) (drop (unat idx + 4) ms)"
    by (simp add: take_add [of 4 "4 * k"] add.commute)
  then show ?case
    using ne by (subst reset_while.simps) (simp add: run ih reset_each_append bind_assoc)
qed

lemma duff_each:
  fixes w :: "'p mbuf_world"
  assumes "unat cnt \<le> length ms"
  shows "do { (idx, w) \<leftarrow> reset_run (unat (cnt mod 4)) ms 0 w; reset_while ms cnt idx w } =
    reset_each (take (unat cnt) ms) w"
proof -
  let ?r = "unat cnt mod 4" and ?k = "unat cnt div 4"
  have r: "unat (cnt mod 4) = ?r" by (simp add: unat_mod)
  have lt: "?r \<le> unat cnt" by simp
  have o: "unat (of_nat ?r :: u32) = ?r" by (simp add: unat_of_nat)
  have eq: "unat cnt = ?r + 4 * ?k" by simp
  have run: "reset_run ?r ms 0 w = do { w \<leftarrow> reset_each (take ?r ms) w; Some (of_nat ?r, w) }"
    using reset_run_each [of 0 ?r ms w] assms lt by simp
  have wh: "reset_while ms cnt (of_nat ?r) v = reset_each (take (4 * ?k) (drop ?r ms)) v" for v :: "'p mbuf_world"
    using reset_while_each [of cnt "of_nat ?r" ?k ms v] assms o eq by simp
  have "take (unat cnt) ms = take ?r ms @ take (4 * ?k) (drop ?r ms)"
    by (metis eq take_add)
  then show ?thesis by (simp add: r run wh reset_each_append bind_assoc)
qed

lemma alloc_bulk_each:
  assumes "mw_pools w P = Some mp"
    and "rte_mempool_get_bulk (mw_ops w) (mw_lcore w) mp ms cnt = Some (0, ms', mp')"
    and "unat cnt \<le> length ms'"
  shows "rte_pktmbuf_alloc_bulk w P ms cnt =
    do { w \<leftarrow> reset_each (take (unat cnt) ms') (set_pool w P mp'); Some (0, ms', w) }"
  using assms duff_each [OF assms(3), of "set_pool w P mp'"]
  by (auto simp: rte_pktmbuf_alloc_bulk_def bind_assoc split_def simp flip: bind_assoc)

end
