(* ===== verification/Libc.thy ===== *)
theory Libc
  imports Prelude
begin

text \<open>
  The C library functions the command line of the filter goes through, as glibc on
  x86-64 (little endian, 32-bit \<open>int\<close>, 64-bit \<open>long\<close>) computes them. A C string is the
  list of its characters before the terminating NUL.
\<close>

section \<open>Numbers\<close>

definition is_digit :: "char \<Rightarrow> bool" where
  "is_digit c \<longleftrightarrow> 48 \<le> (of_char c :: nat) \<and> (of_char c :: nat) \<le> 57"

definition digit_val :: "char \<Rightarrow> nat" where
  "digit_val c = of_char c - 48"

definition is_space :: "char \<Rightarrow> bool" where
  "is_space c \<longleftrightarrow> of_char c = (32 :: nat) \<or> 9 \<le> (of_char c :: nat) \<and> (of_char c :: nat) \<le> 13"

primrec digits_val :: "nat \<Rightarrow> string \<Rightarrow> nat" where
  "digits_val acc [] = acc"
| "digits_val acc (c # cs) = (if is_digit c then digits_val (10 * acc + digit_val c) cs else acc)"

text \<open>
  \<open>atoi\<close>: blanks, a sign, digits up to the first other character. glibc computes it as a
  \<open>long\<close> that saturates and then cuts it to \<open>int\<close>.
\<close>

definition strtol10 :: "string \<Rightarrow> int" where
  "strtol10 s =
     (let s = dropWhile is_space s;
          (neg, s) = (case s of
             c # cs \<Rightarrow> if c = CHR ''-'' then (True, cs) else if c = CHR ''+'' then (False, cs) else (False, s)
           | [] \<Rightarrow> (False, s));
          v = (if neg then - int (digits_val 0 s) else int (digits_val 0 s))
      in max (- (2 ^ 63)) (min v (2 ^ 63 - 1)))"

definition atoi :: "string \<Rightarrow> int" where
  "atoi s = sint (word_of_int (strtol10 s) :: 32 word)"

section \<open>Byte order\<close>

definition bswap16 :: "u16 \<Rightarrow> u16" where
  "bswap16 x = push_bit 8 x OR drop_bit 8 x"

definition htons :: "u16 \<Rightarrow> u16" where "htons x = bswap16 x"
definition ntohs :: "u16 \<Rightarrow> u16" where "ntohs x = bswap16 x"

section \<open>Internet addresses\<close>

text \<open>
  \<open>inet_pton(AF_INET, ...)\<close>: the loop of glibc's \<open>inet_pton4\<close> with the octets done
  so far, the current one, and whether it has a digit. \<open>None\<close> is the result 0.
\<close>

primrec inet_pton4 :: "string \<Rightarrow> nat list \<Rightarrow> nat \<Rightarrow> bool \<Rightarrow> nat list option" where
  "inet_pton4 [] done cur saw_digit =
     (if length done + (if saw_digit then 1 else 0) < 4 then None else Some (done @ [cur]))"
| "inet_pton4 (c # cs) done cur saw_digit =
     (if is_digit c then
        (if saw_digit \<and> cur = 0 then None
         else if 255 < cur * 10 + digit_val c then None
         else if \<not> saw_digit \<and> 4 < length done + 1 then None
         else inet_pton4 cs done (cur * 10 + digit_val c) True)
      else if c = CHR ''.'' \<and> saw_digit then
        (if length done + 1 = 4 then None else inet_pton4 cs (done @ [cur]) 0 False)
      else None)"

text \<open>The four octets are stored in this order: \<open>s_addr\<close> is the little-endian word they make.\<close>

definition le32 :: "u8 \<Rightarrow> u8 \<Rightarrow> u8 \<Rightarrow> u8 \<Rightarrow> u32" where
  "le32 a b c d = ucast a OR push_bit 8 (ucast b) OR push_bit 16 (ucast c) OR push_bit 24 (ucast d)"

definition inet_pton :: "string \<Rightarrow> u32 option" where
  "inet_pton s =
     (case inet_pton4 s [] 0 False of
        Some [a, b, c, d] \<Rightarrow> Some (le32 (of_nat a) (of_nat b) (of_nat c) (of_nat d))
      | _ \<Rightarrow> None)"

text \<open>\<open>%u\<close> of \<open>printf\<close> and \<open>inet_ntop(AF_INET, ...)\<close>.\<close>

fun show_nat :: "nat \<Rightarrow> string" where
  "show_nat n = (if n < 10 then [char_of (48 + n)] else show_nat (n div 10) @ [char_of (48 + n mod 10)])"

declare show_nat.simps [simp del]

definition inet_ntop :: "u32 \<Rightarrow> string" where
  "inet_ntop x =
     show_nat (unat (ucast x :: u8)) @ ''.'' @ show_nat (unat (ucast (drop_bit 8 x) :: u8)) @ ''.'' @
     show_nat (unat (ucast (drop_bit 16 x) :: u8)) @ ''.'' @ show_nat (unat (ucast (drop_bit 24 x) :: u8))"

section \<open>Strings\<close>

text \<open>\<open>strchr\<close>: the string before the first \<open>c\<close> and the one after it.\<close>

primrec split_at :: "char \<Rightarrow> string \<Rightarrow> (string \<times> string) option" where
  "split_at c [] = None"
| "split_at c (x # xs) = (if x = c then Some ([], xs) else map_option (apfst ((#) x)) (split_at c xs))"

text \<open>\<open>strncmp(s, t, n) == 0\<close>, for a literal \<open>t\<close> of \<open>n\<close> characters: \<open>t\<close> is a prefix.\<close>

definition strneq :: "string \<Rightarrow> string \<Rightarrow> nat \<Rightarrow> bool" where
  "strneq s t n \<longleftrightarrow> take n s = take n t"

text \<open>\<open>strncpy(dst, s, n)\<close>: \<open>n\<close> characters, filled up with NUL; no NUL if \<open>s\<close> is that long.\<close>

definition strncpy :: "string \<Rightarrow> nat \<Rightarrow> char list" where
  "strncpy s n = take n (s @ replicate n (CHR 0x00))"

definition cstr :: "char list \<Rightarrow> string" where
  "cstr cs = takeWhile (\<lambda>c. c \<noteq> CHR 0x00) cs"

section \<open>Lemmas\<close>

lemma bswap16_bswap16 [simp]: "bswap16 (bswap16 x) = x"
  unfolding bswap16_def by (rule bit_word_eqI) (auto simp: bit_simps)

lemma ntohs_htons [simp]: "ntohs (htons x) = x" "htons (ntohs x) = x"
  by (simp_all add: ntohs_def htons_def)

lemma of_char_digit: "d < 10 \<Longrightarrow> (of_char (char_of (48 + d) :: char) :: nat) = 48 + d"
  by simp

lemma is_digit_char_of [simp]: "(d :: nat) < 10 \<Longrightarrow> is_digit (char_of (48 + d))"
  by (simp add: is_digit_def)

lemma digit_val_char_of [simp]: "(d :: nat) < 10 \<Longrightarrow> digit_val (char_of (48 + d)) = d"
  by (simp add: digit_val_def)

lemma digits_val_append:
  "list_all is_digit xs \<Longrightarrow> digits_val acc (xs @ ys) = digits_val (digits_val acc xs) ys"
  by (induction xs arbitrary: acc) auto

lemma show_nat_digits: "list_all is_digit (show_nat n)"
proof (induction n rule: show_nat.induct)
  case (1 n)
  show ?case
  proof (cases "n < 10")
    case True
    then show ?thesis by (subst show_nat.simps) simp
  next
    case False
    with 1 show ?thesis by (subst show_nat.simps) simp
  qed
qed

lemma digits_val_show_nat: "digits_val 0 (show_nat n) = n"
proof (induction n rule: show_nat.induct)
  case (1 n)
  show ?case
  proof (cases "n < 10")
    case True
    then show ?thesis by (subst show_nat.simps) simp
  next
    case False
    with 1 have "digits_val 0 (show_nat (n div 10)) = n div 10" by simp
    with False show ?thesis
      by (subst show_nat.simps) (simp add: digits_val_append show_nat_digits)
  qed
qed

lemma show_nat_nonempty [simp]: "show_nat n \<noteq> []"
  by (subst show_nat.simps) simp

lemma digit_not_special:
  "is_digit c \<Longrightarrow> \<not> is_space c" "is_digit c \<Longrightarrow> c \<noteq> CHR ''-''" "is_digit c \<Longrightarrow> c \<noteq> CHR ''+''"
  "is_digit c \<Longrightarrow> c \<noteq> CHR ''.''" "is_digit c \<Longrightarrow> c \<noteq> CHR '':''"
  by (auto simp: is_digit_def is_space_def)

text \<open>\<open>atoi\<close> reads back what \<open>%u\<close> prints, whatever follows that is not a digit.\<close>

lemma digits_val_stop: "\<not> is_digit c \<Longrightarrow> list_all is_digit xs \<Longrightarrow>
  digits_val acc (xs @ c # cs) = digits_val acc xs"
  by (simp add: digits_val_append)

lemma atoi_show_nat:
  assumes "n < 2 ^ 31" "rest = [] \<or> \<not> is_digit (hd rest)"
  shows "atoi (show_nat n @ rest) = int n"
proof -
  obtain c cs where s: "show_nat n = c # cs" by (cases "show_nat n") auto
  with show_nat_digits [of n] have c: "is_digit c" by simp
  have "digits_val 0 (show_nat n @ rest) = n"
    using assms(2) digits_val_stop [OF _ show_nat_digits] digits_val_show_nat [of n]
    by (cases rest) (auto simp: digits_val_show_nat)
  then have "strtol10 (show_nat n @ rest) = int n"
    using assms(1) s c by (simp add: strtol10_def Let_def digit_not_special)
  moreover have "sint (word_of_int (int n) :: 32 word) = int n"
    using assms(1) by (simp add: signed_of_nat signed_take_bit_int_eq_self)
  ultimately show ?thesis by (simp add: atoi_def)
qed

lemma inet_pton4_show:
  "n \<le> 255 \<Longrightarrow> length octets < 4 \<Longrightarrow>
     inet_pton4 (show_nat n @ rest) octets 0 False = inet_pton4 rest octets n True"
proof (induction n arbitrary: rest rule: show_nat.induct)
  case (1 n)
  show ?case
  proof (cases "n < 10")
    case True
    with 1 show ?thesis by (subst show_nat.simps) simp
  next
    case False
    then have nz: "n div 10 \<noteq> 0" by (simp add: div_eq_0_iff)
    from False have "inet_pton4 (show_nat (n div 10) @ char_of (48 + n mod 10) # rest) octets 0 False =
        inet_pton4 (char_of (48 + n mod 10) # rest) octets (n div 10) True"
      using 1 by simp
    with False nz 1 show ?thesis by (subst show_nat.simps) (simp add: mult.commute)
  qed
qed

lemma le32_bytes:
  "le32 (ucast x) (ucast (drop_bit 8 x)) (ucast (drop_bit 16 x)) (ucast (drop_bit 24 x)) = x"
proof (rule bit_word_eqI)
  fix n assume "n < LENGTH(32)"
  then consider "n < 8" | "8 \<le> n" "n < 16" | "16 \<le> n" "n < 24" | "24 \<le> n" "n < 32" by fastforce
  then show "bit (le32 (ucast x) (ucast (drop_bit 8 x)) (ucast (drop_bit 16 x)) (ucast (drop_bit 24 x))) n = bit x n"
    by cases (auto simp: le32_def bit_simps)
qed

text \<open>\<open>inet_pton\<close> reads back every address \<open>inet_ntop\<close> prints.\<close>

lemma inet_pton_ntop: "inet_pton (inet_ntop x) = Some x"
proof -
  have b: "unat (y :: u8) \<le> 255" for y using unsigned_less [of y, where ?'a = nat] by simp
  have dot: "inet_pton4 (CHR ''.'' # cs) octets n True =
      (if length octets = 3 then None else inet_pton4 cs (octets @ [n]) 0 False)" for cs octets n
    by (simp add: is_digit_def)
  have last: "inet_pton4 (show_nat n) octets 0 False = inet_pton4 [] octets n True"
    if "n \<le> 255" "length octets < 4" for n octets
    using inet_pton4_show [OF that, of "[]"] by simp
  show ?thesis
    unfolding inet_pton_def inet_ntop_def
    by (simp add: inet_pton4_show [OF b] last [OF b] dot le32_bytes del: inet_pton4.simps(2))
qed

end
