(* ===== verification/Kni.thy ===== *)
theory Kni
  imports Kni_Fifo Mbuf_Release Libc
begin

text \<open>
  The kernel NIC interface (\<open>lib/kni/rte_kni.c\<close>): creation, the two bursts, the refill of the
  allocation queue and release. The kernel is the other end of the queues. The device file,
  the memory zones and the heap come from outside and are parameters; a zone is its name, its
  two addresses and the memory the queue lies in.
\<close>

section \<open>Data\<close>

definition RTE_KNI_NAMESIZE :: nat where "RTE_KNI_NAMESIZE = 16"
definition MAX_MBUF_BURST_NUM :: nat where "MAX_MBUF_BURST_NUM = 32"
definition KNI_FIFO_COUNT_MAX :: u32 where "KNI_FIFO_COUNT_MAX = 1024"

record rte_kni_conf =
  kc_name :: string
  kc_core_id :: u32
  kc_group_id :: u16
  kc_mbuf_size :: u32
  kc_force_bind :: bool
  kc_mac_addr :: "u8 list"
  kc_mtu :: u16
  kc_min_mtu :: u16
  kc_max_mtu :: u16

text \<open>The callbacks of the user; an absent one is the null pointer.\<close>

record rte_kni_ops =
  ko_port_id :: u16
  ko_change_mtu :: "(u16 \<Rightarrow> u32 \<Rightarrow> int) option"
  ko_config_network_if :: "(u16 \<Rightarrow> u8 \<Rightarrow> int) option"
  ko_config_mac_address :: "(u16 \<Rightarrow> u8 list \<Rightarrow> int) option"
  ko_config_promiscusity :: "(u16 \<Rightarrow> u8 \<Rightarrow> int) option"
  ko_config_allmulticast :: "(u16 \<Rightarrow> u8 \<Rightarrow> int) option"

definition zero_kni_ops :: rte_kni_ops where
  "zero_kni_ops = \<lparr>ko_port_id = 0, ko_change_mtu = None, ko_config_network_if = None,
     ko_config_mac_address = None, ko_config_promiscusity = None, ko_config_allmulticast = None\<rparr>"

record rte_kni_device_info =
  kd_name :: string
  kd_tx_phys :: u64
  kd_rx_phys :: u64
  kd_alloc_phys :: u64
  kd_free_phys :: u64
  kd_req_phys :: u64
  kd_resp_phys :: u64
  kd_sync_phys :: u64
  kd_sync_va :: addr
  kd_group_id :: u16
  kd_core_id :: u32
  kd_force_bind :: bool
  kd_mbuf_size :: u32
  kd_mtu :: u32
  kd_min_mtu :: u32
  kd_max_mtu :: u32
  kd_mac_addr :: "u8 list"
  kd_iova_mode :: u8

record kni_memzone =
  kz_name :: string
  kz_addr :: addr
  kz_iova :: u64
  kz_memory :: rte_kni_fifo

record rte_kni =
  kn_name :: string
  kn_group_id :: u16
  kn_pktmbuf_pool :: addr
  kn_mbuf_size :: u32
  kn_zones :: "string list"
  kn_tx_q :: rte_kni_fifo
  kn_rx_q :: rte_kni_fifo
  kn_alloc_q :: rte_kni_fifo
  kn_free_q :: rte_kni_fifo
  kn_req_q :: rte_kni_fifo
  kn_resp_q :: rte_kni_fifo
  kn_sync_addr :: addr
  kn_ops :: rte_kni_ops

text \<open>
  \<open>kni_fd\<close>, the tail queue of interfaces, the structures by address and the names of the
  memory zones in use, with the packet buffers.
\<close>

record 'p kni_world =
  kw_fd :: int
  kw_list :: "addr list"
  kw_kni :: "addr \<Rightarrow> rte_kni option"
  kw_zones :: "string list"
  kw_mbufs :: "'p mbuf_world"

text \<open>
  What the outside world answers to one call: \<open>open\<close>, the two heap allocations (\<open>NULL\<close> if
  the structure could not be allocated), the reservation of a zone, \<open>ioctl\<close>, and the IOVA
  mode.
\<close>

record kni_env =
  ke_open :: int
  ke_te :: bool
  ke_kni :: addr
  ke_reserve :: "string \<Rightarrow> kni_memzone option"
  ke_ioctl :: "int \<Rightarrow> rte_kni_device_info \<Rightarrow> int"
  ke_iova_va :: bool

definition rte_kni_init :: "kni_env \<Rightarrow> u32 \<Rightarrow> 'p kni_world \<Rightarrow> int \<times> 'p kni_world" where
  "rte_kni_init env max_kni_ifaces s =
     (if kw_fd s < 0 then
        let s = s\<lparr>kw_fd := ke_open env\<rparr>
        in if kw_fd s < 0 then (- 1, s) else (0, s)
      else (0, s))"

text \<open>\<open>None\<close> in the list of results: an entry that points to no structure.\<close>

primrec kni_find :: "string \<Rightarrow> (addr \<Rightarrow> rte_kni option) \<Rightarrow> addr list \<Rightarrow> addr option" where
  "kni_find name h [] = Some NULL"
| "kni_find name h (a # as) =
     do { k \<leftarrow> h a;
          if take RTE_KNI_NAMESIZE name = take RTE_KNI_NAMESIZE (kn_name k) then Some a
          else kni_find name h as }"

definition rte_kni_get :: "string \<Rightarrow> 'p kni_world \<Rightarrow> addr option" where
  "rte_kni_get name s = (if name = [] then Some NULL else kni_find name (kw_kni s) (kw_list s))"

section \<open>Memory zones\<close>

definition kni_zone_names :: "string \<Rightarrow> string list" where
  "kni_zone_names name = map (\<lambda>p. p @ name)
     [''kni_tx_'', ''kni_rx_'', ''kni_alloc_'', ''kni_free_'', ''kni_req_'', ''kni_resp_'', ''kni_sync_'']"

definition memzone_free :: "string \<Rightarrow> string list \<Rightarrow> string list" where
  "memzone_free n zones = remove1 n zones"

text \<open>
  The sequence of reservations with its ladder of labels: a failure releases what has been
  reserved so far, last first. \<open>got\<close> is in the order of reservation.
\<close>

primrec kni_reserve_seq ::
  "(string \<Rightarrow> kni_memzone option) \<Rightarrow> string list \<Rightarrow> kni_memzone list \<Rightarrow> string list \<Rightarrow>
     kni_memzone list option \<times> string list" where
  "kni_reserve_seq rs [] got zones = (Some got, zones)"
| "kni_reserve_seq rs (n # ns) got zones =
     (case rs n of
        None \<Rightarrow> (None, fold (\<lambda>z. memzone_free (kz_name z)) (rev got) zones)
      | Some z \<Rightarrow> kni_reserve_seq rs ns (got @ [z\<lparr>kz_name := n\<rparr>]) (n # zones))"

definition kni_reserve_mz ::
  "(string \<Rightarrow> kni_memzone option) \<Rightarrow> string \<Rightarrow> string list \<Rightarrow> kni_memzone list option \<times> string list" where
  "kni_reserve_mz rs name zones = kni_reserve_seq rs (kni_zone_names name) [] zones"

definition kni_release_mz :: "string list \<Rightarrow> string list \<Rightarrow> string list" where
  "kni_release_mz names zones = fold memzone_free names zones"

section \<open>Addresses for the kernel\<close>

definition va2pa :: "'p mbuf_world \<Rightarrow> addr \<Rightarrow> addr option" where
  "va2pa w m = do { b \<leftarrow> mbuf_at w m; Some (m - (m_buf_addr b - m_buf_iova b)) }"

text \<open>The links of a chain are turned into physical addresses one segment after the other.\<close>

partial_function (option) va2pa_links :: "'p mbuf_world \<Rightarrow> addr \<Rightarrow> addr \<Rightarrow> 'p mbuf_world option" where
  "va2pa_links w mbuf next_seg =
     (if next_seg = NULL then Some w
      else Option.bind (va2pa w next_seg) (\<lambda>pa.
           Option.bind (upd_mbuf w mbuf (\<lambda>m. m\<lparr>m_next := pa\<rparr>)) (\<lambda>w.
           Option.bind (mbuf_at w next_seg) (\<lambda>m. va2pa_links w next_seg (m_next m)))))"

definition va2pa_all :: "'p mbuf_world \<Rightarrow> addr \<Rightarrow> (addr \<times> 'p mbuf_world) option" where
  "va2pa_all w mbuf =
     do { phy_mbuf \<leftarrow> va2pa w mbuf;
          m \<leftarrow> mbuf_at w mbuf;
          w \<leftarrow> va2pa_links w mbuf (m_next m);
          Some (phy_mbuf, w) }"

primrec va2pa_each :: "addr list \<Rightarrow> 'p mbuf_world \<Rightarrow> (addr list \<times> 'p mbuf_world) option" where
  "va2pa_each [] w = Some ([], w)"
| "va2pa_each (m # ms) w =
     do { (pa, w) \<leftarrow> va2pa_all w m; (pas, w) \<leftarrow> va2pa_each ms w; Some (pa # pas, w) }"

primrec free_each :: "addr list \<Rightarrow> 'p mbuf_world \<Rightarrow> 'p mbuf_world option" where
  "free_each [] w = Some w"
| "free_each (m # ms) w = do { w \<leftarrow> rte_pktmbuf_free w m; free_each ms w }"

section \<open>Queues of free and fresh buffers\<close>

definition kni_free_mbufs :: "rte_kni \<Rightarrow> 'p mbuf_world \<Rightarrow> (rte_kni \<times> 'p mbuf_world) option" where
  "kni_free_mbufs kni w =
     do { (ret, pkts, q) \<leftarrow> kni_fifo_get (kn_free_q kni) (replicate MAX_MBUF_BURST_NUM NULL) (of_nat MAX_MBUF_BURST_NUM);
          w \<leftarrow> free_each (take (unat ret) pkts) w;
          Some (kni\<lparr>kn_free_q := q\<rparr>, w) }"

text \<open>The loop that allocates up to \<open>k\<close> buffers: those it got, with their physical addresses.\<close>

primrec kni_alloc_loop :: "nat \<Rightarrow> addr \<Rightarrow> 'p mbuf_world \<Rightarrow> ((addr \<times> addr) list \<times> 'p mbuf_world) option" where
  "kni_alloc_loop 0 pool w = Some ([], w)"
| "kni_alloc_loop (Suc k) pool w =
     do { (m, w) \<leftarrow> rte_pktmbuf_alloc w pool;
          if m = NULL then Some ([], w)
          else do { pa \<leftarrow> va2pa w m; (ms, w) \<leftarrow> kni_alloc_loop k pool w; Some ((m, pa) # ms, w) } }"

definition kni_allocate_mbufs :: "rte_kni \<Rightarrow> 'p mbuf_world \<Rightarrow> (rte_kni \<times> 'p mbuf_world) option" where
  "kni_allocate_mbufs kni w =
     (if kn_pktmbuf_pool kni = NULL then Some (kni, w)
      else
        let allocq_free = sint (kni_fifo_free_count (kn_alloc_q kni));
            allocq_free = (if int MAX_MBUF_BURST_NUM < allocq_free then int MAX_MBUF_BURST_NUM else allocq_free)
        in do { (ms, w) \<leftarrow> kni_alloc_loop (nat allocq_free) (kn_pktmbuf_pool kni) w;
                if ms = [] then Some (kni, w)
                else do { (ret, q) \<leftarrow> kni_fifo_put (kn_alloc_q kni) (map snd ms) (of_nat (length ms));
                          w \<leftarrow> free_each (map fst (drop (unat ret) ms)) w;
                          Some (kni\<lparr>kn_alloc_q := q\<rparr>, w) } })"

section \<open>Bursts\<close>

definition rte_kni_tx_burst ::
  "rte_kni \<Rightarrow> addr list \<Rightarrow> u32 \<Rightarrow> 'p mbuf_world \<Rightarrow> (u32 \<times> rte_kni \<times> 'p mbuf_world) option" where
  "rte_kni_tx_burst kni mbufs num w =
     (let num = min (kni_fifo_free_count (kn_rx_q kni)) num
      in if length mbufs < unat num then None
         else do { (phy_mbufs, w) \<leftarrow> va2pa_each (take (unat num) mbufs) w;
                   (ret, q) \<leftarrow> kni_fifo_put (kn_rx_q kni) phy_mbufs num;
                   (kni, w) \<leftarrow> kni_free_mbufs (kni\<lparr>kn_rx_q := q\<rparr>) w;
                   Some (ret, kni, w) })"

definition rte_kni_rx_burst ::
  "rte_kni \<Rightarrow> addr list \<Rightarrow> u32 \<Rightarrow> 'p mbuf_world \<Rightarrow> (u32 \<times> addr list \<times> rte_kni \<times> 'p mbuf_world) option" where
  "rte_kni_rx_burst kni mbufs num w =
     do { (ret, mbufs, q) \<leftarrow> kni_fifo_get (kn_tx_q kni) mbufs num;
          let kni = kni\<lparr>kn_tx_q := q\<rparr>;
          (kni, w) \<leftarrow> (if ret \<noteq> 0 then kni_allocate_mbufs kni w else Some (kni, w));
          Some (ret, mbufs, kni, w) }"

section \<open>Creation\<close>

definition fifo_of_zone :: "kni_memzone \<Rightarrow> rte_kni_fifo option" where
  "fifo_of_zone z = kni_fifo_init (kz_memory z) KNI_FIFO_COUNT_MAX"

text \<open>
  The structure and the device information as they are when \<open>ioctl\<close> is called, from the
  seven zones in the order of \<open>kni_reserve_mz\<close>.
\<close>

fun kni_setup ::
  "addr \<Rightarrow> rte_kni_conf \<Rightarrow> rte_kni_ops option \<Rightarrow> bool \<Rightarrow> kni_memzone list \<Rightarrow> (rte_kni \<times> rte_kni_device_info) option" where
  "kni_setup pool conf ops iova_va [ztx, zrx, zalloc, zfree, zreq, zresp, zsync] =
     do { tx \<leftarrow> fifo_of_zone ztx; rx \<leftarrow> fifo_of_zone zrx; al \<leftarrow> fifo_of_zone zalloc;
          fr \<leftarrow> fifo_of_zone zfree; rq \<leftarrow> fifo_of_zone zreq; rp \<leftarrow> fifo_of_zone zresp;
          Some
           (\<lparr>kn_name = take (RTE_KNI_NAMESIZE - 1) (kc_name conf), kn_group_id = kc_group_id conf,
             kn_pktmbuf_pool = pool, kn_mbuf_size = kc_mbuf_size conf,
             kn_zones = map kz_name [ztx, zrx, zalloc, zfree, zreq, zresp, zsync],
             kn_tx_q = tx, kn_rx_q = rx, kn_alloc_q = al, kn_free_q = fr, kn_req_q = rq, kn_resp_q = rp,
             kn_sync_addr = kz_addr zsync,
             kn_ops = (case ops of Some o' \<Rightarrow> o' | None \<Rightarrow> zero_kni_ops\<lparr>ko_port_id := 0xffff\<rparr>)\<rparr>,
            \<lparr>kd_name = take (RTE_KNI_NAMESIZE - 1) (kc_name conf), kd_tx_phys = kz_iova ztx,
             kd_rx_phys = kz_iova zrx, kd_alloc_phys = kz_iova zalloc, kd_free_phys = kz_iova zfree,
             kd_req_phys = kz_iova zreq, kd_resp_phys = kz_iova zresp, kd_sync_phys = kz_iova zsync,
             kd_sync_va = kz_addr zsync, kd_group_id = kc_group_id conf, kd_core_id = kc_core_id conf,
             kd_force_bind = kc_force_bind conf, kd_mbuf_size = kc_mbuf_size conf,
             kd_mtu = ucast (kc_mtu conf), kd_min_mtu = ucast (kc_min_mtu conf), kd_max_mtu = ucast (kc_max_mtu conf),
             kd_mac_addr = kc_mac_addr conf, kd_iova_mode = (if iova_va then 1 else 0)\<rparr>) }"
| "kni_setup pool conf ops iova_va zs = None"

definition rte_kni_alloc ::
  "kni_env \<Rightarrow> addr \<Rightarrow> rte_kni_conf option \<Rightarrow> rte_kni_ops option \<Rightarrow> 'p kni_world \<Rightarrow> (addr \<times> 'p kni_world) option" where
  "rte_kni_alloc env pktmbuf_pool conf ops s =
     (case conf of
        None \<Rightarrow> Some (NULL, s)
      | Some conf \<Rightarrow>
          if pktmbuf_pool = NULL \<or> kc_name conf = [] then Some (NULL, s)
          else if kw_fd s < 0 then Some (NULL, s)
          else do {
            old \<leftarrow> kni_find (kc_name conf) (kw_kni s) (kw_list s);
            if old \<noteq> NULL then Some (NULL, s)
            else if \<not> ke_te env then Some (NULL, s)
            else if ke_kni env = NULL then Some (NULL, s)
            else case kni_reserve_mz (ke_reserve env) (take (RTE_KNI_NAMESIZE - 1) (kc_name conf)) (kw_zones s) of
              (None, zones) \<Rightarrow> Some (NULL, s\<lparr>kw_zones := zones\<rparr>)
            | (Some zs, zones) \<Rightarrow> do {
                (kni, dev_info) \<leftarrow> kni_setup pktmbuf_pool conf ops (ke_iova_va env) zs;
                if ke_ioctl env (kw_fd s) dev_info < 0
                then Some (NULL, s\<lparr>kw_zones := kni_release_mz (kn_zones kni) zones\<rparr>)
                else do {
                  (kni, w) \<leftarrow> kni_allocate_mbufs kni (kw_mbufs s);
                  Some (ke_kni env, s\<lparr>kw_zones := zones, kw_list := kw_list s @ [ke_kni env],
                    kw_kni := (kw_kni s)(ke_kni env \<mapsto> kni), kw_mbufs := w\<rparr>) } } })"

section \<open>Release\<close>

partial_function (option) kni_free_fifo :: "rte_kni_fifo \<Rightarrow> 'p mbuf_world \<Rightarrow> (rte_kni_fifo \<times> 'p mbuf_world) option" where
  "kni_free_fifo fifo w =
     Option.bind (kni_fifo_get fifo [NULL] 1) (\<lambda>(ret, pkt, fifo).
       if ret \<noteq> 0
       then Option.bind (rte_pktmbuf_free w (hd pkt)) (\<lambda>w. kni_free_fifo fifo w)
       else Some (fifo, w))"

text \<open>\<open>rte_mempool_obj_iter\<close> with the callback \<open>obj_free\<close>.\<close>

primrec obj_free_iter :: "addr list \<Rightarrow> addr \<Rightarrow> 'p mbuf_world \<Rightarrow> 'p mbuf_world option" where
  "obj_free_iter [] mbuf_phys w = Some w"
| "obj_free_iter (m # ms) mbuf_phys w =
     do { pa \<leftarrow> va2pa w m;
          w \<leftarrow> (if pa = mbuf_phys then rte_pktmbuf_free w m else Some w);
          obj_free_iter ms mbuf_phys w }"

partial_function (option) kni_free_fifo_phy ::
  "addr list \<Rightarrow> rte_kni_fifo \<Rightarrow> 'p mbuf_world \<Rightarrow> (rte_kni_fifo \<times> 'p mbuf_world) option" where
  "kni_free_fifo_phy elts fifo w =
     Option.bind (kni_fifo_get fifo [NULL] 1) (\<lambda>(ret, phys, fifo).
       if ret \<noteq> 0
       then Option.bind (obj_free_iter elts (hd phys) w) (\<lambda>w. kni_free_fifo_phy elts fifo w)
       else Some (fifo, w))"

text \<open>\<open>kern\<close> is what the kernel makes of the receive queue in a millisecond; \<open>retry\<close> counts down.\<close>

primrec kni_wait_rxq :: "(rte_kni_fifo \<Rightarrow> rte_kni_fifo) \<Rightarrow> nat \<Rightarrow> rte_kni_fifo \<Rightarrow> rte_kni_fifo" where
  "kni_wait_rxq kern 0 q = q"
| "kni_wait_rxq kern (Suc retry) q =
     (if kni_fifo_count q \<noteq> 0 then kni_wait_rxq kern retry (kern q) else q)"

definition rte_kni_release ::
  "(string \<Rightarrow> int) \<Rightarrow> (rte_kni_fifo \<Rightarrow> rte_kni_fifo) \<Rightarrow> addr \<Rightarrow> 'p kni_world \<Rightarrow> (int \<times> 'p kni_world) option" where
  "rte_kni_release ioctl_release kern kni s =
     (if kni = NULL then Some (- 1, s)
      else if kni \<notin> set (kw_list s) then Some (- 1, s)
      else do {
        k \<leftarrow> kw_kni s kni;
        if ioctl_release (take (RTE_KNI_NAMESIZE - 1) (kn_name k)) < 0 then Some (- 1, s)
        else do {
          let s = s\<lparr>kw_list := remove1 kni (kw_list s)\<rparr>;
          let rx = kni_wait_rxq kern 5 (kn_rx_q k);
          pool \<leftarrow> mw_pools (kw_mbufs s) (kn_pktmbuf_pool k);
          (_, w) \<leftarrow> kni_free_fifo_phy (mp_elt_list pool) (kn_alloc_q k) (kw_mbufs s);
          (_, w) \<leftarrow> kni_free_fifo (kn_tx_q k) w;
          (_, w) \<leftarrow> kni_free_fifo (kn_free_q k) w;
          Some (0, s\<lparr>kw_zones := kni_release_mz (kn_zones k) (kw_zones s),
                    kw_kni := (kw_kni s)(kni := None), kw_mbufs := w\<rparr>) } })"

section \<open>Handlers\<close>

definition kni_check_request_register :: "rte_kni_ops option \<Rightarrow> bool" where
  "kni_check_request_register ops =
     (case ops of None \<Rightarrow> False
      | Some p \<Rightarrow> \<not> (ko_change_mtu p = None \<and> ko_config_network_if p = None \<and> ko_config_mac_address p = None \<and>
          ko_config_promiscusity p = None \<and> ko_config_allmulticast p = None))"

definition rte_kni_register_handlers :: "rte_kni option \<Rightarrow> rte_kni_ops option \<Rightarrow> int \<times> rte_kni option" where
  "rte_kni_register_handlers kni ops =
     (case (ops, kni) of
        (None, _) \<Rightarrow> (- 1, kni)
      | (Some _, None) \<Rightarrow> (- 1, kni)
      | (Some p, Some k) \<Rightarrow>
          if kni_check_request_register (Some (kn_ops k)) then (- 1, kni)
          else (0, Some (k\<lparr>kn_ops := p\<rparr>)))"

definition rte_kni_unregister_handlers :: "rte_kni option \<Rightarrow> int \<times> rte_kni option" where
  "rte_kni_unregister_handlers kni =
     (case kni of None \<Rightarrow> (- 1, kni) | Some k \<Rightarrow> (0, Some (k\<lparr>kn_ops := zero_kni_ops\<rparr>)))"

definition rte_kni_close :: "'p kni_world \<Rightarrow> 'p kni_world" where
  "rte_kni_close s = (if kw_fd s < 0 then s else s\<lparr>kw_fd := - 1\<rparr>)"

end
