(* ===== verification/Kni_Buffers.thy ===== *)
theory Kni_Buffers
  imports Kni
begin

text \<open>
  Where packet buffers are while a kernel interface exists: what the two bursts and the refill
  of the allocation queue take from the pool, hand to the kernel and give back. The pool is
  any that meets \<open>mempool_driver\<close>.
\<close>

section \<open>Reservation of the zones\<close>

lemma memzone_free_all:
  "fold (\<lambda>z. memzone_free (kz_name z)) zs (map kz_name zs @ zones) = zones"
  by (induction zs) (simp_all add: memzone_free_def)

lemma kni_reserve_seq_None:
  "kni_reserve_seq rs ns got (rev (map kz_name got) @ zones) = (None, zones') \<Longrightarrow> zones' = zones"
proof (induction ns arbitrary: got)
  case Nil
  then show ?case by simp
next
  case (Cons n ns)
  show ?case
  proof (cases "rs n")
    case None
    then show ?thesis using Cons.prems memzone_free_all [of "rev got" zones] by (simp add: rev_map)
  next
    case (Some z)
    then show ?thesis using Cons.prems Cons.IH [of "got @ [z\<lparr>kz_name := n\<rparr>]"] by simp
  qed
qed

lemma kni_reserve_seq_Some:
  "kni_reserve_seq rs ns got zones = (Some zs, zones') \<Longrightarrow>
     map kz_name zs = map kz_name got @ ns \<and> zones' = rev ns @ zones"
proof (induction ns arbitrary: got zones)
  case Nil
  then show ?case by simp
next
  case (Cons n ns)
  then show ?case by (auto split: option.splits dest: Cons.IH)
qed

lemma kni_release_mz_rev: "distinct names \<Longrightarrow> kni_release_mz names (rev names @ zones) = zones"
proof (induction names arbitrary: zones)
  case Nil
  then show ?case by (simp add: kni_release_mz_def)
next
  case (Cons n ns)
  then show ?case by (simp add: kni_release_mz_def memzone_free_def remove1_append)
qed

section \<open>Physical addresses\<close>

definition pa_of :: "'p mbuf_world \<Rightarrow> addr \<Rightarrow> addr" where
  "pa_of w m = (case mbuf_at w m of None \<Rightarrow> 0 | Some b \<Rightarrow> m - (m_buf_addr b - m_buf_iova b))"

lemma va2pa_pa: "mbuf_at w m \<noteq> None \<Longrightarrow> va2pa w m = Some (pa_of w m)"
  by (auto simp: va2pa_def pa_of_def)

text \<open>What the conversion of chains changes: only links.\<close>

definition relinked :: "addr set \<Rightarrow> 'p mbuf_world \<Rightarrow> 'p mbuf_world \<Rightarrow> bool" where
  "relinked A w w' \<longleftrightarrow> mw_pools w' = mw_pools w \<and> same_store w w' \<and>
     (\<forall>b. b \<notin> A \<longrightarrow> mbuf_at w' b = mbuf_at w b) \<and>
     (\<forall>b m. mbuf_at w b = Some m \<longrightarrow> (\<exists>n. mbuf_at w' b = Some (m\<lparr>m_next := n\<rparr>)))"

lemma relinked_refl: "relinked A w w"
proof -
  have "\<exists>n. m = m\<lparr>m_next := n\<rparr>" for m :: rte_mbuf by (rule exI [of _ "m_next m"]) simp
  then show ?thesis by (simp add: relinked_def)
qed

lemma relinked_trans:
  assumes "relinked A w v" "relinked B v u"
  shows "relinked (A \<union> B) w u"
proof -
  have "\<exists>n. mbuf_at u b = Some (m\<lparr>m_next := n\<rparr>)" if m: "mbuf_at w b = Some m" for b m
  proof -
    from assms(1) m obtain n where "mbuf_at v b = Some (m\<lparr>m_next := n\<rparr>)" unfolding relinked_def by blast
    with assms(2) obtain k where "mbuf_at u b = Some (m\<lparr>m_next := n\<rparr>\<lparr>m_next := k\<rparr>)" unfolding relinked_def by blast
    then show ?thesis by auto
  qed
  moreover have "mw_pools u = mw_pools w" "same_store w u"
    using assms same_store_trans by (auto simp: relinked_def)
  moreover have "mbuf_at u b = mbuf_at w b" if "b \<notin> A \<union> B" for b
    using assms that by (simp add: relinked_def)
  ultimately show ?thesis by (simp add: relinked_def)
qed

lemma relinked_mono: "relinked A w v \<Longrightarrow> A \<subseteq> B \<Longrightarrow> relinked B w v"
  by (auto simp: relinked_def)

lemma relinked_pa: "relinked A w w' \<Longrightarrow> mbuf_at w m \<noteq> None \<Longrightarrow> pa_of w' m = pa_of w m"
  by (auto simp: relinked_def pa_of_def) force

lemma relinked_set_next:
  assumes "mbuf_at w a = Some m"
  shows "relinked {a} w (set_mbuf w a (m\<lparr>m_next := n\<rparr>))"
proof -
  have a: "a \<noteq> NULL" using assms by (auto dest: mbuf_at_not_NULL)
  have "\<exists>j. mbuf_at (set_mbuf w a (m\<lparr>m_next := n\<rparr>)) b = Some (k\<lparr>m_next := j\<rparr>)" if "mbuf_at w b = Some k" for b k
  proof (cases "b = a")
    case True
    with assms that a show ?thesis by (intro exI [of _ n]) simp
  next
    case False
    with that show ?thesis by (intro exI [of _ "m_next k"]) simp
  qed
  then show ?thesis by (simp add: relinked_def del: mbuf_at_set) simp
qed

text \<open>
  What the conversion makes of one chain: each segment leads to the physical address of the
  next one, the last to nothing, and nothing else of it is written.
\<close>

fun pa_linked :: "'p mbuf_world \<Rightarrow> 'p mbuf_world \<Rightarrow> addr list \<Rightarrow> bool" where
  "pa_linked w v [] \<longleftrightarrow> True"
| "pa_linked w v [x] \<longleftrightarrow> mbuf_at w x \<noteq> None \<and> mbuf_at v x = map_option (m_next_update (\<lambda>_. NULL)) (mbuf_at w x)"
| "pa_linked w v (x # y # ys) \<longleftrightarrow>
     mbuf_at w x \<noteq> None \<and> mbuf_at v x = map_option (m_next_update (\<lambda>_. pa_of w y)) (mbuf_at w x) \<and> pa_linked w v (y # ys)"

lemma pa_linked_cong:
  assumes "\<And>b. b \<in> set xs \<Longrightarrow> mbuf_at w1 b = mbuf_at w b" "\<And>b. b \<in> set xs \<Longrightarrow> mbuf_at v1 b = mbuf_at v b"
  shows "pa_linked w1 v1 xs = pa_linked w v xs"
  using assms by (induction w v xs rule: pa_linked.induct) (simp_all add: pa_of_def)

lemma va2pa_links_chain:
  assumes "seg_chain (mbuf_at w) n xs" "mbuf_at w a = Some m" "m_next m = n" "distinct (a # xs)"
  shows "\<exists>w'. va2pa_links w a n = Some w' \<and> relinked (set (a # xs)) w w' \<and> pa_linked w w' (a # xs)"
  using assms
proof (induction xs arbitrary: w a m n)
  case Nil
  then have "n = NULL" "m\<lparr>m_next := NULL\<rparr> = m" by simp_all
  with Nil relinked_refl show ?case by (subst va2pa_links.simps) auto
next
  case (Cons x xs)
  from Cons.prems(1) obtain mx where x: "n = x" "n \<noteq> NULL" "mbuf_at w n = Some mx"
    "seg_chain (mbuf_at w) (m_next mx) xs" by (auto split: option.splits)
  let ?w = "set_mbuf w a (m\<lparr>m_next := pa_of w x\<rparr>)"
  have a: "a \<noteq> NULL" "a \<noteq> x" "a \<notin> set xs" using Cons.prems by (auto dest: mbuf_at_not_NULL)
  have "seg_chain (mbuf_at ?w) (m_next mx) xs"
    using x(4) a by (subst seg_chain_cong [where h = "mbuf_at w"]) auto
  moreover have "mbuf_at ?w x = Some mx" using x a by simp
  ultimately obtain w' where w': "va2pa_links ?w x (m_next mx) = Some w'" "relinked (set (x # xs)) ?w w'"
    "pa_linked ?w w' (x # xs)"
    using Cons.IH [of ?w "m_next mx" x mx, OF _ _ refl] Cons.prems(4) by (auto simp del: mbuf_at_set pa_linked.simps)
  have "va2pa_links w a n = Some w'"
    using x a w'(1) Cons.prems(2) by (subst va2pa_links.simps) (simp add: va2pa_pa upd_mbuf_def)
  moreover have "relinked ({a} \<union> set (x # xs)) w w'"
    by (rule relinked_trans [OF relinked_set_next [OF Cons.prems(2)] w'(2)])
  moreover have "pa_linked w w' (a # x # xs)"
  proof -
    have "mbuf_at w' a = mbuf_at ?w a" using w'(2) a by (auto simp: relinked_def simp del: mbuf_at_set)
    moreover have "pa_linked w w' (x # xs)"
      by (rule iffD1 [OF pa_linked_cong w'(3)]) (use a in auto)
    ultimately show ?thesis using Cons.prems(2) a by simp
  qed
  ultimately show ?case by (auto simp: insert_commute)
qed

lemma va2pa_all_chain:
  assumes "seg_chain (mbuf_at w) a xs" "a \<noteq> NULL" "distinct xs"
  shows "\<exists>w'. va2pa_all w a = Some (pa_of w a, w') \<and> relinked (set xs) w w' \<and> pa_linked w w' xs"
proof (cases xs)
  case Nil
  with assms show ?thesis by simp
next
  case (Cons x ys)
  with assms(1) obtain m where m: "a = x" "mbuf_at w a = Some m" "seg_chain (mbuf_at w) (m_next m) ys"
    by (auto split: option.splits)
  from va2pa_links_chain [OF m(3,2) refl] assms(3) Cons m(1) obtain w' where
    "va2pa_links w a (m_next m) = Some w'" "relinked (set xs) w w'" "pa_linked w w' xs" by blast
  with m show ?thesis by (auto simp: va2pa_all_def va2pa_pa)
qed

text \<open>Packets: each a chain of its own.\<close>

definition chains :: "'p mbuf_world \<Rightarrow> addr list \<Rightarrow> addr list list \<Rightarrow> bool" where
  "chains w ms xss \<longleftrightarrow> list_all2 (\<lambda>m xs. m \<noteq> NULL \<and> seg_chain (mbuf_at w) m xs) ms xss \<and> distinct (concat xss)"

lemma chains_simps [simp]:
  "chains w [] xss = (xss = [])"
  "chains w (m # ms) (xs # xss) =
     (m \<noteq> NULL \<and> seg_chain (mbuf_at w) m xs \<and> distinct xs \<and> set xs \<inter> set (concat xss) = {} \<and> chains w ms xss)"
  by (auto simp: chains_def)

lemma chains_Cons: "chains w (m # ms) yss \<Longrightarrow> \<exists>xs xss. yss = xs # xss"
  by (auto simp: chains_def list_all2_Cons1)

lemma chains_cong:
  assumes "\<And>b. b \<in> set (concat xss) \<Longrightarrow> mbuf_at w' b = mbuf_at w b"
  shows "chains w' ms xss = chains w ms xss"
proof -
  have "list_all2 (\<lambda>m xs. m \<noteq> NULL \<and> seg_chain (mbuf_at w') m xs) ms xss =
    list_all2 (\<lambda>m xs. m \<noteq> NULL \<and> seg_chain (mbuf_at w) m xs) ms xss"
    using assms
  proof (induction xss arbitrary: ms)
    case Nil
    then show ?case by simp
  next
    case (Cons xs xss)
    have "seg_chain (mbuf_at w') m xs = seg_chain (mbuf_at w) m xs" for m
      by (rule seg_chain_cong) (use Cons.prems in auto)
    with Cons show ?case by (cases ms) auto
  qed
  then show ?thesis by (simp add: chains_def)
qed

lemma chain_head: "seg_chain h m xs \<Longrightarrow> m \<noteq> NULL \<Longrightarrow> h m \<noteq> None \<and> m \<in> set xs"
  by (cases xs) (auto split: option.splits)

lemma chains_mem: "chains w ms xss \<Longrightarrow> x \<in> set ms \<Longrightarrow> x \<noteq> NULL \<and> mbuf_at w x \<noteq> None"
proof (induction ms arbitrary: xss)
  case Nil
  then show ?case by simp
next
  case (Cons m ms)
  from chains_Cons [OF Cons.prems(1)] obtain xs yss where "xss = xs # yss" by blast
  with Cons chain_head [of "mbuf_at w" m xs] show ?case by auto
qed

lemma va2pa_each_chains:
  assumes "chains w ms xss"
  shows "\<exists>w'. va2pa_each ms w = Some (map (pa_of w) ms, w') \<and> relinked (set (concat xss)) w w' \<and>
    list_all (pa_linked w w') xss"
  using assms
proof (induction ms arbitrary: w xss)
  case Nil
  then show ?case by (simp add: relinked_refl)
next
  case (Cons m ms)
  from chains_Cons [OF Cons.prems] obtain xs yss where y: "xss = xs # yss" by blast
  from va2pa_all_chain [of w m xs] Cons.prems y obtain w1 where
    w1: "va2pa_all w m = Some (pa_of w m, w1)" "relinked (set xs) w w1" "pa_linked w w1 xs" by auto
  have fr: "mbuf_at w1 b = mbuf_at w b" if "b \<in> set (concat yss)" for b
    using w1(2) Cons.prems y that by (auto simp: relinked_def)
  have "chains w1 ms yss" using chains_cong [of yss w1 w ms] fr Cons.prems y by simp
  from Cons.IH [OF this] obtain w' where
    w': "va2pa_each ms w1 = Some (map (pa_of w1) ms, w')" "relinked (set (concat yss)) w1 w'"
      "list_all (pa_linked w1 w') yss" by blast
  have "pa_of w1 x = pa_of w x" if "x \<in> set ms" for x
    by (rule relinked_pa [OF w1(2)]) (use chains_mem [OF Cons.prems] that in simp)
  then have "map (pa_of w1) ms = map (pa_of w) ms" by simp
  moreover have "pa_linked w w' xs"
  proof (rule iffD1 [OF pa_linked_cong w1(3)])
    fix b assume "b \<in> set xs"
    then have "b \<notin> set (concat yss)" using Cons.prems y by auto
    then show "mbuf_at w1 b = mbuf_at w' b" using w'(2) by (simp add: relinked_def)
  qed simp
  moreover have "pa_linked w w' ys" if "ys \<in> set yss" for ys
  proof (rule iffD1 [OF pa_linked_cong])
    show "pa_linked w1 w' ys" using w'(3) that by (simp add: list_all_iff)
  qed (use fr that in auto)
  ultimately show ?case
    using w1 w' y relinked_trans [OF w1(2) w'(2)] by (auto simp: list_all_iff)
qed

section \<open>Release of the packets the kernel is done with\<close>

definition all_sole :: "'p mbuf_world \<Rightarrow> addr \<Rightarrow> addr list list \<Rightarrow> bool" where
  "all_sole w P xss \<longleftrightarrow> list_all (sole_direct w P) (concat xss)"

lemma all_sole_cong:
  assumes "\<And>b. b \<in> set (concat xss) \<Longrightarrow> mbuf_at w' b = mbuf_at w b"
  shows "all_sole w' P xss = all_sole w P xss"
proof -
  have "sole_direct w' P b = sole_direct w P b" if "b \<in> set (concat xss)" for b
    by (simp add: sole_direct_def assms [OF that])
  then show ?thesis by (auto simp: all_sole_def list_all_iff)
qed

context mempool_driver
begin

text \<open>\<open>gives\<close>: from \<open>w\<close> to \<open>w'\<close> the pool gets the objects \<open>as\<close> back, nothing else is touched.\<close>

definition gives :: "'p mbuf_world \<Rightarrow> addr \<Rightarrow> 'p rte_mempool \<Rightarrow> addr list \<Rightarrow> 'p mbuf_world \<Rightarrow> 'p rte_mempool \<Rightarrow> bool" where
  "gives w P mp as w' mp' \<longleftrightarrow> mw_pools w' = (mw_pools w)(P \<mapsto> mp') \<and> pool_ok drv inv (mw_ops w) mp' \<and>
     pool_bag bag mp' = pool_bag bag mp + mset as \<and> pool_cap bag room mp' = pool_cap bag room mp \<and>
     same_store w w' \<and> (\<forall>b. b \<notin> set as \<longrightarrow> mbuf_at w' b = mbuf_at w b)"

lemma free_each_ok:
  assumes "chains w ms xss" "all_sole w P xss" "mw_pools w P = Some mp" "pool_ok drv inv (mw_ops w) mp"
    and "size (pool_bag bag mp) + length (concat xss) \<le> pool_cap bag room mp"
  shows "\<exists>w' mp'. free_each ms w = Some w' \<and> gives w P mp (concat xss) w' mp'"
  using assms
proof (induction ms arbitrary: w mp xss)
  case Nil
  then have "mw_pools w = (mw_pools w)(P \<mapsto> mp)" by auto
  with Nil show ?case by (intro exI [of _ w] exI [of _ mp]) (simp add: gives_def)
next
  case (Cons m ms)
  from chains_Cons [OF Cons.prems(1)] obtain xs yss where y: "xss = xs # yss" by blast
  have sole: "sole_direct w P x" if "x \<in> set xs" for x
    using Cons.prems(2) y that by (simp add: all_sole_def list_all_iff)
  have ch: "seg_chain (mbuf_at w) m xs" "distinct xs" "set xs \<inter> set (concat yss) = {}" "chains w ms yss"
    using Cons.prems(1) y by simp_all
  have "size (pool_bag bag mp) + length xs \<le> pool_cap bag room mp" using Cons.prems(5) y by simp
  from pktmbuf_free_chain [OF ch(1,2) sole Cons.prems(3,4) this] obtain w1 mp1 where
    w1: "rte_pktmbuf_free w m = Some w1" "mw_pools w1 = (mw_pools w)(P \<mapsto> mp1)" "pool_ok drv inv (mw_ops w) mp1"
      "pool_bag bag mp1 = pool_bag bag mp + mset xs" "pool_cap bag room mp1 = pool_cap bag room mp"
      "same_store w w1" "\<And>b. b \<notin> set xs \<Longrightarrow> mbuf_at w1 b = mbuf_at w b" by blast
  have ops: "mw_ops w1 = mw_ops w" using w1(6) by (simp add: same_store_def)
  have fr: "mbuf_at w1 b = mbuf_at w b" if "b \<in> set (concat yss)" for b using w1(7) ch(3) that by blast
  have "\<exists>w' mp'. free_each ms w1 = Some w' \<and> gives w1 P mp1 (concat yss) w' mp'"
  proof (rule Cons.IH)
    show "chains w1 ms yss" using chains_cong [OF fr] ch(4) by simp
    show "all_sole w1 P yss" using all_sole_cong [OF fr] Cons.prems(2) y by (simp add: all_sole_def)
    show "mw_pools w1 P = Some mp1" "pool_ok drv inv (mw_ops w1) mp1" using w1(2,3) ops by simp_all
    show "size (pool_bag bag mp1) + length (concat yss) \<le> pool_cap bag room mp1"
      using Cons.prems(5) y w1(4,5) by simp
  qed
  then obtain w' mp' where w': "free_each ms w1 = Some w'" "gives w1 P mp1 (concat yss) w' mp'" by blast
  have "gives w P mp (concat xss) w' mp'"
    using w'(2) w1 ops y same_store_trans [OF w1(6)] by (auto simp: gives_def)
  with w1(1) w'(1) show ?case by auto
qed

lemma kni_free_mbufs_ok:
  assumes "kni_fifo_inv (kn_free_q kni)" "chains w (take 32 (kni_fifo_list (kn_free_q kni))) xss"
    and "all_sole w P xss" "mw_pools w P = Some mp" "pool_ok drv inv (mw_ops w) mp"
    and "size (pool_bag bag mp) + length (concat xss) \<le> pool_cap bag room mp"
  shows "\<exists>q w' mp'. kni_free_mbufs kni w = Some (kni\<lparr>kn_free_q := q\<rparr>, w') \<and> kni_fifo_inv q \<and>
    kni_fifo_list q = drop 32 (kni_fifo_list (kn_free_q kni)) \<and> gives w P mp (concat xss) w' mp'"
proof -
  let ?l = "kni_fifo_list (kn_free_q kni)" and ?m = "min 32 (kni_fifo_used (kn_free_q kni))"
  from kni_fifo_get_ok [OF assms(1), of 32 "replicate 32 NULL"] obtain q where
    q: "kni_fifo_get (kn_free_q kni) (replicate 32 NULL) 32 =
        Some (of_nat ?m, take ?m ?l @ drop ?m (replicate 32 NULL), q)"
      "kni_fifo_inv q" "kni_fifo_list q = drop 32 ?l" by auto
  have u: "unat (of_nat ?m :: u32) = ?m" by (simp add: unat_of_nat min_def)
  have t: "take ?m ?l = take 32 ?l" by (simp add: min_def)
  from free_each_ok [OF assms(2-6)] obtain w' mp' where
    "free_each (take 32 ?l) w = Some w'" "gives w P mp (concat xss) w' mp'" by blast
  with q u t show ?thesis
    by (intro exI [of _ q] exI [of _ w'] exI [of _ mp']) (simp add: kni_free_mbufs_def MAX_MBUF_BURST_NUM_def)
qed

text \<open>
  A transmission to the kernel takes as many packets as there is room for, never part of one,
  and gives the packets the kernel has returned back to the pool.
\<close>

lemma rte_kni_tx_burst_ok:
  assumes "kni_fifo_inv (kn_rx_q kni)" "kni_fifo_inv (kn_free_q kni)" "unat num \<le> length ms"
    and sent: "chains w (take (min (unat num) (kni_fifo_room (kn_rx_q kni))) ms) sss"
    and done_: "chains w (take 32 (kni_fifo_list (kn_free_q kni))) xss" "all_sole w P xss"
    and "set (concat sss) \<inter> set (concat xss) = {}"
    and "mw_pools w P = Some mp" "pool_ok drv inv (mw_ops w) mp"
    and "size (pool_bag bag mp) + length (concat xss) \<le> pool_cap bag room mp"
  shows "\<exists>kni' v w' mp'.
    rte_kni_tx_burst kni ms num w = Some (of_nat (min (unat num) (kni_fifo_room (kn_rx_q kni))), kni', w') \<and>
    kni_fifo_inv (kn_rx_q kni') \<and> kni_fifo_inv (kn_free_q kni') \<and>
    kni_fifo_list (kn_rx_q kni') = kni_fifo_list (kn_rx_q kni) @
      map (pa_of w) (take (min (unat num) (kni_fifo_room (kn_rx_q kni))) ms) \<and>
    kni_fifo_list (kn_free_q kni') = drop 32 (kni_fifo_list (kn_free_q kni)) \<and>
    relinked (set (concat sss)) w v \<and> list_all (pa_linked w v) sss \<and> gives v P mp (concat xss) w' mp'"
proof -
  let ?n = "min (kni_fifo_free_count (kn_rx_q kni)) num"
  let ?k = "min (unat num) (kni_fifo_room (kn_rx_q kni))"
  have n: "unat ?n = ?k" by (auto simp: kni_fifo_room_def min_def word_le_nat_alt)
  from va2pa_each_chains [OF sent] obtain v where
    v: "va2pa_each (take ?k ms) w = Some (map (pa_of w) (take ?k ms), v)" "relinked (set (concat sss)) w v"
    "list_all (pa_linked w v) sss" by blast
  have l: "length (map (pa_of w) (take ?k ms)) = ?k" using assms(3) by simp
  have mk: "min ?k (kni_fifo_room (kn_rx_q kni)) = ?k" by simp
  have "unat ?n \<le> length (map (pa_of w) (take ?k ms))" using n l by simp
  from kni_fifo_put_ok [OF assms(1) this, unfolded n mk] l obtain q where
    q: "kni_fifo_put (kn_rx_q kni) (map (pa_of w) (take ?k ms)) ?n = Some (of_nat ?k, q)" "kni_fifo_inv q"
      "kni_fifo_list q = kni_fifo_list (kn_rx_q kni) @ map (pa_of w) (take ?k ms)"
    by (metis le_refl take_all)
  have fr: "mbuf_at v b = mbuf_at w b" if "b \<in> set (concat xss)" for b
    using v(2) assms(7) that unfolding relinked_def by blast
  have vp: "mw_pools v = mw_pools w" "mw_ops v = mw_ops w" using v(2) by (simp_all add: relinked_def same_store_def)
  from kni_free_mbufs_ok [of "kni\<lparr>kn_rx_q := q\<rparr>" v xss P mp] obtain r w' mp' where
    r: "kni_free_mbufs (kni\<lparr>kn_rx_q := q\<rparr>) v = Some (kni\<lparr>kn_rx_q := q, kn_free_q := r\<rparr>, w')" "kni_fifo_inv r"
      "kni_fifo_list r = drop 32 (kni_fifo_list (kn_free_q kni))" "gives v P mp (concat xss) w' mp'"
    using assms(2,8-10) done_ chains_cong [OF fr] all_sole_cong [OF fr] vp by auto
  have "rte_kni_tx_burst kni ms num w = Some (of_nat ?k, kni\<lparr>kn_rx_q := q, kn_free_q := r\<rparr>, w')"
    using n v(1) q(1) r(1) assms(3) by (simp add: rte_kni_tx_burst_def Let_def)
  with q r v(2,3) show ?thesis
    by (intro exI [of _ "kni\<lparr>kn_rx_q := q, kn_free_q := r\<rparr>"] exI [of _ v] exI [of _ w'] exI [of _ mp']) simp
qed

text \<open>
  The refill: what leaves the pool is what the allocation queue gets, by physical address.
  Every object of the pool is the address of a buffer structure.
\<close>

definition mapped_pool :: "'p mbuf_world \<Rightarrow> 'p rte_mempool \<Rightarrow> bool" where
  "mapped_pool w mp \<longleftrightarrow> (\<forall>a. a \<in># pool_bag bag mp \<longrightarrow> mbuf_at w a \<noteq> None)"

definition takes :: "'p mbuf_world \<Rightarrow> addr \<Rightarrow> 'p rte_mempool \<Rightarrow> addr list \<Rightarrow> 'p mbuf_world \<Rightarrow> 'p rte_mempool \<Rightarrow> bool" where
  "takes w P mp as w' mp' \<longleftrightarrow> mw_pools w' = (mw_pools w)(P \<mapsto> mp') \<and> pool_ok drv inv (mw_ops w) mp' \<and>
     pool_bag bag mp = pool_bag bag mp' + mset as \<and> pool_cap bag room mp' = pool_cap bag room mp \<and>
     same_store w w' \<and>
     (\<forall>b. mbuf_at w' b = (if b \<in> set as then map_option reset_fields (mbuf_at w b) else mbuf_at w b))"

lemma reset_fields_idem [simp]: "reset_fields (reset_fields m) = reset_fields m"
  by (simp add: reset_fields_def reset_headroom_def Let_def)

lemma pktmbuf_alloc_ok:
  assumes "mw_pools w P = Some mp" "pool_ok drv inv (mw_ops w) mp" "mapped_pool w mp"
  shows "(\<exists>a w' mp'. a \<noteq> NULL \<and> mbuf_at w a \<noteq> None \<and> rte_pktmbuf_alloc w P = Some (a, w') \<and> takes w P mp [a] w' mp') \<or>
    (rte_pktmbuf_alloc w P = Some (NULL, w) \<and> size (bag (the (mp_pool_data mp))) = 0)"
  using raw_alloc_ok [OF assms(1,2)]
proof (elim disjE exE conjE)
  fix a mp'
  assume a: "rte_mbuf_raw_alloc w P = Some (a, set_pool w P mp')" "pool_ok drv inv (mw_ops w) mp'"
    "pool_bag bag mp = pool_bag bag mp' + {#a#}" "pool_cap bag room mp' = pool_cap bag room mp"
  then have "mbuf_at w a \<noteq> None" using assms(3) by (simp add: mapped_pool_def)
  then obtain m where m: "mbuf_at w a = Some m" by blast
  then have "a \<noteq> NULL" by (auto dest: mbuf_at_not_NULL)
  moreover have "rte_pktmbuf_alloc w P = Some (a, set_mbuf (set_pool w P mp') a (reset_fields m))"
    using a(1) m calculation by (simp add: rte_pktmbuf_alloc_def rte_pktmbuf_reset_def upd_mbuf_def)
  ultimately show ?thesis
    using a m by (intro disjI1 exI [of _ a] exI [of _ "set_mbuf (set_pool w P mp') a (reset_fields m)"] exI [of _ mp'])
      (auto simp: takes_def)
next
  assume "rte_mbuf_raw_alloc w P = Some (NULL, set_pool w P mp)" "size (bag (the (mp_pool_data mp))) = 0"
  moreover have "set_pool w P mp = w" using assms(1) by (simp add: set_pool_def fun_upd_idem)
  ultimately show ?thesis by (simp add: rte_pktmbuf_alloc_def)
qed

lemma takes_trans:
  assumes "takes w P mp as v mp1" "takes v P mp1 bs u mp2"
  shows "takes w P mp (as @ bs) u mp2"
  using assms same_store_trans
  by (auto simp: takes_def same_store_def fun_upd_def fun_eq_iff option.map_comp comp_def)

lemma takes_pa: "takes w P mp as w' mp' \<Longrightarrow> pa_of w' a = pa_of w a"
  by (auto simp: takes_def pa_of_def reset_fields_def reset_headroom_def Let_def split: option.split)

lemma kni_alloc_loop_ok:
  assumes "mw_pools w P = Some mp" "pool_ok drv inv (mw_ops w) mp" "mapped_pool w mp"
  shows "\<exists>as w' mp'. kni_alloc_loop k P w = Some (map (\<lambda>a. (a, pa_of w a)) as, w') \<and> length as \<le> k \<and>
    takes w P mp as w' mp'"
  using assms
proof (induction k arbitrary: w mp)
  case 0
  then have "mw_pools w = (mw_pools w)(P \<mapsto> mp)" by auto
  with 0 show ?case by (intro exI [of _ "[]"] exI [of _ w] exI [of _ mp]) (simp add: takes_def)
next
  case (Suc k)
  from pktmbuf_alloc_ok [OF Suc.prems] show ?case
  proof (elim disjE exE conjE)
    fix a w1 mp1
    assume a: "a \<noteq> NULL" "mbuf_at w a \<noteq> None" "rte_pktmbuf_alloc w P = Some (a, w1)" "takes w P mp [a] w1 mp1"
    have "mw_pools w1 P = Some mp1" "pool_ok drv inv (mw_ops w1) mp1" "mapped_pool w1 mp1"
      using a(4) Suc.prems(3) by (auto simp: takes_def same_store_def mapped_pool_def)
    from Suc.IH [OF this] obtain as w' mp' where
      r: "kni_alloc_loop k P w1 = Some (map (\<lambda>a. (a, pa_of w1 a)) as, w')" "length as \<le> k" "takes w1 P mp1 as w' mp'"
      by blast
    have "mbuf_at w1 a \<noteq> None" using a(2,4) by (auto simp: takes_def)
    then have "kni_alloc_loop (Suc k) P w = Some (map (\<lambda>a. (a, pa_of w a)) (a # as), w')"
      using a r(1) by (simp add: va2pa_pa takes_pa [OF a(4)])
    then show ?thesis using r(2) takes_trans [OF a(4) r(3)]
      by (intro exI [of _ "a # as"] exI [of _ w'] exI [of _ mp']) simp
  next
    assume "rte_pktmbuf_alloc w P = Some (NULL, w)"
    moreover have "mw_pools w = (mw_pools w)(P \<mapsto> mp)" using Suc.prems(1) by auto
    ultimately show ?thesis using Suc.prems
      by (intro exI [of _ "[]"] exI [of _ w] exI [of _ mp]) (simp add: takes_def)
  qed
qed

lemma kni_allocate_mbufs_ok:
  assumes "kni_fifo_inv (kn_alloc_q kni)" "P = kn_pktmbuf_pool kni" "P \<noteq> NULL"
    and "mw_pools w P = Some mp" "pool_ok drv inv (mw_ops w) mp" "mapped_pool w mp"
  shows "\<exists>as q w' mp'. kni_allocate_mbufs kni w = Some (kni\<lparr>kn_alloc_q := q\<rparr>, w') \<and> kni_fifo_inv q \<and>
    kni_fifo_list q = kni_fifo_list (kn_alloc_q kni) @ map (pa_of w) as \<and> takes w P mp as w' mp'"
proof -
  let ?f = "kni_fifo_free_count (kn_alloc_q kni)" and ?r = "kni_fifo_room (kn_alloc_q kni)"
  let ?k = "min 32 ?r"
  have "?r < 2 ^ 31"
    using kni_fifo_room_used [OF assms(1)] fifo_at_index(3,4) [OF kni_fifo_at [OF assms(1)]] by simp
  then have s: "sint ?f = int ?r" by (subst sint_small) (simp_all add: kni_fifo_room_def)
  from kni_alloc_loop_ok [OF assms(4-6), of ?k] obtain as w' mp' where
    r: "kni_alloc_loop ?k P w = Some (map (\<lambda>a. (a, pa_of w a)) as, w')" "length as \<le> ?k" "takes w P mp as w' mp'"
    by blast
  have k: "nat (if int MAX_MBUF_BURST_NUM < int ?r then int MAX_MBUF_BURST_NUM else int ?r) = ?k"
    by (simp add: MAX_MBUF_BURST_NUM_def)
  show ?thesis
  proof (cases "as = []")
    case True
    with assms r s k show ?thesis
      by (intro exI [of _ as] exI [of _ "kn_alloc_q kni"] exI [of _ w'] exI [of _ mp'])
         (simp add: kni_allocate_mbufs_def Let_def)
  next
    case False
    have u: "unat (of_nat (length as) :: u32) = length as" using r(2) by (simp add: unat_of_nat)
    have m: "min (length as) ?r = length as" using r(2) by simp
    from kni_fifo_put_ok [OF assms(1), of "of_nat (length as)" "map (pa_of w) as", unfolded u m] obtain q where
      q: "kni_fifo_put (kn_alloc_q kni) (map (pa_of w) as) (of_nat (length as)) = Some (of_nat (length as), q)"
        "kni_fifo_inv q" "kni_fifo_list q = kni_fifo_list (kn_alloc_q kni) @ map (pa_of w) as" by auto
    have "kni_allocate_mbufs kni w = Some (kni\<lparr>kn_alloc_q := q\<rparr>, w')"
      using assms(2,3) r(1) s k False q(1) u
      by (simp add: kni_allocate_mbufs_def Let_def comp_def)
    with q r(3) show ?thesis by blast
  qed
qed

end

section \<open>Release of an interface\<close>

lemma kni_free_fifo_empty:
  assumes "kni_fifo_inv f" "kni_fifo_list f = []"
  shows "\<exists>f'. kni_free_fifo f w = Some (f', w)" "\<exists>f'. kni_free_fifo_phy elts f w = Some (f', w)"
proof -
  have "kni_fifo_used f = 0" using assms(2) by (metis length_kni_fifo_list list.size(3))
  with kni_fifo_get_ok [OF assms(1), of 1 "[NULL]"] obtain f' where "kni_fifo_get f [NULL] 1 = Some (0, [NULL], f')"
    by (auto simp: unat_1)
  then show "\<exists>f'. kni_free_fifo f w = Some (f', w)" "\<exists>f'. kni_free_fifo_phy elts f w = Some (f', w)"
    by (subst kni_free_fifo.simps kni_free_fifo_phy.simps; simp)+
qed

lemma rte_kni_release_rxq_kept:
  assumes "kni \<in> set (kw_list s)" "kni \<noteq> NULL" "kw_kni s kni = Some k"
    and "0 \<le> ioctl_release (take 15 (kn_name k))"
    and "mw_pools (kw_mbufs s) (kn_pktmbuf_pool k) = Some mp"
    and "\<And>q. q \<in> {kn_alloc_q k, kn_tx_q k, kn_free_q k} \<Longrightarrow> kni_fifo_inv q \<and> kni_fifo_list q = []"
  shows "\<exists>s'. rte_kni_release ioctl_release kern kni s = Some (0, s') \<and> kw_mbufs s' = kw_mbufs s \<and> kw_kni s' kni = None"
proof -
  have e: "kni_fifo_inv (kn_alloc_q k) \<and> kni_fifo_list (kn_alloc_q k) = []"
    "kni_fifo_inv (kn_tx_q k) \<and> kni_fifo_list (kn_tx_q k) = []"
    "kni_fifo_inv (kn_free_q k) \<and> kni_fifo_list (kn_free_q k) = []" using assms(6) by simp_all
  from e kni_free_fifo_empty [of "kn_alloc_q k"] kni_free_fifo_empty [of "kn_tx_q k"] kni_free_fifo_empty [of "kn_free_q k"]
  obtain a b c where "kni_free_fifo_phy (mp_elt_list mp) (kn_alloc_q k) (kw_mbufs s) = Some (a, kw_mbufs s)"
    "kni_free_fifo (kn_tx_q k) (kw_mbufs s) = Some (b, kw_mbufs s)"
    "kni_free_fifo (kn_free_q k) (kw_mbufs s) = Some (c, kw_mbufs s)" by metis
  with assms(1-5) show ?thesis by (simp add: rte_kni_release_def RTE_KNI_NAMESIZE_def Let_def)
qed

end
