(* ===== verification/App_Filter.thy ===== *)
theory App_Filter
  imports Libc
begin

text \<open>
  The filter rules of \<open>main.c\<close>: the linked list \<open>add_filter_rule\<close> builds, newest first,
  and the search of \<open>match_filter_rule\<close>. Addresses and ports are the network-order words
  read from the packet headers.
\<close>

section \<open>Rules\<close>

text \<open>The padding of the key stays zero (\<open>calloc\<close>) and is never read.\<close>

record filter_key =
  fk_rule_type :: u8
  fk_ip :: u32
  fk_port :: u16

record filter_rule_entry =
  fr_key :: filter_key
  fr_action :: u8

text \<open>
  \<open>add_filter_rule\<close> returns its result, the list headed by the new rule and what it prints.
  \<open>alloc\<close> is whether \<open>calloc\<close> succeeds.
\<close>

definition add_filter_rule ::
  "bool \<Rightarrow> filter_rule_entry list \<Rightarrow> u8 \<Rightarrow> u32 \<Rightarrow> u16 \<Rightarrow> int \<times> filter_rule_entry list \<times> string" where
  "add_filter_rule alloc filter_rules rule_type ip port =
     (if \<not> alloc then (- 1, filter_rules, ''Error: failed to allocate memory for filter rule'')
      else
        let rule = \<lparr>fr_key = \<lparr>fk_rule_type = rule_type, fk_ip = ip, fk_port = port\<rparr>, fr_action = 1\<rparr>;
            filter_rules = rule # filter_rules;
            ip_str = inet_ntop ip
        in (0, filter_rules,
            (if rule_type = 0 then ''Added filter rule: forward packets to ''
             else ''Added filter rule: forward packets from '')
            @ ip_str @ '':'' @ show_nat (unat (ntohs port))))"

primrec match_filter_rule :: "filter_rule_entry list \<Rightarrow> u32 \<Rightarrow> u32 \<Rightarrow> u16 \<Rightarrow> u16 \<Rightarrow> bool" where
  "match_filter_rule [] src_ip dst_ip src_port dst_port = False"
| "match_filter_rule (rule # rules) src_ip dst_ip src_port dst_port =
     (if fk_rule_type (fr_key rule) = 0 then
        (if fk_ip (fr_key rule) = dst_ip \<and> fk_port (fr_key rule) = dst_port then True
         else match_filter_rule rules src_ip dst_ip src_port dst_port)
      else
        (if fk_ip (fr_key rule) = src_ip \<and> fk_port (fr_key rule) = src_port then True
         else match_filter_rule rules src_ip dst_ip src_port dst_port))"

section \<open>What a rule selects\<close>

definition rule_selects :: "filter_key \<Rightarrow> u32 \<Rightarrow> u32 \<Rightarrow> u16 \<Rightarrow> u16 \<Rightarrow> bool" where
  "rule_selects k src_ip dst_ip src_port dst_port \<longleftrightarrow>
     (if fk_rule_type k = 0 then (fk_ip k, fk_port k) = (dst_ip, dst_port)
      else (fk_ip k, fk_port k) = (src_ip, src_port))"

lemma match_filter_rule_iff:
  "match_filter_rule rules src_ip dst_ip src_port dst_port \<longleftrightarrow>
     (\<exists>rule \<in> set rules. rule_selects (fr_key rule) src_ip dst_ip src_port dst_port)"
  by (induction rules) (auto simp: rule_selects_def)

section \<open>The arguments of the command line\<close>

text \<open>\<open>filter_rules_args[i]\<close>: rule type, address, port.\<close>

type_synonym rule_arg = "u8 \<times> u32 \<times> u16"

definition arg_key :: "rule_arg \<Rightarrow> filter_key" where
  "arg_key a = (case a of (t, ip, port) \<Rightarrow> \<lparr>fk_rule_type = t, fk_ip = ip, fk_port = port\<rparr>)"

text \<open>
  The loop of \<open>main\<close> that adds the parsed rules; \<open>allocs\<close> tells for each one whether its
  allocation succeeds. The result of \<open>add_filter_rule\<close> is not looked at.
\<close>

primrec add_filter_rules ::
  "(nat \<Rightarrow> bool) \<Rightarrow> nat \<Rightarrow> rule_arg list \<Rightarrow> filter_rule_entry list \<Rightarrow> filter_rule_entry list \<times> string list" where
  "add_filter_rules allocs i [] filter_rules = (filter_rules, [])"
| "add_filter_rules allocs i (a # as) filter_rules =
     (let (t, ip, port) = a;
          (_, filter_rules, out) = add_filter_rule (allocs i) filter_rules t ip port;
          (filter_rules, outs) = add_filter_rules allocs (Suc i) as filter_rules
      in (filter_rules, out # outs))"

text \<open>The rules of the list: the arguments in reverse, less those whose allocation failed.\<close>

lemma add_filter_rule_keys:
  "map fr_key (fst (snd (add_filter_rule alloc rules t ip port))) =
    (if alloc then [arg_key (t, ip, port)] else []) @ map fr_key rules"
  by (simp add: add_filter_rule_def Let_def arg_key_def)

lemma add_filter_rules_Cons:
  "fst (add_filter_rules allocs i (a # as) rules) =
    fst (add_filter_rules allocs (Suc i) as
      (fst (snd (add_filter_rule (allocs i) rules (fst a) (fst (snd a)) (snd (snd a))))))"
  by (simp add: Let_def split: prod.split)

lemma add_filter_rules_keys:
  "map fr_key (fst (add_filter_rules allocs i args rules)) =
    rev (map arg_key (map fst (filter (\<lambda>(a, j). allocs j) (zip args [i..<i + length args]))))
      @ map fr_key rules"
proof (induction args arbitrary: i rules)
  case Nil
  then show ?case by simp
next
  case (Cons a args)
  have upt: "[i..<i + length (a # args)] = i # [Suc i..<Suc i + length args]"
    by (simp add: upt_conv_Cons del: upt_Suc)
  show ?case
    by (simp only: upt add_filter_rules_Cons Cons.IH add_filter_rule_keys) (simp del: upt_Suc)
qed

lemma add_filter_rules_all:
  assumes "\<And>j. j < length args \<Longrightarrow> allocs j"
  shows "map fr_key (fst (add_filter_rules allocs 0 args [])) = rev (map arg_key args)"
proof -
  have "filter (\<lambda>(a, j). allocs j) (zip args [0..<length args]) = zip args [0..<length args]"
    using assms by (intro filter_True) (auto dest: set_zip_rightD)
  then show ?thesis by (simp add: add_filter_rules_keys)
qed

end
