(* ===== verification/App_Packet.thy ===== *)
theory App_Packet
  imports Kni_Buffers App_Filter
begin

text \<open>
  The packet loop of \<open>main.c\<close>: reading the headers, the two ways to forward, the hand-over to
  the kernel interface, and one iteration of \<open>lcore_main\<close>. The network card and the operating
  system are parameters with a state \<open>'h\<close> of their own; what the program sends is recorded
  in \<open>as_out\<close>.
\<close>

section \<open>Words of a packet\<close>

definition rd8 :: "'p mbuf_world \<Rightarrow> addr \<Rightarrow> nat \<Rightarrow> u8 option" where
  "rd8 w a off = do { bs \<leftarrow> rd_bytes w a off 1; Some (bs ! 0) }"

definition rd16 :: "'p mbuf_world \<Rightarrow> addr \<Rightarrow> nat \<Rightarrow> u16 option" where
  "rd16 w a off = do { bs \<leftarrow> rd_bytes w a off 2; Some (ucast (bs ! 0) OR push_bit 8 (ucast (bs ! 1))) }"

definition rd32 :: "'p mbuf_world \<Rightarrow> addr \<Rightarrow> nat \<Rightarrow> u32 option" where
  "rd32 w a off = do { bs \<leftarrow> rd_bytes w a off 4; Some (le32 (bs ! 0) (bs ! 1) (bs ! 2) (bs ! 3)) }"

section \<open>Headers\<close>

text \<open>
  Offsets of \<open>struct rte_ether_hdr\<close> (14 bytes), \<open>struct rte_ipv4_hdr\<close>, \<open>struct rte_tcp_hdr\<close> and
  \<open>struct rte_udp_hdr\<close>.
\<close>

definition sizeof_ether_hdr :: nat where "sizeof_ether_hdr = 14"
definition RTE_ETHER_TYPE_IPV4 :: u16 where "RTE_ETHER_TYPE_IPV4 = 0x0800"
definition IPPROTO_TCP :: u8 where "IPPROTO_TCP = 6"
definition IPPROTO_UDP :: u8 where "IPPROTO_UDP = 17"

definition ether_type :: "'p mbuf_world \<Rightarrow> addr \<Rightarrow> u16 option" where
  "ether_type w m = rd16 w m 12"

definition ip_version_ihl :: "'p mbuf_world \<Rightarrow> addr \<Rightarrow> u8 option" where
  "ip_version_ihl w m = rd8 w m (sizeof_ether_hdr + 0)"

definition ip_total_length :: "'p mbuf_world \<Rightarrow> addr \<Rightarrow> u16 option" where
  "ip_total_length w m = rd16 w m (sizeof_ether_hdr + 2)"

definition ip_next_proto_id :: "'p mbuf_world \<Rightarrow> addr \<Rightarrow> u8 option" where
  "ip_next_proto_id w m = rd8 w m (sizeof_ether_hdr + 9)"

definition ip_src_addr :: "'p mbuf_world \<Rightarrow> addr \<Rightarrow> u32 option" where
  "ip_src_addr w m = rd32 w m (sizeof_ether_hdr + 12)"

definition ip_dst_addr :: "'p mbuf_world \<Rightarrow> addr \<Rightarrow> u32 option" where
  "ip_dst_addr w m = rd32 w m (sizeof_ether_hdr + 16)"

definition l4_offset :: "u8 \<Rightarrow> nat" where
  "l4_offset version_ihl = sizeof_ether_hdr + unat (version_ihl AND 0x0F) * 4"

text \<open>The ports are the first two fields of either header.\<close>

datatype pkt_class =
    Not_IPv4
  | Not_TCP_UDP
  | Flow (src_ip: u32) (dst_ip: u32) (src_port: u16) (dst_port: u16)

definition classify :: "'p mbuf_world \<Rightarrow> addr \<Rightarrow> pkt_class option" where
  "classify w m =
     do { et \<leftarrow> ether_type w m;
          if et \<noteq> htons RTE_ETHER_TYPE_IPV4 then Some Not_IPv4
          else do {
            protocol \<leftarrow> ip_next_proto_id w m;
            if protocol \<noteq> IPPROTO_TCP \<and> protocol \<noteq> IPPROTO_UDP then Some Not_TCP_UDP
            else do {
              s \<leftarrow> ip_src_addr w m;
              d \<leftarrow> ip_dst_addr w m;
              version_ihl \<leftarrow> ip_version_ihl w m;
              sp \<leftarrow> rd16 w m (l4_offset version_ihl);
              dp \<leftarrow> rd16 w m (l4_offset version_ihl + 2);
              Some (Flow s d sp dp) } } }"

section \<open>State\<close>

datatype out_event = Tun_Write int "u8 list" | Nic_Send int u32 "u8 list"

text \<open>\<open>as_kni\<close> is the pointer \<open>kni\<close>; \<open>as_hw\<close> is the state of the card and the system.\<close>

record ('p, 'h) app_state =
  as_force_quit :: bool
  as_filter_rules :: "filter_rule_entry list"
  as_port_id :: u16
  as_forward_ifname :: "string option"
  as_tun_fd :: int
  as_raw_sock :: int
  as_kni :: addr
  as_total_packets :: u64
  as_forwarded_packets :: u64
  as_kni_packets :: u64
  as_kw :: "'p kni_world"
  as_hw :: 'h
  as_out :: "out_event list"

abbreviation as_mbufs :: "('p, 'h) app_state \<Rightarrow> 'p mbuf_world" where
  "as_mbufs g \<equiv> kw_mbufs (as_kw g)"

definition set_mbufs :: "('p, 'h) app_state \<Rightarrow> 'p mbuf_world \<Rightarrow> ('p, 'h) app_state" where
  "set_mbufs g w = g\<lparr>as_kw := (as_kw g)\<lparr>kw_mbufs := w\<rparr>\<rparr>"

definition set_kni :: "('p, 'h) app_state \<Rightarrow> rte_kni \<Rightarrow> 'p mbuf_world \<Rightarrow> ('p, 'h) app_state" where
  "set_kni g k w = g\<lparr>as_kw := (as_kw g)\<lparr>kw_kni := (kw_kni (as_kw g))(as_kni g \<mapsto> k), kw_mbufs := w\<rparr>\<rparr>"

text \<open>
  The fast path of one port (\<open>rte_eth_fp_ops[port_id]\<close>): the driver's bursts and its data per
  queue.
\<close>

record ('p, 'h) rte_eth_fp_ops =
  fp_rx_pkt_burst :: "'h \<Rightarrow> addr \<Rightarrow> addr list \<Rightarrow> u16 \<Rightarrow> 'p mbuf_world \<Rightarrow> (u16 \<times> addr list \<times> 'p mbuf_world \<times> 'h) option"
  fp_rxq_data :: "addr list"
  fp_tx_pkt_burst :: "'h \<Rightarrow> addr \<Rightarrow> addr list \<Rightarrow> u16 \<Rightarrow> 'p mbuf_world \<Rightarrow> (u16 \<times> 'p mbuf_world \<times> 'h) option"
  fp_txq_data :: "addr list"

text \<open>
  \<open>write\<close>, \<open>sendto\<close> (with the interface index of the address) and \<open>if_nametoindex\<close> of the
  system; \<open>ae_slot\<close> is the address of the variable \<open>m\<close> of \<open>kni_request_handler\<close>.
\<close>

record ('p, 'h) app_env =
  ae_fp_ops :: "u16 \<Rightarrow> ('p, 'h) rte_eth_fp_ops option"
  ae_write :: "'h \<Rightarrow> int \<Rightarrow> u8 list \<Rightarrow> int \<times> 'h"
  ae_sendto :: "'h \<Rightarrow> int \<Rightarrow> u32 \<Rightarrow> u8 list \<Rightarrow> int \<times> 'h"
  ae_if_nametoindex :: "string \<Rightarrow> u32"
  ae_slot :: addr

section \<open>The bursts of ethdev\<close>

text \<open>Compiled without the debug checks and with no callback installed.\<close>

definition rte_eth_rx_burst ::
  "('p, 'h) app_env \<Rightarrow> u16 \<Rightarrow> u16 \<Rightarrow> addr list \<Rightarrow> u16 \<Rightarrow> ('p, 'h) app_state \<Rightarrow> (u16 \<times> addr list \<times> ('p, 'h) app_state) option" where
  "rte_eth_rx_burst env port queue_id rx_pkts nb_pkts g =
     do { p \<leftarrow> ae_fp_ops env port;
          qd \<leftarrow> ld (fp_rxq_data p) (ucast queue_id);
          (nb_rx, rx_pkts, w, h) \<leftarrow> fp_rx_pkt_burst p (as_hw g) qd rx_pkts nb_pkts (as_mbufs g);
          Some (nb_rx, rx_pkts, (set_mbufs g w)\<lparr>as_hw := h\<rparr>) }"

definition rte_eth_tx_burst ::
  "('p, 'h) app_env \<Rightarrow> u16 \<Rightarrow> u16 \<Rightarrow> addr list \<Rightarrow> u16 \<Rightarrow> ('p, 'h) app_state \<Rightarrow> (u16 \<times> ('p, 'h) app_state) option" where
  "rte_eth_tx_burst env port queue_id tx_pkts nb_pkts g =
     do { p \<leftarrow> ae_fp_ops env port;
          qd \<leftarrow> ld (fp_txq_data p) (ucast queue_id);
          (nb_pkts, w, h) \<leftarrow> fp_tx_pkt_burst p (as_hw g) qd tx_pkts nb_pkts (as_mbufs g);
          Some (nb_pkts, (set_mbufs g w)\<lparr>as_hw := h\<rparr>) }"

section \<open>Forwarding\<close>

text \<open>\<open>write\<close> reads as many bytes of the buffer as the IP header says.\<close>

definition forward_to_tun :: "('p, 'h) app_env \<Rightarrow> addr \<Rightarrow> ('p, 'h) app_state \<Rightarrow> (int \<times> ('p, 'h) app_state) option" where
  "forward_to_tun env m g =
     (if as_tun_fd g < 0 then Some (- 1, g)
      else do {
        total_length \<leftarrow> ip_total_length (as_mbufs g) m;
        let ip_len = ntohs total_length;
        bs \<leftarrow> rd_bytes (as_mbufs g) m sizeof_ether_hdr (unat ip_len);
        let (n, h) = ae_write env (as_hw g) (as_tun_fd g) bs;
        let g = g\<lparr>as_hw := h, as_out := as_out g @ [Tun_Write (as_tun_fd g) bs]\<rparr>;
        Some (if n < 0 then - 1 else 0, g) })"

definition forward_to_nic :: "('p, 'h) app_env \<Rightarrow> addr \<Rightarrow> ('p, 'h) app_state \<Rightarrow> (int \<times> ('p, 'h) app_state) option" where
  "forward_to_nic env m g =
     (if as_raw_sock g < 0 then Some (- 1, g)
      else do {
        b \<leftarrow> mbuf_at (as_mbufs g) m;
        let pkt_len = (ucast (m_pkt_len b) :: u16);
        ifname \<leftarrow> as_forward_ifname g;
        let ifindex = ae_if_nametoindex env ifname;
        if ifindex = 0 then Some (- 1, g)
        else do {
          bs \<leftarrow> rd_bytes (as_mbufs g) m 0 (unat pkt_len);
          let (n, h) = ae_sendto env (as_hw g) (as_raw_sock g) ifindex bs;
          let g = g\<lparr>as_hw := h, as_out := as_out g @ [Nic_Send (as_raw_sock g) ifindex bs]\<rparr>;
          Some (if n < 0 then - 1 else 0, g) } })"

definition free_packet :: "addr \<Rightarrow> ('p, 'h) app_state \<Rightarrow> ('p, 'h) app_state option" where
  "free_packet m g = do { w \<leftarrow> rte_pktmbuf_free (as_mbufs g) m; Some (set_mbufs g w) }"

text \<open>The block that occurs three times: to the kernel if there is an interface.\<close>

definition send_to_kni :: "addr \<Rightarrow> ('p, 'h) app_state \<Rightarrow> ('p, 'h) app_state option" where
  "send_to_kni m g =
     (if as_kni g \<noteq> NULL then
        do { k \<leftarrow> kw_kni (as_kw g) (as_kni g);
             (nb_tx, k, w) \<leftarrow> rte_kni_tx_burst k [m] 1 (as_mbufs g);
             let g = set_kni g k w;
             if (ucast nb_tx :: u16) = 0 then free_packet m g
             else Some (g\<lparr>as_kni_packets := as_kni_packets g + 1\<rparr>) }
      else free_packet m g)"

text \<open>The branch for a packet that a rule selects, without the final release.\<close>

definition forward_packet :: "('p, 'h) app_env \<Rightarrow> addr \<Rightarrow> ('p, 'h) app_state \<Rightarrow> ('p, 'h) app_state option" where
  "forward_packet env m g =
     (case as_forward_ifname g of
        None \<Rightarrow> Some g
      | Some ifname \<Rightarrow>
          do { (ret, g) \<leftarrow> (if strneq ifname ''tun'' 3 then forward_to_tun env m g else forward_to_nic env m g);
               Some (if ret = 0 then g\<lparr>as_forwarded_packets := as_forwarded_packets g + 1\<rparr> else g) })"

text \<open>The body of the loop over a burst.\<close>

definition process_packet :: "('p, 'h) app_env \<Rightarrow> addr \<Rightarrow> ('p, 'h) app_state \<Rightarrow> ('p, 'h) app_state option" where
  "process_packet env m g =
     do { c \<leftarrow> classify (as_mbufs g) m;
          case c of
            Flow s d sp dp \<Rightarrow>
              if match_filter_rule (as_filter_rules g) s d sp dp
              then do { g \<leftarrow> forward_packet env m g; free_packet m g }
              else send_to_kni m g
          | _ \<Rightarrow> send_to_kni m g }"

primrec process_burst :: "('p, 'h) app_env \<Rightarrow> addr list \<Rightarrow> ('p, 'h) app_state \<Rightarrow> ('p, 'h) app_state option" where
  "process_burst env [] g = Some g"
| "process_burst env (m # ms) g = do { g \<leftarrow> process_packet env m g; process_burst env ms g }"

section \<open>Packets from the kernel\<close>

text \<open>The release of dropped packets is given the address of \<open>m\<close>, not \<open>m\<close>.\<close>

primrec free_slot :: "nat \<Rightarrow> addr \<Rightarrow> ('p, 'h) app_state \<Rightarrow> ('p, 'h) app_state option" where
  "free_slot 0 slot g = Some g"
| "free_slot (Suc k) slot g = do { g \<leftarrow> free_packet slot g; free_slot k slot g }"

definition kni_request_handler :: "('p, 'h) app_env \<Rightarrow> ('p, 'h) app_state \<Rightarrow> (int \<times> ('p, 'h) app_state) option" where
  "kni_request_handler env g =
     do { k \<leftarrow> kw_kni (as_kw g) (as_kni g);
          (nb_rx, table, k, w) \<leftarrow> rte_kni_rx_burst k [NULL] 1 (as_mbufs g);
          let g = set_kni g k w;
          if nb_rx > 0 then
            do { (nb_tx, g) \<leftarrow> rte_eth_tx_burst env (as_port_id g) 0 table (ucast nb_rx) g;
                 g \<leftarrow> (if (ucast nb_tx :: u32) < nb_rx
                        then free_slot (unat (nb_rx - ucast nb_tx)) (ae_slot env) g
                        else Some g);
                 Some (0, g) }
          else Some (0, g) }"

section \<open>The loop of an lcore\<close>

definition BURST_SIZE :: nat where "BURST_SIZE = 32"

text \<open>One round of \<open>while (!force_quit)\<close>; \<open>bufs\<close> is the local array of the loop.\<close>

definition lcore_iter :: "('p, 'h) app_env \<Rightarrow> addr list \<Rightarrow> ('p, 'h) app_state \<Rightarrow> ('p, 'h) app_state option" where
  "lcore_iter env bufs g =
     do { g \<leftarrow> (if as_kni g \<noteq> NULL then map_option snd (kni_request_handler env g) else Some g);
          (nb_rx, bufs, g) \<leftarrow> rte_eth_rx_burst env (as_port_id g) 0 bufs (of_nat BURST_SIZE) g;
          if nb_rx = 0 then Some g
          else if length bufs < unat nb_rx then None
          else process_burst env (take (unat nb_rx) bufs)
                 (g\<lparr>as_total_packets := as_total_packets g + ucast nb_rx\<rparr>) }"

definition signal_handler :: "int \<Rightarrow> ('p, 'h) app_state \<Rightarrow> ('p, 'h) app_state" where
  "signal_handler signum g = (if signum = 2 \<or> signum = 15 then g\<lparr>as_force_quit := True\<rparr> else g)"

text \<open>
  An execution of the loop: rounds while \<open>force_quit\<close> is not set, and signals at any time
  between two rounds.
\<close>

inductive lcore_step :: "('p, 'h) app_env \<Rightarrow> ('p, 'h) app_state \<Rightarrow> ('p, 'h) app_state \<Rightarrow> bool" for env where
  round: "\<not> as_force_quit g \<Longrightarrow> length bufs = BURST_SIZE \<Longrightarrow> lcore_iter env bufs g = Some g' \<Longrightarrow> lcore_step env g g'"
| sig: "lcore_step env g (signal_handler signum g)"

inductive_cases lcore_stepE: "lcore_step env g g'"

end
