(* ===== verification/App_Options.thy ===== *)
theory App_Options
  imports App_Filter
begin

text \<open>
  The command line of the filter: \<open>getopt_long\<close> with the option tables of \<open>main\<close>, the
  switch over the options, the parsing of \<open>IP:port\<close> rules, and the checks after the loop.
  An early return of \<open>main\<close> is an \<open>app_error\<close> with its exit code.
\<close>

section \<open>Scanning the arguments\<close>

text \<open>
  \<open>getopt_long(argc, argv, "i:f:d:s:k:h", long_options, NULL)\<close>, called until it returns -1:
  the sequence of option characters with \<open>optarg\<close> (empty where there is none). An unknown
  option or a missing argument is \<open>'?'\<close>. Arguments that are no options are passed over
  (glibc moves them to the end), \<open>--\<close> ends the options.
\<close>

definition long_options :: "(string \<times> bool \<times> char) list" where
  "long_options =
     [(''interface'', True, CHR ''i''), (''forward'', True, CHR ''f''), (''dst'', True, CHR ''d''),
      (''src'', True, CHR ''s''), (''kni'', True, CHR ''k''), (''help'', False, CHR ''h'')]"

text \<open>An exact name, or a prefix of one name only.\<close>

definition long_match :: "string \<Rightarrow> (bool \<times> char) option" where
  "long_match name =
     (case map_of long_options name of
        Some r \<Rightarrow> Some r
      | None \<Rightarrow>
          (case filter (\<lambda>(n, _). take (length name) n = name) long_options of
             [(_, r)] \<Rightarrow> Some r
           | _ \<Rightarrow> None))"

text \<open>
  A cluster of short options: those it gives at once, and the option whose argument is the
  next element of \<open>argv\<close>.
\<close>

primrec short_cluster :: "string \<Rightarrow> (char \<times> string) list \<times> char option" where
  "short_cluster [] = ([], None)"
| "short_cluster (c # cs) =
     (if c \<in> set ''ifdsk'' then (if cs \<noteq> [] then ([(c, cs)], None) else ([], Some c))
      else let (opts, more) = short_cluster cs
           in ((if c = CHR ''h'' then CHR ''h'' else CHR ''?'', []) # opts, more))"

fun getopt_long :: "string list \<Rightarrow> (char \<times> string) list" where
  "getopt_long [] = []"
| "getopt_long (a # as) =
     (if a = ''--'' then []
      else if take 2 a = ''--'' then
        (let (name, val) = (case split_at (CHR ''='') (drop 2 a) of
                              None \<Rightarrow> (drop 2 a, None) | Some (n, v) \<Rightarrow> (n, Some v))
         in case long_match name of
              None \<Rightarrow> (CHR ''?'', []) # getopt_long as
            | Some (has_arg, c) \<Rightarrow>
                (if has_arg then
                   (case val of
                      Some v \<Rightarrow> (c, v) # getopt_long as
                    | None \<Rightarrow> (case as of [] \<Rightarrow> [(CHR ''?'', [])] | v # as' \<Rightarrow> (c, v) # getopt_long as'))
                 else (if val = None then c else CHR ''?'', []) # getopt_long as))
      else if take 1 a = ''-'' \<and> a \<noteq> ''-'' then
        (case short_cluster (drop 1 a) of
           (opts, None) \<Rightarrow> opts @ getopt_long as
         | (opts, Some c) \<Rightarrow>
             opts @ (case as of [] \<Rightarrow> [(CHR ''?'', [])] | v # as' \<Rightarrow> (c, v) # getopt_long as'))
      else getopt_long as)"

section \<open>Rules\<close>

datatype app_error =
    Too_Many_Rules
  | Bad_Format char
  | Bad_Address string
  | Bad_Port string
  | Usage_Help
  | Usage_Unknown
  | No_Forward_Interface
  | No_Filter_Rules

text \<open>What \<open>main\<close> returns after the message.\<close>

definition exit_code :: "app_error \<Rightarrow> int" where
  "exit_code e = (if e = Usage_Help then 0 else 1)"

definition MAX_FILTER_RULES :: nat where "MAX_FILTER_RULES = 64"

text \<open>The cases \<open>'d'\<close> (rule type 0) and \<open>'s'\<close> (rule type 1) of the switch.\<close>

definition parse_rule :: "char \<Rightarrow> rule_arg list \<Rightarrow> string \<Rightarrow> app_error + rule_arg list" where
  "parse_rule opt args optarg =
     (if MAX_FILTER_RULES \<le> length args then Inl Too_Many_Rules
      else case split_at (CHR '':'') optarg of
             None \<Rightarrow> Inl (Bad_Format opt)
           | Some (ip_part, port_part) \<Rightarrow>
               (case inet_pton ip_part of
                  None \<Rightarrow> Inl (Bad_Address ip_part)
                | Some s_addr \<Rightarrow>
                    let port_val = atoi port_part
                    in if port_val \<le> 0 \<or> 65535 < port_val then Inl (Bad_Port port_part)
                       else Inr (args @ [(if opt = CHR ''d'' then 0 else 1, s_addr,
                                          htons (word_of_int port_val))])))"

section \<open>The option loop\<close>

record app_config =
  ac_port_id :: u16
  ac_forward_ifname :: "string option"
  ac_kni_name :: "string option"
  ac_rule_args :: "rule_arg list"

definition app_config_init :: app_config where
  "app_config_init =
     \<lparr>ac_port_id = 0, ac_forward_ifname = None, ac_kni_name = None, ac_rule_args = []\<rparr>"

primrec parse_options :: "(char \<times> string) list \<Rightarrow> app_config \<Rightarrow> app_error + app_config" where
  "parse_options [] cfg = Inr cfg"
| "parse_options (e # es) cfg =
     (case e of (opt, optarg) \<Rightarrow>
        if opt = CHR ''i'' then parse_options es (cfg\<lparr>ac_port_id := word_of_int (atoi optarg)\<rparr>)
        else if opt = CHR ''f'' then parse_options es (cfg\<lparr>ac_forward_ifname := Some optarg\<rparr>)
        else if opt = CHR ''d'' \<or> opt = CHR ''s'' then
          (case parse_rule opt (ac_rule_args cfg) optarg of
             Inl err \<Rightarrow> Inl err
           | Inr args \<Rightarrow> parse_options es (cfg\<lparr>ac_rule_args := args\<rparr>))
        else if opt = CHR ''k'' then parse_options es (cfg\<lparr>ac_kni_name := Some optarg\<rparr>)
        else if opt = CHR ''h'' then Inl Usage_Help
        else Inl Usage_Unknown)"

text \<open>\<open>args\<close> are the arguments after the program name that \<open>rte_eal_init\<close> left.\<close>

definition parse_command_line :: "string list \<Rightarrow> app_error + app_config" where
  "parse_command_line args =
     (case parse_options (getopt_long args) app_config_init of
        Inl e \<Rightarrow> Inl e
      | Inr cfg \<Rightarrow>
          if ac_forward_ifname cfg = None then Inl No_Forward_Interface
          else if ac_rule_args cfg = [] then Inl No_Filter_Rules
          else Inr cfg)"

section \<open>Well-formed rules\<close>

definition rule_arg_ok :: "rule_arg \<Rightarrow> bool" where
  "rule_arg_ok a = (case a of (t, ip, port) \<Rightarrow> (t = 0 \<or> t = 1) \<and> ntohs port \<noteq> 0)"

definition config_ok :: "app_config \<Rightarrow> bool" where
  "config_ok cfg \<longleftrightarrow> length (ac_rule_args cfg) \<le> MAX_FILTER_RULES \<and> list_all rule_arg_ok (ac_rule_args cfg)"

lemma parse_rule_ok:
  assumes "parse_rule opt args optarg = Inr args'" "list_all rule_arg_ok args"
  shows "length args' \<le> MAX_FILTER_RULES \<and> list_all rule_arg_ok args'"
proof -
  have nz: "(word_of_int v :: u16) \<noteq> 0" if "0 < v" "v \<le> 65535" for v
  proof -
    have "uint (word_of_int v :: u16) = v" using that by (simp add: uint_word_of_int)
    with that show ?thesis by auto
  qed
  from assms show ?thesis
    by (auto simp: parse_rule_def rule_arg_ok_def nz Let_def split: if_splits option.splits)
qed

lemma config_ok_upd [simp]:
  "config_ok (cfg\<lparr>ac_port_id := p\<rparr>) = config_ok cfg"
  "config_ok (cfg\<lparr>ac_forward_ifname := f\<rparr>) = config_ok cfg"
  "config_ok (cfg\<lparr>ac_kni_name := k\<rparr>) = config_ok cfg"
  by (simp_all add: config_ok_def)

lemma config_ok_rule:
  "parse_rule opt (ac_rule_args cfg) a = Inr args \<Longrightarrow> config_ok cfg \<Longrightarrow>
     config_ok (cfg\<lparr>ac_rule_args := args\<rparr>)"
  by (auto simp: config_ok_def dest: parse_rule_ok)

lemma parse_options_ok:
  "parse_options es cfg = Inr cfg' \<Longrightarrow> config_ok cfg \<Longrightarrow> config_ok cfg'"
proof (induction es arbitrary: cfg)
  case Nil
  then show ?case by simp
next
  case (Cons e es)
  then show ?case
    by (auto dest: config_ok_rule split: prod.splits if_splits sum.splits)
qed

lemma split_at_append: "c \<notin> set xs \<Longrightarrow> split_at c (xs @ c # ys) = Some (xs, ys)"
  by (induction xs) auto

lemma colon_free: "CHR '':'' \<notin> set (show_nat n)" "CHR '':'' \<notin> set (inet_ntop x)"
proof -
  have d: "CHR '':'' \<notin> set (show_nat n)" for n
    using show_nat_digits [of n] digit_not_special(5) by (auto simp: list_all_iff)
  then show "CHR '':'' \<notin> set (show_nat n)" .
  show "CHR '':'' \<notin> set (inet_ntop x)" using d by (simp add: inet_ntop_def)
qed

lemma parse_rule_show:
  assumes "length args < MAX_FILTER_RULES" "0 < port" "port < 2 ^ 16"
  shows "parse_rule opt args (inet_ntop ip @ '':'' @ show_nat port) =
    Inr (args @ [(if opt = CHR ''d'' then 0 else 1, ip, htons (of_nat port))])"
  using assms atoi_show_nat [of port "[]"]
  by (simp add: parse_rule_def split_at_append colon_free inet_pton_ntop)

end
