(* ===== verification/Ethdev.thy ===== *)
theory Ethdev
  imports Mbuf
begin

text \<open>
  Control of a network port (\<open>lib/ethdev/rte_ethdev.c\<close>, \<open>ethdev_private.c\<close>): enumeration,
  device information, configuration, queue set-up, start and stop, promiscuous mode. A driver
  is its table of callbacks; each takes the device and the state \<open>'h\<close> of the hardware and
  returns its result with both updated. \<open>'b\<close> stands for the burst functions of a device,
  which this library only copies.
\<close>

section \<open>Data\<close>

definition RTE_MAX_ETHPORTS :: u16 where "RTE_MAX_ETHPORTS = 32"
definition RTE_MAX_QUEUES_PER_PORT :: u16 where "RTE_MAX_QUEUES_PER_PORT = 1024"
definition RTE_ETHER_MIN_LEN :: u32 where "RTE_ETHER_MIN_LEN = 64"
definition RTE_ETHER_HDR_LEN :: u32 where "RTE_ETHER_HDR_LEN = 14"
definition RTE_ETHER_CRC_LEN :: u32 where "RTE_ETHER_CRC_LEN = 4"
definition RTE_ETHER_MTU :: u32 where "RTE_ETHER_MTU = 1518 - RTE_ETHER_HDR_LEN - RTE_ETHER_CRC_LEN"
definition RTE_ETH_MQ_RX_RSS_FLAG :: u32 where "RTE_ETH_MQ_RX_RSS_FLAG = 1"
definition RTE_ETH_RX_OFFLOAD_TCP_LRO :: u64 where "RTE_ETH_RX_OFFLOAD_TCP_LRO = push_bit 4 1"
definition RTE_ETH_RX_OFFLOAD_RSS_HASH :: u64 where "RTE_ETH_RX_OFFLOAD_RSS_HASH = push_bit 19 1"
definition RTE_ETH_RX_OFFLOAD_BUFFER_SPLIT :: u64 where "RTE_ETH_RX_OFFLOAD_BUFFER_SPLIT = push_bit 20 1"
definition RTE_ETH_TX_OFFLOAD_MBUF_FAST_FREE :: u64 where "RTE_ETH_TX_OFFLOAD_MBUF_FAST_FREE = push_bit 16 1"
definition RTE_ETH_RSS_L3_SRC_ONLY :: u64 where "RTE_ETH_RSS_L3_SRC_ONLY = push_bit 63 1"
definition RTE_ETH_RSS_L3_DST_ONLY :: u64 where "RTE_ETH_RSS_L3_DST_ONLY = push_bit 62 1"
definition RTE_ETH_RSS_L4_SRC_ONLY :: u64 where "RTE_ETH_RSS_L4_SRC_ONLY = push_bit 61 1"
definition RTE_ETH_RSS_L4_DST_ONLY :: u64 where "RTE_ETH_RSS_L4_DST_ONLY = push_bit 60 1"
definition RTE_ETH_DEV_INTR_LSC :: u32 where "RTE_ETH_DEV_INTR_LSC = push_bit 1 1"
definition RTE_ETH_DEV_INTR_RMV :: u32 where "RTE_ETH_DEV_INTR_RMV = push_bit 3 1"
definition RTE_ETH_DEV_NOLIVE_MAC_ADDR :: u32 where "RTE_ETH_DEV_NOLIVE_MAC_ADDR = push_bit 5 1"
definition RTE_ETH_DEV_CAPA_RUNTIME_RX_QUEUE_SETUP :: u64 where "RTE_ETH_DEV_CAPA_RUNTIME_RX_QUEUE_SETUP = push_bit 0 1"
definition RTE_ETH_DEV_CAPA_RUNTIME_TX_QUEUE_SETUP :: u64 where "RTE_ETH_DEV_CAPA_RUNTIME_TX_QUEUE_SETUP = push_bit 1 1"
definition RTE_ETH_DEV_CAPA_RXQ_SHARE :: u64 where "RTE_ETH_DEV_CAPA_RXQ_SHARE = push_bit 2 1"
definition RTE_ETH_QUEUE_STATE_STOPPED :: u8 where "RTE_ETH_QUEUE_STATE_STOPPED = 0"
definition RTE_ETH_DEV_NO_OWNER :: u64 where "RTE_ETH_DEV_NO_OWNER = 0"
definition RTE_ETH_DEV_FALLBACK_RX_RINGSIZE :: u16 where "RTE_ETH_DEV_FALLBACK_RX_RINGSIZE = 512"
definition RTE_ETH_DEV_FALLBACK_TX_RINGSIZE :: u16 where "RTE_ETH_DEV_FALLBACK_TX_RINGSIZE = 512"
definition RTE_ETH_DEV_FALLBACK_RX_NBQUEUES :: u16 where "RTE_ETH_DEV_FALLBACK_RX_NBQUEUES = 1"
definition RTE_ETH_DEV_FALLBACK_TX_NBQUEUES :: u16 where "RTE_ETH_DEV_FALLBACK_TX_NBQUEUES = 1"
definition sizeof_pktmbuf_pool_private :: u32 where "sizeof_pktmbuf_pool_private = 8"

datatype rte_eth_dev_state = RTE_ETH_DEV_UNUSED | RTE_ETH_DEV_ATTACHED | RTE_ETH_DEV_REMOVED

text \<open>The fields nothing here reads or writes are left out of the structures.\<close>

record rte_eth_conf =
  ec_link_speeds :: u32
  ec_rx_mq_mode :: u32
  ec_rx_mtu :: u32
  ec_max_lro_pkt_size :: u32
  ec_rx_offloads :: u64
  ec_tx_offloads :: u64
  ec_rss_hf :: u64
  ec_lsc :: bool
  ec_rmv :: bool

record rte_eth_desc_lim =
  dl_nb_max :: u16
  dl_nb_min :: u16
  dl_nb_align :: u16
  dl_nb_seg_max :: u16
  dl_nb_mtu_seg_max :: u16

record rte_eth_dev_portconf =
  pc_burst_size :: u16
  pc_ring_size :: u16
  pc_nb_queues :: u16

text \<open>A segment description of a receive queue: pool, length, offset.\<close>

record rte_eth_rxseg_split =
  rs_mp :: addr
  rs_length :: u16
  rs_offset :: u16

record rte_eth_rxseg_capa =
  sc_multi_pools :: bool
  sc_offset_allowed :: bool
  sc_offset_align_log2 :: nat
  sc_max_nseg :: u16

record rte_eth_rxconf =
  rc_free_thresh :: u16
  rc_drop_en :: u8
  rc_nseg :: u16
  rc_share_group :: u16
  rc_offloads :: u64
  rc_seg :: "rte_eth_rxseg_split list option"

record rte_eth_txconf =
  tc_rs_thresh :: u16
  tc_free_thresh :: u16
  tc_offloads :: u64

record rte_eth_dev_info =
  di_driver_name :: string
  di_min_mtu :: u16
  di_max_mtu :: u16
  di_min_rx_bufsize :: u32
  di_max_rx_pktlen :: u32
  di_max_lro_pkt_size :: u32
  di_max_rx_queues :: u16
  di_max_tx_queues :: u16
  di_max_mac_addrs :: u32
  di_rx_seg_capa :: rte_eth_rxseg_capa
  di_rx_offload_capa :: u64
  di_tx_offload_capa :: u64
  di_rx_queue_offload_capa :: u64
  di_tx_queue_offload_capa :: u64
  di_flow_type_rss_offloads :: u64
  di_default_rxconf :: rte_eth_rxconf
  di_default_txconf :: rte_eth_txconf
  di_rx_desc_lim :: rte_eth_desc_lim
  di_tx_desc_lim :: rte_eth_desc_lim
  di_nb_rx_queues :: u16
  di_nb_tx_queues :: u16
  di_default_rxportconf :: rte_eth_dev_portconf
  di_default_txportconf :: rte_eth_dev_portconf
  di_dev_capa :: u64

text \<open>The arrays of queue pointers: \<open>None\<close> until they are allocated. Bit-fields are booleans.\<close>

record rte_eth_dev_data =
  ed_rx_queues :: "addr list option"
  ed_tx_queues :: "addr list option"
  ed_nb_rx_queues :: u16
  ed_nb_tx_queues :: u16
  ed_dev_conf :: rte_eth_conf
  ed_mtu :: u16
  ed_min_rx_buf_size :: u32
  ed_mac_addrs :: "u8 list list"
  ed_mac_pool_sel :: "u64 list"
  ed_promiscuous :: bool
  ed_all_multicast :: bool
  ed_dev_started :: bool
  ed_dev_configured :: bool
  ed_rx_queue_state :: "u8 list"
  ed_tx_queue_state :: "u8 list"
  ed_dev_flags :: u32
  ed_numa_node :: int
  ed_owner_id :: u64

record 'b rte_eth_dev =
  dv_state :: rte_eth_dev_state
  dv_data :: rte_eth_dev_data
  dv_burst :: 'b
  dv_driver_name :: string

text \<open>
  A callback as ethdev sees it, and the callbacks of a driver; an absent one is the null
  pointer. \<open>dev_infos_get\<close> fills the structure it is given; \<open>is_removed\<close> only asks.
\<close>

type_synonym ('b, 'h) eth_callback = "'b rte_eth_dev \<Rightarrow> 'h \<Rightarrow> int \<times> 'b rte_eth_dev \<times> 'h"

record ('b, 'h) eth_dev_ops =
  do_dev_configure :: "('b, 'h) eth_callback option"
  do_dev_start :: "('b, 'h) eth_callback option"
  do_dev_stop :: "('b, 'h) eth_callback option"
  do_link_update :: "('b, 'h) eth_callback option"
  do_promiscuous_enable :: "('b, 'h) eth_callback option"
  do_promiscuous_disable :: "('b, 'h) eth_callback option"
  do_allmulticast_enable :: "('b, 'h) eth_callback option"
  do_allmulticast_disable :: "('b, 'h) eth_callback option"
  do_mac_addr_set :: "(u8 list \<Rightarrow> ('b, 'h) eth_callback) option"
  do_mac_addr_add :: "(u8 list \<Rightarrow> u32 \<Rightarrow> u32 \<Rightarrow> ('b, 'h) eth_callback) option"
  do_dev_infos_get :: "('b rte_eth_dev \<Rightarrow> 'h \<Rightarrow> rte_eth_dev_info \<Rightarrow> int \<times> rte_eth_dev_info) option"
  do_is_removed :: "('b rte_eth_dev \<Rightarrow> 'h \<Rightarrow> int) option"
  do_rx_queue_setup :: "(u16 \<Rightarrow> u16 \<Rightarrow> u32 \<Rightarrow> rte_eth_rxconf \<Rightarrow> addr \<Rightarrow> ('b, 'h) eth_callback) option"
  do_tx_queue_setup :: "(u16 \<Rightarrow> u16 \<Rightarrow> u32 \<Rightarrow> rte_eth_txconf \<Rightarrow> ('b, 'h) eth_callback) option"
  do_rx_queue_release :: "(u16 \<Rightarrow> ('b, 'h) eth_callback) option"
  do_tx_queue_release :: "(u16 \<Rightarrow> ('b, 'h) eth_callback) option"

text \<open>
  The fast path of a port: the burst functions in use (\<open>None\<close> are the dummy ones that only
  complain) and whether the queue pointers are those of the device.
\<close>

record 'b eth_fp_ops =
  fo_burst :: "'b option"
  fo_queues :: bool

text \<open>
  \<open>rte_eth_devices\<close>, the callbacks (set at probing), \<open>rte_eth_fp_ops\<close>, and the hardware.
  \<open>ew_zmalloc\<close> is whether the allocation of an array of queue pointers succeeds.
\<close>

record ('b, 'h) eth_world =
  ew_devices :: "'b rte_eth_dev list"
  ew_ops :: "('b, 'h) eth_dev_ops list"
  ew_fp_ops :: "'b eth_fp_ops list"
  ew_zmalloc :: "string \<Rightarrow> bool"
  ew_hw :: 'h

definition dev_of :: "('b, 'h) eth_world \<Rightarrow> u16 \<Rightarrow> 'b rte_eth_dev" where
  "dev_of w port_id = ew_devices w ! unat port_id"

abbreviation data_of :: "('b, 'h) eth_world \<Rightarrow> u16 \<Rightarrow> rte_eth_dev_data" where
  "data_of w port_id \<equiv> dv_data (dev_of w port_id)"

abbreviation ops_of :: "('b, 'h) eth_world \<Rightarrow> u16 \<Rightarrow> ('b, 'h) eth_dev_ops" where
  "ops_of w port_id \<equiv> ew_ops w ! unat port_id"

definition set_dev :: "('b, 'h) eth_world \<Rightarrow> u16 \<Rightarrow> 'b rte_eth_dev \<Rightarrow> ('b, 'h) eth_world" where
  "set_dev w port_id d = w\<lparr>ew_devices := (ew_devices w)[unat port_id := d]\<rparr>"

definition upd_data :: "('b, 'h) eth_world \<Rightarrow> u16 \<Rightarrow> (rte_eth_dev_data \<Rightarrow> rte_eth_dev_data) \<Rightarrow> ('b, 'h) eth_world" where
  "upd_data w port_id f = set_dev w port_id ((dev_of w port_id)\<lparr>dv_data := f (data_of w port_id)\<rparr>)"

text \<open>A call of a callback on the device of a port.\<close>

definition call_dev :: "('b, 'h) eth_callback \<Rightarrow> u16 \<Rightarrow> ('b, 'h) eth_world \<Rightarrow> int \<times> ('b, 'h) eth_world" where
  "call_dev cb port_id w =
     (let (ret, d, h) = cb (dev_of w port_id) (ew_hw w) in (ret, (set_dev w port_id d)\<lparr>ew_hw := h\<rparr>))"

section \<open>Ports\<close>

definition rte_eth_dev_is_valid_port :: "('b, 'h) eth_world \<Rightarrow> u16 \<Rightarrow> bool" where
  "rte_eth_dev_is_valid_port w port_id \<longleftrightarrow>
     \<not> (RTE_MAX_ETHPORTS \<le> port_id \<or> dv_state (dev_of w port_id) = RTE_ETH_DEV_UNUSED)"

lemma next_port_measure: "port_id < RTE_MAX_ETHPORTS \<Longrightarrow> 32 - unat (port_id + 1) < 32 - unat port_id"
  by (simp add: RTE_MAX_ETHPORTS_def word_less_nat_alt unat_add_nowrap unat_1)

function rte_eth_find_next :: "('b, 'h) eth_world \<Rightarrow> u16 \<Rightarrow> u16" where
  "rte_eth_find_next w port_id =
     (if port_id < RTE_MAX_ETHPORTS \<and> dv_state (dev_of w port_id) = RTE_ETH_DEV_UNUSED
      then rte_eth_find_next w (port_id + 1)
      else if RTE_MAX_ETHPORTS \<le> port_id then RTE_MAX_ETHPORTS
      else port_id)"
  by auto
termination
  by (relation "measure (\<lambda>(w, p). 32 - unat p)") (auto simp: next_port_measure)

declare rte_eth_find_next.simps [simp del]

lemma find_next_ge: "rte_eth_find_next w p = q \<Longrightarrow> p \<le> RTE_MAX_ETHPORTS \<Longrightarrow> p \<le> q \<and> q \<le> RTE_MAX_ETHPORTS"
proof (induction w p rule: rte_eth_find_next.induct)
  case (1 w p)
  show ?case
  proof (cases "p < RTE_MAX_ETHPORTS \<and> dv_state (dev_of w p) = RTE_ETH_DEV_UNUSED")
    case True
    then have s: "p + 1 \<le> RTE_MAX_ETHPORTS" "p \<le> p + 1" "rte_eth_find_next w (p + 1) = q"
      using 1(2) by (auto simp: rte_eth_find_next.simps [of w p] RTE_MAX_ETHPORTS_def word_less_nat_alt word_le_nat_alt
          unat_add_nowrap unat_1)
    from 1(1) [OF True s(3,1)] s(2) show ?thesis by auto
  next
    case False
    with 1(2,3) show ?thesis by (auto simp: rte_eth_find_next.simps [of w p] split: if_splits)
  qed
qed

text \<open>The loop over the ports whose owner is not the one looked for.\<close>

function find_next_owned :: "('b, 'h) eth_world \<Rightarrow> u16 \<Rightarrow> u64 \<Rightarrow> u16" where
  "find_next_owned w port_id owner_id =
     (if port_id < RTE_MAX_ETHPORTS \<and> ed_owner_id (data_of w port_id) \<noteq> owner_id
      then find_next_owned w (rte_eth_find_next w (port_id + 1)) owner_id
      else port_id)"
  by auto
termination
proof (relation "measure (\<lambda>(w, p, o'). 32 - unat p)", goal_cases)
  case (2 w p o')
  then have p: "p < RTE_MAX_ETHPORTS" by simp
  then have "p + 1 \<le> RTE_MAX_ETHPORTS"
    by (simp add: RTE_MAX_ETHPORTS_def word_less_nat_alt word_le_nat_alt unat_add_nowrap unat_1)
  from find_next_ge [OF refl this, of w] next_port_measure [OF p] show ?case
    by (simp add: word_le_nat_alt; linarith)
qed simp

declare find_next_owned.simps [simp del]

definition rte_eth_find_next_owned_by :: "('b, 'h) eth_world \<Rightarrow> u16 \<Rightarrow> u64 \<Rightarrow> u16" where
  "rte_eth_find_next_owned_by w port_id owner_id = find_next_owned w (rte_eth_find_next w port_id) owner_id"

definition rte_eth_dev_socket_id :: "('b, 'h) eth_world \<Rightarrow> u16 \<Rightarrow> int" where
  "rte_eth_dev_socket_id w port_id = (if rte_eth_dev_is_valid_port w port_id then ed_numa_node (data_of w port_id) else - 1)"

text \<open>\<open>RTE_ETH_FOREACH_DEV\<close> with a counter.\<close>

function count_devs :: "('b, 'h) eth_world \<Rightarrow> u16 \<Rightarrow> u16 \<Rightarrow> u16" where
  "count_devs w p cnt =
     (if p < RTE_MAX_ETHPORTS
      then count_devs w (rte_eth_find_next_owned_by w (p + 1) RTE_ETH_DEV_NO_OWNER) (cnt + 1)
      else cnt)"
  by auto

lemma find_next_owned_ge:
  "find_next_owned w p o' = q \<Longrightarrow> p \<le> RTE_MAX_ETHPORTS \<Longrightarrow> p \<le> q \<and> q \<le> RTE_MAX_ETHPORTS"
proof (induction w p o' rule: find_next_owned.induct)
  case (1 w p o')
  show ?case
  proof (cases "p < RTE_MAX_ETHPORTS \<and> ed_owner_id (data_of w p) \<noteq> o'")
    case True
    then have s: "p + 1 \<le> RTE_MAX_ETHPORTS" "p \<le> p + 1"
      by (simp_all add: RTE_MAX_ETHPORTS_def word_less_nat_alt word_le_nat_alt unat_add_nowrap unat_1)
    note n = find_next_ge [OF refl s(1), of w]
    have "find_next_owned w (rte_eth_find_next w (p + 1)) o' = q"
      using 1(2) True by (simp add: find_next_owned.simps [of w p])
    from 1(1) [OF True this] n s(2) show ?thesis by auto
  next
    case False
    with 1(2,3) show ?thesis by (auto simp: find_next_owned.simps [of w p] split: if_splits)
  qed
qed

termination count_devs
proof (relation "measure (\<lambda>(w, p, c). 32 - unat p)", goal_cases)
  case (2 w p c)
  then have p: "p + 1 \<le> RTE_MAX_ETHPORTS"
    by (simp add: RTE_MAX_ETHPORTS_def word_less_nat_alt word_le_nat_alt unat_add_nowrap unat_1)
  from find_next_ge [OF refl p, of w]
  have "p + 1 \<le> rte_eth_find_next w (p + 1)" "rte_eth_find_next w (p + 1) \<le> RTE_MAX_ETHPORTS" by simp_all
  with find_next_owned_ge [OF refl this(2), of w RTE_ETH_DEV_NO_OWNER]
  have "p + 1 \<le> rte_eth_find_next_owned_by w (p + 1) RTE_ETH_DEV_NO_OWNER"
    by (auto simp: rte_eth_find_next_owned_by_def)
  with next_port_measure [of p] 2 show ?case by (simp add: word_le_nat_alt; linarith)
qed simp

declare count_devs.simps [simp del]

definition rte_eth_dev_count_avail :: "('b, 'h) eth_world \<Rightarrow> u16" where
  "rte_eth_dev_count_avail w = count_devs w (rte_eth_find_next_owned_by w 0 RTE_ETH_DEV_NO_OWNER) 0"

end
