(* ===== verification/Ethdev_Control.thy ===== *)
theory Ethdev_Control
  imports Ethdev
begin

text \<open>
  The calls an application makes to bring up a port: information, configuration with its
  rollback, queue set-up, start, stop and promiscuous mode.
\<close>

section \<open>Errors of a driver\<close>

text \<open>Asking whether a device has been unplugged may mark it as removed.\<close>

definition rte_eth_dev_is_removed :: "('b, 'h) eth_world \<Rightarrow> u16 \<Rightarrow> int \<times> ('b, 'h) eth_world" where
  "rte_eth_dev_is_removed w port_id =
     (if \<not> rte_eth_dev_is_valid_port w port_id then (0, w)
      else if dv_state (dev_of w port_id) = RTE_ETH_DEV_REMOVED then (1, w)
      else case do_is_removed (ops_of w port_id) of
             None \<Rightarrow> (0, w)
           | Some is_removed \<Rightarrow>
               let ret = is_removed (dev_of w port_id) (ew_hw w)
               in (ret, if ret \<noteq> 0 then set_dev w port_id ((dev_of w port_id)\<lparr>dv_state := RTE_ETH_DEV_REMOVED\<rparr>) else w))"

definition eth_err :: "u16 \<Rightarrow> int \<Rightarrow> ('b, 'h) eth_world \<Rightarrow> int \<times> ('b, 'h) eth_world" where
  "eth_err port_id ret w =
     (if ret = 0 then (0, w)
      else let (removed, w) = rte_eth_dev_is_removed w port_id in (if removed \<noteq> 0 then - EIO else ret, w))"

section \<open>Device information\<close>

definition zero_desc_lim :: rte_eth_desc_lim where
  "zero_desc_lim = \<lparr>dl_nb_max = 0, dl_nb_min = 0, dl_nb_align = 0, dl_nb_seg_max = 0, dl_nb_mtu_seg_max = 0\<rparr>"

definition zero_dev_info :: rte_eth_dev_info where
  "zero_dev_info = \<lparr>di_driver_name = [], di_min_mtu = 0, di_max_mtu = 0, di_min_rx_bufsize = 0, di_max_rx_pktlen = 0,
     di_max_lro_pkt_size = 0, di_max_rx_queues = 0, di_max_tx_queues = 0, di_max_mac_addrs = 0,
     di_rx_seg_capa = \<lparr>sc_multi_pools = False, sc_offset_allowed = False, sc_offset_align_log2 = 0, sc_max_nseg = 0\<rparr>,
     di_rx_offload_capa = 0, di_tx_offload_capa = 0, di_rx_queue_offload_capa = 0, di_tx_queue_offload_capa = 0,
     di_flow_type_rss_offloads = 0,
     di_default_rxconf = \<lparr>rc_free_thresh = 0, rc_drop_en = 0, rc_nseg = 0, rc_share_group = 0, rc_offloads = 0, rc_seg = None\<rparr>,
     di_default_txconf = \<lparr>tc_rs_thresh = 0, tc_free_thresh = 0, tc_offloads = 0\<rparr>,
     di_rx_desc_lim = zero_desc_lim, di_tx_desc_lim = zero_desc_lim, di_nb_rx_queues = 0, di_nb_tx_queues = 0,
     di_default_rxportconf = \<lparr>pc_burst_size = 0, pc_ring_size = 0, pc_nb_queues = 0\<rparr>,
     di_default_txportconf = \<lparr>pc_burst_size = 0, pc_ring_size = 0, pc_nb_queues = 0\<rparr>, di_dev_capa = 0\<rparr>"

definition default_desc_lim :: rte_eth_desc_lim where
  "default_desc_lim = \<lparr>dl_nb_max = 0xffff, dl_nb_min = 0, dl_nb_align = 1, dl_nb_seg_max = 0xffff, dl_nb_mtu_seg_max = 0xffff\<rparr>"

text \<open>What the driver is given to fill.\<close>

definition init_dev_info :: rte_eth_dev_info where
  "init_dev_info = zero_dev_info\<lparr>di_rx_desc_lim := default_desc_lim, di_tx_desc_lim := default_desc_lim,
     di_min_mtu := ucast (RTE_ETHER_MIN_LEN - RTE_ETHER_HDR_LEN - RTE_ETHER_CRC_LEN), di_max_mtu := 0xffff\<rparr>"

text \<open>\<open>dev_info\<close> is the caller's structure, untouched if the port is not valid.\<close>

definition rte_eth_dev_info_get ::
  "('b, 'h) eth_world \<Rightarrow> u16 \<Rightarrow> rte_eth_dev_info \<Rightarrow> int \<times> rte_eth_dev_info \<times> ('b, 'h) eth_world" where
  "rte_eth_dev_info_get w port_id dev_info =
     (if \<not> rte_eth_dev_is_valid_port w port_id then (- ENODEV, dev_info, w)
      else case do_dev_infos_get (ops_of w port_id) of
             None \<Rightarrow> (- ENOTSUP, init_dev_info, w)
           | Some dev_infos_get \<Rightarrow>
               let (diag, dev_info) = dev_infos_get (dev_of w port_id) (ew_hw w) init_dev_info
               in if diag \<noteq> 0 then let (ret, w) = eth_err port_id diag w in (ret, zero_dev_info, w)
                  else (0, dev_info\<lparr>di_max_rx_queues := min (di_max_rx_queues dev_info) RTE_MAX_QUEUES_PER_PORT,
                                   di_max_tx_queues := min (di_max_tx_queues dev_info) RTE_MAX_QUEUES_PER_PORT,
                                   di_driver_name := dv_driver_name (dev_of w port_id),
                                   di_nb_rx_queues := ed_nb_rx_queues (data_of w port_id),
                                   di_nb_tx_queues := ed_nb_tx_queues (data_of w port_id)\<rparr>, w))"

section \<open>Arrays of queues\<close>

text \<open>A queue is released if its pointer is set; identifiers are below the length of the array.\<close>

definition queue_at :: "addr list option \<Rightarrow> u16 \<Rightarrow> addr" where
  "queue_at qs qid = (case qs of None \<Rightarrow> NULL | Some qs \<Rightarrow> if unat qid < length qs then qs ! unat qid else NULL)"

definition clear_queue :: "addr list option \<Rightarrow> u16 \<Rightarrow> addr list option" where
  "clear_queue qs qid = map_option (\<lambda>qs. qs[unat qid := NULL]) qs"

definition eth_dev_rxq_release :: "u16 \<Rightarrow> u16 \<Rightarrow> ('b, 'h) eth_world \<Rightarrow> ('b, 'h) eth_world" where
  "eth_dev_rxq_release port_id qid w =
     (if queue_at (ed_rx_queues (data_of w port_id)) qid = NULL then w
      else
        let w = (case do_rx_queue_release (ops_of w port_id) of
                   None \<Rightarrow> w | Some release \<Rightarrow> snd (call_dev (release qid) port_id w))
        in upd_data w port_id (\<lambda>d. d\<lparr>ed_rx_queues := clear_queue (ed_rx_queues d) qid\<rparr>))"

definition eth_dev_txq_release :: "u16 \<Rightarrow> u16 \<Rightarrow> ('b, 'h) eth_world \<Rightarrow> ('b, 'h) eth_world" where
  "eth_dev_txq_release port_id qid w =
     (if queue_at (ed_tx_queues (data_of w port_id)) qid = NULL then w
      else
        let w = (case do_tx_queue_release (ops_of w port_id) of
                   None \<Rightarrow> w | Some release \<Rightarrow> snd (call_dev (release qid) port_id w))
        in upd_data w port_id (\<lambda>d. d\<lparr>ed_tx_queues := clear_queue (ed_tx_queues d) qid\<rparr>))"

text \<open>The identifiers from \<open>a\<close> to below \<open>b\<close>.\<close>

definition qids :: "u16 \<Rightarrow> u16 \<Rightarrow> u16 list" where
  "qids a b = map of_nat [unat a..<unat b]"

definition eth_dev_rx_queue_config :: "u16 \<Rightarrow> u16 \<Rightarrow> ('b, 'h) eth_world \<Rightarrow> int \<times> ('b, 'h) eth_world" where
  "eth_dev_rx_queue_config port_id nb_queues w =
     (let old_nb_queues = ed_nb_rx_queues (data_of w port_id);
          set_nb = (\<lambda>w. upd_data w port_id (\<lambda>d. d\<lparr>ed_nb_rx_queues := nb_queues\<rparr>))
      in case ed_rx_queues (data_of w port_id) of
           None \<Rightarrow>
             if nb_queues \<noteq> 0 then
               (if \<not> ew_zmalloc w ''ethdev->rx_queues''
                then (- ENOMEM, upd_data w port_id (\<lambda>d. d\<lparr>ed_nb_rx_queues := 0\<rparr>))
                else (0, set_nb (upd_data w port_id
                       (\<lambda>d. d\<lparr>ed_rx_queues := Some (replicate (unat RTE_MAX_QUEUES_PER_PORT) NULL)\<rparr>))))
             else (0, set_nb w)
         | Some _ \<Rightarrow>
             let w = fold (eth_dev_rxq_release port_id) (qids nb_queues old_nb_queues) w
             in if nb_queues \<noteq> 0 then (0, set_nb w)
                else (0, set_nb (upd_data w port_id (\<lambda>d. d\<lparr>ed_rx_queues := None\<rparr>))))"

definition eth_dev_tx_queue_config :: "u16 \<Rightarrow> u16 \<Rightarrow> ('b, 'h) eth_world \<Rightarrow> int \<times> ('b, 'h) eth_world" where
  "eth_dev_tx_queue_config port_id nb_queues w =
     (let old_nb_queues = ed_nb_tx_queues (data_of w port_id);
          set_nb = (\<lambda>w. upd_data w port_id (\<lambda>d. d\<lparr>ed_nb_tx_queues := nb_queues\<rparr>))
      in case ed_tx_queues (data_of w port_id) of
           None \<Rightarrow>
             if nb_queues \<noteq> 0 then
               (if \<not> ew_zmalloc w ''ethdev->tx_queues''
                then (- ENOMEM, upd_data w port_id (\<lambda>d. d\<lparr>ed_nb_tx_queues := 0\<rparr>))
                else (0, set_nb (upd_data w port_id
                       (\<lambda>d. d\<lparr>ed_tx_queues := Some (replicate (unat RTE_MAX_QUEUES_PER_PORT) NULL)\<rparr>))))
             else (0, set_nb w)
         | Some _ \<Rightarrow>
             let w = fold (eth_dev_txq_release port_id) (qids nb_queues old_nb_queues) w
             in if nb_queues \<noteq> 0 then (0, set_nb w)
                else (0, set_nb (upd_data w port_id (\<lambda>d. d\<lparr>ed_tx_queues := None\<rparr>))))"

section \<open>Checks of a configuration\<close>

definition eth_dev_check_lro_pkt_size :: "u32 \<Rightarrow> u32 \<Rightarrow> u32 \<Rightarrow> int" where
  "eth_dev_check_lro_pkt_size config_size max_rx_pkt_len dev_info_size =
     (if dev_info_size = 0 then (if config_size \<noteq> max_rx_pkt_len then - EINVAL else 0)
      else if dev_info_size < config_size then - EINVAL
      else if config_size < RTE_ETHER_MIN_LEN then - EINVAL
      else 0)"

text \<open>\<open>__builtin_ctzll\<close>, for an argument that is not 0.\<close>

definition ctz64 :: "u64 \<Rightarrow> nat" where
  "ctz64 x = length (takeWhile (\<lambda>i. \<not> bit x i) [0..<64])"

lemma bit_ctz64: "x \<noteq> 0 \<Longrightarrow> bit x (ctz64 x)"
proof -
  assume "x \<noteq> 0"
  then obtain n where n: "bit x n" by (auto simp: bit_eq_iff)
  then have "n < 64" by (simp add: bit_imp_le_length [where 'a = 64, simplified])
  have "ctz64 x < length [0..<64]"
  proof (rule ccontr)
    assume "\<not> ctz64 x < length [0..<64]"
    with length_takeWhile_le [of "\<lambda>i. \<not> bit x i" "[0..<64]"] have "length (takeWhile (\<lambda>i. \<not> bit x i) [0..<64]) = length [0..<64]"
      by (simp add: ctz64_def)
    then have "takeWhile (\<lambda>i. \<not> bit x i) [0..<64] = [0..<64]" by (metis takeWhile_eq_take take_all order_refl)
    then have "\<not> bit x n" using \<open>n < 64\<close> by (simp add: takeWhile_eq_all_conv)
    with n show False by simp
  qed
  with nth_length_takeWhile [of "\<lambda>i. \<not> bit x i" "[0..<64]"] show ?thesis by (simp add: ctz64_def)
qed

lemma clear_bit_less:
  fixes x :: u64
  assumes "bit x n"
  shows "x AND NOT (2 ^ n) < x"
proof -
  have p: "push_bit n 1 = (2 :: u64) ^ n" by (simp add: push_bit_eq_mult)
  have "x AND NOT (push_bit n 1) \<noteq> x"
  proof
    assume e: "x AND NOT (push_bit n 1) = x"
    have "n < 64" using assms by (simp add: bit_imp_le_length [where 'a = 64, simplified])
    then have "\<not> bit (x AND NOT (push_bit n 1)) n" by (simp add: bit_simps)
    with e assms show False by simp
  qed
  moreover have "x AND NOT (push_bit n 1) \<le> x" by (rule word_and_le2)
  ultimately show ?thesis by (simp add: p)
qed

text \<open>The loop over the bits in which requested and set offloads differ, lowest first.\<close>

function validate_offloads_loop :: "u64 \<Rightarrow> u64 \<Rightarrow> int \<Rightarrow> int" where
  "validate_offloads_loop req_offloads offloads_diff ret =
     (if offloads_diff = 0 then ret
      else
        let offload = push_bit (ctz64 offloads_diff) 1
        in validate_offloads_loop req_offloads (offloads_diff AND NOT offload)
             (if offload AND req_offloads \<noteq> 0 then - EINVAL else ret))"
  by auto
termination
  by (relation "measure (\<lambda>(r, d, c). unat d)") (simp_all add: clear_bit_less bit_ctz64 flip: word_less_nat_alt)

declare validate_offloads_loop.simps [simp del]

definition eth_dev_validate_offloads :: "u64 \<Rightarrow> u64 \<Rightarrow> int" where
  "eth_dev_validate_offloads req_offloads set_offloads =
     validate_offloads_loop req_offloads (req_offloads XOR set_offloads) 0"

text \<open>The loop finds out whether a requested offload has not been set.\<close>

lemma validate_offloads_loop_spec:
  "validate_offloads_loop r d c = (if r AND d = 0 then c else - EINVAL)"
proof (induction r d c rule: validate_offloads_loop.induct)
  case (1 r d c)
  show ?case
  proof (cases "d = 0")
    case True
    then show ?thesis by (subst validate_offloads_loop.simps) simp
  next
    case False
    let ?o = "push_bit (ctz64 d) 1 :: u64"
    have b: "bit d (ctz64 d)" by (rule bit_ctz64 [OF False])
    then have l: "ctz64 d < 64" by (simp add: bit_imp_le_length [where 'a = 64, simplified])
    have o: "?o AND r \<noteq> 0 \<longleftrightarrow> bit r (ctz64 d)"
      using l by (auto simp: bit_eq_iff [where 'a = u64] bit_simps)
    have "r AND d = 0 \<longleftrightarrow> \<not> bit r (ctz64 d) \<and> r AND (d AND NOT ?o) = 0"
      using b l by (auto simp: bit_eq_iff [where 'a = u64] bit_simps)
    then show ?thesis
      using 1 [OF False refl] False o by (subst validate_offloads_loop.simps) (auto simp: Let_def)
  qed
qed

lemma eth_dev_validate_offloads_spec:
  "eth_dev_validate_offloads r s = (if r AND NOT s = 0 then 0 else - EINVAL)"
proof -
  have "r AND (r XOR s) = r AND NOT s" by (auto simp: bit_eq_iff bit_simps dest: bit_imp_le_length)
  then show ?thesis by (simp add: eth_dev_validate_offloads_def validate_offloads_loop_spec)
qed

definition eth_dev_get_overhead_len :: "u32 \<Rightarrow> u16 \<Rightarrow> u32" where
  "eth_dev_get_overhead_len max_rx_pktlen max_mtu =
     (if max_mtu \<noteq> 0xffff \<and> ucast max_mtu < max_rx_pktlen then max_rx_pktlen - ucast max_mtu
      else RTE_ETHER_HDR_LEN + RTE_ETHER_CRC_LEN)"

definition eth_dev_validate_mtu :: "rte_eth_dev_info \<Rightarrow> u16 \<Rightarrow> int" where
  "eth_dev_validate_mtu dev_info mtu =
     (if mtu < di_min_mtu dev_info then - EINVAL
      else if di_max_mtu dev_info < mtu then - EINVAL
      else
        let overhead_len = eth_dev_get_overhead_len (di_max_rx_pktlen dev_info) (di_max_mtu dev_info);
            frame_size = ucast mtu + overhead_len
        in if frame_size < RTE_ETHER_MIN_LEN then - EINVAL
           else if di_max_rx_pktlen dev_info < frame_size then - EINVAL
           else 0)"

definition rte_eth_rss_hf_refine :: "u64 \<Rightarrow> u64" where
  "rte_eth_rss_hf_refine rss_hf =
     (let rss_hf = (if rss_hf AND RTE_ETH_RSS_L3_SRC_ONLY \<noteq> 0 \<and> rss_hf AND RTE_ETH_RSS_L3_DST_ONLY \<noteq> 0
                    then rss_hf AND NOT (RTE_ETH_RSS_L3_SRC_ONLY OR RTE_ETH_RSS_L3_DST_ONLY) else rss_hf)
      in if rss_hf AND RTE_ETH_RSS_L4_SRC_ONLY \<noteq> 0 \<and> rss_hf AND RTE_ETH_RSS_L4_DST_ONLY \<noteq> 0
         then rss_hf AND NOT (RTE_ETH_RSS_L4_SRC_ONLY OR RTE_ETH_RSS_L4_DST_ONLY) else rss_hf)"

section \<open>Configuration\<close>

text \<open>
  \<open>rte_eth_dev_configure\<close> in three parts. \<open>configure_numbers\<close> are the queue numbers after the
  defaults; \<open>configure_check\<close> makes the checks, which also complete the stored configuration,
  and ends with the first error.
\<close>

definition configure_numbers :: "rte_eth_dev_info \<Rightarrow> u16 \<Rightarrow> u16 \<Rightarrow> u16 \<times> u16" where
  "configure_numbers dev_info nb_rx_q nb_tx_q =
     (if nb_rx_q = 0 \<and> nb_tx_q = 0
      then (let rx = pc_nb_queues (di_default_rxportconf dev_info);
                tx = pc_nb_queues (di_default_txportconf dev_info)
            in (if rx = 0 then RTE_ETH_DEV_FALLBACK_RX_NBQUEUES else rx,
                if tx = 0 then RTE_ETH_DEV_FALLBACK_TX_NBQUEUES else tx))
      else (nb_rx_q, nb_tx_q))"

definition configure_check ::
  "rte_eth_dev_info \<Rightarrow> u16 \<Rightarrow> u16 \<Rightarrow> rte_eth_conf \<Rightarrow> rte_eth_dev_data \<Rightarrow> int \<times> rte_eth_dev_data" where
  "configure_check dev_info nb_rx_q nb_tx_q dev_conf d =
     (if RTE_MAX_QUEUES_PER_PORT < nb_rx_q then (- EINVAL, d)
      else if RTE_MAX_QUEUES_PER_PORT < nb_tx_q then (- EINVAL, d)
      else if di_max_rx_queues dev_info < nb_rx_q then (- EINVAL, d)
      else if di_max_tx_queues dev_info < nb_tx_q then (- EINVAL, d)
      else if ec_lsc dev_conf \<and> ed_dev_flags d AND RTE_ETH_DEV_INTR_LSC = 0 then (- EINVAL, d)
      else if ec_rmv dev_conf \<and> ed_dev_flags d AND RTE_ETH_DEV_INTR_RMV = 0 then (- EINVAL, d)
      else
        let d = (if ec_rx_mtu dev_conf = 0 then d\<lparr>ed_dev_conf := (ed_dev_conf d)\<lparr>ec_rx_mtu := RTE_ETHER_MTU\<rparr>\<rparr> else d);
            ret = eth_dev_validate_mtu dev_info (ucast (ec_rx_mtu (ed_dev_conf d)))
        in if ret \<noteq> 0 then (ret, d)
           else
             let d = d\<lparr>ed_mtu := ucast (ec_rx_mtu (ed_dev_conf d))\<rparr>;
                 lro = (ec_rx_offloads dev_conf AND RTE_ETH_RX_OFFLOAD_TCP_LRO \<noteq> 0);
                 max_rx_pktlen = ec_rx_mtu (ed_dev_conf d)
                   + eth_dev_get_overhead_len (di_max_rx_pktlen dev_info) (di_max_mtu dev_info);
                 d = (if lro \<and> ec_max_lro_pkt_size dev_conf = 0
                      then d\<lparr>ed_dev_conf := (ed_dev_conf d)\<lparr>ec_max_lro_pkt_size := max_rx_pktlen\<rparr>\<rparr> else d);
                 ret = (if lro then eth_dev_check_lro_pkt_size (ec_max_lro_pkt_size (ed_dev_conf d)) max_rx_pktlen
                                      (di_max_lro_pkt_size dev_info) else 0)
             in if ret \<noteq> 0 then (ret, d)
                else if ec_rx_offloads dev_conf AND di_rx_offload_capa dev_info \<noteq> ec_rx_offloads dev_conf then (- EINVAL, d)
                else if ec_tx_offloads dev_conf AND di_tx_offload_capa dev_info \<noteq> ec_tx_offloads dev_conf then (- EINVAL, d)
                else
                  let d = d\<lparr>ed_dev_conf := (ed_dev_conf d)\<lparr>ec_rss_hf := rte_eth_rss_hf_refine (ec_rss_hf dev_conf)\<rparr>\<rparr>
                  in if di_flow_type_rss_offloads dev_info OR ec_rss_hf dev_conf \<noteq> di_flow_type_rss_offloads dev_info
                     then (- EINVAL, d)
                     else if ec_rx_mq_mode dev_conf AND RTE_ETH_MQ_RX_RSS_FLAG = 0 \<and>
                        ec_rx_offloads dev_conf AND RTE_ETH_RX_OFFLOAD_RSS_HASH \<noteq> 0 then (- EINVAL, d)
                     else (0, d))"

text \<open>
  The queues, the driver, and the check of what the driver has set; the labels
  \<open>reset_queues\<close> and \<open>rollback\<close> are the two ways out on an error. Profiling is compiled out.
\<close>

definition configure_rollback ::
  "u16 \<Rightarrow> rte_eth_conf \<Rightarrow> u16 \<Rightarrow> int \<Rightarrow> ('b, 'h) eth_world \<Rightarrow> int \<times> ('b, 'h) eth_world" where
  "configure_rollback port_id orig_conf old_mtu ret w =
     (ret, upd_data w port_id (\<lambda>d. let d = d\<lparr>ed_dev_conf := orig_conf\<rparr>
                                   in if old_mtu \<noteq> ed_mtu d then d\<lparr>ed_mtu := old_mtu\<rparr> else d))"

definition configure_reset_queues :: "u16 \<Rightarrow> ('b, 'h) eth_world \<Rightarrow> ('b, 'h) eth_world" where
  "configure_reset_queues port_id w =
     snd (eth_dev_tx_queue_config port_id 0 (snd (eth_dev_rx_queue_config port_id 0 w)))"

definition configure_device ::
  "u16 \<Rightarrow> ('b, 'h) eth_callback \<Rightarrow> u16 \<Rightarrow> u16 \<Rightarrow> rte_eth_conf \<Rightarrow> ('b, 'h) eth_world \<Rightarrow> int \<times> ('b, 'h) eth_world" where
  "configure_device port_id dev_configure nb_rx_q nb_tx_q dev_conf w =
     (let (diag, w) = eth_dev_rx_queue_config port_id nb_rx_q w
      in if diag \<noteq> 0 then (diag, w)
      else let (diag, w) = eth_dev_tx_queue_config port_id nb_tx_q w
      in if diag \<noteq> 0 then (diag, snd (eth_dev_rx_queue_config port_id 0 w))
      else let (diag, w) = call_dev dev_configure port_id w
      in if diag \<noteq> 0 then let (ret, w) = eth_err port_id diag w in (ret, configure_reset_queues port_id w)
      else let diag = eth_dev_validate_offloads (ec_rx_offloads dev_conf) (ec_rx_offloads (ed_dev_conf (data_of w port_id)))
      in if diag \<noteq> 0 then (diag, configure_reset_queues port_id w)
      else let diag = eth_dev_validate_offloads (ec_tx_offloads dev_conf) (ec_tx_offloads (ed_dev_conf (data_of w port_id)))
      in if diag \<noteq> 0 then (diag, configure_reset_queues port_id w)
      else (0, w))"

text \<open>The caller's configuration is not the one stored in the device.\<close>

definition rte_eth_dev_configure ::
  "('b, 'h) eth_world \<Rightarrow> u16 \<Rightarrow> u16 \<Rightarrow> u16 \<Rightarrow> rte_eth_conf option \<Rightarrow> int \<times> ('b, 'h) eth_world" where
  "rte_eth_dev_configure w port_id nb_rx_q nb_tx_q dev_conf =
     (if \<not> rte_eth_dev_is_valid_port w port_id then (- ENODEV, w)
      else case dev_conf of
        None \<Rightarrow> (- EINVAL, w)
      | Some dev_conf \<Rightarrow>
      (case do_dev_configure (ops_of w port_id) of
        None \<Rightarrow> (- ENOTSUP, w)
      | Some dev_configure \<Rightarrow>
        if ed_dev_started (data_of w port_id) then (- EBUSY, w)
        else
          let w = upd_data w port_id (\<lambda>d. d\<lparr>ed_dev_configured := False\<rparr>);
              orig_conf = ed_dev_conf (data_of w port_id);
              w = upd_data w port_id (\<lambda>d. d\<lparr>ed_dev_conf := dev_conf\<rparr>);
              old_mtu = ed_mtu (data_of w port_id);
              (ret, dev_info, w) = rte_eth_dev_info_get w port_id zero_dev_info
          in if ret \<noteq> 0 then configure_rollback port_id orig_conf old_mtu ret w
          else
            let (nb_rx_q, nb_tx_q) = configure_numbers dev_info nb_rx_q nb_tx_q;
                (ret, d) = configure_check dev_info nb_rx_q nb_tx_q dev_conf (data_of w port_id);
                w = upd_data w port_id (\<lambda>_. d)
            in if ret \<noteq> 0 then configure_rollback port_id orig_conf old_mtu ret w
            else
              let (ret, w) = configure_device port_id dev_configure nb_rx_q nb_tx_q dev_conf w
              in if ret \<noteq> 0 then configure_rollback port_id orig_conf old_mtu ret w
                 else (0, upd_data w port_id (\<lambda>d. d\<lparr>ed_dev_configured := True\<rparr>))))"

section \<open>Modes and addresses\<close>

definition rte_eth_promiscuous_enable :: "('b, 'h) eth_world \<Rightarrow> u16 \<Rightarrow> int \<times> ('b, 'h) eth_world" where
  "rte_eth_promiscuous_enable w port_id =
     (if \<not> rte_eth_dev_is_valid_port w port_id then (- ENODEV, w)
      else if ed_promiscuous (data_of w port_id) then (0, w)
      else case do_promiscuous_enable (ops_of w port_id) of
             None \<Rightarrow> (- ENOTSUP, w)
           | Some enable \<Rightarrow>
               let (diag, w) = call_dev enable port_id w;
                   w = upd_data w port_id (\<lambda>d. d\<lparr>ed_promiscuous := (diag = 0)\<rparr>)
               in eth_err port_id diag w)"

definition rte_eth_promiscuous_disable :: "('b, 'h) eth_world \<Rightarrow> u16 \<Rightarrow> int \<times> ('b, 'h) eth_world" where
  "rte_eth_promiscuous_disable w port_id =
     (if \<not> rte_eth_dev_is_valid_port w port_id then (- ENODEV, w)
      else if \<not> ed_promiscuous (data_of w port_id) then (0, w)
      else case do_promiscuous_disable (ops_of w port_id) of
             None \<Rightarrow> (- ENOTSUP, w)
           | Some disable \<Rightarrow>
               let w = upd_data w port_id (\<lambda>d. d\<lparr>ed_promiscuous := False\<rparr>);
                   (diag, w) = call_dev disable port_id w;
                   w = (if diag \<noteq> 0 then upd_data w port_id (\<lambda>d. d\<lparr>ed_promiscuous := True\<rparr>) else w)
               in eth_err port_id diag w)"

definition rte_eth_promiscuous_get :: "('b, 'h) eth_world \<Rightarrow> u16 \<Rightarrow> int" where
  "rte_eth_promiscuous_get w port_id =
     (if \<not> rte_eth_dev_is_valid_port w port_id then - ENODEV else of_bool (ed_promiscuous (data_of w port_id)))"

definition rte_eth_allmulticast_enable :: "('b, 'h) eth_world \<Rightarrow> u16 \<Rightarrow> int \<times> ('b, 'h) eth_world" where
  "rte_eth_allmulticast_enable w port_id =
     (if \<not> rte_eth_dev_is_valid_port w port_id then (- ENODEV, w)
      else if ed_all_multicast (data_of w port_id) then (0, w)
      else case do_allmulticast_enable (ops_of w port_id) of
             None \<Rightarrow> (- ENOTSUP, w)
           | Some enable \<Rightarrow>
               let (diag, w) = call_dev enable port_id w;
                   w = upd_data w port_id (\<lambda>d. d\<lparr>ed_all_multicast := (diag = 0)\<rparr>)
               in eth_err port_id diag w)"

definition rte_eth_allmulticast_disable :: "('b, 'h) eth_world \<Rightarrow> u16 \<Rightarrow> int \<times> ('b, 'h) eth_world" where
  "rte_eth_allmulticast_disable w port_id =
     (if \<not> rte_eth_dev_is_valid_port w port_id then (- ENODEV, w)
      else if \<not> ed_all_multicast (data_of w port_id) then (0, w)
      else case do_allmulticast_disable (ops_of w port_id) of
             None \<Rightarrow> (- ENOTSUP, w)
           | Some disable \<Rightarrow>
               let w = upd_data w port_id (\<lambda>d. d\<lparr>ed_all_multicast := False\<rparr>);
                   (diag, w) = call_dev disable port_id w;
                   w = (if diag \<noteq> 0 then upd_data w port_id (\<lambda>d. d\<lparr>ed_all_multicast := True\<rparr>) else w)
               in eth_err port_id diag w)"

definition rte_eth_allmulticast_get :: "('b, 'h) eth_world \<Rightarrow> u16 \<Rightarrow> int" where
  "rte_eth_allmulticast_get w port_id =
     (if \<not> rte_eth_dev_is_valid_port w port_id then - ENODEV else of_bool (ed_all_multicast (data_of w port_id)))"

definition rte_eth_macaddr_get :: "('b, 'h) eth_world \<Rightarrow> u16 \<Rightarrow> int \<times> u8 list option" where
  "rte_eth_macaddr_get w port_id =
     (if \<not> rte_eth_dev_is_valid_port w port_id then (- ENODEV, None)
      else (0, Some (ed_mac_addrs (data_of w port_id) ! 0)))"

definition rte_is_zero_ether_addr :: "u8 list \<Rightarrow> bool" where
  "rte_is_zero_ether_addr ea \<longleftrightarrow> (\<forall>b \<in> set ea. b = 0)"

text \<open>
  The loop over the pools of a MAC address: a \<open>do\<close> loop that shifts the mask until it is 0.
  The results of the calls are ignored.
\<close>

lemma drop_bit_1_less: "(m :: u64) \<noteq> 0 \<Longrightarrow> drop_bit 1 m < m"
proof -
  assume "m \<noteq> 0"
  then have "0 < unat m" by (simp add: unat_gt_0)
  then show ?thesis by (simp add: word_less_nat_alt unat_drop_bit_eq del: unat_gt_0, simp add: drop_bit_eq_div)
qed

function mac_pools_restore ::
  "(u8 list \<Rightarrow> u32 \<Rightarrow> u32 \<Rightarrow> ('b, 'h) eth_callback) \<Rightarrow> u16 \<Rightarrow> u8 list \<Rightarrow> nat \<Rightarrow> u64 \<Rightarrow> u32 \<Rightarrow> ('b, 'h) eth_world
   \<Rightarrow> ('b, 'h) eth_world" where
  "mac_pools_restore add port_id addr i pool_mask pool w =
     (let w = (if pool_mask AND 1 \<noteq> 0 then snd (call_dev (add addr (of_nat i) pool) port_id w) else w);
          pool_mask' = drop_bit 1 pool_mask
      in if pool_mask' = 0 then w else mac_pools_restore add port_id addr i pool_mask' (pool + 1) w)"
  by auto
termination
proof (relation "measure (\<lambda>(_, _, _, _, m, _, _). unat m)", goal_cases)
  case (2 add port_id addr i pool_mask pool w w' pool_mask')
  then have "pool_mask \<noteq> 0" by auto
  with 2 drop_bit_1_less [of pool_mask] show ?case by (simp add: word_less_nat_alt)
qed simp

declare mac_pools_restore.simps [simp del]

text \<open>The 16-bit index reaches the limit: a device has fewer than \<open>2 ^ 16\<close> addresses.\<close>

definition eth_dev_mac_restore :: "u16 \<Rightarrow> rte_eth_dev_info \<Rightarrow> ('b, 'h) eth_world \<Rightarrow> ('b, 'h) eth_world" where
  "eth_dev_mac_restore port_id dev_info w =
     (let addr = ed_mac_addrs (data_of w port_id) ! 0;
          w = (case do_mac_addr_set (ops_of w port_id) of
                 Some mac_addr_set \<Rightarrow> snd (call_dev (mac_addr_set addr) port_id w)
               | None \<Rightarrow>
                   case do_mac_addr_add (ops_of w port_id) of
                     Some mac_addr_add \<Rightarrow> snd (call_dev (mac_addr_add addr 0 0) port_id w)
                   | None \<Rightarrow> w)
      in case do_mac_addr_add (ops_of w port_id) of
           None \<Rightarrow> w
         | Some mac_addr_add \<Rightarrow>
             fold (\<lambda>i w. let addr = ed_mac_addrs (data_of w port_id) ! i
                         in if rte_is_zero_ether_addr addr then w
                            else mac_pools_restore mac_addr_add port_id addr i (ed_mac_pool_sel (data_of w port_id) ! i) 0 w)
                  [1..<unat (di_max_mac_addrs dev_info)] w)"

text \<open>A mode that is on is switched on again, one that is off is switched off.\<close>

definition replay_mode ::
  "int \<Rightarrow> ('b, 'h) eth_callback option \<Rightarrow> ('b, 'h) eth_callback option \<Rightarrow> u16 \<Rightarrow> ('b, 'h) eth_world
   \<Rightarrow> int \<times> ('b, 'h) eth_world" where
  "replay_mode mode enable disable port_id w =
     (case (if mode = 1 \<and> enable \<noteq> None then enable
            else if mode = 0 \<and> disable \<noteq> None then disable else None) of
        None \<Rightarrow> (0, w)
      | Some cb \<Rightarrow>
          let (ret, w) = call_dev cb port_id w; (ret, w) = eth_err port_id ret w
          in (if ret \<noteq> 0 \<and> ret \<noteq> - ENOTSUP then ret else 0, w))"

definition eth_dev_config_restore :: "u16 \<Rightarrow> rte_eth_dev_info \<Rightarrow> ('b, 'h) eth_world \<Rightarrow> int \<times> ('b, 'h) eth_world" where
  "eth_dev_config_restore port_id dev_info w =
     (let w = (if ed_dev_flags (data_of w port_id) AND RTE_ETH_DEV_NOLIVE_MAC_ADDR = 0
               then eth_dev_mac_restore port_id dev_info w else w);
          (ret, w) = replay_mode (rte_eth_promiscuous_get w port_id)
                       (do_promiscuous_enable (ops_of w port_id)) (do_promiscuous_disable (ops_of w port_id)) port_id w
      in if ret \<noteq> 0 then (ret, w)
         else replay_mode (rte_eth_allmulticast_get w port_id)
                (do_allmulticast_enable (ops_of w port_id)) (do_allmulticast_disable (ops_of w port_id)) port_id w)"

section \<open>Start and stop\<close>

definition eth_dev_fp_ops_reset :: "u16 \<Rightarrow> ('b, 'h) eth_world \<Rightarrow> ('b, 'h) eth_world" where
  "eth_dev_fp_ops_reset port_id w =
     w\<lparr>ew_fp_ops := (ew_fp_ops w)[unat port_id := \<lparr>fo_burst = None, fo_queues = False\<rparr>]\<rparr>"

definition eth_dev_fp_ops_setup :: "u16 \<Rightarrow> ('b, 'h) eth_world \<Rightarrow> ('b, 'h) eth_world" where
  "eth_dev_fp_ops_setup port_id w =
     w\<lparr>ew_fp_ops := (ew_fp_ops w)[unat port_id := \<lparr>fo_burst = Some (dv_burst (dev_of w port_id)), fo_queues = True\<rparr>]\<rparr>"

definition rte_eth_dev_stop :: "('b, 'h) eth_world \<Rightarrow> u16 \<Rightarrow> int \<times> ('b, 'h) eth_world" where
  "rte_eth_dev_stop w port_id =
     (if \<not> rte_eth_dev_is_valid_port w port_id then (- ENODEV, w)
      else case do_dev_stop (ops_of w port_id) of
             None \<Rightarrow> (- ENOTSUP, w)
           | Some dev_stop \<Rightarrow>
               if \<not> ed_dev_started (data_of w port_id) then (0, w)
               else
                 let w = eth_dev_fp_ops_reset port_id w;
                     w = upd_data w port_id (\<lambda>d. d\<lparr>ed_dev_started := False\<rparr>)
                 in call_dev dev_stop port_id w)"

text \<open>The part after the driver has started the device.\<close>

definition start_restore :: "u16 \<Rightarrow> rte_eth_dev_info \<Rightarrow> ('b, 'h) eth_world \<Rightarrow> int \<times> ('b, 'h) eth_world" where
  "start_restore port_id dev_info w =
     (let (ret, w) = eth_dev_config_restore port_id dev_info w
      in if ret \<noteq> 0 then (ret, snd (rte_eth_dev_stop w port_id))
         else if \<not> ec_lsc (ed_dev_conf (data_of w port_id))
         then (case do_link_update (ops_of w port_id) of
                 None \<Rightarrow> (- ENOTSUP, w)
               | Some link_update \<Rightarrow> (0, eth_dev_fp_ops_setup port_id (snd (call_dev link_update port_id w))))
         else (0, eth_dev_fp_ops_setup port_id w))"

definition rte_eth_dev_start :: "('b, 'h) eth_world \<Rightarrow> u16 \<Rightarrow> int \<times> ('b, 'h) eth_world" where
  "rte_eth_dev_start w port_id =
     (if \<not> rte_eth_dev_is_valid_port w port_id then (- ENODEV, w)
      else case do_dev_start (ops_of w port_id) of
        None \<Rightarrow> (- ENOTSUP, w)
      | Some dev_start \<Rightarrow>
          if \<not> ed_dev_configured (data_of w port_id) then (- EINVAL, w)
          else if ed_dev_started (data_of w port_id) then (0, w)
          else
            let (ret, dev_info, w) = rte_eth_dev_info_get w port_id zero_dev_info
            in if ret \<noteq> 0 then (ret, w)
            else
              let w = (if ed_dev_flags (data_of w port_id) AND RTE_ETH_DEV_NOLIVE_MAC_ADDR \<noteq> 0
                       then eth_dev_mac_restore port_id dev_info w else w);
                  (diag, w) = call_dev dev_start port_id w
              in if diag \<noteq> 0 then eth_err port_id diag w
                 else start_restore port_id dev_info (upd_data w port_id (\<lambda>d. d\<lparr>ed_dev_started := True\<rparr>)))"

end
