(* ===== verification/Ethdev_Queues.thy ===== *)
theory Ethdev_Queues
  imports Ethdev_Control Eal_Bits
begin

text \<open>
  Set-up of the queues of a port, and the adjustment of descriptor numbers to the limits of a
  device. A set-up looks at the pools buffers come from, so it takes the buffer world; the
  result is \<open>None\<close> where the behaviour of the C code is undefined: a pointer to a pool that
  does not exist, an array that is too short, the remainder of a division by 0.
\<close>

section \<open>Descriptor numbers\<close>

text \<open>\<open>RTE_ALIGN_CEIL\<close> computes in \<open>int\<close>; the assignment truncates.\<close>

definition eth_dev_adjust_nb_desc :: "u16 \<Rightarrow> rte_eth_desc_lim \<Rightarrow> u16" where
  "eth_dev_adjust_nb_desc nb_desc desc_lim =
     (let nb_desc = (if dl_nb_align desc_lim \<noteq> 0
                     then ucast (RTE_ALIGN_CEIL (ucast nb_desc) (ucast (dl_nb_align desc_lim)) :: u32)
                     else nb_desc);
          nb_desc = (if dl_nb_max desc_lim \<noteq> 0 then min nb_desc (dl_nb_max desc_lim) else nb_desc)
      in max nb_desc (dl_nb_min desc_lim))"

text \<open>The two numbers are the caller's variables.\<close>

definition rte_eth_dev_adjust_nb_rx_tx_desc ::
  "('b, 'h) eth_world \<Rightarrow> u16 \<Rightarrow> u16 option \<Rightarrow> u16 option \<Rightarrow> int \<times> u16 option \<times> u16 option \<times> ('b, 'h) eth_world" where
  "rte_eth_dev_adjust_nb_rx_tx_desc w port_id nb_rx_desc nb_tx_desc =
     (if \<not> rte_eth_dev_is_valid_port w port_id then (- ENODEV, nb_rx_desc, nb_tx_desc, w)
      else
        let (ret, dev_info, w) = rte_eth_dev_info_get w port_id zero_dev_info
        in if ret \<noteq> 0 then (ret, nb_rx_desc, nb_tx_desc, w)
           else (0, map_option (\<lambda>n. eth_dev_adjust_nb_desc n (di_rx_desc_lim dev_info)) nb_rx_desc,
                    map_option (\<lambda>n. eth_dev_adjust_nb_desc n (di_tx_desc_lim dev_info)) nb_tx_desc, w))"

text \<open>The check both set-ups make.\<close>

definition nb_desc_ok :: "u16 \<Rightarrow> rte_eth_desc_lim \<Rightarrow> bool option" where
  "nb_desc_ok nb_desc lim =
     (if dl_nb_max lim < nb_desc then Some False
      else if nb_desc < dl_nb_min lim then Some False
      else if dl_nb_align lim = 0 then None
      else Some (nb_desc mod dl_nb_align lim = 0))"

section \<open>Receive queues\<close>

text \<open>The loop over the segments; \<open>mbp_buf_size\<close> is the caller's variable.\<close>

fun check_split_loop ::
  "'p mbuf_world \<Rightarrow> rte_eth_rxseg_capa \<Rightarrow> addr \<Rightarrow> nat \<Rightarrow> rte_eth_rxseg_split list \<Rightarrow> u32 \<Rightarrow> (int \<times> u32) option" where
  "check_split_loop mw seg_capa mp_first seg_idx [] mbp_buf_size = Some (0, mbp_buf_size)"
| "check_split_loop mw seg_capa mp_first seg_idx (seg # segs) mbp_buf_size =
     (let mpl = rs_mp seg; offset = ucast (rs_offset seg) :: u32; len = ucast (rs_length seg) :: u32;
          offset_mask = push_bit (sc_offset_align_log2 seg_capa) 1 - 1
      in if mpl = NULL then Some (- EINVAL, mbp_buf_size)
         else if seg_idx \<noteq> 0 \<and> mp_first \<noteq> mpl \<and> \<not> sc_multi_pools seg_capa then Some (- ENOTSUP, mbp_buf_size)
         else if offset \<noteq> 0 \<and> \<not> sc_offset_allowed seg_capa then Some (- ENOTSUP, mbp_buf_size)
         else if offset \<noteq> 0 \<and> offset AND offset_mask \<noteq> 0 then Some (- EINVAL, mbp_buf_size)
         else do {
           mp \<leftarrow> mw_pools mw mpl;
           if mp_private_data_size mp < sizeof_pktmbuf_pool_private then Some (- ENOSPC, mbp_buf_size)
           else do {
             room \<leftarrow> rte_pktmbuf_data_room_size mw mpl;
             let offset = offset + (if seg_idx \<noteq> 0 then 0 else ucast RTE_PKTMBUF_HEADROOM);
                 mbp_buf_size = ucast room;
                 len = (if len \<noteq> 0 then len else mbp_buf_size)
             in if mbp_buf_size < len + offset then Some (- EINVAL, mbp_buf_size)
                else check_split_loop mw seg_capa mp_first (Suc seg_idx) segs mbp_buf_size
           }
         })"

definition rte_eth_rx_queue_check_split ::
  "'p mbuf_world \<Rightarrow> rte_eth_rxseg_split list \<Rightarrow> u16 \<Rightarrow> u32 \<Rightarrow> rte_eth_dev_info \<Rightarrow> (int \<times> u32) option" where
  "rte_eth_rx_queue_check_split mw rx_seg n_seg mbp_buf_size dev_info =
     (let seg_capa = di_rx_seg_capa dev_info
      in if sc_max_nseg seg_capa < n_seg then Some (- EINVAL, mbp_buf_size)
         else if length rx_seg < max 1 (unat n_seg) then None
         else check_split_loop mw seg_capa (rs_mp (rx_seg ! 0)) 0 (take (unat n_seg) rx_seg) mbp_buf_size)"

text \<open>The checks of the pool or the segments: an error, and the size of the buffers.\<close>

definition rx_buffers_check ::
  "'p mbuf_world \<Rightarrow> rte_eth_dev_info \<Rightarrow> rte_eth_rxconf option \<Rightarrow> addr \<Rightarrow> (int \<times> u32) option" where
  "rx_buffers_check mw dev_info rx_conf mp =
     (if mp \<noteq> NULL then
        (if (case rx_conf of None \<Rightarrow> False | Some c \<Rightarrow> rc_nseg c \<noteq> 0) then Some (- EINVAL, 0)
         else do {
           p \<leftarrow> mw_pools mw mp;
           if mp_private_data_size p < sizeof_pktmbuf_pool_private then Some (- ENOSPC, 0)
           else do {
             room \<leftarrow> rte_pktmbuf_data_room_size mw mp;
             let mbp_buf_size = ucast room
             in if mbp_buf_size < di_min_rx_bufsize dev_info + ucast RTE_PKTMBUF_HEADROOM
                then Some (- EINVAL, mbp_buf_size) else Some (0, mbp_buf_size)
           }
         })
      else
        (case rx_conf of
           None \<Rightarrow> Some (- EINVAL, 0)
         | Some c \<Rightarrow>
             case rc_seg c of
               None \<Rightarrow> Some (- EINVAL, 0)
             | Some rx_seg \<Rightarrow>
                 if rc_nseg c = 0 then Some (- EINVAL, 0)
                 else if rc_offloads c AND RTE_ETH_RX_OFFLOAD_BUFFER_SPLIT \<noteq> 0
                 then rte_eth_rx_queue_check_split mw rx_seg (rc_nseg c) 0 dev_info
                 else Some (- EINVAL, 0)))"

text \<open>The end of the set-up: the queue's configuration is completed and given to the driver.\<close>

definition rx_queue_to_driver ::
  "(u16 \<Rightarrow> u16 \<Rightarrow> u32 \<Rightarrow> rte_eth_rxconf \<Rightarrow> addr \<Rightarrow> ('b, 'h) eth_callback) \<Rightarrow> u16 \<Rightarrow> u16 \<Rightarrow> u16 \<Rightarrow> u32 \<Rightarrow> rte_eth_rxconf
   \<Rightarrow> addr \<Rightarrow> u32 \<Rightarrow> rte_eth_dev_info \<Rightarrow> ('b, 'h) eth_world \<Rightarrow> int \<times> ('b, 'h) eth_world" where
  "rx_queue_to_driver rx_queue_setup port_id rx_queue_id nb_rx_desc socket_id rx_conf mp mbp_buf_size dev_info w =
     (let local_conf = rx_conf\<lparr>rc_offloads := rc_offloads rx_conf AND NOT (ec_rx_offloads (ed_dev_conf (data_of w port_id)))\<rparr>
      in if rc_offloads local_conf AND di_rx_queue_offload_capa dev_info \<noteq> rc_offloads local_conf then (- EINVAL, w)
         else if 0 < rc_share_group local_conf \<and> di_dev_capa dev_info AND RTE_ETH_DEV_CAPA_RXQ_SHARE = 0 then (- EINVAL, w)
         else
           let lro = (rc_offloads local_conf AND RTE_ETH_RX_OFFLOAD_TCP_LRO \<noteq> 0);
               max_rx_pktlen = ucast (ed_mtu (data_of w port_id))
                 + eth_dev_get_overhead_len (di_max_rx_pktlen dev_info) (di_max_mtu dev_info);
               w = (if lro \<and> ec_max_lro_pkt_size (ed_dev_conf (data_of w port_id)) = 0
                    then upd_data w port_id (\<lambda>d. d\<lparr>ed_dev_conf := (ed_dev_conf d)\<lparr>ec_max_lro_pkt_size := max_rx_pktlen\<rparr>\<rparr>) else w);
               ret = (if lro then eth_dev_check_lro_pkt_size (ec_max_lro_pkt_size (ed_dev_conf (data_of w port_id)))
                                    max_rx_pktlen (di_max_lro_pkt_size dev_info) else 0)
           in if ret \<noteq> 0 then (ret, w)
           else
             let (ret, w) = call_dev (rx_queue_setup rx_queue_id nb_rx_desc socket_id local_conf mp) port_id w;
                 w = (if ret = 0 \<and> (ed_min_rx_buf_size (data_of w port_id) = 0
                                  \<or> mbp_buf_size < ed_min_rx_buf_size (data_of w port_id))
                      then upd_data w port_id (\<lambda>d. d\<lparr>ed_min_rx_buf_size := mbp_buf_size\<rparr>) else w)
             in eth_err port_id ret w)"

definition rte_eth_rx_queue_setup ::
  "'p mbuf_world \<Rightarrow> ('b, 'h) eth_world \<Rightarrow> u16 \<Rightarrow> u16 \<Rightarrow> u16 \<Rightarrow> u32 \<Rightarrow> rte_eth_rxconf option \<Rightarrow> addr
   \<Rightarrow> (int \<times> ('b, 'h) eth_world) option" where
  "rte_eth_rx_queue_setup mw w port_id rx_queue_id nb_rx_desc socket_id rx_conf mp =
     (if \<not> rte_eth_dev_is_valid_port w port_id then Some (- ENODEV, w)
      else if ed_nb_rx_queues (data_of w port_id) \<le> rx_queue_id then Some (- EINVAL, w)
      else case do_rx_queue_setup (ops_of w port_id) of
        None \<Rightarrow> Some (- ENOTSUP, w)
      | Some rx_queue_setup \<Rightarrow>
          let (ret, dev_info, w) = rte_eth_dev_info_get w port_id zero_dev_info
          in if ret \<noteq> 0 then Some (ret, w)
          else do {
            (ret, mbp_buf_size) \<leftarrow> rx_buffers_check mw dev_info rx_conf mp;
            if ret \<noteq> 0 then Some (ret, w)
            else
              let nb_rx_desc = (if nb_rx_desc = 0 then pc_ring_size (di_default_rxportconf dev_info) else nb_rx_desc);
                  nb_rx_desc = (if nb_rx_desc = 0 then RTE_ETH_DEV_FALLBACK_RX_RINGSIZE else nb_rx_desc)
              in do {
                ok \<leftarrow> nb_desc_ok nb_rx_desc (di_rx_desc_lim dev_info);
                if \<not> ok then Some (- EINVAL, w)
                else if ed_dev_started (data_of w port_id) \<and>
                  di_dev_capa dev_info AND RTE_ETH_DEV_CAPA_RUNTIME_RX_QUEUE_SETUP = 0 then Some (- EBUSY, w)
                else if ed_dev_started (data_of w port_id) \<and>
                  ed_rx_queue_state (data_of w port_id) ! unat rx_queue_id \<noteq> RTE_ETH_QUEUE_STATE_STOPPED then Some (- EBUSY, w)
                else
                  let rx_conf = (case rx_conf of None \<Rightarrow> di_default_rxconf dev_info | Some c \<Rightarrow> c)
                  in Some (rx_queue_to_driver rx_queue_setup port_id rx_queue_id nb_rx_desc socket_id rx_conf mp
                             mbp_buf_size dev_info (eth_dev_rxq_release port_id rx_queue_id w))
              }
          })"

section \<open>Transmit queues\<close>

definition rte_eth_tx_queue_setup ::
  "('b, 'h) eth_world \<Rightarrow> u16 \<Rightarrow> u16 \<Rightarrow> u16 \<Rightarrow> u32 \<Rightarrow> rte_eth_txconf option \<Rightarrow> (int \<times> ('b, 'h) eth_world) option" where
  "rte_eth_tx_queue_setup w port_id tx_queue_id nb_tx_desc socket_id tx_conf =
     (if \<not> rte_eth_dev_is_valid_port w port_id then Some (- ENODEV, w)
      else if ed_nb_tx_queues (data_of w port_id) \<le> tx_queue_id then Some (- EINVAL, w)
      else case do_tx_queue_setup (ops_of w port_id) of
        None \<Rightarrow> Some (- ENOTSUP, w)
      | Some tx_queue_setup \<Rightarrow>
          let (ret, dev_info, w) = rte_eth_dev_info_get w port_id zero_dev_info
          in if ret \<noteq> 0 then Some (ret, w)
          else
            let nb_tx_desc = (if nb_tx_desc = 0 then pc_ring_size (di_default_txportconf dev_info) else nb_tx_desc);
                nb_tx_desc = (if nb_tx_desc = 0 then RTE_ETH_DEV_FALLBACK_TX_RINGSIZE else nb_tx_desc)
            in do {
              ok \<leftarrow> nb_desc_ok nb_tx_desc (di_tx_desc_lim dev_info);
              if \<not> ok then Some (- EINVAL, w)
              else if ed_dev_started (data_of w port_id) \<and>
                di_dev_capa dev_info AND RTE_ETH_DEV_CAPA_RUNTIME_TX_QUEUE_SETUP = 0 then Some (- EBUSY, w)
              else if ed_dev_started (data_of w port_id) \<and>
                ed_tx_queue_state (data_of w port_id) ! unat tx_queue_id \<noteq> RTE_ETH_QUEUE_STATE_STOPPED then Some (- EBUSY, w)
              else
                let w = eth_dev_txq_release port_id tx_queue_id w;
                    tx_conf = (case tx_conf of None \<Rightarrow> di_default_txconf dev_info | Some c \<Rightarrow> c);
                    local_conf = tx_conf\<lparr>tc_offloads := tc_offloads tx_conf AND NOT (ec_tx_offloads (ed_dev_conf (data_of w port_id)))\<rparr>
                in if tc_offloads local_conf AND di_tx_queue_offload_capa dev_info \<noteq> tc_offloads local_conf
                   then Some (- EINVAL, w)
                   else
                     let (ret, w) = call_dev (tx_queue_setup tx_queue_id nb_tx_desc socket_id local_conf) port_id w
                     in Some (eth_err port_id ret w)
            })"

end
