(* ===== verification/App_Main.thy ===== *)
theory App_Main
  imports App_Packet App_Options Ethdev_Queues
begin

text \<open>
  Start and end of the filter (\<open>main.c\<close>): bringing up the port, the kernel interface, the TUN
  device or raw socket, and \<open>main\<close> up to the packet loop and after it. The operating system
  and \<open>rte_eal_init\<close> are parameters, as is the outcome of \<open>rte_pktmbuf_pool_create\<close>; the state
  is that of the application with the network devices beside it. Messages are left out.
\<close>

section \<open>The system\<close>

record ('p, 'h) app_system =
  sy_open_tun :: "'h \<Rightarrow> int \<times> 'h"
  sy_tunsetiff :: "'h \<Rightarrow> int \<Rightarrow> string \<Rightarrow> int \<times> 'h"
  sy_socket :: "'h \<Rightarrow> int \<times> 'h"
  sy_bind :: "'h \<Rightarrow> int \<Rightarrow> u32 \<Rightarrow> int \<times> 'h"
  sy_close :: "'h \<Rightarrow> int \<Rightarrow> 'h"
  sy_if_nametoindex :: "string \<Rightarrow> u32"
  sy_eal_init :: "string list \<Rightarrow> int"
  sy_pool_create :: "'p mbuf_world \<Rightarrow> addr \<times> 'p mbuf_world"
  sy_calloc :: "nat \<Rightarrow> bool"
  sy_kni :: kni_env

definition IFNAMSIZ :: nat where "IFNAMSIZ = 16"
definition RX_RING_SIZE :: u16 where "RX_RING_SIZE = 1024"
definition TX_RING_SIZE :: u16 where "TX_RING_SIZE = 1024"
definition RTE_MBUF_DEFAULT_BUF_SIZE :: u32 where "RTE_MBUF_DEFAULT_BUF_SIZE = 2048 + 128"

section \<open>Where selected packets go\<close>

text \<open>A name of \<open>IFNAMSIZ\<close> characters or more is cut, without a terminator.\<close>

definition open_tun_device :: "('p, 'h) app_system \<Rightarrow> string \<Rightarrow> 'h \<Rightarrow> int \<times> 'h" where
  "open_tun_device sys tun_name h =
     (let (fd, h) = sy_open_tun sys h
      in if fd < 0 then (- 1, h)
         else let (err, h) = sy_tunsetiff sys h fd (take IFNAMSIZ tun_name)
              in if err < 0 then (err, sy_close sys h fd) else (fd, h))"

definition create_raw_socket :: "('p, 'h) app_system \<Rightarrow> string \<Rightarrow> 'h \<Rightarrow> int \<times> 'h" where
  "create_raw_socket sys ifname h =
     (let (sock, h) = sy_socket sys h
      in if sock < 0 then (- 1, h)
         else let sll_ifindex = sy_if_nametoindex sys ifname
              in if sll_ifindex = 0 then (- 1, sy_close sys h sock)
                 else let (ret, h) = sy_bind sys h sock sll_ifindex
                      in if ret < 0 then (- 1, sy_close sys h sock) else (sock, h))"

section \<open>The port\<close>

text \<open>\<open>memset(&port_conf, 0, \<dots>)\<close>.\<close>

definition zero_eth_conf :: rte_eth_conf where
  "zero_eth_conf = \<lparr>ec_link_speeds = 0, ec_rx_mq_mode = 0, ec_rx_mtu = 0, ec_max_lro_pkt_size = 0, ec_rx_offloads = 0,
     ec_tx_offloads = 0, ec_rss_hf = 0, ec_lsc = False, ec_rmv = False\<rparr>"

text \<open>The rest of \<open>port_init\<close> once the queues are set up.\<close>

definition port_run :: "('b, 'e) eth_world \<Rightarrow> u16 \<Rightarrow> int \<times> ('b, 'e) eth_world" where
  "port_run w port =
     (let (retval, w) = rte_eth_dev_start w port
      in if retval < 0 then (retval, w)
         else let (retval, addr) = rte_eth_macaddr_get w port
              in if retval \<noteq> 0 then (retval, w) else rte_eth_promiscuous_enable w port)"

text \<open>The loops over the queues have one round each.\<close>

definition port_init :: "'p mbuf_world \<Rightarrow> ('b, 'e) eth_world \<Rightarrow> u16 \<Rightarrow> addr \<Rightarrow> (int \<times> ('b, 'e) eth_world) option" where
  "port_init mw w port mbuf_pool =
     (if \<not> rte_eth_dev_is_valid_port w port then Some (- 1, w)
      else
        let (retval, dev_info, w) = rte_eth_dev_info_get w port zero_dev_info
        in if retval \<noteq> 0 then Some (retval, w)
        else
          let port_conf = (if di_tx_offload_capa dev_info AND RTE_ETH_TX_OFFLOAD_MBUF_FAST_FREE \<noteq> 0
                           then zero_eth_conf\<lparr>ec_tx_offloads := RTE_ETH_TX_OFFLOAD_MBUF_FAST_FREE\<rparr> else zero_eth_conf);
              (retval, w) = rte_eth_dev_configure w port 1 1 (Some port_conf)
          in if retval \<noteq> 0 then Some (retval, w)
          else
            let (retval, nb_rxd, nb_txd, w) = rte_eth_dev_adjust_nb_rx_tx_desc w port (Some RX_RING_SIZE) (Some TX_RING_SIZE)
            in if retval \<noteq> 0 then Some (retval, w)
            else do {
              nb_rxd \<leftarrow> nb_rxd;
              nb_txd \<leftarrow> nb_txd;
              (retval, w) \<leftarrow> rte_eth_rx_queue_setup mw w port 0 nb_rxd (word_of_int (rte_eth_dev_socket_id w port)) None mbuf_pool;
              if retval < 0 then Some (retval, w)
              else do {
                let txconf = (di_default_txconf dev_info)\<lparr>tc_offloads := ec_tx_offloads port_conf\<rparr>;
                (retval, w) \<leftarrow> rte_eth_tx_queue_setup w port 0 nb_txd (word_of_int (rte_eth_dev_socket_id w port)) (Some txconf);
                if retval < 0 then Some (retval, w) else Some (port_run w port)
              }
            })"

section \<open>The kernel interface\<close>

definition kni_conf_of :: "u16 \<Rightarrow> string \<Rightarrow> rte_kni_conf" where
  "kni_conf_of port_id kni_name =
     \<lparr>kc_name = take (RTE_KNI_NAMESIZE - 1) kni_name, kc_core_id = 0, kc_group_id = port_id,
      kc_mbuf_size = RTE_MBUF_DEFAULT_BUF_SIZE, kc_force_bind = True, kc_mac_addr = replicate 6 0,
      kc_mtu = 0, kc_min_mtu = 0, kc_max_mtu = 0\<rparr>"

text \<open>The result of \<open>rte_eth_dev_info_get\<close> is not used.\<close>

definition init_kni ::
  "kni_env \<Rightarrow> addr \<Rightarrow> u16 \<Rightarrow> string \<Rightarrow> ('p, 'h) app_state \<times> ('b, 'e) eth_world
   \<Rightarrow> (int \<times> ('p, 'h) app_state \<times> ('b, 'e) eth_world) option" where
  "init_kni env mbuf_pool port_id kni_name s =
     (let (g, w) = s; (_, _, w) = rte_eth_dev_info_get w port_id zero_dev_info
      in do {
        (kni, kw) \<leftarrow> rte_kni_alloc env mbuf_pool (Some (kni_conf_of port_id kni_name))
                       (Some (zero_kni_ops\<lparr>ko_port_id := port_id\<rparr>)) (as_kw g);
        let g = g\<lparr>as_kni := kni, as_kw := kw\<rparr>;
        if kni = NULL then Some (- 1, g, w) else Some (0, g, w)
      })"

section \<open>main\<close>

text \<open>
  How \<open>main\<close> gets to the packet loop: it returns before, \<open>rte_panic\<close> aborts it, or the loop
  starts. Static variables are in the state given to it.
\<close>

datatype 's startup = Returned int 's | Panicked | Running 's

definition open_forward ::
  "('p, 'h) app_system \<Rightarrow> string \<Rightarrow> ('p, 'h) app_state \<Rightarrow> int \<times> ('p, 'h) app_state" where
  "open_forward sys ifname g =
     (if strneq ifname ''tun'' 3 then
        let (fd, h) = open_tun_device sys ifname (as_hw g) in (fd, g\<lparr>as_tun_fd := fd, as_hw := h\<rparr>)
      else
        let (sock, h) = create_raw_socket sys ifname (as_hw g) in (sock, g\<lparr>as_raw_sock := sock, as_hw := h\<rparr>))"

text \<open>The last steps before the loop: the way packets are forwarded, and the rules.\<close>

definition main_enter ::
  "('p, 'h) app_system \<Rightarrow> rule_arg list \<Rightarrow> ('p, 'h) app_state \<times> ('b, 'e) eth_world
   \<Rightarrow> (('p, 'h) app_state \<times> ('b, 'e) eth_world) startup option" where
  "main_enter sys args s =
     (let (g, w) = s
      in do {
        ifname \<leftarrow> as_forward_ifname g;
        let (fd, g) = open_forward sys ifname g;
        if fd < 0 then Some (Returned 1 (g, w))
        else
          let rules = fst (add_filter_rules (sy_calloc sys) 0 args (as_filter_rules g))
          in Some (Running (g\<lparr>as_filter_rules := rules\<rparr>, w))
      })"

text \<open>The part of \<open>main\<close> after the options have been checked.\<close>

definition main_setup ::
  "('p, 'h) app_system \<Rightarrow> app_config \<Rightarrow> ('p, 'h) app_state \<times> ('b, 'e) eth_world
   \<Rightarrow> (('p, 'h) app_state \<times> ('b, 'e) eth_world) startup option" where
  "main_setup sys cfg s =
     (let (g, w) = s;
          g = g\<lparr>as_port_id := ac_port_id cfg, as_forward_ifname := ac_forward_ifname cfg\<rparr>;
          nb_ports = rte_eth_dev_count_avail w
      in if nb_ports = 0 then Some Panicked
         else if nb_ports \<le> as_port_id g then Some (Returned 1 (g, w))
         else
           let (mbuf_pool, mw) = sy_pool_create sys (as_mbufs g); g = set_mbufs g mw
           in if mbuf_pool = NULL then Some Panicked
           else do {
             (ret, w) \<leftarrow> port_init (as_mbufs g) w (as_port_id g) mbuf_pool;
             if ret \<noteq> 0 then Some Panicked
             else do {
               s \<leftarrow> (case ac_kni_name cfg of
                        None \<Rightarrow> Some (g, w)
                      | Some kni_name \<Rightarrow>
                          map_option snd (init_kni (sy_kni sys) mbuf_pool (as_port_id g) kni_name (g, w)));
               main_enter sys (ac_rule_args cfg) s
             }
           })"

definition main_start ::
  "('p, 'h) app_system \<Rightarrow> string list \<Rightarrow> ('p, 'h) app_state \<times> ('b, 'e) eth_world
   \<Rightarrow> (('p, 'h) app_state \<times> ('b, 'e) eth_world) startup option" where
  "main_start sys argv s =
     (let ret = sy_eal_init sys argv
      in if ret < 0 then Some Panicked
         else case parse_command_line (drop (Suc (nat ret)) argv) of
                Inl e \<Rightarrow> Some (Returned (exit_code e) s)
              | Inr cfg \<Rightarrow> main_setup sys cfg s)"

text \<open>
  After the loops of all lcores: \<open>rets\<close> are what the workers returned. \<open>rte_eal_cleanup\<close> is left
  out.
\<close>

definition main_finish ::
  "('p, 'h) app_system \<Rightarrow> (string \<Rightarrow> int) \<Rightarrow> (rte_kni_fifo \<Rightarrow> rte_kni_fifo) \<Rightarrow> int list \<Rightarrow> ('p, 'h) app_state
   \<Rightarrow> (int \<times> ('p, 'h) app_state) option" where
  "main_finish sys ioctl_release kern rets g =
     (if \<exists>r \<in> set rets. r < 0 then Some (- 1, g)
      else do {
        g \<leftarrow> (if as_kni g \<noteq> NULL
               then map_option (\<lambda>(_, kw). g\<lparr>as_kw := kw\<rparr>) (rte_kni_release ioctl_release kern (as_kni g) (as_kw g))
               else Some g);
        let g = (if 0 \<le> as_tun_fd g then g\<lparr>as_hw := sy_close sys (as_hw g) (as_tun_fd g)\<rparr> else g);
        let g = (if 0 \<le> as_raw_sock g then g\<lparr>as_hw := sy_close sys (as_hw g) (as_raw_sock g)\<rparr> else g);
        Some (0, g)
      })"

end
