(* ===== verification/App_Loop.thy ===== *)
theory App_Loop
  imports App_Packet
begin

text \<open>
  What the packet loop does to a burst: which packets are sent where, and where the buffers go.
\<close>

section \<open>What a packet is worth\<close>

text \<open>The packet is a TCP or UDP one over IPv4 and some rule asks for it.\<close>

definition selected :: "filter_rule_entry list \<Rightarrow> 'p mbuf_world \<Rightarrow> addr \<Rightarrow> bool" where
  "selected rules w m \<longleftrightarrow>
     (case classify w m of
        Some (Flow s d sp dp) \<Rightarrow> \<exists>rule \<in> set rules. rule_selects (fr_key rule) s d sp dp
      | _ \<Rightarrow> False)"

text \<open>
  What forwarding a packet sends: \<open>Some None\<close> is nothing (no open device), \<open>None\<close> an access
  outside the buffer.
\<close>

definition forward_event :: "('p, 'h) app_env \<Rightarrow> ('p, 'h) app_state \<Rightarrow> addr \<Rightarrow> out_event option option" where
  "forward_event env g m =
     (case as_forward_ifname g of
        None \<Rightarrow> Some None
      | Some ifname \<Rightarrow>
          if strneq ifname ''tun'' 3 then
            (if as_tun_fd g < 0 then Some None
             else do { tl \<leftarrow> ip_total_length (as_mbufs g) m;
                       bs \<leftarrow> rd_bytes (as_mbufs g) m sizeof_ether_hdr (unat (ntohs tl));
                       Some (Some (Tun_Write (as_tun_fd g) bs)) })
          else if as_raw_sock g < 0 then Some None
          else do { b \<leftarrow> mbuf_at (as_mbufs g) m;
                    if ae_if_nametoindex env ifname = 0 then Some None
                    else do { bs \<leftarrow> rd_bytes (as_mbufs g) m 0 (unat (ucast (m_pkt_len b) :: u16));
                              Some (Some (Nic_Send (as_raw_sock g) (ae_if_nametoindex env ifname) bs)) } })"

text \<open>What the loop never changes.\<close>

definition same_app :: "('p, 'h) app_state \<Rightarrow> ('p, 'h) app_state \<Rightarrow> bool" where
  "same_app g g' \<longleftrightarrow>
     as_filter_rules g' = as_filter_rules g \<and> as_port_id g' = as_port_id g \<and>
     as_forward_ifname g' = as_forward_ifname g \<and> as_tun_fd g' = as_tun_fd g \<and>
     as_raw_sock g' = as_raw_sock g \<and> as_kni g' = as_kni g"

lemma same_app_refl [simp]: "same_app g g"
  by (simp add: same_app_def)

lemma same_app_trans: "same_app g h \<Longrightarrow> same_app h k \<Longrightarrow> same_app g k"
  by (simp add: same_app_def)

lemma set_mbufs_simps [simp]:
  "as_mbufs (set_mbufs g w) = w" "as_out (set_mbufs g w) = as_out g" "as_hw (set_mbufs g w) = as_hw g"
  "as_total_packets (set_mbufs g w) = as_total_packets g"
  "as_forwarded_packets (set_mbufs g w) = as_forwarded_packets g"
  "as_kni_packets (set_mbufs g w) = as_kni_packets g"
  "same_app g (set_mbufs h w) = same_app g h"
  "kw_kni (as_kw (set_mbufs g w)) = kw_kni (as_kw g)" "as_kni (set_mbufs g w) = as_kni g"
  by (simp_all add: set_mbufs_def same_app_def)

lemma set_kni_simps [simp]:
  "as_mbufs (set_kni g k w) = w" "as_out (set_kni g k w) = as_out g" "as_hw (set_kni g k w) = as_hw g"
  "as_total_packets (set_kni g k w) = as_total_packets g"
  "as_forwarded_packets (set_kni g k w) = as_forwarded_packets g"
  "as_kni_packets (set_kni g k w) = as_kni_packets g"
  "same_app g (set_kni h k w) = same_app g h"
  "kw_kni (as_kw (set_kni g k w)) = (kw_kni (as_kw g))(as_kni g \<mapsto> k)" "as_kni (set_kni g k w) = as_kni g"
  by (simp_all add: set_kni_def same_app_def)

section \<open>Reads depend on the buffer and the structure alone\<close>

lemma rd_bytes_cong:
  assumes "mbuf_at w' m = mbuf_at w m" "mw_bytes w' = mw_bytes w"
  shows "rd_bytes w' m = rd_bytes w m"
  using assms by (simp add: rd_bytes_def fun_eq_iff)

lemma classify_cong:
  assumes "mbuf_at w' m = mbuf_at w m" "mw_bytes w' = mw_bytes w"
  shows "classify w' m = classify w m"
  unfolding classify_def ether_type_def ip_next_proto_id_def ip_src_addr_def ip_dst_addr_def
    ip_version_ihl_def rd8_def rd16_def rd32_def rd_bytes_cong [OF assms] ..

lemma selected_cong:
  assumes "mbuf_at w' m = mbuf_at w m" "mw_bytes w' = mw_bytes w"
  shows "selected rules w' m = selected rules w m"
  using classify_cong [OF assms] by (simp add: selected_def)

lemma forward_event_cong:
  assumes "mbuf_at (as_mbufs g') m = mbuf_at (as_mbufs g) m" "mw_bytes (as_mbufs g') = mw_bytes (as_mbufs g)"
    and "same_app g g'"
  shows "forward_event env g' m = forward_event env g m"
proof -
  have f: "as_forward_ifname g' = as_forward_ifname g" "as_tun_fd g' = as_tun_fd g" "as_raw_sock g' = as_raw_sock g"
    using assms(3) by (simp_all add: same_app_def)
  show ?thesis
    unfolding forward_event_def f ip_total_length_def rd16_def rd_bytes_cong [OF assms(1,2)] assms(1) ..
qed

section \<open>One packet\<close>

definition sent :: "('p, 'h) app_state \<Rightarrow> 'h \<Rightarrow> out_event option \<Rightarrow> nat \<Rightarrow> ('p, 'h) app_state" where
  "sent g h ev c = g\<lparr>as_hw := h, as_out := as_out g @ (case ev of None \<Rightarrow> [] | Some e \<Rightarrow> [e]),
     as_forwarded_packets := as_forwarded_packets g + of_nat c\<rparr>"

lemma sent_simps [simp]:
  "sent g (as_hw g) None 0 = g" "as_kw (sent g h ev c) = as_kw g"
  "as_out (sent g h ev c) = as_out g @ (case ev of None \<Rightarrow> [] | Some e \<Rightarrow> [e])"
  "as_forwarded_packets (sent g h ev c) = as_forwarded_packets g + of_nat c"
  "as_total_packets (sent g h ev c) = as_total_packets g" "as_kni_packets (sent g h ev c) = as_kni_packets g"
  "same_app g' (sent g h ev c) = same_app g' g"
  by (simp_all add: sent_def same_app_def)

lemma sent_one:
  "sent g h (Some e) (if b then 0 else 1) =
     (let g' = g\<lparr>as_hw := h, as_out := as_out g @ [e]\<rparr>
      in if b then g' else g'\<lparr>as_forwarded_packets := as_forwarded_packets g + 1\<rparr>)"
  by (simp add: sent_def)

text \<open>At most one event, and the packet is counted only if there was one.\<close>

lemma forward_packet_ok:
  assumes "forward_event env g m = Some ev"
  shows "\<exists>h c. forward_packet env m g = Some (sent g h ev c) \<and> c \<le> (if ev = None then 0 else 1)"
proof -
  have idle: "\<exists>h c. forward_packet env m g = Some (sent g h ev c) \<and> c \<le> (if ev = None then 0 else 1)"
    if "ev = None" "forward_packet env m g = Some g"
    using that by (intro exI [of _ "as_hw g"] exI [of _ 0]) simp
  show ?thesis
  proof (cases "as_forward_ifname g")
    case None
    then show ?thesis using assms by (intro idle) (simp_all add: forward_event_def forward_packet_def)
  next
    case (Some ifname)
    consider (tun) "strneq ifname ''tun'' 3" "\<not> as_tun_fd g < 0"
      | (nic) "\<not> strneq ifname ''tun'' 3" "\<not> as_raw_sock g < 0" "ae_if_nametoindex env ifname \<noteq> 0"
      | (off) "strneq ifname ''tun'' 3 \<and> as_tun_fd g < 0 \<or>
          \<not> strneq ifname ''tun'' 3 \<and> (as_raw_sock g < 0 \<or> ae_if_nametoindex env ifname = 0)" by blast
    then show ?thesis
    proof cases
      case tun
      with assms Some obtain tl bs where
        r: "ip_total_length (as_mbufs g) m = Some tl"
          "rd_bytes (as_mbufs g) m sizeof_ether_hdr (unat (ntohs tl)) = Some bs" "ev = Some (Tun_Write (as_tun_fd g) bs)"
        by (auto simp: forward_event_def bind_eq_Some_conv)
      obtain n h where "ae_write env (as_hw g) (as_tun_fd g) bs = (n, h)" by fastforce
      with r Some tun have "forward_packet env m g = Some (sent g h ev (if n < 0 then 0 else 1))"
        by (simp add: forward_packet_def forward_to_tun_def sent_one Let_def)
      with r(3) show ?thesis by (intro exI [of _ h] exI [of _ "if n < 0 then 0 else 1"]) simp
    next
      case nic
      with assms Some obtain b bs where
        r: "mbuf_at (as_mbufs g) m = Some b"
          "rd_bytes (as_mbufs g) m 0 (unat (ucast (m_pkt_len b) :: u16)) = Some bs"
          "ev = Some (Nic_Send (as_raw_sock g) (ae_if_nametoindex env ifname) bs)"
        by (auto simp: forward_event_def bind_eq_Some_conv)
      obtain n h where "ae_sendto env (as_hw g) (as_raw_sock g) (ae_if_nametoindex env ifname) bs = (n, h)" by fastforce
      with r Some nic have "forward_packet env m g = Some (sent g h ev (if n < 0 then 0 else 1))"
        by (simp add: forward_packet_def forward_to_nic_def sent_one Let_def)
      with r(3) show ?thesis by (intro exI [of _ h] exI [of _ "if n < 0 then 0 else 1"]) simp
    next
      case off
      with assms Some show ?thesis
        by (intro idle; cases "mbuf_at (as_mbufs g) m")
           (auto simp: forward_event_def forward_packet_def forward_to_tun_def forward_to_nic_def split: if_splits)
    qed
  qed
qed

lemma chains_head_mem: "chains w ms xss \<Longrightarrow> x \<in> set ms \<Longrightarrow> x \<in> set (concat xss)"
proof (induction ms arbitrary: xss)
  case Nil
  then show ?case by simp
next
  case (Cons m ms)
  from chains_Cons [OF Cons.prems(1)] obtain xs yss where "xss = xs # yss" by blast
  with Cons chain_head [of "mbuf_at w" m xs] show ?case by auto
qed

text \<open>What the program sends for one packet of a burst.\<close>

definition packet_events :: "('p, 'h) app_env \<Rightarrow> ('p, 'h) app_state \<Rightarrow> addr \<Rightarrow> out_event list" where
  "packet_events env g m =
     (if selected (as_filter_rules g) (as_mbufs g) m
      then (case forward_event env g m of Some (Some e) \<Rightarrow> [e] | _ \<Rightarrow> []) else [])"

lemma packet_events_cong:
  assumes "mbuf_at (as_mbufs g') m = mbuf_at (as_mbufs g) m" "mw_bytes (as_mbufs g') = mw_bytes (as_mbufs g)"
    and "same_app g g'"
  shows "packet_events env g' m = packet_events env g m"
  using forward_event_cong [OF assms] selected_cong [OF assms(1,2)] assms(3)
  by (simp add: packet_events_def same_app_def)

text \<open>A packet whose headers, and what is sent of it, lie inside its buffer.\<close>

definition readable :: "('p, 'h) app_env \<Rightarrow> ('p, 'h) app_state \<Rightarrow> addr \<Rightarrow> bool" where
  "readable env g m \<longleftrightarrow> classify (as_mbufs g) m \<noteq> None \<and>
     (selected (as_filter_rules g) (as_mbufs g) m \<longrightarrow> forward_event env g m \<noteq> None)"

lemma readable_cong:
  assumes "mbuf_at (as_mbufs g') m = mbuf_at (as_mbufs g) m" "mw_bytes (as_mbufs g') = mw_bytes (as_mbufs g)"
    and "same_app g g'"
  shows "readable env g' m = readable env g m"
  using forward_event_cong [OF assms] selected_cong [OF assms(1,2)] classify_cong [OF assms(1,2)] assms(3)
  by (simp add: readable_def same_app_def)

context mempool_driver
begin

text \<open>Without a kernel interface the packet is forwarded if it is selected, and freed.\<close>

lemma process_packet_no_kni:
  assumes "as_kni g = NULL" "readable env g m"
    and "seg_chain (mbuf_at (as_mbufs g)) m xs" "distinct xs" "list_all (sole_direct (as_mbufs g) P) xs"
    and "mw_pools (as_mbufs g) P = Some mp" "pool_ok drv inv (mw_ops (as_mbufs g)) mp"
    and "size (pool_bag bag mp) + length xs \<le> pool_cap bag room mp"
  shows "\<exists>g' mp' c. process_packet env m g = Some g' \<and> gives (as_mbufs g) P mp xs (as_mbufs g') mp' \<and>
    same_app g g' \<and> as_total_packets g' = as_total_packets g \<and> as_kni_packets g' = as_kni_packets g \<and>
    as_out g' = as_out g @ packet_events env g m \<and>
    as_forwarded_packets g' = as_forwarded_packets g + of_nat c \<and> c \<le> length (packet_events env g m)"
proof -
  let ?w = "as_mbufs g"
  have sole: "sole_direct ?w P x" if "x \<in> set xs" for x using assms(5) that by (simp add: list_all_iff)
  from pktmbuf_free_chain [OF assms(3,4) sole assms(6-8)] obtain w' mp' where
    f: "rte_pktmbuf_free ?w m = Some w'" "gives ?w P mp xs w' mp'"
    by (auto simp: gives_def)
  from assms(2) obtain c where c: "classify ?w m = Some c" by (auto simp: readable_def)
  show ?thesis
  proof (cases "selected (as_filter_rules g) ?w m")
    case True
    then obtain s d sp dp where fl: "c = Flow s d sp dp" "match_filter_rule (as_filter_rules g) s d sp dp"
      using c by (auto simp: selected_def match_filter_rule_iff split: pkt_class.splits)
    from assms(2) True obtain ev where ev: "forward_event env g m = Some ev" by (auto simp: readable_def)
    from forward_packet_ok [OF ev] obtain h k where
      k: "forward_packet env m g = Some (sent g h ev k)" "k \<le> (if ev = None then 0 else 1)" by blast
    have e: "packet_events env g m = (case ev of None \<Rightarrow> [] | Some e \<Rightarrow> [e])"
      using True ev by (simp add: packet_events_def split: option.split)
    have "process_packet env m g = Some (set_mbufs (sent g h ev k) w')"
      using c fl k(1) f(1) by (simp add: process_packet_def free_packet_def)
    with k(2) f(2) show ?thesis unfolding e
      by (intro exI [of _ "set_mbufs (sent g h ev k) w'"] exI [of _ mp'] exI [of _ k]) (cases ev; simp)
  next
    case False
    then have "process_packet env m g = Some (set_mbufs g w')"
      using c f(1) assms(1)
      by (auto simp: process_packet_def selected_def match_filter_rule_iff send_to_kni_def free_packet_def
          split: pkt_class.splits)
    with False f(2) show ?thesis
      by (intro exI [of _ "set_mbufs g w'"] exI [of _ mp'] exI [of _ 0]) (simp add: packet_events_def)
  qed
qed

text \<open>
  A burst: one event per selected packet, in order, and every buffer of every packet goes back
  to the pool.
\<close>

lemma process_burst_no_kni:
  assumes "as_kni g = NULL" "list_all (readable env g) ms"
    and "chains (as_mbufs g) ms xss" "all_sole (as_mbufs g) P xss"
    and "mw_pools (as_mbufs g) P = Some mp" "pool_ok drv inv (mw_ops (as_mbufs g)) mp"
    and "size (pool_bag bag mp) + length (concat xss) \<le> pool_cap bag room mp"
  shows "\<exists>g' mp' c. process_burst env ms g = Some g' \<and> gives (as_mbufs g) P mp (concat xss) (as_mbufs g') mp' \<and>
    same_app g g' \<and> as_total_packets g' = as_total_packets g \<and> as_kni_packets g' = as_kni_packets g \<and>
    as_out g' = as_out g @ concat (map (packet_events env g) ms) \<and>
    as_forwarded_packets g' = as_forwarded_packets g + of_nat c \<and>
    c \<le> length (concat (map (packet_events env g) ms))"
  using assms
proof (induction ms arbitrary: g mp xss)
  case Nil
  then have "mw_pools (as_mbufs g) = (mw_pools (as_mbufs g))(P \<mapsto> mp)" by auto
  with Nil show ?case by (intro exI [of _ g] exI [of _ mp] exI [of _ 0]) (simp add: gives_def)
next
  case (Cons m ms)
  let ?w = "as_mbufs g"
  from chains_Cons [OF Cons.prems(3)] obtain xs yss where y: "xss = xs # yss" by blast
  have ch: "seg_chain (mbuf_at ?w) m xs" "distinct xs" "set xs \<inter> set (concat yss) = {}" "chains ?w ms yss"
    using Cons.prems(3) y by simp_all
  have sole: "list_all (sole_direct ?w P) xs" "all_sole ?w P yss" using Cons.prems(4) y by (simp_all add: all_sole_def)
  have cap: "size (pool_bag bag mp) + length xs \<le> pool_cap bag room mp" using Cons.prems(7) y by simp
  from process_packet_no_kni [OF Cons.prems(1) _ ch(1,2) sole(1) Cons.prems(5,6) cap, of env] Cons.prems(2)
  obtain g1 mp1 c1 where
    g1: "process_packet env m g = Some g1" "gives ?w P mp xs (as_mbufs g1) mp1" "same_app g g1"
      "as_total_packets g1 = as_total_packets g" "as_kni_packets g1 = as_kni_packets g"
      "as_out g1 = as_out g @ packet_events env g m"
      "as_forwarded_packets g1 = as_forwarded_packets g + of_nat c1" "c1 \<le> length (packet_events env g m)"
    by auto
  have fr: "mbuf_at (as_mbufs g1) b = mbuf_at ?w b" if "b \<in> set (concat yss)" for b
    using g1(2) ch(3) that unfolding gives_def by blast
  have bt: "mw_bytes (as_mbufs g1) = mw_bytes ?w" "mw_ops (as_mbufs g1) = mw_ops ?w"
    using g1(2) by (simp_all add: gives_def same_store_def)
  have hd: "mbuf_at (as_mbufs g1) x = mbuf_at ?w x" if "x \<in> set ms" for x
  proof -
    have "x \<in> set (concat yss)" using chains_head_mem [OF ch(4) that] .
    then show ?thesis by (rule fr)
  qed
  have "\<exists>g' mp' c. process_burst env ms g1 = Some g' \<and> gives (as_mbufs g1) P mp1 (concat yss) (as_mbufs g') mp' \<and>
    same_app g1 g' \<and> as_total_packets g' = as_total_packets g1 \<and> as_kni_packets g' = as_kni_packets g1 \<and>
    as_out g' = as_out g1 @ concat (map (packet_events env g1) ms) \<and>
    as_forwarded_packets g' = as_forwarded_packets g1 + of_nat c \<and>
    c \<le> length (concat (map (packet_events env g1) ms))"
  proof (rule Cons.IH)
    show "as_kni g1 = NULL" using g1(3) Cons.prems(1) by (simp add: same_app_def)
    show "list_all (readable env g1) ms"
      using Cons.prems(2) readable_cong [OF hd bt(1) g1(3)] by (simp add: list_all_iff)
    show "chains (as_mbufs g1) ms yss" using chains_cong [OF fr] ch(4) by simp
    show "all_sole (as_mbufs g1) P yss" using all_sole_cong [OF fr] sole(2) by simp
    show "mw_pools (as_mbufs g1) P = Some mp1" "pool_ok drv inv (mw_ops (as_mbufs g1)) mp1"
      using g1(2) bt(2) by (simp_all add: gives_def)
    show "size (pool_bag bag mp1) + length (concat yss) \<le> pool_cap bag room mp1"
      using Cons.prems(7) y g1(2) by (simp add: gives_def)
  qed
  then obtain g' mp' c where
    g': "process_burst env ms g1 = Some g'" "gives (as_mbufs g1) P mp1 (concat yss) (as_mbufs g') mp'"
      "same_app g1 g'" "as_total_packets g' = as_total_packets g1" "as_kni_packets g' = as_kni_packets g1"
      "as_out g' = as_out g1 @ concat (map (packet_events env g1) ms)"
      "as_forwarded_packets g' = as_forwarded_packets g1 + of_nat c"
      "c \<le> length (concat (map (packet_events env g1) ms))" by blast
  have ev: "map (packet_events env g1) ms = map (packet_events env g) ms"
    using packet_events_cong [OF hd bt(1) g1(3)] by simp
  have "gives ?w P mp (concat xss) (as_mbufs g') mp'"
    using g'(2) g1(2) bt(2) y unfolding gives_def by (auto intro: same_store_trans)
  then show ?case
    using g1 g' ev same_app_trans [OF g1(3) g'(3)]
    by (intro exI [of _ g'] exI [of _ mp'] exI [of _ "c1 + c"]) (simp add: add.assoc)
qed

end

section \<open>With a kernel interface\<close>

text \<open>
  A packet handed over is in the receive queue, by physical address, if there was room, and
  back in the pool otherwise; the packets the kernel is done with go back as well.
\<close>

context mempool_driver
begin

lemma gives_trans:
  assumes "gives v P mp as u mp1" "gives u P mp1 bs t mp2"
  shows "gives v P mp (as @ bs) t mp2"
  using assms same_store_trans by (auto simp: gives_def same_store_def)

lemma send_to_kni_ok:
  assumes "as_kni g \<noteq> NULL" "kw_kni (as_kw g) (as_kni g) = Some k" "m \<noteq> NULL"
    and q: "kni_fifo_inv (kn_rx_q k)" "kni_fifo_inv (kn_free_q k)"
    and m: "seg_chain (mbuf_at (as_mbufs g)) m xs" "distinct xs" "list_all (sole_direct (as_mbufs g) P) xs"
    and done_: "chains (as_mbufs g) (take 32 (kni_fifo_list (kn_free_q k))) yss" "all_sole (as_mbufs g) P yss"
    and "set xs \<inter> set (concat yss) = {}"
    and mp: "mw_pools (as_mbufs g) P = Some mp" "pool_ok drv inv (mw_ops (as_mbufs g)) mp"
    and cap: "size (pool_bag bag mp) + length (concat yss) + length xs \<le> pool_cap bag room mp"
  shows "\<exists>g' k' mp' v. send_to_kni m g = Some g' \<and> same_app g g' \<and> as_out g' = as_out g \<and>
    as_total_packets g' = as_total_packets g \<and> as_forwarded_packets g' = as_forwarded_packets g \<and>
    kw_kni (as_kw g') (as_kni g) = Some k' \<and>
    (if kni_fifo_room (kn_rx_q k) = 0
     then as_kni_packets g' = as_kni_packets g \<and> kni_fifo_list (kn_rx_q k') = kni_fifo_list (kn_rx_q k) \<and>
       gives (as_mbufs g) P mp (concat yss @ xs) (as_mbufs g') mp'
     else as_kni_packets g' = as_kni_packets g + 1 \<and>
       kni_fifo_list (kn_rx_q k') = kni_fifo_list (kn_rx_q k) @ [pa_of (as_mbufs g) m] \<and>
       relinked (set xs) (as_mbufs g) v \<and> pa_linked (as_mbufs g) v xs \<and> gives v P mp (concat yss) (as_mbufs g') mp')"
proof -
  let ?w = "as_mbufs g" and ?r = "kni_fifo_room (kn_rx_q k)"
  let ?sss = "if ?r = 0 then [] else [xs]"
  have mk: "min (unat (1 :: u32)) ?r = (if ?r = 0 then 0 else 1)" by (simp add: unat_1)
  have sent: "chains ?w (take (min (unat (1 :: u32)) ?r) [m]) ?sss"
    unfolding mk using m assms(3) by simp
  have dj: "set (concat ?sss) \<inter> set (concat yss) = {}" using assms(11) by simp
  have cap': "size (pool_bag bag mp) + length (concat yss) \<le> pool_cap bag room mp" using cap by simp
  from rte_kni_tx_burst_ok [OF q _ sent done_ dj mp cap'] obtain k' v w' mp' where
    t: "rte_kni_tx_burst k [m] 1 ?w = Some (of_nat (if ?r = 0 then 0 else 1), k', w')"
      "kni_fifo_list (kn_rx_q k') = kni_fifo_list (kn_rx_q k) @ map (pa_of ?w) (take (if ?r = 0 then 0 else 1) [m])"
      "relinked (set (concat ?sss)) ?w v" "gives v P mp (concat yss) w' mp'" "list_all (pa_linked ?w v) ?sss"
    unfolding mk by (auto simp: unat_1)
  show ?thesis
  proof (cases "?r = 0")
    case True
    have v: "mbuf_at v b = mbuf_at ?w b" for b using t(3) True by (simp add: relinked_def)
    have g1: "gives ?w P mp (concat yss) w' mp'"
      using t(3,4) v True same_store_trans by (auto simp: gives_def relinked_def same_store_def)
    have fr: "mbuf_at w' b = mbuf_at ?w b" if "b \<in> set xs" for b
      using g1 assms(11) that unfolding gives_def by blast
    have c: "seg_chain (mbuf_at w') m xs" using seg_chain_cong [OF fr] m(1) by simp
    have s: "sole_direct w' P b" if "b \<in> set xs" for b
      using m(3) fr [OF that] that by (simp add: sole_direct_def list_all_iff)
    have "mw_pools w' P = Some mp'" "pool_ok drv inv (mw_ops w') mp'"
      "size (pool_bag bag mp') + length xs \<le> pool_cap bag room mp'"
      using g1 cap by (auto simp: gives_def same_store_def)
    from pktmbuf_free_chain [OF c m(2) s this] obtain w2 mp2 where
      f: "rte_pktmbuf_free w' m = Some w2" "gives w' P mp' xs w2 mp2" by (auto simp: gives_def)
    have "send_to_kni m g = Some (set_mbufs (set_kni g k' w') w2)"
      using assms(1,2) t(1) True f(1) by (simp add: send_to_kni_def free_packet_def)
    with True t(2) gives_trans [OF g1 f(2)] show ?thesis
      by (intro exI [of _ "set_mbufs (set_kni g k' w') w2"] exI [of _ k'] exI [of _ mp2] exI [of _ v]) simp
  next
    case False
    have "send_to_kni m g = Some ((set_kni g k' w')\<lparr>as_kni_packets := as_kni_packets g + 1\<rparr>)"
      using assms(1,2) t(1) False by (simp add: send_to_kni_def)
    with False t show ?thesis
      by (intro exI [of _ "(set_kni g k' w')\<lparr>as_kni_packets := as_kni_packets g + 1\<rparr>"] exI [of _ k']
          exI [of _ mp'] exI [of _ v]) (simp add: same_app_def set_kni_def)
  qed
qed

end

section \<open>Counters\<close>

text \<open>
  Over any execution, whatever the card, the kernel and the system do: \<open>n\<close> packets later at
  most \<open>n\<close> have been counted, each in one of the two ways, and sent.
\<close>

definition progress :: "nat \<Rightarrow> nat \<Rightarrow> ('p, 'h) app_state \<Rightarrow> ('p, 'h) app_state \<Rightarrow> bool" where
  "progress t n g g' \<longleftrightarrow> same_app g g' \<and> as_total_packets g' = as_total_packets g + of_nat t \<and>
     (\<exists>f k evs. as_forwarded_packets g' = as_forwarded_packets g + of_nat f \<and>
        as_kni_packets g' = as_kni_packets g + of_nat k \<and> as_out g' = as_out g @ evs \<and>
        f \<le> length evs \<and> length evs + k \<le> n)"

lemma progressI:
  assumes "same_app g g'" "as_total_packets g' = as_total_packets g + of_nat t"
    "as_forwarded_packets g' = as_forwarded_packets g + of_nat f"
    "as_kni_packets g' = as_kni_packets g + of_nat k" "as_out g' = as_out g @ evs"
    "f \<le> length evs" "length evs + k \<le> n"
  shows "progress t n g g'"
  using assms unfolding progress_def by blast

lemma progress_0:
  assumes "same_app g g'" "as_forwarded_packets g' = as_forwarded_packets g"
    "as_kni_packets g' = as_kni_packets g" "as_out g' = as_out g" "as_total_packets g' = as_total_packets g"
  shows "progress 0 0 g g'"
  using assms by (intro progressI [of _ _ _ 0 0 "[]"]) simp_all

lemma progress_refl [simp]: "progress 0 0 g g"
  by (intro progress_0) simp_all

lemma progress_trans:
  assumes "progress s m g h" "progress t n h g'"
  shows "progress (s + t) (m + n) g g'"
proof -
  from assms(1) obtain f k evs where a:
    "as_forwarded_packets h = as_forwarded_packets g + of_nat f" "as_kni_packets h = as_kni_packets g + of_nat k"
    "as_out h = as_out g @ evs" "f \<le> length evs" "length evs + k \<le> m" "same_app g h"
    "as_total_packets h = as_total_packets g + of_nat s"
    by (auto simp: progress_def)
  from assms(2) obtain f' k' evs' where b:
    "as_forwarded_packets g' = as_forwarded_packets h + of_nat f'" "as_kni_packets g' = as_kni_packets h + of_nat k'"
    "as_out g' = as_out h @ evs'" "f' \<le> length evs'" "length evs' + k' \<le> n" "same_app h g'"
    "as_total_packets g' = as_total_packets h + of_nat t"
    by (auto simp: progress_def)
  show ?thesis
    using a b same_app_trans [OF a(6) b(6)]
    by (intro progressI [of _ _ _ "f + f'" "k + k'" "evs @ evs'"]) simp_all
qed

lemma progress_mono: "progress t m g g' \<Longrightarrow> m \<le> n \<Longrightarrow> progress t n g g'"
  by (force simp: progress_def)

lemma free_packet_progress: "free_packet m g = Some g' \<Longrightarrow> progress 0 0 g g'"
  by (intro progress_0) (auto simp: free_packet_def bind_eq_Some_conv)

lemma set_kni_progress: "progress 0 0 g (set_kni g k w)"
  by (intro progress_0) simp_all

lemma send_to_kni_progress:
  assumes "send_to_kni m g = Some g'"
  shows "progress 0 1 g g'"
proof (cases "as_kni g = NULL")
  case True
  with assms show ?thesis
    by (auto simp: send_to_kni_def dest: free_packet_progress intro: progress_mono)
next
  case False
  with assms obtain k' w and nb_tx :: u32 where
    t: "(if (ucast nb_tx :: u16) = 0 then free_packet m (set_kni g k' w)
        else Some ((set_kni g k' w)\<lparr>as_kni_packets := as_kni_packets (set_kni g k' w) + 1\<rparr>)) = Some g'"
    by (auto simp: send_to_kni_def bind_eq_Some_conv Let_def)
  show ?thesis
  proof (cases "(ucast nb_tx :: u16) = 0")
    case True
    with t have "progress 0 0 (set_kni g k' w) g'" by (simp add: free_packet_progress)
    from progress_trans [OF set_kni_progress this] show ?thesis by (auto intro: progress_mono)
  next
    case False
    with t show ?thesis
      by (intro progressI [of _ _ _ 0 1 "[]"]) (auto simp: same_app_def set_kni_def)
  qed
qed

lemma forward_packet_event:
  assumes "forward_packet env m g = Some g'"
  shows "forward_event env g m \<noteq> None"
  using assms
  by (cases "mbuf_at (as_mbufs g) m")
     (auto simp: forward_packet_def forward_event_def forward_to_tun_def forward_to_nic_def bind_eq_Some_conv Let_def
      split: option.splits if_splits)

lemma sent_progress: "c \<le> (if ev = None then 0 else 1) \<Longrightarrow> progress 0 1 g (sent g h ev c)"
  by (rule progressI [of _ _ _ c 0 "case ev of None \<Rightarrow> [] | Some e \<Rightarrow> [e]"]) (auto split: option.splits)

lemma process_packet_progress:
  assumes "process_packet env m g = Some g'"
  shows "progress 0 1 g g'"
proof -
  from assms obtain c where c: "classify (as_mbufs g) m = Some c" by (auto simp: process_packet_def bind_eq_Some_conv)
  consider "send_to_kni m g = Some g'" | h where "forward_packet env m g = Some h" "free_packet m h = Some g'"
    using assms c by (auto simp: process_packet_def bind_eq_Some_conv split: pkt_class.splits if_splits)
  then show ?thesis
  proof cases
    case 1
    then show ?thesis by (rule send_to_kni_progress)
  next
    case (2 h)
    from forward_packet_event [OF 2(1)] obtain ev where ev: "forward_event env g m = Some ev" by blast
    from forward_packet_ok [OF ev] obtain hw c where "h = sent g hw ev c" "c \<le> (if ev = None then 0 else 1)"
      using 2(1) by auto
    then have "progress 0 1 g h" by (simp only: sent_progress)
    from progress_trans [OF this free_packet_progress [OF 2(2)]] show ?thesis by simp
  qed
qed

lemma process_burst_progress: "process_burst env ms g = Some g' \<Longrightarrow> progress 0 (length ms) g g'"
proof (induction ms arbitrary: g)
  case Nil
  then show ?case by auto
next
  case (Cons m ms)
  then obtain h where "process_packet env m g = Some h" "process_burst env ms h = Some g'"
    by (auto simp: bind_eq_Some_conv)
  with Cons.IH progress_trans [OF process_packet_progress] show ?case by fastforce
qed

lemma eth_burst_progress:
  "rte_eth_rx_burst env p q t n g = Some (nb, t', g') \<Longrightarrow> progress 0 0 g g'"
  "rte_eth_tx_burst env p q t n g = Some (nb, g') \<Longrightarrow> progress 0 0 g g'"
  by (auto simp: rte_eth_rx_burst_def rte_eth_tx_burst_def bind_eq_Some_conv same_app_def set_mbufs_def
      intro!: progress_0)

lemma free_slot_progress: "free_slot n s g = Some g' \<Longrightarrow> progress 0 0 g g'"
proof (induction n arbitrary: g)
  case 0
  then show ?case by auto
next
  case (Suc n)
  then obtain h where h: "free_packet s g = Some h" "free_slot n s h = Some g'" by (auto simp: bind_eq_Some_conv)
  with Suc.IH [OF h(2)] progress_trans [OF free_packet_progress [OF h(1)], of 0 0 g'] show ?case by simp
qed

lemma kni_request_handler_progress:
  assumes "kni_request_handler env g = Some (r, g')"
  shows "progress 0 0 g g'"
proof -
  from assms obtain k nb table k' w where
    a: "(if nb > 0 then
           do { (nb_tx, h) \<leftarrow> rte_eth_tx_burst env (as_port_id (set_kni g k' w)) 0 table (ucast nb) (set_kni g k' w);
                h \<leftarrow> (if (ucast nb_tx :: u32) < nb then free_slot (unat (nb - ucast nb_tx)) (ae_slot env) h else Some h);
                Some (0, h) }
         else Some (0, set_kni g k' w)) = Some (r, g')"
    by (auto simp: kni_request_handler_def bind_eq_Some_conv Let_def)
  show ?thesis
  proof (cases "nb > 0")
    case False
    with a set_kni_progress show ?thesis by auto
  next
    case True
    with a obtain nb_tx h where
      h: "rte_eth_tx_burst env (as_port_id (set_kni g k' w)) 0 table (ucast nb) (set_kni g k' w) = Some (nb_tx, h)"
        "(if (ucast nb_tx :: u32) < nb then free_slot (unat (nb - ucast nb_tx)) (ae_slot env) h else Some h) = Some g'"
      by (auto simp: bind_eq_Some_conv split: prod.splits)
    have "progress 0 0 h g'" using h(2) by (auto dest: free_slot_progress split: if_splits)
    with progress_trans [OF set_kni_progress eth_burst_progress(2) [OF h(1)]] progress_trans [of 0 0 g h 0 0 g']
    show ?thesis by simp
  qed
qed

text \<open>
  The number of packets the card gives in a round, and executions with the number of all the
  packets it has given.
\<close>

definition lcore_received :: "('p, 'h) app_env \<Rightarrow> addr list \<Rightarrow> ('p, 'h) app_state \<Rightarrow> nat option" where
  "lcore_received env bufs g =
     do { g \<leftarrow> (if as_kni g \<noteq> NULL then map_option snd (kni_request_handler env g) else Some g);
          (nb_rx, _) \<leftarrow> rte_eth_rx_burst env (as_port_id g) 0 bufs (of_nat BURST_SIZE) g;
          Some (unat nb_rx) }"

inductive lcore_run :: "('p, 'h) app_env \<Rightarrow> ('p, 'h) app_state \<Rightarrow> nat \<Rightarrow> ('p, 'h) app_state \<Rightarrow> bool" for env g where
  start: "lcore_run env g 0 g"
| round: "lcore_run env g n h \<Longrightarrow> \<not> as_force_quit h \<Longrightarrow> length bufs = BURST_SIZE \<Longrightarrow>
    lcore_received env bufs h = Some nb \<Longrightarrow> lcore_iter env bufs h = Some g' \<Longrightarrow> lcore_run env g (n + nb) g'"
| sig: "lcore_run env g n h \<Longrightarrow> lcore_run env g n (signal_handler signum h)"

lemma lcore_iter_received: "lcore_iter env bufs g = Some g' \<Longrightarrow> \<exists>nb. lcore_received env bufs g = Some nb"
  by (auto simp: lcore_iter_def lcore_received_def bind_eq_Some_conv split: prod.splits)

text \<open>Counting the packets excludes no execution.\<close>

lemma lcore_run_iff: "(\<exists>n. lcore_run env g n g') \<longleftrightarrow> (lcore_step env)\<^sup>*\<^sup>* g g'"
proof
  assume "\<exists>n. lcore_run env g n g'"
  then obtain n where "lcore_run env g n g'" by blast
  then show "(lcore_step env)\<^sup>*\<^sup>* g g'"
    by induction (auto intro: rtranclp.rtrancl_into_rtrancl lcore_step.intros)
next
  assume "(lcore_step env)\<^sup>*\<^sup>* g g'"
  then show "\<exists>n. lcore_run env g n g'"
  proof (induction rule: rtranclp_induct)
    case base
    then show ?case by (blast intro: lcore_run.start)
  next
    case (step h g')
    then obtain n where n: "lcore_run env g n h" by blast
    from step.hyps(2) show ?case
    proof cases
      case (round bufs)
      from lcore_iter_received [OF round(3)] obtain nb where "lcore_received env bufs h = Some nb" by blast
      from lcore_run.round [OF n round(1,2) this round(3)] show ?thesis by blast
    next
      case (sig signum)
      with lcore_run.sig [OF n] show ?thesis by blast
    qed
  qed
qed

lemma lcore_iter_progress:
  assumes "lcore_iter env bufs g = Some g'" "lcore_received env bufs g = Some n"
  shows "progress n n g g'"
proof -
  from assms(1) obtain h nb b h2 where
    h: "(if as_kni g \<noteq> NULL then map_option snd (kni_request_handler env g) else Some g) = Some h"
      "rte_eth_rx_burst env (as_port_id h) 0 bufs (of_nat BURST_SIZE) h = Some (nb, b, h2)"
      "(if nb = 0 then Some h2 else if length b < unat nb then None
        else process_burst env (take (unat nb) b) (h2\<lparr>as_total_packets := as_total_packets h2 + ucast nb\<rparr>)) = Some g'"
    by (auto simp: lcore_iter_def bind_eq_Some_conv split: prod.splits)
  have n: "n = unat nb" using assms(2) h(1,2) by (simp add: lcore_received_def)
  have "progress 0 0 g h" using h(1) by (auto dest: kni_request_handler_progress split: if_splits)
  from progress_trans [OF this eth_burst_progress(1) [OF h(2)]] have c: "progress 0 0 g h2" by simp
  show ?thesis
  proof (cases "nb = 0")
    case True
    with h(3) c n show ?thesis by auto
  next
    case False
    let ?h = "h2\<lparr>as_total_packets := as_total_packets h2 + ucast nb\<rparr>"
    from False h(3) have d: "\<not> length b < unat nb" "process_burst env (take (unat nb) b) ?h = Some g'"
      by (auto split: if_splits)
    have "progress (unat nb) 0 h2 ?h"
      by (rule progressI [of _ _ _ 0 0 "[]"]) (simp_all add: same_app_def unsigned_ucast_eq word_of_nat_eq_iff)
    from progress_trans [OF progress_trans [OF c this] process_burst_progress [OF d(2)]] d(1) n
    show ?thesis by simp
  qed
qed

lemma lcore_run_progress: "lcore_run env g n g' \<Longrightarrow> progress n n g g'"
proof (induction rule: lcore_run.induct)
  case start
  then show ?case by simp
next
  case (round n h bufs nb g')
  from progress_trans [OF round.IH lcore_iter_progress [OF round.hyps(5,4)]] show ?case .
next
  case (sig n h signum)
  have "progress 0 0 h (signal_handler signum h)" by (auto simp: signal_handler_def same_app_def intro!: progress_0)
  from progress_trans [OF sig.IH this] show ?case by simp
qed

end
