(* ===== verification/App_Frames.thy ===== *)
theory App_Frames
  imports App_Loop
begin

text \<open>
  The layout of the packets the filter looks at: a frame is built from its fields, and the
  header accesses of \<open>lcore_main\<close> read the fields back.
\<close>

section \<open>The bytes from the start of the data\<close>

definition pkt_view :: "'p mbuf_world \<Rightarrow> addr \<Rightarrow> u8 list option" where
  "pkt_view w m =
     do { b \<leftarrow> mbuf_at w m;
          bs \<leftarrow> mw_bytes w (m_buf_addr b);
          if unat (m_data_off b) \<le> length bs then Some (drop (unat (m_data_off b)) bs) else None }"

lemma rd_bytes_view:
  assumes "pkt_view w m = Some bs"
  shows "rd_bytes w m off n = (if off + n \<le> length bs then Some (take n (drop off bs)) else None)"
proof -
  from assms obtain b all where a: "mbuf_at w m = Some b" "mw_bytes w (m_buf_addr b) = Some all"
    "unat (m_data_off b) \<le> length all" "bs = drop (unat (m_data_off b)) all"
    by (auto simp: pkt_view_def bind_eq_Some_conv split: if_splits)
  have d: "drop (unat (m_data_off b) + off) all = drop off bs" by (simp add: a(4) add.commute)
  have l: "unat (m_data_off b) + off + n \<le> length all \<longleftrightarrow> off + n \<le> length bs" using a(3,4) by auto
  show ?thesis by (simp add: rd_bytes_def a(1,2) d l Let_def)
qed

lemma rd_bytes_at:
  assumes "pkt_view w m = Some (pre @ mid @ post)" "length pre = off" "length mid = n"
  shows "rd_bytes w m off n = Some mid"
  using assms by (simp add: rd_bytes_view)

section \<open>Frames\<close>

text \<open>Addresses are words as they lie in memory, lengths and ports are numbers.\<close>

record ipv4_frame =
  fm_macs :: "u8 list"
  fm_version_ihl :: u8
  fm_tos :: u8
  fm_total_length :: u16
  fm_id_frag :: "u8 list"
  fm_ttl :: u8
  fm_proto :: u8
  fm_cksum :: "u8 list"
  fm_src :: u32
  fm_dst :: u32
  fm_options :: "u8 list"
  fm_sport :: u16
  fm_dport :: u16
  fm_rest :: "u8 list"

definition be16_bytes :: "u16 \<Rightarrow> u8 list" where
  "be16_bytes x = [ucast (drop_bit 8 x), ucast x]"

definition le32_bytes_of :: "u32 \<Rightarrow> u8 list" where
  "le32_bytes_of x = [ucast x, ucast (drop_bit 8 x), ucast (drop_bit 16 x), ucast (drop_bit 24 x)]"

definition ip_bytes :: "ipv4_frame \<Rightarrow> u8 list" where
  "ip_bytes f = [fm_version_ihl f, fm_tos f] @ be16_bytes (fm_total_length f) @ fm_id_frag f @
     [fm_ttl f, fm_proto f] @ fm_cksum f @ le32_bytes_of (fm_src f) @ le32_bytes_of (fm_dst f) @
     fm_options f @ be16_bytes (fm_sport f) @ be16_bytes (fm_dport f) @ fm_rest f"

definition frame_bytes :: "ipv4_frame \<Rightarrow> u8 list" where
  "frame_bytes f = fm_macs f @ be16_bytes 0x0800 @ ip_bytes f"

definition frame_ok :: "ipv4_frame \<Rightarrow> bool" where
  "frame_ok f \<longleftrightarrow> length (fm_macs f) = 12 \<and> length (fm_id_frag f) = 4 \<and> length (fm_cksum f) = 2 \<and>
     unat (fm_version_ihl f AND 0x0F) * 4 = 20 + length (fm_options f) \<and> fm_proto f \<in> {6, 17}"

lemma be16_read: "ucast (ucast (drop_bit 8 x) :: u8) OR push_bit 8 (ucast (ucast x :: u8)) = htons (x :: u16)"
  by (rule bit_word_eqI) (auto simp: htons_def bswap16_def bit_simps dest: bit_imp_le_length)

lemma classify_frame:
  assumes "frame_ok f" "pkt_view w m = Some (frame_bytes f @ pad)"
  shows "classify w m = Some (Flow (fm_src f) (fm_dst f) (htons (fm_sport f)) (htons (fm_dport f)))"
proof -
  have m12: "length (fm_macs f) = 12" and i4: "length (fm_id_frag f) = 4" and c2: "length (fm_cksum f) = 2"
    and ihl: "unat (fm_version_ihl f AND 0x0F) * 4 = 20 + length (fm_options f)" and p: "fm_proto f = 6 \<or> fm_proto f = 17"
    using assms(1) by (auto simp: frame_ok_def)
  define h4 where "h4 = [fm_version_ihl f, fm_tos f] @ be16_bytes (fm_total_length f)"
  define post where "post = fm_rest f @ pad"
  have h: "length h4 = 4" by (simp add: h4_def be16_bytes_def)
  have v: "pkt_view w m = Some (fm_macs f @ be16_bytes 0x0800 @ h4 @ fm_id_frag f @ [fm_ttl f] @ [fm_proto f] @
      fm_cksum f @ le32_bytes_of (fm_src f) @ le32_bytes_of (fm_dst f) @ fm_options f @
      be16_bytes (fm_sport f) @ be16_bytes (fm_dport f) @ post)"
    using assms(2) by (simp add: frame_bytes_def ip_bytes_def h4_def post_def)
  have l: "length (be16_bytes x) = 2" "length (le32_bytes_of y) = 4" for x y
    by (simp_all add: be16_bytes_def le32_bytes_of_def)
  note at = rd_bytes_at [of w m]
  note lens = m12 i4 c2 h l
  have "rd_bytes w m 12 2 = Some (be16_bytes 0x0800)"
    by (rule at [of "fm_macs f"]) (use v lens in simp_all)
  then have "ether_type w m = Some (htons RTE_ETHER_TYPE_IPV4)"
    by (simp add: ether_type_def rd16_def be16_bytes_def RTE_ETHER_TYPE_IPV4_def htons_def bswap16_def)
  moreover have "rd_bytes w m 14 1 = Some [fm_version_ihl f]"
    by (rule at [of "fm_macs f @ be16_bytes 0x0800" _ "tl (drop 14 (the (pkt_view w m)))"])
       (use v lens in \<open>simp_all add: h4_def\<close>)
  then have "ip_version_ihl w m = Some (fm_version_ihl f)"
    by (simp add: ip_version_ihl_def rd8_def sizeof_ether_hdr_def)
  moreover have "rd_bytes w m 23 1 = Some [fm_proto f]"
    by (rule at [of "fm_macs f @ be16_bytes 0x0800 @ h4 @ fm_id_frag f @ [fm_ttl f]"]) (use v lens in simp_all)
  then have "ip_next_proto_id w m = Some (fm_proto f)"
    by (simp add: ip_next_proto_id_def rd8_def sizeof_ether_hdr_def)
  moreover have "rd_bytes w m 26 4 = Some (le32_bytes_of (fm_src f))"
    by (rule at [of "fm_macs f @ be16_bytes 0x0800 @ h4 @ fm_id_frag f @ [fm_ttl f] @ [fm_proto f] @ fm_cksum f"])
       (use v lens in simp_all)
  then have "ip_src_addr w m = Some (fm_src f)"
    by (simp add: ip_src_addr_def rd32_def sizeof_ether_hdr_def le32_bytes_of_def le32_bytes)
  moreover have "rd_bytes w m 30 4 = Some (le32_bytes_of (fm_dst f))"
    by (rule at [of "fm_macs f @ be16_bytes 0x0800 @ h4 @ fm_id_frag f @ [fm_ttl f] @ [fm_proto f] @ fm_cksum f @
        le32_bytes_of (fm_src f)"]) (use v lens in simp_all)
  then have "ip_dst_addr w m = Some (fm_dst f)"
    by (simp add: ip_dst_addr_def rd32_def sizeof_ether_hdr_def le32_bytes_of_def le32_bytes)
  moreover have "l4_offset (fm_version_ihl f) = 34 + length (fm_options f)"
    using ihl by (simp add: l4_offset_def sizeof_ether_hdr_def)
  moreover have "rd_bytes w m (34 + length (fm_options f)) 2 = Some (be16_bytes (fm_sport f))"
    by (rule at [of "fm_macs f @ be16_bytes 0x0800 @ h4 @ fm_id_frag f @ [fm_ttl f] @ [fm_proto f] @ fm_cksum f @
        le32_bytes_of (fm_src f) @ le32_bytes_of (fm_dst f) @ fm_options f"]) (use v lens in simp_all)
  then have "rd16 w m (34 + length (fm_options f)) = Some (htons (fm_sport f))"
    by (simp add: rd16_def be16_bytes_def be16_read)
  moreover have "rd_bytes w m (34 + length (fm_options f) + 2) 2 = Some (be16_bytes (fm_dport f))"
    by (rule at [of "fm_macs f @ be16_bytes 0x0800 @ h4 @ fm_id_frag f @ [fm_ttl f] @ [fm_proto f] @ fm_cksum f @
        le32_bytes_of (fm_src f) @ le32_bytes_of (fm_dst f) @ fm_options f @ be16_bytes (fm_sport f)"])
       (use v lens in simp_all)
  then have "rd16 w m (34 + length (fm_options f) + 2) = Some (htons (fm_dport f))"
    by (simp add: rd16_def be16_bytes_def be16_read)
  ultimately show ?thesis using p by (auto simp: classify_def IPPROTO_TCP_def IPPROTO_UDP_def)
qed

text \<open>What goes to a TUN device: the IP packet, if its length field is right.\<close>

lemma tun_bytes_frame:
  assumes "frame_ok f" "pkt_view w m = Some (frame_bytes f @ pad)"
    and "unat (fm_total_length f) = length (ip_bytes f)"
  shows "ip_total_length w m = Some (htons (fm_total_length f))"
    and "rd_bytes w m sizeof_ether_hdr (unat (fm_total_length f)) = Some (ip_bytes f)"
proof -
  have m12: "length (fm_macs f) = 12" using assms(1) by (simp add: frame_ok_def)
  have "rd_bytes w m 16 2 = Some (be16_bytes (fm_total_length f))"
    by (rule rd_bytes_at [of w m "fm_macs f @ be16_bytes 0x0800 @ [fm_version_ihl f, fm_tos f]" _
        "drop 4 (ip_bytes f) @ pad"])
       (use assms(2) m12 in \<open>simp_all add: frame_bytes_def ip_bytes_def be16_bytes_def\<close>)
  then show "ip_total_length w m = Some (htons (fm_total_length f))"
    by (simp add: ip_total_length_def rd16_def sizeof_ether_hdr_def be16_bytes_def be16_read)
  show "rd_bytes w m sizeof_ether_hdr (unat (fm_total_length f)) = Some (ip_bytes f)"
    by (rule rd_bytes_at [of w m "fm_macs f @ be16_bytes 0x0800" _ pad])
       (use assms(2,3) m12 in \<open>simp_all add: frame_bytes_def be16_bytes_def sizeof_ether_hdr_def\<close>)
qed

end
