(* ===== verification/Mempool_Ring.thy ===== *)
theory Mempool_Ring
  imports Ring_Registry Mempool
begin

text \<open>
  The ring driver of memory pools (\<open>drivers/mempool/ring/rte_mempool_ring.c\<close>): the common
  pool is a ring of pointers. Each of its six ops structures meets the contract
  \<open>mempool_driver\<close>.
\<close>

section \<open>Callbacks\<close>

definition common_ring_mp_enqueue :: "addr rte_ring \<Rightarrow> addr list \<Rightarrow> u32 \<Rightarrow> (int \<times> addr rte_ring) option" where
  "common_ring_mp_enqueue r obj_table n =
     do { (m, _, r) \<leftarrow> rte_ring_mp_enqueue_bulk r obj_table n; Some (if m = 0 then - ENOBUFS else 0, r) }"

definition common_ring_sp_enqueue :: "addr rte_ring \<Rightarrow> addr list \<Rightarrow> u32 \<Rightarrow> (int \<times> addr rte_ring) option" where
  "common_ring_sp_enqueue r obj_table n =
     do { (m, _, r) \<leftarrow> rte_ring_sp_enqueue_bulk r obj_table n; Some (if m = 0 then - ENOBUFS else 0, r) }"

definition rts_ring_mp_enqueue :: "addr rte_ring \<Rightarrow> addr list \<Rightarrow> u32 \<Rightarrow> (int \<times> addr rte_ring) option" where
  "rts_ring_mp_enqueue r obj_table n =
     do { (m, _, r) \<leftarrow> rte_ring_mp_rts_enqueue_bulk r obj_table n; Some (if m = 0 then - ENOBUFS else 0, r) }"

definition hts_ring_mp_enqueue :: "addr rte_ring \<Rightarrow> addr list \<Rightarrow> u32 \<Rightarrow> (int \<times> addr rte_ring) option" where
  "hts_ring_mp_enqueue r obj_table n =
     do { (m, _, r) \<leftarrow> rte_ring_mp_hts_enqueue_bulk r obj_table n; Some (if m = 0 then - ENOBUFS else 0, r) }"

definition common_ring_mc_dequeue :: "addr rte_ring \<Rightarrow> addr list \<Rightarrow> u32 \<Rightarrow> (int \<times> addr list \<times> addr rte_ring) option" where
  "common_ring_mc_dequeue r obj_table n =
     do { (m, t, _, r) \<leftarrow> rte_ring_mc_dequeue_bulk r obj_table n; Some (if m = 0 then - ENOBUFS else 0, t, r) }"

definition common_ring_sc_dequeue :: "addr rte_ring \<Rightarrow> addr list \<Rightarrow> u32 \<Rightarrow> (int \<times> addr list \<times> addr rte_ring) option" where
  "common_ring_sc_dequeue r obj_table n =
     do { (m, t, _, r) \<leftarrow> rte_ring_sc_dequeue_bulk r obj_table n; Some (if m = 0 then - ENOBUFS else 0, t, r) }"

definition rts_ring_mc_dequeue :: "addr rte_ring \<Rightarrow> addr list \<Rightarrow> u32 \<Rightarrow> (int \<times> addr list \<times> addr rte_ring) option" where
  "rts_ring_mc_dequeue r obj_table n =
     do { (m, t, _, r) \<leftarrow> rte_ring_mc_rts_dequeue_bulk r obj_table n; Some (if m = 0 then - ENOBUFS else 0, t, r) }"

definition hts_ring_mc_dequeue :: "addr rte_ring \<Rightarrow> addr list \<Rightarrow> u32 \<Rightarrow> (int \<times> addr list \<times> addr rte_ring) option" where
  "hts_ring_mc_dequeue r obj_table n =
     do { (m, t, _, r) \<leftarrow> rte_ring_mc_hts_dequeue_bulk r obj_table n; Some (if m = 0 then - ENOBUFS else 0, t, r) }"

definition common_ring_get_count :: "addr rte_ring \<Rightarrow> u32" where
  "common_ring_get_count r = rte_ring_count r"

section \<open>Allocation\<close>

definition RTE_MEMPOOL_F_SP_PUT :: u32 where "RTE_MEMPOOL_F_SP_PUT = 0x0004"
definition RTE_MEMPOOL_F_SC_GET :: u32 where "RTE_MEMPOOL_F_SC_GET = 0x0008"

text \<open>What ring creation gets from EAL (see \<open>Ring_Registry\<close>).\<close>

record ring_env =
  re_reserve :: "string \<Rightarrow> int \<Rightarrow> int + addr \<times> addr rte_ring"
  re_te_ok :: bool
  re_registry :: ring_registry

definition ring_alloc ::
  "ring_env \<Rightarrow> addr rte_ring rte_mempool \<Rightarrow> u32 \<Rightarrow> int \<times> addr rte_ring rte_mempool \<times> ring_env" where
  "ring_alloc env mp rg_flags =
     (let rg_name = ''MP_'' @ mp_name mp
      in if RTE_RING_NAMESIZE \<le> length rg_name then (- ENAMETOOLONG, mp, env)
      else let (res, reg) = rte_ring_create (re_reserve env) (re_te_ok env) (re_registry env)
                 rg_name (rte_align32pow2 (mp_size mp + 1)) rg_flags;
               env = env\<lparr>re_registry := reg\<rparr>
           in case res of
                Inl rte_errno \<Rightarrow> (- rte_errno, mp, env)
              | Inr (_, r) \<Rightarrow> (0, mp\<lparr>mp_pool_data := Some r\<rparr>, env))"

definition common_ring_alloc ::
  "ring_env \<Rightarrow> addr rte_ring rte_mempool \<Rightarrow> int \<times> addr rte_ring rte_mempool \<times> ring_env" where
  "common_ring_alloc env mp =
     (let rg_flags = 0;
          rg_flags = (if mp_flags mp AND RTE_MEMPOOL_F_SP_PUT \<noteq> 0 then rg_flags OR RING_F_SP_ENQ else rg_flags);
          rg_flags = (if mp_flags mp AND RTE_MEMPOOL_F_SC_GET \<noteq> 0 then rg_flags OR RING_F_SC_DEQ else rg_flags)
      in ring_alloc env mp rg_flags)"

definition rts_ring_alloc ::
  "ring_env \<Rightarrow> addr rte_ring rte_mempool \<Rightarrow> int \<times> addr rte_ring rte_mempool \<times> ring_env" where
  "rts_ring_alloc env mp = ring_alloc env mp (RING_F_MP_RTS_ENQ OR RING_F_MC_RTS_DEQ)"

definition hts_ring_alloc ::
  "ring_env \<Rightarrow> addr rte_ring rte_mempool \<Rightarrow> int \<times> addr rte_ring rte_mempool \<times> ring_env" where
  "hts_ring_alloc env mp = ring_alloc env mp (RING_F_MP_HTS_ENQ OR RING_F_MC_HTS_DEQ)"

definition common_ring_free :: "int \<Rightarrow> ring_registry \<Rightarrow> addr rte_ring rte_mempool \<Rightarrow> ring_registry" where
  "common_ring_free mz_free reg mp =
     rte_ring_free mz_free reg (map_option (\<lambda>r. (the (r_memzone r), r)) (mp_pool_data mp))"

section \<open>The ops structures\<close>

text \<open>The field \<open>alloc\<close> keeps of an allocation what it does to the pool.\<close>

definition pool_part :: "(ring_env \<Rightarrow> 'm \<Rightarrow> int \<times> 'm \<times> ring_env) \<Rightarrow> ring_env \<Rightarrow> 'm \<Rightarrow> int \<times> 'm" where
  "pool_part alloc env mp = (case alloc env mp of (ret, mp, _) \<Rightarrow> (ret, mp))"

definition ops_mp_mc :: "ring_env \<Rightarrow> addr rte_ring rte_mempool_ops" where
  "ops_mp_mc env = \<lparr>ops_name = ''ring_mp_mc'', ops_alloc = pool_part common_ring_alloc env,
     ops_enqueue = common_ring_mp_enqueue, ops_dequeue = common_ring_mc_dequeue,
     ops_get_count = common_ring_get_count\<rparr>"

definition ops_sp_sc :: "ring_env \<Rightarrow> addr rte_ring rte_mempool_ops" where
  "ops_sp_sc env = \<lparr>ops_name = ''ring_sp_sc'', ops_alloc = pool_part common_ring_alloc env,
     ops_enqueue = common_ring_sp_enqueue, ops_dequeue = common_ring_sc_dequeue,
     ops_get_count = common_ring_get_count\<rparr>"

definition ops_mp_sc :: "ring_env \<Rightarrow> addr rte_ring rte_mempool_ops" where
  "ops_mp_sc env = \<lparr>ops_name = ''ring_mp_sc'', ops_alloc = pool_part common_ring_alloc env,
     ops_enqueue = common_ring_mp_enqueue, ops_dequeue = common_ring_sc_dequeue,
     ops_get_count = common_ring_get_count\<rparr>"

definition ops_sp_mc :: "ring_env \<Rightarrow> addr rte_ring rte_mempool_ops" where
  "ops_sp_mc env = \<lparr>ops_name = ''ring_sp_mc'', ops_alloc = pool_part common_ring_alloc env,
     ops_enqueue = common_ring_sp_enqueue, ops_dequeue = common_ring_mc_dequeue,
     ops_get_count = common_ring_get_count\<rparr>"

definition ops_mt_rts :: "ring_env \<Rightarrow> addr rte_ring rte_mempool_ops" where
  "ops_mt_rts env = \<lparr>ops_name = ''ring_mt_rts'', ops_alloc = pool_part rts_ring_alloc env,
     ops_enqueue = rts_ring_mp_enqueue, ops_dequeue = rts_ring_mc_dequeue,
     ops_get_count = common_ring_get_count\<rparr>"

definition ops_mt_hts :: "ring_env \<Rightarrow> addr rte_ring rte_mempool_ops" where
  "ops_mt_hts env = \<lparr>ops_name = ''ring_mt_hts'', ops_alloc = pool_part hts_ring_alloc env,
     ops_enqueue = hts_ring_mp_enqueue, ops_dequeue = hts_ring_mc_dequeue,
     ops_get_count = common_ring_get_count\<rparr>"

text \<open>The order of \<open>RTE_MEMPOOL_REGISTER_OPS\<close>.\<close>

definition ring_ops_table :: "ring_env \<Rightarrow> addr rte_ring ops_table" where
  "ring_ops_table env =
     [ops_mp_mc env, ops_sp_sc env, ops_mp_sc env, ops_sp_mc env, ops_mt_rts env, ops_mt_hts env]"

lemmas ring_ops_defs = ops_mp_mc_def ops_sp_sc_def ops_mp_sc_def ops_sp_mc_def ops_mt_rts_def ops_mt_hts_def

section \<open>The contract\<close>

text \<open>
  A bulk operation that behaves on the rings of one mode as \<open>rte_ring_enqueue_bulk_elem\<close>
  and \<open>rte_ring_dequeue_bulk_elem\<close> do.
\<close>

definition ring_rts :: "bool \<Rightarrow> addr rte_ring \<Rightarrow> bool" where
  "ring_rts rts r \<longleftrightarrow> ring_inv r \<and>
     (ht_sync_type (r_prod r) = RTE_RING_SYNC_MT_RTS) = rts \<and>
     (ht_sync_type (r_cons r) = RTE_RING_SYNC_MT_RTS) = rts"

definition ring_bag :: "addr rte_ring \<Rightarrow> addr multiset" where
  "ring_bag r = mset (ring_list r)"

lemma same_ring_rts: "same_ring r r' \<Longrightarrow> ring_inv r' \<Longrightarrow> ring_rts rts r \<Longrightarrow> ring_rts rts r'"
  by (simp add: ring_rts_def same_ring_def)

lemma ring_room_used: "ring_inv r \<Longrightarrow> ring_room r = unat (r_capacity r) - length (ring_list r)"
  using rte_ring_free_count_used [of r] by (simp add: ring_room_def)

lemma size_ring_bag: "size (ring_bag r) = ring_used r"
  by (simp add: ring_bag_def)

lemma admit_fixed:
  "admit RTE_RING_QUEUE_FIXED n avail = (if avail < n then 0 else n)"
  by (simp add: admit_def)

lemma fixed_refused:
  assumes "ring_inv r" "avail < n \<or> n = 0"
  shows "avail = rte_ring_free_count r \<Longrightarrow> ht_sync_type (r_prod r) \<noteq> RTE_RING_SYNC_MT_RTS \<Longrightarrow>
      rte_ring_do_enqueue_elem r t esize n RTE_RING_QUEUE_FIXED sp = Some (0, avail, r)"
    "avail = rte_ring_free_count r \<Longrightarrow> ht_sync_type (r_prod r) \<noteq> RTE_RING_SYNC_MT_RTS \<Longrightarrow>
      rte_ring_do_hts_enqueue_elem r t esize n RTE_RING_QUEUE_FIXED = Some (0, avail, r)"
    "avail = rte_ring_free_count r \<Longrightarrow> ht_sync_type (r_prod r) = RTE_RING_SYNC_MT_RTS \<Longrightarrow>
      rte_ring_do_rts_enqueue_elem r t esize n RTE_RING_QUEUE_FIXED = Some (0, avail, r)"
    "avail = rte_ring_count r \<Longrightarrow> ht_sync_type (r_cons r) \<noteq> RTE_RING_SYNC_MT_RTS \<Longrightarrow>
      rte_ring_do_dequeue_elem r t esize n RTE_RING_QUEUE_FIXED sc = Some (0, t, avail, r)"
    "avail = rte_ring_count r \<Longrightarrow> ht_sync_type (r_cons r) \<noteq> RTE_RING_SYNC_MT_RTS \<Longrightarrow>
      rte_ring_do_hts_dequeue_elem r t esize n RTE_RING_QUEUE_FIXED = Some (0, t, avail, r)"
    "avail = rte_ring_count r \<Longrightarrow> ht_sync_type (r_cons r) = RTE_RING_SYNC_MT_RTS \<Longrightarrow>
      rte_ring_do_rts_dequeue_elem r t esize n RTE_RING_QUEUE_FIXED = Some (0, t, avail, r)"
proof -
  note qp = quiescent_head [OF ring_inv_quiescent(1) [OF assms(1)]]
  note qpr = quiescent_rts [OF ring_inv_quiescent(1) [OF assms(1)]]
  note qc = quiescent_head [OF ring_inv_quiescent(2) [OF assms(1)]]
  note qcr = quiescent_rts [OF ring_inv_quiescent(2) [OF assms(1)]]
  note d = rte_ring_free_diff [OF assms(1)] rte_ring_count_diff [OF assms(1)]
  have z: "admit RTE_RING_QUEUE_FIXED n avail = 0" using assms(2) by (auto simp: admit_fixed)
  note defs = rte_ring_do_enqueue_elem_def rte_ring_move_prod_head_def
    rte_ring_do_hts_enqueue_elem_def rte_ring_hts_move_prod_head_def rte_ring_hts_head_wait_def
    rte_ring_do_rts_enqueue_elem_def rte_ring_rts_move_prod_head_def rte_ring_rts_head_wait_def
    rte_ring_do_dequeue_elem_def rte_ring_move_cons_head_def
    rte_ring_do_hts_dequeue_elem_def rte_ring_hts_move_cons_head_def
    rte_ring_do_rts_dequeue_elem_def rte_ring_rts_move_cons_head_def
  { assume a: "avail = rte_ring_free_count r" and s: "ht_sync_type (r_prod r) \<noteq> RTE_RING_SYNC_MT_RTS"
    show "rte_ring_do_enqueue_elem r t esize n RTE_RING_QUEUE_FIXED sp = Some (0, avail, r)"
      "rte_ring_do_hts_enqueue_elem r t esize n RTE_RING_QUEUE_FIXED = Some (0, avail, r)"
      using z qp [OF s] by (simp_all add: defs Let_def d a) }
  { assume a: "avail = rte_ring_free_count r" and s: "ht_sync_type (r_prod r) = RTE_RING_SYNC_MT_RTS"
    show "rte_ring_do_rts_enqueue_elem r t esize n RTE_RING_QUEUE_FIXED = Some (0, avail, r)"
      using z qpr [OF s] by (simp add: defs Let_def d a) }
  { assume a: "avail = rte_ring_count r" and s: "ht_sync_type (r_cons r) \<noteq> RTE_RING_SYNC_MT_RTS"
    show "rte_ring_do_dequeue_elem r t esize n RTE_RING_QUEUE_FIXED sc = Some (0, t, avail, r)"
      "rte_ring_do_hts_dequeue_elem r t esize n RTE_RING_QUEUE_FIXED = Some (0, t, avail, r)"
      using z qc [OF s] by (simp_all add: defs Let_def d a) }
  { assume a: "avail = rte_ring_count r" and s: "ht_sync_type (r_cons r) = RTE_RING_SYNC_MT_RTS"
    show "rte_ring_do_rts_dequeue_elem r t esize n RTE_RING_QUEUE_FIXED = Some (0, t, avail, r)"
      using z qcr [OF s] by (simp add: defs Let_def d a) }
qed

text \<open>A driver whose callbacks are bulk operations of rings that are relaxed-tail-sync, or are not.\<close>

locale ring_driver =
  fixes drv :: "addr rte_ring rte_mempool_ops" and rts :: bool
  assumes enq_ok: "ring_rts rts r \<Longrightarrow> n \<noteq> 0 \<Longrightarrow> n \<le> rte_ring_free_count r \<Longrightarrow> unat n \<le> length t \<Longrightarrow>
      \<exists>r'. ops_enqueue drv r t n = Some (0, r') \<and> enqueued r t n r'"
    and enq_none: "ring_rts rts r \<Longrightarrow> ops_enqueue drv r t 0 = Some (- ENOBUFS, r)"
    and deq_ok: "ring_rts rts r \<Longrightarrow> n \<noteq> 0 \<Longrightarrow> n \<le> rte_ring_count r \<Longrightarrow> unat n \<le> length t \<Longrightarrow>
      \<exists>t' r'. ops_dequeue drv r t n = Some (0, t', r') \<and> dequeued r t n t' r'"
    and deq_none: "ring_rts rts r \<Longrightarrow> rte_ring_count r < n \<Longrightarrow>
      ops_dequeue drv r t n = Some (- ENOBUFS, t, r)"
    and cnt: "ops_get_count drv r = rte_ring_count r"

sublocale ring_driver \<subseteq> mempool_driver drv "ring_rts rts" ring_bag ring_room
proof unfold_locales
  fix p :: "addr rte_ring" and n :: u32 and t :: "addr list"
  assume r: "ring_rts rts p"
  then have i: "ring_inv p" by (simp add: ring_rts_def)
  have used: "unat (rte_ring_count p) = ring_used p" by (rule rte_ring_count_used [OF i])
  show "\<exists>e. ops_enqueue drv p t 0 = Some (e, p)" using enq_none [OF r] by blast
  show "unat (ops_get_count drv p) = size (ring_bag p)" using used by (simp add: cnt size_ring_bag)
  { assume n: "n \<noteq> 0" "unat n \<le> length t" "unat n \<le> ring_room p"
    then have "n \<le> rte_ring_free_count p" by (simp add: ring_room_def word_le_nat_alt)
    from enq_ok [OF r n(1) this n(2)] obtain r' where
      r': "ops_enqueue drv p t n = Some (0, r')" "enqueued p t n r'" by blast
    then have "ring_room r' = ring_room p - unat n"
      using n(3) by (simp add: enqueued_def ring_room_def unat_sub_nowrap)
    with r' r show "\<exists>p'. ops_enqueue drv p t n = Some (0, p') \<and> ring_rts rts p' \<and>
        ring_bag p' = ring_bag p + mset (take (unat n) t) \<and> ring_room p' = ring_room p - unat n"
      by (intro exI [of _ r']) (auto simp: enqueued_def ring_bag_def intro: same_ring_rts) }
  { assume n: "n \<noteq> 0" "unat n \<le> length t" "unat n \<le> size (ring_bag p)"
    then have "n \<le> rte_ring_count p" using used by (simp add: size_ring_bag word_le_nat_alt)
    from deq_ok [OF r n(1) this n(2)] obtain t' r' where
      r': "ops_dequeue drv p t n = Some (0, t', r')" "dequeued p t n t' r'" by blast
    then have d: "ring_inv r'" "ring_list r' = drop (unat n) (ring_list p)" "same_ring p r'"
      "t' = take (unat n) (ring_list p) @ drop (unat n) t" by (simp_all add: dequeued_def)
    have len: "ring_used p \<le> unat (r_capacity p)" using i by (simp add: ring_inv_def)
    have "ring_room r' = ring_room p + unat n"
      using ring_room_used [OF d(1)] ring_room_used [OF i] d(2,3) n(3) len
      by (simp add: size_ring_bag same_ring_def)
    with r' r d n(3) show "\<exists>xs p'. ops_dequeue drv p t n = Some (0, xs @ drop (unat n) t, p') \<and>
        ring_rts rts p' \<and> length xs = unat n \<and> ring_bag p = mset xs + ring_bag p' \<and>
        ring_room p' = ring_room p + unat n"
      by (intro exI [of _ "take (unat n) (ring_list p)"] exI [of _ r'])
         (auto simp: ring_bag_def size_ring_bag mset_take_drop intro: same_ring_rts) }
  { assume "unat n \<le> length t" "size (ring_bag p) < unat n"
    then have "rte_ring_count p < n" using used by (simp add: size_ring_bag word_less_nat_alt)
    from deq_none [OF r this] show "\<exists>e<0. ops_dequeue drv p t n = Some (e, t, p)"
      by (intro exI [of _ "- ENOBUFS"]) simp }
qed

lemmas ring_callback_defs =
  common_ring_mp_enqueue_def common_ring_sp_enqueue_def rts_ring_mp_enqueue_def hts_ring_mp_enqueue_def
  common_ring_mc_dequeue_def common_ring_sc_dequeue_def rts_ring_mc_dequeue_def hts_ring_mc_dequeue_def
  rte_ring_mp_enqueue_bulk_def rte_ring_sp_enqueue_bulk_def rte_ring_mp_rts_enqueue_bulk_def
  rte_ring_mp_hts_enqueue_bulk_def rte_ring_mc_dequeue_bulk_def rte_ring_sc_dequeue_bulk_def
  rte_ring_mc_rts_dequeue_bulk_def rte_ring_mc_hts_dequeue_bulk_def ring_mode_defs

lemma fixed_enqueue:
  assumes "ring_inv r" "n \<le> rte_ring_free_count r" "unat n \<le> length t"
  shows "ht_sync_type (r_prod r) \<noteq> RTE_RING_SYNC_MT_RTS \<Longrightarrow>
      \<exists>free r'. rte_ring_do_enqueue_elem r t 8 n RTE_RING_QUEUE_FIXED sp = Some (n, free, r') \<and> enqueued r t n r'"
    "ht_sync_type (r_prod r) \<noteq> RTE_RING_SYNC_MT_RTS \<Longrightarrow>
      \<exists>free r'. rte_ring_do_hts_enqueue_elem r t 8 n RTE_RING_QUEUE_FIXED = Some (n, free, r') \<and> enqueued r t n r'"
    "ht_sync_type (r_prod r) = RTE_RING_SYNC_MT_RTS \<Longrightarrow>
      \<exists>free r'. rte_ring_do_rts_enqueue_elem r t 8 n RTE_RING_QUEUE_FIXED = Some (n, free, r') \<and> enqueued r t n r'"
  using rte_ring_do_enqueue_elem_ok [OF assms(1), of 8 n RTE_RING_QUEUE_FIXED n t sp]
    rte_ring_do_hts_enqueue_elem_ok [OF assms(1), of 8 n RTE_RING_QUEUE_FIXED n t]
    rte_ring_do_rts_enqueue_elem_ok [OF assms(1), of 8 n RTE_RING_QUEUE_FIXED n t] assms(3)
  by (fastforce simp: admit_enough [OF assms(2)] unit_esize_def)+

lemma fixed_dequeue:
  assumes "ring_inv r" "n \<le> rte_ring_count r" "unat n \<le> length t"
  shows "ht_sync_type (r_cons r) \<noteq> RTE_RING_SYNC_MT_RTS \<Longrightarrow>
      \<exists>t' left r'. rte_ring_do_dequeue_elem r t 8 n RTE_RING_QUEUE_FIXED sc = Some (n, t', left, r') \<and> dequeued r t n t' r'"
    "ht_sync_type (r_cons r) \<noteq> RTE_RING_SYNC_MT_RTS \<Longrightarrow>
      \<exists>t' left r'. rte_ring_do_hts_dequeue_elem r t 8 n RTE_RING_QUEUE_FIXED = Some (n, t', left, r') \<and> dequeued r t n t' r'"
    "ht_sync_type (r_cons r) = RTE_RING_SYNC_MT_RTS \<Longrightarrow>
      \<exists>t' left r'. rte_ring_do_rts_dequeue_elem r t 8 n RTE_RING_QUEUE_FIXED = Some (n, t', left, r') \<and> dequeued r t n t' r'"
  using rte_ring_do_dequeue_elem_ok [OF assms(1), of 8 n RTE_RING_QUEUE_FIXED n t sc]
    rte_ring_do_hts_dequeue_elem_ok [OF assms(1), of 8 n RTE_RING_QUEUE_FIXED n t]
    rte_ring_do_rts_dequeue_elem_ok [OF assms(1), of 8 n RTE_RING_QUEUE_FIXED n t] assms(3)
  by (fastforce simp: admit_enough [OF assms(2)] unit_esize_def)+

lemma ring_rtsD:
  assumes "ring_rts rts r"
  shows "ring_inv r" "rts \<Longrightarrow> ht_sync_type (r_prod r) = RTE_RING_SYNC_MT_RTS"
    "\<not> rts \<Longrightarrow> ht_sync_type (r_prod r) \<noteq> RTE_RING_SYNC_MT_RTS"
    "rts \<Longrightarrow> ht_sync_type (r_cons r) = RTE_RING_SYNC_MT_RTS"
    "\<not> rts \<Longrightarrow> ht_sync_type (r_cons r) \<noteq> RTE_RING_SYNC_MT_RTS"
  using assms by (simp_all add: ring_rts_def)

text \<open>Each callback of the driver, on the rings it is used with.\<close>

lemma enqueue_callback:
  assumes "ring_rts rts r"
    and enq: "\<not> rts \<and> enq \<in> {common_ring_mp_enqueue, common_ring_sp_enqueue, hts_ring_mp_enqueue} \<or>
      rts \<and> enq = rts_ring_mp_enqueue"
  shows "n \<noteq> 0 \<Longrightarrow> n \<le> rte_ring_free_count r \<Longrightarrow> unat n \<le> length t \<Longrightarrow>
      \<exists>r'. enq r t n = Some (0, r') \<and> enqueued r t n r'"
    "enq r t 0 = Some (- ENOBUFS, r)"
proof -
  note i = ring_rtsD(1) [OF assms(1)] and s = ring_rtsD(2,3) [OF assms(1)]
  from enq consider "\<not> rts" "enq = common_ring_mp_enqueue" | "\<not> rts" "enq = common_ring_sp_enqueue"
    | "\<not> rts" "enq = hts_ring_mp_enqueue" | "rts" "enq = rts_ring_mp_enqueue" by auto
  note c = this
  show "\<exists>r'. enq r t n = Some (0, r') \<and> enqueued r t n r'"
    if n: "n \<noteq> 0" "n \<le> rte_ring_free_count r" "unat n \<le> length t"
    using c
  proof cases
    case 1
    from fixed_enqueue(1) [OF i n(2,3) s(2) [OF 1(1)], of False] n(1) 1(2) show ?thesis
      by (auto simp: ring_callback_defs)
  next
    case 2
    from fixed_enqueue(1) [OF i n(2,3) s(2) [OF 2(1)], of True] n(1) 2(2) show ?thesis
      by (auto simp: ring_callback_defs)
  next
    case 3
    from fixed_enqueue(2) [OF i n(2,3) s(2) [OF 3(1)]] n(1) 3(2) show ?thesis
      by (auto simp: ring_callback_defs)
  next
    case 4
    from fixed_enqueue(3) [OF i n(2,3) s(1) [OF 4(1)]] n(1) 4(2) show ?thesis
      by (auto simp: ring_callback_defs)
  qed
  note f = fixed_refused(1-3) [OF i disjI2 [OF refl] refl]
  show "enq r t 0 = Some (- ENOBUFS, r)"
    using c by cases (simp_all add: ring_callback_defs f s)
qed

lemma dequeue_callback:
  assumes "ring_rts rts r"
    and deq: "\<not> rts \<and> deq \<in> {common_ring_mc_dequeue, common_ring_sc_dequeue, hts_ring_mc_dequeue} \<or>
      rts \<and> deq = rts_ring_mc_dequeue"
  shows "n \<noteq> 0 \<Longrightarrow> n \<le> rte_ring_count r \<Longrightarrow> unat n \<le> length t \<Longrightarrow>
      \<exists>t' r'. deq r t n = Some (0, t', r') \<and> dequeued r t n t' r'"
    "rte_ring_count r < n \<Longrightarrow> deq r t n = Some (- ENOBUFS, t, r)"
proof -
  note i = ring_rtsD(1) [OF assms(1)] and s = ring_rtsD(4,5) [OF assms(1)]
  from deq consider "\<not> rts" "deq = common_ring_mc_dequeue" | "\<not> rts" "deq = common_ring_sc_dequeue"
    | "\<not> rts" "deq = hts_ring_mc_dequeue" | "rts" "deq = rts_ring_mc_dequeue" by auto
  note c = this
  show "\<exists>t' r'. deq r t n = Some (0, t', r') \<and> dequeued r t n t' r'"
    if n: "n \<noteq> 0" "n \<le> rte_ring_count r" "unat n \<le> length t"
    using c
  proof cases
    case 1
    from fixed_dequeue(1) [OF i n(2,3) s(2) [OF 1(1)], of False] n(1) 1(2) show ?thesis
      by (auto simp: ring_callback_defs)
  next
    case 2
    from fixed_dequeue(1) [OF i n(2,3) s(2) [OF 2(1)], of True] n(1) 2(2) show ?thesis
      by (auto simp: ring_callback_defs)
  next
    case 3
    from fixed_dequeue(2) [OF i n(2,3) s(2) [OF 3(1)]] n(1) 3(2) show ?thesis
      by (auto simp: ring_callback_defs)
  next
    case 4
    from fixed_dequeue(3) [OF i n(2,3) s(1) [OF 4(1)]] n(1) 4(2) show ?thesis
      by (auto simp: ring_callback_defs)
  qed
  show "deq r t n = Some (- ENOBUFS, t, r)" if n: "rte_ring_count r < n"
  proof -
    note f = fixed_refused(4-6) [OF i disjI1 [OF n] refl]
    show ?thesis using c by cases (simp_all add: ring_callback_defs f s)
  qed
qed

lemmas callbacks = enqueue_callback dequeue_callback

interpretation mp_mc: ring_driver "ops_mp_mc env" False for env
  by unfold_locales (auto simp: ring_ops_defs common_ring_get_count_def intro!: callbacks)

interpretation sp_sc: ring_driver "ops_sp_sc env" False for env
  by unfold_locales (auto simp: ring_ops_defs common_ring_get_count_def intro!: callbacks)

interpretation mp_sc: ring_driver "ops_mp_sc env" False for env
  by unfold_locales (auto simp: ring_ops_defs common_ring_get_count_def intro!: callbacks)

interpretation sp_mc: ring_driver "ops_sp_mc env" False for env
  by unfold_locales (auto simp: ring_ops_defs common_ring_get_count_def intro!: callbacks)

interpretation mt_rts: ring_driver "ops_mt_rts env" True for env
  by unfold_locales (auto simp: ring_ops_defs common_ring_get_count_def intro!: callbacks)

interpretation mt_hts: ring_driver "ops_mt_hts env" False for env
  by unfold_locales (auto simp: ring_ops_defs common_ring_get_count_def intro!: callbacks)

end
