(* ===== verification/Pool_Properties.thy ===== *)
theory Pool_Properties
  imports Mempool_Ring Ring_Properties
begin

text \<open>
  The properties of memory pools over the ring driver (\<open>Mempool\<close>, \<open>Mempool_Ring\<close>). They hold
  for each of the six registered modes; \<open>pool7\<close> is a pool with caches of two objects.
\<close>

section \<open>The six modes\<close>

definition ring_mode :: "ring_env \<Rightarrow> nat \<Rightarrow> addr rte_ring rte_mempool_ops" where
  "ring_mode env i = ring_ops_table env ! i"

abbreviation ring_pool_ok :: "ring_env \<Rightarrow> nat \<Rightarrow> addr rte_ring rte_mempool \<Rightarrow> bool" where
  "ring_pool_ok env i \<equiv> pool_ok (ring_mode env i) (ring_rts (i = 4)) (ring_ops_table env)"

lemma ring_mode_driver:
  assumes "i < 6"
  shows "mempool_driver (ring_mode env i) (ring_rts (i = 4)) ring_bag ring_room"
proof -
  from assms consider "i = 0" | "i = 1" | "i = 2" | "i = 3" | "i = 4" | "i = 5" by linarith
  then show ?thesis
    by cases (simp_all add: ring_mode_def ring_ops_table_def mp_mc.mempool_driver_axioms
      sp_sc.mempool_driver_axioms mp_sc.mempool_driver_axioms sp_mc.mempool_driver_axioms
      mt_rts.mempool_driver_axioms mt_hts.mempool_driver_axioms)
qed

lemma ring_mode_0: "ring_mode env 0 = ops_mp_mc env"
  by (simp add: ring_mode_def ring_ops_table_def)

section \<open>A concrete pool\<close>

definition no_env :: ring_env where
  "no_env = \<lparr>re_reserve = (\<lambda>_ _. Inl ENOMEM), re_te_ok = True, re_registry = []\<rparr>"

definition ring8 :: "addr list \<Rightarrow> addr rte_ring" where
  "ring8 xs = (case rte_ring_enqueue_bulk (snd (rte_ring_init (raw_ring 8) ''MP_p'' 8 0)) xs (of_nat (length xs)) of
     Some (_, _, r) \<Rightarrow> r | None \<Rightarrow> raw_ring 8)"

definition pool_of :: "addr list \<Rightarrow> u32 \<Rightarrow> addr rte_ring rte_mempool" where
  "pool_of xs csz = \<lparr>mp_name = ''p'', mp_pool_data = Some (ring8 xs), mp_flags = 0, mp_socket_id = 0, mp_size = 7,
     mp_cache_size = csz, mp_elt_size = 2304, mp_header_size = 64, mp_trailer_size = 0, mp_private_data_size = 8,
     mp_ops_index = 0, mp_local_cache = replicate RTE_MAX_LCORE (mempool_cache_init zero_cache csz),
     mp_populated_size = 7, mp_elt_list = xs, mp_nb_mem_chunks = 1\<rparr>"

definition pool7 :: "addr rte_ring rte_mempool" where
  "pool7 = pool_of [0x1000, 0x2000, 0x3000, 0x4000] 2"

lemma ring8_4: "ring_rts False (ring8 [0x1000, 0x2000, 0x3000, 0x4000])"
  "ring_list (ring8 [0x1000, 0x2000, 0x3000, 0x4000]) = [0x1000, 0x2000, 0x3000, 0x4000]"
  "ring_room (ring8 [0x1000, 0x2000, 0x3000, 0x4000]) = 3"
  by code_simp+

lemma caches_bag_fresh: "caches_bag (replicate n (mempool_cache_init zero_cache csz)) = {#}"
  by (induction n) (simp_all add: caches_bag_def)

lemma pool_of_ok:
  assumes "ring_rts False (ring8 xs)" "csz \<le> RTE_MEMPOOL_CACHE_MAX_SIZE"
  shows "ring_pool_ok env 0 (pool_of xs csz)"
proof -
  have "cache_ok (mempool_cache_init zero_cache csz)"
    using assms(2) by (intro cache_init_ok) (simp_all add: zero_cache_def)
  then show ?thesis using assms(1)
    by (simp add: pool_ok_def pool_of_def rte_mempool_get_ops_def ring_mode_def ring_ops_table_def list_all_iff)
qed

lemma pool_of_bag:
  "pool_bag ring_bag (pool_of xs csz) = mset (ring_list (ring8 xs))"
  "pool_cap ring_bag ring_room (pool_of xs csz) = ring_room (ring8 xs) + length (ring_list (ring8 xs))"
  by (simp_all add: pool_bag_def pool_cap_def pool_of_def caches_bag_fresh ring_bag_def)

lemma pool7_ok: "ring_pool_ok no_env 0 pool7"
  unfolding pool7_def by (rule pool_of_ok [OF ring8_4(1)]) (simp add: RTE_MEMPOOL_CACHE_MAX_SIZE_def)

lemma pool7_bag:
  "pool_bag ring_bag pool7 = {#0x1000, 0x2000, 0x3000, 0x4000#}" "pool_cap ring_bag ring_room pool7 = 7"
  using ring8_4 by (simp_all add: pool7_def pool_of_bag del: length_ring_list)

section \<open>Put and get\<close>

text \<open>
  C16: putting objects into a pool, whichever way its ring synchronises and whatever lcore
  runs (with its cache or, from an unregistered thread, without), adds exactly these objects
  to those that can be taken out, if the ring has room for what the pool then holds. No
  object is lost between the cache and the ring, and the pool stays well-formed.
\<close>

theorem pool_put_bulk_keeps_objects:
  assumes "i < 6" "ring_pool_ok env i mp" "unat n \<le> length t"
    and "size (pool_bag ring_bag mp) + unat n \<le> pool_cap ring_bag ring_room mp"
  shows "\<exists>mp'. rte_mempool_put_bulk (ring_ops_table env) lcore mp t n = Some mp' \<and> ring_pool_ok env i mp' \<and>
    pool_bag ring_bag mp' = pool_bag ring_bag mp + mset (take (unat n) t) \<and>
    pool_cap ring_bag ring_room mp' = pool_cap ring_bag ring_room mp \<and> same_pool mp mp'"
  by (rule mempool_driver.put_bulk_ok [OF ring_mode_driver [OF assms(1)] assms(2-4)])

theorem pool_put_bulk_keeps_objects_witness:
  "\<exists>mp'. rte_mempool_put_bulk (ring_ops_table no_env) 5 pool7 [0x5000, 0x6000, 0x7000] 3 = Some mp' \<and>
    ring_pool_ok no_env 0 mp' \<and>
    pool_bag ring_bag mp' = pool_bag ring_bag pool7 + mset (take (unat (3 :: u32)) [0x5000, 0x6000, 0x7000]) \<and>
    pool_cap ring_bag ring_room mp' = pool_cap ring_bag ring_room pool7 \<and> same_pool pool7 mp'"
  using pool_put_bulk_keeps_objects [of 0 no_env pool7 3 "[0x5000, 0x6000, 0x7000]" 5] pool7_ok
  by (simp add: pool7_bag)

text \<open>
  C17: a get of \<open>n\<close> objects either fills the first \<open>n\<close> entries of the table with objects that
  leave the pool, each as often as it was there, or returns a negative error with the table
  and the pool unchanged. It fails only if the ring itself holds fewer than \<open>n\<close> objects:
  those in the caches of other lcores are not reached.
\<close>

theorem pool_get_bulk_all_or_nothing:
  assumes "i < 6" "ring_pool_ok env i mp" "unat n \<le> length t" "n \<noteq> 0"
  shows "(\<exists>xs mp'. rte_mempool_get_bulk (ring_ops_table env) lcore mp t n = Some (0, xs @ drop (unat n) t, mp') \<and>
      length xs = unat n \<and> ring_pool_ok env i mp' \<and> pool_bag ring_bag mp = mset xs + pool_bag ring_bag mp' \<and>
      pool_cap ring_bag ring_room mp' = pool_cap ring_bag ring_room mp \<and> same_pool mp mp') \<or>
    (\<exists>e<0. rte_mempool_get_bulk (ring_ops_table env) lcore mp t n = Some (e, t, mp) \<and>
      size (ring_bag (the (mp_pool_data mp))) < unat n)"
  by (rule mempool_driver.get_bulk_ok [OF ring_mode_driver [OF assms(1)] assms(2-4)])

theorem pool_get_bulk_all_or_nothing_witness:
  "(\<exists>xs mp'. rte_mempool_get_bulk (ring_ops_table no_env) 5 pool7 [0] 1 = Some (0, xs @ drop (unat (1 :: u32)) [0], mp') \<and>
      length xs = unat (1 :: u32) \<and> ring_pool_ok no_env 0 mp' \<and> pool_bag ring_bag pool7 = mset xs + pool_bag ring_bag mp' \<and>
      pool_cap ring_bag ring_room mp' = pool_cap ring_bag ring_room pool7 \<and> same_pool pool7 mp') \<or>
    (\<exists>e<0. rte_mempool_get_bulk (ring_ops_table no_env) 5 pool7 [0] 1 = Some (e, [0], pool7) \<and>
      size (ring_bag (the (mp_pool_data pool7))) < unat (1 :: u32))"
  using pool_get_bulk_all_or_nothing [of 0 no_env pool7 1 "[0]" 5] pool7_ok by simp

section \<open>Counts\<close>

lemma cache_lens:
  "list_all cache_ok cs \<Longrightarrow> fold (\<lambda>c n. n + mc_len c) cs x = x + of_nat (size (caches_bag cs))"
proof (induction cs arbitrary: x)
  case Nil
  then show ?case by (simp add: caches_bag_def)
next
  case (Cons c cs)
  then have "mc_len c = of_nat (length (cached c))" by (simp add: length_cached)
  with Cons show ?case by (simp add: caches_bag_def add.assoc)
qed

text \<open>
  The count of available objects is the number of objects that can be taken out of the
  ring and the caches, and the count of those in use is the rest: neither the sum over the
  128 caches nor the 32-bit count of the ring wraps around.
\<close>

theorem pool_counts_exact:
  assumes "i < 6" "ring_pool_ok env i mp" "size (pool_bag ring_bag mp) \<le> unat (mp_size mp)"
    and "mp_cache_size mp = 0 \<Longrightarrow> caches_bag (mp_local_cache mp) = {#}"
  shows "\<exists>n. rte_mempool_avail_count (ring_ops_table env) mp = Some n \<and> unat n = size (pool_bag ring_bag mp) \<and>
    (\<exists>u. rte_mempool_in_use_count (ring_ops_table env) mp = Some u \<and>
      unat u = unat (mp_size mp) - size (pool_bag ring_bag mp)) \<and>
    rte_mempool_empty (ring_ops_table env) mp = Some (pool_bag ring_bag mp = {#}) \<and>
    rte_mempool_full (ring_ops_table env) mp = Some (size (pool_bag ring_bag mp) = unat (mp_size mp))"
proof -
  let ?s = "size (pool_bag ring_bag mp)"
  from assms(2) obtain r where r: "mp_pool_data mp = Some r" "ring_rts (i = 4) r" "list_all cache_ok (mp_local_cache mp)"
    "rte_mempool_get_ops (ring_ops_table env) (mp_ops_index mp) = Some (ring_mode env i)"
    by (auto simp: pool_ok_def split: option.splits)
  have c: "ops_get_count (ring_mode env i) r = of_nat (size (ring_bag r))"
    using mempool_driver.cnt_ok [OF ring_mode_driver [OF assms(1)] r(2), of env]
    by (metis of_nat_unat ucast_id)
  have lt: "?s < 2 ^ 32" using assms(3) unsigned_less [of "mp_size mp"] by (simp add: le_less_trans)
  then have u: "unat (of_nat ?s :: u32) = ?s" by (simp add: unat_of_nat)
  have "rte_mempool_avail_count (ring_ops_table env) mp = Some (of_nat ?s)"
  proof (cases "mp_cache_size mp = 0")
    case True
    with r c assms(4) show ?thesis by (simp add: rte_mempool_avail_count_def rte_mempool_ops_get_count_def pool_bag_def)
  next
    case False
    have "\<not> mp_size mp < of_nat ?s" using u assms(3) by (simp add: word_less_nat_alt)
    with False r c show ?thesis
      by (simp add: rte_mempool_avail_count_def rte_mempool_ops_get_count_def cache_lens pool_bag_def)
  qed
  moreover have "unat (mp_size mp - of_nat ?s) = unat (mp_size mp) - ?s"
    using u assms(3) by (simp add: unat_sub_nowrap word_le_nat_alt)
  moreover have "(of_nat ?s = (0 :: u32)) = (pool_bag ring_bag mp = {#})" using u by (metis size_eq_0_iff_empty unat_0 unat_eq_zero)
  moreover have "(of_nat ?s = mp_size mp) = (?s = unat (mp_size mp))" using u by (auto simp: word_unat_eq_iff)
  ultimately show ?thesis using u
    by (simp add: rte_mempool_in_use_count_def rte_mempool_empty_def rte_mempool_full_def)
qed

theorem pool_counts_exact_witness:
  "\<exists>n. rte_mempool_avail_count (ring_ops_table no_env) pool7 = Some n \<and> unat n = size (pool_bag ring_bag pool7) \<and>
    (\<exists>u. rte_mempool_in_use_count (ring_ops_table no_env) pool7 = Some u \<and>
      unat u = unat (mp_size pool7) - size (pool_bag ring_bag pool7)) \<and>
    rte_mempool_empty (ring_ops_table no_env) pool7 = Some (pool_bag ring_bag pool7 = {#}) \<and>
    rte_mempool_full (ring_ops_table no_env) pool7 = Some (size (pool_bag ring_bag pool7) = unat (mp_size pool7))"
  by (rule pool_counts_exact [of 0])
     (use pool7_ok in \<open>simp_all add: pool7_bag, simp_all add: pool7_def pool_of_def\<close>)

section \<open>Allocation\<close>

lemma set_htd_sync:
  "ht_sync_type (r_prod (snd (rte_ring_set_prod_htd_max r v))) = ht_sync_type (r_prod r)"
  "ht_sync_type (r_cons (snd (rte_ring_set_cons_htd_max r v))) = ht_sync_type (r_cons r)"
  by (auto simp: rte_ring_set_prod_htd_max_def rte_ring_set_cons_htd_max_def)

lemma rte_ring_init_sync:
  assumes "valid_ring_flags flags" "length name < RTE_RING_NAMESIZE"
    and "flags AND RING_F_EXACT_SZ = 0" "POWEROF2 cnt" "cnt \<le> RTE_RING_SZ_MASK"
  shows "get_sync_type flags RTE_RING_SYNC_MT RTE_RING_SYNC_MT =
    (0, ht_sync_type (r_prod (snd (rte_ring_init r name cnt flags))), ht_sync_type (r_cons (snd (rte_ring_init r name cnt flags))))"
proof -
  obtain p c where st: "get_sync_type flags RTE_RING_SYNC_MT RTE_RING_SYNC_MT = (0, p, c)"
    using assms(1) by (cases "get_sync_type flags RTE_RING_SYNC_MT RTE_RING_SYNC_MT") (auto simp: valid_ring_flags_def)
  have "ht_sync_type zero_headtail = RTE_RING_SYNC_MT" by (simp add: zero_headtail_def)
  with assms st show ?thesis
    by (simp add: rte_ring_init_def Let_def valid_ring_flags_def leD set_htd_max_frame set_htd_sync)
qed

lemma rte_ring_create_sync:
  assumes "rte_ring_create reserve te_ok reg name cnt flags = (Inr (mz, r), reg')"
    and "valid_ring_flags flags" "flags AND RING_F_EXACT_SZ = 0" "cnt \<le> RTE_RING_SZ_MASK"
  shows "get_sync_type flags RTE_RING_SYNC_MT RTE_RING_SYNC_MT = (0, ht_sync_type (r_prod r), ht_sync_type (r_cons r))"
proof -
  from assms(1,3) obtain raw where raw: "r = (snd (rte_ring_init raw name cnt flags))\<lparr>r_memzone := Some mz\<rparr>"
    and len: "\<not> rte_ring_get_memsize_elem 8 cnt < 0" and nm: "\<not> RTE_MEMZONE_NAMESIZE \<le> length (RTE_RING_MZ_PREFIX @ name)"
    by (auto simp: rte_ring_create_def rte_ring_create_elem_def Let_def split: if_splits sum.splits prod.splits)
       (metis snd_conv)
  have "length name < RTE_RING_NAMESIZE"
    using nm by (simp add: RTE_MEMZONE_NAMESIZE_def RTE_RING_MZ_PREFIX_def RTE_RING_NAMESIZE_def)
  moreover have "POWEROF2 cnt" using len by (auto simp: rte_ring_get_memsize_elem_def split: if_splits)
  ultimately show ?thesis using rte_ring_init_sync [OF assms(2) _ assms(3) _ assms(4), of name raw] raw by simp
qed

lemma ring_alloc_room:
  assumes "ring_alloc env mp flags = (0, mp', env')" "mp_pool_data mp = None" "mp_pool_data mp' = Some r" "reserve_ok (re_reserve env)"
    and "valid_ring_flags flags" "flags AND RING_F_EXACT_SZ = 0" "unat (mp_size mp) < 2 ^ 27"
  shows "ring_inv r" "ring_list r = []" "unat (mp_size mp) \<le> ring_room r" "mp' = mp\<lparr>mp_pool_data := Some r\<rparr>"
    "get_sync_type flags RTE_RING_SYNC_MT RTE_RING_SYNC_MT = (0, ht_sync_type (r_prod r), ht_sync_type (r_cons r))"
proof -
  let ?n = "mp_size mp + 1" and ?c = "rte_align32pow2 (mp_size mp + 1)"
  have n: "unat ?n = unat (mp_size mp) + 1" using assms(7) by (simp add: unat_add_nowrap)
  then have n0: "?n \<noteq> 0" by (metis add_is_0 one_neq_zero unat_0)
  from align32pow2_correct [OF n0] n assms(7) obtain k where
    k: "unat ?c = 2 ^ k" "unat ?n \<le> 2 ^ k" "k = 0 \<or> 2 ^ (k - 1) < unat ?n" by auto
  have "(2 :: nat) ^ k < 2 ^ 28"
    using k(3) n assms(7) by (cases k) auto
  then have c: "?c \<noteq> 0" "unat ?c < 2 ^ 28" using k(1) by auto
  from assms(1-3) obtain mz reg where
    r: "rte_ring_create (re_reserve env) (re_te_ok env) (re_registry env) (''MP_'' @ mp_name mp) ?c flags = (Inr (mz, r), reg)"
      and mp': "mp' = mp\<lparr>mp_pool_data := Some r\<rparr>"
    by (auto simp: ring_alloc_def Let_def split: prod.splits sum.splits if_splits)
  note i = rte_ring_create_inv [OF r(1) assms(4,5) c]
  have "unat (?c - 1) = 2 ^ k - 1" using k(1) c(1) by (simp add: unat_minus_one)
  then show "unat (mp_size mp) \<le> ring_room r"
    using i n k(2) assms(6) ring_room_used [OF i(1)] by (simp del: length_ring_list)
  show "ring_inv r" "ring_list r = []" "mp' = mp\<lparr>mp_pool_data := Some r\<rparr>" by (fact i mp')+
  from rte_ring_create_sync [OF r assms(5,6)]
  show "get_sync_type flags RTE_RING_SYNC_MT RTE_RING_SYNC_MT = (0, ht_sync_type (r_prod r), ht_sync_type (r_cons r))"
    using c by (simp add: RTE_RING_SZ_MASK_def word_le_nat_alt)
qed

lemma ring_sync_flags:
  "valid_ring_flags (RING_F_MP_RTS_ENQ OR RING_F_MC_RTS_DEQ)" "valid_ring_flags (RING_F_MP_HTS_ENQ OR RING_F_MC_HTS_DEQ)"
  "valid_ring_flags 0" "valid_ring_flags RING_F_SP_ENQ" "valid_ring_flags RING_F_SC_DEQ"
  "valid_ring_flags (RING_F_SP_ENQ OR RING_F_SC_DEQ)"
  by code_simp+

lemma common_flags:
  "\<exists>fl \<in> {0, RING_F_SP_ENQ, RING_F_SC_DEQ, RING_F_SP_ENQ OR RING_F_SC_DEQ}. common_ring_alloc env mp = ring_alloc env mp fl"
  by (simp add: common_ring_alloc_def Let_def ring_flag_defs)

text \<open>Each mode allocates a ring whose two ends are both relaxed-tail-sync or both are not.\<close>

lemma mode_flags:
  assumes "i < 6"
  shows "\<exists>fl. ops_alloc (ring_mode env i) mp = pool_part (\<lambda>env mp. ring_alloc env mp fl) env mp \<and>
    valid_ring_flags fl \<and> fl AND RING_F_EXACT_SZ = 0 \<and>
    (\<forall>p c. get_sync_type fl RTE_RING_SYNC_MT RTE_RING_SYNC_MT = (0, p, c) \<longrightarrow>
      (p = RTE_RING_SYNC_MT_RTS) = (i = 4) \<and> (c = RTE_RING_SYNC_MT_RTS) = (i = 4))"
proof -
  from assms consider "i < 4" | "i = 4" | "i = 5" by linarith
  then show ?thesis
  proof cases
    case 1
    then consider "i = 0" | "i = 1" | "i = 2" | "i = 3" by linarith
    then have "ops_alloc (ring_mode env i) mp = pool_part common_ring_alloc env mp"
      by cases (simp_all add: ring_mode_def ring_ops_table_def ring_ops_defs)
    moreover from common_flags [of env mp] obtain fl where
      "fl \<in> {0, RING_F_SP_ENQ, RING_F_SC_DEQ, RING_F_SP_ENQ OR RING_F_SC_DEQ}" "common_ring_alloc env mp = ring_alloc env mp fl"
      by blast
    ultimately show ?thesis using 1 ring_sync_flags
      by (intro exI [of _ fl]) (auto simp: pool_part_def get_sync_type_def Let_def ring_flag_defs)
  next
    case 2
    then show ?thesis using ring_sync_flags
      by (intro exI [of _ "RING_F_MP_RTS_ENQ OR RING_F_MC_RTS_DEQ"])
         (auto simp: pool_part_def ring_mode_def ring_ops_table_def ring_ops_defs rts_ring_alloc_def
           get_sync_type_def Let_def ring_flag_defs)
  next
    case 3
    then show ?thesis using ring_sync_flags
      by (intro exI [of _ "RING_F_MP_HTS_ENQ OR RING_F_MC_HTS_DEQ"])
         (auto simp: pool_part_def ring_mode_def ring_ops_table_def ring_ops_defs hts_ring_alloc_def
           get_sync_type_def Let_def ring_flag_defs)
  qed
qed

text \<open>
  Whenever the allocation of a pool of fewer than \<open>2 ^ 27\<close> objects returns 0, the pool
  has a ring that is empty, that is synchronised the way the callbacks of its mode expect,
  and that has room for every object of the pool; a pool with fresh caches is then
  well-formed.
\<close>

theorem pool_alloc_has_room:
  assumes "i < 6" "ops_alloc (ring_mode env i) mp = (0, mp')" "mp_pool_data mp = None" "mp_pool_data mp' = Some r"
    and "reserve_ok (re_reserve env)" "unat (mp_size mp) < 2 ^ 27"
  shows "ring_rts (i = 4) r \<and> ring_list r = [] \<and> unat (mp_size mp) \<le> ring_room r \<and>
    mp' = mp\<lparr>mp_pool_data := Some r\<rparr>"
proof -
  from mode_flags [OF assms(1), of env mp] obtain fl where
    fl: "ops_alloc (ring_mode env i) mp = pool_part (\<lambda>env mp. ring_alloc env mp fl) env mp"
      "valid_ring_flags fl" "fl AND RING_F_EXACT_SZ = 0"
      "\<And>p c. get_sync_type fl RTE_RING_SYNC_MT RTE_RING_SYNC_MT = (0, p, c) \<Longrightarrow>
        (p = RTE_RING_SYNC_MT_RTS) = (i = 4) \<and> (c = RTE_RING_SYNC_MT_RTS) = (i = 4)" by blast
  from assms(2) fl(1) obtain env' where "ring_alloc env mp fl = (0, mp', env')"
    by (auto simp: pool_part_def split: prod.splits)
  note ra = ring_alloc_room [OF this assms(3-5) fl(2,3) assms(6)]
  from ra fl(4) [OF ra(5)] show ?thesis by (simp add: ring_rts_def)
qed

definition room_env :: ring_env where
  "room_env = \<lparr>re_reserve = reserve_at 0x1000, re_te_ok = True, re_registry = []\<rparr>"

definition blank7 :: "addr rte_ring rte_mempool" where
  "blank7 = \<lparr>mp_name = ''p'', mp_pool_data = None, mp_flags = 0, mp_socket_id = 0, mp_size = 7,
     mp_cache_size = 0, mp_elt_size = 2304, mp_header_size = 64, mp_trailer_size = 0, mp_private_data_size = 8,
     mp_ops_index = 4, mp_local_cache = [], mp_populated_size = 0, mp_elt_list = [], mp_nb_mem_chunks = 0\<rparr>"

definition alloc7 :: "addr rte_ring rte_mempool" where
  "alloc7 = snd (ops_alloc (ring_mode room_env 4) blank7)"

theorem pool_alloc_has_room_witness:
  "ring_rts (4 = (4 :: nat)) (the (mp_pool_data alloc7)) \<and> ring_list (the (mp_pool_data alloc7)) = [] \<and>
    unat (mp_size blank7) \<le> ring_room (the (mp_pool_data alloc7)) \<and>
    alloc7 = blank7\<lparr>mp_pool_data := Some (the (mp_pool_data alloc7))\<rparr>"
proof (rule pool_alloc_has_room)
  have "fst (ops_alloc (ring_mode room_env 4) blank7) = 0" by code_simp
  then show "ops_alloc (ring_mode room_env 4) blank7 = (0, alloc7)" by (simp add: alloc7_def prod_eq_iff)
  have "mp_pool_data alloc7 \<noteq> None" by code_simp
  then show "mp_pool_data alloc7 = Some (the (mp_pool_data alloc7))" by simp
  show "reserve_ok (re_reserve room_env)" by (simp add: room_env_def reserve_at_ok)
qed (simp_all add: blank7_def)

end
