(* ===== verification/Mbuf_Data.thy ===== *)
theory Mbuf_Data
  imports Mbuf_Release
begin

text \<open>
  The data of a packet (\<open>rte_mbuf.h\<close>, \<open>rte_mbuf.c\<close>): room before and behind it, the four ways
  to grow and shrink it, reading across segments, chaining, and the consistency check of
  \<open>rte_mbuf_check\<close>. The sanity checks of the debug build are compiled out.
\<close>

section \<open>Room and segments\<close>

definition rte_pktmbuf_headroom :: "rte_mbuf \<Rightarrow> u16" where
  "rte_pktmbuf_headroom m = m_data_off m"

definition rte_pktmbuf_tailroom :: "rte_mbuf \<Rightarrow> u16" where
  "rte_pktmbuf_tailroom m = m_buf_len m - rte_pktmbuf_headroom m - m_data_len m"

partial_function (option) rte_pktmbuf_lastseg :: "'p mbuf_world \<Rightarrow> addr \<Rightarrow> addr option" where
  "rte_pktmbuf_lastseg w a =
     Option.bind (mbuf_at w a) (\<lambda>m. if m_next m \<noteq> NULL then rte_pktmbuf_lastseg w (m_next m) else Some a)"

definition rte_pktmbuf_is_contiguous :: "'p mbuf_world \<Rightarrow> addr \<Rightarrow> bool option" where
  "rte_pktmbuf_is_contiguous w a = map_option (\<lambda>m. m_nb_segs m = 1) (mbuf_at w a)"

section \<open>Growing and shrinking\<close>

text \<open>The results are pointers, NULL if there is no room.\<close>

definition rte_pktmbuf_prepend :: "'p mbuf_world \<Rightarrow> addr \<Rightarrow> u16 \<Rightarrow> (addr \<times> 'p mbuf_world) option" where
  "rte_pktmbuf_prepend w a len =
     do { m \<leftarrow> mbuf_at w a;
          if rte_pktmbuf_headroom m < len then Some (NULL, w)
          else
            let m = m\<lparr>m_data_off := m_data_off m - len, m_data_len := m_data_len m + len, m_pkt_len := m_pkt_len m + ucast len\<rparr>
            in Some (m_buf_addr m + ucast (m_data_off m), set_mbuf w a m) }"

definition rte_pktmbuf_append :: "'p mbuf_world \<Rightarrow> addr \<Rightarrow> u16 \<Rightarrow> (addr \<times> 'p mbuf_world) option" where
  "rte_pktmbuf_append w a len =
     do { m_last \<leftarrow> rte_pktmbuf_lastseg w a;
          l \<leftarrow> mbuf_at w m_last;
          if rte_pktmbuf_tailroom l < len then Some (NULL, w)
          else do {
            let tail = m_buf_addr l + ucast (m_data_off l) + ucast (m_data_len l);
            w \<leftarrow> upd_mbuf w m_last (\<lambda>l. l\<lparr>m_data_len := m_data_len l + len\<rparr>);
            w \<leftarrow> upd_mbuf w a (\<lambda>m. m\<lparr>m_pkt_len := m_pkt_len m + ucast len\<rparr>);
            Some (tail, w) } }"

definition rte_pktmbuf_adj :: "'p mbuf_world \<Rightarrow> addr \<Rightarrow> u16 \<Rightarrow> (addr \<times> 'p mbuf_world) option" where
  "rte_pktmbuf_adj w a len =
     do { m \<leftarrow> mbuf_at w a;
          if m_data_len m < len then Some (NULL, w)
          else
            let m = m\<lparr>m_data_len := m_data_len m - len, m_data_off := m_data_off m + len, m_pkt_len := m_pkt_len m - ucast len\<rparr>
            in Some (m_buf_addr m + ucast (m_data_off m), set_mbuf w a m) }"

definition rte_pktmbuf_trim :: "'p mbuf_world \<Rightarrow> addr \<Rightarrow> u16 \<Rightarrow> (int \<times> 'p mbuf_world) option" where
  "rte_pktmbuf_trim w a len =
     do { m_last \<leftarrow> rte_pktmbuf_lastseg w a;
          l \<leftarrow> mbuf_at w m_last;
          if m_data_len l < len then Some (- 1, w)
          else do {
            w \<leftarrow> upd_mbuf w m_last (\<lambda>l. l\<lparr>m_data_len := m_data_len l - len\<rparr>);
            w \<leftarrow> upd_mbuf w a (\<lambda>m. m\<lparr>m_pkt_len := m_pkt_len m - ucast len\<rparr>);
            Some (0, w) } }"

section \<open>Reading\<close>

text \<open>
  The pointer \<open>rte_pktmbuf_read\<close> returns: NULL, \<open>off\<close> bytes into the data of a segment, or the
  caller's buffer, with what has been copied there.
\<close>

datatype read_ptr = Rd_NULL | Rd_Seg addr u32 | Rd_Buf "u8 list"

partial_function (option) read_skip :: "'p mbuf_world \<Rightarrow> addr \<Rightarrow> u32 \<Rightarrow> (addr \<times> u32) option" where
  "read_skip w seg off =
     Option.bind (mbuf_at w seg) (\<lambda>m.
       if ucast (m_data_len m) \<le> off then read_skip w (m_next m) (off - ucast (m_data_len m)) else Some (seg, off))"

partial_function (option) read_copy :: "'p mbuf_world \<Rightarrow> addr \<Rightarrow> u32 \<Rightarrow> u32 \<Rightarrow> u8 list \<Rightarrow> u32 \<Rightarrow> u8 list option" where
  "read_copy w seg off len buf buf_off =
     (if len = 0 then Some buf
      else Option.bind (mbuf_at w seg) (\<lambda>m.
             let avail = ucast (m_data_len m) - off; copy_len = (if len < avail then len else avail)
             in Option.bind (rd_bytes w seg (unat off) (unat copy_len)) (\<lambda>bs.
                if unat buf_off + length bs \<le> length buf
                then read_copy w (m_next m) 0 (len - copy_len)
                       (take (unat buf_off) buf @ bs @ drop (unat buf_off + length bs) buf) (buf_off + copy_len)
                else None)))"

definition pktmbuf_read_slow :: "'p mbuf_world \<Rightarrow> addr \<Rightarrow> u32 \<Rightarrow> u32 \<Rightarrow> u8 list \<Rightarrow> read_ptr option" where
  "pktmbuf_read_slow w a off len buf =
     do { m \<leftarrow> mbuf_at w a;
          if m_pkt_len m < off + len then Some Rd_NULL
          else do {
            (seg, off) \<leftarrow> read_skip w a off;
            s \<leftarrow> mbuf_at w seg;
            if off + len \<le> ucast (m_data_len s) then Some (Rd_Seg seg off)
            else map_option Rd_Buf (read_copy w seg off len buf 0) } }"

definition rte_pktmbuf_read :: "'p mbuf_world \<Rightarrow> addr \<Rightarrow> u32 \<Rightarrow> u32 \<Rightarrow> u8 list \<Rightarrow> read_ptr option" where
  "rte_pktmbuf_read w a off len buf =
     do { m \<leftarrow> mbuf_at w a;
          if off + len \<le> ucast (m_data_len m) then Some (Rd_Seg a off)
          else pktmbuf_read_slow w a off len buf }"

section \<open>Chaining\<close>

definition RTE_MBUF_MAX_NB_SEGS :: nat where "RTE_MBUF_MAX_NB_SEGS = 65535"

definition rte_pktmbuf_chain :: "'p mbuf_world \<Rightarrow> addr \<Rightarrow> addr \<Rightarrow> (int \<times> 'p mbuf_world) option" where
  "rte_pktmbuf_chain w head tail =
     do { h \<leftarrow> mbuf_at w head;
          t \<leftarrow> mbuf_at w tail;
          if RTE_MBUF_MAX_NB_SEGS < unat (m_nb_segs h) + unat (m_nb_segs t) then Some (- EOVERFLOW, w)
          else do {
            cur_tail \<leftarrow> rte_pktmbuf_lastseg w head;
            w \<leftarrow> upd_mbuf w cur_tail (\<lambda>m. m\<lparr>m_next := tail\<rparr>);
            t \<leftarrow> mbuf_at w tail;
            w \<leftarrow> upd_mbuf w head (\<lambda>m. m\<lparr>m_nb_segs := m_nb_segs m + m_nb_segs t, m_pkt_len := m_pkt_len m + m_pkt_len t\<rparr>);
            w \<leftarrow> upd_mbuf w tail (\<lambda>m. m\<lparr>m_pkt_len := ucast (m_data_len m)\<rparr>);
            Some (0, w) } }"

section \<open>The consistency check\<close>

partial_function (option) check_segs :: "'p mbuf_world \<Rightarrow> addr \<Rightarrow> u32 \<Rightarrow> u32 \<Rightarrow> (int \<times> string) option" where
  "check_segs w a nb_segs pkt_len =
     Option.bind (mbuf_at w a) (\<lambda>m.
       if m_buf_len m < m_data_off m then Some (- 1, ''data offset too big in mbuf segment'')
       else if unat (m_buf_len m) < unat (m_data_off m) + unat (m_data_len m)
       then Some (- 1, ''data length too big in mbuf segment'')
       else
         let nb_segs = nb_segs - 1; pkt_len = pkt_len - ucast (m_data_len m)
         in if m_next m \<noteq> NULL then check_segs w (m_next m) nb_segs pkt_len
            else if nb_segs \<noteq> 0 then Some (- 1, ''bad nb_segs'')
            else if pkt_len \<noteq> 0 then Some (- 1, ''bad pkt_len'')
            else Some (0, []))"

definition rte_mbuf_check :: "'p mbuf_world \<Rightarrow> addr \<Rightarrow> bool \<Rightarrow> (int \<times> string) option" where
  "rte_mbuf_check w a is_header =
     (if a = NULL then Some (- 1, ''mbuf is NULL'')
      else do {
        m \<leftarrow> mbuf_at w a;
        if m_pool m = NULL then Some (- 1, ''bad mbuf pool'')
        else if m_buf_iova m = 0 then Some (- 1, ''bad IO addr'')
        else if m_buf_addr m = NULL then Some (- 1, ''bad virt addr'')
        else if m_refcnt m = 0 \<or> m_refcnt m = 0xffff then Some (- 1, ''bad ref cnt'')
        else if \<not> is_header then Some (0, [])
        else if m_pkt_len m < ucast (m_data_len m) then Some (- 1, ''bad data_len'')
        else check_segs w a (ucast (m_nb_segs m)) (m_pkt_len m) })"

section \<open>The bytes of a packet\<close>

text \<open>
  \<open>pkt_data\<close> are the bytes of the segments \<open>xs\<close>, in order; \<open>pkt_ok\<close> says that \<open>xs\<close> are the
  segments of the packet \<open>a\<close>, that their data lie inside their buffers, and that the head
  counts segments and bytes right.
\<close>

definition seg_data :: "'p mbuf_world \<Rightarrow> addr \<Rightarrow> u8 list" where
  "seg_data w a =
     (case mbuf_at w a of
        None \<Rightarrow> []
      | Some m \<Rightarrow> (case rd_bytes w a 0 (unat (m_data_len m)) of None \<Rightarrow> [] | Some bs \<Rightarrow> bs))"

definition seg_ok :: "'p mbuf_world \<Rightarrow> addr \<Rightarrow> bool" where
  "seg_ok w a \<longleftrightarrow>
     (case mbuf_at w a of
        None \<Rightarrow> False
      | Some m \<Rightarrow>
          (case mw_bytes w (m_buf_addr m) of
             None \<Rightarrow> False
           | Some bs \<Rightarrow> unat (m_data_off m) + unat (m_data_len m) \<le> unat (m_buf_len m) \<and> unat (m_buf_len m) \<le> length bs))"

definition pkt_data :: "'p mbuf_world \<Rightarrow> addr list \<Rightarrow> u8 list" where
  "pkt_data w xs = concat (map (seg_data w) xs)"

definition pkt_ok :: "'p mbuf_world \<Rightarrow> addr \<Rightarrow> addr list \<Rightarrow> bool" where
  "pkt_ok w a xs \<longleftrightarrow>
     xs \<noteq> [] \<and> distinct xs \<and> seg_chain (mbuf_at w) a xs \<and> (\<forall>x \<in> set xs. seg_ok w x) \<and>
     (case mbuf_at w a of
        None \<Rightarrow> False
      | Some m \<Rightarrow> unat (m_nb_segs m) = length xs \<and> unat (m_pkt_len m) = length (pkt_data w xs))"

lemma seg_okE:
  assumes "seg_ok w a"
  obtains m bs where "mbuf_at w a = Some m" "mw_bytes w (m_buf_addr m) = Some bs"
    "unat (m_data_off m) + unat (m_data_len m) \<le> unat (m_buf_len m)" "unat (m_buf_len m) \<le> length bs"
    "seg_data w a = take (unat (m_data_len m)) (drop (unat (m_data_off m)) bs)" "length (seg_data w a) = unat (m_data_len m)"
  using assms by (auto simp: seg_ok_def seg_data_def rd_bytes_def split: option.splits)

lemma unat_tailroom:
  assumes "unat (m_data_off m) + unat (m_data_len m) \<le> unat (m_buf_len m)"
  shows "unat (rte_pktmbuf_tailroom m) = unat (m_buf_len m) - unat (m_data_off m) - unat (m_data_len m)"
proof -
  have "unat (m_buf_len m - m_data_off m) = unat (m_buf_len m) - unat (m_data_off m)" using assms by (intro unat_sub_nowrap) simp
  then show ?thesis
    using assms by (simp add: rte_pktmbuf_tailroom_def rte_pktmbuf_headroom_def) (subst unat_sub_nowrap, simp_all)
qed

lemma pkt_data_simps [simp]:
  "pkt_data w [] = []" "pkt_data w (x # xs) = seg_data w x @ pkt_data w xs" "pkt_data w (xs @ ys) = pkt_data w xs @ pkt_data w ys"
  by (simp_all add: pkt_data_def)

lemma unat_ucast_16_32 [simp]: "unat (ucast (x :: u16) :: u32) = unat x"
proof -
  have "unat x < 65536" using unsigned_less [of x, where ?'a = nat] by simp
  then show ?thesis by (simp add: unsigned_ucast_eq take_bit_nat_eq_self)
qed

text \<open>What a segment depends on.\<close>

lemma seg_cong:
  assumes "mbuf_at w' x = mbuf_at w x" "\<And>m. mbuf_at w x = Some m \<Longrightarrow> mw_bytes w' (m_buf_addr m) = mw_bytes w (m_buf_addr m)"
  shows "seg_ok w' x = seg_ok w x" "seg_data w' x = seg_data w x"
  using assms by (auto simp: seg_ok_def seg_data_def rd_bytes_def split: option.split)

lemma seg_eq_fields:
  assumes "mbuf_at w x = Some m" "mbuf_at w' x = Some m'" "mw_bytes w' = mw_bytes w"
    "m_buf_addr m' = m_buf_addr m" "m_data_off m' = m_data_off m" "m_data_len m' = m_data_len m" "m_buf_len m' = m_buf_len m"
  shows "seg_ok w' x = seg_ok w x" "seg_data w' x = seg_data w x"
  using assms by (auto simp: seg_ok_def seg_data_def rd_bytes_def split: option.split)

lemma pkt_data_cong: "(\<And>x. x \<in> set xs \<Longrightarrow> seg_data w' x = seg_data w x) \<Longrightarrow> pkt_data w' xs = pkt_data w xs"
  by (induction xs) auto

lemma lastseg_chain:
  assumes "seg_chain (mbuf_at w) a xs" "xs \<noteq> []"
  shows "rte_pktmbuf_lastseg w a = Some (last xs)"
  using assms
proof (induction xs arbitrary: a)
  case (Cons x xs)
  then obtain m where m: "a = x" "mbuf_at w a = Some m" "seg_chain (mbuf_at w) (m_next m) xs" by (auto split: option.splits)
  show ?case
  proof (cases xs)
    case Nil
    with m show ?thesis by (subst rte_pktmbuf_lastseg.simps) simp
  next
    case (Cons y ys)
    with m(3) have ne: "m_next m \<noteq> NULL" by (metis seg_chain.simps(2))
    have *: "rte_pktmbuf_lastseg w a = rte_pktmbuf_lastseg w (m_next m)"
      using m(2) ne by (subst rte_pktmbuf_lastseg.simps) simp
    have "xs \<noteq> []" using Cons by simp
    from Cons.IH [OF m(3) this] this show ?thesis using * by simp
  qed
qed simp

text \<open>A packet is shorter than \<open>2 ^ 32\<close> bytes: each of its at most 65535 segments is below \<open>2 ^ 16\<close>.\<close>

lemma seg_data_less: "length (seg_data w x) < 65536"
proof (cases "mbuf_at w x")
  case (Some m)
  have "length (seg_data w x) \<le> unat (m_data_len m)"
    using Some by (auto simp: seg_data_def rd_bytes_def bind_eq_Some_conv Let_def split: option.splits if_splits)
  also have "\<dots> < 65536" using unsigned_less [of "m_data_len m", where ?'a = nat] by simp
  finally show ?thesis .
qed (simp add: seg_data_def)

lemma pkt_data_le: "length (pkt_data w xs) \<le> 65535 * length xs"
proof (induction xs)
  case (Cons x xs)
  with seg_data_less [of w x] show ?case by simp
qed simp

lemma pkt_okE:
  assumes "pkt_ok w a xs"
  obtains m ys where "xs = a # ys" "mbuf_at w a = Some m" "seg_chain (mbuf_at w) (m_next m) ys" "a \<noteq> NULL"
    "unat (m_nb_segs m) = length xs" "unat (m_pkt_len m) = length (pkt_data w xs)" "length (pkt_data w xs) < 4294967296"
proof -
  from assms obtain m where m: "mbuf_at w a = Some m" "unat (m_nb_segs m) = length xs"
    "unat (m_pkt_len m) = length (pkt_data w xs)" by (auto simp: pkt_ok_def split: option.splits)
  from assms m obtain ys where "xs = a # ys" "seg_chain (mbuf_at w) (m_next m) ys" "a \<noteq> NULL"
    by (cases xs) (auto simp: pkt_ok_def)
  with m that unat32_bound [of "m_pkt_len m"] show ?thesis by metis
qed

lemma pkt_ok_nb: "pkt_ok w a xs \<Longrightarrow> length xs < 65536"
  using unsigned_less [where ?'a = nat and 'b = 16] by (auto simp: pkt_ok_def split: option.splits) (metis len_num1 len_num0)

section \<open>The check accepts exactly the packets that are well-formed\<close>

text \<open>The buffer of a segment exists and is as long as the segment says.\<close>

definition buf_ok :: "'p mbuf_world \<Rightarrow> addr \<Rightarrow> bool" where
  "buf_ok w a \<longleftrightarrow>
     (case mbuf_at w a of
        None \<Rightarrow> False
      | Some m \<Rightarrow> (case mw_bytes w (m_buf_addr m) of None \<Rightarrow> False | Some bs \<Rightarrow> unat (m_buf_len m) \<le> length bs))"

lemma seg_ok_buf:
  assumes "buf_ok w a" "mbuf_at w a = Some m"
  shows "seg_ok w a \<longleftrightarrow> unat (m_data_off m) + unat (m_data_len m) \<le> unat (m_buf_len m)"
  using assms by (auto simp: buf_ok_def seg_ok_def split: option.splits)

lemma check_segs_iff:
  assumes "seg_chain (mbuf_at w) a xs" "xs \<noteq> []" "\<forall>x \<in> set xs. buf_ok w x"
  shows "\<exists>r. check_segs w a n p = Some r \<and>
    (fst r = 0 \<longleftrightarrow> (\<forall>x \<in> set xs. seg_ok w x) \<and> n = of_nat (length xs) \<and> p = of_nat (length (pkt_data w xs)))"
  using assms
proof (induction xs arbitrary: a n p)
  case (Cons x xs)
  then obtain m where m: "a = x" "mbuf_at w a = Some m" "seg_chain (mbuf_at w) (m_next m) xs" by (auto split: option.splits)
  note sok = seg_ok_buf [OF _ m(2)]
  show ?case
  proof (cases "seg_ok w a")
    case False
    with sok Cons.prems(3) m(1) have "unat (m_buf_len m) < unat (m_data_off m) + unat (m_data_len m)" by simp
    with m False show ?thesis by (subst check_segs.simps) (auto simp: word_less_nat_alt)
  next
    case True
    with sok Cons.prems(3) m(1) have ok: "\<not> m_buf_len m < m_data_off m"
      "\<not> unat (m_buf_len m) < unat (m_data_off m) + unat (m_data_len m)" by (simp_all add: word_less_nat_alt)
    from True m(2) have len: "length (seg_data w a) = unat (m_data_len m)" by (auto elim: seg_okE)
    have dl: "(ucast (m_data_len m) :: u32) = of_nat (length (seg_data w a))" by (simp add: len unsigned_ucast_eq)
    let ?n = "n - 1" and ?p = "p - ucast (m_data_len m)"
    have step: "check_segs w a n p = (if m_next m \<noteq> NULL then check_segs w (m_next m) ?n ?p
        else if ?n \<noteq> 0 then Some (- 1, ''bad nb_segs'') else if ?p \<noteq> 0 then Some (- 1, ''bad pkt_len'') else Some (0, []))"
      using ok m(2) by (subst check_segs.simps) (simp add: Let_def)
    have eqs: "?n = of_nat k \<longleftrightarrow> n = of_nat (Suc k)" "?p = of_nat j \<longleftrightarrow> p = of_nat (length (seg_data w a) + j)" for k j :: nat
      by (auto simp: dl algebra_simps)
    show ?thesis
    proof (cases xs)
      case Nil
      with m step True eqs(1) [of 0] eqs(2) [of 0] show ?thesis by auto
    next
      case (Cons y ys)
      with m(3) have ne: "m_next m \<noteq> NULL" by (metis seg_chain.simps(2))
      have "xs \<noteq> []" "\<forall>x \<in> set xs. buf_ok w x" using Cons Cons.prems(3) by simp_all
      from Cons.IH [OF m(3) this] obtain r where "check_segs w (m_next m) ?n ?p = Some r"
        "fst r = 0 \<longleftrightarrow> (\<forall>x \<in> set xs. seg_ok w x) \<and> ?n = of_nat (length xs) \<and> ?p = of_nat (length (pkt_data w xs))" by blast
      with step ne m(1) True eqs show ?thesis by auto
    qed
  qed
qed simp

text \<open>The fields of the head that are checked besides.\<close>

definition head_ok :: "rte_mbuf \<Rightarrow> bool" where
  "head_ok m \<longleftrightarrow> m_pool m \<noteq> NULL \<and> m_buf_iova m \<noteq> 0 \<and> m_buf_addr m \<noteq> NULL \<and> m_refcnt m \<noteq> 0 \<and> m_refcnt m \<noteq> 0xffff"

lemma mbuf_check_iff:
  assumes c: "seg_chain (mbuf_at w) a xs" "xs \<noteq> []" "distinct xs" "\<forall>x \<in> set xs. buf_ok w x" and l: "length xs < 2 ^ 32"
    and m: "mbuf_at w a = Some m"
  shows "\<exists>r. rte_mbuf_check w a True = Some r \<and> (fst r = 0 \<longleftrightarrow> head_ok m \<and> pkt_ok w a xs)"
proof (cases "head_ok m \<and> \<not> m_pkt_len m < ucast (m_data_len m)")
  case False
  have short: "\<not> pkt_ok w a xs" if "m_pkt_len m < ucast (m_data_len m)"
  proof
    assume p: "pkt_ok w a xs"
    then obtain m' ys where x: "xs = a # ys" "mbuf_at w a = Some m'" "unat (m_pkt_len m') = length (pkt_data w xs)"
      by (rule pkt_okE)
    with p have "seg_ok w a" by (simp add: pkt_ok_def)
    with x m have "unat (m_data_len m) \<le> unat (m_pkt_len m)" by (auto elim!: seg_okE)
    with that show False by (simp add: word_less_nat_alt)
  qed
  with False m show ?thesis using mbuf_at_not_NULL [OF m] by (auto simp: rte_mbuf_check_def head_ok_def)
next
  case True
  from check_segs_iff [OF c(1,2,4), of "ucast (m_nb_segs m)" "m_pkt_len m"] obtain r where
    r: "check_segs w a (ucast (m_nb_segs m)) (m_pkt_len m) = Some r"
    "fst r = 0 \<longleftrightarrow> (\<forall>x \<in> set xs. seg_ok w x) \<and> (ucast (m_nb_segs m) :: u32) = of_nat (length xs)
       \<and> m_pkt_len m = of_nat (length (pkt_data w xs))" by blast
  have nb: "(ucast (m_nb_segs m) :: u32) = of_nat (length xs) \<longleftrightarrow> unat (m_nb_segs m) = length xs"
    using l unsigned_less [of "m_nb_segs m", where ?'a = nat] by (simp add: word_unat_eq_iff unsigned_ucast_eq unat_of_nat)
  have pl: "m_pkt_len m = of_nat (length (pkt_data w xs)) \<longleftrightarrow> unat (m_pkt_len m) = length (pkt_data w xs)"
    if "unat (m_nb_segs m) = length xs"
  proof -
    have "length xs \<le> 65535" using that unsigned_less [of "m_nb_segs m", where ?'a = nat] by simp
    then have "65535 * length xs \<le> 65535 * 65535" by simp
    then have "length (pkt_data w xs) < 4294967296" using pkt_data_le [of w xs] by linarith
    then show ?thesis by (simp add: word_unat_eq_iff unat_of_nat)
  qed
  have "fst r = 0 \<longleftrightarrow> pkt_ok w a xs"
    unfolding r(2) nb pkt_ok_def using c m pl by auto
  with True r(1) m mbuf_at_not_NULL [OF m] show ?thesis by (auto simp: rte_mbuf_check_def head_ok_def)
qed

section \<open>Growing and shrinking, proved\<close>

lemma set_mbuf_same: "mbuf_at w a = Some m \<Longrightarrow> set_mbuf w a m = w"
  by (auto simp: set_mbuf_def mbuf_at_def fun_upd_idem split: if_splits)

lemma set_mbuf_twice [simp]: "set_mbuf (set_mbuf w a x) a y = set_mbuf w a y"
  by (simp add: set_mbuf_def)

lemma seg_chain_next:
  assumes "seg_chain h a xs" "\<And>x m. x \<in> set xs \<Longrightarrow> h x = Some m \<Longrightarrow> \<exists>m'. h' x = Some m' \<and> m_next m' = m_next m"
  shows "seg_chain h' a xs"
  using assms
proof (induction xs arbitrary: a)
  case (Cons x xs)
  then obtain m where m: "a = x" "a \<noteq> NULL" "h a = Some m" "seg_chain h (m_next m) xs" by (auto split: option.splits)
  from Cons.prems(2) [of x m] m obtain m' where "h' a = Some m'" "m_next m' = m_next m" by auto
  moreover have "seg_chain h' (m_next m) xs" by (rule Cons.IH [OF m(4)]) (use Cons.prems(2) in auto)
  ultimately show ?case using m by simp
qed simp

lemma pkt_data_bound:
  assumes "length xs < 65536"
  shows "length (pkt_data w xs) < 4294967296"
proof -
  have "65535 * length xs \<le> 65535 * 65535" using assms by simp
  with pkt_data_le [of w xs] show ?thesis by linarith
qed

text \<open>Changing data fields of segments: the links stay, and the head has to count again.\<close>

lemma pkt_ok_update:
  assumes p: "pkt_ok w a xs"
    and nxt: "\<And>x m. x \<in> set xs \<Longrightarrow> mbuf_at w x = Some m \<Longrightarrow> \<exists>m'. mbuf_at w' x = Some m' \<and> m_next m' = m_next m"
    and seg: "\<And>x. x \<in> set xs \<Longrightarrow> seg_ok w' x"
    and m: "mbuf_at w' a = Some m'" "unat (m_nb_segs m') = length xs" "m_pkt_len m' = of_nat (length (pkt_data w' xs))"
  shows "pkt_ok w' a xs"
proof -
  have "seg_chain (mbuf_at w') a xs" by (rule seg_chain_next [of "mbuf_at w"]) (use p nxt in \<open>auto simp: pkt_ok_def\<close>)
  moreover have "unat (m_pkt_len m') = length (pkt_data w' xs)"
    using pkt_data_bound [OF pkt_ok_nb [OF p], of w'] by (simp add: m(3) unat_of_nat)
  ultimately show ?thesis using p seg m by (simp add: pkt_ok_def)
qed

lemma prepend_ok:
  assumes p: "pkt_ok w a xs" and m: "mbuf_at w a = Some m" and len: "len \<le> m_data_off m"
  shows "\<exists>w' hd. rte_pktmbuf_prepend w a len = Some (m_buf_addr m + ucast (m_data_off m - len), w') \<and>
    pkt_ok w' a xs \<and> length hd = unat len \<and> pkt_data w' xs = hd @ pkt_data w xs \<and>
    rte_pktmbuf_adj w' a len = Some (m_buf_addr m + ucast (m_data_off m), w)"
proof -
  from p m obtain ys where x: "xs = a # ys" "a \<noteq> NULL" "unat (m_pkt_len m) = length (pkt_data w xs)"
    "length (pkt_data w xs) < 4294967296" by (metis option.inject pkt_okE)
  with p have d: "a \<notin> set ys" "distinct ys" "seg_ok w a" by (simp_all add: pkt_ok_def)
  from d(3) m obtain bs where bs: "mw_bytes w (m_buf_addr m) = Some bs"
    "unat (m_data_off m) + unat (m_data_len m) \<le> unat (m_buf_len m)" "unat (m_buf_len m) \<le> length bs"
    "seg_data w a = take (unat (m_data_len m)) (drop (unat (m_data_off m)) bs)" "length (seg_data w a) = unat (m_data_len m)"
    by (auto elim: seg_okE)
  let ?m = "m\<lparr>m_data_off := m_data_off m - len, m_data_len := m_data_len m + len, m_pkt_len := m_pkt_len m + ucast len\<rparr>"
  let ?w = "set_mbuf w a ?m"
  have le: "unat len \<le> unat (m_data_off m)" using len by (simp add: word_le_nat_alt)
  have off: "unat (m_data_off m - len) = unat (m_data_off m) - unat len" using le by (rule unat_sub_nowrap)
  have "unat (m_buf_len m) < 65536" using unsigned_less [of "m_buf_len m", where ?'a = nat] by simp
  with le bs(2) have dl: "unat (m_data_len m + len) = unat (m_data_len m) + unat len"
    by (intro unat_add_nowrap) simp
  define hd where "hd = take (unat len) (drop (unat (m_data_off m) - unat len) bs)"
  have hd: "length hd = unat len" using le bs(2,3) by (simp add: hd_def)
  have sd: "seg_data ?w a = hd @ seg_data w a"
  proof -
    have "drop (unat len) (drop (unat (m_data_off m) - unat len) bs) = drop (unat (m_data_off m)) bs" using le by simp
    then have "take (unat len + unat (m_data_len m)) (drop (unat (m_data_off m) - unat len) bs) = hd @ seg_data w a"
      unfolding hd_def bs(4) take_add by simp
    moreover have "seg_data ?w a = take (unat (m_data_len m) + unat len) (drop (unat (m_data_off m) - unat len) bs)"
      using bs(1-3) le x(2) by (simp add: seg_data_def rd_bytes_def off dl Let_def)
    ultimately show ?thesis by (simp only: add.commute)
  qed
  have ys: "seg_data ?w y = seg_data w y" "seg_ok ?w y = seg_ok w y" if "y \<in> set ys" for y
    using that d(1) by (auto intro!: seg_cong)
  then have data: "pkt_data ?w xs = hd @ pkt_data w xs"
    using pkt_data_cong [of ys ?w w] by (simp add: x(1) sd)
  have pl: "m_pkt_len m + ucast len = of_nat (length (pkt_data ?w xs))"
    unfolding data by (simp add: hd flip: x(3))
  have sa: "seg_ok ?w a" using bs le x(2) by (simp add: seg_ok_def off dl)
  have "pkt_ok ?w a xs"
  proof (rule pkt_ok_update [OF p])
    show "seg_ok ?w x" if "x \<in> set xs" for x using that sa ys(2) p by (auto simp: x(1) pkt_ok_def)
    show "mbuf_at ?w a = Some ?m" using x(2) by simp
  qed (use p m x(2) pl in \<open>auto simp: pkt_ok_def\<close>)
  moreover have "rte_pktmbuf_adj ?w a len = Some (m_buf_addr m + ucast (m_data_off m), w)"
    using x(2) dl by (simp add: rte_pktmbuf_adj_def word_less_nat_alt Let_def set_mbuf_same [OF m])
  moreover have "\<not> m_data_off m < len" using len by (simp add: word_less_nat_alt word_le_nat_alt)
  ultimately show ?thesis
    using m data hd by (intro exI [of _ ?w] exI [of _ hd]) (simp add: rte_pktmbuf_prepend_def rte_pktmbuf_headroom_def Let_def)
qed

text \<open>
  An append changes the length of the last segment and the length of the packet in the head,
  which may be the same segment.
\<close>

definition relen :: "'p mbuf_world \<Rightarrow> addr \<Rightarrow> addr \<Rightarrow> u16 \<Rightarrow> u32 \<Rightarrow> 'p mbuf_world option" where
  "relen w a l dlen plen =
     do { w \<leftarrow> upd_mbuf w l (\<lambda>m. m\<lparr>m_data_len := dlen\<rparr>); upd_mbuf w a (\<lambda>m. m\<lparr>m_pkt_len := plen\<rparr>) }"

lemma relen_mbufs:
  assumes "mbuf_at w a = Some m" "mbuf_at w l = Some ml"
  shows "\<exists>w'. relen w a l d p = Some w' \<and> mw_bytes w' = mw_bytes w \<and>
    (\<forall>x. x \<noteq> a \<longrightarrow> x \<noteq> l \<longrightarrow> mbuf_at w' x = mbuf_at w x) \<and>
    mbuf_at w' a = Some ((if l = a then m\<lparr>m_data_len := d\<rparr> else m)\<lparr>m_pkt_len := p\<rparr>) \<and>
    mbuf_at w' l = Some ((if l = a then ml\<lparr>m_pkt_len := p\<rparr> else ml)\<lparr>m_data_len := d\<rparr>) \<and>
    relen w' a l (m_data_len ml) (m_pkt_len m) = Some w"
proof -
  have n: "a \<noteq> NULL" "l \<noteq> NULL" using assms by (auto dest: mbuf_at_not_NULL)
  have sw: "set_mbuf (set_mbuf w x i) y j = set_mbuf (set_mbuf w y j) x i" if "x \<noteq> y" for w :: "'p mbuf_world" and x y i j
    using that by (simp add: set_mbuf_def fun_upd_twist)
  show ?thesis
  proof (cases "l = a")
    case True
    with assms n show ?thesis
      by (intro exI [of _ "set_mbuf w a (m\<lparr>m_data_len := d, m_pkt_len := p\<rparr>)"])
        (auto simp: relen_def upd_mbuf_def set_mbuf_same)
  next
    case False
    let ?w = "set_mbuf (set_mbuf w l (ml\<lparr>m_data_len := d\<rparr>)) a (m\<lparr>m_pkt_len := p\<rparr>)"
    have "relen ?w a l (m_data_len ml) (m_pkt_len m) = Some w"
      using False n by (simp add: relen_def upd_mbuf_def sw [OF False] set_mbuf_same assms)
    with False assms n show ?thesis by (intro exI [of _ ?w]) (auto simp: relen_def upd_mbuf_def)
  qed
qed

lemma append_ok:
  assumes p: "pkt_ok w a xs" and m: "mbuf_at w a = Some m" and l: "mbuf_at w (last xs) = Some ml"
    and len: "len \<le> rte_pktmbuf_tailroom ml"
  shows "\<exists>w' tl. rte_pktmbuf_append w a len = Some (m_buf_addr ml + ucast (m_data_off ml) + ucast (m_data_len ml), w') \<and>
    pkt_ok w' a xs \<and> length tl = unat len \<and> pkt_data w' xs = pkt_data w xs @ tl \<and>
    rte_pktmbuf_trim w' a len = Some (0, w)"
proof -
  let ?l = "last xs"
  from p have x: "xs \<noteq> []" "xs = butlast xs @ [?l]" "seg_ok w ?l" "seg_chain (mbuf_at w) a xs" "distinct xs" by (auto simp: pkt_ok_def)
  from p m have pl: "unat (m_pkt_len m) = length (pkt_data w xs)" "unat (m_nb_segs m) = length xs" by (simp_all add: pkt_ok_def)
  from x(3) l obtain bs where bs: "mw_bytes w (m_buf_addr ml) = Some bs"
    "unat (m_data_off ml) + unat (m_data_len ml) \<le> unat (m_buf_len ml)" "unat (m_buf_len ml) \<le> length bs"
    "seg_data w ?l = take (unat (m_data_len ml)) (drop (unat (m_data_off ml)) bs)" "length (seg_data w ?l) = unat (m_data_len ml)"
    by (auto elim: seg_okE)
  have room: "unat (m_data_off ml) + unat (m_data_len ml) + unat len \<le> unat (m_buf_len ml)"
    using len unat_tailroom [OF bs(2)] bs(2) by (simp add: word_le_nat_alt)
  have "unat (m_buf_len ml) < 65536" using unsigned_less [of "m_buf_len ml", where ?'a = nat] by simp
  with room have dl: "unat (m_data_len ml + len) = unat (m_data_len ml) + unat len" by (intro unat_add_nowrap) simp
  from relen_mbufs [OF m l, of "m_data_len ml + len" "m_pkt_len m + ucast len"] obtain w' where
    w': "relen w a ?l (m_data_len ml + len) (m_pkt_len m + ucast len) = Some w'" "mw_bytes w' = mw_bytes w"
    "\<And>x. x \<noteq> a \<Longrightarrow> x \<noteq> ?l \<Longrightarrow> mbuf_at w' x = mbuf_at w x"
    "mbuf_at w' a = Some ((if ?l = a then m\<lparr>m_data_len := m_data_len ml + len\<rparr> else m)\<lparr>m_pkt_len := m_pkt_len m + ucast len\<rparr>)"
    "mbuf_at w' ?l = Some ((if ?l = a then ml\<lparr>m_pkt_len := m_pkt_len m + ucast len\<rparr> else ml)\<lparr>m_data_len := m_data_len ml + len\<rparr>)"
    "relen w' a ?l (m_data_len ml) (m_pkt_len m) = Some w" by blast
  define tl where "tl = take (unat len) (drop (unat (m_data_off ml) + unat (m_data_len ml)) bs)"
  have tl: "length tl = unat len" using room bs(3) by (simp add: tl_def)
  have "take (unat (m_data_len ml) + unat len) (drop (unat (m_data_off ml)) bs) = seg_data w ?l @ tl"
    unfolding take_add bs(4) tl_def by (simp add: add.commute)
  then have sl: "seg_data w' ?l = seg_data w ?l @ tl" "seg_ok w' ?l"
    using bs(1-3) room w'(2,5) by (auto simp: seg_data_def rd_bytes_def seg_ok_def dl Let_def)
  have other: "seg_data w' y = seg_data w y \<and> seg_ok w' y = seg_ok w y" if "y \<noteq> ?l" for y
  proof (cases "y = a")
    case True
    with that m w'(4) have "mbuf_at w' y = Some (m\<lparr>m_pkt_len := m_pkt_len m + ucast len\<rparr>)" by simp
    with True m w'(2) show ?thesis
      by (intro conjI seg_eq_fields [of w y m w' "m\<lparr>m_pkt_len := m_pkt_len m + ucast len\<rparr>"]) simp_all
  next
    case False
    with that w'(2,3) show ?thesis by (intro conjI seg_cong) simp_all
  qed
  have nl: "?l \<notin> set (butlast xs)" using x(2,5) by (metis distinct_butlast not_distinct_conv_prefix x(1) append_butlast_last_id)
  have "pkt_data w' (butlast xs) = pkt_data w (butlast xs)" using other nl by (intro pkt_data_cong) metis
  then have data: "pkt_data w' xs = pkt_data w xs @ tl" by (subst (1 2) x(2)) (simp add: sl)
  have "pkt_ok w' a xs"
  proof (rule pkt_ok_update [OF p])
    show "seg_ok w' y" if "y \<in> set xs" for y using that sl(2) other [of y] p by (cases "y = ?l") (auto simp: pkt_ok_def)
    show "\<exists>m'. mbuf_at w' y = Some m' \<and> m_next m' = m_next my" if "mbuf_at w y = Some my" for y my
      using that m l w'(3-5) by (cases "y = a"; cases "y = ?l") auto
    show "mbuf_at w' a = Some ((if ?l = a then m\<lparr>m_data_len := m_data_len ml + len\<rparr> else m)\<lparr>m_pkt_len := m_pkt_len m + ucast len\<rparr>)"
      by (rule w'(4))
  qed (simp_all add: pl(2) data tl flip: pl(1))
  moreover have chain': "seg_chain (mbuf_at w') a xs" using calculation by (simp add: pkt_ok_def)
  moreover have "rte_pktmbuf_append w a len = Some (m_buf_addr ml + ucast (m_data_off ml) + ucast (m_data_len ml), w')"
  proof -
    have "do { w \<leftarrow> upd_mbuf w ?l (\<lambda>l. l\<lparr>m_data_len := m_data_len l + len\<rparr>); upd_mbuf w a (\<lambda>m. m\<lparr>m_pkt_len := m_pkt_len m + ucast len\<rparr>) } = Some w'"
      using w'(1) m l by (auto simp: relen_def upd_mbuf_def bind_eq_Some_conv split: if_splits)
    then show ?thesis
      using lastseg_chain [OF x(4,1)] l len by (auto simp: rte_pktmbuf_append_def Let_def bind_eq_Some_conv not_less)
  qed
  moreover have "rte_pktmbuf_trim w' a len = Some (0, w)"
  proof -
    have "do { w \<leftarrow> upd_mbuf w' ?l (\<lambda>l. l\<lparr>m_data_len := m_data_len l - len\<rparr>); upd_mbuf w a (\<lambda>m. m\<lparr>m_pkt_len := m_pkt_len m - ucast len\<rparr>) } = Some w"
      using w'(4-6) by (auto simp: relen_def upd_mbuf_def bind_eq_Some_conv split: if_splits)
    then show ?thesis
      using lastseg_chain [OF chain' x(1)] w'(5) dl
      by (auto simp: rte_pktmbuf_trim_def Let_def bind_eq_Some_conv word_less_nat_alt split: if_splits)
  qed
  ultimately show ?thesis using data tl by blast
qed

section \<open>Reading, proved\<close>

text \<open>What a result of \<open>rte_pktmbuf_read\<close> points to.\<close>

definition read_bytes :: "'p mbuf_world \<Rightarrow> read_ptr \<Rightarrow> u32 \<Rightarrow> u8 list option" where
  "read_bytes w r len =
     (case r of
        Rd_NULL \<Rightarrow> None
      | Rd_Seg seg off \<Rightarrow> rd_bytes w seg (unat off) (unat len)
      | Rd_Buf buf \<Rightarrow> Some (take (unat len) buf))"

lemma rd_bytes_data:
  assumes "seg_ok w a" "off + n \<le> length (seg_data w a)"
  shows "rd_bytes w a off n = Some (take n (drop off (seg_data w a)))"
proof -
  from assms(1) obtain m bs where m: "mbuf_at w a = Some m" "mw_bytes w (m_buf_addr m) = Some bs"
    "unat (m_data_off m) + unat (m_data_len m) \<le> unat (m_buf_len m)" "unat (m_buf_len m) \<le> length bs"
    "seg_data w a = take (unat (m_data_len m)) (drop (unat (m_data_off m)) bs)" "length (seg_data w a) = unat (m_data_len m)"
    by (rule seg_okE)
  moreover have "take n (drop off (take (unat (m_data_len m)) (drop (unat (m_data_off m)) bs)))
      = take n (drop (unat (m_data_off m) + off) bs)"
    using assms(2) m(6) by (simp add: drop_take min_def add.commute)
  ultimately show ?thesis using assms(2) by (simp add: rd_bytes_def Let_def)
qed

lemma seg_ok_len: "seg_ok w a \<Longrightarrow> mbuf_at w a = Some m \<Longrightarrow> length (seg_data w a) = unat (m_data_len m)"
  by (auto elim: seg_okE)

lemma read_skip_ok:
  assumes "seg_chain (mbuf_at w) a xs" "\<forall>x \<in> set xs. seg_ok w x" "unat off < length (pkt_data w xs)"
  shows "\<exists>pre seg off' zs. read_skip w a off = Some (seg, off') \<and> xs = pre @ seg # zs \<and>
    seg_chain (mbuf_at w) seg (seg # zs) \<and> length (pkt_data w pre) + unat off' = unat off \<and> unat off' < length (seg_data w seg)"
  using assms
proof (induction xs arbitrary: a off)
  case (Cons x xs)
  then obtain m where m: "a = x" "mbuf_at w a = Some m" "seg_chain (mbuf_at w) (m_next m) xs" by (auto split: option.splits)
  have sd: "length (seg_data w a) = unat (m_data_len m)" using Cons.prems(2) m by (intro seg_ok_len) auto
  show ?case
  proof (cases "ucast (m_data_len m) \<le> off")
    case False
    then have "unat off < length (seg_data w a)" by (simp add: sd word_le_nat_alt)
    with False m Cons.prems(1) show ?thesis
      by (intro exI [of _ "[]"] exI [of _ a] exI [of _ off] exI [of _ xs]) (subst read_skip.simps, simp)
  next
    case True
    then have o: "unat (off - ucast (m_data_len m)) = unat off - unat (m_data_len m)" "unat (m_data_len m) \<le> unat off"
      by (simp_all add: word_le_nat_alt unat_sub_nowrap)
    from True m have step: "read_skip w a off = read_skip w (m_next m) (off - ucast (m_data_len m))"
      by (subst read_skip.simps) simp
    have "unat (off - ucast (m_data_len m)) < length (pkt_data w xs)" using Cons.prems(3) o sd m(1) by simp
    from Cons.IH [OF m(3) _ this] Cons.prems(2) obtain pre seg off' zs where
      ih: "read_skip w (m_next m) (off - ucast (m_data_len m)) = Some (seg, off')" "xs = pre @ seg # zs"
      "seg_chain (mbuf_at w) seg (seg # zs)" "length (pkt_data w pre) + unat off' = unat off - unat (m_data_len m)"
      "unat off' < length (seg_data w seg)" by (auto simp: o)
    with step m(1) sd o show ?thesis
      by (intro exI [of _ "x # pre"] exI [of _ seg] exI [of _ off'] exI [of _ zs]) simp
  qed
qed simp

lemma read_copy_ok:
  assumes "seg_chain (mbuf_at w) a xs" "\<forall>x \<in> set xs. seg_ok w x" "xs \<noteq> [] \<longrightarrow> unat off \<le> length (seg_data w a)"
    and "xs = [] \<longrightarrow> off = 0" "unat off + unat len \<le> length (pkt_data w xs)" "unat buf_off + unat len \<le> length buf"
    and "unat buf_off + unat len < 2 ^ 32"
  shows "read_copy w a off len buf buf_off =
    Some (take (unat buf_off) buf @ take (unat len) (drop (unat off) (pkt_data w xs)) @ drop (unat buf_off + unat len) buf)"
  using assms
proof (induction xs arbitrary: a off len buf buf_off)
  case Nil
  then have "len = 0" by (simp add: unat_eq_zero)
  then show ?case by (subst read_copy.simps) simp
next
  case (Cons x xs)
  then obtain m where m: "a = x" "mbuf_at w a = Some m" "seg_chain (mbuf_at w) (m_next m) xs" by (auto split: option.splits)
  have sd: "length (seg_data w a) = unat (m_data_len m)" using Cons.prems(2) m by (intro seg_ok_len) auto
  show ?case
  proof (cases "len = 0")
    case True
    then show ?thesis by (subst read_copy.simps) simp
  next
    case False
    let ?avail = "ucast (m_data_len m) - off :: u32"
    define c where "c = (if len < ?avail then len else ?avail)"
    have av: "unat ?avail = unat (m_data_len m) - unat off" using Cons.prems(3) sd by (simp add: unat_sub_nowrap)
    have c: "unat c = min (unat len) (unat (m_data_len m) - unat off)" by (auto simp: c_def word_less_nat_alt av)
    let ?bs = "take (unat c) (drop (unat off) (seg_data w a))"
    have rd: "rd_bytes w a (unat off) (unat c) = Some ?bs"
      using Cons.prems(2,3) m(1) sd c by (intro rd_bytes_data) auto
    have lb: "length ?bs = unat c" using c sd by simp
    let ?buf = "take (unat buf_off) buf @ ?bs @ drop (unat buf_off + unat c) buf"
    have le: "unat c \<le> unat len" using c by simp
    have lc: "unat (len - c) = unat len - unat c" using le by (rule unat_sub_nowrap)
    have bo: "unat (buf_off + c) = unat buf_off + unat c" using Cons.prems(7) le by (intro unat_add_nowrap) simp
    have step: "read_copy w a off len buf buf_off = read_copy w (m_next m) 0 (len - c) ?buf (buf_off + c)"
      using False m rd lb le Cons.prems(6) by (subst read_copy.simps) (simp add: Let_def flip: c_def)
    have "unat len - unat c \<le> length (pkt_data w xs)" using Cons.prems(3,5) m(1) sd c by auto
    then have "read_copy w (m_next m) 0 (len - c) ?buf (buf_off + c) =
        Some (take (unat (buf_off + c)) ?buf @ take (unat (len - c)) (drop (unat (0 :: u32)) (pkt_data w xs)) @
          drop (unat (buf_off + c) + unat (len - c)) ?buf)"
      using Cons.prems(2,6,7) lc bo le lb m(3) by (intro Cons.IH) (auto simp: min_def)
    also have "take (unat (buf_off + c)) ?buf = take (unat buf_off) buf @ ?bs"
      using Cons.prems(6) lb le by (simp add: bo)
    also have "drop (unat (buf_off + c) + unat (len - c)) ?buf = drop (unat buf_off + unat len) buf"
      using Cons.prems(6) lb le by (simp add: bo lc add.commute [of "unat buf_off" "unat len"])
    also have "(take (unat buf_off) buf @ ?bs) @ take (unat (len - c)) (drop (unat (0 :: u32)) (pkt_data w xs)) @ drop (unat buf_off + unat len) buf
        = take (unat buf_off) buf @ take (unat len) (drop (unat off) (pkt_data w (x # xs))) @ drop (unat buf_off + unat len) buf"
      using c sd m(1) lc Cons.prems(3) by (simp add: min_def)
    finally show ?thesis using step by simp
  qed
qed

lemma pktmbuf_read_ok:
  assumes p: "pkt_ok w a xs" and r: "unat off + unat len \<le> length (pkt_data w xs)" "len \<noteq> 0" "unat len \<le> length buf"
  shows "\<exists>q. rte_pktmbuf_read w a off len buf = Some q \<and> read_bytes w q len = Some (take (unat len) (drop (unat off) (pkt_data w xs)))"
proof -
  from p obtain m ys where m: "xs = a # ys" "mbuf_at w a = Some m" "unat (m_pkt_len m) = length (pkt_data w xs)"
    "length (pkt_data w xs) < 4294967296" by (rule pkt_okE) blast
  have ok: "seg_chain (mbuf_at w) a xs" "\<forall>x \<in> set xs. seg_ok w x" using p by (simp_all add: pkt_ok_def)
  have sum: "unat (off + len) = unat off + unat len" using r(1) m(4) by (intro unat_add_nowrap) simp
  have l0: "0 < unat len" using r(2) by (simp add: unat_gt_0)
  have sd: "length (seg_data w a) = unat (m_data_len m)" using ok m by (intro seg_ok_len) auto
  show ?thesis
  proof (cases "off + len \<le> ucast (m_data_len m)")
    case True
    then have "unat off + unat len \<le> length (seg_data w a)" by (simp add: word_le_nat_alt sum sd)
    moreover from this have "rd_bytes w a (unat off) (unat len) = Some (take (unat len) (drop (unat off) (seg_data w a)))"
      using ok m(1) by (intro rd_bytes_data) simp_all
    ultimately show ?thesis using True m(1,2) by (simp add: rte_pktmbuf_read_def read_bytes_def)
  next
    case False
    have "unat off < length (pkt_data w xs)" using r(1) l0 by linarith
    from read_skip_ok [OF ok this] obtain pre seg off' zs where
      s: "read_skip w a off = Some (seg, off')" "xs = pre @ seg # zs" "seg_chain (mbuf_at w) seg (seg # zs)"
      "length (pkt_data w pre) + unat off' = unat off" "unat off' < length (seg_data w seg)" by blast
    have ok': "\<forall>x \<in> set (seg # zs). seg_ok w x" using ok(2) s(2) by simp
    from s(3) obtain ms where ms: "mbuf_at w seg = Some ms" by (auto split: option.splits)
    have ds: "length (seg_data w seg) = unat (m_data_len ms)" using ok' ms by (intro seg_ok_len) auto
    have drop: "drop (unat off) (pkt_data w xs) = drop (unat off') (pkt_data w (seg # zs))"
      using s(4) unfolding s(2) by (simp flip: s(4))
    have le: "unat off' + unat len \<le> length (pkt_data w (seg # zs))" using r(1) s(4) unfolding s(2) by simp
    have sum': "unat (off' + len) = unat off' + unat len"
      using r(1) m(4) s(4) by (intro unat_add_nowrap) simp
    have slow: "rte_pktmbuf_read w a off len buf =
      (if off' + len \<le> ucast (m_data_len ms) then Some (Rd_Seg seg off') else map_option Rd_Buf (read_copy w seg off' len buf 0))"
      using False m(2,3) r(1) s(1) ms by (simp add: rte_pktmbuf_read_def pktmbuf_read_slow_def word_less_nat_alt sum)
    show ?thesis
    proof (cases "off' + len \<le> ucast (m_data_len ms)")
      case True
      then have "unat off' + unat len \<le> length (seg_data w seg)" by (simp add: word_le_nat_alt sum' ds)
      moreover from this have "rd_bytes w seg (unat off') (unat len) = Some (take (unat len) (drop (unat off') (seg_data w seg)))"
        using ok' by (intro rd_bytes_data) simp_all
      ultimately show ?thesis using True slow drop by (simp add: read_bytes_def)
    next
      case F: False
      define D where "D = take (unat len) (drop (unat off') (pkt_data w (seg # zs)))"
      have "read_copy w seg off' len buf 0 = Some (take (unat (0 :: u32)) buf @ D @ drop (unat (0 :: u32) + unat len) buf)"
        unfolding D_def using s(3,5) ok' le r(3) by (intro read_copy_ok) auto
      moreover have "length D = unat len" unfolding D_def using le by simp
      moreover have "take (unat len) (drop (unat off) (pkt_data w xs)) = D" by (simp only: D_def drop)
      ultimately show ?thesis using F slow by (simp add: read_bytes_def)
    qed
  qed
qed

lemma pktmbuf_read_beyond:
  assumes p: "pkt_ok w a xs" and r: "length (pkt_data w xs) < unat off + unat len" "unat off + unat len < 2 ^ 32"
  shows "rte_pktmbuf_read w a off len buf = Some Rd_NULL"
proof -
  from p obtain m ys where m: "xs = a # ys" "mbuf_at w a = Some m" "unat (m_pkt_len m) = length (pkt_data w xs)"
    by (rule pkt_okE) blast
  have sum: "unat (off + len) = unat off + unat len" using r(2) by (intro unat_add_nowrap) simp
  have "length (seg_data w a) = unat (m_data_len m)" using p m by (intro seg_ok_len) (auto simp: pkt_ok_def)
  with r(1) m have "\<not> off + len \<le> ucast (m_data_len m)" by (simp add: word_le_nat_alt sum)
  with m r(1) show ?thesis by (simp add: rte_pktmbuf_read_def pktmbuf_read_slow_def word_less_nat_alt sum)
qed

text \<open>Two requests on which the code fails: zero bytes at the end, and a sum that wraps.\<close>

lemma read_skip_end:
  assumes "seg_chain (mbuf_at w) a xs" "\<forall>x \<in> set xs. seg_ok w x" "unat off = length (pkt_data w xs)"
  shows "read_skip w a off = None"
  using assms
proof (induction xs arbitrary: a off)
  case Nil
  then show ?case by (subst read_skip.simps) simp
next
  case (Cons x xs)
  then obtain m where m: "a = x" "mbuf_at w a = Some m" "seg_chain (mbuf_at w) (m_next m) xs" by (auto split: option.splits)
  have sd: "length (seg_data w a) = unat (m_data_len m)" using Cons.prems(2) m by (intro seg_ok_len) auto
  then have le: "unat (m_data_len m) \<le> unat off" using Cons.prems(3) m(1) by simp
  then have "unat (off - ucast (m_data_len m)) = length (pkt_data w xs)"
    using Cons.prems(3) sd m(1) by (simp add: unat_sub_nowrap)
  with Cons.IH [OF m(3)] Cons.prems(2) m(2) le show ?case by (subst read_skip.simps) (simp add: word_le_nat_alt)
qed

lemma pktmbuf_read_end:
  assumes p: "pkt_ok w a (a # ys)" and y: "pkt_data w ys \<noteq> []" and off: "unat off = length (pkt_data w (a # ys))"
  shows "rte_pktmbuf_read w a off 0 buf = None"
proof -
  from p obtain m where m: "mbuf_at w a = Some m" "unat (m_pkt_len m) = length (pkt_data w (a # ys))" by (rule pkt_okE) blast
  have "length (seg_data w a) = unat (m_data_len m)" using p m by (intro seg_ok_len) (auto simp: pkt_ok_def)
  with off y have "\<not> off \<le> ucast (m_data_len m)" by (simp add: word_le_nat_alt)
  moreover have "read_skip w a off = None" using p off by (intro read_skip_end [of _ _ "a # ys"]) (simp_all add: pkt_ok_def)
  ultimately show ?thesis using m off by (simp add: rte_pktmbuf_read_def pktmbuf_read_slow_def word_less_nat_alt)
qed

lemma pktmbuf_read_wraps:
  assumes "mbuf_at w a = Some m" "off + len = 0"
  shows "rte_pktmbuf_read w a off len buf = Some (Rd_Seg a off)"
  using assms by (simp add: rte_pktmbuf_read_def)

section \<open>Chaining, proved\<close>

lemma seg_chain_append:
  assumes "seg_chain h a xs" "xs \<noteq> []" "seg_chain h' b ys"
    and "\<And>x m. x \<in> set xs \<Longrightarrow> h x = Some m \<Longrightarrow>
      \<exists>m'. h' x = Some m' \<and> m_next m' = (if x = last xs then b else m_next m)"
    and "distinct xs"
  shows "seg_chain h' a (xs @ ys)"
  using assms
proof (induction xs arbitrary: a)
  case (Cons x xs)
  from Cons.prems(1) obtain m where m: "a = x" "a \<noteq> NULL" "h a = Some m" "seg_chain h (m_next m) xs" by (auto split: option.splits)
  show ?case
  proof (cases "xs = []")
    case True
    with Cons.prems(3,4) m show ?thesis by fastforce
  next
    case False
    with Cons.prems(5) have "x \<noteq> last xs" by auto
    with False Cons.prems(4) [of x m] m obtain m' where "h' a = Some m'" "m_next m' = m_next m" by auto
    moreover have "seg_chain h' (m_next m) (xs @ ys)"
      by (rule Cons.IH [OF m(4) False Cons.prems(3)]) (use False Cons.prems(4,5) in auto)
    ultimately show ?thesis using m by simp
  qed
qed simp

text \<open>Only links and counters change.\<close>

definition same_segs :: "'p mbuf_world \<Rightarrow> 'p mbuf_world \<Rightarrow> bool" where
  "same_segs w w' \<longleftrightarrow> mw_bytes w' = mw_bytes w \<and>
     (\<forall>x m. mbuf_at w x = Some m \<longrightarrow> (\<exists>m'. mbuf_at w' x = Some m' \<and> m_buf_addr m' = m_buf_addr m \<and>
        m_data_off m' = m_data_off m \<and> m_data_len m' = m_data_len m \<and> m_buf_len m' = m_buf_len m))"

lemma same_segs_trans: "same_segs w v \<Longrightarrow> same_segs v u \<Longrightarrow> same_segs w u"
  unfolding same_segs_def by (metis (no_types, lifting))

lemma same_segs_set:
  "mbuf_at w a = Some m \<Longrightarrow> m_buf_addr m' = m_buf_addr m \<Longrightarrow> m_data_off m' = m_data_off m \<Longrightarrow>
   m_data_len m' = m_data_len m \<Longrightarrow> m_buf_len m' = m_buf_len m \<Longrightarrow> same_segs w (set_mbuf w a m')"
  by (auto simp: same_segs_def dest: mbuf_at_not_NULL)

lemma same_segs_data:
  assumes "same_segs w w'" "seg_ok w x"
  shows "seg_ok w' x" "seg_data w' x = seg_data w x"
proof -
  from assms(2) obtain m where m: "mbuf_at w x = Some m" by (auto elim: seg_okE)
  with assms(1) obtain m' where "mbuf_at w' x = Some m'" "mw_bytes w' = mw_bytes w" "m_buf_addr m' = m_buf_addr m"
    "m_data_off m' = m_data_off m" "m_data_len m' = m_data_len m" "m_buf_len m' = m_buf_len m" unfolding same_segs_def by blast
  from seg_eq_fields [OF m this] assms(2) show "seg_ok w' x" "seg_data w' x = seg_data w x" by simp_all
qed

lemma chain_ok:
  assumes a: "pkt_ok w a xs" and b: "pkt_ok w b ys" and d: "set xs \<inter> set ys = {}" and n: "length xs + length ys \<le> 65535"
  shows "\<exists>w'. rte_pktmbuf_chain w a b = Some (0, w') \<and> pkt_ok w' a (xs @ ys) \<and>
    pkt_data w' (xs @ ys) = pkt_data w xs @ pkt_data w ys"
proof -
  let ?l = "last xs"
  from a obtain ma xs' where ma: "xs = a # xs'" "mbuf_at w a = Some ma" "unat (m_nb_segs ma) = length xs"
    "unat (m_pkt_len ma) = length (pkt_data w xs)" by (rule pkt_okE) blast
  from b obtain mb ys' where mb: "ys = b # ys'" "mbuf_at w b = Some mb" "unat (m_nb_segs mb) = length ys"
    "unat (m_pkt_len mb) = length (pkt_data w ys)" by (rule pkt_okE) blast
  have ca: "seg_chain (mbuf_at w) a xs" and cb: "seg_chain (mbuf_at w) b ys" using a b by (simp_all add: pkt_ok_def)
  have l: "?l \<in> set xs" "?l \<noteq> b" "a \<noteq> b" using ma(1) mb(1) d by auto
  with a have "seg_ok w ?l" by (simp add: pkt_ok_def)
  then obtain ml where ml: "mbuf_at w ?l = Some ml" by (auto elim: seg_okE)
  have nn: "a \<noteq> NULL" "b \<noteq> NULL" "?l \<noteq> NULL" using ma mb ml by (auto dest: mbuf_at_not_NULL)
  define w1 where "w1 = set_mbuf w ?l (ml\<lparr>m_next := b\<rparr>)"
  define ma1 where "ma1 = (if ?l = a then ma\<lparr>m_next := b\<rparr> else ma)"
  have ma1: "mbuf_at w1 a = Some ma1" using ml ma(2) nn by (auto simp: w1_def ma1_def)
  have mb1: "mbuf_at w1 b = Some mb" using mb(2) l by (simp add: w1_def)
  define w2 where "w2 = set_mbuf w1 a (ma1\<lparr>m_nb_segs := m_nb_segs ma + m_nb_segs mb, m_pkt_len := m_pkt_len ma + m_pkt_len mb\<rparr>)"
  have mb2: "mbuf_at w2 b = Some mb" using mb1 l(3) by (simp add: w2_def)
  define w' where "w' = set_mbuf w2 b (mb\<lparr>m_pkt_len := ucast (m_data_len mb)\<rparr>)"
  have s1: "same_segs w w1" using ml unfolding w1_def by (rule same_segs_set) simp_all
  have s2: "same_segs w1 w2" using ma1 unfolding w2_def by (rule same_segs_set) simp_all
  have s3: "same_segs w2 w'" using mb2 unfolding w'_def by (rule same_segs_set) simp_all
  have same: "same_segs w w'" using s1 s2 s3 by (blast intro: same_segs_trans)
  have segs: "seg_ok w' x" "seg_data w' x = seg_data w x" if "x \<in> set (xs @ ys)" for x
    using same_segs_data [OF same] that a b by (auto simp: pkt_ok_def)
  have data: "pkt_data w' (xs @ ys) = pkt_data w xs @ pkt_data w ys"
    using segs(2) pkt_data_cong [of xs w' w] pkt_data_cong [of ys w' w] by simp
  have at: "mbuf_at w' x = (if x = b then Some (mb\<lparr>m_pkt_len := ucast (m_data_len mb)\<rparr>)
      else if x = a then Some (ma1\<lparr>m_nb_segs := m_nb_segs ma + m_nb_segs mb, m_pkt_len := m_pkt_len ma + m_pkt_len mb\<rparr>)
      else if x = ?l then Some (ml\<lparr>m_next := b\<rparr>) else mbuf_at w x)" for x
    using nn by (auto simp: w'_def w2_def w1_def)
  have chy: "seg_chain (mbuf_at w') b ys"
  proof (rule seg_chain_next [OF cb])
    fix x m assume "x \<in> set ys" "mbuf_at w x = Some m"
    moreover from this d l(1) ma(1) have "x \<noteq> a" "x \<noteq> ?l" by auto
    ultimately show "\<exists>m'. mbuf_at w' x = Some m' \<and> m_next m' = m_next m" using mb(2) by (auto simp: at)
  qed
  have chain: "seg_chain (mbuf_at w') a (xs @ ys)"
  proof (rule seg_chain_append [OF ca _ chy])
    show "\<exists>m'. mbuf_at w' x = Some m' \<and> m_next m' = (if x = ?l then b else m_next m)"
      if "x \<in> set xs" "mbuf_at w x = Some m" for x m
    proof -
      have "x \<noteq> b" using that(1) d mb(1) by auto
      with that(2) ml ma(2) show ?thesis by (auto simp: at ma1_def)
    qed
  qed (use a ma(1) in \<open>simp_all add: pkt_ok_def\<close>)
  have nb: "unat (m_nb_segs ma + m_nb_segs mb) = length (xs @ ys)" using ma(3) mb(3) n by (simp add: unat_add_nowrap)
  have "length (pkt_data w' (xs @ ys)) < 4294967296" by (rule pkt_data_bound) (use n in simp)
  then have pl: "unat (m_pkt_len ma + m_pkt_len mb) = length (pkt_data w' (xs @ ys))"
    using ma(4) mb(4) unfolding data by (simp add: unat_add_nowrap)
  have "pkt_ok w' a (xs @ ys)"
    using a b d chain segs(1) nb pl by (simp add: pkt_ok_def at l(3))
  moreover have "rte_pktmbuf_chain w a b = Some (0, w')"
  proof -
    have u1: "upd_mbuf w ?l (\<lambda>m. m\<lparr>m_next := b\<rparr>) = Some w1" using ml by (simp add: upd_mbuf_def w1_def)
    have "m_nb_segs ma1 = m_nb_segs ma" "m_pkt_len ma1 = m_pkt_len ma" by (simp_all add: ma1_def)
    then have u2: "upd_mbuf w1 a (\<lambda>m. m\<lparr>m_nb_segs := m_nb_segs m + m_nb_segs mb, m_pkt_len := m_pkt_len m + m_pkt_len mb\<rparr>) = Some w2"
      using ma1 by (simp add: upd_mbuf_def w2_def)
    have u3: "upd_mbuf w2 b (\<lambda>m. m\<lparr>m_pkt_len := ucast (m_data_len m)\<rparr>) = Some w'"
      using mb2 by (simp add: upd_mbuf_def w'_def)
    have ls: "rte_pktmbuf_lastseg w a = Some ?l" by (rule lastseg_chain [OF ca]) (simp add: ma(1))
    show ?thesis
      using n unfolding rte_pktmbuf_chain_def RTE_MBUF_MAX_NB_SEGS_def ma(2) mb(2) ls
      by (simp add: ma(3) mb(3) u1 mb1 u2 u3)
  qed
  ultimately show ?thesis using data by blast
qed

lemma chain_overflow:
  assumes a: "pkt_ok w a xs" and b: "pkt_ok w b ys" and n: "65535 < length xs + length ys"
  shows "rte_pktmbuf_chain w a b = Some (- EOVERFLOW, w)"
proof -
  from a obtain ma xs' where "xs = a # xs'" "mbuf_at w a = Some ma" "unat (m_nb_segs ma) = length xs" by (rule pkt_okE) blast
  moreover from b obtain mb ys' where "ys = b # ys'" "mbuf_at w b = Some mb" "unat (m_nb_segs mb) = length ys" by (rule pkt_okE) blast
  ultimately show ?thesis using n by (simp add: rte_pktmbuf_chain_def RTE_MBUF_MAX_NB_SEGS_def)
qed

end
