(* ===== verification/Mbuf_Copy.thy ===== *)
theory Mbuf_Copy
  imports Mbuf_Data
begin

text \<open>
  Operations of \<open>rte_mbuf.c\<close> on whole packets: release in bulk, linearisation, the shallow copy
  that shares the buffers and the deep copy. The sanity checks of the debug build are compiled
  out.
\<close>

section \<open>Release in bulk\<close>

text \<open>
  \<open>pending\<close> is the part in use of the array of \<open>pending_sz\<close> pointers; \<open>None\<close> if it would
  overflow.
\<close>

definition free_pending :: "'p mbuf_world \<Rightarrow> addr list \<Rightarrow> 'p mbuf_world option" where
  "free_pending w pending =
     do { p \<leftarrow> mbuf_at w (hd pending);
          pool \<leftarrow> mw_pools w (m_pool p);
          pool \<leftarrow> rte_mempool_put_bulk (mw_ops w) (mw_lcore w) pool pending (of_nat (length pending));
          Some (set_pool w (m_pool p) pool) }"

definition free_seg_via_array ::
  "'p mbuf_world \<Rightarrow> addr \<Rightarrow> addr list \<Rightarrow> nat \<Rightarrow> ('p mbuf_world \<times> addr list) option" where
  "free_seg_via_array w m pending pending_sz =
     do { (m, w) \<leftarrow> rte_pktmbuf_prefree_seg w m;
          if m \<noteq> NULL then do {
            s \<leftarrow> mbuf_at w m;
            flush \<leftarrow> (if length pending = pending_sz then Some True
                      else if pending \<noteq> [] then do { p \<leftarrow> mbuf_at w (hd pending); Some (m_pool s \<noteq> m_pool p) }
                      else Some False);
            (w, pending) \<leftarrow> (if flush then do { w \<leftarrow> free_pending w pending; Some (w, []) } else Some (w, pending));
            if length pending < pending_sz then Some (w, pending @ [m]) else None }
          else Some (w, pending) }"

definition RTE_PKTMBUF_FREE_PENDING_SZ :: nat where "RTE_PKTMBUF_FREE_PENDING_SZ = 64"

partial_function (option) free_bulk_segs ::
  "'p mbuf_world \<Rightarrow> addr \<Rightarrow> addr list \<Rightarrow> ('p mbuf_world \<times> addr list) option" where
  "free_bulk_segs w m pending =
     Option.bind (mbuf_at w m) (\<lambda>s.
       Option.bind (free_seg_via_array w m pending RTE_PKTMBUF_FREE_PENDING_SZ) (\<lambda>(w, pending).
         if m_next s \<noteq> NULL then free_bulk_segs w (m_next s) pending else Some (w, pending)))"

primrec free_bulk_run :: "'p mbuf_world \<Rightarrow> addr list \<Rightarrow> addr list \<Rightarrow> ('p mbuf_world \<times> addr list) option" where
  "free_bulk_run w [] pending = Some (w, pending)"
| "free_bulk_run w (m # ms) pending =
     (if m = NULL then free_bulk_run w ms pending
      else do { (w, pending) \<leftarrow> free_bulk_segs w m pending; free_bulk_run w ms pending })"

definition rte_pktmbuf_free_bulk :: "'p mbuf_world \<Rightarrow> addr list \<Rightarrow> u32 \<Rightarrow> 'p mbuf_world option" where
  "rte_pktmbuf_free_bulk w mbufs cnt =
     (if unat cnt \<le> length mbufs then
        do { (w, pending) \<leftarrow> free_bulk_run w (take (unat cnt) mbufs) [];
             if pending \<noteq> [] then free_pending w pending else Some w }
      else None)"

section \<open>Linearisation\<close>

text \<open>
  \<open>buffer\<close> is a position in the data of the first segment \<open>a\<close>. The copies are between
  different buffers (\<open>rte_memcpy\<close> is undefined otherwise).
\<close>

partial_function (option) linearize_segs :: "'p mbuf_world \<Rightarrow> addr \<Rightarrow> nat \<Rightarrow> addr \<Rightarrow> 'p mbuf_world option" where
  "linearize_segs w a buffer m =
     (if m = NULL then Some w
      else Option.bind (mbuf_at w m) (\<lambda>s.
        Option.bind (rd_bytes w m 0 (unat (m_data_len s))) (\<lambda>bs.
          Option.bind (wr_bytes w a buffer bs) (\<lambda>w.
            Option.bind (rte_pktmbuf_free_seg w m) (\<lambda>w.
              linearize_segs w a (buffer + unat (m_data_len s)) (m_next s))))))"

definition pktmbuf_linearize_slow :: "'p mbuf_world \<Rightarrow> addr \<Rightarrow> (int \<times> 'p mbuf_world) option" where
  "pktmbuf_linearize_slow w a =
     do { m \<leftarrow> mbuf_at w a;
          let copy_len = m_pkt_len m - ucast (m_data_len m);
          if ucast (rte_pktmbuf_tailroom m) < copy_len then Some (- 1, w)
          else do {
            let buffer = unat (m_data_len m);
            w \<leftarrow> upd_mbuf w a (\<lambda>m. m\<lparr>m_data_len := ucast (m_pkt_len m)\<rparr>);
            w \<leftarrow> linearize_segs w a buffer (m_next m);
            w \<leftarrow> upd_mbuf w a (\<lambda>m. m\<lparr>m_next := NULL, m_nb_segs := 1\<rparr>);
            Some (0, w) } }"

definition rte_pktmbuf_linearize :: "'p mbuf_world \<Rightarrow> addr \<Rightarrow> (int \<times> 'p mbuf_world) option" where
  "rte_pktmbuf_linearize w a =
     do { c \<leftarrow> rte_pktmbuf_is_contiguous w a; if c then Some (0, w) else pktmbuf_linearize_slow w a }"

section \<open>Copies\<close>

text \<open>
  \<open>prev\<close> is the segment whose \<open>next\<close> the pointer \<open>prev\<close> of the code points to. The loop of the
  clone ends with the last allocation, NULL if it failed.
\<close>

partial_function (option) clone_segs ::
  "'p mbuf_world \<Rightarrow> addr \<Rightarrow> addr \<Rightarrow> addr \<Rightarrow> addr \<Rightarrow> u16 \<Rightarrow> ('p mbuf_world \<times> addr \<times> addr \<times> u16) option" where
  "clone_segs w mp mi md prev nseg =
     Option.bind (rte_pktmbuf_attach w mi md) (\<lambda>w.
       Option.bind (upd_mbuf w prev (\<lambda>m. m\<lparr>m_next := mi\<rparr>)) (\<lambda>w.
         Option.bind (mbuf_at w md) (\<lambda>s.
           if m_next s \<noteq> NULL then
             Option.bind (rte_pktmbuf_alloc w mp) (\<lambda>(mi', w).
               if mi' \<noteq> NULL then clone_segs w mp mi' (m_next s) mi (nseg + 1)
               else Some (w, mi', mi, nseg + 1))
           else Some (w, mi, mi, nseg + 1))))"

definition rte_pktmbuf_clone :: "'p mbuf_world \<Rightarrow> addr \<Rightarrow> addr \<Rightarrow> (addr \<times> 'p mbuf_world) option" where
  "rte_pktmbuf_clone w md mp =
     do { (mc, w) \<leftarrow> rte_pktmbuf_alloc w mp;
          if mc = NULL then Some (NULL, w)
          else do {
            pktlen \<leftarrow> map_option m_pkt_len (mbuf_at w md);
            (w, mi, prev, nseg) \<leftarrow> clone_segs w mp mc md mc 0;
            w \<leftarrow> upd_mbuf w prev (\<lambda>m. m\<lparr>m_next := NULL\<rparr>);
            w \<leftarrow> upd_mbuf w mc (\<lambda>m. m\<lparr>m_nb_segs := nseg, m_pkt_len := pktlen\<rparr>);
            if mi = NULL then do { w \<leftarrow> rte_pktmbuf_free w mc; Some (NULL, w) }
            else Some (mc, w) } }"

partial_function (option) copy_segs ::
  "'p mbuf_world \<Rightarrow> addr \<Rightarrow> addr \<Rightarrow> addr \<Rightarrow> addr \<Rightarrow> u32 \<Rightarrow> u32 \<Rightarrow> (addr \<times> 'p mbuf_world) option" where
  "copy_segs w mp mc m_last seg off len =
     (if len = 0 then Some (mc, w)
      else
        Option.bind (read_skip w seg off) (\<lambda>(seg, off).
          Option.bind (mbuf_at w m_last) (\<lambda>l.
            Option.bind
              (if rte_pktmbuf_tailroom l = 0 then
                 Option.bind (rte_pktmbuf_alloc w mp) (\<lambda>(n, w).
                   if n = NULL then Some (n, w)
                   else Option.bind (upd_mbuf w mc (\<lambda>m. m\<lparr>m_nb_segs := m_nb_segs m + 1\<rparr>)) (\<lambda>w.
                          Option.bind (upd_mbuf w m_last (\<lambda>m. m\<lparr>m_next := n\<rparr>)) (\<lambda>w. Some (n, w))))
               else Some (m_last, w))
              (\<lambda>(m_last, w).
                if m_last = NULL then Option.bind (rte_pktmbuf_free w mc) (\<lambda>w. Some (NULL, w))
                else
                  Option.bind (mbuf_at w seg) (\<lambda>s.
                    Option.bind (mbuf_at w m_last) (\<lambda>l.
                      let copy_len = min (ucast (m_data_len s) - off) len;
                          copy_len = min copy_len (ucast (rte_pktmbuf_tailroom l))
                      in Option.bind (rd_bytes w seg (unat off) (unat copy_len)) (\<lambda>bs.
                           Option.bind (wr_bytes w m_last (unat (m_data_len l)) bs) (\<lambda>w.
                             Option.bind (upd_mbuf w m_last (\<lambda>m. m\<lparr>m_data_len := m_data_len m + ucast copy_len\<rparr>)) (\<lambda>w.
                               Option.bind (upd_mbuf w mc (\<lambda>m. m\<lparr>m_pkt_len := m_pkt_len m + copy_len\<rparr>)) (\<lambda>w.
                                 copy_segs w mp mc m_last seg (off + copy_len) (len - copy_len)))))))))))"

definition rte_pktmbuf_copy :: "'p mbuf_world \<Rightarrow> addr \<Rightarrow> addr \<Rightarrow> u32 \<Rightarrow> u32 \<Rightarrow> (addr \<times> 'p mbuf_world) option" where
  "rte_pktmbuf_copy w m mp off len =
     do { h \<leftarrow> mbuf_at w m;
          if m_pkt_len h \<le> off then Some (NULL, w)
          else do {
            (mc, w) \<leftarrow> rte_pktmbuf_alloc w mp;
            if mc = NULL then Some (NULL, w)
            else do {
              h \<leftarrow> mbuf_at w m;
              let len = min len (m_pkt_len h - off);
              w \<leftarrow> upd_mbuf w mc (\<lambda>c. (pktmbuf_copy_hdr c h)
                     \<lparr>m_ol_flags := m_ol_flags h AND NOT (RTE_MBUF_F_INDIRECT OR RTE_MBUF_F_EXTERNAL)\<rparr>);
              copy_segs w mp mc mc m off len } } }"

end
