(* ===== verification/Mbuf_Bulk.thy ===== *)
theory Mbuf_Bulk
  imports Mbuf_Copy
begin

text \<open>
  Linearisation keeps the bytes of the packet and gives the other segments back to their pool;
  the release in bulk gives every segment back to the pool it came from. Stated for any driver
  that meets \<open>mempool_driver\<close>.
\<close>

section \<open>Linearisation\<close>

lemma wr_bytes_at:
  assumes "mbuf_at w a = Some m" "mw_bytes w (m_buf_addr m) = Some bs" "unat (m_data_off m) + off + length d \<le> length bs"
  shows "wr_bytes w a off d = Some (w\<lparr>mw_bytes := (mw_bytes w)(m_buf_addr m \<mapsto>
    take (unat (m_data_off m) + off) bs @ d @ drop (unat (m_data_off m) + off + length d) bs)\<rparr>)"
  using assms by (simp add: wr_bytes_def Let_def)

lemma mbuf_at_bytes [simp]: "mbuf_at (w\<lparr>mw_bytes := b\<rparr>) x = mbuf_at w x"
  by (simp add: mbuf_at_def)

lemma splice_twice:
  assumes "k + length (d @ e) \<le> length bs"
  shows "take (k + length d) (take k bs @ d @ drop (k + length d) bs) @ e
      @ drop (k + length d + length e) (take k bs @ d @ drop (k + length d) bs)
    = take k bs @ (d @ e) @ drop (k + length (d @ e)) bs"
  using assms by (simp add: add.commute add.left_commute)

context mempool_driver
begin

lemma linearize_segs_ok:
  assumes "seg_chain (mbuf_at w) s ys" "distinct ys" "a \<notin> set ys" "\<And>y. y \<in> set ys \<Longrightarrow> sole_direct w P y \<and> seg_ok w y"
    and "mbuf_at w a = Some m" "mw_bytes w (m_buf_addr m) = Some bs"
    and "\<And>y my. y \<in> set ys \<Longrightarrow> mbuf_at w y = Some my \<Longrightarrow> m_buf_addr my \<noteq> m_buf_addr m"
    and "unat (m_data_off m) + buffer + length (pkt_data w ys) \<le> length bs"
    and "mw_pools w P = Some mp" "pool_ok drv inv (mw_ops w) mp"
    and "size (pool_bag bag mp) + length ys \<le> pool_cap bag room mp"
  shows "\<exists>w' mp'. linearize_segs w a buffer s = Some w' \<and> mbuf_at w' a = Some m \<and>
    mw_bytes w' (m_buf_addr m) = Some (take (unat (m_data_off m) + buffer) bs @ pkt_data w ys
      @ drop (unat (m_data_off m) + buffer + length (pkt_data w ys)) bs) \<and>
    mw_pools w' = (mw_pools w)(P \<mapsto> mp') \<and> mw_ops w' = mw_ops w \<and> pool_ok drv inv (mw_ops w) mp' \<and>
    pool_bag bag mp' = pool_bag bag mp + mset ys"
  using assms
proof (induction ys arbitrary: w s buffer mp bs)
  case Nil
  then have "mw_pools w = (mw_pools w)(P \<mapsto> mp)" by auto
  with Nil show ?case by (intro exI [of _ w] exI [of _ mp]) (simp add: linearize_segs.simps)
next
  case (Cons y ys)
  from Cons.prems(1) obtain my where y: "s = y" "s \<noteq> NULL" "mbuf_at w s = Some my" "seg_chain (mbuf_at w) (m_next my) ys"
    by (auto split: option.splits)
  let ?d = "seg_data w s" and ?k = "unat (m_data_off m) + buffer"
  have sy: "sole_direct w P s" "seg_ok w s" using Cons.prems(4) y(1) by auto
  have dl: "length ?d = unat (m_data_len my)" using sy(2) y(3) by (rule seg_ok_len)
  have rd: "rd_bytes w s 0 (unat (m_data_len my)) = Some ?d" using rd_bytes_data [OF sy(2), of 0 "length ?d"] dl by simp
  let ?bs = "take ?k bs @ ?d @ drop (?k + length ?d) bs"
  let ?w1 = "w\<lparr>mw_bytes := (mw_bytes w)(m_buf_addr m \<mapsto> ?bs)\<rparr>"
  have wr: "wr_bytes w a buffer ?d = Some ?w1"
    using Cons.prems(8) y(1) by (intro wr_bytes_at [OF Cons.prems(5,6)]) simp
  have "sole_direct ?w1 P s" using sy(1) by (simp add: sole_direct_def)
  from free_seg_sole [OF this] Cons.prems(9-11) y(3) obtain mp1 where
    fs: "rte_pktmbuf_free_seg ?w1 s = Some (set_pool (set_mbuf ?w1 s (my\<lparr>m_next := NULL, m_nb_segs := 1\<rparr>)) P mp1)"
      "pool_ok drv inv (mw_ops w) mp1" "pool_bag bag mp1 = pool_bag bag mp + {#s#}" "pool_cap bag room mp1 = pool_cap bag room mp"
    by auto
  define w2 where "w2 = set_pool (set_mbuf ?w1 s (my\<lparr>m_next := NULL, m_nb_segs := 1\<rparr>)) P mp1"
  have at: "mbuf_at w2 x = mbuf_at w x" if "x \<noteq> s" for x using that by (simp add: w2_def)
  have seg: "seg_ok w2 x = seg_ok w x" "seg_data w2 x = seg_data w x" if "x \<in> set ys" for x
  proof -
    have "x \<noteq> s" using that Cons.prems(2) y(1) by auto
    moreover have "mw_bytes w2 (m_buf_addr mx) = mw_bytes w (m_buf_addr mx)" if "mbuf_at w x = Some mx" for mx
      using Cons.prems(7) [of x mx] that \<open>x \<in> set ys\<close> by (simp add: w2_def)
    ultimately show "seg_ok w2 x = seg_ok w x" "seg_data w2 x = seg_data w x" by (auto intro!: seg_cong at)
  qed
  have data: "pkt_data w2 ys = pkt_data w ys" using seg(2) by (rule pkt_data_cong)
  have at2: "\<And>x. x \<in> set (a # ys) \<Longrightarrow> mbuf_at w2 x = mbuf_at w x" using Cons.prems(2,3) y(1) by (auto intro!: at)
  have "\<exists>w' mp'. linearize_segs w2 a (buffer + length ?d) (m_next my) = Some w' \<and> mbuf_at w' a = Some m \<and>
    mw_bytes w' (m_buf_addr m) = Some (take (unat (m_data_off m) + (buffer + length ?d)) ?bs @ pkt_data w2 ys
      @ drop (unat (m_data_off m) + (buffer + length ?d) + length (pkt_data w2 ys)) ?bs) \<and>
    mw_pools w' = (mw_pools w2)(P \<mapsto> mp') \<and> mw_ops w' = mw_ops w2 \<and> pool_ok drv inv (mw_ops w2) mp' \<and>
    pool_bag bag mp' = pool_bag bag mp1 + mset ys"
  proof (rule Cons.IH)
    show "seg_chain (mbuf_at w2) (m_next my) ys" using y(4) at2 by (subst seg_chain_cong) auto
    show "sole_direct w2 P x \<and> seg_ok w2 x" if "x \<in> set ys" for x
      using that Cons.prems(4) [of x] seg(1) [OF that] at2 [of x] by (simp add: sole_direct_def)
    show "m_buf_addr mx \<noteq> m_buf_addr m" if "x \<in> set ys" "mbuf_at w2 x = Some mx" for x mx
      using that Cons.prems(7) [of x mx] at2 [of x] by simp
    show "unat (m_data_off m) + (buffer + length ?d) + length (pkt_data w2 ys) \<le> length ?bs"
      using Cons.prems(8) y(1) by (simp add: data)
  qed (use Cons.prems fs at2 in \<open>simp_all add: w2_def\<close>)
  then obtain w' mp' where w': "linearize_segs w2 a (buffer + length ?d) (m_next my) = Some w'" "mbuf_at w' a = Some m"
    "mw_bytes w' (m_buf_addr m) = Some (take (?k + length ?d) ?bs @ pkt_data w ys @ drop (?k + length ?d + length (pkt_data w ys)) ?bs)"
    "mw_pools w' = (mw_pools w2)(P \<mapsto> mp')" "mw_ops w' = mw_ops w2" "pool_ok drv inv (mw_ops w2) mp'"
    "pool_bag bag mp' = pool_bag bag mp1 + mset ys" by (auto simp: data add.assoc)
  have bytes: "take (?k + length ?d) ?bs @ pkt_data w ys @ drop (?k + length ?d + length (pkt_data w ys)) ?bs
      = take ?k bs @ pkt_data w (y # ys) @ drop (?k + length (pkt_data w (y # ys))) bs"
    using splice_twice [of ?k ?d "pkt_data w ys" bs] Cons.prems(8) y(1) by simp
  have "linearize_segs w a buffer s = Some w'"
    using y(2,3) rd wr fs(1) w'(1) by (subst linearize_segs.simps) (simp add: w2_def dl)
  then show ?case using w' fs y(1) unfolding bytes
    by (intro exI [of _ w'] exI [of _ mp']) (simp add: w2_def)
qed

lemma linearize_ok:
  assumes p: "pkt_ok w a (a # ys)" and m: "mbuf_at w a = Some m"
    and s: "\<And>y. y \<in> set ys \<Longrightarrow> sole_direct w P y"
    and b: "\<And>y my. y \<in> set ys \<Longrightarrow> mbuf_at w y = Some my \<Longrightarrow> m_buf_addr my \<noteq> m_buf_addr m"
    and t: "length (pkt_data w ys) \<le> unat (rte_pktmbuf_tailroom m)"
    and pool: "mw_pools w P = Some mp" "pool_ok drv inv (mw_ops w) mp"
      "size (pool_bag bag mp) + length ys \<le> pool_cap bag room mp"
  shows "\<exists>w' mp'. rte_pktmbuf_linearize w a = Some (0, w') \<and> pkt_ok w' a [a] \<and>
    pkt_data w' [a] = pkt_data w (a # ys) \<and> mw_pools w' = (mw_pools w)(P \<mapsto> mp') \<and>
    pool_ok drv inv (mw_ops w) mp' \<and> pool_bag bag mp' = pool_bag bag mp + mset ys"
proof (cases "ys = []")
  case True
  from pool(1) have "mw_pools w = (mw_pools w)(P \<mapsto> mp)" by auto
  moreover have "rte_pktmbuf_linearize w a = Some (0, w)"
    using p m True by (simp add: rte_pktmbuf_linearize_def rte_pktmbuf_is_contiguous_def pkt_ok_def word_unat_eq_iff)
  ultimately show ?thesis using p pool(2) True by (intro exI [of _ w] exI [of _ mp]) simp
next
  case False
  from p m have x: "a \<notin> set ys" "distinct ys" "seg_chain (mbuf_at w) (m_next m) ys" "a \<noteq> NULL"
    "unat (m_nb_segs m) = Suc (length ys)" "unat (m_pkt_len m) = length (pkt_data w (a # ys))"
    "seg_ok w a" "\<And>y. y \<in> set ys \<Longrightarrow> seg_ok w y"
    by (simp_all add: pkt_ok_def)
  from x(7) m obtain bs where bs: "mw_bytes w (m_buf_addr m) = Some bs"
    "unat (m_data_off m) + unat (m_data_len m) \<le> unat (m_buf_len m)" "unat (m_buf_len m) \<le> length bs"
    "seg_data w a = take (unat (m_data_len m)) (drop (unat (m_data_off m)) bs)" "length (seg_data w a) = unat (m_data_len m)"
    by (auto elim: seg_okE)
  define n where "n = length (pkt_data w ys)"
  note tr = unat_tailroom [OF bs(2)]
  have cl: "unat (m_pkt_len m - ucast (m_data_len m)) = n" using x(6) bs(5) by (subst unat_sub_nowrap) (simp_all add: n_def)
  have fit: "unat (m_data_off m) + unat (m_data_len m) + n \<le> unat (m_buf_len m)" using t tr bs(2) by (simp add: n_def)
  have lt: "unat (m_buf_len m) < 65536" using unsigned_less [of "m_buf_len m", where ?'a = nat] by simp
  have dl: "unat (ucast (m_pkt_len m) :: u16) = unat (m_data_len m) + n"
    using x(6) bs(5) fit lt by (simp add: unsigned_ucast_eq n_def take_bit_nat_eq_self)
  let ?m1 = "m\<lparr>m_data_len := ucast (m_pkt_len m)\<rparr>"
  define w1 where "w1 = set_mbuf w a ?m1"
  have at: "mbuf_at w1 y = mbuf_at w y" if "y \<in> set ys" for y using that x(1) by (auto simp: w1_def)
  have seg: "seg_ok w1 y = seg_ok w y" "seg_data w1 y = seg_data w y" if "y \<in> set ys" for y
    using at [OF that] by (auto intro!: seg_cong simp: w1_def)
  have data: "pkt_data w1 ys = pkt_data w ys" using seg(2) by (rule pkt_data_cong)
  have "\<exists>w2 mp'. linearize_segs w1 a (unat (m_data_len m)) (m_next m) = Some w2 \<and> mbuf_at w2 a = Some ?m1 \<and>
    mw_bytes w2 (m_buf_addr ?m1) = Some (take (unat (m_data_off ?m1) + unat (m_data_len m)) bs @ pkt_data w1 ys
      @ drop (unat (m_data_off ?m1) + unat (m_data_len m) + length (pkt_data w1 ys)) bs) \<and>
    mw_pools w2 = (mw_pools w1)(P \<mapsto> mp') \<and> mw_ops w2 = mw_ops w1 \<and> pool_ok drv inv (mw_ops w1) mp' \<and>
    pool_bag bag mp' = pool_bag bag mp + mset ys"
  proof (rule linearize_segs_ok)
    show "seg_chain (mbuf_at w1) (m_next m) ys" using x(3) at by (subst seg_chain_cong) auto
    show "sole_direct w1 P y \<and> seg_ok w1 y" if "y \<in> set ys" for y
      using that s [OF that] x(8) seg(1) at by (simp add: sole_direct_def)
    show "m_buf_addr my \<noteq> m_buf_addr ?m1" if "y \<in> set ys" "mbuf_at w1 y = Some my" for y my
      using that b [of y my] at by simp
    show "unat (m_data_off ?m1) + unat (m_data_len m) + length (pkt_data w1 ys) \<le> length bs"
      using fit bs(3) by (simp add: data n_def)
  qed (use x pool bs(1) in \<open>simp_all add: w1_def\<close>)
  then obtain w2 mp' where w2: "linearize_segs w1 a (unat (m_data_len m)) (m_next m) = Some w2" "mbuf_at w2 a = Some ?m1"
    "mw_bytes w2 (m_buf_addr m) = Some (take (unat (m_data_off m) + unat (m_data_len m)) bs @ pkt_data w ys
      @ drop (unat (m_data_off m) + unat (m_data_len m) + n) bs)"
    "mw_pools w2 = (mw_pools w)(P \<mapsto> mp')" "pool_ok drv inv (mw_ops w) mp'" "pool_bag bag mp' = pool_bag bag mp + mset ys"
    by (auto simp: w1_def [symmetric] data n_def) (auto simp: w1_def)
  let ?m2 = "?m1\<lparr>m_next := NULL, m_nb_segs := 1\<rparr>"
  define w' where "w' = set_mbuf w2 a ?m2"
  have "rte_pktmbuf_linearize w a = Some (0, w')"
  proof -
    have "m_nb_segs m \<noteq> 1" using x(5) False by (auto simp: word_unat_eq_iff)
    moreover have "\<not> ucast (rte_pktmbuf_tailroom m) < m_pkt_len m - ucast (m_data_len m)"
      using t by (simp add: word_less_nat_alt cl n_def)
    ultimately show ?thesis using m x(4) w2(1,2)
      by (simp add: rte_pktmbuf_linearize_def rte_pktmbuf_is_contiguous_def pktmbuf_linearize_slow_def upd_mbuf_def
          w1_def w'_def Let_def)
  qed
  moreover have sd: "seg_data w' a = pkt_data w (a # ys)" and "seg_ok w' a"
    using x(4) w2(3) fit bs
    by (simp_all add: w'_def seg_data_def seg_ok_def rd_bytes_def dl Let_def n_def take_drop add.commute add.left_commute)
  moreover have "pkt_ok w' a [a]"
    using x(4) \<open>seg_ok w' a\<close> sd x(6) by (simp add: pkt_ok_def) (simp add: w'_def)
  ultimately show ?thesis using w2(4-6) by (intro exI [of _ w'] exI [of _ mp']) (simp add: w'_def)
qed

lemma linearize_no_room:
  assumes "pkt_ok w a (a # ys)" "mbuf_at w a = Some m" "ys \<noteq> []" "unat (rte_pktmbuf_tailroom m) < length (pkt_data w ys)"
  shows "rte_pktmbuf_linearize w a = Some (- 1, w)"
proof -
  from assms have x: "unat (m_nb_segs m) = Suc (length ys)" "unat (m_pkt_len m) = length (pkt_data w (a # ys))" "seg_ok w a"
    by (simp_all add: pkt_ok_def)
  then have "unat (m_pkt_len m - ucast (m_data_len m)) = length (pkt_data w ys)"
    using seg_ok_len [OF x(3) assms(2)] by (subst unat_sub_nowrap) simp_all
  moreover have "m_nb_segs m \<noteq> 1" using x(1) assms(3) by (auto simp: word_unat_eq_iff)
  ultimately show ?thesis using assms(2,4)
    by (simp add: rte_pktmbuf_linearize_def rte_pktmbuf_is_contiguous_def pktmbuf_linearize_slow_def word_less_nat_alt)
qed

end

section \<open>Release in bulk\<close>

definition home :: "'p mbuf_world \<Rightarrow> addr \<Rightarrow> addr" where
  "home w x = (case mbuf_at w x of None \<Rightarrow> NULL | Some m \<Rightarrow> m_pool m)"

text \<open>
  Where the release is, having started in \<open>w0\<close>: the segments \<open>dn\<close> are back in their pools,
  but for the \<open>pending\<close> ones, which have one pool in common. \<open>todo\<close> are the others.
\<close>

definition bulk_state :: "'p rte_mempool_ops \<Rightarrow> ('p \<Rightarrow> bool) \<Rightarrow> ('p \<Rightarrow> addr multiset) \<Rightarrow> ('p \<Rightarrow> nat) \<Rightarrow>
    'p mbuf_world \<Rightarrow> 'p mbuf_world \<Rightarrow> addr list \<Rightarrow> addr list \<Rightarrow> addr list \<Rightarrow> bool" where
  "bulk_state drv pinv bag room w0 w pending dn todo \<longleftrightarrow>
     mw_ops w = mw_ops w0 \<and> distinct (dn @ todo) \<and> set pending \<subseteq> set dn \<and> length pending \<le> RTE_PKTMBUF_FREE_PENDING_SZ \<and>
     (\<forall>x. x \<notin> set dn \<longrightarrow> mbuf_at w x = mbuf_at w0 x) \<and>
     (\<forall>x \<in> set dn. mbuf_at w x \<noteq> None \<and> home w x = home w0 x) \<and>
     (\<forall>x \<in> set pending. home w0 x = home w0 (hd pending)) \<and>
     (\<forall>P. P \<notin> home w0 ` set dn \<longrightarrow> mw_pools w P = mw_pools w0 P) \<and>
     (\<forall>P \<in> home w0 ` set (dn @ todo). \<exists>mp0 mp. mw_pools w0 P = Some mp0 \<and> mw_pools w P = Some mp \<and>
        pool_ok drv pinv (mw_ops w0) mp \<and> pool_cap bag room mp = pool_cap bag room mp0 \<and>
        pool_bag bag mp + mset (filter (\<lambda>x. home w0 x = P) pending)
          = pool_bag bag mp0 + mset (filter (\<lambda>x. home w0 x = P) dn) \<and>
        size (pool_bag bag mp0) + length (filter (\<lambda>x. home w0 x = P) (dn @ todo)) \<le> pool_cap bag room mp)"

lemma bulk_stateD:
  assumes "bulk_state drv pinv bag room w0 w pending dn todo"
  shows "mw_ops w = mw_ops w0" "distinct (dn @ todo)" "set pending \<subseteq> set dn" "length pending \<le> RTE_PKTMBUF_FREE_PENDING_SZ"
    "x \<notin> set dn \<Longrightarrow> mbuf_at w x = mbuf_at w0 x"
    "x \<in> set dn \<Longrightarrow> \<exists>m. mbuf_at w x = Some m \<and> m_pool m = home w0 x"
    "x \<in> set pending \<Longrightarrow> home w0 x = home w0 (hd pending)"
    "P \<notin> home w0 ` set dn \<Longrightarrow> mw_pools w P = mw_pools w0 P"
    "P \<in> home w0 ` set (dn @ todo) \<Longrightarrow> \<exists>mp0 mp. mw_pools w0 P = Some mp0 \<and> mw_pools w P = Some mp \<and>
        pool_ok drv pinv (mw_ops w0) mp \<and> pool_cap bag room mp = pool_cap bag room mp0 \<and>
        pool_bag bag mp + mset (filter (\<lambda>x. home w0 x = P) pending)
          = pool_bag bag mp0 + mset (filter (\<lambda>x. home w0 x = P) dn) \<and>
        size (pool_bag bag mp0) + length (filter (\<lambda>x. home w0 x = P) (dn @ todo)) \<le> pool_cap bag room mp"
proof -
  note B = assms [unfolded bulk_state_def]
  show "mw_ops w = mw_ops w0" using B by blast
  show "distinct (dn @ todo)" using B by blast
  show "set pending \<subseteq> set dn" using B by blast
  show "length pending \<le> RTE_PKTMBUF_FREE_PENDING_SZ" using B by blast
  show "x \<notin> set dn \<Longrightarrow> mbuf_at w x = mbuf_at w0 x" using B by blast
  show "\<exists>m. mbuf_at w x = Some m \<and> m_pool m = home w0 x" if "x \<in> set dn"
  proof -
    from B that have "mbuf_at w x \<noteq> None" "home w x = home w0 x" by blast+
    then show ?thesis by (auto simp: home_def)
  qed
  show "x \<in> set pending \<Longrightarrow> home w0 x = home w0 (hd pending)" using B by blast
  show "P \<notin> home w0 ` set dn \<Longrightarrow> mw_pools w P = mw_pools w0 P" using B by blast
  show "P \<in> home w0 ` set (dn @ todo) \<Longrightarrow> \<exists>mp0 mp. mw_pools w0 P = Some mp0 \<and> mw_pools w P = Some mp \<and>
        pool_ok drv pinv (mw_ops w0) mp \<and> pool_cap bag room mp = pool_cap bag room mp0 \<and>
        pool_bag bag mp + mset (filter (\<lambda>x. home w0 x = P) pending)
          = pool_bag bag mp0 + mset (filter (\<lambda>x. home w0 x = P) dn) \<and>
        size (pool_bag bag mp0) + length (filter (\<lambda>x. home w0 x = P) (dn @ todo)) \<le> pool_cap bag room mp" using B by blast
qed

lemma free_pending_set:
  assumes "hd pending \<noteq> x"
  shows "free_pending (set_mbuf w x m) pending = map_option (\<lambda>w. set_mbuf w x m) (free_pending w pending)"
proof -
  have sw: "set_pool (set_mbuf w x m) P mp = set_mbuf (set_pool w P mp) x m" for P mp by (simp add: set_mbuf_def set_pool_def)
  show ?thesis using assms by (simp add: free_pending_def sw split: bind_splits)
qed

lemma home_Some: "mbuf_at w x = Some m \<Longrightarrow> home w x = m_pool m"
  by (simp add: home_def)

context mempool_driver
begin

lemma free_pending_ok:
  assumes st: "bulk_state drv inv bag room w0 w pending dn todo" and ne: "pending \<noteq> []"
  shows "\<exists>w'. free_pending w pending = Some w' \<and> mw_mbufs w' = mw_mbufs w \<and>
    bulk_state drv inv bag room w0 w' [] dn todo"
proof -
  let ?P = "home w0 (hd pending)"
  note B = bulk_stateD [OF st]
  have hd: "hd pending \<in> set dn" using B(3) hd_in_set [OF ne] by auto
  from B(6) [OF hd] obtain m where m: "mbuf_at w (hd pending) = Some m" "m_pool m = ?P" by blast
  have all: "filter (\<lambda>x. home w0 x = ?P) pending = pending" using B(7) by (simp add: filter_id_conv)
  have none: "filter (\<lambda>x. home w0 x = P) pending = []" if "P \<noteq> ?P" for P using B(7) that by (auto simp: filter_empty_conv)
  have "?P \<in> home w0 ` set (dn @ todo)" using hd by simp
  from B(9) [OF this] all obtain mp0 mp where mp: "mw_pools w0 ?P = Some mp0" "mw_pools w ?P = Some mp"
    "pool_ok drv inv (mw_ops w0) mp" "pool_cap bag room mp = pool_cap bag room mp0"
    "pool_bag bag mp + mset pending = pool_bag bag mp0 + mset (filter (\<lambda>x. home w0 x = ?P) dn)"
    "size (pool_bag bag mp0) + length (filter (\<lambda>x. home w0 x = ?P) (dn @ todo)) \<le> pool_cap bag room mp" by auto
  have len: "unat (of_nat (length pending) :: u32) = length pending"
    using B(4) by (simp add: RTE_PKTMBUF_FREE_PENDING_SZ_def unat_of_nat)
  have "size (pool_bag bag mp) + length pending = size (pool_bag bag mp0) + length (filter (\<lambda>x. home w0 x = ?P) dn)"
    using arg_cong [OF mp(5), of size] by (simp only: size_union size_mset)
  with mp(6) have room: "size (pool_bag bag mp) + length pending \<le> pool_cap bag room mp" by simp
  from put_bulk_ok [OF mp(3), of "of_nat (length pending)" pending "mw_lcore w"] room obtain mp' where
    mp': "rte_mempool_put_bulk (mw_ops w0) (mw_lcore w) mp pending (of_nat (length pending)) = Some mp'"
      "pool_ok drv inv (mw_ops w0) mp'" "pool_bag bag mp' = pool_bag bag mp + mset pending"
      "pool_cap bag room mp' = pool_cap bag room mp" by (auto simp: len)
  let ?w = "set_pool w ?P mp'"
  have "free_pending w pending = Some ?w"
    using m mp(2) mp'(1) B(1) by (simp add: free_pending_def)
  moreover have "bulk_state drv inv bag room w0 ?w [] dn todo"
    unfolding bulk_state_def
  proof (intro conjI ballI)
    show "\<forall>P. P \<notin> home w0 ` set dn \<longrightarrow> mw_pools ?w P = mw_pools w0 P" using B(8) hd by (auto simp: set_pool_def)
    fix P assume P: "P \<in> home w0 ` set (dn @ todo)"
    show "\<exists>mp0 mp. mw_pools w0 P = Some mp0 \<and> mw_pools ?w P = Some mp \<and>
        pool_ok drv inv (mw_ops w0) mp \<and> pool_cap bag room mp = pool_cap bag room mp0 \<and>
        pool_bag bag mp + mset (filter (\<lambda>x. home w0 x = P) []) = pool_bag bag mp0 + mset (filter (\<lambda>x. home w0 x = P) dn) \<and>
        size (pool_bag bag mp0) + length (filter (\<lambda>x. home w0 x = P) (dn @ todo)) \<le> pool_cap bag room mp"
    proof (cases "P = ?P")
      case True
      with mp mp' show ?thesis by (intro exI [of _ mp0] exI [of _ mp']) (simp add: set_pool_def)
    next
      case False
      from B(9) [OF P] none [OF False] obtain a b where "mw_pools w0 P = Some a" "mw_pools w P = Some b"
        "pool_ok drv inv (mw_ops w0) b" "pool_cap bag room b = pool_cap bag room a"
        "pool_bag bag b = pool_bag bag a + mset (filter (\<lambda>x. home w0 x = P) dn)"
        "size (pool_bag bag a) + length (filter (\<lambda>x. home w0 x = P) (dn @ todo)) \<le> pool_cap bag room b"
        by auto
      with False show ?thesis by (intro exI [of _ a] exI [of _ b]) (simp add: set_pool_def)
    qed
  next
    show "\<forall>x. x \<notin> set dn \<longrightarrow> mbuf_at ?w x = mbuf_at w0 x" using B(5) by simp
    show "mbuf_at ?w x \<noteq> None" "home ?w x = home w0 x" if "x \<in> set dn" for x using B(6) [OF that] by (auto simp: home_def)
  qed (use B(1,2) in simp_all)
  ultimately show ?thesis by (intro exI [of _ ?w]) (simp add: set_pool_def)
qed

text \<open>A segment joins the pending ones.\<close>

lemma bulk_state_push:
  assumes st: "bulk_state drv inv bag room w0 w pending dn (x # todo)" and m: "mbuf_at w x = Some m"
    and room: "length pending < RTE_PKTMBUF_FREE_PENDING_SZ" and same: "pending \<noteq> [] \<Longrightarrow> home w0 (hd pending) = home w0 x"
  shows "bulk_state drv inv bag room w0 (set_mbuf w x (m\<lparr>m_next := n, m_nb_segs := k\<rparr>)) (pending @ [x]) (dn @ [x]) todo"
proof -
  note B = bulk_stateD [OF st]
  let ?w = "set_mbuf w x (m\<lparr>m_next := n, m_nb_segs := k\<rparr>)"
  have x: "x \<noteq> NULL" "x \<notin> set dn" using m B(2) by (auto dest: mbuf_at_not_NULL)
  have hx: "home w0 x = m_pool m" using trans [OF B(5) [OF x(2), symmetric] m] by (rule home_Some)
  have h: "mbuf_at ?w y \<noteq> None" "home ?w y = home w0 y" if "y \<in> set (dn @ [x])" for y
    using that B(6) [of y] x hx by (cases "y = x"; auto simp: home_def)+
  have eq: "home w0 y = home w0 (hd (pending @ [x]))" if "y \<in> set (pending @ [x])" for y
    using that same B(7) [of y] by (cases pending) auto
  show ?thesis
    unfolding bulk_state_def
  proof (intro conjI ballI)
    fix P assume "P \<in> home w0 ` set ((dn @ [x]) @ todo)"
    then have "P \<in> home w0 ` set (dn @ x # todo)" by simp
    from B(9) [OF this] obtain a b where "mw_pools w0 P = Some a" "mw_pools w P = Some b"
        "pool_ok drv inv (mw_ops w0) b" "pool_cap bag room b = pool_cap bag room a"
        "pool_bag bag b + mset (filter (\<lambda>x. home w0 x = P) pending) = pool_bag bag a + mset (filter (\<lambda>x. home w0 x = P) dn)"
        "size (pool_bag bag a) + length (filter (\<lambda>x. home w0 x = P) (dn @ x # todo)) \<le> pool_cap bag room b"
      by blast
    then show "\<exists>mp0 mp. mw_pools w0 P = Some mp0 \<and> mw_pools ?w P = Some mp \<and>
        pool_ok drv inv (mw_ops w0) mp \<and> pool_cap bag room mp = pool_cap bag room mp0 \<and>
        pool_bag bag mp + mset (filter (\<lambda>x. home w0 x = P) (pending @ [x]))
          = pool_bag bag mp0 + mset (filter (\<lambda>x. home w0 x = P) (dn @ [x])) \<and>
        size (pool_bag bag mp0) + length (filter (\<lambda>x. home w0 x = P) ((dn @ [x]) @ todo)) \<le> pool_cap bag room mp"
      by (intro exI [of _ a] exI [of _ b]) simp
  next
    show "\<forall>y. y \<notin> set (dn @ [x]) \<longrightarrow> mbuf_at ?w y = mbuf_at w0 y" using B(5) x(1) by simp
    show "\<forall>P. P \<notin> home w0 ` set (dn @ [x]) \<longrightarrow> mw_pools ?w P = mw_pools w0 P" using B(8) by simp
    show "mbuf_at ?w y \<noteq> None" "home ?w y = home w0 y" if "y \<in> set (dn @ [x])" for y using h [OF that] by simp_all
    show "home w0 y = home w0 (hd (pending @ [x]))" if "y \<in> set (pending @ [x])" for y by (rule eq [OF that])
    show "set (pending @ [x]) \<subseteq> set (dn @ [x])" using B(3) by auto
  qed (use B(1,2) room in simp_all)
qed

lemma free_seg_via_array_ok:
  assumes st: "bulk_state drv inv bag room w0 w pending dn (x # todo)" and x: "sole_direct w0 P x"
  shows "\<exists>w' pending'. free_seg_via_array w x pending RTE_PKTMBUF_FREE_PENDING_SZ = Some (w', pending') \<and>
    bulk_state drv inv bag room w0 w' pending' (dn @ [x]) todo"
proof -
  note B = bulk_stateD [OF st]
  have nd: "x \<notin> set dn" and at: "mbuf_at w x = mbuf_at w0 x" using B(2,5) by auto
  obtain m where m0: "mbuf_at w0 x = Some m" using x by (auto simp: sole_direct_def split: option.splits)
  have mx: "mbuf_at w x = Some m" using at m0 by (rule trans)
  have "sole_direct w P x" using x by (simp only: sole_direct_def at)
  note m = mx this home_Some [OF m0, symmetric] mbuf_at_not_NULL [OF m0]
  let ?upd = "\<lambda>v. set_mbuf v x (m\<lparr>m_next := NULL, m_nb_segs := 1\<rparr>)"
  note pf = prefree_sole [OF m(2,1)]
  have hdp: "\<exists>p. mbuf_at (?upd w) (hd pending) = Some p \<and> m_pool p = home w0 (hd pending)" if "pending \<noteq> []"
  proof -
    have "hd pending \<in> set dn" "hd pending \<noteq> x" using B(3) hd_in_set [OF that] nd by auto
    with B(6) [of "hd pending"] m(4) show ?thesis by auto
  qed
  show ?thesis
  proof (cases "length pending = RTE_PKTMBUF_FREE_PENDING_SZ \<or> pending \<noteq> [] \<and> home w0 (hd pending) \<noteq> home w0 x")
    case True
    then have ne: "pending \<noteq> []" by (auto simp: RTE_PKTMBUF_FREE_PENDING_SZ_def)
    from free_pending_ok [OF st ne] obtain v where v: "free_pending w pending = Some v" "mw_mbufs v = mw_mbufs w"
      "bulk_state drv inv bag room w0 v [] dn (x # todo)" by blast
    have vx: "mbuf_at v x = Some m" using m(1,4) v(2) by (simp add: mbuf_at_def)
    have "hd pending \<noteq> x" using B(3) hd_in_set [OF ne] nd by auto
    then have "free_pending (?upd w) pending = Some (?upd v)" using v(1) by (simp add: free_pending_set)
    then have "free_seg_via_array w x pending RTE_PKTMBUF_FREE_PENDING_SZ = Some (?upd v, [x])"
      using True ne hdp [OF ne] m(3,4) by (auto simp: free_seg_via_array_def pf RTE_PKTMBUF_FREE_PENDING_SZ_def)
    with bulk_state_push [OF v(3) vx, where n = NULL and k = 1] show ?thesis by (simp add: RTE_PKTMBUF_FREE_PENDING_SZ_def)
  next
    case False
    then have lt: "length pending < RTE_PKTMBUF_FREE_PENDING_SZ" using B(4) by auto
    have "free_seg_via_array w x pending RTE_PKTMBUF_FREE_PENDING_SZ = Some (?upd w, pending @ [x])"
      using False lt hdp m(3,4) by (cases "pending = []") (auto simp: free_seg_via_array_def pf)
    with bulk_state_push [OF st m(1) lt, where n = NULL and k = 1] False show ?thesis by auto
  qed
qed

lemma free_bulk_segs_ok:
  assumes "bulk_state drv inv bag room w0 w pending dn (xs @ todo)" "seg_chain (mbuf_at w0) a xs" "xs \<noteq> []"
    and "\<And>x. x \<in> set xs \<Longrightarrow> \<exists>P. sole_direct w0 P x"
  shows "\<exists>w' pending'. free_bulk_segs w a pending = Some (w', pending') \<and>
    bulk_state drv inv bag room w0 w' pending' (dn @ xs) todo"
  using assms
proof (induction xs arbitrary: a w pending dn)
  case (Cons x xs)
  from Cons.prems(2) obtain m where a: "a = x" "mbuf_at w0 a = Some m" "seg_chain (mbuf_at w0) (m_next m) xs"
    by (auto split: option.splits)
  from Cons.prems(4) obtain P where P: "sole_direct w0 P x" by auto
  have st: "bulk_state drv inv bag room w0 w pending dn (x # xs @ todo)" using Cons.prems(1) by simp
  have "x \<notin> set dn" using bulk_stateD(2) [OF st] by auto
  from bulk_stateD(5) [OF st this] have at: "mbuf_at w a = Some m" using a(1,2) by simp
  from free_seg_via_array_ok [OF st P] obtain w1 p1 where
    s: "free_seg_via_array w x pending RTE_PKTMBUF_FREE_PENDING_SZ = Some (w1, p1)"
      "bulk_state drv inv bag room w0 w1 p1 (dn @ [x]) (xs @ todo)" by blast
  have step: "free_bulk_segs w a pending = (if m_next m \<noteq> NULL then free_bulk_segs w1 (m_next m) p1 else Some (w1, p1))"
    using at s(1) a(1) by (subst free_bulk_segs.simps) simp
  show ?case
  proof (cases "xs = []")
    case True
    with a(3) step s(2) show ?thesis by simp
  next
    case False
    with a(3) have "m_next m \<noteq> NULL" by (cases xs) auto
    moreover from Cons.IH [OF s(2) a(3) False] Cons.prems(4) obtain w' p' where
      "free_bulk_segs w1 (m_next m) p1 = Some (w', p')" "bulk_state drv inv bag room w0 w' p' ((dn @ [x]) @ xs) todo" by auto
    ultimately show ?thesis using step by simp
  qed
qed simp

lemma free_bulk_run_ok:
  assumes "bulk_state drv inv bag room w0 w pending dn (concat xss)" "list_all2 (seg_chain (mbuf_at w0)) ms xss"
    and "\<And>x. x \<in> set (concat xss) \<Longrightarrow> \<exists>P. sole_direct w0 P x"
  shows "\<exists>w' pending'. free_bulk_run w ms pending = Some (w', pending') \<and>
    bulk_state drv inv bag room w0 w' pending' (dn @ concat xss) []"
  using assms(2,1,3)
proof (induction arbitrary: w pending dn rule: list_all2_induct)
  case (Cons m ms xs xss)
  show ?case
  proof (cases "m = NULL")
    case True
    with Cons.hyps have "xs = []" by (cases xs) auto
    with True Cons.IH [of w pending dn] Cons.prems show ?thesis by simp
  next
    case False
    with Cons.hyps have "xs \<noteq> []" by auto
    with free_bulk_segs_ok [of w0 w pending dn xs "concat xss" m] Cons.hyps Cons.prems obtain w1 p1 where
      "free_bulk_segs w m pending = Some (w1, p1)" "bulk_state drv inv bag room w0 w1 p1 (dn @ xs) (concat xss)" by auto
    with Cons.IH [of w1 p1 "dn @ xs"] Cons.prems False show ?thesis by auto
  qed
qed simp

lemma free_bulk_ok:
  assumes c: "list_all2 (seg_chain (mbuf_at w)) (take (unat cnt) ms) xss" "distinct (concat xss)" "unat cnt \<le> length ms"
    and s: "\<And>x. x \<in> set (concat xss) \<Longrightarrow> sole_direct w (home w x) x"
    and p: "\<And>P. P \<in> home w ` set (concat xss) \<Longrightarrow> \<exists>mp. mw_pools w P = Some mp \<and> pool_ok drv inv (mw_ops w) mp \<and>
      size (pool_bag bag mp) + length (filter (\<lambda>x. home w x = P) (concat xss)) \<le> pool_cap bag room mp"
  shows "\<exists>w'. rte_pktmbuf_free_bulk w ms cnt = Some w' \<and>
    (\<forall>x. x \<notin> set (concat xss) \<longrightarrow> mbuf_at w' x = mbuf_at w x) \<and>
    (\<forall>P. P \<notin> home w ` set (concat xss) \<longrightarrow> mw_pools w' P = mw_pools w P) \<and>
    (\<forall>P \<in> home w ` set (concat xss). \<exists>mp mp'. mw_pools w P = Some mp \<and> mw_pools w' P = Some mp' \<and>
       pool_ok drv inv (mw_ops w) mp' \<and> pool_bag bag mp' = pool_bag bag mp + mset (filter (\<lambda>x. home w x = P) (concat xss)))"
proof -
  have "bulk_state drv inv bag room w w [] [] (concat xss)"
    unfolding bulk_state_def
  proof (intro conjI ballI)
    fix P assume "P \<in> home w ` set ([] @ concat xss)"
    with p [of P] show "\<exists>mp0 mp. mw_pools w P = Some mp0 \<and> mw_pools w P = Some mp \<and> pool_ok drv inv (mw_ops w) mp \<and>
      pool_cap bag room mp = pool_cap bag room mp0 \<and>
      pool_bag bag mp + mset (filter (\<lambda>x. home w x = P) []) = pool_bag bag mp0 + mset (filter (\<lambda>x. home w x = P) []) \<and>
      size (pool_bag bag mp0) + length (filter (\<lambda>x. home w x = P) ([] @ concat xss)) \<le> pool_cap bag room mp" by auto
  qed (use c(2) in auto)
  from free_bulk_run_ok [OF this c(1) exI, OF s] obtain w1 p1 where
    r: "free_bulk_run w (take (unat cnt) ms) [] = Some (w1, p1)" "bulk_state drv inv bag room w w1 p1 (concat xss) []" by auto
  obtain w' where w': "rte_pktmbuf_free_bulk w ms cnt = Some w'" "bulk_state drv inv bag room w w' [] (concat xss) []"
  proof (cases "p1 = []")
    case True
    with r c(3) that show ?thesis by (simp add: rte_pktmbuf_free_bulk_def)
  next
    case False
    with free_pending_ok [OF r(2)] r(1) c(3) that show ?thesis by (auto simp: rte_pktmbuf_free_bulk_def)
  qed
  note B = bulk_stateD [OF w'(2)]
  have "\<exists>mp mp'. mw_pools w P = Some mp \<and> mw_pools w' P = Some mp' \<and> pool_ok drv inv (mw_ops w) mp' \<and>
    pool_bag bag mp' = pool_bag bag mp + mset (filter (\<lambda>x. home w x = P) (concat xss))" if "P \<in> home w ` set (concat xss)" for P
  proof -
    from that have "P \<in> home w ` set (concat xss @ [])" by simp
    from B(9) [OF this] obtain a b where "mw_pools w P = Some a" "mw_pools w' P = Some b" "pool_ok drv inv (mw_ops w) b"
      "pool_bag bag b + mset (filter (\<lambda>x. home w x = P) []) = pool_bag bag a + mset (filter (\<lambda>x. home w x = P) (concat xss))"
      by blast
    then show ?thesis by (intro exI [of _ a] exI [of _ b]) simp
  qed
  with w'(1) B(5,8) show ?thesis by (intro exI [of _ w']) simp
qed

end

end
