(* ===== verification/Mempool_Near.thy ===== *)
theory Mempool_Near
  imports Mbuf_Bulk
begin

text \<open>
  How often a lcore can take a single object from a pool, and the allocation of packet buffers
  in these terms.
\<close>

section \<open>Objects an lcore can get one by one\<close>

text \<open>
  The number of objects that single gets of an lcore can still reach: those of the driver and,
  unless its cache is too small for a single get to use it, those of its own cache. A get
  takes one of them or fails because there are none.
\<close>

definition near :: "('p \<Rightarrow> addr multiset) \<Rightarrow> u32 \<Rightarrow> 'p rte_mempool \<Rightarrow> nat" where
  "near bag lcore mp = size (bag (the (mp_pool_data mp))) +
     (case rte_mempool_default_cache mp lcore of
        None \<Rightarrow> 0
      | Some i \<Rightarrow> if mc_size (mp_local_cache mp ! i) \<le> 1 then 0 else unat (mc_len (mp_local_cache mp ! i)))"

lemma dequeue_bulk_frame:
  "rte_mempool_ops_dequeue_bulk ot mp t n = Some (r, t', mp') \<Longrightarrow>
   mp_local_cache mp' = mp_local_cache mp \<and> mp_cache_size mp' = mp_cache_size mp"
  by (auto simp: rte_mempool_ops_dequeue_bulk_def bind_eq_Some_conv split: option.splits)

lemma generic_get_frame:
  assumes "rte_mempool_generic_get ot mp t n cache = Some (r, t', mp', cache')"
  shows "mp_local_cache mp' = mp_local_cache mp" "mp_cache_size mp' = mp_cache_size mp"
    "cache = Some c \<Longrightarrow> \<exists>c'. cache' = Some c' \<and> mc_size c' = mc_size c \<and> (mc_size c \<le> n \<longrightarrow> c' = c)"
    "cache = Some c \<Longrightarrow> n < mc_size c \<Longrightarrow> n \<le> mc_len c \<Longrightarrow> r = 0"
  using assms
  by (auto simp: rte_mempool_generic_get_def rte_mempool_do_generic_get_def ring_dequeue_def bind_eq_Some_conv Let_def
      split: option.splits if_splits dest!: dequeue_bulk_frame)

lemma get_bulk_frame:
  assumes "rte_mempool_get_bulk ot lcore mp t n = Some (r, t', mp')" "length (mp_local_cache mp) = RTE_MAX_LCORE"
  shows "mp_cache_size mp' = mp_cache_size mp"
    "rte_mempool_default_cache mp lcore = None \<Longrightarrow> mp_local_cache mp' = mp_local_cache mp"
    "rte_mempool_default_cache mp lcore = Some i \<Longrightarrow>
       \<exists>c'. mp_local_cache mp' = (mp_local_cache mp)[i := c'] \<and> mc_size c' = mc_size (mp_local_cache mp ! i) \<and>
         (mc_size (mp_local_cache mp ! i) \<le> n \<longrightarrow> c' = mp_local_cache mp ! i)"
    "rte_mempool_default_cache mp lcore = Some i \<Longrightarrow> n < mc_size (mp_local_cache mp ! i) \<Longrightarrow>
       n \<le> mc_len (mp_local_cache mp ! i) \<Longrightarrow> r = 0"
proof -
  show "mp_cache_size mp' = mp_cache_size mp"
    using assms by (auto simp: rte_mempool_get_bulk_def bind_eq_Some_conv local_cache_upd_def split: option.splits
      dest: generic_get_frame(2))
  show "mp_local_cache mp' = mp_local_cache mp" if "rte_mempool_default_cache mp lcore = None"
    using assms that by (auto simp: rte_mempool_get_bulk_def bind_eq_Some_conv dest: generic_get_frame(1))
  assume i: "rte_mempool_default_cache mp lcore = Some i"
  with assms obtain c t1 mp1 c' where g: "local_cache_at mp i = Some c" "rte_mempool_generic_get ot mp t n (Some c) = Some (r, t1, mp1, Some c')"
    "mp' = local_cache_upd mp1 i c'"
    by (auto simp: rte_mempool_get_bulk_def bind_eq_Some_conv)
  then have c: "c = mp_local_cache mp ! i" by (auto simp: local_cache_at_def split: if_splits)
  show "\<exists>c'. mp_local_cache mp' = (mp_local_cache mp)[i := c'] \<and> mc_size c' = mc_size (mp_local_cache mp ! i) \<and>
         (mc_size (mp_local_cache mp ! i) \<le> n \<longrightarrow> c' = mp_local_cache mp ! i)"
    using generic_get_frame(1,3) [OF g(2)] g(3) c by (auto simp: local_cache_upd_def)
  show "n < mc_size (mp_local_cache mp ! i) \<Longrightarrow> n \<le> mc_len (mp_local_cache mp ! i) \<Longrightarrow> r = 0"
    using generic_get_frame(4) [OF g(2)] c by auto
qed

context mempool_driver
begin

lemma get_one_near:
  assumes ok: "pool_ok drv inv ot mp" and t: "length t = 1"
  shows "(\<exists>x mp'. rte_mempool_get_bulk ot lcore mp t 1 = Some (0, [x], mp') \<and> pool_ok drv inv ot mp' \<and>
      pool_bag bag mp = pool_bag bag mp' + {#x#} \<and> pool_cap bag room mp' = pool_cap bag room mp \<and>
      near bag lcore mp = Suc (near bag lcore mp')) \<or>
    (\<exists>e<0. rte_mempool_get_bulk ot lcore mp t 1 = Some (e, t, mp) \<and> near bag lcore mp = 0)"
proof -
  have len: "length (mp_local_cache mp) = RTE_MAX_LCORE" "list_all cache_ok (mp_local_cache mp)"
    using ok by (simp_all add: pool_ok_def)
  let ?B = "\<lambda>mp. size (bag (the (mp_pool_data mp)))" and ?C = "\<lambda>mp. size (caches_bag (mp_local_cache mp))"
  from get_bulk_ok [OF ok, of 1 t lcore] t consider
    x mp' where "rte_mempool_get_bulk ot lcore mp t 1 = Some (0, [x], mp')" "pool_ok drv inv ot mp'"
      "pool_bag bag mp = mset [x] + pool_bag bag mp'" "pool_cap bag room mp' = pool_cap bag room mp"
    | e where "e < 0" "rte_mempool_get_bulk ot lcore mp t 1 = Some (e, t, mp)" "?B mp = 0"
    by (auto simp: unat_1 length_Suc_conv)
  then show ?thesis
  proof cases
    case 1
    note fr = get_bulk_frame [OF 1(1) len(1)]
    have dc: "rte_mempool_default_cache mp' lcore = rte_mempool_default_cache mp lcore"
      by (simp add: rte_mempool_default_cache_def fr(1))
    have tot: "?B mp + ?C mp = Suc (?B mp' + ?C mp')"
      using arg_cong [OF 1(3), of size] by (simp add: pool_bag_def)
    have "near bag lcore mp = Suc (near bag lcore mp')"
    proof (cases "rte_mempool_default_cache mp lcore")
      case None
      with tot fr(2) show ?thesis by (simp add: near_def dc)
    next
      case (Some i)
      note i = default_cache_at [OF Some len(1)]
      let ?c = "mp_local_cache mp ! i"
      from fr(3) [OF Some] obtain c' where c': "mp_local_cache mp' = (mp_local_cache mp)[i := c']" "mc_size c' = mc_size ?c"
        "mc_size ?c \<le> 1 \<longrightarrow> c' = ?c" by blast
      have ok1: "cache_ok ?c" using len(2) i(1) by (simp add: list_all_length)
      have "list_all cache_ok (mp_local_cache mp')" using 1(2) by (simp add: pool_ok_def)
      then have ok2: "cache_ok c'" using i(1) c'(1) by (auto simp: list_all_length dest: spec [of _ i])
      have "?C mp' + unat (mc_len ?c) = ?C mp + unat (mc_len c')"
        using arg_cong [OF caches_bag_update [OF i(1), of c'], of size] c'(1) length_cached [OF ok1] length_cached [OF ok2] by simp
      with tot have "?B mp + unat (mc_len ?c) = Suc (?B mp' + unat (mc_len c'))" by linarith
      then show ?thesis using Some c' i(1) by (auto simp: near_def dc)
    qed
    with 1 show ?thesis by auto
  next
    case 2
    have "near bag lcore mp = 0"
    proof (cases "rte_mempool_default_cache mp lcore")
      case (Some i)
      with get_bulk_frame(4) [OF 2(2) len(1) Some] 2(1) have "mc_size (mp_local_cache mp ! i) \<le> 1 \<or> mc_len (mp_local_cache mp ! i) < 1"
        by (metis less_irrefl not_le)
      with 2(3) Some show ?thesis by (auto simp: near_def unat_eq_zero word_less_1)
    qed (use 2(3) in \<open>simp add: near_def\<close>)
    with 2 show ?thesis by blast
  qed
qed

end

section \<open>Allocation of a packet buffer\<close>

definition sole :: "addr \<Rightarrow> rte_mbuf \<Rightarrow> bool" where
  "sole P m \<longleftrightarrow> m_refcnt m = 1 \<and> RTE_MBUF_DIRECT m \<and> m_pool m = P"

lemma sole_direct_at: "sole_direct w P a \<longleftrightarrow> (\<exists>m. mbuf_at w a = Some m \<and> sole P m)"
  by (auto simp: sole_direct_def sole_def split: option.splits)

lemma sole_reset: "sole P m \<Longrightarrow> sole P (reset_fields m)"
  by (simp add: sole_def reset_fields_def reset_headroom_def Let_def RTE_MBUF_DIRECT_def and_or_zero and.assoc)

context mempool_driver
begin

text \<open>The pool of packet buffers: what can be taken from it are buffers nobody refers to.\<close>

lemma pktmbuf_alloc_near:
  assumes "mw_pools w P = Some mp" "pool_ok drv inv (mw_ops w) mp" "\<And>a. a \<in># pool_bag bag mp \<Longrightarrow> sole_direct w P a"
  shows "(\<exists>a mp' d d0. rte_pktmbuf_alloc w P = Some (a, set_mbuf (set_pool w P mp') a d) \<and> mbuf_at w a = Some d0 \<and> sole P d \<and>
      pool_ok drv inv (mw_ops w) mp' \<and> pool_bag bag mp = pool_bag bag mp' + {#a#} \<and>
      pool_cap bag room mp' = pool_cap bag room mp \<and> near bag (mw_lcore w) mp = Suc (near bag (mw_lcore w) mp')) \<or>
    (rte_pktmbuf_alloc w P = Some (NULL, w) \<and> near bag (mw_lcore w) mp = 0)"
proof -
  have same: "set_pool w P mp = w" using assms(1) by (simp add: set_pool_def fun_upd_idem)
  from get_one_near [OF assms(2), of "[NULL]" "mw_lcore w"] consider
    x mp' where "rte_mempool_get_bulk (mw_ops w) (mw_lcore w) mp [NULL] 1 = Some (0, [x], mp')" "pool_ok drv inv (mw_ops w) mp'"
      "pool_bag bag mp = pool_bag bag mp' + {#x#}" "pool_cap bag room mp' = pool_cap bag room mp"
      "near bag (mw_lcore w) mp = Suc (near bag (mw_lcore w) mp')"
    | e where "e < 0" "rte_mempool_get_bulk (mw_ops w) (mw_lcore w) mp [NULL] 1 = Some (e, [NULL], mp)" "near bag (mw_lcore w) mp = 0"
    by auto
  then show ?thesis
  proof cases
    case 1
    from assms(3) [of x] 1(3) obtain m where m: "mbuf_at w x = Some m" "sole P m" by (auto simp: sole_direct_at)
    have "rte_pktmbuf_alloc w P = Some (x, set_mbuf (set_pool w P mp') x (reset_fields m))"
      using assms(1) 1(1) m(1) mbuf_at_not_NULL [OF m(1)]
      by (simp add: rte_pktmbuf_alloc_def rte_mbuf_raw_alloc_def rte_mempool_get_def rte_pktmbuf_reset_def upd_mbuf_def)
    with 1 m sole_reset [OF m(2)] show ?thesis by blast
  next
    case 2
    with assms(1) same show ?thesis by (simp add: rte_pktmbuf_alloc_def rte_mbuf_raw_alloc_def rte_mempool_get_def)
  qed
qed

end

end
