(* ===== verification/Mbuf_Clone.thy ===== *)
theory Mbuf_Clone
  imports Mempool_Near
begin

text \<open>
  The shallow copy of a packet shares the buffers of all its segments; if the pool runs dry on
  the way, the segments made so far are released and every reference is given back.
\<close>

section \<open>One segment\<close>

text \<open>The segment can be shared: it holds its own buffer, and one more reference can be counted.\<close>

definition shareable :: "addr \<Rightarrow> rte_mbuf \<Rightarrow> bool" where
  "shareable x s \<longleftrightarrow> RTE_MBUF_DIRECT s \<and> rte_mbuf_from_indirect s = x \<and> m_refcnt s \<noteq> 0 \<and> m_refcnt s \<noteq> 0xffff"

text \<open>The structure \<open>i\<close>, from the pool \<open>P\<close>, is attached to the buffer of \<open>s\<close>.\<close>

definition shares :: "addr \<Rightarrow> rte_mbuf \<Rightarrow> rte_mbuf \<Rightarrow> bool" where
  "shares P s i \<longleftrightarrow> m_refcnt i = 1 \<and> m_pool i = P \<and> m_ol_flags i = m_ol_flags s OR RTE_MBUF_F_INDIRECT \<and>
     m_buf_addr i = m_buf_addr s \<and> m_priv_size i = m_priv_size s \<and> m_buf_len i = m_buf_len s \<and>
     m_data_off i = m_data_off s \<and> m_data_len i = m_data_len s"

lemma attach_shares:
  assumes "mbuf_at w x = Some s" "shareable x s" "mbuf_at w mi = Some d" "sole P d" "mi \<noteq> x"
  shows "\<exists>i. rte_pktmbuf_attach w mi x = Some (set_mbuf (set_mbuf w x (s\<lparr>m_refcnt := m_refcnt s + 1\<rparr>)) mi i) \<and>
    shares P s i \<and> m_next i = NULL"
proof -
  have n: "x \<noteq> NULL" "mi \<noteq> NULL" using assms by (auto dest: mbuf_at_not_NULL)
  have u: "rte_mbuf_refcnt_update w x 1 = Some (m_refcnt s + 1, set_mbuf w x (s\<lparr>m_refcnt := m_refcnt s + 1\<rparr>))"
    using assms(1) by (simp add: rte_mbuf_refcnt_update_def rte_mbuf_refcnt_read_def rte_mbuf_refcnt_set_def
        refcnt_add_fetch_def upd_mbuf_def Let_def)
  have s: "RTE_MBUF_DIRECT s" "rte_mbuf_from_indirect s = x" using assms(2) by (simp_all add: shareable_def)
  show ?thesis
    unfolding rte_pktmbuf_attach_def using assms(1,3,4,5) n direct_flags(1) [OF s(1)] s(2)
    by (simp add: u upd_mbuf_def Let_def pktmbuf_copy_hdr_def) (intro exI conjI, rule refl, simp_all add: shares_def sole_def)
qed

text \<open>Detaching from a buffer that keeps other references only lowers the count.\<close>

lemma detach_direct:
  assumes "mbuf_at w mi = Some i" "\<not> RTE_MBUF_HAS_EXTBUF i" "rte_mbuf_from_indirect i = m" "mi \<noteq> m"
    and "mbuf_at w m = Some s" "m_refcnt s \<noteq> 0" "m_refcnt s \<noteq> 1" "mw_priv w (m_pool i) = Some pv"
  shows "\<exists>i'. rte_pktmbuf_detach w mi = Some (set_mbuf (set_mbuf w m (s\<lparr>m_refcnt := m_refcnt s - 1\<rparr>)) mi i') \<and>
    m_buf_addr i' = mi + ucast (sizeof_rte_mbuf + ucast (pp_mbuf_priv_size pv)) \<and> m_ol_flags i' = 0 \<and>
    m_refcnt i' = m_refcnt i \<and> m_pool i' = m_pool i \<and> m_data_len i' = 0"
proof -
  have n: "m \<noteq> NULL" "mi \<noteq> NULL" using assms by (auto dest: mbuf_at_not_NULL)
  have u: "rte_mbuf_refcnt_update w m (- 1) = Some (m_refcnt s - 1, set_mbuf w m (s\<lparr>m_refcnt := m_refcnt s - 1\<rparr>))"
    using assms(5,7) by (simp add: rte_mbuf_refcnt_update_def rte_mbuf_refcnt_read_def refcnt_add_fetch_def Let_def)
  have "m_refcnt s - 1 \<noteq> 0" using assms(7) by simp
  with u assms n show ?thesis
    by (simp add: rte_pktmbuf_detach_def pktmbuf_free_direct_def Let_def rte_pktmbuf_priv_size_def
        rte_pktmbuf_data_room_size_def upd_mbuf_def reset_headroom_def)
       (intro exI conjI, rule refl, simp_all)
qed

lemma refcnt_back: "shareable x s \<Longrightarrow> m_refcnt s + 1 \<noteq> 0 \<and> m_refcnt s + 1 \<noteq> 1"
  by (auto simp: shareable_def add_eq_0_iff2)

section \<open>Release of the segments of a clone\<close>

text \<open>The heaps of \<open>w\<close> and \<open>w'\<close> agree outside \<open>A\<close>.\<close>

definition same_but :: "addr set \<Rightarrow> 'p mbuf_world \<Rightarrow> 'p mbuf_world \<Rightarrow> bool" where
  "same_but A w w' \<longleftrightarrow> (\<forall>b. b \<notin> A \<longrightarrow> mbuf_at w' b = mbuf_at w b)"

context mempool_driver
begin

lemma free_seg_shares:
  assumes "mbuf_at w c = Some i" "shares P s i" "shareable x s" "c \<noteq> x" "mbuf_at w x = Some (s\<lparr>m_refcnt := m_refcnt s + 1\<rparr>)"
    and "mw_pools w P = Some mp" "pool_ok drv inv (mw_ops w) mp" "size (pool_bag bag mp) < pool_cap bag room mp" "mw_priv w P = Some pv"
  shows "\<exists>mp' j. rte_pktmbuf_free_seg w c = Some (set_pool (set_mbuf (set_mbuf w x s) c j) P mp') \<and> sole P j \<and>
    m_buf_addr j = c + ucast (sizeof_rte_mbuf + ucast (pp_mbuf_priv_size pv)) \<and>
    pool_ok drv inv (mw_ops w) mp' \<and> pool_bag bag mp' = pool_bag bag mp + {#c#} \<and> pool_cap bag room mp' = pool_cap bag room mp"
proof -
  have n: "x \<noteq> NULL" "c \<noteq> NULL" using assms by (auto dest: mbuf_at_not_NULL)
  have d: "RTE_MBUF_DIRECT s" "rte_mbuf_from_indirect i = x" "m_refcnt i = 1" "m_pool i = P"
    using assms(2,3) by (simp_all add: shareable_def shares_def rte_mbuf_from_indirect_def)
  have fl: "\<not> RTE_MBUF_DIRECT i" "\<not> RTE_MBUF_HAS_EXTBUF i"
    using direct_flags(3) [OF d(1), of i] assms(2) by (simp_all add: shares_def)
  let ?s = "s\<lparr>m_refcnt := m_refcnt s + 1\<rparr>"
  have "?s\<lparr>m_refcnt := m_refcnt ?s - 1\<rparr> = s" by simp
  with detach_direct [OF assms(1) fl(2) d(2) assms(4,5), where pv = pv] refcnt_back [OF assms(3)] d(4) assms(9) obtain y where
    y: "rte_pktmbuf_detach w c = Some (set_mbuf (set_mbuf w x s) c y)" "m_ol_flags y = 0" "m_refcnt y = 1" "m_pool y = P"
      "m_buf_addr y = c + ucast (sizeof_rte_mbuf + ucast (pp_mbuf_priv_size pv))"
    using d(3) by auto
  let ?y = "y\<lparr>m_next := NULL, m_nb_segs := 1\<rparr>"
  let ?w = "set_mbuf (set_mbuf w x s) c ?y"
  have "rte_pktmbuf_prefree_seg w c = Some (c, ?w)"
    using assms(1) d(3) fl(1) n y
    by (simp add: rte_pktmbuf_prefree_seg_def rte_mbuf_refcnt_read_def prefree_detach_def RTE_MBUF_HAS_EXTBUF_def upd_mbuf_def)
  moreover from raw_free_ok [of ?w c ?y mp] assms(6-8) n y(4) obtain mp' where
    "rte_mbuf_raw_free ?w c = Some (set_pool ?w P mp')" "pool_ok drv inv (mw_ops w) mp'"
    "pool_bag bag mp' = pool_bag bag mp + {#c#}" "pool_cap bag room mp' = pool_cap bag room mp" by auto
  moreover have "sole P ?y" using y by (simp add: sole_def RTE_MBUF_DIRECT_def)
  ultimately show ?thesis using n y(5) by (intro exI [of _ mp'] exI [of _ ?y]) (simp add: rte_pktmbuf_free_seg_def)
qed

text \<open>\<open>w0\<close> is the state in which nobody shares the segments \<open>xs\<close> yet.\<close>

lemma free_shares:
  assumes "seg_chain (mbuf_at w) c cs" "distinct cs" "distinct xs" "length xs = length cs" "set cs \<inter> set xs = {}"
    and "list_all2 (\<lambda>c x. \<exists>i s. mbuf_at w c = Some i \<and> mbuf_at w0 x = Some s \<and> shareable x s \<and> shares P s i) cs xs"
    and "\<And>x. x \<in> set xs \<Longrightarrow> mbuf_at w x = map_option (\<lambda>s. s\<lparr>m_refcnt := m_refcnt s + 1\<rparr>) (mbuf_at w0 x)"
    and "mw_pools w P = Some mp" "pool_ok drv inv (mw_ops w) mp" "size (pool_bag bag mp) + length cs \<le> pool_cap bag room mp"
    and "mw_priv w P \<noteq> None"
  shows "\<exists>w' mp'. rte_pktmbuf_free w c = Some w' \<and> mw_pools w' = (mw_pools w)(P \<mapsto> mp') \<and> pool_ok drv inv (mw_ops w) mp' \<and>
    pool_bag bag mp' = pool_bag bag mp + mset cs \<and> pool_cap bag room mp' = pool_cap bag room mp \<and> same_store w w' \<and>
    same_but (set cs \<union> set xs) w w' \<and> (\<forall>x \<in> set xs. mbuf_at w' x = mbuf_at w0 x) \<and> (\<forall>c \<in> set cs. sole_direct w' P c)"
  using assms
proof (induction cs arbitrary: w c xs mp)
  case Nil
  then have "mw_pools w = (mw_pools w)(P \<mapsto> mp)" by auto
  with Nil show ?case by (intro exI [of _ w] exI [of _ mp]) (simp add: rte_pktmbuf_free.simps same_but_def)
next
  case (Cons c' cs)
  from Cons.prems(4) obtain x xs' where xs: "xs = x # xs'" by (cases xs) auto
  from Cons.prems(1,6) xs obtain i s where c: "c = c'" "c \<noteq> NULL" "mbuf_at w c = Some i" "seg_chain (mbuf_at w) (m_next i) cs"
    "mbuf_at w0 x = Some s" "shareable x s" "shares P s i"
    by (auto split: option.splits)
  have x: "mbuf_at w x = Some (s\<lparr>m_refcnt := m_refcnt s + 1\<rparr>)" "c \<noteq> x" "x \<noteq> NULL"
    using Cons.prems(5) Cons.prems(7) [of x] c(1,5) xs by (auto dest: mbuf_at_not_NULL)
  from Cons.prems(11) obtain pv where "mw_priv w P = Some pv" by auto
  from free_seg_shares [OF c(3,7,6) x(2,1) Cons.prems(8,9) _ this] Cons.prems(10) obtain mp1 j where
    f: "rte_pktmbuf_free_seg w c = Some (set_pool (set_mbuf (set_mbuf w x s) c j) P mp1)" "sole P j"
    "pool_ok drv inv (mw_ops w) mp1" "pool_bag bag mp1 = pool_bag bag mp + {#c#}" "pool_cap bag room mp1 = pool_cap bag room mp"
    by auto
  define w1 where "w1 = set_pool (set_mbuf (set_mbuf w x s) c j) P mp1"
  have at: "mbuf_at w1 b = (if b = c then Some j else if b = x then Some s else mbuf_at w b)" for b
    using c(2) x(3) by (simp add: w1_def)
  have dis: "c \<notin> set cs" "x \<notin> set cs" "c \<notin> set xs'" "x \<notin> set xs'" using Cons.prems(2,3,5) c(1) xs by auto
  then have same: "mbuf_at w1 b = mbuf_at w b" if "b \<in> set cs \<union> set xs'" for b using that at by auto
  have "\<exists>w' mp'. rte_pktmbuf_free w1 (m_next i) = Some w' \<and> mw_pools w' = (mw_pools w1)(P \<mapsto> mp') \<and> pool_ok drv inv (mw_ops w1) mp' \<and>
    pool_bag bag mp' = pool_bag bag mp1 + mset cs \<and> pool_cap bag room mp' = pool_cap bag room mp1 \<and> same_store w1 w' \<and>
    same_but (set cs \<union> set xs') w1 w' \<and> (\<forall>x \<in> set xs'. mbuf_at w' x = mbuf_at w0 x) \<and> (\<forall>c \<in> set cs. sole_direct w' P c)"
  proof (rule Cons.IH)
    show "seg_chain (mbuf_at w1) (m_next i) cs" using c(4) same by (subst seg_chain_cong) auto
    show "list_all2 (\<lambda>c x. \<exists>i s. mbuf_at w1 c = Some i \<and> mbuf_at w0 x = Some s \<and> shareable x s \<and> shares P s i) cs xs'"
      using Cons.prems(6) same unfolding xs by (auto elim!: list.rel_mono_strong)
    show "mbuf_at w1 y = map_option (\<lambda>s. s\<lparr>m_refcnt := m_refcnt s + 1\<rparr>) (mbuf_at w0 y)" if "y \<in> set xs'" for y
      using that Cons.prems(7) [of y] same xs by auto
  qed (use Cons.prems xs f in \<open>auto simp: w1_def\<close>)
  then obtain w' mp' where w': "rte_pktmbuf_free w1 (m_next i) = Some w'" "mw_pools w' = (mw_pools w1)(P \<mapsto> mp')"
    "pool_ok drv inv (mw_ops w) mp'" "pool_bag bag mp' = pool_bag bag mp1 + mset cs" "pool_cap bag room mp' = pool_cap bag room mp1"
    "same_store w1 w'" "same_but (set cs \<union> set xs') w1 w'" "\<And>x. x \<in> set xs' \<Longrightarrow> mbuf_at w' x = mbuf_at w0 x"
    "\<And>c. c \<in> set cs \<Longrightarrow> sole_direct w' P c" by (auto simp: w1_def)
  have "rte_pktmbuf_free w c = Some w'" using c(2,3) f(1) w'(1) by (subst rte_pktmbuf_free.simps) (simp add: w1_def)
  moreover have "same_store w w'" using w'(6) by (simp add: same_store_def w1_def)
  moreover have "mbuf_at w' c = Some j" "mbuf_at w' x = Some s" using w'(7) dis x(2) by (simp_all add: same_but_def at)
  moreover have "same_but (set (c' # cs) \<union> set xs) w w'" using w'(7) c(1) by (auto simp: same_but_def at xs)
  ultimately show ?case using w' f c(1,5) xs
    by (intro exI [of _ w'] exI [of _ mp']) (auto simp: w1_def sole_direct_at)
qed

end

section \<open>The whole packet\<close>

text \<open>The loop of the clone and the store through \<open>prev\<close> behind it.\<close>

definition clone_chain :: "'p mbuf_world \<Rightarrow> addr \<Rightarrow> addr \<Rightarrow> addr \<Rightarrow> addr \<Rightarrow> u16 \<Rightarrow> ('p mbuf_world \<times> addr \<times> u16) option" where
  "clone_chain w mp mi md prev nseg =
     do { (w, mi, prev, nseg) \<leftarrow> clone_segs w mp mi md prev nseg;
          w \<leftarrow> upd_mbuf w prev (\<lambda>m. m\<lparr>m_next := NULL\<rparr>);
          Some (w, mi, nseg) }"

abbreviation ref_taken :: "rte_mbuf option \<Rightarrow> rte_mbuf option" where
  "ref_taken \<equiv> map_option (\<lambda>s. s\<lparr>m_refcnt := m_refcnt s + 1\<rparr>)"

text \<open>The segments \<open>cs\<close> share the buffers of \<open>xs\<close>, as they were in \<open>w\<close>.\<close>

definition cloned :: "addr \<Rightarrow> 'p mbuf_world \<Rightarrow> 'p mbuf_world \<Rightarrow> addr list \<Rightarrow> addr list \<Rightarrow> bool" where
  "cloned P w w' cs xs \<longleftrightarrow>
     list_all2 (\<lambda>c x. \<exists>i s. mbuf_at w' c = Some i \<and> mbuf_at w x = Some s \<and> shareable x s \<and> shares P s i) cs xs \<and>
     (\<forall>x \<in> set xs. mbuf_at w' x = ref_taken (mbuf_at w x))"

lemma shares_next [simp]: "shares P s (i\<lparr>m_next := a\<rparr>) = shares P s i"
  by (simp add: shares_def)

context mempool_driver
begin

lemma clone_chain_ok:
  assumes "seg_chain (mbuf_at w) md xs" "xs \<noteq> []" "distinct xs" "\<And>x. x \<in> set xs \<Longrightarrow> \<exists>s. mbuf_at w x = Some s \<and> shareable x s"
    and "mbuf_at w mi = Some d" "sole P d" "mi \<notin> set xs" "mbuf_at w prev = Some p" "prev \<notin> set xs"
    and "mw_pools w P = Some mp" "pool_ok drv inv (mw_ops w) mp" "\<And>a. count (pool_bag bag mp) a \<le> 1"
    and "\<And>a. a \<in># pool_bag bag mp \<Longrightarrow> sole_direct w P a \<and> a \<notin> set xs \<and> a \<noteq> mi \<and> a \<noteq> prev"
  shows "\<exists>w' mi' cs mp'. clone_chain w P mi md prev n = Some (w', mi', n + of_nat (length cs)) \<and>
    seg_chain (mbuf_at w') mi cs \<and> distinct cs \<and> length cs \<le> length xs \<and>
    pool_bag bag mp + {#mi#} = pool_bag bag mp' + mset cs \<and> mw_pools w' = (mw_pools w)(P \<mapsto> mp') \<and>
    pool_ok drv inv (mw_ops w) mp' \<and> pool_cap bag room mp' = pool_cap bag room mp \<and> same_store w w' \<and>
    cloned P w w' cs (take (length cs) xs) \<and>
    same_but (insert prev (set cs \<union> set (take (length cs) xs))) w w' \<and>
    (prev \<noteq> mi \<longrightarrow> mbuf_at w' prev = Some (p\<lparr>m_next := mi\<rparr>)) \<and>
    (if length cs = length xs then mi' \<noteq> NULL else mi' = NULL \<and> Suc (near bag (mw_lcore w) mp) < length xs)"
  using assms
proof (induction xs arbitrary: w md mi d prev p mp n)
  case (Cons x xs)
  note U = Cons.prems
  from U(1) have md: "md = x" by simp
  from U(4) [of x] obtain s where s: "mbuf_at w x = Some s" "shareable x s" by auto
  have nx: "seg_chain (mbuf_at w) (m_next s) xs" using U(1) s(1) md by simp
  have ne: "mi \<noteq> x" "prev \<noteq> x" "x \<notin> set xs" "x \<noteq> NULL" "mi \<noteq> NULL" "prev \<noteq> NULL"
    using U(3,7,9) s(1) U(5,8) by (auto dest: mbuf_at_not_NULL)
  from attach_shares [OF s U(5,6) ne(1)] obtain i where
    i: "rte_pktmbuf_attach w mi x = Some (set_mbuf (set_mbuf w x (s\<lparr>m_refcnt := m_refcnt s + 1\<rparr>)) mi i)"
      "shares P s i" "m_next i = NULL" by blast
  let ?s = "s\<lparr>m_refcnt := m_refcnt s + 1\<rparr>"
  let ?p = "(if prev = mi then i else p)\<lparr>m_next := mi\<rparr>"
  define wb where "wb = set_mbuf (set_mbuf (set_mbuf w x ?s) mi i) prev ?p"
  have at: "mbuf_at wb b = (if b = prev then Some ?p else if b = mi then Some i else if b = x then Some ?s else mbuf_at w b)" for b
    using ne by (simp add: wb_def)
  have ub: "upd_mbuf (set_mbuf (set_mbuf w x ?s) mi i) prev (\<lambda>m. m\<lparr>m_next := mi\<rparr>) = Some wb"
    using ne U(8) by (simp add: upd_mbuf_def wb_def)
  have wb: "mw_pools wb = mw_pools w" "mw_ops wb = mw_ops w" "mw_lcore wb = mw_lcore w" "same_store w wb"
    by (simp_all add: wb_def)
  have next_at: "m_next (the (mbuf_at wb x)) = m_next s" "mbuf_at wb x = Some ?s" using at ne by simp_all
  define w1 where "w1 = set_mbuf wb mi ((if prev = mi then ?p else i)\<lparr>m_next := NULL\<rparr>)"
  have u1: "upd_mbuf wb mi (\<lambda>m. m\<lparr>m_next := NULL\<rparr>) = Some w1" using at by (simp add: upd_mbuf_def w1_def)
  have at1: "mbuf_at w1 b = (if b = mi then Some ((if prev = mi then ?p else i)\<lparr>m_next := NULL\<rparr>) else mbuf_at wb b)" for b
    using ne by (simp add: w1_def)
  have pools1: "mw_pools w1 = (mw_pools w)(P \<mapsto> mp)" using wb(1) U(10) by (auto simp: w1_def)
  have stop: "seg_chain (mbuf_at w1) mi [mi]" "cloned P w w1 [mi] [x]" "same_but (insert prev (set [mi] \<union> set [x])) w w1"
    "prev \<noteq> mi \<longrightarrow> mbuf_at w1 prev = Some (p\<lparr>m_next := mi\<rparr>)" "same_store w w1"
    using ne i(2) s wb(4) by (auto simp: at1 at cloned_def same_but_def w1_def)
  show ?case
  proof (cases "xs = []")
    case True
    then have "m_next s = NULL" using nx by simp
    then have "clone_chain w P mi md prev n = Some (w1, mi, n + 1)"
      using i(1) ub next_at(2) u1 by (simp add: clone_chain_def md) (subst clone_segs.simps, simp)
    with True stop pools1 U(11) ne(5) show ?thesis
      by (intro exI [of _ w1] exI [of _ mi] exI [of _ "[mi]"] exI [of _ mp]) simp
  next
    case False
    with nx have nn: "m_next s \<noteq> NULL" by (cases xs) auto
    have sd: "sole_direct wb P a" if "a \<in># pool_bag bag mp" for a
      using U(13) [OF that] at by (auto simp: sole_direct_def)
    from pktmbuf_alloc_near [of wb P mp] U(10,11) wb sd consider
      a mp1 d1 d0 where "rte_pktmbuf_alloc wb P = Some (a, set_mbuf (set_pool wb P mp1) a d1)" "mbuf_at wb a = Some d0" "sole P d1"
        "pool_ok drv inv (mw_ops w) mp1" "pool_bag bag mp = pool_bag bag mp1 + {#a#}" "pool_cap bag room mp1 = pool_cap bag room mp"
        "near bag (mw_lcore w) mp = Suc (near bag (mw_lcore w) mp1)"
      | "rte_pktmbuf_alloc wb P = Some (NULL, wb)" "near bag (mw_lcore w) mp = 0" by auto
    then show ?thesis
    proof cases
      case 2
      then have "clone_chain w P mi md prev n = Some (w1, NULL, n + 1)"
        using i(1) ub next_at(2) u1 nn by (simp add: clone_chain_def md) (subst clone_segs.simps, simp)
      with False 2(2) stop pools1 U(11) show ?thesis
        by (intro exI [of _ w1] exI [of _ NULL] exI [of _ "[mi]"] exI [of _ mp]) (auto simp: Suc_le_eq)
    next
      case 1
      have a: "a \<noteq> NULL" "a \<notin> set (x # xs)" "a \<noteq> mi" "a \<noteq> prev" using 1(2,5) U(13) [of a] by (auto dest: mbuf_at_not_NULL)
      define wc where "wc = set_mbuf (set_pool wb P mp1) a d1"
      have atc: "mbuf_at wc b = (if b = a then Some d1 else mbuf_at wb b)" for b using a(1) by (simp add: wc_def)
      have old: "mbuf_at wc y = mbuf_at w y" if "y \<in> set xs" for y using that a ne U(7,9) by (auto simp: atc at)
      have sub: "b \<in># pool_bag bag mp" if "b \<in># pool_bag bag mp1" for b using that 1(5) by simp
      have na: "a \<notin># pool_bag bag mp1" using U(12) [of a] 1(5) by (simp add: count_eq_zero_iff [symmetric])
      have step: "clone_chain w P mi md prev n = clone_chain wc P a (m_next s) mi (n + 1)"
        using i(1) ub next_at(2) 1(1) a(1) nn by (simp add: clone_chain_def md) (subst clone_segs.simps, simp add: wc_def)
      have "\<exists>w' mi' cs mp'. clone_chain wc P a (m_next s) mi (n + 1) = Some (w', mi', n + 1 + of_nat (length cs)) \<and>
        seg_chain (mbuf_at w') a cs \<and> distinct cs \<and> length cs \<le> length xs \<and>
        pool_bag bag mp1 + {#a#} = pool_bag bag mp' + mset cs \<and> mw_pools w' = (mw_pools wc)(P \<mapsto> mp') \<and>
        pool_ok drv inv (mw_ops wc) mp' \<and> pool_cap bag room mp' = pool_cap bag room mp1 \<and> same_store wc w' \<and>
        cloned P wc w' cs (take (length cs) xs) \<and> same_but (insert mi (set cs \<union> set (take (length cs) xs))) wc w' \<and>
        (mi \<noteq> a \<longrightarrow> mbuf_at w' mi = Some ((if prev = mi then ?p else i)\<lparr>m_next := a\<rparr>)) \<and>
        (if length cs = length xs then mi' \<noteq> NULL else mi' = NULL \<and> Suc (near bag (mw_lcore wc) mp1) < length xs)"
      proof (rule Cons.IH)
        show "seg_chain (mbuf_at wc) (m_next s) xs" using nx old by (subst seg_chain_cong) auto
        show "\<exists>s. mbuf_at wc y = Some s \<and> shareable y s" if "y \<in> set xs" for y using U(4) [of y] old [OF that] that by simp
        show "mbuf_at wc mi = Some (if prev = mi then ?p else i)" using a(3) by (simp add: atc at)
        show "count (pool_bag bag mp1) b \<le> 1" for b using U(12) [of b] 1(5) by (auto split: if_splits)
        show "sole_direct wc P b \<and> b \<notin> set xs \<and> b \<noteq> a \<and> b \<noteq> mi" if "b \<in># pool_bag bag mp1" for b
          using sd [OF sub [OF that]] U(13) [OF sub [OF that]] na that by (auto simp: sole_direct_def atc)
      qed (use False U(3,7) a 1(3,4) in \<open>simp_all add: wc_def wb\<close>)
      then obtain w' mi' cs mp' where w': "clone_chain wc P a (m_next s) mi (n + 1) = Some (w', mi', n + 1 + of_nat (length cs))"
        "seg_chain (mbuf_at w') a cs" "distinct cs" "length cs \<le> length xs" "pool_bag bag mp1 + {#a#} = pool_bag bag mp' + mset cs"
        "mw_pools w' = (mw_pools wc)(P \<mapsto> mp')" "pool_ok drv inv (mw_ops wc) mp'" "pool_cap bag room mp' = pool_cap bag room mp1"
        "same_store wc w'" "cloned P wc w' cs (take (length cs) xs)" "same_but (insert mi (set cs \<union> set (take (length cs) xs))) wc w'"
        "mbuf_at w' mi = Some ((if prev = mi then ?p else i)\<lparr>m_next := a\<rparr>)"
        "if length cs = length xs then mi' \<noteq> NULL else mi' = NULL \<and> Suc (near bag (mw_lcore wc) mp1) < length xs"
        using a(3) by blast
      have csb: "c \<in># pool_bag bag mp" if "c \<in> set cs" for c
      proof -
        have "c \<in># pool_bag bag mp' + mset cs" using that by simp
        then show ?thesis unfolding 1(5) w'(5) .
      qed
      have nc: "mi \<notin> set cs" "prev \<notin> set cs" "x \<notin> set cs" using csb U(13) by fastforce+
      have tk: "set (take (length cs) xs) \<subseteq> set xs" by (rule set_take_subset)
      have x': "mbuf_at w' x = Some ?s" using w'(11) ne nc tk a by (auto simp: same_but_def atc at)
      have p': "mbuf_at w' prev = Some (p\<lparr>m_next := mi\<rparr>)" if "prev \<noteq> mi"
        using w'(11) that nc tk U(9) a by (auto simp: same_but_def atc at)
      have "cloned P w w' (mi # cs) (take (length (mi # cs)) (x # xs))"
        using w'(10,12) x' s i(2) old tk by (auto simp: cloned_def elim!: list.rel_mono_strong)
      moreover have "same_but (insert prev (set (mi # cs) \<union> set (take (length (mi # cs)) (x # xs)))) w w'"
        using w'(2,11) csb by (cases cs) (auto simp: same_but_def atc at)
      moreover have "same_store w w'" using w'(9) wb(4) by (auto simp: same_store_def wc_def)
      moreover have "seg_chain (mbuf_at w') mi (mi # cs)" using w'(2,12) ne(5) by simp
      moreover have "mw_pools w' = (mw_pools w)(P \<mapsto> mp')" using w'(6) by (simp add: wc_def wb)
      moreover have "if length (mi # cs) = length (x # xs) then mi' \<noteq> NULL else mi' = NULL \<and> Suc (near bag (mw_lcore w) mp) < length (x # xs)"
        using w'(13) 1(7) by (simp add: wc_def wb split: if_splits)
      moreover have "pool_bag bag mp + {#mi#} = pool_bag bag mp' + mset (mi # cs)" using 1(5) w'(5) by simp
      ultimately show ?thesis using step w'(1,3,4,7,8) nc(1) p' 1(6)
        by (intro exI [of _ w'] exI [of _ mi'] exI [of _ "mi # cs"] exI [of _ mp'])
          (auto simp: wc_def wb simp del: seg_chain.simps take_Suc_Cons)
    qed
  qed
qed simp

text \<open>Segments that share buffers have the same bytes.\<close>

lemma seg_shares:
  assumes "mbuf_at w x = Some s" "shares P s i" "mbuf_at w' c = Some i'" "mw_bytes w' = mw_bytes w"
    and "m_buf_addr i' = m_buf_addr i" "m_data_off i' = m_data_off i" "m_data_len i' = m_data_len i" "m_buf_len i' = m_buf_len i"
  shows "seg_ok w' c = seg_ok w x" "seg_data w' c = seg_data w x"
  using assms by (simp_all add: seg_ok_def seg_data_def rd_bytes_def shares_def split: option.split)

lemma cloned_copies:
  assumes "cloned P w w' cs xs" "mw_bytes w' = mw_bytes w" "\<And>x. x \<in> set xs \<Longrightarrow> seg_ok w x"
  shows "pkt_data w' cs = pkt_data w xs" "c \<in> set cs \<Longrightarrow> seg_ok w' c"
proof -
  have l2: "list_all2 (\<lambda>c x. seg_ok w' c = seg_ok w x \<and> seg_data w' c = seg_data w x) cs xs"
  proof (rule list.rel_mono_strong)
    show "list_all2 (\<lambda>c x. \<exists>i s. mbuf_at w' c = Some i \<and> mbuf_at w x = Some s \<and> shareable x s \<and> shares P s i) cs xs"
      using assms(1) unfolding cloned_def by blast
    show "seg_ok w' c = seg_ok w x \<and> seg_data w' c = seg_data w x"
      if "\<exists>i s. mbuf_at w' c = Some i \<and> mbuf_at w x = Some s \<and> shareable x s \<and> shares P s i" for c x
    proof -
      from that obtain i s where "mbuf_at w x = Some s" "shares P s i" "mbuf_at w' c = Some i" by blast
      then show ?thesis using assms(2) by (simp add: seg_shares [of w x s P i w' c i])
    qed
  qed
  then show "pkt_data w' cs = pkt_data w xs" by (induction rule: list_all2_induct) auto
  assume "c \<in> set cs"
  then obtain j where j: "j < length cs" "c = cs ! j" by (auto simp: in_set_conv_nth)
  from list_all2_nthD [OF l2 j(1)] have "seg_ok w' c = seg_ok w (xs ! j)" unfolding j(2) by blast
  moreover have "xs ! j \<in> set xs" using j(1) list_all2_lengthD [OF l2] by simp
  ultimately show "seg_ok w' c" using assms(3) by blast
qed

lemma cloned_origin:
  assumes "cloned P w w' cs xs" "mw_bytes w' = mw_bytes w" "pkt_ok w md xs" "\<And>x. x \<in> set xs \<Longrightarrow> \<exists>s. mbuf_at w x = Some s"
  shows "pkt_ok w' md xs" "pkt_data w' xs = pkt_data w xs"
proof -
  have cl: "mbuf_at w' x = Some (s\<lparr>m_refcnt := m_refcnt s + 1\<rparr>)" if "x \<in> set xs" "mbuf_at w x = Some s" for x s
    using assms(1) that by (simp add: cloned_def)
  have seg: "seg_ok w' x = seg_ok w x \<and> seg_data w' x = seg_data w x" if "x \<in> set xs" for x
  proof -
    from assms(4) [OF that] obtain s where s: "mbuf_at w x = Some s" by blast
    from seg_eq_fields [OF s cl [OF that s] assms(2)] show ?thesis by simp
  qed
  then show data: "pkt_data w' xs = pkt_data w xs" by (intro pkt_data_cong) blast
  from assms(3) obtain m ys where m: "xs = md # ys" "mbuf_at w md = Some m" "unat (m_nb_segs m) = length xs"
    "unat (m_pkt_len m) = length (pkt_data w xs)" by (rule pkt_okE) blast
  show "pkt_ok w' md xs"
  proof (rule pkt_ok_update [OF assms(3)])
    show "mbuf_at w' md = Some (m\<lparr>m_refcnt := m_refcnt m + 1\<rparr>)" using cl m(1,2) by simp
    show "m_pkt_len (m\<lparr>m_refcnt := m_refcnt m + 1\<rparr>) = of_nat (length (pkt_data w' xs))" by (simp add: data flip: m(4))
    show "seg_ok w' x" if "x \<in> set xs" for x using seg [OF that] assms(3) that by (simp add: pkt_ok_def)
    show "\<exists>m'. mbuf_at w' x = Some m' \<and> m_next m' = m_next mx" if "x \<in> set xs" "mbuf_at w x = Some mx" for x mx
      using cl [OF that] by simp
  qed (use m(3) in simp)
qed

lemma clone_unfold:
  "rte_pktmbuf_clone w md mp =
     do { (mc, w) \<leftarrow> rte_pktmbuf_alloc w mp;
          if mc = NULL then Some (NULL, w)
          else do {
            pktlen \<leftarrow> map_option m_pkt_len (mbuf_at w md);
            (w, mi, nseg) \<leftarrow> clone_chain w mp mc md mc 0;
            w \<leftarrow> upd_mbuf w mc (\<lambda>m. m\<lparr>m_nb_segs := nseg, m_pkt_len := pktlen\<rparr>);
            if mi = NULL then do { w \<leftarrow> rte_pktmbuf_free w mc; Some (NULL, w) }
            else Some (mc, w) } }"
  by (simp add: rte_pktmbuf_clone_def clone_chain_def case_prod_beta' cong: if_cong)

lemma clone_ok:
  assumes p: "pkt_ok w md xs" and sh: "\<And>x. x \<in> set xs \<Longrightarrow> \<exists>s. mbuf_at w x = Some s \<and> shareable x s"
    and pool: "mw_pools w P = Some mp" "pool_ok drv inv (mw_ops w) mp" "size (pool_bag bag mp) \<le> pool_cap bag room mp"
      "mw_priv w P \<noteq> None"
    and objs: "\<And>a. count (pool_bag bag mp) a \<le> 1" "\<And>a. a \<in># pool_bag bag mp \<Longrightarrow> sole_direct w P a \<and> a \<notin> set xs"
  shows "(\<exists>mc w' cs mp'. rte_pktmbuf_clone w md P = Some (mc, w') \<and> pkt_ok w' mc cs \<and> pkt_data w' cs = pkt_data w xs \<and>
      pkt_ok w' md xs \<and> pkt_data w' xs = pkt_data w xs \<and> cloned P w w' cs xs \<and> same_but (set cs \<union> set xs) w w' \<and>
      mw_pools w' = (mw_pools w)(P \<mapsto> mp') \<and> pool_ok drv inv (mw_ops w) mp' \<and> pool_bag bag mp = pool_bag bag mp' + mset cs) \<or>
    (\<exists>w' mp'. rte_pktmbuf_clone w md P = Some (NULL, w') \<and> near bag (mw_lcore w) mp < length xs \<and>
      mw_pools w' = (mw_pools w)(P \<mapsto> mp') \<and> pool_ok drv inv (mw_ops w) mp' \<and> pool_bag bag mp' = pool_bag bag mp \<and>
      same_but (set_mset (pool_bag bag mp)) w w' \<and> (\<forall>a. a \<in># pool_bag bag mp \<longrightarrow> sole_direct w' P a))"
proof -
  from p obtain m ys where m: "xs = md # ys" "mbuf_at w md = Some m" "unat (m_nb_segs m) = length xs"
    "unat (m_pkt_len m) = length (pkt_data w xs)" by (rule pkt_okE) blast
  have ok: "seg_chain (mbuf_at w) md xs" "distinct xs" "\<And>x. x \<in> set xs \<Longrightarrow> seg_ok w x" using p by (simp_all add: pkt_ok_def)
  have sd: "sole_direct w P a" if "a \<in># pool_bag bag mp" for a using objs(2) [OF that] by simp
  from pktmbuf_alloc_near [OF pool(1,2) sd] consider
    mc mp1 d d0 where "rte_pktmbuf_alloc w P = Some (mc, set_mbuf (set_pool w P mp1) mc d)" "mbuf_at w mc = Some d0" "sole P d"
      "pool_ok drv inv (mw_ops w) mp1" "pool_bag bag mp = pool_bag bag mp1 + {#mc#}" "pool_cap bag room mp1 = pool_cap bag room mp"
      "near bag (mw_lcore w) mp = Suc (near bag (mw_lcore w) mp1)"
    | "rte_pktmbuf_alloc w P = Some (NULL, w)" "near bag (mw_lcore w) mp = 0" by auto
  then show ?thesis
  proof cases
    case 2
    have "rte_pktmbuf_clone w md P = Some (NULL, w)" using 2(1) by (simp add: rte_pktmbuf_clone_def)
    moreover have "mw_pools w = (mw_pools w)(P \<mapsto> mp)" using pool(1) by auto
    ultimately show ?thesis using 2(2) m(1) pool(2) objs(2)
      by (intro disjI2 exI [of _ w] exI [of _ mp]) (simp add: same_but_def)
  next
    case 1
    have mc: "mc \<noteq> NULL" "mc \<notin> set xs" using 1(2,5) objs(2) [of mc] by (auto dest: mbuf_at_not_NULL)
    define w1 where "w1 = set_mbuf (set_pool w P mp1) mc d"
    have at1: "mbuf_at w1 b = (if b = mc then Some d else mbuf_at w b)" for b using mc(1) by (simp add: w1_def)
    have old: "mbuf_at w1 x = mbuf_at w x" if "x \<in> set xs" for x using that mc(2) by (auto simp: at1)
    have sub: "b \<in># pool_bag bag mp" if "b \<in># pool_bag bag mp1" for b using that 1(5) by simp
    have na: "mc \<notin># pool_bag bag mp1" using objs(1) [of mc] 1(5) by (simp add: count_eq_zero_iff [symmetric])
    have w1: "mw_pools w1 = (mw_pools w)(P \<mapsto> mp1)" "mw_ops w1 = mw_ops w" "mw_lcore w1 = mw_lcore w" "same_store w w1"
      by (simp_all add: w1_def)
    have "\<exists>w2 mi cs mp2. clone_chain w1 P mc md mc 0 = Some (w2, mi, 0 + of_nat (length cs)) \<and>
      seg_chain (mbuf_at w2) mc cs \<and> distinct cs \<and> length cs \<le> length xs \<and>
      pool_bag bag mp1 + {#mc#} = pool_bag bag mp2 + mset cs \<and> mw_pools w2 = (mw_pools w1)(P \<mapsto> mp2) \<and>
      pool_ok drv inv (mw_ops w1) mp2 \<and> pool_cap bag room mp2 = pool_cap bag room mp1 \<and> same_store w1 w2 \<and>
      cloned P w1 w2 cs (take (length cs) xs) \<and> same_but (insert mc (set cs \<union> set (take (length cs) xs))) w1 w2 \<and>
      (mc \<noteq> mc \<longrightarrow> mbuf_at w2 mc = Some (d\<lparr>m_next := mc\<rparr>)) \<and>
      (if length cs = length xs then mi \<noteq> NULL else mi = NULL \<and> Suc (near bag (mw_lcore w1) mp1) < length xs)"
    proof (rule clone_chain_ok)
      show "seg_chain (mbuf_at w1) md xs" using ok(1) old by (subst seg_chain_cong) auto
      show "\<exists>s. mbuf_at w1 x = Some s \<and> shareable x s" if "x \<in> set xs" for x using sh [OF that] old [OF that] by simp
      show "count (pool_bag bag mp1) b \<le> 1" for b using objs(1) [of b] 1(5) by (auto split: if_splits)
      show "sole_direct w1 P b \<and> b \<notin> set xs \<and> b \<noteq> mc \<and> b \<noteq> mc" if "b \<in># pool_bag bag mp1" for b
        using objs(2) [OF sub [OF that]] na that by (auto simp: sole_direct_def at1)
    qed (use ok m(1) mc 1(3,4) in \<open>simp_all add: at1 w1\<close>)
    then obtain w2 mi cs mp2 where r: "clone_chain w1 P mc md mc 0 = Some (w2, mi, 0 + of_nat (length cs))"
      "seg_chain (mbuf_at w2) mc cs" "distinct cs" "length cs \<le> length xs" "pool_bag bag mp1 + {#mc#} = pool_bag bag mp2 + mset cs"
      "mw_pools w2 = (mw_pools w1)(P \<mapsto> mp2)" "pool_ok drv inv (mw_ops w1) mp2" "pool_cap bag room mp2 = pool_cap bag room mp1"
      "same_store w1 w2" "cloned P w1 w2 cs (take (length cs) xs)" "same_but (insert mc (set cs \<union> set (take (length cs) xs))) w1 w2"
      "if length cs = length xs then mi \<noteq> NULL else mi = NULL \<and> Suc (near bag (mw_lcore w1) mp1) < length xs" by blast
    have e: "if length cs = length xs then mi \<noteq> NULL else mi = NULL \<and> near bag (mw_lcore w) mp < length xs"
      using r(12) unfolding 1(7) w1(3) .
    have r1: "clone_chain w1 P mc md mc 0 = Some (w2, mi, of_nat (length cs))" using r(1) by simp
    have r6: "mw_pools w2 = (mw_pools w)(P \<mapsto> mp2)" using r(6) by (simp add: w1(1))
    have r9: "same_store w w2" using w1(4) r(9) by (rule same_store_trans)
    note w2 = r1 r(2-4) r(5) [folded 1(5)] r6 r(7) [unfolded w1(2)] r(8) [unfolded 1(6)] r9 r(10,11) e
    let ?xs = "take (length cs) xs"
    have tk: "set ?xs \<subseteq> set xs" by (rule set_take_subset)
    have cl: "cloned P w w2 cs ?xs" using w2(10) old tk by (auto simp: cloned_def elim!: list.rel_mono_strong)
    have csne: "cs \<noteq> []" "mc \<in> set cs" using w2(2) mc(1) by (cases cs; auto)+
    have csb: "c \<in># pool_bag bag mp" if "c \<in> set cs" for c using that by (simp add: w2(5))
    then have dis: "set cs \<inter> set xs = {}" using objs(2) by blast
    from w2(2) csne obtain i where i: "mbuf_at w2 mc = Some i" by (cases cs) (auto split: option.splits)
    define i3 where "i3 = i\<lparr>m_nb_segs := of_nat (length cs), m_pkt_len := m_pkt_len m\<rparr>"
    define w3 where "w3 = set_mbuf w2 mc i3"
    have at3: "mbuf_at w3 b = (if b = mc then Some i3 else mbuf_at w2 b)" for b using mc(1) by (simp add: w3_def)
    have run: "rte_pktmbuf_clone w md P = (if mi = NULL then do { w \<leftarrow> rte_pktmbuf_free w3 mc; Some (NULL, w) } else Some (mc, w3))"
      using 1(1) mc(1) old [of md] m(1,2) w2(1) i by (simp add: clone_unfold upd_mbuf_def w3_def i3_def flip: w1_def)
    have chain3: "seg_chain (mbuf_at w3) mc cs" by (rule seg_chain_next [OF w2(2)]) (auto simp: at3 i i3_def)
    have "shares P s i3 = shares P s i" for s by (simp add: shares_def i3_def)
    then have cl3: "cloned P w w3 cs ?xs"
      using cl mc(2) tk i by (auto simp: cloned_def at3 elim!: list.rel_mono_strong)
    have sb: "same_but (set cs \<union> set ?xs) w w3" using w2(11) csne(2) by (auto simp: same_but_def at3 at1)
    have ss3: "same_store w w3" using w2(9) by (simp add: w3_def same_store_def)
    show ?thesis
    proof (cases "length cs = length xs")
      case True
      then have all: "?xs = xs" by simp
      have bw: "mw_bytes w3 = mw_bytes w" using ss3 by (simp add: same_store_def)
      have cx: "\<And>x. x \<in> set xs \<Longrightarrow> \<exists>s. mbuf_at w x = Some s" using sh by blast
      note cp = cloned_copies [OF cl3 [unfolded all] bw ok(3)] and og = cloned_origin [OF cl3 [unfolded all] bw p cx]
      have "unat (of_nat (length cs) :: u16) = length cs" using pkt_ok_nb [OF p] True by (simp add: unat_of_nat)
      then have pc: "pkt_ok w3 mc cs" using csne(1) w2(3) chain3 cp m(4) by (simp add: pkt_ok_def at3 i3_def)
      moreover have "rte_pktmbuf_clone w md P = Some (mc, w3)" using run w2(12) True by simp
      ultimately show ?thesis using pc cp(1) og cl3 sb w2(5-7) unfolding all
        by (intro disjI1 exI [of _ mc] exI [of _ w3] exI [of _ cs] exI [of _ mp2]) (simp add: w3_def)
    next
      case False
      have "\<exists>w4 mp4. rte_pktmbuf_free w3 mc = Some w4 \<and> mw_pools w4 = (mw_pools w3)(P \<mapsto> mp4) \<and> pool_ok drv inv (mw_ops w3) mp4 \<and>
        pool_bag bag mp4 = pool_bag bag mp2 + mset cs \<and> pool_cap bag room mp4 = pool_cap bag room mp2 \<and> same_store w3 w4 \<and>
        same_but (set cs \<union> set ?xs) w3 w4 \<and> (\<forall>x \<in> set ?xs. mbuf_at w4 x = mbuf_at w x) \<and> (\<forall>c \<in> set cs. sole_direct w4 P c)"
      proof (rule free_shares [OF chain3 w2(3)])
        show "size (pool_bag bag mp2) + length cs \<le> pool_cap bag room mp2"
          using arg_cong [OF w2(5), of size] pool(3) w2(8) by simp
      qed (use ok(2) w2(4,6-8) dis tk cl3 ss3 pool(4) in \<open>auto simp: cloned_def w3_def same_store_def\<close>)
      then obtain w4 mp4 where w4: "rte_pktmbuf_free w3 mc = Some w4" "mw_pools w4 = (mw_pools w)(P \<mapsto> mp4)"
        "pool_ok drv inv (mw_ops w) mp4" "pool_bag bag mp4 = pool_bag bag mp" "same_but (set cs \<union> set ?xs) w3 w4"
        "\<And>x. x \<in> set ?xs \<Longrightarrow> mbuf_at w4 x = mbuf_at w x" "\<And>c. c \<in> set cs \<Longrightarrow> sole_direct w4 P c"
        using w2(5,6) ss3 by (auto simp: w3_def same_store_def)
      have eq: "mbuf_at w4 b = mbuf_at w b" if "b \<notin> set cs" for b
        using that sb w4(5,6) by (cases "b \<in> set ?xs") (simp_all add: same_but_def)
      then have "same_but (set_mset (pool_bag bag mp)) w w4" using csb by (auto simp: same_but_def)
      moreover have "sole_direct w4 P a" if "a \<in># pool_bag bag mp" for a
        using w4(7) eq [of a] objs(2) [OF that] by (cases "a \<in> set cs") (auto simp: sole_direct_def)
      moreover have "rte_pktmbuf_clone w md P = Some (NULL, w4)" using run w2(12) False w4(1) by simp
      ultimately show ?thesis using w4(2-4) w2(12) False by (intro disjI2 exI [of _ w4] exI [of _ mp4]) simp
    qed
  qed
qed

end

end
