(* ===== verification/Buffer_Properties.thy ===== *)
theory Buffer_Properties
  imports Pool_Properties Mbuf_Clone
begin

text \<open>
  The properties of packet buffers (\<open>Mbuf\<close>, \<open>Mbuf_Release\<close>) over pools of the ring driver.
  \<open>world0\<close> has the pool \<open>pool7\<close> at address \<open>0x900\<close>, its four buffers, and three more buffers
  in the hands of the application.
\<close>

section \<open>Concrete buffers\<close>

definition sample_mbuf :: "addr \<Rightarrow> addr \<Rightarrow> u16 \<Rightarrow> rte_mbuf" where
  "sample_mbuf a nxt len = zero_mbuf\<lparr>m_buf_addr := a + 128, m_buf_iova := a + 0x10000080, m_data_off := 128,
     m_refcnt := 1, m_nb_segs := 1, m_data_len := len, m_pkt_len := ucast len, m_buf_len := 2176,
     m_pool := 0x900, m_next := nxt\<rparr>"

definition world0 :: "addr rte_ring mbuf_world" where
  "world0 = \<lparr>mw_ops = ring_ops_table no_env, mw_lcore = 5,
     mw_mbufs = [0x1000 \<mapsto> sample_mbuf 0x1000 0 0, 0x2000 \<mapsto> sample_mbuf 0x2000 0 0,
                 0x3000 \<mapsto> sample_mbuf 0x3000 0 0, 0x4000 \<mapsto> sample_mbuf 0x4000 0 0,
                 0x5000 \<mapsto> sample_mbuf 0x5000 0x6000 60, 0x6000 \<mapsto> sample_mbuf 0x6000 0 40,
                 0x7000 \<mapsto> sample_mbuf 0x7000 0 50],
     mw_pools = [0x900 \<mapsto> pool7],
     mw_priv = [0x900 \<mapsto> \<lparr>pp_mbuf_data_room_size = 2176, pp_mbuf_priv_size = 0, pp_flags = 0\<rparr>],
     mw_shinfo = Map.empty, mw_bytes = Map.empty, mw_iova = (\<lambda>a. a + 0x10000000), mw_freed = []\<rparr>"

lemma sample_direct:
  "RTE_MBUF_DIRECT (sample_mbuf a n l)" "m_refcnt (sample_mbuf a n l) = 1" "m_pool (sample_mbuf a n l) = 0x900"
  "m_next (sample_mbuf a n l) = n" "m_buf_addr (sample_mbuf a n l) = a + 128" "m_priv_size (sample_mbuf a n l) = 0"
  by (simp_all add: sample_mbuf_def zero_mbuf_def RTE_MBUF_DIRECT_def)

lemma world0_mbufs:
  "mbuf_at world0 0x5000 = Some (sample_mbuf 0x5000 0x6000 60)" "mbuf_at world0 0x6000 = Some (sample_mbuf 0x6000 0 40)"
  "mbuf_at world0 0x7000 = Some (sample_mbuf 0x7000 0 50)"
  by (simp_all add: mbuf_at_def world0_def)

lemma world0_pool:
  "mw_pools world0 0x900 = Some pool7" "mw_ops world0 = ring_ops_table no_env"
  "mw_priv world0 0x900 = Some \<lparr>pp_mbuf_data_room_size = 2176, pp_mbuf_priv_size = 0, pp_flags = 0\<rparr>"
  by (simp_all add: world0_def)

lemma world0_chain:
  "seg_chain (mbuf_at world0) 0x5000 [0x5000, 0x6000]" "sole_direct world0 0x900 0x5000"
  "sole_direct world0 0x900 0x6000" "sole_direct world0 0x900 0x7000"
  by (simp_all add: world0_mbufs sample_direct sole_direct_def)

section \<open>Release\<close>

text \<open>
  C9: \<open>rte_pktmbuf_free\<close> of a packet returns: it gives every segment of the chain back to
  the pool exactly once (the pool then holds these and what it held before), and touches no
  other buffer.
\<close>

theorem pktmbuf_free_returns_chain:
  assumes "i < 6" "mw_pools w P = Some mp" "ring_pool_ok env i mp" "mw_ops w = ring_ops_table env"
    and "seg_chain (mbuf_at w) m xs" "distinct xs" "\<And>x. x \<in> set xs \<Longrightarrow> sole_direct w P x"
    and "size (pool_bag ring_bag mp) + length xs \<le> pool_cap ring_bag ring_room mp"
  shows "\<exists>w' mp'. rte_pktmbuf_free w m = Some w' \<and> mw_pools w' = (mw_pools w)(P \<mapsto> mp') \<and>
    ring_pool_ok env i mp' \<and> pool_bag ring_bag mp' = pool_bag ring_bag mp + mset xs \<and>
    (\<forall>b. b \<notin> set xs \<longrightarrow> mbuf_at w' b = mbuf_at w b)"
  using mempool_driver.pktmbuf_free_chain [OF ring_mode_driver [OF assms(1)] assms(5-7,2) _ assms(8), of env]
    assms(3,4) by auto

theorem pktmbuf_free_returns_chain_witness:
  "\<exists>w' mp'. rte_pktmbuf_free world0 0x5000 = Some w' \<and> mw_pools w' = (mw_pools world0)(0x900 \<mapsto> mp') \<and>
    ring_pool_ok no_env 0 mp' \<and> pool_bag ring_bag mp' = pool_bag ring_bag pool7 + mset [0x5000, 0x6000] \<and>
    (\<forall>b. b \<notin> set [0x5000, 0x6000] \<longrightarrow> mbuf_at w' b = mbuf_at world0 b)"
  using pktmbuf_free_returns_chain [of 0 world0 "0x900" pool7 no_env "0x5000" "[0x5000, 0x6000]"]
    pool7_ok world0_pool world0_chain by (auto simp: pool7_bag)

section \<open>Allocation\<close>

text \<open>
  The bulk allocation, whose reset loop is unrolled four times and entered in its middle
  depending on \<open>count % 4\<close>, resets exactly the first \<open>count\<close> buffers in order, once each, for
  every count; its loop terminates.
\<close>

theorem alloc_bulk_resets_each:
  assumes "mw_pools w P = Some mp"
    and "rte_mempool_get_bulk (mw_ops w) (mw_lcore w) mp ms cnt = Some (0, ms', mp')" "unat cnt \<le> length ms'"
  shows "rte_pktmbuf_alloc_bulk w P ms cnt =
    do { w \<leftarrow> reset_each (take (unat cnt) ms') (set_pool w P mp'); Some (0, ms', w) }"
  by (rule alloc_bulk_each [OF assms])

theorem alloc_bulk_resets_each_witness:
  "\<exists>ms' mp'. rte_pktmbuf_alloc_bulk world0 0x900 [0, 0, 0, 9] 3 =
    do { w \<leftarrow> reset_each (take (unat (3 :: u32)) ms') (set_pool world0 0x900 mp'); Some (0, ms', w) } \<and> length ms' = 4"
proof -
  have "rte_mempool_get_bulk (ring_ops_table no_env) 5 pool7 [0, 0, 0, 9] 3 \<noteq> Some (e, [0, 0, 0, 9], pool7) \<or> 0 \<le> e" for e
    using mempool_driver.get_bulk_ok [OF ring_mode_driver, of 0 no_env "ring_ops_table no_env" pool7 3 "[0, 0, 0, 9]" 5]
      pool7_ok ring8_4(2) by (auto simp: pool7_def pool_of_def ring_bag_def)
  with mempool_driver.get_bulk_ok [OF ring_mode_driver, of 0 no_env "ring_ops_table no_env" pool7 3 "[0, 0, 0, 9]" 5]
    pool7_ok obtain xs mp' where
    g: "rte_mempool_get_bulk (ring_ops_table no_env) 5 pool7 [0, 0, 0, 9] 3 = Some (0, xs @ [9], mp')" "length xs = 3"
    by fastforce
  have "rte_pktmbuf_alloc_bulk world0 0x900 [0, 0, 0, 9] 3 =
    do { w \<leftarrow> reset_each (take (unat (3 :: u32)) (xs @ [9])) (set_pool world0 0x900 mp'); Some (0, xs @ [9], w) }"
    by (rule alloc_bulk_resets_each [OF world0_pool(1)]) (use g in \<open>simp_all add: world0_def\<close>)
  then show ?thesis using g(2) by (intro exI [of _ "xs @ [9]"] exI [of _ mp']) simp
qed

section \<open>Shared buffers\<close>

text \<open>
  A buffer attached to the data of another one takes a reference and reads the same
  bytes; when it is released, it goes back to its pool with its own buffer in place again,
  while the buffer it was attached to is left exactly as it was before, with its reference
  count. The count does not wrap around below \<open>2 ^ 16 - 1\<close> references.
\<close>

theorem attach_free_roundtrip:
  assumes "i < 6" "mw_pools w P = Some mp" "ring_pool_ok env i mp" "mw_ops w = ring_ops_table env"
    and "size (pool_bag ring_bag mp) < pool_cap ring_bag ring_room mp"
    and "mbuf_at w m = Some s" "RTE_MBUF_DIRECT s" "rte_mbuf_from_indirect s = m" "m_refcnt s \<noteq> 0" "m_refcnt s \<noteq> 0xffff"
    and "sole_direct w P mi" "mi \<noteq> m" "mw_priv w P = Some pv"
  shows "\<exists>w1 w2 mp' x x'. rte_pktmbuf_attach w mi m = Some w1 \<and>
    rte_mbuf_refcnt_read w1 m = Some (m_refcnt s + 1) \<and> mbuf_at w1 mi = Some x \<and> RTE_MBUF_CLONED x \<and>
    m_buf_addr x = m_buf_addr s \<and> m_data_off x = m_data_off s \<and> m_data_len x = m_data_len s \<and>
    rte_pktmbuf_free_seg w1 mi = Some w2 \<and> mbuf_at w2 m = Some s \<and>
    mw_pools w2 = (mw_pools w)(P \<mapsto> mp') \<and> ring_pool_ok env i mp' \<and> pool_bag ring_bag mp' = pool_bag ring_bag mp + {#mi#} \<and>
    mbuf_at w2 mi = Some x' \<and> m_buf_addr x' = mi + ucast (sizeof_rte_mbuf + ucast (pp_mbuf_priv_size pv))"
proof -
  from assms(11) obtain d where d: "mbuf_at w mi = Some d" "sole P d" by (auto simp: sole_direct_at)
  have n: "m \<noteq> NULL" "mi \<noteq> NULL" using assms(6) d(1) by (auto dest: mbuf_at_not_NULL)
  have s: "shareable m s" using assms(7-10) by (simp add: shareable_def)
  from attach_shares [OF assms(6) s d assms(12)] obtain x where
    x: "rte_pktmbuf_attach w mi m = Some (set_mbuf (set_mbuf w m (s\<lparr>m_refcnt := m_refcnt s + 1\<rparr>)) mi x)" "shares P s x" by blast
  let ?w = "set_mbuf (set_mbuf w m (s\<lparr>m_refcnt := m_refcnt s + 1\<rparr>)) mi x"
  have c: "RTE_MBUF_CLONED x"
    using x(2) by (simp add: RTE_MBUF_CLONED_def shares_def or_and_zero) (simp add: RTE_MBUF_F_INDIRECT_def)
  from mempool_driver.free_seg_shares [OF ring_mode_driver [OF assms(1), of env], of ?w mi x P s m mp pv] assms(2-5,12,13) n x(2) s
  obtain mp' j where f: "rte_pktmbuf_free_seg ?w mi = Some (set_pool (set_mbuf (set_mbuf ?w m s) mi j) P mp')"
    "ring_pool_ok env i mp'" "pool_bag ring_bag mp' = pool_bag ring_bag mp + {#mi#}"
    "m_buf_addr j = mi + ucast (sizeof_rte_mbuf + ucast (pp_mbuf_priv_size pv))" by auto
  then show ?thesis using x c n assms(12)
    by (intro exI [of _ ?w] exI [of _ "set_pool (set_mbuf (set_mbuf ?w m s) mi j) P mp'"] exI [of _ mp'] exI [of _ x] exI [of _ j])
      (simp add: rte_mbuf_refcnt_read_def shares_def)
qed

theorem attach_free_roundtrip_witness:
  "\<exists>w1 w2 mp' x x'. rte_pktmbuf_attach world0 0x7000 0x5000 = Some w1 \<and>
    rte_mbuf_refcnt_read w1 0x5000 = Some (1 + 1) \<and> mbuf_at w1 0x7000 = Some x \<and> RTE_MBUF_CLONED x \<and>
    m_buf_addr x = 0x5080 \<and> rte_pktmbuf_free_seg w1 0x7000 = Some w2 \<and>
    mbuf_at w2 0x5000 = Some (sample_mbuf 0x5000 0x6000 60) \<and>
    mw_pools w2 = (mw_pools world0)(0x900 \<mapsto> mp') \<and> pool_bag ring_bag mp' = pool_bag ring_bag pool7 + {#0x7000#} \<and>
    mbuf_at w2 0x7000 = Some x' \<and> m_buf_addr x' = 0x7080"
  using attach_free_roundtrip [of 0 world0 "0x900" pool7 no_env "0x5000" "sample_mbuf 0x5000 0x6000 60" "0x7000"
      "\<lparr>pp_mbuf_data_room_size = 2176, pp_mbuf_priv_size = 0, pp_flags = 0\<rparr>"]
    pool7_ok world0_pool world0_chain world0_mbufs
  by (auto simp: pool7_bag sample_direct rte_mbuf_from_indirect_def sizeof_rte_mbuf_def)

end
