(* ===== verification/Kni_Properties.thy ===== *)
theory Kni_Properties
  imports Kni_Buffers Buffer_Properties
begin

text \<open>
  The properties of the kernel interface (\<open>Kni_Fifo\<close>, \<open>Kni\<close>, \<open>Kni_Buffers\<close>) over pools of
  the ring driver.
\<close>

section \<open>Concrete queues\<close>

definition fifo8 :: "addr list \<Rightarrow> rte_kni_fifo" where
  "fifo8 xs = \<lparr>kf_write = of_nat (length xs), kf_read = 0, kf_len = 8, kf_elem_size = 8, kf_buffer = xs @ replicate (8 - length xs) 0\<rparr>"

text \<open>A queue whose indices are about to wrap around.\<close>

definition fifo_wrap :: rte_kni_fifo where
  "fifo_wrap = \<lparr>kf_write = 1, kf_read = 6, kf_len = 8, kf_elem_size = 8, kf_buffer = [30, 0, 0, 0, 0, 0, 10, 20]\<rparr>"

lemma fifo_wrap_ok: "kni_fifo_inv fifo_wrap" "kni_fifo_list fifo_wrap = [10, 20, 30]"
  by code_simp+

definition kni0 :: "addr list \<Rightarrow> rte_kni" where
  "kni0 freed = \<lparr>kn_name = ''vEth0'', kn_group_id = 0, kn_pktmbuf_pool = 0x900, kn_mbuf_size = 2048, kn_zones = [],
     kn_tx_q = fifo8 [], kn_rx_q = fifo_wrap, kn_alloc_q = fifo8 [], kn_free_q = fifo8 freed, kn_req_q = fifo8 [],
     kn_resp_q = fifo8 [], kn_sync_addr = 0, kn_ops = zero_kni_ops\<rparr>"

lemma fifo8_ok:
  "kni_fifo_inv (fifo8 [])" "kni_fifo_list (fifo8 []) = []" "kni_fifo_room (fifo8 []) = 7"
  "kni_fifo_inv (fifo8 [0x7000])" "kni_fifo_list (fifo8 [0x7000]) = [0x7000]" "kni_fifo_room fifo_wrap = 4"
  by code_simp+

section \<open>The queues shared with the kernel\<close>

text \<open>
  Over any sequence of puts and gets, of any sizes, the lock-free queue between the
  application and the kernel loses, duplicates and reorders nothing, and its capacity (one
  less than its slots) stays the same; the indices wrap around at its power-of-two length.
\<close>

theorem kni_fifo_run:
  assumes "kni_fifo_inv q" "list_all op_fits ops"
  shows "\<exists>acc out q'. fifo_run kni_put kni_get ops q = Some (acc, out, q') \<and> kni_fifo_inv q' \<and>
    kni_fifo_list q @ acc = out @ kni_fifo_list q' \<and>
    kni_fifo_room q' + length (kni_fifo_list q') = kni_fifo_room q + length (kni_fifo_list q)"
  using kni_q.fifo_run_ok [OF assms] .

theorem kni_fifo_run_witness:
  "\<exists>acc out q'. fifo_run kni_put kni_get [Put [1, 2, 3], Get 4, Put [4, 5, 6, 7], Get 1] fifo_wrap = Some (acc, out, q') \<and>
    kni_fifo_inv q' \<and> kni_fifo_list fifo_wrap @ acc = out @ kni_fifo_list q' \<and>
    kni_fifo_room q' + length (kni_fifo_list q') = kni_fifo_room fifo_wrap + length (kni_fifo_list fifo_wrap)"
  by (rule kni_fifo_run [OF fifo_wrap_ok(1)]) (simp add: op_fits_def)

section \<open>Creation of an interface\<close>

lemma zone_names_distinct: "distinct (kni_zone_names name)"
  by (simp add: kni_zone_names_def)

lemma kni_setup_zones:
  assumes "kni_setup pool conf ops va zs = Some (kni, d)"
  shows "kn_zones kni = map kz_name zs"
  using assms by (cases "(pool, conf, ops, va, zs)" rule: kni_setup.cases) (auto simp: bind_eq_Some_conv)

lemma kni_reserve_mz_undo:
  "kni_reserve_mz rs name zones = (None, zones') \<Longrightarrow> zones' = zones"
  "kni_reserve_mz rs name zones = (Some zs, zones') \<Longrightarrow> kni_release_mz (map kz_name zs) zones' = zones"
  using kni_reserve_seq_None [of rs "kni_zone_names name" "[]" zones zones']
    kni_reserve_seq_Some [of rs "kni_zone_names name" "[]" zones zs zones']
    kni_release_mz_rev [OF zone_names_distinct, of name zones]
  by (simp_all add: kni_reserve_mz_def)

text \<open>
  C35: when \<open>rte_kni_alloc\<close> returns NULL, for whatever reason (no device, a name in use, no
  memory, a zone that cannot be reserved after others have been, the kernel refusing the
  device), nothing is left behind: the zones already reserved have been released, no
  interface is registered and no buffer has been taken.
\<close>

theorem kni_alloc_failure_restores:
  assumes "rte_kni_alloc env pool conf ops s = Some (NULL, s')"
  shows "s' = s"
proof -
  have id: "s\<lparr>kw_zones := kw_zones s\<rparr> = s" by simp
  show ?thesis
    using assms kni_reserve_mz_undo id
    by (auto simp: rte_kni_alloc_def bind_eq_Some_conv kni_setup_zones split: option.splits prod.splits if_splits)
qed

definition kni_conf0 :: rte_kni_conf where
  "kni_conf0 = \<lparr>kc_name = ''vEth0'', kc_core_id = 0, kc_group_id = 0, kc_mbuf_size = 2048, kc_force_bind = False,
     kc_mac_addr = [0, 0, 0, 0, 0, 0], kc_mtu = 1500, kc_min_mtu = 68, kc_max_mtu = 9000\<rparr>"

text \<open>The fifth zone cannot be reserved.\<close>

definition kni_env0 :: "int \<Rightarrow> bool \<Rightarrow> kni_env" where
  "kni_env0 io full = \<lparr>ke_open = 7, ke_te = True, ke_kni = 0xA000,
     ke_reserve = (\<lambda>n. if full \<and> n = ''kni_req_vEth0'' then None
       else Some \<lparr>kz_name = n, kz_addr = 0xB000, kz_iova = 0xC000,
         kz_memory = \<lparr>kf_write = 9, kf_read = 3, kf_len = 0, kf_elem_size = 0, kf_buffer = replicate 1024 0\<rparr>\<rparr>),
     ke_ioctl = (\<lambda>_ _. io), ke_iova_va = True\<rparr>"

definition kni_world0 :: "int \<Rightarrow> addr rte_ring kni_world" where
  "kni_world0 fd = \<lparr>kw_fd = fd, kw_list = [], kw_kni = Map.empty, kw_zones = [''MP_p''], kw_mbufs = world0\<rparr>"

theorem kni_alloc_failure_restores_witness:
  "\<exists>s'. rte_kni_alloc (kni_env0 0 True) 0x900 (Some kni_conf0) None (kni_world0 7) = Some (NULL, s') \<and> s' = kni_world0 7"
proof -
  have r: "rte_kni_alloc (kni_env0 0 True) 0x900 (Some kni_conf0) None (kni_world0 7) = Some (NULL, kni_world0 7)"
    by (simp add: rte_kni_alloc_def kni_env0_def kni_conf0_def kni_world0_def kni_reserve_mz_def kni_zone_names_def
        RTE_KNI_NAMESIZE_def memzone_free_def)
  then show ?thesis using kni_alloc_failure_restores [OF r] by blast
qed

lemma kni_setup_queues:
  assumes "kni_setup pool conf ops va zs = Some (kni, d)"
    and "\<And>z. z \<in> set zs \<Longrightarrow> 1024 \<le> length (kf_buffer (kz_memory z))"
  shows "\<forall>q \<in> {kn_tx_q kni, kn_rx_q kni, kn_alloc_q kni, kn_free_q kni, kn_req_q kni, kn_resp_q kni}.
      kni_fifo_inv q \<and> kni_fifo_list q = [] \<and> kni_fifo_room q = 1023"
    and "kn_name kni = take 15 (kc_name conf)" "kn_pktmbuf_pool kni = pool"
proof -
  have z: "kni_fifo_inv q \<and> kni_fifo_list q = [] \<and> kni_fifo_room q = 1023"
    if "fifo_of_zone m = Some q" "m \<in> set zs" for m q
  proof -
    have "q = (kz_memory m)\<lparr>kf_write := 0, kf_read := 0, kf_len := 1024, kf_elem_size := 8\<rparr>"
      using that(1) by (simp add: fifo_of_zone_def kni_fifo_init_def KNI_FIFO_COUNT_MAX_def)
    with assms(2) [OF that(2)] show ?thesis
      by (simp add: kni_fifo_inv_def POWEROF2_def kni_fifo_list_def kni_fifo_used_def kni_fifo_count_def ring_get_def
          kni_fifo_room_def kni_fifo_free_count_def)
  qed
  from assms(1) obtain a b c e f g h where zs: "zs = [a, b, c, e, f, g, h]"
    by (cases "(pool, conf, ops, va, zs)" rule: kni_setup.cases) auto
  show "\<forall>q \<in> {kn_tx_q kni, kn_rx_q kni, kn_alloc_q kni, kn_free_q kni, kn_req_q kni, kn_resp_q kni}.
      kni_fifo_inv q \<and> kni_fifo_list q = [] \<and> kni_fifo_room q = 1023"
    using assms(1) z unfolding zs by (auto simp: bind_eq_Some_conv)
  show "kn_name kni = take 15 (kc_name conf)" "kn_pktmbuf_pool kni = pool"
    using assms(1) unfolding zs by (auto simp: bind_eq_Some_conv RTE_KNI_NAMESIZE_def)
qed

lemma kni_reserve_seq_from:
  "kni_reserve_seq rs ns got zones = (Some zs, zones') \<Longrightarrow>
     z \<in> set zs \<Longrightarrow> z \<in> set got \<or> (\<exists>n y. rs n = Some y \<and> z = y\<lparr>kz_name := n\<rparr>)"
proof (induction ns arbitrary: got zones)
  case Nil
  then show ?case by simp
next
  case (Cons n ns)
  then show ?case by (fastforce split: option.splits dest: Cons.IH)
qed

text \<open>The refill at the end of the creation touches nothing of the interface but one queue.\<close>

lemma kni_allocate_mbufs_frame:
  "kni_allocate_mbufs kni w = Some (kni', w') \<Longrightarrow> \<exists>q. kni' = kni\<lparr>kn_alloc_q := q\<rparr>"
  by (auto simp: kni_allocate_mbufs_def Let_def bind_eq_Some_conv split: if_splits prod.splits
      intro: exI [of _ "kn_alloc_q kni"])

lemma kni_find_fresh:
  "kni_find name h as = Some NULL \<Longrightarrow> NULL \<notin> set as \<Longrightarrow> a \<in> set as \<Longrightarrow>
     \<exists>k. h a = Some k \<and> take 16 (kn_name k) \<noteq> take 16 name"
  by (induction as) (auto simp: bind_eq_Some_conv RTE_KNI_NAMESIZE_def split: if_splits)

text \<open>
  When \<open>rte_kni_alloc\<close> returns an interface, the device was open, no interface had that
  name, exactly its seven zones have been added, it is registered last, and its queues are
  empty and well-formed with room for 1023 entries (but for the allocation queue, which has
  been filled from the pool).
\<close>

theorem kni_alloc_creates:
  assumes "rte_kni_alloc env pool (Some conf) ops s = Some (k, s')" "k \<noteq> NULL" "NULL \<notin> set (kw_list s)"
    and "\<And>n z. ke_reserve env n = Some z \<Longrightarrow> 1024 \<le> length (kf_buffer (kz_memory z))"
  shows "0 \<le> kw_fd s \<and> (\<forall>a \<in> set (kw_list s). \<exists>o'. kw_kni s a = Some o' \<and> take 16 (kn_name o') \<noteq> take 16 (kc_name conf)) \<and>
    kw_list s' = kw_list s @ [k] \<and> kw_zones s' = rev (kni_zone_names (take 15 (kc_name conf))) @ kw_zones s \<and>
    (\<exists>kni. kw_kni s' k = Some kni \<and> kn_name kni = take 15 (kc_name conf) \<and> kn_pktmbuf_pool kni = pool \<and>
      (\<forall>q \<in> {kn_tx_q kni, kn_rx_q kni, kn_free_q kni, kn_req_q kni, kn_resp_q kni}.
         kni_fifo_inv q \<and> kni_fifo_list q = [] \<and> kni_fifo_room q = 1023))"
proof -
  from assms(1,2) obtain zs zones kni d kni' w where
    a: "\<not> kw_fd s < 0" "kni_find (kc_name conf) (kw_kni s) (kw_list s) = Some NULL"
      "kni_reserve_mz (ke_reserve env) (take 15 (kc_name conf)) (kw_zones s) = (Some zs, zones)"
      "kni_setup pool conf ops (ke_iova_va env) zs = Some (kni, d)"
      "kni_allocate_mbufs kni (kw_mbufs s) = Some (kni', w)"
      "s' = s\<lparr>kw_zones := zones, kw_list := kw_list s @ [k], kw_kni := (kw_kni s)(k \<mapsto> kni'), kw_mbufs := w\<rparr>"
    by (auto simp: rte_kni_alloc_def bind_eq_Some_conv RTE_KNI_NAMESIZE_def split: option.splits prod.splits if_splits)
  have buf: "1024 \<le> length (kf_buffer (kz_memory z))" if "z \<in> set zs" for z
    using kni_reserve_seq_from [of "ke_reserve env" _ "[]"] a(3) that assms(4) by (fastforce simp: kni_reserve_mz_def)
  note q = kni_setup_queues [OF a(4) buf]
  from kni_allocate_mbufs_frame [OF a(5)] obtain al where k': "kni' = kni\<lparr>kn_alloc_q := al\<rparr>" by blast
  have "zones = rev (kni_zone_names (take 15 (kc_name conf))) @ kw_zones s"
    using kni_reserve_seq_Some [of "ke_reserve env" _ "[]"] a(3) by (simp add: kni_reserve_mz_def)
  moreover have "\<exists>o'. kw_kni s x = Some o' \<and> take 16 (kn_name o') \<noteq> take 16 (kc_name conf)" if "x \<in> set (kw_list s)" for x
    by (rule kni_find_fresh [OF a(2) assms(3) that])
  ultimately show ?thesis using a(1,6) q k' by auto
qed

abbreviation ring_mapped :: "addr rte_ring mbuf_world \<Rightarrow> addr rte_ring rte_mempool \<Rightarrow> bool" where
  "ring_mapped \<equiv> mempool_driver.mapped_pool ring_bag"

abbreviation ring_takes where
  "ring_takes env i \<equiv> mempool_driver.takes (ring_mode env i) (ring_rts (i = 4)) ring_bag ring_room"

abbreviation ring_gives where
  "ring_gives env i \<equiv> mempool_driver.gives (ring_mode env i) (ring_rts (i = 4)) ring_bag ring_room"

lemma mapped_pool7: "ring_mapped world0 pool7"
  by (simp add: mempool_driver.mapped_pool_def [OF ring_mode_driver, of 0] pool7_bag) (simp add: mbuf_at_def world0_def)

lemma refill0:
  assumes "kni_fifo_inv (kn_alloc_q kni)" "kn_pktmbuf_pool kni = 0x900"
  shows "\<exists>as q w' mp'. kni_allocate_mbufs kni world0 = Some (kni\<lparr>kn_alloc_q := q\<rparr>, w') \<and> kni_fifo_inv q \<and>
    kni_fifo_list q = kni_fifo_list (kn_alloc_q kni) @ map (pa_of world0) as \<and>
    ring_takes no_env 0 world0 0x900 pool7 as w' mp'"
  using mempool_driver.kni_allocate_mbufs_ok [OF ring_mode_driver, of 0 kni "0x900" world0 pool7 no_env]
    assms pool7_ok mapped_pool7 world0_pool by simp

lemma kni0_fields:
  "kc_name kni_conf0 = ''vEth0''" "ke_te (kni_env0 io b)" "ke_kni (kni_env0 io b) = 0xA000"
  "ke_iova_va (kni_env0 io b)" "ke_ioctl (kni_env0 io b) fd d = io"
  "kw_fd (kni_world0 fd) = fd" "kw_list (kni_world0 fd) = []" "kw_zones (kni_world0 fd) = [''MP_p'']"
  "kw_mbufs (kni_world0 fd) = world0"
  by (simp_all add: kni_conf0_def kni_env0_def kni_world0_def)

theorem kni_alloc_creates_witness:
  "\<exists>s'. rte_kni_alloc (kni_env0 0 False) 0x900 (Some kni_conf0) None (kni_world0 7) = Some (0xA000, s') \<and>
    kw_list s' = [0xA000] \<and> kw_zones s' = rev (kni_zone_names ''vEth0'') @ [''MP_p''] \<and>
    (\<exists>kni. kw_kni s' 0xA000 = Some kni \<and> kn_name kni = ''vEth0'' \<and> kn_pktmbuf_pool kni = 0x900 \<and>
      (\<forall>q \<in> {kn_tx_q kni, kn_rx_q kni, kn_free_q kni, kn_req_q kni, kn_resp_q kni}.
         kni_fifo_inv q \<and> kni_fifo_list q = [] \<and> kni_fifo_room q = 1023))"
proof -
  have mz: "\<exists>zs zones. kni_reserve_mz (ke_reserve (kni_env0 0 False)) ''vEth0'' [''MP_p''] = (Some zs, zones) \<and> length zs = 7"
    by (simp add: kni_reserve_mz_def kni_zone_names_def kni_env0_def)
  then obtain zs zones where zs: "kni_reserve_mz (ke_reserve (kni_env0 0 False)) ''vEth0'' [''MP_p''] = (Some zs, zones)" "length zs = 7"
    by blast
  have r1024: "\<And>n z. ke_reserve (kni_env0 0 False) n = Some z \<Longrightarrow> 1024 \<le> length (kf_buffer (kz_memory z))"
    by (auto simp: kni_env0_def)
  from zs(2) obtain a b c e f g h where zs7: "zs = [a, b, c, e, f, g, h]"
    by (auto simp: eval_nat_numeral length_Suc_conv)
  have fz: "fifo_of_zone z = Some ((kz_memory z)\<lparr>kf_write := 0, kf_read := 0, kf_len := 1024, kf_elem_size := 8\<rparr>)" for z
    by (simp add: fifo_of_zone_def kni_fifo_init_def KNI_FIFO_COUNT_MAX_def)
  from zs7 fz obtain kni d where kni: "kni_setup 0x900 kni_conf0 None True zs = Some (kni, d)" by simp
  have buf: "1024 \<le> length (kf_buffer (kz_memory z))" if "z \<in> set zs" for z
    using kni_reserve_seq_from [of "ke_reserve (kni_env0 0 False)" _ "[]"] zs(1) that r1024
    by (fastforce simp: kni_reserve_mz_def)
  from kni_setup_queues [OF kni buf] refill0 [of kni] obtain kni' w where
    "kni_allocate_mbufs kni world0 = Some (kni', w)" by auto
  with kni zs obtain s' where s':
    "rte_kni_alloc (kni_env0 0 False) 0x900 (Some kni_conf0) None (kni_world0 7) = Some (0xA000, s')"
    by (simp add: rte_kni_alloc_def kni0_fields RTE_KNI_NAMESIZE_def)
  from kni_alloc_creates [OF s' _ _ r1024] s' show ?thesis
    by (auto simp: kni_world0_def kni_conf0_def)
qed

section \<open>Bursts\<close>

text \<open>
  C34: a transmission to the kernel takes the first packets for which the receive queue has
  room and enqueues them in order by physical address, each whole: every segment of the chain
  leads to the physical address of the next one and the last one to nothing (\<open>pa_linked\<close>),
  and nothing but these links is written. The others stay with the caller. Up to 32 packets
  the kernel is done with go back to the pool, every segment once.
\<close>

theorem kni_tx_burst_delivers:
  assumes "i < 6" "ring_pool_ok env i mp" "mw_ops w = ring_ops_table env" "mw_pools w P = Some mp"
    and "kni_fifo_inv (kn_rx_q kni)" "kni_fifo_inv (kn_free_q kni)" "unat num \<le> length ms"
    and "k = min (unat num) (kni_fifo_room (kn_rx_q kni))" "chains w (take k ms) sss"
    and "chains w (take 32 (kni_fifo_list (kn_free_q kni))) xss" "all_sole w P xss"
    and "set (concat sss) \<inter> set (concat xss) = {}"
    and "size (pool_bag ring_bag mp) + length (concat xss) \<le> pool_cap ring_bag ring_room mp"
  shows "\<exists>kni' v w' mp'. rte_kni_tx_burst kni ms num w = Some (of_nat k, kni', w') \<and>
    kni_fifo_inv (kn_rx_q kni') \<and> kni_fifo_inv (kn_free_q kni') \<and>
    kni_fifo_list (kn_rx_q kni') = kni_fifo_list (kn_rx_q kni) @ map (pa_of w) (take k ms) \<and>
    kni_fifo_list (kn_free_q kni') = drop 32 (kni_fifo_list (kn_free_q kni)) \<and>
    relinked (set (concat sss)) w v \<and> list_all (pa_linked w v) sss \<and> ring_gives env i v P mp (concat xss) w' mp'"
  using mempool_driver.rte_kni_tx_burst_ok [OF ring_mode_driver [OF assms(1)] assms(5-7) _ assms(10-12) assms(4) _ assms(13)]
    assms(2,3,8,9) by auto

theorem kni_tx_burst_delivers_witness:
  "\<exists>kni' v w' mp'. rte_kni_tx_burst (kni0 [0x7000]) [0x5000] 1 world0 = Some (of_nat 1, kni', w') \<and>
    kni_fifo_inv (kn_rx_q kni') \<and> kni_fifo_inv (kn_free_q kni') \<and>
    kni_fifo_list (kn_rx_q kni') = kni_fifo_list (kn_rx_q (kni0 [0x7000])) @ map (pa_of world0) (take 1 [0x5000]) \<and>
    kni_fifo_list (kn_free_q kni') = drop 32 (kni_fifo_list (kn_free_q (kni0 [0x7000]))) \<and>
    relinked (set (concat [[0x5000, 0x6000]])) world0 v \<and> list_all (pa_linked world0 v) [[0x5000, 0x6000]] \<and>
    ring_gives no_env 0 v 0x900 pool7 (concat [[0x7000]]) w' mp'"
proof (rule kni_tx_burst_delivers)
  show "1 = min (unat (1 :: u32)) (kni_fifo_room (kn_rx_q (kni0 [0x7000])))" by (simp add: kni0_def fifo8_ok)
  show "chains world0 (take 1 [0x5000]) [[0x5000, 0x6000]]" using world0_chain by simp
  show "chains world0 (take 32 (kni_fifo_list (kn_free_q (kni0 [0x7000])))) [[0x7000]]"
    by (simp add: kni0_def fifo8_ok world0_mbufs sample_direct)
  show "all_sole world0 0x900 [[0x7000]]" using world0_chain by (simp add: all_sole_def)
  show "ring_pool_ok no_env 0 pool7" by (rule pool7_ok)
qed (simp_all add: world0_pool kni0_def fifo_wrap_ok fifo8_ok pool7_bag)

text \<open>
  The refill of the allocation queue moves buffers, and loses none: those that leave the
  pool are exactly those the queue gets (by physical address, reset), at most as many as it
  has room for.
\<close>

theorem kni_refill_moves:
  assumes "i < 6" "ring_pool_ok env i mp" "mw_ops w = ring_ops_table env" "mw_pools w (kn_pktmbuf_pool kni) = Some mp"
    and "kn_pktmbuf_pool kni \<noteq> NULL" "kni_fifo_inv (kn_alloc_q kni)" "ring_mapped w mp"
  shows "\<exists>as q w' mp'. kni_allocate_mbufs kni w = Some (kni\<lparr>kn_alloc_q := q\<rparr>, w') \<and> kni_fifo_inv q \<and>
    kni_fifo_list q = kni_fifo_list (kn_alloc_q kni) @ map (pa_of w) as \<and>
    ring_takes env i w (kn_pktmbuf_pool kni) mp as w' mp'"
  using mempool_driver.kni_allocate_mbufs_ok [OF ring_mode_driver [OF assms(1)] assms(6) refl assms(5,4) _ assms(7)] assms(2,3)
  by simp

theorem kni_refill_moves_witness:
  "\<exists>as q w' mp'. kni_allocate_mbufs (kni0 []) world0 = Some ((kni0 [])\<lparr>kn_alloc_q := q\<rparr>, w') \<and> kni_fifo_inv q \<and>
    kni_fifo_list q = kni_fifo_list (kn_alloc_q (kni0 [])) @ map (pa_of world0) as \<and>
    ring_takes no_env 0 world0 (kn_pktmbuf_pool (kni0 [])) pool7 as w' mp'"
  by (rule kni_refill_moves [of 0]) (use pool7_ok world0_pool mapped_pool7 in \<open>simp_all add: kni0_def fifo8_ok\<close>)

section \<open>Release of an interface\<close>

text \<open>
  C37: \<open>rte_kni_release\<close> frees what is in three of the queues, but not the packets the
  kernel has not taken from the receive queue: with the other queues empty it succeeds and
  forgets the interface without touching a single buffer, whatever is left in \<open>rx_q\<close> after
  the five rounds of waiting.
\<close>

theorem kni_release_keeps_rx_packets:
  assumes "kni \<in> set (kw_list s)" "kni \<noteq> NULL" "kw_kni s kni = Some k"
    and "0 \<le> ioctl_release (take 15 (kn_name k))"
    and "mw_pools (kw_mbufs s) (kn_pktmbuf_pool k) = Some mp"
    and "\<And>q. q \<in> {kn_alloc_q k, kn_tx_q k, kn_free_q k} \<Longrightarrow> kni_fifo_inv q \<and> kni_fifo_list q = []"
  shows "\<exists>s'. rte_kni_release ioctl_release kern kni s = Some (0, s') \<and> kw_mbufs s' = kw_mbufs s \<and> kw_kni s' kni = None"
  by (rule rte_kni_release_rxq_kept [where ioctl_release = ioctl_release and k = k and mp = mp]) (use assms in blast)+

theorem kni_release_keeps_rx_packets_witness:
  "kni_fifo_list (kn_rx_q (kni0 [])) = [10, 20, 30] \<and>
   (\<exists>s'. rte_kni_release (\<lambda>_. 0) (\<lambda>q. q) 0xA000
        ((kni_world0 7)\<lparr>kw_list := [0xA000], kw_kni := [0xA000 \<mapsto> kni0 []]\<rparr>) = Some (0, s') \<and>
      kw_mbufs s' = kw_mbufs ((kni_world0 7)\<lparr>kw_list := [0xA000], kw_kni := [0xA000 \<mapsto> kni0 []]\<rparr>) \<and> kw_kni s' 0xA000 = None)"
proof
  show "kni_fifo_list (kn_rx_q (kni0 [])) = [10, 20, 30]" by (simp add: kni0_def fifo_wrap_ok)
  show "\<exists>s'. rte_kni_release (\<lambda>_. 0) (\<lambda>q. q) 0xA000
        ((kni_world0 7)\<lparr>kw_list := [0xA000], kw_kni := [0xA000 \<mapsto> kni0 []]\<rparr>) = Some (0, s') \<and>
      kw_mbufs s' = kw_mbufs ((kni_world0 7)\<lparr>kw_list := [0xA000], kw_kni := [0xA000 \<mapsto> kni0 []]\<rparr>) \<and> kw_kni s' 0xA000 = None"
    by (rule kni_release_keeps_rx_packets [where k = "kni0 []" and mp = pool7])
       (auto simp: kni_world0_def kni0_def fifo8_ok world0_pool)
qed

end
