(* ===== verification/App_Properties.thy ===== *)
theory App_Properties
  imports App_Frames App_Options Kni_Properties
begin

text \<open>
  The properties of the filter itself: from the command line to the rules, from a frame in a
  buffer to the decision, and what a burst does. \<open>app0\<close> is the state of the program with one
  rule and a TUN device, over the buffers of \<open>world1\<close>.
\<close>

section \<open>The command line\<close>

text \<open>A rule as a user writes it: kind, address, port.\<close>

definition rule_text :: "bool \<times> u32 \<times> nat \<Rightarrow> string list" where
  "rule_text r = (case r of (dst, ip, port) \<Rightarrow>
     [if dst then ''-d'' else ''--src'', inet_ntop ip @ '':'' @ show_nat port])"

definition rule_arg_of :: "bool \<times> u32 \<times> nat \<Rightarrow> rule_arg" where
  "rule_arg_of r = (case r of (dst, ip, port) \<Rightarrow> (if dst then 0 else 1, ip, htons (of_nat port)))"

lemma getopt_long_rule:
  "getopt_long (rule_text (dst, ip, port) @ as) =
     (if dst then CHR ''d'' else CHR ''s'', inet_ntop ip @ '':'' @ show_nat port) # getopt_long as"
  by (cases dst) (simp_all add: rule_text_def long_match_def long_options_def)

lemma getopt_long_rules:
  "getopt_long (concat (map rule_text rs)) =
     map (\<lambda>(dst, ip, port). (if dst then CHR ''d'' else CHR ''s'', inet_ntop ip @ '':'' @ show_nat port)) rs"
proof (induction rs)
  case Nil
  then show ?case by simp
next
  case (Cons r rs)
  obtain dst ip port where "r = (dst, ip, port)" by (cases r) auto
  with Cons show ?case using getopt_long_rule [of dst ip port "concat (map rule_text rs)"] by (cases dst) simp_all
qed

lemma parse_options_rules:
  assumes "length (ac_rule_args cfg) + length rs \<le> MAX_FILTER_RULES"
    and "\<forall>(dst, ip, port) \<in> set rs. 0 < port \<and> port < 2 ^ 16"
  shows "parse_options (map (\<lambda>(dst, ip, port). (if dst then CHR ''d'' else CHR ''s'', inet_ntop ip @ '':'' @ show_nat port)) rs) cfg =
    Inr (cfg\<lparr>ac_rule_args := ac_rule_args cfg @ map rule_arg_of rs\<rparr>)"
  using assms
proof (induction rs arbitrary: cfg)
  case Nil
  then show ?case by simp
next
  case (Cons r rs)
  obtain dst ip port where r: "r = (dst, ip, port)" by (cases r) auto
  have p: "0 < port" "port < 2 ^ 16" and l: "length (ac_rule_args cfg) < MAX_FILTER_RULES" using Cons.prems r by auto
  from Cons.IH [of "cfg\<lparr>ac_rule_args := ac_rule_args cfg @ [rule_arg_of r]\<rparr>"] Cons.prems
  show ?case
    using parse_rule_show [OF l p, of _ ip] r by (cases dst) (simp_all add: rule_arg_of_def)
qed

text \<open>
  C2: a command line that names an interface and up to 64 rules in the documented form
  (\<open>-d IP:port\<close> or \<open>--src IP:port\<close>, port 1 to 65535) is accepted, and the rules that the
  program then installs select exactly the packets whose destination, for a destination
  rule, or source, for a source rule, is one of the addresses and ports given.
\<close>

theorem command_line_rules_select:
  assumes "rs \<noteq> []" "length rs \<le> MAX_FILTER_RULES" "\<forall>(dst, ip, port) \<in> set rs. 0 < port \<and> port < 2 ^ 16"
  shows "\<exists>cfg. parse_command_line ([''-f'', ifname] @ concat (map rule_text rs)) = Inr cfg \<and>
    ac_forward_ifname cfg = Some ifname \<and>
    (\<forall>s d sp dp. match_filter_rule (fst (add_filter_rules (\<lambda>_. True) 0 (ac_rule_args cfg) [])) s d (htons sp) (htons dp) \<longleftrightarrow>
      (\<exists>(dst, ip, port) \<in> set rs. if dst then ip = d \<and> port = unat dp else ip = s \<and> port = unat sp))"
proof -
  let ?cfg = "app_config_init\<lparr>ac_forward_ifname := Some ifname, ac_rule_args := map rule_arg_of rs\<rparr>"
  have "getopt_long ([''-f'', ifname] @ concat (map rule_text rs)) = (CHR ''f'', ifname) # getopt_long (concat (map rule_text rs))"
    by simp
  moreover have "parse_options (getopt_long (concat (map rule_text rs))) (app_config_init\<lparr>ac_forward_ifname := Some ifname\<rparr>) = Inr ?cfg"
    unfolding getopt_long_rules using assms(2,3) by (subst parse_options_rules) (simp_all add: app_config_init_def)
  ultimately have p: "parse_command_line ([''-f'', ifname] @ concat (map rule_text rs)) = Inr ?cfg"
    using assms(1) by (simp add: parse_command_line_def)
  have keys: "map fr_key (fst (add_filter_rules (\<lambda>_. True) 0 (ac_rule_args ?cfg) [])) = rev (map arg_key (map rule_arg_of rs))"
    by (subst add_filter_rules_all) simp_all
  have port: "htons (of_nat p) = htons q \<longleftrightarrow> p = unat q" if "p < 2 ^ 16" for p and q :: u16
  proof -
    have "htons (of_nat p) = htons q \<longleftrightarrow> (of_nat p :: u16) = q" by (metis ntohs_htons(1))
    then show ?thesis using that by (simp add: word_unat_eq_iff unat_of_nat)
  qed
  have "match_filter_rule (fst (add_filter_rules (\<lambda>_. True) 0 (ac_rule_args ?cfg) [])) s d (htons sp) (htons dp) \<longleftrightarrow>
      (\<exists>(dst, ip, port) \<in> set rs. if dst then ip = d \<and> port = unat dp else ip = s \<and> port = unat sp)" for s d sp dp
  proof -
    have "(\<exists>rule \<in> set (fst (add_filter_rules (\<lambda>_. True) 0 (ac_rule_args ?cfg) [])).
        rule_selects (fr_key rule) s d (htons sp) (htons dp)) \<longleftrightarrow>
      (\<exists>k \<in> set (map fr_key (fst (add_filter_rules (\<lambda>_. True) 0 (ac_rule_args ?cfg) []))). rule_selects k s d (htons sp) (htons dp))"
      by simp
    also have "\<dots> \<longleftrightarrow> (\<exists>r \<in> set rs. rule_selects (arg_key (rule_arg_of r)) s d (htons sp) (htons dp))"
      unfolding keys by simp
    also have "\<dots> \<longleftrightarrow> (\<exists>(dst, ip, port) \<in> set rs. if dst then ip = d \<and> port = unat dp else ip = s \<and> port = unat sp)"
    proof (rule bex_cong [OF refl])
      fix r assume "r \<in> set rs"
      then show "rule_selects (arg_key (rule_arg_of r)) s d (htons sp) (htons dp) =
          (case r of (dst, ip, port) \<Rightarrow> if dst then ip = d \<and> port = unat dp else ip = s \<and> port = unat sp)"
        using assms(3) by (auto simp: rule_selects_def arg_key_def rule_arg_of_def port split: prod.split)
    qed
    finally show ?thesis by (simp add: match_filter_rule_iff)
  qed
  with p show ?thesis by (intro exI [of _ ?cfg]) simp
qed

theorem command_line_rules_select_witness:
  "\<exists>cfg. parse_command_line ([''-f'', ''tun0''] @ concat (map rule_text [(True, 0x0100000A, 80), (False, 0x0200000A, 53)])) = Inr cfg \<and>
    ac_forward_ifname cfg = Some ''tun0'' \<and>
    (\<forall>s d sp dp. match_filter_rule (fst (add_filter_rules (\<lambda>_. True) 0 (ac_rule_args cfg) [])) s d (htons sp) (htons dp) \<longleftrightarrow>
      (\<exists>(dst, ip, port) \<in> set [(True, 0x0100000A, 80), (False, 0x0200000A, 53)].
         if dst then ip = d \<and> port = unat dp else ip = s \<and> port = unat sp))"
  by (rule command_line_rules_select) (simp_all add: MAX_FILTER_RULES_def)

text \<open>
  Whatever the command line, a configuration that is accepted has a forward interface
  and between one and 64 rules, each of one of the two kinds and with a port other than 0.
\<close>

lemma command_line_bounds:
  assumes "parse_command_line args = Inr cfg"
  shows "config_ok cfg \<and> ac_forward_ifname cfg \<noteq> None \<and> ac_rule_args cfg \<noteq> []"
proof -
  have "config_ok app_config_init" by (simp add: config_ok_def app_config_init_def)
  with assms parse_options_ok [of "getopt_long args" app_config_init] show ?thesis
    by (auto simp: parse_command_line_def split: sum.splits if_splits)
qed

lemma command_line_bounds_example:
  "\<exists>cfg. parse_command_line [''--forw=tun0'', ''-i3'', ''-d'', ''10.0.0.1:80''] = Inr cfg \<and> config_ok cfg \<and>
    ac_forward_ifname cfg \<noteq> None \<and> ac_rule_args cfg \<noteq> []"
proof -
  have "\<not> isl (parse_command_line [''--forw=tun0'', ''-i3'', ''-d'', ''10.0.0.1:80''])" by code_simp
  then obtain cfg where "parse_command_line [''--forw=tun0'', ''-i3'', ''-d'', ''10.0.0.1:80''] = Inr cfg"
    by (cases "parse_command_line [''--forw=tun0'', ''-i3'', ''-d'', ''10.0.0.1:80'']") auto
  then show ?thesis using command_line_bounds by blast
qed

text \<open>
  The port number of \<open>-i\<close> is cut to 16 bits without a check, and what follows its digits
  is ignored: any number below \<open>2 ^ 31\<close> is accepted, and 65536 more selects the same port.
\<close>

lemma port_option_wraps:
  assumes "n < 2 ^ 31" "rest = [] \<or> \<not> is_digit (hd rest)"
  shows "parse_options [(CHR ''i'', show_nat n @ rest)] cfg = Inr (cfg\<lparr>ac_port_id := of_nat (n mod 2 ^ 16)\<rparr>)"
proof -
  have "(of_nat n :: u16) = of_nat (n mod 2 ^ 16)" by (simp add: word_unat_eq_iff unat_of_nat)
  with assms atoi_show_nat [of n rest] show ?thesis by simp
qed

lemma port_option_wraps_example:
  "parse_options [(CHR ''i'', show_nat 65537 @ ''x'')] app_config_init = Inr (app_config_init\<lparr>ac_port_id := of_nat (65537 mod 2 ^ 16)\<rparr>)"
  by (rule port_option_wraps) (simp_all add: is_digit_def)

section \<open>Frames\<close>

text \<open>
  C11: what the program does with a frame whose fields are laid out as IPv4 over Ethernet
  (options of the IP header included) with a TCP or UDP header, whatever follows the frame in
  the buffer: if some rule of the list names its destination (a destination rule) or its source
  (a source rule), address and port, the packet is forwarded and its buffer released; if no
  rule does, it takes the way to the kernel interface.
\<close>

theorem frame_handled_by_rules:
  assumes "frame_ok f" "pkt_view (as_mbufs g) m = Some (frame_bytes f @ pad)"
  shows "process_packet env m g =
    (if \<exists>rule \<in> set (as_filter_rules g). let k = fr_key rule in
        if fk_rule_type k = 0 then fk_ip k = fm_dst f \<and> ntohs (fk_port k) = fm_dport f
        else fk_ip k = fm_src f \<and> ntohs (fk_port k) = fm_sport f
     then Option.bind (forward_packet env m g) (free_packet m)
     else send_to_kni m g)"
proof -
  have n: "(x = htons y) = (ntohs x = y)" for x y by (metis ntohs_htons)
  have "match_filter_rule (as_filter_rules g) (fm_src f) (fm_dst f) (htons (fm_sport f)) (htons (fm_dport f)) \<longleftrightarrow>
    (\<exists>rule \<in> set (as_filter_rules g). let k = fr_key rule in
        if fk_rule_type k = 0 then fk_ip k = fm_dst f \<and> ntohs (fk_port k) = fm_dport f
        else fk_ip k = fm_src f \<and> ntohs (fk_port k) = fm_sport f)"
    by (simp add: match_filter_rule_iff rule_selects_def n Let_def)
  then show ?thesis by (simp add: process_packet_def classify_frame [OF assms])
qed

definition frame0 :: ipv4_frame where
  "frame0 = \<lparr>fm_macs = replicate 12 2, fm_version_ihl = 0x45, fm_tos = 0, fm_total_length = 32, fm_id_frag = replicate 4 0,
     fm_ttl = 64, fm_proto = 17, fm_cksum = [0, 0], fm_src = 0x0200000A, fm_dst = 0x0100000A, fm_options = [],
     fm_sport = 5000, fm_dport = 80, fm_rest = replicate 8 7\<rparr>"

text \<open>The same frame with a total length of eight bytes too many.\<close>

definition long0 :: ipv4_frame where
  "long0 = frame0\<lparr>fm_total_length := 40\<rparr>"

definition world1 :: "ipv4_frame \<Rightarrow> addr rte_ring mbuf_world" where
  "world1 f = world0\<lparr>mw_bytes := [0x7080 \<mapsto> replicate 128 0 @ frame_bytes f @ replicate 2000 0xEE]\<rparr>"

lemma frame0_ok: "frame_ok frame0" "frame_ok long0"
  "unat (fm_total_length frame0) = length (ip_bytes frame0)" "unat (fm_total_length long0) = length (ip_bytes long0) + 8"
  "length (frame_bytes long0) = 46"
  by code_simp+

lemma world1_view: "pkt_view (world1 f) 0x7000 = Some (frame_bytes f @ replicate 2000 0xEE)"
proof -
  have "mbuf_at (world1 f) 0x7000 = Some (sample_mbuf 0x7000 0 50)"
    using world0_mbufs by (simp add: world1_def mbuf_at_def)
  then show ?thesis by (simp add: pkt_view_def sample_mbuf_def world1_def)
qed

lemma rd_after_ether:
  assumes "frame_ok f" "pkt_view w m = Some (frame_bytes f @ pad)" "k \<le> length pad"
  shows "rd_bytes w m sizeof_ether_hdr (length (ip_bytes f) + k) = Some (ip_bytes f @ take k pad)"
proof -
  have "length (fm_macs f) = 12" using assms(1) by (simp add: frame_ok_def)
  then show ?thesis
    using assms(2,3) by (subst rd_bytes_view [OF assms(2)])
      (simp add: frame_bytes_def be16_bytes_def sizeof_ether_hdr_def)
qed

lemma total_length_frame:
  assumes "frame_ok f" "pkt_view w m = Some (frame_bytes f @ pad)"
  shows "ip_total_length w m = Some (htons (fm_total_length f))"
proof -
  have "length (fm_macs f) = 12" using assms(1) by (simp add: frame_ok_def)
  then have "rd_bytes w m 16 2 = Some (be16_bytes (fm_total_length f))"
    by (intro rd_bytes_at [of w m "fm_macs f @ be16_bytes 0x0800 @ [fm_version_ihl f, fm_tos f]" _
        "drop 4 (ip_bytes f) @ pad"])
       (use assms(2) in \<open>simp_all add: frame_bytes_def ip_bytes_def be16_bytes_def\<close>)
  then show ?thesis by (simp add: ip_total_length_def rd16_def sizeof_ether_hdr_def be16_bytes_def be16_read)
qed

text \<open>
  C36: a packet for the TUN device is written to it in one call, as its IP packet without the
  Ethernet header, by the length in the IP header: exactly the IP packet if that length is
  right, and if it is too large, the bytes that follow the frame in the buffer as well. The
  length of the data the card received (\<open>data_len\<close>) plays no part. The packet counts as
  forwarded if the call does not fail, however many bytes it wrote.
\<close>

theorem tun_write_of_frame:
  assumes "frame_ok f" "pkt_view (as_mbufs g) m = Some (frame_bytes f @ pad)"
    and "as_forward_ifname g = Some (''tun'' @ suffix)" "0 \<le> as_tun_fd g"
    and "unat (fm_total_length f) = length (ip_bytes f) + k" "k \<le> length pad"
    and "ae_write env (as_hw g) (as_tun_fd g) (ip_bytes f @ take k pad) = (n, h)"
  shows "forward_to_tun env m g = Some (if n < 0 then - 1 else 0,
      g\<lparr>as_hw := h, as_out := as_out g @ [Tun_Write (as_tun_fd g) (ip_bytes f @ take k pad)]\<rparr>) \<and>
    forward_packet env m g = Some
      (g\<lparr>as_hw := h, as_out := as_out g @ [Tun_Write (as_tun_fd g) (ip_bytes f @ take k pad)],
         as_forwarded_packets := as_forwarded_packets g + (if n < 0 then 0 else 1)\<rparr>)"
proof -
  have t: "forward_to_tun env m g = Some (if n < 0 then - 1 else 0,
      g\<lparr>as_hw := h, as_out := as_out g @ [Tun_Write (as_tun_fd g) (ip_bytes f @ take k pad)]\<rparr>)"
    using rd_after_ether [OF assms(1,2,6)] total_length_frame [OF assms(1,2)] assms(4,5,7)
    by (simp add: forward_to_tun_def)
  then show ?thesis using assms(3) by (simp add: forward_packet_def strneq_def)
qed

definition app0 :: "ipv4_frame \<Rightarrow> (addr rte_ring, nat) app_state" where
  "app0 f = \<lparr>as_force_quit = False, as_filter_rules = [\<lparr>fr_key = arg_key (0, 0x0100000A, htons 80), fr_action = 1\<rparr>],
     as_port_id = 0, as_forward_ifname = Some ''tun0'', as_tun_fd = 4, as_raw_sock = - 1, as_kni = NULL,
     as_total_packets = 0, as_forwarded_packets = 0, as_kni_packets = 0,
     as_kw = (kni_world0 (- 1))\<lparr>kw_mbufs := world1 f\<rparr>, as_hw = 0, as_out = []\<rparr>"

definition env0 :: "(addr rte_ring, nat) app_env" where
  "env0 = \<lparr>ae_fp_ops = (\<lambda>_. Some \<lparr>fp_rx_pkt_burst = (\<lambda>h q t n w. if h = 0 then Some (1, t[0 := 0x7000], w, 1) else Some (0, t, w, h)),
       fp_rxq_data = [0], fp_tx_pkt_burst = (\<lambda>h q t n w. Some (0, w, h)), fp_txq_data = [0]\<rparr>),
     ae_write = (\<lambda>h fd bs. (int (length bs), h + 1)), ae_sendto = (\<lambda>h fd i bs. (int (length bs), h + 1)),
     ae_if_nametoindex = (\<lambda>_. 2), ae_slot = 0xF000\<rparr>"

text \<open>The packet of \<open>world1\<close> goes to port 80 of the one rule of \<open>app0\<close>.\<close>

theorem frame_handled_by_rules_witness:
  "process_packet env0 0x7000 (app0 frame0) = Option.bind (forward_packet env0 0x7000 (app0 frame0)) (free_packet 0x7000)"
  by (subst frame_handled_by_rules [OF frame0_ok(1), where pad = "replicate 2000 0xEE"])
     (use world1_view in \<open>simp_all add: app0_def arg_key_def frame0_def\<close>)

theorem tun_write_of_frame_witness:
  "\<exists>g'. forward_to_tun env0 0x7000 (app0 long0) = Some (0, g') \<and> as_out g' = [Tun_Write 4 (ip_bytes long0 @ replicate 8 0xEE)]"
proof -
  have v: "pkt_view (as_mbufs (app0 long0)) 0x7000 = Some (frame_bytes long0 @ replicate 2000 0xEE)"
    using world1_view by (simp add: app0_def)
  obtain n h where w: "ae_write env0 (as_hw (app0 long0)) (as_tun_fd (app0 long0)) (ip_bytes long0 @ take 8 (replicate 2000 0xEE)) = (n, h)"
    by (metis surj_pair)
  then have "0 \<le> n" by (auto simp: env0_def)
  moreover have "as_tun_fd (app0 long0) = 4" "as_out (app0 long0) = []" by (simp_all add: app0_def)
  ultimately show ?thesis
    using tun_write_of_frame [OF frame0_ok(2) v _ _ _ _ w, of "''0''"] frame0_ok
    by (simp add: app0_def numeral_eq_Suc)
qed

section \<open>A round of the loop\<close>

text \<open>
  C1: a round of the packet loop without a kernel interface: it returns, every packet of the
  burst is sent once if it is selected (and the device is open) and not at all otherwise, in
  the order of the burst; every segment of every packet goes back to the pool exactly once;
  all packets are counted, and of the forwarded ones at most those that were sent. The
  headers of the packets, and what is sent of them, lie inside their buffers.
\<close>

theorem lcore_round_forwards:
  assumes "i < 6" "as_kni g = NULL" "rte_eth_rx_burst env (as_port_id g) 0 bufs 32 g = Some (nb, ms @ rest, h)"
    and "length ms = unat nb" "list_all (readable env h) ms"
    and "chains (as_mbufs h) ms xss" "all_sole (as_mbufs h) P xss"
    and "mw_pools (as_mbufs h) P = Some mp" "ring_pool_ok e i mp" "mw_ops (as_mbufs h) = ring_ops_table e"
    and "size (pool_bag ring_bag mp) + length (concat xss) \<le> pool_cap ring_bag ring_room mp"
  shows "\<exists>g' mp' c. lcore_iter env bufs g = Some g' \<and> ring_gives e i (as_mbufs h) P mp (concat xss) (as_mbufs g') mp' \<and>
    as_out g' = as_out g @ concat (map (packet_events env h) ms) \<and>
    as_total_packets g' = as_total_packets g + ucast nb \<and> as_kni_packets g' = as_kni_packets g \<and>
    as_forwarded_packets g' = as_forwarded_packets g + of_nat c \<and>
    c \<le> length (concat (map (packet_events env h) ms)) \<and> same_app g g'"
proof -
  let ?h = "h\<lparr>as_total_packets := as_total_packets h + ucast nb\<rparr>"
  have f: "as_out h = as_out g" "as_total_packets h = as_total_packets g" "as_kni_packets h = as_kni_packets g"
    "as_forwarded_packets h = as_forwarded_packets g" "same_app g h"
    using assms(3) by (auto simp: rte_eth_rx_burst_def bind_eq_Some_conv set_mbufs_def same_app_def)
  have same: "same_app h ?h" by (simp add: same_app_def)
  have r: "readable env ?h = readable env h" "packet_events env ?h = packet_events env h"
    by (rule ext, rule readable_cong packet_events_cong, simp_all add: same)+
  have "\<exists>g' mp' c. process_burst env ms ?h = Some g' \<and> ring_gives e i (as_mbufs ?h) P mp (concat xss) (as_mbufs g') mp' \<and>
    same_app ?h g' \<and> as_total_packets g' = as_total_packets ?h \<and> as_kni_packets g' = as_kni_packets ?h \<and>
    as_out g' = as_out ?h @ concat (map (packet_events env ?h) ms) \<and>
    as_forwarded_packets g' = as_forwarded_packets ?h + of_nat c \<and> c \<le> length (concat (map (packet_events env ?h) ms))"
    using assms f r by (intro mempool_driver.process_burst_no_kni [OF ring_mode_driver [OF assms(1)]]) (simp_all add: same_app_def)
  then obtain g' mp' c where g': "process_burst env ms ?h = Some g'" "ring_gives e i (as_mbufs h) P mp (concat xss) (as_mbufs g') mp'"
    "same_app ?h g'" "as_total_packets g' = as_total_packets g + ucast nb" "as_kni_packets g' = as_kni_packets g"
    "as_out g' = as_out g @ concat (map (packet_events env h) ms)" "as_forwarded_packets g' = as_forwarded_packets g + of_nat c"
    "c \<le> length (concat (map (packet_events env h) ms))" using f r by auto
  have it: "lcore_iter env bufs g = (if nb = 0 then Some h else process_burst env ms ?h)"
    using assms(2,3,4) by (simp add: lcore_iter_def BURST_SIZE_def)
  show ?thesis
  proof (cases "nb = 0")
    case True
    then have "ms = []" using assms(4) by simp
    with True it g' have "g' = ?h" "lcore_iter env bufs g = Some h" "?h = h" by simp_all
    with g' same_app_trans [OF f(5) same] show ?thesis by auto
  next
    case False
    with it g' same_app_trans [OF f(5)] same_app_trans [OF same] show ?thesis by auto
  qed
qed

definition after_rx0 :: "(addr rte_ring, nat) app_state" where
  "after_rx0 = (set_mbufs (app0 frame0) (world1 frame0))\<lparr>as_hw := 1\<rparr>"

lemma world1_fields:
  "mbuf_at (world1 f) = mbuf_at world0" "mw_pools (world1 f) = mw_pools world0" "mw_ops (world1 f) = mw_ops world0"
  "sole_direct (world1 f) P a = sole_direct world0 P a"
  by (simp_all add: world1_def mbuf_at_def fun_eq_iff sole_direct_def)

lemma app0_readable:
  "readable env0 after_rx0 0x7000" "packet_events env0 after_rx0 0x7000 = [Tun_Write 4 (ip_bytes frame0)]"
proof -
  have c: "classify (world1 frame0) 0x7000 = Some (Flow (fm_src frame0) (fm_dst frame0) (htons (fm_sport frame0)) (htons (fm_dport frame0)))"
    by (rule classify_frame [OF frame0_ok(1) world1_view])
  have e: "forward_event env0 after_rx0 0x7000 = Some (Some (Tun_Write 4 (ip_bytes frame0)))"
    using tun_bytes_frame [OF frame0_ok(1) world1_view frame0_ok(3)]
    by (simp add: after_rx0_def app0_def set_mbufs_def forward_event_def strneq_def)
  have s: "selected (as_filter_rules after_rx0) (as_mbufs after_rx0) 0x7000"
    using c by (simp add: selected_def after_rx0_def app0_def set_mbufs_def rule_selects_def arg_key_def frame0_def)
  show "readable env0 after_rx0 0x7000" using c e by (simp add: readable_def) (simp add: after_rx0_def)
  show "packet_events env0 after_rx0 0x7000 = [Tun_Write 4 (ip_bytes frame0)]" using e s by (simp add: packet_events_def)
qed

lemma app0_rx:
  "rte_eth_rx_burst env0 (as_port_id (app0 frame0)) 0 (replicate 32 0) 32 (app0 frame0) =
     Some (1, [0x7000] @ replicate 31 0, after_rx0)"
  by (simp add: rte_eth_rx_burst_def env0_def app0_def after_rx0_def ld_def numeral_eq_Suc set_mbufs_def)

lemma app0_chain: "chains (as_mbufs after_rx0) [0x7000] [[0x7000]]" "all_sole (as_mbufs after_rx0) 0x900 [[0x7000]]"
  using world0_chain world0_mbufs by (simp_all add: after_rx0_def world1_fields sample_direct all_sole_def)

lemma app0_round: "\<exists>g'. lcore_iter env0 (replicate 32 0) (app0 frame0) = Some g'"
proof -
  let ?h = "after_rx0\<lparr>as_total_packets := as_total_packets after_rx0 + 1\<rparr>"
  have "same_app after_rx0 ?h" by (simp add: same_app_def)
  then have r: "readable env0 ?h 0x7000" using app0_readable(1) readable_cong [of ?h "0x7000" after_rx0 env0] by simp
  have "\<exists>g' mp' c. process_burst env0 [0x7000] ?h = Some g' \<and>
    ring_gives no_env 0 (as_mbufs ?h) 0x900 pool7 (concat [[0x7000]]) (as_mbufs g') mp' \<and>
    same_app ?h g' \<and> as_total_packets g' = as_total_packets ?h \<and> as_kni_packets g' = as_kni_packets ?h \<and>
    as_out g' = as_out ?h @ concat (map (packet_events env0 ?h) [0x7000]) \<and>
    as_forwarded_packets g' = as_forwarded_packets ?h + of_nat c \<and> c \<le> length (concat (map (packet_events env0 ?h) [0x7000]))"
    by (intro mempool_driver.process_burst_no_kni [OF ring_mode_driver])
       (use r app0_chain pool7_ok world0_pool in \<open>simp_all add: after_rx0_def world1_fields pool7_bag set_mbufs_def app0_def\<close>)
  then obtain g' where "process_burst env0 [0x7000] ?h = Some g'" by blast
  then show ?thesis
    using app0_rx by (intro exI [of _ g']) (simp add: lcore_iter_def BURST_SIZE_def, simp add: app0_def)
qed

theorem lcore_round_forwards_witness:
  "\<exists>g'. lcore_iter env0 (replicate 32 0) (app0 frame0) = Some g' \<and> as_out g' = [Tun_Write 4 (ip_bytes frame0)] \<and>
    as_total_packets g' = 1"
proof -
  note rx = app0_rx and ch = app0_chain
  have "\<exists>g' mp' c. lcore_iter env0 (replicate 32 0) (app0 frame0) = Some g' \<and>
    ring_gives no_env 0 (as_mbufs after_rx0) 0x900 pool7 (concat [[0x7000]]) (as_mbufs g') mp' \<and>
    as_out g' = as_out (app0 frame0) @ concat (map (packet_events env0 after_rx0) [0x7000]) \<and>
    as_total_packets g' = as_total_packets (app0 frame0) + ucast (1 :: u16) \<and> as_kni_packets g' = as_kni_packets (app0 frame0) \<and>
    as_forwarded_packets g' = as_forwarded_packets (app0 frame0) + of_nat c \<and>
    c \<le> length (concat (map (packet_events env0 after_rx0) [0x7000])) \<and> same_app (app0 frame0) g'"
    by (rule lcore_round_forwards [OF _ _ rx _ _ ch])
       (use pool7_ok app0_readable world0_pool in \<open>simp_all add: app0_def after_rx0_def world1_fields pool7_bag set_mbufs_def\<close>)
  then show ?thesis using app0_readable by (auto simp: app0_def)
qed

text \<open>
  C39: A packet no rule selects is handed to the kernel interface if there is one: it is the
  last of the receive queue, its segments linked by physical address, and counted, if the
  queue had room, and otherwise every segment of it goes back to the pool; packets the kernel
  has returned go back to the pool in either case, and nothing is sent.
\<close>

theorem unselected_goes_to_kernel:
  assumes "i < 6" "as_kni g \<noteq> NULL" "kw_kni (as_kw g) (as_kni g) = Some k" "m \<noteq> NULL"
    and "classify (as_mbufs g) m = Some c"
    and "case c of Flow s d sp dp \<Rightarrow> \<not> match_filter_rule (as_filter_rules g) s d sp dp | _ \<Rightarrow> True"
    and "kni_fifo_inv (kn_rx_q k)" "kni_fifo_inv (kn_free_q k)"
    and "seg_chain (mbuf_at (as_mbufs g)) m xs" "distinct xs" "list_all (sole_direct (as_mbufs g) P) xs"
    and "chains (as_mbufs g) (take 32 (kni_fifo_list (kn_free_q k))) yss" "all_sole (as_mbufs g) P yss"
    and "set xs \<inter> set (concat yss) = {}"
    and "mw_pools (as_mbufs g) P = Some mp" "ring_pool_ok e i mp" "mw_ops (as_mbufs g) = ring_ops_table e"
    and "size (pool_bag ring_bag mp) + length (concat yss) + length xs \<le> pool_cap ring_bag ring_room mp"
  shows "\<exists>g' k' mp' v. process_packet env m g = Some g' \<and> same_app g g' \<and> as_out g' = as_out g \<and>
    as_total_packets g' = as_total_packets g \<and> as_forwarded_packets g' = as_forwarded_packets g \<and>
    kw_kni (as_kw g') (as_kni g) = Some k' \<and>
    (if kni_fifo_room (kn_rx_q k) = 0
     then as_kni_packets g' = as_kni_packets g \<and> kni_fifo_list (kn_rx_q k') = kni_fifo_list (kn_rx_q k) \<and>
       ring_gives e i (as_mbufs g) P mp (concat yss @ xs) (as_mbufs g') mp'
     else as_kni_packets g' = as_kni_packets g + 1 \<and>
       kni_fifo_list (kn_rx_q k') = kni_fifo_list (kn_rx_q k) @ [pa_of (as_mbufs g) m] \<and>
       relinked (set xs) (as_mbufs g) v \<and> pa_linked (as_mbufs g) v xs \<and> ring_gives e i v P mp (concat yss) (as_mbufs g') mp')"
proof -
  have "process_packet env m g = send_to_kni m g"
    using assms(5,6) by (simp add: process_packet_def split: pkt_class.splits)
  then show ?thesis
    using mempool_driver.send_to_kni_ok [OF ring_mode_driver [OF assms(1)] assms(2-4,7-15) _ assms(18), of e] assms(16,17)
    by simp
qed

text \<open>A frame to another port, and an interface in the state.\<close>

definition other0 :: ipv4_frame where
  "other0 = frame0\<lparr>fm_dport := 81\<rparr>"

definition app_kni0 :: "(addr rte_ring, nat) app_state" where
  "app_kni0 = (app0 other0)\<lparr>as_kni := 0xA000,
     as_kw := (kni_world0 7)\<lparr>kw_list := [0xA000], kw_kni := [0xA000 \<mapsto> kni0 []], kw_mbufs := world1 other0\<rparr>\<rparr>"

lemma other0_class:
  "classify (as_mbufs app_kni0) 0x7000 = Some (Flow (fm_src other0) (fm_dst other0) (htons (fm_sport other0)) (htons (fm_dport other0)))"
  "\<not> match_filter_rule (as_filter_rules app_kni0) (fm_src other0) (fm_dst other0) (htons (fm_sport other0)) (htons (fm_dport other0))"
proof -
  have ok: "frame_ok other0" by code_simp
  show "classify (as_mbufs app_kni0) 0x7000 =
      Some (Flow (fm_src other0) (fm_dst other0) (htons (fm_sport other0)) (htons (fm_dport other0)))"
    unfolding app_kni0_def by simp (rule classify_frame [OF ok world1_view])
  have "htons 80 \<noteq> htons 81" by code_simp
  then show "\<not> match_filter_rule (as_filter_rules app_kni0) (fm_src other0) (fm_dst other0) (htons (fm_sport other0)) (htons (fm_dport other0))"
    by (simp add: app_kni0_def app0_def arg_key_def other0_def)
qed

theorem unselected_goes_to_kernel_witness:
  "\<exists>g'. process_packet env0 0x7000 app_kni0 = Some g' \<and> as_kni_packets g' = 1 \<and> as_out g' = []"
proof -
  have f: "as_kni app_kni0 = 0xA000" "kw_kni (as_kw app_kni0) 0xA000 = Some (kni0 [])" "as_mbufs app_kni0 = world1 other0"
    by (simp_all add: app_kni0_def)
  have q: "kni_fifo_inv (kn_rx_q (kni0 []))" "kni_fifo_inv (kn_free_q (kni0 []))" "kni_fifo_list (kn_free_q (kni0 [])) = []"
    "kni_fifo_room (kn_rx_q (kni0 [])) \<noteq> 0"
    by (simp_all add: kni0_def fifo8_ok fifo_wrap_ok)
  have "\<exists>g' k' mp' v. process_packet env0 0x7000 app_kni0 = Some g' \<and> same_app app_kni0 g' \<and> as_out g' = as_out app_kni0 \<and>
    as_total_packets g' = as_total_packets app_kni0 \<and> as_forwarded_packets g' = as_forwarded_packets app_kni0 \<and>
    kw_kni (as_kw g') (as_kni app_kni0) = Some k' \<and>
    (if kni_fifo_room (kn_rx_q (kni0 [])) = 0
     then as_kni_packets g' = as_kni_packets app_kni0 \<and> kni_fifo_list (kn_rx_q k') = kni_fifo_list (kn_rx_q (kni0 [])) \<and>
       ring_gives no_env 0 (as_mbufs app_kni0) 0x900 pool7 (concat [] @ [0x7000]) (as_mbufs g') mp'
     else as_kni_packets g' = as_kni_packets app_kni0 + 1 \<and>
       kni_fifo_list (kn_rx_q k') = kni_fifo_list (kn_rx_q (kni0 [])) @ [pa_of (as_mbufs app_kni0) 0x7000] \<and>
       relinked (set [0x7000]) (as_mbufs app_kni0) v \<and> pa_linked (as_mbufs app_kni0) v [0x7000] \<and>
         ring_gives no_env 0 v 0x900 pool7 (concat []) (as_mbufs g') mp')"
    by (rule unselected_goes_to_kernel [OF _ _ _ _ other0_class(1)])
       (use pool7_ok world0_pool world0_chain world0_mbufs other0_class q in
         \<open>simp_all add: f world1_fields sample_direct pool7_bag all_sole_def\<close>)
  then show ?thesis using q(4) by (auto simp: app_kni0_def app0_def)
qed

section \<open>Executions\<close>

text \<open>
  C33: over any execution of the loop in which the card gives \<open>n\<close> packets in all, whatever the
  card, the kernel and the system do and however signals fall: \<open>total_packets\<close> has grown by
  \<open>n\<close>; the packets sent and the packets handed to the kernel together are at most \<open>n\<close>, so
  none is sent twice, handed over twice, or both; \<open>forwarded_packets\<close> never counts a packet
  that was not sent; and rules, port and devices stay as they are. (The counters are 64 bits
  wide.)
\<close>

theorem counters_account_for_packets:
  assumes "lcore_run env g n g'"
  shows "as_total_packets g' = as_total_packets g + of_nat n \<and> same_app g g' \<and>
    (\<exists>f k evs. as_forwarded_packets g' = as_forwarded_packets g + of_nat f \<and> as_kni_packets g' = as_kni_packets g + of_nat k \<and>
       as_out g' = as_out g @ evs \<and> f \<le> length evs \<and> length evs + k \<le> n)"
  using lcore_run_progress [OF assms] unfolding progress_def by blast

text \<open>One round, with one packet for the TUN device.\<close>

theorem counters_account_for_packets_witness:
  "\<exists>g'. lcore_run env0 (app0 frame0) 1 g' \<and> as_total_packets g' = 1 \<and> same_app (app0 frame0) g' \<and>
    (\<exists>f k evs. as_forwarded_packets g' = of_nat f \<and> as_kni_packets g' = of_nat k \<and> as_out g' = evs \<and>
       f \<le> length evs \<and> length evs + k \<le> 1)"
proof -
  obtain g' where g': "lcore_iter env0 (replicate 32 0) (app0 frame0) = Some g'" using app0_round by blast
  have "lcore_received env0 (replicate 32 0) (app0 frame0) = Some 1"
    using app0_rx by (simp add: lcore_received_def app0_def BURST_SIZE_def)
  from lcore_run.round [OF lcore_run.start _ _ this g'] have r: "lcore_run env0 (app0 frame0) 1 g'"
    by (simp add: app0_def BURST_SIZE_def)
  from counters_account_for_packets [OF this] r show ?thesis
    by (intro exI [of _ g']) (simp add: app0_def)
qed

text \<open>
  C40: the handler of packets from the kernel has no defined behaviour as soon as the card
  does not take the packet: it then releases the address of its local variable instead of the
  packet, and that is no packet buffer.
\<close>

theorem kni_drop_is_undefined:
  assumes "kw_kni (as_kw g) (as_kni g) = Some k"
    and "rte_kni_rx_burst k [NULL] 1 (as_mbufs g) = Some (1, table, k', w)"
    and "rte_eth_tx_burst env (as_port_id g) 0 table 1 (set_kni g k' w) = Some (0, h)"
    and "mbuf_at (as_mbufs h) (ae_slot env) = None" "ae_slot env \<noteq> NULL"
  shows "kni_request_handler env g = None"
proof -
  have "as_port_id (set_kni g k' w) = as_port_id g" by (simp add: set_kni_def)
  moreover have "free_packet (ae_slot env) h = None"
    using assms(4,5) by (simp add: free_packet_def rte_pktmbuf_free.simps)
  ultimately show ?thesis using assms(1-3) by (simp add: kni_request_handler_def unat_1 numeral_eq_Suc)
qed

text \<open>A packet waits in the queue from the kernel, and the card takes none.\<close>

definition kni_waiting :: rte_kni where
  "kni_waiting = (kni0 [])\<lparr>kn_tx_q := fifo8 [0x7000], kn_pktmbuf_pool := NULL\<rparr>"

definition app_waiting :: "(addr rte_ring, nat) app_state" where
  "app_waiting = (app0 frame0)\<lparr>as_kni := 0xA000,
     as_kw := (kni_world0 7)\<lparr>kw_list := [0xA000], kw_kni := [0xA000 \<mapsto> kni_waiting], kw_mbufs := world0\<rparr>\<rparr>"

theorem kni_drop_is_undefined_witness: "kni_request_handler env0 app_waiting = None"
proof (rule kni_drop_is_undefined)
  let ?q = "fifo8 [0x7000]\<lparr>kf_read := 1\<rparr>" and ?k = "kni_waiting\<lparr>kn_tx_q := fifo8 [0x7000]\<lparr>kf_read := 1\<rparr>\<rparr>"
  have g: "kni_fifo_get (fifo8 [0x7000]) [NULL] 1 = Some (1, [0x7000], ?q)" by code_simp
  show "kw_kni (as_kw app_waiting) (as_kni app_waiting) = Some kni_waiting" by (simp add: app_waiting_def)
  show "rte_kni_rx_burst kni_waiting [NULL] 1 (as_mbufs app_waiting) = Some (1, [0x7000], ?k, world0)"
    using g by (simp add: rte_kni_rx_burst_def kni_waiting_def kni_allocate_mbufs_def app_waiting_def)
  show "rte_eth_tx_burst env0 (as_port_id app_waiting) 0 [0x7000] 1 (set_kni app_waiting ?k world0) =
      Some (0, (set_mbufs (set_kni app_waiting ?k world0) world0)\<lparr>as_hw := as_hw app_waiting\<rparr>)"
    by (simp add: rte_eth_tx_burst_def env0_def ld_def)
qed (simp_all add: env0_def mbuf_at_def, simp add: world0_def)

end
