(* ===== verification/Ethdev_Flags.thy ===== *)
theory Ethdev_Flags
  imports Ethdev_Queues
begin

text \<open>
  What the calls on a port leave alone: the other ports, the callbacks, the fast path and, by
  the contract of drivers stated here, the two flags by which ethdev knows whether a device is
  configured and started. The relation \<open>keeps\<close> is shown for every helper; the calls then change
  the flags only where their own code does.
\<close>

section \<open>The contract of a driver\<close>

text \<open>
  What the drivers in the tree do with the two flags. None of them writes \<open>dev_configured\<close>.
  \<open>dev_started\<close> is cleared by most \<open>dev_stop\<close> callbacks (\<open>i40e_dev_stop\<close>, \<open>ixgbe_dev_stop\<close>,
  \<open>virtio_dev_stop\<close>), once by a configuration (\<open>lio_reconf_queues\<close>), and set by some \<open>dev_start\<close>
  callbacks, which clear it again if they fail (\<open>bond_ethdev_start\<close>, \<open>mlx5_dev_start\<close>); the
  other callbacks called below do not write it. So: configuration and stop of a device that is
  not marked as started do not mark it, nor does a start that fails. A callback acts on its own
  device and returns before the next call: the bonding driver, which also calls ethdev for its
  slaves, and recovery threads that stop and start a device by themselves are outside the model.
\<close>

definition cb_keeps :: "('b, 'h) eth_callback \<Rightarrow> bool" where
  "cb_keeps cb \<longleftrightarrow>
     (\<forall>d h. let d' = fst (snd (cb d h))
            in ed_dev_started (dv_data d') = ed_dev_started (dv_data d)
             \<and> ed_dev_configured (dv_data d') = ed_dev_configured (dv_data d))"

definition cb_stays_down :: "('b, 'h) eth_callback \<Rightarrow> bool" where
  "cb_stays_down cb \<longleftrightarrow>
     (\<forall>d h. let d' = fst (snd (cb d h))
            in (\<not> ed_dev_started (dv_data d) \<longrightarrow> \<not> ed_dev_started (dv_data d'))
             \<and> ed_dev_configured (dv_data d') = ed_dev_configured (dv_data d))"

definition cb_starts :: "('b, 'h) eth_callback \<Rightarrow> bool" where
  "cb_starts cb \<longleftrightarrow>
     (\<forall>d h. let (ret, d', _) = cb d h
            in (ret \<noteq> 0 \<and> \<not> ed_dev_started (dv_data d) \<longrightarrow> \<not> ed_dev_started (dv_data d'))
             \<and> ed_dev_configured (dv_data d') = ed_dev_configured (dv_data d))"

definition driver_contract :: "('b, 'h) eth_dev_ops \<Rightarrow> bool" where
  "driver_contract ops \<longleftrightarrow>
     pred_option cb_stays_down (do_dev_configure ops) \<and> pred_option cb_starts (do_dev_start ops)
   \<and> pred_option cb_stays_down (do_dev_stop ops) \<and> pred_option cb_keeps (do_link_update ops)
   \<and> pred_option cb_keeps (do_promiscuous_enable ops) \<and> pred_option cb_keeps (do_promiscuous_disable ops)
   \<and> pred_option cb_keeps (do_allmulticast_enable ops) \<and> pred_option cb_keeps (do_allmulticast_disable ops)
   \<and> pred_option (\<lambda>f. \<forall>a. cb_keeps (f a)) (do_mac_addr_set ops)
   \<and> pred_option (\<lambda>f. \<forall>a i p. cb_keeps (f a i p)) (do_mac_addr_add ops)
   \<and> pred_option (\<lambda>f. \<forall>q n s c m. cb_keeps (f q n s c m)) (do_rx_queue_setup ops)
   \<and> pred_option (\<lambda>f. \<forall>q n s c. cb_keeps (f q n s c)) (do_tx_queue_setup ops)
   \<and> pred_option (\<lambda>f. \<forall>q. cb_keeps (f q)) (do_rx_queue_release ops)
   \<and> pred_option (\<lambda>f. \<forall>q. cb_keeps (f q)) (do_tx_queue_release ops)"

text \<open>Everything but the device of one port, and its flags.\<close>

definition frame :: "u16 \<Rightarrow> ('b, 'h) eth_world \<Rightarrow> ('b, 'h) eth_world \<Rightarrow> bool" where
  "frame p w w' \<longleftrightarrow>
     ew_ops w' = ew_ops w \<and> length (ew_fp_ops w') = length (ew_fp_ops w)
   \<and> length (ew_devices w') = length (ew_devices w)
   \<and> (\<forall>q. q \<noteq> p \<longrightarrow> dev_of w' q = dev_of w q \<and> ew_fp_ops w' ! unat q = ew_fp_ops w ! unat q)"

definition keeps :: "u16 \<Rightarrow> ('b, 'h) eth_world \<Rightarrow> ('b, 'h) eth_world \<Rightarrow> bool" where
  "keeps p w w' \<longleftrightarrow>
     frame p w w' \<and> ew_fp_ops w' = ew_fp_ops w
   \<and> ed_dev_started (data_of w' p) = ed_dev_started (data_of w p)
   \<and> ed_dev_configured (data_of w' p) = ed_dev_configured (data_of w p)"

lemma frame_refl [simp]: "frame p w w" by (simp add: frame_def)
lemma keeps_refl [simp]: "keeps p w w" by (simp add: keeps_def)

lemma frame_trans: "frame p w w' \<Longrightarrow> frame p w' w'' \<Longrightarrow> frame p w w''" by (auto simp: frame_def)
lemma keeps_trans: "keeps p w w' \<Longrightarrow> keeps p w' w'' \<Longrightarrow> keeps p w w''"
  unfolding keeps_def using frame_trans by fastforce

lemma keeps_ops: "keeps p w w' \<Longrightarrow> ew_ops w' = ew_ops w" by (simp add: keeps_def frame_def)

lemma dev_of_set_dev:
  "dev_of (set_dev w p d) q = (if q = p \<and> unat p < length (ew_devices w) then d else dev_of w q)"
  by (auto simp: dev_of_def set_dev_def nth_list_update list_update_beyond simp flip: word_unat_eq_iff)

lemma data_of_upd [simp]:
  "data_of (upd_data w p f) q = (if q = p \<and> unat p < length (ew_devices w) then f (data_of w p) else data_of w q)"
  by (simp add: upd_data_def dev_of_set_dev)

lemma length_devices_simps [simp]:
  "length (ew_devices (set_dev w p d)) = length (ew_devices w)"
  "length (ew_devices (upd_data w p f)) = length (ew_devices w)"
  by (simp_all add: set_dev_def upd_data_def)

lemma ew_ops_simps [simp]: "ew_ops (set_dev w p d) = ew_ops w" "ew_ops (upd_data w p f) = ew_ops w"
  "ew_fp_ops (set_dev w p d) = ew_fp_ops w" "ew_fp_ops (upd_data w p f) = ew_fp_ops w"
  by (simp_all add: set_dev_def upd_data_def)

lemma frame_set_dev [simp]: "frame p w (set_dev w p d)"
  by (auto simp: frame_def dev_of_set_dev)

lemma frame_upd [simp]: "frame p w (upd_data w p f)"
  by (simp add: upd_data_def)

lemma keeps_set_dev:
  "ed_dev_started (dv_data d) = ed_dev_started (data_of w p) \<Longrightarrow>
   ed_dev_configured (dv_data d) = ed_dev_configured (data_of w p) \<Longrightarrow> keeps p w (set_dev w p d)"
  by (auto simp: keeps_def dev_of_set_dev)

lemma keeps_upd:
  "ed_dev_started (f (data_of w p)) = ed_dev_started (data_of w p) \<Longrightarrow>
   ed_dev_configured (f (data_of w p)) = ed_dev_configured (data_of w p) \<Longrightarrow> keeps p w (upd_data w p f)"
  by (auto simp: keeps_def)

lemma keeps_hw: "keeps p w (w'\<lparr>ew_hw := h\<rparr>) \<longleftrightarrow> keeps p w w'"
  by (simp add: keeps_def frame_def dev_of_def)

lemma keeps_call:
  assumes "cb_keeps cb"
  shows "keeps p w (snd (call_dev cb p w))"
proof -
  obtain r d h where c: "cb (dev_of w p) (ew_hw w) = (r, d, h)" by (metis surj_pair)
  have "keeps p w (set_dev w p d)"
    using assms c by (intro keeps_set_dev) (simp_all add: cb_keeps_def Let_def, metis fst_conv snd_conv, metis fst_conv snd_conv)
  moreover have "snd (call_dev cb p w) = (set_dev w p d)\<lparr>ew_hw := h\<rparr>" by (simp add: call_dev_def c)
  ultimately show ?thesis by (simp only: keeps_hw)
qed

text \<open>Configuration, stop and a failed start of a device that is not started.\<close>

lemma keeps_call_down:
  assumes "cb_stays_down cb" "\<not> ed_dev_started (data_of w p)"
  shows "keeps p w (snd (call_dev cb p w))"
proof -
  obtain r d h where c: "cb (dev_of w p) (ew_hw w) = (r, d, h)" by (metis surj_pair)
  with assms have "\<not> ed_dev_started (dv_data d) \<and> ed_dev_configured (dv_data d) = ed_dev_configured (data_of w p)"
    unfolding cb_stays_down_def Let_def by (metis fst_conv snd_conv)
  then have "keeps p w (set_dev w p d)" using assms(2) by (intro keeps_set_dev) simp_all
  moreover have "snd (call_dev cb p w) = (set_dev w p d)\<lparr>ew_hw := h\<rparr>" by (simp add: call_dev_def c)
  ultimately show ?thesis by (simp only: keeps_hw)
qed

lemma keeps_call_start:
  assumes "cb_starts cb" "\<not> ed_dev_started (data_of w p)" "call_dev cb p w = (r, w')"
  shows "r \<noteq> 0 \<Longrightarrow> keeps p w w'"
    "ew_fp_ops w' = ew_fp_ops w \<and> ed_dev_configured (data_of w' p) = ed_dev_configured (data_of w p)"
proof -
  obtain d h where c: "cb (dev_of w p) (ew_hw w) = (r, d, h)" and w': "w' = (set_dev w p d)\<lparr>ew_hw := h\<rparr>"
    using assms(3) by (auto simp: call_dev_def split: prod.splits)
  have d: "ed_dev_configured (dv_data d) = ed_dev_configured (data_of w p)" "r \<noteq> 0 \<Longrightarrow> \<not> ed_dev_started (dv_data d)"
    using assms(1,2) c unfolding cb_starts_def by (fastforce split: prod.splits)+
  show "keeps p w w'" if "r \<noteq> 0"
    unfolding w' keeps_hw using d that assms(2) by (intro keeps_set_dev) simp_all
  have "dev_of w' p = dev_of (set_dev w p d) p" by (simp add: w' dev_of_def)
  then show "ew_fp_ops w' = ew_fp_ops w \<and> ed_dev_configured (data_of w' p) = ed_dev_configured (data_of w p)"
    using d(1) by (simp add: w' dev_of_set_dev)
qed

lemma frame_call [simp]: "frame p w (snd (call_dev cb p w))"
proof -
  have "frame p w (set_dev w p (fst (snd (cb (dev_of w p) (ew_hw w)))))" by simp
  then show ?thesis by (auto simp: call_dev_def frame_def dev_of_def split: prod.splits)
qed

lemma keeps_is_removed: "keeps p w (snd (rte_eth_dev_is_removed w p))"
  by (auto simp: rte_eth_dev_is_removed_def Let_def keeps_set_dev split: option.splits)

lemma keeps_eth_err: "keeps p w (snd (eth_err p ret w))"
  using keeps_is_removed [of p w] by (auto simp: eth_err_def split: prod.splits)

lemma keeps_info_get: "keeps p w (snd (snd (rte_eth_dev_info_get w p i)))"
  using keeps_eth_err [of p w]
  by (auto simp: rte_eth_dev_info_get_def Let_def split: option.splits prod.splits) (metis snd_conv)

section \<open>Helpers of the calls\<close>

lemma driver_cb:
  assumes "driver_contract ops"
  shows "do_dev_configure ops = Some a1 \<Longrightarrow> cb_stays_down a1" "do_dev_start ops = Some a1 \<Longrightarrow> cb_starts a1"
    "do_dev_stop ops = Some a1 \<Longrightarrow> cb_stays_down a1" "do_link_update ops = Some a1 \<Longrightarrow> cb_keeps a1"
    "do_promiscuous_enable ops = Some a1 \<Longrightarrow> cb_keeps a1" "do_promiscuous_disable ops = Some a1 \<Longrightarrow> cb_keeps a1"
    "do_allmulticast_enable ops = Some a1 \<Longrightarrow> cb_keeps a1" "do_allmulticast_disable ops = Some a1 \<Longrightarrow> cb_keeps a1"
    "do_mac_addr_set ops = Some a2 \<Longrightarrow> cb_keeps (a2 ea)" "do_mac_addr_add ops = Some a3 \<Longrightarrow> cb_keeps (a3 ea i pool)"
    "do_rx_queue_setup ops = Some a4 \<Longrightarrow> cb_keeps (a4 q n s c m)"
    "do_tx_queue_setup ops = Some a5 \<Longrightarrow> cb_keeps (a5 q n s tc)"
    "do_rx_queue_release ops = Some a6 \<Longrightarrow> cb_keeps (a6 q)" "do_tx_queue_release ops = Some a6 \<Longrightarrow> cb_keeps (a6 q)"
  using assms by (simp_all add: driver_contract_def)

lemma keeps_rxq_release:
  fixes w :: "('b, 'h) eth_world"
  assumes "driver_contract (ops_of w p)"
  shows "keeps p w (eth_dev_rxq_release p q w)"
proof -
  let ?g = "\<lambda>w. upd_data w p (\<lambda>d. d\<lparr>ed_rx_queues := clear_queue (ed_rx_queues d) q\<rparr>)"
  have u: "keeps p w (?g w)" for w :: "('b, 'h) eth_world" by (rule keeps_upd) simp_all
  show ?thesis
  proof (cases "do_rx_queue_release (ops_of w p)")
    case None
    then show ?thesis by (simp add: eth_dev_rxq_release_def u)
  next
    case (Some cb)
    have "keeps p w (?g (snd (call_dev (cb q) p w)))"
      by (rule keeps_trans [OF keeps_call [OF driver_cb(13) [OF assms Some]] u])
    with Some show ?thesis by (simp add: eth_dev_rxq_release_def)
  qed
qed

lemma keeps_txq_release:
  fixes w :: "('b, 'h) eth_world"
  assumes "driver_contract (ops_of w p)"
  shows "keeps p w (eth_dev_txq_release p q w)"
proof -
  let ?g = "\<lambda>w. upd_data w p (\<lambda>d. d\<lparr>ed_tx_queues := clear_queue (ed_tx_queues d) q\<rparr>)"
  have u: "keeps p w (?g w)" for w :: "('b, 'h) eth_world" by (rule keeps_upd) simp_all
  show ?thesis
  proof (cases "do_tx_queue_release (ops_of w p)")
    case None
    then show ?thesis by (simp add: eth_dev_txq_release_def u)
  next
    case (Some cb)
    have "keeps p w (?g (snd (call_dev (cb q) p w)))"
      by (rule keeps_trans [OF keeps_call [OF driver_cb(14) [OF assms Some]] u])
    with Some show ?thesis by (simp add: eth_dev_txq_release_def)
  qed
qed

lemma keeps_fold:
  "(\<And>x w'. x \<in> set xs \<Longrightarrow> ew_ops w' = ew_ops w \<Longrightarrow> keeps p w' (f x w')) \<Longrightarrow> keeps p w (fold f xs w)"
proof (induction xs arbitrary: w)
  case (Cons x xs)
  have k: "keeps p w (f x w)" by (rule Cons.prems) simp_all
  moreover have "keeps p (f x w) (fold f xs (f x w))"
    by (rule Cons.IH) (use Cons.prems keeps_ops [OF k] in auto)
  ultimately show ?case by (auto intro: keeps_trans)
qed simp

lemma keeps_rx_queue_config:
  fixes w :: "('b, 'h) eth_world"
  assumes "driver_contract (ops_of w p)"
  shows "keeps p w (snd (eth_dev_rx_queue_config p n w))"
proof -
  have u: "keeps p w (upd_data w p (\<lambda>d. d\<lparr>ed_nb_rx_queues := m\<rparr>))"
    and v: "keeps p w (upd_data w p (\<lambda>d. d\<lparr>ed_rx_queues := qs\<rparr>))" for w :: "('b, 'h) eth_world" and m qs
    by (rule keeps_upd; simp)+
  have f: "keeps p w (fold (eth_dev_rxq_release p) qs w)" for qs
    by (rule keeps_fold) (use assms in \<open>simp add: keeps_rxq_release\<close>)
  show ?thesis
    unfolding eth_dev_rx_queue_config_def Let_def
    by (cases "ed_rx_queues (data_of w p)")
      (simp_all add: u keeps_trans [OF v u] keeps_trans [OF f u] keeps_trans [OF f keeps_trans [OF v u]])
qed

lemma keeps_tx_queue_config:
  fixes w :: "('b, 'h) eth_world"
  assumes "driver_contract (ops_of w p)"
  shows "keeps p w (snd (eth_dev_tx_queue_config p n w))"
proof -
  have u: "keeps p w (upd_data w p (\<lambda>d. d\<lparr>ed_nb_tx_queues := m\<rparr>))"
    and v: "keeps p w (upd_data w p (\<lambda>d. d\<lparr>ed_tx_queues := qs\<rparr>))" for w :: "('b, 'h) eth_world" and m qs
    by (rule keeps_upd; simp)+
  have f: "keeps p w (fold (eth_dev_txq_release p) qs w)" for qs
    by (rule keeps_fold) (use assms in \<open>simp add: keeps_txq_release\<close>)
  show ?thesis
    unfolding eth_dev_tx_queue_config_def Let_def
    by (cases "ed_tx_queues (data_of w p)")
      (simp_all add: u keeps_trans [OF v u] keeps_trans [OF f u] keeps_trans [OF f keeps_trans [OF v u]])
qed


section \<open>Calls on a port\<close>

lemma keeps_mac_pools:
  "(\<And>i pool. cb_keeps (add addr i pool)) \<Longrightarrow> keeps p w (mac_pools_restore add p addr i m pool w)"
proof (induction add p addr i m pool w rule: mac_pools_restore.induct)
  case (1 add p addr i m pool w)
  let ?w = "if m AND 1 \<noteq> 0 then snd (call_dev (add addr (of_nat i) pool) p w) else w"
  have k: "keeps p w ?w" by (simp add: keeps_call 1(2))
  show ?case
  proof (cases "drop_bit 1 m = 0")
    case True
    with k show ?thesis by (subst mac_pools_restore.simps) (simp add: Let_def)
  next
    case False
    have "keeps p ?w (mac_pools_restore add p addr i (drop_bit 1 m) (pool + 1) ?w)"
      by (rule 1(1)) (use False 1(2) in auto)
    with k have "keeps p w (mac_pools_restore add p addr i (drop_bit 1 m) (pool + 1) ?w)" by (rule keeps_trans)
    with False show ?thesis by (subst mac_pools_restore.simps) (simp only: Let_def if_False)
  qed
qed

lemma keeps_mac_restore:
  fixes w :: "('b, 'h) eth_world"
  assumes d: "driver_contract (ops_of w p)"
  shows "keeps p w (eth_dev_mac_restore p i w)"
proof -
  let ?addr = "ed_mac_addrs (data_of w p) ! 0"
  define w1 where "w1 = (case do_mac_addr_set (ops_of w p) of
                 Some mac_addr_set \<Rightarrow> snd (call_dev (mac_addr_set ?addr) p w)
               | None \<Rightarrow> (case do_mac_addr_add (ops_of w p) of
                     Some mac_addr_add \<Rightarrow> snd (call_dev (mac_addr_add ?addr 0 0) p w) | None \<Rightarrow> w))"
  have k: "keeps p w w1"
    by (simp add: w1_def keeps_call driver_cb(9,10) [OF d] split: option.split)
  note o = keeps_ops [OF k]
  show ?thesis
  proof (cases "do_mac_addr_add (ops_of w p)")
    case None
    with k show ?thesis by (simp add: eth_dev_mac_restore_def Let_def o flip: w1_def)
  next
    case (Some add)
    have "keeps p w1 (fold (\<lambda>i w. let addr = ed_mac_addrs (data_of w p) ! i
                         in if rte_is_zero_ether_addr addr then w
                            else mac_pools_restore add p addr i (ed_mac_pool_sel (data_of w p) ! i) 0 w)
                  [1..<unat (di_max_mac_addrs i)] w1)"
      by (rule keeps_fold) (simp add: Let_def keeps_mac_pools [OF driver_cb(10) [OF d Some]])
    with keeps_trans [OF k this] Some show ?thesis
      unfolding eth_dev_mac_restore_def Let_def w1_def [symmetric] by (simp only: o option.case)
  qed
qed

lemma keeps_replay:
  assumes "pred_option cb_keeps en" "pred_option cb_keeps dis"
  shows "keeps p w (snd (replay_mode m en dis p w))"
proof (cases "if m = 1 \<and> en \<noteq> None then en else if m = 0 \<and> dis \<noteq> None then dis else None")
  case None
  then show ?thesis by (simp add: replay_mode_def)
next
  case (Some cb)
  with assms have "cb_keeps cb" by (auto split: if_splits)
  then have k: "keeps p w (snd (call_dev cb p w))" by (rule keeps_call)
  obtain r w1 where c: "call_dev cb p w = (r, w1)" by (metis surj_pair)
  obtain r' w2 where e: "eth_err p r w1 = (r', w2)" by (metis surj_pair)
  from k keeps_eth_err [of p w1 r] c e have "keeps p w w2" by (auto intro: keeps_trans)
  with Some c e show ?thesis by (simp add: replay_mode_def)
qed

lemma keeps_config_restore:
  fixes w :: "('b, 'h) eth_world"
  assumes d: "driver_contract (ops_of w p)"
  shows "keeps p w (snd (eth_dev_config_restore p i w))"
proof -
  define w1 where "w1 = (if ed_dev_flags (data_of w p) AND RTE_ETH_DEV_NOLIVE_MAC_ADDR = 0
                         then eth_dev_mac_restore p i w else w)"
  have k1: "keeps p w w1" using keeps_mac_restore [OF d] by (simp add: w1_def)
  note o1 = keeps_ops [OF k1]
  obtain r w2 where r: "replay_mode (rte_eth_promiscuous_get w1 p) (do_promiscuous_enable (ops_of w1 p))
      (do_promiscuous_disable (ops_of w1 p)) p w1 = (r, w2)" by (metis surj_pair)
  have "keeps p w1 (snd (replay_mode (rte_eth_promiscuous_get w1 p) (do_promiscuous_enable (ops_of w1 p))
      (do_promiscuous_disable (ops_of w1 p)) p w1))"
    by (rule keeps_replay) (use d in \<open>simp_all add: o1 driver_contract_def\<close>)
  with r have k2: "keeps p w1 w2" by simp
  note o2 = keeps_ops [OF k2]
  have k3: "keeps p w2 (snd (replay_mode m (do_allmulticast_enable (ops_of w2 p))
      (do_allmulticast_disable (ops_of w2 p)) p w2))" for m
    by (rule keeps_replay) (use d in \<open>simp_all add: o1 o2 driver_contract_def\<close>)
  show ?thesis
    unfolding eth_dev_config_restore_def Let_def w1_def [symmetric] r prod.case
    by (simp add: keeps_trans [OF k1 k2] keeps_trans [OF keeps_trans [OF k1 k2] k3])
qed

end
