(* ===== verification/Ethdev_Safety.thy ===== *)
theory Ethdev_Safety
  imports Ethdev_Flags
begin

text \<open>
  The calls on ports as steps, and the invariant that the burst functions of a driver are only
  reachable through the fast path while the device is marked as started.
\<close>

section \<open>Queue set-up and modes leave the flags alone\<close>

lemma keeps_rx_queue_setup:
  fixes w :: "('b, 'h) eth_world"
  assumes d: "driver_contract (ops_of w p)" and s: "rte_eth_rx_queue_setup mw w p q n sid c mp = Some (r, w')"
  shows "keeps p w w'"
proof -
  have drv: "keeps p w1 (snd (rx_queue_to_driver su p q n' sid c' mp sz di w1))"
    if "do_rx_queue_setup (ops_of w p) = Some su" for su n' c' sz di and w1 :: "('b, 'h) eth_world"
  proof -
    note cb = driver_cb(11) [OF d that]
    have u: "keeps p w2 (upd_data w2 p (\<lambda>d. d\<lparr>ed_min_rx_buf_size := sz\<rparr>))"
      and v: "keeps p w2 (upd_data w2 p (\<lambda>d. d\<lparr>ed_dev_conf := f (ed_dev_conf d)\<rparr>))" for f and w2 :: "('b, 'h) eth_world"
      by (rule keeps_upd; simp)+
    have c: "keeps p w2 w3" if "call_dev (su q n' sid c2 mp) p w2 = (r2, w3)" for c2 r2 and w2 w3 :: "('b, 'h) eth_world"
      using keeps_call [OF cb, of p w2 q n' sid c2 mp] that by simp
    show ?thesis
      unfolding rx_queue_to_driver_def Let_def
      by (auto split: prod.split simp: v intro: keeps_trans [OF c keeps_trans [OF u keeps_eth_err]]
          keeps_trans [OF c keeps_eth_err] keeps_trans [OF v keeps_trans [OF c keeps_trans [OF u keeps_eth_err]]]
          keeps_trans [OF v keeps_trans [OF c keeps_eth_err]])
  qed
  obtain r1 di w1 where i: "rte_eth_dev_info_get w p zero_dev_info = (r1, di, w1)" by (metis surj_pair)
  from keeps_info_get [of p w zero_dev_info] i have k: "keeps p w w1" by simp
  note o = keeps_ops [OF k]
  have rel: "keeps p w1 (eth_dev_rxq_release p q w1)" by (rule keeps_rxq_release) (simp add: o d)
  show ?thesis
  proof (cases "w' = w \<or> w' = w1")
    case True
    with k show ?thesis by auto
  next
    case False
    obtain su n' c' sz where "do_rx_queue_setup (ops_of w p) = Some su"
      "rx_queue_to_driver su p q n' sid c' mp sz di (eth_dev_rxq_release p q w1) = (r, w')"
      using s False
      by (auto simp: rte_eth_rx_queue_setup_def i Let_def split: if_splits option.splits bind_splits prod.splits)
    with drv [of su "eth_dev_rxq_release p q w1" n' c' sz di] have "keeps p (eth_dev_rxq_release p q w1) w'"
      by (metis snd_conv)
    with k rel show ?thesis by (auto intro: keeps_trans)
  qed
qed

lemma keeps_tx_queue_setup:
  fixes w :: "('b, 'h) eth_world"
  assumes d: "driver_contract (ops_of w p)" and s: "rte_eth_tx_queue_setup w p q n sid c = Some (r, w')"
  shows "keeps p w w'"
proof -
  obtain r1 di w1 where i: "rte_eth_dev_info_get w p zero_dev_info = (r1, di, w1)" by (metis surj_pair)
  from keeps_info_get [of p w zero_dev_info] i have k: "keeps p w w1" by simp
  note o = keeps_ops [OF k]
  let ?w2 = "eth_dev_txq_release p q w1"
  have rel: "keeps p w1 ?w2" by (rule keeps_txq_release) (simp add: o d)
  show ?thesis
  proof (cases "w' = w \<or> w' = w1 \<or> w' = ?w2")
    case True
    with k rel show ?thesis by (auto intro: keeps_trans)
  next
    case False
    obtain su n' c' r2 w3 where su: "do_tx_queue_setup (ops_of w p) = Some su"
      "call_dev (su q n' sid c') p ?w2 = (r2, w3)" "(r, w') = eth_err p r2 w3"
      using s False
      by (auto simp: rte_eth_tx_queue_setup_def i Let_def split: if_splits option.splits bind_splits prod.splits)
    from keeps_call [OF driver_cb(12) [OF d su(1)], of p ?w2 q n' sid c'] su(2) have "keeps p ?w2 w3" by simp
    moreover from keeps_eth_err [of p w3 r2] su(3) have "keeps p w3 w'" by (metis snd_conv)
    ultimately show ?thesis using k rel by (auto intro: keeps_trans)
  qed
qed

lemma keeps_promiscuous_enable:
  assumes d: "driver_contract (ops_of w p)"
  shows "keeps p w (snd (rte_eth_promiscuous_enable w p))"
proof (cases "do_promiscuous_enable (ops_of w p)")
  case None
  then show ?thesis by (simp add: rte_eth_promiscuous_enable_def)
next
  case (Some en)
  obtain r w1 where c: "call_dev en p w = (r, w1)" by (metis surj_pair)
  from keeps_call [OF driver_cb(5) [OF d Some], of p w] c have "keeps p w w1" by simp
  moreover have "keeps p w1 (upd_data w1 p (\<lambda>d. d\<lparr>ed_promiscuous := (r = 0)\<rparr>))" by (rule keeps_upd) simp_all
  ultimately have "keeps p w (upd_data w1 p (\<lambda>d. d\<lparr>ed_promiscuous := (r = 0)\<rparr>))" by (rule keeps_trans)
  from keeps_trans [OF this keeps_eth_err] show ?thesis
    by (simp add: rte_eth_promiscuous_enable_def Some c Let_def)
qed

section \<open>Configuration\<close>

lemma keeps_reset_queues: "driver_contract (ops_of w p) \<Longrightarrow> keeps p w (configure_reset_queues p w)"
  unfolding configure_reset_queues_def
  by (rule keeps_trans [OF keeps_rx_queue_config keeps_tx_queue_config])
    (simp_all add: keeps_ops [OF keeps_rx_queue_config])

lemma keeps_configure_device:
  fixes w :: "('b, 'h) eth_world"
  assumes d: "driver_contract (ops_of w p)" and cb: "cb_stays_down cb" and ns: "\<not> ed_dev_started (data_of w p)"
  shows "keeps p w (snd (configure_device p cb nr nt c w))"
proof -
  obtain r1 w1 where 1: "eth_dev_rx_queue_config p nr w = (r1, w1)" by (metis surj_pair)
  obtain r2 w2 where 2: "eth_dev_tx_queue_config p nt w1 = (r2, w2)" by (metis surj_pair)
  obtain r3 w3 where 3: "call_dev cb p w2 = (r3, w3)" by (metis surj_pair)
  obtain r4 w4 where 4: "eth_err p r3 w3 = (r4, w4)" by (metis surj_pair)
  from keeps_rx_queue_config [OF d, of nr] 1 have k1: "keeps p w w1" by simp
  with d have d1: "driver_contract (ops_of w1 p)" by (simp add: keeps_ops)
  from keeps_tx_queue_config [OF d1, of nt] 2 k1 have k2: "keeps p w w2" by (auto intro: keeps_trans)
  with d have d2: "driver_contract (ops_of w2 p)" by (simp add: keeps_ops)
  have "\<not> ed_dev_started (data_of w2 p)" using k2 ns by (simp add: keeps_def)
  from keeps_call_down [OF cb this] 3 k2 have k3: "keeps p w w3" by (auto intro: keeps_trans)
  with d have d3: "driver_contract (ops_of w3 p)" by (simp add: keeps_ops)
  from keeps_eth_err [of p w3 r3] 4 k3 have k4: "keeps p w w4" by (auto intro: keeps_trans)
  with d have d4: "driver_contract (ops_of w4 p)" by (simp add: keeps_ops)
  show ?thesis
    by (simp add: configure_device_def 1 2 3 4 Let_def k1 k3 keeps_trans [OF k2 keeps_rx_queue_config [OF d2]]
        keeps_trans [OF k3 keeps_reset_queues [OF d3]] keeps_trans [OF k4 keeps_reset_queues [OF d4]])
qed


text \<open>The checks only ever hand on the structure or update fields other than the flags.\<close>

definition flags :: "rte_eth_dev_data \<Rightarrow> bool \<times> bool" where
  "flags d = (ed_dev_started d, ed_dev_configured d)"

lemma flags_let_data:
  fixes t :: rte_eth_dev_data
  shows "flags t = F \<Longrightarrow> (\<And>x. flags x = F \<Longrightarrow> flags (snd (f x)) = F) \<Longrightarrow> flags (snd (Let t f)) = F"
  by simp

lemma flags_let:
  "(\<And>x :: int. flags (snd (f x)) = F) \<Longrightarrow> flags (snd (Let t f)) = F"
  "(\<And>x :: bool. flags (snd (g x)) = F) \<Longrightarrow> flags (snd (Let u g)) = F"
  "(\<And>x :: u32. flags (snd (h x)) = F) \<Longrightarrow> flags (snd (Let v h)) = F"
  by simp_all

lemma flags_if: "flags (snd x) = F \<Longrightarrow> flags (snd y) = F \<Longrightarrow> flags (snd (if b then x else y)) = F"
  by simp

lemma flags_if_data: "flags x = F \<Longrightarrow> flags y = F \<Longrightarrow> flags (if b then x else y) = F"
  by simp

lemma flags_pair: "flags d = F \<Longrightarrow> flags (snd (r, d)) = F"
  by simp

lemma flags_update:
  "flags d = F \<Longrightarrow> flags (d\<lparr>ed_dev_conf := c\<rparr>) = F"
  "flags d = F \<Longrightarrow> flags (d\<lparr>ed_mtu := m\<rparr>) = F"
  by (simp_all add: flags_def)

lemma configure_check_flags: "flags (snd (configure_check di nr nt c d)) = flags d"
  unfolding configure_check_def
  by (rule flags_if flags_let_data flags_let flags_pair flags_if_data flags_update refl | assumption)+

definition keeps_started :: "u16 \<Rightarrow> ('b, 'h) eth_world \<Rightarrow> ('b, 'h) eth_world \<Rightarrow> bool" where
  "keeps_started p w w' \<longleftrightarrow>
     frame p w w' \<and> ew_fp_ops w' = ew_fp_ops w \<and> ed_dev_started (data_of w' p) = ed_dev_started (data_of w p)"

lemma keeps_started_refl [simp]: "keeps_started p w w" by (simp add: keeps_started_def)

lemma keeps_started_trans: "keeps_started p w w' \<Longrightarrow> keeps_started p w' w'' \<Longrightarrow> keeps_started p w w''"
  unfolding keeps_started_def using frame_trans by fastforce

lemma keeps_imp_started: "keeps p w w' \<Longrightarrow> keeps_started p w w'"
  by (simp add: keeps_def keeps_started_def)

lemma keeps_started_upd:
  "ed_dev_started (f (data_of w p)) = ed_dev_started (data_of w p) \<Longrightarrow> keeps_started p w (upd_data w p f)"
  by (auto simp: keeps_started_def)

lemma keeps_started_rollback: "keeps_started p w (snd (configure_rollback p c m r w))"
  unfolding configure_rollback_def snd_conv by (rule keeps_started_upd) (simp add: Let_def)

lemma keeps_started_configure:
  fixes w :: "('b, 'h) eth_world"
  assumes d: "driver_contract (ops_of w p)"
  shows "keeps_started p w (snd (rte_eth_dev_configure w p nr nt c))"
proof (cases "\<exists>conf cb. rte_eth_dev_is_valid_port w p \<and> c = Some conf \<and> do_dev_configure (ops_of w p) = Some cb
                \<and> \<not> ed_dev_started (data_of w p)")
  case False
  then have "snd (rte_eth_dev_configure w p nr nt c) = w"
    by (auto simp: rte_eth_dev_configure_def split: option.splits)
  then show ?thesis by simp
next
  case True
  then obtain conf cb where c: "rte_eth_dev_is_valid_port w p" "c = Some conf" "do_dev_configure (ops_of w p) = Some cb"
    "\<not> ed_dev_started (data_of w p)" by auto
  define w1 where "w1 = upd_data w p (\<lambda>d. d\<lparr>ed_dev_configured := False\<rparr>)"
  define w2 where "w2 = upd_data w1 p (\<lambda>d. d\<lparr>ed_dev_conf := conf\<rparr>)"
  obtain r di w3 where i: "rte_eth_dev_info_get w2 p zero_dev_info = (r, di, w3)" by (metis surj_pair)
  obtain nr' nt' where n: "configure_numbers di nr nt = (nr', nt')" by (metis surj_pair)
  obtain r4 d4 where ch: "configure_check di nr' nt' conf (data_of w3 p) = (r4, d4)" by (metis surj_pair)
  define w4 where "w4 = upd_data w3 p (\<lambda>_. d4)"
  obtain r5 w5 where dv: "configure_device p cb nr' nt' conf w4 = (r5, w5)" by (metis surj_pair)
  have k2: "keeps_started p w w2" unfolding w2_def w1_def by (rule keeps_started_trans; rule keeps_started_upd; simp)
  have k3: "keeps_started p w w3"
    using keeps_imp_started [OF keeps_info_get [of p w2 zero_dev_info]] k2 i by (auto intro: keeps_started_trans)
  have k4: "keeps_started p w w4"
    unfolding w4_def by (rule keeps_started_trans [OF k3 keeps_started_upd]) (use configure_check_flags [of di nr' nt' conf "data_of w3 p"] ch in \<open>simp add: flags_def\<close>)
  then have d4: "driver_contract (ops_of w4 p)" and n4: "\<not> ed_dev_started (data_of w4 p)"
    using d c(4) by (simp_all add: keeps_started_def frame_def)
  from keeps_imp_started [OF keeps_configure_device [OF d4 driver_cb(1) [OF d c(3)] n4]] dv k4
  have k5: "keeps_started p w w5" by (metis keeps_started_trans snd_conv)
  have k6: "keeps_started p w (upd_data w5 p (\<lambda>d. d\<lparr>ed_dev_configured := True\<rparr>))"
    by (rule keeps_started_trans [OF k5 keeps_started_upd]) simp
  note rb = keeps_started_trans [OF _ keeps_started_rollback]
  show ?thesis
    using c by (simp add: rte_eth_dev_configure_def Let_def i n ch dv k6 rb [OF k3] rb [OF k4] rb [OF k5]
        flip: w1_def w2_def w4_def)
qed

section \<open>Stop and start\<close>

text \<open>Worlds in which a port's fast path is only exposed while the port is marked as started.\<close>

definition fp_safe :: "('b, 'h) eth_world \<Rightarrow> bool" where
  "fp_safe w \<longleftrightarrow> (\<forall>p < RTE_MAX_ETHPORTS. fo_burst (ew_fp_ops w ! unat p) \<noteq> None \<longrightarrow> ed_dev_started (data_of w p))"

text \<open>The tables have an entry for every port, and the driver of a port keeps to the contract.\<close>

definition port_wf :: "u16 \<Rightarrow> ('b, 'h) eth_world \<Rightarrow> bool" where
  "port_wf p w \<longleftrightarrow> length (ew_devices w) = unat RTE_MAX_ETHPORTS \<and> length (ew_fp_ops w) = unat RTE_MAX_ETHPORTS
     \<and> driver_contract (ops_of w p)"

definition eth_wf :: "('b, 'h) eth_world \<Rightarrow> bool" where
  "eth_wf w \<longleftrightarrow> (\<forall>p < RTE_MAX_ETHPORTS. port_wf p w)"

lemma port_wf_frame: "frame p w w' \<Longrightarrow> port_wf q w \<Longrightarrow> port_wf q w'"
  by (simp add: port_wf_def frame_def)

lemma eth_wf_frame: "frame p w w' \<Longrightarrow> eth_wf w \<Longrightarrow> eth_wf w'"
  by (simp add: eth_wf_def port_wf_frame)

lemma port_wf_driver: "port_wf p w \<Longrightarrow> driver_contract (ops_of w p)"
  by (simp add: port_wf_def)

lemma keeps_started_frame: "keeps_started p w w' \<Longrightarrow> frame p w w'" by (simp add: keeps_started_def)

lemma fp_safe_keeps_started:
  assumes "keeps_started p w w'" "fp_safe w"
  shows "fp_safe w'"
  unfolding fp_safe_def
proof (intro allI impI)
  fix q assume "q < RTE_MAX_ETHPORTS" "fo_burst (ew_fp_ops w' ! unat q) \<noteq> None"
  with assms have "ed_dev_started (data_of w q)" by (simp add: keeps_started_def fp_safe_def)
  with assms(1) show "ed_dev_started (data_of w' q)" by (cases "q = p") (auto simp: keeps_started_def frame_def)
qed

lemma fp_safe_frame:
  assumes "frame p w w'" "fp_safe w" "fo_burst (ew_fp_ops w' ! unat p) \<noteq> None \<longrightarrow> ed_dev_started (data_of w' p)"
  shows "fp_safe w'"
  unfolding fp_safe_def
proof (intro allI impI)
  fix q assume "q < RTE_MAX_ETHPORTS" "fo_burst (ew_fp_ops w' ! unat q) \<noteq> None"
  with assms show "ed_dev_started (data_of w' q)" by (cases "q = p") (auto simp: frame_def fp_safe_def)
qed

lemma valid_port_less: "rte_eth_dev_is_valid_port w p \<Longrightarrow> p < RTE_MAX_ETHPORTS"
  by (auto simp: rte_eth_dev_is_valid_port_def)

lemma port_index: "p < RTE_MAX_ETHPORTS \<Longrightarrow> port_wf q w \<Longrightarrow> unat p < length (ew_devices w) \<and> unat p < length (ew_fp_ops w)"
  by (simp add: port_wf_def word_less_nat_alt)

lemma frame_fp [simp]:
  "frame p w (w\<lparr>ew_fp_ops := (ew_fp_ops w)[unat p := x]\<rparr>)"
  by (auto simp: frame_def dev_of_def nth_list_update simp flip: word_unat_eq_iff)

lemma stop_spec:
  fixes w :: "('b, 'h) eth_world"
  assumes wf: "port_wf p w" and v: "rte_eth_dev_is_valid_port w p" and cb: "do_dev_stop (ops_of w p) = Some cb"
    and s: "ed_dev_started (data_of w p)"
  shows "frame p w (snd (rte_eth_dev_stop w p)) \<and> fo_burst (ew_fp_ops (snd (rte_eth_dev_stop w p)) ! unat p) = None
    \<and> \<not> ed_dev_started (data_of (snd (rte_eth_dev_stop w p)) p)
    \<and> ed_dev_configured (data_of (snd (rte_eth_dev_stop w p)) p) = ed_dev_configured (data_of w p)"
proof -
  let ?w1 = "eth_dev_fp_ops_reset p w"
  let ?w2 = "upd_data ?w1 p (\<lambda>d. d\<lparr>ed_dev_started := False\<rparr>)"
  note l = port_index [OF valid_port_less [OF v] wf]
  have dk: "driver_contract (ops_of w p)" by (rule port_wf_driver [OF wf])
  have e: "rte_eth_dev_stop w p = call_dev cb p ?w2" by (simp add: rte_eth_dev_stop_def v cb s Let_def)
  have "\<not> ed_dev_started (data_of ?w2 p)" using l by (simp add: eth_dev_fp_ops_reset_def)
  then have k: "keeps p ?w2 (snd (call_dev cb p ?w2))" by (rule keeps_call_down [OF driver_cb(3) [OF dk cb]])
  have f: "frame p w ?w2" by (rule frame_trans [of p w ?w1]) (simp_all add: eth_dev_fp_ops_reset_def)
  have d1: "data_of ?w1 p = data_of w p" by (simp add: eth_dev_fp_ops_reset_def dev_of_def)
  from l have l1: "unat p < length (ew_devices ?w1)" by (simp add: eth_dev_fp_ops_reset_def)
  from l have "fo_burst (ew_fp_ops ?w2 ! unat p) = None" by (simp add: eth_dev_fp_ops_reset_def)
  with k f d1 l1 show ?thesis by (auto simp: e keeps_def intro: frame_trans)
qed

text \<open>
  What a start from a configured, stopped device can do: it fails without starting, or the
  device is started and then exposed, or stopped again, or left started but not exposed.
\<close>

lemma frame_call_upd: "call_dev cb p w = (r, w') \<Longrightarrow> frame p w w'"
  using frame_call [of p w cb] by simp

lemma start_restore_spec:
  fixes w :: "('b, 'h) eth_world"
  assumes wf: "port_wf p w" and v: "p < RTE_MAX_ETHPORTS" and s: "ed_dev_started (data_of w p)"
    and c: "start_restore p di w = (r, w')"
  shows "frame p w w' \<and> (fo_burst (ew_fp_ops w' ! unat p) \<noteq> None \<longrightarrow>
           ed_dev_started (data_of w' p))
    \<and> (r = 0 \<longrightarrow> ed_dev_started (data_of w' p) \<and> ed_dev_configured (data_of w' p) = ed_dev_configured (data_of w p)
               \<and> ew_fp_ops w' ! unat p = \<lparr>fo_burst = Some (dv_burst (dev_of w' p)), fo_queues = True\<rparr>)"
proof -
  have dk: "driver_contract (ops_of w p)" by (rule port_wf_driver [OF wf])
  obtain r1 w1 where 1: "eth_dev_config_restore p di w = (r1, w1)" by (metis surj_pair)
  from keeps_config_restore [OF dk, of di] 1 have k1: "keeps p w w1" by simp
  then have wf1: "port_wf p w1" using wf by (auto simp: keeps_def intro: port_wf_frame)
  have set: "frame p w2 (eth_dev_fp_ops_setup p w2)"
    "ew_fp_ops (eth_dev_fp_ops_setup p w2) ! unat p = \<lparr>fo_burst = Some (dv_burst (dev_of (eth_dev_fp_ops_setup p w2) p)), fo_queues = True\<rparr>"
    "data_of (eth_dev_fp_ops_setup p w2) p = data_of w2 p" if "port_wf p w2" for w2 :: "('b, 'h) eth_world"
    using port_index [OF v that] by (simp_all add: eth_dev_fp_ops_setup_def dev_of_def)
  consider (fail) "r1 \<noteq> 0" | (link) "r1 = 0" "\<not> ec_lsc (ed_dev_conf (data_of w1 p))" "do_link_update (ops_of w1 p) \<noteq> None"
    | (nolink) "r1 = 0" "\<not> ec_lsc (ed_dev_conf (data_of w1 p))" "do_link_update (ops_of w1 p) = None"
    | (lsc) "r1 = 0" "ec_lsc (ed_dev_conf (data_of w1 p))" by auto
  then show ?thesis
  proof cases
    case fail
    with c 1 have w': "w' = snd (rte_eth_dev_stop w1 p)" "r \<noteq> 0" by (auto simp: start_restore_def)
    show ?thesis
    proof (cases "rte_eth_dev_is_valid_port w1 p \<and> do_dev_stop (ops_of w1 p) \<noteq> None")
      case True
      then obtain cb where "do_dev_stop (ops_of w1 p) = Some cb" by auto
      with stop_spec [OF wf1 _ this] True s k1 w' show ?thesis by (auto simp: keeps_def intro: frame_trans)
    next
      case False
      then have "w' = w1" by (auto simp: w' rte_eth_dev_stop_def)
      with k1 s w'(2) show ?thesis by (auto simp: keeps_def)
    qed
  next
    case link
    then obtain cb where cb: "do_link_update (ops_of w1 p) = Some cb" by auto
    obtain r2 w2 where l: "call_dev cb p w1 = (r2, w2)" by (metis surj_pair)
    from dk k1 have "driver_contract (ops_of w1 p)" by (simp add: keeps_ops)
    from keeps_call [OF driver_cb(4) [OF this cb], of p w1] l k1 have k2: "keeps p w w2" by (auto intro: keeps_trans)
    then have wf2: "port_wf p w2" using wf by (auto simp: keeps_def intro: port_wf_frame)
    from c 1 link cb l have "r = 0" "w' = eth_dev_fp_ops_setup p w2" by (auto simp: start_restore_def)
    with set [OF wf2] k2 s show ?thesis by (auto simp: keeps_def intro: frame_trans)
  next
    case nolink
    with c 1 have "r = - ENOTSUP" "w' = w1" by (auto simp: start_restore_def)
    with k1 s show ?thesis by (auto simp: keeps_def)
  next
    case lsc
    with c 1 have "r = 0" "w' = eth_dev_fp_ops_setup p w1" by (auto simp: start_restore_def)
    with set [OF wf1] k1 s show ?thesis by (auto simp: keeps_def intro: frame_trans)
  qed
qed

text \<open>The state in which the driver is asked to start, and the start after that.\<close>

lemma start_cases:
  fixes w :: "('b, 'h) eth_world"
  assumes wf: "port_wf p w" and s: "rte_eth_dev_start w p = (r, w')"
  obtains (kept) "keeps p w w'" "r = 0 \<longrightarrow> rte_eth_dev_is_valid_port w p \<and> ed_dev_started (data_of w p)"
  | (started) w1 di where "frame p w w1" "ew_fp_ops w1 = ew_fp_ops w" "ed_dev_started (data_of w1 p)"
      "ed_dev_configured (data_of w1 p)" "start_restore p di w1 = (r, w')" "p < RTE_MAX_ETHPORTS"
proof (cases "\<exists>cb. rte_eth_dev_is_valid_port w p \<and> do_dev_start (ops_of w p) = Some cb
                \<and> ed_dev_configured (data_of w p) \<and> \<not> ed_dev_started (data_of w p)")
  case False
  with s have "w' = w" "r = 0 \<longrightarrow> rte_eth_dev_is_valid_port w p \<and> ed_dev_started (data_of w p)"
    by (auto simp: rte_eth_dev_start_def split: if_splits option.splits)
  then show thesis by (auto intro: kept)
next
  case True
  then obtain cb where v: "rte_eth_dev_is_valid_port w p" and cb: "do_dev_start (ops_of w p) = Some cb"
    and cf: "ed_dev_configured (data_of w p)" and ns: "\<not> ed_dev_started (data_of w p)" by auto
  note pl = valid_port_less [OF v]
  have dk: "driver_contract (ops_of w p)" by (rule port_wf_driver [OF wf])
  obtain r1 di w1 where i: "rte_eth_dev_info_get w p zero_dev_info = (r1, di, w1)" by (metis surj_pair)
  from keeps_info_get [of p w zero_dev_info] i have k1: "keeps p w w1" by simp
  define w2 where "w2 = (if ed_dev_flags (data_of w1 p) AND RTE_ETH_DEV_NOLIVE_MAC_ADDR \<noteq> 0
                         then eth_dev_mac_restore p di w1 else w1)"
  from dk k1 have "driver_contract (ops_of w1 p)" by (simp add: keeps_ops)
  from keeps_mac_restore [OF this, of di] k1 have k2: "keeps p w w2" by (auto simp: w2_def intro: keeps_trans)
  obtain r3 w3 where c: "call_dev cb p w2 = (r3, w3)" by (metis surj_pair)
  have "\<not> ed_dev_started (data_of w2 p)" using k2 ns by (simp add: keeps_def)
  note st = keeps_call_start [OF driver_cb(2) [OF dk cb] this c]
  have f3: "frame p w w3" using k2 frame_call_upd [OF c] by (auto simp: keeps_def intro: frame_trans)
  show thesis
  proof (cases "r1 = 0 \<and> r3 = 0")
    case True
    let ?w4 = "upd_data w3 p (\<lambda>d. d\<lparr>ed_dev_started := True\<rparr>)"
    have l: "unat p < length (ew_devices w3)" using f3 port_index [OF pl wf] by (simp add: frame_def)
    have "start_restore p di ?w4 = (r, w')"
      using s True by (simp add: rte_eth_dev_start_def v cb cf ns i c Let_def flip: w2_def)
    moreover have "frame p w ?w4" using f3 by (auto intro: frame_trans)
    ultimately show thesis using started [of ?w4 di] st(2) k2 l cf pl by (simp add: keeps_def)
  next
    case False
    have "w' = w1 \<and> r = r1 \<and> r1 \<noteq> 0 \<or> r3 \<noteq> 0 \<and> (r, w') = eth_err p r3 w3"
      using s False by (auto simp: rte_eth_dev_start_def v cb cf ns i c Let_def simp flip: w2_def split: if_splits)
    then show thesis
    proof (elim disjE conjE)
      assume "w' = w1" "r = r1" "r1 \<noteq> 0"
      with k1 show thesis by (auto intro: kept)
    next
      assume e: "r3 \<noteq> 0" "(r, w') = eth_err p r3 w3"
      from keeps_trans [OF k2 st(1) [OF e(1)]] keeps_eth_err [of p w3 r3] e(2) have "keeps p w w'" by (metis keeps_trans snd_conv)
      moreover from e have "r \<noteq> 0" by (auto simp: eth_err_def split: prod.splits if_splits)
      ultimately show thesis by (auto intro: kept)
    qed
  qed
qed

section \<open>Steps\<close>

text \<open>The calls an application makes, in any order and with any arguments, on any port.\<close>

inductive eth_step :: "'p mbuf_world \<Rightarrow> ('b, 'h) eth_world \<Rightarrow> ('b, 'h) eth_world \<Rightarrow> bool" for mw where
  step_info: "rte_eth_dev_info_get w p i = (r, di, w') \<Longrightarrow> eth_step mw w w'"
| step_configure: "rte_eth_dev_configure w p nr nt c = (r, w') \<Longrightarrow> eth_step mw w w'"
| step_rx_queue: "rte_eth_rx_queue_setup mw w p q n s rc mp = Some (r, w') \<Longrightarrow> eth_step mw w w'"
| step_tx_queue: "rte_eth_tx_queue_setup w p q n s tc = Some (r, w') \<Longrightarrow> eth_step mw w w'"
| step_start: "rte_eth_dev_start w p = (r, w') \<Longrightarrow> eth_step mw w w'"
| step_stop: "rte_eth_dev_stop w p = (r, w') \<Longrightarrow> eth_step mw w w'"
| step_promiscuous: "rte_eth_promiscuous_enable w p = (r, w') \<Longrightarrow> eth_step mw w w'"

inductive eth_steps :: "'p mbuf_world \<Rightarrow> ('b, 'h) eth_world \<Rightarrow> ('b, 'h) eth_world \<Rightarrow> bool" for mw where
  steps_none: "eth_steps mw w w"
| steps_more: "eth_steps mw w w' \<Longrightarrow> eth_step mw w' w'' \<Longrightarrow> eth_steps mw w w''"

text \<open>Calls on a number that is not a port change nothing.\<close>

lemma bad_port:
  assumes "\<not> p < RTE_MAX_ETHPORTS"
  shows "snd (snd (rte_eth_dev_info_get w p i)) = w" "snd (rte_eth_dev_configure w p nr nt c) = w"
    "rte_eth_rx_queue_setup mw w p q n s rc mp = Some (- ENODEV, w)" "rte_eth_tx_queue_setup w p q n s tc = Some (- ENODEV, w)"
    "snd (rte_eth_dev_start w p) = w" "snd (rte_eth_dev_stop w p) = w" "snd (rte_eth_promiscuous_enable w p) = w"
  using assms valid_port_less [of w p]
  by (auto simp: rte_eth_dev_info_get_def rte_eth_dev_configure_def rte_eth_rx_queue_setup_def rte_eth_tx_queue_setup_def
      rte_eth_dev_start_def rte_eth_dev_stop_def rte_eth_promiscuous_enable_def)

lemma start_safe:
  assumes pwf: "port_wf p w" and wf: "eth_wf w" and sf: "fp_safe w" and s: "rte_eth_dev_start w p = (r, w')"
  shows "eth_wf w' \<and> fp_safe w'"
  using pwf s
proof (cases rule: start_cases)
  case kept
  then show ?thesis
    using sf wf fp_safe_keeps_started [OF keeps_imp_started] by (auto simp: keeps_def intro: eth_wf_frame)
next
  case (started w1 di)
  from started have wf0: "eth_wf w1" and wf1: "port_wf p w1" using wf pwf by (auto intro: eth_wf_frame port_wf_frame)
  have sf1: "fp_safe w1" by (rule fp_safe_frame [OF started(1) sf]) (simp add: started)
  from start_restore_spec [OF wf1 started(6,3,5)]
  have sp: "frame p w1 w'" "fo_burst (ew_fp_ops w' ! unat p) \<noteq> None \<longrightarrow>
           ed_dev_started (data_of w' p)" by auto
  show ?thesis using sp wf0 sf1 started by (auto intro: eth_wf_frame fp_safe_frame)
qed

lemma stop_safe:
  assumes wf: "eth_wf w" and sf: "fp_safe w" and s: "rte_eth_dev_stop w p = (r, w')"
  shows "eth_wf w' \<and> fp_safe w'"
proof (cases "rte_eth_dev_is_valid_port w p \<and> do_dev_stop (ops_of w p) \<noteq> None \<and> ed_dev_started (data_of w p)")
  case True
  then obtain cb where cb: "do_dev_stop (ops_of w p) = Some cb" by auto
  from True have "port_wf p w" using wf valid_port_less [of w p] by (simp add: eth_wf_def)
  from stop_spec [OF this _ cb] True s sf wf show ?thesis by (auto intro: eth_wf_frame fp_safe_frame)
next
  case False
  with s have "w' = w" by (auto simp: rte_eth_dev_stop_def split: if_splits option.splits)
  with wf sf show ?thesis by simp
qed

lemma eth_wf_driver: "eth_wf w \<Longrightarrow> p < RTE_MAX_ETHPORTS \<Longrightarrow> driver_contract (ops_of w p)"
  by (simp add: eth_wf_def port_wf_def)

lemma keeps_started_safe: "keeps_started p w w' \<Longrightarrow> eth_wf w \<and> fp_safe w \<Longrightarrow> eth_wf w' \<and> fp_safe w'"
  using fp_safe_keeps_started eth_wf_frame [OF keeps_started_frame] by blast

lemma step_safe:
  assumes "eth_step mw w w'" "eth_wf w \<and> fp_safe w"
  shows "eth_wf w' \<and> fp_safe w'"
  using assms(1)
proof cases
  case (step_info p i r di)
  with keeps_info_get [of p w i] have "keeps p w w'" by simp
  then show ?thesis by (rule keeps_started_safe [OF keeps_imp_started]) (rule assms(2))
next
  case (step_configure p nr nt c r)
  show ?thesis
  proof (cases "p < RTE_MAX_ETHPORTS")
    case True
    with assms(2) have "driver_contract (ops_of w p)" by (auto intro: eth_wf_driver)
    from keeps_started_configure [OF this, of nr nt c] step_configure have "keeps_started p w w'" by simp
    then show ?thesis by (rule keeps_started_safe) (rule assms(2))
  next
    case False
    with bad_port(2) [OF False, of w nr nt c] step_configure assms(2) show ?thesis by simp
  qed
next
  case (step_rx_queue p q n s rc mp r)
  show ?thesis
  proof (cases "p < RTE_MAX_ETHPORTS")
    case True
    with assms(2) have "driver_contract (ops_of w p)" by (auto intro: eth_wf_driver)
    from keeps_rx_queue_setup [OF this step_rx_queue] show ?thesis
      by (rule keeps_started_safe [OF keeps_imp_started]) (rule assms(2))
  next
    case False
    with step_rx_queue assms(2) show ?thesis by (simp add: bad_port)
  qed
next
  case (step_tx_queue p q n s tc r)
  show ?thesis
  proof (cases "p < RTE_MAX_ETHPORTS")
    case True
    with assms(2) have "driver_contract (ops_of w p)" by (auto intro: eth_wf_driver)
    from keeps_tx_queue_setup [OF this step_tx_queue] show ?thesis
      by (rule keeps_started_safe [OF keeps_imp_started]) (rule assms(2))
  next
    case False
    with step_tx_queue assms(2) show ?thesis by (simp add: bad_port)
  qed
next
  case (step_start p r)
  show ?thesis
  proof (cases "p < RTE_MAX_ETHPORTS")
    case True
    with assms(2) have "port_wf p w" by (simp add: eth_wf_def)
    with step_start assms(2) show ?thesis using start_safe by blast
  next
    case False
    with bad_port(5) [OF False, of w] step_start assms(2) show ?thesis by simp
  qed
next
  case (step_stop p r)
  then show ?thesis using stop_safe assms(2) by blast
next
  case (step_promiscuous p r)
  show ?thesis
  proof (cases "p < RTE_MAX_ETHPORTS")
    case True
    with assms(2) have "driver_contract (ops_of w p)" by (auto intro: eth_wf_driver)
    from keeps_promiscuous_enable [OF this] step_promiscuous have "keeps p w w'" by (metis snd_conv)
    then show ?thesis by (rule keeps_started_safe [OF keeps_imp_started]) (rule assms(2))
  next
    case False
    with bad_port(7) [OF False, of w] step_promiscuous assms(2) show ?thesis by simp
  qed
qed

lemma steps_safe: "eth_steps mw w w' \<Longrightarrow> eth_wf w \<and> fp_safe w \<Longrightarrow> eth_wf w' \<and> fp_safe w'"
  by (induction rule: eth_steps.induct) (auto dest: step_safe)

end
