(* ===== verification/Ethdev_Properties.thy ===== *)
theory Ethdev_Properties
  imports Ethdev_Safety Buffer_Properties
begin

text \<open>What the control calls of \<open>lib/ethdev\<close> promise to an application that brings up a port.\<close>

section \<open>A port to try the properties on\<close>

text \<open>A driver that accepts everything, with the limits of a common card.\<close>

definition lim0 :: rte_eth_desc_lim where
  "lim0 = \<lparr>dl_nb_max = 4096, dl_nb_min = 64, dl_nb_align = 8, dl_nb_seg_max = 0xffff, dl_nb_mtu_seg_max = 0xffff\<rparr>"

definition info0 :: rte_eth_dev_info where
  "info0 = zero_dev_info\<lparr>di_min_mtu := 68, di_max_mtu := 9000, di_max_rx_pktlen := 9018, di_min_rx_bufsize := 1024,
     di_max_rx_queues := 16, di_max_tx_queues := 16, di_max_mac_addrs := 1,
     di_rx_desc_lim := lim0, di_tx_desc_lim := lim0\<rparr>"

definition ok_cb :: "('b, 'h) eth_callback" where "ok_cb d h = (0, d, h)"

text \<open>Like most drivers, it clears \<open>dev_started\<close> itself when it is stopped.\<close>

definition stop_cb :: "('b, 'h) eth_callback" where
  "stop_cb d h = (0, d\<lparr>dv_data := (dv_data d)\<lparr>ed_dev_started := False\<rparr>\<rparr>, h)"

definition driver0 :: "('b, 'h) eth_dev_ops" where
  "driver0 = \<lparr>do_dev_configure = Some ok_cb, do_dev_start = Some ok_cb, do_dev_stop = Some stop_cb,
     do_link_update = Some ok_cb, do_promiscuous_enable = Some ok_cb, do_promiscuous_disable = Some ok_cb,
     do_allmulticast_enable = None, do_allmulticast_disable = None, do_mac_addr_set = None, do_mac_addr_add = None,
     do_dev_infos_get = Some (\<lambda>d h i. (0, info0)), do_is_removed = None,
     do_rx_queue_setup = Some (\<lambda>q n s c m. ok_cb), do_tx_queue_setup = Some (\<lambda>q n s c. ok_cb),
     do_rx_queue_release = None, do_tx_queue_release = None\<rparr>"

definition conf0 :: rte_eth_conf where
  "conf0 = \<lparr>ec_link_speeds = 0, ec_rx_mq_mode = 0, ec_rx_mtu = 0, ec_max_lro_pkt_size = 0, ec_rx_offloads = 0,
     ec_tx_offloads = 0, ec_rss_hf = 0, ec_lsc = False, ec_rmv = False\<rparr>"

definition data0 :: rte_eth_dev_data where
  "data0 = \<lparr>ed_rx_queues = None, ed_tx_queues = None, ed_nb_rx_queues = 0, ed_nb_tx_queues = 0, ed_dev_conf = conf0,
     ed_mtu = 0, ed_min_rx_buf_size = 0, ed_mac_addrs = [[2, 0, 0, 0, 0, 1]], ed_mac_pool_sel = [0],
     ed_promiscuous = False, ed_all_multicast = False, ed_dev_started = False, ed_dev_configured = False,
     ed_rx_queue_state = replicate 1024 0, ed_tx_queue_state = replicate 1024 0, ed_dev_flags = 0, ed_numa_node = 0,
     ed_owner_id = 0\<rparr>"

text \<open>Port 0 is attached; burst function number 7 is that of its driver.\<close>

definition eth_with :: "(nat, unit) eth_dev_ops \<Rightarrow> bool \<Rightarrow> (nat, unit) eth_world" where
  "eth_with drv configured = \<lparr>
     ew_devices = \<lparr>dv_state = RTE_ETH_DEV_ATTACHED, dv_data = data0\<lparr>ed_dev_configured := configured\<rparr>, dv_burst = 7, dv_driver_name = ''net''\<rparr>
       # replicate 31 \<lparr>dv_state = RTE_ETH_DEV_UNUSED, dv_data = data0, dv_burst = 0, dv_driver_name = []\<rparr>,
     ew_ops = replicate 32 drv,
     ew_fp_ops = replicate 32 \<lparr>fo_burst = None, fo_queues = False\<rparr>,
     ew_zmalloc = (\<lambda>_. True), ew_hw = ()\<rparr>"

lemma driver0_contract: "driver_contract driver0"
  by (simp add: driver_contract_def driver0_def cb_keeps_def cb_stays_down_def cb_starts_def ok_cb_def stop_cb_def)

lemma eth_with_wf:
  assumes "driver_contract drv"
  shows "eth_wf (eth_with drv c)" "port_wf 0 (eth_with drv c)"
  using assms by (simp_all add: eth_wf_def port_wf_def eth_with_def RTE_MAX_ETHPORTS_def word_less_nat_alt)

lemma eth_with_dark: "p < RTE_MAX_ETHPORTS \<Longrightarrow> fo_burst (ew_fp_ops (eth_with drv c) ! unat p) = None"
  by (simp add: eth_with_def RTE_MAX_ETHPORTS_def word_less_nat_alt)

lemma eth_with_simps [simp]:
  "ew_ops (eth_with drv c) ! 0 = drv"
  "dv_state (dev_of (eth_with drv c) 0) = RTE_ETH_DEV_ATTACHED"
  "data_of (eth_with drv c) 0 = data0\<lparr>ed_dev_configured := c\<rparr>"
  "dv_burst (dev_of (eth_with drv c) 0) = 7" "dv_driver_name (dev_of (eth_with drv c) 0) = ''net''"
  "length (ew_devices (eth_with drv c)) = 32" "length (ew_fp_ops (eth_with drv c)) = 32"
  "rte_eth_dev_is_valid_port (eth_with drv c) 0" "ew_devices (eth_with drv c) \<noteq> []"
  "fo_burst (ew_fp_ops (eth_with drv c) ! 0) = None"
  by (simp_all add: eth_with_def dev_of_def rte_eth_dev_is_valid_port_def RTE_MAX_ETHPORTS_def)

lemma call_ok [simp]: "call_dev ok_cb p w = (0, w)"
  by (simp add: call_dev_def ok_cb_def set_dev_def dev_of_def)

lemma upd_data_dev [simp]:
  "dv_state (dev_of (upd_data w p f) q) = dv_state (dev_of w q)"
  "dv_burst (dev_of (upd_data w p f) q) = dv_burst (dev_of w q)"
  "rte_eth_dev_is_valid_port (upd_data w p f) q = rte_eth_dev_is_valid_port w q"
  by (auto simp: upd_data_def dev_of_set_dev rte_eth_dev_is_valid_port_def)

lemma driver0_sel [simp]:
  "do_dev_configure driver0 = Some ok_cb" "do_dev_start driver0 = Some ok_cb" "do_dev_stop driver0 = Some stop_cb"
  "do_link_update driver0 = Some ok_cb" "do_promiscuous_enable driver0 = Some ok_cb"
  "do_promiscuous_disable driver0 = Some ok_cb" "do_allmulticast_enable driver0 = None"
  "do_allmulticast_disable driver0 = None" "do_mac_addr_set driver0 = None" "do_mac_addr_add driver0 = None"
  "do_dev_infos_get driver0 = Some (\<lambda>d h i. (0, info0))" "do_is_removed driver0 = None"
  "do_rx_queue_setup driver0 = Some (\<lambda>q n s c m. ok_cb)" "do_tx_queue_setup driver0 = Some (\<lambda>q n s c. ok_cb)"
  by (simp_all add: driver0_def)

text \<open>The port after a start.\<close>

definition eth_started :: "(nat, unit) eth_world" where
  "eth_started = eth_dev_fp_ops_setup 0 (upd_data (eth_with driver0 True) 0 (\<lambda>d. d\<lparr>ed_dev_started := True\<rparr>))"

lemma info_get0: "do_dev_infos_get drv = Some (\<lambda>d h i. (0, info0)) \<Longrightarrow> rte_eth_dev_info_get (eth_with drv c) 0 i =
    (0, info0\<lparr>di_driver_name := ''net'', di_nb_rx_queues := 0, di_nb_tx_queues := 0\<rparr>, eth_with drv c)"
  by (simp add: rte_eth_dev_info_get_def info0_def zero_dev_info_def data0_def RTE_MAX_QUEUES_PER_PORT_def)

lemma start0: "rte_eth_dev_start (eth_with driver0 True) 0 = (0, eth_started)"
  by (simp add: rte_eth_dev_start_def info_get0 eth_started_def data0_def conf0_def start_restore_def
      eth_dev_config_restore_def replay_mode_def rte_eth_promiscuous_get_def rte_eth_allmulticast_get_def
      eth_dev_mac_restore_def info0_def eth_err_def Let_def)


section \<open>The fast path\<close>

text \<open>
  C6: Whatever calls an application makes on its ports, in any order and with any results, the
  burst functions of a driver are reachable through the fast path only while the device is
  marked as started; a port that is not started has the dummy functions. Drivers may clear
  the mark when they stop or configure and set it when they start, but configuring, stopping
  and failing to start must not mark a stopped device as started (\<open>driver_contract\<close> in
  \<open>Ethdev_Flags\<close>, part of \<open>eth_wf\<close>).
\<close>

theorem fast_path_only_when_started:
  assumes "eth_steps mw w w'" "eth_wf w" "\<forall>p < RTE_MAX_ETHPORTS. fo_burst (ew_fp_ops w ! unat p) = None"
    "p < RTE_MAX_ETHPORTS" "\<not> ed_dev_started (data_of w' p)"
  shows "fo_burst (ew_fp_ops w' ! unat p) = None"
proof -
  from assms(3) have "fp_safe w" by (simp add: fp_safe_def)
  with steps_safe [OF assms(1)] assms(2) have "fp_safe w'" by simp
  with assms(4,5) show ?thesis by (auto simp: fp_safe_def)
qed

lemma eth_started_wf: "port_wf 0 eth_started"
  using eth_with_wf(2) [OF driver0_contract, of True]
  by (simp add: port_wf_def eth_started_def eth_dev_fp_ops_setup_def)

lemma eth_started_simps [simp]:
  "rte_eth_dev_is_valid_port eth_started 0" "ed_dev_started (data_of eth_started 0)" "ew_ops eth_started ! 0 = driver0"
  "ew_fp_ops eth_started ! 0 = \<lparr>fo_burst = Some 7, fo_queues = True\<rparr>"
  by (simp_all add: eth_started_def eth_dev_fp_ops_setup_def rte_eth_dev_is_valid_port_def dev_of_def upd_data_def set_dev_def
      RTE_MAX_ETHPORTS_def) (simp_all add: eth_with_def)

theorem fast_path_only_when_started_witness:
  "fo_burst (ew_fp_ops eth_started ! 0) = Some 7
   \<and> eth_steps world0 (eth_with driver0 True) (snd (rte_eth_dev_stop eth_started 0))
   \<and> fo_burst (ew_fp_ops (snd (rte_eth_dev_stop eth_started 0)) ! unat (0 :: u16)) = None"
proof (intro conjI)
  show s: "eth_steps world0 (eth_with driver0 True) (snd (rte_eth_dev_stop eth_started 0))"
    by (rule steps_more [OF steps_more [OF steps_none step_start [OF start0]] step_stop [OF prod.collapse [symmetric]]])
  have "\<not> ed_dev_started (data_of (snd (rte_eth_dev_stop eth_started 0)) 0)"
    using stop_spec [OF eth_started_wf, of stop_cb] by simp
  then show "fo_burst (ew_fp_ops (snd (rte_eth_dev_stop eth_started 0)) ! unat (0 :: u16)) = None"
    by (intro fast_path_only_when_started [OF s eth_with_wf(1) [OF driver0_contract]])
      (simp_all add: eth_with_dark RTE_MAX_ETHPORTS_def)
qed simp

text \<open>
  A successful start of a stopped port leaves the device started and configured, points the
  fast path of that port, and of no other, to the driver's burst functions and its queues; a
  stop points it back to the dummy functions, whatever the driver answers.
\<close>

theorem start_exposes_stop_hides:
  assumes "port_wf p w" "\<not> ed_dev_started (data_of w p)" "rte_eth_dev_start w p = (0, w')"
    "rte_eth_dev_is_valid_port w' p" "do_dev_stop (ops_of w p) \<noteq> None" "rte_eth_dev_stop w' p = (r, w'')"
  shows "ed_dev_started (data_of w' p) \<and> ed_dev_configured (data_of w' p)
    \<and> ew_fp_ops w' ! unat p = \<lparr>fo_burst = Some (dv_burst (dev_of w' p)), fo_queues = True\<rparr>
    \<and> \<not> ed_dev_started (data_of w'' p) \<and> fo_burst (ew_fp_ops w'' ! unat p) = None
    \<and> frame p w w' \<and> frame p w w''"
  using assms(1,3)
proof (cases rule: start_cases)
  case kept
  with assms(2) show ?thesis by simp
next
  case (started w1 di)
  have wf1: "port_wf p w1" by (rule port_wf_frame [OF started(1) assms(1)])
  from start_restore_spec [OF wf1 started(6,3,5)] started
  have s: "frame p w1 w'" "ed_dev_started (data_of w' p)" "ed_dev_configured (data_of w' p)"
    "ew_fp_ops w' ! unat p = \<lparr>fo_burst = Some (dv_burst (dev_of w' p)), fo_queues = True\<rparr>" by auto
  with wf1 started(1) have wf': "port_wf p w'" and f: "frame p w w'" by (auto intro: port_wf_frame frame_trans)
  from assms(5) f obtain cb where "do_dev_stop (ops_of w' p) = Some cb" by (auto simp: frame_def)
  from stop_spec [OF wf' assms(4) this s(2)] assms(6) s f show ?thesis by (auto intro: frame_trans)
qed

theorem start_exposes_stop_hides_witness:
  "\<exists>r w''. rte_eth_dev_stop eth_started 0 = (r, w'') \<and> ed_dev_started (data_of eth_started 0)
     \<and> \<not> ed_dev_started (data_of w'' 0) \<and> fo_burst (ew_fp_ops w'' ! unat (0 :: u16)) = None"
proof -
  obtain r w'' where e: "rte_eth_dev_stop eth_started 0 = (r, w'')" by (metis surj_pair)
  from start_exposes_stop_hides [OF eth_with_wf(2) [OF driver0_contract] _ start0 _ _ e] e show ?thesis
    by (auto simp: data0_def)
qed

text \<open>
  If the driver has no link update and link interrupts are off, a start that leaves the
  device started answers \<open>- ENOTSUP\<close> and leaves the dummy burst functions in place; a second
  start then answers 0 and changes nothing, so the port is reported as running while every
  burst on it does nothing.
\<close>

theorem start_without_link_update:
  assumes "port_wf p w" "\<not> ed_dev_started (data_of w p)" "fo_burst (ew_fp_ops w ! unat p) = None"
    "do_link_update (ops_of w p) = None" "do_dev_start (ops_of w p) \<noteq> None" "do_dev_stop (ops_of w p) \<noteq> None"
    "rte_eth_dev_start w p = (r, w')" "rte_eth_dev_is_valid_port w' p"
    "ed_dev_started (data_of w' p)" "\<not> ec_lsc (ed_dev_conf (data_of w' p))"
  shows "r = - ENOTSUP \<and> fo_burst (ew_fp_ops w' ! unat p) = None \<and> rte_eth_dev_start w' p = (0, w')"
  using assms(1,7)
proof (cases rule: start_cases)
  case kept
  with assms(2,9) show ?thesis by (simp add: keeps_def)
next
  case (started w1 di)
  have wf1: "port_wf p w1" by (rule port_wf_frame [OF started(1) assms(1)])
  obtain r2 w2 where c: "eth_dev_config_restore p di w1 = (r2, w2)" by (metis surj_pair)
  from keeps_config_restore [OF port_wf_driver [OF wf1], of di] c have k: "keeps p w1 w2" by simp
  have o': "ops_of w2 p = ops_of w p" using k started(1) by (simp add: keeps_def frame_def)
  have wf2: "port_wf p w2" using k wf1 by (auto simp: keeps_def intro: port_wf_frame)
  show ?thesis
  proof (cases "r2 = 0")
    case True
    have "\<not> ec_lsc (ed_dev_conf (data_of w2 p))"
      using started(5) True assms(4,10) c o'
      by (auto simp: start_restore_def eth_dev_fp_ops_setup_def dev_of_def split: if_splits)
    with started(5) True assms(4) c o' have "r = - ENOTSUP" "w' = w2" by (auto simp: start_restore_def)
    moreover have "rte_eth_dev_start w' p = (0, w')"
      using assms(5,8,9) k started(4) o' \<open>w' = w2\<close> by (auto simp: rte_eth_dev_start_def keeps_def)
    ultimately show ?thesis using k started(2) assms(3) by (simp add: keeps_def)
  next
    case False
    with started(5) c have w': "w' = snd (rte_eth_dev_stop w2 p)" by (auto simp: start_restore_def)
    obtain cb where cb: "do_dev_stop (ops_of w2 p) = Some cb" using assms(6) o' by auto
    have "ed_dev_started (data_of w2 p)" using k started(3) by (simp add: keeps_def)
    with stop_spec [OF wf2 _ cb] assms(8,9) w' show ?thesis
      by (cases "rte_eth_dev_is_valid_port w2 p") (auto simp: rte_eth_dev_stop_def)
  qed
qed

definition driver1 :: "('b, 'h) eth_dev_ops" where "driver1 = driver0\<lparr>do_link_update := None\<rparr>"

lemma driver1_contract: "driver_contract driver1"
  using driver0_contract by (simp add: driver_contract_def driver1_def)

lemma start1: "rte_eth_dev_start (eth_with driver1 True) 0 =
    (- ENOTSUP, upd_data (eth_with driver1 True) 0 (\<lambda>d. d\<lparr>ed_dev_started := True\<rparr>))"
  by (simp add: rte_eth_dev_start_def info_get0 data0_def conf0_def start_restore_def driver1_def
      eth_dev_config_restore_def replay_mode_def rte_eth_promiscuous_get_def rte_eth_allmulticast_get_def
      eth_dev_mac_restore_def info0_def eth_err_def Let_def)

theorem start_without_link_update_witness:
  "rte_eth_dev_start (eth_with driver1 True) 0 = (- ENOTSUP, upd_data (eth_with driver1 True) 0 (\<lambda>d. d\<lparr>ed_dev_started := True\<rparr>))
   \<and> rte_eth_dev_start (upd_data (eth_with driver1 True) 0 (\<lambda>d. d\<lparr>ed_dev_started := True\<rparr>)) 0
     = (0, upd_data (eth_with driver1 True) 0 (\<lambda>d. d\<lparr>ed_dev_started := True\<rparr>))"
proof (intro conjI start1)
  have "do_link_update (driver1 :: (nat, unit) eth_dev_ops) = None" "do_dev_start (driver1 :: (nat, unit) eth_dev_ops) \<noteq> None"
    "do_dev_stop (driver1 :: (nat, unit) eth_dev_ops) \<noteq> None"
    by (simp_all add: driver1_def)
  then show "rte_eth_dev_start (upd_data (eth_with driver1 True) 0 (\<lambda>d. d\<lparr>ed_dev_started := True\<rparr>)) 0
     = (0, upd_data (eth_with driver1 True) 0 (\<lambda>d. d\<lparr>ed_dev_started := True\<rparr>))"
    using start_without_link_update [OF eth_with_wf(2) [OF driver1_contract] _ _ _ _ _ start1]
    by (simp add: data0_def conf0_def eth_with_dark RTE_MAX_ETHPORTS_def)
qed

section \<open>Configuration\<close>

text \<open>
  C15: If configuring a stopped port fails, for any of its reasons, the stored configuration and
  MTU are what they were, other ports and every fast path are untouched, and the device is
  marked as not configured, so that a start is refused until a configuration succeeds. The
  driver of the port meets \<open>driver_contract\<close> (\<open>Ethdev_Flags\<close>): in particular it does not mark
  the stopped device as started while it configures it. Nothing is assumed of other ports.
\<close>

theorem configure_failure_rolls_back:
  fixes w :: "('b, 'h) eth_world"
  assumes wf: "port_wf p w" and v: "rte_eth_dev_is_valid_port w p" and ns: "\<not> ed_dev_started (data_of w p)"
    and cb: "do_dev_configure (ops_of w p) = Some cb"
    and c: "rte_eth_dev_configure w p nr nt (Some conf) = (r, w')" and r: "r \<noteq> 0"
  shows "ed_dev_conf (data_of w' p) = ed_dev_conf (data_of w p) \<and> ed_mtu (data_of w' p) = ed_mtu (data_of w p)
    \<and> \<not> ed_dev_configured (data_of w' p) \<and> frame p w w' \<and> ew_fp_ops w' = ew_fp_ops w
    \<and> fst (rte_eth_dev_start w' p) \<noteq> 0"
proof -
  note pl = valid_port_less [OF v]
  note dk = port_wf_driver [OF wf]
  define w1 where "w1 = upd_data w p (\<lambda>d. d\<lparr>ed_dev_configured := False\<rparr>)"
  define w2 where "w2 = upd_data w1 p (\<lambda>d. d\<lparr>ed_dev_conf := conf\<rparr>)"
  obtain r1 di w3 where i: "rte_eth_dev_info_get w2 p zero_dev_info = (r1, di, w3)" by (metis surj_pair)
  obtain nr' nt' where n: "configure_numbers di nr nt = (nr', nt')" by (metis surj_pair)
  obtain r4 d4 where ch: "configure_check di nr' nt' conf (data_of w3 p) = (r4, d4)" by (metis surj_pair)
  define w4 where "w4 = upd_data w3 p (\<lambda>_. d4)"
  obtain r5 w5 where dv: "configure_device p cb nr' nt' conf w4 = (r5, w5)" by (metis surj_pair)
  have l: "unat p < length (ew_devices w)" using port_index [OF pl wf] by simp
  have k2: "frame p w w2" unfolding w2_def w1_def by (rule frame_trans [OF frame_upd frame_upd])
  have n2: "\<not> ed_dev_configured (data_of w2 p)" "ed_dev_conf (data_of w1 p) = ed_dev_conf (data_of w p)"
    "ed_mtu (data_of w2 p) = ed_mtu (data_of w p)"
    using l by (simp_all add: w2_def w1_def)
  from keeps_info_get [of p w2 zero_dev_info] i have i3: "keeps p w2 w3" by simp
  then have k3: "frame p w w3" and n3: "\<not> ed_dev_configured (data_of w3 p)"
    using k2 n2 by (auto simp: keeps_def intro: frame_trans)
  have k4: "frame p w w4" unfolding w4_def by (rule frame_trans [OF k3 frame_upd])
  have n4: "\<not> ed_dev_configured (data_of w4 p)"
    using n3 configure_check_flags [of di nr' nt' conf "data_of w3 p"] ch by (simp add: w4_def flags_def)
  from k4 have o4: "ops_of w4 p = ops_of w p" by (simp add: frame_def)
  have "\<not> ed_dev_started (data_of w2 p)" using l ns by (simp add: w2_def w1_def)
  then have s4: "\<not> ed_dev_started (data_of w4 p)"
    using i3 configure_check_flags [of di nr' nt' conf "data_of w3 p"] ch by (simp add: w4_def flags_def keeps_def)
  from keeps_configure_device [of w4 p cb nr' nt' conf] driver_cb(1) [OF dk cb] dk s4 dv
  have i5: "keeps p w4 w5" by (simp add: o4)
  with k4 n4 have k5: "frame p w w5" and n5: "\<not> ed_dev_configured (data_of w5 p)"
    by (auto simp: keeps_def intro: frame_trans)
  have "w' = snd (configure_rollback p (ed_dev_conf (data_of w p)) (ed_mtu (data_of w p)) r w3)
    \<or> w' = snd (configure_rollback p (ed_dev_conf (data_of w p)) (ed_mtu (data_of w p)) r w4)
    \<or> w' = snd (configure_rollback p (ed_dev_conf (data_of w p)) (ed_mtu (data_of w p)) r w5)"
    using c r by (auto simp: rte_eth_dev_configure_def v ns cb i n ch dv Let_def n2 simp flip: w1_def w2_def w4_def
        split: if_splits) (simp_all add: configure_rollback_def)
  then obtain w6 where w6: "w' = snd (configure_rollback p (ed_dev_conf (data_of w p)) (ed_mtu (data_of w p)) r w6)"
    "frame p w w6" "\<not> ed_dev_configured (data_of w6 p)" using k3 n3 k4 n4 k5 n5 by metis
  have l6: "unat p < length (ew_devices w6)" using w6(2) l by (simp add: frame_def)
  have e: "ed_dev_conf (data_of w' p) = ed_dev_conf (data_of w p)" "ed_mtu (data_of w' p) = ed_mtu (data_of w p)"
    "\<not> ed_dev_configured (data_of w' p)"
    using l6 w6(3) by (auto simp: w6(1) configure_rollback_def Let_def)
  have "keeps_started p w w'" using keeps_started_configure [OF dk, of nr nt "Some conf"] c by simp
  moreover have "fst (rte_eth_dev_start w' p) \<noteq> 0"
    using e(3) by (simp add: rte_eth_dev_start_def split: option.split)
  ultimately show ?thesis using e by (simp add: keeps_started_def)
qed

text \<open>Seventeen receive queues are one too many for the device.\<close>

lemma configure17: "fst (rte_eth_dev_configure (eth_with driver0 True) 0 17 1 (Some conf0)) = - EINVAL"
  by (simp add: rte_eth_dev_configure_def rte_eth_dev_info_get_def configure_numbers_def configure_check_def
      configure_rollback_def info0_def zero_dev_info_def data0_def RTE_MAX_QUEUES_PER_PORT_def Let_def)

theorem configure_failure_rolls_back_witness:
  "\<exists>w'. rte_eth_dev_configure (eth_with driver0 True) 0 17 1 (Some conf0) = (- EINVAL, w')
     \<and> \<not> ed_dev_configured (data_of w' 0) \<and> ed_mtu (data_of w' 0) = 0 \<and> fst (rte_eth_dev_start w' 0) \<noteq> 0"
proof -
  obtain w' where e: "rte_eth_dev_configure (eth_with driver0 True) 0 17 1 (Some conf0) = (- EINVAL, w')"
    using configure17 by (metis prod.collapse)
  from configure_failure_rolls_back [OF eth_with_wf(2) [OF driver0_contract] _ _ _ e] e show ?thesis
    by (auto simp: data0_def)
qed

section \<open>Descriptor numbers\<close>

lemma unat_min: "unat (min a b) = min (unat a) (unat b)" and unat_max: "unat (max a b) = max (unat a) (unat b)"
  by (auto simp: min_def max_def word_le_nat_alt)

lemma unat_widen: "unat (ucast (x :: u16) :: u32) = unat x"
  by (simp add: unsigned_ucast_eq take_bit_nat_eq_self_iff order_less_le_trans [OF unsigned_less])

text \<open>The number after the alignment, while it stays within 16 bits.\<close>

lemma align_desc:
  fixes n align :: u16
  assumes a: "unat align = 2 ^ k" and n: "unat n + 2 ^ k \<le> 2 ^ 16"
  shows "unat (ucast (RTE_ALIGN_CEIL (ucast n) (ucast align) :: u32) :: u16) = (unat n + 2 ^ k - 1) div 2 ^ k * 2 ^ k"
proof -
  have k: "k < 16"
  proof (rule ccontr)
    assume "\<not> k < 16"
    then have "(2 :: nat) ^ 16 \<le> 2 ^ k" by (intro power_increasing) simp_all
    moreover have "unat align < 2 ^ LENGTH(16)" by (rule unsigned_less)
    ultimately show False using a by simp
  qed
  have u: "(ucast align :: u32) = 2 ^ k"
    using k a by (simp add: unat_widen unat_pow2_word word_unat_eq_iff)
  have c: "unat (RTE_ALIGN_CEIL (ucast n :: u32) (2 ^ k)) = (unat n + 2 ^ k - 1) div 2 ^ k * 2 ^ k"
    using align_ceil_pow2 [of k "ucast n :: u32"] k n by (simp add: unat_widen)
  have "(0 :: nat) < 2 ^ k" by simp
  then have "(unat n + 2 ^ k - 1) div 2 ^ k * 2 ^ k < 2 ^ 16"
    using n div_times_less_eq_dividend [of "unat n + 2 ^ k - 1" "2 ^ k"] by linarith
  with c show ?thesis by (simp add: u unsigned_ucast_eq take_bit_nat_eq_self)
qed

text \<open>
  If the limits of a device are multiples of its alignment, a power of two, the adjusted
  number of descriptors is accepted by the queue set-up, whatever number was asked for up to
  the last multiple of the alignment in 16 bits; it is at least the number asked for unless
  that is over the maximum.
\<close>

theorem adjusted_desc_accepted:
  assumes "unat (dl_nb_align lim) = 2 ^ k" "dl_nb_max lim \<noteq> 0" "dl_nb_min lim \<le> dl_nb_max lim"
    "unat (dl_nb_max lim) mod 2 ^ k = 0" "unat (dl_nb_min lim) mod 2 ^ k = 0" "unat n + 2 ^ k \<le> 2 ^ 16"
  shows "nb_desc_ok (eth_dev_adjust_nb_desc n lim) lim = Some True
    \<and> min (unat n) (unat (dl_nb_max lim)) \<le> unat (eth_dev_adjust_nb_desc n lim)"
proof -
  have z: "dl_nb_align lim \<noteq> 0" using assms(1) by (metis power_not_zero unat_0 zero_neq_numeral)
  let ?a = "(unat n + 2 ^ k - 1) div 2 ^ k * 2 ^ k"
  have e: "unat (eth_dev_adjust_nb_desc n lim) = max (min ?a (unat (dl_nb_max lim))) (unat (dl_nb_min lim))"
    unfolding eth_dev_adjust_nb_desc_def Let_def using z assms(2)
    by (simp only: if_True simp_thms not_False_eq_True unat_min unat_max align_desc [OF assms(1,6)])
  have "(unat n + 2 ^ k - 1) mod 2 ^ k < 2 ^ k" "(0 :: nat) < 2 ^ k" by simp_all
  with div_mult_mod_eq [of "unat n + 2 ^ k - 1" "2 ^ k"] have "unat n \<le> ?a" by linarith
  then have ge: "min (unat n) (unat (dl_nb_max lim)) \<le> unat (eth_dev_adjust_nb_desc n lim)" unfolding e by simp
  have "unat (eth_dev_adjust_nb_desc n lim) mod 2 ^ k = 0"
    unfolding e using assms(4,5) by (simp add: max_def min_def)
  then have m: "eth_dev_adjust_nb_desc n lim mod dl_nb_align lim = 0"
    by (simp add: unat_mod assms(1) word_unat_eq_iff)
  have "\<not> dl_nb_max lim < eth_dev_adjust_nb_desc n lim" "\<not> eth_dev_adjust_nb_desc n lim < dl_nb_min lim"
    using assms(3) by (simp_all add: word_less_nat_alt word_le_nat_alt e)
  with m z ge show ?thesis by (simp add: nb_desc_ok_def)
qed

theorem adjusted_desc_accepted_witness:
  "nb_desc_ok (eth_dev_adjust_nb_desc 1000 lim0) lim0 = Some True \<and> 1000 \<le> unat (eth_dev_adjust_nb_desc 1000 lim0)"
  using adjusted_desc_accepted [of lim0 3 1000] by (simp add: lim0_def)

text \<open>Just above, the sum is cut to 16 bits and the number asked for becomes the minimum.\<close>

lemma adjust_wraps: "eth_dev_adjust_nb_desc 65530 lim0 = 64"
  by code_simp

section \<open>Enumeration\<close>

definition usable :: "('b, 'h) eth_world \<Rightarrow> u16 \<Rightarrow> bool" where
  "usable w q \<longleftrightarrow> dv_state (dev_of w q) \<noteq> RTE_ETH_DEV_UNUSED \<and> ed_owner_id (data_of w q) = RTE_ETH_DEV_NO_OWNER"

lemma step_port:
  assumes "p < RTE_MAX_ETHPORTS"
  shows "p + 1 \<le> RTE_MAX_ETHPORTS" "p < p + 1" "p \<le> r \<longleftrightarrow> r = p \<or> p + 1 \<le> r"
  using assms unat_suc_word [OF assms]
  by (auto simp: RTE_MAX_ETHPORTS_def word_less_nat_alt word_le_nat_alt word_unat_eq_iff)

lemma find_next_spec:
  "p \<le> RTE_MAX_ETHPORTS \<Longrightarrow>
   (\<forall>r. p \<le> r \<and> r < rte_eth_find_next w p \<longrightarrow> dv_state (dev_of w r) = RTE_ETH_DEV_UNUSED)
   \<and> (rte_eth_find_next w p < RTE_MAX_ETHPORTS \<longrightarrow> dv_state (dev_of w (rte_eth_find_next w p)) \<noteq> RTE_ETH_DEV_UNUSED)"
proof (induction w p rule: rte_eth_find_next.induct)
  case (1 w p)
  show ?case
  proof (cases "p < RTE_MAX_ETHPORTS \<and> dv_state (dev_of w p) = RTE_ETH_DEV_UNUSED")
    case True
    then have "rte_eth_find_next w p = rte_eth_find_next w (p + 1)" by (simp add: rte_eth_find_next.simps [of w p])
    with 1(1) [OF True] step_port [of p] True show ?thesis by auto
  next
    case False
    with 1(2) show ?thesis by (auto simp: rte_eth_find_next.simps [of w p])
  qed
qed

lemma find_next_owned_spec:
  "p \<le> RTE_MAX_ETHPORTS \<Longrightarrow> (p < RTE_MAX_ETHPORTS \<longrightarrow> dv_state (dev_of w p) \<noteq> RTE_ETH_DEV_UNUSED) \<Longrightarrow>
   o' = RTE_ETH_DEV_NO_OWNER \<Longrightarrow>
   (\<forall>r. p \<le> r \<and> r < find_next_owned w p o' \<longrightarrow> \<not> usable w r)
   \<and> (find_next_owned w p o' < RTE_MAX_ETHPORTS \<longrightarrow> usable w (find_next_owned w p o'))"
proof (induction w p o' rule: find_next_owned.induct)
  case (1 w p o')
  show ?case
  proof (cases "p < RTE_MAX_ETHPORTS \<and> ed_owner_id (data_of w p) \<noteq> o'")
    case True
    let ?n = "rte_eth_find_next w (p + 1)"
    have e: "find_next_owned w p o' = find_next_owned w ?n o'" using True by (simp add: find_next_owned.simps [of w p])
    note sp = step_port [of p]
    from True have p1: "p + 1 \<le> RTE_MAX_ETHPORTS" using sp(1) by simp
    from 1(1) [OF True] find_next_ge [OF refl p1, of w] find_next_spec [OF p1, of w] 1(4)
    have ih: "\<forall>r. ?n \<le> r \<and> r < find_next_owned w ?n o' \<longrightarrow> \<not> usable w r"
      "find_next_owned w ?n o' < RTE_MAX_ETHPORTS \<longrightarrow> usable w (find_next_owned w ?n o')" by auto
    have "\<not> usable w r" if pr: "p \<le> r" and rq: "r < find_next_owned w ?n o'" for r
    proof -
      consider "r = p" | "p + 1 \<le> r" "r < ?n" | "?n \<le> r" using pr sp(3) [of r] True by (metis linorder_not_less)
      then show ?thesis
        using True 1(4) find_next_spec [OF p1, of w] ih(1) rq by cases (auto simp: usable_def)
    qed
    with ih e show ?thesis by auto
  next
    case False
    with 1(2,3,4) show ?thesis by (auto simp: find_next_owned.simps [of w p] usable_def)
  qed
qed

definition usable_from :: "('b, 'h) eth_world \<Rightarrow> u16 \<Rightarrow> u16 set" where
  "usable_from w p = {q. p \<le> q \<and> q < RTE_MAX_ETHPORTS \<and> usable w q}"

lemma next_usable:
  fixes w :: "('b, 'h) eth_world"
  assumes "p \<le> RTE_MAX_ETHPORTS"
  defines "q \<equiv> rte_eth_find_next_owned_by w p RTE_ETH_DEV_NO_OWNER"
  shows "usable_from w p = usable_from w q" "q < RTE_MAX_ETHPORTS \<longrightarrow> usable w q" "q \<le> RTE_MAX_ETHPORTS"
proof -
  let ?n = "rte_eth_find_next w p"
  have g: "p \<le> ?n" "?n \<le> RTE_MAX_ETHPORTS" using find_next_ge [OF refl assms(1), of w] by simp_all
  note n = find_next_spec [OF assms(1), of w]
  note o' = find_next_owned_spec [OF g(2), of w RTE_ETH_DEV_NO_OWNER] find_next_owned_ge [OF refl g(2), of w RTE_ETH_DEV_NO_OWNER]
  have q: "q = find_next_owned w ?n RTE_ETH_DEV_NO_OWNER" by (simp add: q_def rte_eth_find_next_owned_by_def)
  show "q < RTE_MAX_ETHPORTS \<longrightarrow> usable w q" "q \<le> RTE_MAX_ETHPORTS" using n o' q by auto
  have "q \<le> r" if "p \<le> r" "usable w r" for r
  proof (rule ccontr)
    assume "\<not> q \<le> r"
    then have lt: "r < q" by simp
    show False
    proof (cases "r < ?n")
      case True
      with that n show False by (simp add: usable_def)
    next
      case False
      then have "?n \<le> r" by simp
      with n o'(1) lt q have "\<not> usable w r" by blast
      with that show False by simp
    qed
  qed
  moreover have "p \<le> q" using g(1) o'(2) q by auto
  ultimately show "usable_from w p = usable_from w q" by (auto simp: usable_from_def)
qed

lemma count_devs_spec:
  "q \<le> RTE_MAX_ETHPORTS \<Longrightarrow> (q < RTE_MAX_ETHPORTS \<longrightarrow> usable w q) \<Longrightarrow>
   count_devs w q c = c + of_nat (card (usable_from w q))"
proof (induction w q c rule: count_devs.induct)
  case (1 w q c)
  show ?case
  proof (cases "q < RTE_MAX_ETHPORTS")
    case True
    note sp = step_port [OF True]
    let ?q = "rte_eth_find_next_owned_by w (q + 1) RTE_ETH_DEV_NO_OWNER"
    have "usable_from w q = insert q (usable_from w (q + 1))"
      using True 1(3) sp(3) by (auto simp: usable_from_def)
    moreover have "q \<notin> usable_from w (q + 1)" using sp(2) by (auto simp: usable_from_def dest: leD)
    ultimately have "card (usable_from w q) = Suc (card (usable_from w (q + 1)))" by simp
    with 1(1) [OF True] next_usable [OF sp(1), of w] show ?thesis
      using True by (simp add: count_devs.simps [of w q])
  next
    case False
    then have "usable_from w q = {}" by (auto simp: usable_from_def)
    with False show ?thesis by (simp add: count_devs.simps [of w q])
  qed
qed

text \<open>
  The number of available ports is the number of ports in use that nobody owns; it says
  nothing of their identifiers, which need not be the first ones.
\<close>

theorem count_avail_exact:
  "unat (rte_eth_dev_count_avail w) = card {p. p < RTE_MAX_ETHPORTS \<and> usable w p}"
proof -
  have le: "card {p. p < RTE_MAX_ETHPORTS \<and> usable w p} \<le> card {..<32 :: nat}"
    by (rule card_inj_on_le [of unat])
      (auto intro!: inj_onI simp: word_unat_eq_iff RTE_MAX_ETHPORTS_def word_less_nat_alt)
  have z: "(0 :: u16) \<le> RTE_MAX_ETHPORTS" by simp
  have "usable_from w 0 = {p. p < RTE_MAX_ETHPORTS \<and> usable w p}" by (auto simp: usable_from_def)
  with count_devs_spec [of "rte_eth_find_next_owned_by w 0 RTE_ETH_DEV_NO_OWNER" w 0] next_usable [OF z, of w] le
  show ?thesis by (simp add: rte_eth_dev_count_avail_def unat_of_nat)
qed

end
