(* ===== verification/App_Main_Properties.thy ===== *)
theory App_Main_Properties
  imports App_Main App_Properties Ethdev_Properties
begin

text \<open>The bring-up of the port, and the program without a kernel interface.\<close>

section \<open>Errors of a driver are negative\<close>

definition cb_neg :: "('b, 'h) eth_callback \<Rightarrow> bool" where
  "cb_neg cb \<longleftrightarrow> (\<forall>d h. fst (cb d h) \<le> 0)"

text \<open>The callbacks of a driver answer 0 or the negative of an error number.\<close>

definition driver_neg :: "('b, 'h) eth_dev_ops \<Rightarrow> bool" where
  "driver_neg ops \<longleftrightarrow>
     pred_option cb_neg (do_dev_start ops) \<and> pred_option cb_neg (do_promiscuous_enable ops)
   \<and> pred_option cb_neg (do_promiscuous_disable ops) \<and> pred_option cb_neg (do_allmulticast_enable ops)
   \<and> pred_option cb_neg (do_allmulticast_disable ops)
   \<and> pred_option (\<lambda>f. \<forall>d h i. fst (f d h i) \<le> 0) (do_dev_infos_get ops)"

lemma eth_err_neg: "ret \<le> 0 \<Longrightarrow> fst (eth_err p ret w) \<le> 0"
  by (auto simp: eth_err_def split: prod.split)

lemma call_dev_neg: "cb_neg cb \<Longrightarrow> fst (call_dev cb p w) \<le> 0"
  by (auto simp: call_dev_def cb_neg_def split: prod.split) (metis fst_conv)

lemma info_get_neg: "driver_neg (ops_of w p) \<Longrightarrow> fst (rte_eth_dev_info_get w p i) \<le> 0"
  using eth_err_neg [of _ p w]
  by (auto simp: rte_eth_dev_info_get_def driver_neg_def Let_def split: option.split prod.split) (metis fst_conv)+

lemma replay_neg: "pred_option cb_neg en \<Longrightarrow> pred_option cb_neg dis \<Longrightarrow> fst (replay_mode m en dis p w) \<le> 0"
proof (cases "if m = 1 \<and> en \<noteq> None then en else if m = 0 \<and> dis \<noteq> None then dis else None")
  case None
  then show ?thesis by (simp add: replay_mode_def)
next
  case (Some cb)
  assume "pred_option cb_neg en" "pred_option cb_neg dis"
  with Some have "cb_neg cb" by (auto split: if_splits)
  then have "fst (call_dev cb p w) \<le> 0" by (rule call_dev_neg)
  moreover obtain r w1 where c: "call_dev cb p w = (r, w1)" by (metis surj_pair)
  moreover obtain r' w2 where "eth_err p r w1 = (r', w2)" by (metis surj_pair)
  ultimately show ?thesis using eth_err_neg [of r p w1] Some by (simp add: replay_mode_def)
qed

lemma config_restore_neg:
  fixes w :: "('b, 'h) eth_world"
  assumes d: "driver_contract (ops_of w p)" and n: "driver_neg (ops_of w p)"
  shows "fst (eth_dev_config_restore p di w) \<le> 0"
proof -
  define w1 where "w1 = (if ed_dev_flags (data_of w p) AND RTE_ETH_DEV_NOLIVE_MAC_ADDR = 0
                         then eth_dev_mac_restore p di w else w)"
  have o1: "ops_of w1 p = ops_of w p" using keeps_ops [OF keeps_mac_restore [OF d]] by (simp add: w1_def)
  obtain r w2 where r: "replay_mode (rte_eth_promiscuous_get w1 p) (do_promiscuous_enable (ops_of w1 p))
      (do_promiscuous_disable (ops_of w1 p)) p w1 = (r, w2)" by (metis surj_pair)
  have "keeps p w1 (snd (replay_mode (rte_eth_promiscuous_get w1 p) (do_promiscuous_enable (ops_of w1 p))
      (do_promiscuous_disable (ops_of w1 p)) p w1))"
    by (rule keeps_replay) (use d in \<open>simp_all add: o1 driver_contract_def\<close>)
  with r o1 have o2: "ops_of w2 p = ops_of w p" by (simp add: keeps_ops)
  show ?thesis
    unfolding eth_dev_config_restore_def Let_def w1_def [symmetric] r prod.case
    using n replay_neg [of "do_promiscuous_enable (ops_of w p)" "do_promiscuous_disable (ops_of w p)"
        "rte_eth_promiscuous_get w1 p" p w1] r
    by (auto simp: o1 o2 driver_neg_def intro!: replay_neg)
qed

lemma start_neg:
  fixes w :: "('b, 'h) eth_world"
  assumes wf: "port_wf p w" and n: "driver_neg (ops_of w p)" and s: "rte_eth_dev_start w p = (r, w')"
  shows "r \<le> 0"
proof (cases "\<exists>cb. rte_eth_dev_is_valid_port w p \<and> do_dev_start (ops_of w p) = Some cb
                \<and> ed_dev_configured (data_of w p) \<and> \<not> ed_dev_started (data_of w p)")
  case False
  with s show ?thesis by (auto simp: rte_eth_dev_start_def split: if_splits option.splits)
next
  case True
  then obtain cb where v: "rte_eth_dev_is_valid_port w p" and cb: "do_dev_start (ops_of w p) = Some cb"
    and cf: "ed_dev_configured (data_of w p)" and ns: "\<not> ed_dev_started (data_of w p)" by auto
  note dk = port_wf_driver [OF wf]
  obtain r1 di w1 where i: "rte_eth_dev_info_get w p zero_dev_info = (r1, di, w1)" by (metis surj_pair)
  from keeps_info_get [of p w zero_dev_info] i have k1: "keeps p w w1" by simp
  define w2 where "w2 = (if ed_dev_flags (data_of w1 p) AND RTE_ETH_DEV_NOLIVE_MAC_ADDR \<noteq> 0
                         then eth_dev_mac_restore p di w1 else w1)"
  from dk k1 have "driver_contract (ops_of w1 p)" by (simp add: keeps_ops)
  from keeps_mac_restore [OF this, of di] k1 have k2: "keeps p w w2" by (auto simp: w2_def intro: keeps_trans)
  obtain r3 w3 where c: "call_dev cb p w2 = (r3, w3)" by (metis surj_pair)
  from frame_call_upd [OF c] k2 have f3: "frame p w w3" by (auto simp: keeps_def intro: frame_trans)
  define w4 where "w4 = upd_data w3 p (\<lambda>d. d\<lparr>ed_dev_started := True\<rparr>)"
  have o4: "ops_of w4 p = ops_of w p" using f3 by (simp add: w4_def frame_def)
  have "fst (eth_dev_config_restore p di w4) \<le> 0" by (rule config_restore_neg) (use dk n o4 in simp_all)
  then have "fst (start_restore p di w4) \<le> 0"
    by (auto simp: start_restore_def split: prod.split option.split)
  moreover have "r1 \<le> 0" using info_get_neg [OF n, of zero_dev_info] i by simp
  moreover have "r3 \<le> 0" using call_dev_neg [of cb p w2] n cb c by (simp add: driver_neg_def)
  moreover have "(r, w') = (if r1 \<noteq> 0 then (r1, w1) else if r3 \<noteq> 0 then eth_err p r3 w3 else start_restore p di w4)"
    using s by (cases "r1 = 0"; cases "r3 = 0")
      (simp_all add: rte_eth_dev_start_def v cb cf ns i c Let_def flip: w2_def w4_def)
  ultimately show ?thesis using eth_err_neg [of r3 p w3] by (metis fst_conv)
qed

section \<open>The port\<close>

lemma promiscuous_enable_0:
  assumes "rte_eth_promiscuous_enable w p = (0, w')" "unat p < length (ew_devices w)"
  shows "ed_promiscuous (data_of w' p)"
proof (cases "ed_promiscuous (data_of w p)")
  case True
  with assms show ?thesis by (auto simp: rte_eth_promiscuous_enable_def split: if_splits)
next
  case False
  with assms(1) obtain en r w1 where c: "call_dev en p w = (r, w1)"
    "eth_err p r (upd_data w1 p (\<lambda>d. d\<lparr>ed_promiscuous := (r = 0)\<rparr>)) = (0, w')"
    by (auto simp: rte_eth_promiscuous_enable_def Let_def split: if_splits option.splits prod.splits)
  have "r = 0" using c(2) by (auto simp: eth_err_def split: prod.splits if_splits)
  moreover have "length (ew_devices w1) = length (ew_devices w)"
    using frame_call [of p w en] c(1) by (simp add: frame_def)
  ultimately show ?thesis using c(2) assms(2) by (auto simp: eth_err_def)
qed

lemma configure_0_stopped: "rte_eth_dev_configure w p nr nt c = (0, w') \<Longrightarrow> \<not> ed_dev_started (data_of w p)"
  by (auto simp: rte_eth_dev_configure_def split: option.splits if_splits)

text \<open>The end of the bring-up, from a stopped port.\<close>

lemma port_run_spec:
  fixes w :: "('b, 'e) eth_world"
  assumes wf: "port_wf p w" and n: "driver_neg (ops_of w p)" and ns: "\<not> ed_dev_started (data_of w p)"
    and r: "port_run w p = (0, w')" and pl: "p < RTE_MAX_ETHPORTS"
  shows "ed_dev_started (data_of w' p) \<and> ed_dev_configured (data_of w' p) \<and> ed_promiscuous (data_of w' p)
    \<and> fo_burst (ew_fp_ops w' ! unat p) \<noteq> None \<and> fo_queues (ew_fp_ops w' ! unat p) \<and> frame p w w'"
proof -
  obtain r1 w1 where s: "rte_eth_dev_start w p = (r1, w1)" by (metis surj_pair)
  have "r1 \<le> 0" by (rule start_neg [OF wf n s])
  with r s have z: "rte_eth_dev_start w p = (0, w1)" "rte_eth_promiscuous_enable w1 p = (0, w')"
    by (auto simp: port_run_def split: if_splits prod.splits)
  from wf z(1) have *: "frame p w w1 \<and> ed_dev_started (data_of w1 p) \<and> ed_dev_configured (data_of w1 p)
    \<and> fo_burst (ew_fp_ops w1 ! unat p) \<noteq> None \<and> fo_queues (ew_fp_ops w1 ! unat p)"
  proof (cases rule: start_cases)
    case kept
    with ns show ?thesis by simp
  next
    case (started w2 di)
    from start_restore_spec [OF port_wf_frame [OF started(1) wf] started(6,3,5)] started
    show ?thesis by (auto intro: frame_trans)
  qed
  then have wf1: "port_wf p w1" using wf by (auto intro: port_wf_frame)
  from keeps_promiscuous_enable [OF port_wf_driver [OF wf1]] z(2) have k: "keeps p w1 w'" by simp
  have "ed_promiscuous (data_of w' p)"
    by (rule promiscuous_enable_0 [OF z(2)]) (use port_index [OF pl wf1] in simp)
  with k * show ?thesis by (auto simp: keeps_def intro: frame_trans)
qed

text \<open>
  C5: If \<open>port_init\<close> succeeds, the port is configured, started and promiscuous, its fast path
  leads to the driver's burst functions and queues, and no other port has changed. The driver
  of the port is any that meets \<open>driver_contract\<close> (\<open>Ethdev_Flags\<close>: configuring, stopping and
  failing to start do not mark a stopped device as started; the other callbacks leave the flags
  alone) and answers 0 or a negative number, as the functions of ethdev document.
\<close>

theorem port_init_brings_up:
  fixes w :: "('b, 'e) eth_world"
  assumes wf: "port_wf p w" and n: "driver_neg (ops_of w p)" and r: "port_init mw w p pool = Some (0, w')"
  shows "ed_dev_configured (data_of w' p) \<and> ed_dev_started (data_of w' p) \<and> ed_promiscuous (data_of w' p)
    \<and> fo_burst (ew_fp_ops w' ! unat p) \<noteq> None \<and> fo_queues (ew_fp_ops w' ! unat p) \<and> frame p w w'"
proof -
  from r have v: "rte_eth_dev_is_valid_port w p" by (auto simp: port_init_def split: if_splits)
  note pl = valid_port_less [OF v]
  obtain r1 di w1 where i: "rte_eth_dev_info_get w p zero_dev_info = (r1, di, w1)" by (metis surj_pair)
  define conf where "conf = (if di_tx_offload_capa di AND RTE_ETH_TX_OFFLOAD_MBUF_FAST_FREE \<noteq> 0
                           then zero_eth_conf\<lparr>ec_tx_offloads := RTE_ETH_TX_OFFLOAD_MBUF_FAST_FREE\<rparr> else zero_eth_conf)"
  obtain r2 w2 where c: "rte_eth_dev_configure w1 p 1 1 (Some conf) = (r2, w2)" by (metis surj_pair)
  obtain r3 nr nt w3 where a: "rte_eth_dev_adjust_nb_rx_tx_desc w2 p (Some RX_RING_SIZE) (Some TX_RING_SIZE) = (r3, nr, nt, w3)"
    by (metis surj_pair)
  from r have z: "r1 = 0" "r2 = 0" "r3 = 0"
    by (auto simp: port_init_def v i c a Let_def simp flip: conf_def split: if_splits)
  from r obtain r4 w4 r5 w5 x s1 s2 tc where q: "rte_eth_rx_queue_setup mw w3 p 0 x s1 None pool = Some (r4, w4)"
    "rte_eth_tx_queue_setup w4 p 0 (the nt) s2 tc = Some (r5, w5)" "port_run w5 p = (0, w')"
    by (auto simp: port_init_def v i c a z Let_def bind_eq_Some_conv simp flip: conf_def split: if_splits)
  from keeps_info_get [of p w zero_dev_info] i have k1: "keeps p w w1" by simp
  have d1: "driver_contract (ops_of w1 p)" using port_wf_driver [OF wf] k1 by (simp add: keeps_ops)
  from keeps_started_configure [OF d1, of 1 1 "Some conf"] c have k2: "keeps_started p w1 w2" by simp
  have "keeps p w2 (snd (snd (rte_eth_dev_info_get w2 p zero_dev_info)))" by (rule keeps_info_get)
  with a have k3: "keeps p w2 w3" by (auto simp: rte_eth_dev_adjust_nb_rx_tx_desc_def split: if_splits prod.splits)
  from k1 k2 k3 have k: "keeps_started p w w3" by (metis keeps_imp_started keeps_started_trans)
  then have d3: "driver_contract (ops_of w3 p)" using port_wf_driver [OF wf] by (simp add: keeps_started_def frame_def)
  note k4 = keeps_rx_queue_setup [OF d3 q(1)]
  have d4: "driver_contract (ops_of w4 p)" using d3 k4 by (simp add: keeps_ops)
  note k5 = keeps_tx_queue_setup [OF d4 q(2)]
  have k': "keeps_started p w w5" using k k4 k5 by (metis keeps_imp_started keeps_started_trans)
  have ns: "\<not> ed_dev_started (data_of w5 p)"
    using configure_0_stopped [of w1 p 1 1 "Some conf" w2] c z k1 k' by (simp add: keeps_started_def keeps_def)
  have f: "frame p w w5" by (rule keeps_started_frame [OF k'])
  have "driver_neg (ops_of w5 p)" using n f by (simp add: frame_def)
  from port_run_spec [OF port_wf_frame [OF f wf] this ns q(3) pl] f show ?thesis by (auto intro: frame_trans)
qed

text \<open>The bring-up on a port whose driver accepts everything, with the pool of \<open>world0\<close>.\<close>

definition port0 :: "rte_eth_dev_data \<Rightarrow> (nat, unit) eth_world" where
  "port0 d = upd_data (eth_with driver0 False) 0 (\<lambda>_. d)"

lemma port0_simps [simp]:
  "data_of (port0 d) 0 = d" "ew_ops (port0 d) ! 0 = driver0" "rte_eth_dev_is_valid_port (port0 d) 0"
  "upd_data (port0 d) 0 f = port0 (f d)" "ew_zmalloc (port0 d) s" "dv_driver_name (dev_of (port0 d) 0) = ''net''"
  by (simp_all add: port0_def upd_data_def set_dev_def dev_of_def) (simp_all add: eth_with_def rte_eth_dev_is_valid_port_def
      dev_of_def RTE_MAX_ETHPORTS_def)

lemma port0_start: "eth_with driver0 False = port0 data0"
  by (simp add: port0_def upd_data_def set_dev_def dev_of_def eth_with_def data0_def)

lemma port0_info: "rte_eth_dev_info_get (port0 d) 0 i =
    (0, info0\<lparr>di_driver_name := ''net'', di_nb_rx_queues := ed_nb_rx_queues d, di_nb_tx_queues := ed_nb_tx_queues d\<rparr>, port0 d)"
  by (simp add: rte_eth_dev_info_get_def info0_def zero_dev_info_def RTE_MAX_QUEUES_PER_PORT_def)

definition data1 :: rte_eth_dev_data where
  "data1 = data0\<lparr>ed_dev_configured := True, ed_dev_conf := zero_eth_conf\<lparr>ec_rx_mtu := 1500\<rparr>, ed_mtu := 1500,
     ed_rx_queues := Some (replicate 1024 NULL), ed_tx_queues := Some (replicate 1024 NULL),
     ed_nb_rx_queues := 1, ed_nb_tx_queues := 1\<rparr>"

lemma info0_sel [simp]:
  "di_min_mtu info0 = 68" "di_max_mtu info0 = 9000" "di_max_rx_pktlen info0 = 9018" "di_min_rx_bufsize info0 = 1024"
  "di_max_rx_queues info0 = 16" "di_max_tx_queues info0 = 16" "di_rx_offload_capa info0 = 0" "di_tx_offload_capa info0 = 0"
  "di_flow_type_rss_offloads info0 = 0" "di_rx_desc_lim info0 = lim0" "di_tx_desc_lim info0 = lim0"
  "di_rx_queue_offload_capa info0 = 0" "di_tx_queue_offload_capa info0 = 0" "di_default_rxconf info0 = di_default_rxconf zero_dev_info"
  by (simp_all add: info0_def zero_dev_info_def)

lemma check0:
  "configure_check (info0\<lparr>di_driver_name := n, di_nb_rx_queues := a, di_nb_tx_queues := b\<rparr>) 1 1 zero_eth_conf
     (data0\<lparr>ed_dev_configured := False, ed_dev_conf := zero_eth_conf\<rparr>) =
   (0, data0\<lparr>ed_dev_conf := zero_eth_conf\<lparr>ec_rx_mtu := 1500\<rparr>, ed_mtu := 1500\<rparr>)"
  by (simp add: configure_check_def RTE_MAX_QUEUES_PER_PORT_def zero_eth_conf_def data0_def Let_def RTE_ETHER_MTU_def
      RTE_ETHER_HDR_LEN_def RTE_ETHER_CRC_LEN_def eth_dev_validate_mtu_def eth_dev_get_overhead_len_def
      RTE_ETHER_MIN_LEN_def rte_eth_rss_hf_refine_def)

lemma configure0: "rte_eth_dev_configure (port0 data0) 0 1 1 (Some zero_eth_conf) = (0, port0 data1)"
proof -
  have d: "ed_dev_started data0 = False" "ed_rx_queues data0 = None" "ed_tx_queues data0 = None" by (simp_all add: data0_def)
  show ?thesis
    by (simp add: rte_eth_dev_configure_def port0_info configure_numbers_def Let_def d check0 configure_device_def
        eth_dev_rx_queue_config_def eth_dev_tx_queue_config_def RTE_MAX_QUEUES_PER_PORT_def eth_dev_validate_offloads_spec)
      (simp add: data1_def data0_def)
qed

lemma desc0: "nb_desc_ok (eth_dev_adjust_nb_desc 1024 lim0) lim0 = Some True" "eth_dev_adjust_nb_desc 1024 lim0 \<noteq> 0"
  by code_simp+

lemma data1_sel [simp]:
  "ed_nb_rx_queues data1 = 1" "ed_nb_tx_queues data1 = 1" "ed_dev_started data1 = False" "ed_dev_configured data1"
  "queue_at (ed_rx_queues data1) 0 = NULL" "queue_at (ed_tx_queues data1) 0 = NULL" "ed_min_rx_buf_size data1 = 0"
  "ec_rx_offloads (ed_dev_conf data1) = 0" "ec_tx_offloads (ed_dev_conf data1) = 0" "ec_lsc (ed_dev_conf data1) = False"
  "ed_dev_flags data1 = 0" "ed_promiscuous data1 = False" "ed_all_multicast data1 = False"
  by (simp_all add: data1_def data0_def queue_at_def zero_eth_conf_def)

abbreviation data2 :: rte_eth_dev_data where "data2 \<equiv> data1\<lparr>ed_min_rx_buf_size := 2176\<rparr>"

lemma rx_setup0:
  "rte_eth_rx_queue_setup world0 (port0 data1) 0 0 (eth_dev_adjust_nb_desc 1024 lim0) s None 0x900 = Some (0, port0 data2)"
  by (simp add: rte_eth_rx_queue_setup_def port0_info rx_buffers_check_def world0_pool rte_pktmbuf_data_room_size_def desc0
      pool7_def pool_of_def sizeof_pktmbuf_pool_private_def RTE_PKTMBUF_HEADROOM_def eth_dev_rxq_release_def
      rx_queue_to_driver_def zero_dev_info_def eth_err_def)

lemma tx_setup0:
  "rte_eth_tx_queue_setup (port0 data2) 0 0 (eth_dev_adjust_nb_desc 1024 lim0) s (Some (tc\<lparr>tc_offloads := 0\<rparr>)) = Some (0, port0 data2)"
  by (simp add: rte_eth_tx_queue_setup_def port0_info desc0 eth_dev_txq_release_def eth_err_def)

lemma conf_tx0 [simp]: "ec_tx_offloads zero_eth_conf = 0" by (simp add: zero_eth_conf_def)

text \<open>The started port, with its fast path.\<close>

definition up0 :: "(nat, unit) eth_world" where
  "up0 = eth_dev_fp_ops_setup 0 (port0 (data2\<lparr>ed_dev_started := True\<rparr>))"

lemma up0_start: "rte_eth_dev_start (port0 data2) 0 = (0, up0)"
  by (simp add: rte_eth_dev_start_def port0_info start_restore_def eth_dev_config_restore_def replay_mode_def
      rte_eth_promiscuous_get_def rte_eth_allmulticast_get_def eth_dev_mac_restore_def eth_err_def Let_def up0_def info0_def
      zero_dev_info_def)

lemma up0_simps [simp]:
  "rte_eth_dev_is_valid_port up0 0" "data_of up0 0 = data2\<lparr>ed_dev_started := True\<rparr>" "ew_ops up0 ! 0 = driver0"
proof -
  have e: "ew_devices up0 = ew_devices (port0 (data2\<lparr>ed_dev_started := True\<rparr>))" "ew_ops up0 = ew_ops (port0 (data2\<lparr>ed_dev_started := True\<rparr>))"
    by (simp_all add: up0_def eth_dev_fp_ops_setup_def)
  then have "dev_of up0 = dev_of (port0 (data2\<lparr>ed_dev_started := True\<rparr>))" by (simp add: dev_of_def fun_eq_iff)
  with e show "rte_eth_dev_is_valid_port up0 0" "data_of up0 0 = data2\<lparr>ed_dev_started := True\<rparr>" "ew_ops up0 ! 0 = driver0"
    using port0_simps(3) [of "data2\<lparr>ed_dev_started := True\<rparr>"] by (simp_all add: rte_eth_dev_is_valid_port_def)
qed

lemma port_init_runs: "\<exists>w'. port_init world0 (eth_with driver0 False) 0 0x900 = Some (0, w')"
  by (simp add: port_init_def port0_start port0_info configure0 rte_eth_dev_adjust_nb_rx_tx_desc_def RX_RING_SIZE_def TX_RING_SIZE_def
      rx_setup0 tx_setup0 port_run_def up0_start rte_eth_macaddr_get_def rte_eth_promiscuous_enable_def eth_err_def)

lemma driver0_neg: "driver_neg driver0"
  by (simp add: driver_neg_def cb_neg_def ok_cb_def)

theorem port_init_brings_up_witness:
  "\<exists>w'. port_init world0 (eth_with driver0 False) 0 0x900 = Some (0, w') \<and> ed_dev_started (data_of w' 0)
     \<and> ed_promiscuous (data_of w' 0) \<and> fo_burst (ew_fp_ops w' ! unat (0 :: u16)) \<noteq> None"
proof -
  obtain w' where e: "port_init world0 (eth_with driver0 False) 0 0x900 = Some (0, w')" using port_init_runs by auto
  from port_init_brings_up [OF eth_with_wf(2) [OF driver0_contract] _ e] e show ?thesis by (simp add: driver0_neg)
qed

section \<open>Without a kernel interface\<close>

text \<open>With \<open>kni\<close> null no step changes it or the number of packets handed to the kernel.\<close>

definition quiet :: "('p, 'h) app_state \<Rightarrow> ('p, 'h) app_state \<Rightarrow> bool" where
  "quiet g g' \<longleftrightarrow> as_kni g' = as_kni g \<and> as_kni_packets g' = as_kni_packets g"

lemma quiet_refl [simp]: "quiet g g" by (simp add: quiet_def)
lemma quiet_trans: "quiet g h \<Longrightarrow> quiet h k \<Longrightarrow> quiet g k" by (simp add: quiet_def)

lemma free_packet_quiet: "free_packet m g = Some g' \<Longrightarrow> quiet g g'"
  by (auto simp: free_packet_def bind_eq_Some_conv quiet_def)

lemma forward_packet_quiet:
  assumes "forward_packet env m g = Some g'"
  shows "quiet g g'"
proof -
  from forward_packet_event [OF assms] obtain ev where ev: "forward_event env g m = Some ev" by blast
  from forward_packet_ok [OF ev] assms obtain hw c where "g' = sent g hw ev c" by auto
  then show ?thesis by (simp add: quiet_def sent_def)
qed

lemma process_packet_quiet:
  assumes "process_packet env m g = Some g'" "as_kni g = NULL"
  shows "quiet g g'"
proof -
  from assms(1) obtain c where c: "classify (as_mbufs g) m = Some c" by (auto simp: process_packet_def bind_eq_Some_conv)
  consider "send_to_kni m g = Some g'" | h where "forward_packet env m g = Some h" "free_packet m h = Some g'"
    using assms(1) c by (auto simp: process_packet_def bind_eq_Some_conv split: pkt_class.splits if_splits)
  then show ?thesis
  proof cases
    case 1
    with assms(2) show ?thesis by (auto simp: send_to_kni_def dest: free_packet_quiet)
  next
    case (2 h)
    then show ?thesis by (blast dest: forward_packet_quiet free_packet_quiet intro: quiet_trans)
  qed
qed

lemma process_burst_quiet: "process_burst env ms g = Some g' \<Longrightarrow> as_kni g = NULL \<Longrightarrow> quiet g g'"
proof (induction ms arbitrary: g)
  case (Cons m ms)
  then obtain h where h: "process_packet env m g = Some h" "process_burst env ms h = Some g'"
    by (auto simp: bind_eq_Some_conv)
  from process_packet_quiet [OF h(1) Cons.prems(2)] have q: "quiet g h" .
  with Cons.IH [OF h(2)] Cons.prems(2) show ?case by (auto simp: quiet_def)
qed simp

lemma lcore_step_quiet:
  assumes "lcore_step env g g'" "as_kni g = NULL"
  shows "quiet g g'"
  using assms(1)
proof cases
  case (round bufs)
  then obtain nb b h where h: "rte_eth_rx_burst env (as_port_id g) 0 bufs (of_nat BURST_SIZE) g = Some (nb, b, h)"
    "(if nb = 0 then Some h else if length b < unat nb then None
      else process_burst env (take (unat nb) b) (h\<lparr>as_total_packets := as_total_packets h + ucast nb\<rparr>)) = Some g'"
    using assms(2) by (auto simp: lcore_iter_def bind_eq_Some_conv split: prod.splits)
  from h(1) have q: "quiet g h" by (auto simp: rte_eth_rx_burst_def bind_eq_Some_conv quiet_def set_mbufs_def)
  with process_burst_quiet [of env "take (unat nb) b" "h\<lparr>as_total_packets := as_total_packets h + ucast nb\<rparr>" g'] h(2) assms(2)
  show ?thesis by (auto simp: quiet_def split: if_splits)
next
  case (sig signum)
  then show ?thesis by (simp add: signal_handler_def quiet_def)
qed

lemma lcore_steps_quiet:
  assumes "(lcore_step env)\<^sup>*\<^sup>* g g'" "as_kni g = NULL"
  shows "quiet g g'"
  using assms(1)
proof (induction rule: rtranclp_induct)
  case (step h k)
  with assms(2) lcore_step_quiet [of env h k] show ?case by (simp add: quiet_def)
qed simp

lemma open_forward_quiet: "open_forward sys ifname g = (fd, g') \<Longrightarrow> quiet g g'"
  by (auto simp: open_forward_def quiet_def split: if_splits prod.splits)

lemma main_enter_quiet:
  assumes "main_enter sys args (g, w) = Some (Running (g', w'))"
  shows "quiet g g'"
proof -
  from assms obtain ifname where i: "as_forward_ifname g = Some ifname" by (auto simp: main_enter_def bind_eq_Some_conv)
  obtain fd h where f: "open_forward sys ifname g = (fd, h)" by (metis surj_pair)
  from open_forward_quiet [OF f] assms i f show ?thesis
    by (auto simp: main_enter_def quiet_def Let_def split: if_splits)
qed

lemma init_kni_closed:
  assumes "init_kni env pool p name (g, w) = Some (r, g', w')" "kw_fd (as_kw g) < 0"
  shows "r = - 1 \<and> as_kni g' = NULL \<and> as_kni_packets g' = as_kni_packets g"
  using assms by (auto simp: init_kni_def rte_kni_alloc_def bind_eq_Some_conv kni_conf_of_def split: prod.splits if_splits)

lemma main_setup_closed:
  assumes "main_setup sys cfg (g, w) = Some (Running (g', w'))" "kw_fd (as_kw g) < 0" "as_kni g = NULL"
  shows "quiet g g'"
proof -
  let ?g = "g\<lparr>as_port_id := ac_port_id cfg, as_forward_ifname := ac_forward_ifname cfg\<rparr>"
  obtain pool mw where p: "sy_pool_create sys (as_mbufs ?g) = (pool, mw)" by (metis surj_pair)
  let ?g1 = "set_mbufs ?g mw"
  from assms(1) p obtain w1 g2 w2 where m:
    "(case ac_kni_name cfg of None \<Rightarrow> Some (?g1, w1)
       | Some kni_name \<Rightarrow> map_option snd (init_kni (sy_kni sys) pool (as_port_id ?g1) kni_name (?g1, w1))) = Some (g2, w2)"
    and e: "main_enter sys (ac_rule_args cfg) (g2, w2) = Some (Running (g', w'))"
    by (auto simp: main_setup_def Let_def bind_eq_Some_conv split: if_splits)
  have "quiet g g2"
  proof (cases "ac_kni_name cfg")
    case None
    with m show ?thesis by (auto simp: quiet_def)
  next
    case (Some name)
    with m obtain r' where "init_kni (sy_kni sys) pool (as_port_id ?g1) name (?g1, w1) = Some (r', g2, w2)" by auto
    from init_kni_closed [OF this] assms(2,3) show ?thesis by (simp add: quiet_def set_mbufs_def)
  qed
  from quiet_trans [OF this main_enter_quiet [OF e]] show ?thesis .
qed

text \<open>
  C14: \<open>main\<close> never calls \<open>rte_kni_init\<close>. From its static state, in which the device of the
  kernel interface is not open, every run of the program, with \<open>-k\<close> or without, enters the
  packet loop without a kernel interface, and no packet is ever handed to the kernel.
\<close>

theorem kernel_interface_never_exists:
  assumes "main_start sys argv (g, w) = Some (Running (g', w'))" "kw_fd (as_kw g) < 0" "as_kni g = NULL"
    "(lcore_step env)\<^sup>*\<^sup>* g' g''"
  shows "as_kni g'' = NULL \<and> as_kni_packets g'' = as_kni_packets g"
proof -
  from assms(1) obtain cfg where "main_setup sys cfg (g, w) = Some (Running (g', w'))"
    by (auto simp: main_start_def Let_def split: if_splits sum.splits)
  from main_setup_closed [OF this assms(2,3)] lcore_steps_quiet [OF assms(4)] assms(3)
  show ?thesis by (simp add: quiet_def)
qed

text \<open>A run with \<open>-k vEth0\<close> on the port of \<open>eth_with driver0\<close>; the first signal ends the loop.\<close>

definition sys0 :: "(addr rte_ring, nat) app_system" where
  "sys0 = \<lparr>sy_open_tun = (\<lambda>h. (4, h)), sy_tunsetiff = (\<lambda>h fd name. (0, h)), sy_socket = (\<lambda>h. (- 1, h)),
     sy_bind = (\<lambda>h s i. (0, h)), sy_close = (\<lambda>h fd. h), sy_if_nametoindex = (\<lambda>_. 0), sy_eal_init = (\<lambda>_. 1),
     sy_pool_create = (\<lambda>_. (0x900, world0)), sy_calloc = (\<lambda>_. True), sy_kni = kni_env0 (- 1) False\<rparr>"

definition argv0 :: "string list" where
  "argv0 = [''filter'', ''--'', ''-f'', ''tun0'', ''-d'', ''10.0.0.1:80'', ''-k'', ''vEth0'']"

definition static0 :: "(addr rte_ring, nat) app_state" where
  "static0 = (app0 frame0)\<lparr>as_filter_rules := [], as_forward_ifname := None, as_tun_fd := - 1, as_kni := NULL\<rparr>"

lemma parse0: "parse_command_line (drop 2 argv0) =
    Inr \<lparr>ac_port_id = 0, ac_forward_ifname = Some ''tun0'', ac_kni_name = Some ''vEth0'', ac_rule_args = [(0, 0x0100000A, htons 80)]\<rparr>"
  by code_simp

lemma unused0:
  assumes "0 < r" "r < RTE_MAX_ETHPORTS"
  shows "dv_state (dev_of (eth_with drv c) r) = RTE_ETH_DEV_UNUSED"
proof -
  from assms have "unat r \<noteq> 0" "unat r < 32" by (auto simp: RTE_MAX_ETHPORTS_def word_less_nat_alt)
  then show ?thesis by (simp add: dev_of_def eth_with_def nth_Cons')
qed

lemma count0: "rte_eth_dev_count_avail (eth_with driver0 False) = 1"
proof -
  let ?w = "eth_with driver0 False"
  have o1: "(1 :: u16) \<le> RTE_MAX_ETHPORTS" by (simp add: RTE_MAX_ETHPORTS_def)
  have g: "1 \<le> rte_eth_find_next ?w 1" "rte_eth_find_next ?w 1 \<le> RTE_MAX_ETHPORTS"
    using find_next_ge [OF refl o1, of ?w] by simp_all
  have n1: "rte_eth_find_next ?w 1 = RTE_MAX_ETHPORTS"
  proof (rule ccontr)
    assume "rte_eth_find_next ?w 1 \<noteq> RTE_MAX_ETHPORTS"
    with g(2) have l: "rte_eth_find_next ?w 1 < RTE_MAX_ETHPORTS" by simp
    moreover have "0 < rte_eth_find_next ?w 1" using g(1) by (simp add: word_le_nat_alt word_less_nat_alt)
    ultimately show False using find_next_spec [OF o1, of ?w] unused0 by simp
  qed
  have n0: "rte_eth_find_next ?w 0 = 0" by (simp add: rte_eth_find_next.simps [of ?w 0] RTE_MAX_ETHPORTS_def)
  have "rte_eth_find_next_owned_by ?w 0 RTE_ETH_DEV_NO_OWNER = 0"
    by (simp add: rte_eth_find_next_owned_by_def n0 find_next_owned.simps [of ?w 0] data0_def RTE_ETH_DEV_NO_OWNER_def)
  moreover have "rte_eth_find_next_owned_by ?w 1 RTE_ETH_DEV_NO_OWNER = RTE_MAX_ETHPORTS"
    by (simp add: rte_eth_find_next_owned_by_def n1 find_next_owned.simps)
  ultimately show ?thesis
    by (simp add: rte_eth_dev_count_avail_def count_devs.simps [of ?w 0] count_devs.simps [of ?w RTE_MAX_ETHPORTS])
      (simp add: RTE_MAX_ETHPORTS_def)
qed

lemma static0_sel:
  "as_kni static0 = NULL" "as_kni_packets static0 = 0" "kw_fd (as_kw static0) = - 1"
  by (simp_all add: static0_def app0_def kni_world0_def)

lemma sys0_sel:
  "sy_eal_init sys0 a = 1" "sy_pool_create sys0 mw = (0x900, world0)" "sy_open_tun sys0 h = (4, h)"
  "sy_tunsetiff sys0 h fd n = (0, h)"
  by (simp_all add: sys0_def)

lemma main0: "\<exists>g' w'. main_start sys0 argv0 (static0, eth_with driver0 False) = Some (Running (g', w'))"
proof -
  obtain w' where w': "port_init world0 (eth_with driver0 False) 0 0x900 = Some (0, w')" using port_init_runs by auto
  obtain r d w2 where i: "rte_eth_dev_info_get w' 0 zero_dev_info = (r, d, w2)" by (metis surj_pair)
  have k: "rte_kni_alloc env pool conf ops kw = Some (NULL, kw)" if "kw_fd kw = - 1" for env pool conf ops and kw :: "'p kni_world"
    using that by (auto simp: rte_kni_alloc_def split: option.split)
  let ?g = "set_mbufs (static0\<lparr>as_port_id := 0, as_forward_ifname := Some ''tun0''\<rparr>) world0"
  have f: "kw_fd (as_kw ?g) = - 1" "as_forward_ifname ?g = Some ''tun0''" "as_port_id ?g = 0" by (simp_all add: set_mbufs_def static0_sel)
  have n: "init_kni ke 0x900 0 name (?g, w') = Some (- 1, ?g\<lparr>as_kni := NULL\<rparr>, w2)" for ke name
    by (simp add: init_kni_def i k f)
  show ?thesis
    by (simp add: main_start_def sys0_sel parse0 [unfolded numeral_2_eq_2] main_setup_def count0 Let_def w' n main_enter_def f
        open_forward_def strneq_def open_tun_device_def)
qed

theorem kernel_interface_never_exists_witness:
  "\<exists>g' w'. main_start sys0 argv0 (static0, eth_with driver0 False) = Some (Running (g', w'))
     \<and> (lcore_step env0)\<^sup>*\<^sup>* g' (signal_handler 2 g') \<and> as_kni (signal_handler 2 g') = NULL
     \<and> as_kni_packets (signal_handler 2 g') = 0"
proof -
  obtain g' w' where m: "main_start sys0 argv0 (static0, eth_with driver0 False) = Some (Running (g', w'))"
    using main0 by auto
  have s: "(lcore_step env0)\<^sup>*\<^sup>* g' (signal_handler 2 g')" by (rule r_into_rtranclp) (rule lcore_step.sig)
  from kernel_interface_never_exists [OF m _ _ s] m s show ?thesis by (auto simp: static0_sel)
qed

end
