(* ===== verification/Launch.thy ===== *)
theory Launch
  imports Prelude
begin

text \<open>
  Starting a function on the worker lcores and waiting for it
  (\<open>lib/eal/common/eal_common_launch.c\<close>, \<open>lib/eal/linux/eal_thread.c\<close>): the main thread and the
  worker threads as a system of steps, one access to shared memory or to a pipe each. A read
  of an empty pipe and the busy loops on \<open>state\<close> and \<open>f\<close> are steps that wait until they can be
  taken. Pipes do not fail.
\<close>

section \<open>Enumeration of lcores\<close>

definition MAX_LCORE :: u32 where "MAX_LCORE = 128"

definition rte_lcore_is_enabled :: "(u32 \<Rightarrow> bool) \<Rightarrow> u32 \<Rightarrow> bool" where
  "rte_lcore_is_enabled role_rte lcore_id \<longleftrightarrow> \<not> MAX_LCORE \<le> lcore_id \<and> role_rte lcore_id"

text \<open>With \<open>wrap\<close> the search does not end if there is no lcore to find.\<close>

partial_function (option) next_lcore_loop :: "(u32 \<Rightarrow> bool) \<Rightarrow> u32 \<Rightarrow> bool \<Rightarrow> bool \<Rightarrow> u32 \<Rightarrow> u32 option" where
  "next_lcore_loop role_rte main_lcore skip_main wrap i =
     (if i < MAX_LCORE then
        (if \<not> rte_lcore_is_enabled role_rte i \<or> skip_main \<and> i = main_lcore
         then next_lcore_loop role_rte main_lcore skip_main wrap (if wrap then (i + 1) mod MAX_LCORE else i + 1)
         else Some i)
      else Some i)"

definition rte_get_next_lcore :: "(u32 \<Rightarrow> bool) \<Rightarrow> u32 \<Rightarrow> u32 \<Rightarrow> bool \<Rightarrow> bool \<Rightarrow> u32 option" where
  "rte_get_next_lcore role_rte main_lcore i skip_main wrap =
     next_lcore_loop role_rte main_lcore skip_main wrap (if wrap then (i + 1) mod MAX_LCORE else i + 1)"

text \<open>\<open>RTE_LCORE_FOREACH_WORKER\<close>: the lcores its body sees, from \<open>i\<close> on.\<close>

partial_function (option) foreach_worker :: "(u32 \<Rightarrow> bool) \<Rightarrow> u32 \<Rightarrow> u32 \<Rightarrow> u32 list option" where
  "foreach_worker role_rte main_lcore i =
     (if i < MAX_LCORE then
        Option.bind (rte_get_next_lcore role_rte main_lcore i True False) (\<lambda>j.
          Option.bind (foreach_worker role_rte main_lcore j) (\<lambda>js. Some (i # js)))
      else Some [])"

definition worker_lcores :: "(u32 \<Rightarrow> bool) \<Rightarrow> u32 \<Rightarrow> u32 list option" where
  "worker_lcores role_rte main_lcore =
     Option.bind (rte_get_next_lcore role_rte main_lcore (- 1) True False) (foreach_worker role_rte main_lcore)"

section \<open>State\<close>

datatype rte_lcore_state_t = WAIT | RUNNING

text \<open>Where a worker is in \<open>eal_thread_loop\<close>, with what it has loaded into local variables.\<close>

datatype worker_pc =
    W_Read | W_Set_running | W_Ack | W_Load_f | W_Load_arg addr | W_Call addr addr
  | W_Store_ret int | W_Clear_f | W_Clear_arg | W_Set_wait

text \<open>
  \<open>lcore_config[lcore_id]\<close>: the bytes in the two pipes, and the calls the worker has made.
\<close>

record lcore_config =
  lc_state :: rte_lcore_state_t
  lc_f :: addr
  lc_arg :: addr
  lc_ret :: int
  lc_main2worker :: nat
  lc_worker2main :: nat
  lc_pc :: worker_pc
  lc_calls :: "(addr \<times> addr) list"

text \<open>
  Where the main thread is in \<open>rte_eal_mp_remote_launch\<close> with \<open>CALL_MAIN\<close> and in the loop of
  \<open>rte_eal_wait_lcore\<close> calls after it: the lcores its current loop has left.
\<close>

datatype main_pc =
    M_Check "u32 list"
  | M_Busy
  | M_Launch "u32 list"
  | M_Set_arg u32 "u32 list"
  | M_Set_f u32 "u32 list"
  | M_Send u32 "u32 list"
  | M_Ack u32 "u32 list"
  | M_Call_main
  | M_Wait "u32 list" "int list"
  | M_Done "int list"

record launch_state =
  ls_lcores :: "u32 \<Rightarrow> lcore_config"
  ls_pc :: main_pc
  ls_main_ret :: int
  ls_main_calls :: "(addr \<times> addr) list"

definition upd_lcore :: "launch_state \<Rightarrow> u32 \<Rightarrow> (lcore_config \<Rightarrow> lcore_config) \<Rightarrow> launch_state" where
  "upd_lcore s w f = s\<lparr>ls_lcores := (ls_lcores s)(w := f (ls_lcores s w))\<rparr>"

section \<open>Steps\<close>

text \<open>
  The next step of a worker; \<open>None\<close> while it has to wait. \<open>run f a\<close> is what function \<open>f\<close>
  returns for \<open>a\<close>, when it returns.
\<close>

definition worker_next :: "(addr \<Rightarrow> addr \<Rightarrow> int) \<Rightarrow> lcore_config \<Rightarrow> lcore_config option" where
  "worker_next run lc =
     (case lc_pc lc of
        W_Read \<Rightarrow>
          if lc_main2worker lc = 0 then None
          else Some (lc\<lparr>lc_main2worker := lc_main2worker lc - 1, lc_pc := W_Set_running\<rparr>)
      | W_Set_running \<Rightarrow> Some (lc\<lparr>lc_state := RUNNING, lc_pc := W_Ack\<rparr>)
      | W_Ack \<Rightarrow> Some (lc\<lparr>lc_worker2main := lc_worker2main lc + 1, lc_pc := W_Load_f\<rparr>)
      | W_Load_f \<Rightarrow> if lc_f lc = NULL then None else Some (lc\<lparr>lc_pc := W_Load_arg (lc_f lc)\<rparr>)
      | W_Load_arg f \<Rightarrow> Some (lc\<lparr>lc_pc := W_Call f (lc_arg lc)\<rparr>)
      | W_Call f arg \<Rightarrow> Some (lc\<lparr>lc_calls := lc_calls lc @ [(f, arg)], lc_pc := W_Store_ret (run f arg)\<rparr>)
      | W_Store_ret ret \<Rightarrow> Some (lc\<lparr>lc_ret := ret, lc_pc := W_Clear_f\<rparr>)
      | W_Clear_f \<Rightarrow> Some (lc\<lparr>lc_f := NULL, lc_pc := W_Clear_arg\<rparr>)
      | W_Clear_arg \<Rightarrow> Some (lc\<lparr>lc_arg := NULL, lc_pc := W_Set_wait\<rparr>)
      | W_Set_wait \<Rightarrow> Some (lc\<lparr>lc_state := WAIT, lc_pc := W_Read\<rparr>))"

text \<open>
  The next step of the main thread. The result \<open>- EBUSY\<close> of \<open>rte_eal_remote_launch\<close> is ignored
  by its caller.
\<close>

definition main_next :: "(addr \<Rightarrow> addr \<Rightarrow> int) \<Rightarrow> addr \<Rightarrow> addr \<Rightarrow> u32 list \<Rightarrow> launch_state \<Rightarrow> launch_state option" where
  "main_next run f arg workers s =
     (case ls_pc s of
        M_Check [] \<Rightarrow> Some (s\<lparr>ls_pc := M_Launch workers\<rparr>)
      | M_Check (w # ws) \<Rightarrow> Some (s\<lparr>ls_pc := if lc_state (ls_lcores s w) \<noteq> WAIT then M_Busy else M_Check ws\<rparr>)
      | M_Busy \<Rightarrow> None
      | M_Launch [] \<Rightarrow> Some (s\<lparr>ls_pc := M_Call_main\<rparr>)
      | M_Launch (w # ws) \<Rightarrow> Some (s\<lparr>ls_pc := if lc_state (ls_lcores s w) \<noteq> WAIT then M_Launch ws else M_Set_arg w ws\<rparr>)
      | M_Set_arg w ws \<Rightarrow> Some ((upd_lcore s w (\<lambda>lc. lc\<lparr>lc_arg := arg\<rparr>))\<lparr>ls_pc := M_Set_f w ws\<rparr>)
      | M_Set_f w ws \<Rightarrow> Some ((upd_lcore s w (\<lambda>lc. lc\<lparr>lc_f := f\<rparr>))\<lparr>ls_pc := M_Send w ws\<rparr>)
      | M_Send w ws \<Rightarrow> Some ((upd_lcore s w (\<lambda>lc. lc\<lparr>lc_main2worker := lc_main2worker lc + 1\<rparr>))\<lparr>ls_pc := M_Ack w ws\<rparr>)
      | M_Ack w ws \<Rightarrow>
          if lc_worker2main (ls_lcores s w) = 0 then None
          else Some ((upd_lcore s w (\<lambda>lc. lc\<lparr>lc_worker2main := lc_worker2main lc - 1\<rparr>))\<lparr>ls_pc := M_Launch ws\<rparr>)
      | M_Call_main \<Rightarrow>
          Some (s\<lparr>ls_main_ret := run f arg, ls_main_calls := ls_main_calls s @ [(f, arg)], ls_pc := M_Wait workers []\<rparr>)
      | M_Wait [] rets \<Rightarrow> Some (s\<lparr>ls_pc := M_Done rets\<rparr>)
      | M_Wait (w # ws) rets \<Rightarrow>
          if lc_state (ls_lcores s w) \<noteq> WAIT then None
          else Some (s\<lparr>ls_pc := M_Wait ws (rets @ [lc_ret (ls_lcores s w)])\<rparr>)
      | M_Done rets \<Rightarrow> None)"

text \<open>Any thread may take the next step.\<close>

inductive launch_step ::
  "(addr \<Rightarrow> addr \<Rightarrow> int) \<Rightarrow> addr \<Rightarrow> addr \<Rightarrow> u32 list \<Rightarrow> launch_state \<Rightarrow> launch_state \<Rightarrow> bool" for run f arg workers where
  main_step: "main_next run f arg workers s = Some s' \<Longrightarrow> launch_step run f arg workers s s'"
| worker_step: "w \<in> set workers \<Longrightarrow> worker_next run (ls_lcores s w) = Some lc \<Longrightarrow>
    launch_step run f arg workers s (s\<lparr>ls_lcores := (ls_lcores s)(w := lc)\<rparr>)"

inductive_cases launch_stepE: "launch_step run f arg workers s s'"

text \<open>The state \<open>rte_eal_init\<close> leaves: every worker waits for its first command.\<close>

definition idle_lcore :: lcore_config where
  "idle_lcore = \<lparr>lc_state = WAIT, lc_f = NULL, lc_arg = NULL, lc_ret = 0, lc_main2worker = 0, lc_worker2main = 0,
     lc_pc = W_Read, lc_calls = []\<rparr>"

definition launch_init :: "u32 list \<Rightarrow> launch_state" where
  "launch_init workers = \<lparr>ls_lcores = (\<lambda>_. idle_lcore), ls_pc = M_Check workers, ls_main_ret = 0, ls_main_calls = []\<rparr>"

end
