(* ===== verification/Launch_Properties.thy ===== *)
theory Launch_Properties
  imports Launch
begin

text \<open>
  The hand-over between the main thread and its workers: every worker runs the function once,
  and the main thread gets past the wait for a worker only when that worker is done. A worker
  is described by how far it has got (\<open>phase\<close>), the main thread by what it may assume about
  the workers it has passed and those it has yet to reach (\<open>launch_inv\<close>).
\<close>

section \<open>Phases of a worker\<close>

text \<open>
  0: waiting; 1 and 2: argument and function set; 3: the command is in the pipe; 4 to 12: in
  the body of the loop; 13: waiting again. The acknowledgement is in the pipe from phase 6 on,
  until the main thread takes it.
\<close>

definition phase :: "(addr \<Rightarrow> addr \<Rightarrow> int) \<Rightarrow> addr \<Rightarrow> addr \<Rightarrow> nat \<Rightarrow> bool \<Rightarrow> lcore_config" where
  "phase run f arg k acked =
     \<lparr>lc_state = if 5 \<le> k \<and> k \<le> 12 then RUNNING else WAIT,
      lc_f = if 2 \<le> k \<and> k \<le> 10 then f else NULL,
      lc_arg = if 1 \<le> k \<and> k \<le> 11 then arg else NULL,
      lc_ret = if 10 \<le> k then run f arg else 0,
      lc_main2worker = if k = 3 then 1 else 0,
      lc_worker2main = if 6 \<le> k \<and> \<not> acked then 1 else 0,
      lc_pc = (if k \<le> 3 then W_Read else if k = 4 then W_Set_running else if k = 5 then W_Ack else if k = 6 then W_Load_f
               else if k = 7 then W_Load_arg f else if k = 8 then W_Call f arg else if k = 9 then W_Store_ret (run f arg)
               else if k = 10 then W_Clear_f else if k = 11 then W_Clear_arg else if k = 12 then W_Set_wait else W_Read),
      lc_calls = if 9 \<le> k then [(f, arg)] else []\<rparr>"

lemma nat_le_13: "k \<le> (13 :: nat) \<Longrightarrow> k \<in> {0, 1, 2, 3, 4, 5, 6, 7, 8, 9, 10, 11, 12, 13}"
  by (simp; presburger)

lemma phase_next:
  assumes "f \<noteq> NULL" "k \<le> 13" "acked \<Longrightarrow> 6 \<le> k"
  shows "worker_next run (phase run f arg k acked) =
    (if 3 \<le> k \<and> k < 13 then Some (phase run f arg (Suc k) acked) else None)"
  using nat_le_13 [OF assms(2)] assms(1,3) by (auto simp: worker_next_def phase_def)

lemma phase_0: "phase run f arg 0 False = idle_lcore"
  by (simp add: phase_def idle_lcore_def)

text \<open>What the main thread does to a worker.\<close>

lemma phase_main:
  "(phase run f arg 0 False)\<lparr>lc_arg := arg\<rparr> = phase run f arg 1 False"
  "(phase run f arg 1 False)\<lparr>lc_f := f\<rparr> = phase run f arg 2 False"
  "(phase run f arg 2 False)\<lparr>lc_main2worker := lc_main2worker (phase run f arg 2 False) + 1\<rparr> = phase run f arg 3 False"
  "6 \<le> k \<Longrightarrow> (phase run f arg k False)\<lparr>lc_worker2main := lc_worker2main (phase run f arg k False) - 1\<rparr> = phase run f arg k True"
  by (simp_all add: phase_def)

section \<open>The invariant\<close>

definition in_phases :: "(addr \<Rightarrow> addr \<Rightarrow> int) \<Rightarrow> addr \<Rightarrow> addr \<Rightarrow> nat set \<Rightarrow> bool \<Rightarrow> lcore_config \<Rightarrow> bool" where
  "in_phases run f arg K acked lc \<longleftrightarrow> (\<exists>k \<in> K. lc = phase run f arg k acked)"

abbreviation "waiting run f arg \<equiv> in_phases run f arg {0} False"
abbreviation "launched run f arg \<equiv> in_phases run f arg {6..13} True"
abbreviation "finished run f arg \<equiv> in_phases run f arg {13} True"

text \<open>A step of a worker stays within a set of phases that is closed towards 13.\<close>

lemma worker_stays:
  assumes "f \<noteq> NULL" "in_phases run f arg K acked lc" "worker_next run lc = Some lc'"
    "K \<subseteq> {..13}" "acked \<Longrightarrow> K \<subseteq> {6..}" "\<And>k. k \<in> K \<Longrightarrow> 3 \<le> k \<Longrightarrow> k < 13 \<Longrightarrow> Suc k \<in> K"
  shows "in_phases run f arg K acked lc'"
proof -
  obtain k where k: "k \<in> K" "lc = phase run f arg k acked" using assms(2) by (auto simp: in_phases_def)
  have "k \<le> 13" "acked \<Longrightarrow> 6 \<le> k" using k(1) assms(4,5) by auto
  from phase_next [OF assms(1) this] assms(3) k(2) have "3 \<le> k" "k < 13" "lc' = phase run f arg (Suc k) acked"
    by (simp_all split: if_splits)
  with assms(6) [OF k(1)] show ?thesis by (auto simp: in_phases_def)
qed

fun launch_inv :: "(addr \<Rightarrow> addr \<Rightarrow> int) \<Rightarrow> addr \<Rightarrow> addr \<Rightarrow> u32 list \<Rightarrow> main_pc \<Rightarrow> (u32 \<Rightarrow> lcore_config) \<Rightarrow> bool" where
  "launch_inv run f arg workers (M_Check ws) L \<longleftrightarrow> set ws \<subseteq> set workers \<and> (\<forall>w \<in> set workers. waiting run f arg (L w))"
| "launch_inv run f arg workers M_Busy L \<longleftrightarrow> False"
| "launch_inv run f arg workers (M_Launch ws) L \<longleftrightarrow>
     (\<exists>ds. workers = ds @ ws \<and> (\<forall>d \<in> set ds. launched run f arg (L d)) \<and> (\<forall>w \<in> set ws. waiting run f arg (L w)))"
| "launch_inv run f arg workers (M_Set_arg v ws) L \<longleftrightarrow>
     (\<exists>ds. workers = ds @ v # ws \<and> (\<forall>d \<in> set ds. launched run f arg (L d)) \<and> (\<forall>w \<in> set ws. waiting run f arg (L w))
        \<and> waiting run f arg (L v))"
| "launch_inv run f arg workers (M_Set_f v ws) L \<longleftrightarrow>
     (\<exists>ds. workers = ds @ v # ws \<and> (\<forall>d \<in> set ds. launched run f arg (L d)) \<and> (\<forall>w \<in> set ws. waiting run f arg (L w))
        \<and> in_phases run f arg {1} False (L v))"
| "launch_inv run f arg workers (M_Send v ws) L \<longleftrightarrow>
     (\<exists>ds. workers = ds @ v # ws \<and> (\<forall>d \<in> set ds. launched run f arg (L d)) \<and> (\<forall>w \<in> set ws. waiting run f arg (L w))
        \<and> in_phases run f arg {2} False (L v))"
| "launch_inv run f arg workers (M_Ack v ws) L \<longleftrightarrow>
     (\<exists>ds. workers = ds @ v # ws \<and> (\<forall>d \<in> set ds. launched run f arg (L d)) \<and> (\<forall>w \<in> set ws. waiting run f arg (L w))
        \<and> in_phases run f arg {3..13} False (L v))"
| "launch_inv run f arg workers M_Call_main L \<longleftrightarrow> (\<forall>w \<in> set workers. launched run f arg (L w))"
| "launch_inv run f arg workers (M_Wait ws rets) L \<longleftrightarrow>
     (\<exists>ds. workers = ds @ ws \<and> (\<forall>d \<in> set ds. finished run f arg (L d)) \<and> (\<forall>w \<in> set ws. launched run f arg (L w))
        \<and> rets = map (\<lambda>_. run f arg) ds)"
| "launch_inv run f arg workers (M_Done rets) L \<longleftrightarrow>
     (\<forall>w \<in> set workers. finished run f arg (L w)) \<and> rets = map (\<lambda>_. run f arg) workers"

text \<open>The invariant speaks of each lcore by itself, and each of its parts survives a worker's step.\<close>

lemma inv_mono:
  assumes "\<And>v. waiting run f arg (L v) \<Longrightarrow> waiting run f arg (L' v)"
    and "\<And>v. launched run f arg (L v) \<Longrightarrow> launched run f arg (L' v)"
    and "\<And>v. finished run f arg (L v) \<Longrightarrow> finished run f arg (L' v)"
    and "\<And>v. in_phases run f arg {1} False (L v) \<Longrightarrow> in_phases run f arg {1} False (L' v)"
    and "\<And>v. in_phases run f arg {2} False (L v) \<Longrightarrow> in_phases run f arg {2} False (L' v)"
    and "\<And>v. in_phases run f arg {3..13} False (L v) \<Longrightarrow> in_phases run f arg {3..13} False (L' v)"
    and "launch_inv run f arg workers pc L"
  shows "launch_inv run f arg workers pc L'"
  using assms(7)
proof (cases pc)
  case (M_Set_arg v ws)
  with assms(7) show ?thesis by (simp only: launch_inv.simps) (metis assms(1,2))
next
  case (M_Set_f v ws)
  with assms(7) show ?thesis by (simp only: launch_inv.simps) (metis assms(1,2,4))
next
  case (M_Send v ws)
  with assms(7) show ?thesis by (simp only: launch_inv.simps) (metis assms(1,2,5))
next
  case (M_Ack v ws)
  with assms(7) show ?thesis by (simp only: launch_inv.simps) (metis assms(1,2,6))
next
  case (M_Launch ws)
  with assms(7) show ?thesis by (simp only: launch_inv.simps) (metis assms(1,2))
next
  case (M_Wait ws rets)
  with assms(7) show ?thesis by (simp only: launch_inv.simps) (metis assms(2,3))
qed (simp_all add: assms(1-3))

lemma inv_worker:
  assumes "f \<noteq> NULL" "worker_next run (L w) = Some lc" "launch_inv run f arg workers pc L"
  shows "launch_inv run f arg workers pc (L(w := lc))"
proof -
  have st: "in_phases run f arg K acked ((L(w := lc)) v)" if "in_phases run f arg K acked (L v)"
    "K \<subseteq> {..13}" "acked \<Longrightarrow> K \<subseteq> {6..}" "\<And>k. k \<in> K \<Longrightarrow> 3 \<le> k \<Longrightarrow> k < 13 \<Longrightarrow> Suc k \<in> K" for K acked v
    using worker_stays [OF assms(1) _ assms(2)] that by (cases "v = w") auto
  show ?thesis
    by (rule inv_mono [OF _ _ _ _ _ _ assms(3)]) (rule st; (assumption | simp))+
qed

text \<open>What the main thread does to the worker it deals with.\<close>

lemma phases_main:
  "waiting run f arg lc \<Longrightarrow> in_phases run f arg {1} False (lc\<lparr>lc_arg := arg\<rparr>)"
  "in_phases run f arg {1} False lc \<Longrightarrow> in_phases run f arg {2} False (lc\<lparr>lc_f := f\<rparr>)"
  "in_phases run f arg {2} False lc \<Longrightarrow> in_phases run f arg {3..13} False (lc\<lparr>lc_main2worker := lc_main2worker lc + 1\<rparr>)"
  "in_phases run f arg {3..13} False lc \<Longrightarrow> lc_worker2main lc \<noteq> 0 \<Longrightarrow>
     launched run f arg (lc\<lparr>lc_worker2main := lc_worker2main lc - 1\<rparr>)"
  "launched run f arg lc \<Longrightarrow> lc_state lc = WAIT \<Longrightarrow> finished run f arg lc"
  "finished run f arg lc \<Longrightarrow> lc_ret lc = run f arg"
  "waiting run f arg lc \<Longrightarrow> lc_state lc = WAIT"
proof -
  show "waiting run f arg lc \<Longrightarrow> in_phases run f arg {1} False (lc\<lparr>lc_arg := arg\<rparr>)"
    by (simp add: in_phases_def phase_def)
  show "in_phases run f arg {1} False lc \<Longrightarrow> in_phases run f arg {2} False (lc\<lparr>lc_f := f\<rparr>)"
    by (simp add: in_phases_def phase_def)
  show "in_phases run f arg {2} False lc \<Longrightarrow> in_phases run f arg {3..13} False (lc\<lparr>lc_main2worker := lc_main2worker lc + 1\<rparr>)"
    by (auto simp: in_phases_def phase_def intro!: bexI [of _ 3])
  show "launched run f arg (lc\<lparr>lc_worker2main := lc_worker2main lc - 1\<rparr>)"
    if i: "in_phases run f arg {3..13} False lc" "lc_worker2main lc \<noteq> 0"
  proof -
    from i obtain k where k: "k \<in> {3..13}" "lc = phase run f arg k False" by (auto simp: in_phases_def)
    with i(2) have "6 \<le> k" by (auto simp: phase_def split: if_splits)
    with phase_main(4) [OF this] k show ?thesis by (auto simp: in_phases_def)
  qed
  show "finished run f arg lc" if i: "launched run f arg lc" "lc_state lc = WAIT"
  proof -
    from i obtain k where k: "k \<in> {6..13}" "lc = phase run f arg k True" by (auto simp: in_phases_def)
    with i(2) have "k = 13" by (auto simp: phase_def split: if_splits)
    with k show ?thesis by (simp add: in_phases_def)
  qed
  show "finished run f arg lc \<Longrightarrow> lc_ret lc = run f arg" by (auto simp: in_phases_def phase_def)
  show "waiting run f arg lc \<Longrightarrow> lc_state lc = WAIT" by (auto simp: in_phases_def phase_def)
qed

lemma inv_main:
  assumes d: "distinct workers" and i: "launch_inv run f arg workers (ls_pc s) (ls_lcores s)"
    and n: "main_next run f arg workers s = Some s'"
  shows "launch_inv run f arg workers (ls_pc s') (ls_lcores s')"
proof (cases "ls_pc s")
  case (M_Check ws)
  with i have "lc_state (ls_lcores s w) = WAIT" if "w \<in> set workers" for w using that by (auto intro: phases_main(7))
  with M_Check i n show ?thesis by (cases ws) (auto simp: main_next_def)
next
  case (M_Launch ws)
  show ?thesis
  proof (cases ws)
    case Nil
    with M_Launch i n show ?thesis by (auto simp: main_next_def)
  next
    case (Cons w vs)
    with M_Launch i obtain ds where ds: "workers = ds @ w # vs" "\<forall>d \<in> set ds. launched run f arg (ls_lcores s d)"
      "\<forall>w \<in> set (w # vs). waiting run f arg (ls_lcores s w)" by auto
    then have "lc_state (ls_lcores s w) = WAIT" by (auto intro: phases_main(7))
    with n M_Launch Cons have "s' = s\<lparr>ls_pc := M_Set_arg w vs\<rparr>" by (simp add: main_next_def)
    with ds show ?thesis by auto
  qed
next
  case (M_Set_arg v ws)
  with i obtain ds where ds: "workers = ds @ v # ws" "\<forall>d \<in> set ds. launched run f arg (ls_lcores s d)"
    "\<forall>w \<in> set ws. waiting run f arg (ls_lcores s w)" "waiting run f arg (ls_lcores s v)" by auto
  moreover have "v \<notin> set ds" "v \<notin> set ws" using d ds(1) by auto
  ultimately show ?thesis
    using n M_Set_arg phases_main(1) [OF ds(4)] by (auto simp: main_next_def upd_lcore_def intro!: exI [of _ ds])
next
  case (M_Set_f v ws)
  with i obtain ds where ds: "workers = ds @ v # ws" "\<forall>d \<in> set ds. launched run f arg (ls_lcores s d)"
    "\<forall>w \<in> set ws. waiting run f arg (ls_lcores s w)" "in_phases run f arg {1} False (ls_lcores s v)" by auto
  moreover have "v \<notin> set ds" "v \<notin> set ws" using d ds(1) by auto
  ultimately show ?thesis
    using n M_Set_f phases_main(2) [OF ds(4)] by (auto simp: main_next_def upd_lcore_def intro!: exI [of _ ds])
next
  case (M_Send v ws)
  with i obtain ds where ds: "workers = ds @ v # ws" "\<forall>d \<in> set ds. launched run f arg (ls_lcores s d)"
    "\<forall>w \<in> set ws. waiting run f arg (ls_lcores s w)" "in_phases run f arg {2} False (ls_lcores s v)" by auto
  moreover have "v \<notin> set ds" "v \<notin> set ws" using d ds(1) by auto
  ultimately show ?thesis
    using n M_Send phases_main(3) [OF ds(4)] by (auto simp: main_next_def upd_lcore_def intro!: exI [of _ ds])
next
  case (M_Ack v ws)
  with i obtain ds where ds: "workers = ds @ v # ws" "\<forall>d \<in> set ds. launched run f arg (ls_lcores s d)"
    "\<forall>w \<in> set ws. waiting run f arg (ls_lcores s w)" "in_phases run f arg {3..13} False (ls_lcores s v)" by auto
  have nv: "v \<notin> set ds" "v \<notin> set ws" using d ds(1) by auto
  from n M_Ack have a: "lc_worker2main (ls_lcores s v) \<noteq> 0"
    "s' = (upd_lcore s v (\<lambda>lc. lc\<lparr>lc_worker2main := lc_worker2main lc - 1\<rparr>))\<lparr>ls_pc := M_Launch ws\<rparr>"
    by (simp_all add: main_next_def split: if_splits)
  from phases_main(4) [OF ds(4) a(1)] ds nv show ?thesis
    by (auto simp: a(2) upd_lcore_def intro!: exI [of _ "ds @ [v]"])
next
  case (M_Wait ws rets)
  show ?thesis
  proof (cases ws)
    case Nil
    with M_Wait i n show ?thesis by (auto simp: main_next_def)
  next
    case (Cons w vs)
    with M_Wait i obtain ds where ds: "workers = ds @ w # vs" "\<forall>d \<in> set ds. finished run f arg (ls_lcores s d)"
      "\<forall>w \<in> set (w # vs). launched run f arg (ls_lcores s w)" "rets = map (\<lambda>_. run f arg) ds" by auto
    from n M_Wait Cons have a: "lc_state (ls_lcores s w) = WAIT" "s' = s\<lparr>ls_pc := M_Wait vs (rets @ [lc_ret (ls_lcores s w)])\<rparr>"
      by (simp_all add: main_next_def split: if_splits)
    with ds have fin: "finished run f arg (ls_lcores s w)" by (auto intro: phases_main(5))
    with phases_main(6) [OF fin] ds a(2) show ?thesis by (auto intro!: exI [of _ "ds @ [w]"])
  qed
qed (use i n in \<open>auto simp: main_next_def\<close>)

lemma inv_step:
  assumes "f \<noteq> NULL" "distinct workers" "launch_step run f arg workers s s'"
    "launch_inv run f arg workers (ls_pc s) (ls_lcores s)"
  shows "launch_inv run f arg workers (ls_pc s') (ls_lcores s')"
  using assms(3)
proof cases
  case main_step
  then show ?thesis by (rule inv_main [OF assms(2,4)])
next
  case (worker_step w lc)
  with inv_worker [OF assms(1) worker_step(3) assms(4)] show ?thesis by simp
qed

lemma inv_init: "launch_inv run f arg workers (ls_pc (launch_init workers)) (ls_lcores (launch_init workers))"
  using phase_0 [of run f arg] by (simp add: launch_init_def in_phases_def)

lemma inv_steps:
  assumes "f \<noteq> NULL" "distinct workers" "(launch_step run f arg workers)\<^sup>*\<^sup>* (launch_init workers) s"
  shows "launch_inv run f arg workers (ls_pc s) (ls_lcores s)"
  using assms(3) by (induction rule: rtranclp_induct) (auto intro: inv_init inv_step [OF assms(1,2)])

section \<open>Steps that are left\<close>

definition worker_left :: "lcore_config \<Rightarrow> nat" where
  "worker_left lc =
     (case lc_pc lc of
        W_Read \<Rightarrow> (if lc_main2worker lc = 0 then 0 else 10)
      | W_Set_running \<Rightarrow> 9 | W_Ack \<Rightarrow> 8 | W_Load_f \<Rightarrow> 7 | W_Load_arg _ \<Rightarrow> 6 | W_Call _ _ \<Rightarrow> 5
      | W_Store_ret _ \<Rightarrow> 4 | W_Clear_f \<Rightarrow> 3 | W_Clear_arg \<Rightarrow> 2 | W_Set_wait \<Rightarrow> 1)"

text \<open>A launch takes five steps of the main thread and makes ten of a worker possible.\<close>

fun main_left :: "nat \<Rightarrow> main_pc \<Rightarrow> nat" where
  "main_left n (M_Check ws) = length ws + 16 * n + 4"
| "main_left n M_Busy = 0"
| "main_left n (M_Launch ws) = 15 * length ws + n + 3"
| "main_left n (M_Set_arg w ws) = 15 * length ws + n + 17"
| "main_left n (M_Set_f w ws) = 15 * length ws + n + 16"
| "main_left n (M_Send w ws) = 15 * length ws + n + 15"
| "main_left n (M_Ack w ws) = 15 * length ws + n + 4"
| "main_left n M_Call_main = n + 2"
| "main_left n (M_Wait ws rets) = length ws + 1"
| "main_left n (M_Done rets) = 0"

definition steps_left :: "u32 list \<Rightarrow> launch_state \<Rightarrow> nat" where
  "steps_left workers s = main_left (length workers) (ls_pc s) + (\<Sum>w\<in>set workers. worker_left (ls_lcores s w))"

lemma worker_left_phase: "k \<le> 13 \<Longrightarrow> worker_left (phase run f arg k acked) = (if 3 \<le> k then 13 - k else 0)"
  by (drule nat_le_13) (auto simp: worker_left_def phase_def)

lemma worker_left_phases:
  assumes "in_phases run f arg K acked lc" "K \<subseteq> {..13}"
  obtains k where "k \<in> K" "k \<le> 13" "lc = phase run f arg k acked" "worker_left lc = (if 3 \<le> k then 13 - k else 0)"
  using assms worker_left_phase by (auto simp: in_phases_def)

text \<open>The main thread changes what a worker has left only when it sends the command.\<close>

lemma worker_left_upd [simp]:
  "worker_left (lc\<lparr>lc_arg := a\<rparr>) = worker_left lc" "worker_left (lc\<lparr>lc_f := g\<rparr>) = worker_left lc"
  "worker_left (lc\<lparr>lc_worker2main := m\<rparr>) = worker_left lc"
  by (simp_all add: worker_left_def split: worker_pc.split)

lemma sum_upd:
  fixes g :: "'a \<Rightarrow> nat"
  assumes "finite A" "v \<in> A"
  shows "(\<Sum>w\<in>A. g ((L(v := lc)) w)) + g (L v) = (\<Sum>w\<in>A. g (L w)) + g lc"
proof -
  have "(\<Sum>w\<in>A - {v}. g ((L(v := lc)) w)) = (\<Sum>w\<in>A - {v}. g (L w))" by (rule sum.cong) auto
  with assms show ?thesis by (simp add: sum.remove [of A v])
qed

text \<open>The phase of any worker, from the invariant.\<close>

lemma inv_phase:
  assumes "launch_inv run f arg workers pc L" "w \<in> set workers"
  shows "\<exists>k acked. k \<le> 13 \<and> (acked \<longrightarrow> 6 \<le> k) \<and> L w = phase run f arg k acked"
proof -
  have *: "in_phases run f arg K acked (L w) \<Longrightarrow> K \<subseteq> {..13} \<Longrightarrow> (acked \<Longrightarrow> K \<subseteq> {6..}) \<Longrightarrow> ?thesis" for K acked
    by (auto simp: in_phases_def)
  have "waiting run f arg (L w) \<or> launched run f arg (L w) \<or> finished run f arg (L w) \<or> in_phases run f arg {1} False (L w)
    \<or> in_phases run f arg {2} False (L w) \<or> in_phases run f arg {3..13} False (L w)"
    using assms by (cases pc) auto
  then show ?thesis by (elim disjE) (erule *; simp)+
qed

lemma worker_step_left:
  assumes "f \<noteq> NULL" "launch_inv run f arg workers (ls_pc s) (ls_lcores s)" "w \<in> set workers"
    "worker_next run (ls_lcores s w) = Some lc"
  shows "Suc (steps_left workers (s\<lparr>ls_lcores := (ls_lcores s)(w := lc)\<rparr>)) = steps_left workers s"
proof -
  obtain k acked where k: "k \<le> 13" "acked \<Longrightarrow> 6 \<le> k" "ls_lcores s w = phase run f arg k acked"
    using inv_phase [OF assms(2,3)] by auto
  from phase_next [OF assms(1) k(1,2)] assms(4) k(3) have "3 \<le> k" "k < 13" "lc = phase run f arg (Suc k) acked"
    by (simp_all split: if_splits)
  with worker_left_phase [of k run f arg acked] worker_left_phase [of "Suc k" run f arg acked]
  have "worker_left (ls_lcores s w) = Suc (worker_left lc)" by (simp add: k(3))
  with sum_upd [of "set workers" w worker_left "ls_lcores s" lc] assms(3) show ?thesis
    by (simp add: steps_left_def)
qed

lemma main_step_left:
  assumes i: "launch_inv run f arg workers (ls_pc s) (ls_lcores s)"
    and n: "main_next run f arg workers s = Some s'"
  shows "Suc (steps_left workers s') = steps_left workers s"
proof (cases "ls_pc s")
  case (M_Check ws)
  with i have "lc_state (ls_lcores s w) = WAIT" if "w \<in> set workers" for w using that by (auto intro: phases_main(7))
  with M_Check i n show ?thesis by (cases ws) (auto simp: main_next_def steps_left_def)
next
  case (M_Launch ws)
  with i have "lc_state (ls_lcores s w) = WAIT" if "w \<in> set ws" for w using that by (auto intro: phases_main(7))
  with M_Launch i n show ?thesis by (cases ws) (auto simp: main_next_def steps_left_def)
next
  case (M_Set_arg v ws)
  with i have "v \<in> set workers" by auto
  with sum_upd [of "set workers" v worker_left "ls_lcores s" "(ls_lcores s v)\<lparr>lc_arg := arg\<rparr>"] n M_Set_arg show ?thesis
    by (auto simp: main_next_def steps_left_def upd_lcore_def)
next
  case (M_Set_f v ws)
  with i have "v \<in> set workers" by auto
  with sum_upd [of "set workers" v worker_left "ls_lcores s" "(ls_lcores s v)\<lparr>lc_f := f\<rparr>"] n M_Set_f show ?thesis
    by (auto simp: main_next_def steps_left_def upd_lcore_def)
next
  case (M_Send v ws)
  with i have v: "v \<in> set workers" "in_phases run f arg {2} False (ls_lcores s v)" by auto
  then have "worker_left ((ls_lcores s v)\<lparr>lc_main2worker := lc_main2worker (ls_lcores s v) + 1\<rparr>) = 10"
    "worker_left (ls_lcores s v) = 0"
    by (auto simp: in_phases_def worker_left_def phase_def)
  with sum_upd [of "set workers" v worker_left "ls_lcores s"
      "(ls_lcores s v)\<lparr>lc_main2worker := lc_main2worker (ls_lcores s v) + 1\<rparr>"] v n M_Send show ?thesis
    by (auto simp: main_next_def steps_left_def upd_lcore_def)
next
  case (M_Ack v ws)
  with i have v: "v \<in> set workers" by auto
  from n M_Ack have "s' = (upd_lcore s v (\<lambda>lc. lc\<lparr>lc_worker2main := lc_worker2main lc - 1\<rparr>))\<lparr>ls_pc := M_Launch ws\<rparr>"
    by (simp add: main_next_def split: if_splits)
  with sum_upd [of "set workers" v worker_left "ls_lcores s"
      "(ls_lcores s v)\<lparr>lc_worker2main := lc_worker2main (ls_lcores s v) - 1\<rparr>"] v M_Ack show ?thesis
    by (auto simp: steps_left_def upd_lcore_def)
next
  case (M_Wait ws rets)
  with n show ?thesis by (cases ws) (auto simp: main_next_def steps_left_def split: if_splits)
qed (use i n in \<open>auto simp: main_next_def steps_left_def\<close>)

text \<open>No deadlock: until the main thread is done, some thread can take a step.\<close>

lemma launch_progress:
  assumes f: "f \<noteq> NULL" and i: "launch_inv run f arg workers (ls_pc s) (ls_lcores s)"
    and nd: "\<And>rets. ls_pc s \<noteq> M_Done rets"
  shows "\<exists>s'. launch_step run f arg workers s s'"
proof (cases "main_next run f arg workers s")
  case (Some s')
  then show ?thesis by (auto intro: main_step)
next
  case None
  have "\<exists>w \<in> set workers. worker_next run (ls_lcores s w) \<noteq> None"
  proof (cases "ls_pc s")
    case (M_Ack v ws)
    with i obtain k where k: "k \<in> {3..13}" "ls_lcores s v = phase run f arg k False" "v \<in> set workers"
      by (auto simp: in_phases_def)
    from None M_Ack have "lc_worker2main (ls_lcores s v) = 0" by (simp add: main_next_def split: if_splits)
    with k have "k < 6" by (auto simp: phase_def split: if_splits)
    with k phase_next [OF f, of k False] show ?thesis by (auto intro!: bexI [of _ v])
  next
    case (M_Wait ws rets)
    with None obtain v vs where v: "ws = v # vs" "lc_state (ls_lcores s v) \<noteq> WAIT"
      by (cases ws) (auto simp: main_next_def split: if_splits)
    with M_Wait i obtain k where k: "k \<in> {6..13}" "ls_lcores s v = phase run f arg k True" "v \<in> set workers"
      by (auto simp: in_phases_def)
    with v have "k < 13" by (auto simp: phase_def split: if_splits)
    with k phase_next [OF f, of k True] show ?thesis by (auto intro!: bexI [of _ v])
  next
    case (M_Check ws)
    with None show ?thesis by (cases ws) (auto simp: main_next_def)
  next
    case (M_Launch ws)
    with None show ?thesis by (cases ws) (auto simp: main_next_def)
  qed (use None nd i in \<open>auto simp: main_next_def\<close>)
  then show ?thesis by (auto intro: worker_step)
qed

section \<open>Enumeration\<close>

definition worker :: "(u32 \<Rightarrow> bool) \<Rightarrow> u32 \<Rightarrow> nat \<Rightarrow> bool" where
  "worker role_rte main_lcore i \<longleftrightarrow> role_rte (of_nat i) \<and> of_nat i \<noteq> main_lcore"

lemma lcore_less: "i \<le> 128 \<Longrightarrow> (of_nat i < MAX_LCORE) = (i < 128)"
  by (simp add: MAX_LCORE_def word_less_nat_alt unat_of_nat)

text \<open>Without \<open>wrap\<close> the search finds the next worker, or the end.\<close>

lemma next_lcore_spec:
  "i \<le> 128 \<Longrightarrow> \<exists>j. next_lcore_loop role_rte main_lcore True False (of_nat i) = Some (of_nat j) \<and> i \<le> j \<and> j \<le> 128
     \<and> (\<forall>k. i \<le> k \<and> k < j \<longrightarrow> \<not> worker role_rte main_lcore k) \<and> (j < 128 \<longrightarrow> worker role_rte main_lcore j)"
proof (induction "128 - i" arbitrary: i)
  case 0
  then have "next_lcore_loop role_rte main_lcore True False (of_nat i) = Some (of_nat i)"
    using lcore_less [of i] by (subst next_lcore_loop.simps) simp
  with 0 show ?case by (intro exI [of _ i]) auto
next
  case (Suc n)
  then have i: "i < 128" by simp
  show ?case
  proof (cases "worker role_rte main_lcore i")
    case True
    then have "next_lcore_loop role_rte main_lcore True False (of_nat i) = Some (of_nat i)"
      using lcore_less [of i] i by (subst next_lcore_loop.simps) (auto simp: rte_lcore_is_enabled_def worker_def)
    with True i show ?thesis by (intro exI [of _ i]) auto
  next
    case False
    then have e: "next_lcore_loop role_rte main_lcore True False (of_nat i) = next_lcore_loop role_rte main_lcore True False (of_nat (Suc i))"
      using lcore_less [of i] i by (subst next_lcore_loop.simps) (auto simp: rte_lcore_is_enabled_def worker_def add.commute)
    have "n = 128 - Suc i" using Suc.hyps(2) by simp
    from Suc.hyps(1) [OF this] i obtain j where
      j: "next_lcore_loop role_rte main_lcore True False (of_nat (Suc i)) = Some (of_nat j)" "Suc i \<le> j" "j \<le> 128"
        "\<forall>k. Suc i \<le> k \<and> k < j \<longrightarrow> \<not> worker role_rte main_lcore k" "j < 128 \<longrightarrow> worker role_rte main_lcore j" by auto
    have "\<not> worker role_rte main_lcore k" if "i \<le> k" "k < j" for k
      using that j(4) False by (cases "k = i") auto
    with j e show ?thesis by (intro exI [of _ j]) auto
  qed
qed

lemma filter_upt_skip:
  "i \<le> j \<Longrightarrow> j \<le> n \<Longrightarrow> (\<forall>k. i \<le> k \<and> k < j \<longrightarrow> \<not> P k) \<Longrightarrow> filter P [i..<n] = filter P [j..<n]"
proof -
  assume a: "i \<le> j" "j \<le> n" "\<forall>k. i \<le> k \<and> k < j \<longrightarrow> \<not> P k"
  then have "[i..<n] = [i..<j] @ [j..<n]" by (metis le_Suc_ex upt_add_eq_append)
  moreover have "filter P [i..<j] = []" using a(3) by (auto simp: filter_empty_conv)
  ultimately show ?thesis by simp
qed

lemma foreach_worker_spec:
  "i \<le> 128 \<Longrightarrow> (i < 128 \<Longrightarrow> worker role_rte main_lcore i) \<Longrightarrow>
   foreach_worker role_rte main_lcore (of_nat i) = Some (map of_nat (filter (worker role_rte main_lcore) [i..<128]))"
proof (induction "128 - i" arbitrary: i rule: less_induct)
  case less
  show ?case
  proof (cases "i < 128")
    case False
    with less.prems lcore_less [of i] show ?thesis by (subst foreach_worker.simps) simp
  next
    case True
    from next_lcore_spec [of "Suc i" role_rte main_lcore] True obtain j where
      j: "next_lcore_loop role_rte main_lcore True False (of_nat (Suc i)) = Some (of_nat j)" "Suc i \<le> j" "j \<le> 128"
        "\<forall>k. Suc i \<le> k \<and> k < j \<longrightarrow> \<not> worker role_rte main_lcore k" "j < 128 \<longrightarrow> worker role_rte main_lcore j" by auto
    have n: "rte_get_next_lcore role_rte main_lcore (of_nat i) True False = Some (of_nat j)"
      using j(1) by (simp add: rte_get_next_lcore_def add.commute)
    have "foreach_worker role_rte main_lcore (of_nat j) = Some (map of_nat (filter (worker role_rte main_lcore) [j..<128]))"
      by (rule less.hyps) (use True j in auto)
    moreover have "filter (worker role_rte main_lcore) [Suc i..<128] = filter (worker role_rte main_lcore) [j..<128]"
      by (rule filter_upt_skip [OF j(2,3,4)])
    moreover have "filter (worker role_rte main_lcore) [i..<128] = i # filter (worker role_rte main_lcore) [Suc i..<128]"
      using True less.prems(2) by (simp add: upt_conv_Cons)
    ultimately show ?thesis
      using True lcore_less [of i] n by (subst foreach_worker.simps) simp
  qed
qed

lemma worker_lcores_spec:
  "worker_lcores role_rte main_lcore = Some (map of_nat (filter (worker role_rte main_lcore) [0..<128]))"
proof -
  from next_lcore_spec [of 0 role_rte main_lcore] obtain j where
    j: "next_lcore_loop role_rte main_lcore True False 0 = Some (of_nat j)" "j \<le> 128"
      "\<forall>k. 0 \<le> k \<and> k < j \<longrightarrow> \<not> worker role_rte main_lcore k" "j < 128 \<longrightarrow> worker role_rte main_lcore j" by auto
  have "foreach_worker role_rte main_lcore (of_nat j) = Some (map of_nat (filter (worker role_rte main_lcore) [j..<128]))"
    by (rule foreach_worker_spec) (use j in auto)
  moreover have "filter (worker role_rte main_lcore) [0..<128] = filter (worker role_rte main_lcore) [j..<128]"
    by (rule filter_upt_skip) (use j in auto)
  ultimately show ?thesis using j(1) by (simp add: worker_lcores_def rte_get_next_lcore_def)
qed

lemma worker_lcores_distinct:
  assumes "worker_lcores role_rte main_lcore = Some workers"
  shows "distinct workers"
proof -
  have "inj_on (of_nat :: nat \<Rightarrow> u32) {0..<128}"
    by (rule inj_on_inverseI [where g = unat]) (simp add: unat_of_nat)
  then have "inj_on (of_nat :: nat \<Rightarrow> u32) (set (filter (worker role_rte main_lcore) [0..<128]))"
    by (rule inj_on_subset) auto
  with assms show ?thesis by (auto simp: worker_lcores_spec distinct_map)
qed

section \<open>Runs\<close>

lemma step_left:
  assumes "f \<noteq> NULL" "launch_inv run f arg workers (ls_pc s) (ls_lcores s)" "launch_step run f arg workers s s'"
  shows "Suc (steps_left workers s') = steps_left workers s"
  using assms(3)
proof cases
  case main_step
  then show ?thesis by (rule main_step_left [OF assms(2)])
next
  case (worker_step w lc)
  from worker_step_left [OF assms(1,2) worker_step(2,3)] worker_step(1) show ?thesis by simp
qed

lemma steps_left_init: "steps_left workers (launch_init workers) = 17 * length workers + 4"
  by (simp add: steps_left_def launch_init_def worker_left_def idle_lcore_def)

lemma steps_count:
  assumes "f \<noteq> NULL" "distinct workers"
  shows "(launch_step run f arg workers ^^ k) (launch_init workers) s \<Longrightarrow>
    launch_inv run f arg workers (ls_pc s) (ls_lcores s) \<and> steps_left workers s + k = 17 * length workers + 4"
proof (induction k arbitrary: s)
  case 0
  then have "s = launch_init workers" by auto
  then show ?case by (simp only: inv_init steps_left_init) simp
next
  case (Suc k)
  then obtain t where t: "(launch_step run f arg workers ^^ k) (launch_init workers) t" "launch_step run f arg workers t s" by auto
  from Suc.IH [OF t(1)] inv_step [OF assms t(2)] step_left [OF assms(1) _ t(2)] show ?case by force
qed

text \<open>From any state of a run the launch can be completed.\<close>

lemma can_complete:
  assumes "f \<noteq> NULL" "distinct workers"
  shows "launch_inv run f arg workers (ls_pc s) (ls_lcores s) \<Longrightarrow>
    \<exists>s' rets. (launch_step run f arg workers)\<^sup>*\<^sup>* s s' \<and> ls_pc s' = M_Done rets"
proof (induction "steps_left workers s" arbitrary: s rule: less_induct)
  case less
  show ?case
  proof (cases "\<exists>rets. ls_pc s = M_Done rets")
    case True
    then show ?thesis by blast
  next
    case False
    with launch_progress [OF assms(1) less.prems] obtain t where t: "launch_step run f arg workers s t" by blast
    have "steps_left workers t < steps_left workers s" using step_left [OF assms(1) less.prems t] by simp
    from less.hyps [OF this inv_step [OF assms t less.prems]] t show ?thesis
      by (meson converse_rtranclp_into_rtranclp)
  qed
qed

section \<open>The launch\<close>

text \<open>
  C4: Whatever the interleaving of the main thread with its workers, when
  \<open>rte_eal_mp_remote_launch\<close> and the waits after it are over, every enabled lcore but the main
  one has called the function exactly once, has its result stored and is ready for the next
  command, and the results collected are those of the workers in order. The launch never finds
  a worker busy, and no worker ever runs the function twice.
\<close>

theorem launch_runs_each_once:
  assumes "worker_lcores role_rte main_lcore = Some workers" "f \<noteq> NULL"
    "(launch_step run f arg workers)\<^sup>*\<^sup>* (launch_init workers) s"
  shows "ls_pc s \<noteq> M_Busy \<and> (\<forall>w \<in> set workers. lc_calls (ls_lcores s w) \<in> {[], [(f, arg)]})
    \<and> (\<forall>rets. ls_pc s = M_Done rets \<longrightarrow> rets = map (\<lambda>_. run f arg) workers
         \<and> (\<forall>w \<in> set workers. lc_calls (ls_lcores s w) = [(f, arg)] \<and> lc_state (ls_lcores s w) = WAIT
              \<and> lc_f (ls_lcores s w) = NULL \<and> lc_ret (ls_lcores s w) = run f arg))"
proof -
  note i = inv_steps [OF assms(2) worker_lcores_distinct [OF assms(1)] assms(3)]
  have "lc_calls (ls_lcores s w) \<in> {[], [(f, arg)]}" if "w \<in> set workers" for w
    using inv_phase [OF i that] by (auto simp: phase_def)
  with i show ?thesis by (auto simp: in_phases_def phase_def)
qed

text \<open>Lcores 0 and 1 are enabled, 0 is the main one.\<close>

definition roles0 :: "u32 \<Rightarrow> bool" where "roles0 i \<longleftrightarrow> i < 2"

lemma workers0: "worker_lcores roles0 0 = Some [1]"
proof -
  have "[0..<128] = [0, 1] @ [2..<128]" by (simp add: upt_conv_Cons)
  moreover have "filter (worker roles0 0) [2..<128] = []"
    by (simp add: filter_empty_conv worker_def roles0_def word_less_nat_alt unat_of_nat)
  moreover have "\<not> worker roles0 0 0" "worker roles0 0 1" by (simp_all add: worker_def roles0_def)
  ultimately show ?thesis by (simp add: worker_lcores_spec)
qed

theorem launch_runs_each_once_witness:
  "\<exists>s. (launch_step (\<lambda>f a. 7) 0x400 0 [1])\<^sup>*\<^sup>* (launch_init [1]) s \<and> ls_pc s = M_Done [7]
     \<and> lc_calls (ls_lcores s 1) = [(0x400, 0)] \<and> lc_state (ls_lcores s 1) = WAIT"
proof -
  have f: "(0x400 :: addr) \<noteq> NULL" by simp
  from can_complete [OF f _ inv_init, of "[1]" "\<lambda>f a. 7" 0] obtain s rets where
    s: "(launch_step (\<lambda>f a. 7) 0x400 0 [1])\<^sup>*\<^sup>* (launch_init [1]) s" "ls_pc s = M_Done rets" by auto
  from launch_runs_each_once [OF workers0 f s(1)] s show ?thesis by auto
qed

text \<open>
  C12: The launch always ends. An execution, whatever the interleaving, has at most
  \<open>17 n + 4\<close> steps for \<open>n\<close> workers; as long as it has fewer some thread can go on, so there is
  no deadlock and no lost command or acknowledgement; and after exactly that many the main
  thread has all the results.
\<close>

theorem launch_completes:
  assumes "worker_lcores role_rte main_lcore = Some workers" "f \<noteq> NULL"
    "(launch_step run f arg workers ^^ k) (launch_init workers) s"
  shows "k \<le> 17 * length workers + 4
    \<and> (k < 17 * length workers + 4 \<longrightarrow> (\<exists>s'. launch_step run f arg workers s s'))
    \<and> (k = 17 * length workers + 4 \<longrightarrow> ls_pc s = M_Done (map (\<lambda>_. run f arg) workers))"
proof -
  from steps_count [OF assms(2) worker_lcores_distinct [OF assms(1)] assms(3)]
  have i: "launch_inv run f arg workers (ls_pc s) (ls_lcores s)" and c: "steps_left workers s + k = 17 * length workers + 4"
    by auto
  have go: "\<exists>s'. launch_step run f arg workers s s'" if "k < 17 * length workers + 4"
  proof (rule launch_progress [OF assms(2) i])
    fix rets
    show "ls_pc s \<noteq> M_Done rets"
    proof
      assume d: "ls_pc s = M_Done rets"
      have "worker_left (ls_lcores s w) = 0" if "w \<in> set workers" for w
        using i d that worker_left_phase [of 13 run f arg True] by (auto simp: in_phases_def)
      with d have "steps_left workers s = 0" by (simp add: steps_left_def)
      with c that show False by simp
    qed
  qed
  have "ls_pc s = M_Done (map (\<lambda>_. run f arg) workers)" if "k = 17 * length workers + 4"
  proof -
    from c that have "main_left (length workers) (ls_pc s) = 0" by (simp add: steps_left_def)
    with i show ?thesis by (cases "ls_pc s") auto
  qed
  with go c show ?thesis by auto
qed

theorem launch_completes_witness:
  "\<exists>s. (launch_step (\<lambda>f a. 7) 0x400 0 [1] ^^ 21) (launch_init [1]) s \<and> ls_pc s = M_Done [7]"
proof -
  have f: "(0x400 :: addr) \<noteq> NULL" by simp
  let ?step = "launch_step (\<lambda>f a. 7) 0x400 0 [1]"
  have "\<exists>s. (?step ^^ k) (launch_init [1]) s" if "k \<le> 21" for k
    using that
  proof (induction k)
    case (Suc k)
    then obtain s where s: "(?step ^^ k) (launch_init [1]) s" by auto
    with launch_completes [OF workers0 f s] Suc.prems obtain s' where "?step s s'" by auto
    with s show ?case by (auto intro: relcomppI)
  qed auto
  then obtain s where s: "(?step ^^ 21) (launch_init [1]) s" by blast
  from launch_completes [OF workers0 f s] s show ?thesis by auto
qed

end
