(* ===== verification/Packet_Properties.thy ===== *)
theory Packet_Properties
  imports Buffer_Properties Mbuf_Bulk
begin

text \<open>
  The properties of whole packets (\<open>Mbuf_Data\<close>, \<open>Mbuf_Copy\<close>, \<open>Mbuf_Bulk\<close>). \<open>packets0\<close> holds
  the packet \<open>0x5000\<close> of two segments, with the bytes 0 to 99, and the packets \<open>0x7000\<close> and
  \<open>0x8000\<close> of one segment, the last one from another pool.
\<close>

section \<open>Concrete packets\<close>

definition buffer_with :: "nat \<Rightarrow> nat \<Rightarrow> u8 list" where
  "buffer_with k n = replicate 128 0 @ map of_nat [k..<k + n] @ replicate (2048 - n) 0"

definition packets0 :: "addr rte_ring mbuf_world" where
  "packets0 = world0\<lparr>mw_mbufs := (mw_mbufs world0)
       (0x5000 \<mapsto> (sample_mbuf 0x5000 0x6000 60)\<lparr>m_nb_segs := 2, m_pkt_len := 100\<rparr>,
        0x8000 \<mapsto> (sample_mbuf 0x8000 0 30)\<lparr>m_pool := 0xA00\<rparr>),
     mw_pools := (mw_pools world0)(0xA00 \<mapsto> pool_of [] 0),
     mw_bytes := [0x5080 \<mapsto> buffer_with 0 60, 0x6080 \<mapsto> buffer_with 60 40, 0x7080 \<mapsto> buffer_with 100 50]\<rparr>"

lemma packets0_mbufs:
  "mbuf_at packets0 0x5000 = Some ((sample_mbuf 0x5000 0x6000 60)\<lparr>m_nb_segs := 2, m_pkt_len := 100\<rparr>)"
  "mbuf_at packets0 0x6000 = Some (sample_mbuf 0x6000 0 40)" "mbuf_at packets0 0x7000 = Some (sample_mbuf 0x7000 0 50)"
  "mbuf_at packets0 0x8000 = Some ((sample_mbuf 0x8000 0 30)\<lparr>m_pool := 0xA00\<rparr>)"
  by (simp_all add: mbuf_at_def packets0_def world0_def)

lemma packets0_bytes:
  "mw_bytes packets0 0x5080 = Some (buffer_with 0 60)" "mw_bytes packets0 0x6080 = Some (buffer_with 60 40)"
  "mw_bytes packets0 0x7080 = Some (buffer_with 100 50)"
  by (simp_all add: packets0_def)

lemma sample_sizes:
  "m_data_off (sample_mbuf a n l) = 128" "m_data_len (sample_mbuf a n l) = l" "m_buf_len (sample_mbuf a n l) = 2176"
  "m_nb_segs (sample_mbuf a n l) = 1" "m_pkt_len (sample_mbuf a n l) = ucast l" "m_buf_iova (sample_mbuf a n l) = a + 0x10000080"
  by (simp_all add: sample_mbuf_def)

lemma buffer_with_simps: "n \<le> 2048 \<Longrightarrow> length (buffer_with k n) = 2176" "take n (drop 128 (buffer_with k n)) = map of_nat [k..<k + n]"
  by (simp_all add: buffer_with_def)

lemma packets0_segs:
  "seg_ok packets0 0x5000" "seg_data packets0 0x5000 = map of_nat [0..<60]"
  "seg_ok packets0 0x6000" "seg_data packets0 0x6000 = map of_nat [60..<100]"
  "seg_ok packets0 0x7000" "seg_data packets0 0x7000 = map of_nat [100..<150]"
  using buffer_with_simps(2) [of 60 0] buffer_with_simps(2) [of 40 60] buffer_with_simps(2) [of 50 100]
  by (simp_all add: seg_ok_def seg_data_def rd_bytes_def packets0_mbufs packets0_bytes sample_sizes sample_direct buffer_with_simps(1)
      del: upt_rec_numeral)

lemma packets0_data: "pkt_data packets0 [0x5000, 0x6000] = map of_nat [0..<100]" "pkt_data packets0 [0x7000] = map of_nat [100..<150]"
proof -
  have "[0..<100] = [0..<60] @ [60..<100]" using upt_add_eq_append [of 0 60 40] by (simp del: upt_rec_numeral)
  then show "pkt_data packets0 [0x5000, 0x6000] = map of_nat [0..<100]" "pkt_data packets0 [0x7000] = map of_nat [100..<150]"
    by (simp_all only: pkt_data_simps packets0_segs map_append append_Nil2)
qed

lemma packets0_ok: "pkt_ok packets0 0x5000 [0x5000, 0x6000]" "pkt_ok packets0 0x7000 [0x7000]"
  by (simp_all add: pkt_ok_def packets0_mbufs packets0_segs sample_direct sample_sizes packets0_data
      del: upt_rec_numeral pkt_data_simps)


section \<open>The consistency check\<close>

text \<open>
  C32: for a chain of segments whose buffers exist, \<open>rte_mbuf_check\<close> of its head ends and
  returns 0 exactly if the fields of the head are plausible and the packet is well-formed: the
  data of every segment lie in its buffer, and the head counts segments and bytes right.
\<close>

theorem mbuf_check_accepts_exactly:
  assumes "seg_chain (mbuf_at w) a xs" "xs \<noteq> []" "distinct xs" "\<forall>x \<in> set xs. buf_ok w x" "length xs < 2 ^ 32" "mbuf_at w a = Some m"
  shows "\<exists>r. rte_mbuf_check w a True = Some r \<and> (fst r = 0 \<longleftrightarrow> head_ok m \<and> pkt_ok w a xs)"
  by (rule mbuf_check_iff [OF assms])

theorem mbuf_check_accepts_exactly_witness:
  "\<exists>r. rte_mbuf_check packets0 0x5000 True = Some r \<and> fst r = 0"
  using mbuf_check_accepts_exactly [of packets0 "0x5000" "[0x5000, 0x6000]"
      "(sample_mbuf 0x5000 0x6000 60)\<lparr>m_nb_segs := 2, m_pkt_len := 100\<rparr>"] packets0_ok(1)
  by (simp add: packets0_mbufs sample_direct sample_sizes buf_ok_def packets0_bytes buffer_with_simps head_ok_def)

section \<open>Growing and shrinking\<close>

text \<open>
  C31: if there is room, \<open>rte_pktmbuf_prepend\<close> and \<open>rte_pktmbuf_append\<close> return the address of
  the new bytes, which come before the first or behind the last byte of the packet, leave it
  well-formed and change no other byte; \<open>rte_pktmbuf_adj\<close> and \<open>rte_pktmbuf_trim\<close> by the same
  length then restore the state exactly.
\<close>

theorem pktmbuf_grow_shrink_roundtrip:
  assumes "pkt_ok w a xs" "mbuf_at w a = Some m" "mbuf_at w (last xs) = Some l"
    and "len \<le> rte_pktmbuf_headroom m" "len' \<le> rte_pktmbuf_tailroom l"
  shows "(\<exists>w' hd. rte_pktmbuf_prepend w a len = Some (m_buf_addr m + ucast (m_data_off m - len), w') \<and>
      pkt_ok w' a xs \<and> length hd = unat len \<and> pkt_data w' xs = hd @ pkt_data w xs \<and>
      rte_pktmbuf_adj w' a len = Some (m_buf_addr m + ucast (m_data_off m), w)) \<and>
    (\<exists>w' tl. rte_pktmbuf_append w a len' = Some (m_buf_addr l + ucast (m_data_off l) + ucast (m_data_len l), w') \<and>
      pkt_ok w' a xs \<and> length tl = unat len' \<and> pkt_data w' xs = pkt_data w xs @ tl \<and>
      rte_pktmbuf_trim w' a len' = Some (0, w))"
  using prepend_ok [OF assms(1,2)] append_ok [OF assms(1-3,5)] assms(4) by (simp add: rte_pktmbuf_headroom_def)

theorem pktmbuf_grow_shrink_roundtrip_witness:
  "(\<exists>w'. rte_pktmbuf_prepend packets0 0x5000 14 = Some (0x50F2, w') \<and> length (pkt_data w' [0x5000, 0x6000]) = 114 \<and>
      rte_pktmbuf_adj w' 0x5000 14 = Some (0x5100, packets0)) \<and>
   (\<exists>w'. rte_pktmbuf_append packets0 0x5000 4 = Some (0x6128, w') \<and> length (pkt_data w' [0x5000, 0x6000]) = 104 \<and>
      rte_pktmbuf_trim w' 0x5000 4 = Some (0, packets0))"
  using pktmbuf_grow_shrink_roundtrip [OF packets0_ok(1) packets0_mbufs(1), of "sample_mbuf 0x6000 0 40" 14 4] packets0_data(1)
  by (auto simp: packets0_mbufs sample_direct sample_sizes rte_pktmbuf_headroom_def rte_pktmbuf_tailroom_def
      simp del: upt_rec_numeral pkt_data_simps)

section \<open>Reading\<close>

text \<open>
  C30: reading \<open>len\<close> bytes from \<open>off\<close> yields exactly that slice of the packet, in place or
  put together in the caller's buffer from as many segments as needed, and NULL if the slice
  ends behind the packet. Where \<open>off + len\<close> wraps around, and for no bytes at the end, see
  below.
\<close>

theorem pktmbuf_read_slice:
  assumes "pkt_ok w a xs" "0 < len" "unat len \<le> length buf" "unat off + unat len < 2 ^ 32"
  shows "\<exists>q. rte_pktmbuf_read w a off len buf = Some q \<and>
    read_bytes w q len =
      (if unat off + unat len \<le> length (pkt_data w xs) then Some (take (unat len) (drop (unat off) (pkt_data w xs))) else None)"
proof (cases "unat off + unat len \<le> length (pkt_data w xs)")
  case True
  with pktmbuf_read_ok [OF assms(1) True] assms(2,3) show ?thesis by (simp add: word_gt_0)
next
  case False
  with pktmbuf_read_beyond [OF assms(1), of off len] assms(4) show ?thesis by (simp add: read_bytes_def)
qed

theorem pktmbuf_read_slice_witness:
  "\<exists>q. rte_pktmbuf_read packets0 0x5000 58 4 [0, 0, 0, 0] = Some q \<and> read_bytes packets0 q 4 = Some [58, 59, 60, 61]"
proof -
  have "take 4 (drop 58 (map (of_nat :: nat \<Rightarrow> u8) [0..<100])) = [58, 59, 60, 61]"
    by (simp add: drop_map take_map del: upt_rec_numeral) simp
  with pktmbuf_read_slice [OF packets0_ok(1), of 4 "[0, 0, 0, 0]" 58] packets0_data(1) show ?thesis
    by (simp del: upt_rec_numeral pkt_data_simps)
qed

text \<open>
  C38: two requests on which \<open>rte_pktmbuf_read\<close> goes wrong for a well-formed packet: no bytes
  from the end of a packet of several segments make it follow the NULL pointer behind the last
  segment, and if \<open>off + len\<close> wraps around to 0, it returns a pointer \<open>off\<close> bytes behind the
  start of the first segment's data, however short the packet is.
\<close>

theorem pktmbuf_read_unchecked:
  assumes "pkt_ok w a (a # ys)"
  shows "(pkt_data w ys \<noteq> [] \<and> unat off = length (pkt_data w (a # ys)) \<longrightarrow> rte_pktmbuf_read w a off 0 buf = None) \<and>
    (off + len = 0 \<longrightarrow> rte_pktmbuf_read w a off len buf = Some (Rd_Seg a off))"
proof -
  from assms obtain m where "mbuf_at w a = Some m" by (rule pkt_okE) blast
  with pktmbuf_read_end [OF assms] pktmbuf_read_wraps show ?thesis by blast
qed

theorem pktmbuf_read_unchecked_witness:
  "rte_pktmbuf_read packets0 0x5000 100 0 [] = None \<and> rte_pktmbuf_read packets0 0x5000 (- 8) 8 [] = Some (Rd_Seg 0x5000 (- 8))"
proof -
  have "pkt_data packets0 [0x6000] \<noteq> []" by (simp add: packets0_segs)
  with pktmbuf_read_unchecked [OF packets0_ok(1), of 100 "[]" 0] pktmbuf_read_unchecked [OF packets0_ok(1), of "- 8" "[]" 8]
    packets0_data(1) show ?thesis by (simp del: upt_rec_numeral pkt_data_simps)
qed

section \<open>Chaining and linearisation\<close>

text \<open>
  \<open>rte_pktmbuf_chain\<close> of two packets that share no segment appends the second one to the
  first one if the result has at most 65535 segments, and the result is well-formed;
  otherwise it returns \<open>- EOVERFLOW\<close> and changes nothing.
\<close>

theorem pktmbuf_chain_concatenates:
  assumes "pkt_ok w a xs" "pkt_ok w b ys" "set xs \<inter> set ys = {}"
  shows "if length xs + length ys \<le> 65535
    then \<exists>w'. rte_pktmbuf_chain w a b = Some (0, w') \<and> pkt_ok w' a (xs @ ys) \<and>
      pkt_data w' (xs @ ys) = pkt_data w xs @ pkt_data w ys
    else rte_pktmbuf_chain w a b = Some (- EOVERFLOW, w)"
  using chain_ok [OF assms] chain_overflow [OF assms(1,2)] by simp

theorem pktmbuf_chain_concatenates_witness:
  "\<exists>w'. rte_pktmbuf_chain packets0 0x5000 0x7000 = Some (0, w') \<and> pkt_ok w' 0x5000 [0x5000, 0x6000, 0x7000] \<and>
    pkt_data w' [0x5000, 0x6000, 0x7000] = map of_nat [0..<150]"
proof -
  have "[0..<150] = [0..<100] @ [100..<150]" using upt_add_eq_append [of 0 100 50] by (simp del: upt_rec_numeral)
  with pktmbuf_chain_concatenates [OF packets0_ok] packets0_data show ?thesis by (simp del: upt_rec_numeral pkt_data_simps)
qed

text \<open>
  C28: \<open>rte_pktmbuf_linearize\<close> moves the bytes of a packet into its first segment, in order,
  and gives the other segments back to their pool, if they fit behind the first one; it fails
  without any change if they do not.
\<close>

theorem linearize_keeps_packet:
  assumes "i < 6" "mw_pools w P = Some mp" "ring_pool_ok env i mp" "mw_ops w = ring_ops_table env"
    and "size (pool_bag ring_bag mp) + length ys \<le> pool_cap ring_bag ring_room mp"
    and "pkt_ok w a (a # ys)" "mbuf_at w a = Some m" "\<And>y. y \<in> set ys \<Longrightarrow> sole_direct w P y"
    and "\<And>y my. y \<in> set ys \<Longrightarrow> mbuf_at w y = Some my \<Longrightarrow> m_buf_addr my \<noteq> m_buf_addr m"
  shows "if ys = [] \<or> length (pkt_data w ys) \<le> unat (rte_pktmbuf_tailroom m)
    then \<exists>w' mp'. rte_pktmbuf_linearize w a = Some (0, w') \<and> pkt_ok w' a [a] \<and>
      pkt_data w' [a] = pkt_data w (a # ys) \<and> mw_pools w' = (mw_pools w)(P \<mapsto> mp') \<and>
      ring_pool_ok env i mp' \<and> pool_bag ring_bag mp' = pool_bag ring_bag mp + mset ys
    else rte_pktmbuf_linearize w a = Some (- 1, w)"
proof (cases "ys = [] \<or> length (pkt_data w ys) \<le> unat (rte_pktmbuf_tailroom m)")
  case True
  then have "length (pkt_data w ys) \<le> unat (rte_pktmbuf_tailroom m)" by auto
  from mempool_driver.linearize_ok [OF ring_mode_driver [OF assms(1), of env] assms(6-9) this assms(2) _ assms(5)] assms(3,4) True
  show ?thesis by simp
next
  case False
  with mempool_driver.linearize_no_room [OF ring_mode_driver [OF assms(1)] assms(6,7)] show ?thesis by auto
qed

theorem linearize_keeps_packet_witness:
  "\<exists>w' mp'. rte_pktmbuf_linearize packets0 0x5000 = Some (0, w') \<and> pkt_data w' [0x5000] = map of_nat [0..<100] \<and>
    mw_pools w' = (mw_pools packets0)(0x900 \<mapsto> mp') \<and> pool_bag ring_bag mp' = pool_bag ring_bag pool7 + {#0x6000#}"
proof -
  have p: "mw_pools packets0 0x900 = Some pool7" "mw_ops packets0 = ring_ops_table no_env" by (simp_all add: packets0_def world0_def)
  have s: "sole_direct packets0 0x900 0x6000" by (simp add: sole_direct_def packets0_mbufs sample_direct)
  have t: "length (pkt_data packets0 [0x6000]) = 40" by (simp add: packets0_segs)
  let ?m = "(sample_mbuf 0x5000 0x6000 60)\<lparr>m_nb_segs := 2, m_pkt_len := 100\<rparr>"
  have room: "40 \<le> unat (rte_pktmbuf_tailroom ?m)" by (simp add: sample_sizes rte_pktmbuf_tailroom_def rte_pktmbuf_headroom_def)
  have "if [0x6000 :: addr] = [] \<or> length (pkt_data packets0 [0x6000]) \<le> unat (rte_pktmbuf_tailroom ?m)
    then \<exists>w' mp'. rte_pktmbuf_linearize packets0 0x5000 = Some (0, w') \<and> pkt_ok w' 0x5000 [0x5000] \<and>
      pkt_data w' [0x5000] = pkt_data packets0 [0x5000, 0x6000] \<and> mw_pools w' = (mw_pools packets0)(0x900 \<mapsto> mp') \<and>
      ring_pool_ok no_env 0 mp' \<and> pool_bag ring_bag mp' = pool_bag ring_bag pool7 + mset [0x6000]
    else rte_pktmbuf_linearize packets0 0x5000 = Some (- 1, packets0)"
    by (rule linearize_keeps_packet [of 0])
      (use p s pool7_ok packets0_ok(1) in \<open>auto simp: pool7_bag packets0_mbufs sample_direct\<close>)
  then show ?thesis using t room packets0_data(1) by (auto simp del: pkt_data_simps)
qed

section \<open>Release in bulk\<close>

text \<open>
  C10: \<open>rte_pktmbuf_free_bulk\<close> of any number of packets (NULL pointers among them are skipped)
  gives every segment of every packet back to the pool it came from, exactly once, however the
  pools alternate; the array of 64 pending segments never overflows, and no other buffer or
  pool changes.
\<close>

theorem free_bulk_returns_each:
  assumes "i < 6" "mw_ops w = ring_ops_table env"
    and "list_all2 (seg_chain (mbuf_at w)) (take (unat cnt) ms) xss" "distinct (concat xss)" "unat cnt \<le> length ms"
    and "\<And>x. x \<in> set (concat xss) \<Longrightarrow> sole_direct w (home w x) x"
    and "\<And>P. P \<in> home w ` set (concat xss) \<Longrightarrow> \<exists>mp. mw_pools w P = Some mp \<and> ring_pool_ok env i mp \<and>
      size (pool_bag ring_bag mp) + length (filter (\<lambda>x. home w x = P) (concat xss)) \<le> pool_cap ring_bag ring_room mp"
  shows "\<exists>w'. rte_pktmbuf_free_bulk w ms cnt = Some w' \<and>
    (\<forall>x. x \<notin> set (concat xss) \<longrightarrow> mbuf_at w' x = mbuf_at w x) \<and>
    (\<forall>P. P \<notin> home w ` set (concat xss) \<longrightarrow> mw_pools w' P = mw_pools w P) \<and>
    (\<forall>P \<in> home w ` set (concat xss). \<exists>mp mp'. mw_pools w P = Some mp \<and> mw_pools w' P = Some mp' \<and> ring_pool_ok env i mp' \<and>
       pool_bag ring_bag mp' = pool_bag ring_bag mp + mset (filter (\<lambda>x. home w x = P) (concat xss)))"
  using mempool_driver.free_bulk_ok [OF ring_mode_driver [OF assms(1)] assms(3-6), of env] assms(2,7) by simp

theorem free_bulk_returns_each_witness:
  "\<exists>w' mp mp'. rte_pktmbuf_free_bulk packets0 [0x5000, NULL, 0x8000, 0x7000] 4 = Some w' \<and>
    mw_pools w' 0x900 = Some mp \<and> pool_bag ring_bag mp = pool_bag ring_bag pool7 + {#0x5000, 0x6000, 0x7000#} \<and>
    mw_pools w' 0xA00 = Some mp' \<and> pool_bag ring_bag mp' = {#0x8000#}"
proof -
  have r: "ring_rts False (ring8 [])" "ring_list (ring8 []) = []" "ring_room (ring8 []) = 7" by code_simp+
  have po: "ring_pool_ok no_env 0 (pool_of [] 0)" "pool_bag ring_bag (pool_of [] 0) = {#}" "pool_cap ring_bag ring_room (pool_of [] 0) = 7"
    using pool_of_ok [OF r(1), of 0] r(2,3) by (simp_all add: pool_of_bag del: length_ring_list)
  have p: "mw_pools packets0 0x900 = Some pool7" "mw_pools packets0 0xA00 = Some (pool_of [] 0)"
    "mw_ops packets0 = ring_ops_table no_env" by (simp_all add: packets0_def world0_def)
  have h: "home packets0 0x5000 = 0x900" "home packets0 0x6000 = 0x900" "home packets0 0x7000 = 0x900" "home packets0 0x8000 = 0xA00"
    by (simp_all add: home_def packets0_mbufs sample_direct)
  have s: "sole_direct packets0 0x900 0x5000" "sole_direct packets0 0x900 0x6000" "sole_direct packets0 0x900 0x7000"
    "sole_direct packets0 0xA00 0x8000"
    using sample_direct(1) by (simp_all add: sole_direct_def packets0_mbufs sample_direct RTE_MBUF_DIRECT_def)
  let ?xss = "[[0x5000, 0x6000], [], [0x8000], [0x7000]]"
  have "\<exists>w'. rte_pktmbuf_free_bulk packets0 [0x5000, NULL, 0x8000, 0x7000] 4 = Some w' \<and>
    (\<forall>x. x \<notin> set (concat ?xss) \<longrightarrow> mbuf_at w' x = mbuf_at packets0 x) \<and>
    (\<forall>P. P \<notin> home packets0 ` set (concat ?xss) \<longrightarrow> mw_pools w' P = mw_pools packets0 P) \<and>
    (\<forall>P \<in> home packets0 ` set (concat ?xss). \<exists>mp mp'. mw_pools packets0 P = Some mp \<and> mw_pools w' P = Some mp' \<and>
       ring_pool_ok no_env 0 mp' \<and>
       pool_bag ring_bag mp' = pool_bag ring_bag mp + mset (filter (\<lambda>x. home packets0 x = P) (concat ?xss)))"
    by (rule free_bulk_returns_each [of 0])
      (use p h s po pool7_ok in \<open>auto simp: packets0_mbufs sample_direct pool7_bag\<close>)
  then show ?thesis using p h po(2) by (auto simp: add_mset_commute)
qed

section \<open>Shallow copies\<close>

text \<open>
  C29: \<open>rte_pktmbuf_clone\<close> of a packet whose segments hold their own buffers makes a well-formed
  packet from segments of the pool, with the same bytes in the same buffers, and leaves the
  original as it was but for one more reference to each segment. If the pool runs dry on the
  way (the lcore can reach fewer objects than the packet has segments), it returns NULL, every
  object is back in the pool and everything outside the pool is as before, reference counts
  included.
\<close>

theorem clone_shares_or_restores:
  assumes "i < 6" "mw_pools w P = Some mp" "ring_pool_ok env i mp" "mw_ops w = ring_ops_table env"
    and "size (pool_bag ring_bag mp) \<le> pool_cap ring_bag ring_room mp" "mw_priv w P \<noteq> None"
    and "\<And>a. count (pool_bag ring_bag mp) a \<le> 1" "\<And>a. a \<in># pool_bag ring_bag mp \<Longrightarrow> sole_direct w P a \<and> a \<notin> set xs"
    and "pkt_ok w md xs" "\<And>x. x \<in> set xs \<Longrightarrow> \<exists>s. mbuf_at w x = Some s \<and> shareable x s"
  shows "(\<exists>mc w' cs mp'. rte_pktmbuf_clone w md P = Some (mc, w') \<and> pkt_ok w' mc cs \<and> pkt_data w' cs = pkt_data w xs \<and>
      pkt_ok w' md xs \<and> pkt_data w' xs = pkt_data w xs \<and> cloned P w w' cs xs \<and> same_but (set cs \<union> set xs) w w' \<and>
      mw_pools w' = (mw_pools w)(P \<mapsto> mp') \<and> ring_pool_ok env i mp' \<and>
      pool_bag ring_bag mp = pool_bag ring_bag mp' + mset cs) \<or>
    (\<exists>w' mp'. rte_pktmbuf_clone w md P = Some (NULL, w') \<and> near ring_bag (mw_lcore w) mp < length xs \<and>
      mw_pools w' = (mw_pools w)(P \<mapsto> mp') \<and> ring_pool_ok env i mp' \<and> pool_bag ring_bag mp' = pool_bag ring_bag mp \<and>
      same_but (set_mset (pool_bag ring_bag mp)) w w' \<and> (\<forall>a. a \<in># pool_bag ring_bag mp \<longrightarrow> sole_direct w' P a))"
  using mempool_driver.clone_ok [OF ring_mode_driver [OF assms(1), of env] assms(9,10,2) _ assms(5-8)] assms(3,4) by simp

theorem clone_shares_or_restores_witness:
  "\<exists>mc w' cs. rte_pktmbuf_clone packets0 0x5000 0x900 = Some (mc, w') \<and> pkt_ok w' mc cs \<and>
    pkt_data w' cs = map of_nat [0..<100] \<and> pkt_data w' [0x5000, 0x6000] = map of_nat [0..<100] \<and>
    set cs \<subseteq> {0x1000, 0x2000, 0x3000, 0x4000}"
proof -
  have p: "mw_pools packets0 0x900 = Some pool7" "mw_ops packets0 = ring_ops_table no_env" "mw_priv packets0 0x900 \<noteq> None"
    "mw_lcore packets0 = 5" by (simp_all add: packets0_def world0_def)
  have sd: "sole_direct packets0 0x900 a \<and> a \<notin> set [0x5000, 0x6000]" if "a \<in># pool_bag ring_bag pool7" for a
    using that by (auto simp: pool7_bag sole_direct_at sole_def mbuf_at_def packets0_def world0_def sample_direct)
  have c1: "count (pool_bag ring_bag pool7) a \<le> 1" for a by (simp add: pool7_bag)
  have sh: "\<exists>s. mbuf_at packets0 x = Some s \<and> shareable x s" if "x \<in> set [0x5000, 0x6000]" for x
    using that sample_direct(1) by (auto simp: packets0_mbufs shareable_def sample_direct rte_mbuf_from_indirect_def
        sizeof_rte_mbuf_def RTE_MBUF_DIRECT_def)
  have n: "near ring_bag 5 pool7 \<ge> 2"
    using ring8_4(2) by (simp add: near_def pool7_def pool_of_def ring_bag_def del: length_ring_list)
  have cap: "size (pool_bag ring_bag pool7) \<le> pool_cap ring_bag ring_room pool7" by (simp add: pool7_bag)
  from clone_shares_or_restores [OF _ p(1) pool7_ok p(2) cap p(3) c1 sd packets0_ok(1) sh] p(4) n
  obtain mc w' cs mp' where r: "rte_pktmbuf_clone packets0 0x5000 0x900 = Some (mc, w')" "pkt_ok w' mc cs"
    "pkt_data w' cs = pkt_data packets0 [0x5000, 0x6000]" "pkt_data w' [0x5000, 0x6000] = pkt_data packets0 [0x5000, 0x6000]"
    "pool_bag ring_bag pool7 = pool_bag ring_bag mp' + mset cs" by (auto simp del: pkt_data_simps)
  have "set_mset (mset cs) \<subseteq> set_mset (pool_bag ring_bag pool7)" by (simp add: r(5))
  then have "set cs \<subseteq> {0x1000, 0x2000, 0x3000, 0x4000}" by (simp add: pool7_bag)
  with r packets0_data(1) show ?thesis by (metis (no_types, lifting))
qed

end
