(* ===== verification/Mempool_Layout.thy ===== *)
theory Mempool_Layout
  imports Eal_Bits Mempool
begin

text \<open>
  The memory of a pool (\<open>rte_mempool.c\<close>, \<open>rte_mempool_ops_default.c\<close>): the size of an object
  with its header, trailer and padding, the memory that a number of objects needs, and how a
  chunk of memory is cut into objects. Debug cookies are compiled out. What EAL knows about
  memory channels and pages is a parameter.
\<close>

definition RTE_MEMPOOL_ALIGN :: u32 where "RTE_MEMPOOL_ALIGN = 64"
definition RTE_MEMPOOL_ALIGN_MASK :: u32 where "RTE_MEMPOOL_ALIGN_MASK = RTE_MEMPOOL_ALIGN - 1"
definition RTE_MEMPOOL_F_NO_SPREAD :: u32 where "RTE_MEMPOOL_F_NO_SPREAD = 0x0001"
definition RTE_MEMPOOL_F_NO_CACHE_ALIGN :: u32 where "RTE_MEMPOOL_F_NO_CACHE_ALIGN = 0x0002"
definition RTE_MEMPOOL_F_NO_IOVA_CONTIG :: u32 where "RTE_MEMPOOL_F_NO_IOVA_CONTIG = 0x0020"
definition RTE_MEMPOOL_POPULATE_F_ALIGN_OBJ :: u32 where "RTE_MEMPOOL_POPULATE_F_ALIGN_OBJ = 0x0001"
definition RTE_BAD_IOVA :: u64 where "RTE_BAD_IOVA = - 1"
definition SOCKET_ID_ANY :: int where "SOCKET_ID_ANY = - 1"

text \<open>\<open>me_memseg_lists\<close>: socket, page size and \<open>external\<close> of each list of memory segments.\<close>

record mempool_eal =
  me_nchannel :: u32
  me_nrank :: u32
  me_memseg_lists :: "(int \<times> u64 \<times> bool) list"
  me_page_size :: u64
  me_has_hugepages :: bool
  me_socket_is_external :: "int \<Rightarrow> int"

section \<open>The size of an object\<close>

function gcd_loop :: "u32 \<Rightarrow> u32 \<Rightarrow> u32" where
  "gcd_loop a b = (if b \<noteq> 0 then gcd_loop b (a mod b) else a)"
  by auto
termination
  by (relation "measure (unat \<circ> snd)") (auto simp: unat_mod unat_gt_0)

declare gcd_loop.simps [simp del]

definition get_gcd :: "u32 \<Rightarrow> u32 \<Rightarrow> u32" where
  "get_gcd a b =
     (if a = 0 then b else if b = 0 then a
      else if a < b then gcd_loop b a else gcd_loop a b)"

partial_function (option) align_loop :: "u32 \<Rightarrow> u32 \<Rightarrow> u32 option" where
  "align_loop m new_obj_size = (if get_gcd new_obj_size m \<noteq> 1 then align_loop m (new_obj_size + 1) else Some new_obj_size)"

definition arch_mem_object_align :: "mempool_eal \<Rightarrow> u32 \<Rightarrow> u32 option" where
  "arch_mem_object_align e obj_size =
     (let nchan = (if me_nchannel e = 0 then 4 else me_nchannel e);
          nrank = (if me_nrank e = 0 then 1 else me_nrank e)
      in map_option (\<lambda>new_obj_size. new_obj_size * RTE_MEMPOOL_ALIGN)
           (align_loop (nrank * nchan) ((obj_size + RTE_MEMPOOL_ALIGN_MASK) div RTE_MEMPOOL_ALIGN)))"

record rte_mempool_objsz =
  sz_elt_size :: u32
  sz_header_size :: u32
  sz_trailer_size :: u32
  sz_total_size :: u32

definition sizeof_objhdr :: u32 where "sizeof_objhdr = 24"

text \<open>The result is \<open>total_size\<close>, with the structure \<open>sz\<close>.\<close>

definition rte_mempool_calc_obj_size :: "mempool_eal \<Rightarrow> u32 \<Rightarrow> u32 \<Rightarrow> (u32 \<times> rte_mempool_objsz) option" where
  "rte_mempool_calc_obj_size e elt_size flags =
     (let header_size = sizeof_objhdr;
          header_size = (if flags AND RTE_MEMPOOL_F_NO_CACHE_ALIGN = 0 then RTE_ALIGN_CEIL header_size RTE_MEMPOOL_ALIGN else header_size);
          trailer_size = 0;
          elt_size = RTE_ALIGN_CEIL elt_size 8;
          trailer_size = (if flags AND RTE_MEMPOOL_F_NO_CACHE_ALIGN = 0 then
              let total_size = header_size + elt_size + trailer_size
              in trailer_size + ((RTE_MEMPOOL_ALIGN - (total_size AND RTE_MEMPOOL_ALIGN_MASK)) AND RTE_MEMPOOL_ALIGN_MASK)
            else trailer_size)
      in do {
        trailer_size \<leftarrow> (if flags AND RTE_MEMPOOL_F_NO_SPREAD = 0 then
            do { new_size \<leftarrow> arch_mem_object_align e (header_size + elt_size + trailer_size);
                 Some (new_size - header_size - elt_size) }
          else Some trailer_size);
        let total_size = header_size + elt_size + trailer_size;
        Some (total_size, \<lparr>sz_elt_size = elt_size, sz_header_size = header_size, sz_trailer_size = trailer_size,
          sz_total_size = total_size\<rparr>) })"

section \<open>Page sizes\<close>

definition find_min_pagesz :: "int \<Rightarrow> (int \<times> u64 \<times> bool) \<Rightarrow> u64 \<Rightarrow> u64" where
  "find_min_pagesz socket_id msl wa_min =
     (case msl of (ms_socket, page_sz, external) \<Rightarrow>
        let valid = (ms_socket = socket_id);
            valid = (valid \<or> socket_id = SOCKET_ID_ANY \<and> \<not> external)
        in if valid \<and> page_sz < wa_min then page_sz else wa_min)"

definition get_min_page_size :: "mempool_eal \<Rightarrow> int \<Rightarrow> u64" where
  "get_min_page_size e socket_id =
     (let m = fold (find_min_pagesz socket_id) (me_memseg_lists e) (- 1)
      in if m = - 1 then me_page_size e else m)"

definition rte_mempool_get_page_size :: "mempool_eal \<Rightarrow> 'p rte_mempool \<Rightarrow> int + u64" where
  "rte_mempool_get_page_size e mp =
     (let ret = me_socket_is_external e (mp_socket_id mp)
      in if ret < 0 then Inl (- EINVAL)
         else
           let alloc_in_ext_mem = (ret = 1);
               need_iova_contig_obj = (mp_flags mp AND RTE_MEMPOOL_F_NO_IOVA_CONTIG = 0)
           in Inr (if \<not> need_iova_contig_obj then 0
                   else if me_has_hugepages e \<or> alloc_in_ext_mem then get_min_page_size e (mp_socket_id mp)
                   else me_page_size e))"

section \<open>The memory of a number of objects\<close>

definition mp_total_elt_sz :: "'p rte_mempool \<Rightarrow> u64" where
  "mp_total_elt_sz mp = ucast (mp_header_size mp + mp_elt_size mp + mp_trailer_size mp)"

text \<open>The result is the size, \<open>*min_chunk_size\<close> and \<open>*align\<close>; shifts by 64 or more are undefined.\<close>

definition rte_mempool_op_calc_mem_size_helper ::
  "'p rte_mempool \<Rightarrow> u32 \<Rightarrow> u32 \<Rightarrow> u64 \<Rightarrow> (int + u64 \<times> u64 \<times> u64) option" where
  "rte_mempool_op_calc_mem_size_helper mp obj_num pg_shift chunk_reserve =
     (let total_elt_sz = mp_total_elt_sz mp;
          done = (\<lambda>mem_size. Some (Inr (mem_size, total_elt_sz, ucast RTE_MEMPOOL_ALIGN)))
      in if total_elt_sz = 0 then done 0
         else if pg_shift = 0 then done (total_elt_sz * ucast obj_num + chunk_reserve)
         else if 64 \<le> pg_shift then None
         else
           let pg_sz = push_bit (unat pg_shift) 1
           in if pg_sz \<le> chunk_reserve then Some (Inl (- EINVAL))
              else
                let obj_per_page = (pg_sz - chunk_reserve) div total_elt_sz
                in if obj_per_page = 0 then done (RTE_ALIGN_CEIL (total_elt_sz + chunk_reserve) pg_sz * ucast obj_num)
                   else
                     let objs_in_last_page = ucast (obj_num - 1) mod obj_per_page + 1;
                         mem_size = objs_in_last_page * total_elt_sz + chunk_reserve;
                         mem_size = mem_size + push_bit (unat pg_shift) ((ucast obj_num - objs_in_last_page) div obj_per_page);
                         mem_size = mem_size + (total_elt_sz - 1)
                     in done mem_size)"

definition rte_mempool_op_calc_mem_size_default :: "'p rte_mempool \<Rightarrow> u32 \<Rightarrow> u32 \<Rightarrow> (int + u64 \<times> u64 \<times> u64) option" where
  "rte_mempool_op_calc_mem_size_default mp obj_num pg_shift = rte_mempool_op_calc_mem_size_helper mp obj_num pg_shift 0"

section \<open>Cutting a chunk into objects\<close>

text \<open>
  A pool while it is filled: the structure and the IO addresses in the headers of its objects
  (\<open>hdr->mp\<close> is not read here).
\<close>

type_synonym 'p filling = "'p rte_mempool \<times> (addr \<Rightarrow> u64)"

definition mempool_add_elem :: "'p filling \<Rightarrow> addr \<Rightarrow> u64 \<Rightarrow> 'p filling" where
  "mempool_add_elem s obj iova =
     (case s of (mp, iovas) \<Rightarrow>
        (mp\<lparr>mp_elt_list := mp_elt_list mp @ [obj], mp_populated_size := mp_populated_size mp + 1\<rparr>, iovas(obj := iova)))"

text \<open>\<open>True\<close> is the result \<open>- 1\<close>: the object crosses a page boundary.\<close>

definition check_obj_bounds :: "addr \<Rightarrow> u64 \<Rightarrow> u64 \<Rightarrow> bool" where
  "check_obj_bounds obj pg_sz elt_sz =
     (if pg_sz = 0 then False
      else if pg_sz < elt_sz then False
      else RTE_ALIGN_CEIL obj pg_sz \<noteq> RTE_ALIGN_CEIL (obj + elt_sz - 1) pg_sz)"

definition next_off :: "u32 \<Rightarrow> addr \<Rightarrow> u64 \<Rightarrow> u64 \<Rightarrow> u64 \<Rightarrow> u64" where
  "next_off flags va pg_sz total_elt_sz off =
     (if check_obj_bounds (va + off) pg_sz total_elt_sz then
        let off = off + (RTE_ALIGN_CEIL (va + off) pg_sz - (va + off))
        in if flags AND RTE_MEMPOOL_POPULATE_F_ALIGN_OBJ \<noteq> 0
           then off + (total_elt_sz - ((va + off - 1) mod total_elt_sz + 1)) else off
      else off)"

text \<open>\<open>k\<close> rounds are left.\<close>

primrec populate_loop ::
  "nat \<Rightarrow> 'p ops_table \<Rightarrow> u32 \<Rightarrow> addr \<Rightarrow> u64 \<Rightarrow> u64 \<Rightarrow> u64 \<Rightarrow> u32 \<Rightarrow> u64 \<Rightarrow> 'p filling \<Rightarrow> (u32 \<times> 'p filling) option" where
  "populate_loop 0 ot flags va iova len pg_sz i off s = Some (i, s)"
| "populate_loop (Suc k) ot flags va iova len pg_sz i off s =
     (let mp = fst s; total_elt_sz = mp_total_elt_sz mp; off = next_off flags va pg_sz total_elt_sz off
      in if len < off + total_elt_sz then Some (i, s)
         else
           let off = off + ucast (mp_header_size mp);
               obj = va + off;
               s = mempool_add_elem s obj (if iova = RTE_BAD_IOVA then RTE_BAD_IOVA else iova + off)
           in do { (_, mp') \<leftarrow> rte_mempool_ops_enqueue_bulk ot (fst s) [obj] 1;
                   populate_loop k ot flags va iova len pg_sz (i + 1) (off + ucast (mp_elt_size mp + mp_trailer_size mp)) (mp', snd s) })"

definition rte_mempool_op_populate_helper ::
  "mempool_eal \<Rightarrow> 'p ops_table \<Rightarrow> 'p filling \<Rightarrow> u32 \<Rightarrow> u32 \<Rightarrow> addr \<Rightarrow> u64 \<Rightarrow> u64 \<Rightarrow> (int \<times> 'p filling) option" where
  "rte_mempool_op_populate_helper e ot s flags max_objs va iova len =
     (case rte_mempool_get_page_size e (fst s) of
        Inl ret \<Rightarrow> Some (ret, s)
      | Inr pg_sz \<Rightarrow>
          let total_elt_sz = mp_total_elt_sz (fst s);
              off = (if flags AND RTE_MEMPOOL_POPULATE_F_ALIGN_OBJ \<noteq> 0
                     then total_elt_sz - ((va - 1) mod total_elt_sz + 1) else 0)
          in map_option (\<lambda>(i, s). (sint i, s)) (populate_loop (unat max_objs) ot flags va iova len pg_sz 0 off s))"

definition rte_mempool_op_populate_default ::
  "mempool_eal \<Rightarrow> 'p ops_table \<Rightarrow> 'p filling \<Rightarrow> u32 \<Rightarrow> addr \<Rightarrow> u64 \<Rightarrow> u64 \<Rightarrow> (int \<times> 'p filling) option" where
  "rte_mempool_op_populate_default e ot s max_objs va iova len = rte_mempool_op_populate_helper e ot s 0 max_objs va iova len"

section \<open>The size of an object, proved\<close>

lemma gcd_loop_gcd: "unat (gcd_loop a b) = gcd (unat a) (unat b)"
proof (induction a b rule: gcd_loop.induct)
  case (1 a b)
  show ?case
  proof (cases "b = 0")
    case False
    with 1 show ?thesis by (subst gcd_loop.simps) (simp add: unat_mod gcd.commute gcd_red_nat [of "unat a" "unat b"])
  qed (subst gcd_loop.simps, simp)
qed

lemma get_gcd_gcd: "unat (get_gcd a b) = gcd (unat a) (unat b)"
  by (simp add: get_gcd_def gcd_loop_gcd gcd.commute)

text \<open>
  Between any number and the next one that is 1 modulo \<open>m\<close> there are fewer than \<open>m\<close> steps, so
  the search for a size that spreads the objects over all channels ends.
\<close>

lemma align_loop_ok:
  assumes "0 < unat m" "unat n + unat m < 2 ^ 32"
  shows "\<exists>r. align_loop m n = Some r \<and> unat n \<le> unat r \<and> unat r < unat n + unat m \<and> gcd (unat r) (unat m) = 1"
proof -
  have *: "\<exists>r. align_loop m n = Some r \<and> unat n \<le> unat r \<and> unat r \<le> unat n + d \<and> gcd (unat r) (unat m) = 1"
    if "gcd (unat n + d) (unat m) = 1" "unat n + d < 2 ^ 32" for d n
    using that
  proof (induction d arbitrary: n)
    case 0
    then have "get_gcd n m = 1" using get_gcd_gcd [of n m] by (simp add: word_unat_eq_iff)
    with 0 show ?case by (subst align_loop.simps) simp
  next
    case (Suc d)
    show ?case
    proof (cases "get_gcd n m = 1")
      case True
      with get_gcd_gcd [of n m] show ?thesis by (subst align_loop.simps) simp
    next
      case False
      have n1: "unat (n + 1) = Suc (unat n)" using Suc.prems(2) by (subst unat_add_nowrap) simp_all
      from Suc.IH [of "n + 1"] Suc.prems n1 obtain r where
        "align_loop m (n + 1) = Some r" "Suc (unat n) \<le> unat r" "unat r \<le> unat n + Suc d" "gcd (unat r) (unat m) = 1" by auto
      with False show ?thesis by (subst align_loop.simps) simp
    qed
  qed
  define d where "d = (unat m + 1 - unat n mod unat m) mod unat m"
  have "(unat n + d) mod unat m = (unat n mod unat m + (unat m + 1 - unat n mod unat m)) mod unat m"
    unfolding d_def by (simp only: mod_add_left_eq mod_add_right_eq)
  also have "unat n mod unat m + (unat m + 1 - unat n mod unat m) = unat m + 1"
    using mod_less_divisor [OF assms(1), of "unat n"] by linarith
  finally have "(unat n + d) mod unat m = (unat m + 1) mod unat m" .
  also have "\<dots> = 1 mod unat m" by (rule mod_add_self1)
  finally have "(unat n + d) mod unat m = 1 mod unat m" .
  then have "gcd (unat n + d) (unat m) = gcd (unat m) (1 mod unat m)" by (simp only: gcd_red_nat [of "unat n + d" "unat m"])
  also have "\<dots> = gcd 1 (unat m)" by (simp only: gcd_red_nat [of 1 "unat m"])
  finally have g: "gcd (unat n + d) (unat m) = 1" by simp
  have d: "d < unat m" using assms(1) by (simp add: d_def)
  with * [OF g] assms(2) show ?thesis by fastforce
qed

text \<open>The number of channels and ranks an object size should be coprime to.\<close>

definition mem_spread :: "mempool_eal \<Rightarrow> nat" where
  "mem_spread e = (if me_nrank e = 0 then 1 else unat (me_nrank e)) * (if me_nchannel e = 0 then 4 else unat (me_nchannel e))"

lemma mem_spread_pos: "0 < mem_spread e"
  by (simp add: mem_spread_def unat_gt_0)

lemma unat_and_63: "unat (x AND (63 :: u32)) = unat x mod 64"
proof -
  have "(63 :: u32) = mask 6" by (simp add: mask_eq_exp_minus_1)
  then have "x AND 63 = take_bit 6 x" by (simp add: take_bit_eq_mask)
  then have "unat (x AND 63) = take_bit 6 (unat x)" by (simp only: unsigned_take_bit_eq)
  then show ?thesis by (simp add: take_bit_eq_mod)
qed

lemma arch_align_ok:
  assumes "unat n = 64 * q" "unat n + 64 * mem_spread e + 64 < 2 ^ 32"
  shows "\<exists>r. arch_mem_object_align e n = Some r \<and> 64 dvd unat r \<and> unat n \<le> unat r \<and> unat r < unat n + 64 * mem_spread e \<and>
    coprime (unat r div 64) (mem_spread e)"
proof -
  define m where "m = (if me_nrank e = 0 then 1 else me_nrank e) * (if me_nchannel e = 0 then 4 else me_nchannel e)"
  have "mem_spread e < 2 ^ 32" using assms(2) by simp
  then have m: "unat m = mem_spread e"
    by (auto simp: m_def mem_spread_def unat_mult_lem [THEN iffD1] split: if_splits)
  have "unat (n + 63) = unat n + 63" using assms(2) by (subst unat_add_nowrap) simp_all
  then have q: "unat ((n + 63) div 64) = q" using assms(1) by (simp add: unat_div)
  have "q + mem_spread e < 2 ^ 32" using assms by simp
  with align_loop_ok [of m "(n + 63) div 64"] m q mem_spread_pos [of e] obtain r where
    r: "align_loop m ((n + 63) div 64) = Some r" "q \<le> unat r" "unat r < q + mem_spread e" "gcd (unat r) (mem_spread e) = 1" by auto
  have "unat r * 64 < 2 ^ 32" using r(3) assms by simp
  then have "unat (r * 64) = unat r * 64" by (subst unat_mult_lem [THEN iffD1]) simp_all
  with r assms(1) show ?thesis
    by (intro exI [of _ "r * 64"])
      (simp add: arch_mem_object_align_def RTE_MEMPOOL_ALIGN_def RTE_MEMPOOL_ALIGN_MASK_def Let_def coprime_iff_gcd_eq_1 flip: m_def)
qed

lemma pad_64: "(x + (64 - x mod 64) mod 64) mod 64 = (0 :: nat)"
proof (cases "x mod 64 = 0")
  case False
  then have "(64 - x mod 64) mod 64 = 64 - x mod 64" by simp
  moreover have "x + (64 - x mod 64) = 64 * (x div 64 + 1)"
  proof -
    have "a * 64 + r + (64 - r) = 64 * (a + 1)" if "r < 64" for a r :: nat using that by simp
    from this [of "x mod 64" "x div 64"] show ?thesis by (simp add: div_mult_mod_eq)
  qed
  ultimately show ?thesis by simp
qed simp

lemma calc_obj_size_ok:
  assumes fl: "flags AND RTE_MEMPOOL_F_NO_CACHE_ALIGN = 0" and len: "unat elt_size + 64 * mem_spread e + 256 < 2 ^ 32"
  shows "\<exists>total sz. rte_mempool_calc_obj_size e elt_size flags = Some (total, sz) \<and> sz_total_size sz = total \<and>
    unat total = unat (sz_header_size sz) + unat (sz_elt_size sz) + unat (sz_trailer_size sz) \<and>
    sz_header_size sz = 64 \<and> unat elt_size \<le> unat (sz_elt_size sz) \<and> unat (sz_elt_size sz) < unat elt_size + 8 \<and>
    64 dvd unat total \<and> unat total < unat elt_size + 64 * mem_spread e + 192 \<and>
    (flags AND RTE_MEMPOOL_F_NO_SPREAD = 0 \<longrightarrow> coprime (unat total div 64) (mem_spread e))"
proof -
  define E where "E = RTE_ALIGN_CEIL elt_size 8"
  have "unat E = (unat elt_size + 7) div 8 * 8"
    using align_ceil_pow2 [of 3 elt_size] len by (simp add: E_def)
  moreover have "x \<le> (x + 7) div 8 * 8 \<and> (x + 7) div 8 * 8 < x + 8" for x :: nat by presburger
  ultimately have E: "unat elt_size \<le> unat E" "unat E < unat elt_size + 8" by metis+
  have hdr: "RTE_ALIGN_CEIL sizeof_objhdr RTE_MEMPOOL_ALIGN = 64"
    by (simp add: sizeof_objhdr_def RTE_MEMPOOL_ALIGN_def RTE_ALIGN_CEIL_def RTE_ALIGN_FLOOR_def)
  have t0: "unat (64 + E) = 64 + unat E" using E len by (subst unat_add_nowrap) simp_all
  define T where "T = (64 - (64 + E AND 63)) AND (63 :: u32)"
  have "unat (64 - (64 + E AND 63)) = 64 - unat E mod 64"
    by (subst unat_sub_nowrap) (simp_all add: unat_and_63 t0)
  then have T: "unat T = (64 - unat E mod 64) mod 64" by (simp add: T_def unat_and_63)
  have Tl: "unat T < 64" by (simp add: T)
  have "unat (64 + E + T) = 64 + unat E + unat T" using t0 E len Tl by (subst unat_add_nowrap) simp_all
  moreover have "64 dvd 64 + unat E + unat T"
  proof -
    have "(unat E + (64 - unat E mod 64) mod 64) mod 64 = 0" by (rule pad_64)
    then have "64 dvd unat E + unat T" unfolding T by (rule mod_0_imp_dvd)
    then show ?thesis by (simp only: add.assoc dvd_add_triv_left_iff)
  qed
  ultimately obtain q where q: "unat (64 + E + T) = 64 * q" "unat (64 + E + T) = 64 + unat E + unat T" by (auto elim: dvdE)
  show ?thesis
  proof (cases "flags AND RTE_MEMPOOL_F_NO_SPREAD = 0")
    case False
    let ?sz = "\<lparr>sz_elt_size = E, sz_header_size = 64, sz_trailer_size = T, sz_total_size = 64 + E + T\<rparr>"
    have "rte_mempool_calc_obj_size e elt_size flags = Some (64 + E + T, ?sz)"
      using fl False hdr by (simp add: rte_mempool_calc_obj_size_def Let_def E_def T_def RTE_MEMPOOL_ALIGN_def RTE_MEMPOOL_ALIGN_MASK_def)
    moreover have "64 dvd unat (64 + E + T)" by (simp add: q(1))
    ultimately show ?thesis using q(2) E Tl False by (intro exI [of _ "64 + E + T"] exI [of _ ?sz]) simp
  next
    case True
    from arch_align_ok [OF q(1), of e] q(2) E Tl len obtain r where
      r: "arch_mem_object_align e (64 + E + T) = Some r" "64 dvd unat r" "64 + unat E + unat T \<le> unat r"
        "unat r < 64 + unat E + unat T + 64 * mem_spread e" "coprime (unat r div 64) (mem_spread e)" by auto
    have "unat (r - 64) = unat r - 64" using r(3) by (subst unat_sub_nowrap) simp_all
    moreover from this have "unat (r - 64 - E) = unat r - 64 - unat E" using r(3) by (subst unat_sub_nowrap) simp_all
    ultimately have tr: "unat (r - 64 - E) = unat r - 64 - unat E" by simp
    have tot: "64 + E + (r - 64 - E) = r" by simp
    let ?sz = "\<lparr>sz_elt_size = E, sz_header_size = 64, sz_trailer_size = r - 64 - E, sz_total_size = r\<rparr>"
    have "rte_mempool_calc_obj_size e elt_size flags = Some (r, ?sz)"
      using fl True hdr r(1)
      by (simp add: rte_mempool_calc_obj_size_def Let_def E_def [symmetric] T_def RTE_MEMPOOL_ALIGN_def RTE_MEMPOOL_ALIGN_MASK_def tot)
    then show ?thesis using r tr E Tl by (intro exI [of _ r] exI [of _ ?sz]) simp
  qed
qed

section \<open>Cutting a chunk into objects, proved\<close>

text \<open>The object at \<open>x\<close> of \<open>t\<close> bytes, header included, lies in one page, where a page can hold it.\<close>

definition in_page :: "nat \<Rightarrow> nat \<Rightarrow> nat \<Rightarrow> bool" where
  "in_page pg t x \<longleftrightarrow> pg = 0 \<or> pg < t \<or> x div pg = (x + t - 1) div pg"

lemma div_quotient:
  fixes q r pg :: nat
  assumes "r < pg"
  shows "(q * pg + r) div pg = q"
  using assms div_mult_self3 [of pg q r] by simp

lemma ceil_nat:
  assumes "0 < (pg :: nat)"
  shows "(x + pg - 1) div pg * pg = (if x mod pg = 0 then x else (x div pg + 1) * pg)"
proof -
  have x: "x div pg * pg + x mod pg = x" by (rule div_mult_mod_eq)
  have r: "x mod pg < pg" using assms by (rule mod_less_divisor)
  show ?thesis
  proof (cases "x mod pg = 0")
    case True
    then have "x + pg - 1 = x div pg * pg + (pg - 1)" using x assms by linarith
    moreover have "(x div pg * pg + (pg - 1)) div pg = x div pg" using assms by (intro div_quotient) linarith
    ultimately have "(x + pg - 1) div pg = x div pg" by (simp only:)
    moreover have "x div pg * pg = x" using x True by linarith
    ultimately show ?thesis using True by (simp only: if_True refl)
  next
    case False
    have "(x div pg + 1) * pg = x div pg * pg + pg" by (rule add_mult_distrib [THEN trans]) simp
    then have "x + pg - 1 = (x div pg + 1) * pg + (x mod pg - 1)" using x False assms by linarith
    moreover have "((x div pg + 1) * pg + (x mod pg - 1)) div pg = x div pg + 1" using r by (intro div_quotient) linarith
    ultimately have "(x + pg - 1) div pg = x div pg + 1" by (simp only:)
    with False show ?thesis by (simp only: if_False)
  qed
qed

text \<open>
  An object that the comparison of the rounded addresses lets pass does not cross a page, since
  sizes and addresses are multiples of 64 and pages at least that large; one it does not let
  pass starts at the next page.
\<close>

lemma page_step:
  fixes a t pg :: nat
  assumes "64 dvd a" "64 dvd t" "64 dvd pg" "0 < t" "t \<le> pg"
  defines "C \<equiv> \<lambda>x. (x + pg - 1) div pg * pg"
  shows "C a = C (a + t - 1) \<Longrightarrow> in_page pg t a"
    "C a \<noteq> C (a + t - 1) \<Longrightarrow> in_page pg t (C a) \<and> a \<le> C a \<and> C a < a + t \<and> 64 dvd C a"
proof -
  have pg: "0 < pg" using assms by simp
  note C = ceil_nat [OF pg]
  have em: "(a + t - 1) mod pg \<noteq> 0"
  proof
    assume "(a + t - 1) mod pg = 0"
    then have "64 dvd a + t - 1" using assms(3) by (meson dvd_trans mod_0_imp_dvd)
    moreover have "64 dvd a + t" using assms(1,2) by (rule dvd_add)
    ultimately have "64 dvd (a + t) - (a + t - 1)" by (rule dvd_diff_nat [rotated])
    then show False using assms(4) by simp
  qed
  then have Ce: "C (a + t - 1) = ((a + t - 1) div pg + 1) * pg" by (simp only: C_def C if_False)
  have mono: "a div pg \<le> (a + t - 1) div pg" using assms(4) by (intro div_le_mono) simp
  have Ca: "a \<le> C a" "pg dvd C a"
  proof -
    have "(a div pg + 1) * pg = a div pg * pg + pg" by simp
    then have "a \<le> (a div pg + 1) * pg" using div_mult_mod_eq [of a pg] mod_less_divisor [OF pg, of a] by linarith
    then show "a \<le> C a" unfolding C_def C by simp
    show "pg dvd C a" by (simp add: C_def)
  qed
  show "in_page pg t a" if "C a = C (a + t - 1)"
  proof (cases "a mod pg = 0")
    case True
    then have "C a = a" by (simp only: C_def C if_True refl)
    moreover have "a div pg * pg = a" using True div_mult_mod_eq [of a pg] by linarith
    ultimately have "C a = a div pg * pg" by (simp only:)
    with that Ce have "a div pg * pg = ((a + t - 1) div pg + 1) * pg" by (simp only:)
    then have "a div pg = (a + t - 1) div pg + 1" using pg by (simp only: mult_cancel2) simp
    with mono show ?thesis by linarith
  next
    case False
    then have "C a = (a div pg + 1) * pg" by (simp only: C_def C if_False)
    with that Ce pg have "a div pg = (a + t - 1) div pg" by simp
    then show ?thesis by (simp add: in_page_def)
  qed
  show "in_page pg t (C a) \<and> a \<le> C a \<and> C a < a + t \<and> 64 dvd C a" if "C a \<noteq> C (a + t - 1)"
  proof -
    define q where "q = (a + pg - 1) div pg"
    have q: "C a = q * pg" by (simp only: C_def q_def)
    have "C a < a + t"
    proof (rule ccontr)
      assume "\<not> C a < a + t"
      then have le: "a + t - 1 < C a" using assms(4) by simp
      have "(a + t - 1) div pg < q" using le q pg by (simp add: less_mult_imp_div_less)
      moreover have "q \<le> a div pg + 1"
      proof -
        have "a + pg - 1 \<le> a + pg" by simp
        then have "q \<le> (a + pg) div pg" unfolding q_def by (rule div_le_mono)
        moreover have "(a + pg) div pg = a div pg + 1" using pg by (intro div_add_self2) simp
        ultimately show ?thesis by (simp only:)
      qed
      ultimately have "q = (a + t - 1) div pg + 1" using mono by linarith
      with that Ce q show False by (simp only:)
    qed
    moreover have "in_page pg t (C a)"
    proof -
      have "(q * pg + (t - 1)) div pg = q" using assms(4,5) by (intro div_quotient) simp
      moreover have "q * pg + t - 1 = q * pg + (t - 1)" using assms(4) by simp
      ultimately have "(q * pg + t - 1) div pg = q" by simp
      with q pg show ?thesis by (simp add: in_page_def)
    qed
    ultimately show ?thesis using Ca assms(3) by (auto intro: dvd_trans)
  qed
qed

text \<open>The first address from \<open>x\<close> on where an object may start.\<close>

definition nxt :: "nat \<Rightarrow> nat \<Rightarrow> nat \<Rightarrow> nat" where
  "nxt pg t x =
     (let C = \<lambda>x. (x + pg - 1) div pg * pg
      in if pg = 0 \<or> pg < t \<or> C x = C (x + t - 1) then x else C x)"

lemma nxt_ok:
  assumes "64 dvd x" "64 dvd t" "64 dvd pg" "0 < t"
  shows "x \<le> nxt pg t x \<and> nxt pg t x < x + t \<and> 64 dvd nxt pg t x \<and> in_page pg t (nxt pg t x)"
proof (cases "pg = 0 \<or> pg < t")
  case True
  then have "nxt pg t x = x" unfolding nxt_def Let_def by (intro if_P) blast
  with True assms(1,4) show ?thesis by (auto simp: in_page_def)
next
  case False
  then have "t \<le> pg" by simp
  note s = page_step [OF assms this]
  show ?thesis
  proof (cases "(x + pg - 1) div pg * pg = (x + t - 1 + pg - 1) div pg * pg")
    case True
    then have "nxt pg t x = x" unfolding nxt_def Let_def by (intro if_P) blast
    with s(1) [OF True] assms show ?thesis by simp
  next
    case F: False
    with False have "nxt pg t x = (x + pg - 1) div pg * pg" unfolding nxt_def Let_def by (intro if_not_P) blast
    with s(2) [OF F] show ?thesis by simp
  qed
qed

lemma next_off_ok:
  assumes pg: "pg_sz = 0 \<or> (\<exists>j. 6 \<le> j \<and> j < 64 \<and> pg_sz = 2 ^ j)"
    and d: "64 dvd unat va" "64 dvd unat off" "64 dvd unat t" "t \<noteq> 0"
    and b: "unat va + unat off + unat t + unat pg_sz < 2 ^ 64"
  shows "unat va + unat (next_off 0 va pg_sz t off) = nxt (unat pg_sz) (unat t) (unat va + unat off)"
proof (cases "pg_sz = 0 \<or> pg_sz < t")
  case True
  then have "next_off 0 va pg_sz t off = off" by (auto simp: next_off_def check_obj_bounds_def)
  moreover have "unat pg_sz = 0 \<or> unat pg_sz < unat t" using True by (auto simp: word_less_nat_alt)
  then have "nxt (unat pg_sz) (unat t) x = x" for x unfolding nxt_def Let_def by (intro if_P) blast
  ultimately show ?thesis by simp
next
  case False
  with pg obtain j where j: "6 \<le> j" "j < 64" "pg_sz = 2 ^ j" by blast
  then have upg: "unat pg_sz = 2 ^ j" by (simp add: unat_pow2_word)
  have t0: "0 < unat t" using d(4) by (simp add: unat_gt_0)
  have tp: "unat t \<le> unat pg_sz" using False by (simp add: word_le_nat_alt not_less)
  have dp: "64 dvd unat pg_sz" unfolding upg using j(1) le_imp_power_dvd [of 6 j "2 :: nat"] by simp
  define a where "a = unat va + unat off"
  have ua: "unat (va + off) = a" unfolding a_def using b by (intro unat_add_nowrap) simp
  have "unat (va + off + t) = a + unat t" using b ua by (subst unat_add_nowrap) (simp_all add: a_def)
  then have ue: "unat (va + off + t - 1) = a + unat t - 1" using t0 by (subst unat_sub_nowrap) simp_all
  have ceil: "unat (RTE_ALIGN_CEIL x pg_sz) = (unat x + unat pg_sz - 1) div unat pg_sz * unat pg_sz"
    if "unat x + unat pg_sz \<le> 2 ^ 64" for x
    using align_ceil_pow2 [of j x] j that by (simp add: unat_pow2_word)
  let ?C = "\<lambda>x. (x + unat pg_sz - 1) div unat pg_sz * unat pg_sz"
  have cs: "unat (RTE_ALIGN_CEIL (va + off) pg_sz) = ?C a" "unat (RTE_ALIGN_CEIL (va + off + t - 1) pg_sz) = ?C (a + unat t - 1)"
    using ceil [of "va + off"] ceil [of "va + off + t - 1"] b by (simp_all add: ua ue a_def)
  have chk: "check_obj_bounds (va + off) pg_sz t \<longleftrightarrow> ?C a \<noteq> ?C (a + unat t - 1)"
    using False cs by (simp add: check_obj_bounds_def word_unat_eq_iff)
  have da: "64 dvd a" using d unfolding a_def by (intro dvd_add)
  have nx: "nxt (unat pg_sz) (unat t) a = (if ?C a \<noteq> ?C (a + unat t - 1) then ?C a else a)"
    using False tp t0 by (simp add: nxt_def Let_def not_less)
  show ?thesis
  proof (cases "check_obj_bounds (va + off) pg_sz t")
    case False
    then have "next_off 0 va pg_sz t off = off" by (simp add: next_off_def)
    with False chk nx show ?thesis by (simp add: a_def)
  next
    case True
    have s: "a \<le> ?C a" "?C a < a + unat t"
      using page_step(2) [OF da d(3) dp t0 tp] True chk by simp_all
    have n: "next_off 0 va pg_sz t off = off + (RTE_ALIGN_CEIL (va + off) pg_sz - (va + off))" using True by (simp add: next_off_def Let_def)
    have "unat (RTE_ALIGN_CEIL (va + off) pg_sz - (va + off)) = ?C a - a" using s(1) by (subst unat_sub_nowrap) (simp_all only: cs ua)
    moreover have "unat off + (?C a - a) < 2 ^ 64" using s(2) b by linarith
    ultimately have u: "unat (next_off 0 va pg_sz t off) = unat off + (?C a - a)" unfolding n by (subst unat_add_nowrap) simp_all
    have "unat va + (unat off + (?C a - a)) = ?C a" using s(1) unfolding a_def by linarith
    moreover have "nxt (unat pg_sz) (unat t) a = ?C a" using True chk nx by (simp only: if_True simp_thms)
    ultimately show ?thesis unfolding u a_def [symmetric] by (simp only:)
  qed
qed

text \<open>Where \<open>k\<close> objects of \<open>t\<close> bytes go from \<open>x\<close> on.\<close>

primrec slots :: "nat \<Rightarrow> nat \<Rightarrow> nat \<Rightarrow> nat \<Rightarrow> nat list" where
  "slots pg t x 0 = []"
| "slots pg t x (Suc k) = nxt pg t x # slots pg t (nxt pg t x + t) k"

lemma slots_ok:
  assumes "64 dvd x" "64 dvd t" "64 dvd pg" "0 < t"
  shows "sorted_wrt (\<lambda>a b. a + t \<le> b) (slots pg t x k) \<and> (\<forall>y\<in>set (slots pg t x k). x \<le> y \<and> 64 dvd y \<and> in_page pg t y)"
  using assms(1)
proof (induction k arbitrary: x)
  case (Suc k)
  note n = nxt_ok [OF Suc.prems assms(2-4)]
  then have "64 dvd nxt pg t x + t" using assms(2) by (intro dvd_add) blast+
  from Suc.IH [OF this] n show ?case by fastforce
qed simp

text \<open>The objects that end before \<open>hi\<close>; \<open>hdr\<close> bytes of each lie before the address that is handed out.\<close>

definition fitting :: "nat \<Rightarrow> nat \<Rightarrow> nat \<Rightarrow> nat \<Rightarrow> nat \<Rightarrow> nat \<Rightarrow> nat list" where
  "fitting pg t hdr lo hi k = map (\<lambda>y. y + hdr) (takeWhile (\<lambda>y. y + t \<le> hi) (slots pg t lo k))"

lemma length_slots [simp]: "length (slots pg t x k) = k"
  by (induction k arbitrary: x) simp_all

lemma length_fitting_le: "length (fitting pg t hdr lo hi k) \<le> k"
  using length_takeWhile_le [of _ "slots pg t lo k"] by (simp add: fitting_def)

lemma pg_dvd: "pg_sz = 0 \<or> (\<exists>j. 6 \<le> j \<and> j < 64 \<and> pg_sz = 2 ^ j) \<Longrightarrow> 64 dvd unat (pg_sz :: u64)"
  using le_imp_power_dvd [of 6 _ "2 :: nat"] by (auto simp: unat_pow2_word)

lemma fitting_ok:
  assumes "64 dvd lo" "64 dvd t" "64 dvd pg" "0 < t"
  shows "sorted_wrt (\<lambda>a b. a + t \<le> b) (fitting pg t hdr lo hi k)" 
    "\<forall>y\<in>set (fitting pg t hdr lo hi k). lo + hdr \<le> y \<and> y + t \<le> hi + hdr \<and> 64 dvd (y - hdr) \<and> in_page pg t (y - hdr)"
proof -
  note s = slots_ok [OF assms, of k]
  let ?w = "takeWhile (\<lambda>y. y + t \<le> hi) (slots pg t lo k)"
  have "sorted_wrt (\<lambda>a b. a + t \<le> b) ?w" using s by (metis sorted_wrt_append takeWhile_dropWhile_id)
  then show "sorted_wrt (\<lambda>a b. a + t \<le> b) (fitting pg t hdr lo hi k)" by (simp add: fitting_def sorted_wrt_map)
  show "\<forall>y\<in>set (fitting pg t hdr lo hi k). lo + hdr \<le> y \<and> y + t \<le> hi + hdr \<and> 64 dvd (y - hdr) \<and> in_page pg t (y - hdr)"
    using s by (auto simp: fitting_def dest: set_takeWhileD)
qed

section \<open>The memory asked for is enough\<close>

text \<open>Where the object number \<open>s\<close> of a page-aligned chunk lies, while a page holds one.\<close>

definition grid :: "nat \<Rightarrow> nat \<Rightarrow> nat \<Rightarrow> nat" where
  "grid pg t s = s div (pg div t) * pg + s mod (pg div t) * t"

lemma grid_0 [simp]: "grid pg t 0 = 0"
  by (simp add: grid_def)

lemma grid_Suc:
  assumes "0 < t" "t \<le> pg"
  shows "grid pg t s + t \<le> grid pg t (Suc s)"
proof -
  have "pg div t * t \<le> pg" by simp
  moreover have "0 < pg div t" using assms by (simp add: div_greater_zero_iff)
  moreover have "s mod (pg div t) * t + t = pg div t * t" if "Suc (s mod (pg div t)) = pg div t"
    using arg_cong [OF that, of "\<lambda>n. n * t"] by simp
  ultimately show ?thesis by (auto simp: grid_def div_Suc mod_Suc)
qed

lemma grid_add:
  assumes "0 < t" "t \<le> pg"
  shows "i * t + grid pg t s \<le> grid pg t (s + i)"
proof (induction i)
  case (Suc i)
  with grid_Suc [OF assms, of "s + i"] show ?case by simp
qed simp

lemma ceil_in:
  fixes r pg q :: nat
  assumes "0 < r" "r \<le> pg"
  shows "(q * pg + r + pg - 1) div pg * pg = q * pg + pg"
proof -
  have "q * pg + r + pg - 1 = (q + 1) * pg + (r - 1)" using assms by simp
  then have "(q * pg + r + pg - 1) div pg = q + 1" using div_quotient [of "r - 1" pg "q + 1"] assms by simp
  then show ?thesis by simp
qed

text \<open>Behind an object of the grid comes the next one.\<close>

lemma nxt_grid:
  assumes "pg dvd B" "64 dvd t" "64 dvd pg" "0 < t" "t \<le> pg"
  shows "nxt pg t (B + grid pg t s + t) = B + grid pg t (Suc s)"
proof -
  define n where "n = pg div t"
  have n: "0 < n" "n * t \<le> pg" "pg < n * t + t"
  proof -
    show "0 < n" using assms(4,5) by (simp add: n_def div_greater_zero_iff)
    show "n * t \<le> pg" "pg < n * t + t"
      using div_mult_mod_eq [of pg t] mod_less_divisor [OF assms(4), of pg] unfolding n_def by linarith+
  qed
  from assms(1) obtain b where "B = pg * b" by (rule dvdE)
  then have b: "B = b * pg" by simp
  define q where "q = b + s div n"
  define R where "R = s mod n"
  have R: "R < n" using n(1) by (simp add: R_def)
  have x: "B + grid pg t s + t = q * pg + Suc R * t" by (simp add: b grid_def q_def R_def n_def add_mult_distrib)
  let ?C = "\<lambda>x. (x + pg - 1) div pg * pg"
  have le: "Suc R * t \<le> n * t" using R by (intro mult_le_mono1) simp
  have pos: "0 < Suc R * t" using assms(4) by simp
  have Cx: "?C (q * pg + Suc R * t) = q * pg + pg" using ceil_in [OF pos, of pg q] le n(2) by linarith
  show ?thesis
  proof (cases "Suc R < n")
    case True
    then have "Suc (Suc R) * t \<le> n * t" by (intro mult_le_mono1) simp
    then have le2: "Suc R * t + t \<le> pg" using n(2) by simp
    have "?C (q * pg + Suc R * t + t - 1) = q * pg + pg"
      using ceil_in [of "Suc R * t + t - 1" pg q] le2 pos assms(4) by (simp add: add.assoc)
    then have "nxt pg t (q * pg + Suc R * t) = q * pg + Suc R * t"
      unfolding nxt_def Let_def Cx by (intro if_P) simp
    moreover have "B + grid pg t (Suc s) = q * pg + Suc R * t"
      using True by (simp add: b grid_def div_Suc mod_Suc q_def R_def add_mult_distrib flip: n_def)
    ultimately show ?thesis unfolding x by (simp only:)
  next
    case False
    then have Rn: "Suc R = n" using R by simp
    have tgt: "B + grid pg t (Suc s) = q * pg + pg"
      using Rn by (simp add: b grid_def div_Suc mod_Suc q_def R_def add_mult_distrib flip: n_def)
    have "nxt pg t (q * pg + n * t) = q * pg + pg"
    proof (cases "n * t = pg")
      case True
      then have "?C (q * pg + n * t) = q * pg + n * t" using Cx Rn by simp
      then have "nxt pg t (q * pg + n * t) = q * pg + n * t" unfolding nxt_def Let_def by simp
      with True show ?thesis by simp
    next
      case False
      have "64 dvd n * t + t - pg" using assms(2,3) by (intro dvd_diff_nat dvd_add) simp_all
      then have "64 \<le> n * t + t - pg" using n(3) by (intro dvd_imp_le) simp_all
      then have r: "0 < n * t + t - 1 - pg" "n * t + t - 1 - pg \<le> pg" using n(2) assms(5) by linarith+
      have eq: "q * pg + n * t + t - 1 = (q + 1) * pg + (n * t + t - 1 - pg)" using r(1) by simp
      have "?C (q * pg + n * t + t - 1) = (q + 1) * pg + pg" unfolding eq by (rule ceil_in [OF r])
      then have "nxt pg t (q * pg + n * t) = ?C (q * pg + n * t)"
        using assms(4,5) Cx Rn unfolding nxt_def Let_def by simp
      then show ?thesis using Cx Rn by simp
    qed
    then show ?thesis unfolding x tgt Rn .
  qed
qed

text \<open>
  The address \<open>x\<close> behind the first \<open>j\<close> objects of a chunk at \<open>lo\<close>: no page end was met yet,
  or the objects since the first page start \<open>B\<close> lie on the grid.
\<close>

definition on_grid :: "nat \<Rightarrow> nat \<Rightarrow> nat \<Rightarrow> nat \<Rightarrow> nat \<Rightarrow> bool" where
  "on_grid pg t lo j x \<longleftrightarrow> x = lo + j * t \<or> (\<exists>B s. pg dvd B \<and> s < j \<and> B < lo + (j - s) * t \<and> x = B + grid pg t s + t)"

lemma on_grid_step:
  assumes x: "64 dvd x" "on_grid pg t lo j x" and d: "64 dvd t" "64 dvd pg" "0 < t" "t \<le> pg"
  shows "nxt pg t x < lo + grid pg t j + t \<and> on_grid pg t lo (Suc j) (nxt pg t x + t)"
proof (cases "x = lo + j * t")
  case True
  have g: "j * t \<le> grid pg t j" using grid_add [OF d(3,4), of j 0] by simp
  show ?thesis
  proof (cases "nxt pg t x = x")
    case eq: True
    have "on_grid pg t lo (Suc j) (x + t)" unfolding on_grid_def using True by (intro disjI1) simp
    with eq True g d(3) show ?thesis by simp
  next
    case False
    then have "pg dvd nxt pg t x" by (auto simp: nxt_def Let_def split: if_splits)
    moreover have "nxt pg t x < x + t" using nxt_ok [OF x(1) d(1-3)] by blast
    ultimately have "on_grid pg t lo (Suc j) (nxt pg t x + t)"
      unfolding on_grid_def using True by (intro disjI2 exI [of _ "nxt pg t x"] exI [of _ 0]) simp
    with \<open>nxt pg t x < x + t\<close> True g show ?thesis by simp
  qed
next
  case False
  with x(2) obtain B s where B: "pg dvd B" "s < j" "B < lo + (j - s) * t" "x = B + grid pg t s + t"
    by (auto simp: on_grid_def)
  have n: "nxt pg t x = B + grid pg t (Suc s)" unfolding B(4) by (rule nxt_grid [OF B(1) d])
  have "(j - Suc s) * t + grid pg t (Suc s) \<le> grid pg t j" using grid_add [OF d(3,4), of "j - Suc s" "Suc s"] B(2) by simp
  moreover have "(j - s) * t = (j - Suc s) * t + t"
    using arg_cong [OF Suc_diff_Suc [OF B(2)], of "\<lambda>n. n * t"] by simp
  ultimately have "nxt pg t x < lo + grid pg t j + t" using n B(3) by linarith
  moreover have "on_grid pg t lo (Suc j) (nxt pg t x + t)"
    unfolding on_grid_def n using B by (intro disjI2 exI [of _ B] exI [of _ "Suc s"]) simp
  ultimately show ?thesis by blast
qed

lemma slots_on_grid:
  assumes "64 dvd x" "on_grid pg t lo j x" and d: "64 dvd t" "64 dvd pg" "0 < t" "t \<le> pg" and "i < k"
  shows "slots pg t x k ! i < lo + grid pg t (j + i) + t"
  using assms(1,2,7)
proof (induction k arbitrary: x j i)
  case (Suc k)
  note st = on_grid_step [OF Suc.prems(1,2) d]
  have "64 dvd nxt pg t x + t" using nxt_ok [OF Suc.prems(1) d(1-3)] d(1) by (intro dvd_add) blast+
  from Suc.IH [OF this conjunct2 [OF st], of "i - 1"] Suc.prems(3) st show ?case by (cases i) simp_all
qed simp

lemma slots_plain: "pg = 0 \<or> pg < t \<Longrightarrow> i < k \<Longrightarrow> slots pg t x k ! i = x + i * t"
proof (induction k arbitrary: x i)
  case (Suc k)
  have "nxt pg t x = x" using Suc.prems(1) unfolding nxt_def Let_def by (intro if_P) blast
  with Suc.IH [OF Suc.prems(1), of "i - 1" "x + t"] Suc.prems(2) show ?case by (cases i) simp_all
qed simp

text \<open>The bytes that hold \<open>n\<close> objects wherever a chunk of that length begins.\<close>

definition mem_enough :: "nat \<Rightarrow> nat \<Rightarrow> nat \<Rightarrow> nat" where
  "mem_enough pg t n = (if pg = 0 \<or> pg < t then n * t else grid pg t (n - 1) + 2 * t - 1)"

lemma fitting_enough:
  assumes "64 dvd lo" "64 dvd t" "64 dvd pg" "0 < t" "lo + mem_enough pg t n \<le> hi"
  shows "fitting pg t hdr lo hi n = map (\<lambda>y. y + hdr) (slots pg t lo n)"
proof -
  have "slots pg t lo n ! i + t \<le> hi" if i: "i < n" for i
  proof (cases "pg = 0 \<or> pg < t")
    case True
    have "Suc i * t \<le> n * t" using i by (intro mult_le_mono1) simp
    with True slots_plain [OF True i, of lo] assms(5) show ?thesis by (simp add: mem_enough_def)
  next
    case False
    then have tp: "t \<le> pg" by simp
    have "on_grid pg t lo 0 lo" by (simp add: on_grid_def)
    from slots_on_grid [OF assms(1) this assms(2-4) tp i] have "slots pg t lo n ! i < lo + grid pg t i + t" by simp
    moreover have "grid pg t i \<le> grid pg t (n - 1)"
      using grid_add [OF assms(4) tp, of "n - 1 - i" i] i by simp
    ultimately show ?thesis using False assms(5) by (simp add: mem_enough_def)
  qed
  then have "takeWhile (\<lambda>y. y + t \<le> hi) (slots pg t lo n) = slots pg t lo n"
    by (auto simp: takeWhile_eq_all_conv in_set_conv_nth)
  then show ?thesis by (simp add: fitting_def)
qed

lemma grid_le: "grid pg t s \<le> s * (t + pg)"
proof -
  have "s div (pg div t) * pg \<le> s * pg" "s mod (pg div t) * t \<le> s * t" by (intro mult_le_mono1; simp)+
  then show ?thesis unfolding grid_def add_mult_distrib2 by linarith
qed

lemma calc_mem_enough:
  fixes pg_sz :: u64
  assumes t: "mp_total_elt_sz mp = t" "t \<noteq> 0" and n: "n \<noteq> 0"
    and pg: "pg_sz = 0 \<and> pg_shift = 0 \<or> (\<exists>j. 6 \<le> j \<and> j < 64 \<and> pg_sz = 2 ^ j \<and> pg_shift = of_nat j)"
    and b: "unat n * (unat t + unat pg_sz) + unat t < 2 ^ 64"
  shows "\<exists>mem. rte_mempool_op_calc_mem_size_default mp n pg_shift = Some (Inr (mem, t, 64)) \<and>
    mem_enough (unat pg_sz) (unat t) (unat n) \<le> unat mem"
proof -
  have wide: "unat (ucast (y :: u32) :: u64) = unat y" for y
    by (simp add: unsigned_ucast_eq take_bit_nat_eq_self_iff order_less_le_trans [OF unsigned_less])
  have nt: "unat n * unat t < 2 ^ 64" using b by (simp add: add_mult_distrib2)
  note d = rte_mempool_op_calc_mem_size_default_def rte_mempool_op_calc_mem_size_helper_def Let_def t RTE_MEMPOOL_ALIGN_def
  show ?thesis
  proof (cases "pg_sz = 0")
    case True
    then have s: "pg_shift = 0" using pg by (auto dest!: arg_cong [of _ _ unat] simp: unat_pow2_word)
    have "unat (t * ucast n) = unat n * unat t" using nt by (subst unat_mult_lem [THEN iffD1]) (simp_all add: wide mult.commute)
    with s t(2) True show ?thesis by (simp add: d mem_enough_def)
  next
    case False
    with pg obtain j where j: "6 \<le> j" "j < 64" "pg_sz = 2 ^ j" "pg_shift = of_nat j" by blast
    have us: "unat pg_shift = j" using j by (simp add: unat_of_nat)
    have sh: "pg_shift \<noteq> 0" "\<not> 64 \<le> pg_shift" using j(1,2) us by (auto simp: word_le_nat_alt)
    have pz: "2 ^ j = pg_sz" "\<not> 64 \<le> j" using j(2,3) by simp_all
    have t0: "0 < unat t" using t(2) by (simp add: unat_gt_0)
    have p0: "unat pg_sz = 2 ^ j" using j by (simp add: unat_pow2_word)
    show ?thesis
    proof (cases "pg_sz div t = 0")
      case True
      then have lt: "unat pg_sz < unat t" using t0 by (simp add: word_unat_eq_iff unat_div div_eq_0_iff)
      have n0: "0 < unat n" using n by (simp add: unat_gt_0)
      then have "1 * (unat t + unat pg_sz) \<le> unat n * (unat t + unat pg_sz)" by (intro mult_le_mono1) linarith
      then have "unat t + 2 ^ j \<le> 2 ^ 64" using b unfolding p0 mult_1 by linarith
      then have c: "unat (RTE_ALIGN_CEIL t pg_sz) = (unat t + unat pg_sz - 1) div unat pg_sz * unat pg_sz"
        using align_ceil_pow2 [of j t] j(2,3) p0 by simp
      have up: "unat (RTE_ALIGN_CEIL t pg_sz) \<le> unat t + unat pg_sz"
        unfolding c using div_mult_mod_eq [of "unat t + unat pg_sz - 1" "unat pg_sz"] by linarith
      have lo: "unat t \<le> unat (RTE_ALIGN_CEIL t pg_sz)"
      proof -
        have "0 < unat pg_sz" by (simp add: p0)
        then show ?thesis unfolding c using div_mult_mod_eq [of "unat t + unat pg_sz - 1" "unat pg_sz"]
            mod_less_divisor [of "unat pg_sz" "unat t + unat pg_sz - 1"] by linarith
      qed
      have "unat (RTE_ALIGN_CEIL t pg_sz) * unat n < 2 ^ 64"
        using mult_le_mono1 [OF up, of "unat n"] b unfolding mult.commute [of "unat t + unat pg_sz"] by linarith
      then have "unat (RTE_ALIGN_CEIL t pg_sz * ucast n) = unat (RTE_ALIGN_CEIL t pg_sz) * unat n"
        by (subst unat_mult_lem [THEN iffD1]) (simp_all add: wide)
      moreover have "unat n * unat t \<le> unat (RTE_ALIGN_CEIL t pg_sz) * unat n"
        unfolding mult.commute [of "unat n"] using lo by (rule mult_le_mono1)
      moreover have "rte_mempool_op_calc_mem_size_default mp n pg_shift = Some (Inr (RTE_ALIGN_CEIL t pg_sz * ucast n, t, 64))"
        using True sh t(2) \<open>pg_sz \<noteq> 0\<close> by (simp add: d us pz)
      ultimately show ?thesis using lt by (simp add: mem_enough_def)
    next
      case False
      define N where "N = unat pg_sz div unat t"
      have uN: "unat (pg_sz div t) = N" by (simp add: unat_div N_def)
      have N0: "0 < N" using False uN by (metis unat_gt_0)
      have Np: "N \<le> unat pg_sz" by (simp add: N_def)
      have le: "\<not> unat pg_sz < unat t" using N0 by (auto simp: N_def)
      have un1: "unat (ucast (n - 1) :: u64) = unat n - 1" using n by (simp add: wide unat_minus_one)
      let ?q = "(unat n - 1) div N" and ?r = "(unat n - 1) mod N"
      have r1: "?r + 1 \<le> unat n" using n by (simp add: unat_gt_0 Suc_le_eq le_less_trans [OF mod_less_eq_dividend])
      define l where "l = ucast (n - 1) mod (pg_sz div t) + 1"
      have ul: "unat l = ?r + 1" unfolding l_def
      proof (subst unat_add_nowrap)
        show "unat (ucast (n - 1) mod (pg_sz div t)) + unat (1 :: u64) < 2 ^ LENGTH(64)"
        proof -
          have "unat n < 2 ^ 32" using unsigned_less [of n, where 'a = nat] by simp
          with r1 have "?r + 1 < 2 ^ 32" by (rule le_less_trans)
          then have "?r + 1 < 2 ^ 64" by (rule less_le_trans) simp
          then show ?thesis by (simp add: unat_mod uN un1)
        qed
      qed (simp add: unat_mod uN un1)
      have ult: "unat (l * t) = (?r + 1) * unat t"
        using mult_le_mono1 [OF r1, of "unat t"] nt by (subst unat_mult_lem [THEN iffD1]) (simp_all add: ul)
      have "unat (ucast n - l) = unat n - 1 - ?r" using r1 by (subst unat_sub_nowrap) (simp_all add: wide ul)
      moreover have "unat n - 1 - ?r = ?q * N" using div_mult_mod_eq [of "unat n - 1" N] by linarith
      ultimately have uq: "unat ((ucast n - l) div (pg_sz div t)) = ?q" using N0 by (simp add: unat_div flip: N_def)
      have tot: "(?r + 1) * unat t + ?q * unat pg_sz + unat t \<le> unat n * (unat t + unat pg_sz) + unat t"
      proof -
        have "?q * unat pg_sz \<le> unat n * unat pg_sz" by (intro mult_le_mono1) (meson diff_le_self div_le_dividend le_trans)
        with mult_le_mono1 [OF r1, of "unat t"] show ?thesis unfolding add_mult_distrib2 by linarith
      qed
      define s where "s = push_bit j ((ucast n - l) div (pg_sz div t))"
      have lt: "?q * 2 ^ j < 2 ^ 64" using tot b unfolding p0 by linarith
      have "unat s = ?q * unat pg_sz"
        unfolding s_def unsigned_push_bit_eq uq unfolding push_bit_eq_mult p0 using lt by (simp add: take_bit_nat_eq_self)
      then have um: "unat (l * t + s + (t - 1)) = (?r + 1) * unat t + ?q * unat pg_sz + (unat t - 1)"
        using tot b t0 by (simp add: unat_add_nowrap ult unat_minus_one t(2))
      have "rte_mempool_op_calc_mem_size_default mp n pg_shift = Some (Inr (l * t + s + (t - 1), t, 64))"
        using False sh t(2) \<open>pg_sz \<noteq> 0\<close> by (simp add: d us pz l_def s_def)
      moreover have "mem_enough (unat pg_sz) (unat t) (unat n) = (?r + 1) * unat t + ?q * unat pg_sz + (unat t - 1)"
      proof -
        have "\<not> (unat pg_sz = 0 \<or> unat pg_sz < unat t)" using le t0 by linarith
        then have "mem_enough (unat pg_sz) (unat t) (unat n) = grid (unat pg_sz) (unat t) (unat n - 1) + 2 * unat t - 1"
          by (simp only: mem_enough_def if_False)
        then show ?thesis unfolding grid_def N_def [symmetric] add_mult_distrib using t0 by linarith
      qed
      ultimately show ?thesis using um by simp
    qed
  qed
qed

lemma total_elt_sz_exact:
  assumes "unat (mp_header_size mp) + unat (mp_elt_size mp) + unat (mp_trailer_size mp) < 2 ^ 32"
  shows "unat (mp_total_elt_sz mp) = unat (mp_header_size mp) + unat (mp_elt_size mp) + unat (mp_trailer_size mp)"
  using assms
  by (simp add: mp_total_elt_sz_def unat_add_nowrap unsigned_ucast_eq take_bit_nat_eq_self_iff)

context mempool_driver
begin

text \<open>What adding an object does to the pool.\<close>

lemma add_elem_enqueue:
  assumes "rte_mempool_get_ops ot (mp_ops_index mp) = Some drv" "mp_pool_data mp = Some p" "inv p" "1 \<le> room p"
  shows "\<exists>r p'. rte_mempool_ops_enqueue_bulk ot (fst (mempool_add_elem (mp, iovas) x v)) [x] 1 =
      Some (r, mp\<lparr>mp_pool_data := Some p', mp_elt_list := mp_elt_list mp @ [x], mp_populated_size := mp_populated_size mp + 1\<rparr>) \<and>
    inv p' \<and> bag p' = bag p + {#x#} \<and> room p' = room p - 1"
proof -
  from enq_room [OF assms(3), of 1 "[x]"] assms(4) obtain p' where
    "ops_enqueue drv p [x] 1 = Some (0, p')" "inv p'" "bag p' = bag p + {#x#}" "room p' = room p - 1" by (auto simp: unat_1)
  with assms show ?thesis
    by (intro exI [of _ 0] exI [of _ p']) (simp add: rte_mempool_ops_enqueue_bulk_def mempool_add_elem_def)
qed

lemma populate_loop_ok:
  assumes p: "rte_mempool_get_ops ot (mp_ops_index mp) = Some drv" "mp_pool_data mp = Some p" "inv p" "k \<le> room p"
    and sz: "mp_total_elt_sz mp = t" "unat (mp_header_size mp) = H" "unat t = H + unat (mp_elt_size mp + mp_trailer_size mp)"
    and off: "64 dvd unat off" "unat off \<le> unat len"
    and pg: "pg_sz = 0 \<or> (\<exists>j. 6 \<le> j \<and> j < 64 \<and> pg_sz = 2 ^ j)" and t: "64 dvd unat t" "t \<noteq> 0"
    and va: "64 dvd unat va" "unat va + unat len + 2 * unat t + unat pg_sz < 2 ^ 64"
  shows "\<exists>xs iovas' p'. populate_loop k ot 0 va iova len pg_sz i off (mp, iovas) =
      Some (i + of_nat (length xs), mp\<lparr>mp_pool_data := Some p', mp_elt_list := mp_elt_list mp @ xs,
        mp_populated_size := mp_populated_size mp + of_nat (length xs)\<rparr>, iovas') \<and>
    inv p' \<and> bag p' = bag p + mset xs \<and> room p' = room p - length xs \<and>
    map unat xs = fitting (unat pg_sz) (unat t) H (unat va + unat off) (unat va + unat len) k \<and>
    (\<forall>x. iovas' x = (if x \<in> set xs then (if iova = RTE_BAD_IOVA then RTE_BAD_IOVA else iova + (x - va)) else iovas x))"
  using p sz off
proof (induction k arbitrary: mp p off i iovas)
  case 0
  then show ?case by (intro exI [of _ "[]"] exI [of _ iovas] exI [of _ p]) (simp add: fitting_def)
next
  case (Suc k)
  note U = Suc.prems
  define o2 where "o2 = next_off 0 va pg_sz t off"
  have b: "unat va + unat off + unat t + unat pg_sz < 2 ^ 64" using va(2) U(9) by linarith
  have nx: "unat va + unat o2 = nxt (unat pg_sz) (unat t) (unat va + unat off)"
    unfolding o2_def by (rule next_off_ok [OF pg va(1) U(8) t b])
  have d: "64 dvd unat va + unat off" "64 dvd unat pg_sz" "0 < unat t"
    using va(1) U(8) pg_dvd [OF pg] t by (simp_all add: unat_gt_0)
  note n = nxt_ok [OF d(1) t(1) d(2,3), folded nx]
  then have o2: "unat o2 < unat off + unat t" "64 dvd unat va + unat o2" by simp_all
  have ot: "unat (o2 + t) = unat o2 + unat t"
  proof (intro unat_add_nowrap)
    show "unat o2 + unat t < 2 ^ LENGTH(64)" using o2(1) va(2) U(9) by simp
  qed
  show ?case
  proof (cases "len < o2 + t")
    case True
    then have "populate_loop (Suc k) ot 0 va iova len pg_sz i off (mp, iovas) = Some (i, mp, iovas)"
      using U(5) by (simp add: Let_def flip: o2_def)
    moreover have "\<not> unat va + unat o2 + unat t \<le> unat va + unat len" using True by (simp add: word_less_nat_alt ot)
    ultimately show ?thesis using U(2-4)
      by (intro exI [of _ "[]"] exI [of _ iovas] exI [of _ p]) (simp add: fitting_def flip: nx)
  next
    case False
    then have fit: "unat o2 + unat t \<le> unat len" by (simp add: word_less_nat_alt ot not_less)
    define o3 where "o3 = o2 + ucast (mp_header_size mp)"
    define x where "x = va + o3"
    let ?v = "if iova = RTE_BAD_IOVA then RTE_BAD_IOVA else iova + o3"
    define o4 where "o4 = o3 + ucast (mp_elt_size mp + mp_trailer_size mp)"
    have wide: "unat (ucast (y :: u32) :: u64) = unat y" for y
      by (simp add: unsigned_ucast_eq take_bit_nat_eq_self_iff order_less_le_trans [OF unsigned_less])
    have u3: "unat o3 = unat o2 + H" unfolding o3_def using fit U(6,7) va(2) by (subst unat_add_nowrap) (simp_all add: wide)
    have ux: "unat x = unat va + unat o2 + H" unfolding x_def using fit U(7) va(2) u3 by (subst unat_add_nowrap) simp_all
    have u4: "unat o4 = unat o2 + unat t" unfolding o4_def using fit U(7) va(2) u3 by (subst unat_add_nowrap) (simp_all add: wide)
    from add_elem_enqueue [OF U(1-3), of iovas x ?v] U(4) obtain r p1 where
      e: "rte_mempool_ops_enqueue_bulk ot (fst (mempool_add_elem (mp, iovas) x ?v)) [x] 1 =
        Some (r, mp\<lparr>mp_pool_data := Some p1, mp_elt_list := mp_elt_list mp @ [x], mp_populated_size := mp_populated_size mp + 1\<rparr>)"
      "inv p1" "bag p1 = bag p + {#x#}" "room p1 = room p - 1" by auto
    let ?mp1 = "mp\<lparr>mp_pool_data := Some p1, mp_elt_list := mp_elt_list mp @ [x], mp_populated_size := mp_populated_size mp + 1\<rparr>"
    have step: "populate_loop (Suc k) ot 0 va iova len pg_sz i off (mp, iovas) =
        populate_loop k ot 0 va iova len pg_sz (i + 1) o4 (?mp1, iovas(x := ?v))"
      using False e(1) U(5) by (simp add: Let_def o3_def o4_def x_def mempool_add_elem_def flip: o2_def)
    have "\<exists>xs iovas' p'. populate_loop k ot 0 va iova len pg_sz (i + 1) o4 (?mp1, iovas(x := ?v)) =
        Some (i + 1 + of_nat (length xs), ?mp1\<lparr>mp_pool_data := Some p', mp_elt_list := mp_elt_list ?mp1 @ xs,
          mp_populated_size := mp_populated_size ?mp1 + of_nat (length xs)\<rparr>, iovas') \<and>
      inv p' \<and> bag p' = bag p1 + mset xs \<and> room p' = room p1 - length xs \<and>
      map unat xs = fitting (unat pg_sz) (unat t) H (unat va + unat o4) (unat va + unat len) k \<and>
      (\<forall>y. iovas' y = (if y \<in> set xs then (if iova = RTE_BAD_IOVA then RTE_BAD_IOVA else iova + (y - va)) else (iovas(x := ?v)) y))"
    proof (rule Suc.IH)
      have "64 dvd unat o2" using dvd_diff_nat [OF o2(2) va(1)] by simp
      then show "64 dvd unat o4" unfolding u4 using t(1) by (rule dvd_add)
      show "mp_total_elt_sz ?mp1 = t" using U(5) by (simp add: mp_total_elt_sz_def)
    qed (use U e fit u4 in simp_all)
    then obtain xs iovas' p' where ih: "populate_loop k ot 0 va iova len pg_sz (i + 1) o4 (?mp1, iovas(x := ?v)) =
        Some (i + 1 + of_nat (length xs), ?mp1\<lparr>mp_pool_data := Some p', mp_elt_list := mp_elt_list ?mp1 @ xs,
          mp_populated_size := mp_populated_size ?mp1 + of_nat (length xs)\<rparr>, iovas')"
      "inv p'" "bag p' = bag p1 + mset xs" "room p' = room p1 - length xs"
      "map unat xs = fitting (unat pg_sz) (unat t) H (unat va + unat o4) (unat va + unat len) k"
      "\<And>y. iovas' y = (if y \<in> set xs then (if iova = RTE_BAD_IOVA then RTE_BAD_IOVA else iova + (y - va)) else (iovas(x := ?v)) y)"
      by blast
    have "map unat (x # xs) = fitting (unat pg_sz) (unat t) H (unat va + unat off) (unat va + unat len) (Suc k)"
      using ih(5) fit by (simp add: fitting_def ux u4 add.assoc flip: nx)
    moreover have "iovas' y = (if y \<in> set (x # xs) then (if iova = RTE_BAD_IOVA then RTE_BAD_IOVA else iova + (y - va)) else iovas y)" for y
      using ih(6) [of y] by (simp add: x_def)
    ultimately show ?thesis using step ih(1-4) e(3,4) U(4)
      by (intro exI [of _ "x # xs"] exI [of _ iovas'] exI [of _ p'])
        (simp add: add.assoc fun_eq_iff del: populate_loop.simps)
  qed
qed

lemma populate_default_ok:
  assumes "rte_mempool_get_ops ot (mp_ops_index mp) = Some drv" "mp_pool_data mp = Some p" "inv p" "unat max_objs \<le> room p"
    and sz: "unat (mp_header_size mp) + unat (mp_elt_size mp) + unat (mp_trailer_size mp) < 2 ^ 32"
      "64 dvd unat (mp_total_elt_sz mp)" "mp_total_elt_sz mp \<noteq> 0"
    and pg: "rte_mempool_get_page_size e mp = Inr pg_sz" "pg_sz = 0 \<or> (\<exists>j. 6 \<le> j \<and> j < 64 \<and> pg_sz = 2 ^ j)"
    and va: "64 dvd unat va" "unat va + unat len + 2 * unat (mp_total_elt_sz mp) + unat pg_sz < 2 ^ 64" "unat max_objs < 2 ^ 31"
  shows "\<exists>xs iovas' p'. rte_mempool_op_populate_default e ot (mp, iovas) max_objs va iova len =
      Some (int (length xs), mp\<lparr>mp_pool_data := Some p', mp_elt_list := mp_elt_list mp @ xs,
        mp_populated_size := mp_populated_size mp + of_nat (length xs)\<rparr>, iovas') \<and>
    inv p' \<and> bag p' = bag p + mset xs \<and> room p' = room p - length xs \<and>
    map unat xs = fitting (unat pg_sz) (unat (mp_total_elt_sz mp)) (unat (mp_header_size mp)) (unat va) (unat va + unat len) (unat max_objs) \<and>
    (\<forall>x. iovas' x = (if x \<in> set xs then (if iova = RTE_BAD_IOVA then RTE_BAD_IOVA else iova + (x - va)) else iovas x))"
proof -
  have "unat (mp_total_elt_sz mp) = unat (mp_header_size mp) + unat (mp_elt_size mp + mp_trailer_size mp)"
    using total_elt_sz_exact [OF sz(1)] sz(1) by (simp add: unat_add_nowrap)
  from populate_loop_ok [OF assms(1-4) refl refl this _ _ pg(2) sz(2,3) va(1,2), where off = 0 and iova = iova and iovas = iovas and i = 0] obtain xs iovas' p' where
    l: "populate_loop (unat max_objs) ot 0 va iova len pg_sz 0 0 (mp, iovas) =
      Some (of_nat (length xs), mp\<lparr>mp_pool_data := Some p', mp_elt_list := mp_elt_list mp @ xs,
        mp_populated_size := mp_populated_size mp + of_nat (length xs)\<rparr>, iovas')"
    and rest: "inv p' \<and> bag p' = bag p + mset xs \<and> room p' = room p - length xs \<and>
      map unat xs = fitting (unat pg_sz) (unat (mp_total_elt_sz mp)) (unat (mp_header_size mp)) (unat va) (unat va + unat len) (unat max_objs) \<and>
      (\<forall>x. iovas' x = (if x \<in> set xs then (if iova = RTE_BAD_IOVA then RTE_BAD_IOVA else iova + (x - va)) else iovas x))"
    by (simp only: unat_0 dvd_0_right le0 add_0_right add_0_left simp_thms) blast
  have "length xs = length (fitting (unat pg_sz) (unat (mp_total_elt_sz mp)) (unat (mp_header_size mp)) (unat va) (unat va + unat len) (unat max_objs))"
    using rest by (metis length_map)
  then have le: "length xs \<le> unat max_objs" using length_fitting_le by (simp only:)
  then have "sint (of_nat (length xs) :: u32) = int (length xs)"
    using va(3) by (subst sint_small) (simp_all add: unat_of_nat)
  then have "rte_mempool_op_populate_default e ot (mp, iovas) max_objs va iova len =
      Some (int (length xs), mp\<lparr>mp_pool_data := Some p', mp_elt_list := mp_elt_list mp @ xs,
        mp_populated_size := mp_populated_size mp + of_nat (length xs)\<rparr>, iovas')"
    using pg(1) l by (simp add: rte_mempool_op_populate_default_def rte_mempool_op_populate_helper_def)
  with rest show ?thesis by blast
qed

end

end
