(* ===== verification/Pool_Layout_Properties.thy ===== *)
theory Pool_Layout_Properties
  imports Mempool_Layout Pool_Properties
begin

text \<open>
  The properties of the memory of a pool (\<open>Mempool_Layout\<close>): the size of its objects, and
  that the memory asked for holds all of them. The example has pages of 4096 bytes and four
  memory channels.
\<close>

section \<open>Sizes\<close>

definition eal4 :: mempool_eal where
  "eal4 = \<lparr>me_nchannel = 4, me_nrank = 1, me_memseg_lists = [(0, 4096, False)], me_page_size = 4096,
     me_has_hugepages = True, me_socket_is_external = (\<lambda>_. 0)\<rparr>"

text \<open>
  C19: the size of an object that is aligned to cache lines exists, that is the search for a
  size that spreads the objects over the memory channels ends, whatever the numbers of
  channels and ranks are. It is a multiple of 64 and the sum of the three parts, the element
  part holds the element and wastes less than 8 bytes, all the padding is bounded, and the
  number of cache lines of an object has no factor in common with the number of channels
  and ranks, so successive objects start on all of them.
\<close>

theorem object_size_spreads:
  assumes "flags AND RTE_MEMPOOL_F_NO_CACHE_ALIGN = 0" "unat elt_size + 64 * mem_spread e + 256 < 2 ^ 32"
  shows "\<exists>total sz. rte_mempool_calc_obj_size e elt_size flags = Some (total, sz) \<and> sz_total_size sz = total \<and>
    unat total = unat (sz_header_size sz) + unat (sz_elt_size sz) + unat (sz_trailer_size sz) \<and>
    sz_header_size sz = 64 \<and> unat elt_size \<le> unat (sz_elt_size sz) \<and> unat (sz_elt_size sz) < unat elt_size + 8 \<and>
    64 dvd unat total \<and> unat total < unat elt_size + 64 * mem_spread e + 192 \<and>
    (flags AND RTE_MEMPOOL_F_NO_SPREAD = 0 \<longrightarrow> coprime (unat total div 64) (mem_spread e))"
  using assms by (rule calc_obj_size_ok)

theorem object_size_spreads_witness:
  "\<exists>total sz. rte_mempool_calc_obj_size eal4 2300 0 = Some (total, sz) \<and> sz_total_size sz = total \<and>
    unat total = unat (sz_header_size sz) + unat (sz_elt_size sz) + unat (sz_trailer_size sz) \<and>
    sz_header_size sz = 64 \<and> unat (2300 :: u32) \<le> unat (sz_elt_size sz) \<and> unat (sz_elt_size sz) < unat (2300 :: u32) + 8 \<and>
    64 dvd unat total \<and> unat total < unat (2300 :: u32) + 64 * mem_spread eal4 + 192 \<and>
    ((0 :: u32) AND RTE_MEMPOOL_F_NO_SPREAD = 0 \<longrightarrow> coprime (unat total div 64) (mem_spread eal4))"
  by (rule object_size_spreads) (simp_all add: mem_spread_def eal4_def)

section \<open>Population\<close>

text \<open>
  C18: a chunk of memory that begins at a cache line and is as long as the size asked for,
  wherever it lies relative to the pages, takes all the objects: populating it returns their
  number, puts each of them into the ring and into the list of the pool, and no two overlap,
  each lies in the chunk with its header and trailer, starts at a cache line and, if a page
  can hold an object, crosses no page boundary. The IO address of each is that of the chunk
  plus its offset.
\<close>

theorem populate_memory_enough:
  assumes "i < 6" "rte_mempool_get_ops (ring_ops_table env) (mp_ops_index mp) = Some (ring_mode env i)"
    and "mp_pool_data mp = Some r" "ring_rts (i = 4) r" "unat n \<le> ring_room r" "n \<noteq> 0" "unat n < 2 ^ 31"
    and sz: "unat (mp_header_size mp) + unat (mp_elt_size mp) + unat (mp_trailer_size mp) < 2 ^ 32"
      "mp_total_elt_sz mp = t" "64 dvd unat t" "t \<noteq> 0"
    and pg: "rte_mempool_get_page_size e mp = Inr pg_sz"
      "pg_sz = 0 \<and> pg_shift = 0 \<or> (\<exists>j. 6 \<le> j \<and> j < 64 \<and> pg_sz = 2 ^ j \<and> pg_shift = of_nat j)"
    and mem: "rte_mempool_op_calc_mem_size_default mp n pg_shift = Some (Inr (mem, min_chunk, align))" "mem \<le> len"
      "unat n * (unat t + unat pg_sz) + unat t < 2 ^ 64"
    and va: "64 dvd unat va" "unat va + unat len + 2 * unat t + unat pg_sz < 2 ^ 64"
  shows "\<exists>xs iovas' r'. rte_mempool_op_populate_default e (ring_ops_table env) (mp, iovas) n va iova len =
      Some (int (unat n), mp\<lparr>mp_pool_data := Some r', mp_elt_list := mp_elt_list mp @ xs,
        mp_populated_size := mp_populated_size mp + n\<rparr>, iovas') \<and>
    length xs = unat n \<and> ring_rts (i = 4) r' \<and> ring_bag r' = ring_bag r + mset xs \<and>
    sorted_wrt (\<lambda>x y. unat x + unat t \<le> unat y) xs \<and>
    (\<forall>x\<in>set xs. unat va + unat (mp_header_size mp) \<le> unat x \<and>
      unat x + unat t \<le> unat va + unat len + unat (mp_header_size mp) \<and>
      64 dvd (unat x - unat (mp_header_size mp)) \<and>
      in_page (unat pg_sz) (unat t) (unat x - unat (mp_header_size mp)) \<and>
      iovas' x = (if iova = RTE_BAD_IOVA then RTE_BAD_IOVA else iova + (x - va)))"
proof -
  have pg': "pg_sz = 0 \<or> (\<exists>j. 6 \<le> j \<and> j < 64 \<and> pg_sz = 2 ^ j)" using pg(2) by blast
  obtain xs iovas' r' where
    run: "rte_mempool_op_populate_default e (ring_ops_table env) (mp, iovas) n va iova len =
      Some (int (length xs), mp\<lparr>mp_pool_data := Some r', mp_elt_list := mp_elt_list mp @ xs,
        mp_populated_size := mp_populated_size mp + of_nat (length xs)\<rparr>, iovas')"
    and r': "ring_rts (i = 4) r'" "ring_bag r' = ring_bag r + mset xs"
    and xs: "map unat xs = fitting (unat pg_sz) (unat t) (unat (mp_header_size mp)) (unat va) (unat va + unat len) (unat n)"
    and io: "\<And>x. iovas' x = (if x \<in> set xs then (if iova = RTE_BAD_IOVA then RTE_BAD_IOVA else iova + (x - va)) else iovas x)"
    using mempool_driver.populate_default_ok [OF ring_mode_driver [OF assms(1), of env] assms(2-5) sz(1) _ _ pg(1) pg' va(1) _ assms(7),
        of len iovas iova] sz(2-4) va(2) by auto
  have "mem_enough (unat pg_sz) (unat t) (unat n) \<le> unat mem"
    using calc_mem_enough [OF sz(2,4) assms(6) pg(2) mem(3)] mem(1) by auto
  then have le: "unat va + mem_enough (unat pg_sz) (unat t) (unat n) \<le> unat va + unat len" using mem(2) by (simp add: word_le_nat_alt)
  have t0: "0 < unat t" using sz(4) by (simp add: unat_gt_0)
  note d = va(1) sz(3) pg_dvd [OF pg'] t0
  have len: "length xs = unat n"
    using fitting_enough [OF d le, of "unat (mp_header_size mp)"] arg_cong [OF xs, of length] by simp
  note f = fitting_ok [OF d, where hdr = "unat (mp_header_size mp)" and hi = "unat va + unat len" and k = "unat n", folded xs]
  have "sorted_wrt (\<lambda>x y. unat x + unat t \<le> unat y) xs" using f(1) by (simp add: sorted_wrt_map)
  moreover have "\<forall>x\<in>set xs. unat va + unat (mp_header_size mp) \<le> unat x \<and>
      unat x + unat t \<le> unat va + unat len + unat (mp_header_size mp) \<and>
      64 dvd (unat x - unat (mp_header_size mp)) \<and>
      in_page (unat pg_sz) (unat t) (unat x - unat (mp_header_size mp)) \<and>
      iovas' x = (if iova = RTE_BAD_IOVA then RTE_BAD_IOVA else iova + (x - va))"
    using f(2) io by simp
  ultimately show ?thesis using run r' len by (intro exI [of _ xs] exI [of _ iovas'] exI [of _ r']) simp
qed

definition blank_pool :: "addr rte_ring rte_mempool" where
  "blank_pool = (pool_of [] 0)\<lparr>mp_populated_size := 0\<rparr>"

theorem populate_memory_enough_witness:
  "\<exists>xs iovas' r'. rte_mempool_op_populate_default eal4 (ring_ops_table no_env) (blank_pool, \<lambda>_. 0) 7 0x10040 0x80040 30000 =
      Some (int (unat (7 :: u32)), blank_pool\<lparr>mp_pool_data := Some r', mp_elt_list := mp_elt_list blank_pool @ xs,
        mp_populated_size := mp_populated_size blank_pool + 7\<rparr>, iovas') \<and>
    length xs = unat (7 :: u32) \<and> ring_rts (0 = (4 :: nat)) r' \<and> ring_bag r' = ring_bag (ring8 []) + mset xs \<and>
    sorted_wrt (\<lambda>x y. unat x + unat (2368 :: u64) \<le> unat y) xs \<and>
    (\<forall>x\<in>set xs. unat (0x10040 :: u64) + unat (mp_header_size blank_pool) \<le> unat x \<and>
      unat x + unat (2368 :: u64) \<le> unat (0x10040 :: u64) + unat (30000 :: u64) + unat (mp_header_size blank_pool) \<and>
      64 dvd (unat x - unat (mp_header_size blank_pool)) \<and>
      in_page (unat (4096 :: u64)) (unat (2368 :: u64)) (unat x - unat (mp_header_size blank_pool)) \<and>
      iovas' x = (if 0x80040 = RTE_BAD_IOVA then RTE_BAD_IOVA else 0x80040 + (x - 0x10040)))"
proof (rule populate_memory_enough [where pg_shift = 12 and mem = 29311 and min_chunk = 2368 and align = 64])
  show "rte_mempool_get_ops (ring_ops_table no_env) (mp_ops_index blank_pool) = Some (ring_mode no_env 0)"
    by (simp add: rte_mempool_get_ops_def ring_mode_def ring_ops_table_def blank_pool_def pool_of_def)
  show "mp_pool_data blank_pool = Some (ring8 [])" by (simp add: blank_pool_def pool_of_def)
  have "ring_rts False (ring8 [])" by code_simp
  then show "ring_rts (0 = (4 :: nat)) (ring8 [])" by simp
  have "ring_room (ring8 []) = 7" by code_simp
  then show "unat (7 :: u32) \<le> ring_room (ring8 [])" by simp
  show "rte_mempool_get_page_size eal4 blank_pool = Inr 4096"
    by (simp add: rte_mempool_get_page_size_def eal4_def blank_pool_def pool_of_def get_min_page_size_def
        find_min_pagesz_def SOCKET_ID_ANY_def Let_def RTE_MEMPOOL_F_NO_IOVA_CONTIG_def)
  show "(4096 :: u64) = 0 \<and> (12 :: u32) = 0 \<or> (\<exists>j. 6 \<le> j \<and> j < 64 \<and> (4096 :: u64) = 2 ^ j \<and> (12 :: u32) = of_nat j)"
    by (intro disjI2 exI [of _ 12]) simp
  show "rte_mempool_op_calc_mem_size_default blank_pool 7 12 = Some (Inr (29311, 2368, 64))" by code_simp
qed (simp_all add: blank_pool_def pool_of_def mp_total_elt_sz_def)

end
