(* ===== verification/Fbarray.thy ===== *)
theory Fbarray
  imports Eal_Bits
begin

text \<open>
  Arrays with a bit mask of used entries (\<open>lib/eal/common/eal_common_fbarray.c\<close>), the base
  of the table of memory zones: searches for used and free entries and for runs of them, and
  marking. \<open>Inl\<close> is \<open>rte_errno\<close> with the result \<open>- 1\<close>.
\<close>

section \<open>The structure\<close>

text \<open>\<open>fb_masks\<close> is \<open>msk->data\<close>, its length \<open>msk->n_masks\<close>.\<close>

record rte_fbarray =
  fb_name :: string
  fb_count :: u32
  fb_len :: u32
  fb_elt_sz :: u32
  fb_data :: addr
  fb_masks :: "u64 list"

definition RTE_FBARRAY_NAME_LEN :: nat where "RTE_FBARRAY_NAME_LEN = 64"
definition MASK_SHIFT :: nat where "MASK_SHIFT = 6"
definition MASK_ALIGN :: u32 where "MASK_ALIGN = push_bit MASK_SHIFT 1"
definition MASK_LEN_TO_IDX :: "u32 \<Rightarrow> u32" where "MASK_LEN_TO_IDX x = drop_bit MASK_SHIFT x"
definition MASK_LEN_TO_MOD :: "u32 \<Rightarrow> u32" where "MASK_LEN_TO_MOD x = x - RTE_ALIGN_FLOOR x MASK_ALIGN"
definition MASK_GET_IDX :: "u32 \<Rightarrow> u32 \<Rightarrow> u32" where "MASK_GET_IDX idx md = push_bit MASK_SHIFT idx + md"

text \<open>\<open>__builtin_ctzll\<close> and \<open>__builtin_clzll\<close> of a word that is not zero.\<close>

definition ctzll :: "u64 \<Rightarrow> u32" where
  "ctzll w = of_nat (length (takeWhile (\<lambda>i. \<not> bit w i) [0..<64]))"

definition clzll :: "u64 \<Rightarrow> u32" where
  "clzll w = of_nat (length (takeWhile (\<lambda>i. \<not> bit w (63 - i)) [0..<64]))"

text \<open>\<open>1ULL << n\<close>; shifting by 64 or more is undefined.\<close>

definition shl64 :: "u64 \<Rightarrow> u32 \<Rightarrow> u64 option" where
  "shl64 x n = (if n < 64 then Some (push_bit (unat n) x) else None)"

section \<open>Making and marking\<close>

definition fully_validate :: "string option \<Rightarrow> u32 \<Rightarrow> u32 \<Rightarrow> int option" where
  "fully_validate name elt_sz len =
     (case name of
        None \<Rightarrow> Some EINVAL
      | Some name \<Rightarrow>
          if elt_sz = 0 \<or> len = 0 \<or> 0x7fffffff < len then Some EINVAL
          else if RTE_FBARRAY_NAME_LEN \<le> length name then Some ENAMETOOLONG
          else None)"

definition sizeof_used_mask :: u64 where "sizeof_used_mask = 8"

definition calc_mask_size :: "u32 \<Rightarrow> u64" where
  "calc_mask_size len = (let len = RTE_ALIGN_CEIL len MASK_ALIGN in sizeof_used_mask + 8 * ucast (MASK_LEN_TO_IDX len))"

text \<open>The product is one of \<open>unsigned int\<close>.\<close>

definition calc_data_size :: "u64 \<Rightarrow> u32 \<Rightarrow> u32 \<Rightarrow> u64" where
  "calc_data_size page_sz elt_sz len =
     (let data_sz = ucast (elt_sz * len); msk_sz = calc_mask_size len in RTE_ALIGN_CEIL (data_sz + msk_sz) page_sz)"

text \<open>The structure and the zeroed memory at \<open>data\<close>, as \<open>rte_fbarray_init\<close> fills them in.\<close>

definition fbarray_new :: "addr \<Rightarrow> string \<Rightarrow> u32 \<Rightarrow> u32 \<Rightarrow> rte_fbarray" where
  "fbarray_new data name len elt_sz =
     \<lparr>fb_name = name, fb_count = 0, fb_len = len, fb_elt_sz = elt_sz, fb_data = data,
       fb_masks = replicate (unat (MASK_LEN_TO_IDX (RTE_ALIGN_CEIL len MASK_ALIGN))) 0\<rparr>"

definition rte_fbarray_get :: "rte_fbarray \<Rightarrow> u32 \<Rightarrow> int + addr" where
  "rte_fbarray_get arr idx =
     (if fb_len arr \<le> idx then Inl EINVAL else Inr (fb_data arr + ucast (idx * fb_elt_sz arr)))"

definition rte_fbarray_find_idx :: "rte_fbarray \<Rightarrow> addr \<Rightarrow> int + int" where
  "rte_fbarray_find_idx arr elt =
     (if elt = NULL then Inl EINVAL
      else
        let stop = fb_data arr + ucast (fb_elt_sz arr * fb_len arr)
        in if elt < fb_data arr \<or> stop \<le> elt then Inl EINVAL
           else Inr (sint (ucast ((elt - fb_data arr) div ucast (fb_elt_sz arr)) :: u32)))"

definition set_used :: "rte_fbarray \<Rightarrow> u32 \<Rightarrow> bool \<Rightarrow> int + rte_fbarray" where
  "set_used arr idx used =
     (let msk_bit = push_bit (unat (MASK_LEN_TO_MOD idx)) 1; msk_idx = unat (MASK_LEN_TO_IDX idx)
      in if fb_len arr \<le> idx then Inl EINVAL
         else
           let data = fb_masks arr; already_used = (data ! msk_idx AND msk_bit \<noteq> 0)
           in if used = already_used then Inr arr
              else if used then
                Inr (arr\<lparr>fb_masks := data[msk_idx := data ! msk_idx OR msk_bit], fb_count := fb_count arr + 1\<rparr>)
              else
                Inr (arr\<lparr>fb_masks := data[msk_idx := data ! msk_idx AND NOT msk_bit], fb_count := fb_count arr - 1\<rparr>))"

definition rte_fbarray_set_used :: "rte_fbarray \<Rightarrow> u32 \<Rightarrow> int + rte_fbarray" where
  "rte_fbarray_set_used arr idx = set_used arr idx True"

definition rte_fbarray_set_free :: "rte_fbarray \<Rightarrow> u32 \<Rightarrow> int + rte_fbarray" where
  "rte_fbarray_set_free arr idx = set_used arr idx False"

definition rte_fbarray_is_used :: "rte_fbarray \<Rightarrow> u32 \<Rightarrow> int + bool" where
  "rte_fbarray_is_used arr idx =
     (if fb_len arr \<le> idx then Inl EINVAL
      else Inr (fb_masks arr ! unat (MASK_LEN_TO_IDX idx) AND push_bit (unat (MASK_LEN_TO_MOD idx)) 1 \<noteq> 0))"

section \<open>The next entry, the length of a run\<close>

text \<open>If free entries are looked for, the mask is inverted.\<close>

definition mask_for :: "bool \<Rightarrow> u64 \<Rightarrow> u64" where
  "mask_for used m = (if used then m else NOT m)"

text \<open>The masks from \<open>idx\<close> on; \<open>~(UINT64_MAX << last_mod)\<close> hides what is behind the end.\<close>

definition last_mask :: "rte_fbarray \<Rightarrow> u64" where
  "last_mask arr = NOT (push_bit (unat (MASK_LEN_TO_MOD (fb_len arr))) (- 1))"

primrec find_next_loop :: "bool \<Rightarrow> u32 \<Rightarrow> u32 \<Rightarrow> u64 \<Rightarrow> u64 \<Rightarrow> u32 \<Rightarrow> u64 list \<Rightarrow> u32 option" where
  "find_next_loop used first lst ignore_msk last_msk idx [] = None"
| "find_next_loop used first lst ignore_msk last_msk idx (m # ms) =
     (let cur = mask_for used m;
          cur = (if idx = lst then cur AND last_msk else cur);
          cur = (if idx = first then cur AND ignore_msk else cur)
      in if cur = 0 then find_next_loop used first lst ignore_msk last_msk (idx + 1) ms
         else Some (MASK_GET_IDX idx (ctzll cur)))"

definition find_next :: "rte_fbarray \<Rightarrow> u32 \<Rightarrow> bool \<Rightarrow> int + u32" where
  "find_next arr start used =
     (let first = MASK_LEN_TO_IDX start; first_mod = MASK_LEN_TO_MOD start;
          ignore_msk = NOT (push_bit (unat first_mod) 1 - 1);
          lst = MASK_LEN_TO_IDX (fb_len arr)
      in case find_next_loop used first lst ignore_msk (last_mask arr) first (drop (unat first) (fb_masks arr)) of
           Some i \<Rightarrow> Inr i
         | None \<Rightarrow> Inl (if used then ENOENT else ENOSPC))"

primrec find_contig_loop :: "bool \<Rightarrow> u32 \<Rightarrow> u32 \<Rightarrow> u32 \<Rightarrow> u64 \<Rightarrow> u32 \<Rightarrow> u32 \<Rightarrow> u64 list \<Rightarrow> u32" where
  "find_contig_loop used first first_mod lst last_msk idx result [] = result"
| "find_contig_loop used first first_mod lst last_msk idx result (m # ms) =
     (let need_len = MASK_ALIGN;
          cur = mask_for used m;
          cur = (if idx = lst then cur AND last_msk else cur);
          (cur, need_len) = (if idx = first then (drop_bit (unat first_mod) cur, need_len - first_mod) else (cur, need_len));
          cur = NOT cur
      in if cur = 0 then find_contig_loop used first first_mod lst last_msk (idx + 1) (result + need_len) ms
         else
           let run_len = ctzll cur
           in if run_len < need_len then result + run_len
              else find_contig_loop used first first_mod lst last_msk (idx + 1) (result + need_len) ms)"

definition find_contig :: "rte_fbarray \<Rightarrow> u32 \<Rightarrow> bool \<Rightarrow> u32" where
  "find_contig arr start used =
     (let lst = MASK_LEN_TO_IDX (fb_len arr); first = MASK_LEN_TO_IDX start; first_mod = MASK_LEN_TO_MOD start
      in find_contig_loop used first first_mod lst (last_mask arr) first 0 (drop (unat first) (fb_masks arr)))"

section \<open>Backwards\<close>

text \<open>The masks from \<open>idx\<close> down to the first; a caller starts inside the array.\<close>

definition masks_down :: "rte_fbarray \<Rightarrow> u32 \<Rightarrow> u64 list" where
  "masks_down arr idx = rev (take (Suc (unat idx)) (fb_masks arr))"

definition ignore_above :: "u32 \<Rightarrow> u64" where
  "ignore_above first_mod = (if first_mod = MASK_ALIGN - 1 then - 1 else NOT (push_bit (unat (first_mod + 1)) (- 1)))"

primrec find_prev_loop :: "bool \<Rightarrow> u32 \<Rightarrow> u64 \<Rightarrow> u32 \<Rightarrow> u64 list \<Rightarrow> u32 option" where
  "find_prev_loop used first ignore_msk idx [] = None"
| "find_prev_loop used first ignore_msk idx (m # ms) =
     (let cur = mask_for used m;
          cur = (if idx = first then cur AND ignore_msk else cur)
      in if cur = 0 then find_prev_loop used first ignore_msk (idx - 1) ms
         else
           let found = MASK_ALIGN - clzll cur - 1
           in Some (MASK_GET_IDX idx found))"

definition find_prev :: "rte_fbarray \<Rightarrow> u32 \<Rightarrow> bool \<Rightarrow> int + u32" where
  "find_prev arr start used =
     (let first = MASK_LEN_TO_IDX start; first_mod = MASK_LEN_TO_MOD start
      in case find_prev_loop used first (ignore_above first_mod) first (masks_down arr first) of
           Some i \<Rightarrow> Inr i
         | None \<Rightarrow> Inl (if used then ENOENT else ENOSPC))"

primrec find_rev_contig_loop :: "bool \<Rightarrow> u32 \<Rightarrow> u32 \<Rightarrow> u32 \<Rightarrow> u32 \<Rightarrow> u64 list \<Rightarrow> u32" where
  "find_rev_contig_loop used first first_mod idx result [] = result"
| "find_rev_contig_loop used first first_mod idx result (m # ms) =
     (let need_len = MASK_ALIGN;
          cur = mask_for used m;
          (cur, need_len) = (if idx = first then
              let end_len = MASK_ALIGN - first_mod - 1 in (push_bit (unat end_len) cur, need_len - end_len)
            else (cur, need_len));
          cur = NOT cur
      in if cur = 0 then find_rev_contig_loop used first first_mod (idx - 1) (result + need_len) ms
         else
           let run_len = clzll cur
           in if run_len < need_len then result + run_len
              else find_rev_contig_loop used first first_mod (idx - 1) (result + need_len) ms)"

definition find_rev_contig :: "rte_fbarray \<Rightarrow> u32 \<Rightarrow> bool \<Rightarrow> u32" where
  "find_rev_contig arr start used =
     (let first = MASK_LEN_TO_IDX start; first_mod = MASK_LEN_TO_MOD start
      in find_rev_contig_loop used first first_mod first 0 (masks_down arr first))"

section \<open>The interface\<close>

definition fbarray_find :: "rte_fbarray \<Rightarrow> u32 \<Rightarrow> bool \<Rightarrow> bool \<Rightarrow> int + u32" where
  "fbarray_find arr start forward used =
     (if fb_len arr \<le> start then Inl EINVAL
      else if \<not> used \<and> fb_len arr = fb_count arr then Inl ENOSPC
      else if \<not> used \<and> fb_count arr = 0 then Inr start
      else if used \<and> fb_count arr = 0 then Inl ENOENT
      else if used \<and> fb_len arr = fb_count arr then Inr start
      else if forward then find_next arr start used
      else find_prev arr start used)"

definition rte_fbarray_find_next_free :: "rte_fbarray \<Rightarrow> u32 \<Rightarrow> int + u32" where
  "rte_fbarray_find_next_free arr start = fbarray_find arr start True False"

definition rte_fbarray_find_next_used :: "rte_fbarray \<Rightarrow> u32 \<Rightarrow> int + u32" where
  "rte_fbarray_find_next_used arr start = fbarray_find arr start True True"

definition rte_fbarray_find_prev_free :: "rte_fbarray \<Rightarrow> u32 \<Rightarrow> int + u32" where
  "rte_fbarray_find_prev_free arr start = fbarray_find arr start False False"

definition rte_fbarray_find_prev_used :: "rte_fbarray \<Rightarrow> u32 \<Rightarrow> int + u32" where
  "rte_fbarray_find_prev_used arr start = fbarray_find arr start False True"

definition fbarray_find_contig :: "rte_fbarray \<Rightarrow> u32 \<Rightarrow> bool \<Rightarrow> bool \<Rightarrow> int + u32" where
  "fbarray_find_contig arr start forward used =
     (if fb_len arr \<le> start then Inl EINVAL
      else if used \<and> fb_count arr = 0 then Inr 0
      else if used \<and> forward \<and> fb_count arr = fb_len arr then Inr (fb_len arr - start)
      else if used \<and> \<not> forward \<and> fb_count arr = fb_len arr then Inr (start + 1)
      else if \<not> used \<and> fb_len arr = fb_count arr then Inr 0
      else if \<not> used \<and> forward \<and> fb_count arr = 0 then Inr (fb_len arr - start)
      else if \<not> used \<and> \<not> forward \<and> fb_count arr = 0 then Inr (start + 1)
      else if forward then Inr (find_contig arr start used)
      else Inr (find_rev_contig arr start used))"

definition rte_fbarray_find_contig_free :: "rte_fbarray \<Rightarrow> u32 \<Rightarrow> int + u32" where
  "rte_fbarray_find_contig_free arr start = fbarray_find_contig arr start True False"

definition rte_fbarray_find_contig_used :: "rte_fbarray \<Rightarrow> u32 \<Rightarrow> int + u32" where
  "rte_fbarray_find_contig_used arr start = fbarray_find_contig arr start True True"

definition rte_fbarray_find_rev_contig_free :: "rte_fbarray \<Rightarrow> u32 \<Rightarrow> int + u32" where
  "rte_fbarray_find_rev_contig_free arr start = fbarray_find_contig arr start False False"

definition rte_fbarray_find_rev_contig_used :: "rte_fbarray \<Rightarrow> u32 \<Rightarrow> int + u32" where
  "rte_fbarray_find_rev_contig_used arr start = fbarray_find_contig arr start False True"

text \<open>The \<open>int\<close> a call returns.\<close>

definition ret_int :: "int + u32 \<Rightarrow> int" where
  "ret_int r = (case r of Inl _ \<Rightarrow> - 1 | Inr v \<Rightarrow> sint v)"

partial_function (option) biggest_loop ::
  "rte_fbarray \<Rightarrow> bool \<Rightarrow> bool \<Rightarrow> int \<Rightarrow> int \<Rightarrow> int \<Rightarrow> int option" where
  "biggest_loop arr used rv cur_idx biggest_idx biggest_len =
     (let cur_idx = ret_int (fbarray_find arr (word_of_int cur_idx) (\<not> rv) used)
      in if 0 \<le> cur_idx then
           let cur_len = ret_int (fbarray_find_contig arr (word_of_int cur_idx) (\<not> rv) used);
               next_idx = (if rv then cur_idx - cur_len else cur_idx + cur_len);
               cur_idx = (if rv then next_idx + 1 else cur_idx);
               (biggest_idx, biggest_len) = (if biggest_len < cur_len then (cur_idx, cur_len) else (biggest_idx, biggest_len))
           in if next_idx < 0 then Some biggest_idx
              else biggest_loop arr used rv next_idx biggest_idx biggest_len
         else Some biggest_idx)"

definition fbarray_find_biggest :: "rte_fbarray \<Rightarrow> u32 \<Rightarrow> bool \<Rightarrow> bool \<Rightarrow> (int + int) option" where
  "fbarray_find_biggest arr start used rv =
     (if fb_len arr \<le> start then Some (Inl EINVAL)
      else map_option (\<lambda>i. if i < 0 then Inl (if used then ENOENT else ENOSPC) else Inr i)
             (biggest_loop arr used rv (sint start) (- 1) 0))"

definition rte_fbarray_find_biggest_free :: "rte_fbarray \<Rightarrow> u32 \<Rightarrow> (int + int) option" where
  "rte_fbarray_find_biggest_free arr start = fbarray_find_biggest arr start False False"

definition rte_fbarray_find_biggest_used :: "rte_fbarray \<Rightarrow> u32 \<Rightarrow> (int + int) option" where
  "rte_fbarray_find_biggest_used arr start = fbarray_find_biggest arr start True False"

definition rte_fbarray_find_rev_biggest_free :: "rte_fbarray \<Rightarrow> u32 \<Rightarrow> (int + int) option" where
  "rte_fbarray_find_rev_biggest_free arr start = fbarray_find_biggest arr start False True"

definition rte_fbarray_find_rev_biggest_used :: "rte_fbarray \<Rightarrow> u32 \<Rightarrow> (int + int) option" where
  "rte_fbarray_find_rev_biggest_used arr start = fbarray_find_biggest arr start True True"

end
