(* ===== verification/Fbarray_Search.thy ===== *)
theory Fbarray_Search
  imports Fbarray
begin

text \<open>
  What the searches of \<open>Fbarray\<close> compute, in terms of the entries: the scan of the words of
  the mask is a linear search, forwards and backwards, and the lengths are those of the
  longest run that begins or ends at the start.
\<close>

section \<open>The entries\<close>

definition fb_bit :: "rte_fbarray \<Rightarrow> nat \<Rightarrow> bool" where
  "fb_bit arr i = bit (fb_masks arr ! (i div 64)) (i mod 64)"

definition fb_used :: "rte_fbarray \<Rightarrow> nat set" where
  "fb_used arr = {i. i < unat (fb_len arr) \<and> fb_bit arr i}"

text \<open>The masks cover the entries and nothing behind them is marked; the count is exact.\<close>

definition fb_ok :: "rte_fbarray \<Rightarrow> bool" where
  "fb_ok arr \<longleftrightarrow> fb_len arr \<noteq> 0 \<and> unat (fb_len arr) < 2 ^ 31 \<and>
     length (fb_masks arr) = (unat (fb_len arr) + 63) div 64 \<and>
     (\<forall>i. unat (fb_len arr) \<le> i \<longrightarrow> i div 64 < length (fb_masks arr) \<longrightarrow> \<not> fb_bit arr i) \<and>
     unat (fb_count arr) = card (fb_used arr)"

section \<open>Bits\<close>

lemma MASK_ALIGN_64 [simp]: "MASK_ALIGN = 64"
  by (simp add: MASK_ALIGN_def MASK_SHIFT_def)

lemma unat_idx [simp]: "unat (MASK_LEN_TO_IDX x) = unat x div 64"
  by (simp add: MASK_LEN_TO_IDX_def MASK_SHIFT_def unat_div drop_bit_eq_div)

lemma unat_mod [simp]: "unat (MASK_LEN_TO_MOD x) = unat x mod 64"
proof -
  have "unat (RTE_ALIGN_FLOOR x MASK_ALIGN) = unat x - unat x mod 64" using align_floor_pow2 [of 6 x] by simp
  then show ?thesis by (simp add: MASK_LEN_TO_MOD_def unat_sub_nowrap)
qed

lemma MASK_GET_IDX_nat:
  assumes "m < 64"
  shows "MASK_GET_IDX idx (of_nat m) = of_nat (64 * unat idx + m)"
  by (simp add: MASK_GET_IDX_def MASK_SHIFT_def push_bit_eq_mult mult.commute)

definition zeros :: "u64 \<Rightarrow> nat" where
  "zeros w = length (takeWhile (\<lambda>i. \<not> bit w i) [0..<64])"

definition lead :: "u64 \<Rightarrow> nat" where
  "lead w = length (takeWhile (\<lambda>i. \<not> bit w (63 - i)) [0..<64])"

lemma upt_split: "i \<le> j \<Longrightarrow> j \<le> k \<Longrightarrow> [i..<k] = [i..<j] @ [j..<k]"
  using upt_add_eq_append [of i j "k - j"] by simp

lemma takeWhile_upt:
  assumes "k < n" "P k" "\<forall>j<k. \<not> P j"
  shows "length (takeWhile (\<lambda>i. \<not> P i) [0..<n]) = k"
proof -
  have "[0..<n] = [0..<k] @ k # [Suc k..<n]" using assms(1) upt_split [of 0 k n] by (simp add: upt_conv_Cons)
  moreover have "takeWhile (\<lambda>i. \<not> P i) ([0..<k] @ k # [Suc k..<n]) = [0..<k]"
    using assms(2,3) by (subst takeWhile_append2) simp_all
  ultimately show ?thesis by simp
qed

lemma least_below:
  fixes i n :: nat
  assumes "i < n" "P i"
  obtains k where "k < n" "P k" "\<forall>j<k. \<not> P j"
proof -
  have "(LEAST k. P k) \<le> i" using assms(2) by (rule Least_le)
  then have "(LEAST k. P k) < n" using assms(1) by simp
  moreover have "P (LEAST k. P k)" using assms(2) by (rule LeastI)
  moreover have "\<forall>j<(LEAST k. P k). \<not> P j" by (intro allI impI not_less_Least)
  ultimately show ?thesis by (rule that)
qed

lemma u64_bit: "(w :: u64) \<noteq> 0 \<longleftrightarrow> (\<exists>i<64. bit w i)"
  by (auto simp: bit_eq_iff dest: bit_imp_le_length)

lemma zeros_ok:
  assumes "w \<noteq> 0"
  shows "zeros w < 64" "bit w (zeros w)" "j < zeros w \<Longrightarrow> \<not> bit w j" "unat (ctzll w) = zeros w"
proof -
  from assms obtain i where "i < 64" "bit w i" by (auto simp: u64_bit)
  then obtain k where k: "k < 64" "bit w k" "\<forall>j<k. \<not> bit w j" by (rule least_below)
  then have "zeros w = k" unfolding zeros_def by (rule takeWhile_upt)
  with k show "zeros w < 64" "bit w (zeros w)" "j < zeros w \<Longrightarrow> \<not> bit w j" by auto
  then show "unat (ctzll w) = zeros w" by (simp add: ctzll_def unat_of_nat flip: zeros_def)
qed

lemma lead_ok:
  assumes "w \<noteq> 0"
  shows "lead w < 64" "bit w (63 - lead w)" "j < lead w \<Longrightarrow> \<not> bit w (63 - j)" "unat (clzll w) = lead w"
proof -
  from assms obtain i where "i < 64" "bit w i" by (auto simp: u64_bit)
  then have "63 - i < 64" "bit w (63 - (63 - i))" by simp_all
  then obtain k where k: "k < 64" "bit w (63 - k)" "\<forall>j<k. \<not> bit w (63 - j)"
    by (rule least_below [where P = "\<lambda>i. bit w (63 - i)"])
  then have "lead w = k" unfolding lead_def by (intro takeWhile_upt [where P = "\<lambda>i. bit w (63 - i)"])
  with k show "lead w < 64" "bit w (63 - lead w)" "j < lead w \<Longrightarrow> \<not> bit w (63 - j)" by auto
  then show "unat (clzll w) = lead w" by (simp add: clzll_def unat_of_nat flip: lead_def)
qed

lemma bit_mask_for: "j < 64 \<Longrightarrow> bit (mask_for used m) j \<longleftrightarrow> bit m j = used"
  by (simp add: mask_for_def bit_simps)

lemma bit_from: "k < 64 \<Longrightarrow> bit (NOT (push_bit k 1 - 1) :: u64) j \<longleftrightarrow> j < 64 \<and> k \<le> j"
  by (auto simp: push_bit_of_1 pow2_minus_1_mask bit_simps simp flip: mask_eq_exp_minus_1)

lemma bit_below: "k < 64 \<Longrightarrow> bit (NOT (push_bit k (- 1)) :: u64) j \<longleftrightarrow> j < k"
  by (auto simp: bit_simps)

lemma bit_upto:
  assumes "unat m < 64"
  shows "bit (ignore_above m) j \<longleftrightarrow> j \<le> unat m"
proof (cases "m = 63")
  case True
  then show ?thesis by (auto simp: ignore_above_def bit_simps)
next
  case False
  then have "unat m \<noteq> 63" by (simp add: word_unat_eq_iff)
  then have "unat (m + 1) = Suc (unat m)" "Suc (unat m) < 64" using assms by (simp_all add: unat_add_nowrap)
  with False show ?thesis by (auto simp: ignore_above_def bit_simps)
qed

section \<open>The next entry\<close>

lemma find_append: "find P (xs @ ys) = (case find P xs of None \<Rightarrow> find P ys | Some x \<Rightarrow> Some x)"
  by (induction xs) simp_all

lemma find_upt_Some:
  assumes "a \<le> i" "i < b" "P i" "\<And>j. a \<le> j \<Longrightarrow> j < i \<Longrightarrow> \<not> P j"
  shows "find P [a..<b] = Some i"
proof -
  have "[a..<b] = [a..<i] @ i # [Suc i..<b]" using assms(1,2) upt_split [of a i b] by (simp add: upt_conv_Cons)
  moreover have "find P [a..<i] = None" using assms(4) by (auto simp: find_None_iff)
  ultimately show ?thesis using assms(3) by (simp add: find_append)
qed

lemma fb_bit_at: "j < 64 \<Longrightarrow> fb_bit arr (64 * k + j) = bit (fb_masks arr ! k) j"
  by (simp add: fb_bit_def)

lemma masks_bound:
  assumes "fb_ok arr"
  shows "length (fb_masks arr) < 2 ^ 32" "k < length (fb_masks arr) \<Longrightarrow> k \<le> unat (fb_len arr) div 64"
    "unat (fb_len arr) \<le> 64 * length (fb_masks arr)"
  using assms by (auto simp: fb_ok_def)

lemma below_len:
  assumes "fb_ok arr" "k < length (fb_masks arr)" "j < 64"
  shows "64 * k + j < unat (fb_len arr) \<longleftrightarrow> (k = unat (fb_len arr) div 64 \<longrightarrow> j < unat (fb_len arr) mod 64)"
proof (cases "k = unat (fb_len arr) div 64")
  case True
  then have "unat (fb_len arr) = 64 * k + unat (fb_len arr) mod 64" using div_mult_mod_eq [of "unat (fb_len arr)" 64] by simp
  then have "64 * k + j < unat (fb_len arr) \<longleftrightarrow> j < unat (fb_len arr) mod 64" by linarith
  with True show ?thesis by simp
next
  case False
  with masks_bound(2) [OF assms(1,2)] have "k < unat (fb_len arr) div 64" by simp
  then have "64 * Suc k \<le> unat (fb_len arr)" by (simp only: less_eq_div_iff_mult_less_eq Suc_le_eq mult.commute [of 64]) simp
  with False assms(3) show ?thesis by simp
qed

text \<open>What the mask at \<open>idx\<close> is cut down to: the entries from the start to the end of the array.\<close>

definition cut :: "rte_fbarray \<Rightarrow> bool \<Rightarrow> u32 \<Rightarrow> u64" where
  "cut arr used idx =
     (let cur = mask_for used (fb_masks arr ! unat idx)
      in if idx = MASK_LEN_TO_IDX (fb_len arr) then cur AND last_mask arr else cur)"

lemma bit_cut:
  assumes "fb_ok arr" "unat idx < length (fb_masks arr)" "j < 64"
  shows "bit (cut arr used idx) j \<longleftrightarrow> 64 * unat idx + j < unat (fb_len arr) \<and> fb_bit arr (64 * unat idx + j) = used"
proof -
  have "idx = MASK_LEN_TO_IDX (fb_len arr) \<longleftrightarrow> unat idx = unat (fb_len arr) div 64" by (simp add: word_unat_eq_iff)
  moreover have "bit (mask_for used (fb_masks arr ! unat idx)) j \<longleftrightarrow> fb_bit arr (64 * unat idx + j) = used"
    using assms(3) by (simp add: bit_mask_for fb_bit_at)
  ultimately show ?thesis using below_len [OF assms] by (auto simp: cut_def bit_simps last_mask_def bit_below)
qed

text \<open>A word against the entries from \<open>lo\<close> to \<open>hi\<close>.\<close>

lemma find_word:
  assumes "\<And>j. j < 64 \<Longrightarrow> bit cur j \<longleftrightarrow> lo \<le> base + j \<and> base + j < hi \<and> P (base + j)"
    and "base \<le> lo" "hi \<le> base + 64"
  shows "find P [lo..<hi] = (if cur = 0 then None else Some (base + zeros cur))"
proof (cases "cur = 0")
  case True
  have "\<not> P i" if "lo \<le> i" "i < hi" for i
    using assms(1) [of "i - base"] assms(2,3) that True by simp
  then show ?thesis using True by (simp add: find_None_iff)
next
  case False
  note z = zeros_ok [OF False]
  from assms(1) [OF z(1)] z(2) have b: "lo \<le> base + zeros cur" "base + zeros cur < hi" "P (base + zeros cur)" by simp_all
  have "\<not> P i" if "lo \<le> i" "i < base + zeros cur" for i
    using assms(1) [of "i - base"] z(1) z(3) [of "i - base"] assms(2,3) b(2) that by simp
  then have "find P [lo..<hi] = Some (base + zeros cur)" by (rule find_upt_Some [where P = P, OF b])
  with False show ?thesis by simp
qed

lemma next_mask:
  fixes idx :: u32
  assumes "m # ms = drop (unat idx) xs" "length xs < 2 ^ 32"
  shows "unat idx < length xs" "m = xs ! unat idx" "ms = drop (Suc (unat idx)) xs" "unat (idx + 1) = Suc (unat idx)"
proof -
  have l: "length (m # ms) = length xs - unat idx" unfolding assms(1) by simp
  then show i: "unat idx < length xs" by simp
  with assms(1) show "m = xs ! unat idx" "ms = drop (Suc (unat idx)) xs" by (simp_all add: Cons_nth_drop_Suc [symmetric])
  have "unat idx + unat (1 :: u32) < 2 ^ LENGTH(32)" using i assms(2) by simp
  from unat_add_nowrap [OF this] show "unat (idx + 1) = Suc (unat idx)" by simp
qed

lemma in_word: "i < 64 * (i div 64) + (64 :: nat)"
  using div_mult_mod_eq [of i 64] mod_less_divisor [of 64 i] by linarith

lemma in_word_le: "i \<le> 64 * (i div 64) + j \<longleftrightarrow> i mod 64 \<le> (j :: nat)"
  using div_mult_mod_eq [of i 64] by linarith

lemma find_next_loop_ok:
  assumes "fb_ok arr" "unat start < unat (fb_len arr)" "first = MASK_LEN_TO_IDX start" "lst = MASK_LEN_TO_IDX (fb_len arr)"
    and ig: "ig = NOT (push_bit (unat (MASK_LEN_TO_MOD start)) 1 - 1)"
    and "ms = drop (unat idx) (fb_masks arr)" "unat first \<le> unat idx" "unat idx \<le> length (fb_masks arr)"
  shows "find_next_loop used first lst ig (last_mask arr) idx ms =
    map_option of_nat (find (\<lambda>i. fb_bit arr i = used) [if idx = first then unat start else 64 * unat idx..<unat (fb_len arr)])"
  using assms(6-8)
proof (induction ms arbitrary: idx)
  case Nil
  then have "unat idx = length (fb_masks arr)" by simp
  moreover have "unat (fb_len arr) \<le> 64 * length (fb_masks arr)" by (rule masks_bound(3) [OF assms(1)])
  moreover have "unat start < 64 * Suc (unat start div 64)" using div_mult_mod_eq [of "unat start" 64] by simp
  ultimately have "unat (fb_len arr) \<le> 64 * unat idx" by simp
  moreover have "unat (fb_len arr) \<le> unat start" if "idx = first"
    using that assms(3) \<open>unat idx = length (fb_masks arr)\<close> masks_bound(3) [OF assms(1)] by simp
  ultimately show ?case by simp
next
  case (Cons m ms)
  note n = next_mask [OF Cons.prems(1) masks_bound(1) [OF assms(1)]]
  let ?P = "\<lambda>i. fb_bit arr i = used" and ?len = "unat (fb_len arr)" and ?b = "64 * unat idx"
  define lo where "lo = (if idx = first then unat start else ?b)"
  define hi where "hi = min (?b + 64) ?len"
  define cur where "cur = (if idx = first then cut arr used idx AND ig else cut arr used idx)"
  have "unat start < 64 * (unat start div 64) + 64" by (rule in_word)
  then have lo: "?b \<le> lo" "lo < ?b + 64" by (simp_all add: lo_def assms(3))
  have bit: "bit cur j \<longleftrightarrow> lo \<le> ?b + j \<and> ?b + j < hi \<and> ?P (?b + j)" if "j < 64" for j
  proof -
    have c: "bit (cut arr used idx) j \<longleftrightarrow> ?b + j < ?len \<and> ?P (?b + j)" by (rule bit_cut [OF assms(1) n(1) that])
    have g: "bit ig j \<longleftrightarrow> unat start mod 64 \<le> j" using that by (simp only: ig unat_mod bit_from mod_less_divisor) simp
    show ?thesis
    proof (cases "idx = first")
      case True
      then have "unat start \<le> ?b + j \<longleftrightarrow> unat start mod 64 \<le> j"
        using in_word_le [of "unat start" j] by (simp add: assms(3))
      with True c g that show ?thesis by (auto simp: cur_def lo_def hi_def bit_and_iff)
    next
      case False
      with c that show ?thesis by (auto simp: cur_def lo_def hi_def)
    qed
  qed
  have block: "find ?P [lo..<hi] = (if cur = 0 then None else Some (?b + zeros cur))"
    using bit lo(1) by (rule find_word) (simp_all add: hi_def)
  have split: "[lo..<?len] = [lo..<hi] @ [?b + 64..<?len]"
  proof (cases "?b + 64 \<le> ?len")
    case True
    then show ?thesis using upt_split [of lo "?b + 64" ?len] lo(2) by (simp add: hi_def)
  qed (simp add: hi_def)
  have step: "find_next_loop used first lst ig (last_mask arr) idx (m # ms) =
      (if cur = 0 then find_next_loop used first lst ig (last_mask arr) (idx + 1) ms else Some (MASK_GET_IDX idx (ctzll cur)))"
    by (simp add: Let_def cur_def cut_def assms(4) n(2))
  show ?case
  proof (cases "cur = 0")
    case True
    have "idx + 1 \<noteq> first" using Cons.prems(2) n(4) by (metis Suc_n_not_le_n)
    then have "find_next_loop used first lst ig (last_mask arr) (idx + 1) ms = map_option of_nat (find ?P [?b + 64..<?len])"
      using Cons.IH [of "idx + 1"] Cons.prems(2) n by (simp add: add.commute)
    with True step block split show ?thesis by (simp add: find_append flip: lo_def)
  next
    case False
    have "ctzll cur = of_nat (zeros cur)" using zeros_ok(4) [OF False] by (metis of_nat_unat ucast_id)
    then have "MASK_GET_IDX idx (ctzll cur) = of_nat (?b + zeros cur)"
      using MASK_GET_IDX_nat zeros_ok(1) [OF False] by simp
    with False step block split show ?thesis by (simp add: find_append flip: lo_def)
  qed
qed

text \<open>The scan of the mask is a linear search.\<close>

lemma find_next_linear:
  assumes "fb_ok arr" "start < fb_len arr"
  shows "find_next arr start used =
    (case find (\<lambda>i. fb_bit arr i = used) [unat start..<unat (fb_len arr)] of
       None \<Rightarrow> Inl (if used then ENOENT else ENOSPC) | Some i \<Rightarrow> Inr (of_nat i))"
proof -
  have lt: "unat start < unat (fb_len arr)" using assms(2) by (simp add: word_less_nat_alt)
  then have "unat start div 64 \<le> length (fb_masks arr)" using masks_bound(3) [OF assms(1)] by simp
  then show ?thesis
    using find_next_loop_ok [OF assms(1) lt refl refl refl refl order_refl, of used]
    by (simp add: find_next_def Let_def split: option.splits)
qed

section \<open>The length of a run\<close>

lemma length_run:
  assumes "z \<le> length xs" "\<And>i. i < z \<Longrightarrow> P (xs ! i)" "z < length xs \<Longrightarrow> \<not> P (xs ! z)"
  shows "length (takeWhile P xs) = z"
proof -
  have "take z xs @ drop z xs = xs" by simp
  moreover have "\<forall>x\<in>set (take z xs). P x" using assms(1,2) by (auto simp: in_set_conv_nth)
  moreover have "takeWhile P (drop z xs) = []"
    using assms(3) by (cases "z < length xs") (simp_all add: Cons_nth_drop_Suc [symmetric])
  ultimately have "takeWhile P xs = take z xs" by (metis append_Nil2 takeWhile_append2)
  with assms(1) show ?thesis by simp
qed

lemma run_append:
  "length (takeWhile P (xs @ ys)) =
    (if length (takeWhile P xs) = length xs then length xs + length (takeWhile P ys) else length (takeWhile P xs))"
proof (cases "\<forall>x\<in>set xs. P x")
  case True
  then have "takeWhile P xs = xs" "takeWhile P (xs @ ys) = xs @ takeWhile P ys"
    by (simp_all add: takeWhile_eq_all_conv takeWhile_append2)
  then show ?thesis by (simp only: refl if_True length_append)
next
  case False
  then obtain x where "x \<in> set xs" "\<not> P x" by blast
  then have "takeWhile P (xs @ ys) = takeWhile P xs" by (simp add: takeWhile_append1)
  moreover have "length (takeWhile P xs) \<noteq> length xs"
  proof
    assume "length (takeWhile P xs) = length xs"
    then have "takeWhile P xs = xs" by (metis append_Nil2 append_eq_append_conv takeWhile_dropWhile_id)
    with False show False by (simp add: takeWhile_eq_all_conv)
  qed
  ultimately show ?thesis by simp
qed

text \<open>Up to 64 bits against the entries of a list.\<close>

lemma run_bits:
  assumes "\<And>j. j < 64 \<Longrightarrow> bt j \<longleftrightarrow> j < length xs \<and> P (xs ! j)" "length xs \<le> 64"
  shows "\<forall>j<64. bt j \<Longrightarrow> length xs = 64 \<and> length (takeWhile P xs) = 64"
    "z < 64 \<Longrightarrow> \<not> bt z \<Longrightarrow> \<forall>j<z. bt j \<Longrightarrow> length (takeWhile P xs) = z"
proof -
  show "length xs = 64 \<and> length (takeWhile P xs) = 64" if all: "\<forall>j<64. bt j"
  proof -
    have l: "length xs = 64" using all assms(1) [of 63] assms(2) by simp
    moreover have "length (takeWhile P xs) = 64"
      by (rule length_run) (use l all assms(1) in auto)
    ultimately show ?thesis by blast
  qed
  show "length (takeWhile P xs) = z" if z: "z < 64" "\<not> bt z" "\<forall>j<z. bt j"
  proof (rule length_run)
    show "z \<le> length xs"
    proof (cases z)
      case (Suc j)
      with z assms(1) [of j] show ?thesis by simp
    qed simp
  qed (use z assms(1) in auto)
qed

lemma all_ones: "NOT cur = 0 \<longleftrightarrow> (\<forall>j<64. bit (cur :: u64) j)"
  using u64_bit [of "NOT cur"] by (auto simp: bit_simps)

text \<open>The ones at the bottom of a word against the entries from \<open>lo\<close> to \<open>hi\<close>.\<close>

lemma run_word:
  assumes "\<And>j. j < 64 \<Longrightarrow> bit cur j \<longleftrightarrow> lo + j < hi \<and> P (lo + j)" and "hi \<le> lo + 64"
  shows "length (takeWhile P [lo..<hi]) = (if NOT cur = 0 then 64 else zeros (NOT cur))" "NOT cur = 0 \<Longrightarrow> hi = lo + 64"
proof -
  have b: "bit cur j \<longleftrightarrow> j < length [lo..<hi] \<and> P ([lo..<hi] ! j)" if "j < 64" for j
    using assms(1) [OF that] by auto
  have l: "length [lo..<hi] \<le> 64" using assms(2) by simp
  note r = run_bits [where bt = "bit cur" and xs = "[lo..<hi]", OF b l]
  show "hi = lo + 64" if "NOT cur = 0"
  proof -
    have "hi - lo = 64" using r(1) that by (simp add: all_ones)
    then show ?thesis by arith
  qed
  show "length (takeWhile P [lo..<hi]) = (if NOT cur = 0 then 64 else zeros (NOT cur))"
  proof (cases "NOT cur = 0")
    case False
    note z = zeros_ok [OF False]
    have "length (takeWhile P [lo..<hi]) = zeros (NOT cur)"
      by (rule r(2)) (use z(1) z(2) z(3) in \<open>auto simp: bit_simps\<close>)
    with False show ?thesis by simp
  qed (use r(1) in \<open>simp add: all_ones\<close>)
qed

lemma find_contig_loop_ok:
  assumes "fb_ok arr" "unat start < unat (fb_len arr)" "first = MASK_LEN_TO_IDX start" "lst = MASK_LEN_TO_IDX (fb_len arr)"
    and "ms = drop (unat idx) (fb_masks arr)" "unat first \<le> unat idx" "unat idx \<le> length (fb_masks arr)"
    and "unat result + 64 * length ms < 2 ^ 32"
  shows "unat (find_contig_loop used first (MASK_LEN_TO_MOD start) lst (last_mask arr) idx result ms) =
    unat result + length (takeWhile (\<lambda>i. fb_bit arr i = used) [if idx = first then unat start else 64 * unat idx..<unat (fb_len arr)])"
  using assms(5-8)
proof (induction ms arbitrary: idx result)
  case Nil
  then have "unat idx = length (fb_masks arr)" by simp
  moreover have "unat (fb_len arr) \<le> 64 * length (fb_masks arr)" by (rule masks_bound(3) [OF assms(1)])
  moreover have "unat (fb_len arr) \<le> unat start" if "idx = first"
    using that assms(3) \<open>unat idx = length (fb_masks arr)\<close> masks_bound(3) [OF assms(1)] by simp
  ultimately show ?case by simp
next
  case (Cons m ms)
  note n = next_mask [OF Cons.prems(1) masks_bound(1) [OF assms(1)]]
  let ?P = "\<lambda>i. fb_bit arr i = used" and ?len = "unat (fb_len arr)" and ?b = "64 * unat idx"
  define lo where "lo = (if idx = first then unat start else ?b)"
  define hi where "hi = min (?b + 64) ?len"
  define cur where "cur = (if idx = first then drop_bit (unat (MASK_LEN_TO_MOD start)) (cut arr used idx) else cut arr used idx)"
  define need where "need = (if idx = first then 64 - MASK_LEN_TO_MOD start else 64 :: u32)"
  have "unat start < 64 * (unat start div 64) + 64" by (rule in_word)
  then have lo: "?b \<le> lo" "lo < ?b + 64" by (simp_all add: lo_def assms(3))
  have lo_mod: "lo = ?b + (if idx = first then unat start mod 64 else 0)"
    by (simp add: lo_def assms(3))
  have need: "unat need = ?b + 64 - lo"
    by (simp add: need_def lo_mod unat_sub_nowrap)
  have bit: "bit cur j \<longleftrightarrow> lo + j < hi \<and> ?P (lo + j)" if "j < 64" for j
  proof (cases "lo + j < ?b + 64")
    case True
    then have "bit cur j \<longleftrightarrow> bit (cut arr used idx) (lo + j - ?b)" by (auto simp: cur_def lo_mod bit_drop_bit_eq)
    also have "\<dots> \<longleftrightarrow> lo + j < ?len \<and> ?P (lo + j)"
      using bit_cut [OF assms(1) n(1), of "lo + j - ?b" used] True lo(1) by simp
    finally show ?thesis using True by (simp add: hi_def)
  next
    case False
    then have "bit cur j \<longleftrightarrow> bit (cut arr used idx) (lo + j - ?b)" by (auto simp: cur_def lo_mod bit_drop_bit_eq)
    also have "\<dots> \<longleftrightarrow> False" using False by (auto dest: bit_imp_le_length)
    finally show ?thesis using False by (simp add: hi_def)
  qed
  have "hi \<le> lo + 64" using lo(1) by (simp add: hi_def)
  note block = run_word [OF bit this]
  have split: "[lo..<?len] = [lo..<hi] @ [64 + ?b..<?len]"
  proof (cases "?b + 64 \<le> ?len")
    case True
    then show ?thesis using upt_split [of lo "64 + ?b" ?len] lo(2) by (simp add: hi_def add.commute)
  qed (simp add: hi_def)
  let ?loop = "find_contig_loop used first (MASK_LEN_TO_MOD start) lst (last_mask arr)"
  have step: "?loop idx result (m # ms) =
      (if NOT cur = 0 then ?loop (idx + 1) (result + need) ms
       else if ctzll (NOT cur) < need then result + ctzll (NOT cur) else ?loop (idx + 1) (result + need) ms)"
    by (cases "idx = first")
      (simp_all only: find_contig_loop.simps Let_def cur_def need_def cut_def assms(4) n(2) MASK_ALIGN_64 if_True if_False prod.case simp_thms)
  have nf: "idx + 1 \<noteq> first" using Cons.prems(2) n(4) by (metis Suc_n_not_le_n)
  have rn: "unat (result + need) = unat result + unat need"
    using Cons.prems(4) need lo by (subst unat_add_nowrap) simp_all
  have nx: "unat (?loop (idx + 1) (result + need) ms) = unat result + unat need + length (takeWhile ?P [64 + ?b..<?len])"
    using Cons.IH [of "idx + 1" "result + need"] Cons.prems(2,4) n nf need lo by (simp add: rn)
  show ?case
  proof (cases "NOT cur = 0")
    case True
    with block have "hi = lo + 64" "length (takeWhile ?P [lo..<hi]) = 64" by simp_all
    moreover have "lo = ?b" using \<open>hi = lo + 64\<close> lo by (simp add: hi_def)
    ultimately show ?thesis using True nx step split need
      by (simp add: run_append flip: lo_def)
  next
    case False
    note z = zeros_ok [OF False]
    have tw: "length (takeWhile ?P [lo..<hi]) = zeros (NOT cur)" using block(1) False by simp
    then have zle: "zeros (NOT cur) \<le> hi - lo" using length_takeWhile_le [of ?P "[lo..<hi]"] by simp
    show ?thesis
    proof (cases "ctzll (NOT cur) < need")
      case True
      then have lt: "zeros (NOT cur) < ?b + 64 - lo" using z(4) need by (simp add: word_less_nat_alt)
      have "length (takeWhile ?P [lo..<?len]) = zeros (NOT cur)"
      proof (cases "zeros (NOT cur) = hi - lo")
        case True
        then have "hi = ?len \<or> hi < lo" using lt by (auto simp: hi_def min_def)
        then have "[64 + ?b..<?len] = []" using lo lt True by (auto simp: hi_def min_def)
        with tw split True show ?thesis by simp
      qed (simp add: split run_append tw)
      moreover have "unat (result + ctzll (NOT cur)) = unat result + zeros (NOT cur)"
        using z(1,4) Cons.prems(4) by (subst unat_add_nowrap) simp_all
      ultimately show ?thesis using step False True by (simp flip: lo_def)
    next
      case ge: False
      then have "?b + 64 - lo \<le> zeros (NOT cur)" using z(4) need by (simp add: word_less_nat_alt not_less)
      with zle lo have "hi = ?b + 64" "zeros (NOT cur) = hi - lo" by (auto simp: hi_def min_def split: if_splits)
      with tw have "length (takeWhile ?P [lo..<?len]) = unat need + length (takeWhile ?P [64 + ?b..<?len])"
        by (simp add: split run_append need)
      with step False ge nx show ?thesis by (simp flip: lo_def)
    qed
  qed
qed

lemma find_contig_linear:
  assumes "fb_ok arr" "start < fb_len arr"
  shows "unat (find_contig arr start used) = length (takeWhile (\<lambda>i. fb_bit arr i = used) [unat start..<unat (fb_len arr)])"
proof -
  have lt: "unat start < unat (fb_len arr)" using assms(2) by (simp add: word_less_nat_alt)
  then have "unat start div 64 \<le> length (fb_masks arr)" using masks_bound(3) [OF assms(1)] by simp
  moreover have "64 * length (fb_masks arr) < 2 ^ 32" using assms(1) by (auto simp: fb_ok_def)
  ultimately show ?thesis
    using find_contig_loop_ok [OF assms(1) lt refl refl refl order_refl, of 0 used]
    by (simp add: find_contig_def Let_def)
qed

section \<open>Backwards\<close>

lemma nth_rev_upt: "i < b - a \<Longrightarrow> rev [a..<b] ! i = b - Suc i"
  by (simp add: rev_nth)

lemma find_rev_Some:
  assumes "a \<le> i" "i < b" "P i" "\<And>j. i < j \<Longrightarrow> j < b \<Longrightarrow> \<not> P j"
  shows "find P (rev [a..<b]) = Some i"
proof -
  have "[a..<b] = [a..<i] @ i # [Suc i..<b]" using assms(1,2) upt_split [of a i b] by (simp add: upt_conv_Cons)
  moreover have "find P (rev [Suc i..<b]) = None" using assms(4) by (auto simp: find_None_iff)
  ultimately show ?thesis using assms(3) by (simp add: find_append)
qed

lemma find_rev_word:
  assumes "\<And>j. j < 64 \<Longrightarrow> bit cur j \<longleftrightarrow> base + j < hi \<and> P (base + j)" and "hi \<le> base + 64"
  shows "find P (rev [base..<hi]) = (if cur = 0 then None else Some (base + 63 - lead cur))"
proof (cases "cur = 0")
  case True
  have "\<not> P i" if "base \<le> i" "i < hi" for i
    using assms(1) [of "i - base"] assms(2) that True by simp
  then show ?thesis using True by (simp add: find_None_iff)
next
  case False
  note z = lead_ok [OF False]
  have "63 - lead cur < 64" by simp
  from assms(1) [OF this] z(2) have b: "base + (63 - lead cur) < hi" "P (base + (63 - lead cur))" by simp_all
  have "\<not> P i" if "base + (63 - lead cur) < i" "i < hi" for i
    using assms(1) [of "i - base"] z(1) z(3) [of "63 - (i - base)"] assms(2) that by simp
  then have "find P (rev [base..<hi]) = Some (base + (63 - lead cur))"
    by (intro find_rev_Some [where P = P, OF _ b]) simp_all
  with False z(1) show ?thesis by simp
qed

text \<open>The state of a backward loop before the mask number \<open>k - 1\<close>, the entries below \<open>e\<close> being left.\<close>

lemma prev_mask:
  fixes idx :: u32
  assumes "m # ms = rev (take k xs)" "k \<le> length xs" "k \<noteq> 0 \<longrightarrow> unat idx = k - 1"
  shows "k \<noteq> 0" "unat idx < length xs" "m = xs ! unat idx" "ms = rev (take (k - 1) xs)"
    "k - 1 \<noteq> 0 \<longrightarrow> unat (idx - 1) = k - 1 - 1"
proof -
  show k: "k \<noteq> 0" using assms(1) by (cases k) simp_all
  then obtain k' where k': "k = Suc k'" by (cases k) simp_all
  with assms show "unat idx < length xs" by simp
  have "rev (take k xs) = xs ! k' # rev (take k' xs)" using k' assms(2) by (simp add: take_Suc_conv_app_nth)
  with assms k' show "m = xs ! unat idx" "ms = rev (take (k - 1) xs)" by simp_all
  show "k - 1 \<noteq> 0 \<longrightarrow> unat (idx - 1) = k - 1 - 1" using assms(3) k by (auto simp: unat_sub_nowrap)
qed

lemma bit_mask_at: "j < 64 \<Longrightarrow> bit (mask_for used (fb_masks arr ! k)) j \<longleftrightarrow> fb_bit arr (64 * k + j) = used"
  by (simp add: bit_mask_for fb_bit_at)

lemma rev_split:
  assumes "a \<le> (e :: nat)"
  shows "rev [0..<e] = rev [a..<e] @ rev [0..<a]"
  using upt_split [of 0 a e] assms by simp

lemma in_word_ge: "64 * (i div 64) + j \<le> i \<longleftrightarrow> j \<le> i mod (64 :: nat)"
  using div_mult_mod_eq [of i 64] by linarith

lemma find_prev_loop_ok:
  assumes "first = MASK_LEN_TO_IDX start" "ms = rev (take k (fb_masks arr))" "k \<le> length (fb_masks arr)"
    "k \<noteq> 0 \<longrightarrow> unat idx = k - 1" "k \<le> Suc (unat first)" "length (fb_masks arr) < 2 ^ 26"
  shows "find_prev_loop used first (ignore_above (MASK_LEN_TO_MOD start)) idx ms =
    map_option of_nat (find (\<lambda>i. fb_bit arr i = used) (rev [0..<if k = Suc (unat first) then Suc (unat start) else 64 * k]))"
  using assms(2-5)
proof (induction ms arbitrary: k idx)
  case Nil
  then have "k = 0" by auto
  then show ?case by simp
next
  case (Cons m ms)
  note n = prev_mask [OF Cons.prems(1-3)]
  let ?P = "\<lambda>i. fb_bit arr i = used" and ?b = "64 * unat idx"
  define e where "e = (if k = Suc (unat first) then Suc (unat start) else 64 * k)"
  have k: "k = Suc (unat idx)" using n(1) Cons.prems(3) by simp
  have fi: "idx = first \<longleftrightarrow> k = Suc (unat first)" by (simp add: k word_unat_eq_iff)
  define cur where "cur = (if idx = first then mask_for used m AND ignore_above (MASK_LEN_TO_MOD start) else mask_for used m)"
  have s: "unat start < 64 * (unat start div 64) + 64" by (rule in_word)
  have e: "?b \<le> e" "e \<le> ?b + 64" using s by (auto simp: e_def k assms(1))
  have bit: "bit cur j \<longleftrightarrow> ?b + j < e \<and> ?P (?b + j)" if j: "j < 64" for j
  proof -
    have c: "bit (mask_for used m) j \<longleftrightarrow> ?P (?b + j)" unfolding n(3) by (rule bit_mask_at [OF j])
    have g: "bit (ignore_above (MASK_LEN_TO_MOD start)) j \<longleftrightarrow> j \<le> unat start mod 64"
      using bit_upto [of "MASK_LEN_TO_MOD start" j] by simp
    show ?thesis
    proof (cases "idx = first")
      case True
      then have "?b + j < e \<longleftrightarrow> j \<le> unat start mod 64"
        using in_word_ge [of "unat start" j] fi by (simp add: e_def assms(1) less_Suc_eq_le)
      with True c g show ?thesis by (auto simp: cur_def bit_and_iff)
    next
      case False
      with fi c j show ?thesis by (simp add: cur_def e_def k)
    qed
  qed
  have block: "find ?P (rev [?b..<e]) = (if cur = 0 then None else Some (?b + 63 - lead cur))"
    using bit e(2) by (rule find_rev_word)
  have split: "rev [0..<e] = rev [?b..<e] @ rev [0..<?b]" by (rule rev_split [OF e(1)])
  let ?loop = "find_prev_loop used first (ignore_above (MASK_LEN_TO_MOD start))"
  have step: "?loop idx (m # ms) =
      (if cur = 0 then ?loop (idx - 1) ms else Some (MASK_GET_IDX idx (MASK_ALIGN - clzll cur - 1)))"
    by (simp add: Let_def cur_def)
  show ?case
  proof (cases "cur = 0")
    case True
    have "?loop (idx - 1) ms = map_option of_nat (find ?P (rev [0..<?b]))"
      using Cons.IH [OF n(4) _ n(5)] Cons.prems(2,4) k by simp
    with True step block split show ?thesis by (simp add: find_append flip: e_def)
  next
    case False
    note z = lead_ok [OF False]
    have "clzll cur = of_nat (lead cur)" using z(4) by (metis of_nat_unat ucast_id)
    then have "MASK_ALIGN - clzll cur - 1 = of_nat (63 - lead cur)" using z(1) by (simp add: of_nat_diff)
    then have "MASK_GET_IDX idx (MASK_ALIGN - clzll cur - 1) = of_nat (?b + (63 - lead cur))"
      by (simp add: MASK_GET_IDX_nat)
    with False z(1) step block split show ?thesis by (simp add: find_append flip: e_def)
  qed
qed

lemma find_prev_linear:
  assumes "fb_ok arr" "start < fb_len arr"
  shows "find_prev arr start used =
    (case find (\<lambda>i. fb_bit arr i = used) (rev [0..<Suc (unat start)]) of
       None \<Rightarrow> Inl (if used then ENOENT else ENOSPC) | Some i \<Rightarrow> Inr (of_nat i))"
proof -
  have "unat start < unat (fb_len arr)" using assms(2) by (simp add: word_less_nat_alt)
  then have "Suc (unat start div 64) \<le> length (fb_masks arr)" using masks_bound(3) [OF assms(1)] by simp
  moreover have "length (fb_masks arr) < 2 ^ 26" using assms(1) by (auto simp: fb_ok_def)
  ultimately show ?thesis
    using find_prev_loop_ok [OF refl refl, of "Suc (unat start div 64)" arr "MASK_LEN_TO_IDX start" start used]
    by (simp add: find_prev_def masks_down_def Let_def split: option.splits)
qed

lemma run_rev_word:
  assumes "\<And>j. j < 64 \<Longrightarrow> bit cur (63 - j) \<longleftrightarrow> base + j < e \<and> P (e - Suc j)" and "e \<le> base + 64"
  shows "length (takeWhile P (rev [base..<e])) = (if NOT cur = 0 then 64 else lead (NOT cur))" "NOT cur = 0 \<Longrightarrow> e = base + 64"
proof -
  have b: "bit cur (63 - j) \<longleftrightarrow> j < length (rev [base..<e]) \<and> P (rev [base..<e] ! j)" if "j < 64" for j
    using assms(1) [OF that] by (auto simp: nth_rev_upt)
  have l: "length (rev [base..<e]) \<le> 64" using assms(2) by simp
  note r = run_bits [where bt = "\<lambda>j. bit cur (63 - j)" and xs = "rev [base..<e]", OF b l]
  show "e = base + 64" if "NOT cur = 0"
  proof -
    have "e - base = 64" using r(1) that by (simp add: all_ones)
    then show ?thesis by arith
  qed
  show "length (takeWhile P (rev [base..<e])) = (if NOT cur = 0 then 64 else lead (NOT cur))"
  proof (cases "NOT cur = 0")
    case False
    note z = lead_ok [OF False]
    have "length (takeWhile P (rev [base..<e])) = lead (NOT cur)"
      by (rule r(2)) (use z(1) z(2) z(3) in \<open>auto simp: bit_simps\<close>)
    with False show ?thesis by simp
  qed (use r(1) in \<open>simp add: all_ones\<close>)
qed

lemma find_rev_contig_loop_ok:
  assumes "first = MASK_LEN_TO_IDX start" "ms = rev (take k (fb_masks arr))" "k \<le> length (fb_masks arr)"
    "k \<noteq> 0 \<longrightarrow> unat idx = k - 1" "k \<le> Suc (unat first)" "unat result + 64 * k < 2 ^ 32"
  shows "unat (find_rev_contig_loop used first (MASK_LEN_TO_MOD start) idx result ms) = unat result +
    length (takeWhile (\<lambda>i. fb_bit arr i = used) (rev [0..<if k = Suc (unat first) then Suc (unat start) else 64 * k]))"
  using assms(2-6)
proof (induction ms arbitrary: k idx result)
  case Nil
  then have "k = 0" by auto
  then show ?case by simp
next
  case (Cons m ms)
  note n = prev_mask [OF Cons.prems(1-3)]
  let ?P = "\<lambda>i. fb_bit arr i = used" and ?b = "64 * unat idx"
  define e where "e = (if k = Suc (unat first) then Suc (unat start) else 64 * k)"
  have k: "k = Suc (unat idx)" using n(1) Cons.prems(3) by simp
  have fi: "idx = first \<longleftrightarrow> k = Suc (unat first)" by (simp add: k word_unat_eq_iff)
  define el where "el = 64 - MASK_LEN_TO_MOD start - 1"
  have uel: "unat el = 63 - unat start mod 64"
  proof -
    have u: "unat (64 - MASK_LEN_TO_MOD start) = 64 - unat start mod 64" by (simp add: unat_sub_nowrap)
    have "0 < 64 - unat start mod 64" by simp
    then show ?thesis unfolding el_def by (subst unat_sub_nowrap) (simp_all add: u del: zero_less_diff)
  qed
  define cur where "cur = (if idx = first then push_bit (unat el) (mask_for used m) else mask_for used m)"
  define need where "need = (if idx = first then 64 - el else 64 :: u32)"
  have s: "unat start < 64 * (unat start div 64) + 64" by (rule in_word)
  have e: "?b < e" "e \<le> ?b + 64" using s by (auto simp: e_def k assms(1))
  have em: "idx = first \<Longrightarrow> e = ?b + unat start mod 64 + 1"
    using div_mult_mod_eq [of "unat start" 64] fi by (simp add: e_def assms(1))
  have ee: "e - ?b = (if idx = first then Suc (unat start mod 64) else 64)"
  proof (cases "idx = first")
    case True
    then show ?thesis using em [OF True] by simp
  next
    case False
    then have "e = 64 * k" using fi by (simp add: e_def)
    with False k show ?thesis by simp
  qed
  have need: "unat need = e - ?b"
    using mod_less_divisor [of 64 "unat start"] by (simp add: need_def ee unat_sub_nowrap uel)
  have bit: "bit cur (63 - j) \<longleftrightarrow> ?b + j < e \<and> ?P (e - Suc j)" if j: "j < 64" for j
  proof (cases "?b + j < e")
    case True
    then have i: "e - Suc j - ?b < 64" "?b + (e - Suc j - ?b) = e - Suc j" using e by auto
    have "bit cur (63 - j) \<longleftrightarrow> bit (mask_for used m) (e - Suc j - ?b)"
    proof (cases "idx = first")
      case f: True
      have "j \<le> unat start mod 64" using True em [OF f] by simp
      then have "unat el \<le> 63 - j" "63 - j - unat el = e - Suc j - ?b"
        using mod_less_divisor [of 64 "unat start"] em [OF f] j by (simp_all add: uel)
      moreover have "63 - j < 64" by arith
      ultimately show ?thesis using f j by (simp add: cur_def bit_push_bit_iff)
    next
      case False
      with ee have "63 - j = e - Suc j - ?b" by simp
      with False show ?thesis by (simp add: cur_def)
    qed
    also have "\<dots> \<longleftrightarrow> ?P (e - Suc j)" unfolding n(3) bit_mask_at [OF i(1)] i(2) by (rule refl)
    finally show ?thesis using True by simp
  next
    case False
    have "\<not> bit cur (63 - j)"
    proof (cases "idx = first")
      case f: True
      with False em have "63 - j < unat el" using mod_less_divisor [of 64 "unat start"] j by (simp add: uel)
      with f show ?thesis by (simp add: cur_def bit_push_bit_iff)
    next
      case nf: False
      with False ee j show ?thesis by simp
    qed
    with False show ?thesis by simp
  qed
  note block = run_rev_word [OF bit e(2)]
  have split: "rev [0..<e] = rev [?b..<e] @ rev [0..<?b]" by (rule rev_split [OF less_imp_le [OF e(1)]])
  let ?loop = "find_rev_contig_loop used first (MASK_LEN_TO_MOD start)"
  have step: "?loop idx result (m # ms) =
      (if NOT cur = 0 then ?loop (idx - 1) (result + need) ms
       else if clzll (NOT cur) < need then result + clzll (NOT cur) else ?loop (idx - 1) (result + need) ms)"
    by (cases "idx = first")
      (simp_all only: find_rev_contig_loop.simps Let_def cur_def need_def el_def MASK_ALIGN_64 if_True if_False prod.case simp_thms)
  have rn: "unat (result + need) = unat result + unat need"
    using Cons.prems(5) need e k by (subst unat_add_nowrap) simp_all
  have nx: "unat (?loop (idx - 1) (result + need) ms) = unat result + unat need + length (takeWhile ?P (rev [0..<?b]))"
    using Cons.IH [OF n(4) _ n(5), of "result + need"] Cons.prems(2,4,5) k need e(2) by (simp add: rn)
  have more: "length (takeWhile ?P (rev [0..<e])) = unat need + length (takeWhile ?P (rev [0..<?b]))"
    if "length (takeWhile ?P (rev [?b..<e])) = unat need"
    using that need by (simp add: split run_append)
  show ?case
  proof (cases "NOT cur = 0")
    case True
    with block have "e = ?b + 64" "length (takeWhile ?P (rev [?b..<e])) = 64" by simp_all
    with True nx step more need show ?thesis by (simp flip: e_def)
  next
    case False
    note z = lead_ok [OF False]
    have tw: "length (takeWhile ?P (rev [?b..<e])) = lead (NOT cur)" using block(1) False by simp
    then have zle: "lead (NOT cur) \<le> e - ?b" using length_takeWhile_le [of ?P "rev [?b..<e]"] by simp
    show ?thesis
    proof (cases "clzll (NOT cur) < need")
      case True
      then have lt: "lead (NOT cur) < e - ?b" using z(4) need by (simp add: word_less_nat_alt)
      then have "length (takeWhile ?P (rev [0..<e])) = lead (NOT cur)" by (simp add: split run_append tw)
      moreover have "unat (result + clzll (NOT cur)) = unat result + lead (NOT cur)"
        using z(1,4) Cons.prems(5) k by (subst unat_add_nowrap) simp_all
      ultimately show ?thesis using step False True by (simp flip: e_def)
    next
      case ge: False
      then have "lead (NOT cur) = unat need" using z(4) need zle by (simp add: word_less_nat_alt)
      with step False ge nx more tw show ?thesis by (simp flip: e_def)
    qed
  qed
qed

lemma find_rev_contig_linear:
  assumes "fb_ok arr" "start < fb_len arr"
  shows "unat (find_rev_contig arr start used) = length (takeWhile (\<lambda>i. fb_bit arr i = used) (rev [0..<Suc (unat start)]))"
proof -
  have "unat start < unat (fb_len arr)" using assms(2) by (simp add: word_less_nat_alt)
  then have k: "Suc (unat start div 64) \<le> length (fb_masks arr)" using masks_bound(3) [OF assms(1)] by simp
  moreover have "length (fb_masks arr) < 2 ^ 26" using assms(1) by (auto simp: fb_ok_def)
  ultimately show ?thesis
    using find_rev_contig_loop_ok [OF refl refl, of "Suc (unat start div 64)" arr "MASK_LEN_TO_IDX start" start 0 used]
    by (simp add: find_rev_contig_def masks_down_def Let_def)
qed

end
