(* ===== verification/Fbarray_Ops.thy ===== *)
theory Fbarray_Ops
  imports Fbarray_Search
begin

text \<open>
  The interface of \<open>Fbarray\<close> over the set \<open>fb_used\<close> of used entries: an array that has been
  made is empty, marking an entry changes exactly this entry and keeps the count exact, and
  the searches, with their shortcuts for empty and full arrays, are linear searches.
\<close>

section \<open>Counts\<close>

lemma fb_used_finite [simp]: "finite (fb_used arr)"
  by (simp add: fb_used_def)

lemma fb_used_less: "i \<in> fb_used arr \<Longrightarrow> i < unat (fb_len arr)"
  by (simp add: fb_used_def)

lemma count_empty:
  assumes "fb_ok arr" "fb_count arr = 0" "i < unat (fb_len arr)"
  shows "\<not> fb_bit arr i"
proof -
  have "fb_used arr = {}" using assms(1,2) by (simp add: fb_ok_def)
  with assms(3) show ?thesis by (auto simp: fb_used_def)
qed

lemma count_full:
  assumes "fb_ok arr" "fb_count arr = fb_len arr" "i < unat (fb_len arr)"
  shows "fb_bit arr i"
proof -
  have "fb_used arr \<subseteq> {..<unat (fb_len arr)}" by (auto simp: fb_used_def)
  moreover have "card (fb_used arr) = card {..<unat (fb_len arr)}" using assms(1,2) by (simp add: fb_ok_def)
  ultimately have "fb_used arr = {..<unat (fb_len arr)}" by (intro card_subset_eq) simp_all
  with assms(3) show ?thesis by (auto simp: fb_used_def)
qed

section \<open>Searches\<close>

text \<open>The entries a search from \<open>start\<close> looks at, in its order.\<close>

definition fb_span :: "rte_fbarray \<Rightarrow> u32 \<Rightarrow> bool \<Rightarrow> nat list" where
  "fb_span arr start forward = (if forward then [unat start..<unat (fb_len arr)] else rev [0..<Suc (unat start)])"

lemma span_less: "start < fb_len arr \<Longrightarrow> i \<in> set (fb_span arr start forward) \<Longrightarrow> i < unat (fb_len arr)"
  by (auto simp: fb_span_def word_less_nat_alt split: if_splits)

lemma span_hd: "start < fb_len arr \<Longrightarrow> \<exists>xs. fb_span arr start forward = unat start # xs"
  by (simp add: fb_span_def word_less_nat_alt upt_conv_Cons)

lemma length_span: "start < fb_len arr \<Longrightarrow>
    length (fb_span arr start forward) = (if forward then unat (fb_len arr) - unat start else Suc (unat start))"
  by (simp add: fb_span_def)

text \<open>What the shortcuts rest on: in an empty or full array all entries are alike.\<close>

lemma alike:
  assumes "fb_ok arr" "start < fb_len arr" "\<And>i. i < unat (fb_len arr) \<Longrightarrow> fb_bit arr i = b"
  shows "find (\<lambda>i. fb_bit arr i = used) (fb_span arr start forward) = (if used = b then Some (unat start) else None)"
    "takeWhile (\<lambda>i. fb_bit arr i = used) (fb_span arr start forward) = (if used = b then fb_span arr start forward else [])"
proof -
  have s: "i \<in> set (fb_span arr start forward) \<Longrightarrow> fb_bit arr i = b" for i using span_less [OF assms(2)] assms(3) by blast
  obtain xs where xs: "fb_span arr start forward = unat start # xs" using span_hd [OF assms(2)] by blast
  show "find (\<lambda>i. fb_bit arr i = used) (fb_span arr start forward) = (if used = b then Some (unat start) else None)"
  proof (cases "used = b")
    case True
    with s show ?thesis by (simp add: xs)
  next
    case False
    with s have "find (\<lambda>i. fb_bit arr i = used) (fb_span arr start forward) = None" by (auto simp: find_None_iff)
    with False show ?thesis by simp
  qed
  show "takeWhile (\<lambda>i. fb_bit arr i = used) (fb_span arr start forward) = (if used = b then fb_span arr start forward else [])"
  proof (cases "used = b")
    case True
    with s show ?thesis by (simp add: takeWhile_eq_all_conv)
  next
    case False
    with s xs show ?thesis by simp
  qed
qed

lemma fbarray_find_linear:
  assumes "fb_ok arr" "start < fb_len arr"
  shows "fbarray_find arr start forward used =
    (case find (\<lambda>i. fb_bit arr i = used) (fb_span arr start forward) of
       None \<Rightarrow> Inl (if used then ENOENT else ENOSPC) | Some i \<Rightarrow> Inr (of_nat i))"
proof -
  have l: "fb_len arr \<noteq> 0" using assms(1) by (simp add: fb_ok_def)
  have ns: "\<not> fb_len arr \<le> start" using assms(2) by simp
  consider (empty) "fb_count arr = 0" | (full) "fb_count arr = fb_len arr" "fb_count arr \<noteq> 0"
    | (mixed) "fb_count arr \<noteq> 0" "fb_count arr \<noteq> fb_len arr" by blast
  then show ?thesis
  proof cases
    case empty
    then have "find (\<lambda>i. fb_bit arr i = used) (fb_span arr start forward) = (if used = False then Some (unat start) else None)"
      using count_empty [OF assms(1) empty] by (intro alike(1) [OF assms]) simp
    with empty l ns show ?thesis by (auto simp: fbarray_find_def)
  next
    case full
    then have "find (\<lambda>i. fb_bit arr i = used) (fb_span arr start forward) = (if used = True then Some (unat start) else None)"
      using count_full [OF assms(1) full(1)] by (intro alike(1) [OF assms]) simp
    with full l ns show ?thesis by (auto simp: fbarray_find_def)
  next
    case mixed
    with ns have "fbarray_find arr start forward used = (if forward then find_next arr start used else find_prev arr start used)"
      by (auto simp: fbarray_find_def)
    then show ?thesis using find_next_linear [OF assms] find_prev_linear [OF assms] by (simp add: fb_span_def)
  qed
qed

lemma fbarray_find_contig_linear:
  assumes "fb_ok arr" "start < fb_len arr"
  shows "\<exists>n. fbarray_find_contig arr start forward used = Inr n \<and>
    unat n = length (takeWhile (\<lambda>i. fb_bit arr i = used) (fb_span arr start forward))"
proof -
  have l: "fb_len arr \<noteq> 0" using assms(1) by (simp add: fb_ok_def)
  have ns: "\<not> fb_len arr \<le> start" using assms(2) by simp
  have lt: "unat start < unat (fb_len arr)" using assms(2) by (simp add: word_less_nat_alt)
  have u: "unat (fb_len arr - start) = unat (fb_len arr) - unat start" "unat (start + 1) = Suc (unat start)"
    using lt unat_suc_word [OF assms(2)] by (simp_all add: unat_sub_nowrap)
  consider (empty) "fb_count arr = 0" | (full) "fb_count arr = fb_len arr" "fb_count arr \<noteq> 0"
    | (mixed) "fb_count arr \<noteq> 0" "fb_count arr \<noteq> fb_len arr" by blast
  then show ?thesis
  proof cases
    case empty
    have "takeWhile (\<lambda>i. fb_bit arr i = used) (fb_span arr start forward) = (if used = False then fb_span arr start forward else [])"
      using count_empty [OF assms(1) empty] by (intro alike(2) [OF assms]) simp
    with empty l ns u show ?thesis by (auto simp: fbarray_find_contig_def length_span [OF assms(2)])
  next
    case full
    have "takeWhile (\<lambda>i. fb_bit arr i = used) (fb_span arr start forward) = (if used = True then fb_span arr start forward else [])"
      using count_full [OF assms(1) full(1)] by (intro alike(2) [OF assms]) simp
    with full l ns u show ?thesis by (auto simp: fbarray_find_contig_def length_span [OF assms(2)])
  next
    case mixed
    with ns have "fbarray_find_contig arr start forward used =
        Inr (if forward then find_contig arr start used else find_rev_contig arr start used)"
      by (auto simp: fbarray_find_contig_def)
    then show ?thesis using find_contig_linear [OF assms] find_rev_contig_linear [OF assms] by (simp add: fb_span_def)
  qed
qed

section \<open>Making and marking\<close>

lemma fbarray_new_ok:
  assumes "fully_validate name elt_sz len = None" "arr = fbarray_new data nm len elt_sz"
  shows "fb_ok arr" "fb_used arr = {}" "fb_len arr = len" "fb_elt_sz arr = elt_sz" "fb_name arr = nm"
proof -
  have len: "len \<noteq> 0" "len \<le> 0x7fffffff"
    using assms(1) by (auto simp: fully_validate_def not_less split: option.splits if_splits)
  note a = assms(2) [unfolded fbarray_new_def]
  have ul: "unat len < 2 ^ 31" using len(2) by (simp add: word_le_nat_alt)
  then have "unat (RTE_ALIGN_CEIL len MASK_ALIGN) = (unat len + 63) div 64 * 64" using align_ceil_pow2 [of 6 len] by simp
  then have n: "length (fb_masks arr) = (unat len + 63) div 64" by (simp add: a)
  have bits: "\<not> fb_bit arr i" if "i div 64 < length (fb_masks arr)" for i
    using that by (simp add: fb_bit_def a)
  have "i div 64 < length (fb_masks arr)" if "i < unat len" for i using that n by simp
  with bits have "\<not> fb_bit arr i" if "i < unat len" for i using that by blast
  then show u: "fb_used arr = {}" by (auto simp: fb_used_def a)
  show "fb_len arr = len" "fb_elt_sz arr = elt_sz" "fb_name arr = nm" by (simp_all add: a)
  show "fb_ok arr" using len(1) ul n bits u by (simp add: fb_ok_def) (simp add: a)
qed

lemma bit_of_idx: "bit (2 ^ (i mod 64) :: u64) j \<longleftrightarrow> j = i mod 64"
proof -
  have "i mod 64 < 64" by simp
  then show ?thesis by (auto simp: bit_simps)
qed

lemma and_bit: "(w :: u64) AND 2 ^ (i mod 64) \<noteq> 0 \<longleftrightarrow> bit w (i mod 64)" "(w :: u64) AND 2 ^ (i mod 64) = 0 \<longleftrightarrow> \<not> bit w (i mod 64)"
proof -
  have "w AND 2 ^ (i mod 64) \<noteq> 0 \<longleftrightarrow> (\<exists>j<64. bit w j \<and> j = i mod 64)"
    unfolding u64_bit bit_and_iff bit_of_idx by (rule refl)
  then show "w AND 2 ^ (i mod 64) \<noteq> 0 \<longleftrightarrow> bit w (i mod 64)" "w AND 2 ^ (i mod 64) = 0 \<longleftrightarrow> \<not> bit w (i mod 64)" by auto
qed

lemma is_used_ok:
  assumes "idx < fb_len arr"
  shows "rte_fbarray_is_used arr idx = Inr (fb_bit arr (unat idx))"
  using assms by (simp add: rte_fbarray_is_used_def and_bit fb_bit_def)

text \<open>Changing one bit of one mask.\<close>

lemma fb_bit_update:
  assumes "k < length (fb_masks arr)" "arr' = arr\<lparr>fb_masks := (fb_masks arr)[k := w], fb_count := c\<rparr>"
  shows "fb_bit arr' i = (if i div 64 = k then bit w (i mod 64) else fb_bit arr i)"
  using assms by (auto simp: fb_bit_def)

lemma set_used_ok:
  assumes ok: "fb_ok arr" and i: "idx < fb_len arr"
  shows "\<exists>arr'. set_used arr idx used = Inr arr' \<and> fb_ok arr' \<and>
    fb_used arr' = (if used then insert (unat idx) (fb_used arr) else fb_used arr - {unat idx}) \<and>
    fb_len arr' = fb_len arr \<and> fb_elt_sz arr' = fb_elt_sz arr \<and> fb_data arr' = fb_data arr \<and> fb_name arr' = fb_name arr"
proof -
  let ?k = "unat idx div 64" and ?j = "unat idx mod 64" and ?b = "2 ^ (unat idx mod 64) :: u64"
  have lt: "unat idx < unat (fb_len arr)" using i by (simp add: word_less_nat_alt)
  have k: "?k < length (fb_masks arr)" using ok lt by (auto simp: fb_ok_def)
  have ni: "\<not> fb_len arr \<le> idx" using i by simp
  have mem: "unat idx \<in> fb_used arr \<longleftrightarrow> fb_bit arr (unat idx)" using lt by (simp add: fb_used_def)
  have same: "n div 64 = ?k \<and> n mod 64 = ?j \<longleftrightarrow> n = unat idx" for n by (metis div_mult_mod_eq)
  show ?thesis
  proof (cases "used = fb_bit arr (unat idx)")
    case True
    then have "set_used arr idx used = Inr arr" using ni by (simp add: set_used_def Let_def and_bit fb_bit_def)
    with ok mem True show ?thesis by auto
  next
    case False
    define w where "w = (if used then fb_masks arr ! ?k OR ?b else fb_masks arr ! ?k AND NOT ?b)"
    define c where "c = (if used then fb_count arr + 1 else fb_count arr - 1)"
    define arr' where "arr' = arr\<lparr>fb_masks := (fb_masks arr)[?k := w], fb_count := c\<rparr>"
    have run: "set_used arr idx used = Inr arr'"
      using ni False by (auto simp: set_used_def Let_def and_bit fb_bit_def arr'_def w_def c_def)
    have bits: "fb_bit arr' n = (if n = unat idx then used else fb_bit arr n)" for n
    proof -
      have "bit w (n mod 64) = (if n mod 64 = ?j then used else bit (fb_masks arr ! ?k) (n mod 64))"
        using False by (auto simp: w_def bit_or_iff bit_and_iff bit_not_iff bit_of_idx)
      then show ?thesis using fb_bit_update [OF k arr'_def, of n] same [of n] by (auto simp: fb_bit_def)
    qed
    have len: "fb_len arr' = fb_len arr" by (simp add: arr'_def)
    have used': "fb_used arr' = (if used then insert (unat idx) (fb_used arr) else fb_used arr - {unat idx})"
      using lt bits by (auto simp: fb_used_def len)
    have cnt: "unat (fb_count arr) = card (fb_used arr)" using ok by (simp add: fb_ok_def)
    have "unat c = card (fb_used arr')"
    proof (cases used)
      case True
      with False mem have "unat idx \<notin> fb_used arr" by simp
      then have cc: "card (fb_used arr') = Suc (card (fb_used arr))" using True used' by simp
      moreover have "card (fb_used arr') \<le> unat (fb_len arr)"
        using card_mono [of "{..<unat (fb_len arr)}" "fb_used arr'"] fb_used_less [of _ arr'] len by auto
      ultimately have "unat (fb_count arr) + 1 < 2 ^ 32" using cnt ok by (simp add: fb_ok_def)
      then show ?thesis using True cc cnt by (simp add: c_def unat_add_nowrap)
    next
      case nu: False
      with False mem have m: "unat idx \<in> fb_used arr" by simp
      then have cc: "card (fb_used arr') = card (fb_used arr) - 1" "0 < card (fb_used arr)"
        using nu used' by (auto simp: card_gt_0_iff)
      then show ?thesis using nu cnt by (simp add: c_def unat_sub_nowrap)
    qed
    moreover have "\<not> fb_bit arr' n" if "unat (fb_len arr) \<le> n" "n div 64 < length (fb_masks arr)" for n
      using that lt ok bits [of n] by (auto simp: fb_ok_def)
    ultimately have "fb_ok arr'" using ok unfolding fb_ok_def len by (simp add: arr'_def)
    with run used' show ?thesis by (simp add: arr'_def)
  qed
qed

section \<open>Addresses\<close>

lemma unat_u32_u64: "unat (ucast (x :: u32) :: u64) = unat x"
  by (simp add: unsigned_ucast_eq take_bit_nat_eq_self_iff order_less_le_trans [OF unsigned_less])

lemma find_idx_get:
  assumes "fb_ok arr" "idx < fb_len arr" "fb_elt_sz arr \<noteq> 0" "fb_data arr \<noteq> NULL"
    and "unat (fb_elt_sz arr) * unat (fb_len arr) < 2 ^ 32"
    and "unat (fb_data arr) + unat (fb_elt_sz arr) * unat (fb_len arr) < 2 ^ 64"
    and "rte_fbarray_get arr idx = Inr a"
  shows "rte_fbarray_find_idx arr a = Inr (uint idx)" "a \<noteq> NULL" "unat a = unat (fb_data arr) + unat idx * unat (fb_elt_sz arr)"
proof -
  have lt: "unat idx < unat (fb_len arr)" using assms(2) by (simp add: word_less_nat_alt)
  have mono: "unat idx * unat (fb_elt_sz arr) < unat (fb_elt_sz arr) * unat (fb_len arr)"
    using lt assms(3) by (simp add: mult.commute unat_gt_0)
  have off: "unat (idx * fb_elt_sz arr) = unat idx * unat (fb_elt_sz arr)"
    by (rule unat_mult_lem [THEN iffD1]) (use order.strict_trans [OF mono assms(5)] in simp)
  have whole: "unat (fb_elt_sz arr * fb_len arr) = unat (fb_elt_sz arr) * unat (fb_len arr)"
    by (rule unat_mult_lem [THEN iffD1]) (use assms(5) in simp)
  have a: "a = fb_data arr + ucast (idx * fb_elt_sz arr)" using assms(2,7) by (auto simp: rte_fbarray_get_def split: if_splits)
  let ?stop = "fb_data arr + ucast (fb_elt_sz arr * fb_len arr)"
  have ua: "unat a = unat (fb_data arr) + unat idx * unat (fb_elt_sz arr)"
  proof -
    have "unat (fb_data arr) + unat idx * unat (fb_elt_sz arr) < 2 ^ 64" using mono assms(6) by linarith
    then have "unat (fb_data arr) + unat (ucast (idx * fb_elt_sz arr) :: u64) < 2 ^ LENGTH(64)" by (simp add: unat_u32_u64 off)
    from unat_add_nowrap [OF this] show ?thesis by (simp only: a unat_u32_u64 off)
  qed
  have us: "unat ?stop = unat (fb_data arr) + unat (fb_elt_sz arr) * unat (fb_len arr)"
    using assms(6) by (subst unat_add_nowrap) (simp_all add: unat_u32_u64 whole)
  have "unat (a - fb_data arr) = unat idx * unat (fb_elt_sz arr)" using ua by (subst unat_sub_nowrap) simp_all
  then have "unat ((a - fb_data arr) div ucast (fb_elt_sz arr)) = unat idx"
    using assms(3) by (simp add: unat_div_distrib unat_u32_u64 unat_gt_0)
  then have q: "(ucast ((a - fb_data arr) div ucast (fb_elt_sz arr)) :: u32) = idx"
    by (simp only: word_unat_eq_iff unsigned_ucast_eq) (simp add: take_bit_nat_eq_self_iff less_le_trans [OF unsigned_less])
  have "0 < unat (fb_data arr)" using assms(4) by (simp add: unat_gt_0)
  then have "a \<noteq> NULL" using ua by auto
  moreover have "\<not> a < fb_data arr" "\<not> ?stop \<le> a" using ua us mono by (simp_all add: word_less_nat_alt word_le_nat_alt)
  moreover have "sint idx = uint idx" using assms(1) lt by (simp add: fb_ok_def sint_small)
  ultimately show "rte_fbarray_find_idx arr a = Inr (uint idx)" "a \<noteq> NULL" "unat a = unat (fb_data arr) + unat idx * unat (fb_elt_sz arr)"
    using ua by (simp_all add: rte_fbarray_find_idx_def q)
qed

end
