(* ===== verification/Fbarray_Biggest.thy ===== *)
theory Fbarray_Biggest
  imports Fbarray_Ops
begin

text \<open>
  The search for the longest run of used or free entries (\<open>fbarray_find_biggest\<close>), forwards or
  backwards: it ends, and what it returns begins a run that no other run in the range exceeds.
\<close>

section \<open>The longest run of a list\<close>

definition run_at :: "('a \<Rightarrow> bool) \<Rightarrow> 'a list \<Rightarrow> nat \<Rightarrow> nat" where
  "run_at P xs k = length (takeWhile P (drop k xs))"

lemma run_at_ok:
  assumes "k \<le> length xs"
  shows "k + run_at P xs k \<le> length xs" "j < run_at P xs k \<Longrightarrow> P (xs ! (k + j))"
    "k + run_at P xs k < length xs \<Longrightarrow> \<not> P (xs ! (k + run_at P xs k))"
proof -
  have "run_at P xs k \<le> length (drop k xs)" unfolding run_at_def by (rule length_takeWhile_le)
  then show le: "k + run_at P xs k \<le> length xs" using assms by simp
  show "P (xs ! (k + j))" if "j < run_at P xs k"
  proof -
    have "takeWhile P (drop k xs) ! j = drop k xs ! j" using that by (simp add: run_at_def takeWhile_nth)
    moreover have "takeWhile P (drop k xs) ! j \<in> set (takeWhile P (drop k xs))"
      using that by (intro nth_mem) (simp add: run_at_def)
    then have "P (takeWhile P (drop k xs) ! j)" by (rule conjunct2 [OF set_takeWhileD])
    ultimately show ?thesis using assms by simp
  qed
  show "\<not> P (xs ! (k + run_at P xs k))" if "k + run_at P xs k < length xs"
    using nth_length_takeWhile [of P "drop k xs"] that assms by (simp add: run_at_def)
qed

lemma run_at_ge:
  assumes "\<And>j. j < m \<Longrightarrow> P (xs ! (k + j))" "k + m \<le> length xs"
  shows "m \<le> run_at P xs k"
proof (rule ccontr)
  assume "\<not> m \<le> run_at P xs k"
  then have lt: "run_at P xs k < m" by simp
  then have "k + run_at P xs k < length xs" using assms(2) by simp
  then have "\<not> P (xs ! (k + run_at P xs k))" using assms(2) by (intro run_at_ok(3)) simp_all
  with assms(1) [OF lt] show False by blast
qed

lemma run_at_0: "k < length xs \<Longrightarrow> \<not> P (xs ! k) \<Longrightarrow> run_at P xs k = 0"
  using run_at_ok(2) [of k xs 0 P] by fastforce

text \<open>Inside a run only shorter ones begin.\<close>

lemma run_at_inside:
  assumes "k \<le> length xs" "k \<le> j" "j < k + run_at P xs k"
  shows "run_at P xs j \<le> run_at P xs k"
proof (rule ccontr)
  assume "\<not> run_at P xs j \<le> run_at P xs k"
  then have lt: "run_at P xs k < run_at P xs j" by simp
  have j: "j \<le> length xs" using assms run_at_ok(1) [OF assms(1), of P] by simp
  have "k + run_at P xs k < length xs" using lt run_at_ok(1) [OF j, of P] assms by simp
  then have "\<not> P (xs ! (k + run_at P xs k))" by (rule run_at_ok(3) [OF assms(1)])
  moreover have "k + run_at P xs k - j < run_at P xs j" using lt assms by simp
  from run_at_ok(2) [OF j this] have "P (xs ! (k + run_at P xs k))" using assms by simp
  ultimately show False by simp
qed

text \<open>The first longest run that begins among the first \<open>c\<close> places.\<close>

definition best :: "('a \<Rightarrow> bool) \<Rightarrow> 'a list \<Rightarrow> nat \<Rightarrow> nat option \<Rightarrow> bool" where
  "best P xs c r =
     (case r of
        None \<Rightarrow> \<forall>j<c. run_at P xs j = 0
      | Some k \<Rightarrow> k < c \<and> 0 < run_at P xs k \<and> (\<forall>j<c. run_at P xs j \<le> run_at P xs k))"

definition better :: "('a \<Rightarrow> bool) \<Rightarrow> 'a list \<Rightarrow> nat option \<Rightarrow> nat \<Rightarrow> nat option" where
  "better P xs r p =
     (case r of None \<Rightarrow> Some p | Some k \<Rightarrow> if run_at P xs k < run_at P xs p then Some p else Some k)"

lemma best_skip:
  assumes "best P xs c r" "\<forall>j. c \<le> j \<and> j < d \<longrightarrow> \<not> P (xs ! j)" "d \<le> length xs" "c \<le> d"
  shows "best P xs d r"
proof -
  have "run_at P xs j = 0" if "c \<le> j" "j < d" for j using assms(2,3) that by (intro run_at_0) auto
  then have new: "j < d \<Longrightarrow> j < c \<or> run_at P xs j = 0" for j by (cases "j < c") simp_all
  show ?thesis
  proof (cases r)
    case None
    with assms(1) new show ?thesis by (fastforce simp: best_def)
  next
    case (Some k)
    with assms(1) have k: "k < c" "0 < run_at P xs k" "\<forall>j<c. run_at P xs j \<le> run_at P xs k" by (simp_all add: best_def)
    have "run_at P xs j \<le> run_at P xs k" if "j < d" for j using new [OF that] k(3) by auto
    with Some k assms(4) show ?thesis by (simp add: best_def)
  qed
qed

lemma best_extend:
  assumes "best P xs p r" "p < length xs" "P (xs ! p)"
  shows "best P xs (p + run_at P xs p) (better P xs r p)" "0 < run_at P xs p"
proof -
  show pos: "0 < run_at P xs p" using run_at_ge [of 1 P xs p] assms(2,3) by simp
  have ins: "j < p + run_at P xs p \<Longrightarrow> j < p \<or> run_at P xs j \<le> run_at P xs p" for j
    using run_at_inside [of p xs j P] assms(2) by (cases "j < p") simp_all
  show "best P xs (p + run_at P xs p) (better P xs r p)"
  proof (cases r)
    case None
    with assms(1) pos ins show ?thesis by (force simp: best_def better_def)
  next
    case (Some k)
    with assms(1) have k: "k < p" "0 < run_at P xs k" "\<forall>j<p. run_at P xs j \<le> run_at P xs k" by (simp_all add: best_def)
    show ?thesis
    proof (cases "run_at P xs k < run_at P xs p")
      case True
      have "run_at P xs j \<le> run_at P xs p" if "j < p + run_at P xs p" for j
        using ins [OF that] k(3) True by (auto intro: le_trans less_imp_le)
      with Some True pos show ?thesis by (simp add: best_def better_def)
    next
      case False
      have "run_at P xs j \<le> run_at P xs k" if "j < p + run_at P xs p" for j
        using ins [OF that] k(3) False by (auto intro: le_trans)
      with Some False k(1,2) show ?thesis by (simp add: best_def better_def)
    qed
  qed
qed

lemma find_drop:
  assumes "find P (drop c xs) = Some v"
  obtains p where "c \<le> p" "p < length xs" "v = xs ! p" "P v" "\<forall>j. c \<le> j \<and> j < p \<longrightarrow> \<not> P (xs ! j)"
proof -
  from assms obtain i where i: "i < length (drop c xs)" "v = drop c xs ! i" "P v" "\<forall>j<i. \<not> P (drop c xs ! j)"
    by (auto simp: find_Some_iff)
  have "\<not> P (xs ! j)" if "c \<le> j" "j < c + i" for j
    using i(1) i(4) [rule_format, of "j - c"] that by simp
  with i that [of "c + i"] show ?thesis by auto
qed

section \<open>The loop\<close>

definition run_place :: "rte_fbarray \<Rightarrow> u32 \<Rightarrow> bool \<Rightarrow> nat \<Rightarrow> int" where
  "run_place arr start rv k = (if rv then int (unat start) - int k else int (unat start) + int k)"

lemma run_place_neg: "run_place arr start rv k < 0 \<longleftrightarrow> rv \<and> unat start < k"
  unfolding run_place_def by (cases rv; simp only: if_True if_False simp_thms; linarith)

text \<open>Where a run that is met at the place \<open>k\<close> begins.\<close>

definition run_start :: "(nat \<Rightarrow> bool) \<Rightarrow> rte_fbarray \<Rightarrow> u32 \<Rightarrow> bool \<Rightarrow> nat \<Rightarrow> int" where
  "run_start P arr start rv k =
     (if rv then run_place arr start rv k - int (run_at P (fb_span arr start False) k) + 1 else run_place arr start rv k)"

lemma span_run_place:
  assumes "start < fb_len arr" "fb_ok arr" "k < length (fb_span arr start (\<not> rv))"
  shows "run_place arr start rv k = int (fb_span arr start (\<not> rv) ! k)" "(word_of_int (run_place arr start rv k) :: u32) < fb_len arr"
    "fb_span arr (word_of_int (run_place arr start rv k)) (\<not> rv) = drop k (fb_span arr start (\<not> rv))"
    "fb_span arr start (\<not> rv) ! k < 2 ^ 31"
proof -
  have lt: "unat start < unat (fb_len arr)" "unat (fb_len arr) < 2 ^ 31"
    using assms(1,2) by (simp_all add: word_less_nat_alt fb_ok_def)
  show p: "run_place arr start rv k = int (fb_span arr start (\<not> rv) ! k)"
    using assms(3) by (auto simp: run_place_def fb_span_def nth_rev_upt of_nat_diff simp del: upt_Suc)
  let ?v = "fb_span arr start (\<not> rv) ! k"
  have v: "?v < unat (fb_len arr)" using assms(3) span_less [OF assms(1) nth_mem] by blast
  then show "?v < 2 ^ 31" using lt(2) by simp
  have w: "(word_of_int (run_place arr start rv k) :: u32) = of_nat ?v" by (simp add: p)
  have u: "unat (word_of_int (run_place arr start rv k) :: u32) = ?v"
    using v lt(2) unfolding w by (simp add: unat_of_nat)
  show "(word_of_int (run_place arr start rv k) :: u32) < fb_len arr" using v u by (simp add: word_less_nat_alt)
  have "fb_span arr (word_of_int (run_place arr start rv k)) (\<not> rv) =
      (if \<not> rv then [?v..<unat (fb_len arr)] else rev [0..<Suc ?v])"
    by (simp only: fb_span_def u)
  also have "\<dots> = drop k (fb_span arr start (\<not> rv))"
    using assms(3) by (auto simp: fb_span_def nth_rev_upt drop_rev Suc_diff_le simp del: upt_Suc)
  finally show "fb_span arr (word_of_int (run_place arr start rv k)) (\<not> rv) = drop k (fb_span arr start (\<not> rv))" .
qed

lemma ret_int_nat: "n < 2 ^ 31 \<Longrightarrow> ret_int (Inr (of_nat n)) = int n"
  by (simp add: ret_int_def sint_small unat_of_nat)

definition enc :: "(nat \<Rightarrow> bool) \<Rightarrow> rte_fbarray \<Rightarrow> u32 \<Rightarrow> bool \<Rightarrow> nat option \<Rightarrow> int \<times> int" where
  "enc P arr start rv r =
     (case r of None \<Rightarrow> (- 1, 0) | Some k \<Rightarrow> (run_start P arr start rv k, int (run_at P (fb_span arr start (\<not> rv)) k)))"

lemma biggest_loop_ok:
  assumes ok: "fb_ok arr" and s: "start < fb_len arr"
    and xs: "xs = fb_span arr start (\<not> rv)"
    and "best (\<lambda>i. fb_bit arr i = used) xs c r" "c < length xs \<or> \<not> rv \<and> c = length xs"
    "(bi, bl) = enc (\<lambda>i. fb_bit arr i = used) arr start rv r"
  shows "\<exists>r'. best (\<lambda>i. fb_bit arr i = used) xs (length xs) r' \<and>
    biggest_loop arr used rv (run_place arr start rv c) bi bl = Some (fst (enc (\<lambda>i. fb_bit arr i = used) arr start rv r'))"
  using assms(4-6)
proof (induction "length xs - c" arbitrary: c r bi bl rule: less_induct)
  case less
  let ?P = "\<lambda>i. fb_bit arr i = used"
  have bi: "bi = fst (enc ?P arr start rv r)" "bl = snd (enc ?P arr start rv r)" using less.prems(3) by (metis fst_conv, metis snd_conv)
  show ?case
  proof (cases "c < length xs")
    case False
    with less.prems(2) have c: "\<not> rv" "c = length xs" by auto
    then have "run_place arr start rv c = int (unat (fb_len arr))"
      using s by (simp add: run_place_def xs length_span [OF s] word_less_nat_alt)
    then have "(word_of_int (run_place arr start rv c) :: u32) = fb_len arr" by simp
    then have "fbarray_find arr (word_of_int (run_place arr start rv c)) (\<not> rv) used = Inl EINVAL"
      by (simp add: fbarray_find_def)
    then have "biggest_loop arr used rv (run_place arr start rv c) bi bl = Some bi"
      by (subst biggest_loop.simps) (simp add: ret_int_def)
    with less.prems(1) c bi(1) show ?thesis by (intro exI [of _ r]) simp
  next
    case True
    note sp = span_run_place [OF s ok, of c rv, folded xs, OF True]
    show ?thesis
    proof (cases "find ?P (drop c xs)")
      case None
      then have "fbarray_find arr (word_of_int (run_place arr start rv c)) (\<not> rv) used = Inl (if used then ENOENT else ENOSPC)"
        using fbarray_find_linear [OF ok sp(2), of "\<not> rv" used] sp(3) by simp
      then have "biggest_loop arr used rv (run_place arr start rv c) bi bl = Some bi"
        by (subst biggest_loop.simps) (simp add: ret_int_def)
      moreover have "\<forall>j. c \<le> j \<and> j < length xs \<longrightarrow> \<not> ?P (xs ! j)"
      proof (intro allI impI)
        fix j
        assume "c \<le> j \<and> j < length xs"
        then have "c \<le> j" "j - c < length (drop c xs)" by (simp_all add: diff_less_mono)
        with nth_mem [of "j - c" "drop c xs"] have "xs ! j \<in> set (drop c xs)" by simp
        with None show "\<not> ?P (xs ! j)" by (auto simp: find_None_iff)
      qed
      then have "best ?P xs (length xs) r" using best_skip [OF less.prems(1)] True by simp
      ultimately show ?thesis using bi(1) by (intro exI [of _ r]) simp
    next
      case (Some v)
      from find_drop [OF this] obtain p where p: "c \<le> p" "p < length xs" "v = xs ! p" "?P v" "\<forall>j. c \<le> j \<and> j < p \<longrightarrow> \<not> ?P (xs ! j)" .
      note pp = span_run_place [OF s ok, of p rv, folded xs, OF p(2)]
      have bp: "best ?P xs p r" using best_skip [OF less.prems(1) p(5)] p(1,2) by simp
      note ex = best_extend [OF bp p(2) p(4) [unfolded p(3)]]
      have f: "ret_int (fbarray_find arr (word_of_int (run_place arr start rv c)) (\<not> rv) used) = run_place arr start rv p"
        using fbarray_find_linear [OF ok sp(2), of "\<not> rv" used] sp(3) Some ret_int_nat [OF pp(4)] by (simp add: p(3) pp(1))
      from fbarray_find_contig_linear [OF ok pp(2), of "\<not> rv" used] obtain n where
        n: "fbarray_find_contig arr (word_of_int (run_place arr start rv p)) (\<not> rv) used = Inr n" "unat n = run_at ?P xs p"
        by (auto simp: pp(3) run_at_def)
      have "length xs \<le> 2 ^ 31 - 1" using ok s by (auto simp: xs length_span [OF s] fb_ok_def word_less_nat_alt)
      moreover have rle: "p + run_at ?P xs p \<le> length xs" using p(2) by (intro run_at_ok(1)) simp
      ultimately have "unat n < 2 ^ 31" using n(2) by simp
      then have l: "ret_int (fbarray_find_contig arr (word_of_int (run_place arr start rv p)) (\<not> rv) used) = int (run_at ?P xs p)"
        using n by (simp add: ret_int_def sint_small)
      let ?q = "p + run_at ?P xs p"
      define r2 where "r2 = better ?P xs r p"
      obtain bi2 bl2 where e2: "(bi2, bl2) = enc ?P arr start rv r2" by (metis surj_pair)
      have nxt: "(if rv then run_place arr start rv p - int (run_at ?P xs p) else run_place arr start rv p + int (run_at ?P xs p)) = run_place arr start rv ?q"
        by (simp add: run_place_def)
      have rs: "(if rv then run_place arr start rv ?q + 1 else run_place arr start rv p) = run_start ?P arr start rv p"
        by (simp add: run_start_def run_place_def xs)
      have upd: "(if bl < int (run_at ?P xs p) then (run_start ?P arr start rv p, int (run_at ?P xs p)) else (bi, bl)) = (bi2, bl2)"
        unfolding e2 r2_def using ex(2) bi
        by (cases r) (auto simp: enc_def better_def xs)
      have p0: "0 \<le> run_place arr start rv p" by (simp add: pp(1))
      have step: "biggest_loop arr used rv (run_place arr start rv c) bi bl =
          (if run_place arr start rv ?q < 0 then Some bi2 else biggest_loop arr used rv (run_place arr start rv ?q) bi2 bl2)"
      proof (cases rv)
        case True
        from this nxt rs upd p0 show ?thesis by (subst biggest_loop.simps, unfold Let_def f l) (simp split: if_splits)
      next
        case False
        from this nxt rs upd p0 show ?thesis by (subst biggest_loop.simps, unfold Let_def f l) (simp split: if_splits)
      qed
      show ?thesis
      proof (cases "run_place arr start rv ?q < 0")
        case True
        then have "rv" "unat start < ?q" by (simp_all add: run_place_neg)
        with rle have "?q = length xs" by (simp add: xs length_span [OF s])
        with True step ex(1) e2 show ?thesis
          by (intro exI [of _ r2]) (auto simp: r2_def dest: arg_cong [of _ _ fst])
      next
        case False
        then have c: "?q < length xs \<or> \<not> rv \<and> ?q = length xs"
          using rle by (auto simp: run_place_neg xs length_span [OF s])
        have "length xs - ?q < length xs - c" using p(1,2) ex(2) by simp
        from less.hyps [OF this ex(1) [folded r2_def] c e2] False step show ?thesis by simp
      qed
    qed
  qed
qed

section \<open>The result\<close>

text \<open>A run of \<open>n\<close> entries from \<open>a\<close> on, all used or all free.\<close>

definition fb_run :: "rte_fbarray \<Rightarrow> bool \<Rightarrow> nat \<Rightarrow> nat \<Rightarrow> bool" where
  "fb_run arr used a n \<longleftrightarrow> a + n \<le> unat (fb_len arr) \<and> (\<forall>i. a \<le> i \<and> i < a + n \<longrightarrow> fb_bit arr i = used)"

text \<open>Whether it lies where a search from \<open>start\<close> looks.\<close>

definition in_range :: "u32 \<Rightarrow> bool \<Rightarrow> nat \<Rightarrow> nat \<Rightarrow> bool" where
  "in_range start rv a n \<longleftrightarrow> (if rv then a + n \<le> Suc (unat start) else unat start \<le> a)"

lemma span_run:
  assumes ok: "fb_ok arr" and s: "start < fb_len arr" and k: "k < length (fb_span arr start (\<not> rv))"
    and n: "n = run_at (\<lambda>i. fb_bit arr i = used) (fb_span arr start (\<not> rv)) k"
  shows "\<exists>a. run_start (\<lambda>i. fb_bit arr i = used) arr start rv k = int a \<and> fb_run arr used a n \<and> in_range start rv a n"
proof -
  let ?P = "\<lambda>i. fb_bit arr i = used" and ?xs = "fb_span arr start (\<not> rv)"
  have lt: "unat start < unat (fb_len arr)" using s by (simp add: word_less_nat_alt)
  note r = run_at_ok [OF less_imp_le [OF k], where P = ?P, folded n]
  show ?thesis
  proof (cases rv)
    case False
    then have xs: "?xs = [unat start..<unat (fb_len arr)]" by (simp add: fb_span_def)
    have all: "fb_bit arr i = used" if "unat start + k \<le> i" "i < unat start + k + n" for i
      using r(1) r(2) [of "i - (unat start + k)"] that by (simp add: xs)
    have "fb_run arr used (unat start + k) n" unfolding fb_run_def using r(1) all lt by (simp add: xs)
    then show ?thesis using False
      by (intro exI [of _ "unat start + k"]) (simp add: run_start_def run_place_def in_range_def)
  next
    case True
    then have xs: "?xs = rev [0..<Suc (unat start)]" by (simp add: fb_span_def)
    have kn: "k + n \<le> Suc (unat start)" using r(1) by (simp add: xs)
    define a where "a = Suc (unat start) - k - n"
    have all: "fb_bit arr i = used" if "a \<le> i" "i < a + n" for i
    proof -
      have j: "unat start - k - i < n" "k + (unat start - k - i) \<le> unat start" "Suc (unat start) - Suc (k + (unat start - k - i)) = i"
        using that kn by (auto simp: a_def)
      show ?thesis using r(2) [OF j(1)] j(2,3) unfolding xs by (subst (asm) nth_rev_upt) simp_all
    qed
    have "a + n = Suc (unat start) - k" using kn by (simp add: a_def)
    then have "fb_run arr used a n" "in_range start rv a n" using all lt True by (simp_all add: fb_run_def in_range_def)
    moreover have "run_start ?P arr start rv k = int a"
      using True kn unfolding run_start_def run_place_def a_def n by simp
    ultimately show ?thesis by blast
  qed
qed

lemma run_span:
  assumes s: "start < fb_len arr" and r: "fb_run arr used a n" "in_range start rv a n" "0 < n"
  shows "\<exists>k<length (fb_span arr start (\<not> rv)). n \<le> run_at (\<lambda>i. fb_bit arr i = used) (fb_span arr start (\<not> rv)) k"
proof (cases rv)
  case False
  then have xs: "fb_span arr start (\<not> rv) = [unat start..<unat (fb_len arr)]" by (simp add: fb_span_def)
  have a: "unat start \<le> a" "a + n \<le> unat (fb_len arr)" using r False by (simp_all add: fb_run_def in_range_def)
  have "n \<le> run_at (\<lambda>i. fb_bit arr i = used) [unat start..<unat (fb_len arr)] (a - unat start)"
    by (rule run_at_ge) (use a r(1) in \<open>auto simp: fb_run_def\<close>)
  moreover have "a - unat start < length [unat start..<unat (fb_len arr)]" using a r(3) by simp
  ultimately show ?thesis unfolding xs by blast
next
  case True
  then have xs: "fb_span arr start (\<not> rv) = rev [0..<Suc (unat start)]" by (simp add: fb_span_def)
  have a: "a + n \<le> Suc (unat start)" using r True by (simp add: in_range_def)
  have "n \<le> run_at (\<lambda>i. fb_bit arr i = used) (rev [0..<Suc (unat start)]) (Suc (unat start) - (a + n))"
  proof (rule run_at_ge)
    fix j
    assume j: "j < n"
    have "rev [0..<Suc (unat start)] ! (Suc (unat start) - (a + n) + j) = a + n - Suc j"
      using a j by (subst nth_rev_upt) auto
    with j r(1) show "fb_bit arr (rev [0..<Suc (unat start)] ! (Suc (unat start) - (a + n) + j)) = used"
      by (simp add: fb_run_def)
  qed (use a in simp)
  moreover have "Suc (unat start) - (a + n) < length (rev [0..<Suc (unat start)])" using a r(3) by simp
  ultimately show ?thesis unfolding xs by blast
qed

lemma fbarray_find_biggest_ok:
  assumes ok: "fb_ok arr" and s: "start < fb_len arr"
  shows "\<exists>r. fbarray_find_biggest arr start used rv = Some r \<and>
    (case r of
       Inl e \<Rightarrow> e = (if used then ENOENT else ENOSPC) \<and> (\<forall>a n. fb_run arr used a n \<and> in_range start rv a n \<longrightarrow> n = 0)
     | Inr i \<Rightarrow> \<exists>a n. i = int a \<and> 0 < n \<and> fb_run arr used a n \<and> in_range start rv a n \<and>
         (\<forall>b m. fb_run arr used b m \<and> in_range start rv b m \<longrightarrow> m \<le> n))"
proof -
  let ?P = "\<lambda>i. fb_bit arr i = used" and ?xs = "fb_span arr start (\<not> rv)"
  have "best ?P ?xs 0 None" by (simp add: best_def)
  moreover have "0 < length ?xs" using span_hd [OF s, of "\<not> rv"] by auto
  moreover have "(- 1, 0) = enc ?P arr start rv None" by (simp add: enc_def)
  ultimately obtain r where r: "best ?P ?xs (length ?xs) r"
    "biggest_loop arr used rv (run_place arr start rv 0) (- 1) 0 = Some (fst (enc ?P arr start rv r))"
    using biggest_loop_ok [OF ok s refl, of used rv 0 None "- 1" 0] by blast
  have lt: "unat start < 2 ^ 31" using ok s by (simp add: fb_ok_def word_less_nat_alt)
  then have "run_place arr start rv 0 = sint start" by (simp add: run_place_def sint_small)
  with r(2) s have run: "fbarray_find_biggest arr start used rv =
      Some (if fst (enc ?P arr start rv r) < 0 then Inl (if used then ENOENT else ENOSPC) else Inr (fst (enc ?P arr start rv r)))"
    by (simp add: fbarray_find_biggest_def)
  have none: "n \<le> m" if "fb_run arr used a n" "in_range start rv a n" "\<forall>j<length ?xs. run_at ?P ?xs j \<le> m" for a n m
  proof (cases "n = 0")
    case False
    with run_span [OF s that(1,2)] that(3) show ?thesis by (auto intro: le_trans)
  qed simp
  show ?thesis
  proof (cases r)
    case None
    then have "fst (enc ?P arr start rv r) < 0" by (simp add: enc_def)
    moreover have z: "\<forall>j<length ?xs. run_at ?P ?xs j \<le> 0" using r(1) None by (simp add: best_def)
    ultimately show ?thesis using run none [OF _ _ z] by auto
  next
    case (Some k)
    with r(1) have k: "k < length ?xs" "0 < run_at ?P ?xs k" "\<forall>j<length ?xs. run_at ?P ?xs j \<le> run_at ?P ?xs k"
      by (simp_all add: best_def)
    from span_run [OF ok s k(1) refl] obtain a where
      a: "run_start ?P arr start rv k = int a" "fb_run arr used a (run_at ?P ?xs k)" "in_range start rv a (run_at ?P ?xs k)" by blast
    have "fst (enc ?P arr start rv r) = int a" using Some a(1) by (simp add: enc_def)
    then show ?thesis using run a k(2) none [OF _ _ k(3)] by auto
  qed
qed

end
