(* ===== verification/Fbarray_Runs.thy ===== *)
theory Fbarray_Runs
  imports Fbarray_Biggest
begin

text \<open>
  The search for \<open>n\<close> consecutive entries (\<open>find_next_n\<close> and \<open>find_prev_n\<close> of
  \<open>eal_common_fbarray.c\<close>): a mask is searched by shifting and intersecting it with itself, and
  a run at its end is followed into the next masks. A shift by 64 or more is undefined and
  makes the result absent.
\<close>

section \<open>Forwards\<close>

primrec and_shr :: "nat \<Rightarrow> u64 \<Rightarrow> u64" where
  "and_shr 0 msk = msk"
| "and_shr (Suc n) msk = and_shr n (msk AND drop_bit 1 msk)"

primrec and_shl :: "nat \<Rightarrow> u64 \<Rightarrow> u64" where
  "and_shl 0 msk = msk"
| "and_shl (Suc n) msk = and_shl n (msk AND push_bit 1 msk)"

text \<open>
  How following a run ends: it is long enough; it is lost in a mask, with what to ignore next
  and the masks behind that one; the masks are used up.
\<close>

datatype followed = Run_found | Run_lost u64 u32 "u64 list" | Run_out

primrec lookahead :: "bool \<Rightarrow> u32 \<Rightarrow> u32 \<Rightarrow> u64 list \<Rightarrow> followed option" where
  "lookahead used left idx [] = Some Run_out"
| "lookahead used left idx (m # ms) =
     (let lookahead_msk = mask_for used m;
          need = min left MASK_ALIGN;
          lookahead_msk = and_shr (unat (need - 1)) lookahead_msk
      in if lookahead_msk AND 1 = 0 then
           do { b \<leftarrow> shl64 1 need; Some (Run_lost (NOT (b - 1)) idx ms) }
         else
           let left = left - need
           in if left = 0 then Some Run_found else lookahead used left (idx + 1) ms)"

lemma lookahead_shorter: "lookahead used left idx ms = Some (Run_lost ig i rest) \<Longrightarrow> length rest < length ms"
  by (induction ms arbitrary: left idx) (force simp: Let_def bind_eq_Some_conv split: if_splits)+

text \<open>\<open>n\<close> is not zero; the masks from \<open>msk_idx\<close> on.\<close>

function find_next_n_loop :: "bool \<Rightarrow> u32 \<Rightarrow> u32 \<Rightarrow> u64 \<Rightarrow> u64 \<Rightarrow> u32 \<Rightarrow> u64 list \<Rightarrow> u32 option option" where
  "find_next_n_loop used n lst last_msk ignore_msk msk_idx [] = Some None"
| "find_next_n_loop used n lst last_msk ignore_msk msk_idx (m # ms) =
     (let cur_msk = mask_for used m;
          ignore_msk = (if msk_idx = lst then ignore_msk OR last_msk else ignore_msk);
          cur_msk = (if ignore_msk \<noteq> 0 then cur_msk AND ignore_msk else cur_msk);
          tmp_msk = and_shr (unat (n - 1)) cur_msk;
          clz = (if NOT cur_msk = 0 then 64 else clzll (NOT cur_msk))
      in if n \<le> MASK_ALIGN \<and> tmp_msk \<noteq> 0 then Some (Some (MASK_GET_IDX msk_idx (ctzll tmp_msk)))
         else if clz = 0 then find_next_n_loop used n lst last_msk 0 (msk_idx + 1) ms
         else
           (case lookahead used (n - clz) (msk_idx + 1) ms of
              None \<Rightarrow> None
            | Some Run_found \<Rightarrow> Some (Some (MASK_GET_IDX msk_idx (MASK_ALIGN - clz)))
            | Some (Run_lost ignore_msk lookahead_idx rest) \<Rightarrow>
                find_next_n_loop used n lst last_msk ignore_msk (lookahead_idx + 1) rest
            | Some Run_out \<Rightarrow> find_next_n_loop used n lst last_msk 0 (msk_idx + 1) ms))"
  by pat_completeness auto
termination
  by (relation "measure (\<lambda>(_, _, _, _, _, _, ms). length ms)") (auto dest: lookahead_shorter)

definition find_next_n :: "rte_fbarray \<Rightarrow> u32 \<Rightarrow> u32 \<Rightarrow> bool \<Rightarrow> (int + u32) option" where
  "find_next_n arr start n used =
     (let first = MASK_LEN_TO_IDX start; first_mod = MASK_LEN_TO_MOD start;
          ignore_msk = NOT (push_bit (unat first_mod) 1 - 1);
          lst = MASK_LEN_TO_IDX (fb_len arr)
      in map_option (\<lambda>r. case r of Some i \<Rightarrow> Inr i | None \<Rightarrow> Inl (if used then ENOENT else ENOSPC))
           (find_next_n_loop used n lst (last_mask arr) ignore_msk first (drop (unat first) (fb_masks arr))))"

section \<open>Backwards\<close>

primrec lookbehind :: "bool \<Rightarrow> u32 \<Rightarrow> u32 \<Rightarrow> u64 list \<Rightarrow> followed option" where
  "lookbehind used left idx [] = Some Run_out"
| "lookbehind used left idx (m # ms) =
     (let lookbehind_msk = mask_for used m;
          last_bit = push_bit 63 1;
          need = min left MASK_ALIGN;
          lookbehind_msk = and_shl (unat (need - 1)) lookbehind_msk
      in if lookbehind_msk AND last_bit = 0 then
           do { b \<leftarrow> shl64 (- 1) need; Some (Run_lost b idx ms) }
         else
           let left = left - need
           in if left = 0 then Some Run_found else lookbehind used left (idx - 1) ms)"

lemma lookbehind_shorter: "lookbehind used left idx ms = Some (Run_lost ig i rest) \<Longrightarrow> length rest < length ms"
  by (induction ms arbitrary: left idx) (force simp: Let_def bind_eq_Some_conv split: if_splits)+

function find_prev_n_loop :: "bool \<Rightarrow> u32 \<Rightarrow> u64 \<Rightarrow> u32 \<Rightarrow> u64 list \<Rightarrow> u32 option option" where
  "find_prev_n_loop used n ignore_msk msk_idx [] = Some None"
| "find_prev_n_loop used n ignore_msk msk_idx (m # ms) =
     (let cur_msk = mask_for used m;
          cur_msk = (if ignore_msk \<noteq> 0 then cur_msk AND ignore_msk else cur_msk);
          tmp_msk = and_shl (unat (n - 1)) cur_msk;
          ctz = (if NOT cur_msk = 0 then 64 else ctzll (NOT cur_msk))
      in if n \<le> MASK_ALIGN \<and> tmp_msk \<noteq> 0 then Some (Some (MASK_GET_IDX msk_idx (MASK_ALIGN - clzll tmp_msk - n)))
         else if ctz = 0 then find_prev_n_loop used n 0 (msk_idx - 1) ms
         else if ms = [] then Some None
         else
           (case lookbehind used (n - ctz) (msk_idx - 1) ms of
              None \<Rightarrow> None
            | Some Run_found \<Rightarrow> Some (Some (MASK_GET_IDX msk_idx ctz - n))
            | Some (Run_lost ignore_msk lookbehind_idx rest) \<Rightarrow> find_prev_n_loop used n ignore_msk (lookbehind_idx - 1) rest
            | Some Run_out \<Rightarrow> find_prev_n_loop used n 0 (msk_idx - 1) ms))"
  by pat_completeness auto
termination
  by (relation "measure (\<lambda>(_, _, _, _, ms). length ms)") (auto dest: lookbehind_shorter)

definition find_prev_n :: "rte_fbarray \<Rightarrow> u32 \<Rightarrow> u32 \<Rightarrow> bool \<Rightarrow> (int + u32) option" where
  "find_prev_n arr start n used =
     (let first = MASK_LEN_TO_IDX start; first_mod = MASK_LEN_TO_MOD start
      in map_option (\<lambda>r. case r of Some i \<Rightarrow> Inr i | None \<Rightarrow> Inl (if used then ENOENT else ENOSPC))
           (find_prev_n_loop used n (ignore_above first_mod) first (masks_down arr first)))"

section \<open>The interface\<close>

definition fbarray_find_n :: "rte_fbarray \<Rightarrow> u32 \<Rightarrow> u32 \<Rightarrow> bool \<Rightarrow> bool \<Rightarrow> (int + u32) option" where
  "fbarray_find_n arr start n forward used =
     (if fb_len arr \<le> start \<or> fb_len arr < n \<or> n = 0 then Some (Inl EINVAL)
      else if forward \<and> fb_len arr - start < n then Some (Inl (if used then ENOENT else ENOSPC))
      else if \<not> forward \<and> start < n - 1 then Some (Inl (if used then ENOENT else ENOSPC))
      else if \<not> used \<and> (fb_len arr = fb_count arr \<or> fb_len arr - fb_count arr < n) then Some (Inl ENOSPC)
      else if \<not> used \<and> fb_count arr = 0 then Some (Inr (if forward then start else start - n + 1))
      else if used \<and> fb_count arr < n then Some (Inl ENOENT)
      else if used \<and> fb_count arr = fb_len arr then Some (Inr (if forward then start else start - n + 1))
      else if forward then find_next_n arr start n used
      else find_prev_n arr start n used)"

definition rte_fbarray_find_next_n_free :: "rte_fbarray \<Rightarrow> u32 \<Rightarrow> u32 \<Rightarrow> (int + u32) option" where
  "rte_fbarray_find_next_n_free arr start n = fbarray_find_n arr start n True False"

definition rte_fbarray_find_next_n_used :: "rte_fbarray \<Rightarrow> u32 \<Rightarrow> u32 \<Rightarrow> (int + u32) option" where
  "rte_fbarray_find_next_n_used arr start n = fbarray_find_n arr start n True True"

definition rte_fbarray_find_prev_n_free :: "rte_fbarray \<Rightarrow> u32 \<Rightarrow> u32 \<Rightarrow> (int + u32) option" where
  "rte_fbarray_find_prev_n_free arr start n = fbarray_find_n arr start n False False"

definition rte_fbarray_find_prev_n_used :: "rte_fbarray \<Rightarrow> u32 \<Rightarrow> u32 \<Rightarrow> (int + u32) option" where
  "rte_fbarray_find_prev_n_used arr start n = fbarray_find_n arr start n False True"

end
