(* ===== verification/Fbarray_Runs_Ok.thy ===== *)
theory Fbarray_Runs_Ok
  imports Fbarray_Runs
begin

text \<open>
  What the search for \<open>n\<close> consecutive entries returns is such a run, in the range it was asked
  for: forwards if the length of the array is a multiple of 64, backwards always.
\<close>

section \<open>Words\<close>

lemma bit_and_shr: "bit (and_shr k w) j \<longleftrightarrow> (\<forall>i\<le>k. bit w (j + i))"
proof (induction k arbitrary: w)
  case (Suc k)
  have "bit (and_shr (Suc k) w) j \<longleftrightarrow> (\<forall>i\<le>k. bit w (j + i) \<and> bit w (j + Suc i))"
    by (simp add: Suc.IH bit_and_iff bit_drop_bit_eq)
  also have "\<dots> \<longleftrightarrow> (\<forall>i\<le>Suc k. bit w (j + i))" (is "?l \<longleftrightarrow> ?r")
  proof
    assume l: ?l
    show ?r
    proof (intro allI impI)
      fix i
      assume "i \<le> Suc k"
      then consider "i \<le> k" | "i = Suc k" by linarith
      then show "bit w (j + i)" by cases (use l in blast)+
    qed
  next
    assume r: ?r
    show ?l
    proof (intro allI impI conjI)
      fix i
      assume "i \<le> k"
      then have "i \<le> Suc k" "Suc i \<le> Suc k" by simp_all
      with r show "bit w (j + i)" "bit w (j + Suc i)" by blast+
    qed
  qed
  finally show ?case .
qed simp

lemma bit_and_shl:
  assumes "j < 64"
  shows "bit (and_shl k w) j \<longleftrightarrow> (\<forall>i\<le>k. i \<le> j \<and> bit w (j - i))"
proof (induction k arbitrary: w)
  case (Suc k)
  have one: "bit (w AND push_bit 1 w) (j - i) \<longleftrightarrow> bit w (j - i) \<and> i < j \<and> bit w (j - Suc i)" for i
    unfolding bit_and_iff using assms by (subst bit_push_bit_iff) auto
  have "bit (and_shl (Suc k) w) j \<longleftrightarrow> (\<forall>i\<le>k. i \<le> j \<and> bit (w AND push_bit 1 w) (j - i))"
    by (simp only: and_shl.simps Suc.IH)
  also have "\<dots> \<longleftrightarrow> (\<forall>i\<le>k. (i \<le> j \<and> bit w (j - i)) \<and> (Suc i \<le> j \<and> bit w (j - Suc i)))"
    unfolding one Suc_le_eq by blast
  also have "\<dots> \<longleftrightarrow> (\<forall>i\<le>Suc k. i \<le> j \<and> bit w (j - i))" (is "?l \<longleftrightarrow> ?r")
  proof
    assume l: ?l
    show ?r
    proof (intro allI impI)
      fix i
      assume "i \<le> Suc k"
      then consider "i \<le> k" | "i = Suc k" by linarith
      then show "i \<le> j \<and> bit w (j - i)" by cases (use l in blast)+
    qed
  next
    assume r: ?r
    show ?l
    proof (intro allI impI conjI)
      fix i
      assume "i \<le> k"
      then have "i \<le> Suc k" "Suc i \<le> Suc k" by simp_all
      with r show "i \<le> j" "bit w (j - i)" "Suc i \<le> j" "bit w (j - Suc i)" by blast+
    qed
  qed
  finally show ?case .
qed simp

text \<open>The ones at the top and at the bottom of a word.\<close>

definition ones_above :: "u64 \<Rightarrow> u32" where
  "ones_above w = (if NOT w = 0 then 64 else clzll (NOT w))"

definition ones_below :: "u64 \<Rightarrow> u32" where
  "ones_below w = (if NOT w = 0 then 64 else ctzll (NOT w))"

lemma ones_above_ok: "unat (ones_above w) \<le> 64" "64 - unat (ones_above w) \<le> j \<Longrightarrow> j < 64 \<Longrightarrow> bit w j"
proof -
  show "unat (ones_above w) \<le> 64" using lead_ok(1,4) [of "NOT w"] by (auto simp: ones_above_def)
  show "bit w j" if "64 - unat (ones_above w) \<le> j" "j < 64"
  proof (cases "NOT w = 0")
    case False
    have "\<not> bit (NOT w) (63 - (63 - j))"
      using that False by (intro lead_ok(3)) (auto simp: ones_above_def lead_ok(4))
    with that show ?thesis by (simp add: bit_not_iff)
  qed (use that all_ones in blast)
qed

lemma ones_below_ok: "unat (ones_below w) \<le> 64" "j < unat (ones_below w) \<Longrightarrow> bit w j"
proof -
  show le: "unat (ones_below w) \<le> 64" using zeros_ok(1,4) [of "NOT w"] by (auto simp: ones_below_def)
  show "bit w j" if "j < unat (ones_below w)"
  proof (cases "NOT w = 0")
    case False
    have "\<not> bit (NOT w) j" using that False by (intro zeros_ok(3)) (auto simp: ones_below_def zeros_ok(4))
    with that le show ?thesis by (simp add: bit_not_iff)
  qed (use that le all_ones in force)
qed

lemma unat_min_u32: "unat (min (x :: u32) y) = min (unat x) (unat y)"
  by (simp add: min_def word_le_nat_alt)

lemma unat_dec: "(n :: u32) \<noteq> 0 \<Longrightarrow> unat (n - 1) = unat n - 1"
  by (rule unat_minus_one)

lemma below_dec: "(n :: u32) \<noteq> 0 \<Longrightarrow> i < unat n \<longleftrightarrow> i \<le> unat (n - 1)"
  using unat_gt_0 [of n] by (auto simp: unat_dec)

text \<open>If there is no run inside a mask, the ones at its end are too few.\<close>

lemma short_above:
  fixes n :: u32
  assumes "n \<noteq> 0" "\<not> (n \<le> 64 \<and> and_shr (unat (n - 1)) cur \<noteq> 0)"
  shows "unat (ones_above cur) < unat n"
proof (rule ccontr)
  assume "\<not> unat (ones_above cur) < unat n"
  then have le: "unat n \<le> unat (ones_above cur)" by simp
  have "bit cur (64 - unat (ones_above cur) + i)" if "i < unat n" for i
    using ones_above_ok [of cur] le that by simp
  then have "bit (and_shr (unat (n - 1)) cur) (64 - unat (ones_above cur))"
    unfolding bit_and_shr by (simp only: below_dec [OF assms(1), symmetric]) blast
  moreover have "n \<le> 64" using le ones_above_ok(1) [of cur] by (simp add: word_le_nat_alt)
  ultimately show False using assms(2) by auto
qed

lemma short_below:
  fixes n :: u32
  assumes "n \<noteq> 0" "\<not> (n \<le> 64 \<and> and_shl (unat (n - 1)) cur \<noteq> 0)"
  shows "unat (ones_below cur) < unat n"
proof (rule ccontr)
  assume "\<not> unat (ones_below cur) < unat n"
  then have le: "unat n \<le> unat (ones_below cur)" by simp
  have n0: "0 < unat n" using assms(1) by (simp add: unat_gt_0)
  have lt: "unat n - 1 < 64" using le ones_below_ok(1) [of cur] n0 by linarith
  have "i \<le> unat n - 1 \<and> bit cur (unat n - 1 - i)" if "i < unat n" for i
    using ones_below_ok(2) [of "unat n - 1 - i" cur] le that by auto
  then have "bit (and_shl (unat (n - 1)) cur) (unat n - 1)"
    unfolding bit_and_shl [OF lt] by (simp only: below_dec [OF assms(1), symmetric]) blast
  moreover have "n \<le> 64" using le ones_below_ok(1) [of cur] by (simp add: word_le_nat_alt)
  ultimately show False using assms(2) by auto
qed

lemma if_neg: "(if \<not> A then x else y) = (if A then y else x)"
  by simp

section \<open>Following a run forwards\<close>

lemma lookahead_step:
  assumes "left \<noteq> 0" "need = min left 64"
  shows "lookahead used left idx (m # ms) =
    (if \<forall>i<unat need. bit (mask_for used m) i then
       if left - need = 0 then Some Run_found else lookahead used (left - need) (idx + 1) ms
     else do { b \<leftarrow> shl64 1 need; Some (Run_lost (NOT (b - 1)) idx ms) })"
proof -
  have "need \<noteq> 0" using assms by (simp add: min_def)
  then have "bit (and_shr (unat (need - 1)) (mask_for used m)) 0 \<longleftrightarrow> (\<forall>i<unat need. bit (mask_for used m) i)"
    by (simp only: bit_and_shr below_dec [OF \<open>need \<noteq> 0\<close>] add_0)
  then have "and_shr (unat (need - 1)) (mask_for used m) AND 1 = 0 \<longleftrightarrow> \<not> (\<forall>i<unat need. bit (mask_for used m) i)"
    by (simp add: bit_0 and_one_eq mod_2_eq_odd)
  then show ?thesis unfolding lookahead.simps Let_def MASK_ALIGN_64 assms(2) [symmetric] by (simp only: if_neg)
qed

lemma lookahead_found:
  assumes "lookahead used left idx ms = Some Run_found" "ms = drop p (fb_masks arr)" "left \<noteq> 0"
  shows "unat left \<le> 64 * length ms \<and> (\<forall>i<unat left. fb_bit arr (64 * p + i) = used)"
  using assms
proof (induction ms arbitrary: left idx p)
  case (Cons m ms)
  have p: "p < length (fb_masks arr)" using Cons.prems(2) drop_all by fastforce
  have m: "m = fb_masks arr ! p" "ms = drop (Suc p) (fb_masks arr)"
    using trans [OF Cons.prems(2) Cons_nth_drop_Suc [OF p, symmetric]] by simp_all
  define need where "need = min left 64"
  have un: "unat need = min (unat left) 64" by (simp add: need_def unat_min_u32)
  note step = trans [OF sym [OF lookahead_step [OF Cons.prems(3) need_def]] Cons.prems(1)]
  then have bits: "\<forall>i<unat need. bit (mask_for used m) i" by (auto simp: bind_eq_Some_conv split: if_splits)
  then have here: "\<forall>i<unat need. fb_bit arr (64 * p + i) = used" using un by (auto simp: m(1) bit_mask_at)
  show ?case
  proof (cases "left - need = 0")
    case True
    then have "unat left = unat need" by simp
    moreover have "unat need \<le> 64" unfolding un by simp
    ultimately show ?thesis using here by simp
  next
    case False
    then have "left \<noteq> need" by auto
    then have l: "64 < unat left" "unat need = 64" using un by (auto simp: word_unat_eq_iff)
    with step bits False have "lookahead used (left - need) (idx + 1) ms = Some Run_found" by simp
    from Cons.IH [OF this m(2) False]
    have rest: "unat (left - need) \<le> 64 * length ms" "\<forall>i<unat (left - need). fb_bit arr (64 * Suc p + i) = used" by simp_all
    have u: "unat (left - need) = unat left - 64" using l by (simp add: unat_sub_nowrap)
    have "fb_bit arr (64 * p + i) = used" if "i < unat left" for i
    proof (cases "i < 64")
      case True
      with here l show ?thesis by simp
    next
      case False
      then have "64 * p + i = 64 * Suc p + (i - 64)" "i - 64 < unat (left - need)" using that u by simp_all
      with rest(2) show ?thesis by metis
    qed
    with rest(1) u show ?thesis by simp
  qed
qed simp

lemma lookahead_lost:
  fixes idx :: u32
  assumes "lookahead used left idx ms = Some (Run_lost ig i rest)" "left \<noteq> 0" "ms = drop (unat idx) xs" "length xs < 2 ^ 32"
  shows "unat idx \<le> unat i \<and> unat i < length xs \<and> rest = drop (Suc (unat i)) xs"
  using assms(1-3)
proof (induction ms arbitrary: left idx)
  case (Cons m ms)
  note n = next_mask [OF Cons.prems(3) assms(4)]
  define need where "need = min left 64"
  note step = trans [OF sym [OF lookahead_step [OF Cons.prems(2) need_def]] Cons.prems(1)]
  show ?case
  proof (cases "\<forall>i<unat need. bit (mask_for used m) i")
    case True
    with step have "left - need \<noteq> 0" "lookahead used (left - need) (idx + 1) ms = Some (Run_lost ig i rest)"
      by (auto split: if_splits)
    then show ?thesis using Cons.IH [of "left - need" "idx + 1"] n by simp
  next
    case False
    with step have "i = idx" "rest = ms" by (auto simp: bind_eq_Some_conv)
    with n show ?thesis by simp
  qed
qed simp

lemma lookahead_defined:
  assumes "left \<noteq> 0" "unat left < 64"
  shows "lookahead used left idx ms \<noteq> None"
proof (cases ms)
  case (Cons m ms')
  have "left < 64" using assms(2) by (simp add: word_less_nat_alt)
  then have "min left 64 = left" by simp
  with Cons show ?thesis using lookahead_step [OF assms(1) refl, of used idx m ms'] \<open>left < 64\<close> by (simp add: shl64_def)
qed simp

text \<open>A run inside a mask, and one that begins at its end and goes on behind it.\<close>

lemma run_in_mask:
  assumes "\<And>j. bit (cur :: u64) j \<Longrightarrow> j < 64 \<Longrightarrow> P (base + j)" "\<forall>i<n. bit cur (z + i)" "0 < n"
  shows "z + n \<le> 64 \<and> (\<forall>i. base + z \<le> i \<and> i < base + z + n \<longrightarrow> P i)"
proof -
  have b: "i < n \<Longrightarrow> z + i < 64" for i using assms(2) by (auto dest!: spec [of _ i] bit_imp_le_length)
  have "P i" if "base + z \<le> i" "i < base + z + n" for i
  proof -
    have "i = base + (z + (i - (base + z)))" "i - (base + z) < n" using that by simp_all
    then show ?thesis using assms(1,2) b by metis
  qed
  with b [of "n - 1"] assms(3) show ?thesis by auto
qed

lemma run_joined:
  assumes "\<And>j. 64 - up \<le> j \<Longrightarrow> j < 64 \<Longrightarrow> P (base + j)" "\<forall>i<n - up. P (base + 64 + i)" "up \<le> 64" "up < (n :: nat)"
  shows "\<forall>i. base + (64 - up) \<le> i \<and> i < base + (64 - up) + n \<longrightarrow> P i"
proof (intro allI impI, elim conjE)
  fix i
  assume i: "base + (64 - up) \<le> i" "i < base + (64 - up) + n"
  show "P i"
  proof (cases "i < base + 64")
    case True
    then show ?thesis using assms(1) [of "i - base"] i by simp
  next
    case False
    then have "i - (base + 64) < n - up" "base + 64 + (i - (base + 64)) = i" using i assms(3) by simp_all
    then show ?thesis using assms(2) by metis
  qed
qed

text \<open>
  \<open>ignore_msk\<close>, applied once and then zero; \<open>s\<close> is the entry that the search starts with.
\<close>

lemma find_next_n_loop_sound:
  fixes idx :: u32
  assumes ok: "fb_ok arr" "64 dvd unat (fb_len arr)" and n: "n \<noteq> 0"
    and "find_next_n_loop used n (MASK_LEN_TO_IDX (fb_len arr)) lm ig idx ms = Some (Some r)" "ms = drop (unat idx) (fb_masks arr)"
    and "\<And>j. j < 64 \<Longrightarrow> ig = 0 \<or> bit ig j \<Longrightarrow> s \<le> 64 * unat idx + j" "s < 64 * unat idx + 64"
  shows "s \<le> unat r \<and> fb_run arr used (unat r) (unat n)"
  using assms(4-7)
proof (induction "length ms" arbitrary: idx ms ig rule: less_induct)
  case less
  let ?loop = "find_next_n_loop used n (MASK_LEN_TO_IDX (fb_len arr)) lm"
  from less.prems(1) obtain m ms' where ms: "ms = m # ms'" by (cases ms) simp_all
  note mk = next_mask [OF less.prems(2) [unfolded ms] masks_bound(1) [OF ok(1)]]
  have len: "unat (fb_len arr) = 64 * length (fb_masks arr)" using ok by (auto simp: fb_ok_def)
  then have last: "idx \<noteq> MASK_LEN_TO_IDX (fb_len arr)" using mk(1) by (auto simp: word_unat_eq_iff)
  define cur where "cur = (if ig \<noteq> 0 then mask_for used m AND ig else mask_for used m)"
  have bits: "fb_bit arr (64 * unat idx + j) = used" "s \<le> 64 * unat idx + j" if "bit cur j" "j < 64" for j
  proof -
    have "bit (mask_for used m) j" "ig = 0 \<or> bit ig j" using that(1) by (auto simp: cur_def bit_and_iff split: if_splits)
    then show "fb_bit arr (64 * unat idx + j) = used" "s \<le> 64 * unat idx + j"
      using less.prems(3) [OF that(2)] by (simp_all add: mk(2) bit_mask_at that(2))
  qed
  define up where "up = ones_above cur"
  note up = ones_above_ok [of cur, folded up_def]
  define tmp where "tmp = and_shr (unat (n - 1)) cur"
  have tmp: "bit tmp j \<longleftrightarrow> (\<forall>i<unat n. bit cur (j + i))" for j
    unfolding tmp_def bit_and_shr by (simp only: below_dec [OF n])
  have step: "?loop ig idx ms =
     (if n \<le> MASK_ALIGN \<and> tmp \<noteq> 0 then Some (Some (MASK_GET_IDX idx (ctzll tmp)))
      else if up = 0 then ?loop 0 (idx + 1) ms'
      else (case lookahead used (n - up) (idx + 1) ms' of
              None \<Rightarrow> None
            | Some Run_found \<Rightarrow> Some (Some (MASK_GET_IDX idx (MASK_ALIGN - up)))
            | Some (Run_lost ig i rest) \<Rightarrow> ?loop ig (i + 1) rest
            | Some Run_out \<Rightarrow> ?loop 0 (idx + 1) ms'))"
    using last by (simp only: ms find_next_n_loop.simps Let_def tmp_def up_def ones_above_def cur_def if_False)
  have go: "s \<le> unat r \<and> fb_run arr used (unat r) (unat n)"
    if "?loop ig' i rest = Some (Some r)" "rest = drop (unat i) (fb_masks arr)" "unat idx < unat i" "unat i \<le> length (fb_masks arr)" for ig' i rest
    using that less.prems(4) mk(1) by (intro less.hyps [OF _ that(1,2)]) (auto simp: less.prems(2))
  have n0: "0 < unat n" using n by (simp add: unat_gt_0)
  have small: "64 * unat idx + 64 \<le> unat (fb_len arr)" "unat (fb_len arr) < 2 ^ 31" using mk(1) len ok(1) by (simp_all add: fb_ok_def)
  have place: "unat (MASK_GET_IDX idx (of_nat j)) = 64 * unat idx + j" if "j < 64" for j
  proof -
    have "64 * unat idx + j < 2 ^ LENGTH(32)" using small that by simp
    then show ?thesis unfolding MASK_GET_IDX_nat [OF that] by (rule of_nat_inverse [OF refl])
  qed
  show ?case
  proof (cases "n \<le> MASK_ALIGN \<and> tmp \<noteq> 0")
    case True
    note z = zeros_ok [OF conjunct2 [OF True]]
    have "ctzll tmp = of_nat (zeros tmp)" using z(4) by (metis of_nat_unat ucast_id)
    with True step less.prems(1) place [OF z(1)] have r: "unat r = 64 * unat idx + zeros tmp" by simp
    have ones: "\<forall>i<unat n. bit cur (zeros tmp + i)" using z(2) by (simp add: tmp)
    have "zeros tmp + unat n \<le> 64 \<and>
        (\<forall>i. 64 * unat idx + zeros tmp \<le> i \<and> i < 64 * unat idx + zeros tmp + unat n \<longrightarrow> fb_bit arr i = used)"
      by (rule run_in_mask [OF _ ones n0]) (rule bits(1))
    moreover have "bit cur (zeros tmp)" using z(2) n0 by (auto simp: tmp dest: spec [of _ 0])
    ultimately show ?thesis using bits(2) [OF _ z(1)] r small(1) by (simp add: fb_run_def)
  next
    case no: False
    show ?thesis
    proof (cases "up = 0")
      case True
      show ?thesis by (rule go [of 0 "idx + 1" ms']) (use step no True less.prems(1) mk in auto)
    next
      case False
      have lt: "unat up < unat n" unfolding up_def by (rule short_above [OF n]) (use no in \<open>simp add: tmp_def\<close>)
      then have left: "unat (n - up) = unat n - unat up" "n - up \<noteq> 0" by (auto simp: unat_sub_nowrap)
      note st = trans [OF sym [OF step] less.prems(1), unfolded if_not_P [OF no] if_not_P [OF False]]
      then obtain f where f: "lookahead used (n - up) (idx + 1) ms' = Some f" by (auto split: option.splits)
      show ?thesis
      proof (cases f)
        case Run_found
        note la = lookahead_found [OF f [unfolded Run_found] mk(3) left(2), unfolded left(1)]
        have "MASK_ALIGN - up = of_nat (64 - unat up)" using up(1) by (simp add: of_nat_diff)
        moreover have "64 - unat up < 64" using False by (simp add: unat_gt_0)
        ultimately have r: "unat r = 64 * unat idx + (64 - unat up)"
          using st f Run_found place [of "64 - unat up"] by simp
        have "\<forall>i. unat r \<le> i \<and> i < unat r + unat n \<longrightarrow> fb_bit arr i = used"
          unfolding r by (rule run_joined) (use bits(1) up la lt in \<open>simp_all add: add.commute\<close>)
        moreover have "unat r + unat n \<le> unat (fb_len arr)"
        proof -
          have "64 * length ms' = unat (fb_len arr) - (64 * unat idx + 64)" by (simp add: mk(3) len diff_mult_distrib2)
          then have "unat n - unat up \<le> unat (fb_len arr) - (64 * unat idx + 64)" using la by simp
          then show ?thesis using r up(1) lt small(1) by linarith
        qed
        moreover have "s \<le> unat r"
          using bits(2) [OF up(2), of "64 - unat up"] r False by (simp add: unat_gt_0)
        ultimately show ?thesis by (simp add: fb_run_def)
      next
        case (Run_lost ig' i rest)
        have "ms' = drop (unat (idx + 1)) (fb_masks arr)" by (simp add: mk(3,4))
        from lookahead_lost [OF f [unfolded Run_lost] left(2) this masks_bound(1) [OF ok(1)]]
        have i: "unat idx < unat i" "unat i < length (fb_masks arr)" "rest = drop (Suc (unat i)) (fb_masks arr)"
          by (simp_all add: mk(4))
        have "unat (i + 1) = Suc (unat i)" using i(2) masks_bound(1) [OF ok(1)] by (subst unat_add_nowrap) simp_all
        then show ?thesis using go [of ig' "i + 1" rest] st f Run_lost i by simp
      next
        case Run_out
        show ?thesis by (rule go [of 0 "idx + 1" ms']) (use st f Run_out mk in auto)
      qed
    qed
  qed
qed

section \<open>Following a run backwards\<close>

lemma and_top: "(w :: u64) AND push_bit 63 1 = 0 \<longleftrightarrow> \<not> bit w 63"
  using and_bit(2) [of w 63] by simp

lemma lookbehind_step:
  assumes "left \<noteq> 0" "need = min left 64"
  shows "lookbehind used left idx (m # ms) =
    (if \<forall>i<unat need. bit (mask_for used m) (63 - i) then
       if left - need = 0 then Some Run_found else lookbehind used (left - need) (idx - 1) ms
     else do { b \<leftarrow> shl64 (- 1) need; Some (Run_lost b idx ms) })"
proof -
  have n: "need \<noteq> 0" using assms by (simp add: min_def)
  have le: "unat need \<le> 64" using assms(2) by (simp add: unat_min_u32)
  have "bit (and_shl (unat (need - 1)) (mask_for used m)) 63 \<longleftrightarrow> (\<forall>i<unat need. i \<le> 63 \<and> bit (mask_for used m) (63 - i))"
    by (subst bit_and_shl) (simp, simp only: below_dec [OF n])
  then have "and_shl (unat (need - 1)) (mask_for used m) AND push_bit 63 1 = 0 \<longleftrightarrow> \<not> (\<forall>i<unat need. bit (mask_for used m) (63 - i))"
    unfolding and_top using le by auto
  then show ?thesis unfolding lookbehind.simps Let_def MASK_ALIGN_64 assms(2) [symmetric] by (simp only: if_neg)
qed

lemma lookbehind_found:
  assumes "lookbehind used left idx ms = Some Run_found" "ms = rev (take k (fb_masks arr))" "k \<le> length (fb_masks arr)" "left \<noteq> 0"
  shows "unat left \<le> 64 * k \<and> (\<forall>i<unat left. fb_bit arr (64 * k - Suc i) = used)"
  using assms
proof (induction ms arbitrary: left idx k)
  case (Cons m ms)
  from Cons.prems(2) obtain p where p: "k = Suc p" by (cases k) simp_all
  have m: "m = fb_masks arr ! p" "ms = rev (take p (fb_masks arr))"
    using Cons.prems(2,3) p by (simp_all add: take_Suc_conv_app_nth)
  define need where "need = min left 64"
  have un: "unat need = min (unat left) 64" by (simp add: need_def unat_min_u32)
  note step = trans [OF sym [OF lookbehind_step [OF Cons.prems(4) need_def]] Cons.prems(1)]
  then have bits: "\<forall>i<unat need. bit (mask_for used m) (63 - i)" by (auto simp: bind_eq_Some_conv split: if_splits)
  have here: "fb_bit arr (64 * k - Suc i) = used" if "i < unat need" for i
  proof -
    have "63 - i < 64" "64 * p + (63 - i) = 64 * k - Suc i" using that un p by simp_all
    then show ?thesis using bits that bit_mask_at [of "63 - i" used arr p] by (simp add: m(1))
  qed
  show ?case
  proof (cases "left - need = 0")
    case True
    then have "unat left = unat need" by simp
    moreover have "unat need \<le> 64" unfolding un by simp
    ultimately show ?thesis using here p by simp
  next
    case False
    then have "left \<noteq> need" by auto
    then have l: "64 < unat left" "unat need = 64" using un by (auto simp: word_unat_eq_iff)
    with step bits False have "lookbehind used (left - need) (idx - 1) ms = Some Run_found" by simp
    from Cons.IH [OF this m(2) _ False]
    have rest: "unat (left - need) \<le> 64 * p" "\<forall>i<unat (left - need). fb_bit arr (64 * p - Suc i) = used"
      using Cons.prems(3) p by simp_all
    have u: "unat (left - need) = unat left - 64" using l by (simp add: unat_sub_nowrap)
    have "fb_bit arr (64 * k - Suc i) = used" if "i < unat left" for i
    proof (cases "i < 64")
      case True
      with here l show ?thesis by simp
    next
      case False
      then have "64 * k - Suc i = 64 * p - Suc (i - 64)" "i - 64 < unat (left - need)" using that u p by simp_all
      with rest(2) show ?thesis by metis
    qed
    with rest(1) u p show ?thesis by simp
  qed
qed simp

lemma lookbehind_lost:
  fixes idx :: u32
  assumes "lookbehind used left idx ms = Some (Run_lost ig i rest)" "left \<noteq> 0" "ms = rev (take k xs)" "k \<le> length xs"
    "k \<noteq> 0 \<longrightarrow> unat idx = k - 1"
  shows "unat i < k \<and> rest = rev (take (unat i) xs)"
  using assms
proof (induction ms arbitrary: left idx k)
  case (Cons m ms)
  note n = prev_mask [OF Cons.prems(3-5)]
  define need where "need = min left 64"
  note step = trans [OF sym [OF lookbehind_step [OF Cons.prems(2) need_def]] Cons.prems(1)]
  show ?case
  proof (cases "\<forall>i<unat need. bit (mask_for used m) (63 - i)")
    case True
    with step have run: "left - need \<noteq> 0" "lookbehind used (left - need) (idx - 1) ms = Some (Run_lost ig i rest)"
      by (auto split: if_splits)
    have "k - 1 \<le> length xs" using Cons.prems(4) by simp
    from Cons.IH [OF run(2,1) n(4) this n(5)] have "unat i < k - 1 \<and> rest = rev (take (unat i) xs)" .
    then show ?thesis by auto
  next
    case False
    with step have "i = idx" "rest = ms" by (auto simp: bind_eq_Some_conv)
    with n Cons.prems(5) show ?thesis by simp
  qed
qed simp

lemma lookbehind_defined:
  assumes "left \<noteq> 0" "unat left < 64"
  shows "lookbehind used left idx ms \<noteq> None"
proof (cases ms)
  case (Cons m ms')
  have "left < 64" using assms(2) by (simp add: word_less_nat_alt)
  then have "min left 64 = left" by simp
  with Cons show ?thesis using lookbehind_step [OF assms(1) refl, of used idx m ms'] \<open>left < 64\<close> by (simp add: shl64_def)
qed simp

lemma MASK_GET_IDX_word: "MASK_GET_IDX idx md = of_nat (64 * unat idx + unat md)"
  by (simp add: MASK_GET_IDX_def MASK_SHIFT_def push_bit_eq_mult)

lemma run_behind:
  assumes "\<And>j. j < dn \<Longrightarrow> P (base + j)" "\<forall>i<n - dn. P (base - Suc i)" "dn < (n :: nat)" "n - dn \<le> base"
  shows "\<forall>i. base + dn - n \<le> i \<and> i < base + dn - n + n \<longrightarrow> P i"
proof (intro allI impI, elim conjE)
  fix i
  assume i: "base + dn - n \<le> i" "i < base + dn - n + n"
  show "P i"
  proof (cases "base \<le> i")
    case True
    then show ?thesis using assms(1) [of "i - base"] i assms(3,4) by simp
  next
    case False
    then have "base - Suc i < n - dn" "base - Suc (base - Suc i) = i" using i assms(3,4) by simp_all
    then show ?thesis using assms(2) by metis
  qed
qed

lemma find_prev_n_loop_sound:
  fixes idx :: u32
  assumes n: "n \<noteq> 0" and len: "length (fb_masks arr) < 2 ^ 26"
    and "find_prev_n_loop used n ig idx ms = Some (Some r)" "ms = rev (take k (fb_masks arr))" "k \<le> length (fb_masks arr)"
    "k \<noteq> 0 \<longrightarrow> unat idx = k - 1"
    and "\<And>j. k \<noteq> 0 \<Longrightarrow> j < 64 \<Longrightarrow> ig = 0 \<or> bit ig j \<Longrightarrow> 64 * (k - 1) + j \<le> s" "k \<noteq> 0 \<longrightarrow> 64 * (k - 1) \<le> s"
  shows "unat r + unat n \<le> Suc s \<and> (\<forall>i. unat r \<le> i \<and> i < unat r + unat n \<longrightarrow> fb_bit arr i = used)"
  using assms(3-8)
proof (induction "length ms" arbitrary: idx ms ig k rule: less_induct)
  case less
  let ?loop = "find_prev_n_loop used n" and ?b = "64 * unat idx"
  from less.prems(1) obtain m ms' where ms: "ms = m # ms'" by (cases ms) simp_all
  note mk = prev_mask [OF less.prems(2) [unfolded ms] less.prems(3,4)]
  have k: "k = Suc (unat idx)" using mk(1) less.prems(4) by simp
  define cur where "cur = (if ig \<noteq> 0 then mask_for used m AND ig else mask_for used m)"
  have bits: "fb_bit arr (?b + j) = used" "?b + j \<le> s" if "bit cur j" "j < 64" for j
  proof -
    have "bit (mask_for used m) j" "ig = 0 \<or> bit ig j" using that(1) by (auto simp: cur_def bit_and_iff split: if_splits)
    then show "fb_bit arr (?b + j) = used" "?b + j \<le> s"
      using less.prems(5) [OF mk(1) that(2)] by (simp_all add: mk(3) bit_mask_at that(2) k)
  qed
  define dn where "dn = ones_below cur"
  note dn = ones_below_ok [where w = cur, folded dn_def]
  define tmp where "tmp = and_shl (unat (n - 1)) cur"
  have tmp: "bit tmp j \<longleftrightarrow> (\<forall>i<unat n. i \<le> j \<and> bit cur (j - i))" if "j < 64" for j
    unfolding tmp_def bit_and_shl [OF that] by (simp only: below_dec [OF n])
  have step: "?loop ig idx ms =
     (if n \<le> MASK_ALIGN \<and> tmp \<noteq> 0 then Some (Some (MASK_GET_IDX idx (MASK_ALIGN - clzll tmp - n)))
      else if dn = 0 then ?loop 0 (idx - 1) ms'
      else if ms' = [] then Some None
      else (case lookbehind used (n - dn) (idx - 1) ms' of
              None \<Rightarrow> None
            | Some Run_found \<Rightarrow> Some (Some (MASK_GET_IDX idx dn - n))
            | Some (Run_lost ig i rest) \<Rightarrow> ?loop ig (i - 1) rest
            | Some Run_out \<Rightarrow> ?loop 0 (idx - 1) ms'))"
    by (simp only: ms find_prev_n_loop.simps Let_def tmp_def dn_def ones_below_def cur_def)
  have go: ?case
    if "?loop ig' i rest = Some (Some r)" "rest = rev (take k' (fb_masks arr))" "k' < k" "k' \<noteq> 0 \<longrightarrow> unat i = k' - 1" for ig' i rest k'
  proof (rule less.hyps [OF _ that(1,2) _ that(4)])
    have "64 * (k - 1) \<le> s" using less.prems(6) mk(1) by simp
    moreover have "64 * k' \<le> 64 * (k - 1)" using that(3) by simp
    ultimately have le: "64 * k' \<le> s" by linarith
    show "64 * (k' - 1) + j \<le> s" if "k' \<noteq> 0" "j < 64" for j using le that by (cases k') simp_all
    show "k' \<noteq> 0 \<longrightarrow> 64 * (k' - 1) \<le> s" using le by (cases k') simp_all
    show "length rest < length ms" "k' \<le> length (fb_masks arr)" using that(2,3) less.prems(2,3) by simp_all
  qed
  have n0: "0 < unat n" using n by (simp add: unat_gt_0)
  have small: "?b + 64 < 2 ^ 32" using mk(2) len by simp
  show ?case
  proof (cases "n \<le> MASK_ALIGN \<and> tmp \<noteq> 0")
    case True
    note z = lead_ok [OF conjunct2 [OF True]]
    define e where "e = 63 - lead tmp"
    have e: "e < 64" "64 - lead tmp = Suc e" using z(1) by (simp_all add: e_def)
    have ones: "i < unat n \<Longrightarrow> i \<le> e \<and> bit cur (e - i)" for i using z(2) tmp [of e] by (simp add: e_def)
    have "unat n - 1 < unat n" using n0 by simp
    from ones [OF this] n0 have fit: "unat n \<le> Suc e" by linarith
    have "clzll tmp = of_nat (lead tmp)" using z(4) by (metis of_nat_unat ucast_id)
    then have run_start: "MASK_ALIGN - clzll tmp - n = of_nat (Suc e - unat n)" using z(1) fit e(2) by (simp add: of_nat_diff e_def)
    have lt: "Suc e - unat n < 64" using n0 e(1) by simp
    have "unat (MASK_GET_IDX idx (MASK_ALIGN - clzll tmp - n)) = ?b + (Suc e - unat n)"
      unfolding run_start MASK_GET_IDX_nat [OF lt] by (rule of_nat_inverse [OF refl]) (use small lt in simp)
    with True step less.prems(1) have r: "unat r = ?b + (Suc e - unat n)" by simp
    have "\<forall>i<unat n. bit cur (Suc e - unat n + i)"
    proof (intro allI impI)
      fix i
      assume i: "i < unat n"
      then have "Suc e - unat n + i = e - (unat n - Suc i)" "unat n - Suc i < unat n" using fit by simp_all
      then show "bit cur (Suc e - unat n + i)" using ones by metis
    qed
    then have "Suc e - unat n + unat n \<le> 64 \<and>
        (\<forall>i. ?b + (Suc e - unat n) \<le> i \<and> i < ?b + (Suc e - unat n) + unat n \<longrightarrow> fb_bit arr i = used)"
      by (rule run_in_mask [OF _ _ n0, rotated]) (rule bits(1))
    moreover have "?b + e \<le> s" using ones [of 0] n0 bits(2) [OF _ e(1)] by simp
    ultimately show ?thesis using r fit by simp
  next
    case no: False
    show ?thesis
    proof (cases "dn = 0")
      case True
      show ?thesis by (rule go [of 0 "idx - 1" ms' "k - 1"]) (use step no True less.prems(1) mk in auto)
    next
      case False
      have lt: "unat dn < unat n" unfolding dn_def by (rule short_below [OF n]) (use no in \<open>simp add: tmp_def\<close>)
      then have left: "unat (n - dn) = unat n - unat dn" "n - dn \<noteq> 0" by (auto simp: unat_sub_nowrap)
      note st = trans [OF sym [OF step] less.prems(1), unfolded if_not_P [OF no] if_not_P [OF False]]
      then obtain f where f: "lookbehind used (n - dn) (idx - 1) ms' = Some f" by (auto split: option.splits if_splits)
      have ne: "ms' \<noteq> []" using st by auto
      have k1: "k - 1 \<le> length (fb_masks arr)" using less.prems(3) by simp
      show ?thesis
      proof (cases f)
        case Run_found
        note lb = lookbehind_found [OF f [unfolded Run_found] mk(4) k1 left(2), unfolded left(1)]
        have b: "64 * (k - 1) = ?b" by (simp add: k)
        have "unat (MASK_GET_IDX idx dn) = ?b + unat dn"
          unfolding MASK_GET_IDX_word by (rule of_nat_inverse [OF refl]) (use small dn(1) in simp)
        then have r: "unat r = ?b + unat dn - unat n" using st f Run_found ne lb b by (auto simp: unat_sub_nowrap)
        have "\<forall>i. unat r \<le> i \<and> i < unat r + unat n \<longrightarrow> fb_bit arr i = used"
          unfolding r by (rule run_behind) (use bits(1) dn lb lt b in auto)
        moreover have "?b + (unat dn - 1) \<le> s"
          using bits(2) [OF dn(2), of "unat dn - 1"] dn(1) False by (simp add: unat_gt_0)
        moreover have "unat r + unat n = ?b + unat dn" using r conjunct1 [OF lb] lt b by linarith
        moreover have "0 < unat dn" using False by (simp add: unat_gt_0)
        ultimately show ?thesis by simp
      next
        case (Run_lost ig' i rest)
        from lookbehind_lost [OF f [unfolded Run_lost] left(2) mk(4) k1 mk(5)]
        have i: "unat i < k - 1" "rest = rev (take (unat i) (fb_masks arr))" by simp_all
        have "unat i \<noteq> 0 \<longrightarrow> unat (i - 1) = unat i - 1" by (auto simp: unat_sub_nowrap)
        then show ?thesis using go [of ig' "i - 1" rest "unat i"] st f Run_lost i ne by simp
      next
        case Run_out
        show ?thesis by (rule go [of 0 "idx - 1" ms' "k - 1"]) (use st f Run_out mk ne in auto)
      qed
    qed
  qed
qed

section \<open>Up to 64 entries nothing is undefined\<close>

lemma find_next_n_loop_defined:
  assumes "n \<noteq> 0" "unat n \<le> 64"
  shows "find_next_n_loop used n lst lm ig idx ms \<noteq> None"
proof (induction "length ms" arbitrary: idx ms ig rule: less_induct)
  case less
  show ?case
  proof (cases ms)
    case (Cons m ms')
    let ?look = "\<lambda>up. lookahead used (n - up) (idx + 1) ms'"
    have go: "find_next_n_loop used n lst lm ig' i rest \<noteq> None" if "length rest \<le> length ms'" for ig' i rest
      using that Cons by (intro less.hyps) simp
    define ig' where "ig' = (if idx = lst then ig OR lm else ig)"
    define cur where "cur = (if ig' \<noteq> 0 then mask_for used m AND ig' else mask_for used m)"
    define tmp where "tmp = and_shr (unat (n - 1)) cur"
    define up where "up = ones_above cur"
    have step: "find_next_n_loop used n lst lm ig idx ms =
       (if n \<le> MASK_ALIGN \<and> tmp \<noteq> 0 then Some (Some (MASK_GET_IDX idx (ctzll tmp)))
        else if up = 0 then find_next_n_loop used n lst lm 0 (idx + 1) ms'
        else (case ?look up of
                None \<Rightarrow> None
              | Some Run_found \<Rightarrow> Some (Some (MASK_GET_IDX idx (MASK_ALIGN - up)))
              | Some (Run_lost ig i rest) \<Rightarrow> find_next_n_loop used n lst lm ig (i + 1) rest
              | Some Run_out \<Rightarrow> find_next_n_loop used n lst lm 0 (idx + 1) ms'))"
      by (simp only: Cons find_next_n_loop.simps Let_def tmp_def up_def ones_above_def cur_def ig'_def)
    show ?thesis
    proof (cases "(n \<le> MASK_ALIGN \<and> tmp \<noteq> 0) \<or> up = 0")
      case True
      then show ?thesis using step go [OF order_refl] by auto
    next
      case False
      then have "unat up < unat n" unfolding up_def by (intro short_above [OF assms(1)]) (simp add: tmp_def)
      moreover have "0 < unat up" using False by (simp add: unat_gt_0)
      ultimately have "n - up \<noteq> 0" "unat (n - up) < 64" using assms(2) by (auto simp: unat_sub_nowrap)
      then obtain f where f: "?look up = Some f" using lookahead_defined by blast
      note st = step [unfolded f option.case]
      show ?thesis
      proof (cases f)
        case (Run_lost ig' i rest)
        have "length rest \<le> length ms'" using lookahead_shorter [OF f [unfolded Run_lost]] by simp
        from go [OF this] False st show ?thesis by (simp add: Run_lost)
      qed (use False st go [OF order_refl] in simp_all)
    qed
  qed simp
qed

lemma find_prev_n_loop_defined:
  assumes "n \<noteq> 0" "unat n \<le> 64"
  shows "find_prev_n_loop used n ig idx ms \<noteq> None"
proof (induction "length ms" arbitrary: idx ms ig rule: less_induct)
  case less
  show ?case
  proof (cases ms)
    case (Cons m ms')
    let ?look = "\<lambda>dn. lookbehind used (n - dn) (idx - 1) ms'"
    have go: "find_prev_n_loop used n ig' i rest \<noteq> None" if "length rest \<le> length ms'" for ig' i rest
      using that Cons by (intro less.hyps) simp
    define cur where "cur = (if ig \<noteq> 0 then mask_for used m AND ig else mask_for used m)"
    define tmp where "tmp = and_shl (unat (n - 1)) cur"
    define dn where "dn = ones_below cur"
    have step: "find_prev_n_loop used n ig idx ms =
       (if n \<le> MASK_ALIGN \<and> tmp \<noteq> 0 then Some (Some (MASK_GET_IDX idx (MASK_ALIGN - clzll tmp - n)))
        else if dn = 0 then find_prev_n_loop used n 0 (idx - 1) ms'
        else if ms' = [] then Some None
        else (case ?look dn of
                None \<Rightarrow> None
              | Some Run_found \<Rightarrow> Some (Some (MASK_GET_IDX idx dn - n))
              | Some (Run_lost ig i rest) \<Rightarrow> find_prev_n_loop used n ig (i - 1) rest
              | Some Run_out \<Rightarrow> find_prev_n_loop used n 0 (idx - 1) ms'))"
      by (simp only: Cons find_prev_n_loop.simps Let_def tmp_def dn_def ones_below_def cur_def)
    show ?thesis
    proof (cases "(n \<le> MASK_ALIGN \<and> tmp \<noteq> 0) \<or> dn = 0 \<or> ms' = []")
      case True
      then show ?thesis using step go [OF order_refl] by auto
    next
      case False
      then have "unat dn < unat n" unfolding dn_def by (intro short_below [OF assms(1)]) (simp add: tmp_def)
      moreover have "0 < unat dn" using False by (simp add: unat_gt_0)
      ultimately have "n - dn \<noteq> 0" "unat (n - dn) < 64" using assms(2) by (auto simp: unat_sub_nowrap)
      then obtain f where f: "?look dn = Some f" using lookbehind_defined by blast
      note st = step [unfolded f option.case]
      show ?thesis
      proof (cases f)
        case (Run_lost ig' i rest)
        have "length rest \<le> length ms'" using lookbehind_shorter [OF f [unfolded Run_lost]] by simp
        from go [OF this] False st show ?thesis by (simp add: Run_lost)
      qed (use False st go [OF order_refl] in simp_all)
    qed
  qed simp
qed

section \<open>The interface\<close>

lemma find_next_n_sound:
  assumes ok: "fb_ok arr" "64 dvd unat (fb_len arr)" and "start < fb_len arr" "n \<noteq> 0" "find_next_n arr start n used = Some (Inr r)"
  shows "unat start \<le> unat r \<and> fb_run arr used (unat r) (unat n)"
proof (rule find_next_n_loop_sound [OF ok assms(4)])
  define ig where "ig = NOT (push_bit (unat (MASK_LEN_TO_MOD start)) 1 - 1 :: u64)"
  show "find_next_n_loop used n (MASK_LEN_TO_IDX (fb_len arr)) (last_mask arr) ig (MASK_LEN_TO_IDX start)
      (drop (unat (MASK_LEN_TO_IDX start)) (fb_masks arr)) = Some (Some r)"
    using assms(5) by (auto simp: find_next_n_def Let_def ig_def split: option.splits)
  show "unat start < 64 * unat (MASK_LEN_TO_IDX start) + 64" using in_word [of "unat start"] by simp
  show "unat start \<le> 64 * unat (MASK_LEN_TO_IDX start) + j" if j: "j < 64" "ig = 0 \<or> bit ig j" for j
  proof -
    have g: "bit ig j \<longleftrightarrow> unat start mod 64 \<le> j" if "j < 64" for j
      using that by (simp only: ig_def unat_mod bit_from mod_less_divisor) simp
    have "bit ig 63" using g [of 63] mod_less_divisor [of 64 "unat start"] by simp
    then have "ig \<noteq> 0" by auto
    with j g show ?thesis using in_word_le [of "unat start" j] by simp
  qed
qed (rule refl)

lemma find_prev_n_sound:
  assumes ok: "fb_ok arr" and "start < fb_len arr" "n \<noteq> 0" "find_prev_n arr start n used = Some (Inr r)"
  shows "unat r + unat n \<le> Suc (unat start) \<and> (\<forall>i. unat r \<le> i \<and> i < unat r + unat n \<longrightarrow> fb_bit arr i = used)"
proof (rule find_prev_n_loop_sound [OF assms(3)])
  have lt: "unat start < unat (fb_len arr)" using assms(2) by (simp add: word_less_nat_alt)
  show "length (fb_masks arr) < 2 ^ 26" using ok by (auto simp: fb_ok_def)
  show "Suc (unat (MASK_LEN_TO_IDX start)) \<le> length (fb_masks arr)" using lt masks_bound(3) [OF ok] by simp
  let ?ig = "ignore_above (MASK_LEN_TO_MOD start)"
  show "find_prev_n_loop used n ?ig (MASK_LEN_TO_IDX start) (masks_down arr (MASK_LEN_TO_IDX start)) = Some (Some r)"
    using assms(4) by (auto simp: find_prev_n_def Let_def split: option.splits)
  have g: "bit ?ig j \<longleftrightarrow> j \<le> unat start mod 64" for j using bit_upto [of "MASK_LEN_TO_MOD start" j] by simp
  then have "bit ?ig 0" by blast
  then have "?ig \<noteq> 0" by auto
  then show "64 * (Suc (unat (MASK_LEN_TO_IDX start)) - 1) + j \<le> unat start" if "?ig = 0 \<or> bit ?ig j" for j
    using that g in_word_ge [of "unat start" j] by simp
qed (simp_all add: masks_down_def)

lemma whole_run:
  assumes "fb_ok arr" "start < fb_len arr" "n \<noteq> 0" "forward \<Longrightarrow> n \<le> fb_len arr - start" "\<not> forward \<Longrightarrow> n - 1 \<le> start"
    and "\<And>i. i < unat (fb_len arr) \<Longrightarrow> fb_bit arr i = used" "r = (if forward then start else start - n + 1)"
  shows "fb_run arr used (unat r) (unat n) \<and> in_range start (\<not> forward) (unat r) (unat n)"
proof -
  have lt: "unat start < unat (fb_len arr)" using assms(2) by (simp add: word_less_nat_alt)
  have n0: "0 < unat n" using assms(3) by (simp add: unat_gt_0)
  show ?thesis
  proof (cases forward)
    case True
    then have "unat n \<le> unat (fb_len arr) - unat start"
      using assms(4) lt by (simp add: word_le_nat_alt unat_sub_nowrap)
    then have "unat start + unat n \<le> unat (fb_len arr)" using lt by linarith
    with True assms(6,7) show ?thesis by (simp add: fb_run_def in_range_def)
  next
    case False
    have le: "unat n - 1 \<le> unat start" using assms(5) [OF False] assms(3) by (simp add: word_le_nat_alt unat_dec)
    have "r = start - (n - 1)" using False assms(7) by simp
    then have "unat r = unat start - (unat n - 1)" using le assms(3) by (simp add: unat_sub_nowrap unat_dec)
    then have "unat r + unat n = Suc (unat start)" using le n0 by linarith
    with False lt assms(6) show ?thesis by (simp add: fb_run_def in_range_def)
  qed
qed

lemma fbarray_find_n_sound:
  assumes ok: "fb_ok arr" and al: "forward \<Longrightarrow> 64 dvd unat (fb_len arr)" and f: "fbarray_find_n arr start n forward used = Some (Inr r)"
  shows "fb_run arr used (unat r) (unat n) \<and> in_range start (\<not> forward) (unat r) (unat n)"
proof -
  have s: "start < fb_len arr" and n: "n \<noteq> 0" using f by (auto simp: fbarray_find_n_def not_le split: if_splits)
  have room: "forward \<Longrightarrow> n \<le> fb_len arr - start" "\<not> forward \<Longrightarrow> n - 1 \<le> start"
    using f by (auto simp: fbarray_find_n_def not_le not_less split: if_splits)
  consider (free) "\<not> used" "fb_count arr = 0" "r = (if forward then start else start - n + 1)"
    | (full) used "fb_count arr = fb_len arr" "r = (if forward then start else start - n + 1)"
    | (fwd) forward "find_next_n arr start n used = Some (Inr r)"
    | (bwd) "\<not> forward" "find_prev_n arr start n used = Some (Inr r)"
    using f by (auto simp: fbarray_find_n_def split: if_splits)
  then show ?thesis
  proof cases
    case free
    show ?thesis by (rule whole_run [OF ok s n room _ free(3)]) (use free count_empty [OF ok] in auto)
  next
    case full
    show ?thesis by (rule whole_run [OF ok s n room _ full(3)]) (use full count_full [OF ok] in auto)
  next
    case fwd
    then show ?thesis using find_next_n_sound [OF ok al s n] by (simp add: in_range_def)
  next
    case bwd
    have "Suc (unat start) \<le> unat (fb_len arr)" using s by (simp add: word_less_nat_alt)
    moreover note run = find_prev_n_sound [OF ok s n bwd(2)]
    then have "unat r + unat n \<le> Suc (unat start)" by blast
    ultimately have "unat r + unat n \<le> unat (fb_len arr)" by (rule order_trans [rotated])
    with bwd(1) run show ?thesis by (simp add: in_range_def fb_run_def)
  qed
qed

lemma fbarray_find_n_defined:
  assumes "unat n \<le> 64"
  shows "fbarray_find_n arr start n forward used \<noteq> None"
  using find_next_n_loop_defined [OF _ assms] find_prev_n_loop_defined [OF _ assms]
  by (simp add: fbarray_find_n_def find_next_n_def find_prev_n_def Let_def)

end
