(* ===== verification/Fbarray_Files.thy ===== *)
theory Fbarray_Files
  imports Fbarray_Ops
begin

text \<open>
  Where an array lives: the file behind it, its mapping, and the list of mapped areas of the
  process (\<open>rte_fbarray_init\<close>, \<open>rte_fbarray_attach\<close>, \<open>rte_fbarray_detach\<close> and
  \<open>rte_fbarray_destroy\<close> of \<open>lib/eal/common/eal_common_fbarray.c\<close>). The answers of the
  operating system are parameters.
\<close>

section \<open>The process and the operating system\<close>

record mem_area =
  ma_addr :: addr
  ma_len :: u64
  ma_fd :: int

text \<open>\<open>fw_areas\<close> is \<open>mem_area_tailq\<close>; the rest is what the process holds of the system.\<close>

record fb_world =
  fw_areas :: "mem_area list"
  fw_maps :: "(addr \<times> u64) list"
  fw_fds :: "int list"

text \<open>
  \<open>fe_errno\<close> is the \<open>rte_errno\<close> that a failed call below leaves; a virtual area is asked for at
  an address or anywhere (\<open>NULL\<close>), a lock is exclusive or shared, and \<open>fe_unlink\<close> is 0 or an
  errno.
\<close>

record fb_env =
  fe_errno :: int
  fe_malloc :: bool
  fe_page_sz :: u64
  fe_no_shconf :: bool
  fe_virtual_area :: "addr \<Rightarrow> u64 \<Rightarrow> u64 \<Rightarrow> addr"
  fe_remap :: "addr \<Rightarrow> u64 \<Rightarrow> addr"
  fe_open :: "string \<Rightarrow> bool \<Rightarrow> int"
  fe_lock :: "int \<Rightarrow> bool \<Rightarrow> bool"
  fe_truncate :: "int \<Rightarrow> u64 \<Rightarrow> bool"
  fe_map :: "addr \<Rightarrow> u64 \<Rightarrow> int \<Rightarrow> addr"
  fe_unlink :: "string \<Rightarrow> int"

definition map_area :: "addr \<Rightarrow> u64 \<Rightarrow> fb_world \<Rightarrow> fb_world" where
  "map_area addr len w = w\<lparr>fw_maps := (addr, len) # fw_maps w\<rparr>"

definition rte_mem_unmap :: "addr \<Rightarrow> u64 \<Rightarrow> fb_world \<Rightarrow> fb_world" where
  "rte_mem_unmap addr len w = w\<lparr>fw_maps := remove1 (addr, len) (fw_maps w)\<rparr>"

definition open_fd :: "int \<Rightarrow> fb_world \<Rightarrow> fb_world" where
  "open_fd fd w = w\<lparr>fw_fds := fd # fw_fds w\<rparr>"

definition close_fd :: "int \<Rightarrow> fb_world \<Rightarrow> fb_world" where
  "close_fd fd w = w\<lparr>fw_fds := remove1 fd (fw_fds w)\<rparr>"

section \<open>Making and attaching\<close>

definition overlap :: "mem_area \<Rightarrow> addr \<Rightarrow> u64 \<Rightarrow> bool" where
  "overlap ma start len =
     (let stop = start + len; ma_start = ma_addr ma; ma_end = ma_addr ma + ma_len ma
      in if ma_start \<le> start \<and> start < ma_end then True
         else if ma_start < stop \<and> stop < ma_end then True
         else False)"

definition resize_and_map :: "fb_env \<Rightarrow> int \<Rightarrow> addr \<Rightarrow> u64 \<Rightarrow> bool" where
  "resize_and_map env fd addr len = (fe_truncate env fd len \<and> fe_map env addr len fd = addr)"

text \<open>The label \<open>fail\<close> of both functions.\<close>

definition fbarray_fail :: "addr \<Rightarrow> u64 \<Rightarrow> int \<Rightarrow> fb_world \<Rightarrow> fb_world" where
  "fbarray_fail data mmap_len fd w =
     (let w = (if data \<noteq> NULL then rte_mem_unmap data mmap_len w else w)
      in if 0 \<le> fd then close_fd fd w else w)"

definition rte_fbarray_init ::
  "fb_env \<Rightarrow> fb_world \<Rightarrow> string option \<Rightarrow> u32 \<Rightarrow> u32 \<Rightarrow> (int + rte_fbarray) \<times> fb_world" where
  "rte_fbarray_init env w name len elt_sz =
     (case fully_validate name elt_sz len of
        Some e \<Rightarrow> (Inl e, w)
      | None \<Rightarrow>
          if \<not> fe_malloc env then (Inl ENOMEM, w)
          else if fe_page_sz env = - 1 then (Inl (fe_errno env), w)
          else
            let name = the name;
                mmap_len = calc_data_size (fe_page_sz env) elt_sz len;
                data = fe_virtual_area env NULL mmap_len (fe_page_sz env)
            in if data = NULL then (Inl (fe_errno env), w)
               else
                 let w = map_area data mmap_len w;
                     good = (\<lambda>fd w. (Inr (fbarray_new data name len elt_sz),
                       w\<lparr>fw_areas := fw_areas w @ [\<lparr>ma_addr = data, ma_len = mmap_len, ma_fd = fd\<rparr>]\<rparr>));
                     fail = (\<lambda>e fd w. (Inl e, fbarray_fail data mmap_len fd w))
                 in if fe_no_shconf env then
                      if fe_remap env data mmap_len = NULL then fail (fe_errno env) (- 1) w else good (- 1) w
                    else
                      let fd = fe_open env name True
                      in if fd < 0 then fail (fe_errno env) fd w
                         else
                           let w = open_fd fd w
                           in if \<not> fe_lock env fd True then fail EBUSY fd w
                              else if \<not> fe_lock env fd False then fail (fe_errno env) fd w
                              else if \<not> resize_and_map env fd data mmap_len then fail (fe_errno env) fd w
                              else good fd w)"

definition rte_fbarray_attach :: "fb_env \<Rightarrow> fb_world \<Rightarrow> rte_fbarray \<Rightarrow> int option \<times> fb_world" where
  "rte_fbarray_attach env w arr =
     (case fully_validate (Some (fb_name arr)) (fb_elt_sz arr) (fb_len arr) of
        Some e \<Rightarrow> (Some e, w)
      | None \<Rightarrow>
          if \<not> fe_malloc env then (Some ENOMEM, w)
          else if fe_page_sz env = - 1 then (Some (fe_errno env), w)
          else
            let mmap_len = calc_data_size (fe_page_sz env) (fb_elt_sz arr) (fb_len arr)
            in if \<exists>tmp\<in>set (fw_areas w). overlap tmp (fb_data arr) mmap_len then (Some EEXIST, w)
               else
                 let data = fe_virtual_area env (fb_data arr) mmap_len (fe_page_sz env)
                 in if data = NULL then (Some (fe_errno env), w)
                    else
                      let w = map_area data mmap_len w; fd = fe_open env (fb_name arr) False
                      in if fd < 0 then (Some (fe_errno env), fbarray_fail data mmap_len fd w)
                         else
                           let w = open_fd fd w
                           in if \<not> fe_lock env fd False \<or> \<not> resize_and_map env fd data mmap_len then
                                (Some (fe_errno env), fbarray_fail data mmap_len fd w)
                              else (None, w\<lparr>fw_areas := fw_areas w @ [\<lparr>ma_addr = data, ma_len = mmap_len, ma_fd = fd\<rparr>]\<rparr>))"

section \<open>Detaching and destroying\<close>

definition find_area :: "fb_world \<Rightarrow> addr \<Rightarrow> u64 \<Rightarrow> mem_area option" where
  "find_area w addr len = find (\<lambda>tmp. ma_addr tmp = addr \<and> ma_len tmp = len) (fw_areas w)"

definition rte_fbarray_detach :: "fb_env \<Rightarrow> fb_world \<Rightarrow> rte_fbarray \<Rightarrow> int option \<times> fb_world" where
  "rte_fbarray_detach env w arr =
     (if fe_page_sz env = - 1 then (Some (fe_errno env), w)
      else
        let mmap_len = calc_data_size (fe_page_sz env) (fb_elt_sz arr) (fb_len arr)
        in case find_area w (fb_data arr) mmap_len of
             None \<Rightarrow> (Some ENOENT, w)
           | Some tmp \<Rightarrow>
               let w = rte_mem_unmap (fb_data arr) mmap_len w;
                   w = (if 0 \<le> ma_fd tmp then close_fd (ma_fd tmp) w else w)
               in (None, w\<lparr>fw_areas := remove1 tmp (fw_areas w)\<rparr>))"

text \<open>The second component is the array, cleared if it has been destroyed.\<close>

definition fbarray_zero :: rte_fbarray where
  "fbarray_zero = \<lparr>fb_name = [], fb_count = 0, fb_len = 0, fb_elt_sz = 0, fb_data = NULL, fb_masks = []\<rparr>"

definition rte_fbarray_destroy ::
  "fb_env \<Rightarrow> fb_world \<Rightarrow> rte_fbarray \<Rightarrow> int option \<times> rte_fbarray \<times> fb_world" where
  "rte_fbarray_destroy env w arr =
     (if fe_page_sz env = - 1 then (Some (fe_errno env), arr, w)
      else
        let mmap_len = calc_data_size (fe_page_sz env) (fb_elt_sz arr) (fb_len arr)
        in case find_area w (fb_data arr) mmap_len of
             None \<Rightarrow> (Some ENOENT, arr, w)
           | Some tmp \<Rightarrow>
               let unmap = (\<lambda>w. (None, fbarray_zero,
                     (rte_mem_unmap (fb_data arr) mmap_len w)\<lparr>fw_areas := remove1 tmp (fw_areas w)\<rparr>))
               in if fe_no_shconf env then unmap w
                  else if \<not> fe_lock env (ma_fd tmp) True then (Some EBUSY, arr, w)
                  else if fe_unlink env (fb_name arr) \<noteq> 0 then (Some (fe_unlink env (fb_name arr)), arr, w)
                  else unmap (close_fd (ma_fd tmp) w))"

section \<open>Nothing is left behind\<close>

lemma unmap_map [simp]: "rte_mem_unmap a l (map_area a l w) = w"
  by (simp add: rte_mem_unmap_def map_area_def)

lemma close_open [simp]: "close_fd fd (open_fd fd w) = w"
  by (simp add: close_fd_def open_fd_def)

lemma unmap_open [simp]: "rte_mem_unmap a l (open_fd fd w) = open_fd fd (rte_mem_unmap a l w)"
  by (simp add: rte_mem_unmap_def open_fd_def)

lemma fail_fd: "data \<noteq> NULL \<Longrightarrow> 0 \<le> fd \<Longrightarrow> fbarray_fail data l fd (open_fd fd (map_area data l w)) = w"
  by (simp add: fbarray_fail_def Let_def)

lemma fail_no_fd: "data \<noteq> NULL \<Longrightarrow> fd < 0 \<Longrightarrow> fbarray_fail data l fd (map_area data l w) = w"
  by (simp add: fbarray_fail_def Let_def)

lemma init_fails_clean:
  assumes "rte_fbarray_init env w name len elt_sz = (Inl e, w')"
  shows "w' = w"
  using assms
  by (auto simp: rte_fbarray_init_def Let_def fail_fd fail_no_fd not_less split: option.splits if_splits)

lemma attach_fails_clean:
  assumes "rte_fbarray_attach env w arr = (Some e, w')"
  shows "w' = w"
  using assms
  by (auto simp: rte_fbarray_attach_def Let_def fail_fd fail_no_fd not_less split: option.splits if_splits)

lemma init_adds:
  assumes "rte_fbarray_init env w name len elt_sz = (Inr arr, w')"
  shows "\<exists>data fd. data \<noteq> NULL \<and> data = fe_virtual_area env NULL (calc_data_size (fe_page_sz env) elt_sz len) (fe_page_sz env) \<and>
    fe_page_sz env \<noteq> - 1 \<and> (fe_no_shconf env \<longrightarrow> fd = - 1) \<and> (\<not> fe_no_shconf env \<longrightarrow> 0 \<le> fd \<and> fd = fe_open env (the name) True) \<and>
    fully_validate name elt_sz len = None \<and> arr = fbarray_new data (the name) len elt_sz \<and>
    w' = (let l = calc_data_size (fe_page_sz env) elt_sz len; w = map_area data l w; w = (if fe_no_shconf env then w else open_fd fd w)
          in w\<lparr>fw_areas := fw_areas w @ [\<lparr>ma_addr = data, ma_len = l, ma_fd = fd\<rparr>]\<rparr>)"
  using assms by (auto simp: rte_fbarray_init_def Let_def not_less split: option.splits if_splits)

lemma find_area_new:
  assumes "\<forall>ma\<in>set (fw_areas w). ma_addr ma \<noteq> a"
  shows "find (\<lambda>tmp. ma_addr tmp = a \<and> ma_len tmp = l) (fw_areas w @ [\<lparr>ma_addr = a, ma_len = l, ma_fd = fd\<rparr>]) =
      Some \<lparr>ma_addr = a, ma_len = l, ma_fd = fd\<rparr>"
    "remove1 \<lparr>ma_addr = a, ma_len = l, ma_fd = fd\<rparr> (fw_areas w @ [\<lparr>ma_addr = a, ma_len = l, ma_fd = fd\<rparr>]) = fw_areas w"
proof -
  have n: "\<lparr>ma_addr = a, ma_len = l, ma_fd = fd\<rparr> \<notin> set (fw_areas w)" using assms by force
  then show "remove1 \<lparr>ma_addr = a, ma_len = l, ma_fd = fd\<rparr> (fw_areas w @ [\<lparr>ma_addr = a, ma_len = l, ma_fd = fd\<rparr>]) = fw_areas w"
    by (simp add: remove1_append)
  have "find (\<lambda>tmp. ma_addr tmp = a \<and> ma_len tmp = l) (fw_areas w) = None" using assms by (auto simp: find_None_iff)
  then show "find (\<lambda>tmp. ma_addr tmp = a \<and> ma_len tmp = l) (fw_areas w @ [\<lparr>ma_addr = a, ma_len = l, ma_fd = fd\<rparr>]) =
      Some \<lparr>ma_addr = a, ma_len = l, ma_fd = fd\<rparr>" by (simp add: find_append)
qed

lemma init_undone:
  assumes "rte_fbarray_init env w name len elt_sz = (Inr arr, w')" "\<forall>ma\<in>set (fw_areas w). ma_addr ma \<noteq> fb_data arr"
  shows "rte_fbarray_detach env w' arr = (None, w)"
    "fe_no_shconf env \<or> fe_lock env (fe_open env (the name) True) True \<and> fe_unlink env (fb_name arr) = 0 \<Longrightarrow>
      rte_fbarray_destroy env w' arr = (None, fbarray_zero, w)"
    "\<not> (fe_no_shconf env \<or> fe_lock env (fe_open env (the name) True) True \<and> fe_unlink env (fb_name arr) = 0) \<Longrightarrow>
      \<exists>e. rte_fbarray_destroy env w' arr = (Some e, arr, w')"
proof -
  from init_adds [OF assms(1)] obtain data fd where i: "fe_page_sz env \<noteq> - 1" "arr = fbarray_new data (the name) len elt_sz"
    "fe_no_shconf env \<longrightarrow> fd = - 1" "\<not> fe_no_shconf env \<longrightarrow> 0 \<le> fd \<and> fd = fe_open env (the name) True"
    "w' = (let l = calc_data_size (fe_page_sz env) elt_sz len; w = map_area data l w; w = (if fe_no_shconf env then w else open_fd fd w)
          in w\<lparr>fw_areas := fw_areas w @ [\<lparr>ma_addr = data, ma_len = l, ma_fd = fd\<rparr>]\<rparr>)" by blast
  define l where "l = calc_data_size (fe_page_sz env) elt_sz len"
  have a: "fb_data arr = data" "fb_elt_sz arr = elt_sz" "fb_len arr = len" "fb_name arr = the name" by (simp_all add: i(2) fbarray_new_def)
  note n = find_area_new [OF assms(2) [unfolded a(1)], of l]
  have w': "fw_areas w' = fw_areas w @ [\<lparr>ma_addr = data, ma_len = l, ma_fd = fd\<rparr>]" "fw_maps w' = (data, l) # fw_maps w"
    "fw_fds w' = (if fe_no_shconf env then fw_fds w else fd # fw_fds w)"
    by (simp_all add: i(5) l_def Let_def map_area_def open_fd_def)
  have f: "find_area w' data l = Some \<lparr>ma_addr = data, ma_len = l, ma_fd = fd\<rparr>" by (simp add: find_area_def w'(1) n(1))
  have eq: "w1 = w" if "fw_areas w1 = fw_areas w" "fw_maps w1 = fw_maps w" "fw_fds w1 = fw_fds w" for w1 using that by simp
  show "rte_fbarray_detach env w' arr = (None, w)"
    using i(1,3,4) f by (auto simp: rte_fbarray_detach_def a l_def [symmetric] w' n(2) rte_mem_unmap_def close_fd_def Let_def intro!: eq)
  show "rte_fbarray_destroy env w' arr = (None, fbarray_zero, w)"
    if "fe_no_shconf env \<or> fe_lock env (fe_open env (the name) True) True \<and> fe_unlink env (fb_name arr) = 0"
    using that i(1,3,4) f
    by (auto simp: rte_fbarray_destroy_def a l_def [symmetric] w' n(2) rte_mem_unmap_def close_fd_def Let_def intro!: eq)
  show "\<exists>e. rte_fbarray_destroy env w' arr = (Some e, arr, w')"
    if "\<not> (fe_no_shconf env \<or> fe_lock env (fe_open env (the name) True) True \<and> fe_unlink env (fb_name arr) = 0)"
    using that i(1,4) f by (auto simp: rte_fbarray_destroy_def a l_def [symmetric] Let_def)
qed

end
