(* ===== verification/Fbarray_Properties.thy ===== *)
theory Fbarray_Properties
  imports Fbarray_Runs_Ok Fbarray_Files
begin

text \<open>Properties of arrays with a mask of used entries.\<close>

section \<open>An array for the witnesses\<close>

text \<open>An array of \<open>len\<close> entries of 8 bytes at address 4096 of which those of \<open>xs\<close> have been marked.\<close>

definition array_of :: "u32 \<Rightarrow> u32 list \<Rightarrow> rte_fbarray" where
  "array_of len xs =
     fold (\<lambda>i arr. case rte_fbarray_set_used arr i of Inl _ \<Rightarrow> arr | Inr arr \<Rightarrow> arr) xs
       (fbarray_new 4096 ''memzone'' len 8)"

lemma array_of_ok:
  assumes "len \<noteq> 0" "len \<le> 0x7fffffff"
  shows "fb_ok (array_of len xs) \<and> fb_len (array_of len xs) = len"
proof -
  define arr where "arr = fbarray_new 4096 ''memzone'' len 8"
  have "fully_validate (Some ''memzone'') 8 len = None"
    using assms by (simp add: fully_validate_def RTE_FBARRAY_NAME_LEN_def)
  from fbarray_new_ok [OF this arr_def] have "fb_ok arr" "fb_len arr = len" by simp_all
  then show ?thesis unfolding array_of_def arr_def [symmetric]
  proof (induction xs arbitrary: arr)
    case (Cons i xs)
    show ?case
    proof (cases "i < fb_len arr")
      case True
      with set_used_ok [OF Cons.prems(1), of i True] obtain arr' where
        "rte_fbarray_set_used arr i = Inr arr'" "fb_ok arr'" "fb_len arr' = len"
        using Cons.prems(2) by (auto simp: rte_fbarray_set_used_def)
      then show ?thesis using Cons.IH [of arr'] by simp
    next
      case False
      then have "rte_fbarray_set_used arr i = Inl EINVAL" by (simp only: rte_fbarray_set_used_def set_used_def Let_def not_less if_True)
      then show ?thesis using Cons.IH [OF Cons.prems] by simp
    qed
  qed simp
qed

text \<open>Following a run by 64 entries and losing it.\<close>

lemma shift_by_64: "find_next_n_loop False 66 lst lm ig 0 [2 ^ 61, 1, 0] = None" if "lst = 3" "ig = - 1"
proof -
  have "lookahead False 64 1 [1, 0] = None"
    using lookahead_step [of 64 64 False 1 1 "[0]"] by (auto simp: mask_for_def shl64_def bit_not_iff dest!: spec [of _ 0])
  moreover have "NOT (2 ^ 61 :: u64) AND - 1 = NOT (2 ^ 61)" "NOT (NOT (2 ^ 61)) = (2 ^ 61 :: u64)" "clzll (2 ^ 61) = 2"
    by (simp, simp, code_simp)
  ultimately show ?thesis by (simp add: that mask_for_def Let_def)
qed

section \<open>Searches\<close>

text \<open>
  C20: in an array whose mask and count agree, the search for the next or previous used or free
  entry is a linear search from the given entry, which fails with \<open>ENOENT\<close> or \<open>ENOSPC\<close> if there
  is none, and the length of a run is the number of entries alike from the given one on: the
  masks read 64 entries at a time, the bits cut off at both ends and the shortcuts for empty and
  full arrays change nothing.
\<close>

theorem fbarray_searches_linear:
  assumes "fb_ok arr" "start < fb_len arr"
  shows "fbarray_find arr start forward used =
      (case find (\<lambda>i. fb_bit arr i = used) (fb_span arr start forward) of
         None \<Rightarrow> Inl (if used then ENOENT else ENOSPC) | Some i \<Rightarrow> Inr (of_nat i)) \<and>
    (\<exists>n. fbarray_find_contig arr start forward used = Inr n \<and>
      unat n = length (takeWhile (\<lambda>i. fb_bit arr i = used) (fb_span arr start forward)))"
  using fbarray_find_linear [OF assms] fbarray_find_contig_linear [OF assms] by blast

theorem fbarray_searches_linear_witness:
  "rte_fbarray_find_next_used (array_of 100 [3, 70, 71]) 4 = Inr 70 \<and>
   rte_fbarray_find_contig_free (array_of 100 [3, 70, 71]) 4 = Inr 66"
proof -
  have ok: "fb_ok (array_of 100 [3, 70, 71])" "fb_len (array_of 100 [3, 70, 71]) = 100" using array_of_ok by simp_all
  have "find (\<lambda>i. fb_bit (array_of 100 [3, 70, 71]) i = True) (fb_span (array_of 100 [3, 70, 71]) 4 True) = Some 70"
    "length (takeWhile (\<lambda>i. fb_bit (array_of 100 [3, 70, 71]) i = False) (fb_span (array_of 100 [3, 70, 71]) 4 True)) = 66"
    by code_simp+
  then show ?thesis
    using fbarray_searches_linear [OF ok(1), of 4 True True] fbarray_searches_linear [OF ok(1), of 4 True False] ok(2)
    by (auto simp: rte_fbarray_find_next_used_def rte_fbarray_find_contig_free_def word_unat_eq_iff)
qed

text \<open>
  C21: the search for the biggest run ends; if there is a used (free) entry in its range it
  returns the first entry of a run that lies in the range and is at least as long as every other
  run there, otherwise it fails.
\<close>

theorem fbarray_biggest_found:
  assumes "fb_ok arr" "start < fb_len arr"
  shows "\<exists>r. fbarray_find_biggest arr start used rv = Some r \<and>
    (case r of
       Inl e \<Rightarrow> e = (if used then ENOENT else ENOSPC) \<and> (\<forall>a n. fb_run arr used a n \<and> in_range start rv a n \<longrightarrow> n = 0)
     | Inr i \<Rightarrow> \<exists>a n. i = int a \<and> 0 < n \<and> fb_run arr used a n \<and> in_range start rv a n \<and>
         (\<forall>b m. fb_run arr used b m \<and> in_range start rv b m \<longrightarrow> m \<le> n))"
  using assms by (rule fbarray_find_biggest_ok)

theorem fbarray_biggest_found_witness:
  "\<exists>i. rte_fbarray_find_biggest_used (array_of 100 [3, 70, 71]) 0 = Some (Inr i)"
proof -
  have ok: "fb_ok (array_of 100 [3, 70, 71])" "fb_len (array_of 100 [3, 70, 71]) = 100" using array_of_ok by simp_all
  have "fb_bit (array_of 100 [3, 70, 71]) 3" by code_simp
  then have "fb_bit (array_of 100 [3, 70, 71]) i" if "3 \<le> i" "i < 3 + 1" for i
    using that by (subgoal_tac "i = 3") simp_all
  then have "fb_run (array_of 100 [3, 70, 71]) True 3 1" "in_range 0 False 3 1"
    by (auto simp: fb_run_def in_range_def ok(2))
  then show ?thesis
    using fbarray_biggest_found [OF ok(1), of 0 True False] ok(2)
    by (fastforce simp: rte_fbarray_find_biggest_used_def split: sum.splits)
qed



text \<open>
  On concrete arrays: the search for \<open>n\<close> consecutive entries fails its purpose in five ways. In the mask of the
  last entries the two ignore masks are united instead of intersected, so that a run may lie
  before the entry to start from or reach behind the end of the array; a run followed into the
  last mask may reach behind the end as well; after a run was lost in a mask the rest of this
  mask is skipped, so that a run in it is missed, forwards and backwards; and following a run by
  64 or more entries shifts by 64, which is undefined. The size of the memory for the entries is
  computed in 32 bits and may be too small, and the test of overlapping areas misses one that
  lies inside the new one.
\<close>

lemma fbarray_fault_examples:
  "rte_fbarray_find_next_n_used (array_of 10 [0, 1, 5, 7]) 4 2 = Some (Inr 0) \<and>
   rte_fbarray_find_next_n_free (array_of 10 [0, 2, 4, 6, 8]) 0 3 = Some (Inr 9) \<and>
   rte_fbarray_find_next_n_free (array_of 65 [60]) 58 5 = Some (Inr 61) \<and>
   rte_fbarray_find_next_n_used (array_of 128 [63, 65, 66]) 0 2 = Some (Inl ENOENT) \<and>
   rte_fbarray_find_prev_n_used (array_of 128 [60, 61, 64]) 127 2 = Some (Inl ENOENT) \<and>
   rte_fbarray_find_next_n_free (array_of 192 [61, 64]) 0 66 = None \<and>
   calc_data_size 4096 0x10000 0x10000 < 0x10000 * 0x10000 \<and>
   \<not> overlap \<lparr>ma_addr = 0x3000, ma_len = 0x1000, ma_fd = 3\<rparr> 0x1000 0x5000"
proof (intro conjI)
  let ?arr = "array_of 192 [61, 64]"
  have "fb_len ?arr = 192" "fb_count ?arr = 2" "fb_masks ?arr = [2 ^ 61, 1, 0]" by code_simp+
  moreover have "MASK_LEN_TO_IDX 192 = 3" "MASK_LEN_TO_IDX 0 = 0" "MASK_LEN_TO_MOD 0 = 0" by code_simp+
  ultimately show "rte_fbarray_find_next_n_free ?arr 0 66 = None"
    using shift_by_64 [of 3 "- 1" "last_mask ?arr"]
    by (simp add: rte_fbarray_find_next_n_free_def fbarray_find_n_def find_next_n_def)
qed code_simp+

section \<open>Marking\<close>

text \<open>
  C22: marking an entry as used or free keeps mask and count in agreement,
  changes this entry and no other, and is what \<open>rte_fbarray_is_used\<close> reads back.
\<close>

theorem fbarray_marking:
  assumes "fb_ok arr" "idx < fb_len arr"
  shows "\<exists>arr'. (if used then rte_fbarray_set_used arr idx else rte_fbarray_set_free arr idx) = Inr arr' \<and> fb_ok arr' \<and>
    fb_len arr' = fb_len arr \<and> fb_used arr' = (if used then insert (unat idx) (fb_used arr) else fb_used arr - {unat idx}) \<and>
    (\<forall>j<fb_len arr. rte_fbarray_is_used arr' j = (if j = idx then Inr used else rte_fbarray_is_used arr j))"
proof -
  obtain arr' where a: "set_used arr idx used = Inr arr'" "fb_ok arr'" "fb_len arr' = fb_len arr"
    "fb_used arr' = (if used then insert (unat idx) (fb_used arr) else fb_used arr - {unat idx})"
    using set_used_ok [OF assms] by blast
  have "rte_fbarray_is_used arr' j = (if j = idx then Inr used else rte_fbarray_is_used arr j)" if j: "j < fb_len arr" for j
  proof -
    have "unat j < unat (fb_len arr)" using j by (simp add: word_less_nat_alt)
    then have "fb_bit arr' (unat j) \<longleftrightarrow> unat j \<in> fb_used arr'" "fb_bit arr (unat j) \<longleftrightarrow> unat j \<in> fb_used arr"
      using a(3) by (simp_all add: fb_used_def)
    moreover have "unat j = unat idx \<longleftrightarrow> j = idx" by (simp add: word_unat_eq_iff)
    ultimately show ?thesis using j a(3,4) by (auto simp: is_used_ok)
  qed
  with a show ?thesis by (auto simp: rte_fbarray_set_used_def rte_fbarray_set_free_def)
qed

theorem fbarray_marking_witness:
  "\<exists>arr'. rte_fbarray_set_free (array_of 100 [3, 70]) 70 = Inr arr' \<and> rte_fbarray_is_used arr' 70 = Inr False"
proof -
  have ok: "fb_ok (array_of 100 [3, 70])" "fb_len (array_of 100 [3, 70]) = 100" using array_of_ok by simp_all
  have "70 < fb_len (array_of 100 [3, 70])" by (simp add: ok(2))
  from fbarray_marking [OF ok(1) this, of False] this show ?thesis by force
qed

text \<open>
  The index of an entry and its address determine each other, as long as the array ends below
  4 GiB and inside the address space.
\<close>

theorem fbarray_address_roundtrip:
  assumes "fb_ok arr" "idx < fb_len arr" "fb_elt_sz arr \<noteq> 0" "fb_data arr \<noteq> NULL"
    and "unat (fb_elt_sz arr) * unat (fb_len arr) < 2 ^ 32"
    and "unat (fb_data arr) + unat (fb_elt_sz arr) * unat (fb_len arr) < 2 ^ 64"
  shows "\<exists>a. rte_fbarray_get arr idx = Inr a \<and> rte_fbarray_find_idx arr a = Inr (uint idx)"
proof -
  define a where "a = fb_data arr + ucast (idx * fb_elt_sz arr)"
  have "rte_fbarray_get arr idx = Inr a" using assms(2) by (simp add: rte_fbarray_get_def a_def not_le)
  moreover from find_idx_get [OF assms this] have "rte_fbarray_find_idx arr a = Inr (uint idx)" by simp
  ultimately show ?thesis by blast
qed

theorem fbarray_address_roundtrip_witness:
  "rte_fbarray_get (array_of 100 []) 70 = Inr 4656 \<and> rte_fbarray_find_idx (array_of 100 []) 4656 = Inr 70"
proof -
  have ok: "fb_ok (array_of 100 [])" "fb_len (array_of 100 []) = 100" using array_of_ok by simp_all
  have e: "fb_elt_sz (array_of 100 []) = 8" "fb_data (array_of 100 []) = 4096" "rte_fbarray_get (array_of 100 []) 70 = Inr 4656"
    by code_simp+
  show ?thesis using fbarray_address_roundtrip [OF ok(1), of 70] ok(2) e by simp
qed

section \<open>Files and mappings\<close>

text \<open>
  C24: an array that cannot be made or attached leaves no mapping, descriptor or entry in the list
  of areas behind. An array that has been made is empty, with mask and count in agreement;
  detaching it restores what was before, and so does destroying it, if it succeeds, while an
  array that cannot be destroyed keeps everything.
\<close>

theorem fbarray_resources:
  "(rte_fbarray_init env w name len elt_sz = (Inl e, w') \<longrightarrow> w' = w) \<and>
   (rte_fbarray_attach env w arr = (Some e, w') \<longrightarrow> w' = w) \<and>
   (rte_fbarray_init env w name len elt_sz = (Inr arr, w') \<and> (\<forall>ma\<in>set (fw_areas w). ma_addr ma \<noteq> fb_data arr) \<longrightarrow>
      fb_ok arr \<and> fb_used arr = {} \<and> rte_fbarray_detach env w' arr = (None, w) \<and>
      (rte_fbarray_destroy env w' arr = (None, fbarray_zero, w) \<or> (\<exists>e. rte_fbarray_destroy env w' arr = (Some e, arr, w'))))"
proof (intro conjI impI)
  show "rte_fbarray_init env w name len elt_sz = (Inl e, w') \<Longrightarrow> w' = w" by (rule init_fails_clean)
  show "rte_fbarray_attach env w arr = (Some e, w') \<Longrightarrow> w' = w" by (rule attach_fails_clean)
  assume "rte_fbarray_init env w name len elt_sz = (Inr arr, w') \<and> (\<forall>ma\<in>set (fw_areas w). ma_addr ma \<noteq> fb_data arr)"
  then have i: "rte_fbarray_init env w name len elt_sz = (Inr arr, w')" "\<forall>ma\<in>set (fw_areas w). ma_addr ma \<noteq> fb_data arr" by blast+
  obtain data where "fully_validate name elt_sz len = None" "arr = fbarray_new data (the name) len elt_sz"
    using init_adds [OF i(1)] by blast
  from fbarray_new_ok [OF this] show "fb_ok arr" "fb_used arr = {}" by simp_all
  show "rte_fbarray_detach env w' arr = (None, w)" by (rule init_undone(1) [OF i])
  show "rte_fbarray_destroy env w' arr = (None, fbarray_zero, w) \<or> (\<exists>e. rte_fbarray_destroy env w' arr = (Some e, arr, w'))"
    using init_undone(2,3) [OF i] by blast
qed

definition example_fb_env :: fb_env where
  "example_fb_env =
     \<lparr>fe_errno = 12, fe_malloc = True, fe_page_sz = 4096, fe_no_shconf = False, fe_virtual_area = (\<lambda>_ _ _. 0x100000),
       fe_remap = (\<lambda>a _. a), fe_open = (\<lambda>_ _. 5), fe_lock = (\<lambda>_ _. True), fe_truncate = (\<lambda>_ _. True),
       fe_map = (\<lambda>a _ _. a), fe_unlink = (\<lambda>_. 0)\<rparr>"

theorem fbarray_resources_witness:
  "(let w = \<lparr>fw_areas = [], fw_maps = [], fw_fds = []\<rparr>;
        (r, w') = rte_fbarray_init example_fb_env w (Some ''memzone'') 100 8
    in w' \<noteq> w \<and> rte_fbarray_detach example_fb_env w' (projr r) = (None, w))"
proof -
  define w :: fb_world where "w = \<lparr>fw_areas = [], fw_maps = [], fw_fds = []\<rparr>"
  define i where "i = rte_fbarray_init example_fb_env w (Some ''memzone'') 100 8"
  have "(case fst i of Inl _ \<Rightarrow> False | Inr _ \<Rightarrow> True) \<and> fw_fds (snd i) = [5]" unfolding i_def w_def by code_simp
  then obtain arr w' where r: "i = (Inr arr, w')" "fw_fds w' = [5]" by (cases i) (auto split: sum.splits)
  have "rte_fbarray_detach example_fb_env w' arr = (None, w)"
    using fbarray_resources [of example_fb_env w "Some ''memzone''" 100 8 0 w' arr] r(1) by (simp add: i_def w_def)
  moreover have "w' \<noteq> w" using r(2) by (auto simp: w_def)
  ultimately show ?thesis using r(1) by (simp add: i_def w_def)
qed

end
