(* ===== verification/Memzone.thy ===== *)
theory Memzone
  imports Fbarray_Files Ring_Registry Mempool_Layout
begin

text \<open>
  Memory zones (\<open>lib/eal/common/eal_common_memzone.c\<close>): named pieces of the heap, described in a
  file-backed array. The heap below is a parameter, with the addresses it has handed out as
  state. The configuration is that of x86, with huge pages or not.
\<close>

section \<open>The table of zones\<close>

record rte_memzone =
  mz_name :: string
  mz_iova :: u64
  mz_addr :: addr
  mz_len :: u64
  mz_hugepage_sz :: u64
  mz_socket_id :: int
  mz_flags :: u32

definition memzone_zero :: rte_memzone where
  "memzone_zero = \<lparr>mz_name = [], mz_iova = 0, mz_addr = NULL, mz_len = 0, mz_hugepage_sz = 0, mz_socket_id = 0, mz_flags = 0\<rparr>"

definition sizeof_rte_memzone :: u32 where "sizeof_rte_memzone = 72"
definition RTE_MAX_MEMZONE :: u32 where "RTE_MAX_MEMZONE = 2560"
definition RTE_MAX_NUMA_NODES :: int where "RTE_MAX_NUMA_NODES = 32"

definition RTE_MEMZONE_2MB :: u32 where "RTE_MEMZONE_2MB = 0x1"
definition RTE_MEMZONE_1GB :: u32 where "RTE_MEMZONE_1GB = 0x2"
definition RTE_MEMZONE_SIZE_HINT_ONLY :: u32 where "RTE_MEMZONE_SIZE_HINT_ONLY = 0x4"
definition RTE_MEMZONE_16MB :: u32 where "RTE_MEMZONE_16MB = 0x100"
definition RTE_MEMZONE_16GB :: u32 where "RTE_MEMZONE_16GB = 0x200"
definition RTE_MEMZONE_256KB :: u32 where "RTE_MEMZONE_256KB = 0x10000"
definition RTE_MEMZONE_256MB :: u32 where "RTE_MEMZONE_256MB = 0x20000"
definition RTE_MEMZONE_512MB :: u32 where "RTE_MEMZONE_512MB = 0x40000"
definition RTE_MEMZONE_4GB :: u32 where "RTE_MEMZONE_4GB = 0x80000"
definition RTE_MEMZONE_IOVA_CONTIG :: u32 where "RTE_MEMZONE_IOVA_CONTIG = 0x100000"

definition MEMZONE_KNOWN_FLAGS :: u32 where
  "MEMZONE_KNOWN_FLAGS = RTE_MEMZONE_2MB OR RTE_MEMZONE_1GB OR RTE_MEMZONE_16MB OR RTE_MEMZONE_16GB OR
     RTE_MEMZONE_256KB OR RTE_MEMZONE_256MB OR RTE_MEMZONE_512MB OR RTE_MEMZONE_4GB OR
     RTE_MEMZONE_SIZE_HINT_ONLY OR RTE_MEMZONE_IOVA_CONTIG"

text \<open>\<open>zw_zones\<close> are the entries of the array \<open>zw_arr\<close>, \<open>zw_heap\<close> the addresses the heap has handed out.\<close>

record mz_world =
  zw_arr :: rte_fbarray
  zw_zones :: "rte_memzone list"
  zw_heap :: "addr list"

text \<open>What is used of an element of the heap: \<open>size\<close>, \<open>pad\<close>, and page size and socket of its segment list.\<close>

record heap_elem =
  el_size :: u64
  el_pad :: u32
  el_page_sz :: u64
  el_socket_id :: int

definition MALLOC_ELEM_OVERHEAD :: u64 where "MALLOC_ELEM_OVERHEAD = 128"

text \<open>
  The heap: allocation of a length or of the biggest element, on a socket, with flags for the
  page size, alignment, boundary and whether the pages have to be contiguous.
\<close>

record heap_env =
  he_hugepages :: bool
  he_alloc :: "addr list \<Rightarrow> u64 \<Rightarrow> int \<Rightarrow> u32 \<Rightarrow> u32 \<Rightarrow> u32 \<Rightarrow> bool \<Rightarrow> addr"
  he_alloc_biggest :: "addr list \<Rightarrow> int \<Rightarrow> u32 \<Rightarrow> u32 \<Rightarrow> bool \<Rightarrow> addr"
  he_elem :: "addr \<Rightarrow> heap_elem"
  he_virt2iova :: "addr \<Rightarrow> u64"

definition heap_free :: "addr \<Rightarrow> mz_world \<Rightarrow> mz_world" where
  "heap_free a w = w\<lparr>zw_heap := remove1 a (zw_heap w)\<rparr>"

definition rte_is_power_of_2 :: "u32 \<Rightarrow> bool" where
  "rte_is_power_of_2 n \<longleftrightarrow> n \<noteq> 0 \<and> n AND (n - 1) = 0"

section \<open>Lookup\<close>

text \<open>A call that follows a pointer which is \<open>NULL\<close> has no result.\<close>

definition zone_matches :: "string \<Rightarrow> rte_memzone \<Rightarrow> bool" where
  "zone_matches name mz \<longleftrightarrow> mz_addr mz \<noteq> NULL \<and> take RTE_MEMZONE_NAMESIZE name = take RTE_MEMZONE_NAMESIZE (mz_name mz)"

partial_function (option) lookup_loop :: "mz_world \<Rightarrow> string \<Rightarrow> int + u32 \<Rightarrow> addr option" where
  "lookup_loop w name r =
     (case r of
        Inl _ \<Rightarrow> Some NULL
      | Inr i \<Rightarrow>
          (case rte_fbarray_get (zw_arr w) i of
             Inl _ \<Rightarrow> None
           | Inr mz \<Rightarrow>
               if zone_matches name (zw_zones w ! unat i) then Some mz
               else lookup_loop w name (rte_fbarray_find_next_used (zw_arr w) (i + 1))))"

definition memzone_lookup_thread_unsafe :: "mz_world \<Rightarrow> string \<Rightarrow> addr option" where
  "memzone_lookup_thread_unsafe w name = lookup_loop w name (rte_fbarray_find_next_used (zw_arr w) 0)"

definition rte_memzone_lookup :: "mz_world \<Rightarrow> string \<Rightarrow> addr option" where
  "rte_memzone_lookup w name = memzone_lookup_thread_unsafe w name"

text \<open>The zones that \<open>func\<close> is called for, in this order.\<close>

partial_function (option) walk_loop :: "mz_world \<Rightarrow> addr list \<Rightarrow> int + u32 \<Rightarrow> addr list option" where
  "walk_loop w visited r =
     (case r of
        Inl _ \<Rightarrow> Some visited
      | Inr i \<Rightarrow>
          (let mz = (case rte_fbarray_get (zw_arr w) i of Inl _ \<Rightarrow> NULL | Inr mz \<Rightarrow> mz)
           in walk_loop w (visited @ [mz]) (rte_fbarray_find_next_used (zw_arr w) (i + 1))))"

definition rte_memzone_walk :: "mz_world \<Rightarrow> addr list option" where
  "rte_memzone_walk w = walk_loop w [] (rte_fbarray_find_next_used (zw_arr w) 0)"

section \<open>Reservation\<close>

text \<open>The checks before anything is allocated, after the length has been aligned.\<close>

definition reserve_checks :: "u64 \<Rightarrow> int \<Rightarrow> u32 \<Rightarrow> u32 \<Rightarrow> bool" where
  "reserve_checks len socket_id flags bound =
     (let requested_len = max 64 len
      in \<not> (bound \<noteq> 0 \<and> (ucast bound < requested_len \<or> \<not> rte_is_power_of_2 bound)) \<and>
         \<not> (socket_id \<noteq> SOCKET_ID_ANY \<and> socket_id < 0) \<and>
         flags AND NOT MEMZONE_KNOWN_FLAGS = 0)"

text \<open>The allocation on the heap, with the length that is recorded (0 for the biggest element).\<close>

definition reserve_alloc :: "heap_env \<Rightarrow> addr list \<Rightarrow> u64 \<Rightarrow> int \<Rightarrow> u32 \<Rightarrow> u32 \<Rightarrow> u32 \<Rightarrow> u64 \<times> addr" where
  "reserve_alloc env live len socket_id flags align bound =
     (let socket_id = (if \<not> he_hugepages env \<and> socket_id < RTE_MAX_NUMA_NODES then SOCKET_ID_ANY else socket_id);
          contig = (flags AND RTE_MEMZONE_IOVA_CONTIG \<noteq> 0);
          flags = flags AND NOT RTE_MEMZONE_IOVA_CONTIG
      in if len = 0 \<and> bound = 0 then (0, he_alloc_biggest env live socket_id flags align contig)
         else
           let requested_len = (if len = 0 then ucast bound else max 64 len)
           in (requested_len, he_alloc env live requested_len socket_id flags align bound contig))"

text \<open>The entry of the array; if there is none the memory is given back.\<close>

definition reserve_entry :: "heap_env \<Rightarrow> mz_world \<Rightarrow> string \<Rightarrow> u64 \<Rightarrow> addr \<Rightarrow> (int + addr) \<times> mz_world" where
  "reserve_entry env w name requested_len va =
     (let arr = zw_arr w; elem = he_elem env va
      in case rte_fbarray_find_next_free arr 0 of
           Inl _ \<Rightarrow> (Inl ENOSPC, heap_free va w)
         | Inr mz_idx \<Rightarrow>
             let arr = (case rte_fbarray_set_used arr mz_idx of Inl _ \<Rightarrow> arr | Inr arr \<Rightarrow> arr);
                 w = w\<lparr>zw_arr := arr\<rparr>
             in case rte_fbarray_get arr mz_idx of
                  Inl _ \<Rightarrow> (Inl ENOSPC, heap_free va w)
                | Inr mz \<Rightarrow>
                    (Inr mz, w\<lparr>zw_zones := (zw_zones w)[unat mz_idx :=
                       \<lparr>mz_name = name, mz_iova = he_virt2iova env va, mz_addr = va,
                        mz_len = (if requested_len = 0 then el_size elem - ucast (el_pad elem) - MALLOC_ELEM_OVERHEAD
                                  else requested_len),
                        mz_hugepage_sz = el_page_sz elem, mz_socket_id = el_socket_id elem, mz_flags = 0\<rparr>]\<rparr>))"

definition memzone_reserve_aligned_thread_unsafe ::
  "heap_env \<Rightarrow> mz_world \<Rightarrow> string \<Rightarrow> u64 \<Rightarrow> int \<Rightarrow> u32 \<Rightarrow> u32 \<Rightarrow> u32 \<Rightarrow> ((int + addr) \<times> mz_world) option" where
  "memzone_reserve_aligned_thread_unsafe env w name len socket_id flags align bound =
     (if fb_len (zw_arr w) \<le> fb_count (zw_arr w) then Some (Inl ENOSPC, w)
      else if RTE_MEMZONE_NAMESIZE - 1 < length name then Some (Inl ENAMETOOLONG, w)
      else
        do { mz \<leftarrow> memzone_lookup_thread_unsafe w name;
             if mz \<noteq> NULL then Some (Inl EEXIST, w)
             else if align \<noteq> 0 \<and> \<not> rte_is_power_of_2 align then Some (Inl EINVAL, w)
             else
               let align = (if align < 64 then 64 else align)
               in if - 1 - 63 < len then Some (Inl EINVAL, w)
                  else
                    let len = RTE_ALIGN_CEIL len 64
                    in if \<not> reserve_checks len socket_id flags bound then Some (Inl EINVAL, w)
                       else
                         let (requested_len, va) = reserve_alloc env (zw_heap w) len socket_id flags align bound
                         in if va = NULL then Some (Inl ENOMEM, w)
                            else Some (reserve_entry env (w\<lparr>zw_heap := va # zw_heap w\<rparr>) name requested_len va) })"

definition rte_memzone_reserve_thread_safe ::
  "heap_env \<Rightarrow> mz_world \<Rightarrow> string \<Rightarrow> u64 \<Rightarrow> int \<Rightarrow> u32 \<Rightarrow> u32 \<Rightarrow> u32 \<Rightarrow> ((int + addr) \<times> mz_world) option" where
  "rte_memzone_reserve_thread_safe env w name len socket_id flags align bound =
     memzone_reserve_aligned_thread_unsafe env w name len socket_id flags align bound"

definition rte_memzone_reserve_bounded ::
  "heap_env \<Rightarrow> mz_world \<Rightarrow> string \<Rightarrow> u64 \<Rightarrow> int \<Rightarrow> u32 \<Rightarrow> u32 \<Rightarrow> u32 \<Rightarrow> ((int + addr) \<times> mz_world) option" where
  "rte_memzone_reserve_bounded env w name len socket_id flags align bound =
     rte_memzone_reserve_thread_safe env w name len socket_id flags align bound"

definition rte_memzone_reserve_aligned ::
  "heap_env \<Rightarrow> mz_world \<Rightarrow> string \<Rightarrow> u64 \<Rightarrow> int \<Rightarrow> u32 \<Rightarrow> u32 \<Rightarrow> ((int + addr) \<times> mz_world) option" where
  "rte_memzone_reserve_aligned env w name len socket_id flags align =
     rte_memzone_reserve_thread_safe env w name len socket_id flags align 0"

definition rte_memzone_reserve ::
  "heap_env \<Rightarrow> mz_world \<Rightarrow> string \<Rightarrow> u64 \<Rightarrow> int \<Rightarrow> u32 \<Rightarrow> ((int + addr) \<times> mz_world) option" where
  "rte_memzone_reserve env w name len socket_id flags =
     rte_memzone_reserve_thread_safe env w name len socket_id flags 64 0"

section \<open>Release\<close>

text \<open>\<open>idx\<close> is unsigned: a zone that is not in the array has the index \<open>UINT_MAX\<close>.\<close>

definition rte_memzone_free :: "mz_world \<Rightarrow> addr \<Rightarrow> int \<times> mz_world" where
  "rte_memzone_free w mz =
     (if mz = NULL then (- EINVAL, w)
      else
        let arr = zw_arr w;
            idx = (case rte_fbarray_find_idx arr mz of Inl _ \<Rightarrow> - 1 | Inr i \<Rightarrow> word_of_int i)
        in case rte_fbarray_get arr idx of
             Inl _ \<Rightarrow> (- EINVAL, w)
           | Inr found_mz \<Rightarrow>
               let addr = mz_addr (zw_zones w ! unat idx)
               in if addr = NULL then (- EINVAL, w)
                  else
                    let w = w\<lparr>zw_zones := (zw_zones w)[unat idx := memzone_zero],
                              zw_arr := (case rte_fbarray_set_free arr idx of Inl _ \<Rightarrow> arr | Inr arr \<Rightarrow> arr)\<rparr>
                    in (0, heap_free addr w))"

section \<open>Start\<close>

text \<open>
  The primary process makes the table, zeroed, and a secondary one attaches to it. The result
  comes with the table and what the process holds of the system.
\<close>

definition rte_eal_memzone_init :: "fb_env \<Rightarrow> bool \<Rightarrow> fb_world \<Rightarrow> mz_world \<Rightarrow> int \<times> mz_world \<times> fb_world" where
  "rte_eal_memzone_init env primary fw w =
     (if primary then
        (case rte_fbarray_init env fw (Some ''memzone'') RTE_MAX_MEMZONE sizeof_rte_memzone of
           (Inl _, fw) \<Rightarrow> (- 1, w, fw)
         | (Inr arr, fw) \<Rightarrow> (0, w\<lparr>zw_arr := arr, zw_zones := replicate (unat RTE_MAX_MEMZONE) memzone_zero\<rparr>, fw))
      else
        (case rte_fbarray_attach env fw (zw_arr w) of
           (Some _, fw) \<Rightarrow> (- 1, w, fw)
         | (None, fw) \<Rightarrow> (0, w, fw)))"

end
