(* ===== verification/Memzone_Ok.thy ===== *)
theory Memzone_Ok
  imports Memzone
begin

text \<open>
  The table of memory zones as a map from names to zones: the invariant \<open>mz_ok\<close>, the map
  \<open>zone_map\<close>, and what lookup, walk, reservation and release do to it.
\<close>

section \<open>The map and the invariant\<close>

definition zone_index :: "mz_world \<Rightarrow> string \<Rightarrow> nat option" where
  "zone_index w n = find (\<lambda>i. fb_bit (zw_arr w) i \<and> mz_name (zw_zones w ! i) = n) [0..<unat (fb_len (zw_arr w))]"

definition zone_map :: "mz_world \<Rightarrow> string \<Rightarrow> rte_memzone option" where
  "zone_map w n = map_option ((!) (zw_zones w)) (zone_index w n)"

definition zone_ptr :: "mz_world \<Rightarrow> nat \<Rightarrow> addr" where
  "zone_ptr w i = fb_data (zw_arr w) + ucast (of_nat i * fb_elt_sz (zw_arr w))"

definition mz_fits :: "rte_fbarray \<Rightarrow> bool" where
  "mz_fits arr \<longleftrightarrow> fb_ok arr \<and> fb_elt_sz arr = sizeof_rte_memzone \<and> fb_data arr \<noteq> NULL \<and>
     unat (fb_elt_sz arr) * unat (fb_len arr) < 2 ^ 32 \<and>
     unat (fb_data arr) + unat (fb_elt_sz arr) * unat (fb_len arr) < 2 ^ 64"

definition mz_ok :: "mz_world \<Rightarrow> bool" where
  "mz_ok w \<longleftrightarrow> mz_fits (zw_arr w) \<and> length (zw_zones w) = unat (fb_len (zw_arr w)) \<and>
     (\<forall>i\<in>fb_used (zw_arr w). mz_addr (zw_zones w ! i) \<noteq> NULL \<and> length (mz_name (zw_zones w ! i)) < RTE_MEMZONE_NAMESIZE) \<and>
     (\<forall>i<unat (fb_len (zw_arr w)). i \<notin> fb_used (zw_arr w) \<longrightarrow> mz_addr (zw_zones w ! i) = NULL) \<and>
     inj_on (\<lambda>i. mz_name (zw_zones w ! i)) (fb_used (zw_arr w)) \<and>
     inj_on (\<lambda>i. mz_addr (zw_zones w ! i)) (fb_used (zw_arr w)) \<and>
     (\<lambda>i. mz_addr (zw_zones w ! i)) ` fb_used (zw_arr w) \<subseteq> set (zw_heap w) \<and> distinct (zw_heap w)"

text \<open>The heap hands out nothing twice.\<close>

definition heap_fresh :: "heap_env \<Rightarrow> bool" where
  "heap_fresh env \<longleftrightarrow>
     (\<forall>live len s fl al bd c. he_alloc env live len s fl al bd c = NULL \<or> he_alloc env live len s fl al bd c \<notin> set live) \<and>
     (\<forall>live s fl al c. he_alloc_biggest env live s fl al c = NULL \<or> he_alloc_biggest env live s fl al c \<notin> set live)"

lemma used_bit: "i < unat (fb_len arr) \<Longrightarrow> i \<in> fb_used arr \<longleftrightarrow> fb_bit arr i"
  by (simp add: fb_used_def)

lemma zone_index_None: "zone_index w n = None \<longleftrightarrow> (\<forall>i\<in>fb_used (zw_arr w). mz_name (zw_zones w ! i) \<noteq> n)"
  by (auto simp: zone_index_def find_None_iff fb_used_def)

lemma zone_index_Some:
  assumes "mz_ok w"
  shows "zone_index w n = Some i \<longleftrightarrow> i \<in> fb_used (zw_arr w) \<and> mz_name (zw_zones w ! i) = n"
proof
  assume "zone_index w n = Some i"
  then show "i \<in> fb_used (zw_arr w) \<and> mz_name (zw_zones w ! i) = n"
    by (auto simp: zone_index_def find_Some_iff fb_used_def)
next
  assume i: "i \<in> fb_used (zw_arr w) \<and> mz_name (zw_zones w ! i) = n"
  then obtain j where j: "zone_index w n = Some j" using zone_index_None [of w n] by (cases "zone_index w n") auto
  then have "j \<in> fb_used (zw_arr w) \<and> mz_name (zw_zones w ! j) = n"
    by (auto simp: zone_index_def find_Some_iff fb_used_def)
  with i assms have "j = i" by (auto simp: mz_ok_def dest: inj_onD)
  with j show "zone_index w n = Some i" by simp
qed

lemma zone_map_Some:
  assumes "mz_ok w"
  shows "zone_map w n = Some z \<longleftrightarrow> (\<exists>i\<in>fb_used (zw_arr w). mz_name (zw_zones w ! i) = n \<and> z = zw_zones w ! i)"
  using zone_index_Some [OF assms] by (auto simp: zone_map_def)

section \<open>Pointers\<close>

lemma zone_get:
  assumes "mz_fits (zw_arr w)" "i < unat (fb_len (zw_arr w))"
  shows "rte_fbarray_get (zw_arr w) (of_nat i) = Inr (zone_ptr w i)" "unat (of_nat i :: u32) = i" "(of_nat i :: u32) < fb_len (zw_arr w)"
proof -
  have "i < 2 ^ 32" using order.strict_trans [OF assms(2) unat32_bound] by simp
  then show u: "unat (of_nat i :: u32) = i" by (simp add: unat_of_nat)
  then show "(of_nat i :: u32) < fb_len (zw_arr w)" using assms(2) by (simp add: word_less_nat_alt)
  then show "rte_fbarray_get (zw_arr w) (of_nat i) = Inr (zone_ptr w i)"
    by (simp add: rte_fbarray_get_def zone_ptr_def not_le [symmetric])
qed

lemma zone_find_idx:
  assumes "mz_fits (zw_arr w)" "i < unat (fb_len (zw_arr w))"
  shows "rte_fbarray_find_idx (zw_arr w) (zone_ptr w i) = Inr (int i)" "zone_ptr w i \<noteq> NULL"
proof -
  note g = zone_get [OF assms]
  have e: "fb_elt_sz (zw_arr w) \<noteq> 0" using assms(1) by (simp add: mz_fits_def sizeof_rte_memzone_def)
  have a: "fb_ok (zw_arr w)" "fb_data (zw_arr w) \<noteq> NULL"
    "unat (fb_elt_sz (zw_arr w)) * unat (fb_len (zw_arr w)) < 2 ^ 32"
    "unat (fb_data (zw_arr w)) + unat (fb_elt_sz (zw_arr w)) * unat (fb_len (zw_arr w)) < 2 ^ 64"
    using assms(1) unfolding mz_fits_def by blast+
  note f = find_idx_get [OF a(1) g(3) e a(2-4) g(1)]
  have "uint (of_nat i :: u32) = int i" using g(2) by (metis uint_nat)
  with f(1) show "rte_fbarray_find_idx (zw_arr w) (zone_ptr w i) = Inr (int i)" by simp
  show "zone_ptr w i \<noteq> NULL" by (rule f(2))
qed

text \<open>The next used entry.\<close>

lemma next_used:
  fixes w :: mz_world
  assumes "mz_fits (zw_arr w)" "k \<le> unat (fb_len (zw_arr w))"
  shows "case rte_fbarray_find_next_used (zw_arr w) (of_nat k) of
      Inl _ \<Rightarrow> \<forall>i. k \<le> i \<and> i < unat (fb_len (zw_arr w)) \<longrightarrow> \<not> fb_bit (zw_arr w) i
    | Inr j \<Rightarrow> \<exists>i. j = of_nat i \<and> k \<le> i \<and> i < unat (fb_len (zw_arr w)) \<and> fb_bit (zw_arr w) i \<and>
        (\<forall>l. k \<le> l \<and> l < i \<longrightarrow> \<not> fb_bit (zw_arr w) l)"
proof (cases "k = unat (fb_len (zw_arr w))")
  case True
  then show ?thesis by (auto simp: rte_fbarray_find_next_used_def fbarray_find_def)
next
  case False
  then have k: "k < unat (fb_len (zw_arr w))" using assms(2) by simp
  note g = zone_get [OF assms(1) k]
  have lin: "rte_fbarray_find_next_used (zw_arr w) (of_nat k) =
      (case find (\<lambda>i. fb_bit (zw_arr w) i) [k..<unat (fb_len (zw_arr w))] of None \<Rightarrow> Inl ENOENT | Some i \<Rightarrow> Inr (of_nat i))"
    using fbarray_find_linear [OF _ g(3), of True True] assms(1)
    by (simp add: rte_fbarray_find_next_used_def mz_fits_def fb_span_def g(2))
  show ?thesis
  proof (cases "find (\<lambda>i. fb_bit (zw_arr w) i) [k..<unat (fb_len (zw_arr w))]")
    case None
    show ?thesis unfolding lin None option.case sum.case using None by (auto simp: find_None_iff)
  next
    case (Some x)
    then obtain m where m: "m < unat (fb_len (zw_arr w)) - k" "x = k + m" "fb_bit (zw_arr w) x"
      "\<forall>j<m. \<not> fb_bit (zw_arr w) (k + j)"
      by (auto simp: find_Some_iff)
    have "\<not> fb_bit (zw_arr w) l" if "k \<le> l" "l < x" for l using that m(2) m(4) [rule_format, of "l - k"] by simp
    with m have "k \<le> x \<and> x < unat (fb_len (zw_arr w)) \<and> fb_bit (zw_arr w) x \<and> (\<forall>l. k \<le> l \<and> l < x \<longrightarrow> \<not> fb_bit (zw_arr w) l)"
      by simp
    then show ?thesis unfolding lin Some option.case sum.case by blast
  qed
qed

section \<open>Lookup and walk\<close>

lemma matches_name: "length (mz_name z) < RTE_MEMZONE_NAMESIZE \<Longrightarrow> mz_addr z \<noteq> NULL \<Longrightarrow> zone_matches n z \<longleftrightarrow> mz_name z = n"
  by (cases "length n < RTE_MEMZONE_NAMESIZE") (auto simp: zone_matches_def dest: arg_cong [where f = length])

lemma lookup_loop_ok:
  assumes ok: "mz_ok w" and "k \<le> unat (fb_len (zw_arr w))"
  shows "lookup_loop w n (rte_fbarray_find_next_used (zw_arr w) (of_nat k)) =
    Some (case find (\<lambda>i. fb_bit (zw_arr w) i \<and> mz_name (zw_zones w ! i) = n) [k..<unat (fb_len (zw_arr w))] of
            None \<Rightarrow> NULL | Some i \<Rightarrow> zone_ptr w i)"
  using assms(2)
proof (induction "unat (fb_len (zw_arr w)) - k" arbitrary: k rule: less_induct)
  case less
  have fits: "mz_fits (zw_arr w)" using ok by (simp add: mz_ok_def)
  let ?P = "\<lambda>i. fb_bit (zw_arr w) i \<and> mz_name (zw_zones w ! i) = n" and ?len = "unat (fb_len (zw_arr w))"
  note nu = next_used [OF fits less.prems]
  show ?case
  proof (cases "rte_fbarray_find_next_used (zw_arr w) (of_nat k)")
    case (Inl e)
    with nu have "find ?P [k..<?len] = None" by (auto simp: find_None_iff)
    with Inl show ?thesis by (simp add: lookup_loop.simps)
  next
    case (Inr j)
    with nu obtain i where i: "j = of_nat i" "k \<le> i" "i < ?len" "fb_bit (zw_arr w) i" "\<forall>l. k \<le> l \<and> l < i \<longrightarrow> \<not> fb_bit (zw_arr w) l"
      by auto
    note g = zone_get [OF fits i(3)]
    have "i \<in> fb_used (zw_arr w)" using i(3,4) by (simp add: used_bit)
    then have m: "zone_matches n (zw_zones w ! i) \<longleftrightarrow> mz_name (zw_zones w ! i) = n"
      using ok by (intro matches_name) (simp_all add: mz_ok_def)
    have split: "find ?P [k..<?len] = (if mz_name (zw_zones w ! i) = n then Some i else find ?P [Suc i..<?len])"
    proof -
      have "[k..<?len] = [k..<i] @ i # [Suc i..<?len]" using i(2,3) upt_split [of k i ?len] by (simp add: upt_conv_Cons)
      moreover have "find ?P [k..<i] = None" using i(5) by (auto simp: find_None_iff)
      ultimately show ?thesis using i(4) by (simp add: find_append)
    qed
    have "lookup_loop w n (Inr j) = (if mz_name (zw_zones w ! i) = n then Some (zone_ptr w i)
        else lookup_loop w n (rte_fbarray_find_next_used (zw_arr w) (of_nat (Suc i))))"
      by (subst lookup_loop.simps) (simp add: i(1) g m add.commute)
    moreover have "lookup_loop w n (rte_fbarray_find_next_used (zw_arr w) (of_nat (Suc i))) =
        Some (case find ?P [Suc i..<?len] of None \<Rightarrow> NULL | Some i \<Rightarrow> zone_ptr w i)"
      by (rule less.hyps) (use i(2,3) in simp_all)
    ultimately show ?thesis using Inr split by simp
  qed
qed

lemma lookup_ok:
  assumes "mz_ok w"
  shows "memzone_lookup_thread_unsafe w n = Some (case zone_index w n of None \<Rightarrow> NULL | Some i \<Rightarrow> zone_ptr w i)"
  using lookup_loop_ok [OF assms, of 0 n] by (simp add: memzone_lookup_thread_unsafe_def zone_index_def)

lemma walk_loop_ok:
  fixes w :: mz_world
  assumes fits: "mz_fits (zw_arr w)" and "k \<le> unat (fb_len (zw_arr w))"
  shows "walk_loop w vs (rte_fbarray_find_next_used (zw_arr w) (of_nat k)) =
    Some (vs @ map (zone_ptr w) (filter (fb_bit (zw_arr w)) [k..<unat (fb_len (zw_arr w))]))"
  using assms(2)
proof (induction "unat (fb_len (zw_arr w)) - k" arbitrary: k vs rule: less_induct)
  case less
  let ?len = "unat (fb_len (zw_arr w))"
  note nu = next_used [OF fits less.prems]
  show ?case
  proof (cases "rte_fbarray_find_next_used (zw_arr w) (of_nat k)")
    case (Inl e)
    with nu have "filter (fb_bit (zw_arr w)) [k..<?len] = []" by (auto simp: filter_empty_conv)
    with Inl show ?thesis by (simp add: walk_loop.simps)
  next
    case (Inr j)
    with nu obtain i where i: "j = of_nat i" "k \<le> i" "i < ?len" "fb_bit (zw_arr w) i" "\<forall>l. k \<le> l \<and> l < i \<longrightarrow> \<not> fb_bit (zw_arr w) l"
      by auto
    note g = zone_get [OF fits i(3)]
    have split: "filter (fb_bit (zw_arr w)) [k..<?len] = i # filter (fb_bit (zw_arr w)) [Suc i..<?len]"
    proof -
      have "[k..<?len] = [k..<i] @ i # [Suc i..<?len]" using i(2,3) upt_split [of k i ?len] by (simp add: upt_conv_Cons)
      moreover have "filter (fb_bit (zw_arr w)) [k..<i] = []" using i(5) by (auto simp: filter_empty_conv)
      ultimately show ?thesis using i(4) by simp
    qed
    have "walk_loop w vs (Inr j) = walk_loop w (vs @ [zone_ptr w i]) (rte_fbarray_find_next_used (zw_arr w) (of_nat (Suc i)))"
      by (subst walk_loop.simps) (simp add: i(1) g add.commute)
    moreover have "walk_loop w (vs @ [zone_ptr w i]) (rte_fbarray_find_next_used (zw_arr w) (of_nat (Suc i))) =
        Some ((vs @ [zone_ptr w i]) @ map (zone_ptr w) (filter (fb_bit (zw_arr w)) [Suc i..<?len]))"
      by (rule less.hyps) (use i(2,3) in simp_all)
    ultimately show ?thesis using Inr split by simp
  qed
qed

section \<open>Reservation\<close>

lemma mz_ok_zone:
  assumes "mz_ok w" "i \<in> fb_used (zw_arr w)"
  shows "i < unat (fb_len (zw_arr w))" "mz_addr (zw_zones w ! i) \<in> set (zw_heap w)"
  using assms fb_used_less by (auto simp: mz_ok_def)

lemma mz_fits_upd:
  assumes "mz_fits arr" "fb_ok arr'" "fb_len arr' = fb_len arr" "fb_elt_sz arr' = fb_elt_sz arr" "fb_data arr' = fb_data arr"
  shows "mz_fits arr'"
  using assms(1,2) unfolding mz_fits_def assms(3-5) by blast

lemma inj_on_entered:
  assumes "inj_on (\<lambda>i. f (zs ! i)) u" "\<And>j. j \<in> u \<Longrightarrow> f (zs ! j) \<noteq> f z" "\<And>j. zs' ! j = (if j = i then z else zs ! j)"
  shows "inj_on (\<lambda>i. f (zs' ! i)) (insert i u)"
proof (rule inj_onI)
  fix a b
  assume ab: "a \<in> insert i u" "b \<in> insert i u" "f (zs' ! a) = f (zs' ! b)"
  show "a = b"
  proof (cases "a = i \<or> b = i")
    case True
    with ab assms(2) show ?thesis unfolding assms(3) by (metis insertE)
  next
    case False
    with ab show ?thesis unfolding assms(3) by (auto dest: inj_onD [OF assms(1)])
  qed
qed

text \<open>Entering a zone under a new name, with memory just handed out.\<close>

lemma zone_added:
  assumes ok: "mz_ok w" and arr: "fb_ok arr'" "fb_used arr' = insert i (fb_used (zw_arr w))" "fb_len arr' = fb_len (zw_arr w)"
      "fb_elt_sz arr' = fb_elt_sz (zw_arr w)" "fb_data arr' = fb_data (zw_arr w)"
    and i: "i < unat (fb_len (zw_arr w))" "i \<notin> fb_used (zw_arr w)"
    and z: "mz_addr z \<noteq> NULL" "mz_addr z \<notin> set (zw_heap w)" "length (mz_name z) < RTE_MEMZONE_NAMESIZE" "zone_index w (mz_name z) = None"
    and w': "w' = \<lparr>zw_arr = arr', zw_zones = (zw_zones w)[i := z], zw_heap = mz_addr z # zw_heap w\<rparr>"
  shows "mz_ok w'" "zone_map w' = (zone_map w)(mz_name z \<mapsto> z)" "zone_index w' (mz_name z) = Some i" "zone_ptr w' = zone_ptr w"
proof -
  let ?u = "fb_used (zw_arr w)"
  have l: "length (zw_zones w) = unat (fb_len (zw_arr w))" using ok by (simp add: mz_ok_def)
  have z': "zw_zones w' ! j = (if j = i then z else zw_zones w ! j)" for j using i(1) l by (simp add: w')
  have u': "fb_used (zw_arr w') = insert i ?u" by (simp add: w' arr(2))
  have heap': "set (zw_heap w') = insert (mz_addr z) (set (zw_heap w))" by (simp add: w')
  have names: "mz_name (zw_zones w ! j) \<noteq> mz_name z" if "j \<in> ?u" for j using z(4) that by (simp add: zone_index_None)
  have addrs: "mz_addr (zw_zones w ! j) \<noteq> mz_addr z" if "j \<in> ?u" for j using mz_ok_zone(2) [OF ok that] z(2) by auto
  have "mz_fits (zw_arr w)" using ok by (simp only: mz_ok_def)
  then have "mz_fits arr'" by (rule mz_fits_upd [OF _ arr(1) arr(3-5)])
  moreover have inj: "inj_on (\<lambda>i. mz_name (zw_zones w ! i)) ?u" "inj_on (\<lambda>i. mz_addr (zw_zones w ! i)) ?u"
    using ok unfolding mz_ok_def by blast+
  moreover have "inj_on (\<lambda>i. mz_name (zw_zones w' ! i)) (fb_used (zw_arr w'))"
    "inj_on (\<lambda>i. mz_addr (zw_zones w' ! i)) (fb_used (zw_arr w'))"
    using inj_on_entered [OF inj(1) names z'] inj_on_entered [OF inj(2) addrs z'] unfolding u' by blast+
  moreover have "(\<lambda>i. mz_addr (zw_zones w' ! i)) ` fb_used (zw_arr w') \<subseteq> set (zw_heap w')"
    using mz_ok_zone(2) [OF ok] by (auto simp: u' z' heap')
  moreover have "\<forall>j\<in>fb_used (zw_arr w'). mz_addr (zw_zones w' ! j) \<noteq> NULL \<and> length (mz_name (zw_zones w' ! j)) < RTE_MEMZONE_NAMESIZE"
    using ok z(1,3) by (auto simp: u' z' mz_ok_def)
  moreover have "\<forall>j<unat (fb_len (zw_arr w)). j \<notin> fb_used (zw_arr w') \<longrightarrow> mz_addr (zw_zones w' ! j) = NULL"
    using ok by (auto simp: u' z' mz_ok_def)
  moreover have "distinct (zw_heap w)" using ok by (simp add: mz_ok_def)
  ultimately show ok': "mz_ok w'" using l z(2) unfolding mz_ok_def by (simp add: w' arr(3))
  show "zone_index w' (mz_name z) = Some i" using zone_index_Some [OF ok'] by (simp add: u' z')
  show "zone_ptr w' = zone_ptr w" by (simp add: fun_eq_iff zone_ptr_def w' arr)
  show "zone_map w' = (zone_map w)(mz_name z \<mapsto> z)"
  proof
    fix n
    show "zone_map w' n = ((zone_map w)(mz_name z \<mapsto> z)) n"
    proof (cases "n = mz_name z")
      case True
      then show ?thesis using zone_map_Some [OF ok', of n z] by (auto simp: u' z')
    next
      case False
      have "zone_map w' n = Some y \<longleftrightarrow> zone_map w n = Some y" for y
        unfolding zone_map_Some [OF ok'] zone_map_Some [OF ok] using False i(2) by (auto simp: u' z')
      then have "zone_map w' n = zone_map w n" by (metis option.exhaust)
      with False show ?thesis by simp
    qed
  qed
qed

text \<open>A free entry exists if the count is below the length.\<close>

lemma free_entry:
  fixes w :: mz_world
  assumes "mz_fits (zw_arr w)" "fb_count (zw_arr w) < fb_len (zw_arr w)"
  shows "\<exists>i. rte_fbarray_find_next_free (zw_arr w) 0 = Inr (of_nat i) \<and> i < unat (fb_len (zw_arr w)) \<and> i \<notin> fb_used (zw_arr w)"
proof -
  let ?arr = "zw_arr w"
  have ok: "fb_ok ?arr" using assms(1) by (simp add: mz_fits_def)
  have s: "0 < fb_len ?arr" using assms(2) by (rule le_less_trans [OF word_zero_le])
  have "card (fb_used ?arr) < unat (fb_len ?arr)" using ok assms(2) by (simp add: fb_ok_def word_less_nat_alt)
  then have "fb_used ?arr \<noteq> {..<unat (fb_len ?arr)}" using card_lessThan [of "unat (fb_len ?arr)"] by (metis less_irrefl)
  moreover have "fb_used ?arr = {..<unat (fb_len ?arr)}" if "\<forall>i<unat (fb_len ?arr). fb_bit ?arr i"
    unfolding fb_used_def using that by blast
  ultimately have "\<exists>i<unat (fb_len ?arr). \<not> fb_bit ?arr i" by blast
  then obtain i where i: "find (\<lambda>i. fb_bit ?arr i = False) [0..<unat (fb_len ?arr)] = Some i"
    by (cases "find (\<lambda>i. fb_bit ?arr i = False) [0..<unat (fb_len ?arr)]") (auto simp: find_None_iff)
  then have "i < unat (fb_len ?arr)" "\<not> fb_bit ?arr i" by (auto simp: find_Some_iff)
  moreover have "rte_fbarray_find_next_free ?arr 0 = Inr (of_nat i)"
    using fbarray_find_linear [OF ok s, of True False] i by (simp add: rte_fbarray_find_next_free_def fb_span_def)
  ultimately show ?thesis by (auto simp: fb_used_def)
qed

lemma reserve_entry_ok:
  assumes ok: "mz_ok w" and "fb_count (zw_arr w) < fb_len (zw_arr w)" "va \<noteq> NULL" "va \<notin> set (zw_heap w)"
    "length name < RTE_MEMZONE_NAMESIZE" "zone_index w name = None"
  shows "\<exists>mz w' z. reserve_entry env (w\<lparr>zw_heap := va # zw_heap w\<rparr>) name rlen va = (Inr mz, w') \<and> mz_ok w' \<and>
    zone_map w' = (zone_map w)(name \<mapsto> z) \<and> mz \<noteq> NULL \<and> memzone_lookup_thread_unsafe w' name = Some mz \<and>
    zw_heap w' = va # zw_heap w \<and> mz_name z = name \<and> mz_addr z = va \<and> (rlen \<noteq> 0 \<longrightarrow> mz_len z = rlen)"
proof -
  have fits: "mz_fits (zw_arr w)" using ok by (simp add: mz_ok_def)
  obtain i where i: "rte_fbarray_find_next_free (zw_arr w) 0 = Inr (of_nat i)" "i < unat (fb_len (zw_arr w))" "i \<notin> fb_used (zw_arr w)"
    using free_entry [OF fits assms(2)] by blast
  note g = zone_get [OF fits i(2)]
  have fok: "fb_ok (zw_arr w)" using fits by (simp add: mz_fits_def)
  obtain arr' where a: "set_used (zw_arr w) (of_nat i) True = Inr arr'" "fb_ok arr'" "fb_used arr' = insert i (fb_used (zw_arr w))"
    "fb_len arr' = fb_len (zw_arr w)" "fb_elt_sz arr' = fb_elt_sz (zw_arr w)" "fb_data arr' = fb_data (zw_arr w)"
    using set_used_ok [OF fok g(3), of True] g(2) by auto
  have get: "rte_fbarray_get arr' (of_nat i) = Inr (zone_ptr w i)"
    unfolding rte_fbarray_get_def a by (rule g(1) [unfolded rte_fbarray_get_def])
  let ?elem = "he_elem env va"
  define z where "z = \<lparr>mz_name = name, mz_iova = he_virt2iova env va, mz_addr = va,
    mz_len = (if rlen = 0 then el_size ?elem - ucast (el_pad ?elem) - MALLOC_ELEM_OVERHEAD else rlen),
    mz_hugepage_sz = el_page_sz ?elem, mz_socket_id = el_socket_id ?elem, mz_flags = 0\<rparr>"
  define w' where "w' = \<lparr>zw_arr = arr', zw_zones = (zw_zones w)[i := z], zw_heap = mz_addr z # zw_heap w\<rparr>"
  have run: "reserve_entry env (w\<lparr>zw_heap := va # zw_heap w\<rparr>) name rlen va = (Inr (zone_ptr w i), w')"
    by (simp add: reserve_entry_def Let_def i(1) rte_fbarray_set_used_def a(1) get g(2) w'_def z_def)
  have zf: "mz_name z = name" "mz_addr z = va" "rlen \<noteq> 0 \<longrightarrow> mz_len z = rlen" by (simp_all add: z_def)
  note add = zone_added [OF ok a(2-6) i(2,3) _ _ _ _ w'_def, unfolded zf(1,2), OF assms(3-6)]
  have "memzone_lookup_thread_unsafe w' name = Some (zone_ptr w i)" using lookup_ok [OF add(1)] add(3,4) by simp
  with run add(1,2) zf zone_find_idx(2) [OF fits i(2)] show ?thesis by (auto simp: w'_def)
qed

lemma aligned_len:
  assumes "\<not> - 1 - 63 < (len :: u64)"
  shows "len \<le> RTE_ALIGN_CEIL len 64" "len \<noteq> 0 \<Longrightarrow> RTE_ALIGN_CEIL len 64 \<noteq> 0"
proof -
  have "unat len \<le> unat (- 1 - 63 :: u64)" using assms by (simp only: not_less word_le_nat_alt)
  then have "unat len + 2 ^ 6 \<le> 2 ^ LENGTH(64)" by simp
  from align_ceil_ge(1) [OF _ this] have "unat len \<le> unat (RTE_ALIGN_CEIL len (2 ^ 6))" by simp
  then show "len \<le> RTE_ALIGN_CEIL len 64" by (simp add: word_le_nat_alt)
  then show "RTE_ALIGN_CEIL len 64 \<noteq> 0" if "len \<noteq> 0" using that by (metis word_le_0_iff)
qed

lemma reserve_alloc_fresh:
  assumes "heap_fresh env" "reserve_alloc env live len s fl al bd = (rlen, va)" "va \<noteq> NULL"
  shows "va \<notin> set live" "len \<noteq> 0 \<Longrightarrow> len \<le> rlen \<and> rlen \<noteq> 0"
proof -
  show "va \<notin> set live"
  proof -
    have "(\<exists>l s fl c. va = he_alloc env live l s fl al bd c) \<or> (\<exists>s fl c. va = he_alloc_biggest env live s fl al c)"
      using assms(2) unfolding reserve_alloc_def Let_def by (cases "len = 0 \<and> bd = 0") (simp_all only: if_True if_False prod.inject simp_thms, blast+)
    with assms(1,3) show ?thesis unfolding heap_fresh_def by blast
  qed
  show "len \<noteq> 0 \<Longrightarrow> len \<le> rlen \<and> rlen \<noteq> 0"
  proof -
    assume n: "len \<noteq> 0"
    with assms(2) have r: "rlen = max 64 len" by (auto simp: reserve_alloc_def Let_def)
    have "len \<le> max 64 len" by simp
    with n show ?thesis unfolding r by (metis word_le_0_iff)
  qed
qed

lemma zone_reserve_ok:
  assumes ok: "mz_ok w" and fresh: "heap_fresh env"
  shows "\<exists>r w'. rte_memzone_reserve_thread_safe env w name len s fl al bd = Some (r, w') \<and>
    (case r of
       Inl e \<Rightarrow> w' = w
     | Inr mz \<Rightarrow> mz_ok w' \<and> mz \<noteq> NULL \<and> zone_map w name = None \<and> rte_memzone_lookup w' name = Some mz \<and>
         (\<exists>z. zone_map w' = (zone_map w)(name \<mapsto> z) \<and> mz_name z = name \<and> (len \<noteq> 0 \<longrightarrow> len \<le> mz_len z) \<and>
            mz_addr z \<notin> set (zw_heap w) \<and> zw_heap w' = mz_addr z # zw_heap w))"
proof -
  note defs = rte_memzone_reserve_thread_safe_def memzone_reserve_aligned_thread_unsafe_def lookup_ok [OF ok]
  have ptr: "zone_ptr w i \<noteq> NULL" if "zone_index w name = Some i" for i
  proof -
    have "i < unat (fb_len (zw_arr w))" using that mz_ok_zone(1) [OF ok] zone_index_Some [OF ok] by blast
    then show ?thesis using ok by (intro zone_find_idx(2)) (simp_all add: mz_ok_def)
  qed
  let ?al = "if al < 64 then 64 else al" and ?len = "RTE_ALIGN_CEIL len 64"
  let ?a = "reserve_alloc env (zw_heap w) ?len s fl ?al bd"
  show ?thesis
  proof (cases "fb_count (zw_arr w) < fb_len (zw_arr w) \<and> length name < RTE_MEMZONE_NAMESIZE \<and> zone_index w name = None \<and>
      (al = 0 \<or> rte_is_power_of_2 al) \<and> \<not> - 1 - 63 < len \<and> reserve_checks ?len s fl bd \<and> snd ?a \<noteq> NULL")
    case True
    obtain rlen va where a: "?a = (rlen, va)" by (cases ?a) simp
    have va: "va \<noteq> NULL" using True a by simp
    note fr = reserve_alloc_fresh [OF fresh a va]
    have run: "rte_memzone_reserve_thread_safe env w name len s fl al bd =
        Some (reserve_entry env (w\<lparr>zw_heap := va # zw_heap w\<rparr>) name rlen va)"
      using True a va by (auto simp: defs Let_def RTE_MEMZONE_NAMESIZE_def)
    obtain mz w' z where r: "reserve_entry env (w\<lparr>zw_heap := va # zw_heap w\<rparr>) name rlen va = (Inr mz, w')" "mz_ok w'"
      "zone_map w' = (zone_map w)(name \<mapsto> z)" "mz \<noteq> NULL" "memzone_lookup_thread_unsafe w' name = Some mz"
      "zw_heap w' = va # zw_heap w" "mz_name z = name" "mz_addr z = va" "rlen \<noteq> 0 \<longrightarrow> mz_len z = rlen"
      using reserve_entry_ok [OF ok _ va fr(1), of name] True by blast
    have "len \<le> mz_len z" if "len \<noteq> 0"
      using aligned_len [of len] True fr(2) r(9) that by (metis order_trans)
    moreover have "zone_map w name = None" using True by (simp add: zone_map_def)
    ultimately show ?thesis using run r fr(1) by (simp add: rte_memzone_lookup_def) blast
  next
    case False
    have "\<exists>e. rte_memzone_reserve_thread_safe env w name len s fl al bd = Some (Inl e, w)"
      using False ptr by (auto simp: defs Let_def RTE_MEMZONE_NAMESIZE_def split: option.splits prod.splits)
    then show ?thesis by auto
  qed
qed

section \<open>Release\<close>

lemma zone_removed:
  assumes ok: "mz_ok w" and arr: "fb_ok arr'" "fb_used arr' = fb_used (zw_arr w) - {i}" "fb_len arr' = fb_len (zw_arr w)"
      "fb_elt_sz arr' = fb_elt_sz (zw_arr w)" "fb_data arr' = fb_data (zw_arr w)"
    and i: "i \<in> fb_used (zw_arr w)"
    and w': "w' = \<lparr>zw_arr = arr', zw_zones = (zw_zones w)[i := memzone_zero], zw_heap = remove1 (mz_addr (zw_zones w ! i)) (zw_heap w)\<rparr>"
  shows "mz_ok w'" "zone_map w' = (zone_map w)(mz_name (zw_zones w ! i) := None)" "zone_ptr w' = zone_ptr w"
proof -
  let ?u = "fb_used (zw_arr w)" and ?z = "zw_zones w ! i"
  have l: "length (zw_zones w) = unat (fb_len (zw_arr w))" using ok by (simp add: mz_ok_def)
  have il: "i < unat (fb_len (zw_arr w))" by (rule mz_ok_zone(1) [OF ok i])
  have z': "zw_zones w' ! j = (if j = i then memzone_zero else zw_zones w ! j)" for j using il l by (simp add: w')
  have u': "fb_used (zw_arr w') = ?u - {i}" by (simp add: w' arr(2))
  have inj: "inj_on (\<lambda>i. mz_name (zw_zones w ! i)) ?u" "inj_on (\<lambda>i. mz_addr (zw_zones w ! i)) ?u" and d: "distinct (zw_heap w)"
    using ok unfolding mz_ok_def by blast+
  have heap': "set (zw_heap w') = set (zw_heap w) - {mz_addr ?z}" "distinct (zw_heap w')" using d by (simp_all add: w')
  have "mz_fits (zw_arr w)" using ok by (simp only: mz_ok_def)
  then have "mz_fits arr'" by (rule mz_fits_upd [OF _ arr(1) arr(3-5)])
  moreover have "inj_on (\<lambda>i. mz_name (zw_zones w' ! i)) (fb_used (zw_arr w'))"
    "inj_on (\<lambda>i. mz_addr (zw_zones w' ! i)) (fb_used (zw_arr w'))"
    using inj unfolding u' z' by (auto simp: inj_on_def)
  moreover have "(\<lambda>i. mz_addr (zw_zones w' ! i)) ` fb_used (zw_arr w') \<subseteq> set (zw_heap w')"
    using mz_ok_zone(2) [OF ok] inj_onD [OF inj(2) _ _ i] unfolding u' z' heap' by auto
  moreover have "\<forall>j\<in>fb_used (zw_arr w'). mz_addr (zw_zones w' ! j) \<noteq> NULL \<and> length (mz_name (zw_zones w' ! j)) < RTE_MEMZONE_NAMESIZE"
    using ok by (simp add: u' z' mz_ok_def)
  moreover have "\<forall>j<unat (fb_len (zw_arr w)). j \<notin> fb_used (zw_arr w') \<longrightarrow> mz_addr (zw_zones w' ! j) = NULL"
    using ok unfolding u' z' by (auto simp: mz_ok_def memzone_zero_def)
  ultimately show ok': "mz_ok w'" using l heap'(2) unfolding mz_ok_def by (simp add: w' arr(3))
  show "zone_ptr w' = zone_ptr w" by (simp add: fun_eq_iff zone_ptr_def w' arr)
  show "zone_map w' = (zone_map w)(mz_name ?z := None)"
  proof
    fix n
    show "zone_map w' n = ((zone_map w)(mz_name ?z := None)) n"
    proof (cases "n = mz_name ?z")
      case True
      then have "zone_map w' n \<noteq> Some y" for y
        unfolding zone_map_Some [OF ok'] u' z' using inj_onD [OF inj(1) _ _ i] by auto
      with True show ?thesis by (metis fun_upd_same not_Some_eq)
    next
      case False
      have "zone_map w' n = Some y \<longleftrightarrow> zone_map w n = Some y" for y
        unfolding zone_map_Some [OF ok'] zone_map_Some [OF ok] u' z' using False by auto
      then have "zone_map w' n = zone_map w n" by (metis option.exhaust)
      with False show ?thesis by simp
    qed
  qed
qed

lemma free_ok:
  assumes ok: "mz_ok w" and z: "zone_map w n = Some z" and p: "rte_memzone_lookup w n = Some mz"
  shows "\<exists>w'. rte_memzone_free w mz = (0, w') \<and> mz_ok w' \<and> zone_map w' = (zone_map w)(n := None) \<and>
    zw_heap w' = remove1 (mz_addr z) (zw_heap w) \<and> rte_memzone_free w' mz = (- EINVAL, w')"
proof -
  from z obtain i where i: "zone_index w n = Some i" "z = zw_zones w ! i" by (auto simp: zone_map_def)
  then have iu: "i \<in> fb_used (zw_arr w)" "mz_name z = n" using zone_index_Some [OF ok] by auto
  have mz: "mz = zone_ptr w i" using p by (simp add: rte_memzone_lookup_def lookup_ok [OF ok] i(1))
  have fits: "mz_fits (zw_arr w)" using ok by (simp add: mz_ok_def)
  then have fok: "fb_ok (zw_arr w)" by (simp add: mz_fits_def)
  have il: "i < unat (fb_len (zw_arr w))" by (rule mz_ok_zone(1) [OF ok iu(1)])
  note g = zone_get [OF fits il] and f = zone_find_idx [OF fits il]
  obtain arr' where a: "set_used (zw_arr w) (of_nat i) False = Inr arr'" "fb_ok arr'" "fb_used arr' = fb_used (zw_arr w) - {i}"
    "fb_len arr' = fb_len (zw_arr w)" "fb_elt_sz arr' = fb_elt_sz (zw_arr w)" "fb_data arr' = fb_data (zw_arr w)"
    using set_used_ok [OF fok g(3), of False] g(2) by auto
  define w' where "w' = \<lparr>zw_arr = arr', zw_zones = (zw_zones w)[i := memzone_zero], zw_heap = remove1 (mz_addr (zw_zones w ! i)) (zw_heap w)\<rparr>"
  note rem = zone_removed [OF ok a(2-6) iu(1) w'_def]
  have "mz_addr (zw_zones w ! i) \<noteq> NULL" using ok iu(1) by (simp add: mz_ok_def)
  then have run: "rte_memzone_free w mz = (0, w')"
    by (simp add: rte_memzone_free_def Let_def mz f g rte_fbarray_set_free_def a(1) heap_free_def w'_def)
  have fits': "mz_fits (zw_arr w')" using rem(1) by (simp add: mz_ok_def)
  have il': "i < unat (fb_len (zw_arr w'))" using il by (simp add: w'_def a)
  have "mz_addr (zw_zones w' ! i) = NULL" using il ok by (simp add: w'_def mz_ok_def memzone_zero_def)
  then have "rte_memzone_free w' mz = (- EINVAL, w')"
    using zone_get [OF fits' il'] zone_find_idx [OF fits' il'] by (simp add: rte_memzone_free_def Let_def mz rem(3))
  with run rem iu i(2) show ?thesis by (auto simp: w'_def)
qed

section \<open>Start\<close>

lemma memzone_init_ok:
  assumes "rte_eal_memzone_init env True fw w = (0, w', fw')" "distinct (zw_heap w)"
    and "unat (fb_data (zw_arr w')) + unat sizeof_rte_memzone * unat RTE_MAX_MEMZONE < 2 ^ 64"
  shows "mz_ok w' \<and> zone_map w' = Map.empty"
proof -
  from assms(1) obtain arr where r: "rte_fbarray_init env fw (Some ''memzone'') RTE_MAX_MEMZONE sizeof_rte_memzone = (Inr arr, fw')"
    "w' = w\<lparr>zw_arr := arr, zw_zones := replicate (unat RTE_MAX_MEMZONE) memzone_zero\<rparr>"
    by (auto simp: rte_eal_memzone_init_def split: prod.splits sum.splits)
  from init_adds [OF r(1)] obtain data where d: "data \<noteq> NULL" "fully_validate (Some ''memzone'') sizeof_rte_memzone RTE_MAX_MEMZONE = None"
    "arr = fbarray_new data ''memzone'' RTE_MAX_MEMZONE sizeof_rte_memzone" by auto
  note new = fbarray_new_ok [OF d(2,3)]
  have data: "fb_data arr = data" by (simp add: d(3) fbarray_new_def)
  have "mz_fits arr"
    using new(1,3,4) d(1) assms(3) unfolding mz_fits_def r(2) data by (simp add: data sizeof_rte_memzone_def RTE_MAX_MEMZONE_def)
  then have ok: "mz_ok w'" using assms(2) new(2,3) unfolding r(2) mz_ok_def by (simp add: memzone_zero_def)
  have "zone_map w' n = None" for n
    using zone_map_Some [OF ok, of n] new(2) unfolding r(2) by (cases "zone_map w' n") (auto simp: r(2))
  with ok show ?thesis by (auto simp: fun_eq_iff)
qed

end
