(* ===== verification/Memzone_Properties.thy ===== *)
theory Memzone_Properties
  imports Memzone_Ok
begin

text \<open>Properties of memory zones.\<close>

section \<open>A table for the witnesses\<close>

definition zones4 :: mz_world where
  "zones4 = \<lparr>zw_arr = fbarray_new 0x100000 ''memzone'' 4 sizeof_rte_memzone, zw_zones = replicate 4 memzone_zero, zw_heap = []\<rparr>"

text \<open>A heap that hands out one piece of memory only.\<close>

definition heap1 :: heap_env where
  "heap1 = \<lparr>he_hugepages = True, he_alloc = (\<lambda>live _ _ _ _ _ _. if live = [] then 0x200000 else NULL),
     he_alloc_biggest = (\<lambda>live _ _ _ _. if live = [] then 0x200000 else NULL),
     he_elem = (\<lambda>_. \<lparr>el_size = 0x1000, el_pad = 0, el_page_sz = 0x200000, el_socket_id = 0\<rparr>), he_virt2iova = id\<rparr>"

lemma heap1_fresh: "heap_fresh heap1"
  by (simp add: heap_fresh_def heap1_def)

lemma zones4_ok: "mz_ok zones4" "zone_map zones4 = Map.empty" "fb_used (zw_arr zones4) = {}"
proof -
  have v: "fully_validate (Some ''memzone'') sizeof_rte_memzone 4 = None"
    by (simp add: fully_validate_def sizeof_rte_memzone_def RTE_FBARRAY_NAME_LEN_def)
  note new = fbarray_new_ok [OF v, where data = "0x100000" and nm = "''memzone''", OF refl]
  have data: "fb_data (fbarray_new 0x100000 ''memzone'' 4 sizeof_rte_memzone) = 0x100000" by (simp add: fbarray_new_def)
  have "mz_fits (fbarray_new 0x100000 ''memzone'' 4 sizeof_rte_memzone)"
    using new(1,3,4) data by (simp add: mz_fits_def sizeof_rte_memzone_def)
  then show ok: "mz_ok zones4" using new(2,3) by (simp add: mz_ok_def zones4_def memzone_zero_def)
  have "zone_map zones4 n = None" for n
    using zone_map_Some [OF ok, of n] new(2) by (cases "zone_map zones4 n") (auto simp: zones4_def)
  then show "zone_map zones4 = Map.empty" by (simp add: fun_eq_iff)
  show "fb_used (zw_arr zones4) = {}" using new(2) by (simp add: zones4_def)
qed

section \<open>The table is a map\<close>

text \<open>
  C27: the table of zones that a primary process makes is empty, and a lookup in a table in
  order returns the address of the zone of that name, or \<open>NULL\<close> if there is none; a walk visits the
  used entries, each once, in order.
\<close>

theorem memzone_lookup_walk:
  assumes "mz_ok w"
  shows "(\<exists>mz. rte_memzone_lookup w n = Some mz \<and> (mz = NULL \<longleftrightarrow> zone_map w n = None) \<and>
      (\<forall>z. zone_map w n = Some z \<longrightarrow>
        (\<exists>i\<in>fb_used (zw_arr w). rte_fbarray_get (zw_arr w) (of_nat i) = Inr mz \<and> zw_zones w ! i = z \<and> mz_name z = n))) \<and>
    rte_memzone_walk w = Some (map (zone_ptr w) (sorted_list_of_set (fb_used (zw_arr w))))"
proof
  show "\<exists>mz. rte_memzone_lookup w n = Some mz \<and> (mz = NULL \<longleftrightarrow> zone_map w n = None) \<and>
      (\<forall>z. zone_map w n = Some z \<longrightarrow>
        (\<exists>i\<in>fb_used (zw_arr w). rte_fbarray_get (zw_arr w) (of_nat i) = Inr mz \<and> zw_zones w ! i = z \<and> mz_name z = n))"
  proof (cases "zone_index w n")
    case None
    then show ?thesis by (simp add: rte_memzone_lookup_def lookup_ok [OF assms] zone_map_def)
  next
    case (Some i)
    then have i: "i \<in> fb_used (zw_arr w)" "mz_name (zw_zones w ! i) = n" using zone_index_Some [OF assms] by auto
    have fits: "mz_fits (zw_arr w)" using assms by (simp add: mz_ok_def)
    have il: "i < unat (fb_len (zw_arr w))" by (rule mz_ok_zone(1) [OF assms i(1)])
    from Some i zone_get(1) [OF fits il] zone_find_idx(2) [OF fits il] show ?thesis
      by (auto simp: rte_memzone_lookup_def lookup_ok [OF assms] zone_map_def)
  qed
  have "sorted_list_of_set (fb_used (zw_arr w)) = filter (fb_bit (zw_arr w)) [0..<unat (fb_len (zw_arr w))]"
  proof (rule sorted_distinct_set_unique)
    show "set (sorted_list_of_set (fb_used (zw_arr w))) = set (filter (fb_bit (zw_arr w)) [0..<unat (fb_len (zw_arr w))])"
      by (auto simp: fb_used_def)
  qed (simp_all add: sorted_filter [where f = id, simplified])
  then show "rte_memzone_walk w = Some (map (zone_ptr w) (sorted_list_of_set (fb_used (zw_arr w))))"
    using walk_loop_ok [of w 0 "[]"] assms by (simp add: rte_memzone_walk_def mz_ok_def)
qed

theorem memzone_lookup_walk_witness: "rte_memzone_lookup zones4 ''RG_MP_mbufs'' = Some NULL \<and> rte_memzone_walk zones4 = Some []"
  using memzone_lookup_walk [OF zones4_ok(1), of "''RG_MP_mbufs''"] zones4_ok(2,3) by simp

text \<open>
  C25: a reservation returns; it fails without any change, or enters a zone of the asked name,
  which was not in use, with at least the asked length and memory just taken from the heap, and
  changes no other zone; a lookup then finds the zone.
\<close>

theorem memzone_reserve_enters:
  assumes "mz_ok w" "heap_fresh env"
  shows "\<exists>r w'. rte_memzone_reserve_bounded env w name len socket_id flags align bound = Some (r, w') \<and>
    (case r of
       Inl e \<Rightarrow> w' = w
     | Inr mz \<Rightarrow> mz_ok w' \<and> mz \<noteq> NULL \<and> zone_map w name = None \<and> rte_memzone_lookup w' name = Some mz \<and>
         (\<exists>z. zone_map w' = (zone_map w)(name \<mapsto> z) \<and> mz_name z = name \<and> (len \<noteq> 0 \<longrightarrow> len \<le> mz_len z) \<and>
            mz_addr z \<notin> set (zw_heap w) \<and> zw_heap w' = mz_addr z # zw_heap w))"
  unfolding rte_memzone_reserve_bounded_def by (rule zone_reserve_ok [OF assms])

theorem memzone_reserve_enters_witness:
  "\<exists>mz w'. rte_memzone_reserve_bounded heap1 zones4 ''RG_MP_mbufs'' 100 0 0 64 0 = Some (Inr mz, w') \<and>
    zone_map w' ''RG_MP_mbufs'' \<noteq> None"
proof -
  have c: "fb_len (zw_arr zones4) = 4" "fb_count (zw_arr zones4) = 0" "zw_heap zones4 = []"
    by (simp_all add: zones4_def fbarray_new_def)
  have l: "memzone_lookup_thread_unsafe zones4 ''RG_MP_mbufs'' = Some NULL"
    using zones4_ok(2) by (simp add: lookup_ok [OF zones4_ok(1)] zone_map_def fun_eq_iff)
  have "\<exists>mz. fst (reserve_entry heap1 (zones4\<lparr>zw_heap := [0x200000]\<rparr>) ''RG_MP_mbufs'' 128 0x200000) = Inr mz"
    by (rule exI [of _ "0x100000"]) code_simp
  then obtain mz w' where e: "reserve_entry heap1 (zones4\<lparr>zw_heap := [0x200000]\<rparr>) ''RG_MP_mbufs'' 128 0x200000 = (Inr mz, w')"
    by (metis prod.collapse)
  have p: "rte_is_power_of_2 64" "\<not> - 1 - 63 < (100 :: u64)" "RTE_ALIGN_CEIL 100 64 = (128 :: u64)" "reserve_checks 128 0 0 0"
      "reserve_alloc heap1 [] 128 0 0 64 0 = (128, 0x200000)"
    by code_simp+
  have "rte_memzone_reserve_bounded heap1 zones4 ''RG_MP_mbufs'' 100 0 0 64 0 = Some (Inr mz, w')"
    unfolding rte_memzone_reserve_bounded_def rte_memzone_reserve_thread_safe_def memzone_reserve_aligned_thread_unsafe_def Let_def
    by (simp add: c l p e RTE_MEMZONE_NAMESIZE_def)
  then show ?thesis
    using memzone_reserve_enters [OF zones4_ok(1) heap1_fresh, of "''RG_MP_mbufs''" 100 0 0 64 0] by fastforce
qed

text \<open>
  C26: the release of a zone that a lookup found removes it and no other, gives its memory
  back to the heap, and a second release of it is refused without any change.
\<close>

theorem memzone_free_removes:
  assumes "mz_ok w" "zone_map w n = Some z" "rte_memzone_lookup w n = Some mz"
  shows "\<exists>w'. rte_memzone_free w mz = (0, w') \<and> mz_ok w' \<and> zone_map w' = (zone_map w)(n := None) \<and>
    zw_heap w' = remove1 (mz_addr z) (zw_heap w) \<and> rte_memzone_free w' mz = (- EINVAL, w')"
  by (rule free_ok [OF assms])

theorem memzone_free_removes_witness:
  "\<exists>w mz w'. mz_ok w \<and> rte_memzone_lookup w ''zone'' = Some mz \<and> mz \<noteq> NULL \<and> rte_memzone_free w mz = (0, w') \<and>
    zone_map w' ''zone'' = None"
proof -
  define z where "z = memzone_zero\<lparr>mz_name := ''zone'', mz_addr := 0x200000\<rparr>"
  have fits: "mz_fits (zw_arr zones4)" and ok: "fb_ok (zw_arr zones4)"
    using zones4_ok(1) unfolding mz_ok_def mz_fits_def by blast+
  have l: "fb_len (zw_arr zones4) = 4" by (simp add: zones4_def fbarray_new_def)
  then have "0 < fb_len (zw_arr zones4)" by simp
  from set_used_ok [OF ok this, of True] obtain arr' where a: "fb_ok arr'" "fb_used arr' = insert 0 (fb_used (zw_arr zones4))"
    "fb_len arr' = fb_len (zw_arr zones4)" "fb_elt_sz arr' = fb_elt_sz (zw_arr zones4)" "fb_data arr' = fb_data (zw_arr zones4)" by auto
  have i: "(0 :: nat) < unat (fb_len (zw_arr zones4))" "0 \<notin> fb_used (zw_arr zones4)"
    using l by (simp_all add: zones4_ok(3))
  have "zone_index zones4 ''zone'' = None" using zones4_ok(2) by (simp add: zone_map_def fun_eq_iff)
  then have z: "mz_addr z \<noteq> NULL" "mz_addr z \<notin> set (zw_heap zones4)" "length (mz_name z) < RTE_MEMZONE_NAMESIZE"
    "zone_index zones4 (mz_name z) = None"
    by (simp_all add: z_def zones4_def RTE_MEMZONE_NAMESIZE_def)
  define w where "w = \<lparr>zw_arr = arr', zw_zones = (zw_zones zones4)[0 := z], zw_heap = mz_addr z # zw_heap zones4\<rparr>"
  note add = zone_added [OF zones4_ok(1) a i z w_def]
  have n: "mz_name z = ''zone''" by (simp add: z_def)
  have "rte_memzone_lookup w ''zone'' = Some (zone_ptr zones4 0)"
    using lookup_ok [OF add(1)] add(3,4) n by (simp add: rte_memzone_lookup_def)
  moreover have "zone_map w ''zone'' = Some z" using add(2) n by simp
  ultimately show ?thesis
    using memzone_free_removes [OF add(1), of "''zone''" z "zone_ptr zones4 0"] add(1) zone_find_idx(2) [OF fits i(1)] by fastforce
qed

end
