(* ===== verification/Spec2Isabelle.thy ===== *)
theory Spec2Isabelle
  imports Ring_Concurrent_Properties App_Main_Properties Launch_Properties Packet_Properties Pool_Layout_Properties Fbarray_Properties Memzone_Properties
begin

text \<open>
  A verification library for the packet filter of this repository (\<open>src/main.c\<close>) and the
  parts of its in-tree DPDK 21.11 (\<open>src/dpdk-21.11\<close>) that the filter runs on.

  THE PROGRAM. The filter polls one port. A received packet is classified by its IPv4 and TCP
  or UDP headers; if a rule of the command line names its destination or source, it is sent on,
  to a TUN device or a raw socket, and its buffer is released. Any other packet is handed to
  the kernel through a kernel NIC interface (KNI), or released if there is none. Packets from
  the kernel go to the card. Below it are, from the top down: the control of network ports
  (\<open>lib/ethdev\<close>), the kernel interface and its shared queues (\<open>lib/kni\<close>), packet buffers
  (\<open>lib/mbuf\<close>), memory pools with per-lcore caches (\<open>lib/mempool\<close>) whose common store is a
  lock-free ring (\<open>drivers/mempool/ring\<close>, \<open>lib/ring\<close>), and the launch of the loop on the lcores
  (\<open>lib/eal\<close>). Buffers come out of the pool when a packet is received, travel through the loop
  and the queues, and have to end up in the pool again: this circulation and the decision about
  each packet are what the properties are about.

  CONVENTIONS. Machine integers keep their width (\<open>u16\<close>, \<open>u32\<close>, \<open>u64\<close>; addresses are 64-bit
  words, \<open>NULL\<close> is 0). A structure is a record with the fields the modelled code uses, an
  enumeration a datatype; \<open>int\<close> results are integers, with errno negated as in the code. State
  is passed on explicitly. An absent result (\<open>None\<close>) is undefined behaviour, a panic, or a wait
  that a thread on its own would never get past; where a theorem says that an operation
  returns, it says so as \<open>Some\<close>. Loops without a structural measure are partial functions into
  \<open>option\<close>. The configuration is the one the build files select: x86-64, cache lines of 64
  bytes, 128 lcores, 32 ports of 1024 queues, caches of at most 512 objects, headroom of 128
  bytes, statistics, cookies and debug checks off.

  LIBRARY. \<open>Prelude\<close> has the types, error numbers and generic lemmas, \<open>Eal_Bits\<close> the alignment
  arithmetic of \<open>rte_common.h\<close>, \<open>Libc\<close> the C library functions of the command line.

  RINGS (\<open>lib/ring\<close>). \<open>Ring_Core\<close>: structures, sizing, initialisation, reset (\<open>rte_ring.c\<close>).
  \<open>Ring_Elems\<close>: the unrolled copy routines (\<open>rte_ring_elem_pvt.h\<close>), equal to a loop over the
  elements. \<open>Ring_Queue\<close>: moving heads and tails in the single-thread, multi-thread, HTS and RTS
  modes, and the enqueue and dequeue made of them. \<open>Ring_API\<close>: the bulk and burst calls for
  every mode. \<open>Ring_Registry\<close>: creation, release and lookup. \<open>Fifo_Spec\<close> is the contract of a
  bounded queue, as the locales \<open>bounded_fifo\<close> and \<open>bulk_fifo\<close>, with the theorem on runs;
  the rings are an interpretation of it (\<open>ring_q\<close>). \<open>Ring_Properties\<close> states the results.
  \<open>Ring_Concurrent\<close> has the multi-thread mode as a step relation (\<open>ring_step\<close>): any number of
  threads, each with a program counter, one access to shared memory per step, a
  compare-and-set as one step. \<open>Ring_Interleaving\<close> proves its invariant \<open>sys_ok\<close>, and
  \<open>Ring_Concurrent_Properties\<close> what follows for every interleaving: FIFO order, no loss,
  duplication or overwriting, no deadlock, and that a thread left alone does exactly what the
  sequential definitions say. The relation allows a step only while no thread has been passed
  by \<open>2 ^ 32\<close> index positions between its read of a head and its compare-and-set
  (\<open>no_stall\<close>), the assumption the algorithm itself makes.

  POOLS (\<open>lib/mempool\<close>, \<open>drivers/mempool/ring\<close>). \<open>Mempool\<close>: put, get and flush through a
  cache, counts, the table of drivers. The locale \<open>mempool_driver\<close> is what a pool relies on;
  inside it, put and get are shown to neither lose nor invent objects, over the driver and all
  caches. \<open>Mempool_Ring\<close> has the six ops structures and proves that each meets the contract
  (\<open>ring_mode_driver\<close>). \<open>Pool_Properties\<close> states the results for them. \<open>Mempool_Layout\<close>: the
  size of an object and how it spreads the objects over the memory channels, the memory asked
  for, and the population of a chunk of memory with objects (\<open>rte_mempool.c\<close>,
  \<open>rte_mempool_ops_default.c\<close>); \<open>Pool_Layout_Properties\<close>: a chunk of the size asked for holds all
  objects, which neither overlap nor cross a page.

  FILE-BACKED ARRAYS (\<open>lib/eal/common/eal_common_fbarray.c\<close>), the base of the table of memory
  zones. \<open>Fbarray\<close>: the structure, marking, and the searches for entries, for the length of a
  run and for the biggest run, 64 entries of the mask at a time. \<open>Fbarray_Runs\<close>: the search for
  \<open>n\<close> consecutive entries. \<open>Fbarray_Files\<close>: making, attaching, detaching and destroying, where
  \<open>fb_world\<close> is what the process holds and \<open>fb_env\<close> what the operating system answers.
  \<open>Fbarray_Search\<close> (single entries and lengths), \<open>Fbarray_Ops\<close> (marking, shortcuts),
  \<open>Fbarray_Biggest\<close> and \<open>Fbarray_Runs_Ok\<close> prove the operations against the list of entries
  \<open>fb_span\<close> that a search looks at; \<open>fb_ok\<close> says that mask and count agree. \<open>Fbarray_Properties\<close>
  states the results, among them the faults of the search for \<open>n\<close> entries. The loop for the
  biggest run is a partial function, proved to end; all others recur on the masks left.

  MEMORY ZONES (\<open>lib/eal/common/eal_common_memzone.c\<close>). \<open>Memzone\<close>: lookup, walk, reservation,
  release and start, over a file-backed array; the heap is a parameter (\<open>heap_env\<close>), and the
  addresses it has handed out are part of the state \<open>mz_world\<close>. \<open>Memzone_Ok\<close>: the invariant
  \<open>mz_ok\<close> and the table as the map \<open>zone_map\<close> from names to zones; the loops over the entries are
  partial functions, proved to end. \<open>Memzone_Properties\<close>: a reservation enters exactly one zone
  or changes nothing, a release removes exactly one, and a second release is refused. The
  hypothesis \<open>heap_fresh\<close> says that the heap hands out nothing twice.

  BUFFERS (\<open>lib/mbuf\<close>). \<open>Mbuf\<close>: the structure, reference counts, allocation, attachment,
  detachment, release, initialisation. The state \<open>mbuf_world\<close> holds structures, pools and bytes
  by address. \<open>Mbuf_Release\<close>, inside \<open>mempool_driver\<close>: where buffers go. \<open>Mbuf_Data\<close>: growing,
  shrinking, reading, chaining and checking packets; \<open>pkt_ok\<close> is a well-formed packet and
  \<open>pkt_data\<close> its bytes. \<open>Mbuf_Copy\<close>: bulk release, linearisation, clone and copy; \<open>Mbuf_Bulk\<close>
  has the proofs about the first two, \<open>Mempool_Near\<close> and \<open>Mbuf_Clone\<close> those about the clone. \<open>Buffer_Properties\<close> and \<open>Packet_Properties\<close> state the
  results over pools of the ring driver.

  KERNEL INTERFACE (\<open>lib/kni\<close>). \<open>Kni_Fifo\<close>: the shared queues, another interpretation of
  \<open>bounded_fifo\<close> (\<open>kni_q\<close>). \<open>Kni\<close>: creation with rollback, bursts, refill, release. \<open>Kni_Buffers\<close>:
  where buffers are meanwhile, and \<open>pa_linked\<close>, the chain by physical addresses that the kernel
  follows. \<open>Kni_Properties\<close>: the results. The blocks \<open>rte_kni_alloc\<close> takes from the heap for its
  own bookkeeping, and the lock of its list, are not in the state. The kernel is the other end of
  the queues and may leave any well-formed contents in them. The wait for it in the release
  ends after five rounds, as in the code.

  PORTS (\<open>lib/ethdev\<close>). \<open>Ethdev\<close>: devices, their enumeration, drivers as tables of callbacks.
  \<open>Ethdev_Control\<close>: information, configuration with its rollback, start, stop, modes.
  \<open>Ethdev_Queues\<close>: queue set-up and descriptor numbers. \<open>Ethdev_Flags\<close>: what each call leaves
  alone. \<open>Ethdev_Safety\<close>: any sequence of calls, and the invariant that the fast path reaches a
  driver only while the device is started. \<open>Ethdev_Properties\<close>: the results. A driver may do
  what it likes with the hardware state. What it may do with the flags of its device is
  \<open>driver_contract\<close>: it may clear \<open>dev_started\<close> when it stops or configures and set it when it
  starts, as the drivers in the tree do, but configuring, stopping and failing to start do not
  mark a stopped device as started, the other callbacks leave it alone, and none writes
  \<open>dev_configured\<close>; callbacks act on their own device. Errors are negative where a theorem says so.

  LAUNCH (\<open>lib/eal\<close>). \<open>Launch\<close>: the main thread and the worker threads as a step relation over
  pipes and shared flags. \<open>Launch_Properties\<close>: in every interleaving each worker runs the
  function once, and the launch ends after exactly \<open>17 n + 4\<close> steps for \<open>n\<close> workers.

  THE FILTER (\<open>src/main.c\<close>). \<open>App_Filter\<close>: the rule list. \<open>App_Options\<close>: the command line.
  \<open>App_Packet\<close>: header parsing, forwarding, hand-over and one iteration of \<open>lcore_main\<close>; what
  is sent is recorded in \<open>as_out\<close>. \<open>App_Loop\<close> and \<open>App_Frames\<close>: what a burst does to the
  buffers, and the layout of frames. \<open>App_Properties\<close>: from the command line to the rules, from
  the frame in the buffer to what is done with it, and executions of the loop with the number of
  packets received (\<open>lcore_run\<close>). \<open>App_Main\<close>: \<open>port_init\<close>, \<open>init_kni\<close>,
  the devices, and \<open>main\<close> before and after the loop; \<open>App_Main_Properties\<close>: the port is up after
  \<open>port_init\<close>, and the program as written never has a kernel interface.

  NOT MODELLED. \<open>rte_eal_init\<close> and the heap are parameters; the rings and the kernel interface still take
  the outcome of their own reservations of memory zones as a parameter, and so is the outcome
  of \<open>rte_pktmbuf_pool_create\<close> (reserving the memory zones of a pool depends on the layout of
  huge pages). Drivers of cards, system calls and the kernel module are parameters, with the
  documented behaviour as hypotheses. Of the libraries above: the request protocol of KNI
  (\<open>rte_kni_handle_request\<close>), ethdev statistics, link, flow control, hairpin queues, reset and
  close, the peek API of the rings, the dynamic fields of buffers, iterators and dumps. The
  HTS and RTS rings are modelled sequentially only. Concurrency of the packet loop itself is
  not: the loop is the one of a single lcore, although the program starts it on all of them.
  The other DPDK libraries, examples, tests and tools are not used by the filter.
\<close>

end
